(* ===== verification/Srs_Prelude.thy ===== *)
theory Srs_Prelude
  imports "HOL-Library.Word"
begin

text \<open>
  Shared vocabulary of the development: the error codes of
  \<^verbatim>\<open>srs_kernel_error.hpp\<close> that the modelled code returns, the result type of a
  fallible operation, and the memory image of an integer (the code reads and writes
  integers through a \<^verbatim>\<open>char*\<close> to a little endian object, \<^verbatim>\<open>pp[i]\<close>).
\<close>

named_theorems codec_simps \<open>rewriting the buffer operations on known contents\<close>

section \<open>Errors and results\<close>

text \<open>
  A function of the code that returns an error code becomes a function into a sum: \<open>Inl\<close>
  is the error code, \<open>Inr\<close> the outputs. \<open>ASSERT_FAILED\<close> stands for a failed
  \<^verbatim>\<open>srs_assert\<close> (the process aborts), \<open>UNDEFINED_BEHAVIOUR\<close> for an access that C++
  leaves undefined, and \<open>OUT_OF_FUEL\<close> for a model that ran out of its step bound (it is
  shown that none does).
\<close>

datatype srs_error =
    ERROR_SOCKET_READ
  | ERROR_SOCKET_READ_FULLY
  | ERROR_SOCKET_WRITE
  | ERROR_SOCKET_TIMEOUT
  | ERROR_SYSTEM_PACKET_INVALID
  | ERROR_READER_BUFFER_OVERFLOW
  | ERROR_KERNEL_STREAM_INIT
  | ERROR_RTMP_CHUNK_START
  | ERROR_RTMP_AMF0_DECODE
  | ERROR_RTMP_AMF0_INVALID
  | ERROR_RTMP_AMF0_ENCODE
  | ERROR_RTMP_MESSAGE_DECODE
  | ERROR_RTMP_MESSAGE_ENCODE
  | ERROR_RTMP_CHUNK_SIZE
  | ERROR_RTMP_PACKET_SIZE
  | ERROR_RTMP_NO_REQUEST
  | ERROR_RTMP_AGGREGATE
  | ERROR_HLS_DECODE_ERROR
  | ERROR_HLS_AVC_TRY_OTHERS
  | ERROR_HLS_TRY_MP3
  | ERROR_AVC_NALU_UEV
  | ERROR_SYSTEM_FILE_ALREADY_OPENED
  | ERROR_SYSTEM_FILE_OPENE
  | ERROR_SYSTEM_FILE_WRITE
  | ERROR_SYSTEM_FILE_READ
  | ERROR_SYSTEM_FILE_EOF
  | ERROR_SYSTEM_FILE_SEEK
  | ERROR_KERNEL_FLV_HEADER
  | ERROR_KERNEL_FLV_STREAM_CLOSED
  | ERROR_RTMP_REQ_CONNECT
  | ERROR_RTMP_PLAIN_REQUIRED
  | ASSERT_FAILED
  | UNDEFINED_BEHAVIOUR
  | OUT_OF_FUEL

type_synonym 'a res = "srs_error + 'a"

definition bindR :: "'e + 'a \<Rightarrow> ('a \<Rightarrow> 'e + 'b) \<Rightarrow> 'e + 'b" where
  "bindR m f = (case m of Inl e \<Rightarrow> Inl e | Inr x \<Rightarrow> f x)"

lemma bindR_Inl [simp]: "bindR (Inl e) f = Inl e"
  and bindR_Inr [simp]: "bindR (Inr x) f = f x"
  by (simp_all add: bindR_def)

lemma bindR_eq_Inr: "bindR m f = Inr y \<longleftrightarrow> (\<exists>x. m = Inr x \<and> f x = Inr y)"
  by (cases m) auto

lemma bindR_eq_Inl: "bindR m f = Inl e \<longleftrightarrow> m = Inl e \<or> (\<exists>x. m = Inr x \<and> f x = Inl e)"
  by (cases m) auto

lemma bindR_assoc: "bindR (bindR m f) g = bindR m (\<lambda>x. bindR (f x) g)"
  by (cases m) auto

lemma bindR_if: "bindR (if b then m else n) f = (if b then bindR m f else bindR n f)"
  by simp

lemma bindR_cong [cong]: "m = n \<Longrightarrow> bindR m f = bindR n f"
  by simp

text \<open>The code's \<^verbatim>\<open>if (!cond) { ret = ERROR; return ret; }\<close>.\<close>

definition check :: "bool \<Rightarrow> srs_error \<Rightarrow> unit res" where
  "check c e = (if c then Inr () else Inl e)"

lemma check_True [simp]: "check True e = Inr ()"
  and check_False [simp]: "check False e = Inl e"
  by (simp_all add: check_def)

lemma check_eq_Inr: "check c e = Inr u \<longleftrightarrow> c"
  by (simp add: check_def)

section \<open>Bytes and the memory image of integers\<close>

type_synonym byte = "8 word"

text \<open>\<^verbatim>\<open>((char*)&value)[i]\<close> on a little endian machine.\<close>

definition byte_at :: "nat \<Rightarrow> 'a::len word \<Rightarrow> byte" where
  "byte_at i w = ucast (drop_bit (8 * i) w)"

definition mem_of_word :: "nat \<Rightarrow> 'a::len word \<Rightarrow> byte list" where
  "mem_of_word n w = map (\<lambda>i. byte_at i w) [0..<n]"

text \<open>
  The integer whose memory image starts with the given bytes, the remaining bytes zero.
\<close>

fun word_of_mem :: "byte list \<Rightarrow> 'a::len word" where
  "word_of_mem [] = 0"
| "word_of_mem (b # bs) = or (ucast b) (push_bit 8 (word_of_mem bs))"

lemma length_mem_of_word [simp]: "length (mem_of_word n w) = n"
  by (simp add: mem_of_word_def)

lemma bit_byte_at: "bit (byte_at i w) j \<longleftrightarrow> j < 8 \<and> bit w (8 * i + j)"
  by (auto simp: byte_at_def bit_ucast_iff bit_drop_bit_eq add.commute dest: bit_imp_le_length)

lemma bit_word_of_mem:
  "bit (word_of_mem bs :: 'a::len word) i \<longleftrightarrow>
     i < LENGTH('a) \<and> i div 8 < length bs \<and> bit (bs ! (i div 8)) (i mod 8)"
proof (induction bs arbitrary: i)
  case Nil
  then show ?case by simp
next
  case (Cons b bs)
  show ?case
  proof (cases "i < 8")
    case True
    then show ?thesis
      by (auto simp: bit_or_iff bit_ucast_iff bit_push_bit_iff)
  next
    case False
    then have d: "i div 8 = Suc ((i - 8) div 8)" and m: "i mod 8 = (i - 8) mod 8"
      by (simp_all add: div_if mod_if)
    from False have "\<not> bit b i"
      by (auto dest: bit_imp_le_length)
    with False show ?thesis
      by (auto simp: bit_or_iff bit_ucast_iff bit_push_bit_iff Cons.IH d m
               dest: bit_imp_le_length)
  qed
qed

lemma word_of_mem_of_word:
  fixes w :: "'a::len word"
  assumes "LENGTH('a) \<le> 8 * n"
  shows "word_of_mem (mem_of_word n w) = w"
proof (rule bit_word_eqI)
  fix i assume i: "i < LENGTH('a)"
  with assms have "i div 8 < n" by (simp add: less_mult_imp_div_less mult.commute)
  with i show "bit (word_of_mem (mem_of_word n w) :: 'a word) i = bit w i"
    by (simp add: bit_word_of_mem mem_of_word_def bit_byte_at)
qed

lemma word_of_mem_take_bit:
  fixes w :: "'a::len word"
  shows "word_of_mem (mem_of_word n w) = take_bit (8 * n) w"
proof (rule bit_word_eqI)
  fix i assume i: "i < LENGTH('a)"
  have "i div 8 < n \<longleftrightarrow> i < 8 * n"
    by (simp add: div_less_iff_less_mult mult.commute)
  with i show "bit (word_of_mem (mem_of_word n w) :: 'a word) i = bit (take_bit (8 * n) w) i"
    by (auto simp: bit_word_of_mem mem_of_word_def bit_byte_at bit_take_bit_iff)
qed

lemma mem_of_word_of_mem:
  assumes "8 * length bs \<le> LENGTH('a::len)"
  shows "mem_of_word (length bs) (word_of_mem bs :: 'a word) = bs"
proof (rule nth_equalityI)
  show "length (mem_of_word (length bs) (word_of_mem bs :: 'a word)) = length bs" by simp
next
  fix i assume "i < length (mem_of_word (length bs) (word_of_mem bs :: 'a word))"
  then have i: "i < length bs" by simp
  show "mem_of_word (length bs) (word_of_mem bs :: 'a word) ! i = bs ! i"
  proof (rule bit_word_eqI)
    fix j assume "j < LENGTH(8)"
    then have j: "j < 8" by simp
    then have d: "(8 * i + j) div 8 = i" and m: "(8 * i + j) mod 8 = j" by simp_all
    from i j assms have l: "8 * i + j < LENGTH('a)" by linarith
    show "bit (mem_of_word (length bs) (word_of_mem bs :: 'a word) ! i) j = bit (bs ! i) j"
      using i j l by (simp add: mem_of_word_def bit_byte_at bit_word_of_mem d m)
  qed
qed

section \<open>Strings\<close>

text \<open>
  A \<^verbatim>\<open>std::string\<close> is a list of \<^typ>\<open>char\<close>, which has exactly the 256 values of a byte;
  the buffer holds the same characters as bytes.
\<close>

definition byte_of_char :: "char \<Rightarrow> byte" where
  "byte_of_char c = of_char c"

definition char_of_byte :: "byte \<Rightarrow> char" where
  "char_of_byte b = char_of (unat b)"

lemma unat_byte_of_char: "unat (byte_of_char c) = of_char c"
proof -
  have "unat (of_nat (of_char c) :: byte) = of_char c mod 256"
    by (simp add: unat_of_nat)
  also have "\<dots> = of_char c"
    by (metis char_of_char of_char_of)
  finally have "unat (of_nat (of_char c) :: byte) = of_char c" .
  then show ?thesis by (simp only: byte_of_char_def of_nat_of_char)
qed

lemma char_of_byte_of_char [simp]: "char_of_byte (byte_of_char c) = c"
  by (simp add: char_of_byte_def unat_byte_of_char)

lemma byte_of_char_of_byte [simp]: "byte_of_char (char_of_byte b) = b"
proof -
  have "unat b < 2 ^ LENGTH(8)" by (rule unsigned_less)
  then have "unat b < 256" by simp
  then have "unat (byte_of_char (char_of_byte b)) = unat b"
    by (simp add: unat_byte_of_char char_of_byte_def)
  then show ?thesis by (simp only: word_unat_eq_iff)
qed

section \<open>Programs with state\<close>

text \<open>
  A method that changes its object and may fail: the state that an error leaves behind is
  part of the result, as it is in the code.
\<close>

type_synonym ('s, 'a) prog = "'s \<Rightarrow> 'a res \<times> 's"

definition returnP :: "'a \<Rightarrow> ('s, 'a) prog" where
  "returnP x s = (Inr x, s)"

definition raiseP :: "srs_error \<Rightarrow> ('s, 'a) prog" where
  "raiseP e s = (Inl e, s)"

definition bindP :: "('s, 'a) prog \<Rightarrow> ('a \<Rightarrow> ('s, 'b) prog) \<Rightarrow> ('s, 'b) prog" where
  "bindP m f s = (case m s of (Inl e, s') \<Rightarrow> (Inl e, s') | (Inr x, s') \<Rightarrow> f x s')"

definition checkP :: "bool \<Rightarrow> srs_error \<Rightarrow> ('s, unit) prog" where
  "checkP c e s = (if c then Inr () else Inl e, s)"

definition getP :: "('s \<Rightarrow> 'a) \<Rightarrow> ('s, 'a) prog" where
  "getP f s = (Inr (f s), s)"

definition modifyP :: "('s \<Rightarrow> 's) \<Rightarrow> ('s, unit) prog" where
  "modifyP f s = (Inr (), f s)"

text \<open>A step that does not look at the state.\<close>

definition liftR :: "'a res \<Rightarrow> ('s, 'a) prog" where
  "liftR r = (\<lambda>s. (r, s))"

named_theorems prog_simps \<open>rewriting programs on a known state\<close>

lemma prog_eqs [prog_simps]:
  "returnP x s = (Inr x, s)"
  "raiseP e s = (Inl e, s)"
  "checkP c e s = (if c then Inr () else Inl e, s)"
  "getP g s = (Inr (g s), s)"
  "modifyP h s = (Inr (), h s)"
  by (simp_all add: returnP_def raiseP_def checkP_def getP_def modifyP_def)

lemma bindP_Inr: "m s = (Inr x, s') \<Longrightarrow> bindP m f s = f x s'"
  and bindP_Inl: "m s = (Inl e, s') \<Longrightarrow> bindP m f s = (Inl e, s')"
  by (simp_all add: bindP_def)

lemma bindP_assoc: "bindP (bindP m f) g = bindP m (\<lambda>x. bindP (f x) g)"
  by (auto simp: bindP_def fun_eq_iff split: prod.splits sum.splits)

lemma bindP_check_True: "bindP (checkP True e) g = g ()"
  by (simp add: fun_eq_iff bindP_def checkP_def)

lemma bindP_eqs [prog_simps]:
  "bindP (returnP x) f s = f x s"
  "bindP (raiseP e) f s = (Inl e, s)"
  "bindP (checkP c e) g s = (if c then g () s else (Inl e, s))"
  "bindP (getP h) f s = f (h s) s"
  "bindP (modifyP k) g s = g () (k s)"
  by (simp_all add: bindP_def prog_eqs)

lemma bind_liftR: "bindP (liftR r) f s = (case r of Inl e \<Rightarrow> (Inl e, s) | Inr x \<Rightarrow> f x s)"
  by (cases r) (simp_all add: liftR_def bindP_def)

text \<open>An invariant that every step of a program keeps, and the errors it can end with.\<close>

definition keeps :: "('s \<Rightarrow> bool) \<Rightarrow> (srs_error \<Rightarrow> bool) \<Rightarrow> ('a \<Rightarrow> 's \<Rightarrow> bool) \<Rightarrow> 'a res \<times> 's \<Rightarrow> bool" where
  "keeps I E Q r \<longleftrightarrow> I (snd r) \<and> (case fst r of Inl e \<Rightarrow> E e | Inr x \<Rightarrow> Q x (snd r))"

lemma keeps_bind:
  assumes "keeps I E Q (m s)" and "\<And>x s'. I s' \<Longrightarrow> Q x s' \<Longrightarrow> keeps I E R (f x s')"
  shows "keeps I E R (bindP m f s)"
proof (cases "fst (m s)")
  case (Inl e)
  with assms(1) show ?thesis by (cases "m s") (simp add: keeps_def bindP_def)
next
  case (Inr x)
  then obtain s' where m: "m s = (Inr x, s')" by (cases "m s") simp
  with assms(1) have "I s'" and "Q x s'" by (simp_all add: keeps_def)
  from assms(2) [OF this] m show ?thesis by (simp add: bindP_def)
qed

lemma keeps_mono:
  "keeps I E Q r \<Longrightarrow> (\<And>e. E e \<Longrightarrow> E' e) \<Longrightarrow> (\<And>x s. I s \<Longrightarrow> Q x s \<Longrightarrow> Q' x s) \<Longrightarrow> keeps I E' Q' r"
  by (auto simp: keeps_def split: sum.splits)

end
