(* ===== verification/Srs_Buffer.thy ===== *)
theory Srs_Buffer
  imports Srs_Prelude
begin

text \<open>
  The byte buffer \<^verbatim>\<open>SrsBuffer\<close> of \<^verbatim>\<open>src/kernel/srs_kernel_buffer.cpp\<close> and the bit
  reader \<^verbatim>\<open>SrsBitBuffer\<close> on top of it: every read and write of the codecs goes through
  these operations. The interface \<open>field_codec\<close> states what a writer and a reader of one
  field promise each other; every primitive is shown to satisfy it.
\<close>

section \<open>The buffer\<close>

text \<open>
  \<open>sb_bytes\<close> is the memory from \<^verbatim>\<open>bytes\<close> to \<^verbatim>\<open>bytes + nb_bytes\<close>, \<open>sb_pos\<close> the
  offset \<^verbatim>\<open>p - bytes\<close>, and \<open>sb_null\<close> tells whether \<^verbatim>\<open>bytes\<close> is \<^verbatim>\<open>NULL\<close>.
\<close>

record sbuf =
  sb_null :: bool
  sb_bytes :: "byte list"
  sb_pos :: nat

definition set_value :: "byte list option \<Rightarrow> sbuf" where
  "set_value b = (case b of
     None \<Rightarrow> \<lparr>sb_null = True, sb_bytes = [], sb_pos = 0\<rparr>
   | Some bs \<Rightarrow> \<lparr>sb_null = False, sb_bytes = bs, sb_pos = 0\<rparr>)"

definition buf_initialize :: "byte list option \<Rightarrow> sbuf res" where
  "buf_initialize b = (case b of
     None \<Rightarrow> Inl ERROR_KERNEL_STREAM_INIT
   | Some bs \<Rightarrow> if length bs \<le> 0 then Inl ERROR_KERNEL_STREAM_INIT
               else Inr \<lparr>sb_null = False, sb_bytes = bs, sb_pos = 0\<rparr>)"

definition buf_size :: "sbuf \<Rightarrow> int" where
  "buf_size s = int (length (sb_bytes s))"

definition buf_tell :: "sbuf \<Rightarrow> int" where
  "buf_tell s = int (sb_pos s)"

definition buf_empty :: "sbuf \<Rightarrow> bool" where
  "buf_empty s \<longleftrightarrow> sb_null s \<or> length (sb_bytes s) \<le> sb_pos s"

definition buf_require :: "int \<Rightarrow> sbuf \<Rightarrow> bool res" where
  "buf_require n s = bindR (check (0 \<le> n) ASSERT_FAILED)
     (\<lambda>_. Inr (n \<le> int (length (sb_bytes s)) - int (sb_pos s)))"

text \<open>
  \<^verbatim>\<open>skip\<close> moves the pointer either way and checks no bound; moving it before the start
  of the array is undefined in C++.
\<close>

definition buf_skip :: "int \<Rightarrow> sbuf \<Rightarrow> sbuf res" where
  "buf_skip n s = bindR (check (\<not> sb_null s) ASSERT_FAILED)
     (\<lambda>_. bindR (check (0 \<le> int (sb_pos s) + n) UNDEFINED_BEHAVIOUR)
     (\<lambda>_. Inr (s\<lparr>sb_pos := nat (int (sb_pos s) + n)\<rparr>)))"

text \<open>\<^verbatim>\<open>srs_assert(require(n))\<close>, then copy \<^verbatim>\<open>n\<close> bytes from or to the pointer.\<close>

definition room :: "nat \<Rightarrow> sbuf \<Rightarrow> bool" where
  "room n s \<longleftrightarrow> sb_pos s + n \<le> length (sb_bytes s)"

definition adv :: "nat \<Rightarrow> sbuf \<Rightarrow> sbuf" where
  "adv n s = s\<lparr>sb_pos := sb_pos s + n\<rparr>"

definition upcoming :: "sbuf \<Rightarrow> byte list" where
  "upcoming s = drop (sb_pos s) (sb_bytes s)"

definition put :: "byte list \<Rightarrow> sbuf \<Rightarrow> sbuf" where
  "put bs s = s\<lparr>sb_bytes := take (sb_pos s) (sb_bytes s) @ bs
                  @ drop (sb_pos s + length bs) (sb_bytes s),
                sb_pos := sb_pos s + length bs\<rparr>"

definition fetch :: "int \<Rightarrow> sbuf \<Rightarrow> (byte list \<times> sbuf) res" where
  "fetch n s = bindR (buf_require n s) (\<lambda>b. bindR (check b ASSERT_FAILED)
     (\<lambda>_. Inr (take (nat n) (upcoming s), adv (nat n) s)))"

definition store :: "byte list \<Rightarrow> sbuf \<Rightarrow> sbuf res" where
  "store bs s = bindR (buf_require (int (length bs)) s) (\<lambda>b. bindR (check b ASSERT_FAILED)
     (\<lambda>_. Inr (put bs s)))"

text \<open>The readers: the first byte read is the most significant one.\<close>

definition read_1bytes :: "sbuf \<Rightarrow> (8 word \<times> sbuf) res" where
  "read_1bytes s = bindR (fetch 1 s) (\<lambda>(bs, s). Inr (word_of_mem (rev bs), s))"

definition read_2bytes :: "sbuf \<Rightarrow> (16 word \<times> sbuf) res" where
  "read_2bytes s = bindR (fetch 2 s) (\<lambda>(bs, s). Inr (word_of_mem (rev bs), s))"

definition read_3bytes :: "sbuf \<Rightarrow> (32 word \<times> sbuf) res" where
  "read_3bytes s = bindR (fetch 3 s) (\<lambda>(bs, s). Inr (word_of_mem (rev bs), s))"

definition read_4bytes :: "sbuf \<Rightarrow> (32 word \<times> sbuf) res" where
  "read_4bytes s = bindR (fetch 4 s) (\<lambda>(bs, s). Inr (word_of_mem (rev bs), s))"

definition read_8bytes :: "sbuf \<Rightarrow> (64 word \<times> sbuf) res" where
  "read_8bytes s = bindR (fetch 8 s) (\<lambda>(bs, s). Inr (word_of_mem (rev bs), s))"

definition read_string :: "int \<Rightarrow> sbuf \<Rightarrow> (string \<times> sbuf) res" where
  "read_string n s = bindR (fetch n s) (\<lambda>(bs, s). Inr (map char_of_byte bs, s))"

definition read_bytes :: "int \<Rightarrow> sbuf \<Rightarrow> (byte list \<times> sbuf) res" where
  "read_bytes n s = fetch n s"

text \<open>The writers.\<close>

definition write_1bytes :: "8 word \<Rightarrow> sbuf \<Rightarrow> sbuf res" where
  "write_1bytes v s = store (rev (mem_of_word 1 v)) s"

definition write_2bytes :: "16 word \<Rightarrow> sbuf \<Rightarrow> sbuf res" where
  "write_2bytes v s = store (rev (mem_of_word 2 v)) s"

definition write_3bytes :: "32 word \<Rightarrow> sbuf \<Rightarrow> sbuf res" where
  "write_3bytes v s = store (rev (mem_of_word 3 v)) s"

definition write_4bytes :: "32 word \<Rightarrow> sbuf \<Rightarrow> sbuf res" where
  "write_4bytes v s = store (rev (mem_of_word 4 v)) s"

definition write_8bytes :: "64 word \<Rightarrow> sbuf \<Rightarrow> sbuf res" where
  "write_8bytes v s = store (rev (mem_of_word 8 v)) s"

definition write_string :: "string \<Rightarrow> sbuf \<Rightarrow> sbuf res" where
  "write_string v s = store (map byte_of_char v) s"

definition write_bytes :: "byte list \<Rightarrow> sbuf \<Rightarrow> sbuf res" where
  "write_bytes bs s = store bs s"

text \<open>The guard every codec writes before an access: \<^verbatim>\<open>if (!stream->require(n)) return e\<close>.\<close>

definition need :: "int \<Rightarrow> srs_error \<Rightarrow> sbuf \<Rightarrow> unit res" where
  "need n e s = bindR (buf_require n s) (\<lambda>b. check b e)"

section \<open>Laws of the buffer\<close>

text \<open>\<open>be n w\<close> is the big endian image that a writer of \<open>n\<close> bytes produces.\<close>

definition be :: "nat \<Rightarrow> 'a::len word \<Rightarrow> byte list" where
  "be n w = rev (mem_of_word n w)"

lemma length_be [simp]: "length (be n w) = n"
  by (simp add: be_def)

lemma length_put [simp]:
  "room (length bs) s \<Longrightarrow> length (sb_bytes (put bs s)) = length (sb_bytes s)"
  by (simp add: put_def room_def)

lemma sb_pos_put [simp]: "sb_pos (put bs s) = sb_pos s + length bs"
  and sb_pos_adv [simp]: "sb_pos (adv n s) = sb_pos s + n"
  and sb_bytes_adv [simp]: "sb_bytes (adv n s) = sb_bytes s"
  and sb_null_put [simp]: "sb_null (put bs s) = sb_null s"
  and sb_null_adv [simp]: "sb_null (adv n s) = sb_null s"
  by (simp_all add: put_def adv_def)

lemma adv_0 [simp]: "adv 0 s = s"
  and adv_adv [simp]: "adv n (adv m s) = adv (m + n) s"
  by (simp_all add: adv_def add.assoc)

lemma room_mono: "room n s \<Longrightarrow> m \<le> n \<Longrightarrow> room m s"
  by (simp add: room_def)

lemma room_put: "room (length bs) s \<Longrightarrow> room n (put bs s) \<longleftrightarrow> room (length bs + n) s"
  by (simp add: room_def add.assoc)

lemma put_put: "room (length xs) s \<Longrightarrow> put ys (put xs s) = put (xs @ ys) s"
  by (simp add: put_def room_def ac_simps)

lemma put_Nil [simp]: "put [] s = s"
  by (simp add: put_def)

lemma upcoming_adv: "upcoming (adv n s) = drop n (upcoming s)"
  by (simp add: upcoming_def add.commute)

lemma room_upcoming: "0 < n \<Longrightarrow> room n s \<longleftrightarrow> n \<le> length (upcoming s)"
  by (auto simp: room_def upcoming_def)

lemma buf_empty_upcoming: "buf_empty s \<longleftrightarrow> sb_null s \<or> upcoming s = []"
  by (auto simp: buf_empty_def upcoming_def)

lemma need_eq: "0 \<le> n \<Longrightarrow> need n e s = (if room (nat n) s then Inr () else Inl e)"
  by (simp add: need_def buf_require_def room_def check_def nat_le_iff le_diff_eq) linarith

lemma need_numeral [codec_simps]:
  "need (numeral k) e s = (if room (numeral k) s then Inr () else Inl e)"
  "need 1 e s = (if room 1 s then Inr () else Inl e)"
  "need (int n) e s = (if room n s then Inr () else Inl e)"
  by (simp_all add: need_eq)

lemma fetch_eq: "fetch (int n) s =
    (if room n s then Inr (take n (upcoming s), adv n s) else Inl ASSERT_FAILED)"
  by (auto simp: fetch_def buf_require_def room_def)

lemma fetch_numeral:
  "fetch (numeral k) s =
    (if room (numeral k) s then Inr (take (numeral k) (upcoming s), adv (numeral k) s)
     else Inl ASSERT_FAILED)"
  "fetch 1 s = (if room 1 s then Inr (take 1 (upcoming s), adv 1 s) else Inl ASSERT_FAILED)"
  using fetch_eq [of "numeral k" s] fetch_eq [of 1 s] by simp_all

lemma store_eq: "store bs s = (if room (length bs) s then Inr (put bs s) else Inl ASSERT_FAILED)"
  by (auto simp: store_def buf_require_def room_def)

lemma write_eqs [codec_simps]:
  "write_1bytes v1 s = (if room 1 s then Inr (put (be 1 v1) s) else Inl ASSERT_FAILED)"
  "write_2bytes v2 s = (if room 2 s then Inr (put (be 2 v2) s) else Inl ASSERT_FAILED)"
  "write_3bytes v3 s = (if room 3 s then Inr (put (be 3 v3) s) else Inl ASSERT_FAILED)"
  "write_4bytes v4 s = (if room 4 s then Inr (put (be 4 v4) s) else Inl ASSERT_FAILED)"
  "write_8bytes v8 s = (if room 8 s then Inr (put (be 8 v8) s) else Inl ASSERT_FAILED)"
  "write_string str s = (if room (length str) s then Inr (put (map byte_of_char str) s)
                         else Inl ASSERT_FAILED)"
  by (simp_all add: write_1bytes_def write_2bytes_def write_3bytes_def write_4bytes_def
      write_8bytes_def write_string_def store_eq be_def)

lemma upcoming_room: "upcoming s = bs @ rest \<Longrightarrow> bs \<noteq> [] \<Longrightarrow> room (length bs) s"
  by (subst room_upcoming) auto

lemma fetch_upcoming:
  "upcoming s = bs @ rest \<Longrightarrow> bs \<noteq> [] \<Longrightarrow> fetch (int (length bs)) s = Inr (bs, adv (length bs) s)"
  by (simp add: fetch_eq upcoming_room)

lemma word_of_be: "LENGTH('a::len) \<le> 8 * n \<Longrightarrow> word_of_mem (rev (be n (w :: 'a word))) = w"
  by (simp add: be_def word_of_mem_of_word)

lemma be_Suc_ne [simp]: "0 < n \<Longrightarrow> be n w \<noteq> []"
  by (metis length_be less_nat_zero_code list.size(3))

lemma read_be [codec_simps]:
  "upcoming s = be 1 v1 @ rest \<Longrightarrow> read_1bytes s = Inr (v1, adv 1 s)"
  "upcoming s = be 2 v2 @ rest \<Longrightarrow> read_2bytes s = Inr (v2, adv 2 s)"
  "upcoming s = be 3 v3 @ rest \<Longrightarrow> read_3bytes s = Inr (take_bit 24 v3, adv 3 s)"
  "upcoming s = be 4 v4 @ rest \<Longrightarrow> read_4bytes s = Inr (v4, adv 4 s)"
  "upcoming s = be 8 v8 @ rest \<Longrightarrow> read_8bytes s = Inr (v8, adv 8 s)"
  using fetch_upcoming [of s "be 1 v1" rest] fetch_upcoming [of s "be 2 v2" rest]
    fetch_upcoming [of s "be 3 v3" rest] fetch_upcoming [of s "be 4 v4" rest]
    fetch_upcoming [of s "be 8 v8" rest]
  by (simp_all add: read_1bytes_def read_2bytes_def read_3bytes_def read_4bytes_def
      read_8bytes_def word_of_be, simp add: be_def word_of_mem_take_bit)

lemma read_string_upcoming:
  "upcoming s = map byte_of_char str @ rest \<Longrightarrow> str \<noteq> [] \<Longrightarrow>
   read_string (int (length str)) s = Inr (str, adv (length str) s)"
  using fetch_upcoming [of s "map byte_of_char str" rest]
  by (simp add: read_string_def comp_def)

section \<open>Sequences of writes and of reads\<close>

text \<open>
  \<open>writes e w bs\<close>: where \<open>bs\<close> fits, \<open>w\<close> puts exactly \<open>bs\<close>; where it does not, \<open>w\<close> fails
  with \<open>e\<close>. \<open>reads r v bs\<close>: wherever \<open>bs\<close> comes next, \<open>r\<close> returns \<open>v\<close> and stands after it.
  Both compose along \<^const>\<open>bindR\<close>, which is how the codecs are put together.
\<close>

definition fits :: "byte list \<Rightarrow> sbuf \<Rightarrow> bool" where
  "fits bs s \<longleftrightarrow> bs = [] \<or> room (length bs) s"

definition writes :: "srs_error \<Rightarrow> (sbuf \<Rightarrow> sbuf res) \<Rightarrow> byte list \<Rightarrow> bool" where
  "writes e w bs \<longleftrightarrow> (\<forall>s. w s = (if fits bs s then Inr (put bs s) else Inl e))"

definition reads :: "(sbuf \<Rightarrow> ('a \<times> sbuf) res) \<Rightarrow> 'a \<Rightarrow> byte list \<Rightarrow> bool" where
  "reads r v bs \<longleftrightarrow> (\<forall>s rest. \<not> sb_null s \<longrightarrow> upcoming s = bs @ rest \<longrightarrow>
     r s = Inr (v, adv (length bs) s))"

lemma writesD: "writes e w bs \<Longrightarrow> w s = (if fits bs s then Inr (put bs s) else Inl e)"
  by (simp add: writes_def)

lemma readsD: "reads r v bs \<Longrightarrow> \<not> sb_null s \<Longrightarrow> upcoming s = bs @ rest \<Longrightarrow>
    r s = Inr (v, adv (length bs) s)"
  by (simp add: reads_def)

lemma readsI: "(\<And>s rest. \<not> sb_null s \<Longrightarrow> upcoming s = bs @ rest \<Longrightarrow> r s = Inr (v, adv (length bs) s))
    \<Longrightarrow> reads r v bs"
  by (simp add: reads_def)

lemma writes_bind:
  assumes "writes e w1 b1" and "writes e w2 b2"
  shows "writes e (\<lambda>s. bindR (w1 s) w2) (b1 @ b2)"
proof -
  have "bindR (w1 s) w2 = (if fits (b1 @ b2) s then Inr (put (b1 @ b2) s) else Inl e)" for s
  proof (cases "b1 = []")
    case True
    then show ?thesis using writesD [OF assms(1), of s] writesD [OF assms(2), of s]
      by (simp add: fits_def)
  next
    case False
    then show ?thesis
      using writesD [OF assms(1), of s] writesD [OF assms(2), of "put b1 s"]
      by (auto simp: fits_def put_put room_put dest: room_mono [where m = "length b1"])
  qed
  then show ?thesis by (simp add: writes_def)
qed

lemma reads_bind:
  assumes "reads r1 v1 b1" and "reads (r2 v1) v2 b2"
  shows "reads (\<lambda>s. bindR (r1 s) (\<lambda>(x, s). r2 x s)) v2 (b1 @ b2)"
proof (rule readsI)
  fix s rest
  assume n: "\<not> sb_null s" and u: "upcoming s = (b1 @ b2) @ rest"
  from readsD [OF assms(1) n, of "b2 @ rest"] u have 1: "r1 s = Inr (v1, adv (length b1) s)"
    by simp
  from readsD [OF assms(2), of "adv (length b1) s" rest] n u
  have "r2 v1 (adv (length b1) s) = Inr (v2, adv (length b2) (adv (length b1) s))"
    by (simp add: upcoming_adv)
  with 1 show "bindR (r1 s) (\<lambda>(x, s). r2 x s) = Inr (v2, adv (length (b1 @ b2)) s)"
    by simp
qed

lemma reads_return: "reads (\<lambda>s. Inr (v, s)) v []"
  by (simp add: reads_def)

lemma writes_return: "writes e (\<lambda>s. Inr s) []"
  by (simp add: writes_def fits_def)

section \<open>The interface of a field codec\<close>

text \<open>
  A writer \<open>wr\<close> and a reader \<open>rd\<close> of one field, with the bytes \<open>enc v\<close> of a value and the
  values \<open>ok\<close> that the format can carry. The provider promises that writing puts exactly
  \<open>enc v\<close> where there is room and that reading takes exactly \<open>enc v\<close> back.
\<close>

locale field_codec =
  fixes wr :: "'a \<Rightarrow> sbuf \<Rightarrow> sbuf res"
    and rd :: "sbuf \<Rightarrow> ('a \<times> sbuf) res"
    and enc :: "'a \<Rightarrow> byte list"
    and ok :: "'a \<Rightarrow> bool"
  assumes wr_enc: "ok v \<Longrightarrow> room (length (enc v)) s \<Longrightarrow> wr v s = Inr (put (enc v) s)"
    and rd_enc: "ok v \<Longrightarrow> \<not> sb_null s \<Longrightarrow> upcoming s = enc v @ rest \<Longrightarrow>
      rd s = Inr (v, adv (length (enc v)) s)"
begin

text \<open>What was written can be read back, and the reader ends where the writer did.\<close>

lemma rd_wr:
  assumes "ok v" and "\<not> sb_null s" and "room (length (enc v)) s"
  shows "\<exists>s'. wr v s = Inr s' \<and> rd (s'\<lparr>sb_pos := sb_pos s\<rparr>) = Inr (v, s')"
proof (intro exI conjI)
  show "wr v s = Inr (put (enc v) s)"
    using assms(1,3) by (rule wr_enc)
  let ?t = "(put (enc v) s)\<lparr>sb_pos := sb_pos s\<rparr>"
  have "upcoming ?t = enc v @ drop (sb_pos s + length (enc v)) (sb_bytes s)"
    using assms(3) by (simp add: upcoming_def put_def room_def)
  moreover have "\<not> sb_null ?t" using assms(2) by simp
  ultimately have "rd ?t = Inr (v, adv (length (enc v)) ?t)"
    using rd_enc [OF assms(1)] by blast
  then show "rd ?t = Inr (v, put (enc v) s)"
    by (simp add: adv_def put_def)
qed

text \<open>A second field may follow: after a write there is room for it iff there was for both.\<close>

lemma wr_then_room:
  assumes "ok v" and "wr v s = Inr s'" and "room (length (enc v) + n) s"
  shows "room n s'"
proof -
  from assms(3) have "room (length (enc v)) s" by (rule room_mono) simp
  with assms wr_enc show ?thesis by (auto simp: room_put)
qed

end

interpretation u8: field_codec write_1bytes read_1bytes "be 1" "\<lambda>_. True"
  by unfold_locales (simp_all add: codec_simps)

interpretation u16: field_codec write_2bytes read_2bytes "be 2" "\<lambda>_. True"
  by unfold_locales (simp_all add: codec_simps)

interpretation u24: field_codec write_3bytes read_3bytes "be 3" "\<lambda>v. take_bit 24 v = v"
  by unfold_locales (simp_all add: codec_simps)

interpretation u32: field_codec write_4bytes read_4bytes "be 4" "\<lambda>_. True"
  by unfold_locales (simp_all add: codec_simps)

interpretation u64: field_codec write_8bytes read_8bytes "be 8" "\<lambda>_. True"
  by unfold_locales (simp_all add: codec_simps)

section \<open>The bit buffer\<close>

text \<open>
  \<^verbatim>\<open>cb\<close> is the byte being consumed, \<^verbatim>\<open>cb_left\<close> how many of its bits are left.
\<close>

record bitbuf =
  bb_cb :: "8 word"
  bb_left :: nat
  bb_stream :: sbuf

definition bit_initialize :: "sbuf \<Rightarrow> bitbuf" where
  "bit_initialize s = \<lparr>bb_cb = 0, bb_left = 0, bb_stream = s\<rparr>"

definition bit_empty :: "bitbuf \<Rightarrow> bool" where
  "bit_empty b \<longleftrightarrow> bb_left b = 0 \<and> buf_empty (bb_stream b)"

definition bit_refill :: "bitbuf \<Rightarrow> bitbuf res" where
  "bit_refill b =
     (if bb_left b = 0
      then bindR (check (\<not> buf_empty (bb_stream b)) ASSERT_FAILED)
             (\<lambda>_. bindR (read_1bytes (bb_stream b))
             (\<lambda>(cb, s). Inr (b\<lparr>bb_cb := cb, bb_left := 8, bb_stream := s\<rparr>)))
      else Inr b)"

definition read_bit :: "bitbuf \<Rightarrow> (8 word \<times> bitbuf) res" where
  "read_bit b = bindR (bit_refill b)
     (\<lambda>b. Inr (and (signed_drop_bit (bb_left b - 1) (bb_cb b)) 1,
                b\<lparr>bb_left := bb_left b - 1\<rparr>))"

text \<open>Bits of a byte in the order the reader delivers them, most significant first.\<close>

definition msb_first :: "byte \<Rightarrow> bool list" where
  "msb_first c = map (\<lambda>i. bit c (7 - i)) [0..<8]"

text \<open>\<open>n\<close> calls of \<^verbatim>\<open>read_bit\<close> in a row.\<close>

fun read_bits :: "nat \<Rightarrow> bitbuf \<Rightarrow> (8 word list \<times> bitbuf) res" where
  "read_bits 0 b = Inr ([], b)"
| "read_bits (Suc n) b = bindR (read_bit b)
     (\<lambda>(v, b). bindR (read_bits n b) (\<lambda>(vs, b). Inr (v # vs, b)))"

definition bitbuf_ok :: "bitbuf \<Rightarrow> bool" where
  "bitbuf_ok b \<longleftrightarrow> bb_left b \<le> 8 \<and> \<not> sb_null (bb_stream b)"

text \<open>The bits still to come.\<close>

definition pending_bits :: "bitbuf \<Rightarrow> bool list" where
  "pending_bits b = drop (8 - bb_left b) (msb_first (bb_cb b))
     @ concat (map msb_first (upcoming (bb_stream b)))"

lemma length_msb_first [simp]: "length (msb_first c) = 8"
  by (simp add: msb_first_def)

lemma signed_drop_bit_1:
  "n < 8 \<Longrightarrow> and (signed_drop_bit n c) 1 = of_bool (bit (c :: 8 word) n)"
  by (rule bit_word_eqI) (auto simp: bit_and_iff bit_signed_drop_bit_iff bit_1_iff bit_of_bool_iff)

lemma upcoming_Cons:
  assumes "upcoming s = c # rest"
  shows "read_1bytes s = Inr (c, adv 1 s)"
proof -
  have "be 1 c = [c]"
    by (simp add: be_def mem_of_word_def byte_at_def)
  with assms show ?thesis by (simp add: read_be(1) [of s c rest])
qed

lemma bit_refill_pending:
  assumes "bitbuf_ok b" and "pending_bits b \<noteq> []"
  shows "\<exists>b'. bit_refill b = Inr b' \<and> 0 < bb_left b' \<and> bitbuf_ok b' \<and> pending_bits b' = pending_bits b"
proof (cases "bb_left b = 0")
  case False
  with assms show ?thesis by (simp add: bit_refill_def)
next
  case True
  with assms(2) obtain c rest where u: "upcoming (bb_stream b) = c # rest"
    by (cases "upcoming (bb_stream b)") (auto simp: pending_bits_def)
  with assms(1) have "\<not> buf_empty (bb_stream b)"
    by (simp add: buf_empty_upcoming bitbuf_ok_def)
  with True u upcoming_Cons [OF u] assms(1) show ?thesis
    by (simp add: bit_refill_def pending_bits_def bitbuf_ok_def upcoming_adv)
qed

lemma drop_msb_first:
  assumes "0 < n" and "n \<le> 8"
  shows "drop (8 - n) (msb_first c) = bit c (n - 1) # drop (8 - (n - 1)) (msb_first c)"
proof -
  from assms have s: "8 - (n - 1) = Suc (8 - n)" by simp
  from assms have "msb_first c ! (8 - n) = bit c (n - 1)"
    by (simp add: msb_first_def del: upt_rec_numeral)
  moreover from assms have "drop (8 - n) (msb_first c)
      = msb_first c ! (8 - n) # drop (Suc (8 - n)) (msb_first c)"
    by (simp add: Cons_nth_drop_Suc)
  ultimately show ?thesis by (simp only: s)
qed

lemma read_bit_pending:
  assumes "bitbuf_ok b" and "pending_bits b = x # xs"
  shows "\<exists>b'. read_bit b = Inr (of_bool x, b') \<and> bitbuf_ok b' \<and> pending_bits b' = xs"
proof -
  from assms obtain b' where b': "bit_refill b = Inr b'" "0 < bb_left b'" "bitbuf_ok b'"
      "pending_bits b' = x # xs"
    using bit_refill_pending [of b] by auto
  then have l: "bb_left b' \<le> 8" by (simp add: bitbuf_ok_def)
  have "drop (8 - bb_left b') (msb_first (bb_cb b'))
      = bit (bb_cb b') (bb_left b' - 1) # drop (8 - (bb_left b' - 1)) (msb_first (bb_cb b'))"
    using b'(2) l by (rule drop_msb_first)
  with b'(4) have "x = bit (bb_cb b') (bb_left b' - 1)"
    and "pending_bits (b'\<lparr>bb_left := bb_left b' - 1\<rparr>) = xs"
    by (simp_all add: pending_bits_def)
  with b' l show ?thesis
    by (simp add: read_bit_def signed_drop_bit_1 bitbuf_ok_def)
qed

lemma read_bits_pending:
  "bitbuf_ok b \<Longrightarrow> n \<le> length (pending_bits b) \<Longrightarrow>
   \<exists>b'. read_bits n b = Inr (map of_bool (take n (pending_bits b)), b')
      \<and> bitbuf_ok b' \<and> pending_bits b' = drop n (pending_bits b)"
proof (induction n arbitrary: b)
  case 0
  then show ?case by simp
next
  case (Suc n)
  then obtain x xs where p: "pending_bits b = x # xs" by (cases "pending_bits b") auto
  with Suc.prems obtain b' where "read_bit b = Inr (of_bool x, b')" "bitbuf_ok b'"
      "pending_bits b' = xs"
    using read_bit_pending by blast
  with Suc.IH [of b'] Suc.prems p show ?case by auto
qed

end
