(* ===== verification/Srs_Amf0.thy ===== *)
theory Srs_Amf0
  imports Srs_Buffer
begin

text \<open>
  The AMF0 codec of \<^verbatim>\<open>src/protocol/srs_protocol_amf0.cpp\<close>: the value classes
  (\<^verbatim>\<open>SrsAmf0String\<close>, \<^verbatim>\<open>SrsAmf0Object\<close>, ...) as one datatype, the ordered property
  table, the readers and writers of every class, the size computation and the copy.
  Numbers are kept as the 64 bit pattern of the \<^verbatim>\<open>double\<close>, which is what the code moves.
\<close>

section \<open>Markers and values\<close>

abbreviation RTMP_AMF0_Number :: byte where "RTMP_AMF0_Number \<equiv> 0x00"
abbreviation RTMP_AMF0_Boolean :: byte where "RTMP_AMF0_Boolean \<equiv> 0x01"
abbreviation RTMP_AMF0_String :: byte where "RTMP_AMF0_String \<equiv> 0x02"
abbreviation RTMP_AMF0_Object :: byte where "RTMP_AMF0_Object \<equiv> 0x03"
abbreviation RTMP_AMF0_Null :: byte where "RTMP_AMF0_Null \<equiv> 0x05"
abbreviation RTMP_AMF0_Undefined :: byte where "RTMP_AMF0_Undefined \<equiv> 0x06"
abbreviation RTMP_AMF0_EcmaArray :: byte where "RTMP_AMF0_EcmaArray \<equiv> 0x08"
abbreviation RTMP_AMF0_ObjectEnd :: byte where "RTMP_AMF0_ObjectEnd \<equiv> 0x09"
abbreviation RTMP_AMF0_StrictArray :: byte where "RTMP_AMF0_StrictArray \<equiv> 0x0A"
abbreviation RTMP_AMF0_Date :: byte where "RTMP_AMF0_Date \<equiv> 0x0B"

type_synonym double = "64 word"

datatype amf0 =
    Amf0String string
  | Amf0Boolean bool
  | Amf0Number double
  | Amf0Date "64 word" "16 word"
  | Amf0Null
  | Amf0Undefined
  | Amf0Object "(string \<times> amf0) list"
  | Amf0EcmaArray "32 word" "(string \<times> amf0) list"
  | Amf0StrictArray "32 word" "amf0 list"
  | Amf0ObjectEOF

type_synonym props = "(string \<times> amf0) list"

fun amf0_marker :: "amf0 \<Rightarrow> byte" where
  "amf0_marker (Amf0String _) = RTMP_AMF0_String"
| "amf0_marker (Amf0Boolean _) = RTMP_AMF0_Boolean"
| "amf0_marker (Amf0Number _) = RTMP_AMF0_Number"
| "amf0_marker (Amf0Date _ _) = RTMP_AMF0_Date"
| "amf0_marker Amf0Null = RTMP_AMF0_Null"
| "amf0_marker Amf0Undefined = RTMP_AMF0_Undefined"
| "amf0_marker (Amf0Object _) = RTMP_AMF0_Object"
| "amf0_marker (Amf0EcmaArray _ _) = RTMP_AMF0_EcmaArray"
| "amf0_marker (Amf0StrictArray _ _) = RTMP_AMF0_StrictArray"
| "amf0_marker Amf0ObjectEOF = RTMP_AMF0_ObjectEnd"

definition is_string :: "amf0 \<Rightarrow> bool" where
  "is_string v \<longleftrightarrow> amf0_marker v = RTMP_AMF0_String"

definition is_boolean :: "amf0 \<Rightarrow> bool" where
  "is_boolean v \<longleftrightarrow> amf0_marker v = RTMP_AMF0_Boolean"

definition is_number :: "amf0 \<Rightarrow> bool" where
  "is_number v \<longleftrightarrow> amf0_marker v = RTMP_AMF0_Number"

definition is_null :: "amf0 \<Rightarrow> bool" where
  "is_null v \<longleftrightarrow> amf0_marker v = RTMP_AMF0_Null"

definition is_undefined :: "amf0 \<Rightarrow> bool" where
  "is_undefined v \<longleftrightarrow> amf0_marker v = RTMP_AMF0_Undefined"

definition is_object :: "amf0 \<Rightarrow> bool" where
  "is_object v \<longleftrightarrow> amf0_marker v = RTMP_AMF0_Object"

definition is_ecma_array :: "amf0 \<Rightarrow> bool" where
  "is_ecma_array v \<longleftrightarrow> amf0_marker v = RTMP_AMF0_EcmaArray"

definition is_strict_array :: "amf0 \<Rightarrow> bool" where
  "is_strict_array v \<longleftrightarrow> amf0_marker v = RTMP_AMF0_StrictArray"

definition is_date :: "amf0 \<Rightarrow> bool" where
  "is_date v \<longleftrightarrow> amf0_marker v = RTMP_AMF0_Date"

definition is_object_eof :: "amf0 \<Rightarrow> bool" where
  "is_object_eof v \<longleftrightarrow> amf0_marker v = RTMP_AMF0_ObjectEnd"

definition is_complex_object :: "amf0 \<Rightarrow> bool" where
  "is_complex_object v \<longleftrightarrow>
     is_object v \<or> is_object_eof v \<or> is_ecma_array v \<or> is_strict_array v"

text \<open>The downcasts assert that the dynamic type fits.\<close>

fun to_str :: "amf0 \<Rightarrow> string res" where
  "to_str (Amf0String s) = Inr s"
| "to_str _ = Inl ASSERT_FAILED"

fun to_boolean :: "amf0 \<Rightarrow> bool res" where
  "to_boolean (Amf0Boolean b) = Inr b"
| "to_boolean _ = Inl ASSERT_FAILED"

fun to_number :: "amf0 \<Rightarrow> double res" where
  "to_number (Amf0Number d) = Inr d"
| "to_number _ = Inl ASSERT_FAILED"

fun to_date :: "amf0 \<Rightarrow> 64 word res" where
  "to_date (Amf0Date d _) = Inr d"
| "to_date _ = Inl ASSERT_FAILED"

fun to_date_time_zone :: "amf0 \<Rightarrow> 16 word res" where
  "to_date_time_zone (Amf0Date _ z) = Inr z"
| "to_date_time_zone _ = Inl ASSERT_FAILED"

fun to_object :: "amf0 \<Rightarrow> props res" where
  "to_object (Amf0Object ps) = Inr ps"
| "to_object _ = Inl ASSERT_FAILED"

fun to_ecma_array :: "amf0 \<Rightarrow> (32 word \<times> props) res" where
  "to_ecma_array (Amf0EcmaArray n ps) = Inr (n, ps)"
| "to_ecma_array _ = Inl ASSERT_FAILED"

fun to_strict_array :: "amf0 \<Rightarrow> (32 word \<times> amf0 list) res" where
  "to_strict_array (Amf0StrictArray n xs) = Inr (n, xs)"
| "to_strict_array _ = Inl ASSERT_FAILED"

fun set_number :: "double \<Rightarrow> amf0 \<Rightarrow> amf0 res" where
  "set_number d (Amf0Number _) = Inr (Amf0Number d)"
| "set_number d _ = Inl ASSERT_FAILED"

section \<open>The property table\<close>

text \<open>
  \<^verbatim>\<open>SrsUnSortedHashtable\<close> is a vector of pairs. \<^verbatim>\<open>set\<close> erases the first entry of the
  key and appends the new one; a \<^verbatim>\<open>NULL\<close> value only erases.
\<close>

fun erase_first :: "string \<Rightarrow> props \<Rightarrow> props" where
  "erase_first key [] = []"
| "erase_first key ((name, any) # ps) =
     (if key = name then ps else (name, any) # erase_first key ps)"

definition ht_set :: "string \<Rightarrow> amf0 option \<Rightarrow> props \<Rightarrow> props" where
  "ht_set key v ps = (case v of
     None \<Rightarrow> erase_first key ps
   | Some value \<Rightarrow> erase_first key ps @ [(key, value)])"

fun ht_get_property :: "string \<Rightarrow> props \<Rightarrow> amf0 option" where
  "ht_get_property name [] = None"
| "ht_get_property name ((key, any) # ps) =
     (if key = name then Some any else ht_get_property name ps)"

definition ht_ensure_property_string :: "string \<Rightarrow> props \<Rightarrow> amf0 option" where
  "ht_ensure_property_string name ps = (case ht_get_property name ps of
     None \<Rightarrow> None
   | Some prop \<Rightarrow> if \<not> is_string prop then None else Some prop)"

definition ht_ensure_property_number :: "string \<Rightarrow> props \<Rightarrow> amf0 option" where
  "ht_ensure_property_number name ps = (case ht_get_property name ps of
     None \<Rightarrow> None
   | Some prop \<Rightarrow> if \<not> is_number prop then None else Some prop)"

fun ht_remove :: "string \<Rightarrow> props \<Rightarrow> props" where
  "ht_remove name [] = []"
| "ht_remove name ((key, any) # ps) =
     (if key = name then ht_remove name ps else (key, any) # ht_remove name ps)"

definition ht_count :: "props \<Rightarrow> int" where
  "ht_count ps = int (length ps)"

text \<open>\<^verbatim>\<open>srs_assert(index < count())\<close>; a negative index is out of the vector.\<close>

definition ht_key_at :: "int \<Rightarrow> props \<Rightarrow> string res" where
  "ht_key_at i ps = bindR (check (i < ht_count ps) ASSERT_FAILED)
     (\<lambda>_. bindR (check (0 \<le> i) UNDEFINED_BEHAVIOUR) (\<lambda>_. Inr (fst (ps ! nat i))))"

definition ht_value_at :: "int \<Rightarrow> props \<Rightarrow> amf0 res" where
  "ht_value_at i ps = bindR (check (i < ht_count ps) ASSERT_FAILED)
     (\<lambda>_. bindR (check (0 \<le> i) UNDEFINED_BEHAVIOUR) (\<lambda>_. Inr (snd (ps ! nat i))))"

definition ht_clear :: "props \<Rightarrow> props" where
  "ht_clear ps = []"

text \<open>\<^verbatim>\<open>append\<close> of the strict array keeps \<^verbatim>\<open>_count\<close> equal to the vector's size.\<close>

definition strict_append :: "amf0 \<Rightarrow> 32 word \<times> amf0 list \<Rightarrow> 32 word \<times> amf0 list" where
  "strict_append v a = (case a of (n, xs) \<Rightarrow> (of_nat (length (xs @ [v])), xs @ [v]))"

text \<open>
  What the users of a property table rely on: a lookup returns the last value set, other
  keys are not touched, and no key occurs twice.
\<close>

locale property_table =
  fixes tset :: "'k \<Rightarrow> 'v option \<Rightarrow> 't \<Rightarrow> 't"
    and tget :: "'k \<Rightarrow> 't \<Rightarrow> 'v option"
    and tremove :: "'k \<Rightarrow> 't \<Rightarrow> 't"
    and inv :: "'t \<Rightarrow> bool"
  assumes get_set: "inv t \<Longrightarrow> tget k (tset k' v t) = (if k = k' then v else tget k t)"
    and get_remove: "inv t \<Longrightarrow> tget k (tremove k' t) = (if k = k' then None else tget k t)"
    and inv_set: "inv t \<Longrightarrow> inv (tset k v t)"
    and inv_remove: "inv t \<Longrightarrow> inv (tremove k t)"
begin

text \<open>Setting a key to \<^verbatim>\<open>NULL\<close> is seen by a lookup as a removal.\<close>

lemma set_None_remove: "inv t \<Longrightarrow> tget k (tset k' None t) = tget k (tremove k' t)"
  by (simp add: get_set get_remove)

text \<open>A sequence of assignments: the last one for a key decides.\<close>

lemma get_fold_set:
  "inv t \<Longrightarrow> inv (fold (\<lambda>(k, v). tset k (Some v)) kvs t) \<and>
   tget k (fold (\<lambda>(k, v). tset k (Some v)) kvs t) =
     (case map_of (rev kvs) k of Some v \<Rightarrow> Some v | None \<Rightarrow> tget k t)"
proof (induction kvs arbitrary: t)
  case Nil
  then show ?case by simp
next
  case (Cons kv kvs)
  obtain k' v where kv: "kv = (k', v)" by (cases kv)
  have "inv (tset k' (Some v) t)" using Cons.prems by (rule inv_set)
  from Cons.IH [OF this] show ?case
    by (auto simp: kv get_set [OF Cons.prems] map_add_def split: option.splits)
qed

end

lemma map_fst_erase_first: "map fst (erase_first k ps) = remove1 k (map fst ps)"
  by (induction k ps rule: erase_first.induct) auto

lemma erase_first_notin: "k \<notin> fst ` set ps \<Longrightarrow> erase_first k ps = ps"
  by (induction k ps rule: erase_first.induct) auto

lemma ht_get_None: "ht_get_property k ps = None \<longleftrightarrow> k \<notin> fst ` set ps"
  by (induction k ps rule: ht_get_property.induct) auto

lemma ht_get_append: "ht_get_property k (ps @ qs) =
    (case ht_get_property k ps of None \<Rightarrow> ht_get_property k qs | Some v \<Rightarrow> Some v)"
  by (induction k ps rule: ht_get_property.induct) auto

lemma ht_get_erase_first: "distinct (map fst ps) \<Longrightarrow>
    ht_get_property k (erase_first k' ps) = (if k = k' then None else ht_get_property k ps)"
  by (induction k' ps rule: erase_first.induct) (auto simp: ht_get_None [THEN iffD2])

lemma distinct_ht_set:
  assumes "distinct (map fst ps)"
  shows "distinct (map fst (ht_set k v ps))"
proof -
  from assms have "k \<notin> set (map fst (erase_first k ps))"
    and "distinct (map fst (erase_first k ps))"
    by (simp_all add: map_fst_erase_first set_remove1_eq)
  then show ?thesis by (simp add: ht_set_def split: option.splits)
qed

lemma ht_remove_filter: "ht_remove k ps = filter (\<lambda>p. fst p \<noteq> k) ps"
  by (induction k ps rule: ht_remove.induct) auto

lemma ht_get_remove:
  "ht_get_property k (ht_remove k' ps) = (if k = k' then None else ht_get_property k ps)"
  by (induction k' ps rule: ht_remove.induct) auto

lemma ht_set_fresh: "k \<notin> fst ` set ps \<Longrightarrow> ht_set k (Some v) ps = ps @ [(k, v)]"
  by (simp add: ht_set_def erase_first_notin)

lemma distinct_ht_remove: "distinct (map fst ps) \<Longrightarrow> distinct (map fst (ht_remove k ps))"
  by (simp add: ht_remove_filter distinct_map_filter)

interpretation ht: property_table ht_set ht_get_property ht_remove "\<lambda>ps. distinct (map fst ps)"
proof unfold_locales
  fix t :: props and k k' v
  assume "distinct (map fst t)"
  then show "ht_get_property k (ht_set k' v t) = (if k = k' then v else ht_get_property k t)"
    by (auto simp: ht_set_def ht_get_append ht_get_erase_first split: option.splits)
qed (simp_all add: ht_get_remove distinct_ht_set distinct_ht_remove)

end
