(* ===== verification/Srs_Amf0_Codec.thy ===== *)
theory Srs_Amf0_Codec
  imports Srs_Amf0
begin

text \<open>
  Readers and writers of AMF0 values over \<^typ>\<open>sbuf\<close>, the size computation and the copy
  (\<^verbatim>\<open>src/protocol/srs_protocol_amf0.cpp\<close>). The recursive reader carries its nesting depth
  as fuel; the bytes left bound it, so the wrapper without fuel never
  runs out. The writer is shown to produce exactly \<open>amf0_enc\<close>, the size computation to be
  the length of it, and the reader to take it back.
\<close>

section \<open>Readers\<close>

text \<open>The marker check that opens the reader of every class.\<close>

definition read_marker :: "byte \<Rightarrow> sbuf \<Rightarrow> sbuf res" where
  "read_marker m s = bindR (need 1 ERROR_RTMP_AMF0_DECODE s)
     (\<lambda>_. bindR (read_1bytes s)
     (\<lambda>(marker, s). bindR (check (marker = m) ERROR_RTMP_AMF0_DECODE) (\<lambda>_. Inr s)))"

text \<open>
  \<^verbatim>\<open>srs_amf0_read_utf8\<close> leaves the output string \<^verbatim>\<open>value\<close> as it was (\<open>v0\<close>) when the
  length is not positive as a signed 16 bit integer.
\<close>

definition srs_amf0_read_utf8 :: "string \<Rightarrow> sbuf \<Rightarrow> (string \<times> sbuf) res" where
  "srs_amf0_read_utf8 v0 s = bindR (need 2 ERROR_RTMP_AMF0_DECODE s)
     (\<lambda>_. bindR (read_2bytes s)
     (\<lambda>(len, s). if sint len \<le> 0 then Inr (v0, s)
        else bindR (need (sint len) ERROR_RTMP_AMF0_DECODE s)
               (\<lambda>_. read_string (sint len) s)))"

definition srs_amf0_read_string :: "string \<Rightarrow> sbuf \<Rightarrow> (string \<times> sbuf) res" where
  "srs_amf0_read_string v0 s = bindR (read_marker RTMP_AMF0_String s) (srs_amf0_read_utf8 v0)"

definition srs_amf0_read_boolean :: "sbuf \<Rightarrow> (bool \<times> sbuf) res" where
  "srs_amf0_read_boolean s = bindR (read_marker RTMP_AMF0_Boolean s)
     (\<lambda>s. bindR (need 1 ERROR_RTMP_AMF0_DECODE s)
     (\<lambda>_. bindR (read_1bytes s) (\<lambda>(b, s). Inr (b \<noteq> 0, s))))"

definition srs_amf0_read_number :: "sbuf \<Rightarrow> (double \<times> sbuf) res" where
  "srs_amf0_read_number s = bindR (read_marker RTMP_AMF0_Number s)
     (\<lambda>s. bindR (need 8 ERROR_RTMP_AMF0_DECODE s) (\<lambda>_. read_8bytes s))"

definition srs_amf0_read_null :: "sbuf \<Rightarrow> sbuf res" where
  "srs_amf0_read_null s = read_marker RTMP_AMF0_Null s"

definition srs_amf0_read_undefined :: "sbuf \<Rightarrow> sbuf res" where
  "srs_amf0_read_undefined s = read_marker RTMP_AMF0_Undefined s"

definition date_read :: "sbuf \<Rightarrow> ((64 word \<times> 16 word) \<times> sbuf) res" where
  "date_read s = bindR (read_marker RTMP_AMF0_Date s)
     (\<lambda>s. bindR (need 8 ERROR_RTMP_AMF0_DECODE s)
     (\<lambda>_. bindR (read_8bytes s)
     (\<lambda>(d, s). bindR (need 2 ERROR_RTMP_AMF0_DECODE s)
     (\<lambda>_. bindR (read_2bytes s) (\<lambda>(z, s). Inr ((d, z), s))))))"

definition eof_read :: "sbuf \<Rightarrow> sbuf res" where
  "eof_read s = bindR (need 2 ERROR_RTMP_AMF0_DECODE s)
     (\<lambda>_. bindR (read_2bytes s)
     (\<lambda>(temp, s). bindR (check (temp = 0) ERROR_RTMP_AMF0_DECODE)
     (\<lambda>_. read_marker RTMP_AMF0_ObjectEnd s)))"

text \<open>Looks at three bytes and moves back.\<close>

definition srs_amf0_is_object_eof :: "sbuf \<Rightarrow> (bool \<times> sbuf) res" where
  "srs_amf0_is_object_eof s = bindR (buf_require 3 s)
     (\<lambda>b. if b then bindR (read_3bytes s)
              (\<lambda>(flag, s). bindR (buf_skip (-3) s) (\<lambda>s. Inr (0x09 = flag, s)))
           else Inr (False, s))"

text \<open>
  \<^verbatim>\<open>SrsAmf0Any::discovery\<close> peeks at the marker and creates an empty value of its class.
\<close>

definition discovery :: "sbuf \<Rightarrow> (amf0 \<times> sbuf) res" where
  "discovery s = bindR (srs_amf0_is_object_eof s)
     (\<lambda>(eof, s). if eof then Inr (Amf0ObjectEOF, s)
      else bindR (need 1 ERROR_RTMP_AMF0_DECODE s)
       (\<lambda>_. bindR (read_1bytes s)
       (\<lambda>(marker, s). bindR (buf_skip (-1) s)
       (\<lambda>s.
          if marker = RTMP_AMF0_String then Inr (Amf0String '''', s)
          else if marker = RTMP_AMF0_Boolean then Inr (Amf0Boolean False, s)
          else if marker = RTMP_AMF0_Number then Inr (Amf0Number 0, s)
          else if marker = RTMP_AMF0_Null then Inr (Amf0Null, s)
          else if marker = RTMP_AMF0_Undefined then Inr (Amf0Undefined, s)
          else if marker = RTMP_AMF0_Object then Inr (Amf0Object [], s)
          else if marker = RTMP_AMF0_EcmaArray then Inr (Amf0EcmaArray 0 [], s)
          else if marker = RTMP_AMF0_StrictArray then Inr (Amf0StrictArray 0 [], s)
          else if marker = RTMP_AMF0_Date then Inr (Amf0Date 0 0, s)
          else Inl ERROR_RTMP_AMF0_INVALID))))"

text \<open>
  The \<^verbatim>\<open>read\<close> methods of the composite classes, with the reader \<open>rd\<close> of their members as
  an argument. The loop over properties runs until the end marker or the end of the
  buffer; every round consumes at least the two bytes of a name, so \<open>remaining s + 1\<close>
  rounds are enough.
\<close>

definition remaining :: "sbuf \<Rightarrow> nat" where
  "remaining s = length (upcoming s)"

type_synonym any_reader = "sbuf \<Rightarrow> (amf0 \<times> sbuf) res"

fun read_props :: "any_reader \<Rightarrow> nat \<Rightarrow> props \<Rightarrow> sbuf \<Rightarrow> (props \<times> sbuf) res" where
  "read_props rd 0 ps s = Inl OUT_OF_FUEL"
| "read_props rd (Suc n) ps s =
     (if buf_empty s then Inr (ps, s)
      else bindR (srs_amf0_is_object_eof s)
       (\<lambda>(eof, s). if eof then bindR (eof_read s) (\<lambda>s. Inr (ps, s))
        else bindR (srs_amf0_read_utf8 '''' s)
         (\<lambda>(name, s). bindR (rd s)
         (\<lambda>(value, s). read_props rd n (ht_set name (Some value) ps) s))))"

definition object_read :: "any_reader \<Rightarrow> props \<Rightarrow> sbuf \<Rightarrow> (props \<times> sbuf) res" where
  "object_read rd ps s = bindR (read_marker RTMP_AMF0_Object s)
     (\<lambda>s. read_props rd (Suc (remaining s)) ps s)"

definition ecma_array_read ::
    "any_reader \<Rightarrow> props \<Rightarrow> sbuf \<Rightarrow> ((32 word \<times> props) \<times> sbuf) res" where
  "ecma_array_read rd ps s = bindR (read_marker RTMP_AMF0_EcmaArray s)
     (\<lambda>s. bindR (need 4 ERROR_RTMP_AMF0_DECODE s)
     (\<lambda>_. bindR (read_4bytes s)
     (\<lambda>(count, s). bindR (read_props rd (Suc (remaining s)) ps s)
     (\<lambda>(ps, s). Inr ((count, ps), s)))))"

function read_elems :: "any_reader \<Rightarrow> int \<Rightarrow> int \<Rightarrow> amf0 list \<Rightarrow> sbuf \<Rightarrow> (amf0 list \<times> sbuf) res"
where
  "read_elems rd i count xs s =
     (if i < count \<and> \<not> buf_empty s
      then bindR (rd s) (\<lambda>(elem, s). read_elems rd (i + 1) count (xs @ [elem]) s)
      else Inr (xs, s))"
  by pat_completeness auto
termination
  by (relation "measure (\<lambda>(rd, i, count, xs, s). nat (count - i))") auto

declare read_elems.simps [simp del]

definition strict_array_read ::
    "any_reader \<Rightarrow> amf0 list \<Rightarrow> sbuf \<Rightarrow> ((32 word \<times> amf0 list) \<times> sbuf) res" where
  "strict_array_read rd xs s = bindR (read_marker RTMP_AMF0_StrictArray s)
     (\<lambda>s. bindR (need 4 ERROR_RTMP_AMF0_DECODE s)
     (\<lambda>_. bindR (read_4bytes s)
     (\<lambda>(count, s). bindR (read_elems rd 0 (sint count) xs s)
     (\<lambda>(xs, s). Inr ((count, xs), s)))))"

text \<open>The virtual call \<^verbatim>\<open>(*ppvalue)->read(stream)\<close>.\<close>

definition amf0_read :: "any_reader \<Rightarrow> amf0 \<Rightarrow> sbuf \<Rightarrow> (amf0 \<times> sbuf) res" where
  "amf0_read rd v s = (case v of
        Amf0String v0 \<Rightarrow> bindR (srs_amf0_read_string v0 s) (\<lambda>(x, s). Inr (Amf0String x, s))
      | Amf0Boolean _ \<Rightarrow> bindR (srs_amf0_read_boolean s) (\<lambda>(x, s). Inr (Amf0Boolean x, s))
      | Amf0Number _ \<Rightarrow> bindR (srs_amf0_read_number s) (\<lambda>(x, s). Inr (Amf0Number x, s))
      | Amf0Date _ _ \<Rightarrow> bindR (date_read s) (\<lambda>((d, z), s). Inr (Amf0Date d z, s))
      | Amf0Null \<Rightarrow> bindR (srs_amf0_read_null s) (\<lambda>s. Inr (Amf0Null, s))
      | Amf0Undefined \<Rightarrow> bindR (srs_amf0_read_undefined s) (\<lambda>s. Inr (Amf0Undefined, s))
      | Amf0Object ps \<Rightarrow> bindR (object_read rd ps s) (\<lambda>(ps, s). Inr (Amf0Object ps, s))
      | Amf0EcmaArray _ ps \<Rightarrow>
          bindR (ecma_array_read rd ps s) (\<lambda>((n, ps), s). Inr (Amf0EcmaArray n ps, s))
      | Amf0StrictArray _ xs \<Rightarrow>
          bindR (strict_array_read rd xs s) (\<lambda>((n, xs), s). Inr (Amf0StrictArray n xs, s))
      | Amf0ObjectEOF \<Rightarrow> bindR (eof_read s) (\<lambda>s. Inr (Amf0ObjectEOF, s)))"

text \<open>
  \<^verbatim>\<open>srs_amf0_read_any\<close>; the fuel bounds the nesting depth. Every level consumes at least
  its marker, so \<open>remaining s + 1\<close> levels are enough.
\<close>

primrec read_any :: "nat \<Rightarrow> any_reader" where
  "read_any 0 = (\<lambda>s. Inl OUT_OF_FUEL)"
| "read_any (Suc f) = (\<lambda>s. bindR (discovery s) (\<lambda>(v, s). amf0_read (read_any f) v s))"

definition srs_amf0_read_any :: "any_reader" where
  "srs_amf0_read_any s = read_any (Suc (remaining s)) s"

definition amf0_object_read :: "props \<Rightarrow> sbuf \<Rightarrow> (props \<times> sbuf) res" where
  "amf0_object_read ps s = object_read srs_amf0_read_any ps s"

definition amf0_ecma_array_read :: "props \<Rightarrow> sbuf \<Rightarrow> ((32 word \<times> props) \<times> sbuf) res" where
  "amf0_ecma_array_read ps s = ecma_array_read srs_amf0_read_any ps s"

section \<open>Writers\<close>

definition write_marker :: "byte \<Rightarrow> sbuf \<Rightarrow> sbuf res" where
  "write_marker m s = bindR (need 1 ERROR_RTMP_AMF0_ENCODE s) (\<lambda>_. write_1bytes m s)"

definition srs_amf0_write_utf8 :: "string \<Rightarrow> sbuf \<Rightarrow> sbuf res" where
  "srs_amf0_write_utf8 v s = bindR (need 2 ERROR_RTMP_AMF0_ENCODE s)
     (\<lambda>_. bindR (write_2bytes (of_nat (length v)) s)
     (\<lambda>s. if length v \<le> 0 then Inr s
        else bindR (need (int (length v)) ERROR_RTMP_AMF0_ENCODE s) (\<lambda>_. write_string v s)))"

definition srs_amf0_write_string :: "string \<Rightarrow> sbuf \<Rightarrow> sbuf res" where
  "srs_amf0_write_string v s = bindR (write_marker RTMP_AMF0_String s) (srs_amf0_write_utf8 v)"

definition srs_amf0_write_boolean :: "bool \<Rightarrow> sbuf \<Rightarrow> sbuf res" where
  "srs_amf0_write_boolean v s = bindR (write_marker RTMP_AMF0_Boolean s)
     (\<lambda>s. bindR (need 1 ERROR_RTMP_AMF0_ENCODE s)
     (\<lambda>_. if v then write_1bytes 0x01 s else write_1bytes 0x00 s))"

definition srs_amf0_write_number :: "double \<Rightarrow> sbuf \<Rightarrow> sbuf res" where
  "srs_amf0_write_number v s = bindR (write_marker RTMP_AMF0_Number s)
     (\<lambda>s. bindR (need 8 ERROR_RTMP_AMF0_ENCODE s) (\<lambda>_. write_8bytes v s))"

definition srs_amf0_write_null :: "sbuf \<Rightarrow> sbuf res" where
  "srs_amf0_write_null s = write_marker RTMP_AMF0_Null s"

definition srs_amf0_write_undefined :: "sbuf \<Rightarrow> sbuf res" where
  "srs_amf0_write_undefined s = write_marker RTMP_AMF0_Undefined s"

definition date_write :: "64 word \<Rightarrow> 16 word \<Rightarrow> sbuf \<Rightarrow> sbuf res" where
  "date_write d z s = bindR (write_marker RTMP_AMF0_Date s)
     (\<lambda>s. bindR (need 8 ERROR_RTMP_AMF0_ENCODE s)
     (\<lambda>_. bindR (write_8bytes d s)
     (\<lambda>s. bindR (need 2 ERROR_RTMP_AMF0_ENCODE s) (\<lambda>_. write_2bytes z s))))"

definition eof_write :: "sbuf \<Rightarrow> sbuf res" where
  "eof_write s = bindR (need 2 ERROR_RTMP_AMF0_ENCODE s)
     (\<lambda>_. bindR (write_2bytes 0x00 s) (write_marker RTMP_AMF0_ObjectEnd))"

text \<open>
  \<open>amf0_write\<close> is the virtual \<^verbatim>\<open>write\<close> (\<^verbatim>\<open>srs_amf0_write_any\<close> only forwards to it);
  \<open>write_props\<close> and \<open>write_elems\<close> are the loops over the members.
\<close>

fun amf0_write :: "amf0 \<Rightarrow> sbuf \<Rightarrow> sbuf res"
  and write_props :: "props \<Rightarrow> sbuf \<Rightarrow> sbuf res"
  and write_elems :: "amf0 list \<Rightarrow> sbuf \<Rightarrow> sbuf res"
where
  "amf0_write (Amf0String v) s = srs_amf0_write_string v s"
| "amf0_write (Amf0Boolean v) s = srs_amf0_write_boolean v s"
| "amf0_write (Amf0Number v) s = srs_amf0_write_number v s"
| "amf0_write (Amf0Date d z) s = date_write d z s"
| "amf0_write Amf0Null s = srs_amf0_write_null s"
| "amf0_write Amf0Undefined s = srs_amf0_write_undefined s"
| "amf0_write (Amf0Object ps) s = bindR (write_marker RTMP_AMF0_Object s)
     (\<lambda>s. bindR (write_props ps s) eof_write)"
| "amf0_write (Amf0EcmaArray n ps) s = bindR (write_marker RTMP_AMF0_EcmaArray s)
     (\<lambda>s. bindR (need 4 ERROR_RTMP_AMF0_ENCODE s)
     (\<lambda>_. bindR (write_4bytes n s)
     (\<lambda>s. bindR (write_props ps s) eof_write)))"
| "amf0_write (Amf0StrictArray n xs) s = bindR (write_marker RTMP_AMF0_StrictArray s)
     (\<lambda>s. bindR (need 4 ERROR_RTMP_AMF0_ENCODE s)
     (\<lambda>_. bindR (write_4bytes n s) (write_elems xs)))"
| "amf0_write Amf0ObjectEOF s = eof_write s"
| "write_props [] s = Inr s"
| "write_props ((name, any) # ps) s = bindR (srs_amf0_write_utf8 name s)
     (\<lambda>s. bindR (amf0_write any s) (write_props ps))"
| "write_elems [] s = Inr s"
| "write_elems (any # xs) s = bindR (amf0_write any s) (write_elems xs)"

section \<open>Sizes and copies\<close>

definition size_utf8 :: "string \<Rightarrow> nat" where "size_utf8 v = 2 + length v"
definition size_str :: "string \<Rightarrow> nat" where "size_str v = 1 + size_utf8 v"
definition size_number :: nat where "size_number = 1 + 8"
definition size_date :: nat where "size_date = 1 + 8 + 2"
definition size_null :: nat where "size_null = 1"
definition size_undefined :: nat where "size_undefined = 1"
definition size_boolean :: nat where "size_boolean = 1 + 1"
definition size_object_eof :: nat where "size_object_eof = 2 + 1"

fun total_size :: "amf0 \<Rightarrow> nat"
  and props_size :: "props \<Rightarrow> nat"
  and elems_size :: "amf0 list \<Rightarrow> nat"
where
  "total_size (Amf0String v) = size_str v"
| "total_size (Amf0Boolean _) = size_boolean"
| "total_size (Amf0Number _) = size_number"
| "total_size (Amf0Date _ _) = size_date"
| "total_size Amf0Null = size_null"
| "total_size Amf0Undefined = size_undefined"
| "total_size (Amf0Object ps) = 1 + props_size ps + size_object_eof"
| "total_size (Amf0EcmaArray _ ps) = 1 + 4 + props_size ps + size_object_eof"
| "total_size (Amf0StrictArray _ xs) = 1 + 4 + elems_size xs"
| "total_size Amf0ObjectEOF = size_object_eof"
| "props_size [] = 0"
| "props_size ((name, value) # ps) = size_utf8 name + total_size value + props_size ps"
| "elems_size [] = 0"
| "elems_size (any # xs) = total_size any + elems_size xs"

text \<open>\<^verbatim>\<open>SrsAmf0Size::any\<close> and its siblings take a pointer; \<^verbatim>\<open>NULL\<close> has size 0.\<close>

definition size_any :: "amf0 option \<Rightarrow> nat" where
  "size_any v = (case v of None \<Rightarrow> 0 | Some x \<Rightarrow> total_size x)"

definition size_object :: "props option \<Rightarrow> nat" where
  "size_object v = (case v of None \<Rightarrow> 0 | Some ps \<Rightarrow> total_size (Amf0Object ps))"

text \<open>
  The copy of a string goes through \<^verbatim>\<open>value.c_str()\<close> and a \<^verbatim>\<open>const char*\<close> constructor,
  which stops at the first NUL.
\<close>

definition c_str :: "string \<Rightarrow> string" where
  "c_str v = takeWhile (\<lambda>c. c \<noteq> CHR 0x00) v"

fun amf0_copy :: "amf0 \<Rightarrow> amf0"
  and props_copy :: "props \<Rightarrow> props \<Rightarrow> props"
  and elems_copy :: "amf0 list \<Rightarrow> amf0 list"
where
  "amf0_copy (Amf0String v) = Amf0String (c_str v)"
| "amf0_copy (Amf0Boolean v) = Amf0Boolean v"
| "amf0_copy (Amf0Number v) = Amf0Number v"
| "amf0_copy (Amf0Date d z) = Amf0Date d z"
| "amf0_copy Amf0Null = Amf0Null"
| "amf0_copy Amf0Undefined = Amf0Undefined"
| "amf0_copy (Amf0Object ps) = Amf0Object (props_copy ps [])"
| "amf0_copy (Amf0EcmaArray n ps) = Amf0EcmaArray n (props_copy ps [])"
| "amf0_copy (Amf0StrictArray n xs) = Amf0StrictArray n (elems_copy xs)"
| "amf0_copy Amf0ObjectEOF = Amf0ObjectEOF"
| "props_copy [] qs = qs"
| "props_copy ((key, any) # ps) qs = props_copy ps (ht_set key (Some (amf0_copy any)) qs)"
| "elems_copy [] = []"
| "elems_copy (any # xs) = amf0_copy any # elems_copy xs"

section \<open>The bytes of a value\<close>

definition utf8_enc :: "string \<Rightarrow> byte list" where
  "utf8_enc v = be 2 (of_nat (length v) :: 16 word) @ map byte_of_char v"

definition eof_enc :: "byte list" where
  "eof_enc = [0x00, 0x00, RTMP_AMF0_ObjectEnd]"

fun amf0_enc :: "amf0 \<Rightarrow> byte list"
  and props_enc :: "props \<Rightarrow> byte list"
  and elems_enc :: "amf0 list \<Rightarrow> byte list"
where
  "amf0_enc (Amf0String v) = [RTMP_AMF0_String] @ utf8_enc v"
| "amf0_enc (Amf0Boolean v) = [RTMP_AMF0_Boolean] @ [if v then 0x01 else 0x00]"
| "amf0_enc (Amf0Number v) = [RTMP_AMF0_Number] @ be 8 v"
| "amf0_enc (Amf0Date d z) = [RTMP_AMF0_Date] @ be 8 d @ be 2 z"
| "amf0_enc Amf0Null = [RTMP_AMF0_Null]"
| "amf0_enc Amf0Undefined = [RTMP_AMF0_Undefined]"
| "amf0_enc (Amf0Object ps) = [RTMP_AMF0_Object] @ props_enc ps @ eof_enc"
| "amf0_enc (Amf0EcmaArray n ps) = [RTMP_AMF0_EcmaArray] @ be 4 n @ props_enc ps @ eof_enc"
| "amf0_enc (Amf0StrictArray n xs) = [RTMP_AMF0_StrictArray] @ be 4 n @ elems_enc xs"
| "amf0_enc Amf0ObjectEOF = eof_enc"
| "props_enc [] = []"
| "props_enc ((name, any) # ps) = utf8_enc name @ amf0_enc any @ props_enc ps"
| "elems_enc [] = []"
| "elems_enc (any # xs) = amf0_enc any @ elems_enc xs"

lemma be_1 [simp]: "be (Suc 0) (c :: byte) = [c]"
  by (simp add: be_def mem_of_word_def byte_at_def)

lemma be_2_0: "be 2 (0 :: 16 word) = [0, 0]"
  by (simp add: be_def mem_of_word_def byte_at_def numeral_2_eq_2)

lemma length_utf8_enc: "length (utf8_enc v) = size_utf8 v"
  by (simp add: utf8_enc_def size_utf8_def)

text \<open>The size computation is the length of what is written.\<close>

lemma length_amf0_enc:
  "length (amf0_enc v) = total_size v"
  "length (props_enc ps) = props_size ps"
  "length (elems_enc xs) = elems_size xs"
  by (induction v and ps and xs rule: amf0_enc_props_enc_elems_enc.induct)
    (simp_all add: length_utf8_enc eof_enc_def size_str_def size_utf8_def size_number_def
      size_date_def size_null_def size_undefined_def size_boolean_def size_object_eof_def
      utf8_enc_def)

section \<open>What the writers do\<close>

lemma writes_marker: "writes ERROR_RTMP_AMF0_ENCODE (write_marker m) [m]"
  by (simp add: writes_def write_marker_def codec_simps fits_def)

lemma writes_need:
  "writes e (\<lambda>s. bindR (need 1 e s) (\<lambda>_. write_1bytes v1 s)) (be 1 v1)"
  "writes e (\<lambda>s. bindR (need 2 e s) (\<lambda>_. write_2bytes v2 s)) (be 2 v2)"
  "writes e (\<lambda>s. bindR (need 4 e s) (\<lambda>_. write_4bytes v4 s)) (be 4 v4)"
  "writes e (\<lambda>s. bindR (need 8 e s) (\<lambda>_. write_8bytes v8 s)) (be 8 v8)"
  by (simp_all add: writes_def codec_simps fits_def)

text \<open>A write followed by another, in the association the code's text has.\<close>

lemma writes_bind':
  assumes "writes e (\<lambda>s. bindR (a s) (\<lambda>_. w1 s)) b1" and "writes e w2 b2"
  shows "writes e (\<lambda>s. bindR (a s) (\<lambda>_. bindR (w1 s) w2)) (b1 @ b2)"
  using writes_bind [OF assms] by (simp add: bindR_assoc)

lemma writes_utf8: "writes ERROR_RTMP_AMF0_ENCODE (srs_amf0_write_utf8 v) (utf8_enc v)"
proof -
  have "writes ERROR_RTMP_AMF0_ENCODE
      (\<lambda>s. if length v \<le> 0 then Inr s
        else bindR (need (int (length v)) ERROR_RTMP_AMF0_ENCODE s) (\<lambda>_. write_string v s))
      (map byte_of_char v)"
    by (simp add: writes_def codec_simps fits_def)
  from writes_bind' [OF writes_need(2) this] show ?thesis
    unfolding srs_amf0_write_utf8_def [abs_def] utf8_enc_def .
qed

lemma writes_string:
  "writes ERROR_RTMP_AMF0_ENCODE (srs_amf0_write_string v) (amf0_enc (Amf0String v))"
  unfolding srs_amf0_write_string_def [abs_def] amf0_enc.simps
  by (rule writes_bind [OF writes_marker writes_utf8])

lemma writes_boolean:
  "writes ERROR_RTMP_AMF0_ENCODE (srs_amf0_write_boolean v) (amf0_enc (Amf0Boolean v))"
  unfolding srs_amf0_write_boolean_def [abs_def] amf0_enc.simps
  by (rule writes_bind [OF writes_marker]) (simp add: writes_def codec_simps fits_def)

lemma writes_number:
  "writes ERROR_RTMP_AMF0_ENCODE (srs_amf0_write_number v) (amf0_enc (Amf0Number v))"
  unfolding srs_amf0_write_number_def [abs_def] amf0_enc.simps
  by (rule writes_bind [OF writes_marker writes_need(4)])

lemma writes_null: "writes ERROR_RTMP_AMF0_ENCODE srs_amf0_write_null (amf0_enc Amf0Null)"
  and writes_undefined:
    "writes ERROR_RTMP_AMF0_ENCODE srs_amf0_write_undefined (amf0_enc Amf0Undefined)"
  unfolding srs_amf0_write_null_def [abs_def] srs_amf0_write_undefined_def [abs_def] amf0_enc.simps
  by (rule writes_marker)+

lemma writes_date: "writes ERROR_RTMP_AMF0_ENCODE (date_write d z) (amf0_enc (Amf0Date d z))"
  unfolding date_write_def [abs_def] amf0_enc.simps
  by (rule writes_bind [OF writes_marker writes_bind' [OF writes_need(4) writes_need(2)]])

lemma writes_eof: "writes ERROR_RTMP_AMF0_ENCODE eof_write eof_enc"
proof -
  have enc: "eof_enc = be 2 (0 :: 16 word) @ [RTMP_AMF0_ObjectEnd]"
    by (simp add: eof_enc_def be_2_0)
  show ?thesis
    unfolding eof_write_def [abs_def] enc by (rule writes_bind' [OF writes_need(2) writes_marker])
qed

lemma writes_amf0:
  "writes ERROR_RTMP_AMF0_ENCODE (amf0_write v) (amf0_enc v)"
  "writes ERROR_RTMP_AMF0_ENCODE (write_props ps) (props_enc ps)"
  "writes ERROR_RTMP_AMF0_ENCODE (write_elems xs) (elems_enc xs)"
proof (induction v and ps and xs rule: amf0_enc_props_enc_elems_enc.induct)
  case (7 ps)
  then show ?case
    using writes_bind [OF writes_marker writes_bind [OF 7 writes_eof]] by (simp add: writes_def)
next
  case (8 n ps)
  show ?case
    using writes_bind [OF writes_marker
        writes_bind' [OF writes_need(3) writes_bind [OF 8 writes_eof]]]
    by (simp add: writes_def)
next
  case (9 n xs)
  show ?case
    using writes_bind [OF writes_marker writes_bind' [OF writes_need(3) 9]]
    by (simp add: writes_def)
next
  case (12 name any ps)
  then show ?case
    using writes_bind [OF writes_utf8 writes_bind [OF 12]] by (simp add: writes_def)
next
  case (14 any xs)
  then show ?case
    using writes_bind [OF 14] by (simp add: writes_def)
qed (use writes_string writes_boolean writes_number writes_date writes_null writes_undefined
      writes_eof in \<open>simp_all add: writes_def fits_def\<close>)

section \<open>What the readers take back\<close>

text \<open>
  The values that the format carries: strings whose length is positive as a 16 bit signed
  integer or zero, members with different names, the element count of a strict array equal
  to its length, and numbers whose two leading bytes are not \<^verbatim>\<open>00 09\<close>. The last one is
  needed because a number then starts with the three bytes of the object end marker.
\<close>

definition number_ok :: "double \<Rightarrow> bool" where
  "number_ok v \<longleftrightarrow> \<not> (byte_at 7 v = 0x00 \<and> byte_at 6 v = 0x09)"

fun amf0_ok :: "amf0 \<Rightarrow> bool"
  and props_ok :: "props \<Rightarrow> bool"
  and elems_ok :: "amf0 list \<Rightarrow> bool"
where
  "amf0_ok (Amf0String v) \<longleftrightarrow> length v < 32768"
| "amf0_ok (Amf0Boolean v) \<longleftrightarrow> True"
| "amf0_ok (Amf0Number v) \<longleftrightarrow> number_ok v"
| "amf0_ok (Amf0Date d z) \<longleftrightarrow> True"
| "amf0_ok Amf0Null \<longleftrightarrow> True"
| "amf0_ok Amf0Undefined \<longleftrightarrow> True"
| "amf0_ok (Amf0Object ps) \<longleftrightarrow> distinct (map fst ps) \<and> props_ok ps"
| "amf0_ok (Amf0EcmaArray n ps) \<longleftrightarrow> distinct (map fst ps) \<and> props_ok ps"
| "amf0_ok (Amf0StrictArray n xs) \<longleftrightarrow> sint n = int (length xs) \<and> elems_ok xs"
| "amf0_ok Amf0ObjectEOF \<longleftrightarrow> True"
| "props_ok [] \<longleftrightarrow> True"
| "props_ok ((name, any) # ps) \<longleftrightarrow> length name < 32768 \<and> amf0_ok any \<and> props_ok ps"
| "elems_ok [] \<longleftrightarrow> True"
| "elems_ok (any # xs) \<longleftrightarrow> amf0_ok any \<and> elems_ok xs"

lemma reads_need_gen:
  assumes "\<And>s rest. upcoming s = bs @ rest \<Longrightarrow> r s = Inr (v, adv (length bs) s)"
    and "bs \<noteq> []" and "n = int (length bs)"
  shows "reads (\<lambda>s. bindR (need n e s) (\<lambda>_. r s)) v bs"
  using assms upcoming_room by (intro readsI) (auto simp: codec_simps)

lemma reads_need:
  "reads (\<lambda>s. bindR (need 1 e s) (\<lambda>_. read_1bytes s)) v1 (be 1 v1)"
  "reads (\<lambda>s. bindR (need 2 e s) (\<lambda>_. read_2bytes s)) v2 (be 2 v2)"
  "reads (\<lambda>s. bindR (need 4 e s) (\<lambda>_. read_4bytes s)) v4 (be 4 v4)"
  "reads (\<lambda>s. bindR (need 8 e s) (\<lambda>_. read_8bytes s)) v8 (be 8 v8)"
  using read_be by (auto intro!: reads_need_gen)

lemma read_need_bind:
  assumes "reads (\<lambda>s. bindR (a s) (\<lambda>_. r1 s)) v1 b1" and "reads (r2 v1) v2 b2"
  shows "reads (\<lambda>s. bindR (a s) (\<lambda>_. bindR (r1 s) (\<lambda>(x, s). r2 x s))) v2 (b1 @ b2)"
  using reads_bind [of "\<lambda>s. bindR (a s) (\<lambda>_. r1 s)" v1 b1 r2 v2 b2, OF assms]
  by (simp add: bindR_assoc)

lemma read_marker_upcoming:
  "upcoming s = m # rest \<Longrightarrow> read_marker m s = Inr (adv 1 s)"
  using upcoming_Cons [of s m rest] upcoming_room [of s "[m]" rest]
  by (simp add: read_marker_def codec_simps)

lemma reads_marker_bind:
  assumes "reads r v bs"
  shows "reads (\<lambda>s. bindR (read_marker m s) r) v ([m] @ bs)"
proof (rule readsI)
  fix s rest
  assume "\<not> sb_null s" and "upcoming s = ([m] @ bs) @ rest"
  then show "bindR (read_marker m s) r = Inr (v, adv (length ([m] @ bs)) s)"
    using readsD [OF assms, of "adv 1 s" rest]
    by (simp add: read_marker_upcoming upcoming_adv)
qed

lemma reads_map:
  "reads r v bs \<Longrightarrow> reads (\<lambda>s. bindR (r s) (\<lambda>(x, s). Inr (g x, s))) (g v) bs"
  using reads_bind [of r v bs "\<lambda>x s. Inr (g x, s)", OF _ reads_return] by simp

lemma reads_map2:
  "reads r (a, b) bs \<Longrightarrow> reads (\<lambda>s. bindR (r s) (\<lambda>((a, b), s). Inr (g a b, s))) (g a b) bs"
  using reads_bind [of r "(a, b)" bs "\<lambda>(a, b) s. Inr (g a b, s)" "g a b" "[]"] reads_return
  by (simp add: case_prod_unfold reads_def)

lemma sint_of_nat_16: "n < 32768 \<Longrightarrow> sint (of_nat n :: 16 word) = int n"
  by (simp add: signed_of_nat signed_take_bit_int_eq_self)

lemma reads_utf8:
  assumes "length v < 32768"
  shows "reads (srs_amf0_read_utf8 '''') v (utf8_enc v)"
  unfolding srs_amf0_read_utf8_def [abs_def] utf8_enc_def
proof (rule read_need_bind [OF reads_need(2)])
  show "reads (\<lambda>s. if sint (of_nat (length v) :: 16 word) \<le> 0 then Inr ('''', s)
      else bindR (need (sint (of_nat (length v) :: 16 word)) ERROR_RTMP_AMF0_DECODE s)
        (\<lambda>_. read_string (sint (of_nat (length v) :: 16 word)) s)) v (map byte_of_char v)"
  proof (rule readsI)
    fix s rest
    assume u: "upcoming s = map byte_of_char v @ rest"
    show "(if sint (of_nat (length v) :: 16 word) \<le> 0 then Inr ('''', s)
      else bindR (need (sint (of_nat (length v) :: 16 word)) ERROR_RTMP_AMF0_DECODE s)
        (\<lambda>_. read_string (sint (of_nat (length v) :: 16 word)) s))
      = Inr (v, adv (length (map byte_of_char v)) s)"
      using assms u upcoming_room [OF u] read_string_upcoming [OF u]
      by (auto simp: sint_of_nat_16 codec_simps)
  qed
qed

lemma reads_string:
  "length v < 32768 \<Longrightarrow> reads (srs_amf0_read_string '''') v (amf0_enc (Amf0String v))"
  unfolding srs_amf0_read_string_def [abs_def] amf0_enc.simps
  by (rule reads_marker_bind [OF reads_utf8])

lemma reads_boolean: "reads srs_amf0_read_boolean v (amf0_enc (Amf0Boolean v))"
  unfolding srs_amf0_read_boolean_def [abs_def] amf0_enc.simps
proof (rule reads_marker_bind)
  have "reads (\<lambda>s. bindR (bindR (need 1 ERROR_RTMP_AMF0_DECODE s) (\<lambda>_. read_1bytes s))
      (\<lambda>(x, s). Inr (x \<noteq> 0, s))) ((if v then 0x01 else 0x00 :: byte) \<noteq> 0)
      (be 1 (if v then 0x01 else 0x00 :: byte))"
    by (rule reads_map [OF reads_need(1)])
  then show "reads (\<lambda>s. bindR (need 1 ERROR_RTMP_AMF0_DECODE s)
      (\<lambda>_. bindR (read_1bytes s) (\<lambda>(b, s). Inr (b \<noteq> 0, s)))) v [if v then 0x01 else 0x00]"
    by (cases v) (simp_all add: bindR_assoc)
qed

lemma reads_number: "reads srs_amf0_read_number v (amf0_enc (Amf0Number v))"
  unfolding srs_amf0_read_number_def [abs_def] amf0_enc.simps
  by (rule reads_marker_bind [OF reads_need(4)])

lemma reads_date: "reads date_read (d, z) (amf0_enc (Amf0Date d z))"
  unfolding date_read_def [abs_def] amf0_enc.simps
proof (rule reads_marker_bind, rule read_need_bind [OF reads_need(4)])
  show "reads (\<lambda>s. bindR (need 2 ERROR_RTMP_AMF0_DECODE s)
      (\<lambda>_. bindR (read_2bytes s) (\<lambda>(z, s). Inr ((d, z), s)))) (d, z) (be 2 z)"
    using reads_map [where g = "Pair d", OF reads_need(2)] by (simp add: bindR_assoc)
qed

lemma eof_read_upcoming:
  assumes "upcoming s = eof_enc @ rest"
  shows "eof_read s = Inr (adv 3 s)"
proof -
  from assms have u: "upcoming s = be 2 (0 :: 16 word) @ RTMP_AMF0_ObjectEnd # rest"
    by (simp add: eof_enc_def be_2_0)
  have "room 2 s" using upcoming_room [OF u] by simp
  moreover have "upcoming (adv 2 s) = RTMP_AMF0_ObjectEnd # rest"
    by (simp add: upcoming_adv u)
  ultimately show ?thesis
    by (simp add: eof_read_def codec_simps read_be(2) [OF u] read_marker_upcoming)
qed

lemma is_object_eof_upcoming:
  assumes "\<not> sb_null s"
  shows "srs_amf0_is_object_eof s = Inr (take 3 (upcoming s) = eof_enc, s)"
proof (cases "room 3 s")
  case False
  then have "length (take 3 (upcoming s)) \<noteq> length eof_enc"
    by (simp add: room_upcoming eof_enc_def)
  then have "take 3 (upcoming s) \<noteq> eof_enc" by metis
  with False show ?thesis
    by (simp add: srs_amf0_is_object_eof_def buf_require_def room_def)
next
  case True
  let ?bs = "take 3 (upcoming s)"
  from True have l: "length ?bs = 3" by (simp add: room_upcoming)
  have r: "read_3bytes s = Inr (word_of_mem (rev ?bs), adv 3 s)"
    using True by (simp add: read_3bytes_def fetch_numeral)
  have k: "buf_skip (-3) (adv 3 s) = Inr s"
    using assms by (simp add: buf_skip_def adv_def)
  have "(0x09 :: 32 word) = word_of_mem (rev eof_enc)"
    by (simp add: eof_enc_def)
  moreover have "word_of_mem (rev ?bs) = (word_of_mem (rev eof_enc) :: 32 word) \<longleftrightarrow> ?bs = eof_enc"
  proof
    assume "word_of_mem (rev ?bs) = (word_of_mem (rev eof_enc) :: 32 word)"
    then have "mem_of_word 3 (word_of_mem (rev ?bs) :: 32 word)
        = mem_of_word 3 (word_of_mem (rev eof_enc) :: 32 word)" by simp
    moreover have "mem_of_word 3 (word_of_mem (rev ?bs) :: 32 word) = rev ?bs"
      using l mem_of_word_of_mem [of "rev ?bs", where ?'a = 32] by simp
    moreover have "mem_of_word 3 (word_of_mem (rev eof_enc) :: 32 word) = rev eof_enc"
      using mem_of_word_of_mem [of "rev eof_enc", where ?'a = 32]
      by (simp add: eof_enc_def eval_nat_numeral)
    ultimately show "?bs = eof_enc" by simp
  qed simp
  ultimately show ?thesis
    using True r k by (auto simp: srs_amf0_is_object_eof_def buf_require_def room_def)
qed

text \<open>Only the end marker itself starts with the three bytes that the readers look for.\<close>

lemma amf0_enc_ne: "amf0_enc v \<noteq> []"
  by (cases v) (simp_all add: eof_enc_def)

lemma be_8: "be 8 v = [byte_at 7 v, byte_at 6 v, byte_at 5 v, byte_at 4 v,
    byte_at 3 v, byte_at 2 v, byte_at 1 v, byte_at 0 v]"
  by (simp add: be_def mem_of_word_def upt_conv_Cons eval_nat_numeral)

lemma take_3_amf0_enc:
  "amf0_ok v \<Longrightarrow> take 3 (amf0_enc v @ rest) = eof_enc \<longleftrightarrow> v = Amf0ObjectEOF"
  by (cases v) (auto simp: eof_enc_def number_ok_def be_8)

text \<open>The class of the value is found from its first byte.\<close>

fun fresh_of :: "amf0 \<Rightarrow> amf0" where
  "fresh_of (Amf0String _) = Amf0String ''''"
| "fresh_of (Amf0Boolean _) = Amf0Boolean False"
| "fresh_of (Amf0Number _) = Amf0Number 0"
| "fresh_of (Amf0Date _ _) = Amf0Date 0 0"
| "fresh_of Amf0Null = Amf0Null"
| "fresh_of Amf0Undefined = Amf0Undefined"
| "fresh_of (Amf0Object _) = Amf0Object []"
| "fresh_of (Amf0EcmaArray _ _) = Amf0EcmaArray 0 []"
| "fresh_of (Amf0StrictArray _ _) = Amf0StrictArray 0 []"
| "fresh_of Amf0ObjectEOF = Amf0ObjectEOF"

lemma hd_amf0_enc: "v \<noteq> Amf0ObjectEOF \<Longrightarrow> \<exists>bs. amf0_enc v = amf0_marker v # bs"
  by (cases v) auto

lemma buf_skip_back: "\<not> sb_null s \<Longrightarrow> buf_skip (-1) (adv 1 s) = Inr s"
  by (simp add: buf_skip_def adv_def)

lemma discovery_enc:
  assumes "amf0_ok v" and "\<not> sb_null s" and u: "upcoming s = amf0_enc v @ rest"
  shows "discovery s = Inr (fresh_of v, s)"
proof (cases "v = Amf0ObjectEOF")
  case True
  with assms show ?thesis
    by (simp add: discovery_def is_object_eof_upcoming take_3_amf0_enc eof_enc_def)
next
  case False
  then obtain bs where h: "amf0_enc v = amf0_marker v # bs" using hd_amf0_enc by blast
  from False assms have "srs_amf0_is_object_eof s = Inr (False, s)"
    by (simp add: is_object_eof_upcoming take_3_amf0_enc del: take_append)
  moreover have "room 1 s" using u h upcoming_room [of s "[amf0_marker v]" "bs @ rest"] by simp
  moreover have "read_1bytes s = Inr (amf0_marker v, adv 1 s)"
    using u h by (simp add: upcoming_Cons)
  ultimately show ?thesis
    using False buf_skip_back [OF assms(2)] by (cases v) (simp_all add: discovery_def codec_simps)
qed

lemma reads_read_any:
  assumes "amf0_ok v" and "reads (amf0_read (read_any f) (fresh_of v)) v (amf0_enc v)"
  shows "reads (read_any (Suc f)) v (amf0_enc v)"
proof (rule readsI)
  fix s rest
  assume "\<not> sb_null s" and "upcoming s = amf0_enc v @ rest"
  with assms show "read_any (Suc f) s = Inr (v, adv (length (amf0_enc v)) s)"
    by (simp add: discovery_enc readsD)
qed

lemma buf_empty_enc: "\<not> sb_null s \<Longrightarrow> upcoming s = bs @ rest \<Longrightarrow> bs \<noteq> [] \<Longrightarrow> \<not> buf_empty s"
  by (simp add: buf_empty_upcoming)

lemma take_3_utf8:
  assumes "amf0_ok any" and l: "length name < 32768"
  shows "take 3 (utf8_enc name @ amf0_enc any @ rest) \<noteq> eof_enc"
proof (cases "name = []")
  case False
  let ?w = "of_nat (length name) :: 16 word"
  show ?thesis
  proof
    assume "take 3 (utf8_enc name @ amf0_enc any @ rest) = eof_enc"
    then have "take 2 (take 3 (utf8_enc name @ amf0_enc any @ rest)) = take 2 eof_enc"
      by (rule arg_cong)
    then have "be 2 ?w = [0, 0]" by (simp add: utf8_enc_def eof_enc_def)
    then have "?w = word_of_mem (rev [0, 0])"
      using word_of_be [of 2 ?w] by simp
    then have "sint ?w = 0" by simp
    with l False show False by (simp add: sint_of_nat_16)
  qed
next
  case True
  with assms(1) show ?thesis
    by (cases any) (auto simp: utf8_enc_def be_2_0 eof_enc_def)
qed

lemma reads_props_enc:
  assumes "\<And>any. any \<in> snd ` set ps \<Longrightarrow> reads rd any (amf0_enc any)"
    and "props_ok ps" and "distinct (map fst (acc @ ps))" and "length ps < n"
  shows "reads (read_props rd n acc) (acc @ ps) (props_enc ps @ eof_enc)"
  using assms
proof (induction ps arbitrary: acc n)
  case Nil
  from \<open>length [] < n\<close> obtain m where n: "n = Suc m" by (cases n) auto
  show ?case
  proof (rule readsI)
    fix s rest
    assume "\<not> sb_null s" and "upcoming s = (props_enc [] @ eof_enc) @ rest"
    then show "read_props rd n acc s = Inr (acc @ [], adv (length (props_enc [] @ eof_enc)) s)"
      using eof_read_upcoming [of s rest]
      by (simp add: n is_object_eof_upcoming buf_empty_upcoming eof_enc_def)
  qed
next
  case (Cons p ps)
  obtain name any where p: "p = (name, any)" by (cases p)
  from Cons.prems(4) obtain m where n: "n = Suc m" and m: "length ps < m" by (cases n) auto
  from Cons.prems(2) have ok: "length name < 32768" "amf0_ok any" "props_ok ps"
    by (simp_all add: p)
  have set: "ht_set name (Some any) acc = acc @ [(name, any)]"
    using Cons.prems(3) by (intro ht_set_fresh) (auto simp: p)
  have step: "reads (read_props rd m (acc @ [(name, any)])) ((acc @ [(name, any)]) @ ps)
      (props_enc ps @ eof_enc)"
    by (rule Cons.IH) (use Cons.prems m ok p in auto)
  have body: "reads (\<lambda>s. bindR (srs_amf0_read_utf8 '''' s)
      (\<lambda>(name, s). bindR (rd s)
      (\<lambda>(value, s). read_props rd m (ht_set name (Some value) acc) s)))
      (acc @ p # ps) (utf8_enc name @ amf0_enc any @ props_enc ps @ eof_enc)"
    by (rule reads_bind [OF reads_utf8 [OF ok(1)]], rule reads_bind [where ?v1.0 = any])
      (use Cons.prems(1) step in \<open>simp_all add: p set\<close>)
  show ?case
  proof (rule readsI)
    fix s rest
    assume ns: "\<not> sb_null s" and "upcoming s = (props_enc (p # ps) @ eof_enc) @ rest"
    then have u: "upcoming s = (utf8_enc name @ amf0_enc any @ props_enc ps @ eof_enc) @ rest"
      by (simp add: p)
    have "srs_amf0_is_object_eof s = Inr (False, s)"
      using u take_3_utf8 [OF ok(2,1)] by (simp add: is_object_eof_upcoming ns del: take_append)
    moreover have "\<not> buf_empty s"
      using ns u by (rule buf_empty_enc) (simp add: amf0_enc_ne)
    ultimately show "read_props rd n acc s
        = Inr (acc @ p # ps, adv (length (props_enc (p # ps) @ eof_enc)) s)"
      using readsD [OF body ns u] by (simp add: n p add.assoc)
  qed
qed

lemma reads_elems_enc:
  assumes "\<And>any. any \<in> set xs \<Longrightarrow> reads rd any (amf0_enc any)"
  shows "reads (read_elems rd i (i + int (length xs)) acc) (acc @ xs) (elems_enc xs)"
  using assms
proof (induction xs arbitrary: i acc)
  case Nil
  then show ?case by (simp add: reads_def read_elems.simps)
next
  case (Cons x xs)
  have c: "i + int (length (x # xs)) = i + 1 + int (length xs)" by simp
  have step: "reads (read_elems rd (i + 1) (i + 1 + int (length xs)) (acc @ [x])) ((acc @ [x]) @ xs)
      (elems_enc xs)"
    by (rule Cons.IH) (use Cons.prems in auto)
  have body: "reads (\<lambda>s. bindR (rd s) (\<lambda>(elem, s).
      read_elems rd (i + 1) (i + int (length (x # xs))) (acc @ [elem]) s)) (acc @ x # xs)
      (amf0_enc x @ elems_enc xs)"
    by (rule reads_bind [where ?v1.0 = x]) (use Cons.prems step in \<open>simp_all add: add.assoc\<close>)
  show ?case
  proof (rule readsI)
    fix s rest
    assume ns: "\<not> sb_null s" and u': "upcoming s = elems_enc (x # xs) @ rest"
    then have u: "upcoming s = (amf0_enc x @ elems_enc xs) @ rest" by simp
    have "\<not> buf_empty s" using ns u by (rule buf_empty_enc) (simp add: amf0_enc_ne)
    then show "read_elems rd i (i + int (length (x # xs))) acc s
        = Inr (acc @ x # xs, adv (length (elems_enc (x # xs))) s)"
      using readsD [OF body ns u] by (subst read_elems.simps) simp
  qed
qed

lemma props_enc_bounds:
  "length ps \<le> length (props_enc ps)"
  "any \<in> snd ` set ps \<Longrightarrow> length (amf0_enc any) \<le> length (props_enc ps)"
  by (induction ps) (force simp: utf8_enc_def)+

lemma elems_enc_bound: "any \<in> set xs \<Longrightarrow> length (amf0_enc any) \<le> length (elems_enc xs)"
  by (induction xs) auto

lemma props_ok_member: "props_ok ps \<Longrightarrow> any \<in> snd ` set ps \<Longrightarrow> amf0_ok any"
  by (induction ps) force+

lemma elems_ok_member: "elems_ok xs \<Longrightarrow> any \<in> set xs \<Longrightarrow> amf0_ok any"
  by (induction xs) auto

lemma reads_props_fuel:
  assumes "\<And>any. any \<in> snd ` set ps \<Longrightarrow> reads rd any (amf0_enc any)"
    and "props_ok ps" and "distinct (map fst ps)"
  shows "reads (\<lambda>s. read_props rd (Suc (remaining s)) [] s) ps (props_enc ps @ eof_enc)"
proof (rule readsI)
  fix s rest
  assume ns: "\<not> sb_null s" and u: "upcoming s = (props_enc ps @ eof_enc) @ rest"
  have "length ps < Suc (remaining s)"
    using props_enc_bounds(1) [of ps] by (simp add: remaining_def u)
  from readsD [OF reads_props_enc [OF assms(1,2) _ this] ns u] assms(3)
  show "read_props rd (Suc (remaining s)) [] s
      = Inr (ps, adv (length (props_enc ps @ eof_enc)) s)"
    by simp
qed

lemma reads_object:
  assumes "\<And>any. any \<in> snd ` set ps \<Longrightarrow> reads rd any (amf0_enc any)"
    and "amf0_ok (Amf0Object ps)"
  shows "reads (object_read rd []) ps (amf0_enc (Amf0Object ps))"
  unfolding object_read_def [abs_def] amf0_enc.simps
  using assms by (intro reads_marker_bind reads_props_fuel) auto

lemma reads_ecma_array:
  assumes "\<And>any. any \<in> snd ` set ps \<Longrightarrow> reads rd any (amf0_enc any)"
    and "amf0_ok (Amf0EcmaArray n ps)"
  shows "reads (ecma_array_read rd []) (n, ps) (amf0_enc (Amf0EcmaArray n ps))"
  unfolding ecma_array_read_def [abs_def] amf0_enc.simps
proof (rule reads_marker_bind, rule read_need_bind [OF reads_need(3)])
  have "reads (\<lambda>s. read_props rd (Suc (remaining s)) [] s) ps (props_enc ps @ eof_enc)"
    using assms by (intro reads_props_fuel) auto
  from reads_map [where g = "Pair n", OF this]
  show "reads (\<lambda>s. bindR (read_props rd (Suc (remaining s)) [] s) (\<lambda>(ps, s). Inr ((n, ps), s)))
      (n, ps) (props_enc ps @ eof_enc)" .
qed

lemma reads_strict_array:
  assumes "\<And>any. any \<in> set xs \<Longrightarrow> reads rd any (amf0_enc any)"
    and "amf0_ok (Amf0StrictArray n xs)"
  shows "reads (strict_array_read rd []) (n, xs) (amf0_enc (Amf0StrictArray n xs))"
  unfolding strict_array_read_def [abs_def] amf0_enc.simps
proof (rule reads_marker_bind, rule read_need_bind [OF reads_need(3)])
  have "reads (read_elems rd 0 (sint n) []) xs (elems_enc xs)"
    using reads_elems_enc [of xs rd 0 "[]"] assms by simp
  from reads_map [where g = "Pair n", OF this]
  show "reads (\<lambda>s. bindR (read_elems rd 0 (sint n) [] s) (\<lambda>(xs, s). Inr ((n, xs), s)))
      (n, xs) (elems_enc xs)" .
qed

lemma reads_unit:
  assumes "\<And>s rest. upcoming s = bs @ rest \<Longrightarrow> r s = Inr (adv (length bs) s)"
  shows "reads (\<lambda>s. bindR (r s) (\<lambda>s. Inr (v, s))) v bs"
  using assms by (auto simp: reads_def)

lemma reads_null: "reads (\<lambda>s. bindR (srs_amf0_read_null s) (\<lambda>s. Inr (v, s))) v (amf0_enc Amf0Null)"
  and reads_undefined:
    "reads (\<lambda>s. bindR (srs_amf0_read_undefined s) (\<lambda>s. Inr (w, s))) w (amf0_enc Amf0Undefined)"
  and reads_eof: "reads (\<lambda>s. bindR (eof_read s) (\<lambda>s. Inr (u, s))) u eof_enc"
  by (rule reads_unit, simp add: srs_amf0_read_null_def srs_amf0_read_undefined_def
      read_marker_upcoming eof_read_upcoming eof_enc_def)+

lemma reads_any_enc:
  "amf0_ok v \<Longrightarrow> length (amf0_enc v) \<le> f \<Longrightarrow> reads (read_any f) v (amf0_enc v)"
proof (induction f arbitrary: v)
  case 0
  then show ?case by (simp add: amf0_enc_ne)
next
  case (Suc f)
  show ?case
  proof (rule reads_read_any [OF Suc.prems(1)])
    show "reads (amf0_read (read_any f) (fresh_of v)) v (amf0_enc v)"
    proof (cases v)
      case (Amf0Object ps)
      have mem: "reads (read_any f) any (amf0_enc any)" if "any \<in> snd ` set ps" for any
        using that Suc.prems props_enc_bounds(2) [OF that] props_ok_member [OF _ that]
        by (intro Suc.IH) (auto simp: Amf0Object)
      have "reads (object_read (read_any f) []) ps (amf0_enc v)"
        unfolding Amf0Object by (rule reads_object, erule mem) (use Suc.prems Amf0Object in simp)
      from reads_map [OF this, where g = "Amf0Object"] show ?thesis
        by (simp add: Amf0Object amf0_read_def [abs_def])
    next
      case (Amf0EcmaArray n ps)
      have mem: "reads (read_any f) any (amf0_enc any)" if "any \<in> snd ` set ps" for any
        using that Suc.prems props_enc_bounds(2) [OF that] props_ok_member [OF _ that]
        by (intro Suc.IH) (auto simp: Amf0EcmaArray)
      have "reads (ecma_array_read (read_any f) []) (n, ps) (amf0_enc v)"
        unfolding Amf0EcmaArray by (rule reads_ecma_array, erule mem) (use Suc.prems Amf0EcmaArray in simp)
      from reads_map2 [OF this, where g = Amf0EcmaArray] show ?thesis
        by (simp add: Amf0EcmaArray amf0_read_def [abs_def])
    next
      case (Amf0StrictArray n xs)
      have mem: "reads (read_any f) any (amf0_enc any)" if "any \<in> set xs" for any
        using that Suc.prems elems_enc_bound [OF that] elems_ok_member [OF _ that]
        by (intro Suc.IH) (auto simp: Amf0StrictArray)
      have "reads (strict_array_read (read_any f) []) (n, xs) (amf0_enc v)"
        unfolding Amf0StrictArray by (rule reads_strict_array, erule mem) (use Suc.prems Amf0StrictArray in simp)
      from reads_map2 [OF this, where g = Amf0StrictArray] show ?thesis
        by (simp add: Amf0StrictArray amf0_read_def [abs_def])
    next
      case (Amf0Date d z)
      from reads_map2 [OF reads_date, where g = Amf0Date]
      show ?thesis by (simp add: Amf0Date amf0_read_def [abs_def])
    qed (use Suc.prems reads_map [OF reads_string, where g = Amf0String]
        reads_map [OF reads_boolean, where g = Amf0Boolean]
        reads_map [OF reads_number, where g = Amf0Number] reads_null reads_undefined reads_eof
        in \<open>simp_all add: amf0_read_def [abs_def]\<close>)
  qed
qed

lemma reads_srs_amf0_read_any: "amf0_ok v \<Longrightarrow> reads srs_amf0_read_any v (amf0_enc v)"
proof (rule readsI)
  fix s rest
  assume "amf0_ok v" and "\<not> sb_null s" and "upcoming s = amf0_enc v @ rest"
  then show "srs_amf0_read_any s = Inr (v, adv (length (amf0_enc v)) s)"
    using readsD [OF reads_any_enc]
    by (simp add: srs_amf0_read_any_def remaining_def del: read_any.simps)
qed

interpretation amf0: field_codec amf0_write srs_amf0_read_any amf0_enc amf0_ok
proof unfold_locales
  fix v s assume "room (length (amf0_enc v)) s"
  then show "amf0_write v s = Inr (put (amf0_enc v) s)"
    using writesD [OF writes_amf0(1)] by (simp add: fits_def)
qed (rule readsD [OF reads_srs_amf0_read_any])

interpretation utf8: field_codec srs_amf0_write_utf8 "srs_amf0_read_utf8 ''''" utf8_enc
    "\<lambda>v. length v < 32768"
proof unfold_locales
  fix v s assume "room (length (utf8_enc v)) s"
  then show "srs_amf0_write_utf8 v s = Inr (put (utf8_enc v) s)"
    using writesD [OF writes_utf8] by (simp add: fits_def)
qed (rule readsD [OF reads_utf8])

end
