(* ===== verification/Srs_Amf0_Safety.thy ===== *)
theory Srs_Amf0_Safety
  imports Srs_Amf0_Codec
begin

text \<open>
  Safety of the AMF0 readers on arbitrary input: the bytes come from the network.
\<close>

section \<open>Safe results\<close>

text \<open>
  What can be said of every result, whatever the bytes are: an error is one of the two
  decoding errors (no assertion fails, no access is out of the buffer, the fuel is never
  exhausted), a success moves the position forward by at least \<open>k\<close> bytes, inside the
  buffer, and returns a value with the property \<open>P\<close>.
\<close>

definition safe_res :: "nat \<Rightarrow> ('a \<Rightarrow> bool) \<Rightarrow> sbuf \<Rightarrow> ('a \<times> sbuf) res \<Rightarrow> bool" where
  "safe_res k P s r \<longleftrightarrow> (case r of
     Inl e \<Rightarrow> e = ERROR_RTMP_AMF0_DECODE \<or> e = ERROR_RTMP_AMF0_INVALID
   | Inr (v, s') \<Rightarrow> P v \<and> (\<exists>n. k \<le> n \<and> n \<le> remaining s \<and> s' = adv n s))"

definition safe_st :: "nat \<Rightarrow> sbuf \<Rightarrow> sbuf res \<Rightarrow> bool" where
  "safe_st k s r \<longleftrightarrow> (case r of
     Inl e \<Rightarrow> e = ERROR_RTMP_AMF0_DECODE
   | Inr s' \<Rightarrow> \<exists>n. k \<le> n \<and> n \<le> remaining s \<and> s' = adv n s)"

lemma remaining_adv: "remaining (adv n s) = remaining s - n"
  by (simp add: remaining_def upcoming_adv)

lemma room_remaining: "0 < n \<Longrightarrow> room n s \<longleftrightarrow> n \<le> remaining s"
  by (simp add: remaining_def room_upcoming)

lemma safe_return: "P v \<Longrightarrow> safe_res 0 P s (Inr (v, s))"
  by (auto simp: safe_res_def intro: exI [of _ 0])

lemma safe_mono: "safe_res k P s r \<Longrightarrow> k' \<le> k \<Longrightarrow> (\<And>v. P v \<Longrightarrow> Q v) \<Longrightarrow> safe_res k' Q s r"
  by (cases r) (auto simp: safe_res_def intro: le_trans)

lemma safe_res_adv:
  assumes "safe_res k2 Q (adv n s) r" and "k1 \<le> n" and "n \<le> remaining s"
  shows "safe_res (k1 + k2) Q s r"
proof (cases r)
  case (Inl e)
  with assms(1) show ?thesis by (simp add: safe_res_def)
next
  case (Inr p)
  with assms(1) obtain v m where "r = Inr (v, adv (n + m) s)" "Q v" "k2 \<le> m"
      "m \<le> remaining s - n"
    by (cases p) (auto simp: safe_res_def remaining_adv)
  with assms(2,3) show ?thesis
    by (auto simp: safe_res_def intro!: exI [of _ "n + m"])
qed

lemma safe_bind:
  assumes "safe_res k1 P s m"
    and "\<And>v n. P v \<Longrightarrow> k1 \<le> n \<Longrightarrow> n \<le> remaining s \<Longrightarrow> safe_res k2 Q (adv n s) (f v (adv n s))"
  shows "safe_res (k1 + k2) Q s (bindR m (\<lambda>(v, s). f v s))"
proof (cases m)
  case (Inl e)
  with assms(1) show ?thesis by (simp add: safe_res_def)
next
  case (Inr p)
  with assms(1) obtain v n where m: "m = Inr (v, adv n s)" "P v" "k1 \<le> n" "n \<le> remaining s"
    by (cases p) (auto simp: safe_res_def)
  from safe_res_adv [OF assms(2) [OF m(2-4)] m(3,4)] m(1) show ?thesis by simp
qed

lemma safe_st_bind:
  assumes "safe_st k1 s m"
    and "\<And>n. k1 \<le> n \<Longrightarrow> n \<le> remaining s \<Longrightarrow> safe_res k2 Q (adv n s) (f (adv n s))"
  shows "safe_res (k1 + k2) Q s (bindR m f)"
proof (cases m)
  case (Inl e)
  with assms(1) show ?thesis by (simp add: safe_res_def safe_st_def)
next
  case (Inr p)
  with assms(1) obtain n where m: "m = Inr (adv n s)" "k1 \<le> n" "n \<le> remaining s"
    by (auto simp: safe_st_def)
  from safe_res_adv [OF assms(2) [OF m(2-3)] m(2,3)] m(1) show ?thesis by simp
qed

lemma safe_need:
  assumes "0 < n" and "nat n \<le> remaining s \<Longrightarrow> safe_res k P s r"
  shows "safe_res k P s (bindR (need n ERROR_RTMP_AMF0_DECODE s) (\<lambda>_. r))"
  using assms by (auto simp: need_eq room_remaining) (simp add: safe_res_def)

lemma safe_read:
  "1 \<le> remaining s \<Longrightarrow> safe_res 1 (\<lambda>_. True) s (read_1bytes s)"
  "2 \<le> remaining s \<Longrightarrow> safe_res 2 (\<lambda>_. True) s (read_2bytes s)"
  "4 \<le> remaining s \<Longrightarrow> safe_res 4 (\<lambda>_. True) s (read_4bytes s)"
  "8 \<le> remaining s \<Longrightarrow> safe_res 8 (\<lambda>_. True) s (read_8bytes s)"
  by (auto simp: safe_res_def read_1bytes_def read_2bytes_def read_4bytes_def read_8bytes_def
      fetch_numeral room_remaining)

lemma safe_need_read:
  "safe_res 1 (\<lambda>_. True) s (bindR (need 1 ERROR_RTMP_AMF0_DECODE s) (\<lambda>_. read_1bytes s))"
  "safe_res 2 (\<lambda>_. True) s (bindR (need 2 ERROR_RTMP_AMF0_DECODE s) (\<lambda>_. read_2bytes s))"
  "safe_res 4 (\<lambda>_. True) s (bindR (need 4 ERROR_RTMP_AMF0_DECODE s) (\<lambda>_. read_4bytes s))"
  "safe_res 8 (\<lambda>_. True) s (bindR (need 8 ERROR_RTMP_AMF0_DECODE s) (\<lambda>_. read_8bytes s))"
  by (rule safe_need, simp, rule safe_read, simp)+

text \<open>The shape in which the code reads a field and goes on.\<close>

lemma safe_need_bind:
  assumes "safe_res k1 (\<lambda>_. True) s (bindR (a s) (\<lambda>_. r s))"
    and "\<And>v n. k1 \<le> n \<Longrightarrow> n \<le> remaining s \<Longrightarrow> safe_res k2 Q (adv n s) (f v (adv n s))"
  shows "safe_res (k1 + k2) Q s (bindR (a s) (\<lambda>_. bindR (r s) (\<lambda>(v, s). f v s)))"
  using safe_bind [OF assms(1), of k2 Q f] assms(2) by (simp add: bindR_assoc)

lemma safe_read_string:
  "0 < n \<Longrightarrow> nat n \<le> remaining s \<Longrightarrow> safe_res 0 (\<lambda>v. length v = nat n) s (read_string n s)"
  using fetch_eq [of "nat n" s]
  by (auto simp: safe_res_def read_string_def room_remaining remaining_def upcoming_def)

lemma sint_16_le: "sint (w :: 16 word) < 32768"
  using sint_lt [of w] by simp

lemma safe_utf8: "safe_res 2 (\<lambda>v. length v < 32768) s (srs_amf0_read_utf8 '''' s)"
proof -
  have "safe_res (2 + 0) (\<lambda>v. length v < 32768) s (srs_amf0_read_utf8 '''' s)"
    unfolding srs_amf0_read_utf8_def
  proof (rule safe_need_bind [OF safe_need_read(2)])
    fix v :: "16 word" and n
    show "safe_res 0 (\<lambda>v. length v < 32768) (adv n s)
        (if sint v \<le> 0 then Inr ('''', adv n s)
         else bindR (need (sint v) ERROR_RTMP_AMF0_DECODE (adv n s))
           (\<lambda>_. read_string (sint v) (adv n s)))"
      using sint_16_le [of v]
      by (auto intro!: safe_return safe_need safe_mono [OF safe_read_string])
  qed
  then show ?thesis by simp
qed

lemma safe_marker: "safe_st 1 s (read_marker m s)"
  by (auto simp: safe_st_def read_marker_def codec_simps room_remaining read_1bytes_def
      fetch_numeral check_def)

lemma safe_eof: "safe_st 3 s (eof_read s)"
proof (cases "2 \<le> remaining s")
  case False
  then show ?thesis by (simp add: safe_st_def eof_read_def codec_simps room_remaining)
next
  case True
  then show ?thesis
    by (auto simp: safe_st_def eof_read_def read_marker_def codec_simps room_remaining
        read_1bytes_def read_2bytes_def fetch_numeral check_def remaining_adv)
qed

section \<open>The readers of the classes\<close>

text \<open>
  What every value that was read satisfies: strings shorter than \<open>2 ^ 15\<close>, no property
  twice, no more elements in a strict array than its count announces.
\<close>

fun amf0_typed :: "amf0 \<Rightarrow> bool"
  and props_typed :: "props \<Rightarrow> bool"
  and elems_typed :: "amf0 list \<Rightarrow> bool"
where
  "amf0_typed (Amf0String v) \<longleftrightarrow> length v < 32768"
| "amf0_typed (Amf0Boolean v) \<longleftrightarrow> True"
| "amf0_typed (Amf0Number v) \<longleftrightarrow> True"
| "amf0_typed (Amf0Date d z) \<longleftrightarrow> True"
| "amf0_typed Amf0Null \<longleftrightarrow> True"
| "amf0_typed Amf0Undefined \<longleftrightarrow> True"
| "amf0_typed (Amf0Object ps) \<longleftrightarrow> distinct (map fst ps) \<and> props_typed ps"
| "amf0_typed (Amf0EcmaArray n ps) \<longleftrightarrow> distinct (map fst ps) \<and> props_typed ps"
| "amf0_typed (Amf0StrictArray n xs) \<longleftrightarrow> length xs \<le> nat (sint n) \<and> elems_typed xs"
| "amf0_typed Amf0ObjectEOF \<longleftrightarrow> True"
| "props_typed [] \<longleftrightarrow> True"
| "props_typed ((name, any) # ps) \<longleftrightarrow> length name < 32768 \<and> amf0_typed any \<and> props_typed ps"
| "elems_typed [] \<longleftrightarrow> True"
| "elems_typed (any # xs) \<longleftrightarrow> amf0_typed any \<and> elems_typed xs"

lemma props_typed_append: "props_typed (ps @ qs) \<longleftrightarrow> props_typed ps \<and> props_typed qs"
  by (induction ps) auto

lemma elems_typed_append: "elems_typed (xs @ ys) \<longleftrightarrow> elems_typed xs \<and> elems_typed ys"
  by (induction xs) auto

lemma props_typed_erase: "props_typed ps \<Longrightarrow> props_typed (erase_first k ps)"
  by (induction k ps rule: erase_first.induct) auto

lemma props_typed_set:
  "props_typed ps \<Longrightarrow> length k < 32768 \<Longrightarrow> amf0_typed v \<Longrightarrow> props_typed (ht_set k (Some v) ps)"
  by (simp add: ht_set_def props_typed_append props_typed_erase)

lemma safe_eof_peek: "\<not> sb_null s \<Longrightarrow> safe_res 0 (\<lambda>_. True) s (srs_amf0_is_object_eof s)"
  by (simp add: is_object_eof_upcoming safe_return)

lemma safe_check: "(c \<Longrightarrow> safe_res k P s r) \<Longrightarrow> safe_res k P s (bindR (check c ERROR_RTMP_AMF0_DECODE) (\<lambda>_. r))"
  by (cases c) (simp_all add: safe_res_def)

lemma discovery_total:
  assumes "\<not> sb_null s"
  shows "discovery s = Inl ERROR_RTMP_AMF0_DECODE \<or> discovery s = Inl ERROR_RTMP_AMF0_INVALID
    \<or> (\<exists>v. discovery s = Inr (v, s) \<and> fresh_of v = v)"
proof (cases "take 3 (upcoming s) = eof_enc")
  case True
  with assms show ?thesis by (simp add: discovery_def is_object_eof_upcoming)
next
  case ne: False
  show ?thesis
  proof (cases "room 1 s")
    case False
    with ne assms show ?thesis by (simp add: discovery_def is_object_eof_upcoming codec_simps)
  next
    case True
    then show ?thesis
      using ne assms buf_skip_back [OF assms]
      by (simp add: discovery_def is_object_eof_upcoming codec_simps read_1bytes_def fetch_numeral)
  qed
qed

lemma safe_read_props:
  assumes rd: "\<And>s. \<not> sb_null s \<Longrightarrow> remaining s \<le> m \<Longrightarrow> safe_res 1 amf0_typed s (rd s)"
  shows "\<not> sb_null s \<Longrightarrow> remaining s \<le> m \<Longrightarrow> remaining s < n \<Longrightarrow>
    distinct (map fst ps) \<Longrightarrow> props_typed ps \<Longrightarrow>
    safe_res 0 (\<lambda>ps. distinct (map fst ps) \<and> props_typed ps) s (read_props rd n ps s)"
proof (induction n arbitrary: s ps)
  case 0
  then show ?case by simp
next
  case (Suc n)
  let ?P = "\<lambda>ps. distinct (map fst ps) \<and> props_typed ps"
  show ?case
  proof (cases "buf_empty s \<or> take 3 (upcoming s) = eof_enc")
    case True
    moreover have "safe_res (3 + 0) ?P s (bindR (eof_read s) (\<lambda>s. Inr (ps, s)))"
      using Suc.prems by (intro safe_st_bind [OF safe_eof] safe_return) simp
    ultimately show ?thesis
      using Suc.prems by (auto simp: is_object_eof_upcoming intro: safe_return safe_mono)
  next
    case False
    have "safe_res (2 + (1 + 0)) ?P s (bindR (srs_amf0_read_utf8 '''' s)
         (\<lambda>(name, s). bindR (rd s)
         (\<lambda>(value, s). read_props rd n (ht_set name (Some value) ps) s)))"
    proof (rule safe_bind [OF safe_utf8])
      fix name :: string and k
      assume name: "length name < 32768" and k: "2 \<le> k" "k \<le> remaining s"
      show "safe_res (1 + 0) ?P (adv k s) (bindR (rd (adv k s))
         (\<lambda>(value, s). read_props rd n (ht_set name (Some value) ps) s))"
      proof (rule safe_bind [OF rd])
        fix v l
        assume v: "amf0_typed v" and l: "1 \<le> l" "l \<le> remaining (adv k s)"
        show "safe_res 0 ?P (adv l (adv k s))
          (read_props rd n (ht_set name (Some v) ps) (adv l (adv k s)))"
          by (rule Suc.IH)
            (use Suc.prems k l v name in \<open>simp_all add: remaining_adv distinct_ht_set props_typed_set\<close>)
      qed (use Suc.prems k in \<open>simp_all add: remaining_adv\<close>)
    qed
    then show ?thesis
      using False Suc.prems by (auto simp: is_object_eof_upcoming intro: safe_mono)
  qed
qed

lemma safe_read_elems:
  assumes rd: "\<And>s. \<not> sb_null s \<Longrightarrow> remaining s \<le> m \<Longrightarrow> safe_res 1 amf0_typed s (rd s)"
  shows "\<not> sb_null s \<Longrightarrow> remaining s \<le> m \<Longrightarrow> elems_typed xs \<Longrightarrow> i = int (length xs) \<Longrightarrow>
    length xs \<le> nat count \<Longrightarrow>
    safe_res 0 (\<lambda>xs. length xs \<le> nat count \<and> elems_typed xs) s (read_elems rd i count xs s)"
proof (induction "nat (count - i)" arbitrary: i xs s rule: less_induct)
  case less
  let ?P = "\<lambda>xs. length xs \<le> nat count \<and> elems_typed xs"
  show ?case
  proof (cases "i < count \<and> \<not> buf_empty s")
    case False
    with less.prems show ?thesis by (subst read_elems.simps) (auto intro: safe_return)
  next
    case True
    have "safe_res (1 + 0) ?P s (bindR (rd s)
        (\<lambda>(elem, s). read_elems rd (i + 1) count (xs @ [elem]) s))"
    proof (rule safe_bind [OF rd])
      fix v l
      assume "amf0_typed v" and "1 \<le> l" and "l \<le> remaining s"
      with less.prems True
      show "safe_res 0 ?P (adv l s) (read_elems rd (i + 1) count (xs @ [v]) (adv l s))"
        by (intro less.hyps) (auto simp: remaining_adv elems_typed_append)
    qed (use less.prems in auto)
    with True show ?thesis by (subst read_elems.simps) (auto intro: safe_mono)
  qed
qed

lemma safe_marker_bind:
  assumes "\<And>n. 1 \<le> n \<Longrightarrow> n \<le> remaining s \<Longrightarrow> safe_res k P (adv n s) (f (adv n s))"
  shows "safe_res (1 + k) P s (bindR (read_marker m s) f)"
  using assms by (rule safe_st_bind [OF safe_marker])

lemma safe_map:
  "safe_res k P s r \<Longrightarrow> (\<And>v. P v \<Longrightarrow> Q (g v)) \<Longrightarrow>
   safe_res k Q s (bindR r (\<lambda>(v, s). Inr (g v, s)))"
  by (cases r) (auto simp: safe_res_def)

lemma safe_map2:
  "safe_res k (\<lambda>(a, b). P a b) s r \<Longrightarrow> (\<And>a b. P a b \<Longrightarrow> Q (g a b)) \<Longrightarrow> k' \<le> k \<Longrightarrow>
   safe_res k' Q s (bindR r (\<lambda>((a, b), s). Inr (g a b, s)))"
  by (rule safe_mono [where k = k and P = Q], cases r) (auto simp: safe_res_def)

lemma safe_st_map:
  "safe_st k s r \<Longrightarrow> Q v \<Longrightarrow> safe_res k Q s (bindR r (\<lambda>s. Inr (v, s)))"
  by (cases r) (auto simp: safe_res_def safe_st_def)

lemma safe_read_string_any:
  "safe_res 1 (\<lambda>v. length v < 32768) s (srs_amf0_read_string '''' s)"
  unfolding srs_amf0_read_string_def
  by (rule safe_mono [OF safe_marker_bind [where k = 2]]) (auto intro: safe_utf8)

lemma safe_read_boolean: "safe_res 1 (\<lambda>_. True) s (srs_amf0_read_boolean s)"
  unfolding srs_amf0_read_boolean_def
proof (rule safe_mono [OF safe_marker_bind])
  fix n
  show "safe_res (1 + 0) (\<lambda>_. True) (adv n s) (bindR (need 1 ERROR_RTMP_AMF0_DECODE (adv n s))
      (\<lambda>_. bindR (read_1bytes (adv n s)) (\<lambda>(b, s). Inr (b \<noteq> 0, s))))"
    by (rule safe_need_bind [OF safe_need_read(1)]) (rule safe_return, rule TrueI)
qed simp_all

lemma safe_read_number: "safe_res 1 (\<lambda>_. True) s (srs_amf0_read_number s)"
  unfolding srs_amf0_read_number_def
  by (rule safe_mono [OF safe_marker_bind [where k = 8]]) (auto intro!: safe_need_read(4))

lemma safe_date: "safe_res 1 (\<lambda>(d, z). True) s (date_read s)"
  unfolding date_read_def
proof (rule safe_mono [OF safe_marker_bind])
  fix n
  show "safe_res (8 + (2 + 0)) (\<lambda>_. True) (adv n s)
    (bindR (need 8 ERROR_RTMP_AMF0_DECODE (adv n s))
     (\<lambda>_. bindR (read_8bytes (adv n s))
     (\<lambda>(d, s). bindR (need 2 ERROR_RTMP_AMF0_DECODE s)
     (\<lambda>_. bindR (read_2bytes s) (\<lambda>(z, s). Inr ((d, z), s))))))"
    by (rule safe_need_bind [OF safe_need_read(4)], rule safe_need_bind [OF safe_need_read(2)],
        rule safe_return, rule TrueI)
qed simp_all

lemma safe_object_read:
  assumes rd: "\<And>s'. \<not> sb_null s' \<Longrightarrow> remaining s' < remaining s \<Longrightarrow> safe_res 1 amf0_typed s' (rd s')"
    and ns: "\<not> sb_null s" and ps: "distinct (map fst ps)" "props_typed ps"
  shows "safe_res (1 + 0) (\<lambda>ps. distinct (map fst ps) \<and> props_typed ps) s (object_read rd ps s)"
  unfolding object_read_def
proof (rule safe_marker_bind)
  fix n assume n: "1 \<le> n" "n \<le> remaining s"
  show "safe_res 0 (\<lambda>ps. distinct (map fst ps) \<and> props_typed ps) (adv n s)
      (read_props rd (Suc (remaining (adv n s))) ps (adv n s))"
    by (rule safe_read_props [where m = "remaining s - 1"], rule rd)
      (use n ns ps in \<open>auto simp: remaining_adv\<close>)
qed

lemma safe_ecma_array_read:
  assumes rd: "\<And>s'. \<not> sb_null s' \<Longrightarrow> remaining s' < remaining s \<Longrightarrow> safe_res 1 amf0_typed s' (rd s')"
    and ns: "\<not> sb_null s" and ps: "distinct (map fst ps)" "props_typed ps"
  shows "safe_res (1 + (4 + 0)) (\<lambda>(_, ps). distinct (map fst ps) \<and> props_typed ps) s
    (ecma_array_read rd ps s)"
  unfolding ecma_array_read_def
proof (rule safe_marker_bind, rule safe_need_bind [OF safe_need_read(3)], rule safe_map)
  fix n k and v :: "32 word"
  assume n: "1 \<le> n" "n \<le> remaining s" "4 \<le> k" "k \<le> remaining (adv n s)"
  show "safe_res 0 (\<lambda>ps. distinct (map fst ps) \<and> props_typed ps) (adv k (adv n s))
      (read_props rd (Suc (remaining (adv k (adv n s)))) ps (adv k (adv n s)))"
    by (rule safe_read_props [where m = "remaining s - 1"], rule rd)
      (use n ns ps in \<open>auto simp: remaining_adv\<close>)
qed auto

lemma safe_strict_array_read:
  assumes rd: "\<And>s'. \<not> sb_null s' \<Longrightarrow> remaining s' < remaining s \<Longrightarrow> safe_res 1 amf0_typed s' (rd s')"
    and ns: "\<not> sb_null s"
  shows "safe_res (1 + (4 + 0)) (\<lambda>(n, xs). length xs \<le> nat (sint n) \<and> elems_typed xs) s
    (strict_array_read rd [] s)"
  unfolding strict_array_read_def
proof (rule safe_marker_bind, rule safe_need_bind [OF safe_need_read(3)], rule safe_map)
  fix n k and v :: "32 word"
  assume n: "1 \<le> n" "n \<le> remaining s" "4 \<le> k" "k \<le> remaining (adv n s)"
  show "safe_res 0 (\<lambda>xs. length xs \<le> nat (sint v) \<and> elems_typed xs) (adv k (adv n s))
      (read_elems rd 0 (sint v) [] (adv k (adv n s)))"
    by (rule safe_read_elems [where m = "remaining s - 1"], rule rd)
      (use n ns in \<open>auto simp: remaining_adv\<close>)
qed auto

lemma safe_amf0_read:
  assumes rd: "\<And>s'. \<not> sb_null s' \<Longrightarrow> remaining s' < remaining s \<Longrightarrow> safe_res 1 amf0_typed s' (rd s')"
    and ns: "\<not> sb_null s" and v: "fresh_of v = v"
  shows "safe_res 1 amf0_typed s (amf0_read rd v s)"
proof (cases v)
  case (Amf0Object ps)
  with v have [simp]: "ps = []" by simp
  show ?thesis
    using safe_map [OF safe_object_read [OF rd ns, of "[]"], of amf0_typed Amf0Object]
    by (simp add: Amf0Object amf0_read_def)
next
  case (Amf0EcmaArray n ps)
  with v have [simp]: "ps = []" by simp
  show ?thesis
    using safe_map2 [OF safe_ecma_array_read [OF rd ns, of "[]"], of amf0_typed Amf0EcmaArray 1]
    by (simp add: Amf0EcmaArray amf0_read_def)
next
  case (Amf0StrictArray n xs)
  with v have [simp]: "xs = []" by simp
  show ?thesis
    using safe_map2 [OF safe_strict_array_read [OF rd ns], of amf0_typed Amf0StrictArray 1]
    by (simp add: Amf0StrictArray amf0_read_def)
next
  case (Amf0Date d z)
  show ?thesis
    using safe_map2 [OF safe_date, of amf0_typed Amf0Date 1] by (simp add: Amf0Date amf0_read_def)
next
  case Amf0ObjectEOF
  show ?thesis
    using safe_mono [OF safe_st_map [OF safe_eof, of amf0_typed Amf0ObjectEOF s], of 1 amf0_typed]
    by (simp add: Amf0ObjectEOF amf0_read_def)
qed (use v safe_map [OF safe_read_string_any, of amf0_typed Amf0String s]
    safe_map [OF safe_read_boolean, of amf0_typed Amf0Boolean s]
    safe_map [OF safe_read_number, of amf0_typed Amf0Number s]
    safe_st_map [OF safe_marker, of amf0_typed _ s] in
    \<open>simp_all add: amf0_read_def srs_amf0_read_null_def srs_amf0_read_undefined_def\<close>)

lemma safe_read_any:
  "\<not> sb_null s \<Longrightarrow> remaining s < f \<Longrightarrow> safe_res 1 amf0_typed s (read_any f s)"
proof (induction f arbitrary: s)
  case 0
  then show ?case by simp
next
  case (Suc f)
  have "safe_res 1 amf0_typed s (amf0_read (read_any f) v s)" if "fresh_of v = v" for v
    using Suc.prems that by (intro safe_amf0_read Suc.IH) auto
  then show ?case
    using discovery_total [OF Suc.prems(1)] by (auto simp: safe_res_def [of _ _ _ "Inl _"])
qed

lemma safe_srs_amf0_read_any:
  "\<not> sb_null s \<Longrightarrow> safe_res 1 amf0_typed s (srs_amf0_read_any s)"
  unfolding srs_amf0_read_any_def by (rule safe_read_any) simp_all

section \<open>Copies\<close>

text \<open>No string of the value holds a NUL, and no property occurs twice.\<close>

fun nul_free :: "amf0 \<Rightarrow> bool"
  and props_nul_free :: "props \<Rightarrow> bool"
  and elems_nul_free :: "amf0 list \<Rightarrow> bool"
where
  "nul_free (Amf0String v) \<longleftrightarrow> CHR 0x00 \<notin> set v"
| "nul_free (Amf0Boolean v) \<longleftrightarrow> True"
| "nul_free (Amf0Number v) \<longleftrightarrow> True"
| "nul_free (Amf0Date d z) \<longleftrightarrow> True"
| "nul_free Amf0Null \<longleftrightarrow> True"
| "nul_free Amf0Undefined \<longleftrightarrow> True"
| "nul_free (Amf0Object ps) \<longleftrightarrow> distinct (map fst ps) \<and> props_nul_free ps"
| "nul_free (Amf0EcmaArray n ps) \<longleftrightarrow> distinct (map fst ps) \<and> props_nul_free ps"
| "nul_free (Amf0StrictArray n xs) \<longleftrightarrow> elems_nul_free xs"
| "nul_free Amf0ObjectEOF \<longleftrightarrow> True"
| "props_nul_free [] \<longleftrightarrow> True"
| "props_nul_free ((name, any) # ps) \<longleftrightarrow> nul_free any \<and> props_nul_free ps"
| "elems_nul_free [] \<longleftrightarrow> True"
| "elems_nul_free (any # xs) \<longleftrightarrow> nul_free any \<and> elems_nul_free xs"

lemma c_str_id: "CHR 0x00 \<notin> set v \<Longrightarrow> c_str v = v"
  by (auto simp: c_str_def takeWhile_eq_all_conv)

lemma copy_nul_free:
  "nul_free v \<Longrightarrow> amf0_copy v = v"
  "props_nul_free ps \<Longrightarrow> distinct (map fst (qs @ ps)) \<Longrightarrow> props_copy ps qs = qs @ ps"
  "elems_nul_free xs \<Longrightarrow> elems_copy xs = xs"
proof (induction v and ps qs and xs rule: amf0_copy_props_copy_elems_copy.induct)
  case (12 key any ps qs)
  then show ?case by (simp add: ht_set_fresh image_iff)
qed (simp_all add: c_str_id)

section \<open>Properties of the AMF0 codec\<close>

text \<open>C7: A value that the format can carry is read back exactly as it was written: the
  writer succeeds wherever \<open>total_size\<close> bytes are left, and a reader set at the start of
  what was written returns the same value and stops where the writer stopped.\<close>

theorem amf0_write_read_roundtrip:
  assumes "amf0_ok v" and "\<not> sb_null s" and "room (total_size v) s"
  shows "\<exists>s'. amf0_write v s = Inr s' \<and> srs_amf0_read_any (s'\<lparr>sb_pos := sb_pos s\<rparr>) = Inr (v, s')"
  using amf0.rd_wr [OF assms(1,2)] assms(3) by (simp add: length_amf0_enc)

theorem amf0_write_read_roundtrip_witness:
  "let v = Amf0Object [(''app'', Amf0String ''live''), (''seq'', Amf0StrictArray 2
         [Amf0Number 0x3FF0000000000000, Amf0EcmaArray 1 [('''', Amf0Date 5 6)]])];
       s = set_value (Some (replicate 100 0xFF))
   in \<exists>s'. amf0_write v s = Inr s' \<and> srs_amf0_read_any (s'\<lparr>sb_pos := sb_pos s\<rparr>) = Inr (v, s')"
  unfolding Let_def
  by (rule amf0_write_read_roundtrip)
    (simp_all add: number_ok_def byte_at_def set_value_def room_def size_str_def size_utf8_def
      size_number_def size_date_def size_object_eof_def)

text \<open>The writer of any value, nested or not, puts \<open>total_size\<close> bytes where they fit and
  fails with \<^verbatim>\<open>ERROR_RTMP_AMF0_ENCODE\<close> where they do not: the size that callers allocate
  is exact, and no write leaves the buffer.\<close>

theorem amf0_write_exact_size:
  "amf0_write v s = (if room (total_size v) s then Inr (put (amf0_enc v) s)
     else Inl ERROR_RTMP_AMF0_ENCODE) \<and> length (amf0_enc v) = total_size v"
  using writesD [OF writes_amf0(1), of v s] by (simp add: fits_def length_amf0_enc amf0_enc_ne)

text \<open>Reading arbitrary bytes as an AMF0 value is safe: the only failures are the two
  decoding errors (no assertion, no access out of the buffer, no endless recursion), and a
  success leaves the bytes alone, moves the position forward inside the buffer, and returns
  a well-formed value (strings below 32768 characters, no property twice, no more elements
  than a strict array announces).\<close>

theorem srs_amf0_read_any_total:
  assumes "\<not> sb_null s"
  shows "case srs_amf0_read_any s of
      Inl e \<Rightarrow> e = ERROR_RTMP_AMF0_DECODE \<or> e = ERROR_RTMP_AMF0_INVALID
    | Inr (v, s') \<Rightarrow> amf0_typed v \<and> sb_bytes s' = sb_bytes s \<and> sb_pos s < sb_pos s'
        \<and> sb_pos s' \<le> length (sb_bytes s)"
  using safe_srs_amf0_read_any [OF assms]
  by (auto simp: safe_res_def remaining_def upcoming_def split: sum.splits prod.splits)

theorem srs_amf0_read_any_total_witness:
  "case srs_amf0_read_any (set_value (Some [0x0A, 0, 0, 0, 9, 5, 8, 0])) of
      Inl e \<Rightarrow> e = ERROR_RTMP_AMF0_DECODE \<or> e = ERROR_RTMP_AMF0_INVALID
    | Inr (v, s') \<Rightarrow> amf0_typed v \<and> sb_bytes s' = sb_bytes (set_value (Some [0x0A, 0, 0, 0, 9, 5, 8, 0]))
        \<and> sb_pos (set_value (Some [0x0A, 0, 0, 0, 9, 5, 8, 0])) < sb_pos s'
        \<and> sb_pos s' \<le> length (sb_bytes (set_value (Some [0x0A, 0, 0, 0, 9, 5, 8, 0])))"
  by (rule srs_amf0_read_any_total) (simp add: set_value_def)

text \<open>A number whose two leading bytes are \<^verbatim>\<open>00 09\<close> is not read back: together with
  its marker it looks like the end of an object, so the reader returns an end marker and
  stops in the middle of the number.\<close>

theorem amf0_number_misread_as_eof:
  assumes "\<not> number_ok d" and "\<not> sb_null s" and "upcoming s = amf0_enc (Amf0Number d) @ rest"
  shows "srs_amf0_read_any s = Inr (Amf0ObjectEOF, adv 3 s)"
proof -
  from assms(1,3) have u: "upcoming s = eof_enc @ drop 3 (upcoming s)"
    by (simp add: number_ok_def be_8 eof_enc_def)
  then have "take 3 (upcoming s) = eof_enc"
    by (metis append_eq_conv_conj eof_enc_def length_Cons list.size(3) numeral_3_eq_3)
  with eof_read_upcoming [OF u] assms(2) show ?thesis
    by (simp add: srs_amf0_read_any_def discovery_def is_object_eof_upcoming amf0_read_def)
qed

theorem amf0_number_misread_as_eof_witness:
  "let s = set_value (Some [0x00, 0x00, 0x09, 0, 0, 0, 0, 0, 0])
   in srs_amf0_read_any s = Inr (Amf0ObjectEOF, adv 3 s)"
  unfolding Let_def
  by (rule amf0_number_misread_as_eof [where d = "0x0009000000000000" and rest = "[]"])
    (simp_all add: number_ok_def byte_at_def set_value_def upcoming_def be_8)

text \<open>C37: The length of a string is written as 16 bits and read as a signed integer. A
  string of 32768 to 65535 characters is written in full, but read back as the empty string
  with the position left just after the length.\<close>

theorem utf8_long_string_lost:
  assumes "32768 \<le> length v" and "length v < 65536" and "room (2 + length v) s"
  shows "srs_amf0_write_utf8 v s = Inr (put (utf8_enc v) s)
    \<and> srs_amf0_read_utf8 '''' ((put (utf8_enc v) s)\<lparr>sb_pos := sb_pos s\<rparr>)
      = Inr ('''', (put (utf8_enc v) s)\<lparr>sb_pos := sb_pos s + 2\<rparr>)"
proof
  show "srs_amf0_write_utf8 v s = Inr (put (utf8_enc v) s)"
    using writesD [OF writes_utf8, of v s] assms(3)
    by (simp add: fits_def length_utf8_enc size_utf8_def)
  let ?w = "of_nat (length v) :: 16 word" and ?t = "(put (utf8_enc v) s)\<lparr>sb_pos := sb_pos s\<rparr>"
  have "sint ?w = (int (length v) + 32768) mod 65536 - 32768"
    using int_word_sint [of "int (length v)", where ?'a = 16] by simp
  also have "(int (length v) + 32768) mod 65536 = (int (length v) - 32768) mod 65536"
    using mod_add_self2 [of "int (length v) - 32768" 65536] by (simp add: add.commute)
  also have "\<dots> = int (length v) - 32768"
    using assms(1,2) by (intro mod_pos_pos_trivial) simp_all
  finally have "sint ?w < 0"
    using assms(2) by simp
  moreover have u: "upcoming ?t = be 2 ?w @ map byte_of_char v @ drop (sb_pos s + (2 + length v)) (sb_bytes s)"
    using assms(3) by (simp add: upcoming_def put_def room_def utf8_enc_def)
  ultimately show "srs_amf0_read_utf8 '''' ?t = Inr ('''', (put (utf8_enc v) s)\<lparr>sb_pos := sb_pos s + 2\<rparr>)"
    using upcoming_room [OF u]
    by (simp add: srs_amf0_read_utf8_def codec_simps read_be(2) [OF u] adv_def)
qed

theorem utf8_long_string_lost_witness:
  "let v = replicate 40000 CHR ''a''; s = set_value (Some (replicate 40002 0))
   in srs_amf0_write_utf8 v s = Inr (put (utf8_enc v) s)
    \<and> srs_amf0_read_utf8 '''' ((put (utf8_enc v) s)\<lparr>sb_pos := sb_pos s\<rparr>)
      = Inr ('''', (put (utf8_enc v) s)\<lparr>sb_pos := sb_pos s + 2\<rparr>)"
  unfolding Let_def
  by (rule utf8_long_string_lost) (simp_all add: set_value_def room_def)

text \<open>Copying a value gives an equal value when no property occurs twice and no string
  holds a NUL.\<close>

theorem amf0_copy_faithful:
  assumes "nul_free v"
  shows "amf0_copy v = v \<and> amf0_enc (amf0_copy v) = amf0_enc v"
  using copy_nul_free(1) [OF assms] by simp

theorem amf0_copy_faithful_witness:
  "let v = Amf0EcmaArray 1 [(''a'', Amf0String ''b''), (''c'', Amf0StrictArray 1 [Amf0Null])]
   in amf0_copy v = v \<and> amf0_enc (amf0_copy v) = amf0_enc v"
  unfolding Let_def by (rule amf0_copy_faithful) simp

text \<open>The property table behaves as a map: after any sequence of assignments the last
  value assigned to a key is found, a key that was not assigned keeps what it had, a removed
  key is gone, and no key occurs twice.\<close>

theorem property_table_last_set_wins:
  assumes "distinct (map fst ps)"
  shows "let qs = fold (\<lambda>(k, v). ht_set k (Some v)) kvs ps in
    distinct (map fst qs)
    \<and> ht_get_property k qs = (case map_of (rev kvs) k of Some v \<Rightarrow> Some v | None \<Rightarrow> ht_get_property k ps)
    \<and> ht_get_property k (ht_remove k qs) = None"
  using ht.get_fold_set [OF assms, of kvs k] by (simp add: Let_def ht_get_remove)

theorem property_table_last_set_wins_witness:
  "let qs = fold (\<lambda>(k, v). ht_set k (Some v)) [(''a'', Amf0Null), (''b'', Amf0Boolean True), (''a'', Amf0Undefined)] [] in
    distinct (map fst qs)
    \<and> ht_get_property ''a'' qs = (case map_of (rev [(''a'', Amf0Null), (''b'', Amf0Boolean True), (''a'', Amf0Undefined)]) ''a''
         of Some v \<Rightarrow> Some v | None \<Rightarrow> ht_get_property ''a'' [])
    \<and> ht_get_property ''a'' (ht_remove ''a'' qs) = None"
  by (rule property_table_last_set_wins) simp

end
