(* ===== verification/Srs_Flv_Message.thy ===== *)
theory Srs_Flv_Message
  imports Srs_Buffer "HOL-Library.Multiset"
begin

text \<open>
  RTMP messages (\<^verbatim>\<open>src/src/kernel/srs_kernel_flv.cpp\<close>): the message header, the message
  that the chunk reader assembles, the reference counted message that is sent to many
  clients, and the chunk headers of \<^verbatim>\<open>src/src/kernel/srs_kernel_utility.cpp\<close>.
\<close>

section \<open>Message header\<close>

abbreviation RTMP_MSG_SetChunkSize :: byte where "RTMP_MSG_SetChunkSize \<equiv> 0x01"
abbreviation RTMP_MSG_Acknowledgement :: byte where "RTMP_MSG_Acknowledgement \<equiv> 0x03"
abbreviation RTMP_MSG_UserControlMessage :: byte where "RTMP_MSG_UserControlMessage \<equiv> 0x04"
abbreviation RTMP_MSG_WindowAcknowledgementSize :: byte
  where "RTMP_MSG_WindowAcknowledgementSize \<equiv> 0x05"
abbreviation RTMP_MSG_SetPeerBandwidth :: byte where "RTMP_MSG_SetPeerBandwidth \<equiv> 0x06"
abbreviation RTMP_MSG_AudioMessage :: byte where "RTMP_MSG_AudioMessage \<equiv> 8"
abbreviation RTMP_MSG_VideoMessage :: byte where "RTMP_MSG_VideoMessage \<equiv> 9"
abbreviation RTMP_MSG_AMF3DataMessage :: byte where "RTMP_MSG_AMF3DataMessage \<equiv> 15"
abbreviation RTMP_MSG_AMF3CommandMessage :: byte where "RTMP_MSG_AMF3CommandMessage \<equiv> 17"
abbreviation RTMP_MSG_AMF0DataMessage :: byte where "RTMP_MSG_AMF0DataMessage \<equiv> 18"
abbreviation RTMP_MSG_AMF0CommandMessage :: byte where "RTMP_MSG_AMF0CommandMessage \<equiv> 20"
abbreviation RTMP_MSG_AggregateMessage :: byte where "RTMP_MSG_AggregateMessage \<equiv> 22"

abbreviation RTMP_CID_ProtocolControl :: int where "RTMP_CID_ProtocolControl \<equiv> 0x02"
abbreviation RTMP_CID_OverConnection :: int where "RTMP_CID_OverConnection \<equiv> 0x03"
abbreviation RTMP_CID_OverConnection2 :: int where "RTMP_CID_OverConnection2 \<equiv> 0x04"
abbreviation RTMP_CID_OverStream :: int where "RTMP_CID_OverStream \<equiv> 0x05"
abbreviation RTMP_CID_OverStream2 :: int where "RTMP_CID_OverStream2 \<equiv> 0x08"
abbreviation RTMP_CID_Video :: int where "RTMP_CID_Video \<equiv> 0x06"
abbreviation RTMP_CID_Audio :: int where "RTMP_CID_Audio \<equiv> 0x07"

record msg_header =
  mh_timestamp_delta :: "32 word"
  mh_payload_length :: "32 word"
  mh_message_type :: byte
  mh_stream_id :: "32 word"
  mh_timestamp :: "64 word"
  mh_perfer_cid :: int

definition mh_new :: msg_header where
  "mh_new = \<lparr>mh_timestamp_delta = 0, mh_payload_length = 0, mh_message_type = 0,
     mh_stream_id = 0, mh_timestamp = 0, mh_perfer_cid = RTMP_CID_OverConnection\<rparr>"

definition mh_is_audio :: "msg_header \<Rightarrow> bool" where
  "mh_is_audio h \<longleftrightarrow> mh_message_type h = RTMP_MSG_AudioMessage"
definition mh_is_video :: "msg_header \<Rightarrow> bool" where
  "mh_is_video h \<longleftrightarrow> mh_message_type h = RTMP_MSG_VideoMessage"
definition mh_is_amf0_command :: "msg_header \<Rightarrow> bool" where
  "mh_is_amf0_command h \<longleftrightarrow> mh_message_type h = RTMP_MSG_AMF0CommandMessage"
definition mh_is_amf0_data :: "msg_header \<Rightarrow> bool" where
  "mh_is_amf0_data h \<longleftrightarrow> mh_message_type h = RTMP_MSG_AMF0DataMessage"
definition mh_is_amf3_command :: "msg_header \<Rightarrow> bool" where
  "mh_is_amf3_command h \<longleftrightarrow> mh_message_type h = RTMP_MSG_AMF3CommandMessage"
definition mh_is_amf3_data :: "msg_header \<Rightarrow> bool" where
  "mh_is_amf3_data h \<longleftrightarrow> mh_message_type h = RTMP_MSG_AMF3DataMessage"
definition mh_is_window_ackledgement_size :: "msg_header \<Rightarrow> bool" where
  "mh_is_window_ackledgement_size h \<longleftrightarrow> mh_message_type h = RTMP_MSG_WindowAcknowledgementSize"
definition mh_is_ackledgement :: "msg_header \<Rightarrow> bool" where
  "mh_is_ackledgement h \<longleftrightarrow> mh_message_type h = RTMP_MSG_Acknowledgement"
definition mh_is_set_chunk_size :: "msg_header \<Rightarrow> bool" where
  "mh_is_set_chunk_size h \<longleftrightarrow> mh_message_type h = RTMP_MSG_SetChunkSize"
definition mh_is_user_control_message :: "msg_header \<Rightarrow> bool" where
  "mh_is_user_control_message h \<longleftrightarrow> mh_message_type h = RTMP_MSG_UserControlMessage"
definition mh_is_set_peer_bandwidth :: "msg_header \<Rightarrow> bool" where
  "mh_is_set_peer_bandwidth h \<longleftrightarrow> mh_message_type h = RTMP_MSG_SetPeerBandwidth"
definition mh_is_aggregate :: "msg_header \<Rightarrow> bool" where
  "mh_is_aggregate h \<longleftrightarrow> mh_message_type h = RTMP_MSG_AggregateMessage"

definition mh_initialize_amf0_script :: "int \<Rightarrow> int \<Rightarrow> msg_header \<Rightarrow> msg_header" where
  "mh_initialize_amf0_script n stream h = h\<lparr>mh_message_type := RTMP_MSG_AMF0DataMessage,
     mh_payload_length := word_of_int n, mh_timestamp_delta := 0, mh_timestamp := 0,
     mh_stream_id := word_of_int stream, mh_perfer_cid := RTMP_CID_OverConnection2\<rparr>"

definition mh_initialize_audio :: "int \<Rightarrow> 32 word \<Rightarrow> int \<Rightarrow> msg_header \<Rightarrow> msg_header" where
  "mh_initialize_audio n time stream h = h\<lparr>mh_message_type := RTMP_MSG_AudioMessage,
     mh_payload_length := word_of_int n, mh_timestamp_delta := time, mh_timestamp := ucast time,
     mh_stream_id := word_of_int stream, mh_perfer_cid := RTMP_CID_Audio\<rparr>"

definition mh_initialize_video :: "int \<Rightarrow> 32 word \<Rightarrow> int \<Rightarrow> msg_header \<Rightarrow> msg_header" where
  "mh_initialize_video n time stream h = h\<lparr>mh_message_type := RTMP_MSG_VideoMessage,
     mh_payload_length := word_of_int n, mh_timestamp_delta := time, mh_timestamp := ucast time,
     mh_stream_id := word_of_int stream, mh_perfer_cid := RTMP_CID_Video\<rparr>"

section \<open>The message that is read\<close>

text \<open>
  The payload is \<^verbatim>\<open>NULL\<close> or an array; a cell of the array is \<open>None\<close> until it is written.
\<close>

record common_msg =
  cm_header :: msg_header
  cm_size :: int
  cm_payload :: "byte option list option"

definition cm_new :: common_msg where
  "cm_new = \<lparr>cm_header = mh_new, cm_size = 0, cm_payload = None\<rparr>"

definition cm_create_payload :: "int \<Rightarrow> common_msg \<Rightarrow> common_msg" where
  "cm_create_payload n m = m\<lparr>cm_payload := Some (replicate (nat n) None)\<rparr>"

text \<open>\<^verbatim>\<open>create\<close> dereferences the header pointer without a test.\<close>

definition cm_create :: "msg_header option \<Rightarrow> byte list option \<Rightarrow> int \<Rightarrow> common_msg \<Rightarrow> common_msg res" where
  "cm_create pheader body n m = (case pheader of
     None \<Rightarrow> Inl UNDEFINED_BEHAVIOUR
   | Some h \<Rightarrow> Inr \<lparr>cm_header = h, cm_size = n, cm_payload = map_option (map Some) body\<rparr>)"

text \<open>\<^verbatim>\<open>memcpy(payload + off, bytes, n)\<close>; outside of the array it is undefined.\<close>

definition payload_put :: "nat \<Rightarrow> byte list \<Rightarrow> byte option list \<Rightarrow> byte option list res" where
  "payload_put off bs arr = (if off + length bs \<le> length arr
     then Inr (take off arr @ map Some bs @ drop (off + length bs) arr)
     else Inl UNDEFINED_BEHAVIOUR)"

section \<open>Chunk headers\<close>

definition SRS_CONSTS_RTMP_MAX_FMT0_HEADER_SIZE :: int where
  "SRS_CONSTS_RTMP_MAX_FMT0_HEADER_SIZE = 16"
definition SRS_CONSTS_RTMP_MAX_FMT3_HEADER_SIZE :: int where
  "SRS_CONSTS_RTMP_MAX_FMT3_HEADER_SIZE = 5"

abbreviation RTMP_EXTENDED_TIMESTAMP :: "32 word" where "RTMP_EXTENDED_TIMESTAMP \<equiv> 0xFFFFFF"

text \<open>The header bytes; the code returns their number, 0 when the cache is too small.\<close>

definition srs_chunk_header_c0 ::
    "int \<Rightarrow> 32 word \<Rightarrow> 32 word \<Rightarrow> byte \<Rightarrow> 32 word \<Rightarrow> int \<Rightarrow> byte list" where
  "srs_chunk_header_c0 perfer_cid timestamp payload_length message_type stream_id nb_cache =
     (if nb_cache < SRS_CONSTS_RTMP_MAX_FMT0_HEADER_SIZE then []
      else [or 0x00 (and (word_of_int perfer_cid) 0x3F)]
        @ (if timestamp < RTMP_EXTENDED_TIMESTAMP
           then [byte_at 2 timestamp, byte_at 1 timestamp, byte_at 0 timestamp]
           else [0xFF, 0xFF, 0xFF])
        @ [byte_at 2 payload_length, byte_at 1 payload_length, byte_at 0 payload_length]
        @ [message_type]
        @ [byte_at 0 stream_id, byte_at 1 stream_id, byte_at 2 stream_id, byte_at 3 stream_id]
        @ (if timestamp \<ge> RTMP_EXTENDED_TIMESTAMP
           then [byte_at 3 timestamp, byte_at 2 timestamp, byte_at 1 timestamp, byte_at 0 timestamp]
           else []))"

definition srs_chunk_header_c3 :: "int \<Rightarrow> 32 word \<Rightarrow> int \<Rightarrow> byte list" where
  "srs_chunk_header_c3 perfer_cid timestamp nb_cache =
     (if nb_cache < SRS_CONSTS_RTMP_MAX_FMT3_HEADER_SIZE then []
      else [or 0xC0 (and (word_of_int perfer_cid) 0x3F)]
        @ (if timestamp \<ge> RTMP_EXTENDED_TIMESTAMP
           then [byte_at 3 timestamp, byte_at 2 timestamp, byte_at 1 timestamp, byte_at 0 timestamp]
           else []))"

lemma length_chunk_headers:
  "length (srs_chunk_header_c0 cid ts pl ty sid n) \<le> 16"
  "length (srs_chunk_header_c3 cid ts n) \<le> 5"
  by (simp_all add: srs_chunk_header_c0_def srs_chunk_header_c3_def)

section \<open>The reference counted message\<close>

text \<open>
  Copies of a message share one payload object, which counts the copies beside the first.
  The payload objects live in a heap; the message holds the address \<^verbatim>\<open>ptr\<close>. The message's
  own \<^verbatim>\<open>payload\<close> and \<^verbatim>\<open>size\<close> repeat those of the shared object.
\<close>

record shared_payload =
  sp_payload_length :: "32 word"
  sp_message_type :: byte
  sp_perfer_cid :: int
  sp_payload :: "byte option list option"
  sp_size :: int
  sp_shared_count :: int

record shared_msg =
  sm_timestamp :: "64 word"
  sm_stream_id :: "32 word"
  sm_size :: int
  sm_payload :: "byte option list option"
  sm_ptr :: "nat option"

record sp_heap =
  h_next :: nat
  h_mem :: "nat \<Rightarrow> shared_payload option"

definition sp_new :: shared_payload where
  "sp_new = \<lparr>sp_payload_length = 0, sp_message_type = 0, sp_perfer_cid = 0, sp_payload = None,
     sp_size = 0, sp_shared_count = 0\<rparr>"

definition sm_new :: shared_msg where
  "sm_new = \<lparr>sm_timestamp = 0, sm_stream_id = 0, sm_size = 0, sm_payload = None, sm_ptr = None\<rparr>"

text \<open>Following \<^verbatim>\<open>ptr\<close>: a dangling or \<^verbatim>\<open>NULL\<close> pointer is undefined.\<close>

definition sm_deref :: "shared_msg \<Rightarrow> (sp_heap, nat \<times> shared_payload) prog" where
  "sm_deref m = (\<lambda>h. case sm_ptr m of
     None \<Rightarrow> (Inl UNDEFINED_BEHAVIOUR, h)
   | Some a \<Rightarrow> (case h_mem h a of None \<Rightarrow> (Inl UNDEFINED_BEHAVIOUR, h) | Some p \<Rightarrow> (Inr (a, p), h)))"

definition sp_store :: "nat \<Rightarrow> shared_payload \<Rightarrow> (sp_heap, unit) prog" where
  "sp_store a p = modifyP (\<lambda>h. h\<lparr>h_mem := (h_mem h)(a \<mapsto> p)\<rparr>)"

definition sm_create_header :: "msg_header option \<Rightarrow> byte option list option \<Rightarrow> int \<Rightarrow> shared_msg \<Rightarrow>
    (sp_heap, shared_msg) prog" where
  "sm_create_header pheader payload n m =
     bindP (checkP (sm_ptr m = None) ASSERT_FAILED)
     (\<lambda>_. bindP (getP h_next)
     (\<lambda>a. bindP (modifyP (\<lambda>h. h\<lparr>h_next := Suc a\<rparr>))
     (\<lambda>_. let p = (case pheader of
                 None \<Rightarrow> sp_new
               | Some h \<Rightarrow> sp_new\<lparr>sp_message_type := mh_message_type h,
                    sp_payload_length := word_of_int n, sp_perfer_cid := mh_perfer_cid h\<rparr>);
              m' = (case pheader of
                 None \<Rightarrow> m
               | Some h \<Rightarrow> m\<lparr>sm_timestamp := mh_timestamp h, sm_stream_id := mh_stream_id h\<rparr>)
          in bindP (sp_store a (p\<lparr>sp_payload := payload, sp_size := n\<rparr>))
               (\<lambda>_. returnP (m'\<lparr>sm_ptr := Some a, sm_payload := payload, sm_size := n\<rparr>)))))"

text \<open>Creation from a received message takes over its payload.\<close>

definition sm_create :: "common_msg \<Rightarrow> shared_msg \<Rightarrow> (sp_heap, common_msg \<times> shared_msg) prog" where
  "sm_create msg m =
     bindP (sm_create_header (Some (cm_header msg)) (cm_payload msg) (cm_size msg) m)
     (\<lambda>m'. returnP (msg\<lparr>cm_payload := None, cm_size := 0\<rparr>, m'))"

definition sm_count :: "shared_msg \<Rightarrow> (sp_heap, int) prog" where
  "sm_count m = bindP (checkP (sm_ptr m \<noteq> None) ASSERT_FAILED)
     (\<lambda>_. bindP (sm_deref m) (\<lambda>(_, p). returnP (sp_shared_count p)))"

definition sm_check :: "32 word \<Rightarrow> shared_msg \<Rightarrow> (sp_heap, bool \<times> shared_msg) prog" where
  "sm_check stream_id m = bindP (sm_deref m)
     (\<lambda>(a, p). bindP (if sp_perfer_cid p < 2
          then sp_store a (p\<lparr>sp_perfer_cid := RTMP_CID_ProtocolControl\<rparr>) else returnP ())
     (\<lambda>_. if sm_stream_id m = stream_id then returnP (True, m)
          else returnP (False, m\<lparr>sm_stream_id := stream_id\<rparr>)))"

definition sm_is_av :: "shared_msg \<Rightarrow> (sp_heap, bool) prog" where
  "sm_is_av m = bindP (sm_deref m) (\<lambda>(_, p). returnP
     (sp_message_type p = RTMP_MSG_AudioMessage \<or> sp_message_type p = RTMP_MSG_VideoMessage))"

definition sm_is_audio :: "shared_msg \<Rightarrow> (sp_heap, bool) prog" where
  "sm_is_audio m = bindP (sm_deref m) (\<lambda>(_, p). returnP (sp_message_type p = RTMP_MSG_AudioMessage))"

definition sm_is_video :: "shared_msg \<Rightarrow> (sp_heap, bool) prog" where
  "sm_is_video m = bindP (sm_deref m) (\<lambda>(_, p). returnP (sp_message_type p = RTMP_MSG_VideoMessage))"

definition sm_chunk_header :: "int \<Rightarrow> bool \<Rightarrow> shared_msg \<Rightarrow> (sp_heap, byte list) prog" where
  "sm_chunk_header nb_cache c0 m = bindP (sm_deref m)
     (\<lambda>(_, p). returnP
       (if c0 then srs_chunk_header_c0 (sp_perfer_cid p) (ucast (sm_timestamp m))
           (sp_payload_length p) (sp_message_type p) (sm_stream_id m) nb_cache
        else srs_chunk_header_c3 (sp_perfer_cid p) (ucast (sm_timestamp m)) nb_cache))"

definition sm_copy :: "shared_msg \<Rightarrow> (sp_heap, shared_msg) prog" where
  "sm_copy m = bindP (checkP (sm_ptr m \<noteq> None) ASSERT_FAILED)
     (\<lambda>_. bindP (sm_deref m)
     (\<lambda>(a, p). bindP (sp_store a (p\<lparr>sp_shared_count := sp_shared_count p + 1\<rparr>))
     (\<lambda>_. returnP (sm_new\<lparr>sm_ptr := Some a, sm_timestamp := sm_timestamp m,
        sm_stream_id := sm_stream_id m, sm_payload := sp_payload p, sm_size := sp_size p\<rparr>))))"

text \<open>The destructor: the last copy frees the payload object.\<close>

definition sm_destroy :: "shared_msg \<Rightarrow> (sp_heap, unit) prog" where
  "sm_destroy m = (case sm_ptr m of
     None \<Rightarrow> returnP ()
   | Some _ \<Rightarrow> bindP (sm_deref m)
       (\<lambda>(a, p). if sp_shared_count p = 0 then modifyP (\<lambda>h. h\<lparr>h_mem := (h_mem h)(a := None)\<rparr>)
          else sp_store a (p\<lparr>sp_shared_count := sp_shared_count p - 1\<rparr>)))"

section \<open>Reference counting\<close>

text \<open>
  A run of the program on shared messages: the heap and the live message objects. Objects
  are created, filled, copied, checked before sending, and destroyed, in any order.
\<close>

type_synonym sp_world = "sp_heap \<times> shared_msg list"

inductive sp_step :: "sp_world \<Rightarrow> sp_world \<Rightarrow> bool" where
  sp_new_msg: "sp_step (h, ms) (h, ms @ [sm_new])"
| sp_create: "i < length ms \<Longrightarrow> sm_create_header ph pl n (ms ! i) h = (Inr m', h') \<Longrightarrow>
    sp_step (h, ms) (h', ms[i := m'])"
| sp_copy: "i < length ms \<Longrightarrow> sm_copy (ms ! i) h = (Inr m', h') \<Longrightarrow> sp_step (h, ms) (h', ms @ [m'])"
| sp_check: "i < length ms \<Longrightarrow> sm_check sid (ms ! i) h = (Inr (b, m'), h') \<Longrightarrow>
    sp_step (h, ms) (h', ms[i := m'])"
| sp_destroy: "i < length ms \<Longrightarrow> sm_destroy (ms ! i) h = (Inr (), h') \<Longrightarrow>
    sp_step (h, ms) (h', take i ms @ drop (Suc i) ms)"

inductive sp_reach :: "sp_world \<Rightarrow> bool" where
  sp_start: "sp_reach (\<lparr>h_next = 0, h_mem = \<lambda>_. None\<rparr>, [])"
| sp_next: "sp_reach w \<Longrightarrow> sp_step w w' \<Longrightarrow> sp_reach w'"

definition refs :: "nat \<Rightarrow> shared_msg list \<Rightarrow> nat" where
  "refs a ms = count (mset (map sm_ptr ms)) (Some a)"

text \<open>
  A payload object exists exactly as long as a message refers to it, and its count is the
  number of these messages less one; a message shows the payload of its object.
\<close>

definition sp_inv :: "sp_world \<Rightarrow> bool" where
  "sp_inv w \<longleftrightarrow> (case w of (h, ms) \<Rightarrow>
     (\<forall>a p. h_mem h a = Some p \<longrightarrow> sp_shared_count p + 1 = int (refs a ms) \<and> 0 \<le> sp_shared_count p)
     \<and> (\<forall>a. h_mem h a = None \<longrightarrow> refs a ms = 0)
     \<and> (\<forall>a. h_next h \<le> a \<longrightarrow> h_mem h a = None)
     \<and> (\<forall>m a p. m \<in> set ms \<longrightarrow> sm_ptr m = Some a \<longrightarrow> h_mem h a = Some p \<longrightarrow>
          sm_payload m = sp_payload p \<and> sm_size m = sp_size p))"

lemma refs_append [simp]: "refs a (ms @ [m]) = refs a ms + (if sm_ptr m = Some a then 1 else 0)"
  by (simp add: refs_def)

lemma refs_pos:
  assumes "m \<in> set ms" and "sm_ptr m = Some a"
  shows "0 < refs a ms"
proof -
  have "Some a \<in> sm_ptr ` set ms" using assms by (metis imageI)
  then have "Some a \<in># mset (map sm_ptr ms)" by (simp only: set_mset_mset set_map)
  then show ?thesis by (simp only: refs_def count_greater_zero_iff)
qed

lemma refs_update:
  assumes "i < length ms"
  shows "refs a (ms[i := m]) = refs a ms - (if sm_ptr (ms ! i) = Some a then 1 else 0)
    + (if sm_ptr m = Some a then 1 else 0)"
proof -
  have "mset (map sm_ptr (ms[i := m])) = add_mset (sm_ptr m) (mset (map sm_ptr ms) - {#sm_ptr (ms ! i)#})"
    using assms by (simp only: map_update mset_update length_map nth_map)
  then show ?thesis by (simp add: refs_def del: mset_map)
qed

lemma refs_remove:
  assumes "i < length ms"
  shows "refs a ms = refs a (take i ms @ drop (Suc i) ms) + (if sm_ptr (ms ! i) = Some a then 1 else 0)"
proof -
  have "mset (map sm_ptr ms) = mset (map sm_ptr (take i ms @ ms ! i # drop (Suc i) ms))"
    using id_take_nth_drop [OF assms] by simp
  also have "\<dots> = add_mset (sm_ptr (ms ! i)) (mset (map sm_ptr (take i ms @ drop (Suc i) ms)))"
    by simp
  finally show ?thesis by (simp add: refs_def del: mset_map)
qed

lemma sp_inv_count:
  "sp_inv (h, ms) \<Longrightarrow> h_mem h a = Some p \<Longrightarrow> sp_shared_count p + 1 = int (refs a ms) \<and> 0 \<le> sp_shared_count p"
  unfolding sp_inv_def prod.case by blast

lemma sp_inv_None: "sp_inv (h, ms) \<Longrightarrow> h_mem h a = None \<Longrightarrow> refs a ms = 0"
  unfolding sp_inv_def prod.case by blast

lemma sp_inv_next: "sp_inv (h, ms) \<Longrightarrow> h_next h \<le> a \<Longrightarrow> h_mem h a = None"
  unfolding sp_inv_def prod.case by blast

lemma sp_inv_shows: "sp_inv (h, ms) \<Longrightarrow> m \<in> set ms \<Longrightarrow> sm_ptr m = Some a \<Longrightarrow> h_mem h a = Some p \<Longrightarrow>
    sm_payload m = sp_payload p \<and> sm_size m = sp_size p"
  unfolding sp_inv_def prod.case by blast

lemma sp_invI:
  assumes "\<And>a p. h_mem h a = Some p \<Longrightarrow> sp_shared_count p + 1 = int (refs a ms) \<and> 0 \<le> sp_shared_count p"
    and "\<And>a. h_mem h a = None \<Longrightarrow> refs a ms = 0"
    and "\<And>a. h_next h \<le> a \<Longrightarrow> h_mem h a = None"
    and "\<And>m a p. m \<in> set ms \<Longrightarrow> sm_ptr m = Some a \<Longrightarrow> h_mem h a = Some p \<Longrightarrow>
      sm_payload m = sp_payload p \<and> sm_size m = sp_size p"
  shows "sp_inv (h, ms)"
  using assms unfolding sp_inv_def prod.case by blast

lemma sm_deref_live:
  assumes "sp_inv (h, ms)" and "m \<in> set ms" and "sm_ptr m = Some a"
  shows "\<exists>p. h_mem h a = Some p \<and> sm_deref m h = (Inr (a, p), h)"
proof (cases "h_mem h a")
  case None
  with sp_inv_None [OF assms(1)] refs_pos [OF assms(2,3)] show ?thesis by simp
next
  case (Some p)
  with assms(3) show ?thesis by (simp add: sm_deref_def)
qed

lemma sm_create_header_result:
  assumes "sm_create_header ph pl n m h = (Inr m', h')"
  shows "sm_ptr m = None \<and> sm_ptr m' = Some (h_next h) \<and> sm_payload m' = pl \<and> sm_size m' = n
    \<and> h_next h' = Suc (h_next h) \<and> (\<exists>p. h_mem h' = (h_mem h)(h_next h \<mapsto> p)
      \<and> sp_shared_count p = 0 \<and> sp_payload p = pl \<and> sp_size p = n)"
  using assms
  by (cases ph)
    (auto simp: sm_create_header_def prog_simps sp_store_def Let_def sp_new_def split: if_splits)

lemma sp_inv_create:
  assumes inv: "sp_inv (h, ms)" and i: "i < length ms"
    and r: "sm_create_header ph pl n (ms ! i) h = (Inr m', h')"
  shows "sp_inv (h', ms[i := m'])"
proof -
  from sm_create_header_result [OF r] obtain p
    where c: "sm_ptr (ms ! i) = None" "sm_ptr m' = Some (h_next h)" "sm_payload m' = pl"
      "sm_size m' = n" "h_next h' = Suc (h_next h)" "h_mem h' = (h_mem h)(h_next h \<mapsto> p)"
      "sp_shared_count p = 0" "sp_payload p = pl" "sp_size p = n"
    by blast
  have refs: "refs a (ms[i := m']) = refs a ms + (if a = h_next h then 1 else 0)" for a
    using c(1,2) by (simp add: refs_update [OF i])
  have new: "refs (h_next h) ms = 0" "h_mem h (h_next h) = None"
    using sp_inv_None [OF inv] sp_inv_next [OF inv] by simp_all
  show ?thesis
  proof (rule sp_invI)
    fix a q assume "h_mem h' a = Some q"
    then show "sp_shared_count q + 1 = int (refs a (ms[i := m'])) \<and> 0 \<le> sp_shared_count q"
      using sp_inv_count [OF inv, of a q] c(6,7) new by (simp add: refs split: if_splits)
  next
    fix a assume "h_mem h' a = None"
    then show "refs a (ms[i := m']) = 0"
      using sp_inv_None [OF inv, of a] c(6) by (simp add: refs split: if_splits)
  next
    fix a assume "h_next h' \<le> a"
    then show "h_mem h' a = None" using sp_inv_next [OF inv, of a] c(5,6) by simp
  next
    fix m a q assume "m \<in> set (ms[i := m'])" and "sm_ptr m = Some a" and "h_mem h' a = Some q"
    moreover have "a \<noteq> h_next h" if "m \<in> set ms" "sm_ptr m = Some a"
      using refs_pos [OF that] new by (cases "a = h_next h") simp_all
    ultimately show "sm_payload m = sp_payload q \<and> sm_size m = sp_size q"
      using sp_inv_shows [OF inv, of m a q] set_update_subset_insert [of ms i m'] c
      by (auto split: if_splits)
  qed
qed

lemma sm_copy_result:
  assumes inv: "sp_inv (h, ms)" and i: "i < length ms" and r: "sm_copy (ms ! i) h = (Inr m', h')"
  shows "\<exists>a p. sm_ptr (ms ! i) = Some a \<and> sm_ptr m' = Some a \<and> h_mem h a = Some p
    \<and> sm_payload m' = sp_payload p \<and> sm_size m' = sp_size p
    \<and> h' = h\<lparr>h_mem := (h_mem h)(a \<mapsto> p\<lparr>sp_shared_count := sp_shared_count p + 1\<rparr>)\<rparr>"
proof (cases "sm_ptr (ms ! i)")
  case None
  with r show ?thesis by (simp add: sm_copy_def prog_simps)
next
  case (Some a)
  with sm_deref_live [OF inv nth_mem [OF i]] obtain p
    where "h_mem h a = Some p" "sm_deref (ms ! i) h = (Inr (a, p), h)" by blast
  with r Some show ?thesis by (auto simp: sm_copy_def prog_simps bindP_def sp_store_def)
qed

lemma sp_inv_copy:
  assumes inv: "sp_inv (h, ms)" and i: "i < length ms" and r: "sm_copy (ms ! i) h = (Inr m', h')"
  shows "sp_inv (h', ms @ [m'])"
proof -
  from sm_copy_result [OF assms] obtain a p
    where c: "sm_ptr (ms ! i) = Some a" "sm_ptr m' = Some a" "h_mem h a = Some p"
      "sm_payload m' = sp_payload p" "sm_size m' = sp_size p"
      "h' = h\<lparr>h_mem := (h_mem h)(a \<mapsto> p\<lparr>sp_shared_count := sp_shared_count p + 1\<rparr>)\<rparr>"
    by blast
  show ?thesis
  proof (rule sp_invI)
    fix b q assume "h_mem h' b = Some q"
    then show "sp_shared_count q + 1 = int (refs b (ms @ [m'])) \<and> 0 \<le> sp_shared_count q"
      using sp_inv_count [OF inv, of b q] sp_inv_count [OF inv c(3)] c
      by (auto split: if_splits)
  next
    fix b assume "h_mem h' b = None"
    then show "refs b (ms @ [m']) = 0"
      using sp_inv_None [OF inv, of b] c by (auto split: if_splits)
  next
    fix b assume "h_next h' \<le> b"
    then show "h_mem h' b = None" using sp_inv_next [OF inv, of b] c by auto
  next
    fix m b q assume "m \<in> set (ms @ [m'])" and "sm_ptr m = Some b" and "h_mem h' b = Some q"
    then show "sm_payload m = sp_payload q \<and> sm_size m = sp_size q"
      using sp_inv_shows [OF inv, of m b] c by (auto split: if_splits)
  qed
qed

lemma sm_check_result:
  assumes inv: "sp_inv (h, ms)" and i: "i < length ms"
    and r: "sm_check sid (ms ! i) h = (Inr (b, m'), h')"
  shows "\<exists>a p q. sm_ptr (ms ! i) = Some a \<and> h_mem h a = Some p \<and> h' = h\<lparr>h_mem := (h_mem h)(a \<mapsto> q)\<rparr>
    \<and> sp_shared_count q = sp_shared_count p \<and> sp_payload q = sp_payload p \<and> sp_size q = sp_size p
    \<and> m' = (ms ! i)\<lparr>sm_stream_id := sid\<rparr> \<and> (b \<longleftrightarrow> sm_stream_id (ms ! i) = sid)
    \<and> sp_perfer_cid q = (if sp_perfer_cid p < 2 then 2 else sp_perfer_cid p)"
proof (cases "sm_ptr (ms ! i)")
  case None
  with r show ?thesis by (simp add: sm_check_def sm_deref_def bindP_def)
next
  case (Some a)
  with sm_deref_live [OF inv nth_mem [OF i]] obtain p
    where p: "h_mem h a = Some p" "sm_deref (ms ! i) h = (Inr (a, p), h)" by blast
  have s: "h = h\<lparr>h_mem := (h_mem h)(a \<mapsto> p)\<rparr>" using p(1) by (simp add: fun_upd_idem)
  have "m' = (ms ! i)\<lparr>sm_stream_id := sid\<rparr> \<and> (b \<longleftrightarrow> sm_stream_id (ms ! i) = sid)"
    using r p by (auto simp: sm_check_def prog_simps bindP_Inr sp_store_def split: if_splits)
  moreover have "h' = (if sp_perfer_cid p < 2
      then h\<lparr>h_mem := (h_mem h)(a \<mapsto> p\<lparr>sp_perfer_cid := 2\<rparr>)\<rparr> else h)"
    using r p by (simp add: sm_check_def prog_simps bindP_Inr sp_store_def split: if_splits)
  ultimately show ?thesis
  proof (cases "sp_perfer_cid p < 2")
    case True
    with \<open>h' = _\<close> \<open>m' = _ \<and> _\<close> Some p(1) show ?thesis
      by (intro exI [of _ a] exI [of _ p] exI [of _ "p\<lparr>sp_perfer_cid := 2\<rparr>"]) simp
  next
    case False
    with \<open>h' = _\<close> \<open>m' = _ \<and> _\<close> Some p(1) s show ?thesis
      by (intro exI [of _ a] exI [of _ p] exI [of _ p]) simp
  qed
qed

lemma sp_inv_check:
  assumes inv: "sp_inv (h, ms)" and i: "i < length ms"
    and r: "sm_check sid (ms ! i) h = (Inr (b, m'), h')"
  shows "sp_inv (h', ms[i := m'])"
proof -
  from sm_check_result [OF assms] obtain a p q
    where c: "sm_ptr (ms ! i) = Some a" "h_mem h a = Some p" "h' = h\<lparr>h_mem := (h_mem h)(a \<mapsto> q)\<rparr>"
      "sp_shared_count q = sp_shared_count p" "sp_payload q = sp_payload p" "sp_size q = sp_size p"
      "m' = (ms ! i)\<lparr>sm_stream_id := sid\<rparr>"
    by blast
  have refs: "refs b (ms[i := m']) = refs b ms" for b
    using c(1,7) refs_pos [OF nth_mem [OF i] c(1)] by (auto simp: refs_update [OF i])
  show ?thesis
  proof (rule sp_invI)
    fix b r assume "h_mem h' b = Some r"
    then show "sp_shared_count r + 1 = int (refs b (ms[i := m'])) \<and> 0 \<le> sp_shared_count r"
      using sp_inv_count [OF inv, of b] sp_inv_count [OF inv c(2)] c(1-6)
      by (auto simp: refs split: if_splits)
  next
    fix b assume "h_mem h' b = None"
    then show "refs b (ms[i := m']) = 0"
      using sp_inv_None [OF inv, of b] c(1-6) by (auto simp: refs split: if_splits)
  next
    fix b assume "h_next h' \<le> b"
    then show "h_mem h' b = None" using sp_inv_next [OF inv, of b] c by auto
  next
    fix m b r assume "m \<in> set (ms[i := m'])" and m: "sm_ptr m = Some b" "h_mem h' b = Some r"
    then consider "m \<in> set ms" | "m = m'" using set_update_subset_insert [of ms i m'] by auto
    then show "sm_payload m = sp_payload r \<and> sm_size m = sp_size r"
    proof cases
      case 1
      then show ?thesis using sp_inv_shows [OF inv 1 m(1)] m c by (auto split: if_splits)
    next
      case 2
      then show ?thesis using sp_inv_shows [OF inv nth_mem [OF i] c(1,2)] m c by auto
    qed
  qed
qed

lemma sp_inv_destroy:
  assumes inv: "sp_inv (h, ms)" and i: "i < length ms" and r: "sm_destroy (ms ! i) h = (Inr (), h')"
  shows "sp_inv (h', take i ms @ drop (Suc i) ms)"
proof (cases "sm_ptr (ms ! i)")
  case None
  with r have h: "h' = h" by (simp add: sm_destroy_def prog_simps)
  have refs: "refs a (take i ms @ drop (Suc i) ms) = refs a ms" for a
    using refs_remove [OF i, of a] None by simp
  show ?thesis unfolding h
    using sp_inv_count [OF inv] sp_inv_None [OF inv] sp_inv_next [OF inv] sp_inv_shows [OF inv]
    by (intro sp_invI) (auto simp: refs dest: in_set_takeD in_set_dropD)
next
  case (Some a)
  with sm_deref_live [OF inv nth_mem [OF i]] obtain p
    where p: "h_mem h a = Some p" "sm_deref (ms ! i) h = (Inr (a, p), h)" by blast
  let ?ms = "take i ms @ drop (Suc i) ms"
  let ?q = "p\<lparr>sp_shared_count := sp_shared_count p - 1\<rparr>"
  have h: "h' = h\<lparr>h_mem := (if sp_shared_count p = 0 then (h_mem h)(a := None) else (h_mem h)(a \<mapsto> ?q))\<rparr>"
    using r p Some by (simp add: sm_destroy_def bindP_Inr prog_simps sp_store_def split: if_splits)
  have refs: "refs b ms = refs b ?ms + (if b = a then 1 else 0)" for b
    using refs_remove [OF i, of b] Some by simp
  note cnt = sp_inv_count [OF inv p(1)]
  show ?thesis
  proof (rule sp_invI)
    fix b r assume "h_mem h' b = Some r"
    then show "sp_shared_count r + 1 = int (refs b ?ms) \<and> 0 \<le> sp_shared_count r"
      using sp_inv_count [OF inv, of b] cnt refs [of b] by (auto simp: h split: if_splits)
  next
    fix b assume "h_mem h' b = None"
    then show "refs b ?ms = 0"
      using sp_inv_None [OF inv, of b] cnt refs [of b] by (auto simp: h split: if_splits)
  next
    fix b assume "h_next h' \<le> b"
    then show "h_mem h' b = None" using sp_inv_next [OF inv, of b] p by (auto simp: h)
  next
    fix m b r assume m: "m \<in> set ?ms" "sm_ptr m = Some b" "h_mem h' b = Some r"
    then have "m \<in> set ms" by (auto dest: in_set_takeD in_set_dropD)
    then show "sm_payload m = sp_payload r \<and> sm_size m = sp_size r"
      using sp_inv_shows [OF inv _ m(2)] m(3) p(1) by (auto simp: h split: if_splits)
  qed
qed

lemma sp_inv_new: "sp_inv (h, ms) \<Longrightarrow> sp_inv (h, ms @ [sm_new])"
  using sp_inv_count sp_inv_None sp_inv_next sp_inv_shows
  by (intro sp_invI) (auto simp: sm_new_def)

lemma sp_step_inv: "sp_step w w' \<Longrightarrow> sp_inv w \<Longrightarrow> sp_inv w'"
  by (induction rule: sp_step.induct)
    (auto intro: sp_inv_new sp_inv_create sp_inv_copy sp_inv_check sp_inv_destroy)

lemma sp_reach_inv: "sp_reach w \<Longrightarrow> sp_inv w"
proof (induction rule: sp_reach.induct)
  case sp_start
  show ?case by (rule sp_invI) (simp_all add: refs_def)
next
  case (sp_next w w')
  then show ?case using sp_step_inv by blast
qed

lemma refs_length: "refs a ms = length (filter (\<lambda>m. sm_ptr m = Some a) ms)"
  by (induction ms) (simp_all add: refs_def)

text \<open>C29: Shared payloads live exactly as long as they are used: in every reachable state of
  creations, copies, checks and destructions, a payload object is allocated if and only if a
  live message points to it (no dangling pointer, no leak, no double free), its count is the
  number of these messages less one, and the message's own payload and size are the
  object's.\<close>

theorem shared_payload_lifetime:
  assumes "sp_reach (h, ms)"
  shows "(h_mem h a \<noteq> None \<longleftrightarrow> (\<exists>m. m \<in> set ms \<and> sm_ptr m = Some a))
    \<and> (\<forall>p. h_mem h a = Some p \<longrightarrow>
         sp_shared_count p = int (length (filter (\<lambda>m. sm_ptr m = Some a) ms)) - 1)
    \<and> (\<forall>m p. m \<in> set ms \<and> sm_ptr m = Some a \<and> h_mem h a = Some p \<longrightarrow>
         sm_payload m = sp_payload p \<and> sm_size m = sp_size p)"
proof -
  note inv = sp_reach_inv [OF assms]
  have live: "h_mem h a \<noteq> None" if "m \<in> set ms" "sm_ptr m = Some a" for m
    using sp_inv_None [OF inv, of a] refs_pos [OF that] by auto
  have "\<exists>m. m \<in> set ms \<and> sm_ptr m = Some a" if "h_mem h a = Some p" for p
  proof (rule ccontr)
    assume "\<not> ?thesis"
    then have "\<forall>m \<in> set ms. sm_ptr m \<noteq> Some a" by blast
    then have "filter (\<lambda>m. sm_ptr m = Some a) ms = []" by (simp add: filter_empty_conv)
    then have "refs a ms = 0" by (simp add: refs_length)
    then show False using sp_inv_count [OF inv that] by simp
  qed
  then show ?thesis
    using live sp_inv_count [OF inv, of a] sp_inv_shows [OF inv] refs_length [of a ms] by fastforce
qed

lemma sp_reach_demo:
  "sp_reach (\<lparr>h_next = 1, h_mem = [0 \<mapsto> sp_new\<lparr>sp_payload := Some [Some 7], sp_size := 1\<rparr>]\<rparr>,
     [sm_new\<lparr>sm_ptr := Some 0, sm_payload := Some [Some 7], sm_size := 1\<rparr>])"
proof -
  let ?h = "\<lparr>h_next = 0, h_mem = \<lambda>_. None\<rparr> :: sp_heap"
  have 1: "sp_reach (?h, [sm_new])"
    using sp_next [OF sp_start sp_new_msg] by simp
  have 2: "sm_create_header None (Some [Some 7]) 1 ([sm_new] ! 0) ?h =
      (Inr (sm_new\<lparr>sm_ptr := Some 0, sm_payload := Some [Some 7], sm_size := 1\<rparr>),
       \<lparr>h_next = 1, h_mem = [0 \<mapsto> sp_new\<lparr>sp_payload := Some [Some 7], sp_size := 1\<rparr>]\<rparr>)"
    by (simp add: sm_create_header_def prog_simps sm_new_def sp_store_def)
  show ?thesis
    using sp_next [OF 1 sp_create [OF _ 2]] by simp
qed

theorem shared_payload_lifetime_witness:
  "let h = \<lparr>h_next = 1, h_mem = [0 \<mapsto> sp_new\<lparr>sp_payload := Some [Some 7], sp_size := 1\<rparr>]\<rparr>;
       ms = [sm_new\<lparr>sm_ptr := Some 0, sm_payload := Some [Some 7], sm_size := 1\<rparr>]
   in (h_mem h 0 \<noteq> None \<longleftrightarrow> (\<exists>m. m \<in> set ms \<and> sm_ptr m = Some 0))
    \<and> (\<forall>p. h_mem h 0 = Some p \<longrightarrow>
         sp_shared_count p = int (length (filter (\<lambda>m. sm_ptr m = Some 0) ms)) - 1)
    \<and> (\<forall>m p. m \<in> set ms \<and> sm_ptr m = Some 0 \<and> h_mem h 0 = Some p \<longrightarrow>
         sm_payload m = sp_payload p \<and> sm_size m = sp_size p)"
  unfolding Let_def by (rule shared_payload_lifetime [OF sp_reach_demo])

end
