(* ===== verification/Srs_Packet.thy ===== *)
theory Srs_Packet
  imports Srs_Amf0_Safety Srs_Flv_Message
begin

text \<open>
  The packet classes of \<^verbatim>\<open>src/src/protocol/srs_rtmp_stack.cpp\<close>: one record per class with
  its constructor, \<^verbatim>\<open>decode\<close>, \<^verbatim>\<open>get_size\<close> and \<^verbatim>\<open>encode_packet\<close>, where the class
  overrides them; then \<open>packet\<close>, the class hierarchy of \<^verbatim>\<open>SrsPacket\<close>, with the virtual
  functions. The AMF0 null that many classes keep in a private \<^verbatim>\<open>command_object\<close> or
  \<^verbatim>\<open>args\<close>, and that no method reads, is left out. Sizes are natural numbers: a packet that
  overflows the code's \<^verbatim>\<open>int\<close> would need two gigabytes of strings.
\<close>

section \<open>Doubles\<close>

text \<open>
  A \<^verbatim>\<open>double\<close> is its bit pattern; comparisons follow IEEE 754: sign and magnitude, the
  two zeros equal, nothing equal to or below a NaN.
\<close>

definition dbl_0 :: double where "dbl_0 = 0"
definition dbl_1 :: double where "dbl_1 = 0x3FF0000000000000"
definition dbl_2 :: double where "dbl_2 = 0x4000000000000000"
definition dbl_3 :: double where "dbl_3 = 0x4008000000000000"
definition dbl_minus_1 :: double where "dbl_minus_1 = 0xBFF0000000000000"
definition dbl_minus_2 :: double where "dbl_minus_2 = 0xC000000000000000"

definition dbl_magnitude :: "double \<Rightarrow> double" where
  "dbl_magnitude d = and d 0x7FFFFFFFFFFFFFFF"

definition dbl_nan :: "double \<Rightarrow> bool" where
  "dbl_nan d \<longleftrightarrow> dbl_magnitude d > 0x7FF0000000000000"

definition dbl_key :: "double \<Rightarrow> int" where
  "dbl_key d = (if bit d 63 then - uint (dbl_magnitude d) else uint (dbl_magnitude d))"

definition dbl_eq :: "double \<Rightarrow> double \<Rightarrow> bool" where
  "dbl_eq a b \<longleftrightarrow> \<not> dbl_nan a \<and> \<not> dbl_nan b \<and> dbl_key a = dbl_key b"

definition dbl_less :: "double \<Rightarrow> double \<Rightarrow> bool" where
  "dbl_less a b \<longleftrightarrow> \<not> dbl_nan a \<and> \<not> dbl_nan b \<and> dbl_key a < dbl_key b"

section \<open>Command names\<close>

abbreviation RTMP_AMF0_COMMAND_CONNECT :: string where "RTMP_AMF0_COMMAND_CONNECT \<equiv> ''connect''"
abbreviation RTMP_AMF0_COMMAND_CREATE_STREAM :: string where "RTMP_AMF0_COMMAND_CREATE_STREAM \<equiv> ''createStream''"
abbreviation RTMP_AMF0_COMMAND_CLOSE_STREAM :: string where "RTMP_AMF0_COMMAND_CLOSE_STREAM \<equiv> ''closeStream''"
abbreviation RTMP_AMF0_COMMAND_PLAY :: string where "RTMP_AMF0_COMMAND_PLAY \<equiv> ''play''"
abbreviation RTMP_AMF0_COMMAND_PAUSE :: string where "RTMP_AMF0_COMMAND_PAUSE \<equiv> ''pause''"
abbreviation RTMP_AMF0_COMMAND_ON_BW_DONE :: string where "RTMP_AMF0_COMMAND_ON_BW_DONE \<equiv> ''onBWDone''"
abbreviation RTMP_AMF0_COMMAND_ON_STATUS :: string where "RTMP_AMF0_COMMAND_ON_STATUS \<equiv> ''onStatus''"
abbreviation RTMP_AMF0_COMMAND_RESULT :: string where "RTMP_AMF0_COMMAND_RESULT \<equiv> ''_result''"
abbreviation RTMP_AMF0_COMMAND_ERROR :: string where "RTMP_AMF0_COMMAND_ERROR \<equiv> ''_error''"
abbreviation RTMP_AMF0_COMMAND_RELEASE_STREAM :: string where "RTMP_AMF0_COMMAND_RELEASE_STREAM \<equiv> ''releaseStream''"
abbreviation RTMP_AMF0_COMMAND_FC_PUBLISH :: string where "RTMP_AMF0_COMMAND_FC_PUBLISH \<equiv> ''FCPublish''"
abbreviation RTMP_AMF0_COMMAND_UNPUBLISH :: string where "RTMP_AMF0_COMMAND_UNPUBLISH \<equiv> ''FCUnpublish''"
abbreviation RTMP_AMF0_COMMAND_PUBLISH :: string where "RTMP_AMF0_COMMAND_PUBLISH \<equiv> ''publish''"
abbreviation RTMP_AMF0_DATA_SAMPLE_ACCESS :: string where "RTMP_AMF0_DATA_SAMPLE_ACCESS \<equiv> ''|RtmpSampleAccess''"
abbreviation SRS_CONSTS_RTMP_SET_DATAFRAME :: string where "SRS_CONSTS_RTMP_SET_DATAFRAME \<equiv> ''@setDataFrame''"
abbreviation SRS_CONSTS_RTMP_ON_METADATA :: string where "SRS_CONSTS_RTMP_ON_METADATA \<equiv> ''onMetaData''"
abbreviation SRS_BW_CHECK_START_PLAY :: string where "SRS_BW_CHECK_START_PLAY \<equiv> ''onSrsBandCheckStartPlayBytes''"
abbreviation SRS_BW_CHECK_STARTING_PLAY :: string where "SRS_BW_CHECK_STARTING_PLAY \<equiv> ''onSrsBandCheckStartingPlayBytes''"
abbreviation SRS_BW_CHECK_STOP_PLAY :: string where "SRS_BW_CHECK_STOP_PLAY \<equiv> ''onSrsBandCheckStopPlayBytes''"
abbreviation SRS_BW_CHECK_STOPPED_PLAY :: string where "SRS_BW_CHECK_STOPPED_PLAY \<equiv> ''onSrsBandCheckStoppedPlayBytes''"
abbreviation SRS_BW_CHECK_START_PUBLISH :: string where "SRS_BW_CHECK_START_PUBLISH \<equiv> ''onSrsBandCheckStartPublishBytes''"
abbreviation SRS_BW_CHECK_STARTING_PUBLISH :: string where "SRS_BW_CHECK_STARTING_PUBLISH \<equiv> ''onSrsBandCheckStartingPublishBytes''"
abbreviation SRS_BW_CHECK_STOP_PUBLISH :: string where "SRS_BW_CHECK_STOP_PUBLISH \<equiv> ''onSrsBandCheckStopPublishBytes''"
abbreviation SRS_BW_CHECK_STOPPED_PUBLISH :: string where "SRS_BW_CHECK_STOPPED_PUBLISH \<equiv> ''onSrsBandCheckStoppedPublishBytes''"
abbreviation SRS_BW_CHECK_FINISHED :: string where "SRS_BW_CHECK_FINISHED \<equiv> ''onSrsBandCheckFinished''"
abbreviation SRS_BW_CHECK_FINAL :: string where "SRS_BW_CHECK_FINAL \<equiv> ''finalClientPacket''"
abbreviation SRS_BW_CHECK_PLAYING :: string where "SRS_BW_CHECK_PLAYING \<equiv> ''onSrsBandCheckPlaying''"
abbreviation SRS_BW_CHECK_PUBLISHING :: string where "SRS_BW_CHECK_PUBLISHING \<equiv> ''onSrsBandCheckPublishing''"

text \<open>The check of the command name: empty or another name is a decoding error.\<close>

definition check_name :: "string list \<Rightarrow> string \<Rightarrow> unit res" where
  "check_name ns n = check (n \<noteq> '''' \<and> n \<in> set ns) ERROR_RTMP_AMF0_DECODE"

text \<open>
  Where the code calls \<^verbatim>\<open>SrsAmf0Any::discovery\<close> and then \<^verbatim>\<open>read\<close> of the new value, it
  repeats the body of \<^const>\<open>srs_amf0_read_any\<close>, which is used here. An optional value is
  written when the pointer is not \<^verbatim>\<open>NULL\<close>.
\<close>

definition write_opt :: "amf0 option \<Rightarrow> sbuf \<Rightarrow> sbuf res" where
  "write_opt v s = (case v of None \<Rightarrow> Inr s | Some any \<Rightarrow> amf0_write any s)"

section \<open>connect\<close>

text \<open>A transaction id other than 1 is only warned about.\<close>

record connect_app =
  ca_command_name :: string
  ca_transaction_id :: double
  ca_command_object :: props
  ca_args :: "props option"

definition connect_app_new :: connect_app where
  "connect_app_new = \<lparr>ca_command_name = RTMP_AMF0_COMMAND_CONNECT, ca_transaction_id = dbl_1,
     ca_command_object = [], ca_args = None\<rparr>"

definition connect_app_decode :: "connect_app \<Rightarrow> sbuf \<Rightarrow> (connect_app \<times> sbuf) res" where
  "connect_app_decode p s =
     bindR (srs_amf0_read_string (ca_command_name p) s)
     (\<lambda>(name, s). bindR (check_name [RTMP_AMF0_COMMAND_CONNECT] name)
     (\<lambda>_. bindR (srs_amf0_read_number s)
     (\<lambda>(tid, s). bindR (amf0_object_read (ca_command_object p) s)
     (\<lambda>(obj, s).
        let p = p\<lparr>ca_command_name := name, ca_transaction_id := tid, ca_command_object := obj\<rparr>
        in if \<not> buf_empty s
           then bindR (srs_amf0_read_any s) (\<lambda>(any, s). Inr (p\<lparr>ca_args :=
                  (case any of Amf0Object ps \<Rightarrow> Some ps | _ \<Rightarrow> None)\<rparr>, s))
           else Inr (p, s)))))"

definition connect_app_size :: "connect_app \<Rightarrow> nat" where
  "connect_app_size p = size_str (ca_command_name p) + size_number
     + size_object (Some (ca_command_object p)) + size_object (ca_args p)"

definition connect_app_encode :: "connect_app \<Rightarrow> sbuf \<Rightarrow> sbuf res" where
  "connect_app_encode p s =
     bindR (srs_amf0_write_string (ca_command_name p) s)
     (\<lambda>s. bindR (srs_amf0_write_number (ca_transaction_id p) s)
     (\<lambda>s. bindR (amf0_write (Amf0Object (ca_command_object p)) s)
     (write_opt (map_option Amf0Object (ca_args p)))))"

record connect_app_res =
  car_command_name :: string
  car_transaction_id :: double
  car_props :: props
  car_info :: props

definition connect_app_res_new :: connect_app_res where
  "connect_app_res_new = \<lparr>car_command_name = RTMP_AMF0_COMMAND_RESULT, car_transaction_id = dbl_1,
     car_props = [], car_info = []\<rparr>"

definition connect_app_res_decode :: "connect_app_res \<Rightarrow> sbuf \<Rightarrow> (connect_app_res \<times> sbuf) res" where
  "connect_app_res_decode p s =
     bindR (srs_amf0_read_string (car_command_name p) s)
     (\<lambda>(name, s). bindR (check_name [RTMP_AMF0_COMMAND_RESULT] name)
     (\<lambda>_. bindR (srs_amf0_read_number s)
     (\<lambda>(tid, s). bindR (if \<not> buf_empty s
          then bindR (srs_amf0_read_any s) (\<lambda>(any, s).
                 Inr (case any of Amf0Object ps \<Rightarrow> ps | _ \<Rightarrow> car_props p, s))
          else Inr (car_props p, s))
     (\<lambda>(ps, s). bindR (amf0_object_read (car_info p) s)
     (\<lambda>(info, s). Inr (p\<lparr>car_command_name := name, car_transaction_id := tid,
        car_props := ps, car_info := info\<rparr>, s))))))"

definition connect_app_res_size :: "connect_app_res \<Rightarrow> nat" where
  "connect_app_res_size p = size_str (car_command_name p) + size_number
     + size_object (Some (car_props p)) + size_object (Some (car_info p))"

definition connect_app_res_encode :: "connect_app_res \<Rightarrow> sbuf \<Rightarrow> sbuf res" where
  "connect_app_res_encode p s =
     bindR (srs_amf0_write_string (car_command_name p) s)
     (\<lambda>s. bindR (srs_amf0_write_number (car_transaction_id p) s)
     (\<lambda>s. bindR (amf0_write (Amf0Object (car_props p)) s)
     (amf0_write (Amf0Object (car_info p)))))"


section \<open>Calls\<close>

record call_packet =
  cp_command_name :: string
  cp_transaction_id :: double
  cp_command_object :: "amf0 option"
  cp_arguments :: "amf0 option"

definition call_new :: call_packet where
  "call_new = \<lparr>cp_command_name = '''', cp_transaction_id = dbl_0, cp_command_object = None,
     cp_arguments = None\<rparr>"

definition call_decode :: "call_packet \<Rightarrow> sbuf \<Rightarrow> (call_packet \<times> sbuf) res" where
  "call_decode p s =
     bindR (srs_amf0_read_string (cp_command_name p) s)
     (\<lambda>(name, s). bindR (check (name \<noteq> '''') ERROR_RTMP_AMF0_DECODE)
     (\<lambda>_. bindR (srs_amf0_read_number s)
     (\<lambda>(tid, s). bindR (srs_amf0_read_any s)
     (\<lambda>(obj, s).
        let p = p\<lparr>cp_command_name := name, cp_transaction_id := tid, cp_command_object := Some obj\<rparr>
        in if \<not> buf_empty s
           then bindR (srs_amf0_read_any s) (\<lambda>(any, s). Inr (p\<lparr>cp_arguments := Some any\<rparr>, s))
           else Inr (p, s)))))"

definition call_size :: "call_packet \<Rightarrow> nat" where
  "call_size p = size_str (cp_command_name p) + size_number
     + size_any (cp_command_object p) + size_any (cp_arguments p)"

definition call_encode :: "call_packet \<Rightarrow> sbuf \<Rightarrow> sbuf res" where
  "call_encode p s =
     bindR (srs_amf0_write_string (cp_command_name p) s)
     (\<lambda>s. bindR (srs_amf0_write_number (cp_transaction_id p) s)
     (\<lambda>s. bindR (write_opt (cp_command_object p) s) (write_opt (cp_arguments p))))"

record call_res =
  cpr_command_name :: string
  cpr_transaction_id :: double
  cpr_command_object :: "amf0 option"
  cpr_response :: "amf0 option"

definition call_res_new :: "double \<Rightarrow> call_res" where
  "call_res_new tid = \<lparr>cpr_command_name = RTMP_AMF0_COMMAND_RESULT, cpr_transaction_id = tid,
     cpr_command_object = None, cpr_response = None\<rparr>"

definition call_res_size :: "call_res \<Rightarrow> nat" where
  "call_res_size p = size_str (cpr_command_name p) + size_number
     + size_any (cpr_command_object p) + size_any (cpr_response p)"

definition call_res_encode :: "call_res \<Rightarrow> sbuf \<Rightarrow> sbuf res" where
  "call_res_encode p s =
     bindR (srs_amf0_write_string (cpr_command_name p) s)
     (\<lambda>s. bindR (srs_amf0_write_number (cpr_transaction_id p) s)
     (\<lambda>s. bindR (write_opt (cpr_command_object p) s) (write_opt (cpr_response p))))"

section \<open>Streams: create, close, release, publish, pause, play\<close>

record create_stream =
  crs_command_name :: string
  crs_transaction_id :: double

definition create_stream_new :: create_stream where
  "create_stream_new = \<lparr>crs_command_name = RTMP_AMF0_COMMAND_CREATE_STREAM,
     crs_transaction_id = dbl_2\<rparr>"

definition create_stream_decode :: "create_stream \<Rightarrow> sbuf \<Rightarrow> (create_stream \<times> sbuf) res" where
  "create_stream_decode p s =
     bindR (srs_amf0_read_string (crs_command_name p) s)
     (\<lambda>(name, s). bindR (check_name [RTMP_AMF0_COMMAND_CREATE_STREAM] name)
     (\<lambda>_. bindR (srs_amf0_read_number s)
     (\<lambda>(tid, s). bindR (srs_amf0_read_null s)
     (\<lambda>s. Inr (\<lparr>crs_command_name = name, crs_transaction_id = tid\<rparr>, s)))))"

definition create_stream_size :: "create_stream \<Rightarrow> nat" where
  "create_stream_size p = size_str (crs_command_name p) + size_number + size_null"

definition create_stream_encode :: "create_stream \<Rightarrow> sbuf \<Rightarrow> sbuf res" where
  "create_stream_encode p s =
     bindR (srs_amf0_write_string (crs_command_name p) s)
     (\<lambda>s. bindR (srs_amf0_write_number (crs_transaction_id p) s) srs_amf0_write_null)"

record create_stream_res =
  csr_command_name :: string
  csr_transaction_id :: double
  csr_stream_id :: double

definition create_stream_res_new :: "double \<Rightarrow> double \<Rightarrow> create_stream_res" where
  "create_stream_res_new tid sid = \<lparr>csr_command_name = RTMP_AMF0_COMMAND_RESULT,
     csr_transaction_id = tid, csr_stream_id = sid\<rparr>"

definition create_stream_res_decode :: "create_stream_res \<Rightarrow> sbuf \<Rightarrow> (create_stream_res \<times> sbuf) res" where
  "create_stream_res_decode p s =
     bindR (srs_amf0_read_string (csr_command_name p) s)
     (\<lambda>(name, s). bindR (check_name [RTMP_AMF0_COMMAND_RESULT] name)
     (\<lambda>_. bindR (srs_amf0_read_number s)
     (\<lambda>(tid, s). bindR (srs_amf0_read_null s)
     (\<lambda>s. bindR (srs_amf0_read_number s)
     (\<lambda>(sid, s). Inr (\<lparr>csr_command_name = name, csr_transaction_id = tid,
        csr_stream_id = sid\<rparr>, s))))))"

definition create_stream_res_size :: "create_stream_res \<Rightarrow> nat" where
  "create_stream_res_size p = size_str (csr_command_name p) + size_number + size_null + size_number"

definition create_stream_res_encode :: "create_stream_res \<Rightarrow> sbuf \<Rightarrow> sbuf res" where
  "create_stream_res_encode p s =
     bindR (srs_amf0_write_string (csr_command_name p) s)
     (\<lambda>s. bindR (srs_amf0_write_number (csr_transaction_id p) s)
     (\<lambda>s. bindR (srs_amf0_write_null s) (srs_amf0_write_number (csr_stream_id p))))"

text \<open>\<^verbatim>\<open>closeStream\<close> is only decoded.\<close>

record close_stream =
  cls_command_name :: string
  cls_transaction_id :: double

definition close_stream_new :: close_stream where
  "close_stream_new = \<lparr>cls_command_name = RTMP_AMF0_COMMAND_CLOSE_STREAM, cls_transaction_id = dbl_0\<rparr>"

definition close_stream_decode :: "close_stream \<Rightarrow> sbuf \<Rightarrow> (close_stream \<times> sbuf) res" where
  "close_stream_decode p s =
     bindR (srs_amf0_read_string (cls_command_name p) s)
     (\<lambda>(name, s). bindR (srs_amf0_read_number s)
     (\<lambda>(tid, s). bindR (srs_amf0_read_null s)
     (\<lambda>s. Inr (\<lparr>cls_command_name = name, cls_transaction_id = tid\<rparr>, s))))"

record fmle_start =
  fml_command_name :: string
  fml_transaction_id :: double
  fml_stream_name :: string

definition fmle_start_new :: fmle_start where
  "fmle_start_new = \<lparr>fml_command_name = RTMP_AMF0_COMMAND_RELEASE_STREAM,
     fml_transaction_id = dbl_0, fml_stream_name = ''''\<rparr>"

definition fmle_start_decode :: "fmle_start \<Rightarrow> sbuf \<Rightarrow> (fmle_start \<times> sbuf) res" where
  "fmle_start_decode p s =
     bindR (srs_amf0_read_string (fml_command_name p) s)
     (\<lambda>(name, s). bindR (check_name [RTMP_AMF0_COMMAND_RELEASE_STREAM,
         RTMP_AMF0_COMMAND_FC_PUBLISH, RTMP_AMF0_COMMAND_UNPUBLISH] name)
     (\<lambda>_. bindR (srs_amf0_read_number s)
     (\<lambda>(tid, s). bindR (srs_amf0_read_null s)
     (\<lambda>s. bindR (srs_amf0_read_string (fml_stream_name p) s)
     (\<lambda>(str, s). Inr (\<lparr>fml_command_name = name, fml_transaction_id = tid,
        fml_stream_name = str\<rparr>, s))))))"

definition fmle_start_size :: "fmle_start \<Rightarrow> nat" where
  "fmle_start_size p = size_str (fml_command_name p) + size_number + size_null
     + size_str (fml_stream_name p)"

definition fmle_start_encode :: "fmle_start \<Rightarrow> sbuf \<Rightarrow> sbuf res" where
  "fmle_start_encode p s =
     bindR (srs_amf0_write_string (fml_command_name p) s)
     (\<lambda>s. bindR (srs_amf0_write_number (fml_transaction_id p) s)
     (\<lambda>s. bindR (srs_amf0_write_null s) (srs_amf0_write_string (fml_stream_name p))))"

definition create_release_stream :: "string \<Rightarrow> fmle_start" where
  "create_release_stream stream = fmle_start_new\<lparr>fml_command_name := RTMP_AMF0_COMMAND_RELEASE_STREAM,
     fml_transaction_id := dbl_2, fml_stream_name := stream\<rparr>"

definition create_FC_publish :: "string \<Rightarrow> fmle_start" where
  "create_FC_publish stream = fmle_start_new\<lparr>fml_command_name := RTMP_AMF0_COMMAND_FC_PUBLISH,
     fml_transaction_id := dbl_3, fml_stream_name := stream\<rparr>"

record fmle_start_res =
  fmr_command_name :: string
  fmr_transaction_id :: double

definition fmle_start_res_new :: "double \<Rightarrow> fmle_start_res" where
  "fmle_start_res_new tid = \<lparr>fmr_command_name = RTMP_AMF0_COMMAND_RESULT, fmr_transaction_id = tid\<rparr>"

definition fmle_start_res_decode :: "fmle_start_res \<Rightarrow> sbuf \<Rightarrow> (fmle_start_res \<times> sbuf) res" where
  "fmle_start_res_decode p s =
     bindR (srs_amf0_read_string (fmr_command_name p) s)
     (\<lambda>(name, s). bindR (check_name [RTMP_AMF0_COMMAND_RESULT] name)
     (\<lambda>_. bindR (srs_amf0_read_number s)
     (\<lambda>(tid, s). bindR (srs_amf0_read_null s)
     (\<lambda>s. bindR (srs_amf0_read_undefined s)
     (\<lambda>s. Inr (\<lparr>fmr_command_name = name, fmr_transaction_id = tid\<rparr>, s))))))"

definition fmle_start_res_size :: "fmle_start_res \<Rightarrow> nat" where
  "fmle_start_res_size p = size_str (fmr_command_name p) + size_number + size_null + size_undefined"

definition fmle_start_res_encode :: "fmle_start_res \<Rightarrow> sbuf \<Rightarrow> sbuf res" where
  "fmle_start_res_encode p s =
     bindR (srs_amf0_write_string (fmr_command_name p) s)
     (\<lambda>s. bindR (srs_amf0_write_number (fmr_transaction_id p) s)
     (\<lambda>s. bindR (srs_amf0_write_null s) srs_amf0_write_undefined))"

text \<open>The type of \<^verbatim>\<open>publish\<close> may be missing.\<close>

record publish =
  pub_command_name :: string
  pub_transaction_id :: double
  pub_stream_name :: string
  pub_type :: string

definition publish_new :: publish where
  "publish_new = \<lparr>pub_command_name = RTMP_AMF0_COMMAND_PUBLISH, pub_transaction_id = dbl_0,
     pub_stream_name = '''', pub_type = ''live''\<rparr>"

definition publish_decode :: "publish \<Rightarrow> sbuf \<Rightarrow> (publish \<times> sbuf) res" where
  "publish_decode p s =
     bindR (srs_amf0_read_string (pub_command_name p) s)
     (\<lambda>(name, s). bindR (check_name [RTMP_AMF0_COMMAND_PUBLISH] name)
     (\<lambda>_. bindR (srs_amf0_read_number s)
     (\<lambda>(tid, s). bindR (srs_amf0_read_null s)
     (\<lambda>s. bindR (srs_amf0_read_string (pub_stream_name p) s)
     (\<lambda>(str, s). bindR (if \<not> buf_empty s then srs_amf0_read_string (pub_type p) s
          else Inr (pub_type p, s))
     (\<lambda>(ty, s). Inr (\<lparr>pub_command_name = name, pub_transaction_id = tid,
        pub_stream_name = str, pub_type = ty\<rparr>, s)))))))"

definition publish_size :: "publish \<Rightarrow> nat" where
  "publish_size p = size_str (pub_command_name p) + size_number + size_null
     + size_str (pub_stream_name p) + size_str (pub_type p)"

definition publish_encode :: "publish \<Rightarrow> sbuf \<Rightarrow> sbuf res" where
  "publish_encode p s =
     bindR (srs_amf0_write_string (pub_command_name p) s)
     (\<lambda>s. bindR (srs_amf0_write_number (pub_transaction_id p) s)
     (\<lambda>s. bindR (srs_amf0_write_null s)
     (\<lambda>s. bindR (srs_amf0_write_string (pub_stream_name p) s)
     (srs_amf0_write_string (pub_type p)))))"

text \<open>\<^verbatim>\<open>pause\<close> is only decoded.\<close>

record pause =
  pau_command_name :: string
  pau_transaction_id :: double
  pau_is_pause :: bool
  pau_time_ms :: double

definition pause_new :: pause where
  "pause_new = \<lparr>pau_command_name = RTMP_AMF0_COMMAND_PAUSE, pau_transaction_id = dbl_0,
     pau_is_pause = True, pau_time_ms = dbl_0\<rparr>"

definition pause_decode :: "pause \<Rightarrow> sbuf \<Rightarrow> (pause \<times> sbuf) res" where
  "pause_decode p s =
     bindR (srs_amf0_read_string (pau_command_name p) s)
     (\<lambda>(name, s). bindR (check_name [RTMP_AMF0_COMMAND_PAUSE] name)
     (\<lambda>_. bindR (srs_amf0_read_number s)
     (\<lambda>(tid, s). bindR (srs_amf0_read_null s)
     (\<lambda>s. bindR (srs_amf0_read_boolean s)
     (\<lambda>(b, s). bindR (srs_amf0_read_number s)
     (\<lambda>(t, s). Inr (\<lparr>pau_command_name = name, pau_transaction_id = tid,
        pau_is_pause = b, pau_time_ms = t\<rparr>, s)))))))"

text \<open>
  \<^verbatim>\<open>play\<close> has three optional trailing fields. They are written up to the last one that
  differs from its default, and read as long as there are bytes; \<^verbatim>\<open>reset\<close> may come as a
  boolean or as a number.
\<close>

record play =
  play_command_name :: string
  play_transaction_id :: double
  play_stream_name :: string
  play_start :: double
  play_duration :: double
  play_reset :: bool

definition play_new :: play where
  "play_new = \<lparr>play_command_name = RTMP_AMF0_COMMAND_PLAY, play_transaction_id = dbl_0,
     play_stream_name = '''', play_start = dbl_minus_2, play_duration = dbl_minus_1,
     play_reset = True\<rparr>"

definition play_read_reset :: "sbuf \<Rightarrow> (bool \<times> sbuf) res" where
  "play_read_reset s = (case srs_amf0_read_any s of
     Inl e \<Rightarrow> Inl ERROR_RTMP_AMF0_DECODE
   | Inr (any, s) \<Rightarrow> (case any of
       Amf0Boolean b \<Rightarrow> Inr (b, s)
     | Amf0Number d \<Rightarrow> Inr (\<not> dbl_eq d dbl_0, s)
     | _ \<Rightarrow> Inl ERROR_RTMP_AMF0_DECODE))"

definition play_decode :: "play \<Rightarrow> sbuf \<Rightarrow> (play \<times> sbuf) res" where
  "play_decode p s =
     bindR (srs_amf0_read_string (play_command_name p) s)
     (\<lambda>(name, s). bindR (check_name [RTMP_AMF0_COMMAND_PLAY] name)
     (\<lambda>_. bindR (srs_amf0_read_number s)
     (\<lambda>(tid, s). bindR (srs_amf0_read_null s)
     (\<lambda>s. bindR (srs_amf0_read_string (play_stream_name p) s)
     (\<lambda>(str, s). bindR (if \<not> buf_empty s then srs_amf0_read_number s else Inr (play_start p, s))
     (\<lambda>(start, s). bindR (if \<not> buf_empty s then srs_amf0_read_number s else Inr (play_duration p, s))
     (\<lambda>(duration, s). bindR (if \<not> buf_empty s then play_read_reset s else Inr (play_reset p, s))
     (\<lambda>(reset, s). Inr (\<lparr>play_command_name = name, play_transaction_id = tid,
        play_stream_name = str, play_start = start, play_duration = duration,
        play_reset = reset\<rparr>, s)))))))))"

definition play_has_duration :: "play \<Rightarrow> bool" where
  "play_has_duration p \<longleftrightarrow> \<not> dbl_eq (play_duration p) dbl_minus_1 \<or> \<not> play_reset p"

definition play_has_start :: "play \<Rightarrow> bool" where
  "play_has_start p \<longleftrightarrow> \<not> dbl_eq (play_start p) dbl_minus_2 \<or> play_has_duration p"

definition play_size :: "play \<Rightarrow> nat" where
  "play_size p = size_str (play_command_name p) + size_number + size_null
     + size_str (play_stream_name p)
     + (if play_has_start p then size_number else 0)
     + (if play_has_duration p then size_number else 0)
     + (if \<not> play_reset p then size_boolean else 0)"

definition play_encode :: "play \<Rightarrow> sbuf \<Rightarrow> sbuf res" where
  "play_encode p s =
     bindR (srs_amf0_write_string (play_command_name p) s)
     (\<lambda>s. bindR (srs_amf0_write_number (play_transaction_id p) s)
     (\<lambda>s. bindR (srs_amf0_write_null s)
     (\<lambda>s. bindR (srs_amf0_write_string (play_stream_name p) s)
     (\<lambda>s. bindR (if play_has_start p then srs_amf0_write_number (play_start p) s else Inr s)
     (\<lambda>s. bindR (if play_has_duration p then srs_amf0_write_number (play_duration p) s else Inr s)
     (\<lambda>s. if \<not> play_reset p then srs_amf0_write_boolean (play_reset p) s else Inr s))))))"

record play_res =
  plr_command_name :: string
  plr_transaction_id :: double
  plr_desc :: props

definition play_res_new :: play_res where
  "play_res_new = \<lparr>plr_command_name = RTMP_AMF0_COMMAND_RESULT, plr_transaction_id = dbl_0,
     plr_desc = []\<rparr>"

definition play_res_size :: "play_res \<Rightarrow> nat" where
  "play_res_size p = size_str (plr_command_name p) + size_number + size_null
     + size_object (Some (plr_desc p))"

definition play_res_encode :: "play_res \<Rightarrow> sbuf \<Rightarrow> sbuf res" where
  "play_res_encode p s =
     bindR (srs_amf0_write_string (plr_command_name p) s)
     (\<lambda>s. bindR (srs_amf0_write_number (plr_transaction_id p) s)
     (\<lambda>s. bindR (srs_amf0_write_null s) (amf0_write (Amf0Object (plr_desc p)))))"


section \<open>Status and bandwidth\<close>

record on_bw_done =
  obw_command_name :: string
  obw_transaction_id :: double

definition on_bw_done_new :: on_bw_done where
  "on_bw_done_new = \<lparr>obw_command_name = RTMP_AMF0_COMMAND_ON_BW_DONE, obw_transaction_id = dbl_0\<rparr>"

definition on_bw_done_size :: "on_bw_done \<Rightarrow> nat" where
  "on_bw_done_size p = size_str (obw_command_name p) + size_number + size_null"

definition on_bw_done_encode :: "on_bw_done \<Rightarrow> sbuf \<Rightarrow> sbuf res" where
  "on_bw_done_encode p s =
     bindR (srs_amf0_write_string (obw_command_name p) s)
     (\<lambda>s. bindR (srs_amf0_write_number (obw_transaction_id p) s) srs_amf0_write_null)"

record on_status_call =
  osc_command_name :: string
  osc_transaction_id :: double
  osc_data :: props

definition on_status_call_new :: on_status_call where
  "on_status_call_new = \<lparr>osc_command_name = RTMP_AMF0_COMMAND_ON_STATUS,
     osc_transaction_id = dbl_0, osc_data = []\<rparr>"

definition on_status_call_size :: "on_status_call \<Rightarrow> nat" where
  "on_status_call_size p = size_str (osc_command_name p) + size_number + size_null
     + size_object (Some (osc_data p))"

definition on_status_call_encode :: "on_status_call \<Rightarrow> sbuf \<Rightarrow> sbuf res" where
  "on_status_call_encode p s =
     bindR (srs_amf0_write_string (osc_command_name p) s)
     (\<lambda>s. bindR (srs_amf0_write_number (osc_transaction_id p) s)
     (\<lambda>s. bindR (srs_amf0_write_null s) (amf0_write (Amf0Object (osc_data p)))))"

text \<open>
  The bandwidth check: only the three commands that carry data have it decoded, though
  \<^verbatim>\<open>encode_packet\<close> writes it for all.
\<close>

record bandwidth =
  bw_command_name :: string
  bw_transaction_id :: double
  bw_data :: props

definition bandwidth_new :: bandwidth where
  "bandwidth_new = \<lparr>bw_command_name = RTMP_AMF0_COMMAND_ON_STATUS,
     bw_transaction_id = dbl_0, bw_data = []\<rparr>"

definition bw_is_start_play :: "bandwidth \<Rightarrow> bool" where
  "bw_is_start_play p \<longleftrightarrow> bw_command_name p = SRS_BW_CHECK_START_PLAY"
definition bw_is_starting_play :: "bandwidth \<Rightarrow> bool" where
  "bw_is_starting_play p \<longleftrightarrow> bw_command_name p = SRS_BW_CHECK_STARTING_PLAY"
definition bw_is_stop_play :: "bandwidth \<Rightarrow> bool" where
  "bw_is_stop_play p \<longleftrightarrow> bw_command_name p = SRS_BW_CHECK_STOP_PLAY"
definition bw_is_stopped_play :: "bandwidth \<Rightarrow> bool" where
  "bw_is_stopped_play p \<longleftrightarrow> bw_command_name p = SRS_BW_CHECK_STOPPED_PLAY"
definition bw_is_start_publish :: "bandwidth \<Rightarrow> bool" where
  "bw_is_start_publish p \<longleftrightarrow> bw_command_name p = SRS_BW_CHECK_START_PUBLISH"
definition bw_is_starting_publish :: "bandwidth \<Rightarrow> bool" where
  "bw_is_starting_publish p \<longleftrightarrow> bw_command_name p = SRS_BW_CHECK_STARTING_PUBLISH"
definition bw_is_stop_publish :: "bandwidth \<Rightarrow> bool" where
  "bw_is_stop_publish p \<longleftrightarrow> bw_command_name p = SRS_BW_CHECK_STOP_PUBLISH"
definition bw_is_stopped_publish :: "bandwidth \<Rightarrow> bool" where
  "bw_is_stopped_publish p \<longleftrightarrow> bw_command_name p = SRS_BW_CHECK_STOPPED_PUBLISH"
definition bw_is_finish :: "bandwidth \<Rightarrow> bool" where
  "bw_is_finish p \<longleftrightarrow> bw_command_name p = SRS_BW_CHECK_FINISHED"
definition bw_is_final :: "bandwidth \<Rightarrow> bool" where
  "bw_is_final p \<longleftrightarrow> bw_command_name p = SRS_BW_CHECK_FINAL"

definition bw_set_command :: "string \<Rightarrow> bandwidth \<Rightarrow> bandwidth" where
  "bw_set_command command p = p\<lparr>bw_command_name := command\<rparr>"

definition bandwidth_decode :: "bandwidth \<Rightarrow> sbuf \<Rightarrow> (bandwidth \<times> sbuf) res" where
  "bandwidth_decode p s =
     bindR (srs_amf0_read_string (bw_command_name p) s)
     (\<lambda>(name, s). bindR (srs_amf0_read_number s)
     (\<lambda>(tid, s). bindR (srs_amf0_read_null s)
     (\<lambda>s. let p = p\<lparr>bw_command_name := name, bw_transaction_id := tid\<rparr>
        in if bw_is_stop_play p \<or> bw_is_start_publish p \<or> bw_is_finish p
           then bindR (amf0_object_read (bw_data p) s) (\<lambda>(ps, s). Inr (p\<lparr>bw_data := ps\<rparr>, s))
           else Inr (p, s))))"

definition bandwidth_size :: "bandwidth \<Rightarrow> nat" where
  "bandwidth_size p = size_str (bw_command_name p) + size_number + size_null
     + size_object (Some (bw_data p))"

definition bandwidth_encode :: "bandwidth \<Rightarrow> sbuf \<Rightarrow> sbuf res" where
  "bandwidth_encode p s =
     bindR (srs_amf0_write_string (bw_command_name p) s)
     (\<lambda>s. bindR (srs_amf0_write_number (bw_transaction_id p) s)
     (\<lambda>s. bindR (srs_amf0_write_null s) (amf0_write (Amf0Object (bw_data p)))))"

section \<open>Data messages\<close>

record on_status_data =
  osd_command_name :: string
  osd_data :: props

definition on_status_data_new :: on_status_data where
  "on_status_data_new = \<lparr>osd_command_name = RTMP_AMF0_COMMAND_ON_STATUS, osd_data = []\<rparr>"

definition on_status_data_size :: "on_status_data \<Rightarrow> nat" where
  "on_status_data_size p = size_str (osd_command_name p) + size_object (Some (osd_data p))"

definition on_status_data_encode :: "on_status_data \<Rightarrow> sbuf \<Rightarrow> sbuf res" where
  "on_status_data_encode p s =
     bindR (srs_amf0_write_string (osd_command_name p) s) (amf0_write (Amf0Object (osd_data p)))"

record sample_access =
  sa_command_name :: string
  sa_video_sample_access :: bool
  sa_audio_sample_access :: bool

definition sample_access_new :: sample_access where
  "sample_access_new = \<lparr>sa_command_name = RTMP_AMF0_DATA_SAMPLE_ACCESS,
     sa_video_sample_access = False, sa_audio_sample_access = False\<rparr>"

definition sample_access_size :: "sample_access \<Rightarrow> nat" where
  "sample_access_size p = size_str (sa_command_name p) + size_boolean + size_boolean"

definition sample_access_encode :: "sample_access \<Rightarrow> sbuf \<Rightarrow> sbuf res" where
  "sample_access_encode p s =
     bindR (srs_amf0_write_string (sa_command_name p) s)
     (\<lambda>s. bindR (srs_amf0_write_boolean (sa_video_sample_access p) s)
     (srs_amf0_write_boolean (sa_audio_sample_access p)))"

text \<open>
  \<^verbatim>\<open>@setDataFrame\<close> in front of the name is dropped. Metadata may come as an object or as
  an array, whose members are copied into the object; any other value is ignored.
\<close>

record on_metadata =
  omd_name :: string
  omd_metadata :: props

definition on_metadata_new :: on_metadata where
  "on_metadata_new = \<lparr>omd_name = SRS_CONSTS_RTMP_ON_METADATA, omd_metadata = []\<rparr>"

definition on_metadata_decode :: "on_metadata \<Rightarrow> sbuf \<Rightarrow> (on_metadata \<times> sbuf) res" where
  "on_metadata_decode p s =
     bindR (srs_amf0_read_string (omd_name p) s)
     (\<lambda>(name, s). bindR (if name = SRS_CONSTS_RTMP_SET_DATAFRAME
          then srs_amf0_read_string name s else Inr (name, s))
     (\<lambda>(name, s). bindR (srs_amf0_read_any s)
     (\<lambda>(any, s). Inr (case any of
          Amf0Object ps \<Rightarrow> \<lparr>omd_name = name, omd_metadata = ps\<rparr>
        | Amf0EcmaArray _ ps \<Rightarrow> \<lparr>omd_name = name, omd_metadata = props_copy ps (omd_metadata p)\<rparr>
        | _ \<Rightarrow> p\<lparr>omd_name := name\<rparr>, s))))"

definition on_metadata_size :: "on_metadata \<Rightarrow> nat" where
  "on_metadata_size p = size_str (omd_name p) + size_object (Some (omd_metadata p))"

definition on_metadata_encode :: "on_metadata \<Rightarrow> sbuf \<Rightarrow> sbuf res" where
  "on_metadata_encode p s =
     bindR (srs_amf0_write_string (omd_name p) s) (amf0_write (Amf0Object (omd_metadata p)))"

section \<open>Protocol control\<close>

record set_window_ack_size =
  sw_ackowledgement_window_size :: "32 word"

definition set_window_ack_size_decode ::
    "set_window_ack_size \<Rightarrow> sbuf \<Rightarrow> (set_window_ack_size \<times> sbuf) res" where
  "set_window_ack_size_decode p s = bindR (need 4 ERROR_RTMP_MESSAGE_DECODE s)
     (\<lambda>_. bindR (read_4bytes s) (\<lambda>(v, s). Inr (\<lparr>sw_ackowledgement_window_size = v\<rparr>, s)))"

definition set_window_ack_size_size :: "set_window_ack_size \<Rightarrow> nat" where
  "set_window_ack_size_size p = 4"

definition set_window_ack_size_encode :: "set_window_ack_size \<Rightarrow> sbuf \<Rightarrow> sbuf res" where
  "set_window_ack_size_encode p s = bindR (need 4 ERROR_RTMP_MESSAGE_ENCODE s)
     (\<lambda>_. write_4bytes (sw_ackowledgement_window_size p) s)"

record acknowledgement =
  ack_sequence_number :: "32 word"

definition acknowledgement_decode :: "acknowledgement \<Rightarrow> sbuf \<Rightarrow> (acknowledgement \<times> sbuf) res" where
  "acknowledgement_decode p s = bindR (need 4 ERROR_RTMP_MESSAGE_DECODE s)
     (\<lambda>_. bindR (read_4bytes s) (\<lambda>(v, s). Inr (\<lparr>ack_sequence_number = v\<rparr>, s)))"

definition acknowledgement_size :: "acknowledgement \<Rightarrow> nat" where
  "acknowledgement_size p = 4"

definition acknowledgement_encode :: "acknowledgement \<Rightarrow> sbuf \<Rightarrow> sbuf res" where
  "acknowledgement_encode p s = bindR (need 4 ERROR_RTMP_MESSAGE_ENCODE s)
     (\<lambda>_. write_4bytes (ack_sequence_number p) s)"

definition SRS_CONSTS_RTMP_PROTOCOL_CHUNK_SIZE :: "32 word" where
  "SRS_CONSTS_RTMP_PROTOCOL_CHUNK_SIZE = 128"

record set_chunk_size =
  scs_chunk_size :: "32 word"

definition set_chunk_size_decode :: "set_chunk_size \<Rightarrow> sbuf \<Rightarrow> (set_chunk_size \<times> sbuf) res" where
  "set_chunk_size_decode p s = bindR (need 4 ERROR_RTMP_MESSAGE_DECODE s)
     (\<lambda>_. bindR (read_4bytes s) (\<lambda>(v, s). Inr (\<lparr>scs_chunk_size = v\<rparr>, s)))"

definition set_chunk_size_size :: "set_chunk_size \<Rightarrow> nat" where
  "set_chunk_size_size p = 4"

definition set_chunk_size_encode :: "set_chunk_size \<Rightarrow> sbuf \<Rightarrow> sbuf res" where
  "set_chunk_size_encode p s = bindR (need 4 ERROR_RTMP_MESSAGE_ENCODE s)
     (\<lambda>_. write_4bytes (scs_chunk_size p) s)"

record set_peer_bandwidth =
  spb_bandwidth :: "32 word"
  spb_type :: "8 word"

definition set_peer_bandwidth_new :: set_peer_bandwidth where
  "set_peer_bandwidth_new = \<lparr>spb_bandwidth = 0, spb_type = 2\<rparr>"

definition set_peer_bandwidth_size :: "set_peer_bandwidth \<Rightarrow> nat" where
  "set_peer_bandwidth_size p = 5"

definition set_peer_bandwidth_encode :: "set_peer_bandwidth \<Rightarrow> sbuf \<Rightarrow> sbuf res" where
  "set_peer_bandwidth_encode p s = bindR (need 5 ERROR_RTMP_MESSAGE_ENCODE s)
     (\<lambda>_. bindR (write_4bytes (spb_bandwidth p) s) (write_1bytes (spb_type p)))"

text \<open>
  User control messages: the width of the event data depends on the event. The code
  returns its encoding error when the buffer length is missing from a message it decodes.
\<close>

abbreviation SrcPCUCSetBufferLength :: "16 word" where "SrcPCUCSetBufferLength \<equiv> 0x03"
abbreviation SrcPCUCPingRequest :: "16 word" where "SrcPCUCPingRequest \<equiv> 0x06"
abbreviation SrcPCUCPingResponse :: "16 word" where "SrcPCUCPingResponse \<equiv> 0x07"
abbreviation SrsPCUCFmsEvent0 :: "16 word" where "SrsPCUCFmsEvent0 \<equiv> 0x1a"

record user_control =
  uc_event_type :: "16 word"
  uc_event_data :: "32 word"
  uc_extra_data :: "32 word"

definition user_control_new :: user_control where
  "user_control_new = \<lparr>uc_event_type = 0, uc_event_data = 0, uc_extra_data = 0\<rparr>"

definition user_control_decode :: "user_control \<Rightarrow> sbuf \<Rightarrow> (user_control \<times> sbuf) res" where
  "user_control_decode p s =
     bindR (need 2 ERROR_RTMP_MESSAGE_DECODE s)
     (\<lambda>_. bindR (read_2bytes s)
     (\<lambda>(ty, s). bindR (if ty = SrsPCUCFmsEvent0
          then bindR (need 1 ERROR_RTMP_MESSAGE_DECODE s)
                 (\<lambda>_. bindR (read_1bytes s) (\<lambda>(b, s). Inr (scast b, s)))
          else bindR (need 4 ERROR_RTMP_MESSAGE_DECODE s) (\<lambda>_. read_4bytes s))
     (\<lambda>(ed, s). bindR (if ty = SrcPCUCSetBufferLength
          then bindR (need 4 ERROR_RTMP_MESSAGE_ENCODE s) (\<lambda>_. read_4bytes s)
          else Inr (uc_extra_data p, s))
     (\<lambda>(xd, s). Inr (\<lparr>uc_event_type = ty, uc_event_data = ed, uc_extra_data = xd\<rparr>, s)))))"

definition user_control_size :: "user_control \<Rightarrow> nat" where
  "user_control_size p = 2 + (if uc_event_type p = SrsPCUCFmsEvent0 then 1 else 4)
     + (if uc_event_type p = SrcPCUCSetBufferLength then 4 else 0)"

definition user_control_encode :: "user_control \<Rightarrow> sbuf \<Rightarrow> sbuf res" where
  "user_control_encode p s =
     bindR (need (int (user_control_size p)) ERROR_RTMP_MESSAGE_ENCODE s)
     (\<lambda>_. bindR (write_2bytes (uc_event_type p) s)
     (\<lambda>s. bindR (if uc_event_type p = SrsPCUCFmsEvent0
          then write_1bytes (ucast (uc_event_data p)) s
          else write_4bytes (uc_event_data p) s)
     (\<lambda>s. if uc_event_type p = SrcPCUCSetBufferLength
          then write_4bytes (uc_extra_data p) s else Inr s)))"

section \<open>The packet classes\<close>

text \<open>\<^verbatim>\<open>SrsPacket\<close>: the base class itself is used for messages that are dropped.\<close>

datatype packet =
    BasePacket
  | ConnectApp connect_app
  | ConnectAppRes connect_app_res
  | Call call_packet
  | CallRes call_res
  | CreateStream create_stream
  | CreateStreamRes create_stream_res
  | CloseStream close_stream
  | FMLEStart fmle_start
  | FMLEStartRes fmle_start_res
  | Publish publish
  | Pause pause
  | Play play
  | PlayRes play_res
  | OnBWDone on_bw_done
  | OnStatusCall on_status_call
  | Bandwidth bandwidth
  | OnStatusData on_status_data
  | SampleAccess sample_access
  | OnMetaData on_metadata
  | SetWindowAckSize set_window_ack_size
  | Acknowledgement acknowledgement
  | SetChunkSize set_chunk_size
  | SetPeerBandwidth set_peer_bandwidth
  | UserControl user_control

fun get_prefer_cid :: "packet \<Rightarrow> int" where
  "get_prefer_cid BasePacket = 0"
| "get_prefer_cid (ConnectApp _) = RTMP_CID_OverConnection"
| "get_prefer_cid (ConnectAppRes _) = RTMP_CID_OverConnection"
| "get_prefer_cid (Call _) = RTMP_CID_OverConnection"
| "get_prefer_cid (CallRes _) = RTMP_CID_OverConnection"
| "get_prefer_cid (CreateStream _) = RTMP_CID_OverConnection"
| "get_prefer_cid (CreateStreamRes _) = RTMP_CID_OverConnection"
| "get_prefer_cid (CloseStream _) = 0"
| "get_prefer_cid (FMLEStart _) = RTMP_CID_OverConnection"
| "get_prefer_cid (FMLEStartRes _) = RTMP_CID_OverConnection"
| "get_prefer_cid (Publish _) = RTMP_CID_OverStream"
| "get_prefer_cid (Pause _) = 0"
| "get_prefer_cid (Play _) = RTMP_CID_OverStream"
| "get_prefer_cid (PlayRes _) = RTMP_CID_OverStream"
| "get_prefer_cid (OnBWDone _) = RTMP_CID_OverConnection"
| "get_prefer_cid (OnStatusCall _) = RTMP_CID_OverStream"
| "get_prefer_cid (Bandwidth _) = RTMP_CID_OverStream"
| "get_prefer_cid (OnStatusData _) = RTMP_CID_OverStream"
| "get_prefer_cid (SampleAccess _) = RTMP_CID_OverStream"
| "get_prefer_cid (OnMetaData _) = RTMP_CID_OverConnection2"
| "get_prefer_cid (SetWindowAckSize _) = RTMP_CID_ProtocolControl"
| "get_prefer_cid (Acknowledgement _) = RTMP_CID_ProtocolControl"
| "get_prefer_cid (SetChunkSize _) = RTMP_CID_ProtocolControl"
| "get_prefer_cid (SetPeerBandwidth _) = RTMP_CID_ProtocolControl"
| "get_prefer_cid (UserControl _) = RTMP_CID_ProtocolControl"

fun get_message_type :: "packet \<Rightarrow> byte" where
  "get_message_type BasePacket = 0"
| "get_message_type (CloseStream _) = 0"
| "get_message_type (Pause _) = 0"
| "get_message_type (OnStatusData _) = RTMP_MSG_AMF0DataMessage"
| "get_message_type (SampleAccess _) = RTMP_MSG_AMF0DataMessage"
| "get_message_type (OnMetaData _) = RTMP_MSG_AMF0DataMessage"
| "get_message_type (SetWindowAckSize _) = RTMP_MSG_WindowAcknowledgementSize"
| "get_message_type (Acknowledgement _) = RTMP_MSG_Acknowledgement"
| "get_message_type (SetChunkSize _) = RTMP_MSG_SetChunkSize"
| "get_message_type (SetPeerBandwidth _) = RTMP_MSG_SetPeerBandwidth"
| "get_message_type (UserControl _) = RTMP_MSG_UserControlMessage"
| "get_message_type _ = RTMP_MSG_AMF0CommandMessage"

fun get_size :: "packet \<Rightarrow> nat" where
  "get_size BasePacket = 0"
| "get_size (ConnectApp p) = connect_app_size p"
| "get_size (ConnectAppRes p) = connect_app_res_size p"
| "get_size (Call p) = call_size p"
| "get_size (CallRes p) = call_res_size p"
| "get_size (CreateStream p) = create_stream_size p"
| "get_size (CreateStreamRes p) = create_stream_res_size p"
| "get_size (CloseStream _) = 0"
| "get_size (FMLEStart p) = fmle_start_size p"
| "get_size (FMLEStartRes p) = fmle_start_res_size p"
| "get_size (Publish p) = publish_size p"
| "get_size (Pause _) = 0"
| "get_size (Play p) = play_size p"
| "get_size (PlayRes p) = play_res_size p"
| "get_size (OnBWDone p) = on_bw_done_size p"
| "get_size (OnStatusCall p) = on_status_call_size p"
| "get_size (Bandwidth p) = bandwidth_size p"
| "get_size (OnStatusData p) = on_status_data_size p"
| "get_size (SampleAccess p) = sample_access_size p"
| "get_size (OnMetaData p) = on_metadata_size p"
| "get_size (SetWindowAckSize p) = set_window_ack_size_size p"
| "get_size (Acknowledgement p) = acknowledgement_size p"
| "get_size (SetChunkSize p) = set_chunk_size_size p"
| "get_size (SetPeerBandwidth p) = set_peer_bandwidth_size p"
| "get_size (UserControl p) = user_control_size p"

fun encode_packet :: "packet \<Rightarrow> sbuf \<Rightarrow> sbuf res" where
  "encode_packet BasePacket = (\<lambda>_. Inl ERROR_SYSTEM_PACKET_INVALID)"
| "encode_packet (ConnectApp p) = connect_app_encode p"
| "encode_packet (ConnectAppRes p) = connect_app_res_encode p"
| "encode_packet (Call p) = call_encode p"
| "encode_packet (CallRes p) = call_res_encode p"
| "encode_packet (CreateStream p) = create_stream_encode p"
| "encode_packet (CreateStreamRes p) = create_stream_res_encode p"
| "encode_packet (CloseStream _) = (\<lambda>_. Inl ERROR_SYSTEM_PACKET_INVALID)"
| "encode_packet (FMLEStart p) = fmle_start_encode p"
| "encode_packet (FMLEStartRes p) = fmle_start_res_encode p"
| "encode_packet (Publish p) = publish_encode p"
| "encode_packet (Pause _) = (\<lambda>_. Inl ERROR_SYSTEM_PACKET_INVALID)"
| "encode_packet (Play p) = play_encode p"
| "encode_packet (PlayRes p) = play_res_encode p"
| "encode_packet (OnBWDone p) = on_bw_done_encode p"
| "encode_packet (OnStatusCall p) = on_status_call_encode p"
| "encode_packet (Bandwidth p) = bandwidth_encode p"
| "encode_packet (OnStatusData p) = on_status_data_encode p"
| "encode_packet (SampleAccess p) = sample_access_encode p"
| "encode_packet (OnMetaData p) = on_metadata_encode p"
| "encode_packet (SetWindowAckSize p) = set_window_ack_size_encode p"
| "encode_packet (Acknowledgement p) = acknowledgement_encode p"
| "encode_packet (SetChunkSize p) = set_chunk_size_encode p"
| "encode_packet (SetPeerBandwidth p) = set_peer_bandwidth_encode p"
| "encode_packet (UserControl p) = user_control_encode p"

text \<open>\<open>r\<close> is the result of the \<^verbatim>\<open>decode\<close> of one class, \<open>c\<close> its constructor.\<close>

definition decoded :: "('a \<Rightarrow> packet) \<Rightarrow> ('a \<times> sbuf) res \<Rightarrow> (packet \<times> sbuf) res" where
  "decoded c r = bindR r (\<lambda>(p, s). Inr (c p, s))"

fun packet_decode :: "packet \<Rightarrow> sbuf \<Rightarrow> (packet \<times> sbuf) res" where
  "packet_decode (ConnectApp p) s = decoded ConnectApp (connect_app_decode p s)"
| "packet_decode (ConnectAppRes p) s = decoded ConnectAppRes (connect_app_res_decode p s)"
| "packet_decode (Call p) s = decoded Call (call_decode p s)"
| "packet_decode (CreateStream p) s = decoded CreateStream (create_stream_decode p s)"
| "packet_decode (CreateStreamRes p) s = decoded CreateStreamRes (create_stream_res_decode p s)"
| "packet_decode (CloseStream p) s = decoded CloseStream (close_stream_decode p s)"
| "packet_decode (FMLEStart p) s = decoded FMLEStart (fmle_start_decode p s)"
| "packet_decode (FMLEStartRes p) s = decoded FMLEStartRes (fmle_start_res_decode p s)"
| "packet_decode (Publish p) s = decoded Publish (publish_decode p s)"
| "packet_decode (Pause p) s = decoded Pause (pause_decode p s)"
| "packet_decode (Play p) s = decoded Play (play_decode p s)"
| "packet_decode (Bandwidth p) s = decoded Bandwidth (bandwidth_decode p s)"
| "packet_decode (OnMetaData p) s = decoded OnMetaData (on_metadata_decode p s)"
| "packet_decode (SetWindowAckSize p) s = decoded SetWindowAckSize (set_window_ack_size_decode p s)"
| "packet_decode (Acknowledgement p) s = decoded Acknowledgement (acknowledgement_decode p s)"
| "packet_decode (SetChunkSize p) s = decoded SetChunkSize (set_chunk_size_decode p s)"
| "packet_decode (UserControl p) s = decoded UserControl (user_control_decode p s)"
| "packet_decode _ s = Inl ERROR_SYSTEM_PACKET_INVALID"

text \<open>
  \<^verbatim>\<open>SrsPacket::encode\<close>: \<open>junk\<close> is what the fresh memory of \<^verbatim>\<open>new char[size]\<close> holds.
\<close>

definition packet_encode :: "(nat \<Rightarrow> byte) \<Rightarrow> packet \<Rightarrow> (nat \<times> byte list option) res" where
  "packet_encode junk p =
     (let size = get_size p in
      if size > 0
      then bindR (buf_initialize (Some (map junk [0..<size])))
             (\<lambda>s. bindR (encode_packet p s) (\<lambda>s. Inr (size, Some (sb_bytes s))))
      else bindR (encode_packet p (set_value None)) (\<lambda>_. Inr (size, None)))"

end
