(* ===== verification/Srs_Packet_Codec.thy ===== *)
theory Srs_Packet_Codec
  imports Srs_Packet
begin

text \<open>
  What the packet classes write and read: the bytes \<open>packet_enc\<close> of a packet, that
  \<^verbatim>\<open>encode_packet\<close> produces exactly these, that \<^verbatim>\<open>get_size\<close> is their number, and that
  \<^verbatim>\<open>decode\<close> of a new object of the same class takes them back.
\<close>

section \<open>Reading to the end of a buffer\<close>

text \<open>
  \<open>reads_all r v bs\<close>: where exactly \<open>bs\<close> is left, \<open>r\<close> returns \<open>v\<close> and stands at the end.
  Decoders with optional trailing fields look whether the buffer is empty.
\<close>

definition reads_all :: "(sbuf \<Rightarrow> ('a \<times> sbuf) res) \<Rightarrow> 'a \<Rightarrow> byte list \<Rightarrow> bool" where
  "reads_all r v bs \<longleftrightarrow> (\<forall>s. \<not> sb_null s \<longrightarrow> upcoming s = bs \<longrightarrow> r s = Inr (v, adv (length bs) s))"

lemma reads_allI: "(\<And>s. \<not> sb_null s \<Longrightarrow> upcoming s = bs \<Longrightarrow> r s = Inr (v, adv (length bs) s)) \<Longrightarrow>
    reads_all r v bs"
  by (simp add: reads_all_def)

lemma reads_allD: "reads_all r v bs \<Longrightarrow> \<not> sb_null s \<Longrightarrow> upcoming s = bs \<Longrightarrow>
    r s = Inr (v, adv (length bs) s)"
  by (simp add: reads_all_def)

lemma reads_all_reads: "reads r v bs \<Longrightarrow> reads_all r v bs"
  by (rule reads_allI) (erule readsD [where rest = "[]"], simp_all)

lemma reads_all_return: "v = w \<Longrightarrow> reads_all (\<lambda>s. Inr (v, s)) w []"
  by (simp add: reads_all_def)

lemma reads_all_bind:
  assumes "reads r1 v1 b1" and "reads_all (r2 v1) v2 b2"
  shows "reads_all (\<lambda>s. bindR (r1 s) (\<lambda>(x, s). r2 x s)) v2 (b1 @ b2)"
proof (rule reads_allI)
  fix s
  assume s: "\<not> sb_null s" "upcoming s = b1 @ b2"
  then have "r2 v1 (adv (length b1) s) = Inr (v2, adv (length b2) (adv (length b1) s))"
    by (intro reads_allD [OF assms(2)]) (simp_all add: upcoming_adv)
  then show "bindR (r1 s) (\<lambda>(x, s). r2 x s) = Inr (v2, adv (length (b1 @ b2)) s)"
    by (simp add: readsD [OF assms(1) s])
qed

text \<open>The last field, and what follows it when nothing is left.\<close>

lemma reads_all_bind_end:
  assumes "reads_all r1 v1 b1" and "reads_all (r2 v1) v2 []"
  shows "reads_all (\<lambda>s. bindR (r1 s) (\<lambda>(x, s). r2 x s)) v2 b1"
proof (rule reads_allI)
  fix s
  assume s: "\<not> sb_null s" "upcoming s = b1"
  then have "r2 v1 (adv (length b1) s) = Inr (v2, adv (length []) (adv (length b1) s))"
    using reads_allD [OF assms(2), of "adv (length b1) s"] by (simp add: upcoming_adv)
  then show "bindR (r1 s) (\<lambda>(x, s). r2 x s) = Inr (v2, adv (length b1) s)"
    by (simp add: reads_allD [OF assms(1) s])
qed

lemma reads_all_marker:
  assumes "reads_all r v bs"
  shows "reads_all (\<lambda>s. bindR (srs_amf0_read_null s) r) v (amf0_enc Amf0Null @ bs)"
    and "reads_all (\<lambda>s. bindR (srs_amf0_read_undefined s) r) v (amf0_enc Amf0Undefined @ bs)"
proof -
  have "bindR (read_marker m s) r = Inr (v, adv (Suc (length bs)) s)"
    if "\<not> sb_null s" "upcoming s = m # bs" for m s
    using that reads_allD [OF assms, of "adv 1 s"]
    by (simp add: read_marker_upcoming upcoming_adv)
  then show "reads_all (\<lambda>s. bindR (srs_amf0_read_null s) r) v (amf0_enc Amf0Null @ bs)"
    and "reads_all (\<lambda>s. bindR (srs_amf0_read_undefined s) r) v (amf0_enc Amf0Undefined @ bs)"
    by (simp_all add: reads_all_def srs_amf0_read_null_def srs_amf0_read_undefined_def)
qed

lemma reads_all_check:
  "c \<Longrightarrow> reads_all r v bs \<Longrightarrow> reads_all (\<lambda>s. bindR (check c e) (\<lambda>_. r s)) v bs"
  by simp

lemma check_name_ok: "n \<noteq> '''' \<Longrightarrow> n \<in> set ns \<Longrightarrow> check_name ns n = Inr ()"
  by (simp add: check_name_def)

lemma reads_all_check_name:
  "n \<noteq> '''' \<Longrightarrow> n \<in> set ns \<Longrightarrow> reads_all r v bs \<Longrightarrow>
   reads_all (\<lambda>s. bindR (check_name ns n) (\<lambda>_. r s)) v bs"
  by (simp add: check_name_ok)

lemma reads_more:
  "bs \<noteq> [] \<Longrightarrow> reads r v bs \<Longrightarrow> reads (\<lambda>s. if \<not> buf_empty s then r s else d s) v bs"
  by (auto simp: reads_def buf_empty_upcoming)

lemma reads_all_more:
  "bs \<noteq> [] \<Longrightarrow> reads_all r v bs \<Longrightarrow> reads_all (\<lambda>s. if \<not> buf_empty s then r s else d s) v bs"
  by (auto simp: reads_all_def buf_empty_upcoming)

lemma reads_all_no_more:
  "reads_all d v [] \<Longrightarrow> reads_all (\<lambda>s. if \<not> buf_empty s then r s else d s) v []"
  by (auto simp: reads_all_def buf_empty_upcoming)

text \<open>A string field keeps its default when the empty string comes.\<close>

lemma reads_utf8_default:
  assumes "length v < 32768" and "v \<noteq> '''' \<or> v0 = ''''"
  shows "reads (srs_amf0_read_utf8 v0) v (utf8_enc v)"
proof (cases "v = ''''")
  case True
  with assms reads_utf8 [OF assms(1)] show ?thesis by simp
next
  case False
  show ?thesis
  proof (rule readsI)
    fix s rest
    assume s: "\<not> sb_null s" "upcoming s = utf8_enc v @ rest"
    have "srs_amf0_read_utf8 v0 s = srs_amf0_read_utf8 '''' s"
    proof -
      from s(2) have u: "upcoming s = be 2 (of_nat (length v) :: 16 word) @ map byte_of_char v @ rest"
        by (simp add: utf8_enc_def)
      from False assms(1) have "\<not> sint (of_nat (length v) :: 16 word) \<le> 0"
        by (simp add: sint_of_nat_16)
      with upcoming_room [OF u] read_be(2) [OF u] show ?thesis
        by (simp add: srs_amf0_read_utf8_def codec_simps)
    qed
    then show "srs_amf0_read_utf8 v0 s = Inr (v, adv (length (utf8_enc v)) s)"
      using readsD [OF reads_utf8 [OF assms(1)] s] by simp
  qed
qed

lemma reads_string_default:
  "length v < 32768 \<Longrightarrow> v \<noteq> '''' \<or> v0 = '''' \<Longrightarrow>
   reads (srs_amf0_read_string v0) v (amf0_enc (Amf0String v))"
  unfolding srs_amf0_read_string_def [abs_def] amf0_enc.simps
  by (rule reads_marker_bind, rule reads_utf8_default)

lemma reads_amf0_object:
  assumes "amf0_ok (Amf0Object ps)" and "ps0 = []"
  shows "reads (amf0_object_read ps0) ps (amf0_enc (Amf0Object ps))"
proof -
  have "reads srs_amf0_read_any any (amf0_enc any)" if "any \<in> snd ` set ps" for any
    using assms that props_ok_member by (intro reads_srs_amf0_read_any) auto
  from reads_object [OF this assms(1)] show ?thesis
    unfolding amf0_object_read_def [abs_def] assms(2) by simp
qed


section \<open>The bytes of a packet\<close>

definition opt_enc :: "amf0 option \<Rightarrow> byte list" where
  "opt_enc v = (case v of None \<Rightarrow> [] | Some any \<Rightarrow> amf0_enc any)"

abbreviation str_enc :: "string \<Rightarrow> byte list" where "str_enc v \<equiv> amf0_enc (Amf0String v)"
abbreviation num_enc :: "double \<Rightarrow> byte list" where "num_enc v \<equiv> amf0_enc (Amf0Number v)"
abbreviation obj_enc :: "props \<Rightarrow> byte list" where "obj_enc ps \<equiv> amf0_enc (Amf0Object ps)"
abbreviation bool_enc :: "bool \<Rightarrow> byte list" where "bool_enc b \<equiv> amf0_enc (Amf0Boolean b)"
abbreviation null_enc :: "byte list" where "null_enc \<equiv> amf0_enc Amf0Null"
abbreviation undefined_enc :: "byte list" where "undefined_enc \<equiv> amf0_enc Amf0Undefined"

definition connect_app_enc :: "connect_app \<Rightarrow> byte list" where
  "connect_app_enc p = str_enc (ca_command_name p) @ num_enc (ca_transaction_id p)
     @ obj_enc (ca_command_object p) @ opt_enc (map_option Amf0Object (ca_args p))"

definition connect_app_res_enc :: "connect_app_res \<Rightarrow> byte list" where
  "connect_app_res_enc p = str_enc (car_command_name p) @ num_enc (car_transaction_id p)
     @ obj_enc (car_props p) @ obj_enc (car_info p)"

definition call_enc :: "call_packet \<Rightarrow> byte list" where
  "call_enc p = str_enc (cp_command_name p) @ num_enc (cp_transaction_id p)
     @ opt_enc (cp_command_object p) @ opt_enc (cp_arguments p)"

definition call_res_enc :: "call_res \<Rightarrow> byte list" where
  "call_res_enc p = str_enc (cpr_command_name p) @ num_enc (cpr_transaction_id p)
     @ opt_enc (cpr_command_object p) @ opt_enc (cpr_response p)"

definition create_stream_enc :: "create_stream \<Rightarrow> byte list" where
  "create_stream_enc p = str_enc (crs_command_name p) @ num_enc (crs_transaction_id p) @ null_enc"

definition create_stream_res_enc :: "create_stream_res \<Rightarrow> byte list" where
  "create_stream_res_enc p = str_enc (csr_command_name p) @ num_enc (csr_transaction_id p)
     @ null_enc @ num_enc (csr_stream_id p)"

definition fmle_start_enc :: "fmle_start \<Rightarrow> byte list" where
  "fmle_start_enc p = str_enc (fml_command_name p) @ num_enc (fml_transaction_id p)
     @ null_enc @ str_enc (fml_stream_name p)"

definition fmle_start_res_enc :: "fmle_start_res \<Rightarrow> byte list" where
  "fmle_start_res_enc p = str_enc (fmr_command_name p) @ num_enc (fmr_transaction_id p)
     @ null_enc @ undefined_enc"

definition publish_enc :: "publish \<Rightarrow> byte list" where
  "publish_enc p = str_enc (pub_command_name p) @ num_enc (pub_transaction_id p)
     @ null_enc @ str_enc (pub_stream_name p) @ str_enc (pub_type p)"

definition play_enc :: "play \<Rightarrow> byte list" where
  "play_enc p = str_enc (play_command_name p) @ num_enc (play_transaction_id p)
     @ null_enc @ str_enc (play_stream_name p)
     @ (if play_has_start p then num_enc (play_start p) else [])
     @ (if play_has_duration p then num_enc (play_duration p) else [])
     @ (if \<not> play_reset p then bool_enc (play_reset p) else [])"

definition play_res_enc :: "play_res \<Rightarrow> byte list" where
  "play_res_enc p = str_enc (plr_command_name p) @ num_enc (plr_transaction_id p)
     @ null_enc @ obj_enc (plr_desc p)"

definition on_bw_done_enc :: "on_bw_done \<Rightarrow> byte list" where
  "on_bw_done_enc p = str_enc (obw_command_name p) @ num_enc (obw_transaction_id p) @ null_enc"

definition on_status_call_enc :: "on_status_call \<Rightarrow> byte list" where
  "on_status_call_enc p = str_enc (osc_command_name p) @ num_enc (osc_transaction_id p)
     @ null_enc @ obj_enc (osc_data p)"

definition bandwidth_enc :: "bandwidth \<Rightarrow> byte list" where
  "bandwidth_enc p = str_enc (bw_command_name p) @ num_enc (bw_transaction_id p)
     @ null_enc @ obj_enc (bw_data p)"

definition on_status_data_enc :: "on_status_data \<Rightarrow> byte list" where
  "on_status_data_enc p = str_enc (osd_command_name p) @ obj_enc (osd_data p)"

definition sample_access_enc :: "sample_access \<Rightarrow> byte list" where
  "sample_access_enc p = str_enc (sa_command_name p) @ bool_enc (sa_video_sample_access p)
     @ bool_enc (sa_audio_sample_access p)"

definition on_metadata_enc :: "on_metadata \<Rightarrow> byte list" where
  "on_metadata_enc p = str_enc (omd_name p) @ obj_enc (omd_metadata p)"

definition user_control_enc :: "user_control \<Rightarrow> byte list" where
  "user_control_enc p = be 2 (uc_event_type p)
     @ (if uc_event_type p = SrsPCUCFmsEvent0 then be 1 (ucast (uc_event_data p) :: byte)
        else be 4 (uc_event_data p))
     @ (if uc_event_type p = SrcPCUCSetBufferLength then be 4 (uc_extra_data p) else [])"

section \<open>What the packets write\<close>

lemma writes_opt: "writes ERROR_RTMP_AMF0_ENCODE (write_opt v) (opt_enc v)"
  using writes_return writes_amf0(1)
  by (cases v) (simp_all add: write_opt_def [abs_def] opt_enc_def)

lemma writes_if:
  "writes e w bs \<Longrightarrow> writes e (\<lambda>s. if c then w s else Inr s) (if c then bs else [])"
  using writes_return by simp

lemmas writes_fields = writes_bind writes_string writes_number writes_boolean
  writes_null writes_undefined writes_amf0(1) writes_opt writes_if

lemma writes_packets:
  "writes ERROR_RTMP_AMF0_ENCODE (connect_app_encode p1) (connect_app_enc p1)"
  "writes ERROR_RTMP_AMF0_ENCODE (connect_app_res_encode p2) (connect_app_res_enc p2)"
  "writes ERROR_RTMP_AMF0_ENCODE (call_encode p3) (call_enc p3)"
  "writes ERROR_RTMP_AMF0_ENCODE (call_res_encode p4) (call_res_enc p4)"
  "writes ERROR_RTMP_AMF0_ENCODE (create_stream_encode p5) (create_stream_enc p5)"
  "writes ERROR_RTMP_AMF0_ENCODE (create_stream_res_encode p6) (create_stream_res_enc p6)"
  "writes ERROR_RTMP_AMF0_ENCODE (fmle_start_encode p7) (fmle_start_enc p7)"
  "writes ERROR_RTMP_AMF0_ENCODE (fmle_start_res_encode p8) (fmle_start_res_enc p8)"
  "writes ERROR_RTMP_AMF0_ENCODE (publish_encode p9) (publish_enc p9)"
  "writes ERROR_RTMP_AMF0_ENCODE (play_encode p10) (play_enc p10)"
  "writes ERROR_RTMP_AMF0_ENCODE (play_res_encode p11) (play_res_enc p11)"
  "writes ERROR_RTMP_AMF0_ENCODE (on_bw_done_encode p12) (on_bw_done_enc p12)"
  "writes ERROR_RTMP_AMF0_ENCODE (on_status_call_encode p13) (on_status_call_enc p13)"
  "writes ERROR_RTMP_AMF0_ENCODE (bandwidth_encode p14) (bandwidth_enc p14)"
  "writes ERROR_RTMP_AMF0_ENCODE (on_status_data_encode p15) (on_status_data_enc p15)"
  "writes ERROR_RTMP_AMF0_ENCODE (sample_access_encode p16) (sample_access_enc p16)"
  "writes ERROR_RTMP_AMF0_ENCODE (on_metadata_encode p17) (on_metadata_enc p17)"
  unfolding connect_app_encode_def [abs_def] connect_app_enc_def
    connect_app_res_encode_def [abs_def] connect_app_res_enc_def
    call_encode_def [abs_def] call_enc_def call_res_encode_def [abs_def] call_res_enc_def
    create_stream_encode_def [abs_def] create_stream_enc_def
    create_stream_res_encode_def [abs_def] create_stream_res_enc_def
    fmle_start_encode_def [abs_def] fmle_start_enc_def
    fmle_start_res_encode_def [abs_def] fmle_start_res_enc_def
    publish_encode_def [abs_def] publish_enc_def play_encode_def [abs_def] play_enc_def
    play_res_encode_def [abs_def] play_res_enc_def
    on_bw_done_encode_def [abs_def] on_bw_done_enc_def
    on_status_call_encode_def [abs_def] on_status_call_enc_def
    bandwidth_encode_def [abs_def] bandwidth_enc_def
    on_status_data_encode_def [abs_def] on_status_data_enc_def
    sample_access_encode_def [abs_def] sample_access_enc_def
    on_metadata_encode_def [abs_def] on_metadata_enc_def
  by (rule writes_fields)+

text \<open>The control packets check the room for the whole packet first.\<close>

lemma writes_controls:
  "writes ERROR_RTMP_MESSAGE_ENCODE (set_window_ack_size_encode p1)
     (be 4 (sw_ackowledgement_window_size p1))"
  "writes ERROR_RTMP_MESSAGE_ENCODE (acknowledgement_encode p2) (be 4 (ack_sequence_number p2))"
  "writes ERROR_RTMP_MESSAGE_ENCODE (set_chunk_size_encode p3) (be 4 (scs_chunk_size p3))"
  unfolding set_window_ack_size_encode_def [abs_def] acknowledgement_encode_def [abs_def]
    set_chunk_size_encode_def [abs_def]
  by (rule writes_need(3))+

lemma writes_need_all:
  assumes "writes e' w bs" and "bs \<noteq> []" and "n = int (length bs)"
  shows "writes e (\<lambda>s. bindR (need n e s) (\<lambda>_. w s)) bs"
  using assms by (auto simp: writes_def fits_def need_eq)

lemma writes_buffer:
  "writes ASSERT_FAILED (write_1bytes v1) (be 1 v1)"
  "writes ASSERT_FAILED (write_2bytes v2) (be 2 v2)"
  "writes ASSERT_FAILED (write_4bytes v4) (be 4 v4)"
  by (simp_all add: writes_def codec_simps fits_def)

lemma writes_set_peer_bandwidth:
  "writes ERROR_RTMP_MESSAGE_ENCODE (set_peer_bandwidth_encode p) (be 4 (spb_bandwidth p) @ be 1 (spb_type p))"
  unfolding set_peer_bandwidth_encode_def [abs_def]
  by (rule writes_need_all [OF writes_bind [OF writes_buffer(3,1)]]) simp_all

lemma length_user_control_enc: "length (user_control_enc p) = user_control_size p"
  by (simp add: user_control_enc_def user_control_size_def)

lemma writes_user_control:
  "writes ERROR_RTMP_MESSAGE_ENCODE (user_control_encode p) (user_control_enc p)"
proof -
  have "writes ASSERT_FAILED
     (\<lambda>s. bindR (write_2bytes (uc_event_type p) s)
     (\<lambda>s. bindR (if uc_event_type p = SrsPCUCFmsEvent0
          then write_1bytes (ucast (uc_event_data p)) s
          else write_4bytes (uc_event_data p) s)
     (\<lambda>s. if uc_event_type p = SrcPCUCSetBufferLength
          then write_4bytes (uc_extra_data p) s else Inr s))) (user_control_enc p)"
    unfolding user_control_enc_def
    by (rule writes_bind [OF writes_buffer(2)], rule writes_bind)
      (use writes_buffer writes_if [OF writes_buffer(3)] in auto)
  from writes_need_all [OF this _ refl] show ?thesis
    unfolding user_control_encode_def [abs_def] length_user_control_enc
    by (simp add: user_control_enc_def)
qed


section \<open>Sizes\<close>

lemma length_opt_enc: "length (opt_enc v) = size_any v"
  by (cases v) (simp_all only: opt_enc_def size_any_def option.case length_amf0_enc list.size(3))

lemma size_any_object: "size_any (map_option Amf0Object ps) = size_object ps"
  by (cases ps) (simp_all only: size_any_def size_object_def option.map option.case)

lemma size_object_Some: "size_object (Some ps) = total_size (Amf0Object ps)"
  by (simp add: size_object_def)

lemmas field_sizes = length_append length_opt_enc length_amf0_enc
  total_size.simps(1-3,5,6) size_object_Some size_any_object

lemma packet_sizes:
  "length (connect_app_enc p1) = connect_app_size p1"
  "length (connect_app_res_enc p2) = connect_app_res_size p2"
  "length (call_enc p3) = call_size p3"
  "length (call_res_enc p4) = call_res_size p4"
  "length (create_stream_enc p5) = create_stream_size p5"
  "length (create_stream_res_enc p6) = create_stream_res_size p6"
  "length (fmle_start_enc p7) = fmle_start_size p7"
  "length (fmle_start_res_enc p8) = fmle_start_res_size p8"
  "length (publish_enc p9) = publish_size p9"
  "length (play_enc p10) = play_size p10"
  "length (play_res_enc p11) = play_res_size p11"
  "length (on_bw_done_enc p12) = on_bw_done_size p12"
  "length (on_status_call_enc p13) = on_status_call_size p13"
  "length (bandwidth_enc p14) = bandwidth_size p14"
  "length (on_status_data_enc p15) = on_status_data_size p15"
  "length (sample_access_enc p16) = sample_access_size p16"
  "length (on_metadata_enc p17) = on_metadata_size p17"
  by (simp_all only: connect_app_enc_def connect_app_size_def connect_app_res_enc_def
      connect_app_res_size_def call_enc_def call_size_def call_res_enc_def call_res_size_def
      create_stream_enc_def create_stream_size_def create_stream_res_enc_def
      create_stream_res_size_def fmle_start_enc_def fmle_start_size_def fmle_start_res_enc_def
      fmle_start_res_size_def publish_enc_def publish_size_def play_enc_def play_size_def
      play_res_enc_def play_res_size_def on_bw_done_enc_def on_bw_done_size_def
      on_status_call_enc_def on_status_call_size_def bandwidth_enc_def bandwidth_size_def
      on_status_data_enc_def on_status_data_size_def sample_access_enc_def
      sample_access_size_def on_metadata_enc_def on_metadata_size_def
      if_distrib [of length] list.size(3) add.assoc field_sizes cong: if_cong)

section \<open>What the packets read\<close>

definition connect_app_ok :: "connect_app \<Rightarrow> bool" where
  "connect_app_ok p \<longleftrightarrow> ca_command_name p = RTMP_AMF0_COMMAND_CONNECT
     \<and> amf0_ok (Amf0Object (ca_command_object p))
     \<and> (case ca_args p of None \<Rightarrow> True | Some ps \<Rightarrow> amf0_ok (Amf0Object ps))"

definition connect_app_res_ok :: "connect_app_res \<Rightarrow> bool" where
  "connect_app_res_ok p \<longleftrightarrow> car_command_name p = RTMP_AMF0_COMMAND_RESULT
     \<and> amf0_ok (Amf0Object (car_props p)) \<and> amf0_ok (Amf0Object (car_info p))"

text \<open>A call without a command object cannot be read back: the decoder expects one.\<close>

definition call_ok :: "call_packet \<Rightarrow> bool" where
  "call_ok p \<longleftrightarrow> cp_command_name p \<noteq> '''' \<and> length (cp_command_name p) < 32768
     \<and> (case cp_command_object p of None \<Rightarrow> False | Some v \<Rightarrow> amf0_ok v)
     \<and> (case cp_arguments p of None \<Rightarrow> True | Some v \<Rightarrow> amf0_ok v)"

definition create_stream_ok :: "create_stream \<Rightarrow> bool" where
  "create_stream_ok p \<longleftrightarrow> crs_command_name p = RTMP_AMF0_COMMAND_CREATE_STREAM"

definition create_stream_res_ok :: "create_stream_res \<Rightarrow> bool" where
  "create_stream_res_ok p \<longleftrightarrow> csr_command_name p = RTMP_AMF0_COMMAND_RESULT"

definition fmle_start_ok :: "fmle_start \<Rightarrow> bool" where
  "fmle_start_ok p \<longleftrightarrow> fml_command_name p \<in> {RTMP_AMF0_COMMAND_RELEASE_STREAM,
     RTMP_AMF0_COMMAND_FC_PUBLISH, RTMP_AMF0_COMMAND_UNPUBLISH} \<and> length (fml_stream_name p) < 32768"

definition fmle_start_res_ok :: "fmle_start_res \<Rightarrow> bool" where
  "fmle_start_res_ok p \<longleftrightarrow> fmr_command_name p = RTMP_AMF0_COMMAND_RESULT"

text \<open>An empty type would be read as the default \<^verbatim>\<open>live\<close>.\<close>

definition publish_ok :: "publish \<Rightarrow> bool" where
  "publish_ok p \<longleftrightarrow> pub_command_name p = RTMP_AMF0_COMMAND_PUBLISH
     \<and> length (pub_stream_name p) < 32768 \<and> pub_type p \<noteq> '''' \<and> length (pub_type p) < 32768"

definition play_ok :: "play \<Rightarrow> bool" where
  "play_ok p \<longleftrightarrow> play_command_name p = RTMP_AMF0_COMMAND_PLAY \<and> length (play_stream_name p) < 32768"

text \<open>Data is decoded for three of the commands only.\<close>

definition bandwidth_ok :: "bandwidth \<Rightarrow> bool" where
  "bandwidth_ok p \<longleftrightarrow> bw_command_name p \<noteq> '''' \<and> length (bw_command_name p) < 32768
     \<and> (bw_is_stop_play p \<or> bw_is_start_publish p \<or> bw_is_finish p) \<and> amf0_ok (Amf0Object (bw_data p))"

definition on_metadata_ok :: "on_metadata \<Rightarrow> bool" where
  "on_metadata_ok p \<longleftrightarrow> omd_name p \<noteq> '''' \<and> omd_name p \<noteq> SRS_CONSTS_RTMP_SET_DATAFRAME
     \<and> length (omd_name p) < 32768 \<and> amf0_ok (Amf0Object (omd_metadata p))"

text \<open>The one byte event data of an FMS event is sign extended; extra data may be absent.\<close>

definition user_control_ok :: "user_control \<Rightarrow> bool" where
  "user_control_ok p \<longleftrightarrow>
     (uc_event_type p = SrsPCUCFmsEvent0 \<longrightarrow> scast (ucast (uc_event_data p) :: byte) = uc_event_data p)
     \<and> (uc_event_type p \<noteq> SrcPCUCSetBufferLength \<longrightarrow> uc_extra_data p = 0)"


lemmas reads_all_marker_end = reads_all_marker [where bs = "[]", simplified append_Nil2]

lemmas reads_field = reads_all_bind [OF reads_string_default] reads_all_check_name
  reads_all_bind [OF reads_number] reads_all_bind [OF reads_boolean] reads_all_marker
  reads_all_marker_end reads_all_bind [OF reads_amf0_object] reads_all_return

lemmas reads_last = reads_all_bind_end [OF reads_all_reads, OF reads_string_default]
  reads_all_bind_end [OF reads_all_reads, OF reads_number]
  reads_all_bind_end [OF reads_all_reads, OF reads_amf0_object]
  reads_all_bind_end [OF reads_all_reads, OF reads_srs_amf0_read_any]

lemma reads_create_stream:
  assumes "create_stream_ok p"
  shows "reads_all (create_stream_decode create_stream_new) p (create_stream_enc p)"
  using assms unfolding create_stream_decode_def [abs_def] create_stream_enc_def
  by (cases p) (rule reads_field | simp add: create_stream_ok_def create_stream_new_def; fail)+

lemma reads_create_stream_res:
  assumes "create_stream_res_ok p"
  shows "reads_all (create_stream_res_decode (create_stream_res_new t u)) p (create_stream_res_enc p)"
  using assms unfolding create_stream_res_decode_def [abs_def] create_stream_res_enc_def
  by (cases p) (rule reads_field reads_last
    | simp add: create_stream_res_ok_def create_stream_res_new_def; fail)+

lemma reads_fmle_start:
  assumes "fmle_start_ok p"
  shows "reads_all (fmle_start_decode fmle_start_new) p (fmle_start_enc p)"
  using assms unfolding fmle_start_decode_def [abs_def] fmle_start_enc_def
  by (cases p) (rule reads_field reads_last
    | (auto simp: fmle_start_ok_def fmle_start_new_def; fail))+

lemma reads_fmle_start_res:
  assumes "fmle_start_res_ok p"
  shows "reads_all (fmle_start_res_decode (fmle_start_res_new t)) p (fmle_start_res_enc p)"
  using assms unfolding fmle_start_res_decode_def [abs_def] fmle_start_res_enc_def
  by (cases p) (rule reads_field reads_last
    | simp add: fmle_start_res_ok_def fmle_start_res_new_def; fail)+

lemma reads_publish:
  assumes "publish_ok p"
  shows "reads_all (publish_decode publish_new) p (publish_enc p)"
  using assms unfolding publish_decode_def [abs_def] publish_enc_def
  by (cases p) (rule reads_field reads_last
      reads_all_bind_end [OF reads_all_more [OF _ reads_all_reads [OF reads_string_default]]]
    | simp add: publish_ok_def publish_new_def; fail)+

text \<open>An optional value at the end of a packet.\<close>

lemma reads_all_optional:
  assumes "\<And>any. v = Some any \<Longrightarrow> amf0_ok any \<and> f any = w" and "v = None \<Longrightarrow> d = w"
  shows "reads_all (\<lambda>s. if \<not> buf_empty s
      then bindR (srs_amf0_read_any s) (\<lambda>(any, s). Inr (f any, s)) else Inr (d, s)) w (opt_enc v)"
proof (cases v)
  case None
  then show ?thesis
    using assms(2) by (simp add: opt_enc_def reads_all_def buf_empty_upcoming)
next
  case (Some any)
  then have "reads_all (\<lambda>s. bindR (srs_amf0_read_any s) (\<lambda>(any, s). Inr (f any, s))) w (amf0_enc any)"
    using assms(1) by (intro reads_last reads_all_return) auto
  from reads_all_more [OF amf0_enc_ne this] show ?thesis
    by (simp add: Some opt_enc_def)
qed

lemma reads_connect_app:
  assumes "connect_app_ok p"
  shows "reads_all (connect_app_decode connect_app_new) p (connect_app_enc p)"
  using assms unfolding connect_app_decode_def [abs_def] connect_app_enc_def Let_def
  by (cases p) (rule reads_field reads_all_optional
    | simp add: connect_app_ok_def connect_app_new_def; fail
    | (auto simp: connect_app_ok_def connect_app_new_def split: option.splits; fail))+

lemma reads_connect_app_res:
  assumes "connect_app_res_ok p"
  shows "reads_all (connect_app_res_decode connect_app_res_new) p (connect_app_res_enc p)"
proof -
  have "reads (\<lambda>s. if \<not> buf_empty s
      then bindR (srs_amf0_read_any s) (\<lambda>(any, s).
             Inr (case any of Amf0Object ps \<Rightarrow> ps | _ \<Rightarrow> car_props connect_app_res_new, s))
      else Inr (car_props connect_app_res_new, s)) ps (obj_enc ps)"
    if "amf0_ok (Amf0Object ps)" for ps
    using reads_map [OF reads_srs_amf0_read_any [OF that], where g = "\<lambda>any.
        case any of Amf0Object ps \<Rightarrow> ps | _ \<Rightarrow> car_props connect_app_res_new"]
    by (intro reads_more amf0_enc_ne) (simp del: amf0_enc.simps)
  note props = reads_all_bind [OF this]
  from assms show ?thesis
    unfolding connect_app_res_decode_def [abs_def] connect_app_res_enc_def
    by (cases p) (rule reads_field props reads_last
      | simp add: connect_app_res_ok_def connect_app_res_new_def; fail)+
qed

lemma reads_call:
  assumes "call_ok p"
  shows "reads_all (call_decode call_new) p (call_enc p)"
proof (cases "cp_command_object p")
  case None
  with assms show ?thesis by (simp add: call_ok_def)
next
  case (Some obj)
  have e: "opt_enc (cp_command_object p) = amf0_enc obj" by (simp add: Some opt_enc_def)
  from assms show ?thesis
    unfolding call_decode_def [abs_def] call_enc_def e Let_def
    by (cases p) (rule reads_field reads_all_bind [OF reads_srs_amf0_read_any] reads_all_optional
      reads_all_check
      | insert Some, simp add: call_ok_def call_new_def split: option.splits; fail)+
qed


lemma reads_bandwidth:
  assumes "bandwidth_ok p"
  shows "reads_all (bandwidth_decode bandwidth_new) p (bandwidth_enc p)"
proof -
  have c: "bw_is_stop_play (bandwidth_new\<lparr>bw_command_name := bw_command_name p, bw_transaction_id := t\<rparr>)
      \<or> bw_is_start_publish (bandwidth_new\<lparr>bw_command_name := bw_command_name p, bw_transaction_id := t\<rparr>)
      \<or> bw_is_finish (bandwidth_new\<lparr>bw_command_name := bw_command_name p, bw_transaction_id := t\<rparr>)" for t
    using assms by (auto simp: bandwidth_ok_def bw_is_stop_play_def bw_is_start_publish_def bw_is_finish_def)
  have data: "reads_all (\<lambda>s. if bw_is_stop_play q \<or> bw_is_start_publish q \<or> bw_is_finish q
      then bindR (amf0_object_read (bw_data q) s) (\<lambda>(ps, s). Inr (q\<lparr>bw_data := ps\<rparr>, s))
      else Inr (q, s)) p (obj_enc (bw_data p))"
    if "q = bandwidth_new\<lparr>bw_command_name := bw_command_name p, bw_transaction_id := bw_transaction_id p\<rparr>" for q
    unfolding that if_P [OF c] using assms
    by (cases p) (rule reads_last reads_all_return | simp add: bandwidth_ok_def bandwidth_new_def; fail)+
  show ?thesis
    unfolding bandwidth_decode_def [abs_def] bandwidth_enc_def Let_def
    by (rule reads_field data refl | use assms in \<open>simp add: bandwidth_ok_def bandwidth_new_def; fail\<close>)+
qed

lemma reads_on_metadata:
  assumes "on_metadata_ok p"
  shows "reads_all (on_metadata_decode on_metadata_new) p (on_metadata_enc p)"
proof -
  have "reads (\<lambda>s. if omd_name p = SRS_CONSTS_RTMP_SET_DATAFRAME
      then srs_amf0_read_string (omd_name p) s else Inr (omd_name p, s)) (omd_name p) []"
    using assms reads_return by (simp add: on_metadata_ok_def)
  note frame = reads_all_bind [OF this, unfolded append_Nil]
  from assms show ?thesis
    unfolding on_metadata_decode_def [abs_def] on_metadata_enc_def
    by (cases p) (rule reads_field frame reads_last
      | simp add: on_metadata_ok_def on_metadata_new_def; fail)+
qed

text \<open>The defaults of \<^verbatim>\<open>play\<close> are found again from their absence.\<close>

lemma dbl_bits:
  assumes "dbl_magnitude a = dbl_magnitude b" and "bit a 63 = bit b 63"
  shows "a = (b :: double)"
proof (rule bit_word_eqI)
  fix i assume i: "i < LENGTH(64)"
  have m: "bit (0x7FFFFFFFFFFFFFFF :: double) i \<longleftrightarrow> i < 63"
  proof -
    have eq: "(0x7FFFFFFFFFFFFFFF :: double) = mask 63" by (simp add: mask_eq_exp_minus_1)
    show ?thesis unfolding eq bit_mask_iff by auto
  qed
  show "bit a i = bit b i"
  proof (cases "i = 63")
    case False
    with i have "i < 63" by simp
    from assms(1) have "bit (dbl_magnitude a) i = bit (dbl_magnitude b) i" by simp
    then show ?thesis
      unfolding dbl_magnitude_def bit_and_iff m using \<open>i < 63\<close> by simp
  qed (use assms(2) in simp)
qed

lemma dbl_eq_imp:
  assumes "dbl_eq a b" and "bit b 63" and "dbl_magnitude b \<noteq> 0"
  shows "a = b"
proof (rule dbl_bits)
  from assms(3) have b: "0 < uint (dbl_magnitude b)"
    by (metis uint_0_iff uint_nonnegative order_le_less)
  from assms(1,2) have k: "dbl_key a = - uint (dbl_magnitude b)"
    by (simp add: dbl_eq_def dbl_key_def)
  show s: "bit a 63 = bit b 63"
  proof (rule ccontr)
    assume "bit a 63 \<noteq> bit b 63"
    with assms(2) k have "uint (dbl_magnitude a) = - uint (dbl_magnitude b)"
      by (simp add: dbl_key_def)
    with b uint_nonnegative [of "dbl_magnitude a"] show False by linarith
  qed
  with assms(2) k show "dbl_magnitude a = dbl_magnitude b"
    by (simp add: dbl_key_def word_uint_eq_iff)
qed

lemma play_defaults:
  "\<not> play_has_start p \<Longrightarrow> play_start p = dbl_minus_2 \<and> play_duration p = dbl_minus_1 \<and> play_reset p"
  "\<not> play_has_duration p \<Longrightarrow> play_duration p = dbl_minus_1 \<and> play_reset p"
proof -
  have "dbl_eq a dbl_minus_2 \<Longrightarrow> a = dbl_minus_2" and "dbl_eq a dbl_minus_1 \<Longrightarrow> a = dbl_minus_1" for a
    by (rule dbl_eq_imp, simp_all add: dbl_minus_2_def dbl_minus_1_def dbl_magnitude_def)+
  then show
    "\<not> play_has_start p \<Longrightarrow> play_start p = dbl_minus_2 \<and> play_duration p = dbl_minus_1 \<and> play_reset p"
    "\<not> play_has_duration p \<Longrightarrow> play_duration p = dbl_minus_1 \<and> play_reset p"
    by (auto simp: play_has_start_def play_has_duration_def)
qed

lemma reads_play:
  assumes "play_ok p"
  shows "reads_all (play_decode play_new) p (play_enc p)"
proof -
  have "reads_all (\<lambda>s. bindR (srs_amf0_read_any s) (\<lambda>(any, s). Inr (b, s))) b (bool_enc b)" for b
    by (rule reads_last, simp, rule reads_all_return, simp)
  then have "reads_all play_read_reset b (bool_enc b)" for b
    using reads_all_reads [OF reads_srs_amf0_read_any [of "Amf0Boolean b"]]
    by (auto simp: reads_all_def play_read_reset_def)
  note reset = reads_all_bind_end [OF reads_all_more [OF amf0_enc_ne this]]
  note more = reads_all_bind [OF reads_more [OF amf0_enc_ne reads_number]]
  have no_more: "reads_all (\<lambda>s. bindR (if \<not> buf_empty s then r s else Inr (v, s)) (\<lambda>(x, s). f x s)) w []"
    if "reads_all (f v) w []" for r v w and f :: "'b \<Rightarrow> sbuf \<Rightarrow> ('c \<times> sbuf) res"
    using that by (auto simp: reads_all_def buf_empty_upcoming)
  have tail: "reads_all (\<lambda>s. bindR (if \<not> buf_empty s then srs_amf0_read_number s else Inr (dbl_minus_2, s))
     (\<lambda>(start, s). bindR (if \<not> buf_empty s then srs_amf0_read_number s else Inr (dbl_minus_1, s))
     (\<lambda>(duration, s). bindR (if \<not> buf_empty s then play_read_reset s else Inr (True, s))
     (\<lambda>(reset, s). Inr (\<lparr>play_command_name = play_command_name p,
        play_transaction_id = play_transaction_id p,
        play_stream_name = play_stream_name p, play_start = start, play_duration = duration,
        play_reset = reset\<rparr>, s))))) p
     ((if play_has_start p then num_enc (play_start p) else [])
     @ (if play_has_duration p then num_enc (play_duration p) else [])
     @ (if \<not> play_reset p then bool_enc (play_reset p) else []))"
  proof (cases "play_has_duration p")
    case False
    from play_defaults(2) [OF False] play_defaults(1) [of p] show ?thesis
      unfolding if_not_P [OF False]
      by (cases "play_has_start p"; cases p; simp only: if_True if_False not_True_eq_False append_Nil)
        (rule more no_more reads_all_return | simp; fail)+
  next
    case True
    then have s: "play_has_start p" by (simp add: play_has_start_def)
    show ?thesis
      unfolding if_P [OF True] if_P [OF s]
      by (cases "play_reset p"; cases p; simp only: if_True if_False not_True_eq_False not_False_eq_True)
        (rule more no_more reset reads_all_return | simp; fail)+
  qed
  have new: "play_start play_new = dbl_minus_2" "play_duration play_new = dbl_minus_1"
      "play_reset play_new = True"
    by (simp_all add: play_new_def)
  from assms show ?thesis
    unfolding play_decode_def [abs_def] play_enc_def new
    by - (rule reads_field tail | simp add: play_ok_def play_new_def; fail)+
qed


lemma reads_all_need4:
  "g w = v \<Longrightarrow> reads_all (\<lambda>s. bindR (need 4 e s) (\<lambda>_. bindR (read_4bytes s) (\<lambda>(x, s). Inr (g x, s)))) v (be 4 w)"
  using reads_all_reads [OF reads_map [OF reads_need(3) [of e w], where g = g]] by (simp add: bindR_assoc)

lemma reads_control:
  "reads_all (set_window_ack_size_decode q1) p1 (be 4 (sw_ackowledgement_window_size p1))"
  "reads_all (acknowledgement_decode q2) p2 (be 4 (ack_sequence_number p2))"
  "reads_all (set_chunk_size_decode q3) p3 (be 4 (scs_chunk_size p3))"
  unfolding set_window_ack_size_decode_def [abs_def] acknowledgement_decode_def [abs_def]
    set_chunk_size_decode_def [abs_def]
  by (rule reads_all_need4, simp)+

lemma reads_all_need_bind:
  assumes "reads (\<lambda>s. bindR (a s) (\<lambda>_. r1 s)) v1 b1" and "reads_all (r2 v1) v2 b2"
  shows "reads_all (\<lambda>s. bindR (a s) (\<lambda>_. bindR (r1 s) (\<lambda>(x, s). r2 x s))) v2 (b1 @ b2)"
  using reads_all_bind [of "\<lambda>s. bindR (a s) (\<lambda>_. r1 s)" v1 b1 r2 v2 b2, OF assms]
  by (simp add: bindR_assoc)

lemma reads_if:
  "(c \<Longrightarrow> reads r1 v b1) \<Longrightarrow> (\<not> c \<Longrightarrow> reads r2 v b2) \<Longrightarrow>
   reads (\<lambda>s. if c then r1 s else r2 s) v (if c then b1 else b2)"
  by simp

lemma reads_user_control:
  assumes "user_control_ok p"
  shows "reads_all (user_control_decode user_control_new) p (user_control_enc p)"
proof -
  have e: "reads (\<lambda>s. if uc_event_type p = SrsPCUCFmsEvent0
      then bindR (need 1 ERROR_RTMP_MESSAGE_DECODE s)
             (\<lambda>_. bindR (read_1bytes s) (\<lambda>(b, s). Inr (scast b, s)))
      else bindR (need 4 ERROR_RTMP_MESSAGE_DECODE s) (\<lambda>_. read_4bytes s))
      (uc_event_data p)
      (if uc_event_type p = SrsPCUCFmsEvent0 then be 1 (ucast (uc_event_data p) :: byte)
       else be 4 (uc_event_data p))"
  proof (rule reads_if [OF _ reads_need(3)])
    assume "uc_event_type p = SrsPCUCFmsEvent0"
    with assms have "scast (ucast (uc_event_data p) :: byte) = uc_event_data p"
      by (simp add: user_control_ok_def)
    then show "reads (\<lambda>s. bindR (need 1 ERROR_RTMP_MESSAGE_DECODE s)
       (\<lambda>_. bindR (read_1bytes s) (\<lambda>(b, s). Inr (scast b, s)))) (uc_event_data p)
       (be 1 (ucast (uc_event_data p) :: byte))"
      using reads_map [OF reads_need(1) [of ERROR_RTMP_MESSAGE_DECODE "ucast (uc_event_data p)"], where g = "scast :: byte \<Rightarrow> 32 word"]
      by (simp add: bindR_assoc)
  qed
  have x: "reads (\<lambda>s. if uc_event_type p = SrcPCUCSetBufferLength
      then bindR (need 4 ERROR_RTMP_MESSAGE_ENCODE s) (\<lambda>_. read_4bytes s)
      else Inr (uc_extra_data user_control_new, s)) (uc_extra_data p)
      (if uc_event_type p = SrcPCUCSetBufferLength then be 4 (uc_extra_data p) else [])"
    by (rule reads_if [OF reads_need(3)])
      (use assms reads_return in \<open>simp add: user_control_ok_def user_control_new_def\<close>)
  show ?thesis
    unfolding user_control_decode_def [abs_def] user_control_enc_def
    by (rule reads_all_need_bind [OF reads_need(2)], rule reads_all_bind [OF e],
        rule reads_all_bind_end [OF reads_all_reads [OF x]], rule reads_all_return) simp
qed

section \<open>The interface of a packet class\<close>

text \<open>
  What \<^verbatim>\<open>SrsPacket::encode\<close> relies on: \<^verbatim>\<open>encode_packet\<close> puts exactly the bytes of the
  packet where they fit, and \<^verbatim>\<open>get_size\<close> announces their number.
\<close>

locale packet_writer =
  fixes encode :: "'p \<Rightarrow> sbuf \<Rightarrow> sbuf res"
    and size_of :: "'p \<Rightarrow> nat"
    and enc :: "'p \<Rightarrow> byte list"
    and err :: srs_error
  assumes encode_writes: "writes err (encode p) (enc p)"
    and enc_size: "length (enc p) = size_of p"
begin

lemma encode_new_buffer:
  assumes "length bs = size_of p" and "0 < size_of p"
  shows "bindR (buf_initialize (Some bs)) (encode p) = Inr \<lparr>sb_null = False, sb_bytes = enc p, sb_pos = size_of p\<rparr>"
  using assms writesD [OF encode_writes]
  by (auto simp: buf_initialize_def fits_def room_def enc_size put_def)

text \<open>In a smaller buffer nothing is written and the error is the encoding error.\<close>

lemma encode_no_room:
  "0 < size_of p \<Longrightarrow> \<not> room (size_of p) s \<Longrightarrow> encode p s = Inl err"
  using writesD [OF encode_writes, of p s] enc_size [of p] by (auto simp: fits_def)

end

text \<open>A class that is also decoded, into a new object \<open>blank\<close>.\<close>

locale packet_codec = packet_writer encode size_of enc err
  for encode :: "'p \<Rightarrow> sbuf \<Rightarrow> sbuf res" and size_of enc err +
  fixes decode :: "'p \<Rightarrow> sbuf \<Rightarrow> ('p \<times> sbuf) res"
    and blank :: 'p
    and ok :: "'p \<Rightarrow> bool"
  assumes decode_reads: "ok p \<Longrightarrow> reads_all (decode blank) p (enc p)"
begin

lemma decode_encoded:
  assumes "ok p" and "0 < size_of p" and "length bs = size_of p"
    and "bindR (buf_initialize (Some bs)) (encode p) = Inr s"
  shows "bindR (buf_initialize (Some (sb_bytes s))) (decode blank) = Inr (p, s)"
proof -
  have s: "s = \<lparr>sb_null = False, sb_bytes = enc p, sb_pos = size_of p\<rparr>"
    using assms(4) encode_new_buffer [OF assms(3,2)] by simp
  have "decode blank \<lparr>sb_null = False, sb_bytes = enc p, sb_pos = 0\<rparr> = Inr (p, s)"
    using reads_allD [OF decode_reads [OF assms(1)], of "\<lparr>sb_null = False, sb_bytes = enc p, sb_pos = 0\<rparr>"]
    by (simp add: upcoming_def adv_def s enc_size)
  with assms(2) show ?thesis
    by (auto simp: s buf_initialize_def enc_size [symmetric])
qed

end


section \<open>The classes provide the interface\<close>

interpretation conn: packet_codec connect_app_encode connect_app_size connect_app_enc
    ERROR_RTMP_AMF0_ENCODE connect_app_decode connect_app_new connect_app_ok
  by unfold_locales (rule writes_packets packet_sizes | erule reads_connect_app)+

interpretation conn_res: packet_codec connect_app_res_encode connect_app_res_size
    connect_app_res_enc ERROR_RTMP_AMF0_ENCODE connect_app_res_decode connect_app_res_new
    connect_app_res_ok
  by unfold_locales (rule writes_packets packet_sizes | erule reads_connect_app_res)+

interpretation calls: packet_codec call_encode call_size call_enc ERROR_RTMP_AMF0_ENCODE
    call_decode call_new call_ok
  by unfold_locales (rule writes_packets packet_sizes | erule reads_call)+

interpretation call_results: packet_writer call_res_encode call_res_size call_res_enc ERROR_RTMP_AMF0_ENCODE
  by unfold_locales (rule writes_packets packet_sizes)+

interpretation create: packet_codec create_stream_encode create_stream_size create_stream_enc
    ERROR_RTMP_AMF0_ENCODE create_stream_decode create_stream_new create_stream_ok
  by unfold_locales (rule writes_packets packet_sizes | erule reads_create_stream)+

interpretation create_res: packet_codec create_stream_res_encode create_stream_res_size
    create_stream_res_enc ERROR_RTMP_AMF0_ENCODE create_stream_res_decode
    "create_stream_res_new dbl_0 dbl_0" create_stream_res_ok
  by unfold_locales (rule writes_packets packet_sizes | erule reads_create_stream_res)+

interpretation fmle: packet_codec fmle_start_encode fmle_start_size fmle_start_enc
    ERROR_RTMP_AMF0_ENCODE fmle_start_decode fmle_start_new fmle_start_ok
  by unfold_locales (rule writes_packets packet_sizes | erule reads_fmle_start)+

interpretation fmle_res: packet_codec fmle_start_res_encode fmle_start_res_size
    fmle_start_res_enc ERROR_RTMP_AMF0_ENCODE fmle_start_res_decode "fmle_start_res_new dbl_0"
    fmle_start_res_ok
  by unfold_locales (rule writes_packets packet_sizes | erule reads_fmle_start_res)+

interpretation publ: packet_codec publish_encode publish_size publish_enc
    ERROR_RTMP_AMF0_ENCODE publish_decode publish_new publish_ok
  by unfold_locales (rule writes_packets packet_sizes | erule reads_publish)+

interpretation plays: packet_codec play_encode play_size play_enc ERROR_RTMP_AMF0_ENCODE
    play_decode play_new play_ok
  by unfold_locales (rule writes_packets packet_sizes | erule reads_play)+

interpretation play_results: packet_writer play_res_encode play_res_size play_res_enc ERROR_RTMP_AMF0_ENCODE
  by unfold_locales (rule writes_packets packet_sizes)+

interpretation bw_done: packet_writer on_bw_done_encode on_bw_done_size on_bw_done_enc ERROR_RTMP_AMF0_ENCODE
  by unfold_locales (rule writes_packets packet_sizes)+

interpretation status_call: packet_writer on_status_call_encode on_status_call_size
    on_status_call_enc ERROR_RTMP_AMF0_ENCODE
  by unfold_locales (rule writes_packets packet_sizes)+

interpretation bw: packet_codec bandwidth_encode bandwidth_size bandwidth_enc
    ERROR_RTMP_AMF0_ENCODE bandwidth_decode bandwidth_new bandwidth_ok
  by unfold_locales (rule writes_packets packet_sizes | erule reads_bandwidth)+

interpretation status_data: packet_writer on_status_data_encode on_status_data_size
    on_status_data_enc ERROR_RTMP_AMF0_ENCODE
  by unfold_locales (rule writes_packets packet_sizes)+

interpretation sample: packet_writer sample_access_encode sample_access_size
    sample_access_enc ERROR_RTMP_AMF0_ENCODE
  by unfold_locales (rule writes_packets packet_sizes)+

interpretation metadata: packet_codec on_metadata_encode on_metadata_size on_metadata_enc
    ERROR_RTMP_AMF0_ENCODE on_metadata_decode on_metadata_new on_metadata_ok
  by unfold_locales (rule writes_packets packet_sizes | erule reads_on_metadata)+

interpretation window: packet_codec set_window_ack_size_encode set_window_ack_size_size
    "\<lambda>p. be 4 (sw_ackowledgement_window_size p)" ERROR_RTMP_MESSAGE_ENCODE
    set_window_ack_size_decode "\<lparr>sw_ackowledgement_window_size = 0\<rparr>" "\<lambda>_. True"
  by unfold_locales (simp_all add: writes_controls reads_control set_window_ack_size_size_def)

interpretation acks: packet_codec acknowledgement_encode acknowledgement_size
    "\<lambda>p. be 4 (ack_sequence_number p)" ERROR_RTMP_MESSAGE_ENCODE
    acknowledgement_decode "\<lparr>ack_sequence_number = 0\<rparr>" "\<lambda>_. True"
  by unfold_locales (simp_all add: writes_controls reads_control acknowledgement_size_def)

interpretation chunk_size: packet_codec set_chunk_size_encode set_chunk_size_size
    "\<lambda>p. be 4 (scs_chunk_size p)" ERROR_RTMP_MESSAGE_ENCODE
    set_chunk_size_decode "\<lparr>scs_chunk_size = SRS_CONSTS_RTMP_PROTOCOL_CHUNK_SIZE\<rparr>" "\<lambda>_. True"
  by unfold_locales (simp_all add: writes_controls reads_control set_chunk_size_size_def)

interpretation peer: packet_writer set_peer_bandwidth_encode set_peer_bandwidth_size
    "\<lambda>p. be 4 (spb_bandwidth p) @ be 1 (spb_type p)" ERROR_RTMP_MESSAGE_ENCODE
  by unfold_locales (simp_all only: writes_set_peer_bandwidth, simp add: set_peer_bandwidth_size_def)

interpretation control: packet_codec user_control_encode user_control_size user_control_enc
    ERROR_RTMP_MESSAGE_ENCODE user_control_decode user_control_new user_control_ok
  by unfold_locales (rule writes_user_control length_user_control_enc | erule reads_user_control)+

section \<open>All packets\<close>

fun packet_enc :: "packet \<Rightarrow> byte list" where
  "packet_enc BasePacket = []"
| "packet_enc (ConnectApp p) = connect_app_enc p"
| "packet_enc (ConnectAppRes p) = connect_app_res_enc p"
| "packet_enc (Call p) = call_enc p"
| "packet_enc (CallRes p) = call_res_enc p"
| "packet_enc (CreateStream p) = create_stream_enc p"
| "packet_enc (CreateStreamRes p) = create_stream_res_enc p"
| "packet_enc (CloseStream _) = []"
| "packet_enc (FMLEStart p) = fmle_start_enc p"
| "packet_enc (FMLEStartRes p) = fmle_start_res_enc p"
| "packet_enc (Publish p) = publish_enc p"
| "packet_enc (Pause _) = []"
| "packet_enc (Play p) = play_enc p"
| "packet_enc (PlayRes p) = play_res_enc p"
| "packet_enc (OnBWDone p) = on_bw_done_enc p"
| "packet_enc (OnStatusCall p) = on_status_call_enc p"
| "packet_enc (Bandwidth p) = bandwidth_enc p"
| "packet_enc (OnStatusData p) = on_status_data_enc p"
| "packet_enc (SampleAccess p) = sample_access_enc p"
| "packet_enc (OnMetaData p) = on_metadata_enc p"
| "packet_enc (SetWindowAckSize p) = be 4 (sw_ackowledgement_window_size p)"
| "packet_enc (Acknowledgement p) = be 4 (ack_sequence_number p)"
| "packet_enc (SetChunkSize p) = be 4 (scs_chunk_size p)"
| "packet_enc (SetPeerBandwidth p) = be 4 (spb_bandwidth p) @ be 1 (spb_type p)"
| "packet_enc (UserControl p) = user_control_enc p"

text \<open>The classes that override \<^verbatim>\<open>encode_packet\<close>.\<close>

fun encodable :: "packet \<Rightarrow> bool" where
  "encodable BasePacket = False"
| "encodable (CloseStream _) = False"
| "encodable (Pause _) = False"
| "encodable _ = True"

text \<open>The object that the protocol creates to decode a packet of the same class.\<close>

fun packet_blank :: "packet \<Rightarrow> packet" where
  "packet_blank (ConnectApp _) = ConnectApp connect_app_new"
| "packet_blank (ConnectAppRes _) = ConnectAppRes connect_app_res_new"
| "packet_blank (Call _) = Call call_new"
| "packet_blank (CreateStream _) = CreateStream create_stream_new"
| "packet_blank (CreateStreamRes _) = CreateStreamRes (create_stream_res_new dbl_0 dbl_0)"
| "packet_blank (FMLEStart _) = FMLEStart fmle_start_new"
| "packet_blank (FMLEStartRes _) = FMLEStartRes (fmle_start_res_new dbl_0)"
| "packet_blank (Publish _) = Publish publish_new"
| "packet_blank (Play _) = Play play_new"
| "packet_blank (Bandwidth _) = Bandwidth bandwidth_new"
| "packet_blank (OnMetaData _) = OnMetaData on_metadata_new"
| "packet_blank (SetWindowAckSize _) = SetWindowAckSize \<lparr>sw_ackowledgement_window_size = 0\<rparr>"
| "packet_blank (Acknowledgement _) = Acknowledgement \<lparr>ack_sequence_number = 0\<rparr>"
| "packet_blank (SetChunkSize _) = SetChunkSize \<lparr>scs_chunk_size = SRS_CONSTS_RTMP_PROTOCOL_CHUNK_SIZE\<rparr>"
| "packet_blank (UserControl _) = UserControl user_control_new"
| "packet_blank p = p"

text \<open>The packets that survive the trip over the wire.\<close>

fun packet_ok :: "packet \<Rightarrow> bool" where
  "packet_ok (ConnectApp p) = connect_app_ok p"
| "packet_ok (ConnectAppRes p) = connect_app_res_ok p"
| "packet_ok (Call p) = call_ok p"
| "packet_ok (CreateStream p) = create_stream_ok p"
| "packet_ok (CreateStreamRes p) = create_stream_res_ok p"
| "packet_ok (FMLEStart p) = fmle_start_ok p"
| "packet_ok (FMLEStartRes p) = fmle_start_res_ok p"
| "packet_ok (Publish p) = publish_ok p"
| "packet_ok (Play p) = play_ok p"
| "packet_ok (Bandwidth p) = bandwidth_ok p"
| "packet_ok (OnMetaData p) = on_metadata_ok p"
| "packet_ok (SetWindowAckSize p) = True"
| "packet_ok (Acknowledgement p) = True"
| "packet_ok (SetChunkSize p) = True"
| "packet_ok (UserControl p) = user_control_ok p"
| "packet_ok _ = False"

lemma length_packet_enc: "length (packet_enc p) = get_size p"
  by (cases p) (simp_all only: packet_enc.simps get_size.simps list.size packet_sizes
      window.enc_size acks.enc_size chunk_size.enc_size peer.enc_size control.enc_size)

lemma writes_encode_packet:
  "encodable p \<Longrightarrow> \<exists>e. writes e (encode_packet p) (packet_enc p)"
  by (cases p) (simp_all only: encodable.simps encode_packet.simps packet_enc.simps simp_thms,
      (rule exI, rule writes_packets writes_controls writes_set_peer_bandwidth writes_user_control)+)

lemma get_size_pos: "encodable p \<Longrightarrow> 0 < get_size p"
  by (cases p) (simp_all add: connect_app_size_def connect_app_res_size_def call_size_def
      call_res_size_def create_stream_size_def create_stream_res_size_def fmle_start_size_def
      fmle_start_res_size_def publish_size_def play_size_def play_res_size_def on_bw_done_size_def
      on_status_call_size_def bandwidth_size_def on_status_data_size_def sample_access_size_def
      on_metadata_size_def set_window_ack_size_size_def acknowledgement_size_def
      set_chunk_size_size_def set_peer_bandwidth_size_def user_control_size_def size_str_def)


lemma packet_encode_eq:
  "packet_encode junk p = (if encodable p then Inr (get_size p, Some (packet_enc p))
     else Inl ERROR_SYSTEM_PACKET_INVALID)"
proof (cases "encodable p")
  case False
  then show ?thesis by (cases p) (simp_all add: packet_encode_def)
next
  case True
  from writes_encode_packet [OF this] obtain e where w: "writes e (encode_packet p) (packet_enc p)"
    by blast
  have "packet_writer (\<lambda>_. encode_packet p) (\<lambda>_. get_size p) (\<lambda>_. packet_enc p) e"
    by unfold_locales (simp_all add: w length_packet_enc)
  then have "bindR (buf_initialize (Some bs)) (encode_packet p)
      = Inr \<lparr>sb_null = False, sb_bytes = packet_enc p, sb_pos = get_size p\<rparr>"
    if "length bs = get_size p" for bs
    by (rule packet_writer.encode_new_buffer) (use that get_size_pos [OF True] in simp_all)
  from this [of "map junk [0..<get_size p]"] True get_size_pos [OF True] show ?thesis
    by (simp add: packet_encode_def Let_def bindR_assoc [symmetric])
qed

text \<open>The virtual \<^verbatim>\<open>decode\<close> is that of the class.\<close>

lemma reads_decoded:
  assumes "\<And>s. f s = decoded c (d s)" and "reads_all d p bs"
  shows "reads_all f (c p) bs"
  using assms by (simp add: reads_all_def decoded_def)

lemma reads_packet_decode:
  "packet_ok p \<Longrightarrow> reads_all (packet_decode (packet_blank p)) p (packet_enc p)"
  by (cases p; simp only: packet_ok.simps packet_blank.simps packet_enc.simps simp_thms)
    (rule reads_decoded [OF packet_decode.simps(1) reads_connect_app]
      reads_decoded [OF packet_decode.simps(2) reads_connect_app_res]
      reads_decoded [OF packet_decode.simps(3) reads_call]
      reads_decoded [OF packet_decode.simps(4) reads_create_stream]
      reads_decoded [OF packet_decode.simps(5) reads_create_stream_res]
      reads_decoded [OF packet_decode.simps(7) reads_fmle_start]
      reads_decoded [OF packet_decode.simps(8) reads_fmle_start_res]
      reads_decoded [OF packet_decode.simps(9) reads_publish]
      reads_decoded [OF packet_decode.simps(11) reads_play]
      reads_decoded [OF packet_decode.simps(12) reads_bandwidth]
      reads_decoded [OF packet_decode.simps(13) reads_on_metadata]
      reads_decoded [OF packet_decode.simps(14) reads_control(1)]
      reads_decoded [OF packet_decode.simps(15) reads_control(2)]
      reads_decoded [OF packet_decode.simps(16) reads_control(3)]
      reads_decoded [OF packet_decode.simps(17) reads_user_control] | assumption)+

section \<open>Properties\<close>

text \<open>Encoding a packet allocates exactly as many bytes as it then writes: for every
  class that has an encoder, \<^verbatim>\<open>encode\<close> succeeds, \<^verbatim>\<open>get_size\<close> is the number of bytes
  written, every byte of the new memory is overwritten (the result does not depend on what
  the memory held); the other classes answer with the error of the base class.\<close>

theorem packet_encode_exact:
  "packet_encode junk p = (if encodable p then Inr (get_size p, Some (packet_enc p))
     else Inl ERROR_SYSTEM_PACKET_INVALID) \<and> length (packet_enc p) = get_size p"
  by (simp add: packet_encode_eq length_packet_enc)

text \<open>C9: A packet that can be read back survives the wire: what \<^verbatim>\<open>encode\<close> produces for it is read by
  \<^verbatim>\<open>decode\<close> of a new object of its class as the same packet, to the last byte, with any choice of its
  optional fields: \<^verbatim>\<open>play\<close> leaves out start, duration and reset as far as they are
  the defaults, and they are found again. The packets are those of \<^const>\<open>packet_ok\<close>: of a class that decodes,
  with the command name of the class, strings of less than 32768 characters and AMF0 values that the format can carry
  (\<^const>\<open>amf0_ok\<close>); a call has a name and a command object, \<^verbatim>\<open>publish\<close> a type, the bandwidth test one of the three commands whose data is
  decoded, metadata a name other than \<^verbatim>\<open>@setDataFrame\<close>, an FMS event data of one signed byte, and only the buffer length extra data. The others are
  read back differently or not at all.\<close>

theorem packet_roundtrip:
  assumes "packet_ok p"
  shows "\<exists>bs s. packet_encode junk p = Inr (length bs, Some bs)
    \<and> buf_initialize (Some bs) = Inr s
    \<and> packet_decode (packet_blank p) s = Inr (p, adv (length bs) s)"
proof (intro exI conjI)
  let ?s = "\<lparr>sb_null = False, sb_bytes = packet_enc p, sb_pos = 0\<rparr>"
  from assms have e: "encodable p" by (cases p) simp_all
  then show "packet_encode junk p = Inr (length (packet_enc p), Some (packet_enc p))"
    by (simp add: packet_encode_eq length_packet_enc)
  show "buf_initialize (Some (packet_enc p)) = Inr ?s"
    using get_size_pos [OF e] length_packet_enc [of p] by (auto simp: buf_initialize_def)
  show "packet_decode (packet_blank p) ?s = Inr (p, adv (length (packet_enc p)) ?s)"
    by (rule reads_allD [OF reads_packet_decode [OF assms]]) (simp_all add: upcoming_def)
qed

theorem packet_roundtrip_witness:
  "let p = Play \<lparr>play_command_name = ''play'', play_transaction_id = 0,
       play_stream_name = ''livestream'', play_start = dbl_minus_2,
       play_duration = dbl_3, play_reset = True\<rparr>
   in \<exists>bs s. packet_encode (\<lambda>_. 0xAA) p = Inr (length bs, Some bs)
    \<and> buf_initialize (Some bs) = Inr s
    \<and> packet_decode (packet_blank p) s = Inr (p, adv (length bs) s)"
  unfolding Let_def by (rule packet_roundtrip) (simp add: play_ok_def)

end
