(* ===== verification/Srs_Fast_Stream.thy ===== *)
theory Srs_Fast_Stream
  imports Srs_Prelude
begin

text \<open>
  The receive buffer \<^verbatim>\<open>SrsFastStream\<close> (\<^verbatim>\<open>src/src/protocol/srs_protocol_stream.cpp\<close>), on
  which the RTMP chunk reader runs: a fixed array that is refilled from the socket. The
  socket is outside the repository; it is represented by the list of what its successive
  reads will give, so that every statement holds for every way the network cuts the bytes.
\<close>

section \<open>The socket\<close>

text \<open>
  Bytes that arrive together, or an error of the connection. One \<^verbatim>\<open>read\<close> returns at most
  as many bytes as asked for and leaves the others for the next one; a stream that ended
  fails with \<^verbatim>\<open>ERROR_SOCKET_READ\<close>.
\<close>

datatype net_event = Arrives "byte list" | Fails srs_error

fun skt_read :: "nat \<Rightarrow> net_event list \<Rightarrow> byte list res \<times> net_event list" where
  "skt_read n [] = (Inl ERROR_SOCKET_READ, [])"
| "skt_read n (Fails e # es) = (Inl e, es)"
| "skt_read n (Arrives bs # es) =
     (Inr (take n bs), if length bs \<le> n then es else Arrives (drop n bs) # es)"

section \<open>The buffer\<close>

text \<open>
  \<open>fs_buf\<close> is the memory from \<^verbatim>\<open>buffer\<close> to \<^verbatim>\<open>end\<close>, \<open>fs_p\<close> the offset \<^verbatim>\<open>p - buffer\<close> and
  \<open>fs_cap\<close> the size \<^verbatim>\<open>nb_buffer\<close> of the array.
\<close>

record fstream =
  fs_buf :: "byte list"
  fs_p :: nat
  fs_cap :: int

definition SRS_DEFAULT_RECV_BUFFER_SIZE :: int where "SRS_DEFAULT_RECV_BUFFER_SIZE = 131072"
definition SRS_MAX_SOCKET_BUFFER :: int where "SRS_MAX_SOCKET_BUFFER = 262144"

definition fs_new :: fstream where
  "fs_new = \<lparr>fs_buf = [], fs_p = 0, fs_cap = SRS_DEFAULT_RECV_BUFFER_SIZE\<rparr>"

definition fs_size :: "fstream \<Rightarrow> int" where
  "fs_size fs = int (length (fs_buf fs)) - int (fs_p fs)"

definition fs_bytes :: "fstream \<Rightarrow> byte list" where
  "fs_bytes fs = drop (fs_p fs) (fs_buf fs)"

definition fs_set_buffer :: "int \<Rightarrow> fstream \<Rightarrow> fstream" where
  "fs_set_buffer buffer_size fs =
     (let nb_resize_buf = min buffer_size SRS_MAX_SOCKET_BUFFER
      in if nb_resize_buf \<le> fs_cap fs then fs else fs\<lparr>fs_cap := nb_resize_buf\<rparr>)"

definition fs_read_1byte :: "(fstream, byte) prog" where
  "fs_read_1byte = bindP (getP (\<lambda>fs. fs_size fs \<ge> 1)) (\<lambda>c. bindP (checkP c ASSERT_FAILED)
     (\<lambda>_. bindP (getP (\<lambda>fs. fs_buf fs ! fs_p fs))
     (\<lambda>b. bindP (modifyP (\<lambda>fs. fs\<lparr>fs_p := fs_p fs + 1\<rparr>)) (\<lambda>_. returnP b))))"

definition fs_read_slice :: "int \<Rightarrow> (fstream, byte list) prog" where
  "fs_read_slice n = bindP (checkP (n \<ge> 0) ASSERT_FAILED)
     (\<lambda>_. bindP (getP fs_size) (\<lambda>left. bindP (checkP (left \<ge> n) ASSERT_FAILED)
     (\<lambda>_. bindP (getP (\<lambda>fs. int (fs_p fs) + n \<ge> 0)) (\<lambda>c. bindP (checkP c ASSERT_FAILED)
     (\<lambda>_. bindP (getP (\<lambda>fs. take (nat n) (fs_bytes fs)))
     (\<lambda>bs. bindP (modifyP (\<lambda>fs. fs\<lparr>fs_p := fs_p fs + nat n\<rparr>)) (\<lambda>_. returnP bs)))))))"

text \<open>\<^verbatim>\<open>skip\<close> also moves backward.\<close>

definition fs_skip :: "int \<Rightarrow> (fstream, unit) prog" where
  "fs_skip n = bindP (getP fs_size) (\<lambda>left. bindP (checkP (left \<ge> n) ASSERT_FAILED)
     (\<lambda>_. bindP (getP (\<lambda>fs. int (fs_p fs) + n \<ge> 0)) (\<lambda>c. bindP (checkP c ASSERT_FAILED)
     (\<lambda>_. modifyP (\<lambda>fs. fs\<lparr>fs_p := nat (int (fs_p fs) + n)\<rparr>)))))"

text \<open>The buffer together with what the socket still has to give.\<close>

type_synonym inp = "fstream \<times> net_event list"

text \<open>
  The loop that reads until \<open>required_size\<close> bytes are buffered. A read of no bytes is an
  assertion failure in the code.
\<close>

function grow_loop :: "int \<Rightarrow> int \<Rightarrow> (inp, unit) prog" where
  "grow_loop required_size nb_free_space (fs, es) =
     (if fs_size fs < required_size
      then case skt_read (nat nb_free_space) es of
             (Inl e, es') \<Rightarrow> (Inl e, (fs, es'))
           | (Inr bs, es') \<Rightarrow>
               if bs = [] then (Inl ASSERT_FAILED, (fs, es'))
               else grow_loop required_size (nb_free_space - int (length bs))
                      (fs\<lparr>fs_buf := fs_buf fs @ bs\<rparr>, es')
      else (Inr (), (fs, es)))"
  by pat_completeness auto
termination
  by (relation "measure (\<lambda>(req, _, (fs, _)). nat (req - fs_size fs))")
    (auto simp: fs_size_def neq_Nil_conv)

declare grow_loop.simps [simp del]

text \<open>Making room: an empty buffer is reset, otherwise the bytes left move to its start.\<close>

definition fs_compact :: "fstream \<Rightarrow> fstream" where
  "fs_compact fs =
     (if fs_size fs = 0 then fs\<lparr>fs_buf := [], fs_p := 0\<rparr>
      else if fs_size fs < fs_cap fs \<and> fs_p fs > 0
      then fs\<lparr>fs_buf := fs_bytes fs, fs_p := 0\<rparr>
      else fs)"

definition fs_free :: "fstream \<Rightarrow> int" where
  "fs_free fs = fs_cap fs - int (length (fs_buf fs))"

definition fs_grow :: "int \<Rightarrow> (inp, unit) prog" where
  "fs_grow required_size = (\<lambda>(fs, es).
     if fs_size fs \<ge> required_size then (Inr (), (fs, es))
     else if \<not> required_size > 0 then (Inl ASSERT_FAILED, (fs, es))
     else if \<not> fs_size fs \<ge> 0 then (Inl ASSERT_FAILED, (fs, es))
     else if fs_free fs < required_size - fs_size fs
     then let fs' = fs_compact fs
          in if fs_free fs' < required_size - fs_size fs
             then (Inl ERROR_READER_BUFFER_OVERFLOW, (fs', es))
             else grow_loop required_size (fs_free fs') (fs', es)
     else grow_loop required_size (fs_free fs) (fs, es))"

section \<open>The bytes that will be seen\<close>

text \<open>
  \<open>delivered\<close> is what arrives before the first error; \<open>avail\<close> is what a reader of the
  buffer will see, which no operation but consuming changes.
\<close>

fun delivered :: "net_event list \<Rightarrow> byte list" where
  "delivered [] = []"
| "delivered (Arrives bs # es) = bs @ delivered es"
| "delivered (Fails e # es) = []"

definition avail :: "inp \<Rightarrow> byte list" where
  "avail i = fs_bytes (fst i) @ delivered (snd i)"

definition inp_ok :: "inp \<Rightarrow> bool" where
  "inp_ok i \<longleftrightarrow> fs_p (fst i) \<le> length (fs_buf (fst i)) \<and> int (length (fs_buf (fst i))) \<le> fs_cap (fst i)
     \<and> SRS_DEFAULT_RECV_BUFFER_SIZE \<le> fs_cap (fst i) \<and> (\<forall>bs. Arrives bs \<in> set (snd i) \<longrightarrow> bs \<noteq> [])"

text \<open>All the bytes that can still come, errors or not: it bounds every receive loop.\<close>

definition todo :: "inp \<Rightarrow> nat" where
  "todo i = length (fs_bytes (fst i))
     + sum_list (map (\<lambda>e. case e of Arrives bs \<Rightarrow> length bs | Fails _ \<Rightarrow> 0) (snd i))"

text \<open>The errors that the socket can still report.\<close>

definition net_errors :: "inp \<Rightarrow> srs_error set" where
  "net_errors i = insert ERROR_SOCKET_READ {e. Fails e \<in> set (snd i)}"

lemma fs_size_bytes: "fs_p fs \<le> length (fs_buf fs) \<Longrightarrow> fs_size fs = int (length (fs_bytes fs))"
  by (simp add: fs_size_def fs_bytes_def of_nat_diff)

text \<open>What one step of the input may change.\<close>

definition inp_le :: "inp \<Rightarrow> inp \<Rightarrow> bool" where
  "inp_le i' i \<longleftrightarrow> net_errors i' \<subseteq> net_errors i \<and> fs_cap (fst i') = fs_cap (fst i)"

lemma inp_le_refl [simp]: "inp_le i i"
  by (simp add: inp_le_def)

lemma inp_le_trans: "inp_le i'' i' \<Longrightarrow> inp_le i' i \<Longrightarrow> inp_le i'' i"
  by (auto simp: inp_le_def)

lemma grow_loop_spec:
  assumes "inp_ok (fs, es)" and "fs_free fs = free" and "0 < req" and "req - fs_size fs \<le> free"
  shows "\<exists>r i'. grow_loop req free (fs, es) = (r, i') \<and> inp_ok i' \<and> inp_le i' (fs, es)
    \<and> todo i' = todo (fs, es)
    \<and> (case r of Inl e \<Rightarrow> e \<in> net_errors (fs, es) \<and> int (length (avail (fs, es))) < req
       | Inr _ \<Rightarrow> avail i' = avail (fs, es) \<and> req \<le> fs_size (fst i'))"
  using assms
proof (induction req free "(fs, es)" arbitrary: fs es rule: grow_loop.induct)
  case (1 req free fs es)
  show ?case
  proof (cases "fs_size fs < req")
    case False
    with "1.prems" show ?thesis by (subst grow_loop.simps) simp
  next
    case True
    note step = grow_loop.simps [of req free fs es]
    show ?thesis
    proof (cases es)
      case Nil
      with "1.prems" True show ?thesis
        by (subst step) (simp add: net_errors_def avail_def fs_size_bytes inp_ok_def)
    next
      case (Cons ev es')
      show ?thesis
      proof (cases ev)
        case (Fails e)
        with Cons "1.prems" True show ?thesis
          by (subst step)
            (auto simp: net_errors_def avail_def fs_size_bytes inp_ok_def inp_le_def todo_def)
      next
        case (Arrives bs)
        let ?n = "nat free"
        let ?fs' = "fs\<lparr>fs_buf := fs_buf fs @ take ?n bs\<rparr>"
        let ?es' = "if length bs \<le> ?n then es' else Arrives (drop ?n bs) # es'"
        have ne: "bs \<noteq> []" using "1.prems"(1) by (auto simp: inp_ok_def Cons Arrives)
        have f: "0 < free" using True "1.prems" by simp
        have rd: "skt_read ?n es = (Inr (take ?n bs), ?es')"
          by (simp add: Cons Arrives)
        have p: "fs_p fs \<le> length (fs_buf fs)" using "1.prems"(1) by (simp add: inp_ok_def)
        have b: "fs_bytes ?fs' = fs_bytes fs @ take ?n bs"
          using p by (simp add: fs_bytes_def)
        have ok: "inp_ok (?fs', ?es')"
          using "1.prems"(1,2) f by (auto simp: inp_ok_def Cons Arrives fs_free_def)
        have sz: "fs_size ?fs' = fs_size fs + int (min (length bs) ?n)"
          by (simp add: fs_size_def)
        have av: "avail (?fs', ?es') = avail (fs, es)"
          using p by (simp add: avail_def b Cons Arrives)
        have td: "todo (?fs', ?es') = todo (fs, es)"
          using p by (simp add: todo_def b Cons Arrives)
        have er: "net_errors (?fs', ?es') = net_errors (fs, es)"
          by (auto simp: net_errors_def Cons Arrives)
        have ih: "\<exists>r i'. grow_loop req (free - int (length (take ?n bs))) (?fs', ?es') = (r, i')
            \<and> inp_ok i' \<and> inp_le i' (?fs', ?es') \<and> todo i' = todo (?fs', ?es')
            \<and> (case r of Inl e \<Rightarrow> e \<in> net_errors (?fs', ?es') \<and> int (length (avail (?fs', ?es'))) < req
               | Inr _ \<Rightarrow> avail i' = avail (?fs', ?es') \<and> req \<le> fs_size (fst i'))"
        proof (rule "1.hyps" [OF True rd [symmetric] refl _ ok])
          show "take ?n bs \<noteq> []" using ne f by simp
          show "fs_free ?fs' = free - int (length (take ?n bs))"
            using "1.prems"(2) by (simp add: fs_free_def)
          show "req - fs_size ?fs' \<le> free - int (length (take ?n bs))"
            using "1.prems"(4) sz by simp
        qed (rule "1.prems"(3))
        moreover have "grow_loop req free (fs, es)
            = grow_loop req (free - int (length (take ?n bs))) (?fs', ?es')"
          using True ne f by (subst step) (simp add: rd)
        moreover have "inp_le i (?fs', ?es') \<Longrightarrow> inp_le i (fs, es)" for i
          using er by (simp add: inp_le_def)
        ultimately show ?thesis by (simp only: av td er) blast
      qed
    qed
  qed
qed

lemma fs_compact_facts:
  assumes "inp_ok (fs, es)"
  shows "inp_ok (fs_compact fs, es)" and "fs_bytes (fs_compact fs) = fs_bytes fs"
    and "fs_size (fs_compact fs) = fs_size fs" and "fs_cap (fs_compact fs) = fs_cap fs"
    and "n \<le> fs_cap fs \<Longrightarrow> n - fs_size fs \<le> fs_free (fs_compact fs)"
  using assms
  by (auto simp: fs_compact_def inp_ok_def fs_bytes_def fs_size_def fs_free_def)

text \<open>
  Growing to \<open>n\<close> bytes, \<open>n\<close> not above the capacity: it never overflows, it succeeds exactly
  when that many bytes arrive before an error, and it consumes nothing.
\<close>

lemma fs_grow_spec:
  assumes "inp_ok i" and "n \<le> fs_cap (fst i)" and "0 < n"
  shows "\<exists>r i'. fs_grow n i = (r, i') \<and> inp_ok i' \<and> inp_le i' i \<and> todo i' = todo i
    \<and> (case r of Inl e \<Rightarrow> e \<in> net_errors i \<and> int (length (avail i)) < n
       | Inr _ \<Rightarrow> avail i' = avail i \<and> n \<le> fs_size (fst i'))"
proof -
  obtain fs es where i: "i = (fs, es)" by (cases i)
  from assms(1) have sz: "0 \<le> fs_size fs" by (simp add: i inp_ok_def fs_size_def)
  show ?thesis
  proof (cases "n \<le> fs_size fs")
    case True
    then show ?thesis using assms by (simp add: i fs_grow_def)
  next
    case lt: False
    show ?thesis
    proof (cases "fs_free fs < n - fs_size fs")
      case False
      have "fs_grow n i = grow_loop n (fs_free fs) (fs, es)"
        using lt sz False assms(3) by (simp add: i fs_grow_def)
      then show ?thesis
        using grow_loop_spec [of fs es "fs_free fs" n] assms False unfolding i by simp
    next
      case True
      let ?fs = "fs_compact fs"
      note c = fs_compact_facts [OF assms(1) [unfolded i]]
      have free: "n - fs_size fs \<le> fs_free ?fs" using c(5) assms(2) by (simp add: i)
      have "fs_grow n i = grow_loop n (fs_free ?fs) (?fs, es)"
        using lt sz free True assms(3) by (simp add: i fs_grow_def Let_def)
      moreover have "avail (?fs, es) = avail i" "todo (?fs, es) = todo i"
        "net_errors (?fs, es) = net_errors i"
        by (simp_all add: i avail_def todo_def net_errors_def c(2))
      moreover have "inp_le j (?fs, es) \<Longrightarrow> inp_le j i" for j
        by (simp add: i inp_le_def net_errors_def c(4))
      ultimately show ?thesis
        using grow_loop_spec [OF c(1) refl assms(3)] free c(3) by metis
    qed
  qed
qed

lemma fs_grow_avail:
  assumes "inp_ok i" and "n \<le> fs_cap (fst i)" and "0 < n" and "n \<le> int (length (avail i))"
  shows "\<exists>i'. fs_grow n i = (Inr (), i') \<and> inp_ok i' \<and> inp_le i' i \<and> avail i' = avail i
    \<and> n \<le> fs_size (fst i')"
proof -
  obtain r i' where "fs_grow n i = (r, i')" "inp_ok i'" "inp_le i' i"
    "case r of Inl e \<Rightarrow> e \<in> net_errors i \<and> int (length (avail i)) < n
       | Inr _ \<Rightarrow> avail i' = avail i \<and> n \<le> fs_size (fst i')"
    using fs_grow_spec [OF assms(1-3)] by blast
  with assms(4) show ?thesis by (cases r) auto
qed

text \<open>More than the buffer can hold is refused, without reading.\<close>

lemma fs_grow_overflow:
  assumes "inp_ok i" and "fs_cap (fst i) < n"
  shows "\<exists>i'. fs_grow n i = (Inl ERROR_READER_BUFFER_OVERFLOW, i') \<and> inp_ok i' \<and> inp_le i' i \<and> todo i' = todo i"
proof -
  obtain fs es where i: "i = (fs, es)" by (cases i)
  let ?fs = "fs_compact fs"
  note c = fs_compact_facts [OF assms(1) [unfolded i]]
  have "0 \<le> fs_size fs" "fs_size fs \<le> int (length (fs_buf fs))" "int (length (fs_buf fs)) \<le> fs_cap fs"
    using assms(1) by (auto simp: i inp_ok_def fs_size_def)
  moreover have "fs_size ?fs = fs_size fs" "fs_size ?fs \<le> int (length (fs_buf ?fs))"
    using c by (auto simp: fs_size_def)
  ultimately have "fs_grow n i = (Inl ERROR_READER_BUFFER_OVERFLOW, (?fs, es))"
    using assms(2) c(4) by (auto simp: i fs_grow_def fs_free_def Let_def)
  moreover have "todo (?fs, es) = todo i" "inp_le (?fs, es) i"
    by (simp_all add: i todo_def inp_le_def net_errors_def c)
  ultimately show ?thesis using c(1) by blast
qed

text \<open>Operations of the buffer lifted to the buffer with its socket.\<close>

definition on_fs :: "(fstream, 'a) prog \<Rightarrow> (inp, 'a) prog" where
  "on_fs m = (\<lambda>(fs, es). case m fs of (r, fs') \<Rightarrow> (r, (fs', es)))"

definition fs_consume :: "nat \<Rightarrow> inp \<Rightarrow> inp" where
  "fs_consume n i = ((fst i)\<lparr>fs_p := fs_p (fst i) + n\<rparr>, snd i)"

lemma on_fs_read_slice:
  assumes "inp_ok i" and "0 \<le> n" and "n \<le> fs_size (fst i)"
  shows "on_fs (fs_read_slice n) i = (Inr (take (nat n) (avail i)), fs_consume (nat n) i)"
proof -
  obtain fs es where i: "i = (fs, es)" by (cases i)
  from assms show ?thesis
    by (simp add: i on_fs_def fs_read_slice_def prog_simps fs_consume_def avail_def fs_size_bytes
        inp_ok_def nat_le_iff)
qed

lemma on_fs_read_1byte:
  assumes "inp_ok i" and "1 \<le> fs_size (fst i)"
  shows "on_fs fs_read_1byte i = (Inr (hd (avail i)), fs_consume 1 i)"
proof -
  obtain fs es where i: "i = (fs, es)" by (cases i)
  from assms have l: "fs_p fs < length (fs_buf fs)" by (simp add: i fs_size_def)
  then have l': "\<not> length (fs_buf fs) \<le> fs_p fs" by simp
  from assms show ?thesis
    by (simp add: i on_fs_def fs_read_1byte_def prog_simps fs_consume_def avail_def fs_bytes_def
        hd_append hd_drop_conv_nth l l')
qed

text \<open>Moving back over bytes that were just taken.\<close>

lemma on_fs_skip_back:
  assumes "inp_ok i"
  shows "on_fs (fs_skip (- int n)) (fs_consume n i) = (if int n \<le> fs_size (fst i) + int n then (Inr (), i)
    else (Inl ASSERT_FAILED, fs_consume n i))"
  using assms
  by (auto simp: on_fs_def fs_skip_def prog_simps fs_consume_def fs_size_def inp_ok_def split: prod.splits)

lemma fs_consume_facts:
  assumes "inp_ok i" and "int n \<le> fs_size (fst i)"
  shows "inp_ok (fs_consume n i)" and "avail (fs_consume n i) = drop n (avail i)"
    and "todo (fs_consume n i) = todo i - n" and "n \<le> todo i" and "inp_le (fs_consume n i) i"
    and "fs_size (fst (fs_consume n i)) = fs_size (fst i) - int n"
  using assms
  by (auto simp: fs_consume_def inp_ok_def avail_def fs_bytes_def todo_def inp_le_def net_errors_def
      fs_size_def add.commute)

end
