(* ===== verification/Srs_Chunk.thy ===== *)
theory Srs_Chunk
  imports Srs_Fast_Stream Srs_Flv_Message
begin

text \<open>
  The RTMP chunk reader of \<^verbatim>\<open>SrsProtocol\<close> (\<^verbatim>\<open>src/src/protocol/srs_rtmp_stack.cpp\<close>):
  \<^verbatim>\<open>read_basic_header\<close>, \<^verbatim>\<open>read_message_header\<close>, \<^verbatim>\<open>read_message_payload\<close> and
  \<^verbatim>\<open>recv_interlaced_message\<close>. Messages arrive cut into chunks, the chunks of several
  messages interleaved; every chunk stream keeps the message it is assembling.
\<close>

section \<open>State\<close>

abbreviation RTMP_FMT_TYPE0 :: byte where "RTMP_FMT_TYPE0 \<equiv> 0"
abbreviation RTMP_FMT_TYPE1 :: byte where "RTMP_FMT_TYPE1 \<equiv> 1"
abbreviation RTMP_FMT_TYPE2 :: byte where "RTMP_FMT_TYPE2 \<equiv> 2"
abbreviation RTMP_FMT_TYPE3 :: byte where "RTMP_FMT_TYPE3 \<equiv> 3"

record chunk_stream =
  cs_fmt :: byte
  cs_cid :: int
  cs_header :: msg_header
  cs_extended_timestamp :: bool
  cs_msg :: "common_msg option"
  cs_msg_count :: int

text \<open>A new chunk stream; the chunk id becomes the preferred id of its messages.\<close>

definition chunk_new :: "int \<Rightarrow> chunk_stream" where
  "chunk_new cid = \<lparr>cs_fmt = 0, cs_cid = cid, cs_header = mh_new\<lparr>mh_perfer_cid := cid\<rparr>,
     cs_extended_timestamp = False, cs_msg = None, cs_msg_count = 0\<rparr>"

definition SRS_PERF_CHUNK_STREAM_CACHE :: int where "SRS_PERF_CHUNK_STREAM_CACHE = 16"

text \<open>The part of \<^verbatim>\<open>SrsProtocol\<close> that the chunk reader uses.\<close>

record chunk_reader =
  cr_in :: inp
  cr_cs_cache :: "chunk_stream list"
  cr_chunk_streams :: "int \<Rightarrow> chunk_stream option"
  cr_in_chunk_size :: int

section \<open>Reading a chunk\<close>

text \<open>\<^verbatim>\<open>in_buffer->grow(skt, n)\<close> followed by \<^verbatim>\<open>in_buffer->read_slice(n)\<close>.\<close>

definition take_bytes :: "int \<Rightarrow> (inp, byte list) prog" where
  "take_bytes n = bindP (fs_grow n) (\<lambda>_. on_fs (fs_read_slice n))"

definition read_basic_header :: "(inp, byte \<times> int) prog" where
  "read_basic_header = bindP (fs_grow 1)
     (\<lambda>_. bindP (on_fs fs_read_1byte)
     (\<lambda>b. let cid = uint (and b 0x3f); fmt = and (signed_drop_bit 6 b) 0x03
        in if cid > 1 then returnP (fmt, cid)
           else if cid = 0 then bindP (fs_grow 1)
             (\<lambda>_. bindP (on_fs fs_read_1byte) (\<lambda>c. returnP (fmt, 64 + uint c)))
           else if cid = 1 then bindP (fs_grow 2)
             (\<lambda>_. bindP (on_fs fs_read_1byte)
             (\<lambda>c. bindP (on_fs fs_read_1byte)
             (\<lambda>d. returnP (fmt, 64 + uint c + uint d * 256))))
           else raiseP ASSERT_FAILED))"

text \<open>The header and payload readers work on one chunk stream and the input.\<close>

type_synonym 'a chunk_prog = "(chunk_stream \<times> inp, 'a) prog"

definition on_inp :: "(inp, 'a) prog \<Rightarrow> 'a chunk_prog" where
  "on_inp m = (\<lambda>(c, i). case m i of (r, i') \<Rightarrow> (r, (c, i')))"

definition chunk_get :: "(chunk_stream \<Rightarrow> 'a) \<Rightarrow> 'a chunk_prog" where
  "chunk_get f = getP (\<lambda>(c, i). f c)"

definition chunk_upd :: "(chunk_stream \<Rightarrow> chunk_stream) \<Rightarrow> unit chunk_prog" where
  "chunk_upd f = modifyP (\<lambda>(c, i). (f c, i))"

definition upd_header :: "(msg_header \<Rightarrow> msg_header) \<Rightarrow> chunk_stream \<Rightarrow> chunk_stream" where
  "upd_header f c = c\<lparr>cs_header := f (cs_header c)\<rparr>"

text \<open>A fresh chunk stream must start with format 0; librtmp's format 1 ping is accepted.\<close>

definition chunk_start_check :: "byte \<Rightarrow> chunk_stream \<Rightarrow> bool" where
  "chunk_start_check fmt c \<longleftrightarrow>
     (cs_msg_count c = 0 \<and> fmt \<noteq> RTMP_FMT_TYPE0 \<longrightarrow>
        cs_cid c = RTMP_CID_ProtocolControl \<and> fmt = RTMP_FMT_TYPE1)
     \<and> \<not> (cs_msg c \<noteq> None \<and> fmt = RTMP_FMT_TYPE0)"

definition mh_sizes :: "int list" where
  "mh_sizes = [11, 7, 3, 0]"

text \<open>
  The timestamp field of formats 0 to 2: \<open>bs\<close> are the bytes of the message header. The
  delta of a format 0 header is the absolute time.
\<close>

definition parse_timestamp :: "byte \<Rightarrow> byte list \<Rightarrow> chunk_stream \<Rightarrow> chunk_stream" where
  "parse_timestamp fmt bs c =
     (let delta = word_of_mem (rev (take 3 bs)) :: 32 word;
          c1 = upd_header (\<lambda>h. h\<lparr>mh_timestamp_delta := delta\<rparr>) c;
          ext = sint delta \<ge> sint RTMP_EXTENDED_TIMESTAMP;
          c2 = c1\<lparr>cs_extended_timestamp := ext\<rparr>
      in if ext then c2
         else if fmt = RTMP_FMT_TYPE0
         then upd_header (\<lambda>h. h\<lparr>mh_timestamp := scast delta\<rparr>) c2
         else upd_header (\<lambda>h. h\<lparr>mh_timestamp := mh_timestamp h + scast delta\<rparr>) c2)"

text \<open>
  The length and type of formats 0 and 1, the stream id of format 0. A continued message
  must not change its length.
\<close>

definition parse_length_type :: "byte \<Rightarrow> bool \<Rightarrow> byte list \<Rightarrow> unit chunk_prog" where
  "parse_length_type fmt is_first bs =
     (let payload_length = word_of_mem (rev (take 3 (drop 3 bs))) :: 32 word
      in bindP (chunk_get (\<lambda>c. \<not> is_first \<and> mh_payload_length (cs_header c) \<noteq> payload_length))
         (\<lambda>changed. bindP (checkP (\<not> changed) ERROR_RTMP_PACKET_SIZE)
         (\<lambda>_. bindP (chunk_upd (upd_header (\<lambda>h. h\<lparr>mh_payload_length := payload_length,
                 mh_message_type := bs ! 6\<rparr>)))
         (\<lambda>_. if fmt = RTMP_FMT_TYPE0
              then chunk_upd (upd_header (\<lambda>h. h\<lparr>mh_stream_id := word_of_mem (take 4 (drop 7 bs))\<rparr>))
              else returnP ()))))"

text \<open>
  The extended timestamp: a continued chunk may omit it, which is detected by comparing
  with the time of the message, and the four bytes are then given back.
\<close>

definition read_ext_timestamp :: "bool \<Rightarrow> unit chunk_prog" where
  "read_ext_timestamp is_first =
     bindP (on_inp (take_bytes 4))
     (\<lambda>bs. let timestamp = and (word_of_mem (rev bs)) 0x7fffffff :: 32 word
        in bindP (chunk_get (\<lambda>c. ucast (mh_timestamp (cs_header c)) :: 32 word))
           (\<lambda>chunk_timestamp.
              if \<not> is_first \<and> chunk_timestamp > 0 \<and> chunk_timestamp \<noteq> timestamp
              then on_inp (on_fs (fs_skip (-4)))
              else chunk_upd (upd_header (\<lambda>h. h\<lparr>mh_timestamp := ucast timestamp\<rparr>))))"

text \<open>The end of the header: 31 bit time, the header copied to the message.\<close>

definition finish_header :: "unit chunk_prog" where
  "finish_header =
     bindP (chunk_upd (upd_header (\<lambda>h. h\<lparr>mh_timestamp := and (mh_timestamp h) 0x7fffffff\<rparr>)))
     (\<lambda>_. bindP (chunk_get (\<lambda>c. sint (mh_payload_length (cs_header c)) \<ge> 0))
     (\<lambda>c. bindP (checkP c ASSERT_FAILED)
     (\<lambda>_. bindP (chunk_get (\<lambda>c. cs_msg c \<noteq> None))
     (\<lambda>c. bindP (checkP c UNDEFINED_BEHAVIOUR)
     (\<lambda>_. chunk_upd (\<lambda>c. c\<lparr>cs_msg := map_option (\<lambda>m. m\<lparr>cm_header := cs_header c\<rparr>) (cs_msg c),
        cs_msg_count := cs_msg_count c + 1\<rparr>))))))"

definition read_message_header :: "byte \<Rightarrow> unit chunk_prog" where
  "read_message_header fmt =
     bindP (chunk_get (\<lambda>c. cs_msg c = None))
     (\<lambda>is_first. bindP (chunk_get (chunk_start_check fmt))
     (\<lambda>ok. bindP (checkP ok ERROR_RTMP_CHUNK_START)
     (\<lambda>_. bindP (chunk_upd (\<lambda>c. if cs_msg c = None then c\<lparr>cs_msg := Some cm_new\<rparr> else c))
     (\<lambda>_. let mh_size = mh_sizes ! unat fmt
       in bindP (if fmt \<le> RTMP_FMT_TYPE2
             then bindP (on_inp (take_bytes mh_size))
                  (\<lambda>bs. bindP (chunk_upd (parse_timestamp fmt bs))
                  (\<lambda>_. if fmt \<le> RTMP_FMT_TYPE1 then parse_length_type fmt is_first bs
                       else returnP ()))
             else chunk_upd (\<lambda>c. if is_first \<and> \<not> cs_extended_timestamp c
                  then upd_header (\<lambda>h. h\<lparr>mh_timestamp := mh_timestamp h + scast (mh_timestamp_delta h)\<rparr>) c
                  else c))
          (\<lambda>_. bindP (chunk_get cs_extended_timestamp)
          (\<lambda>ext. bindP (if ext then read_ext_timestamp is_first else returnP ())
          (\<lambda>_. finish_header)))))))"

text \<open>
  One chunk of payload. The result is the message when this chunk completes it; \<open>ics\<close> is
  \<^verbatim>\<open>in_chunk_size\<close>.
\<close>

definition msg_append :: "byte list \<Rightarrow> unit chunk_prog" where
  "msg_append bs = (\<lambda>(c, i). case cs_msg c of
     None \<Rightarrow> (Inl UNDEFINED_BEHAVIOUR, (c, i))
   | Some m \<Rightarrow> (case cm_payload m of
       None \<Rightarrow> (Inl UNDEFINED_BEHAVIOUR, (c, i))
     | Some arr \<Rightarrow> (case payload_put (nat (cm_size m)) bs arr of
         Inl e \<Rightarrow> (Inl e, (c, i))
       | Inr arr' \<Rightarrow> (Inr (), (c\<lparr>cs_msg := Some (m\<lparr>cm_payload := Some arr',
           cm_size := cm_size m + int (length bs)\<rparr>)\<rparr>, i)))))"

definition chunk_msg_size :: "chunk_stream \<Rightarrow> int" where
  "chunk_msg_size c = (case cs_msg c of None \<Rightarrow> 0 | Some m \<Rightarrow> cm_size m)"

definition read_message_payload :: "int \<Rightarrow> common_msg option chunk_prog" where
  "read_message_payload ics =
     bindP (chunk_get (\<lambda>c. sint (mh_payload_length (cs_header c))))
     (\<lambda>len. if len \<le> 0
       then bindP (chunk_get cs_msg)
            (\<lambda>m. bindP (chunk_upd (\<lambda>c. c\<lparr>cs_msg := None\<rparr>)) (\<lambda>_. returnP m))
       else bindP (chunk_get (\<lambda>c. cs_msg c \<noteq> None))
         (\<lambda>ok. bindP (checkP ok UNDEFINED_BEHAVIOUR)
         (\<lambda>_. bindP (chunk_get (\<lambda>c. min (len - chunk_msg_size c) ics))
         (\<lambda>payload_size. bindP (chunk_upd (\<lambda>c. c\<lparr>cs_msg := map_option
              (\<lambda>m. if cm_payload m = None then cm_create_payload len m else m) (cs_msg c)\<rparr>))
         (\<lambda>_. bindP (on_inp (take_bytes payload_size))
         (\<lambda>bs. bindP (msg_append bs)
         (\<lambda>_. bindP (chunk_get (\<lambda>c. (len = chunk_msg_size c, cs_msg c)))
         (\<lambda>(full, m). if full
              then bindP (chunk_upd (\<lambda>c. c\<lparr>cs_msg := None\<rparr>)) (\<lambda>_. returnP m)
              else returnP None))))))))"

section \<open>Receiving a chunk\<close>

text \<open>
  The chunk stream of an id: the cache for small ids, the map for the others, where a new
  one is created on demand.
\<close>

definition chunk_find :: "int \<Rightarrow> ('a) chunk_reader_scheme \<Rightarrow> chunk_stream" where
  "chunk_find cid s = (if cid < SRS_PERF_CHUNK_STREAM_CACHE then cr_cs_cache s ! nat cid
     else case cr_chunk_streams s cid of None \<Rightarrow> chunk_new cid | Some c \<Rightarrow> c)"

definition chunk_store :: "int \<Rightarrow> chunk_stream \<Rightarrow> ('a) chunk_reader_scheme \<Rightarrow> ('a) chunk_reader_scheme" where
  "chunk_store cid c s = (if cid < SRS_PERF_CHUNK_STREAM_CACHE
     then s\<lparr>cr_cs_cache := (cr_cs_cache s)[nat cid := c]\<rparr>
     else s\<lparr>cr_chunk_streams := (cr_chunk_streams s)(cid \<mapsto> c)\<rparr>)"

definition on_cr_in :: "(inp, 'b) prog \<Rightarrow> (('a) chunk_reader_scheme, 'b) prog" where
  "on_cr_in m = (\<lambda>s. case m (cr_in s) of (r, i) \<Rightarrow> (r, s\<lparr>cr_in := i\<rparr>))"

definition on_chunk :: "int \<Rightarrow> 'b chunk_prog \<Rightarrow> (('a) chunk_reader_scheme, 'b) prog" where
  "on_chunk cid m = (\<lambda>s. case m (chunk_find cid s, cr_in s) of
     (r, (c, i)) \<Rightarrow> (r, chunk_store cid c (s\<lparr>cr_in := i\<rparr>)))"

definition recv_interlaced_message :: "(('a) chunk_reader_scheme, common_msg option) prog" where
  "recv_interlaced_message =
     bindP (on_cr_in read_basic_header)
     (\<lambda>(fmt, cid). bindP (checkP (cid \<ge> 0) ASSERT_FAILED)
     (\<lambda>_. bindP (getP cr_in_chunk_size)
     (\<lambda>ics. on_chunk cid (bindP (read_message_header fmt) (\<lambda>_. read_message_payload ics)))))"

text \<open>The reader of a new connection.\<close>

definition chunk_cache_new :: "chunk_stream list" where
  "chunk_cache_new = map (\<lambda>cid. chunk_new (int cid)) [0..<16]"

section \<open>The bytes of a message in chunks\<close>

text \<open>
  What a sender with chunk size \<open>n\<close> produces for a message: a format 0 chunk and format 3
  chunks for the rest of the payload.
\<close>

definition c0_bytes :: "int \<Rightarrow> 32 word \<Rightarrow> 32 word \<Rightarrow> byte \<Rightarrow> 32 word \<Rightarrow> byte list" where
  "c0_bytes cid ts len ty sid = srs_chunk_header_c0 cid ts len ty sid 16"

definition c3_bytes :: "int \<Rightarrow> 32 word \<Rightarrow> byte list" where
  "c3_bytes cid ts = srs_chunk_header_c3 cid ts 16"

function c3_chunks :: "int \<Rightarrow> 32 word \<Rightarrow> nat \<Rightarrow> byte list \<Rightarrow> byte list" where
  "c3_chunks cid ts n payload = (if payload = [] \<or> n = 0 then []
     else c3_bytes cid ts @ take n payload @ c3_chunks cid ts n (drop n payload))"
  by pat_completeness auto
termination
  by (relation "measure (\<lambda>(_, _, _, payload). length payload)") auto

declare c3_chunks.simps [simp del]

definition message_bytes ::
    "int \<Rightarrow> 32 word \<Rightarrow> byte \<Rightarrow> 32 word \<Rightarrow> nat \<Rightarrow> byte list \<Rightarrow> byte list" where
  "message_bytes cid ts ty sid n payload = (if payload = [] then []
     else c0_bytes cid ts (of_nat (length payload)) ty sid @ take n payload
       @ c3_chunks cid ts n (drop n payload))"

section \<open>Words of the headers\<close>

lemma basic_header_words:
  assumes "2 \<le> cid" and "cid < 64"
  shows "uint (and (or 0x00 (and (word_of_int cid) 0x3F)) 0x3f :: byte) = cid"
    and "uint (and (or 0xC0 (and (word_of_int cid) 0x3F)) 0x3f :: byte) = cid"
    and "and (signed_drop_bit 6 (or 0x00 (and (word_of_int cid) 0x3F))) 0x03 = (0 :: byte)"
    and "and (signed_drop_bit 6 (or 0xC0 (and (word_of_int cid) 0x3F))) 0x03 = (3 :: byte)"
proof -
  obtain k where cid: "cid = int k" using assms(1) by (metis nonneg_int_cases order_trans zero_le_numeral)
  with assms have "2 \<le> k" and "k < 64" by simp_all
  then have k: "k \<in> set [2..<64]" by (simp only: set_upt atLeastLessThan_iff)
  have all: "\<forall>k \<in> set [2..<64]. uint (and (or 0x00 (and (word_of_int (int k)) 0x3F)) 0x3f :: byte) = int k
      \<and> uint (and (or 0xC0 (and (word_of_int (int k)) 0x3F)) 0x3f :: byte) = int k
      \<and> and (signed_drop_bit 6 (or 0x00 (and (word_of_int (int k)) 0x3F))) 0x03 = (0 :: byte)
      \<and> and (signed_drop_bit 6 (or 0xC0 (and (word_of_int (int k)) 0x3F))) 0x03 = (3 :: byte)"
    by code_simp
  from bspec [OF all k] show "uint (and (or 0x00 (and (word_of_int cid) 0x3F)) 0x3f :: byte) = cid"
    and "uint (and (or 0xC0 (and (word_of_int cid) 0x3F)) 0x3f :: byte) = cid"
    and "and (signed_drop_bit 6 (or 0x00 (and (word_of_int cid) 0x3F))) 0x03 = (0 :: byte)"
    and "and (signed_drop_bit 6 (or 0xC0 (and (word_of_int cid) 0x3F))) 0x03 = (3 :: byte)"
    by (simp_all add: cid)
qed

lemma mem_of_word_3: "mem_of_word 3 w = [byte_at 0 w, byte_at 1 w, byte_at 2 w]"
  and mem_of_word_4: "mem_of_word 4 w = [byte_at 0 w, byte_at 1 w, byte_at 2 w, byte_at 3 w]"
  by (simp_all add: mem_of_word_def upt_conv_Cons eval_nat_numeral)

lemma word_of_bytes:
  fixes w :: "32 word"
  shows "word_of_mem [byte_at 0 w, byte_at 1 w, byte_at 2 w] = take_bit 24 w"
    and "word_of_mem [byte_at 0 w, byte_at 1 w, byte_at 2 w, byte_at 3 w] = w"
  using word_of_mem_take_bit [of 3 w] word_of_mem_of_word [of 4 w]
  by (simp_all add: mem_of_word_3 mem_of_word_4)

lemmas word_of_bytes' = word_of_bytes [unfolded One_nat_def]

section \<open>Reading known bytes\<close>

lemma prog_chunk_simps [prog_simps]:
  "bindP (chunk_get f) k (c, i) = k (f c) (c, i)"
  "bindP (chunk_upd g) l (c, i) = l () (g c, i)"
  "chunk_upd g (c, i) = (Inr (), (g c, i))"
  by (simp_all add: chunk_get_def chunk_upd_def prog_eqs bindP_def)

lemma take_bytes_avail:
  assumes "inp_ok i" and "avail i = bs @ rest" and "bs \<noteq> []"
    and "int (length bs) \<le> SRS_DEFAULT_RECV_BUFFER_SIZE"
  shows "\<exists>i'. take_bytes (int (length bs)) i = (Inr bs, i') \<and> inp_ok i' \<and> avail i' = rest \<and> inp_le i' i"
proof -
  have cap: "int (length bs) \<le> fs_cap (fst i)" using assms(1,4) by (simp add: inp_ok_def)
  have pos: "0 < int (length bs)" and len: "int (length bs) \<le> int (length (avail i))"
    using assms(2,3) by simp_all
  obtain j where j: "fs_grow (int (length bs)) i = (Inr (), j)" "inp_ok j" "inp_le j i"
      "avail j = avail i" "int (length bs) \<le> fs_size (fst j)"
    using fs_grow_avail [OF assms(1) cap pos len] by blast
  have "take_bytes (int (length bs)) i = (Inr bs, fs_consume (length bs) j)"
    using on_fs_read_slice [OF j(2) _ j(5)] j(1,4) assms(2)
    by (simp add: take_bytes_def bindP_def)
  moreover note fs_consume_facts [OF j(2,5)]
  ultimately show ?thesis using j(3,4) assms(2) inp_le_trans by fastforce
qed

lemma on_inp_take_bytes:
  assumes "inp_ok i" and "avail i = bs @ rest" and "bs \<noteq> []"
    and "int (length bs) \<le> SRS_DEFAULT_RECV_BUFFER_SIZE" and "n = int (length bs)"
  shows "\<exists>i'. bindP (on_inp (take_bytes n)) f (c, i) = f bs (c, i') \<and> inp_ok i' \<and> avail i' = rest"
proof -
  obtain j where "take_bytes (int (length bs)) i = (Inr bs, j)" "inp_ok j" "avail j = rest"
    using take_bytes_avail [OF assms(1-4)] by blast
  then show ?thesis using assms(5) by (intro exI [of _ j]) (simp add: bindP_def on_inp_def)
qed

lemma one_byte_avail:
  assumes "inp_ok i" and "avail i = b # rest"
  shows "\<exists>i'. bindP (fs_grow 1) (\<lambda>_. bindP (on_fs fs_read_1byte) f) i = f b i' \<and> inp_ok i' \<and> avail i' = rest"
proof -
  have cap: "1 \<le> fs_cap (fst i)" using assms(1) by (simp add: inp_ok_def SRS_DEFAULT_RECV_BUFFER_SIZE_def)
  have len: "1 \<le> int (length (avail i))" using assms(2) by simp
  obtain j where j: "fs_grow 1 i = (Inr (), j)" "inp_ok j" "avail j = avail i" "1 \<le> fs_size (fst j)"
    using fs_grow_avail [OF assms(1) cap _ len] by auto
  moreover have "avail (fs_consume 1 j) = rest" "inp_ok (fs_consume 1 j)"
    using fs_consume_facts [OF j(2), of 1] j(3,4) assms(2) by simp_all
  ultimately show ?thesis
    using on_fs_read_1byte [OF j(2,4)] assms(2)
    by (intro exI [of _ "fs_consume 1 j"]) (simp add: bindP_def)
qed

lemma read_basic_header_1:
  assumes "inp_ok i" and "avail i = b # rest" and "1 < uint (and b 0x3f)"
  shows "\<exists>i'. read_basic_header i = (Inr (and (signed_drop_bit 6 b) 0x03, uint (and b 0x3f)), i')
    \<and> inp_ok i' \<and> avail i' = rest"
  using one_byte_avail [OF assms(1,2), of "\<lambda>b. let cid = uint (and b 0x3f); fmt = and (signed_drop_bit 6 b) 0x03
        in if cid > 1 then returnP (fmt, cid)
           else if cid = 0 then bindP (fs_grow 1)
             (\<lambda>_. bindP (on_fs fs_read_1byte) (\<lambda>c. returnP (fmt, 64 + uint c)))
           else if cid = 1 then bindP (fs_grow 2)
             (\<lambda>_. bindP (on_fs fs_read_1byte)
             (\<lambda>c. bindP (on_fs fs_read_1byte)
             (\<lambda>d. returnP (fmt, 64 + uint c + uint d * 256))))
           else raiseP ASSERT_FAILED"] assms(3)
  by (simp add: read_basic_header_def Let_def returnP_def)

section \<open>A message in progress\<close>

text \<open>
  The chunk stream has received the bytes \<open>got\<close> of a message with header \<open>h\<close>; the array has
  the announced length and its other cells are not written yet.
\<close>

definition partial :: "chunk_stream \<Rightarrow> msg_header \<Rightarrow> bool \<Rightarrow> byte list \<Rightarrow> bool" where
  "partial c h ext got \<longleftrightarrow> cs_header c = h \<and> cs_extended_timestamp c = ext \<and> 0 < cs_msg_count c
     \<and> (\<exists>m. cs_msg c = Some m \<and> cm_header m = h \<and> cm_size m = int (length got)
        \<and> (if cm_payload m = None then got = []
           else cm_payload m = Some (map Some got
             @ replicate (nat (sint (mh_payload_length h)) - length got) None)))"

definition done_msg :: "msg_header \<Rightarrow> byte list \<Rightarrow> common_msg" where
  "done_msg h payload = \<lparr>cm_header = h, cm_size = int (length payload),
     cm_payload = Some (map Some payload)\<rparr>"

text \<open>One chunk of payload continues the message or completes it.\<close>

lemma read_message_payload_partial:
  assumes p: "partial c h ext got" and len: "sint (mh_payload_length h) = int (length got + length rem)"
    and rem: "rem \<noteq> []" and n: "0 < n" "int n \<le> SRS_DEFAULT_RECV_BUFFER_SIZE"
    and i: "inp_ok i" "avail i = take n rem @ rest"
  shows "\<exists>c' i'. read_message_payload (int n) (c, i) =
      (Inr (if length rem \<le> n then Some (done_msg h (got @ rem)) else None), (c', i'))
    \<and> inp_ok i' \<and> avail i' = rest
    \<and> (if length rem \<le> n then cs_msg c' = None else partial c' h ext (got @ take n rem))
    \<and> cs_header c' = h \<and> cs_cid c' = cs_cid c \<and> 0 < cs_msg_count c'"
proof -
  from p obtain m where c: "cs_header c = h" "cs_extended_timestamp c = ext" "0 < cs_msg_count c"
      "cs_msg c = Some m" "cm_header m = h" "cm_size m = int (length got)"
      "if cm_payload m = None then got = [] else cm_payload m = Some (map Some got
         @ replicate (nat (sint (mh_payload_length h)) - length got) None)"
    by (auto simp: partial_def)
  let ?len = "sint (mh_payload_length h)"
  have pos: "0 < ?len" using len rem by (cases rem) simp_all
  have nl: "nat ?len - length got = length rem" using len by simp
  define m1 where "m1 = (if cm_payload m = None then cm_create_payload ?len m else m)"
  define now where "now = take n rem"
  define k where "k = int (length now)"
  have pay: "cm_payload m1 = Some (map Some got @ replicate (length rem) None)"
    using c(7) nl len by (auto simp: m1_def cm_create_payload_def split: if_splits)
  have m1: "cm_header m1 = h" "cm_size m1 = int (length got)"
    using c(5,6) by (simp_all add: m1_def cm_create_payload_def)
  have k: "min (?len - chunk_msg_size c) (int n) = k"
    using c(4,6) len by (simp add: chunk_msg_size_def k_def now_def min_def)
  define c1 where "c1 = c\<lparr>cs_msg := Some m1\<rparr>"
  define m2 where "m2 = m1\<lparr>cm_payload := Some (map Some (got @ now) @ replicate (length rem - n) None),
      cm_size := int (length (got @ now))\<rparr>"
  define c2 where "c2 = c\<lparr>cs_msg := Some m2\<rparr>"
  have upd: "c\<lparr>cs_msg := map_option (\<lambda>m. if cm_payload m = None
      then cm_create_payload (sint (mh_payload_length (cs_header c))) m else m) (Some m)\<rparr> = c1"
    by (simp add: c1_def m1_def c(1))
  have ne: "now \<noteq> []" using rem n(1) by (simp add: now_def)
  have fit: "int (length now) \<le> SRS_DEFAULT_RECV_BUFFER_SIZE" using n(2) by (simp add: now_def)
  have av: "avail i = now @ rest" using i(2) by (simp add: now_def)
  obtain i' where i': "take_bytes k i = (Inr now, i')" "inp_ok i'" "avail i' = rest"
    using take_bytes_avail [OF i(1) av ne fit] by (auto simp: k_def)
  have tk: "on_inp (take_bytes k) (c1, i) = (Inr now, (c1, i'))"
    by (simp add: on_inp_def i'(1))
  have app: "msg_append now (c1, i') = (Inr (), (c2, i'))"
    using pay m1 by (simp add: msg_append_def payload_put_def min_def c1_def c2_def m2_def now_def)
  have full: "?len = chunk_msg_size c2 \<longleftrightarrow> length rem \<le> n"
    using len by (simp add: chunk_msg_size_def min_def c2_def m2_def now_def)
  have m2: "cs_msg c2 = Some m2" by (simp add: c2_def)
  have npos: "\<not> ?len \<le> 0" using pos by simp
  have run: "read_message_payload (int n) (c, i) =
      (if length rem \<le> n then (Inr (Some m2), (c2\<lparr>cs_msg := None\<rparr>, i')) else (Inr None, (c2, i')))"
    unfolding read_message_payload_def
    by (simp add: prog_simps c(1) npos c(4) k upd full m2
        bindP_Inr [where m = "on_inp (take_bytes k)" and s = "(c1, i)", OF tk]
        bindP_Inr [where m = "msg_append now" and s = "(c1, i')", OF app] del: option.map)
  show ?thesis
  proof (cases "length rem \<le> n")
    case True
    then have "m2 = done_msg h (got @ rem)"
      using m1(1) by (simp add: done_msg_def m2_def now_def)
    with True run i'(2,3) c(1,3) show ?thesis by (simp add: c2_def)
  next
    case False
    then have "partial c2 h ext (got @ take n rem)"
      using c(1-3) m1(1) nl by (simp add: partial_def c2_def m2_def now_def)
    with False run i'(2,3) c(1,3) show ?thesis by (simp add: c2_def)
  qed
qed

lemma sint_small:
  assumes "uint (w :: 32 word) < 2147483648"
  shows "sint w = uint w"
proof -
  have "- (2 ^ 31) \<le> uint w" by (rule order_trans [OF _ uint_ge_0]) simp
  with assms show ?thesis by (simp add: sint_uint signed_take_bit_int_eq_self)
qed

lemma ext_timestamp_iff:
  fixes ts :: "32 word"
  assumes "delta = (if ts < RTMP_EXTENDED_TIMESTAMP then ts else RTMP_EXTENDED_TIMESTAMP)"
  shows "sint delta \<ge> sint RTMP_EXTENDED_TIMESTAMP \<longleftrightarrow> ts \<ge> RTMP_EXTENDED_TIMESTAMP"
    and "take_bit 24 delta = delta" and "sint delta = uint delta"
proof -
  have u: "uint delta \<le> 16777215" using assms by (auto simp: word_less_def)
  then show "sint delta = uint delta" by (intro sint_small) simp
  then show "sint delta \<ge> sint RTMP_EXTENDED_TIMESTAMP \<longleftrightarrow> ts \<ge> RTMP_EXTENDED_TIMESTAMP"
    using assms by (auto simp: word_less_def word_le_def)
  show "take_bit 24 delta = delta"
    using u by (simp add: word_uint_eq_iff unsigned_take_bit_eq take_bit_int_eq_self)
qed

lemma ts31_facts:
  fixes ts :: "32 word"
  shows "and (ucast (and ts 0x7fffffff) :: 64 word) 0x7fffffff = ucast (and ts 0x7fffffff)"
    and "(ucast (ucast (and ts 0x7fffffff) :: 64 word) :: 32 word) = and ts 0x7fffffff"
    and "and (ucast ts :: 64 word) 0x7fffffff = ucast (and ts 0x7fffffff)"
proof -
  have m: "(0x7fffffff :: 'a::len word) = mask 31"
    by (simp add: mask_eq_exp_minus_1)
  show "and (ucast (and ts 0x7fffffff) :: 64 word) 0x7fffffff = ucast (and ts 0x7fffffff)"
    and "(ucast (ucast (and ts 0x7fffffff) :: 64 word) :: 32 word) = and ts 0x7fffffff"
    and "and (ucast ts :: 64 word) 0x7fffffff = ucast (and ts 0x7fffffff)"
    unfolding m by (rule bit_word_eqI, auto simp: bit_simps)+
qed

text \<open>The header that a format 0 chunk leaves in its chunk stream.\<close>

definition c0_header :: "32 word \<Rightarrow> 32 word \<Rightarrow> byte \<Rightarrow> 32 word \<Rightarrow> msg_header \<Rightarrow> msg_header" where
  "c0_header ts len ty sid h = h\<lparr>
     mh_timestamp_delta := (if ts < RTMP_EXTENDED_TIMESTAMP then ts else RTMP_EXTENDED_TIMESTAMP),
     mh_payload_length := len, mh_message_type := ty, mh_stream_id := sid,
     mh_timestamp := ucast (and ts 0x7fffffff)\<rparr>"

lemma finish_header_eq:
  assumes "cs_msg c = Some m" and "0 \<le> sint (mh_payload_length (cs_header c))"
    and "h = (cs_header c)\<lparr>mh_timestamp := and (mh_timestamp (cs_header c)) 0x7fffffff\<rparr>"
  shows "finish_header (c, i) = (Inr (), (c\<lparr>cs_header := h, cs_msg := Some (m\<lparr>cm_header := h\<rparr>),
    cs_msg_count := cs_msg_count c + 1\<rparr>, i))"
  using assms by (simp add: finish_header_def prog_simps upd_header_def)

text \<open>Reading the four bytes of an extended timestamp that is the time of the message.\<close>

lemma read_ext_timestamp_eq:
  fixes ts :: "32 word"
  assumes "inp_ok i" and "avail i = [byte_at 3 ts, byte_at 2 ts, byte_at 1 ts, byte_at 0 ts] @ rest"
    and "first \<or> mh_timestamp (cs_header c) = ucast (and ts 0x7fffffff)"
  shows "\<exists>i'. read_ext_timestamp first (c, i) = (Inr (),
      (upd_header (\<lambda>h. h\<lparr>mh_timestamp := ucast (and ts 0x7fffffff)\<rparr>) c, i'))
    \<and> inp_ok i' \<and> avail i' = rest"
proof -
  let ?bs = "[byte_at 3 ts, byte_at 2 ts, byte_at 1 ts, byte_at 0 ts]"
  obtain i' where i': "take_bytes 4 i = (Inr ?bs, i')" "inp_ok i'" "avail i' = rest"
    using take_bytes_avail [OF assms(1,2)] by (auto simp: SRS_DEFAULT_RECV_BUFFER_SIZE_def)
  have tk: "on_inp (take_bytes 4) (c, i) = (Inr ?bs, (c, i'))"
    by (simp add: on_inp_def i'(1))
  have "read_ext_timestamp first (c, i) = (Inr (),
      (upd_header (\<lambda>h. h\<lparr>mh_timestamp := ucast (and ts 0x7fffffff)\<rparr>) c, i'))"
    using assms(3) ts31_facts(2) [of ts]
    by (cases first) (simp_all add: read_ext_timestamp_def Let_def word_of_bytes' prog_simps
        bindP_Inr [where m = "on_inp (take_bytes 4)" and s = "(c, i)", OF tk]
        del: word_of_mem.simps)
  with i'(2,3) show ?thesis by blast
qed

lemma read_message_header_c3:
  assumes p: "partial c h ext got" and ext: "ext \<longleftrightarrow> ts \<ge> RTMP_EXTENDED_TIMESTAMP"
    and ts: "mh_timestamp h = ucast (and ts 0x7fffffff)" and len: "0 \<le> sint (mh_payload_length h)"
    and i: "inp_ok i" "avail i = tl (c3_bytes cid ts) @ rest"
  shows "\<exists>c' i'. read_message_header 3 (c, i) = (Inr (), (c', i')) \<and> inp_ok i' \<and> avail i' = rest
    \<and> partial c' h ext got \<and> cs_cid c' = cs_cid c"
proof -
  from p obtain m where c: "cs_header c = h" "cs_extended_timestamp c = ext" "0 < cs_msg_count c"
      "cs_msg c = Some m" "cm_header m = h"
    by (auto simp: partial_def)
  have hh': "h\<lparr>mh_timestamp := ucast (and ts 0x7fffffff)\<rparr> = h"
    by (cases h) (use ts in simp)
  then have hh: "h = h\<lparr>mh_timestamp := and (mh_timestamp h) 0x7fffffff\<rparr>"
    using ts31_facts(1) [of ts] by (simp only: ts)
  have st: "chunk_start_check 3 c" using c by (simp add: chunk_start_check_def)
  obtain i' where i': "inp_ok i'" "avail i' = rest"
    and r: "(if ext then read_ext_timestamp False else returnP ()) (c, i) = (Inr (), (c, i'))"
  proof (cases ext)
    case True
    with i ext have "avail i = [byte_at 3 ts, byte_at 2 ts, byte_at 1 ts, byte_at 0 ts] @ rest"
      by (simp add: c3_bytes_def srs_chunk_header_c3_def SRS_CONSTS_RTMP_MAX_FMT3_HEADER_SIZE_def)
    from read_ext_timestamp_eq [OF i(1) this, of False c] c(1) ts True that hh' show ?thesis
      by (auto simp: upd_header_def)
  next
    case False
    with i ext that [of i] show ?thesis
      by (simp add: c3_bytes_def srs_chunk_header_c3_def SRS_CONSTS_RTMP_MAX_FMT3_HEADER_SIZE_def returnP_def)
  qed
  let ?c' = "c\<lparr>cs_header := h, cs_msg := Some (m\<lparr>cm_header := h\<rparr>), cs_msg_count := cs_msg_count c + 1\<rparr>"
  have "finish_header (c, i') = (Inr (), (?c', i'))"
    using c(1,4) len hh by (intro finish_header_eq) simp_all
  moreover have "partial ?c' h ext got"
    using p c by (auto simp: partial_def)
  ultimately show ?thesis
    using c(4) st i'
    by (intro exI [of _ ?c'] exI [of _ i'])
      (simp add: read_message_header_def prog_simps Let_def c(2)
        bindP_Inr [where m = "if ext then read_ext_timestamp False else returnP ()" and s = "(c, i)", OF r]
        split del: if_split cong: if_cong)
qed

lemma read_message_header_c0:
  assumes c: "cs_msg c = None" "0 \<le> cs_msg_count c" and len: "take_bit 24 len = len"
    and i: "inp_ok i" "avail i = tl (c0_bytes cid ts len ty sid) @ rest"
  shows "\<exists>c' i'. read_message_header 0 (c, i) = (Inr (), (c', i')) \<and> inp_ok i' \<and> avail i' = rest
    \<and> partial c' (c0_header ts len ty sid (cs_header c)) (ts \<ge> RTMP_EXTENDED_TIMESTAMP) []
    \<and> cs_cid c' = cs_cid c"
proof -
  define delta where "delta = (if ts < RTMP_EXTENDED_TIMESTAMP then ts else RTMP_EXTENDED_TIMESTAMP)"
  define ext where "ext \<longleftrightarrow> ts \<ge> RTMP_EXTENDED_TIMESTAMP"
  define mh where "mh = [byte_at 2 delta, byte_at 1 delta, byte_at 0 delta, byte_at 2 len,
      byte_at 1 len, byte_at 0 len, ty, byte_at 0 sid, byte_at 1 sid, byte_at 2 sid, byte_at 3 sid]"
  define eb where "eb = (if ext then [byte_at 3 ts, byte_at 2 ts, byte_at 1 ts, byte_at 0 ts] else [])"
  note d = ext_timestamp_iff [OF delta_def]
  have FF: "byte_at 2 RTMP_EXTENDED_TIMESTAMP = 0xFF" "byte_at 1 RTMP_EXTENDED_TIMESTAMP = 0xFF"
    "byte_at 0 RTMP_EXTENDED_TIMESTAMP = 0xFF"
    by (simp_all add: byte_at_def)
  have dir: "ts < RTMP_EXTENDED_TIMESTAMP \<longleftrightarrow> \<not> ext" by (simp add: ext_def not_le)
  have av: "avail i = mh @ eb @ rest"
    using i(2) FF unfolding c0_bytes_def srs_chunk_header_c0_def mh_def eb_def delta_def
      ext_def [symmetric] dir
    by (cases ext) (simp_all add: SRS_CONSTS_RTMP_MAX_FMT0_HEADER_SIZE_def)
  obtain j where j: "take_bytes 11 i = (Inr mh, j)" "inp_ok j" "avail j = eb @ rest"
    using take_bytes_avail [OF i(1) av] by (auto simp: mh_def SRS_DEFAULT_RECV_BUFFER_SIZE_def)
  let ?c1 = "c\<lparr>cs_msg := Some cm_new\<rparr>"
  have tk: "on_inp (take_bytes 11) (?c1, i) = (Inr mh, (?c1, j))"
    by (simp add: on_inp_def j(1))
  define c2 where "c2 = parse_timestamp 0 mh ?c1"
  have c2: "cs_msg c2 = Some cm_new" "cs_extended_timestamp c2 = ext" "cs_msg_count c2 = cs_msg_count c"
    "cs_cid c2 = cs_cid c"
    "cs_header c2 = (if ext then (cs_header c)\<lparr>mh_timestamp_delta := delta\<rparr>
       else (cs_header c)\<lparr>mh_timestamp_delta := delta, mh_timestamp := scast delta\<rparr>)"
    using d(1,2) by (simp_all add: c2_def parse_timestamp_def mh_def word_of_bytes' upd_header_def ext_def Let_def
        del: word_of_mem.simps)
  define c3 where "c3 = upd_header (\<lambda>h. h\<lparr>mh_payload_length := len, mh_message_type := ty,
      mh_stream_id := sid\<rparr>) c2"
  have pl: "parse_length_type 0 True mh (c2, j) = (Inr (), (c3, j))"
    using len by (simp add: parse_length_type_def prog_simps Let_def mh_def word_of_bytes' c3_def upd_header_def
        del: word_of_mem.simps)
  have c3x: "cs_extended_timestamp c3 = ext" by (simp add: c3_def upd_header_def c2(2))
  define c4 where "c4 = (if ext then upd_header (\<lambda>h. h\<lparr>mh_timestamp := ucast (and ts 0x7fffffff)\<rparr>) c3 else c3)"
  obtain k where k: "inp_ok k" "avail k = rest"
    and r: "(if ext then read_ext_timestamp True else returnP ()) (c3, j) = (Inr (), (c4, k))"
  proof (cases ext)
    case True
    with j(3) have "avail j = [byte_at 3 ts, byte_at 2 ts, byte_at 1 ts, byte_at 0 ts] @ rest"
      by (simp add: eb_def)
    from read_ext_timestamp_eq [OF j(2) this, of True c3] True that show ?thesis
      by (auto simp: c4_def)
  next
    case False
    with j that [of j] show ?thesis by (simp add: eb_def c4_def returnP_def)
  qed
  define h where "h = c0_header ts len ty sid (cs_header c)"
  have "scast delta = (ucast delta :: 64 word)"
    by (simp only: scast_eq ucast_eq d(3))
  then have nt: "\<not> ext \<Longrightarrow> scast delta = (ucast ts :: 64 word)"
    using dir by (simp add: delta_def)
  have h: "(cs_header c4)\<lparr>mh_timestamp := and (mh_timestamp (cs_header c4)) 0x7fffffff\<rparr> = h"
    using nt ts31_facts(1,3) [of ts]
    by (cases "cs_header c") (simp add: c4_def c3_def c2(5) upd_header_def h_def c0_header_def delta_def)
  have "uint len = take_bit 24 (uint len)"
    using len by (metis unsigned_take_bit_eq)
  then have "uint len < 16777216"
    using take_bit_int_less_exp [of 24 "uint len"] by simp
  then have "0 \<le> sint len" using sint_small [of len] by simp
  then have pos: "0 \<le> sint (mh_payload_length (cs_header c4))"
    by (simp add: c4_def c3_def upd_header_def)
  let ?c' = "c4\<lparr>cs_header := h, cs_msg := Some (cm_new\<lparr>cm_header := h\<rparr>),
      cs_msg_count := cs_msg_count c4 + 1\<rparr>"
  have c4: "cs_msg c4 = Some cm_new" "cs_extended_timestamp c4 = ext" "cs_cid c4 = cs_cid c"
    "cs_msg_count c4 = cs_msg_count c"
    using c2 by (simp_all add: c4_def c3_def upd_header_def)
  have fin: "finish_header (c4, k) = (Inr (), (?c', k))"
    using finish_header_eq [OF c4(1) pos h [symmetric]] .
  have "partial ?c' h ext []"
    using c(2) c4 by (simp add: partial_def cm_new_def)
  moreover have "read_message_header 0 (c, i) = (Inr (), (?c', k))"
    using c(1) fin
    by (simp add: read_message_header_def prog_simps Let_def mh_sizes_def chunk_start_check_def
        bindP_assoc bindP_Inr [where m = "on_inp (take_bytes 11)" and s = "(?c1, i)", OF tk] c2_def [symmetric]
        bindP_Inr [where m = "parse_length_type 0 True mh" and s = "(c2, j)", OF pl] c3x
        bindP_Inr [where m = "if ext then read_ext_timestamp True else returnP ()" and s = "(c3, j)", OF r]
        split del: if_split cong: if_cong)
  ultimately show ?thesis using k c4(3) unfolding h_def [symmetric] ext_def [symmetric]
    by (intro exI [of _ ?c'] exI [of _ k]) simp
qed

section \<open>Chunks of many messages, interleaved\<close>

text \<open>
  What senders may put on the wire: a chunk that starts a message on an idle chunk stream,
  or the next chunk of a message in flight. \<open>mux_run\<close> gives the bytes of a sequence of such
  chunks and, per chunk, the message that it completes.
\<close>

record flight =
  fl_ts :: "32 word"
  fl_ty :: byte
  fl_sid :: "32 word"
  fl_got :: "byte list"
  fl_rem :: "byte list"

datatype mux_act = MuxStart int "32 word" byte "32 word" "byte list" | MuxCont int

definition flight_header :: "int \<Rightarrow> flight \<Rightarrow> msg_header" where
  "flight_header cid f = c0_header (fl_ts f) (of_nat (length (fl_got f @ fl_rem f))) (fl_ty f)
     (fl_sid f) (mh_new\<lparr>mh_perfer_cid := cid\<rparr>)"

text \<open>One chunk of at most \<open>n\<close> payload bytes of the flight, and what is left of it.\<close>

definition flight_result :: "nat \<Rightarrow> int \<Rightarrow> flight \<Rightarrow> common_msg option" where
  "flight_result n cid f = (if length (fl_rem f) \<le> n
     then Some (done_msg (flight_header cid f) (fl_got f @ fl_rem f)) else None)"

definition flight_next :: "nat \<Rightarrow> flight \<Rightarrow> flight option" where
  "flight_next n f = (if length (fl_rem f) \<le> n then None
     else Some (f\<lparr>fl_got := fl_got f @ take n (fl_rem f), fl_rem := drop n (fl_rem f)\<rparr>))"

definition mux_flight :: "mux_act \<Rightarrow> (int \<Rightarrow> flight option) \<Rightarrow> (int \<times> byte list \<times> flight) option" where
  "mux_flight a F = (case a of
     MuxStart cid ts ty sid p \<Rightarrow>
       if 2 \<le> cid \<and> cid < 64 \<and> F cid = None \<and> p \<noteq> [] \<and> length p < 16777216
       then Some (cid, c0_bytes cid ts (of_nat (length p)) ty sid,
              \<lparr>fl_ts = ts, fl_ty = ty, fl_sid = sid, fl_got = [], fl_rem = p\<rparr>) else None
   | MuxCont cid \<Rightarrow> (case F cid of None \<Rightarrow> None | Some f \<Rightarrow> Some (cid, c3_bytes cid (fl_ts f), f)))"

fun mux_run :: "nat \<Rightarrow> mux_act list \<Rightarrow> (int \<Rightarrow> flight option) \<Rightarrow> (byte list \<times> common_msg option list) option"
where
  "mux_run n [] F = Some ([], [])"
| "mux_run n (a # as) F = (case mux_flight a F of
     None \<Rightarrow> None
   | Some (cid, hdr, f) \<Rightarrow> (case mux_run n as (F(cid := flight_next n f)) of
       None \<Rightarrow> None
     | Some (bs, outs) \<Rightarrow> Some (hdr @ take n (fl_rem f) @ bs, flight_result n cid f # outs)))"

text \<open>\<open>k\<close> calls of the chunk reader.\<close>

fun recv_times :: "nat \<Rightarrow> (('a) chunk_reader_scheme, common_msg option list) prog" where
  "recv_times 0 = returnP []"
| "recv_times (Suc k) = bindP recv_interlaced_message
     (\<lambda>m. bindP (recv_times k) (\<lambda>ms. returnP (m # ms)))"

text \<open>The chunk streams of the reader agree with the flights.\<close>

definition flight_ok :: "int \<Rightarrow> flight option \<Rightarrow> chunk_stream \<Rightarrow> bool" where
  "flight_ok cid fo c \<longleftrightarrow> cs_cid c = cid \<and> mh_perfer_cid (cs_header c) = cid \<and> 0 \<le> cs_msg_count c
     \<and> (case fo of
          None \<Rightarrow> cs_msg c = None
        | Some f \<Rightarrow> fl_rem f \<noteq> [] \<and> length (fl_got f @ fl_rem f) < 16777216
            \<and> partial c (flight_header cid f) (fl_ts f \<ge> RTMP_EXTENDED_TIMESTAMP) (fl_got f))"

definition reader_ok :: "nat \<Rightarrow> (int \<Rightarrow> flight option) \<Rightarrow> ('a) chunk_reader_scheme \<Rightarrow> bool" where
  "reader_ok n F s \<longleftrightarrow> inp_ok (cr_in s) \<and> length (cr_cs_cache s) = 16 \<and> cr_in_chunk_size s = int n
     \<and> (\<forall>cid. (2 \<le> cid \<and> cid < 64 \<longrightarrow> flight_ok cid (F cid) (chunk_find cid s))
          \<and> (F cid \<noteq> None \<longrightarrow> 2 \<le> cid \<and> cid < 64))"

lemma chunk_store_simps [simp]:
  "cr_in (chunk_store cid c s) = cr_in s"
  "cr_in_chunk_size (chunk_store cid c s) = cr_in_chunk_size s"
  "length (cr_cs_cache (chunk_store cid c s)) = length (cr_cs_cache s)"
  by (simp_all add: chunk_store_def)

lemma chunk_find_store:
  assumes "length (cr_cs_cache s) = 16" and "0 \<le> cid" and "0 \<le> cid'"
  shows "chunk_find cid' (chunk_store cid c s) = (if cid' = cid then c else chunk_find cid' s)"
  using assms by (auto simp: chunk_find_def chunk_store_def SRS_PERF_CHUNK_STREAM_CACHE_def nth_list_update
      split: option.splits)

lemma chunk_find_in [simp]: "chunk_find cid (s\<lparr>cr_in := i\<rparr>) = chunk_find cid s"
  by (simp add: chunk_find_def)

lemma length24:
  assumes "k < 16777216"
  shows "sint (of_nat k :: 32 word) = int k" and "take_bit 24 (of_nat k :: 32 word) = of_nat k"
proof -
  have u: "uint (of_nat k :: 32 word) = int k"
    using assms by (simp add: unsigned_of_nat take_bit_nat_eq_self)
  with assms show "sint (of_nat k :: 32 word) = int k" by (subst sint_small) simp_all
  from u assms show "take_bit 24 (of_nat k :: 32 word) = of_nat k"
    by (simp add: word_uint_eq_iff unsigned_take_bit_eq take_bit_int_eq_self)
qed

text \<open>The payload part, with what remains in flight.\<close>

lemma read_payload_flight:
  assumes p: "partial c (flight_header cid f) (fl_ts f \<ge> RTMP_EXTENDED_TIMESTAMP) (fl_got f)"
    and rem: "fl_rem f \<noteq> []" "length (fl_got f @ fl_rem f) < 16777216"
    and c: "cs_cid c = cid"
    and n: "0 < n" "int n \<le> SRS_DEFAULT_RECV_BUFFER_SIZE"
    and i: "inp_ok i" "avail i = take n (fl_rem f) @ rest"
  shows "\<exists>c' i'. read_message_payload (int n) (c, i) = (Inr (flight_result n cid f), (c', i'))
    \<and> inp_ok i' \<and> avail i' = rest \<and> flight_ok cid (flight_next n f) c'"
proof -
  let ?h = "flight_header cid f"
  have "mh_payload_length ?h = of_nat (length (fl_got f @ fl_rem f))"
    by (simp add: flight_header_def c0_header_def del: length_append of_nat_add)
  then have len: "sint (mh_payload_length ?h) = int (length (fl_got f) + length (fl_rem f))"
    using length24(1) [OF rem(2)] by (simp only: length_append)
  obtain c' i' where r: "read_message_payload (int n) (c, i) =
      (Inr (if length (fl_rem f) \<le> n then Some (done_msg ?h (fl_got f @ fl_rem f)) else None), (c', i'))"
      "inp_ok i'" "avail i' = rest"
      "if length (fl_rem f) \<le> n then cs_msg c' = None
       else partial c' ?h (fl_ts f \<ge> RTMP_EXTENDED_TIMESTAMP) (fl_got f @ take n (fl_rem f))"
      "cs_header c' = ?h" "cs_cid c' = cs_cid c" "0 < cs_msg_count c'"
    using read_message_payload_partial [OF p len rem(1) n i] by blast
  have pc: "mh_perfer_cid ?h = cid" by (simp add: flight_header_def c0_header_def)
  have "flight_ok cid (flight_next n f) c'"
  proof (cases "length (fl_rem f) \<le> n")
    case True
    with r pc c show ?thesis by (simp add: flight_ok_def flight_next_def)
  next
    case False
    let ?g = "f\<lparr>fl_got := fl_got f @ take n (fl_rem f), fl_rem := drop n (fl_rem f)\<rparr>"
    have "flight_header cid ?g = ?h" by (simp add: flight_header_def)
    with False r pc c rem n show ?thesis by (simp add: flight_ok_def flight_next_def)
  qed
  with r(1-3) show ?thesis by (auto simp: flight_result_def)
qed

lemma c0_header_perfer:
  "c0_header ts len ty sid h = c0_header ts len ty sid (mh_new\<lparr>mh_perfer_cid := mh_perfer_cid h\<rparr>)"
  by (cases h) (simp add: c0_header_def mh_new_def)

text \<open>One chunk of a script: the reader gives the expected result and stays in agreement.\<close>

lemma recv_mux_flight:
  assumes ok: "reader_ok n F s" and a: "mux_flight a F = Some (cid, hdr, f)"
    and n: "0 < n" "int n \<le> SRS_DEFAULT_RECV_BUFFER_SIZE"
    and av: "avail (cr_in s) = (hdr @ take n (fl_rem f)) @ rest"
  shows "\<exists>s'. recv_interlaced_message s = (Inr (flight_result n cid f), s')
    \<and> reader_ok n (F(cid := flight_next n f)) s' \<and> avail (cr_in s') = rest"
proof -
  define fmt :: byte where "fmt = (case a of MuxStart _ _ _ _ _ \<Rightarrow> 0 | MuxCont _ \<Rightarrow> 3)"
  have cid: "2 \<le> cid" "cid < 64"
    using a ok by (auto simp: mux_flight_def reader_ok_def split: mux_act.splits if_splits option.splits)
  define c where "c = chunk_find cid s"
  have c: "flight_ok cid (F cid) c" and i: "inp_ok (cr_in s)" and l: "length (cr_cs_cache s) = 16"
    and ics: "cr_in_chunk_size s = int n"
    using ok cid by (auto simp: reader_ok_def c_def)
  have rem: "fl_rem f \<noteq> []" "length (fl_got f @ fl_rem f) < 16777216"
    using a c by (auto simp: mux_flight_def flight_ok_def split: mux_act.splits if_splits option.splits)
  obtain b where hdr: "hdr = b # tl hdr" and b: "uint (and b 0x3f) = cid" "and (signed_drop_bit 6 b) 0x03 = fmt"
    using a basic_header_words [OF cid]
    by (auto simp: mux_flight_def fmt_def c0_bytes_def c3_bytes_def srs_chunk_header_c0_def
        srs_chunk_header_c3_def SRS_CONSTS_RTMP_MAX_FMT0_HEADER_SIZE_def
        SRS_CONSTS_RTMP_MAX_FMT3_HEADER_SIZE_def split: mux_act.splits if_splits option.splits)
  obtain i1 where i1: "read_basic_header (cr_in s) = (Inr (fmt, cid), i1)" "inp_ok i1"
      "avail i1 = tl hdr @ take n (fl_rem f) @ rest"
    using read_basic_header_1 [OF i, of b "tl hdr @ take n (fl_rem f) @ rest"] av hdr b cid
    by (metis append_Cons append_assoc dual_order.strict_trans1 one_less_numeral_iff semiring_norm(76))
  have hd: "\<exists>c' i'. read_message_header fmt (c, i1) = (Inr (), (c', i')) \<and> inp_ok i'
      \<and> avail i' = take n (fl_rem f) @ rest
      \<and> partial c' (flight_header cid f) (fl_ts f \<ge> RTMP_EXTENDED_TIMESTAMP) (fl_got f)
      \<and> cs_cid c' = cid"
  proof (cases a)
    case (MuxStart cid' ts ty sid p)
    with a have m: "cid' = cid" "F cid = None" "length p < 16777216" "hdr = c0_bytes cid ts (of_nat (length p)) ty sid"
        "f = \<lparr>fl_ts = ts, fl_ty = ty, fl_sid = sid, fl_got = [], fl_rem = p\<rparr>"
      by (auto simp: mux_flight_def split: if_splits)
    with c have c': "cs_msg c = None" "0 \<le> cs_msg_count c" "mh_perfer_cid (cs_header c) = cid" "cs_cid c = cid"
      by (simp_all add: flight_ok_def)
    have "flight_header cid f = c0_header ts (of_nat (length p)) ty sid (cs_header c)"
      using c0_header_perfer [of ts "of_nat (length p)" ty sid "cs_header c"] c'(3)
      by (simp add: flight_header_def m(5))
    with read_message_header_c0 [OF c'(1,2) length24(2) [OF m(3)] i1(2), of cid ts ty sid] i1(3) m(4,5) c'(4)
    show ?thesis by (simp add: fmt_def MuxStart)
  next
    case (MuxCont cid')
    with a have m: "cid' = cid" "F cid = Some f" "hdr = c3_bytes cid (fl_ts f)"
      by (auto simp: mux_flight_def split: option.splits)
    with c have c': "cs_cid c = cid"
      "partial c (flight_header cid f) (fl_ts f \<ge> RTMP_EXTENDED_TIMESTAMP) (fl_got f)"
      by (simp_all add: flight_ok_def)
    have "0 \<le> sint (mh_payload_length (flight_header cid f))"
      using length24(1) [OF rem(2)]
      by (simp add: flight_header_def c0_header_def del: length_append of_nat_add)
    from read_message_header_c3 [OF c'(2) refl _ this i1(2), of cid] i1(3) m(3) c'(1)
    show ?thesis by (simp add: fmt_def MuxCont flight_header_def c0_header_def)
  qed
  then obtain c2 i2 where h2: "read_message_header fmt (c, i1) = (Inr (), (c2, i2))" "inp_ok i2"
      "avail i2 = take n (fl_rem f) @ rest" "cs_cid c2 = cid"
      "partial c2 (flight_header cid f) (fl_ts f \<ge> RTMP_EXTENDED_TIMESTAMP) (fl_got f)"
    by blast
  obtain c3 i3 where h3: "read_message_payload (int n) (c2, i2) = (Inr (flight_result n cid f), (c3, i3))"
      "inp_ok i3" "avail i3 = rest" "flight_ok cid (flight_next n f) c3"
    using read_payload_flight [OF h2(5) rem h2(4) n h2(2,3)] by blast
  let ?s' = "chunk_store cid c3 (s\<lparr>cr_in := i3\<rparr>)"
  have run: "recv_interlaced_message s = (Inr (flight_result n cid f), chunk_store cid c3 (s\<lparr>cr_in := i1, cr_in := i3\<rparr>))"
    using i1(1) cid h2(1) h3(1)
    by (simp add: recv_interlaced_message_def on_cr_in_def on_chunk_def bindP_def prog_eqs ics c_def)
  have "reader_ok n (F(cid := flight_next n f)) ?s'"
    unfolding reader_ok_def
  proof (intro conjI allI impI)
    fix cid' :: int assume "2 \<le> cid' \<and> cid' < 64"
    moreover from this have "flight_ok cid' (F cid') (chunk_find cid' s)" using ok by (auto simp: reader_ok_def)
    ultimately show "flight_ok cid' ((F(cid := flight_next n f)) cid') (chunk_find cid' ?s')"
      using h3(4) l cid by (auto simp: chunk_find_store)
  next
    fix cid' :: int assume "(F(cid := flight_next n f)) cid' \<noteq> None"
    then show "2 \<le> cid'" and "cid' < 64" using ok cid by (auto simp: reader_ok_def split: if_splits)
  qed (use h3(2) l ics in simp_all)
  with run h3(3) show ?thesis by (intro exI [of _ ?s']) simp
qed

lemma recv_mux_run:
  assumes n: "0 < n" "int n \<le> SRS_DEFAULT_RECV_BUFFER_SIZE"
  shows "mux_run n as F = Some (bs, outs) \<Longrightarrow> reader_ok n F s \<Longrightarrow> avail (cr_in s) = bs @ rest \<Longrightarrow>
    \<exists>s'. recv_times (length as) s = (Inr outs, s') \<and> avail (cr_in s') = rest"
proof (induction as arbitrary: F s bs outs)
  case Nil
  then show ?case by (simp add: returnP_def)
next
  case (Cons a as)
  from Cons.prems(1) obtain cid hdr f bs' outs' where m: "mux_flight a F = Some (cid, hdr, f)"
      "mux_run n as (F(cid := flight_next n f)) = Some (bs', outs')"
      "bs = (hdr @ take n (fl_rem f)) @ bs'" "outs = flight_result n cid f # outs'"
    by (auto split: option.splits prod.splits)
  have "avail (cr_in s) = (hdr @ take n (fl_rem f)) @ bs' @ rest" using Cons.prems(3) m(3) by simp
  from recv_mux_flight [OF Cons.prems(2) m(1) n this] obtain s1
    where s1: "recv_interlaced_message s = (Inr (flight_result n cid f), s1)"
      "reader_ok n (F(cid := flight_next n f)) s1" "avail (cr_in s1) = bs' @ rest"
    by blast
  from Cons.IH [OF m(2) s1(2,3)] obtain s' where "recv_times (length as) s1 = (Inr outs', s')"
      "avail (cr_in s') = rest"
    by blast
  with s1(1) m(4) show ?case by (simp add: bindP_def returnP_def)
qed

end
