(* ===== verification/Srs_Chunk_Safety.thy ===== *)
theory Srs_Chunk_Safety
  imports Srs_Chunk
begin

text \<open>
  Safety of the chunk reader on arbitrary input: whatever the peer sends and however the
  network cuts it, no assertion fails, no byte is written outside of a message's payload,
  no half-received message is delivered, and every chunk read consumes input.
\<close>

section \<open>The invariant\<close>

text \<open>
  A chunk stream keeps either no message, or one whose payload is not allocated yet, or one
  whose array has the announced length with exactly the received bytes written.
\<close>

definition msg_partial :: "int \<Rightarrow> common_msg \<Rightarrow> bool" where
  "msg_partial len m \<longleftrightarrow> (case cm_payload m of
     None \<Rightarrow> cm_size m = 0
   | Some arr \<Rightarrow> (\<exists>got. cm_size m = int (length got) \<and> int (length got) < len
        \<and> arr = map Some got @ replicate (nat len - length got) None))"

definition chunk_ok :: "chunk_stream \<Rightarrow> bool" where
  "chunk_ok c \<longleftrightarrow> 0 \<le> sint (mh_payload_length (cs_header c)) \<and> 0 \<le> cs_msg_count c
     \<and> (\<forall>m. cs_msg c = Some m \<longrightarrow> msg_partial (sint (mh_payload_length (cs_header c))) m)"

text \<open>A message that the reader delivers: as long as announced, every byte written.\<close>

definition msg_complete :: "common_msg \<Rightarrow> bool" where
  "msg_complete m \<longleftrightarrow> cm_size m = sint (mh_payload_length (cm_header m))
     \<and> (if cm_payload m = None then cm_size m = 0
        else \<exists>bs. cm_payload m = Some (map Some bs) \<and> int (length bs) = cm_size m \<and> bs \<noteq> [])"

text \<open>
  During the header: \<open>first\<close> tells that the chunk starts a message, \<open>i0\<close> is the input
  before the chunk and \<open>k\<close> bounds what is left of it.
\<close>

definition hinv :: "bool \<Rightarrow> inp \<Rightarrow> nat \<Rightarrow> chunk_stream \<times> inp \<Rightarrow> bool" where
  "hinv first i0 k = (\<lambda>(c, i). chunk_ok c \<and> (\<exists>m. cs_msg c = Some m \<and> (first \<longrightarrow> cm_payload m = None))
     \<and> inp_ok i \<and> inp_le i i0 \<and> todo i \<le> k)"

definition chunk_errors :: "inp \<Rightarrow> srs_error \<Rightarrow> bool" where
  "chunk_errors i0 e \<longleftrightarrow> e \<in> net_errors i0 \<or> e = ERROR_RTMP_CHUNK_START \<or> e = ERROR_RTMP_PACKET_SIZE"

lemma msg_partial_header [simp]: "msg_partial len (m\<lparr>cm_header := h\<rparr>) = msg_partial len m"
  by (simp add: msg_partial_def split: option.splits)

lemma take_bytes_safe:
  assumes "inp_ok i" and "0 < n" and cap: "n \<le> fs_cap (fst i)"
  shows "\<exists>r i'. take_bytes n i = (r, i') \<and> inp_ok i' \<and> inp_le i' i \<and> todo i' \<le> todo i
    \<and> (case r of Inl e \<Rightarrow> e \<in> net_errors i
       | Inr bs \<Rightarrow> length bs = nat n \<and> nat n \<le> fs_p (fst i') \<and> todo i' + nat n \<le> todo i)"
proof -
  obtain r j where j: "fs_grow n i = (r, j)" "inp_ok j" "inp_le j i" "todo j = todo i"
      "case r of Inl e \<Rightarrow> e \<in> net_errors i \<and> int (length (avail i)) < n
       | Inr _ \<Rightarrow> avail j = avail i \<and> n \<le> fs_size (fst j)"
    using fs_grow_spec [OF assms(1) cap assms(2)] by blast
  show ?thesis
  proof (cases r)
    case (Inl e)
    with j show ?thesis by (simp add: take_bytes_def bindP_def)
  next
    case (Inr u)
    with j(5) have n: "n \<le> fs_size (fst j)" by simp
    have "take_bytes n i = (Inr (take (nat n) (avail j)), fs_consume (nat n) j)"
      using on_fs_read_slice [OF j(2) _ n] assms(2) j(1) Inr by (simp add: take_bytes_def bindP_def)
    moreover have "nat n \<le> length (avail j)"
      using n j(2) by (auto simp: avail_def fs_size_bytes inp_ok_def)
    moreover have "int (nat n) \<le> fs_size (fst j)" using n assms(2) by simp
    note fs_consume_facts [OF j(2) this]
    ultimately show ?thesis using j(3,4) inp_le_trans
      by (auto simp: fs_consume_def)
  qed
qed

text \<open>Asking for more than the buffer holds adds the overflow error.\<close>

definition payload_errors :: "inp \<Rightarrow> int \<Rightarrow> srs_error \<Rightarrow> bool" where
  "payload_errors i n e \<longleftrightarrow> e \<in> net_errors i
     \<or> (e = ERROR_READER_BUFFER_OVERFLOW \<and> fs_cap (fst i) < n)"

lemma take_bytes_safe_any:
  assumes "inp_ok i" and "0 < n"
  shows "\<exists>r i'. take_bytes n i = (r, i') \<and> inp_ok i' \<and> inp_le i' i \<and> todo i' \<le> todo i
    \<and> (case r of Inl e \<Rightarrow> payload_errors i n e
       | Inr bs \<Rightarrow> length bs = nat n \<and> nat n \<le> fs_p (fst i') \<and> todo i' + nat n \<le> todo i)"
proof (cases "n \<le> fs_cap (fst i)")
  case True
  obtain r i' where r: "take_bytes n i = (r, i')" "inp_ok i'" "inp_le i' i" "todo i' \<le> todo i"
      "case r of Inl e \<Rightarrow> e \<in> net_errors i
       | Inr bs \<Rightarrow> length bs = nat n \<and> nat n \<le> fs_p (fst i') \<and> todo i' + nat n \<le> todo i"
    using take_bytes_safe [OF assms True] by blast
  then show ?thesis by (cases r) (auto simp: payload_errors_def)
next
  case False
  then have "fs_cap (fst i) < n" by simp
  from fs_grow_overflow [OF assms(1) this] obtain i' where "fs_grow n i = (Inl ERROR_READER_BUFFER_OVERFLOW, i')" "inp_ok i'"
      "inp_le i' i" "todo i' = todo i"
    by blast
  with False show ?thesis by (simp add: take_bytes_def bindP_def payload_errors_def)
qed

lemma skip_back_safe:
  assumes "inp_ok i" and "n \<le> fs_p (fst i)"
  shows "\<exists>i'. on_fs (fs_skip (- int n)) i = (Inr (), i') \<and> inp_ok i' \<and> inp_le i' i \<and> todo i' = todo i + n"
proof -
  let ?i' = "((fst i)\<lparr>fs_p := fs_p (fst i) - n\<rparr>, snd i)"
  have "on_fs (fs_skip (- int n)) i = (Inr (), ?i')"
    using assms by (cases i) (simp add: on_fs_def fs_skip_def prog_simps fs_size_def inp_ok_def
        nat_diff_distrib)
  moreover have "todo ?i' = todo i + n"
    using assms by (simp add: todo_def fs_bytes_def inp_ok_def)
  ultimately show ?thesis using assms by (auto simp: inp_ok_def inp_le_def net_errors_def)
qed

lemma net_errors_le: "inp_le i i0 \<Longrightarrow> e \<in> net_errors i \<Longrightarrow> chunk_errors i0 e"
  by (auto simp: chunk_errors_def inp_le_def)

lemma keeps_take:
  assumes "hinv first i0 k (c, i)" and "0 < n" and "n \<le> SRS_DEFAULT_RECV_BUFFER_SIZE"
  shows "keeps (hinv first i0 k) (chunk_errors i0)
    (\<lambda>bs (c, i). length bs = nat n \<and> nat n \<le> fs_p (fst i) \<and> todo i + nat n \<le> k)
    (on_inp (take_bytes n) (c, i))"
proof -
  from assms(1) have i: "inp_ok i" "inp_le i i0" "todo i \<le> k" by (simp_all add: hinv_def)
  obtain r i' where r: "take_bytes n i = (r, i')" "inp_ok i'" "inp_le i' i" "todo i' \<le> todo i"
      "case r of Inl e \<Rightarrow> e \<in> net_errors i
       | Inr bs \<Rightarrow> length bs = nat n \<and> nat n \<le> fs_p (fst i') \<and> todo i' + nat n \<le> todo i"
    using take_bytes_safe [OF i(1) assms(2)] assms(3) i(1) by (auto simp: inp_ok_def)
  have "hinv first i0 k (c, i')"
    using assms(1) r(2-4) i inp_le_trans by (auto simp: hinv_def)
  with r i show ?thesis
    by (cases r) (auto simp: keeps_def on_inp_def intro: net_errors_le)
qed

lemma keeps_upd:
  "hinv first i0 k (g c, i) \<Longrightarrow> keeps (hinv first i0 k) E (\<lambda>_ _. True) (chunk_upd g (c, i))"
  by (simp add: keeps_def prog_simps)

lemma keeps_return: "I s \<Longrightarrow> Q x s \<Longrightarrow> keeps I E Q (returnP x s)"
  by (simp add: keeps_def returnP_def)

lemma hinv_upd:
  assumes "hinv first i0 k (c, i)" and "mh_payload_length (f (cs_header c)) = mh_payload_length (cs_header c)"
  shows "hinv first i0 k (upd_header f c, i)"
  using assms by (auto simp: hinv_def chunk_ok_def upd_header_def)

lemma keeps_finish_header:
  assumes "hinv first i0 k (c, i)"
  shows "keeps (hinv first i0 k) (chunk_errors i0)
    (\<lambda>_ (c, i). \<exists>m. cs_msg c = Some m \<and> cm_header m = cs_header c) (finish_header (c, i))"
proof -
  from assms obtain m where m: "cs_msg c = Some m" "0 \<le> sint (mh_payload_length (cs_header c))"
    by (auto simp: hinv_def chunk_ok_def)
  show ?thesis
    using assms m by (auto simp: finish_header_eq [OF m refl] keeps_def hinv_def chunk_ok_def)
qed

lemma keeps_read_ext_timestamp:
  assumes "hinv first i0 k (c, i)"
  shows "keeps (hinv first i0 k) (chunk_errors i0) (\<lambda>_ _. True) (read_ext_timestamp fst' (c, i))"
  unfolding read_ext_timestamp_def
proof (rule keeps_bind, rule keeps_take [OF assms])
  fix bs :: "byte list" and s :: "chunk_stream \<times> inp"
  assume s: "hinv first i0 k s"
    and q: "case s of (c, i) \<Rightarrow> length bs = nat 4 \<and> nat 4 \<le> fs_p (fst i) \<and> todo i + nat 4 \<le> k"
  obtain c i where ci: "s = (c, i)" by (cases s)
  obtain i' where i': "on_fs (fs_skip (- 4)) i = (Inr (), i')" "inp_ok i'" "inp_le i' i" "todo i' = todo i + 4"
    using skip_back_safe [of i 4] s q by (auto simp: ci hinv_def)
  have "hinv first i0 k (c, i')"
    using s q i' inp_le_trans by (auto simp: ci hinv_def)
  then show "keeps (hinv first i0 k) (chunk_errors i0) (\<lambda>_ _. True)
     ((let timestamp = and (word_of_mem (rev bs)) 0x7fffffff :: 32 word
        in bindP (chunk_get (\<lambda>c. ucast (mh_timestamp (cs_header c)) :: 32 word))
           (\<lambda>chunk_timestamp.
              if \<not> fst' \<and> chunk_timestamp > 0 \<and> chunk_timestamp \<noteq> timestamp
              then on_inp (on_fs (fs_skip (-4)))
              else chunk_upd (upd_header (\<lambda>h. h\<lparr>mh_timestamp := ucast timestamp\<rparr>)))) s)"
    using hinv_upd [OF s [unfolded ci]]
    by (auto simp: ci Let_def prog_simps on_inp_def i'(1) keeps_def)
qed (simp_all add: SRS_DEFAULT_RECV_BUFFER_SIZE_def)

lemma sint_be3: "0 \<le> sint (word_of_mem (rev (take 3 bs)) :: 32 word)"
proof -
  let ?w = "word_of_mem (rev (take 3 bs)) :: 32 word"
  have "take_bit 24 ?w = ?w"
    by (rule bit_word_eqI) (auto simp: bit_take_bit_iff bit_word_of_mem)
  then have "uint ?w = take_bit 24 (uint ?w)" by (metis unsigned_take_bit_eq)
  then have "uint ?w < 16777216" using take_bit_int_less_exp [of 24 "uint ?w"] by simp
  then show ?thesis using sint_small [of ?w] by simp
qed

lemma keeps_parse_length_type:
  assumes "hinv first i0 k (c, i)"
  shows "keeps (hinv first i0 k) (chunk_errors i0) (\<lambda>_ _. True) (parse_length_type fmt first bs (c, i))"
proof -
  define w where "w = (word_of_mem (rev (take 3 (drop 3 bs))) :: 32 word)"
  have w: "0 \<le> sint w" unfolding w_def by (rule sint_be3)
  show ?thesis
  proof (cases "\<not> first \<and> mh_payload_length (cs_header c) \<noteq> w")
    case True
    then show ?thesis
      using assms by (simp add: parse_length_type_def Let_def w_def [symmetric] prog_simps keeps_def
          chunk_errors_def)
  next
    case False
    let ?c1 = "upd_header (\<lambda>h. h\<lparr>mh_payload_length := w, mh_message_type := bs ! 6\<rparr>) c"
    from assms obtain m where m: "cs_msg c = Some m" "first \<longrightarrow> cm_payload m = None" "0 \<le> cs_msg_count c"
      "msg_partial (sint (mh_payload_length (cs_header c))) m" "inp_ok i" "inp_le i i0" "todo i \<le> k"
      by (auto simp: hinv_def chunk_ok_def)
    have "msg_partial (sint w) m"
    proof (cases first)
      case True
      with m(2,4) show ?thesis by (simp add: msg_partial_def)
    next
      case nf: False
      with False have "mh_payload_length (cs_header c) = w" by simp
      with m(4) show ?thesis by simp
    qed
    then have 1: "hinv first i0 k (?c1, i)"
      using m w by (simp add: hinv_def chunk_ok_def upd_header_def)
    then have 2: "hinv first i0 k (upd_header (\<lambda>h. h\<lparr>mh_stream_id := word_of_mem (take 4 (drop 7 bs))\<rparr>) ?c1, i)"
      by (rule hinv_upd) simp
    show ?thesis
      using 1 2 False by (simp add: parse_length_type_def Let_def w_def [symmetric] prog_simps keeps_def)
  qed
qed

lemma hinv_parse_timestamp: "hinv first i0 k (c, i) \<Longrightarrow> hinv first i0 k (parse_timestamp fmt bs c, i)"
  by (auto simp: parse_timestamp_def Let_def hinv_def chunk_ok_def upd_header_def)

lemma basic_fmt: "and x 0x03 \<in> {0, 1, 2, 3 :: byte}"
proof -
  have "and x 3 = take_bit 2 x"
    by (simp add: take_bit_eq_mask mask_eq_exp_minus_1)
  then have "uint (and x 3) = take_bit 2 (uint x)" by (simp add: unsigned_take_bit_eq)
  then have "uint (and x 3) < 4" "0 \<le> uint (and x 3)"
    using take_bit_int_less_exp [of 2 "uint x"] by simp_all
  then have "uint (and x 3) = 0 \<or> uint (and x 3) = 1 \<or> uint (and x 3) = 2 \<or> uint (and x 3) = 3"
    by linarith
  then show ?thesis by (auto simp: word_uint_eq_iff)
qed

lemma keeps_fields:
  assumes "hinv first i0 k (c, i)" and "fmt \<in> {0, 1, 2, 3}"
  shows "keeps (hinv first i0 k) (chunk_errors i0) (\<lambda>_ _. True)
    ((if fmt \<le> RTMP_FMT_TYPE2
      then bindP (on_inp (take_bytes (mh_sizes ! unat fmt)))
           (\<lambda>bs. bindP (chunk_upd (parse_timestamp fmt bs))
           (\<lambda>_. if fmt \<le> RTMP_FMT_TYPE1 then parse_length_type fmt first bs else returnP ()))
      else chunk_upd (\<lambda>c. if first \<and> \<not> cs_extended_timestamp c
           then upd_header (\<lambda>h. h\<lparr>mh_timestamp := mh_timestamp h + scast (mh_timestamp_delta h)\<rparr>) c
           else c)) (c, i))"
proof (cases "fmt \<le> RTMP_FMT_TYPE2")
  case False
  have "hinv first i0 k (upd_header (\<lambda>h. h\<lparr>mh_timestamp := mh_timestamp h + scast (mh_timestamp_delta h)\<rparr>) c, i)"
    using assms(1) by (rule hinv_upd) simp
  with assms(1) have "keeps (hinv first i0 k) (chunk_errors i0) (\<lambda>_ _. True)
    (chunk_upd (\<lambda>c. if first \<and> \<not> cs_extended_timestamp c
           then upd_header (\<lambda>h. h\<lparr>mh_timestamp := mh_timestamp h + scast (mh_timestamp_delta h)\<rparr>) c
           else c) (c, i))"
    by (intro keeps_upd) (cases first, simp_all)
  with False show ?thesis by simp
next
  case True
  then have sz: "0 < mh_sizes ! unat fmt" "mh_sizes ! unat fmt \<le> SRS_DEFAULT_RECV_BUFFER_SIZE"
    using assms(2) by (auto simp: mh_sizes_def SRS_DEFAULT_RECV_BUFFER_SIZE_def)
  have "keeps (hinv first i0 k) (chunk_errors i0) (\<lambda>_ _. True)
     (bindP (on_inp (take_bytes (mh_sizes ! unat fmt)))
           (\<lambda>bs. bindP (chunk_upd (parse_timestamp fmt bs))
           (\<lambda>_. if fmt \<le> RTMP_FMT_TYPE1 then parse_length_type fmt first bs else returnP ())) (c, i))"
  proof (rule keeps_bind, rule keeps_take [OF assms(1) sz])
    fix bs :: "byte list" and s :: "chunk_stream \<times> inp"
    assume "hinv first i0 k s"
    then obtain c i where "s = (c, i)" and "hinv first i0 k (parse_timestamp fmt bs c, i)"
      by (cases s) (auto intro: hinv_parse_timestamp)
    then show "keeps (hinv first i0 k) (chunk_errors i0) (\<lambda>_ _. True)
        (bindP (chunk_upd (parse_timestamp fmt bs))
           (\<lambda>_. if fmt \<le> RTMP_FMT_TYPE1 then parse_length_type fmt first bs else returnP ()) s)"
      by (auto simp: prog_simps intro: keeps_parse_length_type keeps_return simp del: prog_eqs(1))
  qed
  with True show ?thesis by simp
qed

lemma keeps_read_message_header:
  assumes c: "chunk_ok c" and i: "inp_ok i" "inp_le i i0" "todo i \<le> k" and fmt: "fmt \<in> {0, 1, 2, 3}"
  shows "keeps (\<lambda>(c, i). chunk_ok c \<and> inp_ok i \<and> inp_le i i0 \<and> todo i \<le> k) (chunk_errors i0)
    (\<lambda>_ (c, i). \<exists>m. cs_msg c = Some m \<and> cm_header m = cs_header c) (read_message_header fmt (c, i))"
proof (cases "chunk_start_check fmt c")
  case False
  with c i show ?thesis
    by (simp add: read_message_header_def prog_simps keeps_def chunk_errors_def)
next
  case True
  let ?first = "cs_msg c = None"
  let ?c1 = "if cs_msg c = None then c\<lparr>cs_msg := Some cm_new\<rparr> else c"
  have h1: "hinv ?first i0 k (?c1, i)"
    using c i by (auto simp: hinv_def chunk_ok_def cm_new_def msg_partial_def)
  have "keeps (hinv ?first i0 k) (chunk_errors i0)
    (\<lambda>_ (c, i). \<exists>m. cs_msg c = Some m \<and> cm_header m = cs_header c)
    (bindP (if fmt \<le> RTMP_FMT_TYPE2
      then bindP (on_inp (take_bytes (mh_sizes ! unat fmt)))
           (\<lambda>bs. bindP (chunk_upd (parse_timestamp fmt bs))
           (\<lambda>_. if fmt \<le> RTMP_FMT_TYPE1 then parse_length_type fmt ?first bs else returnP ()))
      else chunk_upd (\<lambda>c. if ?first \<and> \<not> cs_extended_timestamp c
           then upd_header (\<lambda>h. h\<lparr>mh_timestamp := mh_timestamp h + scast (mh_timestamp_delta h)\<rparr>) c
           else c))
      (\<lambda>_. bindP (chunk_get cs_extended_timestamp)
          (\<lambda>ext. bindP (if ext then read_ext_timestamp ?first else returnP ())
          (\<lambda>_. finish_header))) (?c1, i))"
  proof (rule keeps_bind, rule keeps_fields [OF h1 fmt])
    fix s assume s: "hinv ?first i0 k s"
    obtain c2 i2 where ci: "s = (c2, i2)" by (cases s)
    have "keeps (hinv ?first i0 k) (chunk_errors i0) (\<lambda>_ _. True)
        ((if cs_extended_timestamp c2 then read_ext_timestamp ?first else returnP ()) (c2, i2))"
      using s by (auto simp: ci intro: keeps_read_ext_timestamp keeps_return)
    then have "keeps (hinv ?first i0 k) (chunk_errors i0)
      (\<lambda>_ (c, i). \<exists>m. cs_msg c = Some m \<and> cm_header m = cs_header c)
      (bindP (if cs_extended_timestamp c2 then read_ext_timestamp ?first else returnP ())
          (\<lambda>_. finish_header) (c2, i2))"
      by (rule keeps_bind) (auto intro: keeps_finish_header)
    then show "keeps (hinv ?first i0 k) (chunk_errors i0)
      (\<lambda>_ (c, i). \<exists>m. cs_msg c = Some m \<and> cm_header m = cs_header c)
      (bindP (chunk_get cs_extended_timestamp)
          (\<lambda>ext. bindP (if ext then read_ext_timestamp ?first else returnP ())
          (\<lambda>_. finish_header)) s)"
      by (simp add: ci prog_simps)
  qed
  moreover have "read_message_header fmt (c, i) = (bindP (if fmt \<le> RTMP_FMT_TYPE2
      then bindP (on_inp (take_bytes (mh_sizes ! unat fmt)))
           (\<lambda>bs. bindP (chunk_upd (parse_timestamp fmt bs))
           (\<lambda>_. if fmt \<le> RTMP_FMT_TYPE1 then parse_length_type fmt ?first bs else returnP ()))
      else chunk_upd (\<lambda>c. if ?first \<and> \<not> cs_extended_timestamp c
           then upd_header (\<lambda>h. h\<lparr>mh_timestamp := mh_timestamp h + scast (mh_timestamp_delta h)\<rparr>) c
           else c))
      (\<lambda>_. bindP (chunk_get cs_extended_timestamp)
          (\<lambda>ext. bindP (if ext then read_ext_timestamp ?first else returnP ())
          (\<lambda>_. finish_header))) (?c1, i))"
    using True by (simp add: read_message_header_def prog_simps Let_def split del: if_split)
  ultimately show ?thesis by (auto simp: keeps_def hinv_def split: sum.splits)
qed

section \<open>The payload and the whole chunk\<close>

lemma msg_partial_create:
  assumes "msg_partial len m" and "0 < len"
  shows "\<exists>got. (if cm_payload m = None then cm_create_payload len m else m)
    = m\<lparr>cm_size := int (length got),
        cm_payload := Some (map Some got @ replicate (nat len - length got) None)\<rparr>
    \<and> int (length got) < len \<and> cm_size m = int (length got)"
proof (cases "cm_payload m")
  case None
  with assms show ?thesis
    by (intro exI [of _ "[]"]) (simp add: msg_partial_def cm_create_payload_def)
next
  case (Some arr)
  with assms obtain got where g: "cm_size m = int (length got)" "int (length got) < len"
      "cm_payload m = Some (map Some got @ replicate (nat len - length got) None)"
    by (auto simp: msg_partial_def)
  then have "m = m\<lparr>cm_size := int (length got),
        cm_payload := Some (map Some got @ replicate (nat len - length got) None)\<rparr>"
    by (cases m) simp
  with g show ?thesis by (intro exI [of _ got]) simp
qed

lemma read_message_payload_safe:
  assumes c: "chunk_ok c" and m: "cs_msg c = Some m" "cm_header m = cs_header c"
    and i: "inp_ok i" and ics: "1 \<le> ics"
  shows "\<exists>r c' i'. read_message_payload ics (c, i) = (r, (c', i')) \<and> chunk_ok c' \<and> inp_ok i'
    \<and> inp_le i' i \<and> todo i' \<le> todo i
    \<and> (case r of Inl e \<Rightarrow> payload_errors i ics e | Inr None \<Rightarrow> True | Inr (Some m) \<Rightarrow> msg_complete m)"
proof -
  define len where "len = sint (mh_payload_length (cs_header c))"
  from c m have p: "msg_partial len m" "0 \<le> len" "0 \<le> cs_msg_count c"
    by (auto simp: chunk_ok_def len_def)
  show ?thesis
  proof (cases "len \<le> 0")
    case True
    then have "cm_payload m = None" "cm_size m = 0"
      using p(1) by (auto simp: msg_partial_def split: option.splits)
    then have "msg_complete m"
      using True p(2) m(2) by (simp add: msg_complete_def len_def)
    moreover have "read_message_payload ics (c, i) = (Inr (Some m), (c\<lparr>cs_msg := None\<rparr>, i))"
      using True m(1) by (simp add: read_message_payload_def prog_simps len_def)
    ultimately show ?thesis using c i by (simp add: chunk_ok_def)
  next
    case False
    define m1 where "m1 = (if cm_payload m = None then cm_create_payload len m else m)"
    obtain got where m1: "m1 = m\<lparr>cm_size := int (length got),
        cm_payload := Some (map Some got @ replicate (nat len - length got) None)\<rparr>"
      and got: "int (length got) < len" "cm_size m = int (length got)"
      using msg_partial_create [OF p(1)] False unfolding m1_def by force
    define k where "k = min (len - int (length got)) ics"
    have k: "0 < k" "k \<le> ics" using got ics by (simp_all add: k_def)
    define c1 where "c1 = c\<lparr>cs_msg := Some m1\<rparr>"
    have upd: "c\<lparr>cs_msg := map_option (\<lambda>m. if cm_payload m = None
        then cm_create_payload (sint (mh_payload_length (cs_header c))) m else m) (Some m)\<rparr> = c1"
      by (simp add: c1_def m1_def len_def)
    have c1: "chunk_ok c1"
      using c got by (auto simp: chunk_ok_def c1_def m1 msg_partial_def len_def)
    have sz: "min (sint (mh_payload_length (cs_header c)) - chunk_msg_size c) ics = k"
      using m(1) got(2) by (simp add: chunk_msg_size_def k_def len_def)
    define tail where "tail = (\<lambda>bs. bindP (msg_append bs)
         (\<lambda>_. bindP (chunk_get (\<lambda>c. (len = chunk_msg_size c, cs_msg c)))
         (\<lambda>(full, m). if full
              then bindP (chunk_upd (\<lambda>c. c\<lparr>cs_msg := None\<rparr>)) (\<lambda>_. returnP m)
              else returnP None)))"
    have run: "read_message_payload ics (c, i) = bindP (on_inp (take_bytes k)) tail (c1, i)"
      using False m(1)
      by (simp add: read_message_payload_def prog_simps upd sz tail_def len_def del: option.map)
    obtain r i' where r: "take_bytes k i = (r, i')" "inp_ok i'" "inp_le i' i" "todo i' \<le> todo i"
        "case r of Inl e \<Rightarrow> payload_errors i k e
         | Inr bs \<Rightarrow> length bs = nat k \<and> nat k \<le> fs_p (fst i') \<and> todo i' + nat k \<le> todo i"
      using take_bytes_safe_any [OF i k(1)] by blast
    show ?thesis
    proof (cases r)
      case (Inl e)
      with r run c1 k(2) show ?thesis by (auto simp: bindP_def on_inp_def payload_errors_def)
    next
      case (Inr bs)
      with r(5) have bs: "length bs = nat k" by simp
      have kb: "length got + nat k \<le> nat len" using got k by (simp add: k_def)
      define m2 where "m2 = m1\<lparr>cm_payload := Some (map Some (got @ bs)
          @ replicate (nat len - length (got @ bs)) None), cm_size := int (length (got @ bs))\<rparr>"
      have drop: "drop (length got + length bs) (map Some got @ replicate (nat len - length got) None)
          = replicate (nat len - length (got @ bs)) None"
        using bs by (simp add: diff_diff_add)
      have app: "msg_append bs (c1, i') = (Inr (), (c\<lparr>cs_msg := Some m2\<rparr>, i'))"
        using kb bs drop by (simp add: msg_append_def c1_def m1 payload_put_def m2_def)
      have full: "len = chunk_msg_size (c\<lparr>cs_msg := Some m2\<rparr>) \<longleftrightarrow> int (length (got @ bs)) = len"
        by (auto simp: chunk_msg_size_def m2_def)
      have tk: "on_inp (take_bytes k) (c1, i) = (Inr bs, (c1, i'))"
        using r(1) Inr by (simp add: on_inp_def)
      have "read_message_payload ics (c, i) = tail bs (c1, i')"
        using run by (simp add: bindP_Inr [where m = "on_inp (take_bytes k)" and s = "(c1, i)", OF tk])
      also have "\<dots> = (if int (length (got @ bs)) = len
          then (Inr (Some m2), (c\<lparr>cs_msg := None\<rparr>, i')) else (Inr None, (c\<lparr>cs_msg := Some m2\<rparr>, i')))"
        unfolding tail_def
        by (simp add: bindP_Inr [where m = "msg_append bs" and s = "(c1, i')", OF app] prog_simps full
            del: length_append)
      finally have run2: "read_message_payload ics (c, i) = \<dots>" .
      have hdr: "cm_header m2 = cs_header c" by (simp add: m2_def m1 m(2))
      show ?thesis
      proof (cases "int (length (got @ bs)) = len")
        case True
        have ne: "got @ bs \<noteq> []" using True False by auto
        have full2: "nat len - length (got @ bs) = 0" using True by simp
        have "cm_payload m2 = Some (map Some (got @ bs))" "cm_size m2 = len"
          unfolding m2_def using True full2 by simp_all
        then have "msg_complete m2"
          using True hdr ne unfolding msg_complete_def len_def by (metis option.distinct(1))
        with True run2 r c show ?thesis by (simp add: chunk_ok_def del: length_append)
      next
        case False
        then have "int (length (got @ bs)) < len" using kb bs k got by simp
        then have "chunk_ok (c\<lparr>cs_msg := Some m2\<rparr>)"
          using c by (auto simp: chunk_ok_def msg_partial_def m2_def len_def intro!: exI [of _ "got @ bs"])
        with False run2 r show ?thesis by (simp del: length_append)
      qed
    qed
  qed
qed


text \<open>
  The invariant of the reader: all chunk streams, the input and the chunk size; and the
  errors it can return. A chunk size that the peer set above the buffer makes long chunks
  unreadable.
\<close>

definition reader_inv :: "('a) chunk_reader_scheme \<Rightarrow> bool" where
  "reader_inv s \<longleftrightarrow> inp_ok (cr_in s) \<and> length (cr_cs_cache s) = 16
     \<and> (\<forall>c \<in> set (cr_cs_cache s). chunk_ok c)
     \<and> (\<forall>cid c. cr_chunk_streams s cid = Some c \<longrightarrow> chunk_ok c)
     \<and> 1 \<le> cr_in_chunk_size s"

definition reader_errors :: "('a) chunk_reader_scheme \<Rightarrow> srs_error \<Rightarrow> bool" where
  "reader_errors s e \<longleftrightarrow> chunk_errors (cr_in s) e
     \<or> (e = ERROR_READER_BUFFER_OVERFLOW \<and> fs_cap (fst (cr_in s)) < cr_in_chunk_size s)"

lemma chunk_ok_new: "chunk_ok (chunk_new cid)"
  by (simp add: chunk_ok_def chunk_new_def mh_new_def)

lemma chunk_find_ok:
  assumes "reader_inv s" and "0 \<le> cid"
  shows "chunk_ok (chunk_find cid s)"
proof (cases "cid < SRS_PERF_CHUNK_STREAM_CACHE")
  case True
  then have "nat cid < length (cr_cs_cache s)"
    using assms by (simp add: reader_inv_def SRS_PERF_CHUNK_STREAM_CACHE_def nat_less_iff)
  then have "cr_cs_cache s ! nat cid \<in> set (cr_cs_cache s)" by (rule nth_mem)
  with True assms show ?thesis by (simp add: reader_inv_def chunk_find_def)
next
  case False
  with assms chunk_ok_new show ?thesis
    by (auto simp: reader_inv_def chunk_find_def split: option.splits)
qed

lemma reader_inv_store:
  assumes "reader_inv s" and "chunk_ok c" and "inp_ok i"
  shows "reader_inv (chunk_store cid c (s\<lparr>cr_in := i\<rparr>))"
  using assms set_update_subset_insert [of "cr_cs_cache s" "nat cid" c]
  by (auto simp: reader_inv_def chunk_store_def split: if_splits)

lemma reader_inv_in: "reader_inv s \<Longrightarrow> inp_ok i \<Longrightarrow> reader_inv (s\<lparr>cr_in := i\<rparr>)"
  by (simp add: reader_inv_def)

lemma one_byte_safe:
  assumes "inp_ok i" and "1 \<le> n" and "n \<le> 2"
  shows "\<exists>r i'. fs_grow n i = (r, i') \<and> inp_ok i' \<and> inp_le i' i \<and> todo i' = todo i
    \<and> (case r of Inl e \<Rightarrow> e \<in> net_errors i | Inr _ \<Rightarrow> n \<le> fs_size (fst i'))"
proof -
  have cap: "n \<le> fs_cap (fst i)"
    using assms by (simp add: inp_ok_def SRS_DEFAULT_RECV_BUFFER_SIZE_def)
  obtain r j where "fs_grow n i = (r, j)" "inp_ok j" "inp_le j i" "todo j = todo i"
      "case r of Inl e \<Rightarrow> e \<in> net_errors i \<and> int (length (avail i)) < n
       | Inr _ \<Rightarrow> avail j = avail i \<and> n \<le> fs_size (fst j)"
    using fs_grow_spec [OF assms(1) cap] assms(2) by auto
  then show ?thesis by (intro exI [of _ r] exI [of _ j]) (cases r; simp)
qed

lemma take_one_safe:
  assumes "inp_ok i" and "1 \<le> fs_size (fst i)"
  shows "\<exists>b i'. on_fs fs_read_1byte i = (Inr b, i') \<and> inp_ok i' \<and> inp_le i' i
    \<and> todo i' + 1 = todo i \<and> fs_size (fst i') = fs_size (fst i) - 1"
  using on_fs_read_1byte [OF assms] fs_consume_facts [OF assms(1), of 1] assms(2) by auto

lemma read_basic_header_safe:
  assumes "inp_ok i"
  shows "\<exists>r i'. read_basic_header i = (r, i') \<and> inp_ok i' \<and> inp_le i' i
    \<and> (case r of Inl e \<Rightarrow> e \<in> net_errors i
       | Inr (fmt, cid) \<Rightarrow> fmt \<in> {0, 1, 2, 3} \<and> 2 \<le> cid \<and> cid \<le> 65599 \<and> todo i' < todo i)"
proof -
  obtain r1 i1 where 1: "fs_grow 1 i = (r1, i1)" "inp_ok i1" "inp_le i1 i" "todo i1 = todo i"
      "case r1 of Inl e \<Rightarrow> e \<in> net_errors i | Inr _ \<Rightarrow> 1 \<le> fs_size (fst i1)"
    using one_byte_safe [OF assms, of 1] by auto
  show ?thesis
  proof (cases r1)
    case (Inl e)
    with 1 show ?thesis by (simp add: read_basic_header_def bindP_def)
  next
    case (Inr u)
    with 1(5) have "1 \<le> fs_size (fst i1)" by simp
    from take_one_safe [OF 1(2) this] obtain b i2
      where 2: "on_fs fs_read_1byte i1 = (Inr b, i2)" "inp_ok i2" "inp_le i2 i1" "todo i2 + 1 = todo i1"
      by blast
    have le2: "inp_le i2 i" using 1(3) 2(3) inp_le_trans by blast
    define cid where "cid = uint (and b 0x3f)"
    define fmt where "fmt = and (signed_drop_bit 6 b) 0x03"
    have fmt: "fmt \<in> {0, 1, 2, 3}" unfolding fmt_def by (rule basic_fmt)
    have "and b 0x3f = take_bit 6 b" by (simp add: take_bit_eq_mask mask_eq_exp_minus_1)
    then have cid: "0 \<le> cid" "cid < 64"
      using take_bit_int_less_exp [of 6 "uint b"] by (simp_all add: cid_def unsigned_take_bit_eq)
    have byte: "0 \<le> uint x" "uint x \<le> 255" for x :: byte
      using uint_lt2p [of x] by simp_all
    have run: "read_basic_header i = (if cid > 1 then returnP (fmt, cid)
           else if cid = 0 then bindP (fs_grow 1)
             (\<lambda>_. bindP (on_fs fs_read_1byte) (\<lambda>c. returnP (fmt, 64 + uint c)))
           else if cid = 1 then bindP (fs_grow 2)
             (\<lambda>_. bindP (on_fs fs_read_1byte)
             (\<lambda>c. bindP (on_fs fs_read_1byte)
             (\<lambda>d. returnP (fmt, 64 + uint c + uint d * 256))))
           else raiseP ASSERT_FAILED) i2"
      using Inr 1(1) 2(1) by (simp add: read_basic_header_def bindP_def cid_def fmt_def Let_def)
    consider "1 < cid" | "cid = 0" | "cid = 1" using cid by linarith
    then show ?thesis
    proof cases
      case 1
      with run 2(2,4) \<open>todo i1 = todo i\<close> le2 fmt cid show ?thesis by (simp add: returnP_def)
    next
      case 2
      obtain r3 i3 where 3: "fs_grow 1 i2 = (r3, i3)" "inp_ok i3" "inp_le i3 i2" "todo i3 = todo i2"
          "case r3 of Inl e \<Rightarrow> e \<in> net_errors i2 | Inr _ \<Rightarrow> 1 \<le> fs_size (fst i3)"
        using one_byte_safe [OF \<open>inp_ok i2\<close>, of 1] by auto
      have le3: "inp_le i3 i" using le2 3(3) inp_le_trans by blast
      show ?thesis
      proof (cases r3)
        case (Inl e)
        with run 2 3 le3 le2 show ?thesis by (auto simp: bindP_def inp_le_def)
      next
        case (Inr u)
        with 3(5) have "1 \<le> fs_size (fst i3)" by simp
        from take_one_safe [OF 3(2) this] obtain c i4
          where 4: "on_fs fs_read_1byte i3 = (Inr c, i4)" "inp_ok i4" "inp_le i4 i3" "todo i4 + 1 = todo i3"
          by blast
        have "inp_le i4 i" using le3 4(3) inp_le_trans by blast
        with run 2 3(1) Inr 4 \<open>todo i3 = todo i2\<close> \<open>todo i2 + 1 = todo i1\<close> \<open>todo i1 = todo i\<close> fmt byte [of c]
        show ?thesis by (simp add: bindP_def returnP_def)
      qed
    next
      case 3
      obtain r3 i3 where 4: "fs_grow 2 i2 = (r3, i3)" "inp_ok i3" "inp_le i3 i2" "todo i3 = todo i2"
          "case r3 of Inl e \<Rightarrow> e \<in> net_errors i2 | Inr _ \<Rightarrow> 2 \<le> fs_size (fst i3)"
        using one_byte_safe [OF \<open>inp_ok i2\<close>, of 2] by auto
      have le3: "inp_le i3 i" using le2 4(3) inp_le_trans by blast
      show ?thesis
      proof (cases r3)
        case (Inl e)
        with run 3 4 le3 le2 show ?thesis by (auto simp: bindP_def inp_le_def)
      next
        case (Inr u)
        with 4(5) have two: "2 \<le> fs_size (fst i3)" by simp
        then have "1 \<le> fs_size (fst i3)" by simp
        from take_one_safe [OF 4(2) this] obtain c i4
          where 5: "on_fs fs_read_1byte i3 = (Inr c, i4)" "inp_ok i4" "inp_le i4 i3" "todo i4 + 1 = todo i3"
            "fs_size (fst i4) = fs_size (fst i3) - 1"
          by blast
        from 5(5) two have "1 \<le> fs_size (fst i4)" by simp
        from take_one_safe [OF 5(2) this] obtain d i5
          where 6: "on_fs fs_read_1byte i4 = (Inr d, i5)" "inp_ok i5" "inp_le i5 i4" "todo i5 + 1 = todo i4"
          by blast
        have "inp_le i5 i" using le3 5(3) 6(3) inp_le_trans by blast
        with run 3 4(1) Inr 5(1,4) 6 \<open>todo i3 = todo i2\<close> \<open>todo i2 + 1 = todo i1\<close> \<open>todo i1 = todo i\<close> fmt
          byte [of c] byte [of d]
        show ?thesis by (simp add: bindP_def returnP_def)
      qed
    qed
  qed
qed

lemma recv_interlaced_message_safe:
  assumes inv: "reader_inv s"
  shows "\<exists>r s'. recv_interlaced_message s = (r, s') \<and> reader_inv s' \<and> inp_le (cr_in s') (cr_in s)
    \<and> cr_in_chunk_size s' = cr_in_chunk_size s
    \<and> (case r of Inl e \<Rightarrow> reader_errors s e
       | Inr mo \<Rightarrow> todo (cr_in s') < todo (cr_in s) \<and> (\<forall>m. mo = Some m \<longrightarrow> msg_complete m))"
proof -
  from inv have i: "inp_ok (cr_in s)" and ics: "1 \<le> cr_in_chunk_size s"
    by (simp_all add: reader_inv_def)
  obtain r1 i1 where 1: "read_basic_header (cr_in s) = (r1, i1)" "inp_ok i1" "inp_le i1 (cr_in s)"
      "case r1 of Inl e \<Rightarrow> e \<in> net_errors (cr_in s)
       | Inr (fmt, cid) \<Rightarrow> fmt \<in> {0, 1, 2, 3} \<and> 2 \<le> cid \<and> cid \<le> 65599 \<and> todo i1 < todo (cr_in s)"
    using read_basic_header_safe [OF i] by blast
  show ?thesis
  proof (cases r1)
    case (Inl e)
    with 1 inv show ?thesis
      by (simp add: recv_interlaced_message_def on_cr_in_def bindP_def reader_inv_in reader_errors_def chunk_errors_def)
  next
    case (Inr fc)
    obtain fmt cid where fc: "fc = (fmt, cid)" by (cases fc)
    with 1(4) Inr have h: "fmt \<in> {0, 1, 2, 3}" "2 \<le> cid" "todo i1 < todo (cr_in s)" by simp_all
    define c where "c = chunk_find cid s"
    have c: "chunk_ok c" unfolding c_def using inv h(2) by (intro chunk_find_ok) simp_all
    let ?I = "\<lambda>(c, i). chunk_ok c \<and> inp_ok i \<and> inp_le i i1 \<and> todo i \<le> todo i1"
    obtain r2 c2 i2 where 2: "read_message_header fmt (c, i1) = (r2, (c2, i2))"
      by (cases "read_message_header fmt (c, i1)") auto
    have k: "keeps ?I (chunk_errors i1)
        (\<lambda>_ (c, i). \<exists>m. cs_msg c = Some m \<and> cm_header m = cs_header c) (r2, (c2, i2))"
      using keeps_read_message_header [OF c 1(2) inp_le_refl order_refl h(1)] 2 by simp
    have "inp_le i2 i1" using k by (simp add: keeps_def)
    then have le2: "inp_le i2 (cr_in s)" using 1(3) inp_le_trans by blast
    have start: "recv_interlaced_message s = (case bindP (read_message_header fmt)
          (\<lambda>_. read_message_payload (cr_in_chunk_size s)) (c, i1) of
        (r, (c', i')) \<Rightarrow> (r, chunk_store cid c' (s\<lparr>cr_in := i1, cr_in := i'\<rparr>)))"
      using 1(1) Inr h(2)
      by (simp add: recv_interlaced_message_def on_cr_in_def on_chunk_def bindP_def prog_eqs c_def fc
          split: prod.split sum.split)
    show ?thesis
    proof (cases r2)
      case (Inl e)
      have "reader_errors s e"
        using k Inl 1(3) by (auto simp: keeps_def reader_errors_def chunk_errors_def inp_le_def)
      with start 2 Inl k inv le2 show ?thesis
        by (simp add: bindP_def keeps_def reader_inv_store)
    next
      case (Inr u)
      then obtain m where m: "cs_msg c2 = Some m" "cm_header m = cs_header c2"
        using k by (auto simp: keeps_def)
      have c2: "chunk_ok c2" "inp_ok i2" "todo i2 \<le> todo i1" using k by (simp_all add: keeps_def)
      obtain r3 c3 i3 where 3: "read_message_payload (cr_in_chunk_size s) (c2, i2) = (r3, (c3, i3))"
          "chunk_ok c3" "inp_ok i3" "inp_le i3 i2" "todo i3 \<le> todo i2"
          "case r3 of Inl e \<Rightarrow> payload_errors i2 (cr_in_chunk_size s) e | Inr None \<Rightarrow> True | Inr (Some m) \<Rightarrow> msg_complete m"
        using read_message_payload_safe [OF c2(1) m c2(2) ics] by blast
      have run: "recv_interlaced_message s = (r3, chunk_store cid c3 (s\<lparr>cr_in := i3\<rparr>))"
        using start 2 Inr 3(1) by (simp add: bindP_def)
      have le3: "inp_le i3 (cr_in s)" using le2 3(4) inp_le_trans by blast
      show ?thesis
        using run reader_inv_store [OF inv 3(2,3), of cid] le3 3(5,6) c2(3) h(3) le2
        by (cases r3) (auto simp: reader_errors_def payload_errors_def chunk_errors_def inp_le_def
            split: option.splits)
    qed
  qed
qed

section \<open>Properties of the chunk reader\<close>

text \<open>The reader of a new connection.\<close>

definition reader_new :: "net_event list \<Rightarrow> int \<Rightarrow> chunk_reader" where
  "reader_new es n = \<lparr>cr_in = (fs_new, es), cr_cs_cache = chunk_cache_new,
     cr_chunk_streams = \<lambda>_. None, cr_in_chunk_size = n\<rparr>"

lemma chunk_find_new: "0 \<le> cid \<Longrightarrow> chunk_find cid (reader_new es n) = chunk_new cid"
  by (auto simp: chunk_find_def reader_new_def chunk_cache_new_def SRS_PERF_CHUNK_STREAM_CACHE_def
      simp del: upt_rec_numeral)

lemma inp_ok_new: "(\<forall>bs. Arrives bs \<in> set es \<longrightarrow> bs \<noteq> []) \<Longrightarrow> inp_ok (fs_new, es)"
  by (simp add: inp_ok_def fs_new_def SRS_DEFAULT_RECV_BUFFER_SIZE_def)

lemma reader_ok_new:
  "(\<forall>bs. Arrives bs \<in> set es \<longrightarrow> bs \<noteq> []) \<Longrightarrow> reader_ok n (\<lambda>_. None) (reader_new es (int n))"
  by (simp add: reader_ok_def chunk_find_new inp_ok_new)
    (simp add: reader_new_def inp_ok_new chunk_cache_new_def flight_ok_def chunk_new_def mh_new_def)

lemma reader_inv_new:
  "(\<forall>bs. Arrives bs \<in> set es \<longrightarrow> bs \<noteq> []) \<Longrightarrow> 1 \<le> n \<Longrightarrow> reader_inv (reader_new es n)"
  by (auto simp: reader_inv_def reader_new_def inp_ok_new chunk_cache_new_def chunk_ok_new
      simp del: upt_rec_numeral)

lemma avail_new: "avail (cr_in (reader_new es n)) = delivered es"
  by (simp add: reader_new_def avail_def fs_new_def fs_bytes_def)

text \<open>C8: Messages survive chunking, interleaving and fragmentation: if any number of messages
  on any chunk streams (ids 2 to 63) is cut into chunks of \<open>n\<close> bytes, the chunks interleaved
  in any order, and the bytes arrive cut in any way, then the reader returns for each chunk
  exactly the message that it completes (type, stream, length, 31 bit time, payload), or
  nothing, and consumes exactly the bytes of the chunks.\<close>

theorem interleaved_chunks_delivered:
  assumes "0 < n" and "int n \<le> SRS_DEFAULT_RECV_BUFFER_SIZE"
    and "mux_run n acts (\<lambda>_. None) = Some (bs, outs)"
    and "delivered es = bs @ rest" and "\<forall>b. Arrives b \<in> set es \<longrightarrow> b \<noteq> []"
  shows "\<exists>s'. recv_times (length acts) (reader_new es (int n)) = (Inr outs, s')
    \<and> avail (cr_in s') = rest"
  using recv_mux_run [OF assms(1-3) reader_ok_new [OF assms(5)]] assms(4) by (simp add: avail_new)

lemma mux_demo:
  "\<exists>bs outs. mux_run 2 [MuxStart 6 0x1000000 9 1 [1, 2, 3], MuxStart 7 5 8 1 [4], MuxCont 6] (\<lambda>_. None)
     = Some (bs, outs) \<and> 1 < length bs"
  by (simp add: mux_flight_def flight_next_def c0_bytes_def srs_chunk_header_c0_def
      SRS_CONSTS_RTMP_MAX_FMT0_HEADER_SIZE_def)

theorem interleaved_chunks_delivered_witness:
  "\<exists>bs outs s'. mux_run 2 [MuxStart 6 0x1000000 9 1 [1, 2, 3], MuxStart 7 5 8 1 [4], MuxCont 6] (\<lambda>_. None)
       = Some (bs, outs)
     \<and> recv_times 3 (reader_new [Arrives (take 1 bs), Arrives (drop 1 bs)] 2) = (Inr outs, s')
     \<and> avail (cr_in s') = []"
proof -
  obtain bs outs where m: "mux_run 2 [MuxStart 6 0x1000000 9 1 [1, 2, 3], MuxStart 7 5 8 1 [4], MuxCont 6]
      (\<lambda>_. None) = Some (bs, outs)" "1 < length bs"
    using mux_demo by blast
  have "\<forall>b. Arrives b \<in> set [Arrives (take 1 bs), Arrives (drop 1 bs)] \<longrightarrow> b \<noteq> []"
    using m(2) by auto
  then have "\<exists>s'. recv_times (length [MuxStart 6 0x1000000 9 1 [1, 2, 3], MuxStart 7 5 8 1 [4], MuxCont 6])
      (reader_new [Arrives (take 1 bs), Arrives (drop 1 bs)] (int 2)) = (Inr outs, s') \<and> avail (cr_in s') = []"
    by (intro interleaved_chunks_delivered [OF _ _ m(1)]) (simp_all add: SRS_DEFAULT_RECV_BUFFER_SIZE_def)
  moreover have "length [MuxStart 6 0x1000000 9 1 [1, 2, 3], MuxStart 7 5 8 1 [4], MuxCont 6] = 3"
    and "int 2 = 2" by simp_all
  ultimately show ?thesis using m(1) by metis
qed

text \<open>The chunk reader is safe on arbitrary input: from any state that the invariant
  describes, whatever bytes and errors the network gives, a call ends (each success consumes
  input) with an error of the socket, one of the two protocol errors, or, when the peer has
  set a chunk size above the capacity of the receive buffer, the overflow error of the buffer
  (no assertion fails, no byte is written outside of a payload); the invariant is kept, and a
  returned message is complete: as long as announced, every byte written.\<close>

theorem recv_interlaced_message_total:
  assumes "reader_inv s"
  shows "case recv_interlaced_message s of
      (Inl e, s') \<Rightarrow> reader_inv s' \<and> (e \<in> net_errors (cr_in s)
         \<or> e = ERROR_RTMP_CHUNK_START \<or> e = ERROR_RTMP_PACKET_SIZE
         \<or> (e = ERROR_READER_BUFFER_OVERFLOW \<and> fs_cap (fst (cr_in s)) < cr_in_chunk_size s))
    | (Inr mo, s') \<Rightarrow> reader_inv s' \<and> todo (cr_in s') < todo (cr_in s)
         \<and> (\<forall>m. mo = Some m \<longrightarrow> msg_complete m)"
proof -
  obtain r s' where "recv_interlaced_message s = (r, s')" "reader_inv s'"
    "case r of Inl e \<Rightarrow> reader_errors s e
       | Inr mo \<Rightarrow> todo (cr_in s') < todo (cr_in s) \<and> (\<forall>m. mo = Some m \<longrightarrow> msg_complete m)"
    using recv_interlaced_message_safe [OF assms] by blast
  then show ?thesis by (cases r) (auto simp: reader_errors_def chunk_errors_def)
qed

theorem recv_interlaced_message_total_witness:
  "let s = reader_new [Arrives [0x42, 0, 0], Arrives [0, 0, 0], Fails ERROR_SOCKET_TIMEOUT] 128
   in case recv_interlaced_message s of
      (Inl e, s') \<Rightarrow> reader_inv s' \<and> (e \<in> net_errors (cr_in s)
         \<or> e = ERROR_RTMP_CHUNK_START \<or> e = ERROR_RTMP_PACKET_SIZE
         \<or> (e = ERROR_READER_BUFFER_OVERFLOW \<and> fs_cap (fst (cr_in s)) < cr_in_chunk_size s))
    | (Inr mo, s') \<Rightarrow> reader_inv s' \<and> todo (cr_in s') < todo (cr_in s)
         \<and> (\<forall>m. mo = Some m \<longrightarrow> msg_complete m)"
  unfolding Let_def
  by (rule recv_interlaced_message_total, rule reader_inv_new)
    (auto simp: SRS_DEFAULT_RECV_BUFFER_SIZE_def)

end
