(* ===== verification/Srs_Send.thy ===== *)
theory Srs_Send
  imports Srs_Chunk
begin

text \<open>
  Sending: \<^verbatim>\<open>SrsProtocol::do_simple_send\<close>, which writes one chunk at a time, and
  \<^verbatim>\<open>SrsProtocol::do_send_messages\<close>, which collects the chunks of many messages in one
  array of I/O vectors whose headers live in a fixed cache
  (\<^verbatim>\<open>src/src/protocol/srs_rtmp_stack.cpp\<close>); and \<^verbatim>\<open>srs_write_large_iovs\<close>.
\<close>

section \<open>The socket\<close>

text \<open>
  The bytes that the peer's side accepted, and what the next calls of \<^verbatim>\<open>writev\<close> will give:
  success, also when the list is over, or an error, which accepts nothing.
\<close>

record out_sock =
  os_sent :: "byte list"
  os_plan :: "srs_error option list"

definition skt_writev :: "byte list list \<Rightarrow> (out_sock, unit) prog" where
  "skt_writev iovs o' = (case os_plan o' of
     [] \<Rightarrow> (Inr (), o'\<lparr>os_sent := os_sent o' @ concat iovs\<rparr>)
   | None # p \<Rightarrow> (Inr (), o'\<lparr>os_sent := os_sent o' @ concat iovs, os_plan := p\<rparr>)
   | Some e # p \<Rightarrow> (Inl e, o'\<lparr>os_plan := p\<rparr>))"

section \<open>One chunk at a time\<close>

text \<open>
  The loop of \<^verbatim>\<open>do_simple_send\<close>: \<open>p\<close> is the payload that is left. A chunk size of 0 makes
  the code send headers for ever (the fuel runs out), a negative one gives the kernel a
  vector of negative length.
\<close>

fun simple_send_loop :: "nat \<Rightarrow> bool \<Rightarrow> msg_header \<Rightarrow> int \<Rightarrow> byte list \<Rightarrow> (out_sock, unit) prog" where
  "simple_send_loop fuel first mh ocs p =
     (if p = [] then returnP ()
      else case fuel of 0 \<Rightarrow> raiseP OUT_OF_FUEL
      | Suc fuel' \<Rightarrow>
        (let c0c3 = (if first
               then srs_chunk_header_c0 (mh_perfer_cid mh) (ucast (mh_timestamp mh))
                 (mh_payload_length mh) (mh_message_type mh) (mh_stream_id mh)
                 SRS_CONSTS_RTMP_MAX_FMT0_HEADER_SIZE
               else srs_chunk_header_c3 (mh_perfer_cid mh) (ucast (mh_timestamp mh))
                 SRS_CONSTS_RTMP_MAX_FMT0_HEADER_SIZE);
             payload_size = min (int (length p)) ocs
         in bindP (checkP (0 < length c0c3) ASSERT_FAILED)
            (\<lambda>_. bindP (checkP (0 \<le> payload_size) UNDEFINED_BEHAVIOUR)
            (\<lambda>_. bindP (skt_writev [c0c3, take (nat payload_size) p])
            (\<lambda>_. simple_send_loop fuel' False mh ocs (drop (nat payload_size) p))))))"

declare simple_send_loop.simps [simp del]

definition do_simple_send :: "msg_header \<Rightarrow> int \<Rightarrow> byte list \<Rightarrow> (out_sock, unit) prog" where
  "do_simple_send mh ocs payload = simple_send_loop (length payload) True mh ocs payload"

section \<open>Vectors\<close>

text \<open>
  \<open>limits\<close> is \<^verbatim>\<open>sysconf(_SC_IOV_MAX)\<close>, a constant of the operating system.
\<close>

function write_iovs_from :: "nat \<Rightarrow> byte list list \<Rightarrow> (out_sock, unit) prog" where
  "write_iovs_from limits iovs =
     (if iovs = [] then returnP ()
      else if limits = 0 then raiseP OUT_OF_FUEL
      else bindP (skt_writev (take limits iovs)) (\<lambda>_. write_iovs_from limits (drop limits iovs)))"
  by pat_completeness auto
termination
  by (relation "measure (\<lambda>(_, iovs). length iovs)") auto

declare write_iovs_from.simps [simp del]

definition srs_write_large_iovs :: "nat \<Rightarrow> byte list list \<Rightarrow> (out_sock, unit) prog" where
  "srs_write_large_iovs limits iovs =
     (if length iovs < limits then skt_writev iovs else write_iovs_from limits iovs)"

section \<open>Many messages at once\<close>

definition SRS_CONSTS_C0C3_HEADERS_MAX :: int where "SRS_CONSTS_C0C3_HEADERS_MAX = 4096"
definition SRS_CONSTS_IOVS_MAX :: int where "SRS_CONSTS_IOVS_MAX = 256"

text \<open>
  A vector points into the header cache (offset and length) or to payload. The loop keeps
  the vectors filled so far (\<open>iov_index\<close> is their number) and the cache.
\<close>

datatype iov = IovCache nat nat | IovData "byte list"

record send_state =
  ss_out :: out_sock
  ss_heap :: sp_heap
  ss_cache :: "byte list"
  ss_cache_index :: nat
  ss_iovs :: "iov list"
  ss_nb_out_iovs :: int
  ss_warned :: bool

fun iov_bytes :: "byte list \<Rightarrow> iov \<Rightarrow> byte list" where
  "iov_bytes cache (IovCache off n) = take n (drop off cache)"
| "iov_bytes cache (IovData bs) = bs"

definition on_out :: "(out_sock, 'a) prog \<Rightarrow> (send_state, 'a) prog" where
  "on_out m = (\<lambda>s. case m (ss_out s) of (r, o') \<Rightarrow> (r, s\<lparr>ss_out := o'\<rparr>))"

definition on_heap :: "(sp_heap, 'a) prog \<Rightarrow> (send_state, 'a) prog" where
  "on_heap m = (\<lambda>s. case m (ss_heap s) of (r, h) \<Rightarrow> (r, s\<lparr>ss_heap := h\<rparr>))"

definition do_iovs_send :: "nat \<Rightarrow> (send_state, unit) prog" where
  "do_iovs_send limits = bindP (getP (\<lambda>s. map (iov_bytes (ss_cache s)) (ss_iovs s)))
     (\<lambda>iovs. on_out (srs_write_large_iovs limits iovs))"

text \<open>Writing a header into the cache at the current index, and a vector into the array.\<close>

definition cache_write :: "byte list \<Rightarrow> (send_state, unit) prog" where
  "cache_write hdr = bindP (getP (\<lambda>s. ss_cache_index s + length hdr \<le> length (ss_cache s)))
     (\<lambda>ok. bindP (checkP ok UNDEFINED_BEHAVIOUR)
     (\<lambda>_. modifyP (\<lambda>s. s\<lparr>ss_cache := take (ss_cache_index s) (ss_cache s) @ hdr
          @ drop (ss_cache_index s + length hdr) (ss_cache s)\<rparr>)))"

definition iovs_write :: "iov list \<Rightarrow> (send_state, unit) prog" where
  "iovs_write vs = bindP (getP (\<lambda>s. int (length (ss_iovs s) + length vs) \<le> ss_nb_out_iovs s))
     (\<lambda>ok. bindP (checkP ok UNDEFINED_BEHAVIOUR)
     (\<lambda>_. modifyP (\<lambda>s. s\<lparr>ss_iovs := ss_iovs s @ vs\<rparr>)))"

text \<open>
  After a chunk: the array grows when it could not take another pair (\<open>iov_index\<close> is still
  that of the pair just written), the indices move on, and a dry cache is sent.
\<close>

definition after_chunk :: "nat \<Rightarrow> nat \<Rightarrow> (send_state, unit) prog" where
  "after_chunk limits nbh =
     bindP (modifyP (\<lambda>s. if int (length (ss_iovs s)) - 2 \<ge> ss_nb_out_iovs s - 2
          then s\<lparr>ss_nb_out_iovs := ss_nb_out_iovs s + SRS_CONSTS_IOVS_MAX\<rparr> else s))
     (\<lambda>_. bindP (modifyP (\<lambda>s. s\<lparr>ss_cache_index := ss_cache_index s + nbh\<rparr>))
     (\<lambda>_. bindP (getP (\<lambda>s. SRS_CONSTS_C0C3_HEADERS_MAX - int (ss_cache_index s)))
     (\<lambda>c0c3_left. if c0c3_left < SRS_CONSTS_RTMP_MAX_FMT0_HEADER_SIZE
        then bindP (modifyP (\<lambda>s. s\<lparr>ss_warned := True\<rparr>))
             (\<lambda>_. bindP (do_iovs_send limits)
             (\<lambda>_. modifyP (\<lambda>s. s\<lparr>ss_iovs := [], ss_cache_index := 0\<rparr>)))
        else returnP ())))"

fun send_chunks :: "nat \<Rightarrow> nat \<Rightarrow> int \<Rightarrow> shared_msg \<Rightarrow> bool \<Rightarrow> byte list \<Rightarrow> (send_state, unit) prog" where
  "send_chunks fuel limits ocs m first p =
     (if p = [] then returnP ()
      else case fuel of 0 \<Rightarrow> raiseP OUT_OF_FUEL
      | Suc fuel' \<Rightarrow>
        bindP (getP (\<lambda>s. SRS_CONSTS_C0C3_HEADERS_MAX - int (ss_cache_index s)))
        (\<lambda>nb_cache. bindP (on_heap (sm_chunk_header nb_cache first m))
        (\<lambda>hdr. bindP (checkP (0 < length hdr) ASSERT_FAILED)
        (\<lambda>_. bindP (cache_write hdr)
        (\<lambda>_. bindP (getP ss_cache_index)
        (\<lambda>idx. let payload_size = min (int (length p)) ocs
          in bindP (checkP (0 \<le> payload_size) UNDEFINED_BEHAVIOUR)
             (\<lambda>_. bindP (iovs_write [IovCache idx (length hdr), IovData (take (nat payload_size) p)])
             (\<lambda>_. bindP (after_chunk limits (length hdr))
             (\<lambda>_. send_chunks fuel' limits ocs m False (drop (nat payload_size) p))))))))))"

declare send_chunks.simps [simp del]

text \<open>The bytes of a message: every cell up to its size has been written.\<close>

definition payload_bytes :: "int \<Rightarrow> byte option list \<Rightarrow> byte list res" where
  "payload_bytes n arr =
     (if int (length arr) < n \<or> None \<in> set (take (nat n) arr) then Inl UNDEFINED_BEHAVIOUR
      else Inr (map the (take (nat n) arr)))"

fun send_each :: "nat \<Rightarrow> int \<Rightarrow> shared_msg option list \<Rightarrow> (send_state, unit) prog" where
  "send_each limits ocs [] = returnP ()"
| "send_each limits ocs (None # ms) = send_each limits ocs ms"
| "send_each limits ocs (Some m # ms) =
     (if sm_payload m = None \<or> sm_size m \<le> 0 then send_each limits ocs ms
      else case payload_bytes (sm_size m) (the (sm_payload m)) of
        Inl e \<Rightarrow> raiseP e
      | Inr bs \<Rightarrow> bindP (send_chunks (length bs) limits ocs m True bs) (\<lambda>_. send_each limits ocs ms))"

text \<open>The indices are local variables of the call and start at 0.\<close>

definition do_send_messages :: "nat \<Rightarrow> int \<Rightarrow> shared_msg option list \<Rightarrow> (send_state, unit) prog" where
  "do_send_messages limits ocs msgs =
     bindP (modifyP (\<lambda>s. s\<lparr>ss_iovs := [], ss_cache_index := 0\<rparr>))
     (\<lambda>_. bindP (send_each limits ocs msgs)
     (\<lambda>_. bindP (getP (\<lambda>s. int (length (ss_iovs s)) \<le> 0))
     (\<lambda>none. if none then returnP () else do_iovs_send limits)))"

section \<open>What reaches the peer\<close>

text \<open>
  \<open>sends r o bs\<close>: from the socket \<open>o\<close>, either all of \<open>bs\<close> was accepted, or the run ended
  with an error of the socket and a prefix of \<open>bs\<close> was accepted.
\<close>

definition sends :: "unit res \<times> out_sock \<Rightarrow> out_sock \<Rightarrow> byte list \<Rightarrow> bool" where
  "sends ro o' bs \<longleftrightarrow> set (os_plan (snd ro)) \<subseteq> set (os_plan o') \<and> (case fst ro of
     Inr _ \<Rightarrow> os_sent (snd ro) = os_sent o' @ bs
   | Inl e \<Rightarrow> Some e \<in> set (os_plan o') \<and> (\<exists>xs ys. bs = xs @ ys \<and> os_sent (snd ro) = os_sent o' @ xs))"

lemma sends_writev: "concat iovs = bs \<Longrightarrow> sends (skt_writev iovs o') o' bs"
  by (auto simp: sends_def skt_writev_def split: list.splits option.splits)

lemma sends_return: "sends (returnP () o') o' []"
  by (simp add: sends_def returnP_def)

lemma sends_bind:
  assumes "sends (m o') o' b1" and "\<And>o''. sends (f () o'') o'' b2"
  shows "sends (bindP m f o') o' (b1 @ b2)"
proof (cases "m o'")
  case (Pair r o2)
  show ?thesis
  proof (cases r)
    case (Inl e)
    with assms(1) Pair show ?thesis by (force simp: sends_def bindP_def)
  next
    case (Inr u)
    with assms(1) Pair have 1: "set (os_plan o2) \<subseteq> set (os_plan o')" "os_sent o2 = os_sent o' @ b1"
      by (simp_all add: sends_def)
    have "bindP m f o' = f () o2" using Pair Inr by (simp add: bindP_def)
    with assms(2) [of o2] 1 show ?thesis
      by (auto simp: sends_def split: sum.splits)
  qed
qed

lemma sends_write_iovs_from: "0 < limits \<Longrightarrow> sends (write_iovs_from limits iovs o') o' (concat iovs)"
proof (induction limits iovs arbitrary: o' rule: write_iovs_from.induct)
  case (1 limits iovs)
  show ?case
  proof (cases "iovs = []")
    case True
    then show ?thesis by (subst write_iovs_from.simps) (simp add: sends_return)
  next
    case False
    have "sends (bindP (skt_writev (take limits iovs)) (\<lambda>_. write_iovs_from limits (drop limits iovs)) o') o'
        (concat (take limits iovs) @ concat (drop limits iovs))"
      using 1 False by (intro sends_bind sends_writev) auto
    then have "sends (bindP (skt_writev (take limits iovs)) (\<lambda>_. write_iovs_from limits (drop limits iovs)) o') o'
        (concat iovs)"
      by (simp flip: concat_append)
    with False 1(2) show ?thesis by (subst write_iovs_from.simps) simp
  qed
qed

lemma sends_large_iovs: "0 < limits \<Longrightarrow> sends (srs_write_large_iovs limits iovs o') o' (concat iovs)"
  by (simp add: srs_write_large_iovs_def sends_writev sends_write_iovs_from)

text \<open>The simple sender writes the bytes of the message.\<close>

lemma sends_c3_chunks:
  assumes "0 < n" and "length p \<le> fuel"
  shows "sends (simple_send_loop fuel False mh (int n) p o') o'
    (c3_chunks (mh_perfer_cid mh) (ucast (mh_timestamp mh)) n p)"
  using assms
proof (induction fuel arbitrary: p o')
  case 0
  then show ?case
    by (simp add: simple_send_loop.simps c3_chunks.simps [of _ _ _ "[]"] sends_return)
next
  case (Suc fuel)
  show ?case
  proof (cases "p = []")
    case True
    then show ?thesis
      by (simp add: simple_send_loop.simps c3_chunks.simps [of _ _ _ "[]"] sends_return)
  next
    case False
    let ?h = "c3_bytes (mh_perfer_cid mh) (ucast (mh_timestamp mh))"
    have ne: "0 < length ?h"
      by (simp add: c3_bytes_def srs_chunk_header_c3_def SRS_CONSTS_RTMP_MAX_FMT3_HEADER_SIZE_def)
    have k: "nat (min (int (length p)) (int n)) = min (length p) n" by simp
    have t: "take (min (length p) n) p = take n p" "drop (min (length p) n) p = drop n p"
      by (simp_all add: min_def)
    have "sends (bindP (skt_writev [?h, take n p])
        (\<lambda>_. simple_send_loop fuel False mh (int n) (drop n p)) o') o'
        ((?h @ take n p) @ c3_chunks (mh_perfer_cid mh) (ucast (mh_timestamp mh)) n (drop n p))"
      using Suc False by (intro sends_bind sends_writev Suc.IH) auto
    with False ne Suc.prems(1) show ?thesis
      by (subst simple_send_loop.simps, subst c3_chunks.simps)
        (simp add: Let_def k t prog_simps c3_bytes_def SRS_CONSTS_RTMP_MAX_FMT0_HEADER_SIZE_def)
  qed
qed

lemma sends_simple:
  assumes "0 < n" and "mh_payload_length mh = of_nat (length p)"
  shows "sends (do_simple_send mh (int n) p o') o' (message_bytes (mh_perfer_cid mh)
    (ucast (mh_timestamp mh)) (mh_message_type mh) (mh_stream_id mh) n p)"
proof (cases "p = []")
  case True
  then show ?thesis
    by (simp add: do_simple_send_def simple_send_loop.simps message_bytes_def sends_return)
next
  case False
  then obtain fuel where f: "length p = Suc fuel" by (cases p) auto
  let ?h = "c0_bytes (mh_perfer_cid mh) (ucast (mh_timestamp mh)) (of_nat (length p))
      (mh_message_type mh) (mh_stream_id mh)"
  have ne: "0 < length ?h"
    by (simp add: c0_bytes_def srs_chunk_header_c0_def SRS_CONSTS_RTMP_MAX_FMT0_HEADER_SIZE_def)
  have k: "nat (min (1 + int fuel) (int n)) = min (length p) n" using f by simp
  have t: "take (min (length p) n) p = take n p" "drop (min (length p) n) p = drop n p"
    by (simp_all add: min_def)
  have "sends (bindP (skt_writev [?h, take n p])
      (\<lambda>_. simple_send_loop fuel False mh (int n) (drop n p)) o') o'
      ((?h @ take n p) @ c3_chunks (mh_perfer_cid mh) (ucast (mh_timestamp mh)) n (drop n p))"
    using assms(1) f by (intro sends_bind sends_writev sends_c3_chunks) auto
  with False ne assms show ?thesis
    unfolding do_simple_send_def
    by (subst simple_send_loop.simps)
      (simp add: f Let_def k t [unfolded f] k [unfolded f] prog_simps message_bytes_def c0_bytes_def
        SRS_CONSTS_RTMP_MAX_FMT0_HEADER_SIZE_def)
qed

section \<open>The batched sender\<close>

text \<open>
  What the vectors not sent yet stand for, and the invariant of the loop: headers of vectors
  lie below the cache index, another header of any kind fits in the cache, another pair of
  vectors fits in the array.
\<close>

definition pending :: "send_state \<Rightarrow> byte list" where
  "pending s = concat (map (iov_bytes (ss_cache s)) (ss_iovs s))"

definition iov_below :: "nat \<Rightarrow> iov \<Rightarrow> bool" where
  "iov_below idx v = (case v of IovCache off n \<Rightarrow> off + n \<le> idx | IovData _ \<Rightarrow> True)"

definition send_inv :: "send_state \<Rightarrow> bool" where
  "send_inv s \<longleftrightarrow> length (ss_cache s) = 4096 \<and> ss_cache_index s + 16 \<le> 4096
     \<and> (\<forall>v \<in> set (ss_iovs s). iov_below (ss_cache_index s) v)
     \<and> int (length (ss_iovs s)) + 2 \<le> ss_nb_out_iovs s
     \<and> even (length (ss_iovs s)) \<and> even (ss_nb_out_iovs s)"

definition queues :: "unit res \<times> send_state \<Rightarrow> send_state \<Rightarrow> byte list \<Rightarrow> bool" where
  "queues rs s bs \<longleftrightarrow> set (os_plan (ss_out (snd rs))) \<subseteq> set (os_plan (ss_out s))
     \<and> ss_heap (snd rs) = ss_heap s
     \<and> (case fst rs of
          Inr _ \<Rightarrow> send_inv (snd rs)
            \<and> os_sent (ss_out (snd rs)) @ pending (snd rs) = os_sent (ss_out s) @ pending s @ bs
        | Inl e \<Rightarrow> Some e \<in> set (os_plan (ss_out s))
            \<and> (\<exists>ys. os_sent (ss_out s) @ pending s @ bs = os_sent (ss_out (snd rs)) @ ys))"

lemma queues_bind:
  assumes "queues (m s) s b1"
    and "\<And>s'. send_inv s' \<Longrightarrow> ss_heap s' = ss_heap s \<Longrightarrow> queues (f () s') s' b2"
  shows "queues (bindP m f s) s (b1 @ b2)"
proof (cases "m s")
  case (Pair r s')
  show ?thesis
  proof (cases r)
    case (Inl e)
    from assms(1) Pair Inl obtain ys where
      "os_sent (ss_out s) @ pending s @ b1 = os_sent (ss_out s') @ ys"
      by (auto simp: queues_def)
    then have "os_sent (ss_out s) @ pending s @ b1 @ b2 = os_sent (ss_out s') @ ys @ b2"
      by (metis append.assoc)
    then have "\<exists>zs. os_sent (ss_out s) @ pending s @ b1 @ b2 = os_sent (ss_out s') @ zs" by blast
    with assms(1) Pair Inl show ?thesis by (simp add: queues_def bindP_def)
  next
    case (Inr u)
    with assms(1) Pair have 1: "set (os_plan (ss_out s')) \<subseteq> set (os_plan (ss_out s))"
        "ss_heap s' = ss_heap s" "send_inv s'"
        "os_sent (ss_out s') @ pending s' = os_sent (ss_out s) @ pending s @ b1"
      by (simp_all add: queues_def)
    have b: "bindP m f s = f () s'" using Pair Inr by (simp add: bindP_def)
    have "os_sent (ss_out s') @ pending s' @ b2 = os_sent (ss_out s) @ pending s @ b1 @ b2"
      using 1(4) by (metis append.assoc)
    then have eq: "\<exists>ys. os_sent (ss_out s) @ pending s @ b1 @ b2 = zs @ ys"
      if "\<exists>ys. os_sent (ss_out s') @ pending s' @ b2 = zs @ ys" for zs
      using that by metis
    show ?thesis
      using assms(2) [OF 1(3,2)] 1(1,2) eq \<open>_ = os_sent (ss_out s) @ pending s @ b1 @ b2\<close>
      unfolding b queues_def by (cases "fst (f () s')") auto
  qed
qed

lemma queues_return: "send_inv s \<Longrightarrow> queues (returnP () s) s []"
  by (simp add: queues_def returnP_def)

text \<open>One chunk: its header goes to the cache, a pair of vectors to the array.\<close>

definition send_chunk :: "nat \<Rightarrow> byte list \<Rightarrow> byte list \<Rightarrow> (send_state, unit) prog" where
  "send_chunk limits hdr data = bindP (cache_write hdr)
     (\<lambda>_. bindP (getP ss_cache_index)
     (\<lambda>idx. bindP (iovs_write [IovCache idx (length hdr), IovData data])
     (\<lambda>_. after_chunk limits (length hdr))))"

lemma iov_bytes_below:
  assumes "iov_below idx v" and "take idx cache' = take idx cache"
  shows "iov_bytes cache' v = iov_bytes cache v"
proof (cases v)
  case (IovCache off n)
  with assms(1) have "off + n \<le> idx" by (simp add: iov_below_def)
  then have "take n (drop off c) = take n (drop off (take idx c))" for c :: "byte list"
    by (simp add: drop_take min_def)
  with IovCache assms(2) show ?thesis by (metis iov_bytes.simps(1))
qed simp

lemma queues_send_chunk:
  assumes inv: "send_inv s" and hdr: "0 < length hdr" "length hdr \<le> 16" and lim: "0 < limits"
  shows "queues (send_chunk limits hdr data s) s (hdr @ data)"
proof -
  let ?idx = "ss_cache_index s"
  define cache where "cache = take ?idx (ss_cache s) @ hdr @ drop (?idx + length hdr) (ss_cache s)"
  define vs where "vs = ss_iovs s @ [IovCache ?idx (length hdr), IovData data]"
  define nb where "nb = (if int (length vs) - 2 \<ge> ss_nb_out_iovs s - 2
      then ss_nb_out_iovs s + SRS_CONSTS_IOVS_MAX else ss_nb_out_iovs s)"
  define s4 where "s4 = s\<lparr>ss_cache := cache, ss_iovs := vs, ss_nb_out_iovs := nb,
      ss_cache_index := ?idx + length hdr\<rparr>"
  from inv have i: "length (ss_cache s) = 4096" "?idx + 16 \<le> 4096"
      "\<forall>v \<in> set (ss_iovs s). iov_below ?idx v" "int (length (ss_iovs s)) + 2 \<le> ss_nb_out_iovs s"
      "even (length (ss_iovs s))" "even (ss_nb_out_iovs s)"
    by (simp_all add: send_inv_def)
  have lc: "length cache = 4096" using i(1,2) hdr by (simp add: cache_def)
  have tk: "take ?idx cache = take ?idx (ss_cache s)" using i(1,2) by (simp add: cache_def)
  have "concat (map (iov_bytes cache) (ss_iovs s)) = pending s"
    unfolding pending_def by (rule arg_cong [where f = concat], rule map_cong)
      (use i(3) tk in \<open>auto intro: iov_bytes_below\<close>)
  moreover have "take (length hdr) (drop ?idx cache) = hdr" using i(1,2) by (simp add: cache_def)
  ultimately have pend: "concat (map (iov_bytes cache) vs) = pending s @ hdr @ data"
    by (simp add: vs_def)
  have below: "\<forall>v \<in> set vs. iov_below (?idx + length hdr) v"
    using i(3) by (fastforce simp: vs_def iov_below_def split: iov.splits)
  have nb: "int (length vs) + 2 \<le> nb" "even (length vs)" "even nb"
  proof -
    show ev: "even (length vs)" using i(5) by (simp add: vs_def)
    show "even nb" using i(6) by (simp add: nb_def SRS_CONSTS_IOVS_MAX_def)
    have "int (length vs) \<noteq> ss_nb_out_iovs s - 1" using ev i(6) by presburger
    then show "int (length vs) + 2 \<le> nb"
      using i(4) by (auto simp: nb_def vs_def SRS_CONSTS_IOVS_MAX_def)
  qed
  have run: "send_chunk limits hdr data s = (if 4096 - int (?idx + length hdr) < 16
      then bindP (modifyP (\<lambda>s. s\<lparr>ss_warned := True\<rparr>))
             (\<lambda>_. bindP (do_iovs_send limits)
             (\<lambda>_. modifyP (\<lambda>s. s\<lparr>ss_iovs := [], ss_cache_index := 0\<rparr>))) s4
      else returnP () s4)"
    using i(1,2,4) hdr
    by (simp add: send_chunk_def cache_write_def iovs_write_def after_chunk_def prog_simps bindP_assoc
        s4_def nb_def vs_def cache_def SRS_CONSTS_C0C3_HEADERS_MAX_def
        SRS_CONSTS_RTMP_MAX_FMT0_HEADER_SIZE_def)
  show ?thesis
  proof (cases "4096 - int (?idx + length hdr) < 16")
    case False
    have "send_inv s4"
      using lc False below nb by (simp add: send_inv_def s4_def)
    with run False pend show ?thesis
      by (simp add: queues_def returnP_def s4_def pending_def)
  next
    case True
    let ?o = "ss_out s"
    obtain r o' where w: "srs_write_large_iovs limits (map (iov_bytes cache) vs) ?o = (r, o')"
      by (cases "srs_write_large_iovs limits (map (iov_bytes cache) vs) ?o")
    have sd: "sends (r, o') ?o (pending s @ hdr @ data)"
      using sends_large_iovs [OF lim, of "map (iov_bytes cache) vs" ?o] w pend by simp
    have out: "send_chunk limits hdr data s = (case r of
        Inl e \<Rightarrow> (Inl e, s4\<lparr>ss_warned := True, ss_out := o'\<rparr>)
      | Inr _ \<Rightarrow> (Inr (), s4\<lparr>ss_warned := True, ss_out := o', ss_iovs := [], ss_cache_index := 0\<rparr>))"
      using run True w
      by (simp add: do_iovs_send_def on_out_def prog_simps bindP_def s4_def split: sum.splits)
    show ?thesis
    proof (cases r)
      case (Inl e)
      with sd out show ?thesis by (auto simp: queues_def sends_def s4_def)
    next
      case (Inr u)
      with sd out lc nb i(4) show ?thesis
        by (simp add: queues_def sends_def s4_def send_inv_def pending_def)
    qed
  qed
qed

text \<open>The header of a live message, when the cache has room.\<close>

lemma sm_chunk_header_live:
  assumes "sm_ptr m = Some a" and "h_mem h a = Some p" and "16 \<le> nb"
  shows "sm_chunk_header nb c0 m h = (Inr (if c0
    then c0_bytes (sp_perfer_cid p) (ucast (sm_timestamp m)) (sp_payload_length p) (sp_message_type p) (sm_stream_id m)
    else c3_bytes (sp_perfer_cid p) (ucast (sm_timestamp m))), h)"
  using assms
  by (simp add: sm_chunk_header_def sm_deref_def bindP_def returnP_def c0_bytes_def c3_bytes_def
      srs_chunk_header_c0_def srs_chunk_header_c3_def SRS_CONSTS_RTMP_MAX_FMT0_HEADER_SIZE_def
      SRS_CONSTS_RTMP_MAX_FMT3_HEADER_SIZE_def)

lemma header_lengths:
  "0 < length (c0_bytes cid ts len ty sid)" "length (c0_bytes cid ts len ty sid) \<le> 16"
  "0 < length (c3_bytes cid ts)" "length (c3_bytes cid ts) \<le> 16"
  by (auto simp: c0_bytes_def c3_bytes_def srs_chunk_header_c0_def srs_chunk_header_c3_def
      SRS_CONSTS_RTMP_MAX_FMT0_HEADER_SIZE_def SRS_CONSTS_RTMP_MAX_FMT3_HEADER_SIZE_def)

lemma send_chunks_step:
  assumes inv: "send_inv s" and live: "sm_ptr m = Some a" "h_mem (ss_heap s) a = Some sp"
    and p: "p \<noteq> []" and n: "0 < n"
  shows "send_chunks (Suc fuel) limits (int n) m first p s =
    bindP (send_chunk limits (if first
        then c0_bytes (sp_perfer_cid sp) (ucast (sm_timestamp m)) (sp_payload_length sp)
          (sp_message_type sp) (sm_stream_id m)
        else c3_bytes (sp_perfer_cid sp) (ucast (sm_timestamp m))) (take n p))
      (\<lambda>_. send_chunks fuel limits (int n) m False (drop n p)) s"
proof -
  define hdr where "hdr = (if first
        then c0_bytes (sp_perfer_cid sp) (ucast (sm_timestamp m)) (sp_payload_length sp)
          (sp_message_type sp) (sm_stream_id m)
        else c3_bytes (sp_perfer_cid sp) (ucast (sm_timestamp m)))"
  have "16 \<le> SRS_CONSTS_C0C3_HEADERS_MAX - int (ss_cache_index s)"
    using inv by (simp add: send_inv_def SRS_CONSTS_C0C3_HEADERS_MAX_def)
  from sm_chunk_header_live [OF live this, of first]
  have hd: "on_heap (sm_chunk_header (SRS_CONSTS_C0C3_HEADERS_MAX - int (ss_cache_index s)) first m) s
      = (Inr hdr, s)"
    by (simp add: on_heap_def hdr_def)
  have ne: "hdr \<noteq> []" using header_lengths by (auto simp: hdr_def)
  have k: "nat (min (int (length p)) (int n)) = min (length p) n" by simp
  have t: "take (min (length p) n) p = take n p" "drop (min (length p) n) p = drop n p"
    by (simp_all add: min_def)
  show ?thesis
    using p n ne
    by (subst send_chunks.simps)
      (simp add: prog_simps bindP_Inr [where m = "on_heap (sm_chunk_header
        (SRS_CONSTS_C0C3_HEADERS_MAX - int (ss_cache_index s)) first m)" and s = s, OF hd]
        Let_def k t send_chunk_def bindP_assoc bindP_check_True hdr_def [symmetric])
qed

lemma queues_c3_chunks:
  assumes "send_inv s" and "sm_ptr m = Some a" and "h_mem (ss_heap s) a = Some sp"
    and "0 < n" and "length p \<le> fuel" and "0 < limits"
  shows "queues (send_chunks fuel limits (int n) m False p s) s
    (c3_chunks (sp_perfer_cid sp) (ucast (sm_timestamp m)) n p)"
  using assms
proof (induction fuel arbitrary: p s)
  case 0
  then show ?case
    by (simp add: send_chunks.simps c3_chunks.simps [of _ _ _ "[]"] queues_return)
next
  case (Suc fuel)
  show ?case
  proof (cases "p = []")
    case True
    with Suc.prems(1) show ?thesis
      by (simp add: send_chunks.simps c3_chunks.simps [of _ _ _ "[]"] queues_return)
  next
    case False
    let ?h = "c3_bytes (sp_perfer_cid sp) (ucast (sm_timestamp m))"
    have "queues (bindP (send_chunk limits ?h (take n p))
        (\<lambda>_. send_chunks fuel limits (int n) m False (drop n p)) s) s
        ((?h @ take n p) @ c3_chunks (sp_perfer_cid sp) (ucast (sm_timestamp m)) n (drop n p))"
    proof (rule queues_bind)
      show "queues (send_chunk limits ?h (take n p) s) s (?h @ take n p)"
        using Suc.prems(1,6) header_lengths by (intro queues_send_chunk)
    next
      fix s' assume "send_inv s'" and "ss_heap s' = ss_heap s"
      then show "queues (send_chunks fuel limits (int n) m False (drop n p) s') s'
          (c3_chunks (sp_perfer_cid sp) (ucast (sm_timestamp m)) n (drop n p))"
        using Suc.prems by (intro Suc.IH) auto
    qed
    with False Suc.prems(4) send_chunks_step [OF Suc.prems(1-3) False Suc.prems(4), of fuel limits False]
    show ?thesis by (subst c3_chunks.simps) simp
  qed
qed

lemma queues_message:
  assumes "send_inv s" and "sm_ptr m = Some a" and "h_mem (ss_heap s) a = Some sp"
    and "0 < n" and "0 < limits" and "sp_payload_length sp = of_nat (length p)"
  shows "queues (send_chunks (length p) limits (int n) m True p s) s
    (message_bytes (sp_perfer_cid sp) (ucast (sm_timestamp m)) (sp_message_type sp) (sm_stream_id m) n p)"
proof (cases "p = []")
  case True
  with assms(1) show ?thesis by (simp add: send_chunks.simps message_bytes_def queues_return)
next
  case False
  then obtain fuel where f: "length p = Suc fuel" by (cases p) auto
  let ?h = "c0_bytes (sp_perfer_cid sp) (ucast (sm_timestamp m)) (of_nat (length p))
      (sp_message_type sp) (sm_stream_id m)"
  have "queues (bindP (send_chunk limits ?h (take n p))
      (\<lambda>_. send_chunks fuel limits (int n) m False (drop n p)) s) s
      ((?h @ take n p) @ c3_chunks (sp_perfer_cid sp) (ucast (sm_timestamp m)) n (drop n p))"
  proof (rule queues_bind)
    show "queues (send_chunk limits ?h (take n p) s) s (?h @ take n p)"
      using assms(1,5) header_lengths by (intro queues_send_chunk)
  next
    fix s' assume "send_inv s'" and "ss_heap s' = ss_heap s"
    then show "queues (send_chunks fuel limits (int n) m False (drop n p) s') s'
        (c3_chunks (sp_perfer_cid sp) (ucast (sm_timestamp m)) n (drop n p))"
      using assms f by (intro queues_c3_chunks) auto
  qed
  with send_chunks_step [OF assms(1-3) False assms(4), of fuel limits True] False
  show ?thesis by (simp add: f [symmetric] message_bytes_def assms(6) del: of_nat_Suc)
qed

text \<open>
  The bytes of a shared message: its shared object gives type, length and chunk id. A
  message without payload is not sent.
\<close>

definition sm_bytes :: "sp_heap \<Rightarrow> nat \<Rightarrow> shared_msg \<Rightarrow> byte list" where
  "sm_bytes h n m = (if sm_payload m = None \<or> sm_size m \<le> 0 then []
     else case Option.bind (sm_ptr m) (h_mem h) of
       None \<Rightarrow> []
     | Some p \<Rightarrow> message_bytes (sp_perfer_cid p) (ucast (sm_timestamp m)) (sp_message_type p)
         (sm_stream_id m) n (map the (take (nat (sm_size m)) (the (sm_payload m)))))"

text \<open>A message whose object is alive, fully written and has the length it announces.\<close>

definition sm_sendable :: "sp_heap \<Rightarrow> shared_msg \<Rightarrow> bool" where
  "sm_sendable h m \<longleftrightarrow> sm_payload m = None \<or> sm_size m \<le> 0 \<or>
     (\<exists>a p arr. sm_ptr m = Some a \<and> h_mem h a = Some p \<and> sm_payload m = Some arr
        \<and> sm_size m \<le> int (length arr) \<and> None \<notin> set (take (nat (sm_size m)) arr)
        \<and> sp_payload_length p = word_of_int (sm_size m))"

lemma queues_send_each:
  assumes "0 < n" and "0 < limits"
  shows "send_inv s \<Longrightarrow> (\<forall>m. Some m \<in> set ms \<longrightarrow> sm_sendable (ss_heap s) m) \<Longrightarrow>
    queues (send_each limits (int n) ms s) s
      (concat (map (\<lambda>mo. case mo of None \<Rightarrow> [] | Some m \<Rightarrow> sm_bytes (ss_heap s) n m) ms))"
proof (induction ms arbitrary: s)
  case Nil
  then show ?case by (simp add: queues_return)
next
  case (Cons mo ms)
  let ?rest = "concat (map (\<lambda>mo. case mo of None \<Rightarrow> [] | Some m \<Rightarrow> sm_bytes (ss_heap s) n m) ms)"
  have tl: "queues (send_each limits (int n) ms s') s' ?rest"
    if "send_inv s'" "ss_heap s' = ss_heap s" for s'
    using Cons.IH [OF that(1)] Cons.prems(2) that(2) by simp
  show ?case
  proof (cases mo)
    case None
    with tl [OF Cons.prems(1) refl] show ?thesis by simp
  next
    case (Some m)
    show ?thesis
    proof (cases "sm_payload m = None \<or> sm_size m \<le> 0")
      case True
      with Some tl [OF Cons.prems(1) refl] show ?thesis by (auto simp: sm_bytes_def)
    next
      case False
      with Cons.prems(2) Some obtain a p arr where m: "sm_ptr m = Some a" "h_mem (ss_heap s) a = Some p"
          "sm_payload m = Some arr" "sm_size m \<le> int (length arr)"
          "None \<notin> set (take (nat (sm_size m)) arr)" "sp_payload_length p = word_of_int (sm_size m)"
        by (auto simp: sm_sendable_def)
      let ?bs = "map the (take (nat (sm_size m)) arr)"
      have pb: "payload_bytes (sm_size m) arr = Inr ?bs" using m(4,5) by (simp add: payload_bytes_def)
      have "int (length ?bs) = sm_size m" using m(4) False by simp
      then have len: "sp_payload_length p = of_nat (length ?bs)"
        using m(6) by (metis of_int_of_nat_eq)
      have b: "sm_bytes (ss_heap s) n m = message_bytes (sp_perfer_cid p) (ucast (sm_timestamp m))
          (sp_message_type p) (sm_stream_id m) n ?bs"
        using False m(1-3) by (simp add: sm_bytes_def)
      have "queues (bindP (send_chunks (length ?bs) limits (int n) m True ?bs)
          (\<lambda>_. send_each limits (int n) ms) s) s (sm_bytes (ss_heap s) n m @ ?rest)"
        unfolding b
        by (rule queues_bind, rule queues_message [OF Cons.prems(1) m(1,2) assms len], rule tl)
      with Some False m(3) pb show ?thesis by simp
    qed
  qed
qed


section \<open>Properties of the senders\<close>

text \<open>C28: The batched sender is equivalent to sending the messages one by one: for any list
  of live messages (empty ones and \<^verbatim>\<open>NULL\<close> skipped), any chunk size, any limit of
  \<^verbatim>\<open>writev\<close>, it runs without an out of bounds access of the header cache or the vector
  array, and the peer receives the chunks of the messages in order; when the socket fails,
  the error is reported and what was received is a prefix of them.\<close>

theorem do_send_messages_correct:
  assumes "0 < n" and "0 < limits"
    and "length (ss_cache s) = 4096" and "2 \<le> ss_nb_out_iovs s" and "even (ss_nb_out_iovs s)"
    and "\<forall>m. Some m \<in> set ms \<longrightarrow> sm_sendable (ss_heap s) m"
  shows "case do_send_messages limits (int n) ms s of
      (Inr _, s') \<Rightarrow> os_sent (ss_out s') = os_sent (ss_out s)
        @ concat (map (\<lambda>mo. case mo of None \<Rightarrow> [] | Some m \<Rightarrow> sm_bytes (ss_heap s) n m) ms)
    | (Inl e, s') \<Rightarrow> Some e \<in> set (os_plan (ss_out s)) \<and> (\<exists>ys. os_sent (ss_out s') @ ys
        = os_sent (ss_out s)
        @ concat (map (\<lambda>mo. case mo of None \<Rightarrow> [] | Some m \<Rightarrow> sm_bytes (ss_heap s) n m) ms))"
proof -
  let ?all = "concat (map (\<lambda>mo. case mo of None \<Rightarrow> [] | Some m \<Rightarrow> sm_bytes (ss_heap s) n m) ms)"
  let ?s0 = "s\<lparr>ss_iovs := [], ss_cache_index := 0\<rparr>"
  have inv: "send_inv ?s0" using assms(3-5) by (simp add: send_inv_def)
  have p0: "pending ?s0 = []" by (simp add: pending_def)
  obtain r s1 where r: "send_each limits (int n) ms ?s0 = (r, s1)"
    by (cases "send_each limits (int n) ms ?s0")
  have q: "queues (r, s1) ?s0 ?all"
    using queues_send_each [OF assms(1,2) inv, of ms] assms(6) r by simp
  show ?thesis
  proof (cases r)
    case (Inl e)
    then have "do_send_messages limits (int n) ms s = (Inl e, s1)"
      using r by (simp add: do_send_messages_def prog_simps bindP_def)
    with q Inl p0 show ?thesis by (auto simp: queues_def)
  next
    case (Inr u)
    then have run: "do_send_messages limits (int n) ms s =
        (if ss_iovs s1 = [] then (Inr (), s1) else do_iovs_send limits s1)"
      using r by (simp add: do_send_messages_def prog_simps bindP_def)
    from q Inr p0 have s1: "os_sent (ss_out s1) @ pending s1 = os_sent (ss_out s) @ ?all"
      "set (os_plan (ss_out s1)) \<subseteq> set (os_plan (ss_out s))"
      by (simp_all add: queues_def)
    show ?thesis
    proof (cases "ss_iovs s1 = []")
      case True
      with run s1 show ?thesis by (simp add: pending_def)
    next
      case False
      obtain r2 o2 where w: "srs_write_large_iovs limits (map (iov_bytes (ss_cache s1)) (ss_iovs s1))
          (ss_out s1) = (r2, o2)"
        by (cases "srs_write_large_iovs limits (map (iov_bytes (ss_cache s1)) (ss_iovs s1)) (ss_out s1)")
      have sd: "sends (r2, o2) (ss_out s1) (pending s1)"
        using sends_large_iovs [OF assms(2), of "map (iov_bytes (ss_cache s1)) (ss_iovs s1)" "ss_out s1"] w
        by (simp add: pending_def)
      have run2: "do_send_messages limits (int n) ms s = (r2, s1\<lparr>ss_out := o2\<rparr>)"
        using run False w by (simp add: do_iovs_send_def prog_simps on_out_def)
      show ?thesis
      proof (cases r2)
        case (Inl e)
        with sd obtain xs ys where "pending s1 = xs @ ys" "os_sent o2 = os_sent (ss_out s1) @ xs"
          "Some e \<in> set (os_plan (ss_out s1))"
          by (auto simp: sends_def)
        with s1 have "os_sent o2 @ ys = os_sent (ss_out s) @ ?all"
          and "Some e \<in> set (os_plan (ss_out s))" by auto
        with run2 Inl show ?thesis by auto
      next
        case (Inr u)
        with sd s1(1) run2 show ?thesis by (simp add: sends_def)
      qed
    qed
  qed
qed

theorem do_send_messages_correct_witness:
  "let h = \<lparr>h_next = 1, h_mem = [0 \<mapsto> sp_new\<lparr>sp_payload := Some [Some 7, Some 8], sp_size := 2,
         sp_payload_length := 2, sp_message_type := 8, sp_perfer_cid := 7\<rparr>]\<rparr>;
       m = sm_new\<lparr>sm_ptr := Some 0, sm_payload := Some [Some 7, Some 8], sm_size := 2\<rparr>;
       s = \<lparr>ss_out = \<lparr>os_sent = [], os_plan = []\<rparr>, ss_heap = h, ss_cache = replicate 4096 0,
         ss_cache_index = 0, ss_iovs = [], ss_nb_out_iovs = 256, ss_warned = False\<rparr>;
       ms = [Some m, None, Some m]
   in case do_send_messages 1024 (int 128) ms s of
      (Inr _, s') \<Rightarrow> os_sent (ss_out s') = os_sent (ss_out s)
        @ concat (map (\<lambda>mo. case mo of None \<Rightarrow> [] | Some m \<Rightarrow> sm_bytes (ss_heap s) 128 m) ms)
    | (Inl e, s') \<Rightarrow> Some e \<in> set (os_plan (ss_out s)) \<and> (\<exists>ys. os_sent (ss_out s') @ ys
        = os_sent (ss_out s)
        @ concat (map (\<lambda>mo. case mo of None \<Rightarrow> [] | Some m \<Rightarrow> sm_bytes (ss_heap s) 128 m) ms))"
  unfolding Let_def by (rule do_send_messages_correct) (simp_all add: sm_sendable_def)

text \<open>The simple sender, for any chunk size, payload and socket, gives the peer the chunks
  of the message, or a prefix of them when it reports an error of the socket.\<close>

theorem do_simple_send_correct:
  assumes "0 < n" and "mh_payload_length mh = of_nat (length p)"
  shows "case do_simple_send mh (int n) p o' of
      (Inr _, o2) \<Rightarrow> os_sent o2 = os_sent o' @ message_bytes (mh_perfer_cid mh)
        (ucast (mh_timestamp mh)) (mh_message_type mh) (mh_stream_id mh) n p
    | (Inl e, o2) \<Rightarrow> Some e \<in> set (os_plan o') \<and> (\<exists>ys. os_sent o2 @ ys = os_sent o'
        @ message_bytes (mh_perfer_cid mh) (ucast (mh_timestamp mh)) (mh_message_type mh)
            (mh_stream_id mh) n p)"
  using sends_simple [OF assms, of o'] by (auto simp: sends_def split: sum.splits prod.splits)

theorem do_simple_send_correct_witness:
  "let mh = mh_new\<lparr>mh_payload_length := 3\<rparr>; p = [1, 2, 3]; o' = \<lparr>os_sent = [9], os_plan = [None, Some ERROR_SOCKET_WRITE]\<rparr>
   in case do_simple_send mh (int 2) p o' of
      (Inr _, o2) \<Rightarrow> os_sent o2 = os_sent o' @ message_bytes (mh_perfer_cid mh)
        (ucast (mh_timestamp mh)) (mh_message_type mh) (mh_stream_id mh) 2 p
    | (Inl e, o2) \<Rightarrow> Some e \<in> set (os_plan o') \<and> (\<exists>ys. os_sent o2 @ ys = os_sent o'
        @ message_bytes (mh_perfer_cid mh) (ucast (mh_timestamp mh)) (mh_message_type mh)
            (mh_stream_id mh) 2 p)"
  unfolding Let_def by (rule do_simple_send_correct) simp_all

end
