(* ===== verification/Srs_Protocol.thy ===== *)
theory Srs_Protocol
  imports Srs_Packet_Codec Srs_Chunk_Safety Srs_Send
begin

text \<open>
  \<^verbatim>\<open>SrsProtocol\<close> itself (\<^verbatim>\<open>src/src/protocol/srs_rtmp_stack.cpp\<close>): decoding a message into a
  packet, sending packets and shared messages, the reactions to the control messages of the
  peer (chunk size, window size, ping), the acknowledgements, and the queue of responses
  that wait for a flush.
\<close>

section \<open>State\<close>

record ack_window =
  aw_window :: "32 word"
  aw_nb_recv_bytes :: "64 word"
  aw_sequence_number :: "32 word"

definition ack_window_new :: ack_window where
  "ack_window_new = \<lparr>aw_window = 0, aw_nb_recv_bytes = 0, aw_sequence_number = 0\<rparr>"

text \<open>
  The protocol extends the chunk reader by the sending side and the session. \<open>pr_arrivals\<close> is
  the number of bytes that the socket gives in its whole life, from which \<^verbatim>\<open>get_recv_bytes\<close>
  follows; \<open>pr_junk\<close> what fresh memory holds. \<open>pr_requests\<close> is the tree map of \<^verbatim>\<open>requests\<close>
  in key order.
\<close>

record protocol = chunk_reader +
  pr_skt :: out_sock
  pr_arrivals :: nat
  pr_junk :: "nat \<Rightarrow> byte"
  pr_requests :: "(double \<times> string) list"
  pr_in_ack_size :: ack_window
  pr_out_ack_size :: ack_window
  pr_in_buffer_length :: "32 word"
  pr_show_debug_info :: bool
  pr_auto_response_when_recv :: bool
  pr_manual_response_queue :: "packet list"
  pr_heap :: sp_heap
  pr_nb_out_iovs :: int
  pr_out_c0c3_caches :: "byte list"
  pr_warned_c0c3_cache_dry :: bool
  pr_out_chunk_size :: "32 word"

definition protocol_new :: "net_event list \<Rightarrow> srs_error option list \<Rightarrow> (nat \<Rightarrow> byte) \<Rightarrow> protocol" where
  "protocol_new es plan junk =
     \<lparr>cr_in = (fs_new, es), cr_cs_cache = chunk_cache_new, cr_chunk_streams = \<lambda>_. None,
      cr_in_chunk_size = sint SRS_CONSTS_RTMP_PROTOCOL_CHUNK_SIZE,
      pr_skt = \<lparr>os_sent = [], os_plan = plan\<rparr>, pr_arrivals = todo (fs_new, es), pr_junk = junk,
      pr_requests = [], pr_in_ack_size = ack_window_new, pr_out_ack_size = ack_window_new,
      pr_in_buffer_length = 0, pr_show_debug_info = True, pr_auto_response_when_recv = True,
      pr_manual_response_queue = [], pr_heap = \<lparr>h_next = 0, h_mem = \<lambda>_. None\<rparr>,
      pr_nb_out_iovs = SRS_CONSTS_IOVS_MAX,
      pr_out_c0c3_caches = map junk [0..<nat SRS_CONSTS_C0C3_HEADERS_MAX],
      pr_warned_c0c3_cache_dry = False,
      pr_out_chunk_size = SRS_CONSTS_RTMP_PROTOCOL_CHUNK_SIZE\<rparr>"

definition set_auto_response :: "bool \<Rightarrow> (protocol, unit) prog" where
  "set_auto_response v = modifyP (\<lambda>s. s\<lparr>pr_auto_response_when_recv := v\<rparr>)"

definition set_recv_buffer :: "int \<Rightarrow> (protocol, unit) prog" where
  "set_recv_buffer n = modifyP (\<lambda>s. s\<lparr>cr_in := (fs_set_buffer n (fst (cr_in s)), snd (cr_in s))\<rparr>)"

definition set_in_window_ack_size :: "32 word \<Rightarrow> (protocol, unit) prog" where
  "set_in_window_ack_size ack_size =
     modifyP (\<lambda>s. s\<lparr>pr_in_ack_size := (pr_in_ack_size s)\<lparr>aw_window := ack_size\<rparr>\<rparr>)"

definition print_debug_info :: "(protocol, unit) prog" where
  "print_debug_info = modifyP (\<lambda>s. s\<lparr>pr_show_debug_info := False\<rparr>)"

text \<open>The bytes that the socket has given so far.\<close>

definition arriving :: "net_event list \<Rightarrow> nat" where
  "arriving es = sum_list (map (\<lambda>e. case e of Arrives bs \<Rightarrow> length bs | Fails _ \<Rightarrow> 0) es)"

definition get_recv_bytes :: "protocol \<Rightarrow> 64 word" where
  "get_recv_bytes s = of_nat (pr_arrivals s - arriving (snd (cr_in s)))"

section \<open>The table of requests\<close>

text \<open>
  \<^verbatim>\<open>std::map<double, std::string>\<close>: a search goes to the first key that is not below the
  wanted one and takes it if the wanted one is not below it. A NaN is neither below nor
  above any key, so it finds the first entry.
\<close>

fun requests_find :: "double \<Rightarrow> (double \<times> string) list \<Rightarrow> string option" where
  "requests_find t [] = None"
| "requests_find t ((k, name) # reqs) =
     (if dbl_less k t then requests_find t reqs
      else if dbl_less t k then None else Some name)"

fun requests_set :: "double \<Rightarrow> string \<Rightarrow> (double \<times> string) list \<Rightarrow> (double \<times> string) list" where
  "requests_set t name [] = [(t, name)]"
| "requests_set t name ((k, old) # reqs) =
     (if dbl_less k t then (k, old) # requests_set t name reqs
      else if dbl_less t k then (t, name) # (k, old) # reqs
      else (k, name) # reqs)"

section \<open>Decoding a message\<close>

text \<open>Back to the start of the message, or behind the first byte of an AMF3 command.\<close>

definition restart_decode :: "msg_header \<Rightarrow> sbuf \<Rightarrow> sbuf res" where
  "restart_decode h s = bindR (buf_skip (- 1 * buf_tell s) s)
     (\<lambda>s. if mh_is_amf3_command h then buf_skip 1 s else Inr s)"

text \<open>The packet class of the answer to a request, and of a command.\<close>

definition response_class :: "string \<Rightarrow> packet option" where
  "response_class request_name =
     (if request_name = RTMP_AMF0_COMMAND_CONNECT then Some (ConnectAppRes connect_app_res_new)
      else if request_name = RTMP_AMF0_COMMAND_CREATE_STREAM
      then Some (CreateStreamRes (create_stream_res_new dbl_0 dbl_0))
      else if request_name = RTMP_AMF0_COMMAND_RELEASE_STREAM
        \<or> request_name = RTMP_AMF0_COMMAND_FC_PUBLISH
        \<or> request_name = RTMP_AMF0_COMMAND_UNPUBLISH
      then Some (FMLEStartRes (fmle_start_res_new dbl_0))
      else None)"

definition command_class :: "msg_header \<Rightarrow> string \<Rightarrow> packet option" where
  "command_class h command =
     (if command = RTMP_AMF0_COMMAND_CONNECT then Some (ConnectApp connect_app_new)
      else if command = RTMP_AMF0_COMMAND_CREATE_STREAM then Some (CreateStream create_stream_new)
      else if command = RTMP_AMF0_COMMAND_PLAY then Some (Play play_new)
      else if command = RTMP_AMF0_COMMAND_PAUSE then Some (Pause pause_new)
      else if command = RTMP_AMF0_COMMAND_RELEASE_STREAM then Some (FMLEStart fmle_start_new)
      else if command = RTMP_AMF0_COMMAND_FC_PUBLISH then Some (FMLEStart fmle_start_new)
      else if command = RTMP_AMF0_COMMAND_PUBLISH then Some (Publish publish_new)
      else if command = RTMP_AMF0_COMMAND_UNPUBLISH then Some (FMLEStart fmle_start_new)
      else if command = SRS_CONSTS_RTMP_SET_DATAFRAME \<or> command = SRS_CONSTS_RTMP_ON_METADATA
      then Some (OnMetaData on_metadata_new)
      else if command \<in> {SRS_BW_CHECK_FINISHED, SRS_BW_CHECK_PLAYING, SRS_BW_CHECK_PUBLISHING,
          SRS_BW_CHECK_STARTING_PLAY, SRS_BW_CHECK_STARTING_PUBLISH, SRS_BW_CHECK_START_PLAY,
          SRS_BW_CHECK_START_PUBLISH, SRS_BW_CHECK_STOPPED_PLAY, SRS_BW_CHECK_STOP_PLAY,
          SRS_BW_CHECK_STOP_PUBLISH, SRS_BW_CHECK_STOPPED_PUBLISH, SRS_BW_CHECK_FINAL}
      then Some (Bandwidth bandwidth_new)
      else if command = RTMP_AMF0_COMMAND_CLOSE_STREAM then Some (CloseStream close_stream_new)
      else if mh_is_amf0_command h \<or> mh_is_amf3_command h then Some (Call call_new)
      else None)"

definition decode_as :: "packet \<Rightarrow> sbuf \<Rightarrow> (packet option \<times> sbuf) res" where
  "decode_as p s = bindR (packet_decode p s) (\<lambda>(p, s). Inr (Some p, s))"

text \<open>
  \<^verbatim>\<open>do_decode_message\<close>: data that is not understood becomes the base packet, a message of
  another type no packet at all.
\<close>

definition do_decode_message ::
    "(double \<times> string) list \<Rightarrow> msg_header \<Rightarrow> sbuf \<Rightarrow> (packet option \<times> sbuf) res" where
  "do_decode_message requests h s =
     (if mh_is_amf0_command h \<or> mh_is_amf3_command h \<or> mh_is_amf0_data h \<or> mh_is_amf3_data h
      then bindR (if mh_is_amf3_command h
             then bindR (buf_require 1 s) (\<lambda>b. if b then buf_skip 1 s else Inr s) else Inr s)
           (\<lambda>s. bindR (srs_amf0_read_string '''' s)
           (\<lambda>(command, s).
              if command = RTMP_AMF0_COMMAND_RESULT \<or> command = RTMP_AMF0_COMMAND_ERROR
              then bindR (srs_amf0_read_number s)
                   (\<lambda>(transactionId, s). bindR (restart_decode h s)
                   (\<lambda>s. case requests_find transactionId requests of
                          None \<Rightarrow> Inl ERROR_RTMP_NO_REQUEST
                        | Some request_name \<Rightarrow> (case response_class request_name of
                            None \<Rightarrow> Inl ERROR_RTMP_NO_REQUEST
                          | Some p \<Rightarrow> decode_as p s)))
              else bindR (restart_decode h s)
                   (\<lambda>s. case command_class h command of
                          None \<Rightarrow> Inr (Some BasePacket, s)
                        | Some p \<Rightarrow> decode_as p s)))
      else if mh_is_user_control_message h then decode_as (UserControl user_control_new) s
      else if mh_is_window_ackledgement_size h
      then decode_as (SetWindowAckSize \<lparr>sw_ackowledgement_window_size = 0\<rparr>) s
      else if mh_is_set_chunk_size h
      then decode_as (SetChunkSize \<lparr>scs_chunk_size = SRS_CONSTS_RTMP_PROTOCOL_CHUNK_SIZE\<rparr>) s
      else Inr (None, s))"

definition decode_message :: "(double \<times> string) list \<Rightarrow> common_msg \<Rightarrow> packet option res" where
  "decode_message requests msg =
     bindR (check (cm_payload msg \<noteq> None) ASSERT_FAILED)
     (\<lambda>_. bindR (check (cm_size msg > 0) ASSERT_FAILED)
     (\<lambda>_. bindR (payload_bytes (cm_size msg) (the (cm_payload msg)))
     (\<lambda>bs. bindR (buf_initialize (Some bs))
     (\<lambda>s. bindR (do_decode_message requests (cm_header msg) s) (\<lambda>(p, s). Inr p)))))"

section \<open>Sending packets\<close>

definition on_skt :: "(out_sock, 'a) prog \<Rightarrow> (protocol, 'a) prog" where
  "on_skt m = (\<lambda>s. case m (pr_skt s) of (r, o') \<Rightarrow> (r, s\<lparr>pr_skt := o'\<rparr>))"

text \<open>
  What a sent packet changes: the chunk size, the window, the table of requests. The message
  type is that of the packet; a cast that fails there is dereferenced.
\<close>

definition on_send_packet :: "msg_header \<Rightarrow> packet option \<Rightarrow> (protocol, unit) prog" where
  "on_send_packet mh packet = (case packet of
     None \<Rightarrow> returnP ()
   | Some p \<Rightarrow>
      if mh_message_type mh = RTMP_MSG_SetChunkSize
      then (case p of
          SetChunkSize pkt \<Rightarrow> modifyP (\<lambda>s. s\<lparr>pr_out_chunk_size := scs_chunk_size pkt\<rparr>)
        | _ \<Rightarrow> raiseP UNDEFINED_BEHAVIOUR)
      else if mh_message_type mh = RTMP_MSG_WindowAcknowledgementSize
      then (case p of
          SetWindowAckSize pkt \<Rightarrow> modifyP (\<lambda>s. s\<lparr>pr_out_ack_size :=
            (pr_out_ack_size s)\<lparr>aw_window := sw_ackowledgement_window_size pkt\<rparr>\<rparr>)
        | _ \<Rightarrow> raiseP UNDEFINED_BEHAVIOUR)
      else if mh_message_type mh = RTMP_MSG_AMF0CommandMessage
        \<or> mh_message_type mh = RTMP_MSG_AMF3CommandMessage
      then (case p of
          ConnectApp pkt \<Rightarrow> modifyP (\<lambda>s. s\<lparr>pr_requests :=
            requests_set (ca_transaction_id pkt) (ca_command_name pkt) (pr_requests s)\<rparr>)
        | CreateStream pkt \<Rightarrow> modifyP (\<lambda>s. s\<lparr>pr_requests :=
            requests_set (crs_transaction_id pkt) (crs_command_name pkt) (pr_requests s)\<rparr>)
        | FMLEStart pkt \<Rightarrow> modifyP (\<lambda>s. s\<lparr>pr_requests :=
            requests_set (fml_transaction_id pkt) (fml_command_name pkt) (pr_requests s)\<rparr>)
        | _ \<Rightarrow> returnP ())
      else if mh_message_type mh = RTMP_MSG_VideoMessage \<or> mh_message_type mh = RTMP_MSG_AudioMessage
      then print_debug_info
      else returnP ())"

definition packet_header :: "packet \<Rightarrow> nat \<Rightarrow> 32 word \<Rightarrow> msg_header" where
  "packet_header p nb stream_id = mh_new\<lparr>mh_payload_length := of_nat nb,
     mh_message_type := get_message_type p, mh_stream_id := stream_id,
     mh_perfer_cid := get_prefer_cid p\<rparr>"

definition do_send_and_free_packet :: "packet \<Rightarrow> 32 word \<Rightarrow> (protocol, unit) prog" where
  "do_send_and_free_packet p stream_id =
     bindP (getP (\<lambda>s. (pr_junk s, sint (pr_out_chunk_size s))))
     (\<lambda>(junk, ocs). case packet_encode junk p of
        Inl e \<Rightarrow> raiseP e
      | Inr (nb, payload) \<Rightarrow> (case payload of
          None \<Rightarrow> returnP ()
        | Some bs \<Rightarrow>
            if nb \<le> 0 then returnP ()
            else let header = packet_header p nb stream_id
              in bindP (on_skt (do_simple_send header ocs bs)) (\<lambda>_. on_send_packet header (Some p))))"

text \<open>
  \<open>flush_from ps\<close>: the iterator of \<^verbatim>\<open>manual_response_flush\<close> stands before the packets \<open>ps\<close>;
  a packet is taken out before it is sent, sending never touches the queue.
\<close>

fun flush_from :: "packet list \<Rightarrow> (protocol, unit) prog" where
  "flush_from [] = returnP ()"
| "flush_from (p # ps) =
     bindP (modifyP (\<lambda>s. s\<lparr>pr_manual_response_queue := ps\<rparr>))
     (\<lambda>_. bindP (do_send_and_free_packet p 0) (\<lambda>_. flush_from ps))"

definition manual_response_flush :: "(protocol, unit) prog" where
  "manual_response_flush = bindP (getP pr_manual_response_queue) flush_from"

definition send_and_free_packet :: "packet \<Rightarrow> 32 word \<Rightarrow> (protocol, unit) prog" where
  "send_and_free_packet p stream_id =
     bindP (do_send_and_free_packet p stream_id) (\<lambda>_. manual_response_flush)"

section \<open>Sending shared messages\<close>

definition on_msgs :: "(sp_heap, 'a) prog \<Rightarrow> (protocol, 'a) prog" where
  "on_msgs m = (\<lambda>s. case m (pr_heap s) of (r, h) \<Rightarrow> (r, s\<lparr>pr_heap := h\<rparr>))"

text \<open>The sender of many messages works on the socket, the heap and the header cache.\<close>

definition on_send_state :: "(send_state, 'a) prog \<Rightarrow> (protocol, 'a) prog" where
  "on_send_state m = (\<lambda>s. case m \<lparr>ss_out = pr_skt s, ss_heap = pr_heap s,
       ss_cache = pr_out_c0c3_caches s, ss_cache_index = 0, ss_iovs = [],
       ss_nb_out_iovs = pr_nb_out_iovs s, ss_warned = pr_warned_c0c3_cache_dry s\<rparr> of
     (r, t) \<Rightarrow> (r, s\<lparr>pr_skt := ss_out t, pr_heap := ss_heap t, pr_out_c0c3_caches := ss_cache t,
       pr_nb_out_iovs := ss_nb_out_iovs t, pr_warned_c0c3_cache_dry := ss_warned t\<rparr>))"

text \<open>The stream id is set message by message until one has it already.\<close>

fun update_stream_id :: "32 word \<Rightarrow> shared_msg option list \<Rightarrow> (protocol, shared_msg option list) prog" where
  "update_stream_id sid [] = returnP []"
| "update_stream_id sid (None # ms) =
     bindP (update_stream_id sid ms) (\<lambda>ms'. returnP (None # ms'))"
| "update_stream_id sid (Some m # ms) =
     bindP (on_msgs (sm_check sid m))
     (\<lambda>(ok, m'). if ok then returnP (Some m' # ms)
        else bindP (update_stream_id sid ms) (\<lambda>ms'. returnP (Some m' # ms')))"

fun free_msgs :: "shared_msg option list \<Rightarrow> (protocol, unit) prog" where
  "free_msgs [] = returnP ()"
| "free_msgs (None # ms) = free_msgs ms"
| "free_msgs (Some m # ms) = bindP (on_msgs (sm_destroy m)) (\<lambda>_. free_msgs ms)"

text \<open>The messages are freed whether they were sent or not; the error of the send comes back.\<close>

definition send_and_free_messages ::
    "nat \<Rightarrow> shared_msg option list \<Rightarrow> 32 word \<Rightarrow> (protocol, unit) prog" where
  "send_and_free_messages limits msgs stream_id =
     bindP (checkP (0 < length msgs) ASSERT_FAILED)
     (\<lambda>_. bindP (update_stream_id stream_id msgs)
     (\<lambda>msgs. bindP (getP (\<lambda>s. sint (pr_out_chunk_size s)))
     (\<lambda>ocs s. case on_send_state (do_send_messages limits ocs msgs) s of
        (r, s) \<Rightarrow> bindP (free_msgs msgs)
          (\<lambda>_. case r of Inl e \<Rightarrow> raiseP e
             | Inr _ \<Rightarrow> bindP manual_response_flush (\<lambda>_. print_debug_info)) s)))"

definition send_and_free_message :: "nat \<Rightarrow> shared_msg option \<Rightarrow> 32 word \<Rightarrow> (protocol, unit) prog" where
  "send_and_free_message limits msg stream_id = send_and_free_messages limits [msg] stream_id"


section \<open>Receiving messages\<close>

text \<open>
  The acknowledgement: when at least half of the window has come since the last one. Both
  counts wrap; a sequence number near the end of its range starts again.
\<close>

definition ack_due :: "protocol \<Rightarrow> bool" where
  "ack_due s \<longleftrightarrow> aw_window (pr_in_ack_size s) > 0
     \<and> \<not> (ucast (get_recv_bytes s - aw_nb_recv_bytes (pr_in_ack_size s)) :: 32 word)
         < aw_window (pr_in_ack_size s) div 2"

definition next_sequence_number :: "32 word \<Rightarrow> 32 word \<Rightarrow> 32 word" where
  "next_sequence_number old delta = (if old + delta > 0xf0000000 then delta else old + delta)"

text \<open>A response is sent at once, or queued when the user has chosen to flush himself.\<close>

definition respond :: "packet \<Rightarrow> (protocol, unit) prog" where
  "respond p = bindP (getP pr_auto_response_when_recv)
     (\<lambda>auto. if \<not> auto
        then modifyP (\<lambda>s. s\<lparr>pr_manual_response_queue := pr_manual_response_queue s @ [p]\<rparr>)
        else do_send_and_free_packet p 0)"

definition response_acknowledgement_message :: "(protocol, unit) prog" where
  "response_acknowledgement_message =
     bindP (getP (\<lambda>s. (ack_due s, get_recv_bytes s, pr_in_ack_size s)))
     (\<lambda>(due, recv, aw).
        if \<not> due then returnP ()
        else let delta = ucast (recv - aw_nb_recv_bytes aw);
                 sequence_number = next_sequence_number (aw_sequence_number aw) delta
          in bindP (modifyP (\<lambda>s. s\<lparr>pr_in_ack_size := aw\<lparr>aw_nb_recv_bytes := recv,
                 aw_sequence_number := sequence_number\<rparr>\<rparr>))
             (\<lambda>_. respond (Acknowledgement \<lparr>ack_sequence_number = sequence_number\<rparr>)))"

definition response_ping_message :: "32 word \<Rightarrow> (protocol, unit) prog" where
  "response_ping_message timestamp =
     respond (UserControl (user_control_new\<lparr>uc_event_type := SrcPCUCPingResponse,
       uc_event_data := timestamp\<rparr>))"

definition SRS_CONSTS_RTMP_MIN_CHUNK_SIZE :: int where "SRS_CONSTS_RTMP_MIN_CHUNK_SIZE = 128"

text \<open>
  What a decoded control message changes. A chunk size below the minimum is refused; one
  above the maximum is only warned about.
\<close>

definition on_window_ack_size :: "packet option \<Rightarrow> (protocol, unit) prog" where
  "on_window_ack_size packet = (case packet of
     Some (SetWindowAckSize pkt) \<Rightarrow>
       if sint (sw_ackowledgement_window_size pkt) > 0
       then modifyP (\<lambda>s. s\<lparr>pr_in_ack_size :=
              (pr_in_ack_size s)\<lparr>aw_window := sw_ackowledgement_window_size pkt\<rparr>\<rparr>)
       else returnP ()
   | _ \<Rightarrow> raiseP ASSERT_FAILED)"

definition on_set_chunk_size :: "packet option \<Rightarrow> (protocol, unit) prog" where
  "on_set_chunk_size packet = (case packet of
     Some (SetChunkSize pkt) \<Rightarrow>
       bindP (checkP (\<not> sint (scs_chunk_size pkt) < SRS_CONSTS_RTMP_MIN_CHUNK_SIZE) ERROR_RTMP_CHUNK_SIZE)
       (\<lambda>_. modifyP (\<lambda>s. s\<lparr>cr_in_chunk_size := sint (scs_chunk_size pkt)\<rparr>))
   | _ \<Rightarrow> raiseP ASSERT_FAILED)"

definition on_user_control :: "packet option \<Rightarrow> (protocol, unit) prog" where
  "on_user_control packet = (case packet of
     Some (UserControl pkt) \<Rightarrow>
       bindP (if uc_event_type pkt = SrcPCUCSetBufferLength
          then modifyP (\<lambda>s. s\<lparr>pr_in_buffer_length := uc_extra_data pkt\<rparr>) else returnP ())
       (\<lambda>_. if uc_event_type pkt = SrcPCUCPingRequest
          then response_ping_message (uc_event_data pkt) else returnP ())
   | _ \<Rightarrow> raiseP ASSERT_FAILED)"

definition on_recv_message :: "common_msg \<Rightarrow> (protocol, unit) prog" where
  "on_recv_message msg =
     bindP response_acknowledgement_message
     (\<lambda>_. bindP (getP pr_requests)
     (\<lambda>requests. let ty = mh_message_type (cm_header msg)
        in if ty = RTMP_MSG_SetChunkSize \<or> ty = RTMP_MSG_UserControlMessage
             \<or> ty = RTMP_MSG_WindowAcknowledgementSize
           then (case decode_message requests msg of
               Inl e \<Rightarrow> raiseP e
             | Inr packet \<Rightarrow>
                 if ty = RTMP_MSG_WindowAcknowledgementSize then on_window_ack_size packet
                 else if ty = RTMP_MSG_SetChunkSize then on_set_chunk_size packet
                 else on_user_control packet)
           else if ty = RTMP_MSG_VideoMessage \<or> ty = RTMP_MSG_AudioMessage
           then print_debug_info
           else returnP ()))"

text \<open>
  \<^verbatim>\<open>recv_message\<close> reads chunks until a message that is not empty is complete. Every round
  consumes input, so the bytes that can still come bound the rounds.
\<close>

fun recv_loop :: "nat \<Rightarrow> (protocol, common_msg) prog" where
  "recv_loop 0 = raiseP OUT_OF_FUEL"
| "recv_loop (Suc n) = bindP recv_interlaced_message
     (\<lambda>mo. case mo of
        None \<Rightarrow> recv_loop n
      | Some msg \<Rightarrow>
          if cm_size msg \<le> 0 \<or> sint (mh_payload_length (cm_header msg)) \<le> 0 then recv_loop n
          else bindP (on_recv_message msg) (\<lambda>_. returnP msg))"

definition recv_message :: "(protocol, common_msg) prog" where
  "recv_message s = recv_loop (Suc (todo (cr_in s))) s"

end
