(* ===== verification/Srs_Protocol_Safety.thy ===== *)
theory Srs_Protocol_Safety
  imports Srs_Protocol
begin

text \<open>
  Safety and termination of the receiving side of \<^verbatim>\<open>SrsProtocol\<close> on arbitrary bytes: first
  that no decoder of a packet violates an assertion or leaves its buffer, then that
  \<^verbatim>\<open>recv_message\<close> always ends, with a complete message or a documented error.
\<close>

section \<open>Decoders on arbitrary bytes\<close>

definition decode_errors :: "srs_error set" where
  "decode_errors = {ERROR_RTMP_AMF0_DECODE, ERROR_RTMP_AMF0_INVALID, ERROR_RTMP_MESSAGE_DECODE,
     ERROR_RTMP_MESSAGE_ENCODE, ERROR_RTMP_NO_REQUEST}"

text \<open>An error of the decoders, or a value and a position further on in the buffer.\<close>

definition fine :: "sbuf \<Rightarrow> ('a \<times> sbuf) res \<Rightarrow> bool" where
  "fine s r \<longleftrightarrow> (case r of Inl e \<Rightarrow> e \<in> decode_errors | Inr (v, s') \<Rightarrow> \<exists>n. s' = adv n s)"

lemma fine_return: "fine s (Inr (v, s))"
  by (auto simp: fine_def intro: exI [of _ 0])

lemma fine_safe: "safe_res k P s r \<Longrightarrow> fine s r"
  by (auto simp: fine_def safe_res_def decode_errors_def split: sum.splits)

lemma fine_adv: "fine (adv n s) r \<Longrightarrow> fine s r"
  by (auto simp: fine_def split: sum.splits)

lemma fine_bind:
  assumes "fine s m" and "\<And>v n. fine (adv n s) (f v (adv n s))"
  shows "fine s (bindR m (\<lambda>(v, s). f v s))"
proof (cases m)
  case (Inl e)
  with assms(1) show ?thesis by (simp add: fine_def)
next
  case (Inr p)
  with assms(1) obtain v n where "m = Inr (v, adv n s)" by (cases p) (auto simp: fine_def)
  with fine_adv [OF assms(2)] show ?thesis by simp
qed

lemma fine_st_bind:
  assumes "safe_st k s m" and "\<And>n. fine (adv n s) (f (adv n s))"
  shows "fine s (bindR m f)"
proof (cases m)
  case (Inl e)
  with assms(1) show ?thesis by (simp add: fine_def safe_st_def decode_errors_def)
next
  case (Inr s')
  with assms(1) obtain n where "m = Inr (adv n s)" by (auto simp: safe_st_def)
  with fine_adv [OF assms(2)] show ?thesis by simp
qed

lemma fine_check: "e \<in> decode_errors \<Longrightarrow> fine s r \<Longrightarrow> fine s (bindR (check c e) (\<lambda>_. r))"
  by (cases c) (simp_all add: fine_def)

lemma fine_check_name: "fine s r \<Longrightarrow> fine s (bindR (check_name ns n) (\<lambda>_. r))"
  unfolding check_name_def by (rule fine_check) (simp_all add: decode_errors_def)

lemma fine_if: "(c \<Longrightarrow> fine s r1) \<Longrightarrow> (\<not> c \<Longrightarrow> fine s r2) \<Longrightarrow> fine s (if c then r1 else r2)"
  by simp

text \<open>A string field with a default.\<close>

lemma read_utf8_default:
  "srs_amf0_read_utf8 v0 s = bindR (srs_amf0_read_utf8 '''' s)
     (\<lambda>(v, s'). Inr (if v = '''' then v0 else v, s'))"
proof (cases "room 2 s")
  case False
  then show ?thesis by (simp add: srs_amf0_read_utf8_def codec_simps)
next
  case True
  then obtain len where len: "read_2bytes s = Inr (len, adv 2 s)"
    by (simp add: read_2bytes_def fetch_numeral)
  show ?thesis
  proof (cases "0 < sint len \<and> room (nat (sint len)) (adv 2 s)")
    case False
    then show ?thesis
      using True by (auto simp: srs_amf0_read_utf8_def codec_simps len need_eq)
  next
    case True': True
    then have "nat (sint len) \<le> remaining (adv 2 s)"
      using room_remaining [of "nat (sint len)" "adv 2 s"] by simp
    then have "length (take (nat (sint len)) (upcoming (adv 2 s))) = nat (sint len)"
      unfolding remaining_def by (simp add: min_absorb2)
    moreover have "read_string (sint len) (adv 2 s)
        = Inr (map char_of_byte (take (nat (sint len)) (upcoming (adv 2 s))), adv (nat (sint len)) (adv 2 s))"
      using True' fetch_eq [of "nat (sint len)" "adv 2 s"] by (simp add: read_string_def)
    ultimately show ?thesis
      using True True' by (auto simp: srs_amf0_read_utf8_def codec_simps len need_eq)
  qed
qed

lemma fine_string: "fine s (srs_amf0_read_string v0 s)"
proof -
  have "srs_amf0_read_string v0 s = bindR (srs_amf0_read_string '''' s)
      (\<lambda>(v, s'). Inr (if v = '''' then v0 else v, s'))"
    by (cases "read_marker RTMP_AMF0_String s")
      (simp_all add: srs_amf0_read_string_def read_utf8_default [of v0] bindR_assoc)
  then show ?thesis
    using fine_bind [OF fine_safe [OF safe_read_string_any] fine_return] by simp
qed

lemma fine_object:
  assumes "\<not> sb_null s" and "ps = []"
  shows "fine s (amf0_object_read ps s)"
proof -
  have "safe_res (1 + 0) (\<lambda>ps. distinct (map fst ps) \<and> props_typed ps) s
      (object_read srs_amf0_read_any [] s)"
    by (rule safe_object_read) (use assms safe_srs_amf0_read_any in simp_all)
  then show ?thesis
    unfolding amf0_object_read_def assms(2) by (rule fine_safe)
qed

lemma fine_any: "\<not> sb_null s \<Longrightarrow> fine s (srs_amf0_read_any s)"
  by (rule fine_safe, rule safe_srs_amf0_read_any)

lemma safe_null: "safe_st 1 s (srs_amf0_read_null s)" "safe_st 1 s (srs_amf0_read_undefined s)"
  unfolding srs_amf0_read_null_def srs_amf0_read_undefined_def by (rule safe_marker)+

lemmas fine_fields = fine_bind [OF fine_string] fine_bind [OF fine_safe [OF safe_read_number]]
  fine_bind [OF fine_safe [OF safe_read_boolean]] fine_st_bind [OF safe_null(1)]
  fine_st_bind [OF safe_null(2)] fine_check_name fine_bind [OF fine_object] fine_bind [OF fine_any]
  fine_return fine_if fine_bind [OF fine_if] fine_string fine_safe [OF safe_read_number]


lemma fine_connect_app:
  assumes "\<not> sb_null s"
  shows "fine s (connect_app_decode connect_app_new s)"
    and "fine s (connect_app_res_decode connect_app_res_new s)"
    and "fine s (bandwidth_decode bandwidth_new s)"
  unfolding connect_app_decode_def connect_app_res_decode_def bandwidth_decode_def Let_def
  by (rule fine_fields | simp add: assms connect_app_new_def connect_app_res_new_def bandwidth_new_def; fail)+

lemma fine_commands:
  assumes "\<not> sb_null s"
  shows "fine s (call_decode p1 s)" "fine s (create_stream_decode p2 s)"
    "fine s (create_stream_res_decode p3 s)" "fine s (close_stream_decode p4 s)"
    "fine s (fmle_start_decode p5 s)" "fine s (fmle_start_res_decode p6 s)"
    "fine s (publish_decode p7 s)" "fine s (pause_decode p8 s)" "fine s (on_metadata_decode p9 s)"
  unfolding call_decode_def create_stream_decode_def create_stream_res_decode_def
    close_stream_decode_def fmle_start_decode_def fmle_start_res_decode_def publish_decode_def
    pause_decode_def on_metadata_decode_def Let_def
  by (rule fine_fields fine_check | simp add: assms decode_errors_def; fail)+

lemma fine_play:
  assumes "\<not> sb_null s"
  shows "fine s (play_decode p s)"
proof -
  have reset: "fine s (play_read_reset s)" if "\<not> sb_null s" for s
    using fine_any [OF that]
    by (auto simp: play_read_reset_def fine_def decode_errors_def split: sum.splits amf0.splits)
  show ?thesis
    unfolding play_decode_def
    by (rule fine_fields reset | simp add: assms; fail)+
qed

lemma fine_need:
  assumes "e \<in> decode_errors"
  shows "fine s (bindR (need 1 e s) (\<lambda>_. read_1bytes s))"
    "fine s (bindR (need 2 e s) (\<lambda>_. read_2bytes s))"
    "fine s (bindR (need 4 e s) (\<lambda>_. read_4bytes s))"
  using assms
  by (auto simp: fine_def codec_simps read_1bytes_def read_2bytes_def read_4bytes_def fetch_numeral)

lemma fine_need_bind:
  assumes "fine s (bindR (need n e s) (\<lambda>_. r s))" and "\<And>v n. fine (adv n s) (f v (adv n s))"
  shows "fine s (bindR (need n e s) (\<lambda>_. bindR (r s) (\<lambda>(v, s). f v s)))"
  using fine_bind [OF assms] by (simp add: bindR_assoc)

lemma fine_controls:
  "fine s (set_window_ack_size_decode p1 s)" "fine s (acknowledgement_decode p2 s)"
  "fine s (set_chunk_size_decode p3 s)" "fine s (user_control_decode p4 s)"
  unfolding set_window_ack_size_decode_def acknowledgement_decode_def set_chunk_size_decode_def
    user_control_decode_def
  by (rule fine_need_bind fine_need fine_bind fine_if fine_return
      | simp add: decode_errors_def; fail)+

text \<open>The objects that \<^verbatim>\<open>do_decode_message\<close> creates.\<close>

definition fresh_packets :: "packet set" where
  "fresh_packets = {ConnectApp connect_app_new, ConnectAppRes connect_app_res_new,
     Call call_new, CreateStream create_stream_new, CreateStreamRes (create_stream_res_new dbl_0 dbl_0),
     CloseStream close_stream_new, FMLEStart fmle_start_new, FMLEStartRes (fmle_start_res_new dbl_0),
     Publish publish_new, Pause pause_new, Play play_new, Bandwidth bandwidth_new,
     OnMetaData on_metadata_new, SetWindowAckSize \<lparr>sw_ackowledgement_window_size = 0\<rparr>,
     SetChunkSize \<lparr>scs_chunk_size = SRS_CONSTS_RTMP_PROTOCOL_CHUNK_SIZE\<rparr>,
     UserControl user_control_new}"

lemma fine_decoded: "fine s r \<Longrightarrow> fine s (decoded c r)"
  unfolding decoded_def by (rule fine_bind, assumption, rule fine_return)

lemma fine_decode_as:
  assumes "\<not> sb_null s" and "p \<in> fresh_packets"
  shows "fine s (decode_as p s)"
proof -
  have "fine s (packet_decode p s)"
    using assms(2) fine_connect_app [OF assms(1)] fine_commands [OF assms(1)] fine_play [OF assms(1)]
      fine_controls
    by (auto simp: fresh_packets_def intro!: fine_decoded)
  then show ?thesis
    unfolding decode_as_def by (rule fine_bind [OF _ fine_return])
qed

lemma response_class_fresh: "response_class n = Some p \<Longrightarrow> p \<in> fresh_packets"
  by (auto simp: response_class_def fresh_packets_def split: if_splits)

lemma command_class_fresh: "command_class h n = Some p \<Longrightarrow> p \<in> fresh_packets"
  by (auto simp: command_class_def fresh_packets_def split: if_splits)

definition sane :: "'a res \<Rightarrow> bool" where
  "sane r \<longleftrightarrow> (case r of Inl e \<Rightarrow> e \<in> decode_errors | Inr _ \<Rightarrow> True)"

lemma sane_fine: "fine s r \<Longrightarrow> sane r"
  by (auto simp: fine_def sane_def split: sum.splits)

lemma sane_bind_fine:
  assumes "fine s m" and "\<And>v n. m = Inr (v, adv n s) \<Longrightarrow> sane (f v (adv n s))"
  shows "sane (bindR m (\<lambda>(v, s). f v s))"
  using assms by (cases m) (auto simp: fine_def sane_def)

lemma restart_decode_eq:
  assumes "\<not> sb_null s"
  shows "restart_decode h s = Inr (s\<lparr>sb_pos := if mh_is_amf3_command h then 1 else 0\<rparr>)"
  using assms by (simp add: restart_decode_def buf_skip_def buf_tell_def)

lemma sane_do_decode_message:
  assumes ns: "\<not> sb_null s"
  shows "sane (do_decode_message reqs h s)"
proof (cases "mh_is_amf0_command h \<or> mh_is_amf3_command h \<or> mh_is_amf0_data h \<or> mh_is_amf3_data h")
  case False
  have "sane (decode_as p s)" if "p \<in> fresh_packets" for p
    using sane_fine [OF fine_decode_as [OF ns that]] .
  with False show ?thesis
    by (auto simp: do_decode_message_def fresh_packets_def sane_def)
next
  case True
  obtain k where k: "(if mh_is_amf3_command h
      then bindR (buf_require 1 s) (\<lambda>b. if b then buf_skip 1 s else Inr s) else Inr s) = Inr (adv k s)"
    using ns by (cases "mh_is_amf3_command h"; cases "room 1 s")
      (auto simp: buf_require_def buf_skip_def room_def adv_def intro: that [of 0] that [of 1])
  have sub: "sane (case c of None \<Rightarrow> d | Some p \<Rightarrow> decode_as p s')"
    if "\<And>p. c = Some p \<Longrightarrow> p \<in> fresh_packets" and "sane d" and "\<not> sb_null s'" for c d s'
    using that sane_fine [OF fine_decode_as] by (cases c) simp_all
  have d: "sane (Inl ERROR_RTMP_NO_REQUEST)" "sane (Inr x)" for x
    by (simp_all add: sane_def decode_errors_def)
  have tail: "sane (if command = RTMP_AMF0_COMMAND_RESULT \<or> command = RTMP_AMF0_COMMAND_ERROR
      then bindR (srs_amf0_read_number s')
           (\<lambda>(transactionId, s). bindR (restart_decode h s)
           (\<lambda>s. case requests_find transactionId reqs of
                  None \<Rightarrow> Inl ERROR_RTMP_NO_REQUEST
                | Some request_name \<Rightarrow> (case response_class request_name of
                    None \<Rightarrow> Inl ERROR_RTMP_NO_REQUEST
                  | Some p \<Rightarrow> decode_as p s)))
      else bindR (restart_decode h s')
           (\<lambda>s. case command_class h command of
                  None \<Rightarrow> Inr (Some BasePacket, s)
                | Some p \<Rightarrow> decode_as p s))" if s': "\<not> sb_null s'" for command s'
  proof (cases "command = RTMP_AMF0_COMMAND_RESULT \<or> command = RTMP_AMF0_COMMAND_ERROR")
    case True
    show ?thesis
      unfolding if_P [OF True]
    proof (rule sane_bind_fine [OF fine_safe [OF safe_read_number]])
      fix t n
      show "sane (bindR (restart_decode h (adv n s')) (\<lambda>s. case requests_find t reqs of
           None \<Rightarrow> Inl ERROR_RTMP_NO_REQUEST
         | Some request_name \<Rightarrow> (case response_class request_name of
             None \<Rightarrow> Inl ERROR_RTMP_NO_REQUEST | Some p \<Rightarrow> decode_as p s)))"
        using s' by (cases "requests_find t reqs")
          (simp_all add: restart_decode_eq d sub [OF response_class_fresh d(1)])
    qed
  next
    case False
    show ?thesis
      unfolding if_not_P [OF False]
      using s' sub [OF command_class_fresh d(2)] by (simp add: restart_decode_eq)
  qed
  show ?thesis
    unfolding do_decode_message_def if_P [OF True] k bindR_Inr
    by (rule sane_bind_fine [OF fine_string], rule tail) (simp add: ns)
qed

section \<open>Decoding a complete message\<close>

definition payload_buffer :: "byte list \<Rightarrow> sbuf" where
  "payload_buffer bs = \<lparr>sb_null = False, sb_bytes = bs, sb_pos = 0\<rparr>"

lemma payload_bytes_Some: "payload_bytes (int (length bs)) (map Some bs) = Inr bs"
  by (induction bs) (simp_all add: payload_bytes_def)

lemma decode_message_complete:
  assumes "cm_payload msg = Some (map Some bs)" and "int (length bs) = cm_size msg" and "bs \<noteq> []"
  shows "decode_message reqs msg
    = bindR (do_decode_message reqs (cm_header msg) (payload_buffer bs)) (\<lambda>(p, s). Inr p)"
proof -
  have "0 < cm_size msg" using assms(2,3) by (cases bs) simp_all
  moreover have "payload_bytes (cm_size msg) (map Some bs) = Inr bs"
    using payload_bytes_Some [of bs] assms(2) by simp
  ultimately show ?thesis
    using assms(1,3) by (simp add: decode_message_def buf_initialize_def payload_buffer_def)
qed

lemma packet_decode_class:
  "packet_decode (UserControl p) s = Inr (q, s') \<Longrightarrow> \<exists>pkt. q = UserControl pkt"
  "packet_decode (SetWindowAckSize p2) s = Inr (q, s') \<Longrightarrow> \<exists>pkt. q = SetWindowAckSize pkt"
  "packet_decode (SetChunkSize p3) s = Inr (q, s') \<Longrightarrow> \<exists>pkt. q = SetChunkSize pkt"
  by (auto simp: decoded_def bindR_eq_Inr)

lemma do_decode_control:
  assumes "do_decode_message reqs h s = Inr (po, s')"
  shows "mh_is_user_control_message h \<Longrightarrow> \<exists>pkt. po = Some (UserControl pkt)"
    and "mh_is_window_ackledgement_size h \<Longrightarrow> \<exists>pkt. po = Some (SetWindowAckSize pkt)"
    and "mh_is_set_chunk_size h \<Longrightarrow> \<exists>pkt. po = Some (SetChunkSize pkt)"
  using assms packet_decode_class
  by (auto simp: do_decode_message_def decode_as_def bindR_eq_Inr mh_is_user_control_message_def
      mh_is_window_ackledgement_size_def mh_is_set_chunk_size_def mh_is_amf0_command_def
      mh_is_amf3_command_def mh_is_amf0_data_def mh_is_amf3_data_def split: prod.splits)

lemma decode_message_safe:
  assumes "msg_complete msg" and "0 < cm_size msg"
  shows "case decode_message reqs msg of
      Inl e \<Rightarrow> e \<in> decode_errors
    | Inr po \<Rightarrow> (mh_is_user_control_message (cm_header msg) \<longrightarrow> (\<exists>pkt. po = Some (UserControl pkt)))
        \<and> (mh_is_window_ackledgement_size (cm_header msg) \<longrightarrow> (\<exists>pkt. po = Some (SetWindowAckSize pkt)))
        \<and> (mh_is_set_chunk_size (cm_header msg) \<longrightarrow> (\<exists>pkt. po = Some (SetChunkSize pkt)))"
proof -
  from assms obtain bs where "cm_payload msg = Some (map Some bs)" "int (length bs) = cm_size msg" "bs \<noteq> []"
    by (auto simp: msg_complete_def split: if_splits)
  note d = decode_message_complete [OF this]
  have "\<not> sb_null (payload_buffer bs)" by (simp add: payload_buffer_def)
  note s = sane_do_decode_message [OF this, of reqs "cm_header msg"]
  show ?thesis
  proof (cases "do_decode_message reqs (cm_header msg) (payload_buffer bs)")
    case (Inl e)
    with d s show ?thesis by (simp add: sane_def)
  next
    case (Inr q)
    obtain po s' where "q = (po, s')" by (cases q)
    with d Inr do_decode_control [of reqs "cm_header msg" "payload_buffer bs" po s'] show ?thesis by simp
  qed
qed

text \<open>C32: Decoding is safe and typed: a complete message, whatever its bytes and its type, is
  decoded without a failed assertion or an access outside of the payload; the only errors
  are those of the decoders and of an unknown request. A control message gives an object of
  its class, which the handlers cast to.\<close>

theorem decode_message_total:
  assumes "msg_complete msg" and "0 < cm_size msg"
  shows "case decode_message reqs msg of
      Inl e \<Rightarrow> e \<in> decode_errors
    | Inr po \<Rightarrow> (mh_is_user_control_message (cm_header msg) \<longrightarrow> (\<exists>pkt. po = Some (UserControl pkt)))
        \<and> (mh_is_window_ackledgement_size (cm_header msg) \<longrightarrow> (\<exists>pkt. po = Some (SetWindowAckSize pkt)))
        \<and> (mh_is_set_chunk_size (cm_header msg) \<longrightarrow> (\<exists>pkt. po = Some (SetChunkSize pkt)))"
  by (rule decode_message_safe [OF assms])

theorem decode_message_total_witness:
  "let msg = \<lparr>cm_header = mh_new\<lparr>mh_payload_length := 1, mh_message_type := 4\<rparr>, cm_size = 1,
       cm_payload = Some [Some 7]\<rparr> in
   case decode_message [] msg of
      Inl e \<Rightarrow> e \<in> decode_errors
    | Inr po \<Rightarrow> (mh_is_user_control_message (cm_header msg) \<longrightarrow> (\<exists>pkt. po = Some (UserControl pkt)))
        \<and> (mh_is_window_ackledgement_size (cm_header msg) \<longrightarrow> (\<exists>pkt. po = Some (SetWindowAckSize pkt)))
        \<and> (mh_is_set_chunk_size (cm_header msg) \<longrightarrow> (\<exists>pkt. po = Some (SetChunkSize pkt)))"
  unfolding Let_def
  by (rule decode_message_total) (auto simp: msg_complete_def intro: exI [of _ "[7]"])

end
