(* ===== verification/Srs_Protocol_Recv.thy ===== *)
theory Srs_Protocol_Recv
  imports Srs_Protocol_Safety
begin

text \<open>
  What \<^verbatim>\<open>SrsProtocol\<close> sends for a packet, for its queue of responses and in reaction to a
  received message, and the receiving loop: it always ends, with a complete message that is
  not empty or with a documented error.
\<close>

section \<open>Sending a packet\<close>

text \<open>What a packet that was sent changes in the session.\<close>

fun sent_effect :: "packet \<Rightarrow> protocol \<Rightarrow> protocol" where
  "sent_effect (SetChunkSize pkt) s = s\<lparr>pr_out_chunk_size := scs_chunk_size pkt\<rparr>"
| "sent_effect (SetWindowAckSize pkt) s =
     s\<lparr>pr_out_ack_size := (pr_out_ack_size s)\<lparr>aw_window := sw_ackowledgement_window_size pkt\<rparr>\<rparr>"
| "sent_effect (ConnectApp pkt) s =
     s\<lparr>pr_requests := requests_set (ca_transaction_id pkt) (ca_command_name pkt) (pr_requests s)\<rparr>"
| "sent_effect (CreateStream pkt) s =
     s\<lparr>pr_requests := requests_set (crs_transaction_id pkt) (crs_command_name pkt) (pr_requests s)\<rparr>"
| "sent_effect (FMLEStart pkt) s =
     s\<lparr>pr_requests := requests_set (fml_transaction_id pkt) (fml_command_name pkt) (pr_requests s)\<rparr>"
| "sent_effect _ s = s"

lemma on_send_packet_eq:
  "encodable p \<Longrightarrow> on_send_packet (packet_header p nb sid) (Some p) s = (Inr (), sent_effect p s)"
  by (cases p) (simp_all add: on_send_packet_def packet_header_def prog_eqs)

text \<open>The bytes of a packet on the wire.\<close>

definition wire :: "packet \<Rightarrow> 32 word \<Rightarrow> nat \<Rightarrow> byte list" where
  "wire p sid n = message_bytes (get_prefer_cid p) 0 (get_message_type p) sid n (packet_enc p)"

lemma do_send_and_free_packet_eq:
  assumes "encodable p"
  shows "do_send_and_free_packet p sid s =
    bindP (on_skt (do_simple_send (packet_header p (get_size p) sid) (sint (pr_out_chunk_size s)) (packet_enc p)))
      (\<lambda>_ s. (Inr (), sent_effect p s)) s"
proof -
  have "on_send_packet (packet_header p (get_size p) sid) (Some p) = (\<lambda>s. (Inr (), sent_effect p s))"
    using on_send_packet_eq [OF assms] by (simp add: fun_eq_iff)
  with assms get_size_pos [OF assms] show ?thesis
    by (simp add: do_send_and_free_packet_def prog_simps packet_encode_eq Let_def)
qed

lemma sends_packet:
  assumes "encodable p" and "0 < n"
  shows "sends (do_simple_send (packet_header p (get_size p) sid) (int n) (packet_enc p) o') o' (wire p sid n)"
proof -
  let ?h = "packet_header p (get_size p) sid"
  have "mh_payload_length ?h = of_nat (length (packet_enc p))"
    by (simp add: packet_header_def length_packet_enc)
  from sends_simple [OF assms(2) this, of o'] show ?thesis
    by (simp add: wire_def packet_header_def mh_new_def)
qed

lemma send_packet_cases:
  assumes "encodable p" and "1 \<le> sint (pr_out_chunk_size s)"
  obtains o' where "do_send_and_free_packet p sid s = (Inr (), sent_effect p (s\<lparr>pr_skt := o'\<rparr>))"
      "set (os_plan o') \<subseteq> set (os_plan (pr_skt s))"
      "os_sent o' = os_sent (pr_skt s) @ wire p sid (nat (sint (pr_out_chunk_size s)))"
  | e o' where "do_send_and_free_packet p sid s = (Inl e, s\<lparr>pr_skt := o'\<rparr>)"
      "set (os_plan o') \<subseteq> set (os_plan (pr_skt s))" "Some e \<in> set (os_plan (pr_skt s))"
      "\<exists>ys. os_sent o' @ ys = os_sent (pr_skt s) @ wire p sid (nat (sint (pr_out_chunk_size s)))"
proof -
  let ?n = "nat (sint (pr_out_chunk_size s))"
  obtain r o' where r: "do_simple_send (packet_header p (get_size p) sid) (int ?n) (packet_enc p) (pr_skt s) = (r, o')"
    by fastforce
  have "0 < ?n" and i: "int ?n = sint (pr_out_chunk_size s)" using assms(2) by simp_all
  from sends_packet [OF assms(1) this(1), of sid "pr_skt s"] r
  have w: "sends (r, o') (pr_skt s) (wire p sid ?n)" by simp
  note r = r [unfolded i]
  show thesis
  proof (cases r)
    case (Inl e)
    with w r show thesis
      by (intro that(2) [of e o'])
        (auto simp: do_send_and_free_packet_eq [OF assms(1)] i sends_def on_skt_def bindP_def)
  next
    case (Inr u)
    with w r show thesis
      by (intro that(1) [of o'])
        (auto simp: do_send_and_free_packet_eq [OF assms(1)] i sends_def on_skt_def bindP_def)
  qed
qed

text \<open>C31: Sending a packet puts exactly its chunks on the wire, cut at the current chunk
  size, and then, and only then, changes the session: the chunk size of the next packet, the
  window that the peer acknowledges, the request that a response will be matched with. When
  the socket fails, a prefix of the chunks was sent, its error comes back and the session is
  as before. A packet without an encoder is refused and nothing is sent.\<close>

theorem send_packet_correct:
  assumes "1 \<le> sint (pr_out_chunk_size s)"
  shows "case do_send_and_free_packet p sid s of
      (Inr _, s') \<Rightarrow> encodable p \<and> s' = sent_effect p (s\<lparr>pr_skt := pr_skt s'\<rparr>)
        \<and> os_sent (pr_skt s') = os_sent (pr_skt s) @ wire p sid (nat (sint (pr_out_chunk_size s)))
    | (Inl e, s') \<Rightarrow> s' = s\<lparr>pr_skt := pr_skt s'\<rparr>
        \<and> (if encodable p then Some e \<in> set (os_plan (pr_skt s))
             \<and> (\<exists>ys. os_sent (pr_skt s') @ ys
                  = os_sent (pr_skt s) @ wire p sid (nat (sint (pr_out_chunk_size s))))
           else e = ERROR_SYSTEM_PACKET_INVALID \<and> pr_skt s' = pr_skt s)"
proof (cases "encodable p")
  case False
  then show ?thesis by (simp add: do_send_and_free_packet_def prog_simps packet_encode_eq)
next
  case True
  show ?thesis
  proof (cases rule: send_packet_cases [OF True assms, of sid])
    case (1 o')
    then show ?thesis using True by (cases p) simp_all
  next
    case (2 e o')
    then show ?thesis using True by simp
  qed
qed

theorem send_packet_correct_witness:
  "let s = protocol_new [] [None, Some ERROR_SOCKET_WRITE] (\<lambda>_. 0);
       p = SetChunkSize \<lparr>scs_chunk_size = 60000\<rparr>; sid = 0 in
   case do_send_and_free_packet p sid s of
      (Inr _, s') \<Rightarrow> encodable p \<and> s' = sent_effect p (s\<lparr>pr_skt := pr_skt s'\<rparr>)
        \<and> os_sent (pr_skt s') = os_sent (pr_skt s) @ wire p sid (nat (sint (pr_out_chunk_size s)))
    | (Inl e, s') \<Rightarrow> s' = s\<lparr>pr_skt := pr_skt s'\<rparr>
        \<and> (if encodable p then Some e \<in> set (os_plan (pr_skt s))
             \<and> (\<exists>ys. os_sent (pr_skt s') @ ys
                  = os_sent (pr_skt s) @ wire p sid (nat (sint (pr_out_chunk_size s))))
           else e = ERROR_SYSTEM_PACKET_INVALID \<and> pr_skt s' = pr_skt s)"
  unfolding Let_def
  by (rule send_packet_correct) (simp add: protocol_new_def SRS_CONSTS_RTMP_PROTOCOL_CHUNK_SIZE_def)

section \<open>Answers\<close>

text \<open>A packet whose sending leaves the session as it is: an acknowledgement, an answer to a ping.\<close>

definition quiet :: "packet \<Rightarrow> bool" where
  "quiet p \<longleftrightarrow> encodable p \<and> (\<forall>s. sent_effect p s = s)"

lemma quiet_answers [simp]: "quiet (Acknowledgement a)" "quiet (UserControl u)"
  by (simp_all add: quiet_def)

lemma respond_cases:
  assumes "quiet p" and "1 \<le> sint (pr_out_chunk_size s)"
  obtains "\<not> pr_auto_response_when_recv s"
      "respond p s = (Inr (), s\<lparr>pr_manual_response_queue := pr_manual_response_queue s @ [p]\<rparr>)"
  | o' where "pr_auto_response_when_recv s" "respond p s = (Inr (), s\<lparr>pr_skt := o'\<rparr>)"
      "set (os_plan o') \<subseteq> set (os_plan (pr_skt s))"
      "os_sent o' = os_sent (pr_skt s) @ wire p 0 (nat (sint (pr_out_chunk_size s)))"
  | e o' where "pr_auto_response_when_recv s" "respond p s = (Inl e, s\<lparr>pr_skt := o'\<rparr>)"
      "set (os_plan o') \<subseteq> set (os_plan (pr_skt s))" "Some e \<in> set (os_plan (pr_skt s))"
proof (cases "pr_auto_response_when_recv s")
  case False
  then show thesis by (intro that(1)) (simp_all add: respond_def prog_simps)
next
  case True
  then have r: "respond p s = do_send_and_free_packet p 0 s" by (simp add: respond_def prog_simps)
  from assms have e: "encodable p" and q: "\<And>s. sent_effect p s = s" by (simp_all add: quiet_def)
  show thesis
  proof (cases rule: send_packet_cases [OF e assms(2), of 0])
    case (1 o')
    with r True q show thesis by (intro that(2) [of o']) simp_all
  next
    case (2 e o')
    with r True q show thesis by (intro that(3) [of e o']) simp_all
  qed
qed

section \<open>The receiving loop\<close>

definition session_inv :: "protocol \<Rightarrow> bool" where
  "session_inv s \<longleftrightarrow> reader_inv s \<and> 1 \<le> sint (pr_out_chunk_size s)"

definition session_errors :: "protocol \<Rightarrow> srs_error \<Rightarrow> bool" where
  "session_errors s e \<longleftrightarrow> reader_errors s e \<or> Some e \<in> set (os_plan (pr_skt s))
     \<or> e \<in> decode_errors \<or> e = ERROR_RTMP_CHUNK_SIZE"

text \<open>What the handlers of a message keep of the session: its input is not touched.\<close>

definition handled :: "protocol \<Rightarrow> protocol \<Rightarrow> bool" where
  "handled s0 s \<longleftrightarrow> session_inv s \<and> cr_in s = cr_in s0 \<and> set (os_plan (pr_skt s)) \<subseteq> set (os_plan (pr_skt s0))"

definition handler_errors :: "protocol \<Rightarrow> srs_error \<Rightarrow> bool" where
  "handler_errors s0 e \<longleftrightarrow> Some e \<in> set (os_plan (pr_skt s0)) \<or> e \<in> decode_errors \<or> e = ERROR_RTMP_CHUNK_SIZE"

abbreviation handles :: "protocol \<Rightarrow> 'a res \<times> protocol \<Rightarrow> bool" where
  "handles s0 \<equiv> keeps (handled s0) (handler_errors s0) (\<lambda>_ _. True)"

lemma handled_simps [simp]:
  "handled s0 (s\<lparr>pr_in_ack_size := a\<rparr>) = handled s0 s"
  "handled s0 (s\<lparr>pr_in_buffer_length := b\<rparr>) = handled s0 s"
  "handled s0 (s\<lparr>pr_show_debug_info := c\<rparr>) = handled s0 s"
  "handled s0 (s\<lparr>pr_manual_response_queue := d\<rparr>) = handled s0 s"
  by (simp_all add: handled_def session_inv_def reader_inv_def)

lemma handled_skt:
  "handled s0 s \<Longrightarrow> set (os_plan o') \<subseteq> set (os_plan (pr_skt s)) \<Longrightarrow> handled s0 (s\<lparr>pr_skt := o'\<rparr>)"
  by (auto simp: handled_def session_inv_def reader_inv_def)

lemma handles_return: "handled s0 s \<Longrightarrow> handles s0 (returnP x s)"
  by (rule keeps_return) simp_all

lemma handles_modify: "handled s0 (f s) \<Longrightarrow> handles s0 (modifyP f s)"
  by (simp add: keeps_def prog_eqs)

lemma handles_respond:
  assumes "handled s0 s" and "quiet p"
  shows "handles s0 (respond p s)"
proof -
  have "1 \<le> sint (pr_out_chunk_size s)" using assms(1) by (simp add: handled_def session_inv_def)
  from assms(2) this show ?thesis
    by (cases rule: respond_cases)
      (use assms(1) in \<open>auto simp: keeps_def handled_skt, auto simp: handled_def handler_errors_def\<close>)
qed

lemma handles_ack:
  assumes "handled s0 s"
  shows "handles s0 (response_acknowledgement_message s)"
  using assms
  by (auto simp: response_acknowledgement_message_def prog_simps Let_def intro!: handles_respond)
    (simp add: keeps_def)

lemma handles_control:
  assumes "handled s0 s"
  shows "handles s0 (on_window_ack_size (Some (SetWindowAckSize p1)) s)"
    and "handles s0 (on_set_chunk_size (Some (SetChunkSize p2)) s)"
    and "handles s0 (on_user_control (Some (UserControl p3)) s)"
  using assms
  by (auto simp: on_window_ack_size_def on_set_chunk_size_def on_user_control_def prog_simps
      response_ping_message_def intro!: handles_respond)
    (auto simp: keeps_def handler_errors_def handled_def session_inv_def reader_inv_def
      SRS_CONSTS_RTMP_MIN_CHUNK_SIZE_def)

lemma mh_control_types:
  "mh_is_user_control_message h \<longleftrightarrow> mh_message_type h = RTMP_MSG_UserControlMessage"
  "mh_is_window_ackledgement_size h \<longleftrightarrow> mh_message_type h = RTMP_MSG_WindowAcknowledgementSize"
  "mh_is_set_chunk_size h \<longleftrightarrow> mh_message_type h = RTMP_MSG_SetChunkSize"
  by (simp_all add: mh_is_user_control_message_def mh_is_window_ackledgement_size_def mh_is_set_chunk_size_def)

lemma handles_on_recv_message:
  assumes s: "handled s0 s" and msg: "msg_complete msg" "0 < cm_size msg"
  shows "handles s0 (on_recv_message msg s)"
  unfolding on_recv_message_def
proof (rule keeps_bind, rule handles_ack [OF s])
  fix u s1 assume s1: "handled s0 s1"
  let ?ty = "mh_message_type (cm_header msg)"
  have d: "handles s0 (print_debug_info s1)"
    unfolding print_debug_info_def by (rule handles_modify) (simp add: s1)
  have r: "handles s0 (returnP () s1)" by (rule handles_return [OF s1])
  note safe = decode_message_safe [OF msg, of "pr_requests s1"]
  show "handles s0 (bindP (getP pr_requests)
     (\<lambda>requests. let ty = ?ty
        in if ty = RTMP_MSG_SetChunkSize \<or> ty = RTMP_MSG_UserControlMessage
             \<or> ty = RTMP_MSG_WindowAcknowledgementSize
           then (case decode_message requests msg of
               Inl e \<Rightarrow> raiseP e
             | Inr packet \<Rightarrow>
                 if ty = RTMP_MSG_WindowAcknowledgementSize then on_window_ack_size packet
                 else if ty = RTMP_MSG_SetChunkSize then on_set_chunk_size packet
                 else on_user_control packet)
           else if ty = RTMP_MSG_VideoMessage \<or> ty = RTMP_MSG_AudioMessage
           then print_debug_info
           else returnP ()) s1)"
  proof (cases "decode_message (pr_requests s1) msg")
    case (Inl e)
    with safe have "handles s0 (raiseP e s1)"
      using s1 by (simp add: keeps_def prog_eqs handler_errors_def)
    with Inl d r show ?thesis by (auto simp: prog_simps Let_def)
  next
    case (Inr po)
    with safe d r handles_control [OF s1] show ?thesis
      by (auto simp: prog_simps Let_def mh_control_types)
  qed
qed

lemma recv_interlaced_more:
  "recv_interlaced_message s = (r, s') \<Longrightarrow> chunk_reader.more s' = chunk_reader.more s"
  by (cases s) (auto simp: recv_interlaced_message_def on_cr_in_def on_chunk_def chunk_store_def bindP_def
      prog_eqs split: prod.splits sum.splits if_splits)

lemma protocol_more:
  fixes s s' :: protocol
  assumes "chunk_reader.more s' = chunk_reader.more s"
  shows "pr_skt s' = pr_skt s" "pr_out_chunk_size s' = pr_out_chunk_size s"
    "pr_requests s' = pr_requests s" "pr_in_ack_size s' = pr_in_ack_size s"
    "pr_auto_response_when_recv s' = pr_auto_response_when_recv s"
    "pr_manual_response_queue s' = pr_manual_response_queue s" "pr_arrivals s' = pr_arrivals s"
  using assms by (cases s; cases s'; simp)+

lemma recv_interlaced_session:
  assumes "session_inv s"
  obtains e s' where "recv_interlaced_message s = (Inl e, s')" "session_inv s'" "reader_errors s e"
      "chunk_reader.more s' = chunk_reader.more s"
  | mo s' where "recv_interlaced_message s = (Inr mo, s')" "session_inv s'"
      "todo (cr_in s') < todo (cr_in s)" "inp_le (cr_in s') (cr_in s)"
      "cr_in_chunk_size s' = cr_in_chunk_size s" "\<forall>m. mo = Some m \<longrightarrow> msg_complete m"
      "chunk_reader.more s' = chunk_reader.more s"
proof -
  from assms have inv: "reader_inv s" by (simp add: session_inv_def)
  obtain r s' where r: "recv_interlaced_message s = (r, s')" "reader_inv s'" "inp_le (cr_in s') (cr_in s)"
      "cr_in_chunk_size s' = cr_in_chunk_size s"
      "case r of Inl e \<Rightarrow> reader_errors s e
       | Inr mo \<Rightarrow> todo (cr_in s') < todo (cr_in s) \<and> (\<forall>m. mo = Some m \<longrightarrow> msg_complete m)"
    using recv_interlaced_message_safe [OF inv] by blast
  note m = recv_interlaced_more [OF r(1)]
  have "session_inv s'"
    using r(2) assms protocol_more(2) [OF m] by (simp add: session_inv_def)
  with r m that show thesis by (cases r) auto
qed

lemma reader_errors_le:
  assumes "reader_errors s' e" and "inp_le (cr_in s') (cr_in s)" and "cr_in_chunk_size s' = cr_in_chunk_size s"
  shows "reader_errors s e"
  using assms by (auto simp: reader_errors_def chunk_errors_def inp_le_def)

lemma recv_loop_safe:
  assumes "session_inv s" and "todo (cr_in s) < n"
  shows "case recv_loop n s of
      (Inl e, s') \<Rightarrow> session_inv s' \<and> session_errors s e
    | (Inr m, s') \<Rightarrow> session_inv s' \<and> msg_complete m \<and> 0 < cm_size m \<and> todo (cr_in s') < todo (cr_in s)"
  using assms
proof (induction n arbitrary: s)
  case 0
  then show ?case by simp
next
  case (Suc n)
  show ?case
  proof (cases rule: recv_interlaced_session [OF Suc.prems(1)])
    case (1 e s')
    then show ?thesis by (simp add: bindP_def session_errors_def)
  next
    case (2 mo s')
    have skip: ?thesis if "recv_loop (Suc n) s = recv_loop n s'"
    proof -
      have "todo (cr_in s') < n" using 2(3) Suc.prems(2) by simp
      from Suc.IH [OF 2(2) this] 2(3) show ?thesis
        unfolding that
        using reader_errors_le [OF _ 2(4,5)] protocol_more(1) [OF 2(7)]
        by (auto simp: session_errors_def split: prod.splits sum.splits)
    qed
    show ?thesis
    proof (cases "\<exists>m. mo = Some m \<and> 0 < cm_size m")
      case False
      have "\<And>m. mo = Some m \<Longrightarrow> cm_size m \<le> 0" using False by force
      then show ?thesis by (intro skip) (auto simp: bindP_def 2(1) split: option.splits)
    next
      case True
      then obtain m where m: "mo = Some m" "0 < cm_size m" by blast
      with 2(6) have c: "msg_complete m" by simp
      then have "cm_size m = sint (mh_payload_length (cm_header m))" by (simp add: msg_complete_def)
      with m 2(1) have run: "recv_loop (Suc n) s = bindP (on_recv_message m) (\<lambda>_. returnP m) s'"
        by (simp add: bindP_def)
      have "handled s' s'" using 2(2) by (simp add: handled_def)
      from handles_on_recv_message [OF this c m(2)] 2(3) m c show ?thesis
        unfolding run using protocol_more(1) [OF 2(7)]
        by (auto simp: keeps_def bindP_def returnP_def handled_def handler_errors_def session_errors_def
            split: prod.splits sum.splits)
    qed
  qed
qed

lemma session_inv_new:
  assumes "\<forall>bs. Arrives bs \<in> set es \<longrightarrow> bs \<noteq> []"
  shows "session_inv (protocol_new es plan junk)"
  using reader_inv_new [OF assms, of 128]
  by (simp add: session_inv_def reader_inv_def protocol_new_def reader_new_def SRS_CONSTS_RTMP_PROTOCOL_CHUNK_SIZE_def)

text \<open>C6: Receiving always ends: on any bytes, cut in any way, with any errors of the socket
  in either direction, \<^verbatim>\<open>recv_message\<close> returns a complete message that is not empty, or one
  of the documented errors; the fuel of its loop suffices because each round consumes
  input. No assertion fails and no access is out of bounds, neither in the chunk reader nor
  in the decoders and handlers of control messages; the chunk sizes stay positive, so the
  session can go on after the call.\<close>

theorem recv_message_total:
  assumes "session_inv s"
  shows "case recv_message s of
      (Inl e, s') \<Rightarrow> session_inv s' \<and> session_errors s e
        \<and> e \<notin> {ASSERT_FAILED, UNDEFINED_BEHAVIOUR, OUT_OF_FUEL} - net_errors (cr_in s)
             - {e. Some e \<in> set (os_plan (pr_skt s))}
    | (Inr m, s') \<Rightarrow> session_inv s' \<and> msg_complete m \<and> 0 < cm_size m \<and> todo (cr_in s') < todo (cr_in s)"
  using recv_loop_safe [OF assms, of "Suc (todo (cr_in s))"]
  by (auto simp: recv_message_def session_errors_def reader_errors_def chunk_errors_def decode_errors_def
      split: prod.splits sum.splits)

theorem recv_message_total_witness:
  "let s = protocol_new [Arrives [2, 0, 0], Fails ERROR_SOCKET_TIMEOUT] [] (\<lambda>_. 0) in
   case recv_message s of
      (Inl e, s') \<Rightarrow> session_inv s' \<and> session_errors s e
        \<and> e \<notin> {ASSERT_FAILED, UNDEFINED_BEHAVIOUR, OUT_OF_FUEL} - net_errors (cr_in s)
             - {e. Some e \<in> set (os_plan (pr_skt s))}
    | (Inr m, s') \<Rightarrow> session_inv s' \<and> msg_complete m \<and> 0 < cm_size m \<and> todo (cr_in s') < todo (cr_in s)"
  unfolding Let_def by (rule recv_message_total, rule session_inv_new) simp

end
