(* ===== verification/Srs_Protocol_Session.thy ===== *)
theory Srs_Protocol_Session
  imports Srs_Protocol_Recv
begin

text \<open>
  Two sessions that talk to each other: a packet that one \<^verbatim>\<open>SrsProtocol\<close> sends is decoded by
  the other as the same packet, a control message has the documented effect, and a whole
  conversation, chunk size changes included, arrives as it was sent.
\<close>

section \<open>Messages that carry a packet\<close>

definition carries :: "packet \<Rightarrow> common_msg \<Rightarrow> bool" where
  "carries p msg \<longleftrightarrow> cm_payload msg = Some (map Some (packet_enc p))
     \<and> cm_size msg = int (length (packet_enc p))
     \<and> mh_message_type (cm_header msg) = get_message_type p"

text \<open>The name with which a command or data packet starts.\<close>

fun first_name :: "packet \<Rightarrow> string" where
  "first_name (ConnectApp p) = ca_command_name p"
| "first_name (ConnectAppRes p) = car_command_name p"
| "first_name (Call p) = cp_command_name p"
| "first_name (CreateStream p) = crs_command_name p"
| "first_name (CreateStreamRes p) = csr_command_name p"
| "first_name (FMLEStart p) = fml_command_name p"
| "first_name (FMLEStartRes p) = fmr_command_name p"
| "first_name (Publish p) = pub_command_name p"
| "first_name (Play p) = play_command_name p"
| "first_name (Bandwidth p) = bw_command_name p"
| "first_name (OnMetaData p) = omd_name p"
| "first_name _ = ''''"

fun answers :: "packet \<Rightarrow> double option" where
  "answers (ConnectAppRes p) = Some (car_transaction_id p)"
| "answers (CreateStreamRes p) = Some (csr_transaction_id p)"
| "answers (FMLEStartRes p) = Some (fmr_transaction_id p)"
| "answers _ = None"

text \<open>
  The packets that a session with the given table of requests takes for what they are: a
  response needs its request, a call or metadata must not have the name of another class.
  An acknowledgement is not decoded at all.
\<close>

definition understood :: "(double \<times> string) list \<Rightarrow> packet \<Rightarrow> bool" where
  "understood reqs p \<longleftrightarrow> packet_ok p \<and>
     (if get_message_type p = RTMP_MSG_AMF0CommandMessage \<or> get_message_type p = RTMP_MSG_AMF0DataMessage
      then case answers p of
        Some t \<Rightarrow> Option.bind (requests_find t reqs) response_class = Some (packet_blank p)
      | None \<Rightarrow> first_name p \<noteq> RTMP_AMF0_COMMAND_RESULT \<and> first_name p \<noteq> RTMP_AMF0_COMMAND_ERROR
          \<and> command_class (packet_header p 0 0) (first_name p) = Some (packet_blank p)
      else get_message_type p \<noteq> RTMP_MSG_Acknowledgement)"

lemma upcoming_payload [simp]: "upcoming (payload_buffer bs) = bs" "\<not> sb_null (payload_buffer bs)"
  by (simp_all add: payload_buffer_def upcoming_def)

lemma restart_payload:
  "\<not> mh_is_amf3_command h \<Longrightarrow> restart_decode h (adv n (payload_buffer bs)) = Inr (payload_buffer bs)"
  by (simp add: restart_decode_eq) (simp add: payload_buffer_def adv_def)

lemma reads_name: "length v < 32768 \<Longrightarrow> reads (srs_amf0_read_string '''') v (str_enc v)"
  by (rule reads_string_default) simp_all

lemma command_class_type:
  "mh_message_type h = mh_message_type h' \<Longrightarrow> command_class h = command_class h'"
  by (rule ext)
    (simp add: command_class_def mh_is_amf0_command_def mh_is_amf3_command_def)

text \<open>A command, and a response, that starts as it should.\<close>

lemma do_decode_command:
  assumes ty: "mh_is_amf0_command h \<or> mh_is_amf0_data h" and bs: "bs = str_enc name @ rest"
    and name: "length name < 32768" "name \<noteq> RTMP_AMF0_COMMAND_RESULT" "name \<noteq> RTMP_AMF0_COMMAND_ERROR"
    and cls: "command_class h name = Some p0" and rd: "reads_all (packet_decode p0) p bs"
  shows "do_decode_message reqs h (payload_buffer bs) = Inr (Some p, adv (length bs) (payload_buffer bs))"
proof -
  have n3: "\<not> mh_is_amf3_command h"
    using ty by (auto simp: mh_is_amf0_command_def mh_is_amf3_command_def mh_is_amf0_data_def)
  have "srs_amf0_read_string '''' (payload_buffer bs)
      = Inr (name, adv (length (str_enc name)) (payload_buffer bs))"
    by (rule readsD [OF reads_name [OF name(1)], where rest = rest]) (simp_all add: bs del: amf0_enc.simps)
  moreover have "packet_decode p0 (payload_buffer bs) = Inr (p, adv (length bs) (payload_buffer bs))"
    by (rule reads_allD [OF rd]) simp_all
  ultimately show ?thesis
    using ty n3 name(2,3) cls
    by (auto simp: do_decode_message_def restart_payload decode_as_def simp del: amf0_enc.simps)
qed

lemma do_decode_response:
  assumes ty: "mh_is_amf0_command h" and bs: "bs = str_enc RTMP_AMF0_COMMAND_RESULT @ num_enc t @ rest"
    and cls: "requests_find t reqs = Some n" "response_class n = Some p0"
    and rd: "reads_all (packet_decode p0) p bs"
  shows "do_decode_message reqs h (payload_buffer bs) = Inr (Some p, adv (length bs) (payload_buffer bs))"
proof -
  let ?r = "RTMP_AMF0_COMMAND_RESULT" and ?s = "payload_buffer bs"
  have n3: "\<not> mh_is_amf3_command h"
    using ty by (auto simp: mh_is_amf0_command_def mh_is_amf3_command_def)
  have "srs_amf0_read_string '''' ?s = Inr (?r, adv (length (str_enc ?r)) ?s)"
    by (rule readsD [OF reads_name, where rest = "num_enc t @ rest"])
      (simp_all add: bs del: amf0_enc.simps)
  moreover have "srs_amf0_read_number (adv (length (str_enc ?r)) ?s)
      = Inr (t, adv (length (num_enc t)) (adv (length (str_enc ?r)) ?s))"
    by (rule readsD [OF reads_number, where rest = rest])
      (simp_all add: upcoming_adv bs del: amf0_enc.simps)
  moreover have "restart_decode h (adv (length (num_enc t)) (adv (length (str_enc ?r)) ?s)) = Inr ?s"
    using restart_payload [OF n3, of _ bs] by (simp del: amf0_enc.simps)
  moreover have "packet_decode p0 ?s = Inr (p, adv (length bs) ?s)"
    by (rule reads_allD [OF rd]) simp_all
  ultimately show ?thesis
    using ty n3 cls
    by (auto simp: do_decode_message_def restart_payload decode_as_def simp del: amf0_enc.simps adv_adv)
qed

lemma packet_enc_command:
  "packet_ok p \<Longrightarrow> get_message_type p = RTMP_MSG_AMF0CommandMessage
     \<or> get_message_type p = RTMP_MSG_AMF0DataMessage \<Longrightarrow>
   length (first_name p) < 32768 \<and> (\<exists>rest. packet_enc p = str_enc (first_name p) @ rest
     \<and> (\<forall>t. answers p = Some t \<longrightarrow> first_name p = RTMP_AMF0_COMMAND_RESULT
          \<and> get_message_type p = RTMP_MSG_AMF0CommandMessage \<and> (\<exists>r. rest = num_enc t @ r)))"
  by (cases p)
    (auto simp: connect_app_ok_def connect_app_res_ok_def call_ok_def create_stream_ok_def
      create_stream_res_ok_def fmle_start_ok_def fmle_start_res_ok_def publish_ok_def play_ok_def
      bandwidth_ok_def on_metadata_ok_def connect_app_enc_def connect_app_res_enc_def call_enc_def
      create_stream_enc_def create_stream_res_enc_def fmle_start_enc_def fmle_start_res_enc_def
      publish_enc_def play_enc_def bandwidth_enc_def on_metadata_enc_def simp del: amf0_enc.simps)

lemma decode_carried:
  assumes u: "understood reqs p" and msg: "carries p msg"
  shows "decode_message reqs msg = Inr (Some p)"
proof -
  let ?h = "cm_header msg" and ?bs = "packet_enc p"
  from u have ok: "packet_ok p" by (simp add: understood_def)
  note rd = reads_packet_decode [OF ok]
  from ok have e: "encodable p" by (cases p) simp_all
  from get_size_pos [OF e] have ne: "?bs \<noteq> []" using length_packet_enc [of p] by auto
  have "do_decode_message reqs ?h (payload_buffer ?bs) = Inr (Some p, adv (length ?bs) (payload_buffer ?bs))"
  proof (cases "get_message_type p = RTMP_MSG_AMF0CommandMessage \<or> get_message_type p = RTMP_MSG_AMF0DataMessage")
    case True
    then have ty: "mh_is_amf0_command ?h \<or> mh_is_amf0_data ?h"
      using msg by (auto simp: carries_def mh_is_amf0_command_def mh_is_amf0_data_def)
    from packet_enc_command [OF ok True] obtain rest
      where n: "length (first_name p) < 32768" "?bs = str_enc (first_name p) @ rest"
        "\<And>t. answers p = Some t \<Longrightarrow> first_name p = RTMP_AMF0_COMMAND_RESULT
          \<and> get_message_type p = RTMP_MSG_AMF0CommandMessage \<and> (\<exists>r. rest = num_enc t @ r)"
      by blast
    show ?thesis
    proof (cases "answers p")
      case None
      have "command_class ?h = command_class (packet_header p 0 0)"
        by (rule command_class_type) (use msg in \<open>simp add: carries_def packet_header_def\<close>)
      with u True None show ?thesis
        by (intro do_decode_command [OF ty n(2,1) _ _ _ rd]) (auto simp: understood_def)
    next
      case (Some t)
      with n(3) obtain r where r: "first_name p = RTMP_AMF0_COMMAND_RESULT" "rest = num_enc t @ r"
          "get_message_type p = RTMP_MSG_AMF0CommandMessage"
        by blast
      then have "mh_is_amf0_command ?h" using msg by (simp add: carries_def mh_is_amf0_command_def)
      moreover obtain n where "requests_find t reqs = Some n" "response_class n = Some (packet_blank p)"
        using u True Some by (auto simp: understood_def bind_eq_Some_conv)
      ultimately show ?thesis
        using n(2) r by (intro do_decode_response [OF _ _ _ _ rd]) simp_all
    qed
  next
    case False
    with u ok msg reads_allD [OF rd, of "payload_buffer ?bs"] show ?thesis
      by (cases p) (auto simp: understood_def carries_def do_decode_message_def decode_as_def
          mh_is_user_control_message_def mh_is_window_ackledgement_size_def mh_is_set_chunk_size_def
          mh_is_amf0_command_def mh_is_amf3_command_def mh_is_amf0_data_def mh_is_amf3_data_def)
  qed
  with decode_message_complete [of msg ?bs reqs] msg ne show ?thesis by (simp add: carries_def)
qed

section \<open>The effect of a received packet\<close>

fun received :: "packet \<Rightarrow> (protocol, unit) prog" where
  "received (SetChunkSize pkt) = (\<lambda>s. if sint (scs_chunk_size pkt) < 128 then (Inl ERROR_RTMP_CHUNK_SIZE, s)
     else (Inr (), s\<lparr>cr_in_chunk_size := sint (scs_chunk_size pkt)\<rparr>))"
| "received (SetWindowAckSize pkt) = (\<lambda>s. (Inr (), if 0 < sint (sw_ackowledgement_window_size pkt)
     then s\<lparr>pr_in_ack_size := (pr_in_ack_size s)\<lparr>aw_window := sw_ackowledgement_window_size pkt\<rparr>\<rparr> else s))"
| "received (UserControl pkt) = (\<lambda>s.
     if uc_event_type pkt = SrcPCUCSetBufferLength then (Inr (), s\<lparr>pr_in_buffer_length := uc_extra_data pkt\<rparr>)
     else if uc_event_type pkt = SrcPCUCPingRequest
     then respond (UserControl \<lparr>uc_event_type = SrcPCUCPingResponse, uc_event_data = uc_event_data pkt,
       uc_extra_data = 0\<rparr>) s
     else (Inr (), s))"
| "received _ = (\<lambda>s. (Inr (), s))"

lemma requests_ack: "response_acknowledgement_message s = (r, s') \<Longrightarrow> 1 \<le> sint (pr_out_chunk_size s) \<Longrightarrow>
    pr_requests s' = pr_requests s \<and> pr_out_chunk_size s' = pr_out_chunk_size s"
proof -
  assume a: "response_acknowledgement_message s = (r, s')" "1 \<le> sint (pr_out_chunk_size s)"
  show ?thesis
  proof (cases "ack_due s")
    case False
    with a(1) show ?thesis by (simp add: response_acknowledgement_message_def prog_simps)
  next
    case True
    then obtain s1 q where s1: "respond (Acknowledgement q) s1 = (r, s')" "pr_requests s1 = pr_requests s"
        "pr_out_chunk_size s1 = pr_out_chunk_size s"
      using a(1) by (auto simp: response_acknowledgement_message_def prog_simps Let_def)
    from a(2) s1(3) have "1 \<le> sint (pr_out_chunk_size s1)" by simp
    from quiet_answers(1) [of q] this show ?thesis
      by (cases rule: respond_cases) (use s1 in auto)
  qed
qed

lemma on_recv_carried:
  assumes msg: "carries p msg" and u: "understood (pr_requests s) p" and out: "1 \<le> sint (pr_out_chunk_size s)"
  shows "on_recv_message msg s = bindP response_acknowledgement_message (\<lambda>_. received p) s"
proof -
  obtain r s1 where r: "response_acknowledgement_message s = (r, s1)" by fastforce
  have d: "decode_message (pr_requests s1) msg = Inr (Some p)"
    using decode_carried [OF u msg] requests_ack [OF r out] by simp
  have t: "mh_message_type (cm_header msg) = get_message_type p" using msg by (simp add: carries_def)
  show ?thesis
  proof (cases p)
    case (UserControl pkt)
    then show ?thesis
      using d t r
      by (cases r) (auto simp: on_recv_message_def bindP_def prog_eqs Let_def on_user_control_def
          response_ping_message_def user_control_new_def)
  qed (use d t r in \<open>cases r; simp add: on_recv_message_def bindP_def prog_eqs Let_def
      on_window_ack_size_def on_set_chunk_size_def SRS_CONSTS_RTMP_MIN_CHUNK_SIZE_def\<close>)+
qed

text \<open>The control messages do what the protocol says: a message that carries a packet
  first triggers the acknowledgement that is due and then has exactly the effect of its
  packet. A chunk size of at least 128 is taken over, a smaller one refused; a positive
  window is taken over, another ignored; a ping is answered with its own time stamp, at once
  or through the queue; everything else leaves the session alone.\<close>

theorem control_message_effect:
  assumes "carries p msg" and "understood (pr_requests s) p" and "1 \<le> sint (pr_out_chunk_size s)"
  shows "on_recv_message msg s = bindP response_acknowledgement_message (\<lambda>_. received p) s"
  by (rule on_recv_carried [OF assms])

theorem control_message_effect_witness:
  "let p = UserControl \<lparr>uc_event_type = SrcPCUCPingRequest, uc_event_data = 7, uc_extra_data = 0\<rparr>;
       msg = \<lparr>cm_header = mh_new\<lparr>mh_message_type := 4\<rparr>, cm_size = int (length (packet_enc p)),
              cm_payload = Some (map Some (packet_enc p))\<rparr>;
       s = protocol_new [] [] (\<lambda>_. 0)
   in on_recv_message msg s = bindP response_acknowledgement_message (\<lambda>_. received p) s"
  unfolding Let_def
  by (rule control_message_effect)
    (simp_all add: carries_def understood_def user_control_ok_def protocol_new_def
      SRS_CONSTS_RTMP_PROTOCOL_CHUNK_SIZE_def)

section \<open>Acknowledgements\<close>

lemma ucast_add_64: "(ucast (a + b) :: 32 word) = ucast a + ucast (b :: 64 word)"
  by (simp add: word_uint_eq_iff unsigned_ucast_eq uint_word_ariths take_bit_eq_mod mod_simps mod_mod_cancel)

lemma ucast_ack:
  fixes recv nb :: "64 word"
  assumes "nb \<le> recv" and "recv \<le> 0xf0000000"
  shows "next_sequence_number (ucast nb) (ucast (recv - nb)) = ucast recv"
proof -
  have "ucast nb + (ucast (recv - nb) :: 32 word) = ucast (nb + (recv - nb))"
    by (simp only: ucast_add_64)
  then have sum: "ucast nb + (ucast (recv - nb) :: 32 word) = ucast recv" by simp
  have "uint recv \<le> 0xf0000000" using assms(2) by (simp add: word_le_def)
  then have "uint (ucast recv :: 32 word) \<le> 0xf0000000"
    by (simp add: unsigned_ucast_eq take_bit_int_eq_self)
  then have "\<not> (ucast recv :: 32 word) > 0xf0000000" by (simp add: word_less_def)
  then show ?thesis by (simp add: next_sequence_number_def sum)
qed

text \<open>C21: Flow control: as long as fewer than \<open>0xf0000000\<close> bytes came, the acknowledged
  number is the number of bytes received. When an acknowledgement is due, the session notes
  what it received and sends exactly that number (or queues it, when the user flushes
  himself), and then none is due for a window of at least two bytes; when none is due,
  nothing happens. The note is taken even when the socket then fails.\<close>

theorem acknowledgement_correct:
  assumes "1 \<le> sint (pr_out_chunk_size s)"
    and "aw_sequence_number (pr_in_ack_size s) = ucast (aw_nb_recv_bytes (pr_in_ack_size s))"
    and "aw_nb_recv_bytes (pr_in_ack_size s) \<le> get_recv_bytes s" and "get_recv_bytes s \<le> 0xf0000000"
  shows "case response_acknowledgement_message s of (r, s') \<Rightarrow>
    if \<not> ack_due s then r = Inr () \<and> s' = s
    else let recv = get_recv_bytes s; ack = Acknowledgement \<lparr>ack_sequence_number = ucast recv\<rparr> in
      pr_in_ack_size s' = \<lparr>aw_window = aw_window (pr_in_ack_size s), aw_nb_recv_bytes = recv,
          aw_sequence_number = ucast recv\<rparr>
      \<and> (2 \<le> aw_window (pr_in_ack_size s) \<longrightarrow> \<not> ack_due s')
      \<and> (case r of
           Inl e \<Rightarrow> pr_auto_response_when_recv s \<and> Some e \<in> set (os_plan (pr_skt s))
         | Inr _ \<Rightarrow>
            if pr_auto_response_when_recv s
            then os_sent (pr_skt s') = os_sent (pr_skt s) @ wire ack 0 (nat (sint (pr_out_chunk_size s)))
            else pr_manual_response_queue s' = pr_manual_response_queue s @ [ack]
              \<and> pr_skt s' = pr_skt s)"
proof (cases "ack_due s")
  case False
  then show ?thesis by (simp add: response_acknowledgement_message_def prog_simps)
next
  case True
  let ?recv = "get_recv_bytes s" and ?w = "aw_window (pr_in_ack_size s)"
  let ?aw = "\<lparr>aw_window = ?w, aw_nb_recv_bytes = ?recv, aw_sequence_number = ucast ?recv\<rparr>"
  let ?ack = "Acknowledgement \<lparr>ack_sequence_number = ucast ?recv\<rparr>"
  let ?s1 = "s\<lparr>pr_in_ack_size := ?aw\<rparr>"
  have run: "response_acknowledgement_message s = respond ?ack ?s1"
    using True assms(2) ucast_ack [OF assms(3,4)]
    by (cases "pr_in_ack_size s") (simp add: response_acknowledgement_message_def prog_simps Let_def)
  have quiet_after: "\<not> ack_due s'" if "pr_in_ack_size s' = ?aw" "cr_in s' = cr_in s"
      "pr_arrivals s' = pr_arrivals s" "2 \<le> ?w" for s'
  proof -
    have "get_recv_bytes s' = ?recv" using that by (simp add: get_recv_bytes_def)
    moreover have "0 < ?w div 2"
      using that(4) by (simp add: word_less_nat_alt word_le_nat_alt unat_div)
    ultimately show ?thesis using that(1) by (simp add: ack_due_def)
  qed
  have out: "1 \<le> sint (pr_out_chunk_size ?s1)" using assms(1) by simp
  from quiet_answers(1) out show ?thesis
  proof (cases rule: respond_cases [of ?ack ?s1])
    case 1
    then show ?thesis using True run quiet_after by (simp add: Let_def)
  next
    case (2 o')
    then show ?thesis using True run quiet_after by (simp add: Let_def)
  next
    case (3 e o')
    then show ?thesis using True run quiet_after by (simp add: Let_def)
  qed
qed

theorem acknowledgement_correct_witness:
  "let s = (protocol_new [] [] (\<lambda>_. 0))\<lparr>pr_arrivals := 3000, pr_in_ack_size :=
        \<lparr>aw_window = 2000, aw_nb_recv_bytes = 1000, aw_sequence_number = 1000\<rparr>\<rparr> in
   ack_due s \<and>
   (case response_acknowledgement_message s of (r, s') \<Rightarrow>
    if \<not> ack_due s then r = Inr () \<and> s' = s
    else let recv = get_recv_bytes s; ack = Acknowledgement \<lparr>ack_sequence_number = ucast recv\<rparr> in
      pr_in_ack_size s' = \<lparr>aw_window = aw_window (pr_in_ack_size s), aw_nb_recv_bytes = recv,
          aw_sequence_number = ucast recv\<rparr>
      \<and> (2 \<le> aw_window (pr_in_ack_size s) \<longrightarrow> \<not> ack_due s')
      \<and> (case r of
           Inl e \<Rightarrow> pr_auto_response_when_recv s \<and> Some e \<in> set (os_plan (pr_skt s))
         | Inr _ \<Rightarrow>
            if pr_auto_response_when_recv s
            then os_sent (pr_skt s') = os_sent (pr_skt s) @ wire ack 0 (nat (sint (pr_out_chunk_size s)))
            else pr_manual_response_queue s' = pr_manual_response_queue s @ [ack]
              \<and> pr_skt s' = pr_skt s))"
  unfolding Let_def
  by (rule conjI, simp add: ack_due_def get_recv_bytes_def protocol_new_def arriving_def)
    (rule acknowledgement_correct [unfolded Let_def],
      simp_all add: protocol_new_def get_recv_bytes_def arriving_def SRS_CONSTS_RTMP_PROTOCOL_CHUNK_SIZE_def)

section \<open>A message through the receiving loop\<close>

abbreviation idle :: "int \<Rightarrow> flight option" where "idle \<equiv> \<lambda>_. None"

lemma recv_loop_step:
  assumes "session_inv s" and "todo (cr_in s) < n" and "recv_interlaced_message s = (Inr mo, s1)"
  obtains k where "n = Suc k" "session_inv s1" "todo (cr_in s1) < k"
    "chunk_reader.more s1 = chunk_reader.more s"
proof (cases n)
  case 0
  with assms(2) show thesis by simp
next
  case (Suc k)
  from assms(1) show thesis
    by (cases rule: recv_interlaced_session) (use assms(2,3) Suc that in auto)
qed

text \<open>All chunks of a message, from its first or from a later one on.\<close>

lemma recv_loop_flight:
  assumes "reader_ok n F s" and "mux_flight a F = Some (cid, hdr, f)" and "F(cid := None) = idle"
    and n: "0 < n" "int n \<le> SRS_DEFAULT_RECV_BUFFER_SIZE"
    and "avail (cr_in s) = hdr @ take n (fl_rem f) @ c3_chunks cid (fl_ts f) n (drop n (fl_rem f)) @ rest"
    and "session_inv s" and "todo (cr_in s) < k"
    and msg: "msg = done_msg (flight_header cid f) (fl_got f @ fl_rem f)"
      "0 < cm_size msg" "0 < sint (mh_payload_length (cm_header msg))"
  shows "\<exists>s1. recv_loop k s = bindP (on_recv_message msg) (\<lambda>_. returnP msg) s1
    \<and> reader_ok n idle s1 \<and> avail (cr_in s1) = rest \<and> session_inv s1
    \<and> chunk_reader.more s1 = chunk_reader.more s"
  using assms
proof (induction "length (fl_rem f)" arbitrary: F s a hdr f k rule: less_induct)
  case less
  have "avail (cr_in s) = (hdr @ take n (fl_rem f)) @ c3_chunks cid (fl_ts f) n (drop n (fl_rem f)) @ rest"
    using less.prems(6) by simp
  from recv_mux_flight [OF less.prems(1,2) n this] obtain s1
    where s1: "recv_interlaced_message s = (Inr (flight_result n cid f), s1)"
      "reader_ok n (F(cid := flight_next n f)) s1"
      "avail (cr_in s1) = c3_chunks cid (fl_ts f) n (drop n (fl_rem f)) @ rest"
    by blast
  from recv_loop_step [OF less.prems(7,8) s1(1)] obtain j
    where j: "k = Suc j" "session_inv s1" "todo (cr_in s1) < j" "chunk_reader.more s1 = chunk_reader.more s" .
  show ?case
  proof (cases "length (fl_rem f) \<le> n")
    case True
    with s1 j less.prems(3) msg(2,3) show ?thesis
      by (intro exI [of _ s1])
        (simp add: flight_result_def flight_next_def bindP_def less.prems(9) c3_chunks.simps)
  next
    case False
    let ?g = "f\<lparr>fl_got := fl_got f @ take n (fl_rem f), fl_rem := drop n (fl_rem f)\<rparr>"
    let ?F = "F(cid := Some ?g)"
    have m: "mux_flight (MuxCont cid) ?F = Some (cid, c3_bytes cid (fl_ts f), ?g)"
      by (simp add: mux_flight_def)
    have ok: "reader_ok n ?F s1" using s1(2) False by (simp add: flight_next_def)
    have idle: "?F(cid := None) = idle" using less.prems(3) by simp
    have av: "avail (cr_in s1) = c3_bytes cid (fl_ts f) @ take n (fl_rem ?g)
        @ c3_chunks cid (fl_ts ?g) n (drop n (fl_rem ?g)) @ rest"
      using s1(3) False n(1) by (subst (asm) c3_chunks.simps) simp
    have msg': "msg = done_msg (flight_header cid ?g) (fl_got ?g @ fl_rem ?g)"
      using less.prems(9) by (simp add: flight_header_def)
    have "length (fl_rem ?g) < length (fl_rem f)" using False n(1) by simp
    from less.hyps [OF this ok m idle n av j(2,3) msg' msg(2,3)]
    obtain s2 where "recv_loop j s1 = bindP (on_recv_message msg) (\<lambda>_. returnP msg) s2"
        "reader_ok n idle s2" "avail (cr_in s2) = rest" "session_inv s2"
        "chunk_reader.more s2 = chunk_reader.more s1"
      by blast
    with s1(1) j False show ?thesis
      by (intro exI [of _ s2]) (simp add: flight_result_def bindP_def)
  qed
qed

lemma recv_message_wire:
  assumes ok: "reader_ok n idle s" "session_inv s" and n: "0 < n" "int n \<le> SRS_DEFAULT_RECV_BUFFER_SIZE"
    and p: "encodable p" "length (packet_enc p) < 16777216"
    and av: "avail (cr_in s) = wire p sid n @ rest"
  shows "\<exists>msg s1. recv_message s = bindP (on_recv_message msg) (\<lambda>_. returnP msg) s1 \<and> carries p msg
    \<and> reader_ok n idle s1 \<and> avail (cr_in s1) = rest \<and> session_inv s1
    \<and> chunk_reader.more s1 = chunk_reader.more s"
proof -
  let ?cid = "get_prefer_cid p" and ?bs = "packet_enc p"
  let ?f = "\<lparr>fl_ts = 0, fl_ty = get_message_type p, fl_sid = sid, fl_got = [], fl_rem = ?bs\<rparr>"
  let ?msg = "done_msg (flight_header ?cid ?f) ?bs"
  have ne: "?bs \<noteq> []" using get_size_pos [OF p(1)] length_packet_enc [of p] by auto
  have cid: "2 \<le> ?cid" "?cid < 64" using p(1) by (cases p; simp)+
  have a: "mux_flight (MuxStart ?cid 0 (get_message_type p) sid ?bs) idle
      = Some (?cid, c0_bytes ?cid 0 (of_nat (length ?bs)) (get_message_type p) sid, ?f)"
    using cid ne p(2) by (simp add: mux_flight_def)
  have len: "sint (of_nat (length ?bs) :: 32 word) = int (length ?bs)" by (rule length24 [OF p(2)])
  have c: "carries p ?msg" and z: "0 < cm_size ?msg" "0 < sint (mh_payload_length (cm_header ?msg))"
    using len ne by (simp_all add: carries_def done_msg_def flight_header_def c0_header_def)
  have "avail (cr_in s) = c0_bytes ?cid 0 (of_nat (length ?bs)) (get_message_type p) sid
      @ take n (fl_rem ?f) @ c3_chunks ?cid (fl_ts ?f) n (drop n (fl_rem ?f)) @ rest"
    using av ne by (simp add: wire_def message_bytes_def)
  from recv_loop_flight [OF ok(1) a _ n this ok(2) lessI _ z] c show ?thesis
    by (auto simp: recv_message_def)
qed

section \<open>A conversation\<close>

text \<open>What the handlers do to a receiver whose own socket never fails.\<close>

definition settled :: "protocol \<Rightarrow> int \<Rightarrow> protocol \<Rightarrow> bool" where
  "settled s0 c s \<longleftrightarrow> cr_in s = cr_in s0 \<and> cr_cs_cache s = cr_cs_cache s0
     \<and> cr_chunk_streams s = cr_chunk_streams s0 \<and> cr_in_chunk_size s = c
     \<and> pr_requests s = pr_requests s0 \<and> os_plan (pr_skt s) = []
     \<and> pr_out_chunk_size s = pr_out_chunk_size s0"

abbreviation settles :: "protocol \<Rightarrow> int \<Rightarrow> 'a res \<times> protocol \<Rightarrow> bool" where
  "settles s0 c \<equiv> keeps (settled s0 c) (\<lambda>_. False) (\<lambda>_ _. True)"

lemma settles_respond:
  assumes "settled s0 c s" and "1 \<le> sint (pr_out_chunk_size s0)" and "quiet p"
  shows "settles s0 c (respond p s)"
proof -
  have out: "1 \<le> sint (pr_out_chunk_size s)" using assms(1,2) by (simp add: settled_def)
  from assms(3) out show ?thesis
    by (cases rule: respond_cases) (use assms(1) in \<open>auto simp: keeps_def settled_def\<close>)
qed

lemma settles_ack:
  assumes "settled s0 c s" and "1 \<le> sint (pr_out_chunk_size s0)"
  shows "settles s0 c (response_acknowledgement_message s)"
proof (cases "ack_due s")
  case False
  with assms(1) show ?thesis
    by (simp add: response_acknowledgement_message_def prog_simps keeps_def)
next
  case True
  have "settles s0 c (respond (Acknowledgement a) (s\<lparr>pr_in_ack_size := w\<rparr>))" for a w
    using assms by (intro settles_respond) (simp_all add: settled_def)
  with True show ?thesis by (simp add: response_acknowledgement_message_def prog_simps Let_def)
qed

definition next_chunk :: "nat \<Rightarrow> packet \<Rightarrow> nat" where
  "next_chunk n p = (case p of SetChunkSize pkt \<Rightarrow> nat (sint (scs_chunk_size pkt)) | _ \<Rightarrow> n)"

text \<open>Chunk sizes from the minimum up to the receive buffer keep the receiver working.\<close>

definition speakable :: "(double \<times> string) list \<Rightarrow> packet \<Rightarrow> bool" where
  "speakable reqs p \<longleftrightarrow> understood reqs p \<and> length (packet_enc p) < 16777216
     \<and> (case p of SetChunkSize pkt \<Rightarrow> 128 \<le> sint (scs_chunk_size pkt)
            \<and> sint (scs_chunk_size pkt) \<le> SRS_DEFAULT_RECV_BUFFER_SIZE | _ \<Rightarrow> True)"

lemma settles_received:
  assumes s: "settled s0 (int n) s" and out: "1 \<le> sint (pr_out_chunk_size s0)" and p: "speakable reqs p"
  shows "settles s0 (int (next_chunk n p)) (received p s)"
proof (cases p)
  case (UserControl pkt)
  with s show ?thesis
    by (auto simp: keeps_def next_chunk_def settled_def intro!: settles_respond [OF s out, unfolded keeps_def])
      (use settles_respond [OF s out quiet_answers(2)] in \<open>auto simp: keeps_def settled_def\<close>)
qed (use s p in \<open>auto simp: keeps_def settled_def next_chunk_def speakable_def\<close>)

definition in_sync :: "nat \<Rightarrow> protocol \<Rightarrow> bool" where
  "in_sync n s \<longleftrightarrow> reader_ok n idle s \<and> session_inv s \<and> os_plan (pr_skt s) = []
     \<and> 0 < n \<and> int n \<le> SRS_DEFAULT_RECV_BUFFER_SIZE"

lemma in_sync_settled:
  assumes "in_sync n s0" and "settled s0 (int m) s" and "0 < m" and "int m \<le> SRS_DEFAULT_RECV_BUFFER_SIZE"
  shows "in_sync m s"
  using assms by (auto simp: in_sync_def settled_def reader_ok_def session_inv_def reader_inv_def chunk_find_def)

lemma recv_message_packet:
  assumes s: "in_sync n s" and p: "speakable (pr_requests s) p" and av: "avail (cr_in s) = wire p sid n @ rest"
  shows "\<exists>msg s'. recv_message s = (Inr msg, s') \<and> decode_message (pr_requests s') msg = Inr (Some p)
    \<and> in_sync (next_chunk n p) s' \<and> pr_requests s' = pr_requests s \<and> avail (cr_in s') = rest"
proof -
  have u: "understood (pr_requests s) p" and l: "length (packet_enc p) < 16777216"
    using p by (simp_all add: speakable_def)
  have e: "encodable p" using u by (cases p) (simp_all add: understood_def)
  have n: "0 < n" "int n \<le> SRS_DEFAULT_RECV_BUFFER_SIZE" "reader_ok n idle s" "session_inv s"
    using s by (simp_all add: in_sync_def)
  obtain msg s1 where run: "recv_message s = bindP (on_recv_message msg) (\<lambda>_. returnP msg) s1"
      and c: "carries p msg" and s1: "reader_ok n idle s1" "avail (cr_in s1) = rest" "session_inv s1"
        "chunk_reader.more s1 = chunk_reader.more s"
    using recv_message_wire [OF n(3,4,1,2) e l av] by blast
  note same = protocol_more [OF s1(4)]
  have sync: "in_sync n s1" using s s1 same n by (simp add: in_sync_def)
  have out: "1 \<le> sint (pr_out_chunk_size s1)" using s1(3) by (simp add: session_inv_def)
  have start: "settled s1 (int n) s1" using sync by (simp add: settled_def in_sync_def reader_ok_def)
  have u1: "understood (pr_requests s1) p" using u same by simp
  obtain s2 where a: "response_acknowledgement_message s1 = (Inr (), s2)" "settled s1 (int n) s2"
    using settles_ack [OF start out]
    by (cases "response_acknowledgement_message s1") (auto simp: keeps_def split: sum.splits)
  obtain s3 where b: "received p s2 = (Inr (), s3)" "settled s1 (int (next_chunk n p)) s3"
    using settles_received [OF a(2) out p] by (cases "received p s2") (auto simp: keeps_def split: sum.splits)
  have "recv_message s = (Inr msg, s3)"
    using a(1) b(1) by (simp add: run on_recv_carried [OF c u1 out] bindP_def returnP_def)
  moreover have "in_sync (next_chunk n p) s3"
    using p n(1,2) by (intro in_sync_settled [OF sync b(2)])
      (auto simp: next_chunk_def speakable_def split: packet.splits)
  moreover have "pr_requests s3 = pr_requests s" "avail (cr_in s3) = rest"
    using b(2) same s1(2) by (simp_all add: settled_def)
  ultimately show ?thesis using decode_carried [OF u c] by auto
qed

text \<open>The two sides of a conversation; the receiver decodes each message as it comes.\<close>

fun send_packets :: "packet list \<Rightarrow> 32 word \<Rightarrow> (protocol, unit) prog" where
  "send_packets [] sid = returnP ()"
| "send_packets (p # ps) sid = bindP (send_and_free_packet p sid) (\<lambda>_. send_packets ps sid)"

fun recv_packets :: "nat \<Rightarrow> (protocol, packet option list) prog" where
  "recv_packets 0 = returnP []"
| "recv_packets (Suc k) = bindP recv_message
     (\<lambda>msg. bindP (getP pr_requests)
     (\<lambda>reqs. case decode_message reqs msg of
        Inl e \<Rightarrow> raiseP e
      | Inr packet \<Rightarrow> bindP (recv_packets k) (\<lambda>packets. returnP (packet # packets))))"

fun wire_all :: "nat \<Rightarrow> 32 word \<Rightarrow> packet list \<Rightarrow> byte list" where
  "wire_all n sid [] = []"
| "wire_all n sid (p # ps) = wire p sid n @ wire_all (next_chunk n p) sid ps"

lemma recv_packets_wire:
  "in_sync n s \<Longrightarrow> \<forall>p \<in> set ps. speakable (pr_requests s) p \<Longrightarrow> avail (cr_in s) = wire_all n sid ps @ rest \<Longrightarrow>
   \<exists>s'. recv_packets (length ps) s = (Inr (map Some ps), s') \<and> avail (cr_in s') = rest"
proof (induction ps arbitrary: n s)
  case Nil
  then show ?case by (simp add: returnP_def)
next
  case (Cons p ps)
  have "speakable (pr_requests s) p"
    and "avail (cr_in s) = wire p sid n @ wire_all (next_chunk n p) sid ps @ rest"
    using Cons.prems(2,3) by simp_all
  from recv_message_packet [OF Cons.prems(1) this] obtain msg s1
    where s1: "recv_message s = (Inr msg, s1)" "decode_message (pr_requests s1) msg = Inr (Some p)"
      "in_sync (next_chunk n p) s1" "pr_requests s1 = pr_requests s"
      "avail (cr_in s1) = wire_all (next_chunk n p) sid ps @ rest"
    by blast
  have "\<forall>q \<in> set ps. speakable (pr_requests s1) q" using Cons.prems(2) s1(4) by simp
  from Cons.IH [OF s1(3) this s1(5)] s1(1,2) show ?case
    by (auto simp: bindP_def prog_eqs)
qed

lemma send_packets_wire:
  "os_plan (pr_skt s) = [] \<Longrightarrow> pr_manual_response_queue s = [] \<Longrightarrow> sint (pr_out_chunk_size s) = int n \<Longrightarrow>
   0 < n \<Longrightarrow> \<forall>p \<in> set ps. speakable reqs p \<Longrightarrow>
   \<exists>s'. send_packets ps sid s = (Inr (), s') \<and> os_sent (pr_skt s') = os_sent (pr_skt s) @ wire_all n sid ps"
proof (induction ps arbitrary: n s)
  case Nil
  then show ?case by (simp add: returnP_def)
next
  case (Cons p ps)
  from Cons.prems(5) have p: "speakable reqs p" by simp
  then have e: "encodable p" by (cases p) (simp_all add: speakable_def understood_def)
  have out: "1 \<le> sint (pr_out_chunk_size s)" using Cons.prems(3,4) by simp
  show ?case
  proof (cases rule: send_packet_cases [OF e out, of sid])
    case (1 o')
    let ?s1 = "sent_effect p (s\<lparr>pr_skt := o'\<rparr>)"
    have skt: "pr_skt ?s1 = o'" "pr_manual_response_queue ?s1 = []"
      using Cons.prems(2) by (cases p; simp)+
    have chunk: "sint (pr_out_chunk_size ?s1) = int (next_chunk n p)" "0 < next_chunk n p"
      using Cons.prems(3,4) p by (cases p; simp add: next_chunk_def speakable_def)+
    have "send_and_free_packet p sid s = (Inr (), ?s1)"
      using 1(1) skt(2) by (simp add: send_and_free_packet_def bindP_def manual_response_flush_def prog_eqs)
    moreover obtain s' where "send_packets ps sid ?s1 = (Inr (), s')"
        "os_sent (pr_skt s') = os_sent o' @ wire_all (next_chunk n p) sid ps"
      using Cons.IH [of ?s1 "next_chunk n p"] skt chunk 1(2) Cons.prems(1,5) by auto
    ultimately show ?thesis using 1(3) Cons.prems(3) by (simp add: bindP_def)
  next
    case (2 e o')
    with Cons.prems(1) show ?thesis by simp
  qed
qed

lemma in_sync_new:
  assumes "\<forall>bs. Arrives bs \<in> set es \<longrightarrow> bs \<noteq> []"
  shows "in_sync 128 ((protocol_new es [] junk)\<lparr>pr_requests := reqs\<rparr>)"
  using reader_ok_new [OF assms, of 128] session_inv_new [OF assms, of "[]" junk]
  by (simp add: in_sync_def session_inv_def reader_inv_def reader_ok_def protocol_new_def reader_new_def
      chunk_find_def SRS_CONSTS_RTMP_PROTOCOL_CHUNK_SIZE_def SRS_DEFAULT_RECV_BUFFER_SIZE_def cong: if_cong)

text \<open>C1: Two sessions understand each other: whatever packets of the kinds below one sends, one after the other,
  however the network cuts the bytes, the other receives as many messages and decodes them as
  exactly these packets in this order, with nothing left over. Each change of the chunk size
  takes effect on both sides at the same message; the acknowledgements and answers to pings
  that the receiver sends on the way do not disturb it. The packets must be \<^const>\<open>speakable\<close>: they survive the wire
  (\<^const>\<open>packet_ok\<close>, see C9), encode to less than \<open>2^24\<close> bytes, have a chunk size of 128 to 131072 bytes if they change it, and are
  decoded under their own class: a response answers a request in the table of the receiver, a call or metadata does not
  have the name of another class. So these are not covered: acknowledgements, which are not decoded at all, onStatus, SetPeerBandwidth, the
  answers to \<^verbatim>\<open>play\<close> and to calls, onBWDone and sample access, for which a session has no decoder of their own, and calls without a command object.\<close>

theorem conversation_delivered:
  assumes "\<forall>p \<in> set ps. speakable reqs p"
    and "send_packets ps sid (protocol_new es1 [] junk1) = (r, a)"
    and "delivered es2 = os_sent (pr_skt a) @ rest" and "\<forall>bs. Arrives bs \<in> set es2 \<longrightarrow> bs \<noteq> []"
  shows "r = Inr () \<and> (\<exists>b. recv_packets (length ps) ((protocol_new es2 [] junk2)\<lparr>pr_requests := reqs\<rparr>)
      = (Inr (map Some ps), b) \<and> avail (cr_in b) = rest)"
proof -
  let ?a = "protocol_new es1 [] junk1" and ?b = "(protocol_new es2 [] junk2)\<lparr>pr_requests := reqs\<rparr>"
  have "os_plan (pr_skt ?a) = []" "pr_manual_response_queue ?a = []" "os_sent (pr_skt ?a) = []"
    and "sint (pr_out_chunk_size ?a) = int 128"
    by (simp_all add: protocol_new_def SRS_CONSTS_RTMP_PROTOCOL_CHUNK_SIZE_def)
  with send_packets_wire [of ?a 128 ps reqs sid] assms(1,2)
  have a: "r = Inr ()" "os_sent (pr_skt a) = wire_all 128 sid ps" by simp_all
  have "avail (cr_in ?b) = wire_all 128 sid ps @ rest"
    using assms(3) a(2) by (simp add: protocol_new_def avail_def fs_new_def fs_bytes_def)
  from recv_packets_wire [OF in_sync_new [OF assms(4)] _ this] assms(1) a(1) show ?thesis by simp
qed

lemma delivered_single: "delivered (map (\<lambda>b. Arrives [b]) bs) = bs"
  by (induction bs) simp_all

theorem conversation_delivered_witness:
  "let ps = [SetChunkSize \<lparr>scs_chunk_size = 60000\<rparr>,
       CreateStream \<lparr>crs_command_name = ''createStream'', crs_transaction_id = dbl_3\<rparr>,
       UserControl \<lparr>uc_event_type = SrcPCUCPingRequest, uc_event_data = 7, uc_extra_data = 0\<rparr>];
     ra = send_packets ps 1 (protocol_new [] [] (\<lambda>_. 0));
     es = map (\<lambda>b. Arrives [b]) (os_sent (pr_skt (snd ra)))
   in fst ra = Inr () \<and> (\<exists>b. recv_packets 3 ((protocol_new es [] (\<lambda>_. 0))\<lparr>pr_requests := []\<rparr>)
      = (Inr (map Some ps), b) \<and> avail (cr_in b) = [])"
proof -
  let ?ps = "[SetChunkSize \<lparr>scs_chunk_size = 60000\<rparr>,
       CreateStream \<lparr>crs_command_name = ''createStream'', crs_transaction_id = dbl_3\<rparr>,
       UserControl \<lparr>uc_event_type = SrcPCUCPingRequest, uc_event_data = 7, uc_extra_data = 0\<rparr>]"
  obtain r a where ra: "send_packets ?ps 1 (protocol_new [] [] (\<lambda>_. 0)) = (r, a)" by fastforce
  have "\<forall>p \<in> set ?ps. speakable [] p"
    by (simp add: speakable_def understood_def create_stream_ok_def user_control_ok_def command_class_def
        SRS_DEFAULT_RECV_BUFFER_SIZE_def length_packet_enc set_chunk_size_size_def create_stream_size_def
        user_control_size_def size_str_def size_utf8_def size_number_def size_null_def)
  then have "r = Inr () \<and> (\<exists>b. recv_packets (length ?ps)
      ((protocol_new (map (\<lambda>b. Arrives [b]) (os_sent (pr_skt a))) [] (\<lambda>_. 0))\<lparr>pr_requests := []\<rparr>)
      = (Inr (map Some ?ps), b) \<and> avail (cr_in b) = [])"
    by (rule conversation_delivered [OF _ ra]) (auto simp: delivered_single)
  moreover have "length ?ps = 3" by simp
  ultimately show ?thesis unfolding Let_def ra by (simp only: fst_conv snd_conv)
qed

section \<open>The table of requests\<close>

text \<open>
  The keys are doubles: equal keys share a request, and a NaN, which no request of the
  library has, is below and above nothing. The interface of such a table, and what a client
  may rely on.
\<close>

locale request_table =
  fixes find :: "double \<Rightarrow> 't \<Rightarrow> string option" and set_request :: "double \<Rightarrow> string \<Rightarrow> 't \<Rightarrow> 't"
    and inv :: "'t \<Rightarrow> bool" and empty :: 't
  assumes inv_empty: "inv empty" and find_empty: "find k empty = None"
    and inv_set: "inv t \<Longrightarrow> \<not> dbl_nan k \<Longrightarrow> inv (set_request k n t)"
    and find_set: "inv t \<Longrightarrow> \<not> dbl_nan k \<Longrightarrow> \<not> dbl_nan j \<Longrightarrow>
      find j (set_request k n t) = (if dbl_eq j k then Some n else find j t)"
begin

abbreviation set_all :: "(double \<times> string) list \<Rightarrow> 't \<Rightarrow> 't" where
  "set_all \<equiv> fold (\<lambda>(k, n). set_request k n)"

lemma inv_set_all: "inv t \<Longrightarrow> \<forall>(k, n) \<in> set kns. \<not> dbl_nan k \<Longrightarrow> inv (set_all kns t)"
  by (induction kns arbitrary: t) (auto simp: inv_set)

text \<open>The last request with an equal id is found.\<close>

lemma find_set_all:
  "inv t \<Longrightarrow> \<forall>(k, n) \<in> set kns. \<not> dbl_nan k \<Longrightarrow> \<not> dbl_nan j \<Longrightarrow>
   find j (set_all kns t) = (case List.find (\<lambda>(k, n). dbl_eq j k) (rev kns) of
      Some (k, n) \<Rightarrow> Some n | None \<Rightarrow> find j t)"
proof (induction kns arbitrary: t)
  case Nil
  then show ?case by simp
next
  case (Cons kn kns)
  obtain k n where kn: "kn = (k, n)" by (cases kn)
  have app: "List.find P (xs @ ys) = (case List.find P xs of Some x \<Rightarrow> Some x | None \<Rightarrow> List.find P ys)"
    for P and xs ys :: "(double \<times> string) list"
    by (induction xs) auto
  from Cons show ?case
    by (auto simp: kn app inv_set find_set split: option.splits)
qed

end

definition requests_ok :: "(double \<times> string) list \<Rightarrow> bool" where
  "requests_ok reqs \<longleftrightarrow> sorted_wrt (\<lambda>(j, _) (k, _). dbl_less j k) reqs \<and> (\<forall>(k, _) \<in> set reqs. \<not> dbl_nan k)"

lemma requests_ok_Cons: "requests_ok ((k, n) # reqs) \<longleftrightarrow>
    \<not> dbl_nan k \<and> (\<forall>(j, _) \<in> set reqs. dbl_less k j) \<and> requests_ok reqs"
  by (auto simp: requests_ok_def)

lemma requests_set_keys:
  "(j, m) \<in> set (requests_set k n reqs) \<Longrightarrow> j = k \<or> j \<in> fst ` set reqs"
  by (induction k n reqs rule: requests_set.induct) (force split: if_splits)+

lemma requests_ok_set: "requests_ok reqs \<Longrightarrow> \<not> dbl_nan k \<Longrightarrow> requests_ok (requests_set k n reqs)"
proof (induction k n reqs rule: requests_set.induct)
  case (1 t name)
  then show ?case by (simp add: requests_ok_def)
next
  case (2 t name k old reqs)
  from 2(2) have k: "\<not> dbl_nan k" and ok: "requests_ok reqs" and b: "\<forall>(j, _) \<in> set reqs. dbl_less k j"
    by (simp_all add: requests_ok_Cons)
  consider "dbl_less k t" | "dbl_less t k" | "\<not> dbl_less k t" "\<not> dbl_less t k" by blast
  then show ?case
  proof cases
    case 1
    then have "\<forall>(j, _) \<in> set (requests_set t name reqs). dbl_less k j"
      using b requests_set_keys [of _ _ t name reqs] by fastforce
    with 1 k "2.IH" [OF 1 ok 2(3)] show ?thesis by (simp add: requests_ok_Cons)
  next
    case 2
    then have "dbl_less t j" if "dbl_less k j" for j using that by (simp add: dbl_less_def)
    with b have "\<forall>(j, _) \<in> set reqs. dbl_less t j" by blast
    with 2 k b ok \<open>\<not> dbl_nan t\<close> show ?thesis by (auto simp: requests_ok_Cons dbl_less_def)
  next
    case 3
    with k b ok show ?thesis by (simp add: requests_ok_Cons)
  qed
qed

lemma requests_find_set:
  "requests_ok reqs \<Longrightarrow> \<not> dbl_nan k \<Longrightarrow> \<not> dbl_nan j \<Longrightarrow>
   requests_find j (requests_set k n reqs) = (if dbl_eq j k then Some n else requests_find j reqs)"
proof (induction k n reqs rule: requests_set.induct)
  case (1 t name)
  then show ?case by (auto simp: dbl_eq_def dbl_less_def)
next
  case (2 t name k old reqs)
  from 2(2) have k: "\<not> dbl_nan k" and ok: "requests_ok reqs" by (simp_all add: requests_ok_Cons)
  have less: "dbl_less a b \<longleftrightarrow> dbl_key a < dbl_key b" if "\<not> dbl_nan a" "\<not> dbl_nan b" for a b
    using that by (simp add: dbl_less_def)
  have eq: "dbl_eq j t \<longleftrightarrow> dbl_key j = dbl_key t" using 2(3,4) by (simp add: dbl_eq_def)
  note simps = less [OF k 2(3)] less [OF 2(3) k] less [OF k 2(4)] less [OF 2(4) k]
    less [OF 2(3,4)] less [OF 2(4,3)] eq
  consider "dbl_key k < dbl_key t" | "dbl_key t < dbl_key k" | "dbl_key t = dbl_key k" by linarith
  then show ?case
  proof cases
    case 1
    then have "requests_find j (requests_set t name reqs) = (if dbl_eq j t then Some name else requests_find j reqs)"
      by (intro "2.IH"(1)) (simp_all add: simps ok 2(3,4))
    with 1 show ?thesis by (auto simp: simps)
  next
    case 2
    then show ?thesis by (auto simp: simps)
  next
    case 3
    then show ?thesis by (auto simp: simps)
  qed
qed

interpretation requests: request_table requests_find requests_set requests_ok "[]"
  by unfold_locales (erule requests_ok_set requests_find_set | simp add: requests_ok_def; fail)+

text \<open>C33: The table of requests matches a response with the last request that had its
  transaction id, whatever requests were sent in whatever order.\<close>

theorem requests_last_wins:
  assumes "\<forall>(k, n) \<in> set kns. \<not> dbl_nan k" and "\<not> dbl_nan j"
  shows "requests_find j (fold (\<lambda>(k, n). requests_set k n) kns [])
    = map_option snd (List.find (\<lambda>(k, n). dbl_eq j k) (rev kns))"
  using requests.find_set_all [OF requests.inv_empty assms] by (auto split: option.splits)

theorem requests_last_wins_witness:
  "requests_find dbl_2 (fold (\<lambda>(k, n). requests_set k n)
      [(dbl_2, ''releaseStream''), (dbl_3, ''FCPublish''), (dbl_2, ''createStream'')] [])
    = map_option snd (List.find (\<lambda>(k, n). dbl_eq dbl_2 k)
        (rev [(dbl_2, ''releaseStream''), (dbl_3, ''FCPublish''), (dbl_2, ''createStream'')]))"
  by (rule requests_last_wins) (simp_all add: dbl_nan_def dbl_magnitude_def dbl_2_def dbl_3_def)

text \<open>C40: A response with a transaction id that is not a number is accepted: the search finds the
  first request of the table, although the id equals no request, and the response is decoded
  as the answer to that request.\<close>

theorem nan_transaction_id_accepted:
  assumes "dbl_nan (csr_transaction_id p)" and "create_stream_res_ok p"
    and "carries (CreateStreamRes p) msg"
  shows "decode_message ((k, ''createStream'') # reqs) msg = Inr (Some (CreateStreamRes p))
    \<and> \<not> dbl_eq (csr_transaction_id p) k"
proof -
  have "understood ((k, ''createStream'') # reqs) (CreateStreamRes p)"
    using assms(1,2) by (simp add: understood_def dbl_less_def response_class_def)
  from decode_carried [OF this assms(3)] assms(1) show ?thesis by (simp add: dbl_eq_def)
qed

theorem nan_transaction_id_accepted_witness:
  "let p = \<lparr>csr_command_name = ''_result'', csr_transaction_id = 0x7FF8000000000000, csr_stream_id = dbl_1\<rparr>;
       bs = packet_enc (CreateStreamRes p);
       msg = \<lparr>cm_header = mh_new\<lparr>mh_message_type := 20\<rparr>, cm_size = int (length bs), cm_payload = Some (map Some bs)\<rparr>
   in decode_message ((dbl_2, ''createStream'') # []) msg = Inr (Some (CreateStreamRes p))
    \<and> \<not> dbl_eq (csr_transaction_id p) dbl_2"
  unfolding Let_def
  by (rule nan_transaction_id_accepted)
    (simp_all add: carries_def create_stream_res_ok_def dbl_nan_def dbl_magnitude_def)

section \<open>The queue of responses\<close>

lemma flush_from_fifo:
  assumes "\<forall>p \<in> set ps. quiet p" and "1 \<le> sint (pr_out_chunk_size s)"
    and "n = nat (sint (pr_out_chunk_size s))" and "pr_manual_response_queue s = ps"
  shows "case flush_from ps s of
      (Inr _, s') \<Rightarrow> pr_manual_response_queue s' = []
        \<and> os_sent (pr_skt s') = os_sent (pr_skt s) @ concat (map (\<lambda>p. wire p 0 n) ps)
    | (Inl e, s') \<Rightarrow> Some e \<in> set (os_plan (pr_skt s))
        \<and> (\<exists>sent p ys. ps = sent @ p # pr_manual_response_queue s' \<and> os_sent (pr_skt s') @ ys
             = os_sent (pr_skt s) @ concat (map (\<lambda>p. wire p 0 n) (sent @ [p])))"
  using assms
proof (induction ps arbitrary: s)
  case Nil
  then show ?case by (simp add: returnP_def)
next
  case (Cons p ps)
  let ?s = "s\<lparr>pr_manual_response_queue := ps\<rparr>"
  have out: "1 \<le> sint (pr_out_chunk_size ?s)" using Cons.prems(2) by simp
  have e: "encodable p" and q: "\<And>s. sent_effect p s = s" using Cons.prems(1) by (simp_all add: quiet_def)
  show ?case
  proof (cases rule: send_packet_cases [OF e out, of 0])
    case (1 o')
    let ?s1 = "?s\<lparr>pr_skt := o'\<rparr>"
    have run: "flush_from (p # ps) s = flush_from ps ?s1" using 1(1) q by (simp add: prog_simps bindP_def)
    have "case flush_from ps ?s1 of
        (Inr _, s') \<Rightarrow> pr_manual_response_queue s' = []
          \<and> os_sent (pr_skt s') = os_sent o' @ concat (map (\<lambda>p. wire p 0 n) ps)
      | (Inl e, s') \<Rightarrow> Some e \<in> set (os_plan o')
          \<and> (\<exists>sent p ys. ps = sent @ p # pr_manual_response_queue s' \<and> os_sent (pr_skt s') @ ys
               = os_sent o' @ concat (map (\<lambda>p. wire p 0 n) (sent @ [p])))"
      using Cons.IH [of ?s1] Cons.prems(1,2)
      by (simp add: Cons.prems(3) split: prod.splits sum.splits)
    with 1(2,3) show ?thesis
      unfolding run Cons.prems(3)
      by (auto split: prod.splits sum.splits)
  next
    case (2 e o')
    then have "flush_from (p # ps) s = (Inl e, ?s\<lparr>pr_skt := o'\<rparr>)" by (simp add: prog_simps bindP_def)
    with 2(3,4) show ?thesis
      by (auto simp: Cons.prems(3) intro!: exI [of _ "[]"] exI [of _ p])
  qed
qed

text \<open>Queued responses are flushed first in, first out: all of them reach the wire in the
  order in which they were queued and the queue is empty; or the socket fails at one of
  them, those before it were sent whole, it is dropped, and those behind it stay queued.\<close>

theorem manual_response_flush_fifo:
  assumes "\<forall>p \<in> set (pr_manual_response_queue s). quiet p" and "1 \<le> sint (pr_out_chunk_size s)"
  shows "let n = nat (sint (pr_out_chunk_size s)); ps = pr_manual_response_queue s in
    case manual_response_flush s of
      (Inr _, s') \<Rightarrow> pr_manual_response_queue s' = []
        \<and> os_sent (pr_skt s') = os_sent (pr_skt s) @ concat (map (\<lambda>p. wire p 0 n) ps)
    | (Inl e, s') \<Rightarrow> Some e \<in> set (os_plan (pr_skt s))
        \<and> (\<exists>sent p ys. ps = sent @ p # pr_manual_response_queue s' \<and> os_sent (pr_skt s') @ ys
             = os_sent (pr_skt s) @ concat (map (\<lambda>p. wire p 0 n) (sent @ [p])))"
  using flush_from_fifo [OF assms refl refl] by (simp add: manual_response_flush_def prog_simps Let_def)

theorem manual_response_flush_fifo_witness:
  "let s = (protocol_new [] [None, Some ERROR_SOCKET_WRITE] (\<lambda>_. 0))\<lparr>pr_manual_response_queue :=
        [Acknowledgement \<lparr>ack_sequence_number = 1\<rparr>, Acknowledgement \<lparr>ack_sequence_number = 2\<rparr>]\<rparr>;
      n = nat (sint (pr_out_chunk_size s)); ps = pr_manual_response_queue s in
    case manual_response_flush s of
      (Inr _, s') \<Rightarrow> pr_manual_response_queue s' = []
        \<and> os_sent (pr_skt s') = os_sent (pr_skt s) @ concat (map (\<lambda>p. wire p 0 n) ps)
    | (Inl e, s') \<Rightarrow> Some e \<in> set (os_plan (pr_skt s))
        \<and> (\<exists>sent p ys. ps = sent @ p # pr_manual_response_queue s' \<and> os_sent (pr_skt s') @ ys
             = os_sent (pr_skt s) @ concat (map (\<lambda>p. wire p 0 n) (sent @ [p])))"
  unfolding Let_def
  by (rule manual_response_flush_fifo [unfolded Let_def])
    (simp_all add: protocol_new_def SRS_CONSTS_RTMP_PROTOCOL_CHUNK_SIZE_def)

end
