(* ===== verification/Srs_Live.thy ===== *)
theory Srs_Live
  imports Srs_Flv_Message "HOL-Library.Multiset"
begin

text \<open>
  Ownership of shared messages: the components of a source (queues, caches) hold message
  objects in lists; together they own a multiset of live messages. The lemmas give what each
  operation of \<^verbatim>\<open>SrsSharedPtrMessage\<close> does to the heap and the owned messages, so that the
  components never look into the heap again.
\<close>

section \<open>The type of a message, and what is owned\<close>

definition sm_type :: "sp_heap \<Rightarrow> shared_msg \<Rightarrow> byte option" where
  "sm_type h m = map_option sp_message_type (Option.bind (sm_ptr m) (h_mem h))"

abbreviation is_video_in :: "sp_heap \<Rightarrow> shared_msg \<Rightarrow> bool" where
  "is_video_in h m \<equiv> sm_type h m = Some RTMP_MSG_VideoMessage"
abbreviation is_audio_in :: "sp_heap \<Rightarrow> shared_msg \<Rightarrow> bool" where
  "is_audio_in h m \<equiv> sm_type h m = Some RTMP_MSG_AudioMessage"

text \<open>The payload is \<^verbatim>\<open>NULL\<close> or has the size of the message and is fully written.\<close>

definition whole :: "shared_msg \<Rightarrow> bool" where
  "whole m \<longleftrightarrow> (case sm_payload m of None \<Rightarrow> sm_size m = 0
     | Some arr \<Rightarrow> int (length arr) = sm_size m \<and> None \<notin> set arr)"

definition owned :: "sp_heap \<Rightarrow> shared_msg multiset \<Rightarrow> bool" where
  "owned h M \<longleftrightarrow> (\<exists>ms. mset ms = M \<and> sp_inv (h, ms)) \<and> (\<forall>m \<in># M. sm_ptr m \<noteq> None \<and> whole m)"

definition same_types :: "shared_msg multiset \<Rightarrow> sp_heap \<Rightarrow> sp_heap \<Rightarrow> bool" where
  "same_types M h h' \<longleftrightarrow> (\<forall>m \<in># M. sm_type h' m = sm_type h m)"

lemma same_types_refl [simp]: "same_types M h h"
  by (simp add: same_types_def)

lemma same_types_trans: "same_types M h h' \<Longrightarrow> same_types M h' h'' \<Longrightarrow> same_types M h h''"
  by (simp add: same_types_def)

lemma same_types_mono: "same_types N h h' \<Longrightarrow> M \<subseteq># N \<Longrightarrow> same_types M h h'"
  by (auto simp: same_types_def dest: mset_subset_eqD)

lemma same_typesD: "same_types M h h' \<Longrightarrow> m \<in># M \<Longrightarrow> sm_type h' m = sm_type h m"
  by (simp add: same_types_def)

lemma ownedE:
  assumes "owned h M" and "m \<in># M"
  obtains ms i a p where "mset ms = M" "sp_inv (h, ms)" "i < length ms" "m = ms ! i" "sm_ptr m = Some a"
    "h_mem h a = Some p" "sm_deref m h = (Inr (a, p), h)" "sm_payload m = sp_payload p" "sm_size m = sp_size p"
proof -
  from assms obtain ms where ms: "mset ms = M" "sp_inv (h, ms)" by (auto simp: owned_def)
  with assms(2) have "m \<in> set ms" by auto
  then obtain i where i: "i < length ms" "m = ms ! i" by (auto simp: in_set_conv_nth)
  from assms obtain a where a: "sm_ptr m = Some a" by (auto simp: owned_def)
  from sm_deref_live [OF ms(2) \<open>m \<in> set ms\<close> a] obtain p
    where p: "h_mem h a = Some p" "sm_deref m h = (Inr (a, p), h)" by blast
  from sp_inv_shows [OF ms(2) \<open>m \<in> set ms\<close> a p(1)] that ms i a p show thesis by blast
qed

lemma sm_type_owned: "owned h M \<Longrightarrow> m \<in># M \<Longrightarrow> sm_type h m \<noteq> None"
  by (erule (1) ownedE) (simp add: sm_type_def)

lemma bindP_deref: "sm_deref m h = (Inr ap, h') \<Longrightarrow> bindP (sm_deref m) f h = f ap h'"
  by (rule bindP_Inr)

section \<open>The operations on owned messages\<close>

lemma owned_kind:
  assumes "owned h M" and "m \<in># M"
  shows "sm_is_video m h = (Inr (is_video_in h m), h)" and "sm_is_audio m h = (Inr (is_audio_in h m), h)"
    and "sm_is_av m h = (Inr (is_audio_in h m \<or> is_video_in h m), h)"
proof -
  from assms obtain a p where "sm_ptr m = Some a" "h_mem h a = Some p" "sm_deref m h = (Inr (a, p), h)"
    by (rule ownedE)
  then show "sm_is_video m h = (Inr (is_video_in h m), h)" "sm_is_audio m h = (Inr (is_audio_in h m), h)"
    "sm_is_av m h = (Inr (is_audio_in h m \<or> is_video_in h m), h)"
    by (simp_all add: sm_is_video_def sm_is_audio_def sm_is_av_def sm_type_def bindP_Inr prog_simps)
qed

lemma owned_copy:
  assumes "owned h M" and "m \<in># M"
  obtains h' where "sm_copy m h = (Inr m, h')" "owned h' (add_mset m M)" "sm_type h' = sm_type h"
proof -
  from assms obtain ms i a p where o: "mset ms = M" "sp_inv (h, ms)" "i < length ms" "m = ms ! i"
    "sm_ptr m = Some a" "h_mem h a = Some p" "sm_deref m h = (Inr (a, p), h)"
    "sm_payload m = sp_payload p" "sm_size m = sp_size p"
    by (rule ownedE)
  let ?h = "h\<lparr>h_mem := (h_mem h)(a \<mapsto> p\<lparr>sp_shared_count := sp_shared_count p + 1\<rparr>)\<rparr>"
  have m: "sm_new\<lparr>sm_ptr := Some a, sm_timestamp := sm_timestamp m,
      sm_stream_id := sm_stream_id m, sm_payload := sp_payload p, sm_size := sp_size p\<rparr> = m"
    using o(5,8,9) by (cases m) (simp add: sm_new_def)
  have c: "sm_copy m h = (Inr m, ?h)"
    by (simp add: sm_copy_def o(5) prog_simps bindP_deref [OF o(7)] sp_store_def m)
  have "sp_inv (?h, ms @ [m])"
    using sp_inv_copy [OF o(2,3), of m ?h] c o(4) by simp
  then have "owned ?h (add_mset m M)"
    using assms o(1) by (auto simp: owned_def intro!: exI [of _ "ms @ [m]"])
  moreover have "sm_type ?h = sm_type h"
    using o by (auto simp: sm_type_def fun_eq_iff split: bind_splits)
  ultimately show thesis using that c by blast
qed

lemma owned_destroy:
  assumes "owned h (add_mset m M)"
  obtains h' where "sm_destroy m h = (Inr (), h')" "owned h' M" "same_types M h h'"
proof -
  have "m \<in># add_mset m M" by simp
  with assms obtain ms i a p where o: "mset ms = add_mset m M" "sp_inv (h, ms)" "i < length ms" "m = ms ! i"
    "sm_ptr m = Some a" "h_mem h a = Some p" "sm_deref m h = (Inr (a, p), h)"
    by (rule ownedE)
  define g where "g = h\<lparr>h_mem := (if sp_shared_count p = 0 then (h_mem h)(a := None)
      else (h_mem h)(a \<mapsto> p\<lparr>sp_shared_count := sp_shared_count p - 1\<rparr>))\<rparr>"
  have d: "sm_destroy m h = (Inr (), g)"
    using o(5) by (simp add: g_def sm_destroy_def bindP_deref [OF o(7)] prog_simps sp_store_def)
  have inv: "sp_inv (g, take i ms @ drop (Suc i) ms)"
    using sp_inv_destroy [OF o(2,3)] d o(4) by simp
  have "mset ms = mset (take i ms @ ms ! i # drop (Suc i) ms)"
    using id_take_nth_drop [OF o(3)] by simp
  with o(1,4) have M: "mset (take i ms @ drop (Suc i) ms) = M" by simp
  have ow: "owned g M"
    using assms inv M by (auto simp: owned_def intro!: exI [of _ "take i ms @ drop (Suc i) ms"])
  have "same_types M h g"
    unfolding same_types_def
  proof
    fix x assume x: "x \<in># M"
    from sm_type_owned [OF ow x] show "sm_type g x = sm_type h x"
      using o(6) by (auto simp: sm_type_def g_def split: bind_splits if_splits)
  qed
  with that d ow show thesis by blast
qed

lemma owned_retime:
  assumes "owned h (add_mset m M)"
  shows "owned h (add_mset (m\<lparr>sm_timestamp := t\<rparr>) M)"
proof -
  have "m \<in># add_mset m M" by simp
  with assms obtain ms i where o: "mset ms = add_mset m M" "sp_inv (h, ms)" "i < length ms" "m = ms ! i"
    by (rule ownedE)
  let ?m = "m\<lparr>sm_timestamp := t\<rparr>" and ?ms = "ms[i := m\<lparr>sm_timestamp := t\<rparr>]"
  have refs: "refs a ?ms = refs a ms" for a
  proof -
    have "map sm_ptr ?ms = map sm_ptr ms"
      by (rule nth_equalityI) (use o(3,4) in \<open>auto simp: nth_list_update\<close>)
    then show ?thesis by (simp add: refs_def del: mset_map)
  qed
  have "sp_inv (h, ?ms)"
  proof (rule sp_invI)
    fix x a p assume x: "x \<in> set ?ms" and a: "sm_ptr x = Some a" "h_mem h a = Some p"
    have "x \<in> set ms \<or> x = ?m" using x set_update_subset_insert [of ms i ?m] by auto
    then show "sm_payload x = sp_payload p \<and> sm_size x = sp_size p"
      using sp_inv_shows [OF o(2) _ a] sp_inv_shows [OF o(2) nth_mem [OF o(3)], of a p] a o(4) by auto
  qed (use sp_inv_count [OF o(2)] sp_inv_None [OF o(2)] sp_inv_next [OF o(2)] refs in simp_all)
  moreover have "mset ?ms = add_mset ?m M"
    using o(1,3,4) by (simp add: mset_update)
  moreover have "whole ?m \<longleftrightarrow> whole m" by (simp add: whole_def split: option.split)
  ultimately show ?thesis
    using assms by (auto simp: owned_def intro!: exI [of _ ?ms])
qed

lemma sm_type_retime [simp]: "sm_type h (m\<lparr>sm_timestamp := t\<rparr>) = sm_type h m"
  by (simp add: sm_type_def)

text \<open>A message that is filled from a header and a payload, absent or written.\<close>

definition whole_payload :: "byte option list option \<Rightarrow> int \<Rightarrow> bool" where
  "whole_payload pl n \<longleftrightarrow> (case pl of None \<Rightarrow> n = 0 | Some arr \<Rightarrow> int (length arr) = n \<and> None \<notin> set arr)"

lemma owned_create_any:
  assumes "owned h M" and "whole_payload pl n"
  obtains h' m where "sm_create_header (Some mh) pl n sm_new h = (Inr m, h')"
    "owned h' (add_mset m M)" "same_types M h h'" "sm_type h' m = Some (mh_message_type mh)"
    "sm_timestamp m = mh_timestamp mh" "sm_payload m = pl" "sm_size m = n"
    "sm_stream_id m = mh_stream_id mh"
proof -
  let ?p = "sp_new\<lparr>sp_message_type := mh_message_type mh, sp_payload_length := word_of_int n,
      sp_perfer_cid := mh_perfer_cid mh, sp_payload := pl, sp_size := n\<rparr>"
  let ?m = "sm_new\<lparr>sm_timestamp := mh_timestamp mh, sm_stream_id := mh_stream_id mh,
      sm_ptr := Some (h_next h), sm_payload := pl, sm_size := n\<rparr>"
  let ?h = "h\<lparr>h_next := Suc (h_next h), h_mem := (h_mem h)(h_next h \<mapsto> ?p)\<rparr>"
  have c: "sm_create_header (Some mh) pl n sm_new h = (Inr ?m, ?h)"
    by (simp add: sm_create_header_def prog_simps sm_new_def sp_store_def)
  from assms(1) obtain ms where ms: "mset ms = M" "sp_inv (h, ms)" by (auto simp: owned_def)
  have "sp_inv (?h, (ms @ [sm_new])[length ms := ?m])"
    by (rule sp_inv_create [OF sp_inv_new [OF ms(2)]]) (use c in simp_all)
  moreover have "whole ?m" using assms(2) by (cases pl) (simp_all add: whole_def whole_payload_def)
  ultimately have "owned ?h (add_mset ?m M)"
    using assms ms(1) by (auto simp: owned_def intro!: exI [of _ "ms @ [?m]"])
  moreover have "same_types M h ?h"
    unfolding same_types_def
  proof
    fix x assume x: "x \<in># M"
    from assms(1) x obtain ms i a p where "sm_ptr x = Some a" "h_mem h a = Some p" "sp_inv (h, ms)"
      by (rule ownedE)
    with sp_inv_next [of h ms "h_next h"] have "a \<noteq> h_next h" by auto
    with \<open>sm_ptr x = Some a\<close> show "sm_type ?h x = sm_type h x" by (simp add: sm_type_def)
  qed
  moreover have "sm_type ?h ?m = Some (mh_message_type mh)" by (simp add: sm_type_def)
  ultimately show thesis using that [OF c] by simp
qed

lemma owned_create:
  assumes "owned h M" and "int (length bs) = n"
  obtains h' m where "sm_create_header (Some mh) (Some (map Some bs)) n sm_new h = (Inr m, h')"
    "owned h' (add_mset m M)" "same_types M h h'" "sm_type h' m = Some (mh_message_type mh)"
    "sm_timestamp m = mh_timestamp mh" "sm_payload m = Some (map Some bs)" "sm_size m = n"
    "sm_stream_id m = mh_stream_id mh"
proof -
  have "whole_payload (Some (map Some bs)) n" using assms(2) by (auto simp: whole_payload_def)
  from owned_create_any [OF assms(1) this] that show thesis by metis
qed

text \<open>Freeing a list of messages, and a pointer that may be \<^verbatim>\<open>NULL\<close>.\<close>

fun destroy_all :: "shared_msg list \<Rightarrow> (sp_heap, unit) prog" where
  "destroy_all [] = returnP ()"
| "destroy_all (m # ms) = bindP (sm_destroy m) (\<lambda>_. destroy_all ms)"

definition srs_freep :: "shared_msg option \<Rightarrow> (sp_heap, unit) prog" where
  "srs_freep mo = (case mo of None \<Rightarrow> returnP () | Some m \<Rightarrow> sm_destroy m)"

abbreviation mset_opt :: "shared_msg option \<Rightarrow> shared_msg multiset" where
  "mset_opt mo \<equiv> (case mo of None \<Rightarrow> {#} | Some m \<Rightarrow> {#m#})"

lemma owned_destroy_all:
  assumes "owned h (mset ms + M)"
  obtains h' where "destroy_all ms h = (Inr (), h')" "owned h' M" "same_types M h h'"
  using assms
proof (induction ms arbitrary: h thesis)
  case Nil
  then show ?case by (simp add: returnP_def)
next
  case (Cons m ms)
  from Cons.prems(2) have "owned h (add_mset m (mset ms + M))" by simp
  then obtain h1 where h1: "sm_destroy m h = (Inr (), h1)" "owned h1 (mset ms + M)" "same_types (mset ms + M) h h1"
    by (rule owned_destroy)
  obtain h2 where h2: "destroy_all ms h1 = (Inr (), h2)" "owned h2 M" "same_types M h1 h2"
    using Cons.IH [OF _ h1(2)] by blast
  from Cons.prems(1) [of h2] h1 h2 same_types_mono [OF h1(3), of M] show ?case
    by (auto simp: bindP_def intro: same_types_trans)
qed

lemma owned_freep:
  assumes "owned h (mset_opt mo + M)"
  obtains h' where "srs_freep mo h = (Inr (), h')" "owned h' M" "same_types M h h'"
proof (cases mo)
  case None
  with assms that [of h] show thesis by (simp add: srs_freep_def returnP_def)
next
  case (Some m)
  with assms have "owned h (add_mset m M)" by simp
  then obtain h' where "sm_destroy m h = (Inr (), h')" "owned h' M" "same_types M h h'"
    by (rule owned_destroy)
  with that Some show thesis by (simp add: srs_freep_def)
qed

end
