(* ===== verification/Srs_Flv_Codec.thy ===== *)
theory Srs_Flv_Codec
  imports Srs_Live
begin

text \<open>
  The predicates of \<^verbatim>\<open>SrsFlvVideo\<close> and \<^verbatim>\<open>SrsFlvAudio\<close>
  (\<^verbatim>\<open>src/src/kernel/srs_kernel_codec.cpp\<close>) on the first bytes of a payload.
\<close>

abbreviation SrsVideoAvcFrameTypeKeyFrame :: byte where "SrsVideoAvcFrameTypeKeyFrame \<equiv> 1"
abbreviation SrsVideoCodecIdAVC :: byte where "SrsVideoCodecIdAVC \<equiv> 7"
abbreviation SrsVideoAvcFrameTraitSequenceHeader :: byte where "SrsVideoAvcFrameTraitSequenceHeader \<equiv> 0"
abbreviation SrsAudioCodecIdAAC :: byte where "SrsAudioCodecIdAAC \<equiv> 10"
abbreviation SrsAudioAacFrameTraitSequenceHeader :: byte where "SrsAudioAacFrameTraitSequenceHeader \<equiv> 0"

type_synonym payload = "byte option list option"

text \<open>\<^verbatim>\<open>data[i]\<close>; a \<^verbatim>\<open>NULL\<close> pointer, an index outside and an unwritten cell are undefined.\<close>

definition flv_byte :: "payload \<Rightarrow> nat \<Rightarrow> byte res" where
  "flv_byte data i = (case data of
     None \<Rightarrow> Inl UNDEFINED_BEHAVIOUR
   | Some arr \<Rightarrow> if i < length arr
       then (case arr ! i of None \<Rightarrow> Inl UNDEFINED_BEHAVIOUR | Some b \<Rightarrow> Inr b)
       else Inl UNDEFINED_BEHAVIOUR)"

text \<open>\<^verbatim>\<open>(c >> 4) & 0x0f\<close> of a signed character.\<close>

definition high_nibble :: "byte \<Rightarrow> byte" where
  "high_nibble b = and (signed_drop_bit 4 b) 0x0F"

definition low_nibble :: "byte \<Rightarrow> byte" where
  "low_nibble b = and b 0x0F"

definition SrsFlvVideo_keyframe :: "payload \<Rightarrow> int \<Rightarrow> bool res" where
  "SrsFlvVideo_keyframe data nb =
     (if nb < 1 then Inr False
      else bindR (flv_byte data 0) (\<lambda>b. Inr (high_nibble b = SrsVideoAvcFrameTypeKeyFrame)))"

definition SrsFlvVideo_h264 :: "payload \<Rightarrow> int \<Rightarrow> bool res" where
  "SrsFlvVideo_h264 data nb =
     (if nb < 1 then Inr False
      else bindR (flv_byte data 0) (\<lambda>b. Inr (low_nibble b = SrsVideoCodecIdAVC)))"

definition SrsFlvVideo_sh :: "payload \<Rightarrow> int \<Rightarrow> bool res" where
  "SrsFlvVideo_sh data nb = bindR (SrsFlvVideo_h264 data nb)
     (\<lambda>avc. if \<not> avc then Inr False
        else if nb < 2 then Inr False
        else bindR (flv_byte data 0) (\<lambda>b0. bindR (flv_byte data 1)
          (\<lambda>b1. Inr (high_nibble b0 = SrsVideoAvcFrameTypeKeyFrame
             \<and> b1 = SrsVideoAvcFrameTraitSequenceHeader))))"

definition SrsFlvVideo_acceptable :: "payload \<Rightarrow> int \<Rightarrow> bool res" where
  "SrsFlvVideo_acceptable data nb =
     (if nb < 1 then Inr False
      else bindR (flv_byte data 0)
        (\<lambda>b. let codec_id = sint (low_nibble b); frame_type = sint (high_nibble b) in
           if frame_type < 1 \<or> frame_type > 5 then Inr False
           else if codec_id < 2 \<or> codec_id > 7 then Inr False
           else Inr True))"

definition SrsFlvAudio_aac :: "payload \<Rightarrow> int \<Rightarrow> bool res" where
  "SrsFlvAudio_aac data nb =
     (if nb < 1 then Inr False
      else bindR (flv_byte data 0) (\<lambda>b. Inr (high_nibble b = SrsAudioCodecIdAAC)))"

definition SrsFlvAudio_sh :: "payload \<Rightarrow> int \<Rightarrow> bool res" where
  "SrsFlvAudio_sh data nb = bindR (SrsFlvAudio_aac data nb)
     (\<lambda>aac. if \<not> aac then Inr False
        else if nb < 2 then Inr False
        else bindR (flv_byte data 1) (\<lambda>b1. Inr (b1 = SrsAudioAacFrameTraitSequenceHeader)))"

section \<open>The predicates on a whole payload\<close>

text \<open>What they say of a message, whose payload is fully written.\<close>

definition holds :: "bool res \<Rightarrow> bool" where
  "holds r \<longleftrightarrow> r = Inr True"

lemma holds_Inr [simp]: "holds (Inr b) = b"
  by (simp add: holds_def)

abbreviation msg_video_sh :: "shared_msg \<Rightarrow> bool" where
  "msg_video_sh m \<equiv> holds (SrsFlvVideo_sh (sm_payload m) (sm_size m))"
abbreviation msg_h264 :: "shared_msg \<Rightarrow> bool" where
  "msg_h264 m \<equiv> holds (SrsFlvVideo_h264 (sm_payload m) (sm_size m))"
abbreviation msg_keyframe :: "shared_msg \<Rightarrow> bool" where
  "msg_keyframe m \<equiv> holds (SrsFlvVideo_keyframe (sm_payload m) (sm_size m))"
abbreviation msg_audio_sh :: "shared_msg \<Rightarrow> bool" where
  "msg_audio_sh m \<equiv> holds (SrsFlvAudio_sh (sm_payload m) (sm_size m))"

lemma flv_byte_whole:
  assumes "whole m" and "int i < sm_size m"
  shows "\<exists>b. flv_byte (sm_payload m) i = Inr b"
proof -
  from assms obtain arr where "sm_payload m = Some arr" "int (length arr) = sm_size m" "None \<notin> set arr"
    by (auto simp: whole_def split: option.splits)
  moreover from this assms(2) have "i < length arr" by simp
  moreover from this have "arr ! i \<in> set arr" by simp
  ultimately show ?thesis by (cases "arr ! i") (auto simp: flv_byte_def)
qed

lemma whole_codec:
  assumes "whole m"
  shows "SrsFlvVideo_sh (sm_payload m) (sm_size m) = Inr (msg_video_sh m)"
    and "SrsFlvVideo_h264 (sm_payload m) (sm_size m) = Inr (msg_h264 m)"
    and "SrsFlvVideo_keyframe (sm_payload m) (sm_size m) = Inr (msg_keyframe m)"
    and "SrsFlvAudio_sh (sm_payload m) (sm_size m) = Inr (msg_audio_sh m)"
  using flv_byte_whole [OF assms, of 0] flv_byte_whole [OF assms, of 1]
  by (auto simp: holds_def SrsFlvVideo_sh_def SrsFlvVideo_h264_def SrsFlvVideo_keyframe_def SrsFlvAudio_sh_def
      SrsFlvAudio_aac_def)

lemma whole_codecE:
  assumes "whole m"
  obtains v a f k where "SrsFlvVideo_sh (sm_payload m) (sm_size m) = Inr v"
    "SrsFlvAudio_sh (sm_payload m) (sm_size m) = Inr a" "SrsFlvVideo_h264 (sm_payload m) (sm_size m) = Inr f"
    "SrsFlvVideo_keyframe (sm_payload m) (sm_size m) = Inr k"
  using whole_codec [OF assms] that by blast

lemma whole_acceptable: "whole m \<Longrightarrow> SrsFlvVideo_acceptable (sm_payload m) (sm_size m)
    = Inr (holds (SrsFlvVideo_acceptable (sm_payload m) (sm_size m)))"
  using flv_byte_whole [of m 0] by (auto simp: SrsFlvVideo_acceptable_def Let_def holds_def)

text \<open>A sequence header is a key frame of H.264.\<close>

lemma msg_video_sh_keyframe: "whole m \<Longrightarrow> msg_video_sh m \<Longrightarrow> msg_h264 m \<and> msg_keyframe m"
  using flv_byte_whole [of m 0] flv_byte_whole [of m 1]
  by (auto simp: holds_def SrsFlvVideo_sh_def SrsFlvVideo_keyframe_def bindR_eq_Inr split: if_splits)

end
