(* ===== verification/Srs_Fast_Vector.thy ===== *)
theory Srs_Fast_Vector
  imports Srs_Prelude
begin

text \<open>
  \<^verbatim>\<open>SrsFastVector\<close> (\<^verbatim>\<open>src/src/app/srs_app_source.cpp\<close>): the growing array in which a
  message queue keeps its messages, and the sequence that it stands for.
\<close>

section \<open>The array\<close>

text \<open>
  \<open>fv_cells\<close> is the memory of \<^verbatim>\<open>msgs\<close>, of \<^verbatim>\<open>nb_msgs\<close> cells, of which the first \<^verbatim>\<open>count\<close>
  are in use. A cell that was never written holds \<open>None\<close>.
\<close>

record 'a fvec =
  fv_cells :: "'a option list"
  fv_count :: int

definition SRS_PERF_MW_MSGS :: nat where "SRS_PERF_MW_MSGS = 128"

definition fv_new :: "'a fvec" where
  "fv_new = \<lparr>fv_cells = replicate (SRS_PERF_MW_MSGS * 8) None, fv_count = 0\<rparr>"

definition fv_get :: "'a option list \<Rightarrow> int \<Rightarrow> 'a res" where
  "fv_get cells i = (if 0 \<le> i \<and> i < int (length cells)
     then (case cells ! nat i of None \<Rightarrow> Inl UNDEFINED_BEHAVIOUR | Some x \<Rightarrow> Inr x)
     else Inl UNDEFINED_BEHAVIOUR)"

definition fv_put :: "'a option list \<Rightarrow> int \<Rightarrow> 'a \<Rightarrow> 'a option list res" where
  "fv_put cells i x = (if 0 \<le> i \<and> i < int (length cells) then Inr (cells[nat i := Some x])
     else Inl UNDEFINED_BEHAVIOUR)"

definition fv_size :: "'a fvec \<Rightarrow> int" where "fv_size v = fv_count v"

definition fv_at :: "int \<Rightarrow> 'a fvec \<Rightarrow> 'a res" where
  "fv_at index v = bindR (check (index < fv_count v) ASSERT_FAILED) (\<lambda>_. fv_get (fv_cells v) index)"

definition fv_clear :: "'a fvec \<Rightarrow> 'a fvec" where
  "fv_clear v = v\<lparr>fv_count := 0\<rparr>"

text \<open>\<open>fv_move n b e\<close>: the first \<open>n\<close> rounds of the loop that closes a gap.\<close>

fun fv_move :: "nat \<Rightarrow> int \<Rightarrow> int \<Rightarrow> 'a option list \<Rightarrow> 'a option list res" where
  "fv_move 0 b e cells = Inr cells"
| "fv_move (Suc n) b e cells = bindR (fv_move n b e cells)
     (\<lambda>cells. bindR (fv_get cells (e + int n)) (\<lambda>x. fv_put cells (b + int n) x))"

definition fv_erase :: "int \<Rightarrow> int \<Rightarrow> 'a fvec \<Rightarrow> 'a fvec res" where
  "fv_erase b e v = bindR (check (b < e) ASSERT_FAILED)
     (\<lambda>_. bindR (fv_move (nat (fv_count v - e)) b e (fv_cells v))
     (\<lambda>cells. Inr \<lparr>fv_cells = cells, fv_count = fv_count v - (e - b)\<rparr>))"

text \<open>A full vector moves to an array of twice the size.\<close>

definition fv_grow :: "'a option list \<Rightarrow> 'a option list" where
  "fv_grow cells = cells @ replicate (length cells) None"

definition fv_push_back :: "'a \<Rightarrow> 'a fvec \<Rightarrow> 'a fvec res" where
  "fv_push_back x v =
     (let cells = (if fv_count v \<ge> int (length (fv_cells v)) then fv_grow (fv_cells v) else fv_cells v)
      in bindR (fv_put cells (fv_count v) x) (\<lambda>cells. Inr \<lparr>fv_cells = cells, fv_count = fv_count v + 1\<rparr>))"

text \<open>What \<^verbatim>\<open>data()\<close> shows: the elements in use.\<close>

definition fv_list :: "'a fvec \<Rightarrow> 'a list" where
  "fv_list v = map the (take (nat (fv_count v)) (fv_cells v))"

section \<open>The sequence\<close>

definition fv_ok :: "'a fvec \<Rightarrow> bool" where
  "fv_ok v \<longleftrightarrow> 0 \<le> fv_count v \<and> fv_count v \<le> int (length (fv_cells v)) \<and> fv_cells v \<noteq> []
     \<and> None \<notin> set (take (nat (fv_count v)) (fv_cells v))"

text \<open>What a client may rely on.\<close>

locale vector =
  fixes content :: "'v \<Rightarrow> 'a list" and ok :: "'v \<Rightarrow> bool" and empty :: 'v
    and size_of :: "'v \<Rightarrow> int" and get :: "int \<Rightarrow> 'v \<Rightarrow> 'a res"
    and push :: "'a \<Rightarrow> 'v \<Rightarrow> 'v res" and erase :: "int \<Rightarrow> int \<Rightarrow> 'v \<Rightarrow> 'v res" and clear :: "'v \<Rightarrow> 'v"
  assumes ok_empty: "ok empty" and content_empty: "content empty = []"
    and size_content: "ok v \<Longrightarrow> size_of v = int (length (content v))"
    and get_content: "ok v \<Longrightarrow> i < length (content v) \<Longrightarrow> get (int i) v = Inr (content v ! i)"
    and push_content: "ok v \<Longrightarrow> \<exists>w. push x v = Inr w \<and> ok w \<and> content w = content v @ [x]"
    and erase_content: "ok v \<Longrightarrow> 0 < n \<Longrightarrow> n \<le> length (content v) \<Longrightarrow>
      \<exists>w. erase 0 (int n) v = Inr w \<and> ok w \<and> content w = drop n (content v)"
    and clear_content: "ok v \<Longrightarrow> ok (clear v) \<and> content (clear v) = []"
begin

fun push_all :: "'a list \<Rightarrow> 'v \<Rightarrow> 'v res" where
  "push_all [] v = Inr v"
| "push_all (x # xs) v = bindR (push x v) (push_all xs)"

lemma push_all_content: "ok v \<Longrightarrow> \<exists>w. push_all xs v = Inr w \<and> ok w \<and> content w = content v @ xs"
proof (induction xs arbitrary: v)
  case Nil
  then show ?case by simp
next
  case (Cons x xs)
  from push_content [OF Cons.prems] obtain w where "push x v = Inr w" "ok w" "content w = content v @ [x]"
    by blast
  with Cons.IH [of w] show ?case by auto
qed

text \<open>Pushing a batch and taking it off the front gives it back: first in, first out.\<close>

lemma push_all_erase:
  assumes "ok v" and "content v \<noteq> []"
  shows "\<exists>w u. push_all xs v = Inr w \<and> erase 0 (size_of v) w = Inr u \<and> ok u \<and> content u = xs"
proof -
  from push_all_content [OF assms(1)] obtain w
    where w: "push_all xs v = Inr w" "ok w" "content w = content v @ xs" by blast
  from erase_content [OF w(2), of "length (content v)"] w(3) assms(2) obtain u
    where "erase 0 (int (length (content v))) w = Inr u" "ok u" "content u = xs" by auto
  with w size_content [OF assms(1)] show ?thesis by auto
qed

end

lemma fv_list_length: "fv_ok v \<Longrightarrow> length (fv_list v) = nat (fv_count v)"
  by (auto simp: fv_list_def fv_ok_def min_def)

lemma fv_get_list:
  assumes "fv_ok v" and "i < nat (fv_count v)"
  shows "fv_get (fv_cells v) (int i) = Inr (fv_list v ! i)"
proof -
  have "i < length (fv_cells v)" using assms by (auto simp: fv_ok_def)
  moreover have "fv_cells v ! i \<in> set (take (nat (fv_count v)) (fv_cells v))"
    using assms calculation by (auto simp: in_set_conv_nth intro!: exI [of _ i])
  then have "fv_cells v ! i \<noteq> None" using assms(1) by (metis fv_ok_def)
  ultimately show ?thesis using assms by (auto simp: fv_get_def fv_list_def)
qed

lemma fv_push_back_list:
  assumes "fv_ok v"
  shows "\<exists>w. fv_push_back x v = Inr w \<and> fv_ok w \<and> fv_list w = fv_list v @ [x]"
proof -
  define cells where "cells = (if fv_count v \<ge> int (length (fv_cells v)) then fv_grow (fv_cells v) else fv_cells v)"
  let ?n = "nat (fv_count v)" and ?c = "cells[nat (fv_count v) := Some x]"
  have c: "0 \<le> fv_count v" "fv_count v < int (length cells)" "take ?n cells = take ?n (fv_cells v)"
    using assms by (auto simp: cells_def fv_grow_def fv_ok_def)
  have n: "?n < length cells" using c by linarith
  have t: "take (Suc ?n) ?c = take ?n cells @ [Some x]"
    using n by (simp add: take_Suc_conv_app_nth)
  have p: "fv_push_back x v = Inr \<lparr>fv_cells = ?c, fv_count = fv_count v + 1\<rparr>"
    using c by (simp add: fv_push_back_def cells_def [symmetric] fv_put_def)
  have s: "nat (fv_count v + 1) = Suc ?n" using c by simp
  show ?thesis
    unfolding p using assms c n t
    by (auto simp: fv_ok_def fv_list_def s)
qed

text \<open>After \<open>k\<close> rounds the first \<open>k\<close> elements have moved to the front.\<close>

lemma fv_move_front:
  assumes "0 < n" and "n + k \<le> length cells" and "None \<notin> set (take (n + k) cells)"
  shows "fv_move k 0 (int n) cells = Inr (take k (drop n cells) @ drop k cells)"
  using assms(2,3)
proof (induction k)
  case 0
  then show ?case by simp
next
  case (Suc k)
  let ?c = "take k (drop n cells) @ drop k cells"
  have IH: "fv_move k 0 (int n) cells = Inr ?c"
  proof (rule Suc.IH)
    show "None \<notin> set (take (n + k) cells)"
      using Suc.prems(2) set_take_subset_set_take [of "n + k" "n + Suc k" cells] by auto
  qed (use Suc.prems(1) in simp)
  have nk: "n + k < length cells" using Suc.prems(1) by simp
  have "cells ! (n + k) \<in> set (take (n + Suc k) cells)"
    using nk by (auto simp: in_set_conv_nth intro!: exI [of _ "n + k"])
  then have "cells ! (n + k) \<noteq> None" using Suc.prems(2) by metis
  then obtain x where x: "cells ! (n + k) = Some x" by blast
  have len: "length ?c = length cells" using nk by simp
  have "?c ! (n + k) = cells ! (n + k)"
    using nk assms(1) by (simp add: nth_append add.commute)
  then have g: "fv_get ?c (int n + int k) = Inr x"
    using nk len x by (simp add: fv_get_def nat_int_add)
  have "fv_put ?c (int k) x = Inr (?c[k := Some x])"
    using nk len by (simp add: fv_put_def)
  moreover have "?c[k := Some x] = take (Suc k) (drop n cells) @ drop (Suc k) cells"
  proof -
    have "drop k cells = cells ! k # drop (Suc k) cells" using nk by (simp add: Cons_nth_drop_Suc)
    moreover have "take (Suc k) (drop n cells) = take k (drop n cells) @ [Some x]"
      using nk x by (simp add: take_Suc_conv_app_nth)
    moreover have "length (take k (drop n cells)) = k" using nk by simp
    ultimately show ?thesis by (simp add: list_update_append)
  qed
  ultimately show ?case using IH g by simp
qed

lemma fv_erase_list:
  assumes "fv_ok v" and "0 < n" and "n \<le> nat (fv_count v)"
  shows "\<exists>w. fv_erase 0 (int n) v = Inr w \<and> fv_ok w \<and> fv_list w = drop n (fv_list v)"
proof -
  let ?c = "nat (fv_count v)"
  define k where "k = ?c - n"
  have cnt: "fv_count v = int (n + k)" "n + k \<le> length (fv_cells v)"
    and written: "None \<notin> set (take (n + k) (fv_cells v))"
    using assms by (auto simp: k_def fv_ok_def)
  let ?m = "take k (drop n (fv_cells v)) @ drop k (fv_cells v)"
  have e: "fv_erase 0 (int n) v = Inr \<lparr>fv_cells = ?m, fv_count = int k\<rparr>"
    using fv_move_front [OF assms(2) cnt(2) written] cnt(1) assms(2) by (simp add: fv_erase_def)
  have t: "take k ?m = take k (drop n (fv_cells v))" using cnt(2) by simp
  have sub: "set (take k (drop n (fv_cells v))) \<subseteq> set (take (n + k) (fv_cells v))"
    by (simp add: take_drop) (metis set_drop_subset add.commute)
  have "fv_cells v \<noteq> []" using assms(1) by (simp add: fv_ok_def)
  moreover have "?m \<noteq> []" using cnt(2) assms(2) by (auto simp: neq_Nil_conv)
  moreover have "k \<le> length ?m" using cnt(2) by simp
  moreover have "drop n (map the (take (n + k) (fv_cells v))) = map the (take k (drop n (fv_cells v)))"
    by (simp add: drop_map take_drop add.commute)
  ultimately show ?thesis
    unfolding e using t sub written cnt(1) by (auto simp: fv_ok_def fv_list_def nat_int_add)
qed

interpretation fast: vector fv_list fv_ok fv_new fv_size fv_at fv_push_back fv_erase fv_clear
proof
  fix v :: "'a fvec" and i n and x :: 'a
  show "fv_ok v \<Longrightarrow> fv_size v = int (length (fv_list v))"
    by (simp add: fv_size_def fv_list_length fv_ok_def)
  show "fv_ok v \<Longrightarrow> i < length (fv_list v) \<Longrightarrow> fv_at (int i) v = Inr (fv_list v ! i)"
    using fv_get_list [of v i] by (simp add: fv_at_def fv_list_length zless_nat_eq_int_zless)
  show "fv_ok v \<Longrightarrow> \<exists>w. fv_push_back x v = Inr w \<and> fv_ok w \<and> fv_list w = fv_list v @ [x]"
    by (rule fv_push_back_list)
  show "fv_ok v \<Longrightarrow> 0 < n \<Longrightarrow> n \<le> length (fv_list v) \<Longrightarrow>
      \<exists>w. fv_erase 0 (int n) v = Inr w \<and> fv_ok w \<and> fv_list w = drop n (fv_list v)"
    by (rule fv_erase_list) (simp_all add: fv_list_length)
qed (auto simp: fv_ok_def fv_new_def fv_list_def fv_clear_def SRS_PERF_MW_MSGS_def)

end
