(* ===== verification/Srs_Message_Queue.thy ===== *)
theory Srs_Message_Queue
  imports Srs_Flv_Codec Srs_Fast_Vector
begin

text \<open>
  \<^verbatim>\<open>SrsMessageQueue\<close> (\<^verbatim>\<open>src/src/app/srs_app_source.cpp\<close>): the queue of a player, bounded
  in milliseconds. When it holds more, everything but the last sequence headers is dropped.
\<close>

section \<open>The queue\<close>

text \<open>
  The operations work on the queue and on the heap of the shared messages; an operation
  that takes or gives away a message takes or gives away its ownership.
\<close>

record mqueue =
  mq_ignore_shrink :: bool
  mq_av_start_time :: "64 word"
  mq_av_end_time :: "64 word"
  mq_queue_size_ms :: int
  mq_msgs :: "shared_msg fvec"

definition mq_new :: "bool \<Rightarrow> mqueue" where
  "mq_new ignore_shrink = \<lparr>mq_ignore_shrink = ignore_shrink, mq_av_start_time = - 1,
     mq_av_end_time = - 1, mq_queue_size_ms = 0, mq_msgs = fv_new\<rparr>"

definition mq_size :: "mqueue \<Rightarrow> int" where "mq_size q = fv_size (mq_msgs q)"

definition mq_duration :: "mqueue \<Rightarrow> 32 word" where
  "mq_duration q = ucast (mq_av_end_time q - mq_av_start_time q)"

text \<open>\<open>ms\<close> is the truncated product of the seconds with 1000, a value of type \<^verbatim>\<open>int\<close>.\<close>

definition mq_set_queue_size :: "int \<Rightarrow> mqueue \<Rightarrow> mqueue" where
  "mq_set_queue_size ms q = q\<lparr>mq_queue_size_ms := ms\<rparr>"

type_synonym 'a mq_prog = "(mqueue \<times> sp_heap, 'a) prog"

definition on_shared :: "(sp_heap, 'a) prog \<Rightarrow> ('o \<times> sp_heap, 'a) prog" where
  "on_shared m = (\<lambda>(q, h). case m h of (r, h') \<Rightarrow> (r, (q, h')))"

definition mq_upd :: "(mqueue \<Rightarrow> mqueue) \<Rightarrow> unit mq_prog" where
  "mq_upd f = modifyP (\<lambda>(q, h). (f q, h))"

definition mq_push :: "shared_msg \<Rightarrow> unit mq_prog" where
  "mq_push m = bindP (getP (\<lambda>(q, h). fv_push_back m (mq_msgs q)))
     (\<lambda>r. bindP (liftR r) (\<lambda>v. mq_upd (\<lambda>q. q\<lparr>mq_msgs := v\<rparr>)))"

section \<open>Shrinking\<close>

text \<open>
  The loop keeps the last sequence header of each kind (freeing the one before) and frees
  every other message.
\<close>

fun shrink_scan :: "shared_msg list \<Rightarrow> shared_msg option \<Rightarrow> shared_msg option \<Rightarrow>
    (sp_heap, shared_msg option \<times> shared_msg option) prog" where
  "shrink_scan [] video_sh audio_sh = returnP (video_sh, audio_sh)"
| "shrink_scan (m # ms) video_sh audio_sh =
     bindP (sm_is_video m)
     (\<lambda>video. bindP (if video then liftR (SrsFlvVideo_sh (sm_payload m) (sm_size m)) else returnP False)
     (\<lambda>vsh. if vsh then bindP (srs_freep video_sh) (\<lambda>_. shrink_scan ms (Some m) audio_sh)
        else bindP (sm_is_audio m)
        (\<lambda>audio. bindP (if audio then liftR (SrsFlvAudio_sh (sm_payload m) (sm_size m)) else returnP False)
        (\<lambda>ash. if ash then bindP (srs_freep audio_sh) (\<lambda>_. shrink_scan ms video_sh (Some m))
           else bindP (sm_destroy m) (\<lambda>_. shrink_scan ms video_sh audio_sh)))))"

definition push_header :: "shared_msg option \<Rightarrow> unit mq_prog" where
  "push_header mo = (case mo of
     None \<Rightarrow> returnP ()
   | Some m \<Rightarrow> bindP (getP (\<lambda>(q, h). mq_av_end_time q)) (\<lambda>t. mq_push (m\<lparr>sm_timestamp := t\<rparr>)))"

definition mq_shrink :: "unit mq_prog" where
  "mq_shrink = bindP (getP (\<lambda>(q, h). fv_list (mq_msgs q)))
     (\<lambda>ms. bindP (on_shared (shrink_scan ms None None))
     (\<lambda>(video_sh, audio_sh). bindP (mq_upd (\<lambda>q. q\<lparr>mq_msgs := fv_clear (mq_msgs q)\<rparr>))
     (\<lambda>_. bindP (mq_upd (\<lambda>q. q\<lparr>mq_av_start_time := mq_av_end_time q\<rparr>))
     (\<lambda>_. bindP (push_header video_sh) (\<lambda>_. push_header audio_sh)))))"

section \<open>Enqueue, dump, clear\<close>

text \<open>
  The loop of \<^verbatim>\<open>enqueue\<close>; the result is \<^verbatim>\<open>is_overflow\<close>. One round makes the duration 0, so
  the fuel of two rounds is enough for every size that is not negative.
\<close>

fun mq_limit :: "nat \<Rightarrow> bool \<Rightarrow> bool mq_prog" where
  "mq_limit 0 is_overflow = raiseP OUT_OF_FUEL"
| "mq_limit (Suc n) is_overflow =
     bindP (getP (\<lambda>(q, h). sint (mq_av_end_time q - mq_av_start_time q) > mq_queue_size_ms q))
     (\<lambda>over. if over then bindP mq_shrink (\<lambda>_. mq_limit n True) else returnP is_overflow)"

definition mq_note_time :: "shared_msg \<Rightarrow> mqueue \<Rightarrow> mqueue" where
  "mq_note_time m q =
     (let q = (if mq_av_start_time q = - 1 then q\<lparr>mq_av_start_time := sm_timestamp m\<rparr> else q)
      in q\<lparr>mq_av_end_time := sm_timestamp m\<rparr>)"

definition mq_enqueue_fuel :: "nat \<Rightarrow> shared_msg \<Rightarrow> bool mq_prog" where
  "mq_enqueue_fuel n m = bindP (on_shared (sm_is_av m))
     (\<lambda>av. bindP (if av then mq_upd (mq_note_time m) else returnP ())
     (\<lambda>_. bindP (mq_push m) (\<lambda>_. mq_limit n False)))"

definition mq_enqueue :: "shared_msg \<Rightarrow> bool mq_prog" where
  "mq_enqueue = mq_enqueue_fuel 2"

text \<open>\<open>count0\<close> is the output parameter, which an empty queue leaves as it is.\<close>

definition mq_dump_packets :: "int \<Rightarrow> int \<Rightarrow> (int \<times> shared_msg list) mq_prog" where
  "mq_dump_packets max_count count0 = bindP (getP (\<lambda>(q, h). (fv_size (mq_msgs q), fv_list (mq_msgs q))))
     (\<lambda>(nb_msgs, omsgs).
        if nb_msgs \<le> 0 then returnP (count0, [])
        else bindP (checkP (max_count > 0) ASSERT_FAILED)
          (\<lambda>_. let n = min max_count nb_msgs in
             bindP (mq_upd (\<lambda>q. q\<lparr>mq_av_start_time := sm_timestamp (omsgs ! nat (n - 1))\<rparr>))
             (\<lambda>_. bindP (if n \<ge> nb_msgs then mq_upd (\<lambda>q. q\<lparr>mq_msgs := fv_clear (mq_msgs q)\<rparr>)
                  else bindP (getP (\<lambda>(q, h). fv_erase 0 n (mq_msgs q)))
                    (\<lambda>r. bindP (liftR r) (\<lambda>v. mq_upd (\<lambda>q. q\<lparr>mq_msgs := v\<rparr>))))
             (\<lambda>_. returnP (n, take (nat n) omsgs)))))"

definition mq_clear :: "unit mq_prog" where
  "mq_clear = bindP (getP (\<lambda>(q, h). fv_list (mq_msgs q)))
     (\<lambda>ms. bindP (on_shared (destroy_all ms))
     (\<lambda>_. mq_upd (\<lambda>q. q\<lparr>mq_msgs := fv_clear (mq_msgs q), mq_av_start_time := - 1, mq_av_end_time := - 1\<rparr>)))"

section \<open>What the operations do\<close>

abbreviation mq_list :: "mqueue \<Rightarrow> shared_msg list" where "mq_list q \<equiv> fv_list (mq_msgs q)"

text \<open>The queue owns its messages; \<open>M\<close> are the messages of the other components.\<close>

definition mq_ok :: "mqueue \<times> sp_heap \<Rightarrow> shared_msg multiset \<Rightarrow> bool" where
  "mq_ok s M \<longleftrightarrow> (case s of (q, h) \<Rightarrow> fv_ok (mq_msgs q) \<and> owned h (mset (mq_list q) + M))"

lemma mq_prog_simps [prog_simps]:
  "bindP (on_shared m) f (p, h) = (case m h of (Inl e, h') \<Rightarrow> (Inl e, (p, h')) | (Inr x, h') \<Rightarrow> f x (p, h'))"
  "on_shared m (p, h) = (case m h of (r, h') \<Rightarrow> (r, (p, h')))"
  "bindP (mq_upd g) f' (q, h) = f' () (g q, h)"
  "mq_upd g (q, h) = (Inr (), (g q, h))"
  "bindP (liftR (Inr y)) f'' s = f'' y s" "bindP (liftR (Inl e)) f'' s = (Inl e, s)"
  by (simp_all add: bindP_def on_shared_def mq_upd_def liftR_def prog_eqs split: prod.splits)

lemma mq_push_list:
  assumes "fv_ok (mq_msgs q)"
  obtains v where "mq_push m (q, h) = (Inr (), (q\<lparr>mq_msgs := v\<rparr>, h))" "fv_ok v" "fv_list v = mq_list q @ [m]"
proof -
  from fast.push_content [OF assms, of m] obtain v
    where v: "fv_push_back m (mq_msgs q) = Inr v" "fv_ok v" "fv_list v = mq_list q @ [m]"
    by blast
  show thesis by (rule that [of v]) (simp_all add: v mq_push_def prog_simps)
qed

definition vsh_in :: "sp_heap \<Rightarrow> shared_msg \<Rightarrow> bool" where
  "vsh_in h m \<longleftrightarrow> is_video_in h m \<and> msg_video_sh m"
definition ash_in :: "sp_heap \<Rightarrow> shared_msg \<Rightarrow> bool" where
  "ash_in h m \<longleftrightarrow> is_audio_in h m \<and> msg_audio_sh m"

text \<open>The last element with a property, if there is one, else what was there.\<close>

definition last_of :: "('a \<Rightarrow> bool) \<Rightarrow> 'a list \<Rightarrow> 'a option \<Rightarrow> 'a option" where
  "last_of P xs d = (if filter P xs = [] then d else Some (last (filter P xs)))"

lemma last_of_simps [simp]:
  "last_of P [] d = d" "last_of P (x # xs) d = last_of P xs (if P x then Some x else d)"
  by (simp_all add: last_of_def)

lemma last_of_cong: "(\<And>x. x \<in> set xs \<Longrightarrow> P x = Q x) \<Longrightarrow> last_of P xs d = last_of Q xs d"
  by (simp add: last_of_def cong: filter_cong)

lemma last_of_append: "last_of P (xs @ [x]) d = (if P x then Some x else last_of P xs d)"
  by (simp add: last_of_def)

lemma last_of_two:
  "\<forall>x \<in> set ms. \<not> (P x \<and> Q x) \<Longrightarrow>
   mset_opt (last_of P ms v) + mset_opt (last_of Q ms a) \<subseteq># mset ms + (mset_opt v + mset_opt a)"
proof (induction ms arbitrary: v a)
  case Nil
  then show ?case by simp
next
  case (Cons m ms)
  let ?v = "if P m then Some m else v" and ?a = "if Q m then Some m else a"
  have "mset_opt (last_of P ms ?v) + mset_opt (last_of Q ms ?a) \<subseteq># mset ms + (mset_opt ?v + mset_opt ?a)"
    using Cons by simp
  also have "\<dots> \<subseteq># add_mset m (mset ms) + (mset_opt v + mset_opt a)"
    using Cons.prems by (auto simp: subseteq_mset_def)
  finally show ?case by simp
qed

lemma kinds_same:
  assumes "same_types M h h'" and "m \<in># M"
  shows "vsh_in h' m = vsh_in h m" and "ash_in h' m = ash_in h m"
  using same_typesD [OF assms] by (simp_all add: vsh_in_def ash_in_def)

lemma owned_whole: "owned h M \<Longrightarrow> m \<in># M \<Longrightarrow> whole m"
  by (simp add: owned_def)

lemma shrink_scan_step:
  assumes "owned h (mset (m # ms) + (mset_opt v + mset_opt a + M))"
  defines "v1 \<equiv> if vsh_in h m then Some m else v" and "a1 \<equiv> if ash_in h m then Some m else a"
  obtains h1 where "shrink_scan (m # ms) v a h = shrink_scan ms v1 a1 h1"
    "owned h1 (mset ms + (mset_opt v1 + mset_opt a1 + M))"
    "same_types (mset ms + (mset_opt v1 + mset_opt a1 + M)) h h1"
proof -
  let ?R = "mset ms + (mset_opt v + mset_opt a + M)"
  have ow: "owned h (add_mset m ?R)" using assms(1) by simp
  have m: "m \<in># add_mset m ?R" by simp
  note kind = owned_kind [OF ow m] 
  obtain bv ba where wh: "SrsFlvVideo_sh (sm_payload m) (sm_size m) = Inr bv"
      "SrsFlvAudio_sh (sm_payload m) (sm_size m) = Inr ba"
    using whole_codecE [OF owned_whole [OF ow m]] by blast
  have not_both: "vsh_in h m \<Longrightarrow> \<not> ash_in h m" by (auto simp: vsh_in_def ash_in_def)
  note run = shrink_scan.simps(2) bindP_Inr [where m = "sm_is_video m", OF kind(1)]
    bindP_Inr [where m = "sm_is_audio m", OF kind(2)]
  consider "vsh_in h m" | "ash_in h m" "\<not> vsh_in h m" | "\<not> vsh_in h m" "\<not> ash_in h m" by blast
  then show thesis
  proof cases
    case 1
    have "owned h (mset_opt v + (add_mset m (mset ms) + (mset_opt a + M)))"
      using ow by (simp add: ac_simps)
    then obtain h1 where h1: "srs_freep v h = (Inr (), h1)" "owned h1 (add_mset m (mset ms) + (mset_opt a + M))"
        "same_types (add_mset m (mset ms) + (mset_opt a + M)) h h1"
      by (rule owned_freep)
    have "shrink_scan (m # ms) v a h = shrink_scan ms (Some m) a h1"
      using 1 h1(1) by (simp add: run vsh_in_def wh prog_simps bindP_Inr [where m = "srs_freep v"])
    with 1 not_both h1 that show thesis by (simp add: v1_def a1_def ac_simps)
  next
    case 2
    have "owned h (mset_opt a + (add_mset m (mset ms) + (mset_opt v + M)))"
      using ow by (simp add: ac_simps)
    then obtain h1 where h1: "srs_freep a h = (Inr (), h1)" "owned h1 (add_mset m (mset ms) + (mset_opt v + M))"
        "same_types (add_mset m (mset ms) + (mset_opt v + M)) h h1"
      by (rule owned_freep)
    have "shrink_scan (m # ms) v a h = shrink_scan ms v (Some m) h1"
      using 2 h1(1) by (simp add: run vsh_in_def ash_in_def wh prog_simps bindP_Inr [where m = "srs_freep a"])
    with 2 h1 that show thesis by (simp add: v1_def a1_def ac_simps)
  next
    case 3
    from ow obtain h1 where h1: "sm_destroy m h = (Inr (), h1)" "owned h1 ?R" "same_types ?R h h1"
      by (rule owned_destroy)
    have "shrink_scan (m # ms) v a h = shrink_scan ms v a h1"
      using 3 h1(1)
      by (auto simp: run vsh_in_def ash_in_def wh prog_simps bindP_Inr [where m = "sm_destroy m"])
    with 3 h1 that show thesis by (simp add: v1_def a1_def)
  qed
qed

lemma shrink_scan_spec:
  assumes "owned h (mset ms + (mset_opt v + mset_opt a + M))"
  obtains v' a' h' where "shrink_scan ms v a h = (Inr (v', a'), h')"
    "v' = last_of (vsh_in h) ms v" "a' = last_of (ash_in h) ms a"
    "owned h' (mset_opt v' + mset_opt a' + M)" "same_types (mset_opt v' + mset_opt a' + M) h h'"
  using assms
proof (induction ms arbitrary: h v a thesis)
  case Nil
  then show ?case by (simp add: returnP_def)
next
  case (Cons m ms)
  define v1 a1 where "v1 = (if vsh_in h m then Some m else v)" and "a1 = (if ash_in h m then Some m else a)"
  obtain h1 where h1: "shrink_scan (m # ms) v a h = shrink_scan ms v1 a1 h1"
      "owned h1 (mset ms + (mset_opt v1 + mset_opt a1 + M))"
      "same_types (mset ms + (mset_opt v1 + mset_opt a1 + M)) h h1"
    using shrink_scan_step [OF Cons.prems(2)] unfolding v1_def a1_def by blast
  obtain v' a' h' where h2: "shrink_scan ms v1 a1 h1 = (Inr (v', a'), h')"
      "v' = last_of (vsh_in h1) ms v1" "a' = last_of (ash_in h1) ms a1"
      "owned h' (mset_opt v' + mset_opt a' + M)" "same_types (mset_opt v' + mset_opt a' + M) h1 h'"
    using Cons.IH [OF _ h1(2)] by blast
  have same: "vsh_in h1 x = vsh_in h x" "ash_in h1 x = ash_in h x" if "x \<in> set ms" for x
    using kinds_same [OF h1(3), of x] that by simp_all
  have va: "v' = last_of (vsh_in h) (m # ms) v" "a' = last_of (ash_in h) (m # ms) a"
    using h2(2,3) last_of_cong [of ms "vsh_in h1" "vsh_in h" v1] last_of_cong [of ms "ash_in h1" "ash_in h" a1] same
    by (simp_all add: v1_def a1_def)
  have "mset_opt v' + mset_opt a' + M \<subseteq># mset ms + (mset_opt v1 + mset_opt a1 + M)"
    using last_of_two [of ms "vsh_in h" "ash_in h" v1 a1] va
    by (auto simp: vsh_in_def ash_in_def v1_def a1_def add.assoc [symmetric])
  with h1(3) h2(5) have "same_types (mset_opt v' + mset_opt a' + M) h h'"
    by (blast intro: same_types_trans same_types_mono)
  with Cons.prems(1) h1(1) h2(1,4) va show ?case by simp
qed

section \<open>The specification of the queue\<close>

text \<open>What stays of a queue that is shrunk at the time \<open>t\<close>.\<close>

definition headers_at :: "sp_heap \<Rightarrow> 64 word \<Rightarrow> shared_msg list \<Rightarrow> shared_msg list" where
  "headers_at h t ms = (case last_of (vsh_in h) ms None of None \<Rightarrow> [] | Some m \<Rightarrow> [m\<lparr>sm_timestamp := t\<rparr>])
     @ (case last_of (ash_in h) ms None of None \<Rightarrow> [] | Some m \<Rightarrow> [m\<lparr>sm_timestamp := t\<rparr>])"

lemma mq_okE:
  assumes "mq_ok (q, h) M"
  obtains "fv_ok (mq_msgs q)" "owned h (mset (mq_list q) + M)"
  using assms by (simp add: mq_ok_def)

lemma push_header_spec:
  assumes "fv_ok (mq_msgs q)"
  obtains v where "push_header mo (q, h) = (Inr (), (q\<lparr>mq_msgs := v\<rparr>, h))" "fv_ok v"
    "fv_list v = mq_list q @ (case mo of None \<Rightarrow> [] | Some m \<Rightarrow> [m\<lparr>sm_timestamp := mq_av_end_time q\<rparr>])"
proof (cases mo)
  case None
  show thesis by (rule that [of "mq_msgs q"]) (use None assms in \<open>simp_all add: push_header_def prog_simps\<close>)
next
  case (Some m)
  obtain v where "mq_push (m\<lparr>sm_timestamp := mq_av_end_time q\<rparr>) (q, h) = (Inr (), (q\<lparr>mq_msgs := v\<rparr>, h))"
      "fv_ok v" "fv_list v = mq_list q @ [m\<lparr>sm_timestamp := mq_av_end_time q\<rparr>]"
    using mq_push_list [OF assms] by blast
  with Some show thesis by (intro that [of v]) (simp_all add: push_header_def prog_simps)
qed

lemma owned_retime_opt:
  "owned h (mset_opt mo + M) \<Longrightarrow>
   owned h (mset (case mo of None \<Rightarrow> [] | Some m \<Rightarrow> [m\<lparr>sm_timestamp := t\<rparr>]) + M)"
  by (cases mo) (simp_all add: owned_retime)

lemma mq_shrink_spec:
  assumes "mq_ok (q, h) M"
  obtains v h' where "mq_shrink (q, h) = (Inr (), (q\<lparr>mq_msgs := v, mq_av_start_time := mq_av_end_time q\<rparr>, h'))"
    "fv_ok v" "fv_list v = headers_at h (mq_av_end_time q) (mq_list q)"
    "owned h' (mset (fv_list v) + M)" "same_types (mset (fv_list v) + M) h h'"
proof -
  from assms have ok: "fv_ok (mq_msgs q)" and ow: "owned h (mset (mq_list q) + M)" by (simp_all add: mq_ok_def)
  let ?t = "mq_av_end_time q"
  have "owned h (mset (mq_list q) + (mset_opt None + mset_opt None + M))" using ow by simp
  then obtain v' a' h1 where s: "shrink_scan (mq_list q) None None h = (Inr (v', a'), h1)"
      "v' = last_of (vsh_in h) (mq_list q) None" "a' = last_of (ash_in h) (mq_list q) None"
      "owned h1 (mset_opt v' + mset_opt a' + M)" "same_types (mset_opt v' + mset_opt a' + M) h h1"
    by (rule shrink_scan_spec)
  let ?q = "q\<lparr>mq_msgs := fv_clear (mq_msgs q), mq_av_start_time := ?t\<rparr>"
  have c: "fv_ok (fv_clear (mq_msgs q))" "fv_list (fv_clear (mq_msgs q)) = []"
    using fast.clear_content [OF ok] by simp_all
  have "fv_ok (mq_msgs ?q)" using c(1) by simp
  then obtain v where v: "push_header v' (?q, h1) = (Inr (), (?q\<lparr>mq_msgs := v\<rparr>, h1))" "fv_ok v"
      "fv_list v = mq_list ?q @ (case v' of None \<Rightarrow> [] | Some m \<Rightarrow> [m\<lparr>sm_timestamp := mq_av_end_time ?q\<rparr>])"
    by (rule push_header_spec)
  have "fv_ok (mq_msgs (?q\<lparr>mq_msgs := v\<rparr>))" using v(2) by simp
  then obtain w where w: "push_header a' (?q\<lparr>mq_msgs := v\<rparr>, h1) = (Inr (), (?q\<lparr>mq_msgs := v, mq_msgs := w\<rparr>, h1))"
      "fv_ok w" "fv_list w = mq_list (?q\<lparr>mq_msgs := v\<rparr>)
        @ (case a' of None \<Rightarrow> [] | Some m \<Rightarrow> [m\<lparr>sm_timestamp := mq_av_end_time (?q\<lparr>mq_msgs := v\<rparr>)\<rparr>])"
    by (rule push_header_spec)
  have lv: "fv_list v = (case v' of None \<Rightarrow> [] | Some m \<Rightarrow> [m\<lparr>sm_timestamp := ?t\<rparr>])"
    using v(3) c(2) by (simp split: option.split)
  have lw1: "fv_list w = fv_list v @ (case a' of None \<Rightarrow> [] | Some m \<Rightarrow> [m\<lparr>sm_timestamp := ?t\<rparr>])"
    using w(3) by (simp split: option.split)
  have lw: "fv_list w = headers_at h ?t (mq_list q)"
    unfolding lw1 lv s(2,3) headers_at_def ..
  have "mq_shrink (q, h) = (Inr (), (q\<lparr>mq_msgs := w, mq_av_start_time := ?t\<rparr>, h1))"
    using s(1) v(1) w(1) by (simp add: mq_shrink_def prog_simps bindP_Inr [where m = "push_header v'"])
  moreover have "owned h1 (mset (fv_list w) + M)"
  proof -
    have "owned h1 (mset_opt v' + (mset_opt a' + M))" using s(4) by (simp add: add.assoc)
    from owned_retime_opt [OF this, of ?t]
    have "owned h1 (mset_opt a' + (mset (fv_list v) + M))"
      unfolding lv by (simp add: add.left_commute)
    from owned_retime_opt [OF this, of ?t] show ?thesis
      unfolding lw1 by (simp add: ac_simps)
  qed
  moreover have "same_types (mset (fv_list w) + M) h h1"
    using s(5) unfolding lw1 by (auto simp: same_types_def lv split: option.splits)
  ultimately show thesis using that w(2) lw by blast
qed

text \<open>The state after a message was noted, and what the queue then holds.\<close>

definition noted :: "sp_heap \<Rightarrow> shared_msg \<Rightarrow> mqueue \<Rightarrow> mqueue" where
  "noted h m q = (if is_audio_in h m \<or> is_video_in h m then mq_note_time m q else q)"

definition overflows :: "mqueue \<Rightarrow> bool" where
  "overflows q \<longleftrightarrow> mq_queue_size_ms q < sint (mq_av_end_time q - mq_av_start_time q)"

lemma noted_msgs [simp]: "mq_msgs (noted h m q) = mq_msgs q" "mq_queue_size_ms (noted h m q) = mq_queue_size_ms q"
  by (simp_all add: noted_def mq_note_time_def Let_def)

lemma mq_enqueue_start:
  assumes "mq_ok (q, h) (add_mset m M)"
  obtains v where "mq_enqueue_fuel n m (q, h) = mq_limit n False (noted h m q\<lparr>mq_msgs := v\<rparr>, h)"
    "fv_ok v" "fv_list v = mq_list q @ [m]" "mq_ok (noted h m q\<lparr>mq_msgs := v\<rparr>, h) M"
proof -
  from assms have ok: "fv_ok (mq_msgs q)" and ow: "owned h (mset (mq_list q) + add_mset m M)"
    by (simp_all add: mq_ok_def)
  have m: "m \<in># mset (mq_list q) + add_mset m M" by simp
  obtain v where v: "mq_push m (noted h m q, h) = (Inr (), (noted h m q\<lparr>mq_msgs := v\<rparr>, h))"
      "fv_ok v" "fv_list v = mq_list q @ [m]"
    using mq_push_list [of "noted h m q" m h] ok by auto
  show thesis
  proof (rule that [of v])
    show "mq_enqueue_fuel n m (q, h) = mq_limit n False (noted h m q\<lparr>mq_msgs := v\<rparr>, h)"
      using v(1) owned_kind(3) [OF ow m]
      by (auto simp: mq_enqueue_fuel_def prog_simps noted_def bindP_Inr [where m = "mq_push m"])
    show "mq_ok (noted h m q\<lparr>mq_msgs := v\<rparr>, h) M"
      using v(2,3) ow by (simp add: mq_ok_def)
  qed (use v in simp_all)
qed

lemma mq_enqueue_spec:
  assumes "mq_ok (q, h) (add_mset m M)" and "0 \<le> mq_queue_size_ms q"
  obtains q' h' where "mq_enqueue m (q, h) = (Inr (overflows (noted h m q)), (q', h'))" "mq_ok (q', h') M"
    "mq_queue_size_ms q' = mq_queue_size_ms q" "mq_av_end_time q' = mq_av_end_time (noted h m q)"
    "mq_av_start_time q' = (if overflows (noted h m q) then mq_av_end_time (noted h m q)
       else mq_av_start_time (noted h m q))"
    "mq_list q' = (if overflows (noted h m q)
       then headers_at h (mq_av_end_time (noted h m q)) (mq_list q @ [m]) else mq_list q @ [m])"
    "same_types (mset (mq_list q') + M) h h'"
proof -
  obtain v where v: "mq_enqueue_fuel 2 m (q, h) = mq_limit 2 False (noted h m q\<lparr>mq_msgs := v\<rparr>, h)"
    "fv_ok v" "fv_list v = mq_list q @ [m]" "mq_ok (noted h m q\<lparr>mq_msgs := v\<rparr>, h) M"
    using mq_enqueue_start [OF assms(1)] by blast
  let ?q = "noted h m q\<lparr>mq_msgs := v\<rparr>"
  show thesis
  proof (cases "overflows (noted h m q)")
    case False
    with v show thesis
      by (intro that [of ?q h])
        (auto simp: mq_enqueue_def overflows_def prog_simps numeral_2_eq_2)
  next
    case True
    obtain w h' where w: "mq_shrink (?q, h) = (Inr (), (?q\<lparr>mq_msgs := w, mq_av_start_time := mq_av_end_time ?q\<rparr>, h'))"
      "fv_ok w" "fv_list w = headers_at h (mq_av_end_time ?q) (mq_list ?q)"
      "owned h' (mset (fv_list w) + M)" "same_types (mset (fv_list w) + M) h h'"
      using mq_shrink_spec [OF v(4)] by blast
    let ?w = "?q\<lparr>mq_msgs := w, mq_av_start_time := mq_av_end_time ?q\<rparr>"
    have "mq_enqueue m (q, h) = (Inr True, (?w, h'))"
      using v(1) True w(1) assms(2)
      by (simp add: mq_enqueue_def overflows_def prog_simps numeral_2_eq_2 bindP_Inr [where m = mq_shrink])
    with True w v(2,3) show thesis
      by (intro that [of ?w h']) (simp_all add: mq_ok_def)
  qed
qed

lemma mq_dump_spec:
  assumes "mq_ok (q, h) M" and "0 < n"
  obtains q' where "mq_dump_packets n c (q, h)
      = (Inr (if mq_list q = [] then c else min n (int (length (mq_list q))), take (nat n) (mq_list q)), (q', h))"
    "mq_ok (q', h) (mset (take (nat n) (mq_list q)) + M)" "mq_list q' = drop (nat n) (mq_list q)"
    "mq_queue_size_ms q' = mq_queue_size_ms q" "mq_av_end_time q' = mq_av_end_time q"
    "mq_av_start_time q' = (if mq_list q = [] then mq_av_start_time q
       else sm_timestamp (last (take (nat n) (mq_list q))))"
proof -
  let ?L = "mq_list q"
  from assms(1) have ok: "fv_ok (mq_msgs q)" and ow: "owned h (mset ?L + M)" by (simp_all add: mq_ok_def)
  note sz = fast.size_content [OF ok]
  show thesis
  proof (cases "?L = []")
    case True
    with sz assms(1) show thesis
      by (intro that [of q]) (simp_all add: mq_dump_packets_def prog_simps)
  next
    case False
    let ?k = "min (nat n) (length ?L)" and ?m = "min n (int (length ?L))"
    have k: "nat ?m = ?k" "0 < ?k" "?m = int ?k" using False assms(2) by (auto simp: min_def)
    have t: "take ?k ?L = take (nat n) ?L" "drop ?k ?L = drop (nat n) ?L" by (simp_all add: min_def)
    have last: "sm_timestamp (?L ! nat (?m - 1)) = sm_timestamp (last (take (nat n) ?L))"
    proof -
      have "nat (?m - 1) = ?k - 1" using k by (simp add: nat_diff_distrib)
      moreover have "last (take ?k ?L) = take ?k ?L ! (?k - 1)"
        using k(2) False by (subst last_conv_nth) (auto simp: min_absorb2)
      moreover have "take (nat n) ?L ! (?k - 1) = ?L ! (?k - 1)"
        using k(2) assms(2) by (intro nth_take) (simp add: min_def split: if_splits)
      ultimately show ?thesis using k(2) t(1) by simp
    qed
    obtain v where v: "(if ?m \<ge> int (length ?L) then Inr (fv_clear (mq_msgs q)) else fv_erase 0 ?m (mq_msgs q)) = Inr v"
        "fv_ok v" "fv_list v = drop (nat n) ?L"
    proof (cases "?m \<ge> int (length ?L)")
      case True
      then have "drop (nat n) ?L = []" by simp
      with True fast.clear_content [OF ok] that show thesis by simp
    next
      case False
      then have less: "n < int (length ?L)" "?m = n" by linarith+
      have "0 < nat n" "nat n \<le> length ?L" "int (nat n) = n" using less(1) assms(2) by simp_all
      from fast.erase_content [OF ok this(1,2)] this(3) obtain w
        where "fv_erase 0 n (mq_msgs q) = Inr w" "fv_ok w" "fv_list w = drop (nat n) ?L" by auto
      with less that [of w] show thesis by simp
    qed
    let ?q = "q\<lparr>mq_av_start_time := sm_timestamp (?L ! nat (?m - 1)), mq_msgs := v\<rparr>"
    have "mq_dump_packets n c (q, h) = (Inr (?m, take (nat n) ?L), (?q, h))"
    proof (cases "?m \<ge> int (length ?L)")
      case True
      then have "fv_clear (mq_msgs q) = v" using v(1) unfolding if_P [OF True] by simp
      with True False assms(2) k t(1) show ?thesis by (simp add: mq_dump_packets_def prog_simps Let_def sz)
    next
      case less: False
      then have "fv_erase 0 ?m (mq_msgs q) = Inr v" using v(1) unfolding if_not_P [OF less] by simp
      with less False assms(2) k t(1) show ?thesis
        by (simp add: mq_dump_packets_def prog_simps Let_def sz bindP_assoc)
    qed
    moreover have "mset ?L = mset (take (nat n) ?L) + mset (drop (nat n) ?L)"
      by (metis append_take_drop_id mset_append)
    then have "mq_ok (?q, h) (mset (take (nat n) ?L) + M)"
      using ow v(2,3) by (simp add: mq_ok_def ac_simps)
    ultimately show thesis using False v(3) last by (intro that [of ?q]) simp_all
  qed
qed

lemma mq_clear_spec:
  assumes "mq_ok (q, h) M"
  obtains q' h' where "mq_clear (q, h) = (Inr (), (q', h'))" "fv_ok (mq_msgs q')" "mq_list q' = []"
    "owned h' M" "same_types M h h'" "mq_queue_size_ms q' = mq_queue_size_ms q"
proof -
  from assms have ok: "fv_ok (mq_msgs q)" and ow: "owned h (mset (mq_list q) + M)" by (simp_all add: mq_ok_def)
  from ow obtain h' where "destroy_all (mq_list q) h = (Inr (), h')" "owned h' M" "same_types M h h'"
    by (rule owned_destroy_all)
  then show thesis
    using fast.clear_content [OF ok]
    by (intro that [of "q\<lparr>mq_msgs := fv_clear (mq_msgs q), mq_av_start_time := - 1, mq_av_end_time := - 1\<rparr>" h'])
      (simp_all add: mq_clear_def prog_simps)
qed

section \<open>Runs of the queue\<close>

datatype mq_op = Enqueue shared_msg | Dump int

fun mq_enqueued :: "mq_op list \<Rightarrow> shared_msg list" where
  "mq_enqueued [] = []"
| "mq_enqueued (Enqueue m # ops) = m # mq_enqueued ops"
| "mq_enqueued (Dump n # ops) = mq_enqueued ops"

text \<open>Whether the queue overflowed on the way, and what was dumped.\<close>

fun mq_run :: "mq_op list \<Rightarrow> (bool \<times> shared_msg list) mq_prog" where
  "mq_run [] = returnP (False, [])"
| "mq_run (Enqueue m # ops) = bindP (mq_enqueue m)
     (\<lambda>ov. bindP (mq_run ops) (\<lambda>(ov', ms). returnP (ov \<or> ov', ms)))"
| "mq_run (Dump n # ops) = bindP (mq_dump_packets n 0)
     (\<lambda>(count, ms). bindP (mq_run ops) (\<lambda>(ov, ms'). returnP (ov, ms @ ms')))"

lemma mq_run_spec:
  assumes "mq_ok (q, h) (mset (mq_enqueued ops) + M)" and "0 \<le> mq_queue_size_ms q"
    and "\<forall>n. Dump n \<in> set ops \<longrightarrow> 0 < n"
  shows "\<exists>ov ms q' h'. mq_run ops (q, h) = (Inr (ov, ms), (q', h')) \<and> mq_ok (q', h') (mset ms + M)
    \<and> 0 \<le> mq_queue_size_ms q' \<and> (\<not> ov \<longrightarrow> ms @ mq_list q' = mq_list q @ mq_enqueued ops)"
  using assms
proof (induction ops arbitrary: q h M)
  case Nil
  then show ?case by (auto simp: returnP_def)
next
  case (Cons op ops)
  show ?case
  proof (cases op)
    case (Enqueue m)
    have "mq_ok (q, h) (add_mset m (mset (mq_enqueued ops) + M))" using Cons.prems(1) Enqueue by simp
    then obtain q1 h1 where 1: "mq_enqueue m (q, h) = (Inr (overflows (noted h m q)), (q1, h1))"
        "mq_ok (q1, h1) (mset (mq_enqueued ops) + M)" "mq_queue_size_ms q1 = mq_queue_size_ms q"
        "mq_list q1 = (if overflows (noted h m q)
           then headers_at h (mq_av_end_time (noted h m q)) (mq_list q @ [m]) else mq_list q @ [m])"
      using mq_enqueue_spec [OF _ Cons.prems(2)] by metis
    from Cons.IH [OF 1(2)] Cons.prems(2,3) 1(3) obtain ov ms q2 h2
      where 2: "mq_run ops (q1, h1) = (Inr (ov, ms), (q2, h2))" "mq_ok (q2, h2) (mset ms + M)"
        "0 \<le> mq_queue_size_ms q2" "\<not> ov \<longrightarrow> ms @ mq_list q2 = mq_list q1 @ mq_enqueued ops"
      by auto
    then show ?thesis using 1(1,4) Enqueue by (auto simp: bindP_def prog_eqs)
  next
    case (Dump n)
    with Cons.prems(3) have n: "0 < n" by simp
    have ok: "mq_ok (q, h) (mset (mq_enqueued ops) + M)" using Cons.prems(1) Dump by simp
    obtain c q1 where 1: "mq_dump_packets n 0 (q, h) = (Inr (c, take (nat n) (mq_list q)), (q1, h))"
        "mq_ok (q1, h) (mset (take (nat n) (mq_list q)) + (mset (mq_enqueued ops) + M))"
        "mq_list q1 = drop (nat n) (mq_list q)" "mq_queue_size_ms q1 = mq_queue_size_ms q"
      using mq_dump_spec [OF ok n, of 0] by metis
    have "mq_ok (q1, h) (mset (mq_enqueued ops) + (mset (take (nat n) (mq_list q)) + M))"
      using 1(2) by (simp add: ac_simps)
    from Cons.IH [OF this] Cons.prems(2,3) 1(4) obtain ov ms q2 h2
      where 2: "mq_run ops (q1, h) = (Inr (ov, ms), (q2, h2))"
        "mq_ok (q2, h2) (mset ms + (mset (take (nat n) (mq_list q)) + M))"
        "0 \<le> mq_queue_size_ms q2" "\<not> ov \<longrightarrow> ms @ mq_list q2 = mq_list q1 @ mq_enqueued ops"
      by auto
    have "mq_run (op # ops) (q, h) = (Inr (ov, take (nat n) (mq_list q) @ ms), (q2, h2))"
      using 1(1) 2(1) Dump by (simp add: bindP_def prog_eqs)
    moreover have "mq_ok (q2, h2) (mset (take (nat n) (mq_list q) @ ms) + M)"
      using 2(2) by (simp add: ac_simps)
    moreover have "take (nat n) (mq_list q) @ drop (nat n) (mq_list q) = mq_list q" by simp
    ultimately show ?thesis
      using 2(3,4) 1(3) Dump by (metis append_assoc mq_enqueued.simps(3))
  qed
qed

section \<open>A heap for examples\<close>

text \<open>One payload of the given type and bytes, shared by messages at the times \<open>ts\<close>.\<close>

definition demo_msg :: "byte list \<Rightarrow> 64 word \<Rightarrow> shared_msg" where
  "demo_msg bs t = \<lparr>sm_timestamp = t, sm_stream_id = 1, sm_size = int (length bs),
     sm_payload = Some (map Some bs), sm_ptr = Some 0\<rparr>"

definition demo_heap :: "byte \<Rightarrow> byte list \<Rightarrow> nat \<Rightarrow> sp_heap" where
  "demo_heap ty bs k = \<lparr>h_next = 1, h_mem = (\<lambda>_. None)(0 \<mapsto>
     \<lparr>sp_payload_length = of_nat (length bs), sp_message_type = ty, sp_perfer_cid = 6,
      sp_payload = Some (map Some bs), sp_size = int (length bs), sp_shared_count = int k - 1\<rparr>)\<rparr>"

lemma refs_demo: "refs a (map (demo_msg bs) ts) = (if a = 0 then length ts else 0)"
  by (simp add: refs_length filter_map o_def demo_msg_def)

lemma owned_demo:
  assumes "ts \<noteq> []"
  shows "owned (demo_heap ty bs (length ts)) (mset (map (demo_msg bs) ts))"
proof -
  have "sp_inv (demo_heap ty bs (length ts), map (demo_msg bs) ts)"
    by (rule sp_invI) (use assms in \<open>auto simp: demo_heap_def refs_demo demo_msg_def Suc_le_eq split: if_splits\<close>)
  moreover have "whole (demo_msg bs t)" for t by (auto simp: whole_def demo_msg_def)
  moreover have "sm_ptr (demo_msg bs t) = Some 0" for t by (simp add: demo_msg_def)
  ultimately show ?thesis unfolding owned_def by (auto intro!: exI [of _ "map (demo_msg bs) ts"])
qed

lemma demo_type: "sm_type (demo_heap ty bs k) (demo_msg bs t) = Some ty"
  by (simp add: sm_type_def demo_heap_def demo_msg_def)

lemma mq_ok_new: "owned h M \<Longrightarrow> mq_ok (mq_new b, h) M"
  by (simp add: mq_ok_def mq_new_def fast.ok_empty fast.content_empty)

section \<open>Properties\<close>

text \<open>C11: The queue of a player is a queue: whatever messages are enqueued and however many are
  dumped at a time, no operation fails, and as long as the queue did not overflow the dumped
  messages followed by the ones still queued are exactly the enqueued ones in order. Every
  message is owned by exactly one of the queue, the receiver of the dumps and the rest, so
  none is leaked or freed twice, also when the queue overflows.\<close>

theorem message_queue_fifo:
  assumes "mq_ok (q, h) (mset (mq_enqueued ops) + M)" and "0 \<le> mq_queue_size_ms q"
    and "\<forall>n. Dump n \<in> set ops \<longrightarrow> 0 < n"
  shows "\<exists>ov ms q' h'. mq_run ops (q, h) = (Inr (ov, ms), (q', h')) \<and> mq_ok (q', h') (mset ms + M)
    \<and> (\<not> ov \<longrightarrow> ms @ mq_list q' = mq_list q @ mq_enqueued ops)"
  using mq_run_spec [OF assms] by blast

theorem message_queue_fifo_witness:
  "let bs = [0xAF, 1]; a = demo_msg bs 10; b = demo_msg bs 30; ops = [Enqueue a, Enqueue b, Dump 1] in
   \<exists>ov ms q' h'. mq_run ops (mq_new False\<lparr>mq_queue_size_ms := 30000\<rparr>, demo_heap 8 bs 2)
       = (Inr (ov, ms), (q', h')) \<and> mq_ok (q', h') (mset ms + {#})
    \<and> (\<not> ov \<longrightarrow> ms @ mq_list q' = mq_list (mq_new False\<lparr>mq_queue_size_ms := 30000\<rparr>) @ mq_enqueued ops)"
  unfolding Let_def
  by (rule message_queue_fifo)
    (use owned_demo [of "[10, 30]" 8 "[0xAF, 1]"]
      in \<open>auto simp: fast.ok_empty fast.content_empty mq_ok_def mq_new_def numeral_2_eq_2 add_mset_commute\<close>)

text \<open>C12: Overflow: enqueueing ends (the loop runs at most once) and keeps the span of the queue
  within its size. When the new message makes it longer, exactly the last sequence header of
  the video and that of the audio stay, in this order and at the new time, every other
  message is freed (the new one too, unless it is such a header), and the overflow is
  reported.\<close>

theorem message_queue_overflow:
  assumes "mq_ok (q, h) (add_mset m M)" and "0 \<le> mq_queue_size_ms q"
  shows "\<exists>q' h'. mq_enqueue m (q, h) = (Inr (overflows (noted h m q)), (q', h')) \<and> mq_ok (q', h') M
    \<and> sint (mq_av_end_time q' - mq_av_start_time q') \<le> mq_queue_size_ms q'
    \<and> mq_list q' = (if overflows (noted h m q)
       then headers_at h (mq_av_end_time (noted h m q)) (mq_list q @ [m]) else mq_list q @ [m])"
proof -
  obtain q' h' where "mq_enqueue m (q, h) = (Inr (overflows (noted h m q)), (q', h'))" "mq_ok (q', h') M"
    "mq_queue_size_ms q' = mq_queue_size_ms q" "mq_av_end_time q' = mq_av_end_time (noted h m q)"
    "mq_av_start_time q' = (if overflows (noted h m q) then mq_av_end_time (noted h m q)
       else mq_av_start_time (noted h m q))"
    "mq_list q' = (if overflows (noted h m q)
       then headers_at h (mq_av_end_time (noted h m q)) (mq_list q @ [m]) else mq_list q @ [m])"
    using mq_enqueue_spec [OF assms] by metis
  then show ?thesis
    using assms(2) by (intro exI [of _ q'] exI [of _ h']) (auto simp: overflows_def)
qed

theorem message_queue_overflow_witness:
  "let bs = [0xAF, 1]; m = demo_msg bs 99999; q = mq_new False\<lparr>mq_av_start_time := 0, mq_queue_size_ms := 30000\<rparr>;
     h = demo_heap 8 bs 1 in
   \<exists>q' h'. mq_enqueue m (q, h) = (Inr (overflows (noted h m q)), (q', h')) \<and> mq_ok (q', h') {#}
    \<and> sint (mq_av_end_time q' - mq_av_start_time q') \<le> mq_queue_size_ms q'
    \<and> mq_list q' = (if overflows (noted h m q)
       then headers_at h (mq_av_end_time (noted h m q)) (mq_list q @ [m]) else mq_list q @ [m])"
  unfolding Let_def
  by (rule message_queue_overflow)
    (use owned_demo [of "[99999]" 8 "[0xAF, 1]"]
      in \<open>auto simp: fast.ok_empty fast.content_empty mq_ok_def mq_new_def\<close>)

lemma mq_limit_negative:
  "mq_ok (q, h) M \<Longrightarrow> mq_queue_size_ms q < 0 \<Longrightarrow> overflows q \<Longrightarrow> \<exists>s. mq_limit n ov (q, h) = (Inl OUT_OF_FUEL, s)"
proof (induction n arbitrary: q h ov)
  case 0
  then show ?case by (simp add: raiseP_def)
next
  case (Suc n)
  obtain w h' where w: "mq_shrink (q, h) = (Inr (), (q\<lparr>mq_msgs := w, mq_av_start_time := mq_av_end_time q\<rparr>, h'))"
      "fv_ok w" "owned h' (mset (fv_list w) + M)"
    using mq_shrink_spec [OF Suc.prems(1)] by blast
  let ?w = "q\<lparr>mq_msgs := w, mq_av_start_time := mq_av_end_time q\<rparr>"
  have "mq_ok (?w, h') M" "mq_queue_size_ms ?w < 0" "overflows ?w"
    using w Suc.prems(2) by (simp_all add: mq_ok_def overflows_def)
  from Suc.IH [OF this, of True] w(1) Suc.prems(3) show ?case
    by (simp add: overflows_def prog_simps bindP_Inr [where m = mq_shrink])
qed

text \<open>The loop of \<^verbatim>\<open>enqueue\<close> relies on a size that is not negative: with a negative
  queue size (the code takes any number from the configuration) the first message of audio
  or video that does not lie before the start makes it spin for ever, whatever the number of
  rounds.\<close>

theorem message_queue_negative_size:
  assumes "mq_ok (q, h) (add_mset m M)" and "mq_queue_size_ms q < 0" and "mq_av_start_time q = - 1"
    and "is_audio_in h m \<or> is_video_in h m"
  shows "\<exists>s. mq_enqueue_fuel n m (q, h) = (Inl OUT_OF_FUEL, s)"
proof -
  obtain v where v: "mq_enqueue_fuel n m (q, h) = mq_limit n False (noted h m q\<lparr>mq_msgs := v\<rparr>, h)"
    "mq_ok (noted h m q\<lparr>mq_msgs := v\<rparr>, h) M"
    using mq_enqueue_start [OF assms(1)] by blast
  have "overflows (noted h m q\<lparr>mq_msgs := v\<rparr>)"
    using assms(2-4) by (auto simp: overflows_def noted_def mq_note_time_def)
  with mq_limit_negative [OF v(2)] assms(2) show ?thesis unfolding v(1) by simp
qed

theorem message_queue_negative_size_witness:
  "let bs = [0xAF, 1]; m = demo_msg bs 5; q = mq_new False\<lparr>mq_queue_size_ms := - 1000\<rparr> in
   \<exists>s. mq_enqueue_fuel 1000000 m (q, demo_heap 8 bs 1) = (Inl OUT_OF_FUEL, s)"
  unfolding Let_def
  by (rule message_queue_negative_size [where M = "{#}"])
    (use owned_demo [of "[5]" 8 "[0xAF, 1]"]
      in \<open>auto simp: fast.ok_empty fast.content_empty mq_ok_def mq_new_def demo_type\<close>)

text \<open>A metadata message at the end of a dump breaks the bookkeeping of time: the jitter
  correction gives metadata the time 0, the dump makes the time of its last message the
  start of the queue, and then the next frame, if its time is beyond the size of the queue,
  overflows the empty queue and is dropped.\<close>

theorem metadata_dump_drops_frame:
  assumes "mq_ok (q, h) (add_mset m M)" and "0 \<le> mq_queue_size_ms q"
    and "mq_list q \<noteq> []" and "int (length (mq_list q)) \<le> n" and "sm_timestamp (last (mq_list q)) = 0"
    and "is_audio_in h m \<or> is_video_in h m" and "\<not> vsh_in h m" and "\<not> ash_in h m"
    and "mq_queue_size_ms q < sint (sm_timestamp m)"
  shows "\<exists>c s1 q' h'. mq_dump_packets n 0 (q, h) = (Inr (c, mq_list q), s1)
    \<and> mq_enqueue m s1 = (Inr True, (q', h')) \<and> mq_list q' = []"
proof -
  have n: "0 < n" "nat n \<ge> length (mq_list q)" using assms(3,4) by (cases "mq_list q"; simp)+
  obtain c q1 where 1: "mq_dump_packets n 0 (q, h) = (Inr (c, mq_list q), (q1, h))"
      "mq_ok (q1, h) (mset (mq_list q) + add_mset m M)" "mq_list q1 = []"
      "mq_queue_size_ms q1 = mq_queue_size_ms q" "mq_av_start_time q1 = 0"
    using mq_dump_spec [OF assms(1) n(1), of 0] n(2) assms(3,5)
    by (metis (no_types, lifting) drop_all take_all)
  have "mq_ok (q1, h) (add_mset m (mset (mq_list q) + M))" using 1(2) by simp
  moreover have "0 \<le> mq_queue_size_ms q1" using 1(4) assms(2) by simp
  ultimately obtain q' h' where "mq_enqueue m (q1, h) = (Inr (overflows (noted h m q1)), (q', h'))"
    "mq_list q' = (if overflows (noted h m q1)
       then headers_at h (mq_av_end_time (noted h m q1)) (mq_list q1 @ [m]) else mq_list q1 @ [m])"
    using mq_enqueue_spec by metis
  moreover have "overflows (noted h m q1)"
    using 1(4,5) assms(6,9) by (auto simp: overflows_def noted_def mq_note_time_def Let_def)
  ultimately show ?thesis using 1(1,3) assms(7,8) by (auto simp: headers_at_def)
qed

theorem metadata_dump_drops_frame_witness:
  "let bs = [0xAF, 1]; m = demo_msg bs 60010; h = demo_heap 8 bs 2;
     q = mq_new False\<lparr>mq_queue_size_ms := 30000,
       mq_msgs := \<lparr>fv_cells = [Some (demo_msg bs 0)], fv_count = 1\<rparr>\<rparr>
   in \<exists>c s1 q' h'. mq_dump_packets 128 0 (q, h) = (Inr (c, mq_list q), s1)
    \<and> mq_enqueue m s1 = (Inr True, (q', h')) \<and> mq_list q' = []"
  unfolding Let_def
  by (rule metadata_dump_drops_frame [where M = "{#}"])
    (use owned_demo [of "[0, 60010]" 8 "[0xAF, 1]"]
      in \<open>auto simp: mq_ok_def mq_new_def fv_ok_def fv_list_def demo_type vsh_in_def ash_in_def
        numeral_2_eq_2 add_mset_commute,
        auto simp: demo_msg_def holds_def SrsFlvAudio_sh_def SrsFlvAudio_aac_def flv_byte_def high_nibble_def\<close>)

end
