(* ===== verification/Srs_Consumer.thy ===== *)
theory Srs_Consumer
  imports Srs_Message_Queue
begin

text \<open>
  \<^verbatim>\<open>SrsRtmpJitter\<close> and \<^verbatim>\<open>SrsConsumer\<close> (\<^verbatim>\<open>src/src/app/srs_app_source.cpp\<close>): a player takes
  copies of the messages of the source, corrects their times and queues them.
\<close>

section \<open>The time jitter\<close>

datatype jitter_algorithm = JitterFULL | JitterZERO | JitterOFF

definition srs_time_jitter_string2int :: "string \<Rightarrow> jitter_algorithm" where
  "srs_time_jitter_string2int time_jitter =
     (if time_jitter = ''full'' then JitterFULL
      else if time_jitter = ''zero'' then JitterZERO
      else JitterOFF)"

record jitter =
  jt_last_pkt_time :: "64 word"
  jt_last_pkt_correct_time :: "64 word"

definition jitter_new :: jitter where
  "jitter_new = \<lparr>jt_last_pkt_time = 0, jt_last_pkt_correct_time = - 1\<rparr>"

definition CONST_MAX_JITTER_MS :: int where "CONST_MAX_JITTER_MS = 250"
definition CONST_MAX_JITTER_MS_NEG :: int where "CONST_MAX_JITTER_MS_NEG = - 250"
definition DEFAULT_FRAME_TIME_MS :: "64 word" where "DEFAULT_FRAME_TIME_MS = 10"

text \<open>The full algorithm on the time of an audio or video message.\<close>

definition jitter_step :: "64 word \<Rightarrow> jitter \<Rightarrow> jitter" where
  "jitter_step time j =
     (let delta = time - jt_last_pkt_time j;
          delta = (if sint delta < CONST_MAX_JITTER_MS_NEG \<or> sint delta > CONST_MAX_JITTER_MS
            then DEFAULT_FRAME_TIME_MS else delta);
          correct = jt_last_pkt_correct_time j + delta
      in \<lparr>jt_last_pkt_time = time,
          jt_last_pkt_correct_time = (if sint correct < 0 then 0 else correct)\<rparr>)"

definition jitter_correct :: "jitter_algorithm \<Rightarrow> shared_msg \<Rightarrow> (jitter \<times> sp_heap, shared_msg) prog" where
  "jitter_correct ag m = (case ag of
     JitterOFF \<Rightarrow> returnP m
   | JitterZERO \<Rightarrow>
       bindP (modifyP (\<lambda>(j, h). (if jt_last_pkt_correct_time j = - 1
           then j\<lparr>jt_last_pkt_correct_time := sm_timestamp m\<rparr> else j, h)))
       (\<lambda>_. bindP (getP (\<lambda>(j, h). jt_last_pkt_correct_time j))
       (\<lambda>t. returnP (m\<lparr>sm_timestamp := sm_timestamp m - t\<rparr>)))
   | JitterFULL \<Rightarrow>
       bindP (on_shared (sm_is_av m))
       (\<lambda>av. if \<not> av then returnP (m\<lparr>sm_timestamp := 0\<rparr>)
          else bindP (modifyP (\<lambda>(j, h). (jitter_step (sm_timestamp m) j, h)))
            (\<lambda>_. bindP (getP (\<lambda>(j, h). jt_last_pkt_correct_time j))
            (\<lambda>t. returnP (m\<lparr>sm_timestamp := t\<rparr>)))))"

definition jitter_get_time :: "jitter \<Rightarrow> 32 word" where
  "jitter_get_time j = ucast (jt_last_pkt_correct_time j)"

section \<open>The consumer\<close>

text \<open>The condition variable of the merged write is not compiled in.\<close>

record consumer =
  co_jitter :: jitter
  co_queue :: mqueue
  co_paused :: bool
  co_should_update_source_id :: bool

definition consumer_new :: consumer where
  "consumer_new = \<lparr>co_jitter = jitter_new, co_queue = mq_new False, co_paused = False,
     co_should_update_source_id = False\<rparr>"

definition consumer_set_queue_size :: "int \<Rightarrow> consumer \<Rightarrow> consumer" where
  "consumer_set_queue_size ms c = c\<lparr>co_queue := mq_set_queue_size ms (co_queue c)\<rparr>"

definition consumer_update_source_id :: "consumer \<Rightarrow> consumer" where
  "consumer_update_source_id c = c\<lparr>co_should_update_source_id := True\<rparr>"

definition consumer_get_time :: "consumer \<Rightarrow> 32 word" where
  "consumer_get_time c = jitter_get_time (co_jitter c)"

definition consumer_on_play_client_pause :: "bool \<Rightarrow> consumer \<Rightarrow> consumer" where
  "consumer_on_play_client_pause is_pause c = c\<lparr>co_paused := is_pause\<rparr>"

type_synonym 'a co_prog = "(consumer \<times> sp_heap, 'a) prog"

definition on_jitter :: "(jitter \<times> sp_heap, 'a) prog \<Rightarrow> 'a co_prog" where
  "on_jitter m = (\<lambda>(c, h). case m (co_jitter c, h) of (r, (j, h')) \<Rightarrow> (r, (c\<lparr>co_jitter := j\<rparr>, h')))"

definition on_queue :: "'a mq_prog \<Rightarrow> 'a co_prog" where
  "on_queue m = (\<lambda>(c, h). case m (co_queue c, h) of (r, (q, h')) \<Rightarrow> (r, (c\<lparr>co_queue := q\<rparr>, h')))"

definition consumer_enqueue :: "shared_msg \<Rightarrow> bool \<Rightarrow> jitter_algorithm \<Rightarrow> unit co_prog" where
  "consumer_enqueue shared_msg atc ag =
     bindP (on_shared (sm_copy shared_msg))
     (\<lambda>m. bindP (if \<not> atc then on_jitter (jitter_correct ag m) else returnP m)
     (\<lambda>m. bindP (on_queue (mq_enqueue m)) (\<lambda>_. returnP ())))"

text \<open>\<open>max\<close> is the capacity of the array; the count in is a limit if it is not 0.\<close>

definition consumer_dump_packets :: "int \<Rightarrow> int \<Rightarrow> (int \<times> shared_msg list) co_prog" where
  "consumer_dump_packets max0 n0 =
     bindP (checkP (n0 \<ge> 0) ASSERT_FAILED)
     (\<lambda>_. bindP (checkP (max0 > 0) ASSERT_FAILED)
     (\<lambda>_. let mx = (if n0 \<noteq> 0 then min n0 max0 else max0) in
        bindP (modifyP (\<lambda>(c, h). (c\<lparr>co_should_update_source_id := False\<rparr>, h)))
        (\<lambda>_. bindP (getP (\<lambda>(c, h). co_paused c))
        (\<lambda>paused. if paused then returnP (0, []) else on_queue (mq_dump_packets mx 0)))))"

text \<open>\<^verbatim>\<open>SrsMessageQueue::dump_packets\<close> into a consumer: the messages stay in the queue.\<close>

fun enqueue_all :: "shared_msg list \<Rightarrow> bool \<Rightarrow> jitter_algorithm \<Rightarrow> unit co_prog" where
  "enqueue_all [] atc ag = returnP ()"
| "enqueue_all (m # ms) atc ag = bindP (consumer_enqueue m atc ag) (\<lambda>_. enqueue_all ms atc ag)"

definition mq_dump_to_consumer :: "mqueue \<Rightarrow> bool \<Rightarrow> jitter_algorithm \<Rightarrow> unit co_prog" where
  "mq_dump_to_consumer q atc ag = (if fv_size (mq_msgs q) \<le> 0 then returnP ()
     else enqueue_all (fv_list (mq_msgs q)) atc ag)"

text \<open>The destructor of a consumer frees its queue.\<close>

definition consumer_destroy :: "unit co_prog" where
  "consumer_destroy = on_queue mq_clear"

section \<open>What the jitter correction guarantees\<close>

text \<open>The times that the full algorithm gives to a stream of audio and video messages.\<close>

fun jitter_times :: "jitter \<Rightarrow> 64 word list \<Rightarrow> 64 word list" where
  "jitter_times j [] = []"
| "jitter_times j (t # ts) = jt_last_pkt_correct_time (jitter_step t j) # jitter_times (jitter_step t j) ts"

abbreviation corrected :: "jitter \<Rightarrow> int" where "corrected j \<equiv> sint (jt_last_pkt_correct_time j)"

definition jitter_delta :: "64 word \<Rightarrow> jitter \<Rightarrow> int" where
  "jitter_delta t j = (let d = sint (t - jt_last_pkt_time j) in if d < - 250 \<or> d > 250 then 10 else d)"

lemma sint_add_small:
  fixes a b :: "64 word"
  assumes "- (2 ^ 63) \<le> sint a + sint b" and "sint a + sint b < 2 ^ 63"
  shows "sint (a + b) = sint a + sint b"
proof -
  have "sint (a + b) = signed_take_bit 63 (sint a + sint b)"
    by (simp add: sint_word_ariths(1))
  also have "\<dots> = sint a + sint b"
    using assms by (simp add: signed_take_bit_int_eq_self_iff)
  finally show ?thesis .
qed

lemma jitter_step_correct:
  assumes "- 1 \<le> corrected j" and "corrected j < 2 ^ 62"
  shows "corrected (jitter_step t j) = max 0 (corrected j + jitter_delta t j)"
    and "- 250 \<le> jitter_delta t j" and "jitter_delta t j \<le> 250"
    and "jt_last_pkt_time (jitter_step t j) = t"
proof -
  let ?d = "if sint (t - jt_last_pkt_time j) < - 250 \<or> sint (t - jt_last_pkt_time j) > 250
    then (10 :: 64 word) else t - jt_last_pkt_time j"
  have d: "sint ?d = jitter_delta t j"
    by (simp add: jitter_delta_def Let_def)
  show b: "- 250 \<le> jitter_delta t j" "jitter_delta t j \<le> 250"
    by (simp_all add: jitter_delta_def Let_def)
  have "sint (jt_last_pkt_correct_time j + ?d) = corrected j + jitter_delta t j"
    using sint_add_small [of "jt_last_pkt_correct_time j" ?d] d b assms by simp
  then show "corrected (jitter_step t j) = max 0 (corrected j + jitter_delta t j)"
    by (auto simp: jitter_step_def Let_def CONST_MAX_JITTER_MS_def CONST_MAX_JITTER_MS_NEG_def
        DEFAULT_FRAME_TIME_MS_def max_def split: if_splits)
  show "jt_last_pkt_time (jitter_step t j) = t" by (simp add: jitter_step_def Let_def)
qed

lemma jitter_times_bounds:
  "- 1 \<le> corrected j \<Longrightarrow> corrected j + 250 * int (length ts) < 2 ^ 62 \<Longrightarrow>
   (\<forall>c \<in> set (jitter_times j ts). 0 \<le> sint c)
   \<and> (\<forall>i. Suc i < length ts \<longrightarrow>
        sint (jitter_times j ts ! Suc i) = max 0 (sint (jitter_times j ts ! i)
          + (let d = sint (ts ! Suc i - ts ! i) in if d < - 250 \<or> d > 250 then 10 else d)))"
proof (induction ts arbitrary: j)
  case Nil
  then show ?case by simp
next
  case (Cons t ts)
  let ?j = "jitter_step t j"
  have "corrected j < 2 ^ 62" using Cons.prems(2) by simp
  note st = jitter_step_correct [OF Cons.prems(1) this, of t]
  have b: "0 \<le> corrected ?j" "corrected ?j + 250 * int (length ts) < 2 ^ 62"
    using st(1-3) Cons.prems by simp_all
  from b(1) have "- 1 \<le> corrected ?j" by simp
  note IH = Cons.IH [OF this b(2)]
  show ?case
  proof (intro conjI allI impI)
    show "\<forall>c \<in> set (jitter_times j (t # ts)). 0 \<le> sint c" using IH b(1) by simp
    fix i assume i: "Suc i < length (t # ts)"
    show "sint (jitter_times j (t # ts) ! Suc i) = max 0 (sint (jitter_times j (t # ts) ! i)
        + (let d = sint ((t # ts) ! Suc i - (t # ts) ! i) in if d < - 250 \<or> d > 250 then 10 else d))"
    proof (cases i)
      case (Suc k)
      with IH i show ?thesis by simp
    next
      case 0
      with i obtain u us where ts: "ts = u # us" by (cases ts) auto
      have "corrected ?j < 2 ^ 62" using b(2) by simp
      from jitter_step_correct(1) [OF \<open>- 1 \<le> corrected ?j\<close> this, of u] st(4) 0 ts
      show ?thesis by (simp add: jitter_delta_def)
    qed
  qed
qed

lemma length_jitter_times [simp]: "length (jitter_times j ts) = length ts"
  by (induction ts arbitrary: j) simp_all

text \<open>C14: The full jitter correction bounds what a player sees: whatever times the publisher
  sends, wrapped or jumping, the corrected times are never negative and two successive ones
  differ by at most 250 ms; a step of the publisher of 0 to 250 ms is passed on unchanged, a
  larger jump in either direction becomes 10 ms.\<close>

theorem jitter_bounds:
  assumes "length ts < 2 ^ 50" and "Suc i < length ts"
  shows "let cs = map sint (jitter_times jitter_new ts); d = sint (ts ! Suc i - ts ! i) in
    0 \<le> cs ! i \<and> \<bar>cs ! Suc i - cs ! i\<bar> \<le> 250
    \<and> (0 \<le> d \<longrightarrow> d \<le> 250 \<longrightarrow> cs ! Suc i = cs ! i + d)
    \<and> (d < - 250 \<or> 250 < d \<longrightarrow> cs ! Suc i = cs ! i + 10)"
proof -
  let ?cs = "jitter_times jitter_new ts"
  have c: "corrected jitter_new = - 1" by (simp add: jitter_new_def)
  have "250 * int (length ts) < 2 ^ 62 + 1" using assms(1) by simp
  with c have "corrected jitter_new + 250 * int (length ts) < 2 ^ 62" by simp
  from jitter_times_bounds [OF _ this] c
  have n: "\<forall>c \<in> set ?cs. 0 \<le> sint c"
    and s: "sint (?cs ! Suc i) = max 0 (sint (?cs ! i)
      + (let d = sint (ts ! Suc i - ts ! i) in if d < - 250 \<or> d > 250 then 10 else d))"
    using assms(2) by simp_all
  have "0 \<le> sint (?cs ! i)" using n assms(2) by simp
  with s assms(2) show ?thesis by (auto simp: Let_def max_def)
qed

theorem jitter_bounds_witness:
  "let ts = [1000, 1040, 5, 45]; i = 1 in
   let cs = map sint (jitter_times jitter_new ts); d = sint (ts ! Suc i - ts ! i) in
    0 \<le> cs ! i \<and> \<bar>cs ! Suc i - cs ! i\<bar> \<le> 250
    \<and> (0 \<le> d \<longrightarrow> d \<le> 250 \<longrightarrow> cs ! Suc i = cs ! i + d)
    \<and> (d < - 250 \<or> 250 < d \<longrightarrow> cs ! Suc i = cs ! i + 10)"
  unfolding Let_def by (rule jitter_bounds [unfolded Let_def]) simp_all

text \<open>The full algorithm does not make the times monotonic, although its documentation says
  so: a publisher that goes back by up to 250 ms takes the player back by as much.\<close>

theorem jitter_not_monotonic:
  assumes "length ts < 2 ^ 50" and "Suc i < length ts"
    and "sint (ts ! Suc i - ts ! i) = - d" and "0 < d" and "d \<le> 250"
    and "d \<le> sint (jitter_times jitter_new ts ! i)"
  shows "sint (jitter_times jitter_new ts ! Suc i) = sint (jitter_times jitter_new ts ! i) - d"
proof -
  have c: "corrected jitter_new = - 1" by (simp add: jitter_new_def)
  have "250 * int (length ts) < 2 ^ 62 + 1" using assms(1) by simp
  with c have "corrected jitter_new + 250 * int (length ts) < 2 ^ 62" by simp
  from jitter_times_bounds [OF _ this] c assms(2-) show ?thesis by simp
qed

theorem jitter_not_monotonic_witness:
  "let ts = [200, 240, 140]; i = 1; d = 100 in
   sint (jitter_times jitter_new ts ! Suc i) = sint (jitter_times jitter_new ts ! i) - d"
  unfolding Let_def
  by (rule jitter_not_monotonic)
    (simp_all add: jitter_step_def jitter_new_def Let_def CONST_MAX_JITTER_MS_def
      CONST_MAX_JITTER_MS_NEG_def DEFAULT_FRAME_TIME_MS_def)

section \<open>What a consumer does with a message\<close>

definition jitter_stamp :: "jitter_algorithm \<Rightarrow> bool \<Rightarrow> 64 word \<Rightarrow> jitter \<Rightarrow> 64 word \<times> jitter" where
  "jitter_stamp ag av t j = (case ag of
     JitterOFF \<Rightarrow> (t, j)
   | JitterZERO \<Rightarrow> let j = (if jt_last_pkt_correct_time j = - 1 then j\<lparr>jt_last_pkt_correct_time := t\<rparr> else j)
       in (t - jt_last_pkt_correct_time j, j)
   | JitterFULL \<Rightarrow> if av then (jt_last_pkt_correct_time (jitter_step t j), jitter_step t j) else (0, j))"

lemma jitter_correct_spec:
  assumes "owned h M" and "m \<in># M"
  shows "jitter_correct ag m (j, h) = (case jitter_stamp ag (is_audio_in h m \<or> is_video_in h m) (sm_timestamp m) j of
    (t, j') \<Rightarrow> (Inr (m\<lparr>sm_timestamp := t\<rparr>), (j', h)))"
  by (cases ag) (auto simp: jitter_correct_def jitter_stamp_def prog_simps Let_def owned_kind [OF assms])

text \<open>The message that is queued, and the clock after it.\<close>

definition co_stamp :: "sp_heap \<Rightarrow> bool \<Rightarrow> jitter_algorithm \<Rightarrow> shared_msg \<Rightarrow> jitter \<Rightarrow> 64 word \<times> jitter" where
  "co_stamp h atc ag m j = (if atc then (sm_timestamp m, j)
     else jitter_stamp ag (is_audio_in h m \<or> is_video_in h m) (sm_timestamp m) j)"

definition co_ok :: "consumer \<times> sp_heap \<Rightarrow> shared_msg multiset \<Rightarrow> bool" where
  "co_ok s M \<longleftrightarrow> (case s of (c, h) \<Rightarrow> mq_ok (co_queue c, h) M \<and> 0 \<le> mq_queue_size_ms (co_queue c))"

lemma on_prog_simps [prog_simps]:
  "bindP (on_jitter m) f (c, h) = (case m (co_jitter c, h) of
     (Inl e, (j, h')) \<Rightarrow> (Inl e, (c\<lparr>co_jitter := j\<rparr>, h')) | (Inr x, (j, h')) \<Rightarrow> f x (c\<lparr>co_jitter := j\<rparr>, h'))"
  "bindP (on_queue n) g (c, h) = (case n (co_queue c, h) of
     (Inl e, (q, h')) \<Rightarrow> (Inl e, (c\<lparr>co_queue := q\<rparr>, h')) | (Inr y, (q, h')) \<Rightarrow> g y (c\<lparr>co_queue := q\<rparr>, h'))"
  "on_queue n (c, h) = (case n (co_queue c, h) of (r, (q, h')) \<Rightarrow> (r, (c\<lparr>co_queue := q\<rparr>, h')))"
  by (auto simp: on_jitter_def on_queue_def bindP_def split: prod.splits sum.splits)

lemma consumer_enqueue_spec:
  assumes "co_ok (c, h) M" and "m \<in># M"
    and t_def: "t = fst (co_stamp h atc ag m (co_jitter c))" and m'_def: "m' = m\<lparr>sm_timestamp := t\<rparr>"
  obtains c' h' where "consumer_enqueue m atc ag (c, h) = (Inr (), (c', h'))" "co_ok (c', h') M"
    "same_types (mset (mq_list (co_queue c')) + M) h h'" "co_jitter c' = snd (co_stamp h atc ag m (co_jitter c))"
    "co_paused c' = co_paused c" "co_should_update_source_id c' = co_should_update_source_id c"
    "mq_queue_size_ms (co_queue c') = mq_queue_size_ms (co_queue c)"
    "mq_list (co_queue c') = (if overflows (noted h m' (co_queue c))
       then headers_at h (mq_av_end_time (noted h m' (co_queue c))) (mq_list (co_queue c) @ [m'])
       else mq_list (co_queue c) @ [m'])"
    "mq_av_end_time (co_queue c') = mq_av_end_time (noted h m' (co_queue c))"
    "mq_av_start_time (co_queue c') = (if overflows (noted h m' (co_queue c))
       then mq_av_end_time (noted h m' (co_queue c)) else mq_av_start_time (noted h m' (co_queue c)))"
proof -
  let ?q = "co_queue c"
  from assms(1) have ok: "mq_ok (?q, h) M" and sz: "0 \<le> mq_queue_size_ms ?q" by (simp_all add: co_ok_def)
  from ok have v: "fv_ok (mq_msgs ?q)" and ow: "owned h (mset (mq_list ?q) + M)" by (simp_all add: mq_ok_def)
  have "m \<in># mset (mq_list ?q) + M" using assms(2) by simp
  with ow obtain h1 where c: "sm_copy m h = (Inr m, h1)" "owned h1 (add_mset m (mset (mq_list ?q) + M))"
      "sm_type h1 = sm_type h"
    by (rule owned_copy)
  have "m \<in># add_mset m (mset (mq_list ?q) + M)" by simp
  note j = jitter_correct_spec [OF c(2) this, of ag "co_jitter c", unfolded c(3)]
  obtain j' where st: "co_stamp h atc ag m (co_jitter c) = (t, j')"
    unfolding t_def by (metis prod.collapse)
  have run: "consumer_enqueue m atc ag (c, h)
      = bindP (on_queue (mq_enqueue m')) (\<lambda>_. returnP ()) (c\<lparr>co_jitter := j'\<rparr>, h1)"
  proof (cases atc)
    case True
    with st have "t = sm_timestamp m" "j' = co_jitter c" by (simp_all add: co_stamp_def)
    with True c(1) show ?thesis by (simp add: consumer_enqueue_def prog_simps m'_def)
  next
    case False
    with st have "jitter_stamp ag (is_audio_in h m \<or> is_video_in h m) (sm_timestamp m) (co_jitter c) = (t, j')"
      by (simp add: co_stamp_def)
    with False c(1) j show ?thesis by (simp add: consumer_enqueue_def prog_simps m'_def)
  qed
  have "owned h1 (add_mset m' (mset (mq_list ?q) + M))"
    unfolding m'_def by (rule owned_retime [OF c(2)])
  then have "mq_ok (?q, h1) (add_mset m' M)" using v by (simp add: mq_ok_def)
  then obtain q' h' where e: "mq_enqueue m' (?q, h1) = (Inr (overflows (noted h1 m' ?q)), (q', h'))"
    "mq_ok (q', h') M" "mq_queue_size_ms q' = mq_queue_size_ms ?q"
    "mq_av_end_time q' = mq_av_end_time (noted h1 m' ?q)"
    "mq_av_start_time q' = (if overflows (noted h1 m' ?q) then mq_av_end_time (noted h1 m' ?q)
       else mq_av_start_time (noted h1 m' ?q))"
    "mq_list q' = (if overflows (noted h1 m' ?q)
       then headers_at h1 (mq_av_end_time (noted h1 m' ?q)) (mq_list ?q @ [m']) else mq_list ?q @ [m'])"
    "same_types (mset (mq_list q') + M) h1 h'"
    using mq_enqueue_spec [OF _ sz] by metis
  have n: "noted h1 m' ?q = noted h m' ?q" "headers_at h1 = headers_at h"
    by (simp_all add: noted_def c(3) headers_at_def fun_eq_iff vsh_in_def [abs_def] ash_in_def [abs_def])
  have "same_types (mset (mq_list q') + M) h h'"
    using e(7) c(3) by (simp add: same_types_def)
  with e n st sz run show thesis
    by (intro that [of "c\<lparr>co_jitter := j', co_queue := q'\<rparr>" h']) (simp_all add: prog_simps co_ok_def)
qed

lemma consumer_dump_spec:
  assumes "co_ok (c, h) M" and "0 \<le> n0" and "0 < mx0" and n_def: "n = (if n0 \<noteq> 0 then min n0 mx0 else mx0)"
  obtains k ms c' where "consumer_dump_packets mx0 n0 (c, h) = (Inr (k, ms), (c', h))"
    "ms = (if co_paused c then [] else take (nat n) (mq_list (co_queue c)))" "k = int (length ms)"
    "co_ok (c', h) (mset ms + M)" "mq_list (co_queue c') = drop (length ms) (mq_list (co_queue c))"
proof (cases "co_paused c")
  case True
  with assms show thesis
    by (intro that [of 0 "[]" "c\<lparr>co_should_update_source_id := False\<rparr>"])
      (simp_all add: consumer_dump_packets_def prog_simps Let_def co_ok_def)
next
  case False
  let ?L = "mq_list (co_queue c)"
  have n: "0 < n" using assms(2,3) by (auto simp: n_def)
  from assms(1) have ok: "mq_ok (co_queue c, h) M" by (simp add: co_ok_def)
  obtain q' where d: "mq_dump_packets n 0 (co_queue c, h)
      = (Inr (if ?L = [] then 0 else min n (int (length ?L)), take (nat n) ?L), (q', h))"
    "mq_ok (q', h) (mset (take (nat n) ?L) + M)" "mq_list q' = drop (nat n) ?L"
    "mq_queue_size_ms q' = mq_queue_size_ms (co_queue c)"
    using mq_dump_spec [OF ok n, of 0] by metis
  have k: "(if ?L = [] then 0 else min n (int (length ?L))) = int (length (take (nat n) ?L))"
    using n by (cases "?L = []") (auto simp: min_def)
  have "drop (nat n) ?L = drop (length (take (nat n) ?L)) ?L" by (simp add: min_def)
  with False assms d k show thesis
    by (intro that [of "int (length (take (nat n) ?L))" "take (nat n) ?L"
          "c\<lparr>co_should_update_source_id := False, co_queue := q'\<rparr>"])
      (simp_all add: consumer_dump_packets_def prog_simps Let_def co_ok_def)
qed

end
