(* ===== verification/Srs_Gop_Cache.thy ===== *)
theory Srs_Gop_Cache
  imports Srs_Consumer
begin

text \<open>
  \<^verbatim>\<open>SrsGopCache\<close> (\<^verbatim>\<open>src/src/app/srs_app_source.cpp\<close>): the messages since the last key frame,
  which a new player gets at once.
\<close>

section \<open>The cache\<close>

definition SRS_PURE_AUDIO_GUESS_COUNT :: int where "SRS_PURE_AUDIO_GUESS_COUNT = 115"

text \<open>
  The counters are of type \<^verbatim>\<open>int\<close>; they count messages of the cache, so that they are far from
  overflowing.
\<close>

record gop_cache =
  gc_enable :: bool
  gc_video_count :: int
  gc_audio_after :: int
  gc_msgs :: "shared_msg list"

definition gop_cache_new :: gop_cache where
  "gop_cache_new = \<lparr>gc_enable = True, gc_video_count = 0, gc_audio_after = 0, gc_msgs = []\<rparr>"

type_synonym 'a gc_prog = "(gop_cache \<times> sp_heap, 'a) prog"

definition gc_upd :: "(gop_cache \<Rightarrow> gop_cache) \<Rightarrow> unit gc_prog" where
  "gc_upd f = modifyP (\<lambda>(g, h). (f g, h))"

definition gop_cache_clear :: "unit gc_prog" where
  "gop_cache_clear = bindP (getP (\<lambda>(g, h). gc_msgs g))
     (\<lambda>ms. bindP (on_shared (destroy_all ms))
     (\<lambda>_. gc_upd (\<lambda>g. g\<lparr>gc_msgs := [], gc_video_count := 0, gc_audio_after := 0\<rparr>)))"

definition gop_cache_dispose :: "unit gc_prog" where
  "gop_cache_dispose = gop_cache_clear"

definition gop_cache_set :: "bool \<Rightarrow> unit gc_prog" where
  "gop_cache_set v = bindP (gc_upd (\<lambda>g. g\<lparr>gc_enable := v\<rparr>))
     (\<lambda>_. if \<not> v then gop_cache_clear else returnP ())"

definition gop_cache_enabled :: "gop_cache \<Rightarrow> bool" where
  "gop_cache_enabled g = gc_enable g"

definition gop_cache_pure_audio :: "gop_cache \<Rightarrow> bool" where
  "gop_cache_pure_audio g \<longleftrightarrow> gc_video_count g = 0"

definition gop_cache_empty :: "gop_cache \<Rightarrow> bool" where
  "gop_cache_empty g \<longleftrightarrow> gc_msgs g = []"

definition gop_cache_start_time :: "gop_cache \<Rightarrow> 64 word" where
  "gop_cache_start_time g = (if gop_cache_empty g then 0 else sm_timestamp (gc_msgs g ! 0))"

text \<open>The end of \<^verbatim>\<open>cache\<close>: a key frame starts a new group.\<close>

definition gop_cache_frame :: "shared_msg \<Rightarrow> bool \<Rightarrow> unit gc_prog" where
  "gop_cache_frame msg video =
     bindP (if video then liftR (SrsFlvVideo_keyframe (sm_payload msg) (sm_size msg)) else returnP False)
     (\<lambda>key. bindP (if key
         then bindP gop_cache_clear (\<lambda>_. gc_upd (\<lambda>g. g\<lparr>gc_video_count := 1\<rparr>))
         else returnP ())
     (\<lambda>_. bindP (on_shared (sm_copy msg)) (\<lambda>m. gc_upd (\<lambda>g. g\<lparr>gc_msgs := gc_msgs g @ [m]\<rparr>))))"

definition gop_cache_count :: "shared_msg \<Rightarrow> bool \<Rightarrow> unit gc_prog" where
  "gop_cache_count msg video = bindP (getP (\<lambda>(g, h). gop_cache_pure_audio g))
     (\<lambda>pure. if pure then returnP ()
        else bindP (on_shared (sm_is_audio msg))
          (\<lambda>audio. bindP (if audio then gc_upd (\<lambda>g. g\<lparr>gc_audio_after := gc_audio_after g + 1\<rparr>) else returnP ())
          (\<lambda>_. bindP (getP (\<lambda>(g, h). gc_audio_after g > SRS_PURE_AUDIO_GUESS_COUNT))
          (\<lambda>overflow. if overflow then gop_cache_clear else gop_cache_frame msg video))))"

definition gop_cache_cache :: "shared_msg \<Rightarrow> unit gc_prog" where
  "gop_cache_cache msg = bindP (getP (\<lambda>(g, h). gc_enable g))
     (\<lambda>enable. if \<not> enable then returnP ()
        else bindP (on_shared (sm_is_video msg))
          (\<lambda>video. bindP (if video then liftR (SrsFlvVideo_h264 (sm_payload msg) (sm_size msg)) else returnP True)
          (\<lambda>h264. if \<not> h264 then returnP ()
             else bindP (if video
                 then gc_upd (\<lambda>g. g\<lparr>gc_video_count := gc_video_count g + 1, gc_audio_after := 0\<rparr>)
                 else returnP ())
               (\<lambda>_. gop_cache_count msg video))))"

definition gop_cache_dump :: "gop_cache \<Rightarrow> bool \<Rightarrow> jitter_algorithm \<Rightarrow> unit co_prog" where
  "gop_cache_dump g atc ag = enqueue_all (gc_msgs g) atc ag"

section \<open>The cache as a list\<close>

text \<open>
  What the cache holds, as a function of the messages alone. Two counters of the code are
  properties of this list: how many videos it has, and how many audios follow the last one.
\<close>

text \<open>A message as the players see it: its type, time and bytes.\<close>

type_synonym frame = "byte \<times> 64 word \<times> byte list"

abbreviation fr_video :: "frame \<Rightarrow> bool" where "fr_video f \<equiv> fst f = RTMP_MSG_VideoMessage"
abbreviation fr_audio :: "frame \<Rightarrow> bool" where "fr_audio f \<equiv> fst f = RTMP_MSG_AudioMessage"
abbreviation fr_bytes :: "frame \<Rightarrow> byte list" where "fr_bytes f \<equiv> snd (snd f)"
abbreviation fr_time :: "frame \<Rightarrow> 64 word" where "fr_time f \<equiv> fst (snd f)"

definition on_bytes :: "(payload \<Rightarrow> int \<Rightarrow> bool res) \<Rightarrow> frame \<Rightarrow> bool" where
  "on_bytes p f \<longleftrightarrow> holds (p (Some (map Some (fr_bytes f))) (int (length (fr_bytes f))))"

abbreviation fr_h264 :: "frame \<Rightarrow> bool" where "fr_h264 f \<equiv> fr_video f \<and> on_bytes SrsFlvVideo_h264 f"
abbreviation fr_keyframe :: "frame \<Rightarrow> bool" where "fr_keyframe f \<equiv> fr_h264 f \<and> on_bytes SrsFlvVideo_keyframe f"

definition gop_accepts :: "frame \<Rightarrow> bool" where
  "gop_accepts f \<longleftrightarrow> (fr_video f \<longrightarrow> fr_h264 f)"

definition audio_run :: "frame list \<Rightarrow> nat" where
  "audio_run fs = length (filter fr_audio (takeWhile (\<lambda>f. \<not> fr_video f) (rev fs)))"

definition gop_step :: "frame list \<Rightarrow> frame \<Rightarrow> frame list" where
  "gop_step fs f =
     (if \<not> gop_accepts f then fs
      else if fr_keyframe f then [f]
      else if \<not> fr_video f \<and> filter fr_video fs = [] then fs
      else if fr_audio f \<and> audio_run fs \<ge> 115 then []
      else fs @ [f])"

definition gop_list :: "frame list \<Rightarrow> frame list" where
  "gop_list fs = foldl gop_step [] fs"

lemma audio_run_snoc: "audio_run (fs @ [f]) = (if fr_video f then 0 else audio_run fs + (if fr_audio f then 1 else 0))"
  by (simp add: audio_run_def)

lemma audio_run_Nil [simp]: "audio_run [] = 0"
  by (simp add: audio_run_def)

definition payload_bytes :: "shared_msg \<Rightarrow> byte list" where
  "payload_bytes m = (case sm_payload m of None \<Rightarrow> [] | Some arr \<Rightarrow> map the arr)"

definition frame_in :: "sp_heap \<Rightarrow> shared_msg \<Rightarrow> frame" where
  "frame_in h m = (the (sm_type h m), sm_timestamp m, payload_bytes m)"

lemma map_Some_the: "None \<notin> set arr \<Longrightarrow> map (Some \<circ> the) arr = arr"
  by (induction arr) auto

definition flv_predicates :: "(payload \<Rightarrow> int \<Rightarrow> bool res) set" where
  "flv_predicates = {SrsFlvVideo_h264, SrsFlvVideo_keyframe, SrsFlvVideo_sh, SrsFlvVideo_acceptable, SrsFlvAudio_sh}"

lemma whole_payload_bytes: "whole m \<Longrightarrow> sm_size m = int (length (payload_bytes m))"
  by (auto simp: whole_def payload_bytes_def split: option.splits)

lemma on_bytes_frame:
  assumes "whole m" and "p \<in> flv_predicates"
  shows "on_bytes p (frame_in h m) = holds (p (sm_payload m) (sm_size m))"
proof (cases "sm_payload m")
  case None
  with assms show ?thesis
    by (auto simp: on_bytes_def frame_in_def whole_def payload_bytes_def flv_predicates_def SrsFlvVideo_h264_def
        SrsFlvVideo_keyframe_def SrsFlvVideo_sh_def SrsFlvVideo_acceptable_def SrsFlvAudio_sh_def SrsFlvAudio_aac_def)
next
  case (Some arr)
  with assms(1) have "sm_payload m = Some (map Some (payload_bytes m))"
    by (simp add: whole_def payload_bytes_def map_Some_the)
  with whole_payload_bytes [OF assms(1)] show ?thesis by (simp add: on_bytes_def frame_in_def)
qed

lemmas on_bytes_frames = on_bytes_frame [of _ SrsFlvVideo_h264, simplified flv_predicates_def, simplified]
  on_bytes_frame [of _ SrsFlvVideo_keyframe, simplified flv_predicates_def, simplified]
  on_bytes_frame [of _ SrsFlvVideo_sh, simplified flv_predicates_def, simplified]
  on_bytes_frame [of _ SrsFlvVideo_acceptable, simplified flv_predicates_def, simplified]
  on_bytes_frame [of _ SrsFlvAudio_sh, simplified flv_predicates_def, simplified]

lemma kind_frame:
  assumes "owned h M" and "m \<in># M"
  shows "is_video_in h m = fr_video (frame_in h m)" and "is_audio_in h m = fr_audio (frame_in h m)"
  using sm_type_owned [OF assms] by (auto simp: frame_in_def)

lemma frame_same: "same_types M h h' \<Longrightarrow> m \<in># M \<Longrightarrow> frame_in h' m = frame_in h m"
  by (simp add: frame_in_def same_typesD)

lemma frames_same: "same_types M h h' \<Longrightarrow> mset ms \<subseteq># M \<Longrightarrow> map (frame_in h') ms = map (frame_in h) ms"
  by (auto intro!: map_cong frame_same [of M] dest: mset_subset_eqD)

section \<open>The code computes this list\<close>

definition gc_frames :: "gop_cache \<times> sp_heap \<Rightarrow> frame list" where
  "gc_frames s = (case s of (g, h) \<Rightarrow> map (frame_in h) (gc_msgs g))"

text \<open>A group starts with a video and ends with at most 115 audios in a row.\<close>

definition gop_ok :: "frame list \<Rightarrow> bool" where
  "gop_ok fs \<longleftrightarrow> (fs \<noteq> [] \<longrightarrow> fr_h264 (hd fs)) \<and> audio_run fs \<le> 115"

definition gc_ok :: "gop_cache \<times> sp_heap \<Rightarrow> shared_msg multiset \<Rightarrow> bool" where
  "gc_ok s M \<longleftrightarrow> (case s of (g, h) \<Rightarrow> owned h (mset (gc_msgs g) + M)
     \<and> gc_video_count g = int (length (filter fr_video (gc_frames (g, h))))
     \<and> gc_audio_after g = int (audio_run (gc_frames (g, h)))
     \<and> gop_ok (gc_frames (g, h)))"

lemma gc_prog_simps [prog_simps]:
  "bindP (gc_upd u) f (g, h) = f () (u g, h)" "gc_upd u (g, h) = (Inr (), (u g, h))"
  by (simp_all add: gc_upd_def prog_eqs bindP_def)

lemma gop_cache_clear_spec:
  assumes "owned h (mset (gc_msgs g) + M)"
  obtains h' where "gop_cache_clear (g, h)
      = (Inr (), (g\<lparr>gc_msgs := [], gc_video_count := 0, gc_audio_after := 0\<rparr>, h'))"
    "owned h' M" "same_types M h h'"
proof -
  from assms obtain h' where "destroy_all (gc_msgs g) h = (Inr (), h')" "owned h' M" "same_types M h h'"
    by (rule owned_destroy_all)
  then show thesis by (intro that [of h']) (simp_all add: gop_cache_clear_def prog_simps)
qed

lemma gop_cache_frame_spec:
  assumes "owned h (mset (gc_msgs g) + M)" and "m \<in># M" and "video = is_video_in h m"
  obtains g' h' where "gop_cache_frame m video (g, h) = (Inr (), (g', h'))"
    "owned h' (mset (gc_msgs g') + M)" "same_types (mset (gc_msgs g') + M) h h'" "gc_enable g' = gc_enable g"
    "g' = (if video \<and> msg_keyframe m then g\<lparr>gc_msgs := [m], gc_video_count := 1, gc_audio_after := 0\<rparr>
       else g\<lparr>gc_msgs := gc_msgs g @ [m]\<rparr>)"
proof -
  have m: "m \<in># mset (gc_msgs g) + M" using assms(2) by simp
  obtain k where k: "SrsFlvVideo_keyframe (sm_payload m) (sm_size m) = Inr k"
    using whole_codecE [OF owned_whole [OF assms(1) m]] by blast
  show thesis
  proof (cases "video \<and> k")
    case True
    obtain h1 where h1: "gop_cache_clear (g, h)
        = (Inr (), (g\<lparr>gc_msgs := [], gc_video_count := 0, gc_audio_after := 0\<rparr>, h1))"
      "owned h1 M" "same_types M h h1"
      using gop_cache_clear_spec [OF assms(1)] by blast
    obtain h2 where h2: "sm_copy m h1 = (Inr m, h2)" "owned h2 (add_mset m M)" "sm_type h2 = sm_type h1"
      using owned_copy [OF h1(2) assms(2)] .
    have "same_types (add_mset m M) h h2"
      using h1(3) h2(3) assms(2) by (auto simp: same_types_def)
    with True k h1(1) h2 show thesis
      by (intro that [of "g\<lparr>gc_msgs := [m], gc_video_count := 1, gc_audio_after := 0\<rparr>" h2])
        (simp_all add: gop_cache_frame_def bindP_assoc prog_simps bindP_Inr [where m = gop_cache_clear])
  next
    case False
    obtain h2 where h2: "sm_copy m h = (Inr m, h2)" "owned h2 (add_mset m (mset (gc_msgs g) + M))"
      "sm_type h2 = sm_type h"
      using owned_copy [OF assms(1) m] .
    with False k show thesis
      by (intro that [of "g\<lparr>gc_msgs := gc_msgs g @ [m]\<rparr>" h2])
        (auto simp: gop_cache_frame_def prog_simps same_types_def)
  qed
qed

text \<open>One message: the frames of the cache make the step of the list.\<close>

lemma gop_ok_step:
  assumes "gop_ok fs"
  shows "gop_ok (gop_step fs f)"
  using assms by (cases fs) (auto simp: gop_ok_def gop_step_def gop_accepts_def audio_run_snoc audio_run_def)

lemma gop_cache_cache_spec:
  assumes "gc_ok (g, h) M" and "m \<in># M" and "gc_enable g"
  obtains g' h' where "gop_cache_cache m (g, h) = (Inr (), (g', h'))" "gc_ok (g', h') M" "same_types M h h'"
    "gc_enable g'" "gc_frames (g', h') = gop_step (gc_frames (g, h)) (frame_in h m)"
proof -
  let ?fs = "gc_frames (g, h)" and ?f = "frame_in h m"
  from assms(1) have ow: "owned h (mset (gc_msgs g) + M)" by (simp add: gc_ok_def)
  from assms(1) have vc: "gc_video_count g = int (length (filter fr_video ?fs))" 
    and ac: "gc_audio_after g = int (audio_run ?fs)" and gok: "gop_ok ?fs"
    by (simp_all add: gc_ok_def)
  have m: "m \<in># mset (gc_msgs g) + M" using assms(2) by simp
  note kind = owned_kind [OF ow m] 
  have w: "whole m" by (rule owned_whole [OF ow m])
  obtain av where av: "SrsFlvVideo_h264 (sm_payload m) (sm_size m) = Inr av"
    using whole_codecE [OF w] by blast
  have f: "is_video_in h m = fr_video ?f" "is_audio_in h m = fr_audio ?f" 
    "on_bytes SrsFlvVideo_h264 ?f = av" "on_bytes SrsFlvVideo_keyframe ?f = msg_keyframe m"
    using kind_frame [OF ow m] on_bytes_frames [OF w, of h] av by simp_all
  have run: "gop_cache_cache m (g, h) = (if fr_video ?f \<and> \<not> av then (Inr (), (g, h))
      else gop_cache_count m (fr_video ?f)
        (if fr_video ?f then g\<lparr>gc_video_count := gc_video_count g + 1, gc_audio_after := 0\<rparr> else g, h))"
    using assms(3) by (simp add: gop_cache_cache_def prog_simps kind f(1) av)
  show thesis
  proof (cases "gop_accepts ?f")
    case False
    then have "fr_video ?f \<and> \<not> av" using f(3) by (simp add: gop_accepts_def)
    with run assms False that [of g h] show thesis by (simp add: gop_step_def)
  next
    case acc: True
    define g1 where "g1 = (if fr_video ?f
      then g\<lparr>gc_video_count := gc_video_count g + 1, gc_audio_after := 0\<rparr> else g)"
    have run1: "gop_cache_cache m (g, h) = gop_cache_count m (fr_video ?f) (g1, h)"
      using run acc f(3) by (cases "fr_video ?f") (simp_all add: gop_accepts_def g1_def)
    have pure: "gop_cache_pure_audio g1 \<longleftrightarrow> \<not> fr_video ?f \<and> filter fr_video ?fs = []"
      using vc by (auto simp: gop_cache_pure_audio_def g1_def)
    show thesis
    proof (cases "gop_cache_pure_audio g1")
      case True
      then have "gop_cache_count m (fr_video ?f) (g1, h) = (Inr (), (g, h))"
        using pure by (simp add: gop_cache_count_def prog_simps g1_def)
      moreover have "gop_step ?fs ?f = ?fs" using True pure by (simp add: gop_step_def)
      ultimately show thesis using that [of g h] run1 assms by simp
    next
      case np: False
      define g2 where "g2 = (if fr_audio ?f then g1\<lparr>gc_audio_after := gc_audio_after g1 + 1\<rparr> else g1)"
      have run2: "gop_cache_cache m (g, h) = (if gc_audio_after g2 > 115 then gop_cache_clear (g2, h)
          else gop_cache_frame m (fr_video ?f) (g2, h))"
        using run1 np by (simp add: gop_cache_count_def prog_simps kind f g2_def SRS_PURE_AUDIO_GUESS_COUNT_def)
      have g2: "gc_msgs g2 = gc_msgs g" "gc_enable g2" "gc_video_count g2 = gc_video_count g + (if fr_video ?f then 1 else 0)"
        "gc_audio_after g2 = int (audio_run (?fs @ [?f]))"
        using assms(3) ac by (simp_all add: g2_def g1_def audio_run_snoc)
      have ow2: "owned h (mset (gc_msgs g2) + M)" using ow g2(1) by simp
      show thesis
      proof (cases "gc_audio_after g2 > 115")
        case ov: True
        from ov g2(4) have run_f: "audio_run (?fs @ [?f]) > 115" by simp
        then have "\<not> fr_video ?f" "fr_audio ?f" "audio_run ?fs \<ge> 115"
          using gok by (auto simp: audio_run_snoc gop_ok_def split: if_splits)
        then have st: "gop_step ?fs ?f = []"
          using np pure acc by (simp add: gop_step_def)
        obtain h' where h': "gop_cache_clear (g2, h)
            = (Inr (), (g2\<lparr>gc_msgs := [], gc_video_count := 0, gc_audio_after := 0\<rparr>, h'))"
          "owned h' M" "same_types M h h'"
          using gop_cache_clear_spec [OF ow2] by blast
        with run2 ov g2(2) st show thesis
          by (intro that [of "g2\<lparr>gc_msgs := [], gc_video_count := 0, gc_audio_after := 0\<rparr>" h'])
            (simp_all add: gc_ok_def gc_frames_def gop_ok_def)
      next
        case no: False
        obtain g' h' where h': "gop_cache_frame m (fr_video ?f) (g2, h) = (Inr (), (g', h'))"
          "owned h' (mset (gc_msgs g') + M)" "same_types (mset (gc_msgs g') + M) h h'" "gc_enable g' = gc_enable g2"
          "g' = (if fr_video ?f \<and> msg_keyframe m then g2\<lparr>gc_msgs := [m], gc_video_count := 1, gc_audio_after := 0\<rparr>
            else g2\<lparr>gc_msgs := gc_msgs g2 @ [m]\<rparr>)"
          using gop_cache_frame_spec [OF ow2 assms(2) f(1) [symmetric]] by metis
        have fr: "gc_frames (g', h') = map (frame_in h) (gc_msgs g')"
          unfolding gc_frames_def prod.case by (rule frames_same [OF h'(3)]) simp
        have st: "gop_step ?fs ?f = gc_frames (g', h')"
          using acc np pure no g2(4) f(3,4) h'(5) fr g2(1)
          by (auto simp: gop_step_def gc_frames_def gop_accepts_def audio_run_snoc split: if_splits)
        have g': "gc_video_count g' = int (length (filter fr_video (gc_frames (g', h'))))"
            "gc_audio_after g' = int (audio_run (gc_frames (g', h')))"
          unfolding fr using h'(5) g2 vc
          by (simp_all add: gc_frames_def audio_run_def split: if_splits)
        have "gc_ok (g', h') M"
          using h'(2) g' gop_ok_step [OF gok, of ?f] st by (simp add: gc_ok_def)
        moreover have "same_types M h h'" by (rule same_types_mono [OF h'(3)]) simp
        ultimately show thesis
          using run2 no h'(1,4) g2(2) st by (intro that [of g' h']) simp_all
qed
    qed
  qed
qed

section \<open>Feeding received messages\<close>

lemma gc_ok_same:
  assumes "gc_ok (g, h) M" and "owned h' (mset (gc_msgs g) + M')" and "same_types (mset (gc_msgs g)) h h'"
  shows "gc_ok (g, h') M'" and "gc_frames (g, h') = gc_frames (g, h)"
proof -
  show "gc_frames (g, h') = gc_frames (g, h)"
    unfolding gc_frames_def prod.case by (rule frames_same [OF assms(3)]) simp
  with assms(1,2) show "gc_ok (g, h') M'" by (simp add: gc_ok_def)
qed

text \<open>A received message with its payload, and the message object made of it.\<close>

definition frame_msg :: "frame \<Rightarrow> common_msg" where
  "frame_msg f = (case f of (ty, t, bs) \<Rightarrow>
     \<lparr>cm_header = mh_new\<lparr>mh_message_type := ty, mh_timestamp := t, mh_payload_length := word_of_int (int (length bs))\<rparr>,
      cm_size = int (length bs), cm_payload = Some (map Some bs)\<rparr>)"

lemma owned_frame_msg:
  assumes "owned h M"
  obtains m h' cm where "sm_create (frame_msg f) sm_new h = (Inr (cm, m), h')" "owned h' (add_mset m M)"
    "same_types M h h'" "frame_in h' m = f"
proof -
  obtain ty t bs where f: "f = (ty, t, bs)" by (cases f)
  let ?mh = "mh_new\<lparr>mh_message_type := ty, mh_timestamp := t, mh_payload_length := word_of_int (int (length bs))\<rparr>"
  obtain m h' where m: "sm_create_header (Some ?mh) (Some (map Some bs)) (int (length bs)) sm_new h = (Inr m, h')"
    "owned h' (add_mset m M)" "same_types M h h'" "sm_type h' m = Some ty" "sm_timestamp m = t"
    "sm_payload m = Some (map Some bs)"
    by (rule owned_create [OF assms, of bs "int (length bs)" ?mh]) simp_all
  then show thesis
    by (intro that [of _ m h']) (simp_all add: f sm_create_def frame_msg_def bindP_Inr prog_simps frame_in_def
        payload_bytes_def o_def)
qed

fun gop_feed :: "frame list \<Rightarrow> unit gc_prog" where
  "gop_feed [] = returnP ()"
| "gop_feed (f # fs) = bindP (on_shared (sm_create (frame_msg f) sm_new))
     (\<lambda>(_, m). bindP (gop_cache_cache m) (\<lambda>_. bindP (on_shared (sm_destroy m)) (\<lambda>_. gop_feed fs)))"

lemma gop_feed_spec:
  assumes "gc_ok (g, h) M" and "gc_enable g"
  shows "\<exists>g' h'. gop_feed fs (g, h) = (Inr (), (g', h')) \<and> gc_ok (g', h') M
    \<and> gc_frames (g', h') = foldl gop_step (gc_frames (g, h)) fs"
  using assms
proof (induction fs arbitrary: g h)
  case Nil
  then show ?case by (simp add: returnP_def)
next
  case (Cons f fs)
  have ow: "owned h (mset (gc_msgs g) + M)" using Cons.prems(1) by (simp add: gc_ok_def)
  obtain m h1 cm where 1: "sm_create (frame_msg f) sm_new h = (Inr (cm, m), h1)"
    "owned h1 (add_mset m (mset (gc_msgs g) + M))" "same_types (mset (gc_msgs g) + M) h h1" "frame_in h1 m = f"
    by (rule owned_frame_msg [OF ow])
  have "owned h1 (mset (gc_msgs g) + add_mset m M)" using 1(2) by simp
  note ok1 = gc_ok_same [OF Cons.prems(1) this same_types_mono [OF 1(3)], simplified]
  obtain g2 h2 where 2: "gop_cache_cache m (g, h1) = (Inr (), (g2, h2))" "gc_ok (g2, h2) (add_mset m M)"
    "gc_enable g2" "gc_frames (g2, h2) = gop_step (gc_frames (g, h1)) (frame_in h1 m)"
    by (rule gop_cache_cache_spec [OF ok1(1) _ Cons.prems(2), of m]) simp
  have "owned h2 (add_mset m (mset (gc_msgs g2) + M))" using 2(2) by (simp add: gc_ok_def)
  then obtain h3 where 3: "sm_destroy m h2 = (Inr (), h3)" "owned h3 (mset (gc_msgs g2) + M)"
    "same_types (mset (gc_msgs g2) + M) h2 h3"
    by (rule owned_destroy)
  note ok3 = gc_ok_same [OF 2(2) 3(2) same_types_mono [OF 3(3)], simplified]
  from Cons.IH [OF ok3(1) 2(3)] obtain g4 h4 where "gop_feed fs (g2, h3) = (Inr (), (g4, h4))" "gc_ok (g4, h4) M"
    "gc_frames (g4, h4) = foldl gop_step (gc_frames (g2, h3)) fs"
    by blast
  with 1 2 3 ok1(2) ok3(2) show ?case
    by (simp add: prog_simps bindP_Inr [where m = "gop_cache_cache m"])
qed

section \<open>What the cache holds\<close>

lemma gop_list_snoc: "gop_list (fs @ [f]) = gop_step (gop_list fs) f"
  by (simp add: gop_list_def)

lemma gop_list_suffix:
  "gop_ok (gop_list fs) \<and> (\<exists>pre. filter gop_accepts fs = pre @ gop_list fs)
    \<and> (\<forall>f \<in> set (tl (gop_list fs)). \<not> fr_keyframe f)"
proof (induction fs rule: rev_induct)
  case Nil
  then show ?case by (simp add: gop_list_def gop_ok_def)
next
  case (snoc f fs)
  from snoc obtain pre where ok: "gop_ok (gop_list fs)" and pre: "filter gop_accepts fs = pre @ gop_list fs"
    and key: "\<forall>f \<in> set (tl (gop_list fs)). \<not> fr_keyframe f" by blast
  have "\<exists>pre. filter gop_accepts (fs @ [f]) = pre @ gop_step (gop_list fs) f"
  proof (cases "gop_accepts f \<and> \<not> fr_keyframe f \<and> (fr_video f \<or> filter fr_video (gop_list fs) \<noteq> []) \<and> \<not> (fr_audio f \<and> audio_run (gop_list fs) \<ge> 115)")
    case True
    then have "gop_step (gop_list fs) f = gop_list fs @ [f]" by (auto simp: gop_step_def)
    with pre True show ?thesis by simp
  next
    case False
    have "gop_list fs = [] \<or> filter fr_video (gop_list fs) \<noteq> []"
      using ok by (cases "gop_list fs") (simp_all add: gop_ok_def)
    with False have "gop_step (gop_list fs) f \<in> {[], [f]} \<or> \<not> gop_accepts f \<and> gop_step (gop_list fs) f = gop_list fs"
      by (auto simp: gop_step_def)
    moreover have "gop_step (gop_list fs) f = [f] \<Longrightarrow> gop_accepts f"
      using ok key by (auto simp: gop_step_def gop_ok_def gop_accepts_def split: if_splits)
    ultimately show ?thesis using pre by auto
  qed
  moreover have "\<forall>x \<in> set (tl (gop_step (gop_list fs) f)). \<not> fr_keyframe x"
    using key by (cases "gop_list fs") (auto simp: gop_step_def)
  ultimately show ?case using gop_ok_step [OF ok] by (simp add: gop_list_snoc)
qed

lemma gop_list_from_keyframe:
  assumes "fr_keyframe k" and "\<forall>f \<in> set post. \<not> fr_keyframe f"
    and "\<forall>n \<le> length post. audio_run (k # filter gop_accepts (take n post)) \<le> 115"
  shows "gop_list (pre @ k # post) = k # filter gop_accepts post"
  using assms
proof (induction post rule: rev_induct)
  case Nil
  then have "gop_step (gop_list pre) k = [k]" by (simp add: gop_step_def gop_accepts_def)
  then show ?case by (simp add: gop_list_snoc)
next
  case (snoc f post)
  have IH: "gop_list (pre @ k # post) = k # filter gop_accepts post"
  proof (rule snoc.IH [OF snoc.prems(1)])
    show "\<forall>f \<in> set post. \<not> fr_keyframe f" using snoc.prems(2) by simp
    show "\<forall>n \<le> length post. audio_run (k # filter gop_accepts (take n post)) \<le> 115"
    proof (intro allI impI)
      fix n assume "n \<le> length post"
      with snoc.prems(3) [rule_format, of n] show "audio_run (k # filter gop_accepts (take n post)) \<le> 115" by simp
    qed
  qed
  have "audio_run ((k # filter gop_accepts post) @ (if gop_accepts f then [f] else [])) \<le> 115"
    using snoc.prems(3) [rule_format, of "length (post @ [f])"] by (auto split: if_splits)
  then have "gop_accepts f \<Longrightarrow> fr_audio f \<Longrightarrow> \<not> audio_run (k # filter gop_accepts post) \<ge> 115"
    using audio_run_snoc [of "k # filter gop_accepts post" f] by (auto split: if_splits)
  then have "gop_step (k # filter gop_accepts post) f = k # filter gop_accepts (post @ [f])"
    using snoc.prems(1,2) by (auto simp: gop_step_def)
  with IH show ?case using gop_list_snoc [of "pre @ k # post" f] by simp
qed

lemma audio_run_le: "audio_run xs \<le> length xs"
proof -
  have "audio_run xs \<le> length (takeWhile (\<lambda>f. \<not> fr_video f) (rev xs))"
    unfolding audio_run_def by (rule length_filter_le)
  also have "\<dots> \<le> length (rev xs)" by (rule length_takeWhile_le)
  finally show ?thesis by simp
qed

section \<open>Properties\<close>

definition empty_heap :: sp_heap where
  "empty_heap = \<lparr>h_next = 0, h_mem = \<lambda>_. None\<rparr>"

lemma owned_empty: "owned empty_heap {#}"
  by (auto simp: owned_def empty_heap_def refs_def intro!: exI [of _ "[]"] sp_invI)

lemma gc_ok_new: "owned h M \<Longrightarrow> gc_ok (gop_cache_new, h) M"
  by (simp add: gc_ok_def gop_cache_new_def gc_frames_def gop_ok_def)

lemma gop_feed_new:
  "\<exists>g h. gop_feed fs (gop_cache_new, empty_heap) = (Inr (), (g, h)) \<and> gc_ok (g, h) {#} \<and> gc_frames (g, h) = gop_list fs"
  using gop_feed_spec [OF gc_ok_new [OF owned_empty], of fs]
  by (simp add: gop_list_def gop_cache_new_def gc_frames_def)

text \<open>C10: The group cache: whatever messages are published, caching never fails, and the cache
  holds the last messages of the stream (without the videos that are not H.264) in order and
  unbroken, starting with a video, with no key frame after the first and with at most 115
  audios in a row at the end; its counters are exact; it owns exactly one copy of each message
  in it, and every other message has been freed.\<close>

theorem gop_cache_holds_last_group:
  "\<exists>g h. gop_feed fs (gop_cache_new, empty_heap) = (Inr (), (g, h)) \<and> owned h (mset (gc_msgs g))
    \<and> (let xs = map (frame_in h) (gc_msgs g) in
        (\<exists>pre. filter (\<lambda>f. fr_video f \<longrightarrow> fr_h264 f) fs = pre @ xs)
        \<and> (xs \<noteq> [] \<longrightarrow> fr_h264 (hd xs)) \<and> (\<forall>f \<in> set (tl xs). \<not> fr_keyframe f) \<and> audio_run xs \<le> 115
        \<and> gc_video_count g = int (length (filter fr_video xs)) \<and> gc_audio_after g = int (audio_run xs))"
proof -
  from gop_feed_new [of fs] obtain g h where
    "gop_feed fs (gop_cache_new, empty_heap) = (Inr (), (g, h))" and ok: "gc_ok (g, h) {#}"
    and fr: "gc_frames (g, h) = gop_list fs"
    by blast
  moreover have "gop_accepts = (\<lambda>f. fr_video f \<longrightarrow> fr_h264 f)"
    by (simp add: fun_eq_iff gop_accepts_def)
  ultimately show ?thesis
    using gop_list_suffix [of fs] by (auto simp: gc_ok_def gc_frames_def Let_def gop_ok_def)
qed

theorem gop_cache_holds_last_group_witness:
  "\<exists>g h. gop_feed [(9, 0, [0x17, 1]), (8, 5, [0xAF, 1])] (gop_cache_new, empty_heap) = (Inr (), (g, h))
    \<and> owned h (mset (gc_msgs g))
    \<and> (let xs = map (frame_in h) (gc_msgs g) in
        (\<exists>pre. filter (\<lambda>f. fr_video f \<longrightarrow> fr_h264 f) [(9, 0, [0x17, 1]), (8, 5, [0xAF, 1])] = pre @ xs)
        \<and> (xs \<noteq> [] \<longrightarrow> fr_h264 (hd xs)) \<and> (\<forall>f \<in> set (tl xs). \<not> fr_keyframe f) \<and> audio_run xs \<le> 115
        \<and> gc_video_count g = int (length (filter fr_video xs)) \<and> gc_audio_after g = int (audio_run xs))"
  by (rule gop_cache_holds_last_group)

text \<open>C30: Once a key frame was published, a new player starts at the last one: the cache is
  this key frame followed by every later message (videos that are not H.264 excepted), as long
  as no more than 115 audios follow a video.\<close>

theorem gop_cache_starts_at_keyframe:
  assumes "fr_keyframe k" and "\<forall>f \<in> set post. \<not> fr_keyframe f"
    and "\<forall>n \<le> length post. audio_run (k # filter gop_accepts (take n post)) \<le> 115"
  shows "\<exists>g h. gop_feed (pre @ k # post) (gop_cache_new, empty_heap) = (Inr (), (g, h))
    \<and> map (frame_in h) (gc_msgs g) = k # filter gop_accepts post"
  using gop_feed_new [of "pre @ k # post"] gop_list_from_keyframe [OF assms, of pre]
  by (auto simp: gc_frames_def)

theorem gop_cache_starts_at_keyframe_witness:
  "let pre = [(8, 0, [0xAF, 1]), (9, 0, [0x27, 1])]; k = (9, 40, [0x17, 1]); post = [(8, 45, [0xAF, 1]), (9, 50, [0x22, 1])] in
   \<exists>g h. gop_feed (pre @ k # post) (gop_cache_new, empty_heap) = (Inr (), (g, h))
    \<and> map (frame_in h) (gc_msgs g) = k # filter gop_accepts post"
  unfolding Let_def
proof (rule gop_cache_starts_at_keyframe)
  show "fr_keyframe (9, 40, [0x17, 1])"
    by (simp add: on_bytes_def holds_def SrsFlvVideo_h264_def SrsFlvVideo_keyframe_def flv_byte_def
        low_nibble_def high_nibble_def)
  show "\<forall>f \<in> set [(8, 45, [0xAF, 1]), (9, 50, [0x22, 1])]. \<not> fr_keyframe f"
    by (simp add: on_bytes_def holds_def SrsFlvVideo_h264_def SrsFlvVideo_keyframe_def flv_byte_def
        low_nibble_def high_nibble_def)
  show "\<forall>n \<le> length [(8, 45, [0xAF, 1]), (9, 50, [0x22, 1])].
      audio_run ((9, 40, [0x17, 1]) # filter gop_accepts (take n [(8, 45, [0xAF, 1]), (9, 50, [0x22, 1])])) \<le> 115"
  proof (intro allI impI)
    fix n
    let ?post = "[(8, 45, [0xAF, 1]), (9, 50, [0x22, 1])] :: frame list"
    have "audio_run ((9, 40, [0x17, 1]) # filter gop_accepts (take n ?post))
        \<le> Suc (length (filter gop_accepts (take n ?post)))"
      using audio_run_le [of "(9, 40, [0x17, 1]) # filter gop_accepts (take n ?post)"] by simp
    also have "\<dots> \<le> Suc (length (take n ?post))" using length_filter_le by (simp only: Suc_le_mono)
    also have "\<dots> \<le> 115" by simp
    finally show "audio_run ((9, 40, [0x17, 1]) # filter gop_accepts (take n ?post)) \<le> 115" .
  qed
qed

end
