(* ===== verification/Srs_Mix_Queue.thy ===== *)
theory Srs_Mix_Queue
  imports Srs_Gop_Cache
begin

text \<open>
  \<^verbatim>\<open>SrsMixQueue\<close> (\<^verbatim>\<open>src/src/app/srs_app_source.cpp\<close>): audios and videos wait for each other,
  and leave in the order of their times.
\<close>

section \<open>The queue\<close>

text \<open>The \<^verbatim>\<open>multimap\<close> from times to messages: equal keys keep the order of insertion.\<close>

record mix_queue =
  mx_videos :: "32 word"
  mx_audios :: "32 word"
  mx_msgs :: "(64 word \<times> shared_msg) list"

definition mix_queue_new :: mix_queue where
  "mix_queue_new = \<lparr>mx_videos = 0, mx_audios = 0, mx_msgs = []\<rparr>"

definition SRS_MIX_CORRECT_PURE_AV :: "32 word" where "SRS_MIX_CORRECT_PURE_AV = 10"

definition multimap_insert :: "64 word \<Rightarrow> 'a \<Rightarrow> (64 word \<times> 'a) list \<Rightarrow> (64 word \<times> 'a) list" where
  "multimap_insert k x xs = takeWhile (\<lambda>(k', _). sint k' \<le> sint k) xs
     @ (k, x) # dropWhile (\<lambda>(k', _). sint k' \<le> sint k) xs"

type_synonym 'a mx_prog = "(mix_queue \<times> sp_heap, 'a) prog"

definition mx_upd :: "(mix_queue \<Rightarrow> mix_queue) \<Rightarrow> unit mx_prog" where
  "mx_upd f = modifyP (\<lambda>(q, h). (f q, h))"

definition mix_queue_clear :: "unit mx_prog" where
  "mix_queue_clear = bindP (getP (\<lambda>(q, h). map snd (mx_msgs q)))
     (\<lambda>ms. bindP (on_shared (destroy_all ms)) (\<lambda>_. mx_upd (\<lambda>_. mix_queue_new)))"

definition mix_queue_push :: "shared_msg \<Rightarrow> unit mx_prog" where
  "mix_queue_push msg = bindP (mx_upd (\<lambda>q. q\<lparr>mx_msgs := multimap_insert (sm_timestamp msg) msg (mx_msgs q)\<rparr>))
     (\<lambda>_. bindP (on_shared (sm_is_video msg))
     (\<lambda>video. if video then mx_upd (\<lambda>q. q\<lparr>mx_videos := mx_videos q + 1\<rparr>)
        else mx_upd (\<lambda>q. q\<lparr>mx_audios := mx_audios q + 1\<rparr>)))"

definition mix_ok :: "mix_queue \<Rightarrow> bool" where
  "mix_ok q \<longleftrightarrow> mx_videos q \<ge> SRS_MIX_CORRECT_PURE_AV \<and> mx_audios q = 0
     \<or> mx_audios q \<ge> SRS_MIX_CORRECT_PURE_AV \<and> mx_videos q = 0
     \<or> mx_videos q \<ge> 1 \<and> mx_audios q \<ge> 1"

definition mix_queue_pop :: "shared_msg option mx_prog" where
  "mix_queue_pop = bindP (getP (\<lambda>(q, h). (mix_ok q, mx_msgs q)))
     (\<lambda>(ok, ms). if \<not> ok then returnP None
        else case ms of
          [] \<Rightarrow> raiseP UNDEFINED_BEHAVIOUR
        | (_, msg) # ms' \<Rightarrow> bindP (mx_upd (\<lambda>q. q\<lparr>mx_msgs := ms'\<rparr>))
            (\<lambda>_. bindP (on_shared (sm_is_video msg))
            (\<lambda>video. bindP (if video then mx_upd (\<lambda>q. q\<lparr>mx_videos := mx_videos q - 1\<rparr>)
                 else mx_upd (\<lambda>q. q\<lparr>mx_audios := mx_audios q - 1\<rparr>))
            (\<lambda>_. returnP (Some msg)))))"

section \<open>The queue as a sorted list\<close>

abbreviation fr_ms :: "frame \<Rightarrow> int" where "fr_ms f \<equiv> sint (fr_time f)"
abbreviation fr_other :: "frame \<Rightarrow> bool" where "fr_other f \<equiv> \<not> fr_video f"

definition mx_insert :: "frame \<Rightarrow> frame list \<Rightarrow> frame list" where
  "mx_insert f xs = takeWhile (\<lambda>x. fr_ms x \<le> fr_ms f) xs @ f # dropWhile (\<lambda>x. fr_ms x \<le> fr_ms f) xs"

definition mx_both :: "frame list \<Rightarrow> bool" where
  "mx_both xs \<longleftrightarrow> (\<exists>x \<in> set xs. fr_video x) \<and> (\<exists>x \<in> set xs. fr_other x)"

definition mx_ready :: "frame list \<Rightarrow> bool" where
  "mx_ready xs \<longleftrightarrow> length xs \<ge> 10 \<or> mx_both xs"

fun mx_out :: "frame list \<Rightarrow> frame list \<Rightarrow> (frame \<times> bool) list" where
  "mx_out xs [] = []"
| "mx_out xs (f # fs) = (let ys = mx_insert f xs in
     if mx_ready ys then (hd ys, mx_both ys) # mx_out (tl ys) fs else mx_out ys fs)"

fun mx_left :: "frame list \<Rightarrow> frame list \<Rightarrow> frame list" where
  "mx_left xs [] = xs"
| "mx_left xs (f # fs) = (let ys = mx_insert f xs in mx_left (if mx_ready ys then tl ys else ys) fs)"

lemma mset_mx_insert [simp]: "mset (mx_insert f xs) = add_mset f (mset xs)"
proof -
  let ?P = "\<lambda>x. fr_ms x \<le> fr_ms f"
  have "mset (takeWhile ?P xs) + mset (dropWhile ?P xs) = mset (takeWhile ?P xs @ dropWhile ?P xs)"
    by (simp only: mset_append)
  also have "\<dots> = mset xs" by (simp only: takeWhile_dropWhile_id)
  finally show ?thesis by (simp add: mx_insert_def)
qed

lemma set_mx_insert [simp]: "set (mx_insert f xs) = insert f (set xs)"
  by (metis mset_mx_insert set_mset_add_mset_insert set_mset_mset)

lemma length_mx_insert [simp]: "length (mx_insert f xs) = Suc (length xs)"
  by (metis mset_mx_insert size_add_mset size_mset)

lemma mx_insert_ne [simp]: "mx_insert f xs \<noteq> []"
  by (simp add: mx_insert_def)

lemma sorted_mx_insert: "sorted (map fr_ms xs) \<Longrightarrow> sorted (map fr_ms (mx_insert f xs))"
proof (induction xs)
  case Nil
  then show ?case by (simp add: mx_insert_def)
next
  case (Cons x xs)
  show ?case
  proof (cases "fr_ms x \<le> fr_ms f")
    case True
    then have "mx_insert f (x # xs) = x # mx_insert f xs" by (simp add: mx_insert_def)
    with Cons True show ?thesis by auto
  next
    case False
    with Cons.prems show ?thesis by (auto simp: mx_insert_def)
  qed
qed

lemma mx_sorted_hd: "sorted (map fr_ms xs) \<Longrightarrow> x \<in> set xs \<Longrightarrow> fr_ms (hd xs) \<le> fr_ms x"
  by (cases xs) auto

lemma mx_conserved: "mset (map fst (mx_out xs fs)) + mset (mx_left xs fs) = mset xs + mset fs"
proof (induction fs arbitrary: xs)
  case Nil
  then show ?case by simp
next
  case (Cons f fs)
  have "mset (mx_insert f xs) = add_mset (hd (mx_insert f xs)) (mset (tl (mx_insert f xs)))"
    by (metis list.collapse mset.simps(2) mx_insert_ne)
  then show ?case
    using Cons.IH [of "tl (mx_insert f xs)"] Cons.IH [of "mx_insert f xs"] by (auto simp: Let_def)
qed

lemma mx_both_length: "length (mx_left xs fs) \<le> max 9 (length xs)"
proof (induction fs arbitrary: xs)
  case Nil
  then show ?case by simp
next
  case (Cons f fs)
  show ?case
    using Cons.IH [of "tl (mx_insert f xs)"] Cons.IH [of "mx_insert f xs"]
    by (auto simp: Let_def mx_ready_def)
qed

lemma mx_left_sorted: "sorted (map fr_ms xs) \<Longrightarrow> sorted (map fr_ms (mx_left xs fs))"
  by (induction fs arbitrary: xs)
    (auto simp: Let_def map_tl sorted_tl sorted_mx_insert)

text \<open>Each kind of message comes in order.\<close>

definition in_order :: "(frame \<Rightarrow> bool) \<Rightarrow> frame list \<Rightarrow> frame list \<Rightarrow> bool" where
  "in_order P xs fs \<longleftrightarrow> sorted (map fr_ms (filter P fs))
     \<and> (\<forall>x \<in> set xs. \<forall>f \<in> set fs. P x \<longrightarrow> P f \<longrightarrow> fr_ms x \<le> fr_ms f)"

lemma in_order_step:
  assumes "in_order P xs (f # fs)" and "set ys \<subseteq> insert f (set xs)"
  shows "in_order P ys fs"
  unfolding in_order_def
proof (intro conjI ballI impI)
  show "sorted (map fr_ms (filter P fs))"
    using assms(1) by (simp add: in_order_def split: if_splits)
next
  fix y g assume y: "y \<in> set ys" "P y" and g: "g \<in> set fs" "P g"
  from y assms(2) have "y = f \<or> y \<in> set xs" by blast
  then show "fr_ms y \<le> fr_ms g"
  proof
    assume "y = f"
    with assms(1) y have "sorted (map fr_ms (f # filter P fs))" by (simp add: in_order_def)
    then have "\<forall>x \<in> set (filter P fs). fr_ms f \<le> fr_ms x" by simp
    moreover have "g \<in> set (filter P fs)" using g by simp
    ultimately show ?thesis unfolding \<open>y = f\<close> by blast
  next
    assume "y \<in> set xs"
    with assms(1) y g show ?thesis unfolding in_order_def by (meson list.set_intros(2))
  qed
qed

lemma mx_out_set: "(f, b) \<in> set (mx_out xs fs) \<Longrightarrow> f \<in> set xs \<union> set fs"
proof -
  assume "(f, b) \<in> set (mx_out xs fs)"
  then have "f \<in># mset (map fst (mx_out xs fs)) + mset (mx_left xs fs)" by force
  then show ?thesis unfolding mx_conserved by auto
qed

lemma mx_out_order:
  assumes "sorted (map fr_ms xs)" and "in_order fr_video xs fs" and "in_order fr_other xs fs"
    and "i < j" and "j < length (mx_out xs fs)" and "snd (mx_out xs fs ! i)"
  shows "fr_ms (fst (mx_out xs fs ! i)) \<le> fr_ms (fst (mx_out xs fs ! j))"
  using assms
proof (induction fs arbitrary: xs i j)
  case Nil
  then show ?case by simp
next
  case (Cons f fs)
  let ?ys = "mx_insert f xs"
  have s: "sorted (map fr_ms ?ys)" by (rule sorted_mx_insert [OF Cons.prems(1)])
  have "set (tl ?ys) \<subseteq> set ?ys" by (cases ?ys) auto
  then have ty: "set (tl ?ys) \<subseteq> insert f (set xs)" by simp
  have o: "in_order fr_video ?ys fs" "in_order fr_other ?ys fs"
    "in_order fr_video (tl ?ys) fs" "in_order fr_other (tl ?ys) fs"
    by (rule in_order_step [OF Cons.prems(2)] in_order_step [OF Cons.prems(3)]; use ty in simp)+
  show ?case
  proof (cases "mx_ready ?ys")
    case False
    with Cons.prems(4-) show ?thesis
      using Cons.IH [OF s o(1,2)] by (simp add: Let_def)
  next
    case True
    then have out: "mx_out xs (f # fs) = (hd ?ys, mx_both ?ys) # mx_out (tl ?ys) fs" by (simp add: Let_def)
    have st: "sorted (map fr_ms (tl ?ys))" using s by (simp add: map_tl sorted_tl)
    show ?thesis
    proof (cases i)
      case (Suc i')
      with Cons.prems(4-) show ?thesis
        using Cons.IH [OF st o(3,4), of i' "j - 1"] unfolding out by (cases j) auto
    next
      case 0
      with Cons.prems(6) have both: "mx_both ?ys" unfolding out by simp
      from 0 Cons.prems(4,5) obtain k where j: "j = Suc k" "k < length (mx_out (tl ?ys) fs)"
        unfolding out by (cases j) auto
      obtain g b where g: "mx_out (tl ?ys) fs ! k = (g, b)" by (cases "mx_out (tl ?ys) fs ! k")
      with j(2) have "g \<in> set (tl ?ys) \<union> set fs" using mx_out_set nth_mem by metis
      then have "g \<in> set ?ys \<or> g \<in> set fs" by (auto dest: list.set_sel(2) [OF mx_insert_ne])
      then have "fr_ms (hd ?ys) \<le> fr_ms g"
      proof
        assume "g \<in> set ?ys"
        then show ?thesis by (rule mx_sorted_hd [OF s])
      next
        assume "g \<in> set fs"
        with both o(1,2) obtain y where "y \<in> set ?ys" "fr_ms y \<le> fr_ms g"
          unfolding mx_both_def in_order_def by blast
        with mx_sorted_hd [OF s] show ?thesis by fastforce
      qed
      with 0 j(1) g show ?thesis unfolding out by simp
    qed
  qed
qed

section \<open>The code computes this list\<close>

definition mx_frames :: "mix_queue \<times> sp_heap \<Rightarrow> frame list" where
  "mx_frames s = (case s of (q, h) \<Rightarrow> map (frame_in h) (map snd (mx_msgs q)))"

text \<open>The keys are the times, in order; the counters count; fewer than \<open>n\<close> messages wait.\<close>

definition mx_ok :: "nat \<Rightarrow> mix_queue \<times> sp_heap \<Rightarrow> shared_msg multiset \<Rightarrow> bool" where
  "mx_ok n s M \<longleftrightarrow> (case s of (q, h) \<Rightarrow> owned h (mset (map snd (mx_msgs q)) + M)
     \<and> (\<forall>p \<in> set (mx_msgs q). fst p = sm_timestamp (snd p))
     \<and> sorted (map fr_ms (mx_frames (q, h)))
     \<and> mx_videos q = of_nat (length (filter fr_video (mx_frames (q, h))))
     \<and> mx_audios q = of_nat (length (filter fr_other (mx_frames (q, h))))
     \<and> length (mx_msgs q) < n)"

lemma mx_prog_simps [prog_simps]:
  "bindP (mx_upd u) f (q, h) = f () (u q, h)" "mx_upd u (q, h) = (Inr (), (u q, h))"
  by (simp_all add: mx_upd_def prog_eqs bindP_def)

lemma multimap_insert_Cons:
  "multimap_insert k x [] = [(k, x)]"
  "multimap_insert k x (p # xs) = (if sint (fst p) \<le> sint k then p # multimap_insert k x xs else (k, x) # p # xs)"
  by (auto simp: multimap_insert_def split: prod.splits)

lemma mx_insert_Cons:
  "mx_insert f [] = [f]"
  "mx_insert f (x # xs) = (if fr_ms x \<le> fr_ms f then x # mx_insert f xs else f # x # xs)"
  by (auto simp: mx_insert_def)

lemma length_filter_mx_insert: "length (filter P (mx_insert f xs)) = length (filter P xs) + (if P f then 1 else 0)"
  by (induction xs) (auto simp: mx_insert_Cons)

lemma multimap_insert_set: "set (multimap_insert k x xs) = insert (k, x) (set xs)"
  by (induction xs) (auto simp: multimap_insert_Cons)

lemma multimap_insert_mset: "mset (map snd (multimap_insert k x xs)) = add_mset x (mset (map snd xs))"
  by (induction xs) (auto simp: multimap_insert_Cons)

lemma multimap_insert_frames:
  "\<forall>p \<in> set xs. fst p = sm_timestamp (snd p) \<Longrightarrow>
   map (frame_in h) (map snd (multimap_insert (sm_timestamp m) m xs))
     = mx_insert (frame_in h m) (map (frame_in h) (map snd xs))"
  by (induction xs) (simp_all add: multimap_insert_Cons mx_insert_Cons frame_in_def del: split_paired_All)

lemma split_kinds: "length (filter P xs) + length (filter (\<lambda>x. \<not> P x) xs) = length xs"
  by (induction xs) auto

lemma ready_count:
  assumes "length xs < 2 ^ 32"
  shows "(of_nat (length (filter fr_video xs)) \<ge> (10 :: 32 word) \<and> of_nat (length (filter fr_other xs)) = (0 :: 32 word)
     \<or> of_nat (length (filter fr_other xs)) \<ge> (10 :: 32 word) \<and> of_nat (length (filter fr_video xs)) = (0 :: 32 word)
     \<or> of_nat (length (filter fr_video xs)) \<ge> (1 :: 32 word) \<and> of_nat (length (filter fr_other xs)) \<ge> (1 :: 32 word))
    \<longleftrightarrow> mx_ready xs"
proof -
  let ?v = "length (filter fr_video xs)" and ?a = "length (filter fr_other xs)"
  have va: "?v + ?a = length xs" by (rule split_kinds)
  then have b: "?v < 2 ^ 32" "?a < 2 ^ 32" using assms by linarith+
  have u: "of_nat n = (0 :: 32 word) \<longleftrightarrow> n = 0" "(of_nat n :: 32 word) \<ge> 1 \<longleftrightarrow> n \<ge> 1"
    "(of_nat n :: 32 word) \<ge> 10 \<longleftrightarrow> n \<ge> 10" if "n < 2 ^ 32" for n
    using that by (simp_all add: word_le_nat_alt unat_of_nat word_unat_eq_iff)
  have both: "mx_both xs \<longleftrightarrow> ?v \<ge> 1 \<and> ?a \<ge> 1"
    by (auto simp: mx_both_def Suc_le_eq filter_empty_conv)
  have "(v \<ge> 10 \<and> a = 0) \<or> (a \<ge> 10 \<and> v = 0) \<or> (v \<ge> 1 \<and> a \<ge> 1) \<longleftrightarrow> v + a \<ge> 10 \<or> (v \<ge> 1 \<and> a \<ge> 1)" for v a :: nat
    by auto
  then show ?thesis unfolding u [OF b(1)] u [OF b(2)] mx_ready_def both va [symmetric] .
qed

lemma mix_queue_push_spec:
  assumes "mx_ok n (q, h) (add_mset m M)" and "n < 2 ^ 32"
  obtains q' where "mix_queue_push m (q, h) = (Inr (), (q', h))" "mx_ok (Suc n) (q', h) M"
    "mx_frames (q', h) = mx_insert (frame_in h m) (mx_frames (q, h))"
proof -
  have ow: "owned h (mset (map snd (mx_msgs q)) + add_mset m M)"
    and key: "\<forall>p \<in> set (mx_msgs q). fst p = sm_timestamp (snd p)"
    using assms(1) by (simp_all add: mx_ok_def del: split_paired_All)
  have m: "m \<in># mset (map snd (mx_msgs q)) + add_mset m M" by simp
  let ?v = "fr_video (frame_in h m)"
  define q' where "q' = (if ?v then q\<lparr>mx_msgs := multimap_insert (sm_timestamp m) m (mx_msgs q), mx_videos := mx_videos q + 1\<rparr>
     else q\<lparr>mx_msgs := multimap_insert (sm_timestamp m) m (mx_msgs q), mx_audios := mx_audios q + 1\<rparr>)"
  have run: "mix_queue_push m (q, h) = (Inr (), (q', h))"
    by (simp add: mix_queue_push_def prog_simps owned_kind [OF ow m] kind_frame [OF ow m] q'_def)
  have fr: "mx_frames (q', h) = mx_insert (frame_in h m) (mx_frames (q, h))"
    using multimap_insert_frames [OF key, of h m] by (simp only: mx_frames_def prod.case q'_def if_distrib cong: if_cong) simp
  have msgs: "mx_msgs q' = multimap_insert (sm_timestamp m) m (mx_msgs q)" by (simp add: q'_def)
  have "length (mx_msgs q') = Suc (length (mx_msgs q))"
    using arg_cong [OF multimap_insert_mset, of size] unfolding msgs by simp
  moreover have "mx_videos q' = of_nat (length (filter fr_video (mx_frames (q', h))))"
    "mx_audios q' = of_nat (length (filter fr_other (mx_frames (q', h))))"
    unfolding fr length_filter_mx_insert using assms(1) by (simp_all add: mx_ok_def q'_def)
  moreover have "\<forall>p \<in> set (mx_msgs q'). fst p = sm_timestamp (snd p)"
    using key unfolding msgs multimap_insert_set by simp
  moreover have "owned h (mset (map snd (mx_msgs q')) + M)"
    using ow unfolding msgs multimap_insert_mset by simp
  ultimately have "mx_ok (Suc n) (q', h) M"
    using assms(1) sorted_mx_insert [of "mx_frames (q, h)" "frame_in h m"] fr by (simp add: mx_ok_def)
  with that run fr show thesis by blast
qed

lemma tl_frames: "mx_frames (q, h) = f # fs \<Longrightarrow>
    \<exists>k m xs. mx_msgs q = (k, m) # xs \<and> f = frame_in h m \<and> fs = map (frame_in h) (map snd xs)"
  by (auto simp: mx_frames_def)

lemma mix_queue_pop_spec:
  assumes "mx_ok (Suc n) (q, h) M" and "n < 2 ^ 32"
  shows "\<not> mx_ready (mx_frames (q, h)) \<Longrightarrow> mix_queue_pop (q, h) = (Inr None, (q, h)) \<and> length (mx_msgs q) < 10"
    and "mx_ready (mx_frames (q, h)) \<Longrightarrow> \<exists>q' m. mix_queue_pop (q, h) = (Inr (Some m), (q', h))
      \<and> mx_ok n (q', h) (add_mset m M) \<and> frame_in h m = hd (mx_frames (q, h))
      \<and> mx_frames (q', h) = tl (mx_frames (q, h))"
proof -
  let ?fs = "mx_frames (q, h)"
  have len: "length (mx_msgs q) = length ?fs" by (simp add: mx_frames_def)
  have v: "mx_videos q = of_nat (length (filter fr_video ?fs))"
    and a: "mx_audios q = of_nat (length (filter fr_other ?fs))"
    and ow: "owned h (mset (map snd (mx_msgs q)) + M)" and l: "length (mx_msgs q) < Suc n"
    using assms(1) by (simp_all add: mx_ok_def)
  have "length ?fs < 2 ^ 32" using l len assms(2) by linarith
  from ready_count [OF this] have ok: "mix_ok q \<longleftrightarrow> mx_ready ?fs"
    by (simp only: mix_ok_def SRS_MIX_CORRECT_PURE_AV_def v a)
  show "mix_queue_pop (q, h) = (Inr None, (q, h)) \<and> length (mx_msgs q) < 10" if "\<not> mx_ready ?fs"
    using that len by (simp add: mix_queue_pop_def prog_simps ok) (simp add: mx_ready_def)
  show "\<exists>q' m. mix_queue_pop (q, h) = (Inr (Some m), (q', h))
      \<and> mx_ok n (q', h) (add_mset m M) \<and> frame_in h m = hd ?fs \<and> mx_frames (q', h) = tl ?fs" if r: "mx_ready ?fs"
  proof -
    from r obtain k m xs where q: "mx_msgs q = (k, m) # xs" "?fs = frame_in h m # map (frame_in h) (map snd xs)"
      by (cases ?fs) (auto simp: mx_ready_def mx_both_def dest: tl_frames)
    have m: "m \<in># mset (map snd (mx_msgs q)) + M" by (simp add: q(1))
    define q' where "q' = (if fr_video (frame_in h m) then q\<lparr>mx_msgs := xs, mx_videos := mx_videos q - 1\<rparr>
       else q\<lparr>mx_msgs := xs, mx_audios := mx_audios q - 1\<rparr>)"
    have "mix_queue_pop (q, h) = (Inr (Some m), (q', h))"
      using r by (simp add: mix_queue_pop_def prog_simps ok q(1) owned_kind [OF ow m] kind_frame [OF ow m] q'_def)
    moreover have "mx_ok n (q', h) (add_mset m M)"
      using assms(1) v a q unfolding mx_ok_def prod.case q'_def
      by (auto simp: mx_frames_def)
    moreover have "mx_frames (q', h) = tl ?fs" by (simp add: q(2)) (simp add: q'_def mx_frames_def)
    ultimately show ?thesis using q(2) by auto
  qed
qed

lemma mix_queue_clear_spec:
  assumes "owned h (mset (map snd (mx_msgs q)) + M)"
  obtains h' where "mix_queue_clear (q, h) = (Inr (), (mix_queue_new, h'))" "owned h' M" "same_types M h h'"
proof -
  from assms obtain h' where "destroy_all (map snd (mx_msgs q)) h = (Inr (), h')" "owned h' M" "same_types M h h'"
    by (rule owned_destroy_all)
  then show thesis by (intro that [of h']) (simp_all add: mix_queue_clear_def prog_simps)
qed

lemma mx_ok_new: "owned h M \<Longrightarrow> 0 < n \<Longrightarrow> mx_ok n (mix_queue_new, h) M"
  by (simp add: mx_ok_def mix_queue_new_def mx_frames_def)

lemma mx_ok_same:
  assumes "mx_ok n (q, h) M" and "owned h' (mset (map snd (mx_msgs q)) + M')"
    and "same_types (mset (map snd (mx_msgs q))) h h'"
  shows "mx_ok n (q, h') M'" and "mx_frames (q, h') = mx_frames (q, h)"
proof -
  show "mx_frames (q, h') = mx_frames (q, h)"
    unfolding mx_frames_def prod.case by (rule frames_same [OF assms(3)]) simp
  with assms(1,2) show "mx_ok n (q, h') M'" by (simp add: mx_ok_def)
qed

text \<open>A push and a pop, as the source does them with every message.\<close>

definition mix_queue_step :: "shared_msg \<Rightarrow> shared_msg option mx_prog" where
  "mix_queue_step m = bindP (on_shared (sm_copy m))
     (\<lambda>c. bindP (mix_queue_push c) (\<lambda>_. mix_queue_pop))"

lemma mix_queue_step_spec:
  assumes "mx_ok 10 (q, h) M" and "m \<in># M"
  obtains mo q' h' where "mix_queue_step m (q, h) = (Inr mo, (q', h'))" "mx_ok 10 (q', h') (mset_opt mo + M)"
    "same_types M h h'" "let ys = mx_insert (frame_in h m) (mx_frames (q, h)) in
      if mx_ready ys then (\<exists>c. mo = Some c \<and> frame_in h' c = hd ys) \<and> mx_frames (q', h') = tl ys
      else mo = None \<and> mx_frames (q', h') = ys"
proof -
  have ow: "owned h (mset (map snd (mx_msgs q)) + M)" using assms(1) by (simp add: mx_ok_def)
  have m: "m \<in># mset (map snd (mx_msgs q)) + M" using assms(2) by simp
  obtain h1 where 1: "sm_copy m h = (Inr m, h1)" "owned h1 (add_mset m (mset (map snd (mx_msgs q)) + M))"
    "sm_type h1 = sm_type h"
    using owned_copy [OF ow m] .
  have "owned h1 (mset (map snd (mx_msgs q)) + add_mset m M)" using 1(2) by simp
  moreover have "same_types (mset (map snd (mx_msgs q))) h h1" using 1(3) by (simp add: same_types_def)
  ultimately have ok1: "mx_ok 10 (q, h1) (add_mset m M)" and fr1: "mx_frames (q, h1) = mx_frames (q, h)"
    using mx_ok_same [OF assms(1)] by blast+
  have f: "frame_in h1 m = frame_in h m" by (simp add: frame_in_def 1(3))
  have "(10 :: nat) < 2 ^ 32" by simp
  from mix_queue_push_spec [OF ok1 this] obtain q2 where 2: "mix_queue_push m (q, h1) = (Inr (), (q2, h1))"
    "mx_ok (Suc 10) (q2, h1) M" "mx_frames (q2, h1) = mx_insert (frame_in h m) (mx_frames (q, h))"
    unfolding fr1 f by blast
  let ?ys = "mx_insert (frame_in h m) (mx_frames (q, h))"
  have run: "mix_queue_step m (q, h) = mix_queue_pop (q2, h1)"
    by (simp add: mix_queue_step_def prog_simps 1(1) bindP_Inr [where m = "mix_queue_push m", OF 2(1)])
  have st: "same_types M h h1" using 1(3) by (simp add: same_types_def)
  have t: "(10 :: nat) < 2 ^ 32" by simp
  show thesis
  proof (cases "mx_ready ?ys")
    case True
    with mix_queue_pop_spec(2) [OF 2(2) t] 2(3) obtain q' c where "mix_queue_pop (q2, h1) = (Inr (Some c), (q', h1))"
      "mx_ok 10 (q', h1) (add_mset c M)" "frame_in h1 c = hd ?ys" "mx_frames (q', h1) = tl ?ys"
      by auto
    with True run st that [of "Some c" q' h1] show thesis by simp
  next
    case False
    with mix_queue_pop_spec(1) [OF 2(2) t] 2(3) have "mix_queue_pop (q2, h1) = (Inr None, (q2, h1))"
      "length (mx_msgs q2) < 10" by simp_all
    moreover from this(2) 2(2) have "mx_ok 10 (q2, h1) M" by (simp add: mx_ok_def)
    ultimately show thesis using False run st 2(3) that [of None q2 h1] by simp
  qed
qed

text \<open>A stream through the queue: the messages that leave it.\<close>

fun mix_feed :: "frame list \<Rightarrow> frame list mx_prog" where
  "mix_feed [] = returnP []"
| "mix_feed (f # fs) = bindP (on_shared (sm_create (frame_msg f) sm_new))
     (\<lambda>(_, m). bindP (mix_queue_step m)
     (\<lambda>mo. bindP (getP (\<lambda>(q, h). map_option (frame_in h) mo))
     (\<lambda>fo. bindP (on_shared (srs_freep mo))
     (\<lambda>_. bindP (on_shared (sm_destroy m))
     (\<lambda>_. bindP (mix_feed fs)
     (\<lambda>out. returnP (case fo of None \<Rightarrow> out | Some g \<Rightarrow> g # out)))))))"

lemma mix_feed_spec:
  assumes "mx_ok 10 (q, h) M"
  shows "\<exists>q' h'. mix_feed fs (q, h) = (Inr (map fst (mx_out (mx_frames (q, h)) fs)), (q', h'))
    \<and> mx_ok 10 (q', h') M \<and> mx_frames (q', h') = mx_left (mx_frames (q, h)) fs"
  using assms
proof (induction fs arbitrary: q h)
  case Nil
  then show ?case by (simp add: returnP_def)
next
  case (Cons f fs)
  have ow: "owned h (mset (map snd (mx_msgs q)) + M)" using Cons.prems by (simp add: mx_ok_def)
  obtain m h1 cm where 1: "sm_create (frame_msg f) sm_new h = (Inr (cm, m), h1)"
    "owned h1 (add_mset m (mset (map snd (mx_msgs q)) + M))" "same_types (mset (map snd (mx_msgs q)) + M) h h1"
    "frame_in h1 m = f"
    by (rule owned_frame_msg [OF ow])
  have "owned h1 (mset (map snd (mx_msgs q)) + add_mset m M)" using 1(2) by simp
  note ok1 = mx_ok_same [OF Cons.prems this same_types_mono [OF 1(3)], simplified]
  have "m \<in># add_mset m M" by simp
  from mix_queue_step_spec [OF ok1(1) this] obtain mo q2 h2 where 2: "mix_queue_step m (q, h1) = (Inr mo, (q2, h2))"
    "mx_ok 10 (q2, h2) (mset_opt mo + add_mset m M)"
    "let ys = mx_insert f (mx_frames (q, h)) in
      if mx_ready ys then (\<exists>c. mo = Some c \<and> frame_in h2 c = hd ys) \<and> mx_frames (q2, h2) = tl ys
      else mo = None \<and> mx_frames (q2, h2) = ys"
    unfolding 1(4) ok1(2) by metis
  have "owned h2 (mset_opt mo + (mset (map snd (mx_msgs q2)) + add_mset m M))"
    using 2(2) by (simp add: mx_ok_def ac_simps)
  then obtain h3 where 3: "srs_freep mo h2 = (Inr (), h3)" "owned h3 (mset (map snd (mx_msgs q2)) + add_mset m M)"
    "same_types (mset (map snd (mx_msgs q2)) + add_mset m M) h2 h3"
    by (rule owned_freep)
  note ok3 = mx_ok_same [OF 2(2) 3(2) same_types_mono [OF 3(3)], simplified]
  have "owned h3 (add_mset m (mset (map snd (mx_msgs q2)) + M))" using 3(2) by simp
  then obtain h4 where 4: "sm_destroy m h3 = (Inr (), h4)" "owned h4 (mset (map snd (mx_msgs q2)) + M)"
    "same_types (mset (map snd (mx_msgs q2)) + M) h3 h4"
    by (rule owned_destroy)
  note ok4 = mx_ok_same [OF ok3(1) 4(2) same_types_mono [OF 4(3)], simplified]
  from Cons.IH [OF ok4(1)] obtain q5 h5 where 5: "mix_feed fs (q2, h4) = (Inr (map fst (mx_out (mx_frames (q2, h4)) fs)), (q5, h5))"
    "mx_ok 10 (q5, h5) M" "mx_frames (q5, h5) = mx_left (mx_frames (q2, h4)) fs"
    by blast
  have fr: "mx_frames (q2, h4) = mx_frames (q2, h2)" using ok4(2) ok3(2) by simp
  have "mix_feed (f # fs) (q, h) = (case map_option (frame_in h2) mo of
       None \<Rightarrow> (Inr (map fst (mx_out (mx_frames (q2, h4)) fs)), (q5, h5))
     | Some g \<Rightarrow> (Inr (g # map fst (mx_out (mx_frames (q2, h4)) fs)), (q5, h5)))"
    by (simp add: prog_simps 1(1) bindP_Inr [where m = "mix_queue_step m", OF 2(1)] 3(1) 4(1)
        bindP_Inr [where m = "mix_feed fs", OF 5(1)] split: option.split)
  with 2(3) 5(2,3) fr show ?case by (auto simp: Let_def split: if_splits)
qed

section \<open>Properties\<close>

text \<open>C13: The mix queue loses nothing, delays little and orders: whatever is published, the
  messages that leave the queue and the at most 9 that still wait are exactly the published
  ones. If the audios among themselves and the videos among themselves come in order, a message
  that leaves while both kinds are waiting is never followed by an earlier one.\<close>

theorem mix_queue_merges:
  "\<exists>q h. mix_feed fs (mix_queue_new, empty_heap) = (Inr (map fst (mx_out [] fs)), (q, h))
    \<and> owned h (mset (map snd (mx_msgs q)))
    \<and> mset (map fst (mx_out [] fs)) + mset (map (frame_in h) (map snd (mx_msgs q))) = mset fs
    \<and> length (mx_msgs q) \<le> 9
    \<and> (sorted (map fr_ms (filter fr_video fs)) \<and> sorted (map fr_ms (filter fr_other fs)) \<longrightarrow>
        (\<forall>i j. i < j \<and> j < length (mx_out [] fs) \<and> snd (mx_out [] fs ! i) \<longrightarrow>
          fr_ms (fst (mx_out [] fs ! i)) \<le> fr_ms (fst (mx_out [] fs ! j))))"
proof -
  have "mx_ok 10 (mix_queue_new, empty_heap) {#}" by (rule mx_ok_new [OF owned_empty]) simp
  moreover have "mx_frames (mix_queue_new, empty_heap) = []" by (simp add: mx_frames_def mix_queue_new_def)
  ultimately obtain q h where
    1: "mix_feed fs (mix_queue_new, empty_heap) = (Inr (map fst (mx_out [] fs)), (q, h))"
    "mx_ok 10 (q, h) {#}" "mx_frames (q, h) = mx_left [] fs"
    using mix_feed_spec [of mix_queue_new empty_heap "{#}" fs] by fastforce
  have "mset (map fst (mx_out [] fs)) + mset (map (frame_in h) (map snd (mx_msgs q))) = mset fs"
    using mx_conserved [of "[]" fs] 1(3) by (simp add: mx_frames_def)
  moreover have "owned h (mset (map snd (mx_msgs q)))" "length (mx_msgs q) \<le> 9"
    using 1(2) by (simp_all add: mx_ok_def)
  moreover have "fr_ms (fst (mx_out [] fs ! i)) \<le> fr_ms (fst (mx_out [] fs ! j))"
    if "sorted (map fr_ms (filter fr_video fs))" "sorted (map fr_ms (filter fr_other fs))"
      "i < j" "j < length (mx_out [] fs)" "snd (mx_out [] fs ! i)" for i j
    by (rule mx_out_order) (use that in \<open>simp_all add: in_order_def\<close>)
  ultimately show ?thesis using 1(1) by blast
qed

theorem mix_queue_merges_witness:
  "let fs = [(9, 10, [0x17, 1]), (8, 5, [0xAF, 1]), (9, 20, [0x27, 1])] in
   snd (mx_out [] fs ! 0) \<and> fst (mx_out [] fs ! 0) = (8, 5, [0xAF, 1])
   \<and> (\<exists>q h. mix_feed fs (mix_queue_new, empty_heap) = (Inr (map fst (mx_out [] fs)), (q, h))
    \<and> owned h (mset (map snd (mx_msgs q)))
    \<and> mset (map fst (mx_out [] fs)) + mset (map (frame_in h) (map snd (mx_msgs q))) = mset fs
    \<and> length (mx_msgs q) \<le> 9
    \<and> (\<forall>i j. i < j \<and> j < length (mx_out [] fs) \<and> snd (mx_out [] fs ! i) \<longrightarrow>
          fr_ms (fst (mx_out [] fs ! i)) \<le> fr_ms (fst (mx_out [] fs ! j))))"
proof -
  have "snd (mx_out [] [(9, 10, [0x17, 1]), (8, 5, [0xAF, 1]), (9, 20, [0x27, 1])] ! 0)
      \<and> fst (mx_out [] [(9, 10, [0x17, 1]), (8, 5, [0xAF, 1]), (9, 20, [0x27, 1])] ! 0) = (8, 5, [0xAF, 1])"
    by (simp add: mx_insert_def mx_ready_def mx_both_def)
  moreover have "sorted (map fr_ms (filter fr_video [(9, 10, [0x17, 1]), (8, 5, [0xAF, 1]), (9, 20, [0x27, 1])]))
      \<and> sorted (map fr_ms (filter fr_other [(9, 10, [0x17, 1]), (8, 5, [0xAF, 1]), (9, 20, [0x27, 1])]))"
    by simp
  ultimately show ?thesis
    unfolding Let_def using mix_queue_merges [of "[(9, 10, [0x17, 1]), (8, 5, [0xAF, 1]), (9, 20, [0x27, 1])]"] by blast
qed

end
