(* ===== verification/Srs_Meta_Cache.thy ===== *)
theory Srs_Meta_Cache
  imports Srs_Mix_Queue Srs_Packet_Codec
begin

text \<open>
  \<^verbatim>\<open>SrsMetaCache\<close> (\<^verbatim>\<open>src/src/app/srs_app_source.cpp\<close>): the last metadata and the last sequence
  headers of a stream, which every new player needs first. The rest of the server that a
  source calls is a parameter of its model.
\<close>

section \<open>The rest of the server\<close>

text \<open>
  The calls of a source to other parts: the codec formats of the meta
  cache (\<^verbatim>\<open>Srs_Source_Format\<close> has them), the hub of the origin server (with HLS, DVR, forwarders and so on), the edge, the
  handler of the server and the statistics. Such a part has a state of its own and may keep
  copies of the messages it is given; an error code is what the code returns.
\<close>

datatype ext_call =
    VFormat_on_video shared_msg
  | AFormat_on_audio shared_msg
  | Hub_on_meta_data shared_msg on_metadata
  | Hub_on_audio shared_msg
  | Hub_on_video shared_msg bool
  | Hub_on_publish
  | Hub_on_unpublish
  | Handler_on_publish
  | Handler_on_unpublish
  | Stat_on_stream_publish int
  | Stat_on_stream_close
  | PlayEdge_on_client_play
  | PlayEdge_on_all_client_stop
  | PublishEdge_on_client_publish
  | PublishEdge_on_proxy_publish common_msg
  | PublishEdge_on_proxy_unpublish
  | PublishEdge_set_queue_size int
  | Hub_initialize
  | PlayEdge_initialize
  | PublishEdge_initialize
  | Hub_dispose
  | Hub_cycle

fun call_msgs :: "ext_call \<Rightarrow> shared_msg multiset" where
  "call_msgs (VFormat_on_video m) = {#m#}"
| "call_msgs (AFormat_on_audio m) = {#m#}"
| "call_msgs (Hub_on_meta_data m p) = {#m#}"
| "call_msgs (Hub_on_audio m) = {#m#}"
| "call_msgs (Hub_on_video m sh) = {#m#}"
| "call_msgs _ = {#}"

type_synonym 'w server = "ext_call \<Rightarrow> ('w \<times> sp_heap, unit) prog"

text \<open>The messages of a call live, and the format of the video gets only sequence headers.\<close>

definition ext_ok :: "ext_call \<Rightarrow> shared_msg multiset \<Rightarrow> bool" where
  [simp]: "ext_ok c M \<longleftrightarrow> call_msgs c \<subseteq># M \<and> (case c of VFormat_on_video m \<Rightarrow> msg_video_sh m | _ \<Rightarrow> True)"

lemma ext_ok_none: "call_msgs c = {#} \<Longrightarrow> ext_ok c M"
  by (cases c) simp_all

text \<open>
  What the source relies on: such a part owns the copies that it keeps, it uses the other
  messages only while they live and leaves them as they are, and its error codes are in \<open>E\<close>.
  \<open>E\<close> may have every code, and a failed assertion or undefined behaviour too.
\<close>

definition server_law :: "'w server \<Rightarrow> ('w \<Rightarrow> shared_msg multiset) \<Rightarrow> (srs_error \<Rightarrow> bool) \<Rightarrow> bool" where
  "server_law ext own E \<longleftrightarrow> (\<forall>c w h M. owned h (own w + M) \<longrightarrow> ext_ok c M \<longrightarrow>
     (case ext c (w, h) of (r, (w', h')) \<Rightarrow> owned h' (own w' + M) \<and> same_types M h h'
        \<and> (case r of Inl e \<Rightarrow> E e | Inr _ \<Rightarrow> True)))"

text \<open>Running a program on a part of a state.\<close>

definition on_part :: "('o \<Rightarrow> 'p) \<Rightarrow> ('p \<Rightarrow> 'o \<Rightarrow> 'o) \<Rightarrow> ('p \<times> sp_heap, 'a) prog \<Rightarrow> ('o \<times> sp_heap, 'a) prog" where
  "on_part getp setp m = (\<lambda>(s, h). case m (getp s, h) of (r, (p, h')) \<Rightarrow> (r, (setp p s, h')))"

definition updP :: "('o \<Rightarrow> 'o) \<Rightarrow> ('o \<times> sp_heap, unit) prog" where
  "updP f = modifyP (\<lambda>(s, h). (f s, h))"

definition getS :: "('o \<Rightarrow> 'a) \<Rightarrow> ('o \<times> sp_heap, 'a) prog" where
  "getS f = getP (\<lambda>(s, h). f s)"

lemma part_simps [prog_simps]:
  "bindP (on_part g p m) f (s, h) = (case m (g s, h) of (Inl e, (x, h')) \<Rightarrow> (Inl e, (p x s, h')) | (Inr y, (x, h')) \<Rightarrow> f y (p x s, h'))"
  "on_part g p m (s, h) = (case m (g s, h) of (r, (x, h')) \<Rightarrow> (r, (p x s, h')))"
  "bindP (updP u) k (s, h) = k () (u s, h)" "updP u (s, h) = (Inr (), (u s, h))"
  "bindP (getS v) l (s, h) = l (v s) (s, h)" "getS v (s, h) = (Inr (v s), (s, h))"
  by (auto simp: on_part_def updP_def getS_def bindP_def prog_eqs split: prod.splits sum.splits)

section \<open>The cache\<close>

record meta_cache =
  mc_meta :: "shared_msg option"
  mc_video :: "shared_msg option"
  mc_audio :: "shared_msg option"

definition meta_cache_new :: meta_cache where
  "meta_cache_new = \<lparr>mc_meta = None, mc_video = None, mc_audio = None\<rparr>"

definition meta_cache_dispose :: "(meta_cache \<times> sp_heap, unit) prog" where
  "meta_cache_dispose = bindP (getS mc_meta)
     (\<lambda>m. bindP (on_shared (srs_freep m))
     (\<lambda>_. bindP (getS mc_video)
     (\<lambda>v. bindP (on_shared (srs_freep v))
     (\<lambda>_. bindP (getS mc_audio)
     (\<lambda>a. bindP (on_shared (srs_freep a)) (\<lambda>_. updP (\<lambda>_. meta_cache_new)))))))"

text \<open>Metadata, audio header, video header: the order that HLS needs.\<close>

definition meta_cache_dumps :: "meta_cache \<Rightarrow> bool \<Rightarrow> jitter_algorithm \<Rightarrow> bool \<Rightarrow> bool \<Rightarrow> unit co_prog" where
  "meta_cache_dumps c atc ag dm ds =
     bindP (case mc_meta c of Some m \<Rightarrow> if dm then consumer_enqueue m atc ag else returnP () | None \<Rightarrow> returnP ())
     (\<lambda>_. bindP (case mc_audio c of Some m \<Rightarrow> if ds then consumer_enqueue m atc ag else returnP () | None \<Rightarrow> returnP ())
     (\<lambda>_. case mc_video c of Some m \<Rightarrow> if ds then consumer_enqueue m atc ag else returnP () | None \<Rightarrow> returnP ()))"

definition RTMP_SIG_SRS_SERVER :: string where "RTMP_SIG_SRS_SERVER = ''SRS/3.0.25(OuXuli)''"
definition RTMP_SIG_SRS_PRIMARY :: string where "RTMP_SIG_SRS_PRIMARY = ''SRS/2.0release''"
definition RTMP_SIG_SRS_AUTHROS :: string where "RTMP_SIG_SRS_AUTHROS = ''winlin,wenjie.zhao''"
definition RTMP_SIG_SRS_VERSION :: string where "RTMP_SIG_SRS_VERSION = ''3.0.25''"

text \<open>What the cache does to the metadata of the publisher.\<close>

definition metadata_stamp :: "on_metadata \<Rightarrow> on_metadata" where
  "metadata_stamp p =
     (let ps = omd_metadata p;
          ps = (if ht_get_property ''duration'' ps \<noteq> None then ht_remove ''duration'' ps else ps);
          ps = ht_set ''server'' (Some (Amf0String RTMP_SIG_SRS_SERVER)) ps;
          ps = ht_set ''srs_primary'' (Some (Amf0String RTMP_SIG_SRS_PRIMARY)) ps;
          ps = ht_set ''srs_authors'' (Some (Amf0String RTMP_SIG_SRS_AUTHROS)) ps;
          ps = ht_set ''server_version'' (Some (Amf0String RTMP_SIG_SRS_VERSION)) ps
      in p\<lparr>omd_metadata := ps\<rparr>)"

text \<open>The result is \<^verbatim>\<open>updated\<close> and the changed packet; \<open>junk\<close> is the fresh memory of the encoder.\<close>

definition meta_cache_update_data :: "(nat \<Rightarrow> byte) \<Rightarrow> msg_header \<Rightarrow> on_metadata \<Rightarrow>
    (meta_cache \<times> sp_heap, bool \<times> on_metadata) prog" where
  "meta_cache_update_data junk header metadata =
     (let p = metadata_stamp metadata in
      bindP (liftR (packet_encode junk (OnMetaData p)))
      (\<lambda>(size, payload). if int size \<le> 0 then returnP (False, p)
         else bindP (getS mc_meta)
           (\<lambda>m. bindP (on_shared (srs_freep m))
           (\<lambda>_. bindP (updP (\<lambda>c. c\<lparr>mc_meta := Some sm_new\<rparr>))
           (\<lambda>_. bindP (on_shared (sm_create_header (Some header) (map_option (map Some) payload) (int size) sm_new))
           (\<lambda>m. bindP (updP (\<lambda>c. c\<lparr>mc_meta := Some m\<rparr>)) (\<lambda>_. returnP (True, p))))))))"

text \<open>The new sequence header replaces the old one, and the format parses it.\<close>

type_synonym ('w, 'a) mc_prog = "((meta_cache \<times> 'w) \<times> sp_heap, 'a) prog"

definition mc_ext :: "('w \<times> sp_heap, 'a) prog \<Rightarrow> ('w, 'a) mc_prog" where
  "mc_ext = on_part snd (\<lambda>w (c, _). (c, w))"

definition mc_upd :: "(meta_cache \<Rightarrow> meta_cache) \<Rightarrow> ('w, unit) mc_prog" where
  "mc_upd f = updP (\<lambda>(c, w). (f c, w))"

definition meta_cache_update_ash :: "'w server \<Rightarrow> shared_msg \<Rightarrow> ('w, unit) mc_prog" where
  "meta_cache_update_ash ext msg = bindP (getS (\<lambda>(c, w). mc_audio c))
     (\<lambda>a. bindP (on_shared (srs_freep a))
     (\<lambda>_. bindP (on_shared (sm_copy msg))
     (\<lambda>m. bindP (mc_upd (\<lambda>c. c\<lparr>mc_audio := Some m\<rparr>)) (\<lambda>_. mc_ext (ext (AFormat_on_audio msg))))))"

definition meta_cache_update_vsh :: "'w server \<Rightarrow> shared_msg \<Rightarrow> ('w, unit) mc_prog" where
  "meta_cache_update_vsh ext msg = bindP (getS (\<lambda>(c, w). mc_video c))
     (\<lambda>v. bindP (on_shared (srs_freep v))
     (\<lambda>_. bindP (on_shared (sm_copy msg))
     (\<lambda>m. bindP (mc_upd (\<lambda>c. c\<lparr>mc_video := Some m\<rparr>)) (\<lambda>_. mc_ext (ext (VFormat_on_video msg))))))"

section \<open>What the operations do\<close>

definition mc_held :: "meta_cache \<Rightarrow> shared_msg multiset" where
  "mc_held c = mset_opt (mc_meta c) + mset_opt (mc_video c) + mset_opt (mc_audio c)"

lemma mc_prog_simps [prog_simps]:
  "bindP (mc_upd f) k ((c, w), h) = k () ((f c, w), h)"
  "mc_upd f ((c, w), h) = (Inr (), ((f c, w), h))"
  "mc_ext x ((c, w), h) = (case x (w, h) of (r, (w', h')) \<Rightarrow> (r, ((c, w'), h')))"
  by (simp_all add: mc_upd_def mc_ext_def prog_simps)

lemma server_lawD:
  assumes "server_law ext own E" and "owned h (own w + M)" and "ext_ok c M"
  obtains r w' h' where "ext c (w, h) = (r, (w', h'))" "owned h' (own w' + M)" "same_types M h h'"
    "case r of Inl e \<Rightarrow> E e | Inr _ \<Rightarrow> True"
  using assms unfolding server_law_def by (cases "ext c (w, h)") fastforce

lemma bindP_returnP [simp]: "bindP m returnP = m" "bindP (returnP x) f = f x"
  by (auto simp: bindP_def returnP_def fun_eq_iff split: prod.splits sum.splits)

definition mc_dump_list :: "meta_cache \<Rightarrow> bool \<Rightarrow> bool \<Rightarrow> shared_msg list" where
  "mc_dump_list c dm ds = (if dm then (case mc_meta c of None \<Rightarrow> [] | Some m \<Rightarrow> [m]) else [])
     @ (if ds then (case mc_audio c of None \<Rightarrow> [] | Some m \<Rightarrow> [m]) @ (case mc_video c of None \<Rightarrow> [] | Some m \<Rightarrow> [m]) else [])"

lemma enqueue_all_append: "enqueue_all (xs @ ys) atc ag = bindP (enqueue_all xs atc ag) (\<lambda>_. enqueue_all ys atc ag)"
  by (induction xs) (simp_all add: bindP_assoc)

lemma meta_cache_dumps_list: "meta_cache_dumps c atc ag dm ds = enqueue_all (mc_dump_list c dm ds) atc ag"
  by (cases "mc_meta c"; cases "mc_audio c"; cases "mc_video c"; cases dm; cases ds)
    (simp_all add: meta_cache_dumps_def mc_dump_list_def)

lemma mc_dump_held: "mset (mc_dump_list c dm ds) \<subseteq># mc_held c"
  by (cases "mc_meta c"; cases "mc_audio c"; cases "mc_video c") (auto simp: mc_dump_list_def mc_held_def)

lemma meta_cache_dispose_spec:
  assumes "owned h (mc_held c + M)"
  obtains h' where "meta_cache_dispose (c, h) = (Inr (), (meta_cache_new, h'))" "owned h' M" "same_types M h h'"
proof -
  have "owned h (mset_opt (mc_meta c) + (mset_opt (mc_video c) + mset_opt (mc_audio c) + M))"
    using assms by (simp add: mc_held_def ac_simps)
  then obtain h1 where 1: "srs_freep (mc_meta c) h = (Inr (), h1)"
    "owned h1 (mset_opt (mc_video c) + mset_opt (mc_audio c) + M)"
    "same_types (mset_opt (mc_video c) + mset_opt (mc_audio c) + M) h h1"
    by (rule owned_freep)
  have "owned h1 (mset_opt (mc_video c) + (mset_opt (mc_audio c) + M))" using 1(2) by (simp add: ac_simps)
  then obtain h2 where 2: "srs_freep (mc_video c) h1 = (Inr (), h2)" "owned h2 (mset_opt (mc_audio c) + M)"
    "same_types (mset_opt (mc_audio c) + M) h1 h2"
    by (rule owned_freep)
  obtain h3 where 3: "srs_freep (mc_audio c) h2 = (Inr (), h3)" "owned h3 M" "same_types M h2 h3"
    using owned_freep [OF 2(2)] .
  have "same_types M h h3"
    using same_types_mono [OF 1(3), of M] same_types_mono [OF 2(3), of M] 3(3)
    by (auto intro: same_types_trans)
  with 1 2 3 show thesis
    by (intro that [of h3]) (simp_all add: meta_cache_dispose_def prog_simps)
qed

lemma packet_encode_metadata:
  "packet_encode junk (OnMetaData p) = Inr (get_size (OnMetaData p), Some (packet_enc (OnMetaData p)))"
  "0 < get_size (OnMetaData p)" "length (packet_enc (OnMetaData p)) = get_size (OnMetaData p)"
  using get_size_pos [of "OnMetaData p"] length_packet_enc [of "OnMetaData p"]
  by (simp_all add: packet_encode_eq)

lemma meta_cache_update_data_spec:
  assumes "owned h (mc_held c + M)"
  obtains m h' where "meta_cache_update_data junk header p (c, h) = (Inr (True, metadata_stamp p), (c\<lparr>mc_meta := Some m\<rparr>, h'))"
    "owned h' (mc_held (c\<lparr>mc_meta := Some m\<rparr>) + M)" "same_types (mset_opt (mc_video c) + mset_opt (mc_audio c) + M) h h'"
    "frame_in h' m = (mh_message_type header, mh_timestamp header, packet_enc (OnMetaData (metadata_stamp p)))"
proof -
  let ?R = "mset_opt (mc_video c) + mset_opt (mc_audio c) + M"
  define bs where "bs = packet_enc (OnMetaData (metadata_stamp p))"
  obtain n where n: "packet_encode junk (OnMetaData (metadata_stamp p)) = Inr (n, Some bs)" "0 < n" "length bs = n"
    using packet_encode_metadata(1) [of junk "metadata_stamp p"] packet_encode_metadata(2,3) [of "metadata_stamp p"]
    unfolding bs_def by blast
  have "owned h (mset_opt (mc_meta c) + ?R)"
    using assms by (simp add: mc_held_def ac_simps)
  then obtain h1 where 1: "srs_freep (mc_meta c) h = (Inr (), h1)" "owned h1 ?R" "same_types ?R h h1"
    by (rule owned_freep)
  have "int (length bs) = int n" using n(3) by simp
  then obtain h2 m where 2: "sm_create_header (Some header) (Some (map Some bs)) (int n) sm_new h1 = (Inr m, h2)"
    "owned h2 (add_mset m ?R)" "same_types ?R h1 h2" "sm_type h2 m = Some (mh_message_type header)"
    "sm_timestamp m = mh_timestamp header" "sm_payload m = Some (map Some bs)"
    by (rule owned_create [OF 1(2)])
  have run: "meta_cache_update_data junk header p (c, h) = (Inr (True, metadata_stamp p), (c\<lparr>mc_meta := Some m\<rparr>, h2))"
    using n(2) by (simp add: meta_cache_update_data_def Let_def n(1) prog_simps 1(1) 2(1))
  have fr: "frame_in h2 m = (mh_message_type header, mh_timestamp header, bs)"
    by (simp add: frame_in_def 2(4,5,6) payload_bytes_def o_def)
  show thesis
    by (rule that [OF run _ same_types_trans [OF 1(3) 2(3)] fr [unfolded bs_def]])
      (use 2(2) in \<open>simp add: mc_held_def ac_simps\<close>)
qed

lemma meta_cache_update_spec:
  assumes law: "server_law ext own E" and ow: "owned h (own w + (mc_held c + M))" and m: "m \<in># M"
  shows "\<exists>r w' h'. meta_cache_update_ash ext m ((c, w), h) = (r, ((c\<lparr>mc_audio := Some m\<rparr>, w'), h'))
      \<and> owned h' (own w' + (mc_held (c\<lparr>mc_audio := Some m\<rparr>) + M))
      \<and> same_types (mset_opt (mc_meta c) + mset_opt (mc_video c) + M) h h'
      \<and> (case r of Inl e \<Rightarrow> E e | Inr _ \<Rightarrow> True)"
    and "msg_video_sh m \<Longrightarrow> \<exists>r w' h'. meta_cache_update_vsh ext m ((c, w), h) = (r, ((c\<lparr>mc_video := Some m\<rparr>, w'), h'))
      \<and> owned h' (own w' + (mc_held (c\<lparr>mc_video := Some m\<rparr>) + M))
      \<and> same_types (mset_opt (mc_meta c) + mset_opt (mc_audio c) + M) h h'
      \<and> (case r of Inl e \<Rightarrow> E e | Inr _ \<Rightarrow> True)"
proof -
  have replace: "\<exists>h1 h2. srs_freep mo h = (Inr (), h1) \<and> sm_copy m h1 = (Inr m, h2)
      \<and> owned h2 (own w + (add_mset m R + M)) \<and> same_types (own w + (R + M)) h h2"
    if R: "owned h (mset_opt mo + (own w + (R + M)))" for mo R
  proof -
    obtain h1 where 1: "srs_freep mo h = (Inr (), h1)" "owned h1 (own w + (R + M))" "same_types (own w + (R + M)) h h1"
      by (rule owned_freep [OF R])
    have "m \<in># own w + (R + M)" using m by simp
    with 1(2) obtain h2 where 2: "sm_copy m h1 = (Inr m, h2)" "owned h2 (add_mset m (own w + (R + M)))" "sm_type h2 = sm_type h1"
      by (rule owned_copy)
    have "same_types (own w + (R + M)) h h2" using 1(3) 2(3) by (simp add: same_types_def)
    with 1 2 show ?thesis by auto
  qed
  have call: "\<exists>r w' h'. ext x (w, h2) = (r, (w', h')) \<and> owned h' (own w' + (add_mset m R + M))
      \<and> same_types (R + M) h h' \<and> (case r of Inl e \<Rightarrow> E e | Inr _ \<Rightarrow> True)"
    if h2: "owned h2 (own w + (add_mset m R + M))" "same_types (own w + (R + M)) h h2" and x: "ext_ok x {#m#}" for x h2 R
  proof -
    have "ext_ok x (add_mset m R + M)"
      using x subset_mset.order_trans [of "call_msgs x" "{#m#}" "add_mset m R + M"] by simp
    with law h2(1) obtain r w' h' where 3: "ext x (w, h2) = (r, (w', h'))" "owned h' (own w' + (add_mset m R + M))"
      "same_types (add_mset m R + M) h2 h'" "case r of Inl e \<Rightarrow> E e | Inr _ \<Rightarrow> True"
      by (rule server_lawD)
    have "same_types (R + M) h h'"
      using same_types_mono [OF h2(2), of "R + M"] same_types_mono [OF 3(3), of "R + M"]
      by (auto intro: same_types_trans simp: subset_mset.add_increasing)
    with 3 show ?thesis by blast
  qed
  let ?A = "mset_opt (mc_meta c) + mset_opt (mc_video c)"
  have "owned h (mset_opt (mc_audio c) + (own w + (?A + M)))" using ow by (simp add: mc_held_def ac_simps)
  from replace [OF this] obtain h1 h2 where a: "srs_freep (mc_audio c) h = (Inr (), h1)" "sm_copy m h1 = (Inr m, h2)"
    "owned h2 (own w + (add_mset m ?A + M))" "same_types (own w + (?A + M)) h h2" by blast
  from call [OF a(3,4), of "AFormat_on_audio m"] obtain r w' h' where
    "ext (AFormat_on_audio m) (w, h2) = (r, (w', h'))" "owned h' (own w' + (add_mset m ?A + M))"
    "same_types (?A + M) h h'" "case r of Inl e \<Rightarrow> E e | Inr _ \<Rightarrow> True" by auto
  with a(1,2) show "\<exists>r w' h'. meta_cache_update_ash ext m ((c, w), h) = (r, ((c\<lparr>mc_audio := Some m\<rparr>, w'), h'))
      \<and> owned h' (own w' + (mc_held (c\<lparr>mc_audio := Some m\<rparr>) + M))
      \<and> same_types (?A + M) h h' \<and> (case r of Inl e \<Rightarrow> E e | Inr _ \<Rightarrow> True)"
    by (auto simp: meta_cache_update_ash_def prog_simps mc_held_def ac_simps)
  let ?V = "mset_opt (mc_meta c) + mset_opt (mc_audio c)"
  have "owned h (mset_opt (mc_video c) + (own w + (?V + M)))" using ow by (simp add: mc_held_def ac_simps)
  from replace [OF this] obtain g1 g2 where v: "srs_freep (mc_video c) h = (Inr (), g1)" "sm_copy m g1 = (Inr m, g2)"
    "owned g2 (own w + (add_mset m ?V + M))" "same_types (own w + (?V + M)) h g2" by blast
  assume sh: "msg_video_sh m"
  from call [OF v(3,4), of "VFormat_on_video m"] sh obtain r w' h' where
    "ext (VFormat_on_video m) (w, g2) = (r, (w', h'))" "owned h' (own w' + (add_mset m ?V + M))"
    "same_types (?V + M) h h'" "case r of Inl e \<Rightarrow> E e | Inr _ \<Rightarrow> True" by auto
  with v(1,2) show "\<exists>r w' h'. meta_cache_update_vsh ext m ((c, w), h) = (r, ((c\<lparr>mc_video := Some m\<rparr>, w'), h'))
      \<and> owned h' (own w' + (mc_held (c\<lparr>mc_video := Some m\<rparr>) + M))
      \<and> same_types (?V + M) h h' \<and> (case r of Inl e \<Rightarrow> E e | Inr _ \<Rightarrow> True)"
    by (auto simp: meta_cache_update_vsh_def prog_simps mc_held_def ac_simps)
qed

end
