(* ===== verification/Srs_Source.thy ===== *)
theory Srs_Source
  imports Srs_Meta_Cache
begin

text \<open>
  \<^verbatim>\<open>SrsSource\<close> (\<^verbatim>\<open>src/src/app/srs_app_source.cpp\<close>): one stream, from its publisher to its
  players. The publisher gives it metadata, audio, video and aggregate messages; it keeps the
  headers and the last group, and copies every message to every consumer.
\<close>

section \<open>The source\<close>

text \<open>A consumer is a pointer in the code; here it is known by a number.\<close>

record source =
  so_vhost :: string
  so_source_id :: int
  so_pre_source_id :: int
  so_consumers :: "(nat \<times> consumer) list"
  so_next :: nat
  so_jitter_algorithm :: jitter_algorithm
  so_mix_correct :: bool
  so_mix_queue :: mix_queue
  so_atc :: bool
  so_is_monotonically_increase :: bool
  so_last_packet_time :: "64 word"
  so_gop_cache :: gop_cache
  so_meta :: meta_cache
  so_can_publish :: bool
  so_die_at :: "64 word"

text \<open>The values that the configuration has for the virtual host.\<close>

record vhost_config =
  cf_atc :: bool
  cf_atc_auto :: bool
  cf_reduce_sequence_header :: bool
  cf_queue_length_ms :: int
  cf_time_jitter :: jitter_algorithm
  cf_mix_correct :: bool
  cf_gop_cache :: bool
  cf_is_edge :: bool

text \<open>The rest of the server: its calls, the clock, the state of the edge, the current client.\<close>

record 'w env =
  ev_call :: "'w server"
  ev_now :: "'w \<Rightarrow> 64 word"
  ev_edge_can_publish :: "'w \<Rightarrow> bool"
  ev_get_id :: "'w \<Rightarrow> int"

definition source_new :: "string \<Rightarrow> source" where
  "source_new vhost = \<lparr>so_vhost = vhost, so_source_id = - 1, so_pre_source_id = - 1, so_consumers = [],
     so_next = 0, so_jitter_algorithm = JitterOFF, so_mix_correct = False, so_mix_queue = mix_queue_new,
     so_atc = False, so_is_monotonically_increase = False, so_last_packet_time = 0,
     so_gop_cache = gop_cache_new, so_meta = meta_cache_new, so_can_publish = True, so_die_at = - 1\<rparr>"

type_synonym ('w, 'a) so_prog = "((source \<times> 'w) \<times> sp_heap, 'a) prog"

definition so_get :: "(source \<Rightarrow> 'a) \<Rightarrow> ('w, 'a) so_prog" where
  "so_get f = getS (\<lambda>(s, w). f s)"

definition so_upd :: "(source \<Rightarrow> source) \<Rightarrow> ('w, unit) so_prog" where
  "so_upd f = updP (\<lambda>(s, w). (f s, w))"

definition on_gop :: "'a gc_prog \<Rightarrow> ('w, 'a) so_prog" where
  "on_gop = on_part (\<lambda>(s, w). so_gop_cache s) (\<lambda>g (s, w). (s\<lparr>so_gop_cache := g\<rparr>, w))"

definition on_mix :: "'a mx_prog \<Rightarrow> ('w, 'a) so_prog" where
  "on_mix = on_part (\<lambda>(s, w). so_mix_queue s) (\<lambda>q (s, w). (s\<lparr>so_mix_queue := q\<rparr>, w))"

definition on_meta :: "(meta_cache \<times> sp_heap, 'a) prog \<Rightarrow> ('w, 'a) so_prog" where
  "on_meta = on_part (\<lambda>(s, w). so_meta s) (\<lambda>c (s, w). (s\<lparr>so_meta := c\<rparr>, w))"

definition on_meta_w :: "('w, 'a) mc_prog \<Rightarrow> ('w, 'a) so_prog" where
  "on_meta_w = on_part (\<lambda>(s, w). (so_meta s, w)) (\<lambda>(c, w) (s, _). (s\<lparr>so_meta := c\<rparr>, w))"

definition on_ext :: "('w \<times> sp_heap, 'a) prog \<Rightarrow> ('w, 'a) so_prog" where
  "on_ext = on_part snd (\<lambda>w (s, _). (s, w))"

text \<open>
  A call of a function that returns nothing: it has no error code to pass on. After a fault of
  such a call the model goes on, where the code does not.
\<close>

definition void :: "('s, unit) prog \<Rightarrow> ('s, unit) prog" where
  "void m = (\<lambda>s. (Inr (), snd (m s)))"

text \<open>A local object is destroyed on every path.\<close>

definition finallyP :: "('s, 'a) prog \<Rightarrow> ('s, unit) prog \<Rightarrow> ('s, 'a) prog" where
  "finallyP m n = (\<lambda>s. case m s of (r, s') \<Rightarrow> case n s' of (Inl e, s'') \<Rightarrow> (Inl e, s'') | (Inr _, s'') \<Rightarrow> (r, s''))"

section \<open>Copying to the consumers\<close>

fun enqueue_each :: "shared_msg \<Rightarrow> bool \<Rightarrow> jitter_algorithm \<Rightarrow> (nat \<times> consumer) list \<Rightarrow> sp_heap \<Rightarrow>
    unit res \<times> ((nat \<times> consumer) list \<times> sp_heap)" where
  "enqueue_each m atc ag [] h = (Inr (), ([], h))"
| "enqueue_each m atc ag ((i, c) # cs) h = (case consumer_enqueue m atc ag (c, h) of
     (Inl e, (c', h')) \<Rightarrow> (Inl e, ((i, c') # cs, h'))
   | (Inr _, (c', h')) \<Rightarrow> (case enqueue_each m atc ag cs h' of (r, (cs', h'')) \<Rightarrow> (r, ((i, c') # cs', h''))))"

definition copy_to_consumers :: "shared_msg \<Rightarrow> ('w, unit) so_prog" where
  "copy_to_consumers m = bindP (so_get (\<lambda>s. (so_atc s, so_jitter_algorithm s)))
     (\<lambda>(atc, ag). on_part (\<lambda>(s, w). so_consumers s) (\<lambda>cs (s, w). (s\<lparr>so_consumers := cs\<rparr>, w))
        (\<lambda>(cs, h). enqueue_each m atc ag cs h))"

text \<open>\<^verbatim>\<open>srs_bytes_equals\<close>: the first difference ends the comparison.\<close>

fun bytes_equal_from :: "nat \<Rightarrow> nat \<Rightarrow> payload \<Rightarrow> payload \<Rightarrow> bool res" where
  "bytes_equal_from i 0 a b = Inr True"
| "bytes_equal_from i (Suc n) a b = bindR (flv_byte a i) (\<lambda>x. bindR (flv_byte b i)
     (\<lambda>y. if x \<noteq> y then Inr False else bytes_equal_from (Suc i) n a b))"

definition srs_bytes_equals :: "payload \<Rightarrow> payload \<Rightarrow> int \<Rightarrow> bool res" where
  "srs_bytes_equals pa pb n =
     (if pa = None \<and> pb = None then Inr True
      else if pa = None \<or> pb = None then Inr False
      else bytes_equal_from 0 (nat n) pa pb)"

text \<open>Whether a sequence header repeats the cached one and is dropped.\<close>

definition drop_for_reduce :: "vhost_config \<Rightarrow> bool \<Rightarrow> shared_msg option \<Rightarrow> shared_msg \<Rightarrow> bool res" where
  "drop_for_reduce cf is_sequence_header cached msg = (case cached of
     None \<Rightarrow> Inr False
   | Some sh \<Rightarrow> if is_sequence_header \<and> cf_reduce_sequence_header cf \<and> sm_size sh = sm_size msg
       then srs_bytes_equals (sm_payload sh) (sm_payload msg) (sm_size msg)
       else Inr False)"

section \<open>Audio and video\<close>

definition retime :: "64 word \<Rightarrow> shared_msg option \<Rightarrow> shared_msg option" where
  "retime t = map_option (\<lambda>m. m\<lparr>sm_timestamp := t\<rparr>)"

definition source_on_audio_imp :: "'w env \<Rightarrow> vhost_config \<Rightarrow> shared_msg \<Rightarrow> ('w, unit) so_prog" where
  "source_on_audio_imp env cf msg =
     bindP (liftR (SrsFlvAudio_sh (sm_payload msg) (sm_size msg)))
     (\<lambda>sh. bindP (so_get (\<lambda>s. mc_audio (so_meta s)))
     (\<lambda>ash. bindP (liftR (drop_for_reduce cf sh ash msg))
     (\<lambda>dropped. bindP (if \<not> dropped then copy_to_consumers msg else returnP ())
     (\<lambda>_. bindP (on_ext (ev_call env (Hub_on_audio msg)))
     (\<lambda>_. bindP (so_get (\<lambda>s. mc_audio (so_meta s)))
     (\<lambda>ash. bindP (if sh \<or> ash = None then on_meta_w (meta_cache_update_ash (ev_call env) msg) else returnP ())
     (\<lambda>_. if sh then returnP ()
        else bindP (on_gop (gop_cache_cache msg))
          (\<lambda>_. bindP (so_get so_atc)
          (\<lambda>atc. if atc
             then on_meta (updP (\<lambda>c. c\<lparr>mc_audio := retime (sm_timestamp msg) (mc_audio c),
               mc_meta := retime (sm_timestamp msg) (mc_meta c)\<rparr>))
             else returnP ())))))))))"

definition source_on_video_imp :: "'w env \<Rightarrow> vhost_config \<Rightarrow> shared_msg \<Rightarrow> ('w, unit) so_prog" where
  "source_on_video_imp env cf msg =
     bindP (liftR (SrsFlvVideo_sh (sm_payload msg) (sm_size msg)))
     (\<lambda>sh. bindP (so_get (\<lambda>s. mc_video (so_meta s)))
     (\<lambda>vsh. bindP (liftR (drop_for_reduce cf sh vsh msg))
     (\<lambda>dropped. bindP (if sh then on_meta_w (meta_cache_update_vsh (ev_call env) msg) else returnP ())
     (\<lambda>_. bindP (on_ext (ev_call env (Hub_on_video msg sh)))
     (\<lambda>_. bindP (if \<not> dropped then copy_to_consumers msg else returnP ())
     (\<lambda>_. if sh then returnP ()
        else bindP (on_gop (gop_cache_cache msg))
          (\<lambda>_. bindP (so_get so_atc)
          (\<lambda>atc. if atc
             then on_meta (updP (\<lambda>c. c\<lparr>mc_video := retime (sm_timestamp msg) (mc_video c),
               mc_meta := retime (sm_timestamp msg) (mc_meta c)\<rparr>))
             else returnP ()))))))))"

definition note_packet :: "64 word \<Rightarrow> source \<Rightarrow> source" where
  "note_packet t s =
     (let s = (if \<not> so_mix_correct s \<and> so_is_monotonically_increase s
         \<and> 0 < sint (so_last_packet_time s) \<and> sint t < sint (so_last_packet_time s)
         then s\<lparr>so_is_monotonically_increase := False\<rparr> else s)
      in s\<lparr>so_last_packet_time := t\<rparr>)"

text \<open>What leaves the mix queue is audio or video.\<close>

definition consume_mixed :: "'w env \<Rightarrow> vhost_config \<Rightarrow> shared_msg \<Rightarrow> ('w, unit) so_prog" where
  "consume_mixed env cf m = finallyP
     (bindP (on_shared (sm_is_audio m))
       (\<lambda>audio. if audio then source_on_audio_imp env cf m else source_on_video_imp env cf m))
     (on_shared (sm_destroy m))"

definition push_mixed :: "'w env \<Rightarrow> vhost_config \<Rightarrow> shared_msg \<Rightarrow> ('w, unit) so_prog" where
  "push_mixed env cf msg = bindP (on_mix (mix_queue_step msg))
     (\<lambda>mo. case mo of None \<Rightarrow> returnP () | Some m \<Rightarrow> consume_mixed env cf m)"

definition source_on_audio :: "'w env \<Rightarrow> vhost_config \<Rightarrow> common_msg \<Rightarrow> ('w, unit) so_prog" where
  "source_on_audio env cf shared_audio =
     bindP (so_upd (note_packet (mh_timestamp (cm_header shared_audio))))
     (\<lambda>_. bindP (on_shared (sm_create shared_audio sm_new))
     (\<lambda>(_, msg). finallyP
        (bindP (so_get so_mix_correct)
          (\<lambda>mix. if \<not> mix then source_on_audio_imp env cf msg else push_mixed env cf msg))
        (on_shared (sm_destroy msg))))"

definition source_on_video :: "'w env \<Rightarrow> vhost_config \<Rightarrow> common_msg \<Rightarrow> ('w, unit) so_prog" where
  "source_on_video env cf shared_video =
     bindP (so_upd (note_packet (mh_timestamp (cm_header shared_video))))
     (\<lambda>_. bindP (liftR (SrsFlvVideo_acceptable (cm_payload shared_video) (cm_size shared_video)))
     (\<lambda>acceptable. if \<not> acceptable then returnP ()
        else bindP (on_shared (sm_create shared_video sm_new))
          (\<lambda>(_, msg). finallyP
             (bindP (so_get so_mix_correct)
               (\<lambda>mix. if \<not> mix then source_on_video_imp env cf msg else push_mixed env cf msg))
             (on_shared (sm_destroy msg)))))"

section \<open>Metadata\<close>

definition bravo_atc :: "vhost_config \<Rightarrow> on_metadata \<Rightarrow> bool" where
  "bravo_atc cf metadata = (case ht_get_property ''bravo_atc'' (omd_metadata metadata) of
     None \<Rightarrow> False
   | Some prop \<Rightarrow> cf_atc_auto cf \<and> is_string prop \<and> to_str prop = Inr ''true'')"

definition source_on_meta_data :: "'w env \<Rightarrow> vhost_config \<Rightarrow> (nat \<Rightarrow> byte) \<Rightarrow> msg_header \<Rightarrow> on_metadata \<Rightarrow>
    ('w, unit) so_prog" where
  "source_on_meta_data env cf junk header metadata =
     bindP (so_upd (\<lambda>s. s\<lparr>so_atc := cf_atc cf \<or> bravo_atc cf metadata\<rparr>))
     (\<lambda>_. bindP (on_meta (meta_cache_update_data junk header metadata))
     (\<lambda>(updated, metadata). if \<not> updated then returnP ()
        else bindP (so_get (\<lambda>s. mc_meta (so_meta s)))
          (\<lambda>data. case data of
             None \<Rightarrow> raiseP UNDEFINED_BEHAVIOUR
           | Some m \<Rightarrow>
               bindP (if \<not> cf_reduce_sequence_header cf then copy_to_consumers m else returnP ())
               (\<lambda>_. on_ext (ev_call env (Hub_on_meta_data m metadata))))))"

section \<open>Aggregate messages\<close>

text \<open>The bytes of a received message; reading a cell that was never written is undefined.\<close>

definition payload_view :: "payload \<Rightarrow> byte list option res" where
  "payload_view data = (case data of
     None \<Rightarrow> Inr None
   | Some arr \<Rightarrow> if None \<in> set arr then Inl UNDEFINED_BEHAVIOUR else Inr (Some (map the arr)))"

text \<open>
  One message of the aggregate: type, size, time with its high byte, stream, data and the size
  of the previous tag. \<open>delta\<close> moves the times to that of the aggregate; -1 stands for not
  yet known. The code adds 32-bit integers, which wrap around.
\<close>

definition aggregate_time :: "32 word \<Rightarrow> 8 word \<Rightarrow> 32 word" where
  "aggregate_time t time_h = and (or t (push_bit 24 (scast time_h))) 0x7FFFFFFF"

definition aggregate_delta :: "64 word \<Rightarrow> 32 word \<Rightarrow> 32 word \<Rightarrow> 32 word" where
  "aggregate_delta t timestamp delta = (if delta = - 1 then ucast t - timestamp else delta)"

text \<open>The numbers in front of the data: type, size, time with the high byte, stream.\<close>

definition aggregate_head :: "sbuf \<Rightarrow> ((8 word \<times> 32 word \<times> 32 word) \<times> sbuf) res" where
  "aggregate_head s =
     bindR (need 1 ERROR_RTMP_AGGREGATE s) (\<lambda>_. bindR (read_1bytes s)
     (\<lambda>(ty, s). bindR (need 3 ERROR_RTMP_AGGREGATE s) (\<lambda>_. bindR (read_3bytes s)
     (\<lambda>(data_size, s). bindR (check (0 \<le> sint data_size) ERROR_RTMP_AGGREGATE)
     (\<lambda>_. bindR (need 3 ERROR_RTMP_AGGREGATE s) (\<lambda>_. bindR (read_3bytes s)
     (\<lambda>(t, s). bindR (need 1 ERROR_RTMP_AGGREGATE s) (\<lambda>_. bindR (read_1bytes s)
     (\<lambda>(time_h, s). Inr ((ty, data_size, aggregate_time t time_h), s))))))))))"

definition aggregate_body :: "32 word \<Rightarrow> sbuf \<Rightarrow> ((32 word \<times> payload) \<times> sbuf) res" where
  "aggregate_body data_size s =
     bindR (need 3 ERROR_RTMP_AGGREGATE s) (\<lambda>_. bindR (read_3bytes s)
     (\<lambda>(stream_id, s). bindR (if 0 < sint data_size then need (sint data_size) ERROR_RTMP_AGGREGATE s else Inr ())
     (\<lambda>_. bindR (if 0 < sint data_size
         then bindR (read_bytes (sint data_size) s) (\<lambda>(bs, s). Inr (Some (map Some bs), s))
         else Inr (None, s))
     (\<lambda>(data, s). bindR (need 4 ERROR_RTMP_AGGREGATE s) (\<lambda>_. bindR (read_4bytes s)
     (\<lambda>(_, s). Inr ((stream_id, data), s)))))))"

definition aggregate_next :: "msg_header \<Rightarrow> sbuf \<Rightarrow> 32 word \<Rightarrow> (common_msg \<times> 32 word \<times> sbuf) res" where
  "aggregate_next header s delta = bindR (aggregate_head s)
     (\<lambda>((ty, data_size, timestamp), s).
        let delta = aggregate_delta (mh_timestamp header) timestamp delta;
            timestamp = timestamp + delta
        in bindR (aggregate_body data_size s)
          (\<lambda>((stream_id, data), s). Inr
             (\<lparr>cm_header = mh_new\<lparr>mh_message_type := ty, mh_payload_length := data_size,
                 mh_timestamp_delta := timestamp, mh_timestamp := scast timestamp, mh_stream_id := stream_id,
                 mh_perfer_cid := mh_perfer_cid header\<rparr>,
               cm_size = (if 0 < sint data_size then sint data_size else 0), cm_payload = data\<rparr>, delta, s)))"

definition source_on_aggregated :: "'w env \<Rightarrow> vhost_config \<Rightarrow> common_msg \<Rightarrow> ('w, unit) so_prog" where
  "source_on_aggregated env cf msg =
     (if mh_is_audio (cm_header msg) then source_on_audio env cf msg
      else if mh_is_video (cm_header msg) then source_on_video env cf msg
      else returnP ())"

fun aggregate_loop :: "'w env \<Rightarrow> vhost_config \<Rightarrow> msg_header \<Rightarrow> nat \<Rightarrow> sbuf \<Rightarrow> 32 word \<Rightarrow> ('w, unit) so_prog" where
  "aggregate_loop env cf header 0 s delta = raiseP OUT_OF_FUEL"
| "aggregate_loop env cf header (Suc n) s delta =
     (if buf_empty s then returnP ()
      else bindP (liftR (aggregate_next header s delta))
        (\<lambda>(msg, delta, s). bindP (source_on_aggregated env cf msg) (\<lambda>_. aggregate_loop env cf header n s delta)))"

text \<open>A message takes at least 15 bytes, so that one step for each byte is enough.\<close>

definition source_on_aggregate :: "'w env \<Rightarrow> vhost_config \<Rightarrow> common_msg \<Rightarrow> ('w, unit) so_prog" where
  "source_on_aggregate env cf msg =
     bindP (liftR (bindR (payload_view (cm_payload msg)) buf_initialize))
     (\<lambda>s. aggregate_loop env cf (cm_header msg) (Suc (length (sb_bytes s))) s (- 1))"

section \<open>Publishing\<close>

definition source_on_source_id_changed :: "int \<Rightarrow> source \<Rightarrow> source" where
  "source_on_source_id_changed sid s =
     (if so_source_id s = sid then s
      else let s = (if so_pre_source_id s = - 1 then s\<lparr>so_pre_source_id := sid\<rparr>
                else if so_pre_source_id s \<noteq> so_source_id s then s\<lparr>so_pre_source_id := so_source_id s\<rparr>
                else s)
           in s\<lparr>so_source_id := sid, so_consumers := map (apsnd consumer_update_source_id) (so_consumers s)\<rparr>)"

definition source_can_publish :: "'w env \<Rightarrow> bool \<Rightarrow> source \<times> 'w \<Rightarrow> bool" where
  "source_can_publish env is_edge = (\<lambda>(s, w). if is_edge then ev_edge_can_publish env w else so_can_publish s)"

definition source_on_publish :: "'w env \<Rightarrow> ('w, unit) so_prog" where
  "source_on_publish env =
     bindP (so_upd (\<lambda>s. s\<lparr>so_can_publish := False\<rparr>))
     (\<lambda>_. bindP (getS (\<lambda>(s, w). ev_get_id env w))
     (\<lambda>id. bindP (so_upd (source_on_source_id_changed id))
     (\<lambda>_. bindP (on_mix mix_queue_clear)
     (\<lambda>_. bindP (so_upd (\<lambda>s. s\<lparr>so_is_monotonically_increase := True, so_last_packet_time := 0\<rparr>))
     (\<lambda>_. bindP (on_ext (ev_call env Hub_on_publish))
     (\<lambda>_. bindP (on_ext (ev_call env Handler_on_publish))
     (\<lambda>_. bindP (so_get so_source_id)
     (\<lambda>id. void (on_ext (ev_call env (Stat_on_stream_publish id)))))))))))"

definition set_die_at :: "'w env \<Rightarrow> ('w, unit) so_prog" where
  "set_die_at env = updP (\<lambda>(s, w). (s\<lparr>so_die_at := ev_now env w\<rparr>, w))"

definition source_on_unpublish :: "'w env \<Rightarrow> ('w, unit) so_prog" where
  "source_on_unpublish env = bindP (so_get so_can_publish)
     (\<lambda>can_publish. if can_publish then returnP ()
        else bindP (void (on_ext (ev_call env Hub_on_unpublish)))
          (\<lambda>_. bindP (on_gop gop_cache_clear)
          (\<lambda>_. bindP (so_upd (\<lambda>s. s\<lparr>so_can_publish := True, so_source_id := - 1\<rparr>))
          (\<lambda>_. bindP (void (on_ext (ev_call env Stat_on_stream_close)))
          (\<lambda>_. bindP (void (on_ext (ev_call env Handler_on_unpublish)))
          (\<lambda>_. bindP (so_get (\<lambda>s. so_consumers s = []))
          (\<lambda>no_consumer. if no_consumer then set_die_at env else returnP ())))))))"

definition SRS_SOURCE_CLEANUP :: "64 word" where "SRS_SOURCE_CLEANUP = 30000"

definition source_expired :: "'w env \<Rightarrow> source \<times> 'w \<Rightarrow> bool" where
  "source_expired env = (\<lambda>(s, w).
     if so_die_at s = - 1 then False
     else if \<not> so_can_publish s \<or> \<not> ev_edge_can_publish env w then False
     else if so_consumers s \<noteq> [] then False
     else sint (ev_now env w) > sint (so_die_at s + SRS_SOURCE_CLEANUP))"

section \<open>Players\<close>

definition on_consumer :: "nat \<Rightarrow> 'a co_prog \<Rightarrow> ('w, 'a) so_prog" where
  "on_consumer i m = on_part (\<lambda>(s, w). the (map_of (so_consumers s) i))
     (\<lambda>c (s, w). (s\<lparr>so_consumers := map (\<lambda>(j, d). (j, if j = i then c else d)) (so_consumers s)\<rparr>, w)) m"

text \<open>
  The result is the new consumer; the code gives its pointer to the caller before it fills it.
\<close>

definition source_create_consumer :: "'w env \<Rightarrow> vhost_config \<Rightarrow> bool \<Rightarrow> bool \<Rightarrow> bool \<Rightarrow> ('w, nat) so_prog" where
  "source_create_consumer env cf ds dm dg =
     bindP (so_get so_next)
     (\<lambda>i. bindP (so_upd (\<lambda>s. s\<lparr>so_next := Suc i,
          so_consumers := so_consumers s @ [(i, consumer_set_queue_size (cf_queue_length_ms cf) consumer_new)]\<rparr>))
     (\<lambda>_. bindP (so_get (\<lambda>s. (so_atc s, so_gop_cache s)))
     (\<lambda>(atc, gop). bindP (if atc \<and> \<not> gop_cache_empty gop
         then on_meta (updP (\<lambda>c. let t = gop_cache_start_time gop in
           \<lparr>mc_meta = retime t (mc_meta c), mc_video = retime t (mc_video c), mc_audio = retime t (mc_audio c)\<rparr>))
         else returnP ())
     (\<lambda>_. bindP (so_get (\<lambda>s. (so_meta s, so_jitter_algorithm s)))
     (\<lambda>(meta, ag). bindP (on_consumer i (meta_cache_dumps meta atc ag dm ds))
     (\<lambda>_. bindP (if dg then on_consumer i (gop_cache_dump gop atc ag) else returnP ())
     (\<lambda>_. bindP (if cf_is_edge cf then on_ext (ev_call env PlayEdge_on_client_play) else returnP ())
     (\<lambda>_. returnP i))))))))"

definition source_on_consumer_destroy :: "'w env \<Rightarrow> nat \<Rightarrow> ('w, unit) so_prog" where
  "source_on_consumer_destroy env i =
     bindP (so_upd (\<lambda>s. s\<lparr>so_consumers := filter (\<lambda>(j, _). j \<noteq> i) (so_consumers s)\<rparr>))
     (\<lambda>_. bindP (so_get (\<lambda>s. so_consumers s = []))
     (\<lambda>none. if none then bindP (void (on_ext (ev_call env PlayEdge_on_all_client_stop))) (\<lambda>_. set_die_at env)
        else returnP ()))"

text \<open>The destructor of a consumer: it leaves the source, then its queue is freed.\<close>

definition source_free_consumer :: "'w env \<Rightarrow> nat \<Rightarrow> ('w, unit) so_prog" where
  "source_free_consumer env i = bindP (so_get (\<lambda>s. map_of (so_consumers s) i))
     (\<lambda>co. case co of
        None \<Rightarrow> raiseP UNDEFINED_BEHAVIOUR
      | Some c \<Rightarrow> bindP (source_on_consumer_destroy env i)
          (\<lambda>_. on_part (\<lambda>_. c) (\<lambda>_ x. x) consumer_destroy))"

text \<open>A player takes its messages.\<close>

definition source_consumer_dump :: "nat \<Rightarrow> int \<Rightarrow> int \<Rightarrow> ('w, int \<times> shared_msg list) so_prog" where
  "source_consumer_dump i max0 n0 = bindP (so_get (\<lambda>s. map_of (so_consumers s) i))
     (\<lambda>co. case co of
        None \<Rightarrow> raiseP UNDEFINED_BEHAVIOUR
      | Some _ \<Rightarrow> on_consumer i (consumer_dump_packets max0 n0))"

definition source_consumer_pause :: "nat \<Rightarrow> bool \<Rightarrow> ('w, unit) so_prog" where
  "source_consumer_pause i is_pause = bindP (so_get (\<lambda>s. map_of (so_consumers s) i))
     (\<lambda>co. case co of
        None \<Rightarrow> raiseP UNDEFINED_BEHAVIOUR
      | Some _ \<Rightarrow> on_consumer i (updP (consumer_on_play_client_pause is_pause)))"

section \<open>Configuration\<close>

definition source_set_cache :: "bool \<Rightarrow> ('w, unit) so_prog" where
  "source_set_cache enabled = on_gop (gop_cache_set enabled)"

definition source_jitter :: "source \<Rightarrow> jitter_algorithm" where
  "source_jitter s = so_jitter_algorithm s"

text \<open>
  A new source is initialized once, with the server as its handler; so the two assertions of the code, that there is a
  handler and not yet a request, hold and are left out.
\<close>

definition source_initialize :: "'w env \<Rightarrow> vhost_config \<Rightarrow> ('w, unit) so_prog" where
  "source_initialize env cf =
     bindP (so_upd (\<lambda>s. s\<lparr>so_atc := cf_atc cf\<rparr>))
     (\<lambda>_. bindP (on_ext (ev_call env Hub_initialize))
     (\<lambda>_. bindP (on_ext (ev_call env PlayEdge_initialize))
     (\<lambda>_. bindP (on_ext (ev_call env PublishEdge_initialize))
     (\<lambda>_. bindP (void (on_ext (ev_call env (PublishEdge_set_queue_size (cf_queue_length_ms cf)))))
     (\<lambda>_. so_upd (\<lambda>s. s\<lparr>so_jitter_algorithm := cf_time_jitter cf, so_mix_correct := cf_mix_correct cf\<rparr>))))))"

definition source_on_reload_vhost_play :: "vhost_config \<Rightarrow> string \<Rightarrow> ('w, unit) so_prog" where
  "source_on_reload_vhost_play cf vhost = bindP (so_get id)
     (\<lambda>s. if so_vhost s \<noteq> vhost then returnP ()
        else bindP (so_upd (\<lambda>s. s\<lparr>so_jitter_algorithm := cf_time_jitter cf\<rparr>))
          (\<lambda>_. bindP (if cf_mix_correct cf \<noteq> so_mix_correct s then on_mix mix_queue_clear else returnP ())
          (\<lambda>_. bindP (so_upd (\<lambda>s. s\<lparr>so_mix_correct := cf_mix_correct cf\<rparr>))
          (\<lambda>_. bindP (if cf_atc cf \<noteq> so_atc s then on_gop gop_cache_clear else returnP ())
          (\<lambda>_. bindP (so_upd (\<lambda>s. s\<lparr>so_atc := cf_atc cf\<rparr>))
          (\<lambda>_. bindP (if cf_gop_cache cf \<noteq> gop_cache_enabled (so_gop_cache s)
              then on_gop (gop_cache_set (cf_gop_cache cf)) else returnP ())
          (\<lambda>_. so_upd (\<lambda>s. s\<lparr>so_consumers :=
               map (apsnd (consumer_set_queue_size (cf_queue_length_ms cf))) (so_consumers s)\<rparr>))))))))"

definition source_dispose :: "'w env \<Rightarrow> ('w, unit) so_prog" where
  "source_dispose env = bindP (void (on_ext (ev_call env Hub_dispose)))
     (\<lambda>_. bindP (on_meta meta_cache_dispose) (\<lambda>_. on_gop gop_cache_dispose))"

definition source_cycle :: "'w env \<Rightarrow> ('w, unit) so_prog" where
  "source_cycle env = on_ext (ev_call env Hub_cycle)"

definition source_on_edge_start_publish :: "'w env \<Rightarrow> ('w, unit) so_prog" where
  "source_on_edge_start_publish env = on_ext (ev_call env PublishEdge_on_client_publish)"

definition source_on_edge_proxy_publish :: "'w env \<Rightarrow> common_msg \<Rightarrow> ('w, unit) so_prog" where
  "source_on_edge_proxy_publish env msg = on_ext (ev_call env (PublishEdge_on_proxy_publish msg))"

definition source_on_edge_proxy_unpublish :: "'w env \<Rightarrow> ('w, unit) so_prog" where
  "source_on_edge_proxy_unpublish env = void (on_ext (ev_call env PublishEdge_on_proxy_unpublish))"

end
