(* ===== verification/Srs_Player.thy ===== *)
theory Srs_Player
  imports Srs_Gop_Cache
begin

text \<open>
  What a player sees. A consumer holds shared messages; here it is abstracted to the frames
  that wait for the player (the notice of a new source id is left out), and copying a message to
  the consumer becomes a function on them.
\<close>

section \<open>Players\<close>

record player =
  pl_jitter :: jitter
  pl_paused :: bool
  pl_size :: int
  pl_start :: "64 word"
  pl_end :: "64 word"
  pl_frames :: "frame list"

definition player_of :: "sp_heap \<Rightarrow> consumer \<Rightarrow> player" where
  "player_of h c = \<lparr>pl_jitter = co_jitter c, pl_paused = co_paused c,
     pl_size = mq_queue_size_ms (co_queue c),
     pl_start = mq_av_start_time (co_queue c), pl_end = mq_av_end_time (co_queue c),
     pl_frames = map (frame_in h) (mq_list (co_queue c))\<rparr>"

text \<open>A player that has just joined, with a queue of \<open>ms\<close> milliseconds.\<close>

definition player_new :: "int \<Rightarrow> player" where
  "player_new ms = \<lparr>pl_jitter = jitter_new, pl_paused = False,
     pl_size = ms, pl_start = - 1, pl_end = - 1, pl_frames = []\<rparr>"

abbreviation fr_av :: "frame \<Rightarrow> bool" where "fr_av f \<equiv> fr_audio f \<or> fr_video f"
abbreviation fr_at :: "64 word \<Rightarrow> frame \<Rightarrow> frame" where "fr_at t f \<equiv> (fst f, t, fr_bytes f)"

definition fr_vsh :: "frame \<Rightarrow> bool" where "fr_vsh f \<longleftrightarrow> fr_video f \<and> on_bytes SrsFlvVideo_sh f"
definition fr_ash :: "frame \<Rightarrow> bool" where "fr_ash f \<longleftrightarrow> fr_audio f \<and> on_bytes SrsFlvAudio_sh f"

text \<open>What is left of a queue that overflows: the last headers, at a new time.\<close>

definition fr_headers :: "64 word \<Rightarrow> frame list \<Rightarrow> frame list" where
  "fr_headers t fs = map (fr_at t) ((case last_of fr_vsh fs None of None \<Rightarrow> [] | Some f \<Rightarrow> [f])
     @ (case last_of fr_ash fs None of None \<Rightarrow> [] | Some f \<Rightarrow> [f]))"

text \<open>
  A frame for a player: its time is corrected unless the stream has absolute times, it is
  queued, and when the queue now lasts too long, only the headers are kept.
\<close>

definition player_stamp :: "bool \<Rightarrow> jitter_algorithm \<Rightarrow> frame \<Rightarrow> jitter \<Rightarrow> 64 word \<times> jitter" where
  "player_stamp atc ag f j = (if atc then (fr_time f, j) else jitter_stamp ag (fr_av f) (fr_time f) j)"

definition player_receive :: "bool \<Rightarrow> jitter_algorithm \<Rightarrow> frame \<Rightarrow> player \<Rightarrow> player" where
  "player_receive atc ag f p = (case player_stamp atc ag f (pl_jitter p) of (t, j) \<Rightarrow>
     let start = (if fr_av f \<and> pl_start p = - 1 then t else pl_start p);
         stop = (if fr_av f then t else pl_end p);
         fs = pl_frames p @ [fr_at t f]
     in if pl_size p < sint (stop - start)
        then p\<lparr>pl_jitter := j, pl_start := stop, pl_end := stop, pl_frames := fr_headers stop fs\<rparr>
        else p\<lparr>pl_jitter := j, pl_start := start, pl_end := stop, pl_frames := fs\<rparr>)"

lemma player_new_of: "player_of h (consumer_set_queue_size ms consumer_new) = player_new ms"
  by (simp add: player_of_def player_new_def consumer_set_queue_size_def consumer_new_def mq_new_def
      mq_set_queue_size_def fast.content_empty)

section \<open>A consumer does what its player sees\<close>

lemma player_of_same: "same_types M h h' \<Longrightarrow> mset (mq_list (co_queue c)) \<subseteq># M \<Longrightarrow> player_of h' c = player_of h c"
  by (simp add: player_of_def frames_same)

lemma frame_at [simp]: "frame_in h (m\<lparr>sm_timestamp := t\<rparr>) = fr_at t (frame_in h m)"
  by (simp add: frame_in_def sm_type_def payload_bytes_def)

lemma whole_at [simp]: "whole (m\<lparr>sm_timestamp := t\<rparr>) = whole m"
  by (simp add: whole_def split: option.split)

lemma header_frames:
  assumes "owned h M" and "m \<in># M"
  shows "vsh_in h m = fr_vsh (frame_in h m)" and "ash_in h m = fr_ash (frame_in h m)"
  using kind_frame [OF assms] on_bytes_frames(3,5) [OF owned_whole [OF assms], of h]
  by (simp_all add: vsh_in_def ash_in_def fr_vsh_def fr_ash_def)

lemma last_of_map: "last_of P (map g xs) None = map_option g (last_of (P \<circ> g) xs None)"
  by (simp add: last_of_def filter_map last_map)

lemma frames_headers_at:
  assumes "\<And>m. m \<in> set ms \<Longrightarrow> vsh_in h m = fr_vsh (frame_in h m) \<and> ash_in h m = fr_ash (frame_in h m)"
  shows "map (frame_in h) (headers_at h t ms) = fr_headers t (map (frame_in h) ms)"
proof -
  have "last_of (vsh_in h) ms None = last_of (fr_vsh \<circ> frame_in h) ms None"
    "last_of (ash_in h) ms None = last_of (fr_ash \<circ> frame_in h) ms None"
    by (rule last_of_cong; simp add: assms)+
  then show ?thesis
    by (simp add: headers_at_def fr_headers_def last_of_map split: option.split)
qed

lemma consumer_enqueue_player:
  assumes "co_ok (c, h) M" and m: "m \<in># M"
  obtains c' h' where "consumer_enqueue m atc ag (c, h) = (Inr (), (c', h'))" "co_ok (c', h') M"
    "same_types M h h'" "player_of h' c' = player_receive atc ag (frame_in h m) (player_of h c)"
proof -
  obtain t j where st: "co_stamp h atc ag m (co_jitter c) = (t, j)" by fastforce
  let ?m = "m\<lparr>sm_timestamp := t\<rparr>" and ?L = "mq_list (co_queue c)"
  from assms(1) have ow: "owned h (mset ?L + M)" by (simp add: co_ok_def mq_ok_def)
  have mk: "is_video_in h m = fr_video (frame_in h m)" "is_audio_in h m = fr_audio (frame_in h m)"
    by (rule kind_frame [OF ow], simp add: m)+
  obtain c' h' where c: "consumer_enqueue m atc ag (c, h) = (Inr (), (c', h'))" "co_ok (c', h') M"
    "same_types (mset (mq_list (co_queue c')) + M) h h'" "co_jitter c' = j"
    "co_paused c' = co_paused c" "co_should_update_source_id c' = co_should_update_source_id c"
    "mq_queue_size_ms (co_queue c') = mq_queue_size_ms (co_queue c)"
    "mq_list (co_queue c') = (if overflows (noted h ?m (co_queue c))
       then headers_at h (mq_av_end_time (noted h ?m (co_queue c))) (?L @ [?m]) else ?L @ [?m])"
    "mq_av_end_time (co_queue c') = mq_av_end_time (noted h ?m (co_queue c))"
    "mq_av_start_time (co_queue c') = (if overflows (noted h ?m (co_queue c))
       then mq_av_end_time (noted h ?m (co_queue c)) else mq_av_start_time (noted h ?m (co_queue c)))"
    by (rule consumer_enqueue_spec [OF assms refl refl, of atc ag, unfolded st fst_conv snd_conv])
  have same: "same_types M h h'" by (rule same_types_mono [OF c(3)]) simp
  have kinds: "vsh_in h x = fr_vsh (frame_in h x) \<and> ash_in h x = fr_ash (frame_in h x)" if "x \<in> set (?L @ [?m])" for x
  proof (cases "x = ?m")
    case True
    have "whole m" by (rule owned_whole [OF ow]) (simp add: m)
    with True mk show ?thesis
      using on_bytes_frames(3,5) [of ?m h] by (simp add: vsh_in_def ash_in_def fr_vsh_def fr_ash_def sm_type_def)
  next
    case False
    with that have "x \<in># mset ?L + M" by simp
    then show ?thesis using header_frames [OF ow] by blast
  qed
  have ty: "sm_type h ?m = sm_type h m" by (simp add: sm_type_def)
  have frames: "map (frame_in h') (mq_list (co_queue c')) = map (frame_in h) (mq_list (co_queue c'))"
    by (rule frames_same [OF c(3)]) simp
  have noted: "mq_av_start_time (noted h ?m (co_queue c))
      = (if fr_av (frame_in h m) \<and> mq_av_start_time (co_queue c) = - 1 then t else mq_av_start_time (co_queue c))"
    "mq_av_end_time (noted h ?m (co_queue c)) = (if fr_av (frame_in h m) then t else mq_av_end_time (co_queue c))"
    by (simp_all add: noted_def mq_note_time_def Let_def ty mk)
  have ft: "fr_time (frame_in h m) = sm_timestamp m" by (simp add: frame_in_def)
  have stamp: "player_stamp atc ag (frame_in h m) (co_jitter c) = (t, j)"
    using st by (simp add: co_stamp_def player_stamp_def mk ft split: if_splits)
  let ?q = "noted h ?m (co_queue c)" and ?fs = "map (frame_in h) ?L @ [fr_at t (frame_in h m)]"
  have "map (frame_in h) (headers_at h e (?L @ [?m])) = fr_headers e ?fs" for e
    using frames_headers_at [where t = e and ms = "?L @ [?m]"] kinds by simp
  then have fr: "map (frame_in h') (mq_list (co_queue c'))
      = (if overflows ?q then fr_headers (mq_av_end_time ?q) ?fs else ?fs)"
    by (simp only: frames) (simp add: c(8))
  have "player_of h' c' = player_receive atc ag (frame_in h m) (player_of h c)"
    by (simp add: player_of_def player_receive_def stamp fr c(4-7,9,10) noted overflows_def Let_def)
  with c(1,2) same show thesis by (rule that)
qed

lemma enqueue_all_player:
  assumes "co_ok (c, h) M" and "set ms \<subseteq> set_mset M"
  shows "\<exists>c' h'. enqueue_all ms atc ag (c, h) = (Inr (), (c', h')) \<and> co_ok (c', h') M \<and> same_types M h h'
    \<and> player_of h' c' = fold (player_receive atc ag) (map (frame_in h) ms) (player_of h c)"
  using assms
proof (induction ms arbitrary: c h)
  case Nil
  then show ?case by (auto simp: returnP_def)
next
  case (Cons m ms)
  then have "m \<in># M" by simp
  with Cons.prems(1) obtain c1 h1 where 1: "consumer_enqueue m atc ag (c, h) = (Inr (), (c1, h1))" "co_ok (c1, h1) M"
    "same_types M h h1" "player_of h1 c1 = player_receive atc ag (frame_in h m) (player_of h c)"
    by (rule consumer_enqueue_player)
  from Cons.IH [OF 1(2)] Cons.prems(2) obtain c2 h2 where 2: "enqueue_all ms atc ag (c1, h1) = (Inr (), (c2, h2))"
    "co_ok (c2, h2) M" "same_types M h1 h2"
    "player_of h2 c2 = fold (player_receive atc ag) (map (frame_in h1) ms) (player_of h1 c1)" by auto
  have "map (frame_in h1) ms = map (frame_in h) ms"
    using frame_same [OF 1(3)] Cons.prems(2) by (intro map_cong) auto
  with 1 2 show ?case
    by (auto simp: bindP_Inr [where m = "consumer_enqueue m atc ag"] intro: same_types_trans)
qed

end
