(* ===== verification/Srs_Source_Safety.thy ===== *)
theory Srs_Source_Safety
  imports Srs_Source Srs_Player
begin

text \<open>
  The invariant of a source: every message is owned by exactly one of its queues and caches or
  by the rest of the server, and the counters are exact. Every operation keeps it.
\<close>

section \<open>The consumers\<close>

definition cs_held :: "(nat \<times> consumer) list \<Rightarrow> shared_msg multiset" where
  "cs_held cs = mset (concat (map (\<lambda>(i, c). mq_list (co_queue c)) cs))"

lemma cs_held_simps [simp]:
  "cs_held [] = {#}" "cs_held ((i, c) # cs) = mset (mq_list (co_queue c)) + cs_held cs"
  "cs_held (xs @ ys) = cs_held xs + cs_held ys"
  by (simp_all add: cs_held_def)

lemma cs_held_mem: "p \<in> set cs \<Longrightarrow> mset (mq_list (co_queue (snd p))) \<subseteq># cs_held cs"
proof (induction cs)
  case (Cons a cs)
  then show ?case by (cases a) (auto intro: subset_mset.add_increasing subset_mset.add_increasing2)
qed simp

definition co_good :: "consumer \<Rightarrow> bool" where
  "co_good c \<longleftrightarrow> fv_ok (mq_msgs (co_queue c)) \<and> 0 \<le> mq_queue_size_ms (co_queue c)"

lemma co_ok_iff: "co_ok (c, h) M \<longleftrightarrow> co_good c \<and> owned h (mset (mq_list (co_queue c)) + M)"
  by (auto simp: co_ok_def mq_ok_def co_good_def)

text \<open>What the players see.\<close>

definition players_of :: "sp_heap \<Rightarrow> (nat \<times> consumer) list \<Rightarrow> (nat \<times> player) list" where
  "players_of h cs = map (apsnd (player_of h)) cs"

lemma players_of_simps [simp]:
  "players_of h [] = []" "players_of h ((i, c) # cs) = (i, player_of h c) # players_of h cs"
  "players_of h (xs @ ys) = players_of h xs @ players_of h ys"
  by (simp_all add: players_of_def)

lemma players_of_same:
  assumes "same_types M h h'" and "cs_held cs \<subseteq># M"
  shows "players_of h' cs = players_of h cs"
  unfolding players_of_def
proof (rule map_cong [OF refl])
  fix p assume "p \<in> set cs"
  then have "mset (mq_list (co_queue (snd p))) \<subseteq># M" using cs_held_mem assms(2) subset_mset.order_trans by blast
  then show "apsnd (player_of h') p = apsnd (player_of h) p"
    by (cases p) (simp add: player_of_same [OF assms(1)])
qed

lemma enqueue_each_spec:
  assumes "owned h (cs_held cs + M)" and "\<forall>p \<in> set cs. co_good (snd p)" and "m \<in># M"
  shows "\<exists>cs' h'. enqueue_each m atc ag cs h = (Inr (), (cs', h')) \<and> owned h' (cs_held cs' + M)
    \<and> (\<forall>p \<in> set cs'. co_good (snd p)) \<and> same_types M h h' \<and> map fst cs' = map fst cs
    \<and> players_of h' cs' = map (apsnd (player_receive atc ag (frame_in h m))) (players_of h cs)"
  using assms
proof (induction cs arbitrary: h M)
  case Nil
  then show ?case by simp
next
  case (Cons p cs)
  obtain i c where p: "p = (i, c)" by (cases p)
  have "co_ok (c, h) (cs_held cs + M)" using Cons.prems p by (simp add: co_ok_iff ac_simps)
  moreover have "m \<in># cs_held cs + M" using Cons.prems(3) by simp
  ultimately obtain c1 h1 where 1: "consumer_enqueue m atc ag (c, h) = (Inr (), (c1, h1))"
    "co_ok (c1, h1) (cs_held cs + M)" "same_types (cs_held cs + M) h h1"
    "player_of h1 c1 = player_receive atc ag (frame_in h m) (player_of h c)"
    by (rule consumer_enqueue_player)
  have good: "\<forall>p \<in> set cs. co_good (snd p)" using Cons.prems(2) by simp
  have m1: "m \<in># mset (mq_list (co_queue c1)) + M" using Cons.prems(3) by simp
  have ow1: "owned h1 (cs_held cs + (mset (mq_list (co_queue c1)) + M))"
    using 1(2) by (simp add: co_ok_iff ac_simps)
  obtain cs' h' where 2: "enqueue_each m atc ag cs h1 = (Inr (), (cs', h'))"
    "owned h' (cs_held cs' + (mset (mq_list (co_queue c1)) + M))" "\<forall>p \<in> set cs'. co_good (snd p)"
    "same_types (mset (mq_list (co_queue c1)) + M) h1 h'" "map fst cs' = map fst cs"
    "players_of h' cs' = map (apsnd (player_receive atc ag (frame_in h1 m))) (players_of h1 cs)"
    using Cons.IH [OF ow1 good m1] by blast
  have "player_of h' c1 = player_of h1 c1" by (rule player_of_same [OF 2(4)]) simp
  moreover have "players_of h1 cs = players_of h cs" by (rule players_of_same [OF 1(3)]) simp
  moreover have "frame_in h1 m = frame_in h m" by (rule frame_same [OF 1(3)]) (simp add: Cons.prems(3))
  moreover have "same_types M h h'"
    using same_types_mono [OF 1(3), of M] same_types_mono [OF 2(4), of M] by (auto intro: same_types_trans)
  moreover have "owned h' (cs_held ((i, c1) # cs') + M)" using 2(2) by (simp add: ac_simps)
  moreover have "co_good c1" using 1(2) by (simp add: co_ok_iff)
  ultimately show ?case using 1(1,4) 2(1,3,5,6) p by auto
qed

section \<open>The invariant\<close>

definition gop_held :: "source \<Rightarrow> shared_msg multiset" where
  "gop_held s = mset (gc_msgs (so_gop_cache s))"

definition mix_held :: "source \<Rightarrow> shared_msg multiset" where
  "mix_held s = mset (map snd (mx_msgs (so_mix_queue s)))"

definition so_held :: "source \<Rightarrow> shared_msg multiset" where
  "so_held s = cs_held (so_consumers s) + gop_held s + mix_held s + mc_held (so_meta s)"

definition players_ok :: "source \<Rightarrow> bool" where
  "players_ok s \<longleftrightarrow> (\<forall>p \<in> set (so_consumers s). co_good (snd p)) \<and> distinct (map fst (so_consumers s))
     \<and> (\<forall>p \<in> set (so_consumers s). fst p < so_next s)"

text \<open>
  \<open>own w\<close> are the messages of the rest of the server, \<open>M\<close> those in flight. The counters of the
  group cache and of the mix queue are part of \<^const>\<open>gc_ok\<close> and \<^const>\<open>mx_ok\<close>.
\<close>

definition so_ok :: "('w \<Rightarrow> shared_msg multiset) \<Rightarrow> (source \<times> 'w) \<times> sp_heap \<Rightarrow> shared_msg multiset \<Rightarrow> bool" where
  "so_ok own st M \<longleftrightarrow> (case st of ((s, w), h) \<Rightarrow> owned h (own w + (so_held s + M)) \<and> players_ok s
     \<and> gc_ok (so_gop_cache s, h) (own w + (cs_held (so_consumers s) + mix_held s + mc_held (so_meta s) + M))
     \<and> mx_ok 10 (so_mix_queue s, h) (own w + (cs_held (so_consumers s) + gop_held s + mc_held (so_meta s) + M)))"

lemma so_okI:
  assumes "owned h (own w + (so_held s + M))" and "players_ok s"
    and "gc_ok (so_gop_cache s, hg) G" and "same_types (gop_held s) hg h"
    and "mx_ok 10 (so_mix_queue s, hm) X" and "same_types (mix_held s) hm h"
  shows "so_ok own ((s, w), h) M"
proof -
  have "owned h (gop_held s + (own w + (cs_held (so_consumers s) + mix_held s + mc_held (so_meta s) + M)))"
    "owned h (mix_held s + (own w + (cs_held (so_consumers s) + gop_held s + mc_held (so_meta s) + M)))"
    using assms(1) by (simp_all add: so_held_def ac_simps)
  then show ?thesis
    using assms gc_ok_same(1) [OF assms(3), of h] mx_ok_same(1) [OF assms(5), of h]
    by (simp add: so_ok_def gop_held_def mix_held_def)
qed

lemma so_okD:
  assumes "so_ok own ((s, w), h) M"
  shows "owned h (own w + (so_held s + M))" and "players_ok s"
    and "gc_ok (so_gop_cache s, h) (own w + (cs_held (so_consumers s) + mix_held s + mc_held (so_meta s) + M))"
    and "mx_ok 10 (so_mix_queue s, h) (own w + (cs_held (so_consumers s) + gop_held s + mc_held (so_meta s) + M))"
    and "owned h (cs_held (so_consumers s) + (own w + (gop_held s + mix_held s + mc_held (so_meta s) + M)))"
    and "owned h (mc_held (so_meta s) + (own w + (cs_held (so_consumers s) + gop_held s + mix_held s + M)))"
    and "owned h (own w + (mc_held (so_meta s) + (cs_held (so_consumers s) + gop_held s + mix_held s + M)))"
  using assms by (simp_all add: so_ok_def so_held_def ac_simps)

lemma so_prog_simps [prog_simps]:
  "bindP (so_get g) f ((s, w), h) = f (g s) ((s, w), h)"
  "bindP (so_upd u) k ((s, w), h) = k () ((u s, w), h)" "so_upd u ((s, w), h) = (Inr (), ((u s, w), h))"
  "on_gop m1 ((s, w), h) = (case m1 (so_gop_cache s, h) of (r, (g', h')) \<Rightarrow> (r, ((s\<lparr>so_gop_cache := g'\<rparr>, w), h')))"
  "on_mix m2 ((s, w), h) = (case m2 (so_mix_queue s, h) of (r2, (q', h')) \<Rightarrow> (r2, ((s\<lparr>so_mix_queue := q'\<rparr>, w), h')))"
  "on_meta m3 ((s, w), h) = (case m3 (so_meta s, h) of (r3, (c', h')) \<Rightarrow> (r3, ((s\<lparr>so_meta := c'\<rparr>, w), h')))"
  "on_meta_w m4 ((s, w), h) = (case m4 ((so_meta s, w), h) of (r4, ((c', w'), h')) \<Rightarrow> (r4, ((s\<lparr>so_meta := c'\<rparr>, w'), h')))"
  "on_ext m5 ((s, w), h) = (case m5 (w, h) of (r5, (w', h')) \<Rightarrow> (r5, ((s, w'), h')))"
  by (auto simp: so_get_def so_upd_def on_gop_def on_mix_def on_meta_def on_meta_w_def on_ext_def prog_simps
      split: prod.splits)

text \<open>Changing one part.\<close>

lemma so_ok_heap:
  assumes "so_ok own ((s, w), h) M" and "owned h' (own w' + (so_held s + N))" and "same_types (so_held s) h h'"
  shows "so_ok own ((s, w'), h') N"
proof (rule so_okI [where hg = h and hm = h])
  show "owned h' (own w' + (so_held s + N))" by (rule assms(2))
  show "players_ok s" by (rule so_okD(2) [OF assms(1)])
  show "gc_ok (so_gop_cache s, h) (own w + (cs_held (so_consumers s) + mix_held s + mc_held (so_meta s) + M))"
    by (rule so_okD(3) [OF assms(1)])
  show "mx_ok 10 (so_mix_queue s, h) (own w + (cs_held (so_consumers s) + gop_held s + mc_held (so_meta s) + M))"
    by (rule so_okD(4) [OF assms(1)])
  show "same_types (gop_held s) h h'" "same_types (mix_held s) h h'"
    by (rule same_types_mono [OF assms(3)], simp add: so_held_def)+
qed

lemma so_ok_gop:
  assumes "so_ok own ((s, w), h) M"
    and "gc_ok (g, h') (own w + (cs_held (so_consumers s) + mix_held s + mc_held (so_meta s) + N))"
    and "same_types (own w + (cs_held (so_consumers s) + mix_held s + mc_held (so_meta s) + M)) h h'"
  shows "so_ok own ((s\<lparr>so_gop_cache := g\<rparr>, w), h') N"
proof (rule so_okI [where hg = h' and hm = h])
  show "owned h' (own w + (so_held (s\<lparr>so_gop_cache := g\<rparr>) + N))"
    using assms(2) by (simp add: gc_ok_def so_held_def gop_held_def mix_held_def ac_simps)
  show "players_ok (s\<lparr>so_gop_cache := g\<rparr>)" using so_okD(2) [OF assms(1)] by (simp add: players_ok_def)
  show "gc_ok (so_gop_cache (s\<lparr>so_gop_cache := g\<rparr>), h')
      (own w + (cs_held (so_consumers s) + mix_held s + mc_held (so_meta s) + N))" using assms(2) by simp
  show "mx_ok 10 (so_mix_queue (s\<lparr>so_gop_cache := g\<rparr>), h)
      (own w + (cs_held (so_consumers s) + gop_held s + mc_held (so_meta s) + M))" using so_okD(4) [OF assms(1)] by simp
  show "same_types (mix_held (s\<lparr>so_gop_cache := g\<rparr>)) h h'"
    by (rule same_types_mono [OF assms(3)]) (simp add: mix_held_def ac_simps subset_mset.add_increasing)
qed simp

lemma so_ok_mix:
  assumes "so_ok own ((s, w), h) M"
    and "mx_ok 10 (q, h') (own w + (cs_held (so_consumers s) + gop_held s + mc_held (so_meta s) + N))"
    and "same_types (own w + (cs_held (so_consumers s) + gop_held s + mc_held (so_meta s) + M)) h h'"
  shows "so_ok own ((s\<lparr>so_mix_queue := q\<rparr>, w), h') N"
proof (rule so_okI [where hg = h and hm = h'])
  show "owned h' (own w + (so_held (s\<lparr>so_mix_queue := q\<rparr>) + N))"
    using assms(2) by (simp add: mx_ok_def so_held_def gop_held_def mix_held_def ac_simps)
  show "players_ok (s\<lparr>so_mix_queue := q\<rparr>)" using so_okD(2) [OF assms(1)] by (simp add: players_ok_def)
  show "mx_ok 10 (so_mix_queue (s\<lparr>so_mix_queue := q\<rparr>), h')
      (own w + (cs_held (so_consumers s) + gop_held s + mc_held (so_meta s) + N))" using assms(2) by simp
  show "gc_ok (so_gop_cache (s\<lparr>so_mix_queue := q\<rparr>), h)
      (own w + (cs_held (so_consumers s) + mix_held s + mc_held (so_meta s) + M))" using so_okD(3) [OF assms(1)] by simp
  show "same_types (gop_held (s\<lparr>so_mix_queue := q\<rparr>)) h h'"
    by (rule same_types_mono [OF assms(3)]) (simp add: gop_held_def ac_simps subset_mset.add_increasing)
qed simp

lemma so_ok_meta:
  assumes "so_ok own ((s, w), h) M"
    and "owned h' (own w' + (mc_held c + (cs_held (so_consumers s) + gop_held s + mix_held s + N)))"
    and "same_types (cs_held (so_consumers s) + gop_held s + mix_held s) h h'"
  shows "so_ok own ((s\<lparr>so_meta := c\<rparr>, w'), h') N"
proof (rule so_okI [where hg = h and hm = h])
  show "owned h' (own w' + (so_held (s\<lparr>so_meta := c\<rparr>) + N))"
    using assms(2) by (simp add: so_held_def gop_held_def mix_held_def ac_simps)
  show "players_ok (s\<lparr>so_meta := c\<rparr>)" using so_okD(2) [OF assms(1)] by (simp add: players_ok_def)
  show "gc_ok (so_gop_cache (s\<lparr>so_meta := c\<rparr>), h)
      (own w + (cs_held (so_consumers s) + mix_held s + mc_held (so_meta s) + M))" using so_okD(3) [OF assms(1)] by simp
  show "mx_ok 10 (so_mix_queue (s\<lparr>so_meta := c\<rparr>), h)
      (own w + (cs_held (so_consumers s) + gop_held s + mc_held (so_meta s) + M))" using so_okD(4) [OF assms(1)] by simp
  show "same_types (gop_held (s\<lparr>so_meta := c\<rparr>)) h h'" "same_types (mix_held (s\<lparr>so_meta := c\<rparr>)) h h'"
    by (rule same_types_mono [OF assms(3)], simp add: gop_held_def mix_held_def ac_simps subset_mset.add_increasing)+
qed

lemma so_ok_consumers:
  assumes "so_ok own ((s, w), h) M"
    and "owned h' (cs_held cs + (own w + (gop_held s + mix_held s + mc_held (so_meta s) + N)))"
    and "same_types (gop_held s + mix_held s) h h'" and "players_ok (s\<lparr>so_consumers := cs, so_next := n\<rparr>)"
  shows "so_ok own ((s\<lparr>so_consumers := cs, so_next := n\<rparr>, w), h') N"
proof (rule so_okI [where hg = h and hm = h])
  let ?s = "s\<lparr>so_consumers := cs, so_next := n\<rparr>"
  show "owned h' (own w + (so_held ?s + N))"
    using assms(2) by (simp add: so_held_def gop_held_def mix_held_def ac_simps)
  show "players_ok ?s" by (rule assms(4))
  show "gc_ok (so_gop_cache ?s, h)
      (own w + (cs_held (so_consumers s) + mix_held s + mc_held (so_meta s) + M))" using so_okD(3) [OF assms(1)] by simp
  show "mx_ok 10 (so_mix_queue ?s, h)
      (own w + (cs_held (so_consumers s) + gop_held s + mc_held (so_meta s) + M))" using so_okD(4) [OF assms(1)] by simp
  show "same_types (gop_held ?s) h h'" "same_types (mix_held ?s) h h'"
    by (rule same_types_mono [OF assms(3)], simp add: gop_held_def mix_held_def)+
qed

section \<open>The steps keep it\<close>

abbreviation safe :: "('w \<Rightarrow> shared_msg multiset) \<Rightarrow> (srs_error \<Rightarrow> bool) \<Rightarrow> shared_msg multiset \<Rightarrow>
    'a res \<times> (source \<times> 'w) \<times> sp_heap \<Rightarrow> bool" where
  "safe own E M r \<equiv> keeps (\<lambda>st. so_ok own st M) E (\<lambda>_ _. True) r"

lemma src_bind:
  assumes "safe own E M (m st)" and "\<And>x st'. so_ok own st' M \<Longrightarrow> safe own E M (f x st')"
  shows "safe own E M (bindP m f st)"
  by (rule keeps_bind [where Q = "\<lambda>_ _. True"]) (use assms in blast)+

lemma safe_Inr: "so_ok own st M \<Longrightarrow> safe own E M (Inr x, st)"
  by (simp add: keeps_def)

lemma src_return: "so_ok own st M \<Longrightarrow> safe own E M (returnP x st)"
  by (simp add: keeps_def returnP_def)

lemma safe_get: "so_ok own ((s, w), h) M \<Longrightarrow> safe own E M (f (g s) ((s, w), h)) \<Longrightarrow> safe own E M (bindP (so_get g) f ((s, w), h))"
  by (simp add: prog_simps)

lemma safe_ext:
  assumes "server_law (ev_call env) own E" and "so_ok own st M" and "\<And>s w h. st = ((s, w), h) \<Longrightarrow> ext_ok c (so_held s + M)"
  shows "safe own E M (on_ext (ev_call env c) st)"
proof -
  obtain s w h where st: "st = ((s, w), h)" by (cases st) auto
  from assms(2) have "owned h (own w + (so_held s + M))" unfolding st by (rule so_okD)
  with assms(1) obtain r w' h' where r: "ev_call env c (w, h) = (r, (w', h'))" "owned h' (own w' + (so_held s + M))"
    "same_types (so_held s + M) h h'" "case r of Inl e \<Rightarrow> E e | Inr _ \<Rightarrow> True"
    using assms(3) [OF st] by (rule server_lawD)
  have "same_types (so_held s) h h'" by (rule same_types_mono [OF r(3)]) simp
  from so_ok_heap [OF assms(2) [unfolded st] r(2) this] r(1,4) show ?thesis
    by (simp add: st prog_simps keeps_def)
qed

lemma safe_void:
  assumes "safe own E M (m st)"
  shows "safe own E M (void m st)"
  using assms by (simp add: void_def keeps_def split: sum.splits)

lemma copy_to_consumers_spec:
  assumes "so_ok own ((s, w), h) M" and "m \<in># own w + (gop_held s + mix_held s + mc_held (so_meta s) + M)"
  obtains cs h' where "copy_to_consumers m ((s, w), h) = (Inr (), ((s\<lparr>so_consumers := cs\<rparr>, w), h'))"
    "so_ok own ((s\<lparr>so_consumers := cs\<rparr>, w), h') M"
    "same_types (own w + (gop_held s + mix_held s + mc_held (so_meta s) + M)) h h'"
    "map fst cs = map fst (so_consumers s)"
    "players_of h' cs = map (apsnd (player_receive (so_atc s) (so_jitter_algorithm s) (frame_in h m))) (players_of h (so_consumers s))"
proof -
  let ?N = "own w + (gop_held s + mix_held s + mc_held (so_meta s) + M)"
  have p: "players_ok s" by (rule so_okD [OF assms(1)])
  then have "\<forall>p \<in> set (so_consumers s). co_good (snd p)" by (simp add: players_ok_def del: split_paired_All)
  from enqueue_each_spec [OF so_okD(5) [OF assms(1)] this assms(2), of "so_atc s" "so_jitter_algorithm s"]
  obtain cs h' where e: "enqueue_each m (so_atc s) (so_jitter_algorithm s) (so_consumers s) h = (Inr (), (cs, h'))"
    "owned h' (cs_held cs + ?N)" "\<forall>p \<in> set cs. co_good (snd p)" "same_types ?N h h'" "map fst cs = map fst (so_consumers s)"
    "players_of h' cs = map (apsnd (player_receive (so_atc s) (so_jitter_algorithm s) (frame_in h m))) (players_of h (so_consumers s))"
    by blast
  have run: "copy_to_consumers m ((s, w), h) = (Inr (), ((s\<lparr>so_consumers := cs\<rparr>, w), h'))"
    by (simp add: copy_to_consumers_def prog_simps e(1))
  have ids: "\<forall>i \<in> set (map fst cs). i < so_next s" "distinct (map fst cs)"
    unfolding e(5) using p by (simp_all add: players_ok_def del: split_paired_All split_paired_Ex)
  have pl: "players_ok (s\<lparr>so_consumers := cs, so_next := so_next s\<rparr>)"
    using e(3) ids by (simp add: players_ok_def del: split_paired_All)
  have "so_ok own ((s\<lparr>so_consumers := cs, so_next := so_next s\<rparr>, w), h') M"
    by (rule so_ok_consumers [OF assms(1) e(2) same_types_mono [OF e(4)] pl]) (simp add: ac_simps subset_mset.add_increasing)
  then have "so_ok own ((s\<lparr>so_consumers := cs\<rparr>, w), h') M" by simp
  from that [OF run this e(4,5,6)] show thesis .
qed

lemma safe_copy:
  assumes "so_ok own ((s, w), h) M" and "m \<in># mc_held (so_meta s) + M"
  shows "safe own E M (copy_to_consumers m ((s, w), h))"
proof -
  have "m \<in># own w + (gop_held s + mix_held s + mc_held (so_meta s) + M)" using assms(2) by auto
  from copy_to_consumers_spec [OF assms(1) this] show ?thesis
    by (metis safe_Inr)
qed

lemma gop_cache_any:
  assumes "gc_ok (g, h) M" and "m \<in># M"
  obtains g' h' where "gop_cache_cache m (g, h) = (Inr (), (g', h'))" "gc_ok (g', h') M" "same_types M h h'"
    "gc_enable g' = gc_enable g"
    "gc_frames (g', h') = (if gc_enable g then gop_step (gc_frames (g, h)) (frame_in h m) else gc_frames (g, h))"
proof (cases "gc_enable g")
  case True
  from gop_cache_cache_spec [OF assms True] that True show thesis by metis
next
  case False
  with assms that [of g h] show thesis by (simp add: gop_cache_cache_def prog_simps)
qed

lemma source_cache_spec:
  assumes "so_ok own ((s, w), h) M" and "m \<in># M"
  obtains g h' where "on_gop (gop_cache_cache m) ((s, w), h) = (Inr (), ((s\<lparr>so_gop_cache := g\<rparr>, w), h'))"
    "so_ok own ((s\<lparr>so_gop_cache := g\<rparr>, w), h') M"
    "same_types (own w + (cs_held (so_consumers s) + mix_held s + mc_held (so_meta s) + M)) h h'"
    "gc_frames (g, h') = (if gc_enable (so_gop_cache s) then gop_step (gc_frames (so_gop_cache s, h)) (frame_in h m)
       else gc_frames (so_gop_cache s, h))"
proof -
  let ?N = "own w + (cs_held (so_consumers s) + mix_held s + mc_held (so_meta s) + M)"
  have "m \<in># ?N" using assms(2) by simp
  with so_okD(3) [OF assms(1)] obtain g h' where g: "gop_cache_cache m (so_gop_cache s, h) = (Inr (), (g, h'))"
    "gc_ok (g, h') ?N" "same_types ?N h h'"
    "gc_frames (g, h') = (if gc_enable (so_gop_cache s) then gop_step (gc_frames (so_gop_cache s, h)) (frame_in h m)
       else gc_frames (so_gop_cache s, h))"
    by (rule gop_cache_any)
  from that [OF _ so_ok_gop [OF assms(1) g(2,3)] g(3,4)] g(1) show thesis by (simp add: prog_simps)
qed

lemma safe_cache:
  assumes "so_ok own st M" and "m \<in># M"
  shows "safe own E M (on_gop (gop_cache_cache m) st)"
proof -
  obtain s w h where st: "st = ((s, w), h)" by (cases st) auto
  from source_cache_spec [OF assms [unfolded st]] show ?thesis unfolding st by (metis safe_Inr)
qed

lemma safe_update:
  assumes "server_law (ev_call env) own E" and "so_ok own st M" and "m \<in># M"
  shows "safe own E M (on_meta_w (meta_cache_update_ash (ev_call env) m) st)"
    and "msg_video_sh m \<Longrightarrow> safe own E M (on_meta_w (meta_cache_update_vsh (ev_call env) m) st)"
proof -
  obtain s w h where st: "st = ((s, w), h)" by (cases st) auto
  have m: "m \<in># cs_held (so_consumers s) + gop_held s + mix_held s + M" using assms(3) by simp
  note up = meta_cache_update_spec [OF assms(1) so_okD(7) [OF assms(2) [unfolded st]] m]
  have sub: "cs_held (so_consumers s) + gop_held s + mix_held s
      \<subseteq># A + (cs_held (so_consumers s) + gop_held s + mix_held s + M)" for A
    by (simp add: subset_mset.add_increasing)
  from up(1) obtain r w' h' where a: "meta_cache_update_ash (ev_call env) m ((so_meta s, w), h) = (r, (((so_meta s)\<lparr>mc_audio := Some m\<rparr>, w'), h'))"
    "owned h' (own w' + (mc_held ((so_meta s)\<lparr>mc_audio := Some m\<rparr>) + (cs_held (so_consumers s) + gop_held s + mix_held s + M)))"
    "same_types (mset_opt (mc_meta (so_meta s)) + mset_opt (mc_video (so_meta s)) + (cs_held (so_consumers s) + gop_held s + mix_held s + M)) h h'"
    "case r of Inl e \<Rightarrow> E e | Inr _ \<Rightarrow> True" by blast
  from so_ok_meta [OF assms(2) [unfolded st] a(2) same_types_mono [OF a(3) sub]] a(1,4)
  show "safe own E M (on_meta_w (meta_cache_update_ash (ev_call env) m) st)"
    by (simp add: st prog_simps keeps_def)
  assume sh: "msg_video_sh m"
  from up(2) [OF sh] obtain r w' h' where v: "meta_cache_update_vsh (ev_call env) m ((so_meta s, w), h) = (r, (((so_meta s)\<lparr>mc_video := Some m\<rparr>, w'), h'))"
    "owned h' (own w' + (mc_held ((so_meta s)\<lparr>mc_video := Some m\<rparr>) + (cs_held (so_consumers s) + gop_held s + mix_held s + M)))"
    "same_types (mset_opt (mc_meta (so_meta s)) + mset_opt (mc_audio (so_meta s)) + (cs_held (so_consumers s) + gop_held s + mix_held s + M)) h h'"
    "case r of Inl e \<Rightarrow> E e | Inr _ \<Rightarrow> True" by blast
  from so_ok_meta [OF assms(2) [unfolded st] v(2) same_types_mono [OF v(3) sub]] v(1,4)
  show "safe own E M (on_meta_w (meta_cache_update_vsh (ev_call env) m) st)"
    by (simp add: st prog_simps keeps_def)
qed

section \<open>Audio and video keep it\<close>

lemma bytes_equal_from_eq:
  assumes "i + n \<le> length xs" and "i + n \<le> length ys"
  shows "bytes_equal_from i n (Some (map Some xs)) (Some (map Some ys))
    = Inr (take n (drop i xs) = take n (drop i ys))"
  using assms
proof (induction n arbitrary: i)
  case 0
  then show ?case by simp
next
  case (Suc n)
  then have i: "i < length xs" "i < length ys" by simp_all
  have "bytes_equal_from (Suc i) n (Some (map Some xs)) (Some (map Some ys))
      = Inr (take n (drop (Suc i) xs) = take n (drop (Suc i) ys))"
    by (rule Suc.IH) (use Suc.prems in simp_all)
  with i show ?case by (simp add: flv_byte_def Cons_nth_drop_Suc [symmetric])
qed

lemma srs_bytes_equals_whole:
  assumes "whole a" and "whole b" and "sm_size a = sm_size b"
  shows "srs_bytes_equals (sm_payload a) (sm_payload b) (sm_size b) = Inr (payload_bytes a = payload_bytes b \<and>
    (sm_payload a = None) = (sm_payload b = None))"
proof (cases "sm_payload a = None \<or> sm_payload b = None")
  case True
  with assms show ?thesis
    by (auto simp: srs_bytes_equals_def payload_bytes_def)
next
  case False
  then obtain xs ys where xy: "sm_payload a = Some xs" "sm_payload b = Some ys" by auto
  with assms have l: "int (length xs) = sm_size b" "int (length ys) = sm_size b"
    and n: "None \<notin> set xs" "None \<notin> set ys" by (simp_all add: whole_def)
  have m: "map Some (map the xs) = xs" "map Some (map the ys) = ys" using n by (simp_all add: map_Some_the)
  have "srs_bytes_equals (Some (map Some (map the xs))) (Some (map Some (map the ys))) (sm_size b)
      = Inr (take (nat (sm_size b)) (map the xs) = take (nat (sm_size b)) (map the ys))"
    using bytes_equal_from_eq [of 0 "nat (sm_size b)" "map the xs" "map the ys"] l
    by (simp add: srs_bytes_equals_def)
  moreover have "length xs \<le> nat (sm_size b)" "length ys \<le> nat (sm_size b)" using l by linarith+
  ultimately show ?thesis using xy unfolding m by (simp add: payload_bytes_def)
qed

text \<open>A message repeats the cached header.\<close>

definition repeats :: "shared_msg option \<Rightarrow> shared_msg \<Rightarrow> bool" where
  "repeats cached m \<longleftrightarrow> (case cached of None \<Rightarrow> False
     | Some sh \<Rightarrow> sm_size sh = sm_size m \<and> payload_bytes sh = payload_bytes m \<and> (sm_payload sh = None) = (sm_payload m = None))"

lemma drop_for_reduce_whole:
  assumes "\<And>sh. cached = Some sh \<Longrightarrow> whole sh" and "whole m"
  shows "drop_for_reduce cf b cached m = Inr (b \<and> cf_reduce_sequence_header cf \<and> repeats cached m)"
  using srs_bytes_equals_whole [OF _ assms(2)] assms(1)
  by (auto simp: drop_for_reduce_def repeats_def split: option.split)

lemma so_ok_whole:
  assumes "so_ok own ((s, w), h) M" and "m \<in># mc_held (so_meta s) + M"
  shows "whole m"
  by (rule owned_whole [OF so_okD(1) [OF assms(1)]]) (use assms(2) in \<open>simp add: so_held_def\<close>)

lemma drop_for_reduce_source:
  assumes "so_ok own ((s, w), h) M" and "m \<in># M"
  shows "drop_for_reduce cf b (mc_audio (so_meta s)) m = Inr (b \<and> cf_reduce_sequence_header cf \<and> repeats (mc_audio (so_meta s)) m)"
    and "drop_for_reduce cf b (mc_video (so_meta s)) m = Inr (b \<and> cf_reduce_sequence_header cf \<and> repeats (mc_video (so_meta s)) m)"
  by (rule drop_for_reduce_whole; use so_ok_whole [OF assms(1)] assms(2) in \<open>simp add: mc_held_def\<close>)+

lemma so_ok_codec:
  assumes "so_ok own ((s, w), h) M" and "m \<in># M"
  shows "SrsFlvAudio_sh (sm_payload m) (sm_size m) = Inr (msg_audio_sh m)"
    and "SrsFlvVideo_sh (sm_payload m) (sm_size m) = Inr (msg_video_sh m)"
proof -
  have "whole m" by (rule so_ok_whole [OF assms(1)]) (simp add: assms(2))
  then show "SrsFlvAudio_sh (sm_payload m) (sm_size m) = Inr (msg_audio_sh m)"
    "SrsFlvVideo_sh (sm_payload m) (sm_size m) = Inr (msg_video_sh m)"
    by (rule whole_codec)+
qed

lemma retime_owned: "owned h (mset_opt mo + M) \<Longrightarrow> owned h (mset_opt (retime t mo) + M)"
  by (cases mo) (simp_all add: retime_def owned_retime)

lemma so_ok_retime:
  assumes "so_ok own ((s, w), h) M" and "c = so_meta s"
    and "\<exists>a v m. c' = \<lparr>mc_meta = (if m then retime t (mc_meta c) else mc_meta c),
      mc_video = (if v then retime t (mc_video c) else mc_video c), mc_audio = (if a then retime t (mc_audio c) else mc_audio c)\<rparr>"
  shows "so_ok own ((s\<lparr>so_meta := c'\<rparr>, w), h) M"
proof -
  let ?R = "cs_held (so_consumers s) + gop_held s + mix_held s + M"
  from assms(3) obtain a v m where c': "mc_meta c' = (if m then retime t (mc_meta c) else mc_meta c)"
      "mc_video c' = (if v then retime t (mc_video c) else mc_video c)" "mc_audio c' = (if a then retime t (mc_audio c) else mc_audio c)"
    by auto
  have "owned h (mset_opt (mc_meta c) + (mset_opt (mc_video c) + mset_opt (mc_audio c) + (own w + ?R)))"
    using so_okD(7) [OF assms(1)] assms(2) by (simp add: mc_held_def ac_simps)
  then have "owned h (mset_opt (mc_meta c') + (mset_opt (mc_video c) + mset_opt (mc_audio c) + (own w + ?R)))"
    unfolding c' by (cases m) (simp_all add: retime_owned)
  then have "owned h (mset_opt (mc_video c) + (mset_opt (mc_meta c') + mset_opt (mc_audio c) + (own w + ?R)))"
    by (simp add: ac_simps)
  then have "owned h (mset_opt (mc_video c') + (mset_opt (mc_meta c') + mset_opt (mc_audio c) + (own w + ?R)))"
    unfolding c'(2) by (cases v) (simp_all add: retime_owned)
  then have "owned h (mset_opt (mc_audio c) + (mset_opt (mc_meta c') + mset_opt (mc_video c') + (own w + ?R)))"
    by (simp add: ac_simps)
  then have "owned h (mset_opt (mc_audio c') + (mset_opt (mc_meta c') + mset_opt (mc_video c') + (own w + ?R)))"
    unfolding c'(3) by (cases a) (simp_all add: retime_owned)
  then have "owned h (own w + (mc_held c' + ?R))" by (simp add: mc_held_def ac_simps)
  then show ?thesis by (rule so_ok_meta [OF assms(1)]) simp
qed

lemma safe_finish:
  assumes "so_ok own st M" and "m \<in># M"
    and "\<And>c. \<exists>a v d. upd c = \<lparr>mc_meta = (if d then retime (sm_timestamp m) (mc_meta c) else mc_meta c),
      mc_video = (if v then retime (sm_timestamp m) (mc_video c) else mc_video c),
      mc_audio = (if a then retime (sm_timestamp m) (mc_audio c) else mc_audio c)\<rparr>"
  shows "safe own E M ((if sh then returnP () else bindP (on_gop (gop_cache_cache m)) (\<lambda>_. bindP (so_get so_atc)
     (\<lambda>atc. if atc then on_meta (updP upd) else returnP ()))) st)"
proof (cases sh)
  case True
  with assms(1) show ?thesis by (simp add: src_return)
next
  case False
  have "safe own E M (bindP (on_gop (gop_cache_cache m)) (\<lambda>_. bindP (so_get so_atc)
     (\<lambda>atc. if atc then on_meta (updP upd) else returnP ())) st)"
  proof (rule src_bind [where m = "on_gop (gop_cache_cache m)", OF safe_cache [OF assms(1,2)]])
    fix x st' assume ok: "so_ok own (st' :: (source \<times> 'a) \<times> sp_heap) M"
    obtain s w h where st': "st' = ((s, w), h)" by (cases st') auto
    from so_ok_retime [OF ok [unfolded st'] refl assms(3)] ok
    show "safe own E M (bindP (so_get so_atc) (\<lambda>atc. if atc then on_meta (updP upd) else returnP ()) st')"
      by (auto simp: st' prog_simps intro: safe_Inr)
  qed
  with False show ?thesis by simp
qed

lemma safe_audio_imp:
  assumes law: "server_law (ev_call env) own E" and "so_ok own st M" and m: "m \<in># M"
  shows "safe own E M (source_on_audio_imp env cf m st)"
proof -
  obtain s w h where st: "st = ((s, w), h)" by (cases st) auto
  from assms(2) have ok: "so_ok own ((s, w), h) M" by (simp add: st)
  obtain sh where sh: "SrsFlvAudio_sh (sm_payload m) (sm_size m) = Inr sh"
    using so_ok_codec(1) [OF ok m] by blast
  have sub: "ext_ok (Hub_on_audio m) (X + M)" for X using m by simp
  define rest where "rest = (\<lambda>_ :: unit. bindP (on_ext (ev_call env (Hub_on_audio m)))
     (\<lambda>_. bindP (so_get (\<lambda>s. mc_audio (so_meta s)))
     (\<lambda>ash. bindP (if sh \<or> ash = None then on_meta_w (meta_cache_update_ash (ev_call env) m) else returnP ())
     (\<lambda>_. if sh then returnP ()
        else bindP (on_gop (gop_cache_cache m))
          (\<lambda>_. bindP (so_get so_atc)
          (\<lambda>atc. if atc
             then on_meta (updP (\<lambda>c. c\<lparr>mc_audio := retime (sm_timestamp m) (mc_audio c),
               mc_meta := retime (sm_timestamp m) (mc_meta c)\<rparr>))
             else returnP ()))))))"
  have run: "source_on_audio_imp env cf m st = bindP (if \<not> (sh \<and> cf_reduce_sequence_header cf
        \<and> repeats (mc_audio (so_meta s)) m) then copy_to_consumers m else returnP ()) rest st"
    by (simp add: source_on_audio_imp_def sh drop_for_reduce_source [OF ok m] prog_simps st rest_def)
  have rest: "safe own E M (rest u st')" if ok': "so_ok own st' M" for u st'
    unfolding rest_def
  proof (rule src_bind [where m = "on_ext (ev_call env (Hub_on_audio m))", OF safe_ext [OF law ok' sub]])
    fix x st2 assume ok2: "so_ok own (st2 :: (source \<times> 'a) \<times> sp_heap) M"
    obtain s2 w2 h2 where st2: "st2 = ((s2, w2), h2)" by (cases st2) auto
    have "safe own E M ((if b then on_meta_w (meta_cache_update_ash (ev_call env) m) else returnP ()) st2)" for b
      by (cases b) (simp_all add: safe_update(1) [OF law ok2 m] src_return [OF ok2])
    note upd = this [unfolded st2]
    show "safe own E M (bindP (so_get (\<lambda>s. mc_audio (so_meta s)))
     (\<lambda>ash. bindP (if sh \<or> ash = None then on_meta_w (meta_cache_update_ash (ev_call env) m) else returnP ())
     (\<lambda>_. if sh then returnP ()
        else bindP (on_gop (gop_cache_cache m))
          (\<lambda>_. bindP (so_get so_atc)
          (\<lambda>atc. if atc
             then on_meta (updP (\<lambda>c. c\<lparr>mc_audio := retime (sm_timestamp m) (mc_audio c),
               mc_meta := retime (sm_timestamp m) (mc_meta c)\<rparr>))
             else returnP ())))) st2)"
      unfolding st2
    proof (rule safe_get [OF ok2 [unfolded st2]], rule src_bind, rule upd)
      fix x st3 assume ok3: "so_ok own (st3 :: (source \<times> 'a) \<times> sp_heap) M"
      have "\<exists>a v d. c\<lparr>mc_audio := retime (sm_timestamp m) (mc_audio c), mc_meta := retime (sm_timestamp m) (mc_meta c)\<rparr>
        = \<lparr>mc_meta = (if d then retime (sm_timestamp m) (mc_meta c) else mc_meta c),
           mc_video = (if v then retime (sm_timestamp m) (mc_video c) else mc_video c),
           mc_audio = (if a then retime (sm_timestamp m) (mc_audio c) else mc_audio c)\<rparr>" for c
        by (intro exI [of _ True] exI [of _ False]) simp
      then show "safe own E M ((if sh then returnP ()
        else bindP (on_gop (gop_cache_cache m))
          (\<lambda>_. bindP (so_get so_atc)
          (\<lambda>atc. if atc
             then on_meta (updP (\<lambda>c. c\<lparr>mc_audio := retime (sm_timestamp m) (mc_audio c),
               mc_meta := retime (sm_timestamp m) (mc_meta c)\<rparr>))
             else returnP ()))) st3)"
        by (rule safe_finish [OF ok3 m])
    qed
  qed
  have "safe own E M ((if \<not> (sh \<and> cf_reduce_sequence_header cf
        \<and> repeats (mc_audio (so_meta s)) m) then copy_to_consumers m else returnP ()) st)"
    using safe_copy [OF ok, of m] m by (simp add: st src_return [OF ok])
  then show ?thesis unfolding run by (rule src_bind) (rule rest)
qed

lemma safe_video_imp:
  assumes law: "server_law (ev_call env) own E" and "so_ok own st M" and m: "m \<in># M"
  shows "safe own E M (source_on_video_imp env cf m st)"
proof -
  obtain s w h where st: "st = ((s, w), h)" by (cases st) auto
  from assms(2) have ok: "so_ok own ((s, w), h) M" by (simp add: st)
  obtain sh where sh: "SrsFlvVideo_sh (sm_payload m) (sm_size m) = Inr sh"
    using so_ok_codec(2) [OF ok m] by blast
  define dropped where "dropped \<longleftrightarrow> sh \<and> cf_reduce_sequence_header cf \<and> repeats (mc_video (so_meta s)) m"
  have sub: "ext_ok (Hub_on_video m sh) (X + M)" for X using m by simp
  define fin where "fin = (\<lambda>_ :: unit. if sh then returnP ()
        else bindP (on_gop (gop_cache_cache m))
          (\<lambda>_. bindP (so_get so_atc)
          (\<lambda>atc. if atc
             then on_meta (updP (\<lambda>c. c\<lparr>mc_video := retime (sm_timestamp m) (mc_video c),
               mc_meta := retime (sm_timestamp m) (mc_meta c)\<rparr>))
             else returnP ())) :: ('a, unit) so_prog)"
  have run: "source_on_video_imp env cf m st = bindP (if sh then on_meta_w (meta_cache_update_vsh (ev_call env) m) else returnP ())
     (\<lambda>_. bindP (on_ext (ev_call env (Hub_on_video m sh)))
     (\<lambda>_. bindP (if \<not> dropped then copy_to_consumers m else returnP ()) fin)) st"
    by (simp add: source_on_video_imp_def sh drop_for_reduce_source [OF ok m] prog_simps st fin_def dropped_def)
  have fin: "safe own E M (fin u st3)" if ok3: "so_ok own st3 M" for u st3
  proof -
    have "\<exists>a v d. c\<lparr>mc_video := retime (sm_timestamp m) (mc_video c), mc_meta := retime (sm_timestamp m) (mc_meta c)\<rparr>
      = \<lparr>mc_meta = (if d then retime (sm_timestamp m) (mc_meta c) else mc_meta c),
         mc_video = (if v then retime (sm_timestamp m) (mc_video c) else mc_video c),
         mc_audio = (if a then retime (sm_timestamp m) (mc_audio c) else mc_audio c)\<rparr>" for c
      by (intro exI [of _ False] exI [of _ True]) simp
    then show ?thesis unfolding fin_def by (rule safe_finish [OF ok3 m])
  qed
  have 1: "safe own E M ((if sh then on_meta_w (meta_cache_update_vsh (ev_call env) m) else returnP ()) st)"
    using sh by (cases sh) (simp_all add: safe_update(2) [OF law assms(2) m] holds_def src_return [OF assms(2)])
  show ?thesis unfolding run
  proof (rule src_bind, rule 1)
    fix x st2 assume ok2: "so_ok own (st2 :: (source \<times> 'a) \<times> sp_heap) M"
    show "safe own E M (bindP (on_ext (ev_call env (Hub_on_video m sh)))
        (\<lambda>_. bindP (if \<not> dropped then copy_to_consumers m else returnP ()) fin) st2)"
    proof (rule src_bind [where m = "on_ext (ev_call env (Hub_on_video m sh))", OF safe_ext [OF law ok2 sub]])
      fix x st3 assume ok3: "so_ok own (st3 :: (source \<times> 'a) \<times> sp_heap) M"
      obtain s3 w3 h3 where st3: "st3 = ((s3, w3), h3)" by (cases st3) auto
      have 3: "safe own E M ((if \<not> dropped then copy_to_consumers m else returnP ()) st3)"
        using safe_copy [OF ok3 [unfolded st3], of m] m by (simp add: st3 src_return [OF ok3 [unfolded st3]])
      show "safe own E M (bindP (if \<not> dropped then copy_to_consumers m else returnP ()) fin st3)"
        by (rule src_bind, rule 3, rule fin)
    qed
  qed
qed

section \<open>Received messages keep it\<close>

definition cm_whole :: "common_msg \<Rightarrow> bool" where
  "cm_whole cm \<longleftrightarrow> whole_payload (cm_payload cm) (cm_size cm)"

lemma so_ok_create:
  assumes "so_ok own ((s, w), h) M" and "cm_whole cm"
  obtains m cm' h' where "sm_create cm sm_new h = (Inr (cm', m), h')" "so_ok own ((s, w), h') (add_mset m M)"
    "same_types (own w + (so_held s + M)) h h'"
    "sm_type h' m = Some (mh_message_type (cm_header cm))" "sm_timestamp m = mh_timestamp (cm_header cm)"
    "sm_payload m = cm_payload cm" "sm_size m = cm_size cm"
proof -
  obtain m h' where m: "sm_create_header (Some (cm_header cm)) (cm_payload cm) (cm_size cm) sm_new h = (Inr m, h')"
    "owned h' (add_mset m (own w + (so_held s + M)))" "same_types (own w + (so_held s + M)) h h'"
    "sm_type h' m = Some (mh_message_type (cm_header cm))" "sm_timestamp m = mh_timestamp (cm_header cm)"
    "sm_payload m = cm_payload cm" "sm_size m = cm_size cm"
    using owned_create_any [OF so_okD(1) [OF assms(1)] assms(2) [unfolded cm_whole_def], of "cm_header cm"] by metis
  have "owned h' (own w + (so_held s + add_mset m M))" using m(2) by simp
  moreover have "same_types (so_held s) h h'"
    by (rule same_types_mono [OF m(3)]) (simp add: subset_mset.add_increasing)
  ultimately have "so_ok own ((s, w), h') (add_mset m M)" by (rule so_ok_heap [OF assms(1)])
  then show thesis
    by (intro that [of _ m h'])
      (simp_all add: m(3,4,5,6,7) sm_create_def bindP_Inr [where m = "sm_create_header _ _ _ _", OF m(1)] prog_simps)
qed

lemma so_ok_destroy:
  assumes "so_ok own ((s, w), h) (add_mset m M)"
  obtains h' where "sm_destroy m h = (Inr (), h')" "so_ok own ((s, w), h') M" "same_types (own w + (so_held s + M)) h h'"
proof -
  have "owned h (add_mset m (own w + (so_held s + M)))" using so_okD(1) [OF assms] by simp
  then obtain h' where d: "sm_destroy m h = (Inr (), h')" "owned h' (own w + (so_held s + M))"
    "same_types (own w + (so_held s + M)) h h'"
    by (rule owned_destroy)
  have "same_types (so_held s) h h'"
    by (rule same_types_mono [OF d(3)]) (simp add: subset_mset.add_increasing)
  from that [OF d(1) so_ok_heap [OF assms d(2) this] d(3)] show thesis .
qed

lemma safe_finally:
  assumes "safe own E (add_mset m M) (p st)"
  shows "safe own E M (finallyP p (on_shared (sm_destroy m)) st)"
proof -
  obtain r s w h where p: "p st = (r, ((s, w), h))" by (cases "p st") auto
  with assms have "so_ok own ((s, w), h) (add_mset m M)" by (simp add: keeps_def)
  then obtain h' where "sm_destroy m h = (Inr (), h')" "so_ok own ((s, w), h') M"
    by (rule so_ok_destroy)
  with assms show ?thesis by (simp add: finallyP_def p prog_simps keeps_def)
qed

lemma safe_mixed:
  assumes law: "server_law (ev_call env) own E" and "so_ok own st M" and "m \<in># M"
  shows "safe own E M (push_mixed env cf m st)"
proof -
  obtain s w h where st: "st = ((s, w), h)" by (cases st) auto
  note ok = assms(2) [unfolded st]
  let ?N = "own w + (cs_held (so_consumers s) + gop_held s + mc_held (so_meta s) + M)"
  have "m \<in># ?N" using assms(3) by simp
  with so_okD(4) [OF ok] obtain mo q h1 where q: "mix_queue_step m (so_mix_queue s, h) = (Inr mo, (q, h1))"
    "mx_ok 10 (q, h1) (mset_opt mo + ?N)" "same_types ?N h h1"
    by (rule mix_queue_step_spec)
  have "mx_ok 10 (q, h1) (own w + (cs_held (so_consumers s) + gop_held s + mc_held (so_meta s) + (mset_opt mo + M)))"
    using q(2) by (simp add: ac_simps)
  from so_ok_mix [OF ok this q(3)] have ok1: "so_ok own ((s\<lparr>so_mix_queue := q\<rparr>, w), h1) (mset_opt mo + M)" .
  have run: "push_mixed env cf m st = (case mo of None \<Rightarrow> returnP () | Some m \<Rightarrow> consume_mixed env cf m)
      ((s\<lparr>so_mix_queue := q\<rparr>, w), h1)"
    by (simp add: push_mixed_def bindP_Inr [where m = "on_mix (mix_queue_step m)" and x = mo and s' = "((s\<lparr>so_mix_queue := q\<rparr>, w), h1)"]
        st prog_simps q(1))
  show ?thesis
  proof (cases mo)
    case None
    with run ok1 show ?thesis by (simp add: src_return)
  next
    case (Some c)
    let ?st = "((s\<lparr>so_mix_queue := q\<rparr>, w), h1)"
    have ok2: "so_ok own ?st (add_mset c M)" using ok1 Some by simp
    have "c \<in># own w + (so_held (s\<lparr>so_mix_queue := q\<rparr>) + add_mset c M)" by simp
    note kind = owned_kind [OF so_okD(1) [OF ok2] this]
    have c: "c \<in># add_mset c M" by simp
    have "safe own E (add_mset c M) (bindP (on_shared (sm_is_audio c))
       (\<lambda>audio. if audio then source_on_audio_imp env cf c else source_on_video_imp env cf c) ?st)"
      using safe_audio_imp [OF law ok2 c] safe_video_imp [OF law ok2 c] by (simp add: prog_simps kind)
    then have "safe own E M (consume_mixed env cf c ?st)"
      unfolding consume_mixed_def by (rule safe_finally)
    with run Some show ?thesis by simp
  qed
qed

lemma so_ok_upd:
  assumes "so_ok own ((s, w), h) M"
    and "so_gop_cache s' = so_gop_cache s" "so_mix_queue s' = so_mix_queue s" "so_meta s' = so_meta s"
    and "cs_held (so_consumers s') = cs_held (so_consumers s)" and "players_ok s'"
  shows "so_ok own ((s', w), h) M"
  using assms by (simp add: so_ok_def so_held_def gop_held_def mix_held_def)

lemma players_ok_cong: "so_consumers s' = so_consumers s \<Longrightarrow> so_next s' = so_next s \<Longrightarrow> players_ok s' = players_ok s"
  by (simp add: players_ok_def)

lemma note_packet_parts [simp]:
  "so_gop_cache (note_packet t s) = so_gop_cache s" "so_mix_queue (note_packet t s) = so_mix_queue s"
  "so_meta (note_packet t s) = so_meta s" "so_consumers (note_packet t s) = so_consumers s"
  "so_next (note_packet t s) = so_next s" "so_mix_correct (note_packet t s) = so_mix_correct s"
  "so_atc (note_packet t s) = so_atc s" "so_jitter_algorithm (note_packet t s) = so_jitter_algorithm s"
  by (simp_all add: note_packet_def Let_def)

lemma so_ok_note: "so_ok own ((s, w), h) M \<Longrightarrow> so_ok own ((note_packet t s, w), h) M"
  by (rule so_ok_upd) (use so_okD(2) in \<open>simp_all add: players_ok_cong [of "note_packet t s" s]\<close>)

lemma safe_received:
  assumes "so_ok own ((s, w), h) M" and "cm_whole cm"
    and "\<And>m st. so_ok own st (add_mset m M) \<Longrightarrow> safe own E (add_mset m M) (imp m st)"
    and "\<And>m st. so_ok own st (add_mset m M) \<Longrightarrow> safe own E (add_mset m M) (mixed m st)"
  shows "safe own E M (bindP (on_shared (sm_create cm sm_new)) (\<lambda>(_, msg). finallyP
        (bindP (so_get so_mix_correct) (\<lambda>mix. if \<not> mix then imp msg else mixed msg))
        (on_shared (sm_destroy msg))) ((s, w), h))"
proof -
  obtain m cm' h' where c: "sm_create cm sm_new h = (Inr (cm', m), h')" "so_ok own ((s, w), h') (add_mset m M)"
    by (rule so_ok_create [OF assms(1,2)])
  have "safe own E (add_mset m M) (bindP (so_get so_mix_correct) (\<lambda>mix. if \<not> mix then imp m else mixed m) ((s, w), h'))"
    using assms(3,4) [OF c(2)] by (simp add: prog_simps)
  then have "safe own E M (finallyP (bindP (so_get so_mix_correct) (\<lambda>mix. if \<not> mix then imp m else mixed m))
      (on_shared (sm_destroy m)) ((s, w), h'))"
    by (rule safe_finally)
  then show ?thesis by (simp add: prog_simps c(1))
qed

lemma safe_audio:
  assumes law: "server_law (ev_call env) own E" and "so_ok own st M" and "cm_whole cm"
  shows "safe own E M (source_on_audio env cf cm st)"
proof -
  obtain s w h where st: "st = ((s, w), h)" by (cases st) auto
  have "safe own E M (bindP (on_shared (sm_create cm sm_new)) (\<lambda>(_, msg). finallyP
        (bindP (so_get so_mix_correct) (\<lambda>mix. if \<not> mix then source_on_audio_imp env cf msg else push_mixed env cf msg))
        (on_shared (sm_destroy msg))) ((note_packet (mh_timestamp (cm_header cm)) s, w), h))"
    by (rule safe_received [OF so_ok_note [OF assms(2) [unfolded st]] assms(3)])
      (rule safe_audio_imp [OF law] safe_mixed [OF law], assumption, simp)+
  then show ?thesis by (simp add: source_on_audio_def st prog_simps)
qed

lemma acceptable_whole: "cm_whole cm \<Longrightarrow> \<exists>b. SrsFlvVideo_acceptable (cm_payload cm) (cm_size cm) = Inr b"
  using whole_acceptable [of "sm_new\<lparr>sm_payload := cm_payload cm, sm_size := cm_size cm\<rparr>"]
  by (cases "cm_payload cm") (auto simp: cm_whole_def whole_payload_def whole_def)

lemma safe_video:
  assumes law: "server_law (ev_call env) own E" and "so_ok own st M" and "cm_whole cm"
  shows "safe own E M (source_on_video env cf cm st)"
proof -
  obtain s w h where st: "st = ((s, w), h)" by (cases st) auto
  obtain b where b: "SrsFlvVideo_acceptable (cm_payload cm) (cm_size cm) = Inr b"
    using acceptable_whole [OF assms(3)] by blast
  note ok = so_ok_note [OF assms(2) [unfolded st], of "mh_timestamp (cm_header cm)"]
  have "safe own E M (bindP (on_shared (sm_create cm sm_new)) (\<lambda>(_, msg). finallyP
        (bindP (so_get so_mix_correct) (\<lambda>mix. if \<not> mix then source_on_video_imp env cf msg else push_mixed env cf msg))
        (on_shared (sm_destroy msg))) ((note_packet (mh_timestamp (cm_header cm)) s, w), h))"
    by (rule safe_received [OF ok assms(3)])
      (rule safe_video_imp [OF law] safe_mixed [OF law], assumption, simp)+
  then show ?thesis using ok
    by (cases b) (simp_all add: source_on_video_def st prog_simps b safe_Inr)
qed

section \<open>Aggregates keep it\<close>

lemma room_adv: "room n (adv m s) = room (m + n) s"
  by (simp add: room_def add.assoc)

lemma read_some:
  "read_1bytes s = (if room 1 s then Inr (word_of_mem (rev (take 1 (upcoming s))), adv 1 s) else Inl ASSERT_FAILED)"
  "read_3bytes s = (if room 3 s then Inr (word_of_mem (rev (take 3 (upcoming s))), adv 3 s) else Inl ASSERT_FAILED)"
  "read_4bytes s = (if room 4 s then Inr (word_of_mem (rev (take 4 (upcoming s))), adv 4 s) else Inl ASSERT_FAILED)"
  by (simp_all add: read_1bytes_def read_3bytes_def read_4bytes_def fetch_numeral)

lemma sint_3bytes: "length bs \<le> 3 \<Longrightarrow> 0 \<le> sint (word_of_mem bs :: 32 word)"
proof (rule ccontr)
  assume l: "length bs \<le> 3" and "\<not> 0 \<le> sint (word_of_mem bs :: 32 word)"
  then have "bit (word_of_mem bs :: 32 word) 31"
    using bit_last_iff [of "word_of_mem bs :: 32 word"] by simp
  with l show False by (simp add: bit_word_of_mem)
qed

lemma aggregate_head_room:
  "(\<exists>x. room 8 s \<and> aggregate_head s = Inr (x, adv 8 s) \<and> 0 \<le> sint (fst (snd x)))
    \<or> \<not> room 8 s \<and> aggregate_head s = Inl ERROR_RTMP_AGGREGATE"
proof -
  have m: "room m s" if "room 8 s" "m \<le> 8" for m using that by (rule room_mono)
  have d: "0 \<le> sint (word_of_mem (rev (take 3 xs)) :: 32 word)" for xs by (rule sint_3bytes) simp
  show ?thesis
  proof (cases "room 8 s")
    case True
    with m [of 1] m [of 4] m [of 7] d show ?thesis
      by (simp add: aggregate_head_def codec_simps read_some room_adv)
  next
    case False
    with d show ?thesis by (auto simp: aggregate_head_def codec_simps read_some room_adv)
  qed
qed

lemma aggregate_body_room:
  assumes "0 \<le> sint n"
  shows "(\<exists>sid pl. room (7 + nat (sint n)) s \<and> aggregate_body n s = Inr ((sid, pl), adv (7 + nat (sint n)) s)
      \<and> whole_payload pl (sint n))
    \<or> \<not> room (7 + nat (sint n)) s \<and> aggregate_body n s = Inl ERROR_RTMP_AGGREGATE"
proof -
  define k where "k = nat (sint n)"
  have n: "sint n = int k" using assms by (simp add: k_def)
  have m: "room m s" if "room (7 + k) s" "m \<le> 7 + k" for m using that by (rule room_mono)
  have take_k: "int (length (take k (upcoming (adv 3 s)))) = int k" if "room (3 + k) s" "0 < k"
    using that by (simp add: upcoming_def room_def)
  show ?thesis
  proof (cases "k = 0")
    case True
    then have n0: "sint n = 0" using n by simp
    show ?thesis using m [of 3] True
      by (cases "room 7 s") (auto simp: aggregate_body_def n0 codec_simps read_some room_adv whole_payload_def k_def [symmetric])
  next
    case False
    then have p: "0 < int k" "0 < sint n" using n by simp_all
    show ?thesis
    proof (cases "room (7 + k) s")
      case True
      have "room (3 + k) s" "room 3 s" "room (3 + k + 4) s" using m [OF True] True by (simp_all add: ac_simps)
      with True p take_k show ?thesis
        by (simp add: aggregate_body_def n codec_simps read_some room_adv read_bytes_def fetch_eq
            whole_payload_def k_def [symmetric] ac_simps)
    next
      case f: False
      then show ?thesis using p
        by (auto simp: aggregate_body_def n codec_simps read_some room_adv read_bytes_def fetch_eq k_def [symmetric] ac_simps)
    qed
  qed
qed

lemma aggregate_next_cases:
  "case aggregate_next header s delta of
     Inl e \<Rightarrow> e = ERROR_RTMP_AGGREGATE
   | Inr (msg, d, s') \<Rightarrow> cm_whole msg \<and> (\<exists>k \<ge> 15. room k s \<and> s' = adv k s)"
proof (cases "room 8 s")
  case False
  then show ?thesis using aggregate_head_room [of s] by (simp add: aggregate_next_def)
next
  case True
  then obtain ty n t where h: "aggregate_head s = Inr ((ty, n, t), adv 8 s)" "0 \<le> sint n"
    using aggregate_head_room [of s] by auto
  from aggregate_body_room [OF h(2), of "adv 8 s"] show ?thesis
  proof
    assume "\<exists>sid pl. room (7 + nat (sint n)) (adv 8 s) \<and> aggregate_body n (adv 8 s) = Inr ((sid, pl), adv (7 + nat (sint n)) (adv 8 s))
      \<and> whole_payload pl (sint n)"
    then obtain sid pl where b: "room (15 + nat (sint n)) s"
      "aggregate_body n (adv 8 s) = Inr ((sid, pl), adv (15 + nat (sint n)) s)" "whole_payload pl (sint n)"
      by (auto simp: room_adv)
    have "(if 0 < sint n then sint n else 0) = sint n" using h(2) by simp
    with b(3) have "whole_payload pl (if 0 < sint n then sint n else 0)" by simp
    then show ?thesis using b h(1)
      by (auto simp: aggregate_next_def Let_def cm_whole_def intro!: exI [of _ "15 + nat (sint n)"])
  qed (simp add: aggregate_next_def h(1) Let_def)
qed

lemma safe_liftR:
  assumes "so_ok own st M" and "case r of Inl e \<Rightarrow> E e | Inr x \<Rightarrow> safe own E M (f x st)"
  shows "safe own E M (bindP (liftR r) f st)"
  using assms by (cases r) (simp_all add: bindP_def liftR_def keeps_def)

lemma safe_aggregated:
  assumes law: "server_law (ev_call env) own E" and "so_ok own st M" and "cm_whole cm"
  shows "safe own E M (source_on_aggregated env cf cm st)"
  using safe_audio [OF assms] safe_video [OF assms] by (simp add: source_on_aggregated_def src_return [OF assms(2)])

lemma safe_aggregate_loop:
  assumes law: "server_law (ev_call env) own E" and E: "E ERROR_RTMP_AGGREGATE"
    and "so_ok own st M" and "length (sb_bytes s) - sb_pos s < n" 
  shows "safe own E M (aggregate_loop env cf header n s delta st)"
  using assms(3,4)
proof (induction n arbitrary: st s delta)
  case 0
  then show ?case by simp
next
  case (Suc n)
  show ?case
  proof (cases "buf_empty s")
    case True
    then show ?thesis by (simp add: src_return [OF Suc.prems(1)])
  next
    case False
    have "safe own E M (bindP (liftR (aggregate_next header s delta))
        (\<lambda>(msg, delta, s). bindP (source_on_aggregated env cf msg) (\<lambda>_. aggregate_loop env cf header n s delta)) st)"
    proof (rule safe_liftR [OF Suc.prems(1)])
      show "case aggregate_next header s delta of Inl e \<Rightarrow> E e | Inr x \<Rightarrow> safe own E M ((\<lambda>(msg, delta, s).
          bindP (source_on_aggregated env cf msg) (\<lambda>_. aggregate_loop env cf header n s delta)) x st)"
      proof (cases "aggregate_next header s delta")
        case (Inl e)
        with E aggregate_next_cases [where header = header and s = s and delta = delta] show ?thesis by simp
      next
        case (Inr x)
        obtain msg d s' where x: "x = (msg, d, s')" by (cases x) auto
        from Inr x aggregate_next_cases [where header = header and s = s and delta = delta] obtain k where
          k: "cm_whole msg" "15 \<le> k" "room k s" "s' = adv k s" by auto
        have less: "length (sb_bytes s') - sb_pos s' < n" using k(2-4) Suc.prems(2) by (simp add: room_def)
        have "safe own E M (bindP (source_on_aggregated env cf msg) (\<lambda>_. aggregate_loop env cf header n s' d) st)"
          by (rule src_bind, rule safe_aggregated [OF law Suc.prems(1) k(1)], rule Suc.IH [OF _ less])
        with Inr x show ?thesis by simp
      qed
    qed
    with False show ?thesis by simp
  qed
qed

lemma safe_aggregate:
  assumes law: "server_law (ev_call env) own E" and E: "E ERROR_RTMP_AGGREGATE" "E ERROR_KERNEL_STREAM_INIT"
    and "so_ok own st M" and "cm_whole cm"
  shows "safe own E M (source_on_aggregate env cf cm st)"
  unfolding source_on_aggregate_def
proof (rule safe_liftR [OF assms(4)])
  have view: "payload_view (cm_payload cm) = Inr (map_option (map the) (cm_payload cm))"
    using assms(5) by (auto simp: payload_view_def cm_whole_def whole_payload_def split: option.split)
  show "case bindR (payload_view (cm_payload cm)) buf_initialize of Inl e \<Rightarrow> E e | Inr s \<Rightarrow>
      safe own E M (aggregate_loop env cf (cm_header cm) (Suc (length (sb_bytes s))) s (- 1) st)"
  proof (cases "buf_initialize (map_option (map the) (cm_payload cm))")
    case (Inl e)
    then have "e = ERROR_KERNEL_STREAM_INIT" by (auto simp: buf_initialize_def split: option.splits if_splits)
    with Inl E show ?thesis by (simp add: view)
  next
    case (Inr s)
    have "length (sb_bytes s) - sb_pos s < Suc (length (sb_bytes s))" by simp
    from safe_aggregate_loop [OF law E(1) assms(4) this] Inr show ?thesis by (simp add: view del: aggregate_loop.simps)
  qed
qed

section \<open>The other operations keep it\<close>

lemma safe_upd:
  assumes "so_ok own st M" and "\<And>s w h. st = ((s, w), h) \<Longrightarrow> so_ok own ((u s, w), h) M"
  shows "safe own E M (so_upd u st)"
  using assms by (cases st) (auto simp: prog_simps intro: safe_Inr)

lemma so_ok_fields:
  assumes "so_ok own ((s, w), h) M"
  shows "so_ok own ((s\<lparr>so_atc := a\<rparr>, w), h) M" "so_ok own ((s\<lparr>so_can_publish := b\<rparr>, w), h) M"
    "so_ok own ((s\<lparr>so_is_monotonically_increase := c, so_last_packet_time := t\<rparr>, w), h) M"
    "so_ok own ((s\<lparr>so_can_publish := b, so_source_id := i\<rparr>, w), h) M"
    "so_ok own ((s\<lparr>so_jitter_algorithm := j\<rparr>, w), h) M" "so_ok own ((s\<lparr>so_mix_correct := d\<rparr>, w), h) M"
    "so_ok own ((s\<lparr>so_jitter_algorithm := j, so_mix_correct := d\<rparr>, w), h) M"
    "so_ok own ((s\<lparr>so_die_at := t\<rparr>, w), h) M"
  using assms by (simp_all add: so_ok_def so_held_def gop_held_def mix_held_def players_ok_def)

lemma safe_meta_data:
  assumes law: "server_law (ev_call env) own E" and "so_ok own st M"
  shows "safe own E M (source_on_meta_data env cf junk header metadata st)"
proof -
  obtain s w h where st: "st = ((s, w), h)" by (cases st) auto
  let ?s = "s\<lparr>so_atc := cf_atc cf \<or> bravo_atc cf metadata\<rparr>"
  have ok: "so_ok own ((?s, w), h) M" by (rule so_ok_fields [OF assms(2) [unfolded st]])
  let ?R = "own w + (cs_held (so_consumers ?s) + gop_held ?s + mix_held ?s + M)"
  obtain m h1 where 1: "meta_cache_update_data junk header metadata (so_meta ?s, h)
      = (Inr (True, metadata_stamp metadata), ((so_meta ?s)\<lparr>mc_meta := Some m\<rparr>, h1))"
    "owned h1 (mc_held ((so_meta ?s)\<lparr>mc_meta := Some m\<rparr>) + ?R)"
    "same_types (mset_opt (mc_video (so_meta ?s)) + mset_opt (mc_audio (so_meta ?s)) + ?R) h h1"
    by (rule meta_cache_update_data_spec [OF so_okD(6) [OF ok]])
  let ?s1 = "?s\<lparr>so_meta := (so_meta ?s)\<lparr>mc_meta := Some m\<rparr>\<rparr>"
  have "owned h1 (own w + (mc_held ((so_meta ?s)\<lparr>mc_meta := Some m\<rparr>) + (cs_held (so_consumers ?s) + gop_held ?s + mix_held ?s + M)))"
    using 1(2) by (simp add: ac_simps)
  moreover have "same_types (cs_held (so_consumers ?s) + gop_held ?s + mix_held ?s) h h1"
    by (rule same_types_mono [OF 1(3)]) (simp add: subset_mset.add_increasing)
  ultimately have ok1: "so_ok own ((?s1, w), h1) M" by (rule so_ok_meta [OF ok])
  have run: "source_on_meta_data env cf junk header metadata st
    = bindP (if \<not> cf_reduce_sequence_header cf then copy_to_consumers m else returnP ())
        (\<lambda>_. on_ext (ev_call env (Hub_on_meta_data m (metadata_stamp metadata)))) ((?s1, w), h1)"
    using 1(1) by (simp add: source_on_meta_data_def st prog_simps
        bindP_Inr [where m = "on_meta (meta_cache_update_data junk header metadata)"
            and x = "(True, metadata_stamp metadata)" and s' = "((?s1, w), h1)"])
  define s1 where "s1 = ?s1"
  have held: "m \<in># mc_held (so_meta s1)" "m \<in># so_held s1" by (simp_all add: mc_held_def so_held_def s1_def)
  note ok1 = ok1 [folded s1_def] and run = run [folded s1_def]
  show ?thesis
  proof (cases "cf_reduce_sequence_header cf")
    case True
    have "safe own E M (on_ext (ev_call env (Hub_on_meta_data m (metadata_stamp metadata))) ((s1, w), h1))"
      by (rule safe_ext [OF law ok1]) (use held(2) in simp)
    with True show ?thesis by (simp add: run)
  next
    case False
    have "m \<in># own w + (gop_held s1 + mix_held s1 + mc_held (so_meta s1) + M)" using held(1) by auto
    from copy_to_consumers_spec [OF ok1 this] obtain cs h2 where
      2: "copy_to_consumers m ((s1, w), h1) = (Inr (), ((s1\<lparr>so_consumers := cs\<rparr>, w), h2))"
      "so_ok own ((s1\<lparr>so_consumers := cs\<rparr>, w), h2) M" by metis
    have "m \<in># so_held (s1\<lparr>so_consumers := cs\<rparr>)" using held(1) by (simp add: so_held_def)
    then have "safe own E M (on_ext (ev_call env (Hub_on_meta_data m (metadata_stamp metadata))) ((s1\<lparr>so_consumers := cs\<rparr>, w), h2))"
      by (intro safe_ext [OF law 2(2)]) simp
    with False show ?thesis by (simp add: run bindP_Inr [where m = "copy_to_consumers m", OF 2(1)])
  qed
qed

lemma safe_mix_clear:
  assumes "so_ok own st M"
  shows "safe own E M (on_mix mix_queue_clear st)"
proof -
  obtain s w h where st: "st = ((s, w), h)" by (cases st) auto
  let ?N = "own w + (cs_held (so_consumers s) + gop_held s + mc_held (so_meta s) + M)"
  have "owned h (mset (map snd (mx_msgs (so_mix_queue s))) + ?N)"
    using so_okD(4) [OF assms [unfolded st]] by (simp add: mx_ok_def)
  then obtain h' where h': "mix_queue_clear (so_mix_queue s, h) = (Inr (), (mix_queue_new, h'))" "owned h' ?N" "same_types ?N h h'"
    by (rule mix_queue_clear_spec)
  have "mx_ok 10 (mix_queue_new, h') ?N" by (rule mx_ok_new [OF h'(2)]) simp
  from so_ok_mix [OF assms [unfolded st] this h'(3)] show ?thesis
    by (simp add: st prog_simps h'(1) safe_Inr)
qed

lemma source_gop_clear_spec:
  assumes "so_ok own ((s, w), h) M"
  obtains h' where "on_gop gop_cache_clear ((s, w), h)
      = (Inr (), ((s\<lparr>so_gop_cache := (so_gop_cache s)\<lparr>gc_msgs := [], gc_video_count := 0, gc_audio_after := 0\<rparr>\<rparr>, w), h'))"
    "so_ok own ((s\<lparr>so_gop_cache := (so_gop_cache s)\<lparr>gc_msgs := [], gc_video_count := 0, gc_audio_after := 0\<rparr>\<rparr>, w), h') M"
    "same_types (own w + (cs_held (so_consumers s) + mix_held s + mc_held (so_meta s) + M)) h h'"
proof -
  let ?N = "own w + (cs_held (so_consumers s) + mix_held s + mc_held (so_meta s) + M)"
  let ?g = "(so_gop_cache s)\<lparr>gc_msgs := [], gc_video_count := 0, gc_audio_after := 0\<rparr>"
  have "owned h (mset (gc_msgs (so_gop_cache s)) + ?N)"
    using so_okD(3) [OF assms] by (simp add: gc_ok_def)
  then obtain h' where h': "gop_cache_clear (so_gop_cache s, h) = (Inr (), (?g, h'))" "owned h' ?N" "same_types ?N h h'"
    by (rule gop_cache_clear_spec)
  have "gc_ok (?g, h') ?N" using h'(2) by (simp add: gc_ok_def gc_frames_def gop_ok_def)
  from that [OF _ so_ok_gop [OF assms this h'(3)] h'(3)] show thesis by (simp add: prog_simps h'(1))
qed

lemma safe_gop_clear:
  assumes "so_ok own st M"
  shows "safe own E M (on_gop gop_cache_clear st)"
proof -
  obtain s w h where st: "st = ((s, w), h)" by (cases st) auto
  from source_gop_clear_spec [OF assms [unfolded st]] show ?thesis unfolding st by (metis safe_Inr)
qed

lemma so_ok_gop_enable:
  assumes "so_ok own ((s, w), h) M"
  shows "so_ok own ((s\<lparr>so_gop_cache := (so_gop_cache s)\<lparr>gc_enable := v\<rparr>\<rparr>, w), h) M"
  using assms by (simp add: so_ok_def so_held_def gop_held_def mix_held_def gc_ok_def gc_frames_def players_ok_def)

lemma safe_gop_set:
  assumes "so_ok own st M"
  shows "safe own E M (on_gop (gop_cache_set v) st)"
proof -
  obtain s w h where st: "st = ((s, w), h)" by (cases st) auto
  note ok = so_ok_gop_enable [OF assms [unfolded st], of v]
  have "on_gop (gop_cache_set v) st = (if v then (Inr (), ((s\<lparr>so_gop_cache := (so_gop_cache s)\<lparr>gc_enable := v\<rparr>\<rparr>, w), h))
      else on_gop gop_cache_clear ((s\<lparr>so_gop_cache := (so_gop_cache s)\<lparr>gc_enable := v\<rparr>\<rparr>, w), h))"
    by (simp add: st prog_simps gop_cache_set_def split: prod.split)
  then show ?thesis using safe_Inr [OF ok, of E "()"] safe_gop_clear [OF ok, of E] by (cases v) simp_all
qed

lemma safe_call:
  assumes law: "server_law (ev_call env) own E" and "so_ok own st M" and "call_msgs c = {#}"
  shows "safe own E M (on_ext (ev_call env c) st)"
  by (rule safe_ext [OF law assms(2)]) (rule ext_ok_none [OF assms(3)])

lemma players_ok_map:
  assumes "players_ok s" and "\<And>c. co_good c \<Longrightarrow> co_good (f c)" 
  shows "players_ok (s\<lparr>so_consumers := map (apsnd f) (so_consumers s)\<rparr>)"
proof -
  have "map fst (map (apsnd f) cs) = map fst cs" for cs :: "(nat \<times> consumer) list" by (induction cs) auto
  with assms show ?thesis by (force simp: players_ok_def)
qed

lemma cs_held_map:
  assumes "\<And>c. mq_list (co_queue (f c)) = mq_list (co_queue c)"
  shows "cs_held (map (apsnd f) cs) = cs_held cs"
  using assms by (induction cs) auto

lemma so_ok_source_id:
  assumes "so_ok own ((s, w), h) M"
  shows "so_ok own ((source_on_source_id_changed i s, w), h) M"
proof (rule so_ok_upd [OF assms])
  have "cs_held (map (apsnd consumer_update_source_id) (so_consumers s)) = cs_held (so_consumers s)"
    by (rule cs_held_map) (simp add: consumer_update_source_id_def)
  then show "cs_held (so_consumers (source_on_source_id_changed i s)) = cs_held (so_consumers s)"
    by (simp add: source_on_source_id_changed_def Let_def)
  have "players_ok (s\<lparr>so_consumers := map (apsnd consumer_update_source_id) (so_consumers s)\<rparr>)"
    by (rule players_ok_map [OF so_okD(2) [OF assms]]) (simp add: co_good_def consumer_update_source_id_def)
  then show "players_ok (source_on_source_id_changed i s)"
    using so_okD(2) [OF assms] by (simp add: source_on_source_id_changed_def Let_def players_ok_def)
qed (simp_all add: source_on_source_id_changed_def Let_def)

lemma safe_publish:
  assumes law: "server_law (ev_call env) own E" and "so_ok own st M"
  shows "safe own E M (source_on_publish env st)"
proof -
  obtain s w h where st: "st = ((s, w), h)" by (cases st) auto
  let ?s = "source_on_source_id_changed (ev_get_id env w) (s\<lparr>so_can_publish := False\<rparr>)"
  have ok: "so_ok own ((?s, w), h) M" by (rule so_ok_source_id [OF so_ok_fields(2) [OF assms(2) [unfolded st]]])
  have run: "source_on_publish env st = bindP (on_mix mix_queue_clear)
     (\<lambda>_. bindP (so_upd (\<lambda>s. s\<lparr>so_is_monotonically_increase := True, so_last_packet_time := 0\<rparr>))
     (\<lambda>_. bindP (on_ext (ev_call env Hub_on_publish))
     (\<lambda>_. bindP (on_ext (ev_call env Handler_on_publish))
     (\<lambda>_. bindP (so_get so_source_id)
     (\<lambda>id. void (on_ext (ev_call env (Stat_on_stream_publish id)))))))) ((?s, w), h)"
    by (simp add: source_on_publish_def st prog_simps)
  show ?thesis unfolding run
  proof (rule src_bind, rule safe_mix_clear [OF ok], rule src_bind, rule safe_upd, assumption)
    fix st :: "(source \<times> 'a) \<times> sp_heap" and s w h
    assume "so_ok own st M" "st = ((s, w), h)"
    then show "so_ok own ((s\<lparr>so_is_monotonically_increase := True, so_last_packet_time := 0\<rparr>, w), h) M"
      by (simp add: so_ok_fields)
  next
    fix st :: "(source \<times> 'a) \<times> sp_heap"
    assume "so_ok own st M"
    then show "safe own E M (bindP (on_ext (ev_call env Hub_on_publish))
     (\<lambda>_. bindP (on_ext (ev_call env Handler_on_publish)) (\<lambda>_. bindP (so_get so_source_id)
     (\<lambda>id. void (on_ext (ev_call env (Stat_on_stream_publish id)))))) st)"
    proof (rule src_bind [where m = "on_ext (ev_call env Hub_on_publish)", OF safe_call [OF law]], simp)
      fix st2 :: "(source \<times> 'a) \<times> sp_heap"
      assume "so_ok own st2 M"
      then show "safe own E M (bindP (on_ext (ev_call env Handler_on_publish)) (\<lambda>_. bindP (so_get so_source_id)
         (\<lambda>id. void (on_ext (ev_call env (Stat_on_stream_publish id))))) st2)"
      proof (rule src_bind [where m = "on_ext (ev_call env Handler_on_publish)", OF safe_call [OF law]], simp)
        fix st3 :: "(source \<times> 'a) \<times> sp_heap"
        assume ok3: "so_ok own st3 M"
        obtain s3 w3 h3 where st3: "st3 = ((s3, w3), h3)" by (cases st3) auto
        show "safe own E M (bindP (so_get so_source_id) (\<lambda>id. void (on_ext (ev_call env (Stat_on_stream_publish id)))) st3)"
          unfolding st3 by (rule safe_get [OF ok3 [unfolded st3]], rule safe_void, rule safe_call [OF law ok3 [unfolded st3]]) simp
      qed
    qed
  qed
qed

section \<open>Players come, take and go\<close>

lemma replace_none:
  "i \<notin> fst ` set zs \<Longrightarrow> map (\<lambda>(j, d). (j, if j = i then c' else d)) zs = zs"
  "i \<notin> fst ` set zs \<Longrightarrow> filter (\<lambda>(j, _). j \<noteq> i) zs = zs"
  by (induction zs) auto

lemma replace_consumer:
  assumes "distinct (map fst (xs @ (i, c) # ys))"
  shows "map (\<lambda>(j, d). (j, if j = i then c' else d)) (xs @ (i, c) # ys) = xs @ (i, c') # ys"
    and "filter (\<lambda>(j, _). j \<noteq> i) (xs @ (i, c) # ys) = xs @ ys"
proof -
  have "i \<notin> fst ` set xs" "i \<notin> fst ` set ys" using assms by auto
  then show "map (\<lambda>(j, d). (j, if j = i then c' else d)) (xs @ (i, c) # ys) = xs @ (i, c') # ys"
    "filter (\<lambda>(j, _). j \<noteq> i) (xs @ (i, c) # ys) = xs @ ys"
    by (simp_all add: replace_none)
qed

text \<open>One consumer and all the rest.\<close>

definition others :: "nat \<Rightarrow> ('w \<Rightarrow> shared_msg multiset) \<Rightarrow> source \<Rightarrow> 'w \<Rightarrow> shared_msg multiset" where
  "others i own s w = own w + (cs_held (filter (\<lambda>(j, _). j \<noteq> i) (so_consumers s))
     + gop_held s + mix_held s + mc_held (so_meta s))"

lemma one_consumer:
  assumes ok: "so_ok own ((s, w), h) M" and i: "map_of (so_consumers s) i = Some c"
  shows "co_ok (c, h) (others i own s w + M)"
    and "\<And>c' h' N. co_ok (c', h') (others i own s w + N) \<Longrightarrow> same_types (others i own s w) h h' \<Longrightarrow>
      so_ok own ((s\<lparr>so_consumers := map (\<lambda>(j, d). (j, if j = i then c' else d)) (so_consumers s)\<rparr>, w), h') N"
    and "so_ok own ((s\<lparr>so_consumers := filter (\<lambda>(j, _). j \<noteq> i) (so_consumers s)\<rparr>, w), h) (mset (mq_list (co_queue c)) + M)"
proof -
  from map_of_SomeD [OF i] obtain xs ys where cs: "so_consumers s = xs @ (i, c) # ys"
    by (auto simp: in_set_conv_decomp)
  have pl: "players_ok s" by (rule so_okD [OF ok])
  then have d: "distinct (map fst (xs @ (i, c) # ys))" by (simp add: players_ok_def cs)
  note rep = replace_consumer [OF d]
  have oth: "others i own s w = own w + (cs_held xs + cs_held ys + gop_held s + mix_held s + mc_held (so_meta s))"
    unfolding others_def cs rep by simp
  have good: "co_good c" using pl by (simp add: players_ok_def cs)
  show "co_ok (c, h) (others i own s w + M)"
    using so_okD(5) [OF ok] good by (simp add: co_ok_iff oth cs ac_simps)
  show "so_ok own ((s\<lparr>so_consumers := map (\<lambda>(j, d). (j, if j = i then c' else d)) (so_consumers s)\<rparr>, w), h') N"
    if c': "co_ok (c', h') (others i own s w + N)" and st: "same_types (others i own s w) h h'" for c' h' N
  proof -
    have "owned h' (cs_held (xs @ (i, c') # ys) + (own w + (gop_held s + mix_held s + mc_held (so_meta s) + N)))"
      using c' by (simp add: co_ok_iff oth ac_simps)
    moreover have "same_types (gop_held s + mix_held s) h h'"
      by (rule same_types_mono [OF st]) (simp add: oth ac_simps subset_mset.add_increasing)
    moreover have "players_ok (s\<lparr>so_consumers := xs @ (i, c') # ys, so_next := so_next s\<rparr>)"
      using pl c' by (auto simp: players_ok_def cs co_ok_iff)
    ultimately have "so_ok own ((s\<lparr>so_consumers := xs @ (i, c') # ys, so_next := so_next s\<rparr>, w), h') N"
      by (rule so_ok_consumers [OF ok])
    then show ?thesis unfolding cs rep by simp
  qed
  have "owned h (cs_held (xs @ ys) + (own w + (gop_held s + mix_held s + mc_held (so_meta s) + (mset (mq_list (co_queue c)) + M))))"
    using so_okD(5) [OF ok] by (simp add: cs ac_simps)
  moreover have "same_types (gop_held s + mix_held s) h h" by simp
  moreover have "players_ok (s\<lparr>so_consumers := xs @ ys, so_next := so_next s\<rparr>)"
    using pl by (auto simp: players_ok_def cs)
  ultimately have "so_ok own ((s\<lparr>so_consumers := xs @ ys, so_next := so_next s\<rparr>, w), h) (mset (mq_list (co_queue c)) + M)"
    by (rule so_ok_consumers [OF ok])
  then show "so_ok own ((s\<lparr>so_consumers := filter (\<lambda>(j, _). j \<noteq> i) (so_consumers s)\<rparr>, w), h) (mset (mq_list (co_queue c)) + M)"
    unfolding cs rep by simp
qed

lemma on_consumer_eq:
  "on_consumer i m ((s, w), h) = (case m (the (map_of (so_consumers s) i), h) of
     (r, (c', h')) \<Rightarrow> (r, ((s\<lparr>so_consumers := map (\<lambda>(j, d). (j, if j = i then c' else d)) (so_consumers s)\<rparr>, w), h')))"
  by (simp add: on_consumer_def prog_simps)

lemma map_of_replace: "map_of (map (\<lambda>(j, d). (j, if j = i then c' else d)) cs) i = map_option (\<lambda>_. c') (map_of cs i)"
  by (induction cs) auto

text \<open>Copying several messages to one consumer.\<close>

lemma safe_enqueue_all:
  assumes ok: "so_ok own ((s, w), h) M" and i: "map_of (so_consumers s) i \<noteq> None"
    and ms: "set ms \<subseteq> set_mset (gop_held s + mc_held (so_meta s) + M)"
  obtains c h' where "on_consumer i (enqueue_all ms atc ag) ((s, w), h)
      = (Inr (), ((s\<lparr>so_consumers := map (\<lambda>(j, d). (j, if j = i then c else d)) (so_consumers s)\<rparr>, w), h'))"
    "so_ok own ((s\<lparr>so_consumers := map (\<lambda>(j, d). (j, if j = i then c else d)) (so_consumers s)\<rparr>, w), h') M"
    "same_types (others i own s w + M) h h'"
    "player_of h' c = fold (player_receive atc ag) (map (frame_in h) ms) (player_of h (the (map_of (so_consumers s) i)))"
proof -
  from i obtain c where c: "map_of (so_consumers s) i = Some c" by auto
  have "set ms \<subseteq> set_mset (others i own s w + M)" using ms by (auto simp: others_def)
  from enqueue_all_player [OF one_consumer(1) [OF ok c] this] obtain c' h' where
    e: "enqueue_all ms atc ag (c, h) = (Inr (), (c', h'))" "co_ok (c', h') (others i own s w + M)"
      "same_types (others i own s w + M) h h'"
      "player_of h' c' = fold (player_receive atc ag) (map (frame_in h) ms) (player_of h c)" by blast
  have "same_types (others i own s w) h h'" by (rule same_types_mono [OF e(3)]) simp
  from that [OF _ one_consumer(2) [OF ok c e(2) this] e(3)] e(1,4) c show thesis by (simp add: on_consumer_eq)
qed

lemma so_ok_new_consumer:
  assumes "so_ok own ((s, w), h) M" and "0 \<le> cf_queue_length_ms cf"
  shows "so_ok own ((s\<lparr>so_next := Suc (so_next s), so_consumers := so_consumers s
      @ [(so_next s, consumer_set_queue_size (cf_queue_length_ms cf) consumer_new)]\<rparr>, w), h) M"
proof -
  let ?c = "consumer_set_queue_size (cf_queue_length_ms cf) consumer_new"
  have new: "mq_list (co_queue ?c) = []" "co_good ?c"
    using assms(2) by (simp_all add: consumer_set_queue_size_def consumer_new_def mq_new_def mq_set_queue_size_def
        co_good_def fast.ok_empty fast.content_empty)
  have pl: "players_ok s" by (rule so_okD [OF assms(1)])
  have "owned h (cs_held (so_consumers s @ [(so_next s, ?c)]) + (own w + (gop_held s + mix_held s + mc_held (so_meta s) + M)))"
    using so_okD(5) [OF assms(1)] new by simp
  moreover have "same_types (gop_held s + mix_held s) h h" by simp
  moreover have "players_ok (s\<lparr>so_consumers := so_consumers s @ [(so_next s, ?c)], so_next := Suc (so_next s)\<rparr>)"
    using pl new by (force simp: players_ok_def)
  ultimately have "so_ok own ((s\<lparr>so_consumers := so_consumers s @ [(so_next s, ?c)], so_next := Suc (so_next s)\<rparr>, w), h) M"
    by (rule so_ok_consumers [OF assms(1)])
  moreover have "s\<lparr>so_consumers := cs, so_next := n\<rparr> = s\<lparr>so_next := n, so_consumers := cs\<rparr>" for cs n by simp
  ultimately show ?thesis by simp
qed

lemma gop_in_held: "set (gc_msgs (so_gop_cache s)) \<subseteq> set_mset (gop_held s)"
  by (simp add: gop_held_def)

lemma dump_in_held: "set (mc_dump_list c dm ds) \<subseteq> set_mset (mc_held c)"
  using mc_dump_held [of c dm ds] by (auto dest: mset_subset_eqD)

lemma so_ok_retime_all:
  assumes "so_ok own ((s, w), h) M"
  shows "so_ok own ((s\<lparr>so_meta := \<lparr>mc_meta = retime t (mc_meta (so_meta s)), mc_video = retime t (mc_video (so_meta s)),
      mc_audio = retime t (mc_audio (so_meta s))\<rparr>\<rparr>, w), h) M"
  by (rule so_ok_retime [OF assms refl]) (intro exI [of _ True], simp)

text \<open>A joining player, without the edge: nothing can fail, and only it is changed.\<close>

definition join_state :: "vhost_config \<Rightarrow> source \<Rightarrow> source" where
  "join_state cf s = (let s1 = s\<lparr>so_next := Suc (so_next s), so_consumers := so_consumers s
      @ [(so_next s, consumer_set_queue_size (cf_queue_length_ms cf) consumer_new)]\<rparr>;
      t = gop_cache_start_time (so_gop_cache s)
    in if so_atc s \<and> \<not> gop_cache_empty (so_gop_cache s)
      then s1\<lparr>so_meta := \<lparr>mc_meta = retime t (mc_meta (so_meta s)), mc_video = retime t (mc_video (so_meta s)),
        mc_audio = retime t (mc_audio (so_meta s))\<rparr>\<rparr> else s1)"

definition join_list :: "source \<Rightarrow> bool \<Rightarrow> bool \<Rightarrow> bool \<Rightarrow> shared_msg list" where
  "join_list s ds dm dg = mc_dump_list (so_meta s) dm ds @ (if dg then gc_msgs (so_gop_cache s) else [])"

lemma join_state_ok:
  assumes "so_ok own ((s, w), h) M" and "0 \<le> cf_queue_length_ms cf"
  shows "so_ok own ((join_state cf s, w), h) M"
proof -
  note ok = so_ok_new_consumer [OF assms]
  show ?thesis
  proof (cases "so_atc s \<and> \<not> gop_cache_empty (so_gop_cache s)")
    case True
    with so_ok_retime_all [OF ok, of "gop_cache_start_time (so_gop_cache s)"] show ?thesis
      by (simp add: join_state_def Let_def)
  next
    case False
    with ok show ?thesis by (auto simp: join_state_def Let_def)
  qed
qed

lemma join_state_parts [simp]:
  "so_gop_cache (join_state cf s) = so_gop_cache s" "so_atc (join_state cf s) = so_atc s"
  "so_jitter_algorithm (join_state cf s) = so_jitter_algorithm s" "so_next (join_state cf s) = Suc (so_next s)"
  "so_consumers (join_state cf s) = so_consumers s
     @ [(so_next s, consumer_set_queue_size (cf_queue_length_ms cf) consumer_new)]"
  by (simp_all add: join_state_def Let_def)

lemma joined:
  assumes "players_ok s"
  shows "map_of (so_consumers (join_state cf s)) (so_next s) = Some (consumer_set_queue_size (cf_queue_length_ms cf) consumer_new)"
proof -
  have "map_of (so_consumers s) (so_next s) = None"
    using assms unfolding map_of_eq_None_iff by (auto simp: players_ok_def)
  then show ?thesis by (simp add: map_add_def)
qed

lemma on_meta_updP: "bindP (on_meta (updP u)) k ((s, w), h) = k () ((s\<lparr>so_meta := u (so_meta s)\<rparr>, w), h)"
  by (simp add: bindP_def prog_simps)

lemma source_create_consumer_eq:
  assumes "players_ok s"
  shows "source_create_consumer env cf ds dm dg ((s, w), h) =
    bindP (on_consumer (so_next s) (enqueue_all (join_list (join_state cf s) ds dm dg) (so_atc s) (so_jitter_algorithm s)))
      (\<lambda>_. bindP (if cf_is_edge cf then on_ext (ev_call env PlayEdge_on_client_play) else returnP ())
        (\<lambda>_. returnP (so_next s))) ((join_state cf s, w), h)"
proof -
  let ?i = "so_next s" and ?s = "join_state cf s"
  have two: "bindP (on_consumer ?i (enqueue_all xs a ag)) (\<lambda>_. bindP (on_consumer ?i (enqueue_all ys a ag)) k) ((?s, w), h)
      = bindP (on_consumer ?i (enqueue_all (xs @ ys) a ag)) k ((?s, w), h)"
    for xs ys :: "shared_msg list" and a ag and k :: "unit \<Rightarrow> ('a, nat) so_prog"
  proof -
    obtain c where c: "map_of (so_consumers ?s) ?i = Some c" using joined [OF assms] by blast
    have twice: "(\<lambda>x. case case x of (j, d) \<Rightarrow> (j, if j = ?i then a else d) of (j, d) \<Rightarrow> (j, if j = ?i then b else d))
        = (\<lambda>(j, d). (j, if j = ?i then b else d))" for a b :: consumer
      by auto
    show ?thesis
      by (auto simp: enqueue_all_append bindP_def on_consumer_eq c map_of_replace o_def twice
          simp del: join_state_parts split: prod.splits sum.splits)
  qed
  have run: "source_create_consumer env cf ds dm dg ((s, w), h) =
    bindP (on_consumer ?i (enqueue_all (mc_dump_list (so_meta ?s) dm ds) (so_atc s) (so_jitter_algorithm s)))
     (\<lambda>_. bindP (if dg then on_consumer ?i (enqueue_all (gc_msgs (so_gop_cache s)) (so_atc s) (so_jitter_algorithm s)) else returnP ())
     (\<lambda>_. bindP (if cf_is_edge cf then on_ext (ev_call env PlayEdge_on_client_play) else returnP ())
     (\<lambda>_. returnP ?i))) ((?s, w), h)"
    by (cases "so_atc s"; cases "gop_cache_empty (so_gop_cache s)")
      (simp_all add: source_create_consumer_def so_prog_simps(1,2) on_meta_updP meta_cache_dumps_list gop_cache_dump_def
        join_state_def Let_def)
  show ?thesis
    using two [of "mc_dump_list (so_meta ?s) dm ds" "so_atc s" "so_jitter_algorithm s"]
    unfolding run by (cases dg) (simp_all add: join_list_def)
qed

lemma join_list_held: "set (join_list s ds dm dg) \<subseteq> set_mset (gop_held s + mc_held (so_meta s) + M)"
  using dump_in_held [of "so_meta s" dm ds] by (auto simp: join_list_def gop_held_def)

lemma safe_create_consumer:
  assumes law: "server_law (ev_call env) own E" and "so_ok own st M" and "0 \<le> cf_queue_length_ms cf"
  shows "safe own E M (source_create_consumer env cf ds dm dg st)"
proof -
  obtain s w h where st: "st = ((s, w), h)" by (cases st) auto
  note ok = assms(2) [unfolded st]
  note pl = so_okD(2) [OF ok]
  let ?s = "join_state cf s"
  have ok1: "so_ok own ((?s, w), h) M" by (rule join_state_ok [OF ok assms(3)])
  have "map_of (so_consumers ?s) (so_next s) \<noteq> None" by (simp only: joined [OF pl]) simp
  then obtain c h' where
    e: "on_consumer (so_next s) (enqueue_all (join_list ?s ds dm dg) (so_atc s) (so_jitter_algorithm s)) ((?s, w), h)
      = (Inr (), ((?s\<lparr>so_consumers := map (\<lambda>(j, d). (j, if j = so_next s then c else d)) (so_consumers ?s)\<rparr>, w), h'))"
      "so_ok own ((?s\<lparr>so_consumers := map (\<lambda>(j, d). (j, if j = so_next s then c else d)) (so_consumers ?s)\<rparr>, w), h') M"
    by (rule safe_enqueue_all [OF ok1 _ join_list_held])
  have edge: "safe own E M ((if b then on_ext (ev_call env PlayEdge_on_client_play) else returnP ()) st')"
    if "so_ok own st' M" for b st'
    using safe_call [OF law that, of PlayEdge_on_client_play] by (simp add: src_return [OF that])
  show ?thesis unfolding st source_create_consumer_eq [OF pl] 
      bindP_Inr [where m = "on_consumer (so_next s) (enqueue_all (join_list ?s ds dm dg) (so_atc s) (so_jitter_algorithm s))", OF e(1)]
    by (rule src_bind, rule edge [OF e(2)], rule src_return)
qed

lemma safe_die_at: "so_ok own st M \<Longrightarrow> safe own E M (set_die_at env st)"
  by (cases st) (auto simp: set_die_at_def prog_simps intro!: safe_Inr so_ok_fields)

lemma safe_die_if: "so_ok own st M \<Longrightarrow> safe own E M ((if b then set_die_at env else returnP ()) st)"
  by (simp add: safe_die_at src_return)

lemma safe_unpublish:
  assumes law: "server_law (ev_call env) own E" and "so_ok own st M"
  shows "safe own E M (source_on_unpublish env st)"
proof -
  obtain s w h where st: "st = ((s, w), h)" by (cases st) auto
  note ok = assms(2) [unfolded st]
  have tail: "safe own E M (bindP (so_get (\<lambda>s. so_consumers s = [])) (\<lambda>b. if b then set_die_at env else returnP ()) st)"
    if "so_ok own st M" for st
    using that safe_die_if [OF that] by (cases st) (auto simp: prog_simps)
  have upd: "safe own E M (so_upd (\<lambda>s. s\<lparr>so_can_publish := True, so_source_id := - 1\<rparr>) st)" if "so_ok own st M" for st
    by (rule safe_upd [OF that]) (use that in \<open>auto intro: so_ok_fields\<close>)
  have "safe own E M (bindP (void (on_ext (ev_call env Hub_on_unpublish)))
     (\<lambda>_. bindP (on_gop gop_cache_clear)
     (\<lambda>_. bindP (so_upd (\<lambda>s. s\<lparr>so_can_publish := True, so_source_id := - 1\<rparr>))
     (\<lambda>_. bindP (void (on_ext (ev_call env Stat_on_stream_close)))
     (\<lambda>_. bindP (void (on_ext (ev_call env Handler_on_unpublish)))
     (\<lambda>_. bindP (so_get (\<lambda>s. so_consumers s = []))
     (\<lambda>no_consumer. if no_consumer then set_die_at env else returnP ())))))) ((s, w), h))"
    by (rule src_bind, rule safe_void, rule safe_call [OF law ok], simp,
        rule src_bind, rule safe_gop_clear, assumption, rule src_bind, rule upd, assumption,
        rule src_bind, rule safe_void, rule safe_call [OF law], assumption, simp,
        rule src_bind, rule safe_void, rule safe_call [OF law], assumption, simp, rule tail)
  with ok show ?thesis by (simp add: source_on_unpublish_def st prog_simps safe_Inr)
qed

lemma safe_free_consumer:
  assumes law: "server_law (ev_call env) own E" and "so_ok own ((s, w), h) M" and i: "map_of (so_consumers s) i = Some c"
  shows "safe own E M (source_free_consumer env i ((s, w), h))"
proof -
  let ?s = "s\<lparr>so_consumers := filter (\<lambda>(j, _). j \<noteq> i) (so_consumers s)\<rparr>" and ?q = "mset (mq_list (co_queue c))"
  have ok1: "so_ok own ((?s, w), h) (?q + M)" by (rule one_consumer(3) [OF assms(2) i])
  have good: "co_good c" using one_consumer(1) [OF assms(2) i] by (simp add: co_ok_iff)
  have "safe own E (?q + M) ((if so_consumers ?s = []
      then bindP (void (on_ext (ev_call env PlayEdge_on_all_client_stop))) (\<lambda>_. set_die_at env) else returnP ()) ((?s, w), h))"
  proof (cases "so_consumers ?s = []")
    case True
    have "safe own E (?q + M) (bindP (void (on_ext (ev_call env PlayEdge_on_all_client_stop))) (\<lambda>_. set_die_at env) ((?s, w), h))"
      by (rule src_bind, rule safe_void, rule safe_call [OF law ok1], simp, rule safe_die_at)
    with True show ?thesis by simp
  qed (simp add: src_return [OF ok1])
  moreover have eq: "source_on_consumer_destroy env i ((s, w), h) = (if so_consumers ?s = []
      then bindP (void (on_ext (ev_call env PlayEdge_on_all_client_stop))) (\<lambda>_. set_die_at env) else returnP ()) ((?s, w), h)"
    by (simp add: source_on_consumer_destroy_def prog_simps)
  ultimately have d: "safe own E (?q + M) (source_on_consumer_destroy env i ((s, w), h))" by simp
  obtain r s1 w1 h1 where r: "source_on_consumer_destroy env i ((s, w), h) = (r, ((s1, w1), h1))"
    by (cases "source_on_consumer_destroy env i ((s, w), h)") auto
  have void_ok: "r = Inr ()"
    using r unfolding eq by (auto simp: void_def set_die_at_def updP_def prog_eqs bindP_def split: if_splits prod.splits)
  from d r have ok2: "so_ok own ((s1, w1), h1) (?q + M)" by (simp add: keeps_def)
  then have "owned h1 (?q + (own w1 + (so_held s1 + M)))" using so_okD(1) [OF ok2] by (simp add: ac_simps)
  then have "mq_ok (co_queue c, h1) (own w1 + (so_held s1 + M))" using good by (simp add: mq_ok_def co_good_def)
  then obtain q h2 where 2: "mq_clear (co_queue c, h1) = (Inr (), (q, h2))" "owned h2 (own w1 + (so_held s1 + M))"
    "same_types (own w1 + (so_held s1 + M)) h1 h2"
    by (rule mq_clear_spec) (simp add: mq_ok_def)
  have "same_types (so_held s1) h1 h2" by (rule same_types_mono [OF 2(3)]) (simp add: subset_mset.add_increasing)
  from so_ok_heap [OF ok2 2(2) this] show ?thesis
    by (simp add: source_free_consumer_def prog_simps i bindP_Inr [where m = "source_on_consumer_destroy env i", OF r [unfolded void_ok]]
        consumer_destroy_def on_queue_def 2(1) safe_Inr)
qed

text \<open>A player takes messages and frees them when they are sent.\<close>

definition player_takes :: "nat \<Rightarrow> int \<Rightarrow> int \<Rightarrow> ('w, unit) so_prog" where
  "player_takes i max0 n0 = bindP (source_consumer_dump i max0 n0) (\<lambda>(_, ms). on_shared (destroy_all ms))"

lemma safe_dump:
  assumes ok: "so_ok own ((s, w), h) M" and i: "map_of (so_consumers s) i = Some c" and "0 \<le> n0" and "0 < max0"
  obtains k ms s' where "source_consumer_dump i max0 n0 ((s, w), h) = (Inr (k, ms), ((s', w), h))"
    "so_ok own ((s', w), h) (mset ms + M)"
proof -
  obtain k ms c' where d: "consumer_dump_packets max0 n0 (c, h) = (Inr (k, ms), (c', h))"
    "co_ok (c', h) (mset ms + (others i own s w + M))"
    by (rule consumer_dump_spec [OF one_consumer(1) [OF ok i] assms(3,4) refl])
  have "co_ok (c', h) (others i own s w + (mset ms + M))" using d(2) by (simp add: ac_simps)
  from one_consumer(2) [OF ok i this] d(1) show thesis
    by (intro that) (simp_all add: source_consumer_dump_def prog_simps i on_consumer_eq)
qed

lemma safe_takes:
  assumes "so_ok own ((s, w), h) M" and "map_of (so_consumers s) i = Some c" and "0 \<le> n0" and "0 < max0"
  shows "safe own E M (player_takes i max0 n0 ((s, w), h))"
proof -
  obtain k ms s' where d: "source_consumer_dump i max0 n0 ((s, w), h) = (Inr (k, ms), ((s', w), h))"
    "so_ok own ((s', w), h) (mset ms + M)"
    by (rule safe_dump [OF assms])
  have "owned h (mset ms + (own w + (so_held s' + M)))" using so_okD(1) [OF d(2)] by (simp add: ac_simps)
  then obtain h' where h': "destroy_all ms h = (Inr (), h')" "owned h' (own w + (so_held s' + M))"
    "same_types (own w + (so_held s' + M)) h h'"
    by (rule owned_destroy_all)
  have "same_types (so_held s') h h'" by (rule same_types_mono [OF h'(3)]) (simp add: subset_mset.add_increasing)
  from so_ok_heap [OF d(2) h'(2) this] show ?thesis
    by (simp add: player_takes_def bindP_Inr [where m = "source_consumer_dump i max0 n0", OF d(1)] prog_simps h'(1) safe_Inr)
qed

lemma safe_pause:
  assumes ok: "so_ok own ((s, w), h) M" and i: "map_of (so_consumers s) i = Some c"
  shows "safe own E M (source_consumer_pause i b ((s, w), h))"
proof -
  have "co_ok (consumer_on_play_client_pause b c, h) (others i own s w + M)"
    using one_consumer(1) [OF ok i] by (simp add: co_ok_iff co_good_def consumer_on_play_client_pause_def)
  from one_consumer(2) [OF ok i this] show ?thesis
    by (simp add: source_consumer_pause_def prog_simps i on_consumer_eq safe_Inr)
qed

lemma safe_if: "so_ok own st M \<Longrightarrow> (b \<Longrightarrow> safe own E M (m st)) \<Longrightarrow> safe own E M ((if b then m else returnP ()) st)"
  by (simp add: src_return)

lemma safe_upd_any:
  assumes "so_ok own st M" and "\<And>s w h. so_ok own ((s, w), h) M \<Longrightarrow> so_ok own ((u s, w), h) M"
  shows "safe own E M (so_upd u st)"
  by (rule safe_upd [OF assms(1)]) (use assms in auto)

lemma safe_reload:
  assumes "so_ok own st M" and "0 \<le> cf_queue_length_ms cf"
  shows "safe own E M (source_on_reload_vhost_play cf vhost st)"
proof -
  obtain s w h where st: "st = ((s, w), h)" by (cases st) auto
  note ok = assms(1) [unfolded st]
  let ?f = "consumer_set_queue_size (cf_queue_length_ms cf)"
  have queue: "so_ok own ((s\<lparr>so_consumers := map (apsnd ?f) (so_consumers s)\<rparr>, w), h) M"
    if ok: "so_ok own ((s, w), h) M" for s w h
  proof (rule so_ok_upd [OF ok])
    show "cs_held (so_consumers (s\<lparr>so_consumers := map (apsnd ?f) (so_consumers s)\<rparr>)) = cs_held (so_consumers s)"
      by (simp, rule cs_held_map) (simp add: consumer_set_queue_size_def mq_set_queue_size_def)
    show "players_ok (s\<lparr>so_consumers := map (apsnd ?f) (so_consumers s)\<rparr>)"
      by (rule players_ok_map [OF so_okD(2) [OF ok]])
        (use assms(2) in \<open>simp add: co_good_def consumer_set_queue_size_def mq_set_queue_size_def\<close>)
  qed simp_all
  have "safe own E M (bindP (so_upd (\<lambda>s. s\<lparr>so_jitter_algorithm := cf_time_jitter cf\<rparr>))
          (\<lambda>_. bindP (if cf_mix_correct cf \<noteq> so_mix_correct s then on_mix mix_queue_clear else returnP ())
          (\<lambda>_. bindP (so_upd (\<lambda>s. s\<lparr>so_mix_correct := cf_mix_correct cf\<rparr>))
          (\<lambda>_. bindP (if cf_atc cf \<noteq> so_atc s then on_gop gop_cache_clear else returnP ())
          (\<lambda>_. bindP (so_upd (\<lambda>s. s\<lparr>so_atc := cf_atc cf\<rparr>))
          (\<lambda>_. bindP (if cf_gop_cache cf \<noteq> gop_cache_enabled (so_gop_cache s)
              then on_gop (gop_cache_set (cf_gop_cache cf)) else returnP ())
          (\<lambda>_. so_upd (\<lambda>s. s\<lparr>so_consumers := map (apsnd ?f) (so_consumers s)\<rparr>))))))) st)"
    by (rule src_bind, rule safe_upd_any [OF assms(1)], simp add: so_ok_fields,
        rule src_bind, rule safe_if, assumption, erule safe_mix_clear,
        rule src_bind, erule safe_upd_any, simp add: so_ok_fields,
        rule src_bind, rule safe_if, assumption, erule safe_gop_clear,
        rule src_bind, erule safe_upd_any, simp add: so_ok_fields,
        rule src_bind, rule safe_if, assumption, erule safe_gop_set,
        erule safe_upd_any, rule queue)
  then show ?thesis using assms(1)
    by (simp add: source_on_reload_vhost_play_def st so_prog_simps(1) safe_Inr prog_eqs)
qed

lemma safe_dispose:
  assumes law: "server_law (ev_call env) own E" and "so_ok own st M"
  shows "safe own E M (source_dispose env st)"
proof -
  have meta: "safe own E M (on_meta meta_cache_dispose st)" if "so_ok own st M" for st
  proof -
    obtain s w h where st: "st = ((s, w), h)" by (cases st) auto
    note ok = that [unfolded st]
    let ?R = "own w + (cs_held (so_consumers s) + gop_held s + mix_held s + M)"
    obtain h' where h': "meta_cache_dispose (so_meta s, h) = (Inr (), (meta_cache_new, h'))" "owned h' ?R" "same_types ?R h h'"
      by (rule meta_cache_dispose_spec [OF so_okD(6) [OF ok]])
    have "owned h' (own w + (mc_held meta_cache_new + (cs_held (so_consumers s) + gop_held s + mix_held s + M)))"
      using h'(2) by (simp add: mc_held_def meta_cache_new_def)
    moreover have "same_types (cs_held (so_consumers s) + gop_held s + mix_held s) h h'"
      by (rule same_types_mono [OF h'(3)]) (simp add: subset_mset.add_increasing)
    ultimately have "so_ok own ((s\<lparr>so_meta := meta_cache_new\<rparr>, w), h') M" by (rule so_ok_meta [OF ok])
    then show ?thesis by (simp add: st prog_simps h'(1) safe_Inr)
  qed
  show ?thesis unfolding source_dispose_def gop_cache_dispose_def
    by (rule src_bind, rule safe_void, rule safe_call [OF law assms(2)], simp, rule src_bind, erule meta, erule safe_gop_clear)
qed

lemma safe_initialize:
  assumes law: "server_law (ev_call env) own E" and "so_ok own st M"
  shows "safe own E M (source_initialize env cf st)"
  unfolding source_initialize_def
  by (rule src_bind, rule safe_upd_any [OF assms(2)], simp add: so_ok_fields,
      rule src_bind, erule safe_call [OF law], simp, rule src_bind, erule safe_call [OF law], simp,
      rule src_bind, erule safe_call [OF law], simp,
      rule src_bind, rule safe_void, erule safe_call [OF law], simp, erule safe_upd_any, simp add: so_ok_fields)

section \<open>The life of a source\<close>

datatype source_event =
    PublishStart
  | PublishStop
  | GotMetaData msg_header on_metadata
  | GotAudio common_msg
  | GotVideo common_msg
  | GotAggregate common_msg
  | PlayerJoins bool bool bool
  | PlayerLeaves nat
  | PlayerTakes nat int int
  | PlayerPauses nat bool
  | Reload vhost_config string
  | SetCache bool
  | EdgeStartPublish
  | EdgePublish common_msg
  | EdgeStopPublish
  | Cycle
  | Dispose

text \<open>A player uses its consumer only while it has one.\<close>

definition if_player :: "nat \<Rightarrow> ('w, unit) so_prog \<Rightarrow> ('w, unit) so_prog" where
  "if_player i m = bindP (so_get (\<lambda>s. map_of (so_consumers s) i)) (\<lambda>c. if c \<noteq> None then m else returnP ())"

fun source_do :: "'w env \<Rightarrow> vhost_config \<Rightarrow> (nat \<Rightarrow> byte) \<Rightarrow> source_event \<Rightarrow> ('w, unit) so_prog" where
  "source_do env cf junk PublishStart = source_on_publish env"
| "source_do env cf junk PublishStop = source_on_unpublish env"
| "source_do env cf junk (GotMetaData header metadata) = source_on_meta_data env cf junk header metadata"
| "source_do env cf junk (GotAudio cm) = source_on_audio env cf cm"
| "source_do env cf junk (GotVideo cm) = source_on_video env cf cm"
| "source_do env cf junk (GotAggregate cm) = source_on_aggregate env cf cm"
| "source_do env cf junk (PlayerJoins ds dm dg) = bindP (source_create_consumer env cf ds dm dg) (\<lambda>_. returnP ())"
| "source_do env cf junk (PlayerLeaves i) = if_player i (source_free_consumer env i)"
| "source_do env cf junk (PlayerTakes i mx n) = if_player i (player_takes i mx n)"
| "source_do env cf junk (PlayerPauses i b) = if_player i (source_consumer_pause i b)"
| "source_do env cf junk (Reload cf' vhost) = source_on_reload_vhost_play cf' vhost"
| "source_do env cf junk (SetCache b) = source_set_cache b"
| "source_do env cf junk EdgeStartPublish = source_on_edge_start_publish env"
| "source_do env cf junk (EdgePublish cm) = source_on_edge_proxy_publish env cm"
| "source_do env cf junk EdgeStopPublish = source_on_edge_proxy_unpublish env"
| "source_do env cf junk Cycle = source_cycle env"
| "source_do env cf junk Dispose = source_dispose env"

text \<open>Received messages are fully read; a player asks for a sensible number of messages.\<close>

fun event_ok :: "source_event \<Rightarrow> bool" where
  "event_ok (GotAudio cm) = cm_whole cm"
| "event_ok (GotVideo cm) = cm_whole cm"
| "event_ok (GotAggregate cm) = cm_whole cm"
| "event_ok (PlayerTakes i mx n) = (0 < mx \<and> 0 \<le> n)"
| "event_ok (Reload cf vhost) = (0 \<le> cf_queue_length_ms cf)"
| "event_ok _ = True"

text \<open>
  The operations one after the other, also after one that failed (after a fault the code does not go on, so that the model has more
  runs than the code). A reload first changes the configuration: from then on it has the new values for the virtual host
  of the source.
\<close>

fun config_after :: "source_event \<Rightarrow> vhost_config \<Rightarrow> vhost_config" where
  "config_after (Reload cf' vhost) cf = cf'"
| "config_after _ cf = cf"

lemma config_after_ok: "event_ok ev \<Longrightarrow> 0 \<le> cf_queue_length_ms cf \<Longrightarrow> 0 \<le> cf_queue_length_ms (config_after ev cf)"
  by (cases ev) simp_all

fun source_run :: "'w env \<Rightarrow> vhost_config \<Rightarrow> (nat \<Rightarrow> byte) \<Rightarrow> source_event list \<Rightarrow> (source \<times> 'w) \<times> sp_heap \<Rightarrow>
    unit res list \<times> (source \<times> 'w) \<times> sp_heap" where
  "source_run env cf junk [] st = ([], st)"
| "source_run env cf junk (ev # evs) st = (case source_do env cf junk ev st of
     (r, st') \<Rightarrow> (case source_run env (config_after ev cf) junk evs st' of (rs, st'') \<Rightarrow> (r # rs, st'')))"

text \<open>A source that was initialized is used; one that was not is freed.\<close>

definition source_life :: "'w env \<Rightarrow> vhost_config \<Rightarrow> (nat \<Rightarrow> byte) \<Rightarrow> string \<Rightarrow> source_event list \<Rightarrow> 'w \<Rightarrow>
    unit res list \<times> (source \<times> 'w) \<times> sp_heap" where
  "source_life env cf junk vhost evs w = (case source_initialize env cf ((source_new vhost, w), empty_heap) of
     (Inl e, st) \<Rightarrow> ([Inl e], st) | (Inr _, st) \<Rightarrow> source_run env cf junk evs st)"

lemma safe_if_player:
  assumes "so_ok own st M"
    and "\<And>s w h c. st = ((s, w), h) \<Longrightarrow> map_of (so_consumers s) i = Some c \<Longrightarrow> safe own E M (m st)"
  shows "safe own E M (if_player i m st)"
proof -
  obtain s w h where st: "st = ((s, w), h)" by (cases st) auto
  show ?thesis
    using assms(2) [OF st] assms(1) by (cases "map_of (so_consumers s) i")
      (auto simp: if_player_def st so_prog_simps(1) src_return)
qed

lemma safe_do:
  assumes law: "server_law (ev_call env) own E" and E: "E ERROR_RTMP_AGGREGATE" "E ERROR_KERNEL_STREAM_INIT"
    and ok: "so_ok own st M" and cf: "0 \<le> cf_queue_length_ms cf" and ev: "event_ok ev"
  shows "safe own E M (source_do env cf junk ev st)"
proof (cases ev)
  case (PlayerJoins ds dm dg)
  have "safe own E M (bindP (source_create_consumer env cf ds dm dg) (\<lambda>_. returnP ()) st)"
    by (rule src_bind, rule safe_create_consumer [OF law ok cf], rule src_return)
  with PlayerJoins show ?thesis by simp
next
  case (PlayerLeaves i)
  show ?thesis unfolding PlayerLeaves source_do.simps
    by (rule safe_if_player [OF ok]) (use safe_free_consumer [OF law] ok in simp)
next
  case (PlayerTakes i mx n)
  show ?thesis unfolding PlayerTakes source_do.simps
    by (rule safe_if_player [OF ok]) (use ev ok PlayerTakes in \<open>auto intro: safe_takes\<close>)
next
  case (PlayerPauses i b)
  show ?thesis unfolding PlayerPauses source_do.simps
    by (rule safe_if_player [OF ok]) (use safe_pause ok in simp)
next
  case EdgeStopPublish
  have "safe own E M (void (on_ext (ev_call env PublishEdge_on_proxy_unpublish)) st)"
    by (rule safe_void, rule safe_call [OF law ok]) simp
  with EdgeStopPublish show ?thesis by (simp add: source_on_edge_proxy_unpublish_def)
qed (use ev in \<open>simp_all add: safe_publish [OF law ok] safe_unpublish [OF law ok] safe_meta_data [OF law ok]
    safe_audio [OF law ok] safe_video [OF law ok] safe_aggregate [OF law E ok] safe_reload [OF ok]
    source_set_cache_def safe_gop_set [OF ok] source_on_edge_start_publish_def source_on_edge_proxy_publish_def
    source_cycle_def safe_call [OF law ok] safe_dispose [OF law ok]\<close>)

lemma source_run_safe:
  assumes law: "server_law (ev_call env) own E" and E: "E ERROR_RTMP_AGGREGATE" "E ERROR_KERNEL_STREAM_INIT"
    and cf: "0 \<le> cf_queue_length_ms cf" and "so_ok own st M" and "\<forall>ev \<in> set evs. event_ok ev"
  shows "case source_run env cf junk evs st of (rs, st') \<Rightarrow> so_ok own st' M \<and> (\<forall>e. Inl e \<in> set rs \<longrightarrow> E e)"
  using assms(4-6)
proof (induction evs arbitrary: st cf)
  case Nil
  then show ?case by simp
next
  case (Cons ev evs)
  obtain r st1 where r: "source_do env cf junk ev st = (r, st1)" by (cases "source_do env cf junk ev st")
  have "safe own E M (source_do env cf junk ev st)"
    by (rule safe_do [OF law E Cons.prems(2,1)]) (use Cons.prems(3) in simp)
  then have "so_ok own st1 M" "case r of Inl e \<Rightarrow> E e | Inr _ \<Rightarrow> True" by (simp_all add: r keeps_def)
  with Cons.IH [OF config_after_ok, of ev cf st1] Cons.prems(1,3) r show ?case
    by (cases r) (auto split: prod.splits)
qed

lemma so_ok_new: "owned h (own w + M) \<Longrightarrow> so_ok own ((source_new vhost, w), h) M"
  by (simp add: so_ok_def source_new_def so_held_def gop_held_def mix_held_def mc_held_def meta_cache_new_def
      gop_cache_new_def mix_queue_new_def players_ok_def gc_ok_def gc_frames_def gop_ok_def mx_ok_def mx_frames_def)

section \<open>The whole life\<close>

text \<open>A server that keeps a copy of every audio until the stream ends.\<close>

definition audio_keeper :: "shared_msg list server" where
  "audio_keeper c = (\<lambda>(w, h). case c of
     Hub_on_audio m \<Rightarrow> (case sm_copy m h of (Inl e, h') \<Rightarrow> (Inl e, (w, h')) | (Inr m', h') \<Rightarrow> (Inr (), (m' # w, h')))
   | Hub_on_unpublish \<Rightarrow> (case destroy_all w h of (r, h') \<Rightarrow> (r, ([], h')))
   | _ \<Rightarrow> (Inr (), (w, h)))"

lemma audio_keeper_law: "server_law audio_keeper mset E"
  unfolding server_law_def
proof (intro allI impI)
  fix c w h M assume ow: "owned h (mset w + M)" and sub: "ext_ok c M"
  show "case audio_keeper c (w, h) of (r, w', h') \<Rightarrow> owned h' (mset w' + M) \<and> same_types M h h'
      \<and> (case r of Inl e \<Rightarrow> E e | Inr _ \<Rightarrow> True)"
  proof (cases c)
    case (Hub_on_audio m)
    with sub have "m \<in># mset w + M" by simp
    with ow obtain h' where "sm_copy m h = (Inr m, h')" "owned h' (add_mset m (mset w + M))" "sm_type h' = sm_type h"
      by (rule owned_copy)
    with Hub_on_audio show ?thesis by (simp add: audio_keeper_def same_types_def)
  next
    case Hub_on_unpublish
    from ow obtain h' where "destroy_all w h = (Inr (), h')" "owned h' M" "same_types M h h'"
      by (rule owned_destroy_all)
    with Hub_on_unpublish show ?thesis by (simp add: audio_keeper_def)
  qed (use ow in \<open>simp_all add: audio_keeper_def\<close>)
qed

text \<open>
  Whatever the errors \<open>E\<close> of the rest of the server are, a source adds two of its own to them, and
  no fault.
\<close>

definition source_errors :: "srs_error set" where
  "source_errors = {ERROR_RTMP_AGGREGATE, ERROR_KERNEL_STREAM_INIT}"

lemma server_law_mono:
  assumes "server_law ext own E" and "\<And>e. E e \<Longrightarrow> E' e"
  shows "server_law ext own E'"
  unfolding server_law_def
proof (intro allI impI)
  fix c w h M assume "owned h (own w + M)" "ext_ok c M"
  with assms(1) obtain r w' h' where "ext c (w, h) = (r, (w', h'))" "owned h' (own w' + M)" "same_types M h h'"
    "case r of Inl e \<Rightarrow> E e | Inr _ \<Rightarrow> True"
    by (rule server_lawD)
  with assms(2) show "case ext c (w, h) of (r, w', h') \<Rightarrow> owned h' (own w' + M) \<and> same_types M h h'
      \<and> (case r of Inl e \<Rightarrow> E' e | Inr _ \<Rightarrow> True)"
    by (auto split: sum.splits)
qed

lemma source_life_safe:
  assumes "server_law (ev_call env) own E" and "own w = {#}"
    and "0 \<le> cf_queue_length_ms cf" and "\<forall>ev \<in> set evs. event_ok ev"
  shows "case source_life env cf junk vhost evs w of
    (rs, ((s, w'), h)) \<Rightarrow> (\<forall>e. Inl e \<in> set rs \<longrightarrow> E e \<or> e \<in> source_errors)
      \<and> owned h (own w' + cs_held (so_consumers s) + gop_held s + mix_held s + mc_held (so_meta s))
      \<and> gc_video_count (so_gop_cache s) = int (length (filter (is_video_in h) (gc_msgs (so_gop_cache s))))
      \<and> length (mx_msgs (so_mix_queue s)) \<le> 9"
proof -
  let ?E = "\<lambda>e. E e \<or> e \<in> source_errors"
  have law: "server_law (ev_call env) own ?E" by (rule server_law_mono [OF assms(1)]) simp
  have "so_ok own ((source_new vhost, w), empty_heap) {#}"
    by (rule so_ok_new) (simp add: assms(2) owned_empty)
  then have init: "safe own ?E {#} (source_initialize env cf ((source_new vhost, w), empty_heap))"
    by (rule safe_initialize [OF law])
  obtain r st where i: "source_initialize env cf ((source_new vhost, w), empty_heap) = (r, st)"
    by (cases "source_initialize env cf ((source_new vhost, w), empty_heap)")
  with init have ok0: "so_ok own st {#}" and e0: "case r of Inl e \<Rightarrow> ?E e | Inr _ \<Rightarrow> True"
    by (simp_all add: keeps_def)
  have rep: "?E ERROR_RTMP_AGGREGATE" "?E ERROR_KERNEL_STREAM_INIT" by (simp_all add: source_errors_def)
  have "case source_run env cf junk evs st of (rs, st') \<Rightarrow> so_ok own st' {#} \<and> (\<forall>e. Inl e \<in> set rs \<longrightarrow> ?E e)"
    by (rule source_run_safe [OF law rep assms(3) ok0 assms(4)])
  then obtain rs s w' h where r: "source_life env cf junk vhost evs w = (rs, ((s, w'), h))"
    and ok: "so_ok own ((s, w'), h) {#}" and e: "\<forall>e. Inl e \<in> set rs \<longrightarrow> ?E e"
    using ok0 e0 by (cases st; cases r) (auto simp: source_life_def i split: prod.splits)
  have "filter (fr_video \<circ> frame_in h) (gc_msgs (so_gop_cache s)) = filter (is_video_in h) (gc_msgs (so_gop_cache s))"
    by (rule filter_cong) (use kind_frame(1) [OF so_okD(1) [OF ok]] in \<open>simp_all add: so_held_def gop_held_def\<close>)
  then have "gc_video_count (so_gop_cache s) = int (length (filter (is_video_in h) (gc_msgs (so_gop_cache s))))"
    using so_okD(3) [OF ok] by (simp add: gc_ok_def gc_frames_def filter_map o_def)
  moreover have "length (mx_msgs (so_mix_queue s)) \<le> 9" using so_okD(4) [OF ok] by (simp add: mx_ok_def)
  ultimately show ?thesis using so_okD(1) [OF ok] r e by (simp add: so_held_def ac_simps)
qed

end
