(* ===== verification/Srs_Stream.thy ===== *)
theory Srs_Stream
  imports Srs_Source_Safety
begin

text \<open>
  What a live stream is for its publisher and its players: frames. An abstract stream has no
  shared payloads, counters or callbacks; the source implements it (\<^verbatim>\<open>Srs_Source_Delivery\<close>).
\<close>

section \<open>The abstract stream\<close>

record stream =
  ss_vhost :: string
  ss_live :: bool
  ss_atc :: bool
  ss_jitter :: jitter_algorithm
  ss_mixing :: bool
  ss_mix :: "frame list"
  ss_caching :: bool
  ss_group :: "frame list"
  ss_metadata :: "frame option"
  ss_audio :: "frame option"
  ss_video :: "frame option"
  ss_next :: nat
  ss_players :: "(nat \<times> player) list"

text \<open>A frame for all players.\<close>

definition stream_copy :: "frame \<Rightarrow> stream \<Rightarrow> stream" where
  "stream_copy f S = S\<lparr>ss_players := map (apsnd (player_receive (ss_atc S) (ss_jitter S) f)) (ss_players S)\<rparr>"

definition stream_cache :: "frame \<Rightarrow> stream \<Rightarrow> stream" where
  "stream_cache f S = S\<lparr>ss_group := (if ss_caching S then gop_step (ss_group S) f else ss_group S)\<rparr>"

text \<open>A repeated header is for nobody, if headers are to be reduced.\<close>

definition same_bytes :: "frame option \<Rightarrow> frame \<Rightarrow> bool" where
  "same_bytes c f \<longleftrightarrow> map_option fr_bytes c = Some (fr_bytes f)"

abbreviation retimed :: "64 word \<Rightarrow> frame option \<Rightarrow> frame option" where
  "retimed t \<equiv> map_option (fr_at t)"

text \<open>
  Audio: for the players; the first one or a header is kept for those who join; other audio
  joins the group, and with absolute times moves the header and the metadata.
\<close>

definition stream_audio :: "bool \<Rightarrow> frame \<Rightarrow> stream \<Rightarrow> stream" where
  "stream_audio reduce f S =
     (let sh = on_bytes SrsFlvAudio_sh f;
          S = (if sh \<and> reduce \<and> same_bytes (ss_audio S) f then S else stream_copy f S);
          S = (if sh \<or> ss_audio S = None then S\<lparr>ss_audio := Some f\<rparr> else S)
      in if sh then S
         else let S = stream_cache f S
           in if ss_atc S then S\<lparr>ss_audio := retimed (fr_time f) (ss_audio S),
                ss_metadata := retimed (fr_time f) (ss_metadata S)\<rparr> else S)"

definition stream_video :: "bool \<Rightarrow> frame \<Rightarrow> stream \<Rightarrow> stream" where
  "stream_video reduce f S =
     (let sh = on_bytes SrsFlvVideo_sh f; repeated = sh \<and> reduce \<and> same_bytes (ss_video S) f;
          S = (if sh then S\<lparr>ss_video := Some f\<rparr> else S);
          S = (if repeated then S else stream_copy f S)
      in if sh then S
         else let S = stream_cache f S
           in if ss_atc S then S\<lparr>ss_video := retimed (fr_time f) (ss_video S),
                ss_metadata := retimed (fr_time f) (ss_metadata S)\<rparr> else S)"

definition stream_av :: "bool \<Rightarrow> frame \<Rightarrow> stream \<Rightarrow> stream" where
  "stream_av reduce f S = (if fr_audio f then stream_audio reduce f S else stream_video reduce f S)"

text \<open>With mixing, a frame waits until the frames that may come before it have come.\<close>

definition stream_got :: "bool \<Rightarrow> frame \<Rightarrow> stream \<Rightarrow> stream" where
  "stream_got reduce f S =
     (if \<not> ss_mixing S then stream_av reduce f S
      else let fs = mx_insert f (ss_mix S)
        in if mx_ready fs then stream_av reduce (hd fs) (S\<lparr>ss_mix := tl fs\<rparr>) else S\<lparr>ss_mix := fs\<rparr>)"

text \<open>What a received message is to the stream: audio, acceptable video, nothing else.\<close>

definition cm_frame :: "common_msg \<Rightarrow> frame" where
  "cm_frame cm = (mh_message_type (cm_header cm), mh_timestamp (cm_header cm),
     (case cm_payload cm of None \<Rightarrow> [] | Some arr \<Rightarrow> map the arr))"

definition stream_msg :: "bool \<Rightarrow> frame \<Rightarrow> stream \<Rightarrow> stream" where
  "stream_msg reduce f S =
     (if fr_audio f \<or> fr_video f \<and> on_bytes SrsFlvVideo_acceptable f then stream_got reduce f S else S)"

definition stream_metadata :: "vhost_config \<Rightarrow> on_metadata \<Rightarrow> frame \<Rightarrow> stream \<Rightarrow> stream" where
  "stream_metadata cf p f S =
     (let S = S\<lparr>ss_atc := cf_atc cf \<or> bravo_atc cf p, ss_metadata := Some f\<rparr>
      in if cf_reduce_sequence_header cf then S else stream_copy f S)"

definition metadata_frame :: "msg_header \<Rightarrow> on_metadata \<Rightarrow> frame" where
  "metadata_frame header p = (mh_message_type header, mh_timestamp header, packet_enc (OnMetaData (metadata_stamp p)))"

text \<open>The messages of an aggregate, up to the first that is cut off.\<close>

fun aggregate_parts :: "msg_header \<Rightarrow> nat \<Rightarrow> sbuf \<Rightarrow> 32 word \<Rightarrow> common_msg list" where
  "aggregate_parts header 0 s delta = []"
| "aggregate_parts header (Suc n) s delta = (if buf_empty s then []
     else case aggregate_next header s delta of Inl e \<Rightarrow> []
       | Inr (m, delta, s) \<Rightarrow> m # aggregate_parts header n s delta)"

definition aggregate_msgs :: "common_msg \<Rightarrow> common_msg list" where
  "aggregate_msgs cm = (case bindR (payload_view (cm_payload cm)) buf_initialize of
     Inl e \<Rightarrow> [] | Inr s \<Rightarrow> aggregate_parts (cm_header cm) (Suc (length (sb_bytes s))) s (- 1))"

text \<open>
  A player that joins gets the metadata, the audio header, the video header and the group, in
  this order. With absolute times, the headers get the time of the group first.
\<close>

definition stream_join :: "vhost_config \<Rightarrow> bool \<Rightarrow> bool \<Rightarrow> bool \<Rightarrow> stream \<Rightarrow> stream" where
  "stream_join cf ds dm dg S =
     (let t = (case ss_group S of [] \<Rightarrow> 0 | f # fs \<Rightarrow> fr_time f);
          S = (if ss_atc S \<and> ss_group S \<noteq> [] then S\<lparr>ss_metadata := retimed t (ss_metadata S),
            ss_audio := retimed t (ss_audio S), ss_video := retimed t (ss_video S)\<rparr> else S);
          fs = (if dm then (case ss_metadata S of None \<Rightarrow> [] | Some f \<Rightarrow> [f]) else [])
            @ (if ds then (case ss_audio S of None \<Rightarrow> [] | Some f \<Rightarrow> [f])
                 @ (case ss_video S of None \<Rightarrow> [] | Some f \<Rightarrow> [f]) else [])
            @ (if dg then ss_group S else []);
          p = fold (player_receive (ss_atc S) (ss_jitter S)) fs (player_new (cf_queue_length_ms cf))
      in S\<lparr>ss_next := Suc (ss_next S), ss_players := ss_players S @ [(ss_next S, p)]\<rparr>)"

definition with_player :: "nat \<Rightarrow> (player \<Rightarrow> player) \<Rightarrow> stream \<Rightarrow> stream" where
  "with_player i g S = S\<lparr>ss_players := map (\<lambda>(j, p). (j, if j = i then g p else p)) (ss_players S)\<rparr>"

text \<open>A player that takes \<open>n\<close> frames (0: as many as it has room for) sees them in order.\<close>

definition player_take :: "int \<Rightarrow> int \<Rightarrow> player \<Rightarrow> player" where
  "player_take mx n p =
     (let fs = take (nat (if n \<noteq> 0 then min n mx else mx)) (pl_frames p)
      in if pl_paused p \<or> pl_frames p = [] then p
         else p\<lparr>pl_frames := drop (length fs) (pl_frames p), pl_start := fr_time (last fs)\<rparr>)"

definition player_resize :: "int \<Rightarrow> player \<Rightarrow> player" where
  "player_resize ms p = p\<lparr>pl_size := ms\<rparr>"

definition stream_reload :: "vhost_config \<Rightarrow> stream \<Rightarrow> stream" where
  "stream_reload cf S = S\<lparr>
     ss_jitter := cf_time_jitter cf,
     ss_mix := (if cf_mix_correct cf \<noteq> ss_mixing S then [] else ss_mix S),
     ss_mixing := cf_mix_correct cf,
     ss_group := (if cf_atc cf \<noteq> ss_atc S \<or> ss_caching S \<and> \<not> cf_gop_cache cf then [] else ss_group S),
     ss_atc := cf_atc cf,
     ss_caching := cf_gop_cache cf,
     ss_players := map (apsnd (player_resize (cf_queue_length_ms cf))) (ss_players S)\<rparr>"

fun stream_do :: "vhost_config \<Rightarrow> source_event \<Rightarrow> stream \<Rightarrow> stream" where
  "stream_do cf PublishStart S = S\<lparr>ss_live := True, ss_mix := []\<rparr>"
| "stream_do cf PublishStop S = (if ss_live S then S\<lparr>ss_live := False, ss_group := []\<rparr> else S)"
| "stream_do cf (GotMetaData header p) S = stream_metadata cf p (metadata_frame header p) S"
| "stream_do cf (GotAudio cm) S = stream_msg (cf_reduce_sequence_header cf) (cm_frame cm) S"
| "stream_do cf (GotVideo cm) S = stream_msg (cf_reduce_sequence_header cf) (cm_frame cm) S"
| "stream_do cf (GotAggregate cm) S =
     fold (\<lambda>m. stream_msg (cf_reduce_sequence_header cf) (cm_frame m)) (aggregate_msgs cm) S"
| "stream_do cf (PlayerJoins ds dm dg) S = stream_join cf ds dm dg S"
| "stream_do cf (PlayerLeaves i) S = S\<lparr>ss_players := filter (\<lambda>(j, p). j \<noteq> i) (ss_players S)\<rparr>"
| "stream_do cf (PlayerTakes i mx n) S = with_player i (player_take mx n) S"
| "stream_do cf (PlayerPauses i b) S = with_player i (\<lambda>p. p\<lparr>pl_paused := b\<rparr>) S"
| "stream_do cf (Reload cf' vhost) S = (if ss_vhost S = vhost then stream_reload cf' S else S)"
| "stream_do cf (SetCache b) S = S\<lparr>ss_caching := b, ss_group := (if b then ss_group S else [])\<rparr>"
| "stream_do cf Dispose S = S\<lparr>ss_metadata := None, ss_audio := None, ss_video := None, ss_group := []\<rparr>"
| "stream_do cf _ S = S"

text \<open>A history of a stream; a reload changes the configuration for what comes after it.\<close>

fun stream_run :: "vhost_config \<Rightarrow> source_event list \<Rightarrow> stream \<Rightarrow> stream" where
  "stream_run cf [] S = S"
| "stream_run cf (ev # evs) S = stream_run (config_after ev cf) evs (stream_do cf ev S)"

definition stream_new :: "vhost_config \<Rightarrow> string \<Rightarrow> stream" where
  "stream_new cf vhost = \<lparr>ss_vhost = vhost, ss_live = False, ss_atc = cf_atc cf, ss_jitter = cf_time_jitter cf,
     ss_mixing = cf_mix_correct cf, ss_mix = [], ss_caching = gc_enable gop_cache_new, ss_group = [],
     ss_metadata = None, ss_audio = None, ss_video = None, ss_next = 0, ss_players = []\<rparr>"

section \<open>The stream of a source\<close>

definition stream_of :: "(source \<times> 'w) \<times> sp_heap \<Rightarrow> stream" where
  "stream_of st = (case st of ((s, w), h) \<Rightarrow> \<lparr>ss_vhost = so_vhost s, ss_live = (\<not> so_can_publish s),
     ss_atc = so_atc s, ss_jitter = so_jitter_algorithm s, ss_mixing = so_mix_correct s,
     ss_mix = mx_frames (so_mix_queue s, h), ss_caching = gc_enable (so_gop_cache s),
     ss_group = gc_frames (so_gop_cache s, h),
     ss_metadata = map_option (frame_in h) (mc_meta (so_meta s)),
     ss_audio = map_option (frame_in h) (mc_audio (so_meta s)),
     ss_video = map_option (frame_in h) (mc_video (so_meta s)),
     ss_next = so_next s, ss_players = players_of h (so_consumers s)\<rparr>)"

lemma stream_of_sel [simp]:
  "ss_vhost (stream_of ((s, w), h)) = so_vhost s" "ss_live (stream_of ((s, w), h)) = (\<not> so_can_publish s)"
  "ss_atc (stream_of ((s, w), h)) = so_atc s" "ss_jitter (stream_of ((s, w), h)) = so_jitter_algorithm s"
  "ss_mixing (stream_of ((s, w), h)) = so_mix_correct s" "ss_mix (stream_of ((s, w), h)) = mx_frames (so_mix_queue s, h)"
  "ss_caching (stream_of ((s, w), h)) = gc_enable (so_gop_cache s)"
  "ss_group (stream_of ((s, w), h)) = gc_frames (so_gop_cache s, h)"
  "ss_metadata (stream_of ((s, w), h)) = map_option (frame_in h) (mc_meta (so_meta s))"
  "ss_audio (stream_of ((s, w), h)) = map_option (frame_in h) (mc_audio (so_meta s))"
  "ss_video (stream_of ((s, w), h)) = map_option (frame_in h) (mc_video (so_meta s))"
  "ss_next (stream_of ((s, w), h)) = so_next s" "ss_players (stream_of ((s, w), h)) = players_of h (so_consumers s)"
  by (simp_all add: stream_of_def)

lemma stream_eqI:
  assumes "ss_vhost S = ss_vhost T" "ss_live S = ss_live T" "ss_atc S = ss_atc T" "ss_jitter S = ss_jitter T"
    "ss_mixing S = ss_mixing T" "ss_mix S = ss_mix T" "ss_caching S = ss_caching T" "ss_group S = ss_group T"
    "ss_metadata S = ss_metadata T" "ss_audio S = ss_audio T" "ss_video S = ss_video T" "ss_next S = ss_next T"
    "ss_players S = ss_players T"
  shows "S = (T :: stream)"
  using assms by (cases S, cases T) simp

text \<open>Each part shows the same while its messages keep their types.\<close>

lemma parts_same:
  assumes "same_types M h h'"
  shows "cs_held cs \<subseteq># M \<Longrightarrow> players_of h' cs = players_of h cs"
    and "mset (gc_msgs g) \<subseteq># M \<Longrightarrow> gc_frames (g, h') = gc_frames (g, h)"
    and "mset (map snd (mx_msgs q)) \<subseteq># M \<Longrightarrow> mx_frames (q, h') = mx_frames (q, h)"
    and "mset_opt mo \<subseteq># M \<Longrightarrow> map_option (frame_in h') mo = map_option (frame_in h) mo"
proof -
  show "mset (map snd (mx_msgs q)) \<subseteq># M \<Longrightarrow> mx_frames (q, h') = mx_frames (q, h)"
    unfolding mx_frames_def prod.case by (rule frames_same [OF assms])
  show "mset_opt mo \<subseteq># M \<Longrightarrow> map_option (frame_in h') mo = map_option (frame_in h) mo"
    using frame_same [OF assms] by (cases mo) simp_all
qed (simp_all add: players_of_same [OF assms] gc_frames_def frames_same [OF assms])

lemma stream_same:
  assumes "same_types M h h'" and "so_held s \<subseteq># M"
  shows "stream_of ((s, w'), h') = stream_of ((s, w), h)"
proof -
  have "cs_held (so_consumers s) \<subseteq># M" "mset (gc_msgs (so_gop_cache s)) \<subseteq># M" "mset (map snd (mx_msgs (so_mix_queue s))) \<subseteq># M"
    "mset_opt (mc_meta (so_meta s)) \<subseteq># M" "mset_opt (mc_audio (so_meta s)) \<subseteq># M" "mset_opt (mc_video (so_meta s)) \<subseteq># M"
    by (rule subset_mset.order_trans [OF _ assms(2)],
        simp add: so_held_def gop_held_def mix_held_def mc_held_def subset_mset.add_increasing subset_mset.add_increasing2)+
  then show ?thesis
    by (simp add: stream_of_def parts_same [OF assms(1)])
qed

end
