(* ===== verification/Srs_Source_Delivery.thy ===== *)
theory Srs_Source_Delivery
  imports Srs_Stream
begin

text \<open>
  The source implements the abstract stream: whenever an operation of the source succeeds, what
  its publisher and players see changes as the operation of the stream says.
\<close>

section \<open>Operations and their streams\<close>

text \<open>The stream is \<open>S\<close>, and the messages in flight are the frames \<open>F\<close>.\<close>

definition sees :: "shared_msg multiset \<Rightarrow> (shared_msg \<Rightarrow> frame) \<Rightarrow> stream \<Rightarrow> (source \<times> 'w) \<times> sp_heap \<Rightarrow> bool" where
  "sees M F S st \<longleftrightarrow> stream_of st = S \<and> (\<forall>m \<in># M. frame_in (snd st) m = F m)"

definition gives :: "('w \<Rightarrow> shared_msg multiset) \<Rightarrow> (srs_error \<Rightarrow> bool) \<Rightarrow> shared_msg multiset \<Rightarrow> (shared_msg \<Rightarrow> frame) \<Rightarrow>
    stream \<Rightarrow> 'a res \<times> (source \<times> 'w) \<times> sp_heap \<Rightarrow> bool" where
  "gives own E M F S r \<longleftrightarrow> so_ok own (snd r) M \<and> (case fst r of Inl e \<Rightarrow> E e | Inr _ \<Rightarrow> sees M F S (snd r))"

lemma gives_bind:
  assumes "gives own E M F S (m st)"
    and "\<And>x st'. so_ok own st' M \<Longrightarrow> sees M F S st' \<Longrightarrow> gives own E M F T (f x st')"
  shows "gives own E M F T (bindP m f st)"
proof -
  obtain r st' where m: "m st = (r, st')" by (cases "m st")
  show ?thesis
  proof (cases r)
    case (Inl e)
    with assms(1) m show ?thesis by (simp add: gives_def bindP_def)
  next
    case (Inr x)
    with assms(1) m have "so_ok own st' M" "sees M F S st'" by (simp_all add: gives_def)
    with assms(2) [of st' x] m Inr show ?thesis by (simp add: bindP_def)
  qed
qed

lemma gives_return: "so_ok own st M \<Longrightarrow> sees M F S st \<Longrightarrow> gives own E M F S (returnP x st)"
  by (simp add: gives_def returnP_def)

lemma gives_Inr: "so_ok own st M \<Longrightarrow> sees M F S st \<Longrightarrow> gives own E M F S (Inr x, st)"
  by (simp add: gives_def)

lemma gives_get: "gives own E M F S (f (g s) ((s, w), h)) \<Longrightarrow> gives own E M F S (bindP (so_get g) f ((s, w), h))"
  by (simp add: prog_simps)

lemma sees_frames: "sees M F S ((s, w), h) \<Longrightarrow> same_types M h h' \<Longrightarrow> \<forall>m \<in># M. frame_in h' m = F m"
  using frame_same [of M h h'] by (auto simp: sees_def)

lemma sees_same:
  assumes "sees M F S ((s, w), h)" and "same_types (so_held s + M) h h'"
  shows "sees M F S ((s, w'), h')"
proof -
  have "same_types M h h'" by (rule same_types_mono [OF assms(2)]) simp
  from sees_frames [OF assms(1) this] show ?thesis
    using assms(1) stream_same [OF assms(2), of s w' w] by (simp add: sees_def)
qed

lemma ext_spec:
  assumes "server_law (ev_call env) own E" and ok: "so_ok own st M" and "sees M F S st"
    and "\<And>s w h. st = ((s, w), h) \<Longrightarrow> ext_ok c (so_held s + M)"
  obtains r st' where "on_ext (ev_call env c) st = (r, st')" "so_ok own st' M" "sees M F S st'"
    "case r of Inl e \<Rightarrow> E e | Inr _ \<Rightarrow> True"
proof -
  obtain s w h where st: "st = ((s, w), h)" by (cases st) auto
  from ok have "owned h (own w + (so_held s + M))" unfolding st by (rule so_okD)
  with assms(1) obtain r w' h' where r: "ev_call env c (w, h) = (r, (w', h'))" "owned h' (own w' + (so_held s + M))"
    "same_types (so_held s + M) h h'" "case r of Inl e \<Rightarrow> E e | Inr _ \<Rightarrow> True"
    using assms(4) [OF st] by (rule server_lawD)
  have "same_types (so_held s) h h'" by (rule same_types_mono [OF r(3)]) simp
  from that [OF _ so_ok_heap [OF ok [unfolded st] r(2) this] sees_same [OF assms(3) [unfolded st] r(3)] r(4)] r(1)
  show thesis by (simp add: st prog_simps)
qed

lemma gives_ext:
  assumes "server_law (ev_call env) own E" and "so_ok own st M" and "sees M F S st"
    and "\<And>s w h. st = ((s, w), h) \<Longrightarrow> ext_ok c (so_held s + M)"
  shows "gives own E M F S (on_ext (ev_call env c) st)" and "gives own E M F S (void (on_ext (ev_call env c)) st)"
proof -
  obtain r st' where "on_ext (ev_call env c) st = (r, st')" "so_ok own st' M" "sees M F S st'"
    "case r of Inl e \<Rightarrow> E e | Inr _ \<Rightarrow> True"
    by (rule ext_spec [OF assms])
  then show "gives own E M F S (on_ext (ev_call env c) st)" "gives own E M F S (void (on_ext (ev_call env c)) st)"
    by (auto simp: gives_def void_def split: sum.splits)
qed

lemma gives_call:
  assumes "server_law (ev_call env) own E" and "so_ok own st M" and "sees M F S st" and "call_msgs c = {#}"
  shows "gives own E M F S (on_ext (ev_call env c) st)" and "gives own E M F S (void (on_ext (ev_call env c)) st)"
  by (rule gives_ext [OF assms(1-3)], rule ext_ok_none [OF assms(4)])+

section \<open>Audio and video\<close>

lemmas held_defs = gop_held_def mix_held_def mc_held_def so_held_def

lemma held_parts:
  "mset (gc_msgs (so_gop_cache s)) = gop_held s" "mset (map snd (mx_msgs (so_mix_queue s))) = mix_held s"
  "mset_opt (mc_meta c) \<subseteq># mc_held c" "mset_opt (mc_audio c) \<subseteq># mc_held c" "mset_opt (mc_video c) \<subseteq># mc_held c"
  by (simp_all add: gop_held_def mix_held_def mc_held_def subset_mset.add_increasing subset_mset.add_increasing2)

lemma gives_copy:
  assumes "so_ok own ((s, w), h) M" and "sees M F S ((s, w), h)" and "m \<in># mc_held (so_meta s) + M"
  shows "gives own E M F (stream_copy (frame_in h m) S) (copy_to_consumers m ((s, w), h))"
proof -
  have "m \<in># own w + (gop_held s + mix_held s + mc_held (so_meta s) + M)" using assms(3) by auto
  from copy_to_consumers_spec [OF assms(1) this] obtain cs h' where
    c: "copy_to_consumers m ((s, w), h) = (Inr (), ((s\<lparr>so_consumers := cs\<rparr>, w), h'))"
    "so_ok own ((s\<lparr>so_consumers := cs\<rparr>, w), h') M"
    "same_types (own w + (gop_held s + mix_held s + mc_held (so_meta s) + M)) h h'"
    "players_of h' cs = map (apsnd (player_receive (so_atc s) (so_jitter_algorithm s) (frame_in h m))) (players_of h (so_consumers s))"
    by metis
  note same = same_types_mono [OF c(3)]
  have "same_types (gop_held s) h h'" "same_types (mix_held s) h h'" "same_types (mc_held (so_meta s)) h h'" "same_types M h h'"
    by (rule same, simp add: subset_mset.add_increasing subset_mset.add_increasing2)+
  note s = this
  have "stream_of ((s\<lparr>so_consumers := cs\<rparr>, w), h') = stream_copy (frame_in h m) (stream_of ((s, w), h))"
    by (rule stream_eqI) (simp_all add: stream_copy_def c(4) parts_same(2) [OF s(1)] parts_same(3) [OF s(2)]
      parts_same(4) [OF s(3)] held_parts [unfolded mset_map])
  with c(1,2) assms(2) sees_frames [OF assms(2) s(4)] show ?thesis by (simp add: gives_def sees_def)
qed

lemma gives_cache:
  assumes "so_ok own ((s, w), h) M" and "sees M F S ((s, w), h)" and "m \<in># M"
  shows "gives own E M F (stream_cache (F m) S) (on_gop (gop_cache_cache m) ((s, w), h))"
proof -
  let ?N = "own w + (cs_held (so_consumers s) + mix_held s + mc_held (so_meta s) + M)"
  have "m \<in># ?N" using assms(3) by simp
  with so_okD(3) [OF assms(1)] obtain g h' where g: "gop_cache_cache m (so_gop_cache s, h) = (Inr (), (g, h'))"
    "gc_ok (g, h') ?N" "same_types ?N h h'" "gc_enable g = gc_enable (so_gop_cache s)"
    "gc_frames (g, h') = (if gc_enable (so_gop_cache s) then gop_step (gc_frames (so_gop_cache s, h)) (frame_in h m)
       else gc_frames (so_gop_cache s, h))"
    by (rule gop_cache_any)
  note same = same_types_mono [OF g(3)]
  have "same_types (cs_held (so_consumers s)) h h'" "same_types (mix_held s) h h'" "same_types (mc_held (so_meta s)) h h'"
    "same_types M h h'"
    by (rule same, simp add: subset_mset.add_increasing subset_mset.add_increasing2)+
  note s = this
  have "stream_of ((s\<lparr>so_gop_cache := g\<rparr>, w), h') = stream_cache (frame_in h m) (stream_of ((s, w), h))"
    by (rule stream_eqI) (simp_all add: stream_cache_def g(4,5) parts_same(1) [OF s(1)] parts_same(3) [OF s(2)]
      parts_same(4) [OF s(3)] held_parts [unfolded mset_map])
  moreover have "frame_in h m = F m" using assms(2,3) by (simp add: sees_def)
  ultimately show ?thesis
    using so_ok_gop [OF assms(1) g(2,3)] g(1) assms(2) sees_frames [OF assms(2) s(4)]
    by (simp add: gives_def sees_def prog_simps)
qed

lemma gives_update:
  assumes law: "server_law (ev_call env) own E" and ok: "so_ok own ((s, w), h) M" and S: "sees M F S ((s, w), h)" and "m \<in># M"
  shows "gives own E M F (S\<lparr>ss_audio := Some (F m)\<rparr>) (on_meta_w (meta_cache_update_ash (ev_call env) m) ((s, w), h))"
    and "msg_video_sh m \<Longrightarrow> gives own E M F (S\<lparr>ss_video := Some (F m)\<rparr>) (on_meta_w (meta_cache_update_vsh (ev_call env) m) ((s, w), h))"
proof -
  let ?R = "cs_held (so_consumers s) + gop_held s + mix_held s + M" and ?c = "so_meta s"
  have m: "m \<in># ?R" and fm: "frame_in h m = F m" using assms(3,4) by (simp_all add: sees_def)
  note up = meta_cache_update_spec [OF law so_okD(7) [OF ok] m]
  have same: "stream_of ((s\<lparr>so_meta := c'\<rparr>, w'), h') = (stream_of ((s, w), h))\<lparr>ss_metadata := map_option (frame_in h') (mc_meta c'),
      ss_audio := map_option (frame_in h') (mc_audio c'), ss_video := map_option (frame_in h') (mc_video c')\<rparr>"
    "so_ok own ((s\<lparr>so_meta := c'\<rparr>, w'), h') M" "\<forall>m \<in># M. frame_in h' m = F m"
    if t: "same_types (A + B + ?R) h h'" and ow: "owned h' (own w' + (mc_held c' + ?R))" for A B h' c' w'
  proof -
    have "same_types (cs_held (so_consumers s)) h h'" "same_types (gop_held s) h h'" "same_types (mix_held s) h h'"
      "same_types M h h'" "same_types (cs_held (so_consumers s) + gop_held s + mix_held s) h h'"
      by (rule same_types_mono [OF t], simp add: subset_mset.add_increasing subset_mset.add_increasing2)+
    note s = this
    show "stream_of ((s\<lparr>so_meta := c'\<rparr>, w'), h') = (stream_of ((s, w), h))\<lparr>ss_metadata := map_option (frame_in h') (mc_meta c'),
      ss_audio := map_option (frame_in h') (mc_audio c'), ss_video := map_option (frame_in h') (mc_video c')\<rparr>"
      by (rule stream_eqI) (simp_all add: parts_same(1) [OF s(1)] parts_same(2) [OF s(2)] parts_same(3) [OF s(3)]
        held_parts [unfolded mset_map])
    show "so_ok own ((s\<lparr>so_meta := c'\<rparr>, w'), h') M" by (rule so_ok_meta [OF ok ow s(5)])
    show "\<forall>m \<in># M. frame_in h' m = F m" by (rule sees_frames [OF S s(4)])
  qed
  have opt: "map_option (frame_in h') mo = map_option (frame_in h) mo"
    if "same_types (X + ?R) h h'" "mset_opt mo \<subseteq># X" for X mo h'
    by (rule parts_same(4) [OF that(1)]) (rule subset_mset.order_trans [OF that(2)], simp)
  from up(1) obtain r w' h' where a: "meta_cache_update_ash (ev_call env) m ((?c, w), h) = (r, ((?c\<lparr>mc_audio := Some m\<rparr>, w'), h'))"
    "owned h' (own w' + (mc_held (?c\<lparr>mc_audio := Some m\<rparr>) + ?R))"
    "same_types (mset_opt (mc_meta ?c) + mset_opt (mc_video ?c) + ?R) h h'"
    "case r of Inl e \<Rightarrow> E e | Inr _ \<Rightarrow> True" by blast
  show "gives own E M F (S\<lparr>ss_audio := Some (F m)\<rparr>) (on_meta_w (meta_cache_update_ash (ev_call env) m) ((s, w), h))"
    using same [OF a(3,2)] a(1,4) S assms(4)
    by (auto simp: gives_def sees_def prog_simps opt [OF a(3)] stream_of_def split: sum.split)
  assume vsh: "msg_video_sh m"
  from up(2) [OF vsh] obtain r w' h' where v: "meta_cache_update_vsh (ev_call env) m ((?c, w), h) = (r, ((?c\<lparr>mc_video := Some m\<rparr>, w'), h'))"
    "owned h' (own w' + (mc_held (?c\<lparr>mc_video := Some m\<rparr>) + ?R))"
    "same_types (mset_opt (mc_meta ?c) + mset_opt (mc_audio ?c) + ?R) h h'"
    "case r of Inl e \<Rightarrow> E e | Inr _ \<Rightarrow> True" by blast
  show "gives own E M F (S\<lparr>ss_video := Some (F m)\<rparr>) (on_meta_w (meta_cache_update_vsh (ev_call env) m) ((s, w), h))"
    using same [OF v(3,2)] v(1,4) S assms(4)
    by (auto simp: gives_def sees_def prog_simps opt [OF v(3)] stream_of_def split: sum.split)
qed

text \<open>The comparison with the cached header is one of bytes.\<close>

lemma header_nonempty:
  assumes "whole m" and "msg_audio_sh m \<or> msg_video_sh m"
  shows "payload_bytes m \<noteq> []"
proof -
  have "sm_size m \<ge> 1"
    using assms(2) by (auto simp: holds_def SrsFlvAudio_sh_def SrsFlvAudio_aac_def SrsFlvVideo_sh_def SrsFlvVideo_h264_def
        split: if_splits)
  then show ?thesis using whole_payload_bytes [OF assms(1)] by auto
qed

lemma repeats_frames:
  assumes "\<And>c. mo = Some c \<Longrightarrow> whole c" and "whole m" and "msg_audio_sh m \<or> msg_video_sh m"
  shows "repeats mo m = same_bytes (map_option (frame_in h) mo) (frame_in h m)"
proof (cases mo)
  case None
  then show ?thesis by (simp add: repeats_def same_bytes_def)
next
  case (Some c)
  note ne = header_nonempty [OF assms(2,3)]
  have "sm_payload c = None \<Longrightarrow> payload_bytes c = []" "sm_payload m = None \<Longrightarrow> payload_bytes m = []"
    by (simp_all add: payload_bytes_def)
  with ne Some show ?thesis
    using whole_payload_bytes [OF assms(1) [OF Some]] whole_payload_bytes [OF assms(2)]
    by (auto simp: repeats_def same_bytes_def frame_in_def)
qed

lemma header_cases:
  assumes "so_ok own ((s, w), h) M" and "sees M F S ((s, w), h)" and "m \<in># M"
  shows "msg_audio_sh m = on_bytes SrsFlvAudio_sh (F m)" and "msg_video_sh m = on_bytes SrsFlvVideo_sh (F m)"
    and "msg_audio_sh m \<Longrightarrow> repeats (mc_audio (so_meta s)) m = same_bytes (ss_audio S) (F m)"
    and "msg_video_sh m \<Longrightarrow> repeats (mc_video (so_meta s)) m = same_bytes (ss_video S) (F m)"
proof -
  have m: "whole m" by (rule so_ok_whole [OF assms(1)]) (simp add: assms(3))
  have f: "frame_in h m = F m" using assms(2,3) by (simp add: sees_def)
  show "msg_audio_sh m = on_bytes SrsFlvAudio_sh (F m)" "msg_video_sh m = on_bytes SrsFlvVideo_sh (F m)"
    using on_bytes_frames(3,5) [OF m, of h] f by simp_all
  have "whole c" if "mc_audio (so_meta s) = Some c \<or> mc_video (so_meta s) = Some c" for c
    by (rule so_ok_whole [OF assms(1)]) (use that in \<open>auto simp: mc_held_def\<close>)
  then show "msg_audio_sh m \<Longrightarrow> repeats (mc_audio (so_meta s)) m = same_bytes (ss_audio S) (F m)"
    "msg_video_sh m \<Longrightarrow> repeats (mc_video (so_meta s)) m = same_bytes (ss_video S) (F m)"
    using repeats_frames [OF _ m, of "mc_audio (so_meta s)" h] repeats_frames [OF _ m, of "mc_video (so_meta s)" h]
      assms(2) f by (auto simp: sees_def)
qed

lemma gives_retime:
  assumes "so_ok own ((s, w), h) M" and "sees M F S ((s, w), h)"
  shows "gives own E M F (S\<lparr>ss_audio := retimed t (ss_audio S), ss_metadata := retimed t (ss_metadata S)\<rparr>)
      (on_meta (updP (\<lambda>c. c\<lparr>mc_audio := retime t (mc_audio c), mc_meta := retime t (mc_meta c)\<rparr>)) ((s, w), h))"
    and "gives own E M F (S\<lparr>ss_video := retimed t (ss_video S), ss_metadata := retimed t (ss_metadata S)\<rparr>)
      (on_meta (updP (\<lambda>c. c\<lparr>mc_video := retime t (mc_video c), mc_meta := retime t (mc_meta c)\<rparr>)) ((s, w), h))"
proof -
  have r: "map_option (frame_in h) (retime t mo) = retimed t (map_option (frame_in h) mo)" for mo
    by (cases mo) (simp_all add: retime_def)
  have a: "\<exists>a v d. c\<lparr>mc_audio := retime t (mc_audio c), mc_meta := retime t (mc_meta c)\<rparr>
      = \<lparr>mc_meta = (if d then retime t (mc_meta c) else mc_meta c),
         mc_video = (if v then retime t (mc_video c) else mc_video c),
         mc_audio = (if a then retime t (mc_audio c) else mc_audio c)\<rparr>" for c
    by (intro exI [of _ True] exI [of _ False]) simp
  have v: "\<exists>a v d. c\<lparr>mc_video := retime t (mc_video c), mc_meta := retime t (mc_meta c)\<rparr>
      = \<lparr>mc_meta = (if d then retime t (mc_meta c) else mc_meta c),
         mc_video = (if v then retime t (mc_video c) else mc_video c),
         mc_audio = (if a then retime t (mc_audio c) else mc_audio c)\<rparr>" for c
    by (intro exI [of _ False] exI [of _ True]) simp
  show "gives own E M F (S\<lparr>ss_audio := retimed t (ss_audio S), ss_metadata := retimed t (ss_metadata S)\<rparr>)
      (on_meta (updP (\<lambda>c. c\<lparr>mc_audio := retime t (mc_audio c), mc_meta := retime t (mc_meta c)\<rparr>)) ((s, w), h))"
    using so_ok_retime [OF assms(1) refl a] assms(2) by (auto simp: gives_def sees_def prog_simps stream_of_def r)
  show "gives own E M F (S\<lparr>ss_video := retimed t (ss_video S), ss_metadata := retimed t (ss_metadata S)\<rparr>)
      (on_meta (updP (\<lambda>c. c\<lparr>mc_video := retime t (mc_video c), mc_meta := retime t (mc_meta c)\<rparr>)) ((s, w), h))"
    using so_ok_retime [OF assms(1) refl v] assms(2) by (auto simp: gives_def sees_def prog_simps stream_of_def r)
qed

text \<open>The end of both: the group, then the times of the headers.\<close>

lemma gives_finish:
  assumes "so_ok own st M" and "sees M F S st" and "m \<in># M"
    and "\<And>s w h S. so_ok own ((s, w), h) M \<Longrightarrow> sees M F S ((s, w), h) \<Longrightarrow> gives own E M F (g S) (on_meta (updP upd) ((s, w), h))"
  shows "gives own E M F (let S = stream_cache (F m) S in if ss_atc S then g S else S)
     (bindP (on_gop (gop_cache_cache m)) (\<lambda>_. bindP (so_get so_atc)
       (\<lambda>atc. if atc then on_meta (updP upd) else returnP ())) st)"
proof -
  obtain s w h where st: "st = ((s, w), h)" by (cases st) auto
  have c: "gives own E M F (stream_cache (F m) S) (on_gop (gop_cache_cache m) st)"
    using gives_cache assms(1-3) unfolding st .
  show ?thesis
  proof (rule gives_bind [where m = "on_gop (gop_cache_cache m)", OF c])
    fix x st' assume ok: "so_ok own (st' :: (source \<times> 'a) \<times> sp_heap) M" and sees: "sees M F (stream_cache (F m) S) st'"
    obtain s' w' h' where st': "st' = ((s', w'), h')" by (cases st') auto
    have atc: "ss_atc (stream_cache (F m) S) = so_atc s'"
      using arg_cong [where f = ss_atc, OF conjunct1 [OF sees [unfolded sees_def]]] by (simp add: st')
    from assms(4) [OF ok [unfolded st'] sees [unfolded st']] show "gives own E M F (let S = stream_cache (F m) S in if ss_atc S then g S else S)
        (bindP (so_get so_atc) (\<lambda>atc. if atc then on_meta (updP upd) else returnP ()) st')"
      by (simp add: st' prog_simps atc Let_def gives_Inr [OF ok sees, unfolded st'])
  qed
qed

lemma gives_audio_imp:
  assumes law: "server_law (ev_call env) own E" and ok: "so_ok own st M" and S: "sees M F S st" and m: "m \<in># M"
  shows "gives own E M F (stream_audio (cf_reduce_sequence_header cf) (F m) S) (source_on_audio_imp env cf m st)"
proof -
  obtain s w h where st: "st = ((s, w), h)" by (cases st) auto
  note ok = ok [unfolded st] and S = S [unfolded st]
  have fm: "frame_in h m = F m" using S m by (simp add: sees_def)
  obtain sh where sh: "SrsFlvAudio_sh (sm_payload m) (sm_size m) = Inr sh" "sh = on_bytes SrsFlvAudio_sh (F m)"
    using so_ok_codec(1) [OF ok m] header_cases(1) [OF ok S m] by simp
  have rep: "sh \<and> b \<and> repeats (mc_audio (so_meta s)) m \<longleftrightarrow> sh \<and> b \<and> same_bytes (ss_audio S) (F m)" for b
    using header_cases(3) [OF ok S m] header_cases(1) [OF ok S m] sh(2) by auto
  have sub: "ext_ok (Hub_on_audio m) (X + M)" for X using m by simp
  let ?keep = "\<lambda>S. if sh \<or> ss_audio S = None then S\<lparr>ss_audio := Some (F m)\<rparr> else S"
  let ?fin = "\<lambda>S. if sh then S else let S = stream_cache (F m) S
    in if ss_atc S then S\<lparr>ss_audio := retimed (fr_time (F m)) (ss_audio S), ss_metadata := retimed (fr_time (F m)) (ss_metadata S)\<rparr> else S"
  define fin where "fin = (\<lambda>_ :: unit. if sh then returnP ()
        else bindP (on_gop (gop_cache_cache m))
          (\<lambda>_. bindP (so_get so_atc)
          (\<lambda>atc. if atc
             then on_meta (updP (\<lambda>c. c\<lparr>mc_audio := retime (sm_timestamp m) (mc_audio c),
               mc_meta := retime (sm_timestamp m) (mc_meta c)\<rparr>))
             else returnP ())) :: ('a, unit) so_prog)"
  have t: "sm_timestamp m = fr_time (F m)" unfolding fm [symmetric] by (simp add: frame_in_def)
  have fin: "gives own E M F (?fin S') (fin u st')" if "so_ok own st' M" "sees M F S' st'" for u S' st'
  proof (cases sh)
    case True
    then show ?thesis by (simp add: fin_def gives_return [OF that])
  next
    case False
    show ?thesis unfolding fin_def t if_not_P [OF False]
      by (rule gives_finish [OF that m], erule (1) gives_retime(1))
  qed
  define rest where "rest = (\<lambda>_ :: unit. bindP (on_ext (ev_call env (Hub_on_audio m)))
     (\<lambda>_. bindP (so_get (\<lambda>s. mc_audio (so_meta s)))
     (\<lambda>ash. bindP (if sh \<or> ash = None then on_meta_w (meta_cache_update_ash (ev_call env) m) else returnP ()) fin)))"
  have run: "source_on_audio_imp env cf m st = bindP (if \<not> (sh \<and> cf_reduce_sequence_header cf
        \<and> repeats (mc_audio (so_meta s)) m) then copy_to_consumers m else returnP ()) rest st"
    by (simp add: source_on_audio_imp_def sh(1) drop_for_reduce_source [OF ok m] prog_simps st rest_def fin_def)
  have rest: "gives own E M F (?fin (?keep S')) (rest u st')" if ok': "so_ok own st' M" and S': "sees M F S' st'" for u S' st'
    unfolding rest_def
  proof (rule gives_bind [where m = "on_ext (ev_call env (Hub_on_audio m))", OF gives_ext(1) [OF law ok' S' sub]])
    fix x st2 assume ok2: "so_ok own (st2 :: (source \<times> 'a) \<times> sp_heap) M" and S2: "sees M F S' st2"
    obtain s2 w2 h2 where st2: "st2 = ((s2, w2), h2)" by (cases st2) auto
    have none: "mc_audio (so_meta s2) = None \<longleftrightarrow> ss_audio S' = None"
      using S2 by (auto simp: sees_def st2)
    have upd: "gives own E M F (?keep S') ((if sh \<or> ss_audio S' = None then on_meta_w (meta_cache_update_ash (ev_call env) m)
        else returnP ()) ((s2, w2), h2))"
      using gives_update(1) [OF law ok2 [unfolded st2] S2 [unfolded st2] m]
      by (simp add: gives_return [OF ok2 S2, unfolded st2])
    show "gives own E M F (?fin (?keep S')) (bindP (so_get (\<lambda>s. mc_audio (so_meta s)))
     (\<lambda>ash. bindP (if sh \<or> ash = None then on_meta_w (meta_cache_update_ash (ev_call env) m) else returnP ()) fin) st2)"
      unfolding st2 by (rule gives_get, unfold none, rule gives_bind, rule upd, rule fin)
  qed
  let ?d = "sh \<and> cf_reduce_sequence_header cf \<and> same_bytes (ss_audio S) (F m)"
  have copy: "gives own E M F (if ?d then S else stream_copy (F m) S) ((if \<not> ?d then copy_to_consumers m else returnP ()) st)"
    using gives_copy [OF ok S, of m] m gives_return [OF ok S] by (auto simp: st fm)
  have "gives own E M F (?fin (?keep (if ?d then S else stream_copy (F m) S))) (source_on_audio_imp env cf m st)"
    unfolding run rep by (rule gives_bind, rule copy, rule rest)
  then show ?thesis by (simp only: stream_audio_def Let_def sh(2))
qed

lemma gives_video_imp:
  assumes law: "server_law (ev_call env) own E" and ok: "so_ok own st M" and S: "sees M F S st" and m: "m \<in># M"
  shows "gives own E M F (stream_video (cf_reduce_sequence_header cf) (F m) S) (source_on_video_imp env cf m st)"
proof -
  obtain s w h where st: "st = ((s, w), h)" by (cases st) auto
  note ok = ok [unfolded st] and S = S [unfolded st]
  have fm: "frame_in h m = F m" using S m by (simp add: sees_def)
  obtain sh where sh: "SrsFlvVideo_sh (sm_payload m) (sm_size m) = Inr sh" "sh = on_bytes SrsFlvVideo_sh (F m)"
    using so_ok_codec(2) [OF ok m] header_cases(2) [OF ok S m] by simp
  define dropped where "dropped \<longleftrightarrow> sh \<and> cf_reduce_sequence_header cf \<and> same_bytes (ss_video S) (F m)"
  have rep: "sh \<and> cf_reduce_sequence_header cf \<and> repeats (mc_video (so_meta s)) m \<longleftrightarrow> dropped"
    using header_cases(4) [OF ok S m] header_cases(2) [OF ok S m] sh(2) by (auto simp: dropped_def)
  have sub: "ext_ok (Hub_on_video m sh) (X + M)" for X using m by simp
  let ?keep = "\<lambda>S. if sh then S\<lparr>ss_video := Some (F m)\<rparr> else S"
  let ?copy = "\<lambda>S. if dropped then S else stream_copy (F m) S"
  let ?fin = "\<lambda>S. if sh then S else let S = stream_cache (F m) S
    in if ss_atc S then S\<lparr>ss_video := retimed (fr_time (F m)) (ss_video S), ss_metadata := retimed (fr_time (F m)) (ss_metadata S)\<rparr> else S"
  define fin where "fin = (\<lambda>_ :: unit. if sh then returnP ()
        else bindP (on_gop (gop_cache_cache m))
          (\<lambda>_. bindP (so_get so_atc)
          (\<lambda>atc. if atc
             then on_meta (updP (\<lambda>c. c\<lparr>mc_video := retime (sm_timestamp m) (mc_video c),
               mc_meta := retime (sm_timestamp m) (mc_meta c)\<rparr>))
             else returnP ())) :: ('a, unit) so_prog)"
  have t: "sm_timestamp m = fr_time (F m)" unfolding fm [symmetric] by (simp add: frame_in_def)
  have fin: "gives own E M F (?fin S') (fin u st')" if "so_ok own st' M" "sees M F S' st'" for u S' st'
  proof (cases sh)
    case True
    then show ?thesis by (simp add: fin_def gives_return [OF that])
  next
    case False
    show ?thesis unfolding fin_def t if_not_P [OF False]
      by (rule gives_finish [OF that m], erule (1) gives_retime(2))
  qed
  have run: "source_on_video_imp env cf m st = bindP (if sh then on_meta_w (meta_cache_update_vsh (ev_call env) m) else returnP ())
     (\<lambda>_. bindP (on_ext (ev_call env (Hub_on_video m sh)))
     (\<lambda>_. bindP (if \<not> dropped then copy_to_consumers m else returnP ()) fin)) st"
    unfolding rep [symmetric]
    by (simp add: source_on_video_imp_def sh(1) drop_for_reduce_source [OF ok m] prog_simps st fin_def)
  have copy: "gives own E M F (?copy S') ((if \<not> dropped then copy_to_consumers m else returnP ()) st')"
    if ok': "so_ok own st' M" and S': "sees M F S' st'" for S' st'
  proof -
    obtain s' w' h' where st': "st' = ((s', w'), h')" by (cases st') auto
    have "frame_in h' m = F m" using S' m by (simp add: sees_def st')
    with gives_copy [OF ok' [unfolded st'] S' [unfolded st'], of m] m gives_return [OF ok' S'] show ?thesis
      by (auto simp: st')
  qed
  have upd: "gives own E M F (?keep S) ((if sh then on_meta_w (meta_cache_update_vsh (ev_call env) m) else returnP ()) st)"
    using gives_update(2) [OF law ok S m] sh(1) by (cases sh) (simp_all add: st gives_return [OF ok S])
  have "gives own E M F (?fin (?copy (?keep S))) (source_on_video_imp env cf m st)"
    unfolding run
    by (rule gives_bind, rule upd,
        rule gives_bind [where m = "on_ext (ev_call env (Hub_on_video m sh))"], erule (1) gives_ext(1) [OF law], rule sub,
        rule gives_bind, erule (1) copy, erule (1) fin)
  then show ?thesis by (simp only: stream_video_def Let_def sh(2) dropped_def)
qed

section \<open>Received messages\<close>

lemma gives_finally:
  assumes "gives own E (add_mset c M) F' T (p st)" and "\<forall>m \<in># M. F' m = F m"
  shows "gives own E M F T (finallyP p (on_shared (sm_destroy c)) st)"
proof -
  obtain r s w h where p: "p st = (r, ((s, w), h))" by (cases "p st") auto
  with assms have "so_ok own ((s, w), h) (add_mset c M)" by (simp add: gives_def)
  then obtain h' where d: "sm_destroy c h = (Inr (), h')" "so_ok own ((s, w), h') M" "same_types (own w + (so_held s + M)) h h'"
    by (rule so_ok_destroy)
  have same: "same_types (so_held s + M) h h'" by (rule same_types_mono [OF d(3)]) simp
  have "sees M F T ((s, w), h')" if "sees (add_mset c M) F' T ((s, w), h)"
    by (rule sees_same [OF _ same, where w = w]) (use that assms(2) in \<open>simp add: sees_def\<close>)
  with assms(1) d(1,2) show ?thesis by (cases r) (simp_all add: finallyP_def p prog_simps gives_def)
qed

lemma gives_av:
  assumes law: "server_law (ev_call env) own E" and ok: "so_ok own ((s, w), h) M" and S: "sees M F S ((s, w), h)" and m: "m \<in># M"
  shows "gives own E M F (stream_av (cf_reduce_sequence_header cf) (F m) S) (bindP (on_shared (sm_is_audio m))
       (\<lambda>audio. if audio then source_on_audio_imp env cf m else source_on_video_imp env cf m) ((s, w), h))"
proof -
  have "m \<in># own w + (so_held s + M)" using m by simp
  note kind = owned_kind [OF so_okD(1) [OF ok] this] kind_frame(2) [OF so_okD(1) [OF ok] this]
  have "frame_in h m = F m" using S m by (simp add: sees_def)
  with kind gives_audio_imp [OF law ok S m, of cf] gives_video_imp [OF law ok S m, of cf] show ?thesis
    by (simp add: prog_simps stream_av_def)
qed

lemma gives_mixed:
  assumes law: "server_law (ev_call env) own E" and ok: "so_ok own ((s, w), h) M" and S: "sees M F S ((s, w), h)"
    and m: "m \<in># M" and mix: "ss_mixing S"
  shows "gives own E M F (stream_got (cf_reduce_sequence_header cf) (F m) S) (push_mixed env cf m ((s, w), h))"
proof -
  let ?N = "own w + (cs_held (so_consumers s) + gop_held s + mc_held (so_meta s) + M)" and ?ys = "mx_insert (F m) (ss_mix S)"
  have "m \<in># ?N" using m by simp
  with so_okD(4) [OF ok] obtain mo q h1 where q: "mix_queue_step m (so_mix_queue s, h) = (Inr mo, (q, h1))"
    "mx_ok 10 (q, h1) (mset_opt mo + ?N)" "same_types ?N h h1"
    "let ys = mx_insert (frame_in h m) (mx_frames (so_mix_queue s, h)) in
      if mx_ready ys then (\<exists>c. mo = Some c \<and> frame_in h1 c = hd ys) \<and> mx_frames (q, h1) = tl ys
      else mo = None \<and> mx_frames (q, h1) = ys"
    by (rule mix_queue_step_spec)
  have "mx_ok 10 (q, h1) (own w + (cs_held (so_consumers s) + gop_held s + mc_held (so_meta s) + (mset_opt mo + M)))"
    using q(2) by (simp add: ac_simps)
  from so_ok_mix [OF ok this q(3)] have ok1: "so_ok own ((s\<lparr>so_mix_queue := q\<rparr>, w), h1) (mset_opt mo + M)" .
  have run: "push_mixed env cf m ((s, w), h) = (case mo of None \<Rightarrow> returnP () | Some m \<Rightarrow> consume_mixed env cf m)
      ((s\<lparr>so_mix_queue := q\<rparr>, w), h1)"
    by (simp add: push_mixed_def bindP_Inr [where m = "on_mix (mix_queue_step m)" and x = mo and s' = "((s\<lparr>so_mix_queue := q\<rparr>, w), h1)"]
        prog_simps q(1))
  note same = same_types_mono [OF q(3)]
  have "same_types (cs_held (so_consumers s)) h h1" "same_types (gop_held s) h h1" "same_types (mc_held (so_meta s)) h h1"
    "same_types M h h1"
    by (rule same, simp add: subset_mset.add_increasing subset_mset.add_increasing2)+
  note s = this
  have "stream_of ((s\<lparr>so_mix_queue := q\<rparr>, w), h1) = (stream_of ((s, w), h))\<lparr>ss_mix := mx_frames (q, h1)\<rparr>"
    by (rule stream_eqI) (simp_all add: parts_same(1) [OF s(1)] parts_same(2) [OF s(2)] parts_same(4) [OF s(3)] held_parts)
  then have st1: "stream_of ((s\<lparr>so_mix_queue := q\<rparr>, w), h1) = S\<lparr>ss_mix := mx_frames (q, h1)\<rparr>"
    using S by (simp add: sees_def)
  have fm: "\<forall>m \<in># M. frame_in h1 m = F m" by (rule sees_frames [OF S s(4)])
  have "mx_frames (so_mix_queue s, h) = ss_mix S" "frame_in h m = F m" using S m by (auto simp: sees_def)
  note q4 = q(4) [unfolded this]
  show ?thesis
  proof (cases "mx_ready ?ys")
    case False
    with q4 have "mo = None" "mx_frames (q, h1) = ?ys" by (simp_all add: Let_def)
    with run ok1 st1 fm mix False show ?thesis by (simp add: gives_def returnP_def sees_def stream_got_def Let_def)
  next
    case True
    with q4 obtain c where c: "mo = Some c" "frame_in h1 c = hd ?ys" "mx_frames (q, h1) = tl ?ys" by (auto simp: Let_def)
    have ok2: "so_ok own ((s\<lparr>so_mix_queue := q\<rparr>, w), h1) (add_mset c M)" using ok1 c(1) by simp
    have "sees (add_mset c M) (frame_in h1) (S\<lparr>ss_mix := tl ?ys\<rparr>) ((s\<lparr>so_mix_queue := q\<rparr>, w), h1)"
      using st1 c(3) by (simp add: sees_def)
    from gives_av [OF law ok2 this, of c cf] c(2)
    have g: "gives own E (add_mset c M) (frame_in h1) (stream_av (cf_reduce_sequence_header cf) (hd ?ys) (S\<lparr>ss_mix := tl ?ys\<rparr>))
      (bindP (on_shared (sm_is_audio c))
        (\<lambda>audio. if audio then source_on_audio_imp env cf c else source_on_video_imp env cf c) ((s\<lparr>so_mix_queue := q\<rparr>, w), h1))"
      by simp
    have "gives own E M F (stream_av (cf_reduce_sequence_header cf) (hd ?ys) (S\<lparr>ss_mix := tl ?ys\<rparr>))
      (consume_mixed env cf c ((s\<lparr>so_mix_queue := q\<rparr>, w), h1))"
      unfolding consume_mixed_def by (rule gives_finally, rule g, rule fm)
    with run c(1) mix True show ?thesis by (simp add: stream_got_def Let_def)
  qed
qed

lemma sees_note: "sees M F S ((s, w), h) \<Longrightarrow> sees M F S ((note_packet t s, w), h)"
proof -
  have "stream_of ((note_packet t s, w), h) = stream_of ((s, w), h)"
    by (rule stream_eqI) (simp_all add: note_packet_def Let_def)
  then show "sees M F S ((s, w), h) \<Longrightarrow> sees M F S ((note_packet t s, w), h)" by (simp add: sees_def)
qed

lemma sees_create:
  assumes ok: "so_ok own ((s, w), h) M" and S: "sees M F S ((s, w), h)" and "cm_whole cm"
  obtains m cm' h' where "sm_create cm sm_new h = (Inr (cm', m), h')" "so_ok own ((s, w), h') (add_mset m M)"
    "sees (add_mset m M) (frame_in h') S ((s, w), h')" "frame_in h' m = cm_frame cm" "\<forall>m \<in># M. frame_in h' m = F m"
proof -
  obtain m cm' h' where c: "sm_create cm sm_new h = (Inr (cm', m), h')" "so_ok own ((s, w), h') (add_mset m M)"
    "same_types (own w + (so_held s + M)) h h'"
    "sm_type h' m = Some (mh_message_type (cm_header cm))" "sm_timestamp m = mh_timestamp (cm_header cm)"
    "sm_payload m = cm_payload cm" "sm_size m = cm_size cm"
    by (rule so_ok_create [OF ok assms(3)])
  have same: "same_types (so_held s + M) h h'" by (rule same_types_mono [OF c(3)]) simp
  note s = sees_same [OF S same, of w]
  have "sees (add_mset m M) (frame_in h') S ((s, w), h')" "\<forall>m \<in># M. frame_in h' m = F m" using s by (simp_all add: sees_def)
  moreover have "frame_in h' m = cm_frame cm" by (simp add: frame_in_def cm_frame_def c(4-6) payload_bytes_def)
  ultimately show thesis using that c(1,2) by blast
qed

lemma acceptable_frame:
  assumes "cm_whole cm"
  shows "SrsFlvVideo_acceptable (cm_payload cm) (cm_size cm) = Inr (on_bytes SrsFlvVideo_acceptable (cm_frame cm))"
proof -
  define m where "m = sm_new\<lparr>sm_payload := cm_payload cm, sm_size := cm_size cm\<rparr>"
  have w: "whole m" using assms by (cases "cm_payload cm") (simp_all add: whole_def cm_whole_def whole_payload_def m_def)
  have "on_bytes SrsFlvVideo_acceptable (cm_frame cm) = on_bytes SrsFlvVideo_acceptable (frame_in h m)" for h
    by (simp add: on_bytes_def cm_frame_def frame_in_def payload_bytes_def m_def)
  with whole_acceptable [OF w] on_bytes_frames(4) [OF w] show ?thesis by (simp add: m_def)
qed

lemma gives_received:
  assumes law: "server_law (ev_call env) own E" and ok: "so_ok own ((s, w), h) M" and S: "sees M F S ((s, w), h)" and "cm_whole cm"
    and imp: "\<And>F m st M. so_ok own st M \<Longrightarrow> sees M F S st \<Longrightarrow> m \<in># M \<Longrightarrow> F m = cm_frame cm \<Longrightarrow>
      gives own E M F (stream_av (cf_reduce_sequence_header cf) (F m) S) (imp m st)"
  shows "gives own E M F (stream_got (cf_reduce_sequence_header cf) (cm_frame cm) S)
    (bindP (on_shared (sm_create cm sm_new))
     (\<lambda>(_, msg). finallyP (bindP (so_get so_mix_correct) (\<lambda>mix. if \<not> mix then imp msg else push_mixed env cf msg))
        (on_shared (sm_destroy msg))) ((s, w), h))"
proof -
  obtain m cm' h' where c: "sm_create cm sm_new h = (Inr (cm', m), h')" "so_ok own ((s, w), h') (add_mset m M)"
    "sees (add_mset m M) (frame_in h') S ((s, w), h')" "frame_in h' m = cm_frame cm" "\<forall>m \<in># M. frame_in h' m = F m"
    by (rule sees_create [OF ok S assms(4)])
  have mix: "so_mix_correct s = ss_mixing S" using c(3) by (auto simp: sees_def)
  have m: "m \<in># add_mset m M" by simp
  have g: "gives own E (add_mset m M) (frame_in h') (stream_got (cf_reduce_sequence_header cf) (cm_frame cm) S)
    (bindP (so_get so_mix_correct) (\<lambda>mix. if \<not> mix then imp m else push_mixed env cf m) ((s, w), h'))"
    using gives_mixed [OF law c(2,3) m, of cf] imp [OF c(2,3) m c(4)] c(4)
    by (cases "ss_mixing S") (simp_all add: prog_simps mix stream_got_def)
  have "gives own E M F (stream_got (cf_reduce_sequence_header cf) (cm_frame cm) S)
    (finallyP (bindP (so_get so_mix_correct) (\<lambda>mix. if \<not> mix then imp m else push_mixed env cf m))
      (on_shared (sm_destroy m)) ((s, w), h'))"
    by (rule gives_finally, rule g, rule c(5))
  then show ?thesis by (simp add: prog_simps c(1))
qed

lemma gives_msg:
  assumes law: "server_law (ev_call env) own E" and ok: "so_ok own st M" and S: "sees M F S st" and cm: "cm_whole cm"
  shows "mh_is_audio (cm_header cm) \<Longrightarrow>
      gives own E M F (stream_msg (cf_reduce_sequence_header cf) (cm_frame cm) S) (source_on_audio env cf cm st)"
    and "mh_is_video (cm_header cm) \<Longrightarrow>
      gives own E M F (stream_msg (cf_reduce_sequence_header cf) (cm_frame cm) S) (source_on_video env cf cm st)"
proof -
  obtain s w h where st: "st = ((s, w), h)" by (cases st) auto
  let ?s = "note_packet (mh_timestamp (cm_header cm)) s"
  have ok1: "so_ok own ((?s, w), h) M" using ok by (simp add: st so_ok_note)
  have S1: "sees M F S ((?s, w), h)" using S by (simp add: st sees_note)
  show "gives own E M F (stream_msg (cf_reduce_sequence_header cf) (cm_frame cm) S) (source_on_audio env cf cm st)"
    if "mh_is_audio (cm_header cm)"
  proof -
    have a: "fr_audio (cm_frame cm)" using that by (simp add: mh_is_audio_def cm_frame_def)
    have "gives own E M F (stream_got (cf_reduce_sequence_header cf) (cm_frame cm) S)
      (bindP (on_shared (sm_create cm sm_new))
       (\<lambda>(_, msg). finallyP (bindP (so_get so_mix_correct) (\<lambda>mix. if \<not> mix then source_on_audio_imp env cf msg else push_mixed env cf msg))
          (on_shared (sm_destroy msg))) ((?s, w), h))"
    proof (rule gives_received [OF law ok1 S1 cm])
      fix F m M and st :: "(source \<times> 'a) \<times> sp_heap"
      assume "so_ok own st M" "sees M F S st" "m \<in># M" "F m = cm_frame cm"
      with gives_audio_imp [OF law this(1-3), of cf] a
      show "gives own E M F (stream_av (cf_reduce_sequence_header cf) (F m) S) (source_on_audio_imp env cf m st)"
        by (simp add: stream_av_def)
    qed
    then show ?thesis using a by (simp add: source_on_audio_def prog_simps st stream_msg_def)
  qed
  show "gives own E M F (stream_msg (cf_reduce_sequence_header cf) (cm_frame cm) S) (source_on_video env cf cm st)"
    if "mh_is_video (cm_header cm)"
  proof -
    have v: "fr_video (cm_frame cm)" using that by (simp add: mh_is_video_def cm_frame_def)
    have "gives own E M F (stream_got (cf_reduce_sequence_header cf) (cm_frame cm) S)
      (bindP (on_shared (sm_create cm sm_new))
       (\<lambda>(_, msg). finallyP (bindP (so_get so_mix_correct) (\<lambda>mix. if \<not> mix then source_on_video_imp env cf msg else push_mixed env cf msg))
          (on_shared (sm_destroy msg))) ((?s, w), h))"
    proof (rule gives_received [OF law ok1 S1 cm])
      fix F m M and st :: "(source \<times> 'a) \<times> sp_heap"
      assume "so_ok own st M" "sees M F S st" "m \<in># M" "F m = cm_frame cm"
      with gives_video_imp [OF law this(1-3), of cf] v
      show "gives own E M F (stream_av (cf_reduce_sequence_header cf) (F m) S) (source_on_video_imp env cf m st)"
        by (simp add: stream_av_def)
    qed
    then show ?thesis using v gives_return [OF ok1 S1]
      by (cases "on_bytes SrsFlvVideo_acceptable (cm_frame cm)")
        (simp_all add: source_on_video_def prog_simps st stream_msg_def acceptable_frame [OF cm])
  qed
qed

end
