(* ===== verification/Srs_Source_Refines.thy ===== *)
theory Srs_Source_Refines
  imports Srs_Source_Delivery
begin

text \<open>
  The rest of the simulation: aggregates, metadata, publishing, players, configuration; then the
  whole life of a source. The properties of the stream follow from those of the abstract one.
\<close>

section \<open>Aggregates and metadata\<close>

lemma gives_upd:
  assumes "so_ok own ((u s, w), h) M" and "sees M F S ((u s, w), h)"
  shows "gives own E M F S (so_upd u ((s, w), h))"
  using assms by (simp add: prog_simps gives_def)

lemma gives_liftR:
  assumes "so_ok own st M" and "case r of Inl e \<Rightarrow> E e | Inr x \<Rightarrow> gives own E M F S (f x st)"
  shows "gives own E M F S (bindP (liftR r) f st)"
  using assms by (cases r) (simp_all add: bindP_def liftR_def gives_def)

lemma gives_aggregated:
  assumes law: "server_law (ev_call env) own E" and ok: "so_ok own st M" and S: "sees M F S st" and "cm_whole cm"
  shows "gives own E M F (stream_msg (cf_reduce_sequence_header cf) (cm_frame cm) S) (source_on_aggregated env cf cm st)"
proof -
  have "fr_audio (cm_frame cm) = mh_is_audio (cm_header cm)" "fr_video (cm_frame cm) = mh_is_video (cm_header cm)"
    by (simp_all add: cm_frame_def mh_is_audio_def mh_is_video_def)
  then show ?thesis using gives_msg [OF assms]
    by (auto simp: source_on_aggregated_def stream_msg_def gives_return [OF ok S])
qed

lemma gives_aggregate_loop:
  assumes law: "server_law (ev_call env) own E" and E: "E ERROR_RTMP_AGGREGATE"
    and "so_ok own st M" and "sees M F S st" and "length (sb_bytes s) - sb_pos s < n"
  shows "gives own E M F (fold (\<lambda>m. stream_msg (cf_reduce_sequence_header cf) (cm_frame m)) (aggregate_parts header n s delta) S)
    (aggregate_loop env cf header n s delta st)"
  using assms(3-5)
proof (induction n arbitrary: st s delta S)
  case 0
  then show ?case by simp
next
  case (Suc n)
  show ?case
  proof (cases "buf_empty s")
    case True
    then show ?thesis by (simp add: gives_return [OF Suc.prems(1,2)])
  next
    case False
    let ?g = "\<lambda>m. stream_msg (cf_reduce_sequence_header cf) (cm_frame m)"
    have "gives own E M F (fold ?g (aggregate_parts header (Suc n) s delta) S) (bindP (liftR (aggregate_next header s delta))
        (\<lambda>(msg, delta, s). bindP (source_on_aggregated env cf msg) (\<lambda>_. aggregate_loop env cf header n s delta)) st)"
    proof (rule gives_liftR [OF Suc.prems(1)])
      show "case aggregate_next header s delta of Inl e \<Rightarrow> E e | Inr x \<Rightarrow> gives own E M F
          (fold ?g (aggregate_parts header (Suc n) s delta) S) ((\<lambda>(msg, delta, s).
          bindP (source_on_aggregated env cf msg) (\<lambda>_. aggregate_loop env cf header n s delta)) x st)"
      proof (cases "aggregate_next header s delta")
        case (Inl e)
        with E aggregate_next_cases [where header = header and s = s and delta = delta] show ?thesis by simp
      next
        case (Inr x)
        obtain msg d s' where x: "x = (msg, d, s')" by (cases x) auto
        from Inr x aggregate_next_cases [where header = header and s = s and delta = delta] obtain k where
          k: "cm_whole msg" "15 \<le> k" "room k s" "s' = adv k s" by auto
        have less: "length (sb_bytes s') - sb_pos s' < n" using k(2-4) Suc.prems(3) by (simp add: room_def)
        have "gives own E M F (fold ?g (aggregate_parts header n s' d) (?g msg S))
            (bindP (source_on_aggregated env cf msg) (\<lambda>_. aggregate_loop env cf header n s' d) st)"
          by (rule gives_bind, rule gives_aggregated [OF law Suc.prems(1,2) k(1)], erule (1) Suc.IH, rule less)
        with Inr x False show ?thesis by simp
      qed
    qed
    with False show ?thesis by simp
  qed
qed

lemma gives_aggregate:
  assumes law: "server_law (ev_call env) own E" and E: "E ERROR_RTMP_AGGREGATE" "E ERROR_KERNEL_STREAM_INIT"
    and ok: "so_ok own st M" and S: "sees M F S st" and "cm_whole cm"
  shows "gives own E M F (fold (\<lambda>m. stream_msg (cf_reduce_sequence_header cf) (cm_frame m)) (aggregate_msgs cm) S)
    (source_on_aggregate env cf cm st)"
  unfolding source_on_aggregate_def
proof (rule gives_liftR [OF ok])
  have view: "payload_view (cm_payload cm) = Inr (map_option (map the) (cm_payload cm))"
    using assms(6) by (auto simp: payload_view_def cm_whole_def whole_payload_def split: option.split)
  show "case bindR (payload_view (cm_payload cm)) buf_initialize of Inl e \<Rightarrow> E e | Inr s \<Rightarrow>
      gives own E M F (fold (\<lambda>m. stream_msg (cf_reduce_sequence_header cf) (cm_frame m)) (aggregate_msgs cm) S)
        (aggregate_loop env cf (cm_header cm) (Suc (length (sb_bytes s))) s (- 1) st)"
  proof (cases "buf_initialize (map_option (map the) (cm_payload cm))")
    case (Inl e)
    then have "e = ERROR_KERNEL_STREAM_INIT" by (auto simp: buf_initialize_def split: option.splits if_splits)
    with Inl E show ?thesis by (simp add: view)
  next
    case (Inr s)
    have "length (sb_bytes s) - sb_pos s < Suc (length (sb_bytes s))" by simp
    from gives_aggregate_loop [OF law E(1) ok S this] Inr show ?thesis
      by (simp add: view aggregate_msgs_def del: aggregate_loop.simps aggregate_parts.simps)
  qed
qed

lemma gives_meta_data:
  assumes law: "server_law (ev_call env) own E" and "so_ok own st M" and "sees M F S st"
  shows "gives own E M F (stream_metadata cf p (metadata_frame header p) S) (source_on_meta_data env cf junk header p st)"
proof -
  obtain s w h where st: "st = ((s, w), h)" by (cases st) auto
  let ?s = "s\<lparr>so_atc := cf_atc cf \<or> bravo_atc cf p\<rparr>"
  have ok: "so_ok own ((?s, w), h) M" by (rule so_ok_fields [OF assms(2) [unfolded st]])
  let ?R = "own w + (cs_held (so_consumers ?s) + gop_held ?s + mix_held ?s + M)"
  obtain m h1 where 1: "meta_cache_update_data junk header p (so_meta ?s, h)
      = (Inr (True, metadata_stamp p), ((so_meta ?s)\<lparr>mc_meta := Some m\<rparr>, h1))"
    "owned h1 (mc_held ((so_meta ?s)\<lparr>mc_meta := Some m\<rparr>) + ?R)"
    "same_types (mset_opt (mc_video (so_meta ?s)) + mset_opt (mc_audio (so_meta ?s)) + ?R) h h1"
    "frame_in h1 m = (mh_message_type header, mh_timestamp header, packet_enc (OnMetaData (metadata_stamp p)))"
    by (rule meta_cache_update_data_spec [OF so_okD(6) [OF ok]])
  define s1 where "s1 = ?s\<lparr>so_meta := (so_meta ?s)\<lparr>mc_meta := Some m\<rparr>\<rparr>"
  have "owned h1 (own w + (mc_held ((so_meta ?s)\<lparr>mc_meta := Some m\<rparr>) + (cs_held (so_consumers ?s) + gop_held ?s + mix_held ?s + M)))"
    using 1(2) by (simp add: ac_simps)
  moreover have "same_types (cs_held (so_consumers ?s) + gop_held ?s + mix_held ?s) h h1"
    by (rule same_types_mono [OF 1(3)]) (simp add: subset_mset.add_increasing)
  ultimately have ok1: "so_ok own ((s1, w), h1) M" unfolding s1_def by (rule so_ok_meta [OF ok])
  have run: "source_on_meta_data env cf junk header p st
    = bindP (if \<not> cf_reduce_sequence_header cf then copy_to_consumers m else returnP ())
        (\<lambda>_. on_ext (ev_call env (Hub_on_meta_data m (metadata_stamp p)))) ((s1, w), h1)"
    using 1(1) by (simp add: source_on_meta_data_def st prog_simps s1_def
        bindP_Inr [where m = "on_meta (meta_cache_update_data junk header p)"
            and x = "(True, metadata_stamp p)" and s' = "((?s\<lparr>so_meta := (so_meta ?s)\<lparr>mc_meta := Some m\<rparr>\<rparr>, w), h1)"])
  have "same_types (cs_held (so_consumers s)) h h1" "same_types (gop_held s) h h1" "same_types (mix_held s) h h1"
    "same_types (mc_held ((so_meta s)\<lparr>mc_meta := None\<rparr>)) h h1" "same_types M h h1"
    by (rule same_types_mono [OF 1(3)], simp add: held_defs subset_mset.add_increasing subset_mset.add_increasing2 del: mset_map)+
  note t = this
  have "map_option (frame_in h1) (mc_audio (so_meta s)) = map_option (frame_in h) (mc_audio (so_meta s))"
    "map_option (frame_in h1) (mc_video (so_meta s)) = map_option (frame_in h) (mc_video (so_meta s))"
    by (rule parts_same(4) [OF t(4)], simp add: mc_held_def subset_mset.add_increasing)+
  then have "stream_of ((s1, w), h1) = (stream_of st)\<lparr>ss_atc := cf_atc cf \<or> bravo_atc cf p, ss_metadata := Some (frame_in h1 m)\<rparr>"
    unfolding st by (intro stream_eqI) (simp_all add: s1_def parts_same(1) [OF t(1)] parts_same(2) [OF t(2)] parts_same(3) [OF t(3)]
      held_parts [unfolded mset_map])
  with assms(3) sees_frames [OF assms(3) [unfolded st] t(5)]
  have S1: "sees M F (S\<lparr>ss_atc := cf_atc cf \<or> bravo_atc cf p, ss_metadata := Some (frame_in h1 m)\<rparr>) ((s1, w), h1)"
    by (simp add: sees_def)
  have held: "m \<in># mc_held (so_meta s1)" by (simp add: mc_held_def s1_def)
  let ?S1 = "S\<lparr>ss_atc := cf_atc cf \<or> bravo_atc cf p, ss_metadata := Some (frame_in h1 m)\<rparr>"
  let ?T = "if cf_reduce_sequence_header cf then ?S1 else stream_copy (frame_in h1 m) ?S1"
  have T: "stream_metadata cf p (metadata_frame header p) S = ?T"
    by (simp only: stream_metadata_def metadata_frame_def 1(4) Let_def)
  show ?thesis
  proof (cases "cf_reduce_sequence_header cf")
    case True
    have "gives own E M F ?S1 (on_ext (ev_call env (Hub_on_meta_data m (metadata_stamp p))) ((s1, w), h1))"
      by (rule gives_ext(1) [OF law ok1 S1]) (use held in \<open>simp add: so_held_def\<close>)
    with True show ?thesis by (simp add: run T del: stream.update_convs)
  next
    case False
    have "m \<in># own w + (gop_held s1 + mix_held s1 + mc_held (so_meta s1) + M)" using held by auto
    from copy_to_consumers_spec [OF ok1 this] obtain cs h2 where
      2: "copy_to_consumers m ((s1, w), h1) = (Inr (), ((s1\<lparr>so_consumers := cs\<rparr>, w), h2))" by metis
    have "gives own E M F (stream_copy (frame_in h1 m) ?S1) (copy_to_consumers m ((s1, w), h1))"
      by (rule gives_copy [OF ok1 S1]) (use held in simp)
    then have 3: "so_ok own ((s1\<lparr>so_consumers := cs\<rparr>, w), h2) M"
      "sees M F (stream_copy (frame_in h1 m) ?S1) ((s1\<lparr>so_consumers := cs\<rparr>, w), h2)"
      by (simp_all add: 2 gives_def)
    have "gives own E M F (stream_copy (frame_in h1 m) ?S1)
        (on_ext (ev_call env (Hub_on_meta_data m (metadata_stamp p))) ((s1\<lparr>so_consumers := cs\<rparr>, w), h2))"
      by (rule gives_ext(1) [OF law 3]) (use held in \<open>simp add: so_held_def\<close>)
    with False show ?thesis by (simp add: run T bindP_Inr [where m = "copy_to_consumers m", OF 2] del: stream.update_convs)
  qed
qed

section \<open>Publishing and configuration\<close>

lemma gives_mix_clear:
  assumes ok: "so_ok own st M" and S: "sees M F S st"
  shows "gives own E M F (S\<lparr>ss_mix := []\<rparr>) (on_mix mix_queue_clear st)"
proof -
  obtain s w h where st: "st = ((s, w), h)" by (cases st) auto
  let ?N = "own w + (cs_held (so_consumers s) + gop_held s + mc_held (so_meta s) + M)"
  have "owned h (mset (map snd (mx_msgs (so_mix_queue s))) + ?N)"
    using so_okD(4) [OF ok [unfolded st]] by (simp add: mx_ok_def)
  then obtain h' where h': "mix_queue_clear (so_mix_queue s, h) = (Inr (), (mix_queue_new, h'))" "owned h' ?N" "same_types ?N h h'"
    by (rule mix_queue_clear_spec)
  have mx: "mx_ok 10 (mix_queue_new, h') ?N" by (rule mx_ok_new [OF h'(2)]) simp
  have "same_types (cs_held (so_consumers s)) h h'" "same_types (gop_held s) h h'" "same_types (mc_held (so_meta s)) h h'"
    "same_types M h h'"
    by (rule same_types_mono [OF h'(3)], simp add: subset_mset.add_increasing subset_mset.add_increasing2)+
  note t = this
  have "mx_frames (mix_queue_new, h') = []" by (simp add: mx_frames_def mix_queue_new_def)
  then have "stream_of ((s\<lparr>so_mix_queue := mix_queue_new\<rparr>, w), h') = (stream_of st)\<lparr>ss_mix := []\<rparr>"
    unfolding st by (intro stream_eqI)
      (simp_all add: parts_same(1) [OF t(1)] parts_same(2) [OF t(2)] parts_same(4) [OF t(3)] held_parts)
  with S sees_frames [OF S [unfolded st] t(4)] so_ok_mix [OF ok [unfolded st] mx h'(3)] h'(1) show ?thesis
    by (simp add: gives_def sees_def st prog_simps)
qed

lemma gives_gop_clear:
  assumes ok: "so_ok own st M" and S: "sees M F S st"
  shows "gives own E M F (S\<lparr>ss_group := []\<rparr>) (on_gop gop_cache_clear st)"
proof -
  obtain s w h where st: "st = ((s, w), h)" by (cases st) auto
  let ?g = "(so_gop_cache s)\<lparr>gc_msgs := [], gc_video_count := 0, gc_audio_after := 0\<rparr>"
  obtain h' where h': "on_gop gop_cache_clear ((s, w), h) = (Inr (), ((s\<lparr>so_gop_cache := ?g\<rparr>, w), h'))"
    "so_ok own ((s\<lparr>so_gop_cache := ?g\<rparr>, w), h') M"
    "same_types (own w + (cs_held (so_consumers s) + mix_held s + mc_held (so_meta s) + M)) h h'"
    by (rule source_gop_clear_spec [OF ok [unfolded st]])
  have "same_types (cs_held (so_consumers s)) h h'" "same_types (mix_held s) h h'" "same_types (mc_held (so_meta s)) h h'"
    "same_types M h h'"
    by (rule same_types_mono [OF h'(3)], simp add: subset_mset.add_increasing subset_mset.add_increasing2)+
  note t = this
  have "gc_frames (?g, h') = []" by (simp add: gc_frames_def)
  then have "stream_of ((s\<lparr>so_gop_cache := ?g\<rparr>, w), h') = (stream_of st)\<lparr>ss_group := []\<rparr>"
    unfolding st by (intro stream_eqI)
      (simp_all add: parts_same(1) [OF t(1)] parts_same(3) [OF t(2)] parts_same(4) [OF t(3)] held_parts [unfolded mset_map])
  with S sees_frames [OF S [unfolded st] t(4)] h'(1,2) show ?thesis
    by (simp add: gives_def sees_def st)
qed

lemma gives_gop_set:
  assumes ok: "so_ok own st M" and S: "sees M F S st"
  shows "gives own E M F (S\<lparr>ss_caching := v, ss_group := (if v then ss_group S else [])\<rparr>) (on_gop (gop_cache_set v) st)"
proof -
  obtain s w h where st: "st = ((s, w), h)" by (cases st) auto
  let ?s = "s\<lparr>so_gop_cache := (so_gop_cache s)\<lparr>gc_enable := v\<rparr>\<rparr>"
  have ok1: "so_ok own ((?s, w), h) M" by (rule so_ok_gop_enable [OF ok [unfolded st]])
  have "stream_of ((?s, w), h) = (stream_of st)\<lparr>ss_caching := v\<rparr>"
    unfolding st by (rule stream_eqI) (simp_all add: gc_frames_def)
  with S have S1: "sees M F (S\<lparr>ss_caching := v\<rparr>) ((?s, w), h)" by (simp add: sees_def st)
  have "on_gop (gop_cache_set v) st = (if v then (Inr (), ((?s, w), h)) else on_gop gop_cache_clear ((?s, w), h))"
    by (simp add: st prog_simps gop_cache_set_def split: prod.split)
  moreover have "S\<lparr>ss_caching := True, ss_group := ss_group S\<rparr> = S\<lparr>ss_caching := True\<rparr>" by simp
  ultimately show ?thesis using gives_gop_clear [OF ok1 S1, of E] gives_Inr [OF ok1 S1, where x = "()"]
    by (cases v) simp_all
qed

lemma gives_dispose:
  assumes law: "server_law (ev_call env) own E" and ok: "so_ok own st M" and S: "sees M F S st"
  shows "gives own E M F (S\<lparr>ss_metadata := None, ss_audio := None, ss_video := None, ss_group := []\<rparr>) (source_dispose env st)"
proof -
  have meta: "gives own E M F (S\<lparr>ss_metadata := None, ss_audio := None, ss_video := None\<rparr>) (on_meta meta_cache_dispose st)"
    if ok: "so_ok own st M" and S: "sees M F S st" for st
  proof -
    obtain s w h where st: "st = ((s, w), h)" by (cases st) auto
    let ?R = "own w + (cs_held (so_consumers s) + gop_held s + mix_held s + M)"
    obtain h' where h': "meta_cache_dispose (so_meta s, h) = (Inr (), (meta_cache_new, h'))" "owned h' ?R" "same_types ?R h h'"
      by (rule meta_cache_dispose_spec [OF so_okD(6) [OF ok [unfolded st]]])
    have ow: "owned h' (own w + (mc_held meta_cache_new + (cs_held (so_consumers s) + gop_held s + mix_held s + M)))"
      using h'(2) by (simp add: mc_held_def meta_cache_new_def)
    have "same_types (cs_held (so_consumers s)) h h'" "same_types (gop_held s) h h'" "same_types (mix_held s) h h'"
      "same_types M h h'" "same_types (cs_held (so_consumers s) + gop_held s + mix_held s) h h'"
      by (rule same_types_mono [OF h'(3)], simp add: subset_mset.add_increasing subset_mset.add_increasing2)+
    note t = this
    have "stream_of ((s\<lparr>so_meta := meta_cache_new\<rparr>, w), h')
        = (stream_of st)\<lparr>ss_metadata := None, ss_audio := None, ss_video := None\<rparr>"
      unfolding st by (rule stream_eqI)
        (simp_all add: meta_cache_new_def parts_same(1) [OF t(1)] parts_same(2) [OF t(2)] parts_same(3) [OF t(3)]
          held_parts [unfolded mset_map])
    with S sees_frames [OF S [unfolded st] t(4)] so_ok_meta [OF ok [unfolded st] ow t(5)] h'(1) show ?thesis
      by (simp add: gives_def sees_def st prog_simps)
  qed
  have "gives own E M F (S\<lparr>ss_metadata := None, ss_audio := None, ss_video := None\<rparr>\<lparr>ss_group := []\<rparr>) (source_dispose env st)"
    unfolding source_dispose_def gop_cache_dispose_def
    by (rule gives_bind [where m = "void (on_ext (ev_call env Hub_dispose))"], rule gives_call(2) [OF law ok S], simp,
        rule gives_bind, erule (1) meta, erule (1) gives_gop_clear)
  then show ?thesis by simp
qed

lemma gives_publish:
  assumes law: "server_law (ev_call env) own E" and ok: "so_ok own st M" and S: "sees M F S st"
  shows "gives own E M F (S\<lparr>ss_live := True, ss_mix := []\<rparr>) (source_on_publish env st)"
proof -
  obtain s w h where st: "st = ((s, w), h)" by (cases st) auto
  let ?s = "source_on_source_id_changed (ev_get_id env w) (s\<lparr>so_can_publish := False\<rparr>)"
  have ok1: "so_ok own ((?s, w), h) M" by (rule so_ok_source_id [OF so_ok_fields(2) [OF ok [unfolded st]]])
  have "players_of h (map (apsnd consumer_update_source_id) cs) = players_of h cs" for cs
    by (induction cs) (auto simp: player_of_def consumer_update_source_id_def)
  then have "stream_of ((?s, w), h) = (stream_of st)\<lparr>ss_live := True\<rparr>"
    unfolding st by (intro stream_eqI) (simp_all add: source_on_source_id_changed_def Let_def)
  with S have S1: "sees M F (S\<lparr>ss_live := True\<rparr>) ((?s, w), h)" by (simp add: sees_def st)
  have run: "source_on_publish env st = bindP (on_mix mix_queue_clear)
     (\<lambda>_. bindP (so_upd (\<lambda>s. s\<lparr>so_is_monotonically_increase := True, so_last_packet_time := 0\<rparr>))
     (\<lambda>_. bindP (on_ext (ev_call env Hub_on_publish))
     (\<lambda>_. bindP (on_ext (ev_call env Handler_on_publish))
     (\<lambda>_. bindP (so_get so_source_id)
     (\<lambda>id. void (on_ext (ev_call env (Stat_on_stream_publish id)))))))) ((?s, w), h)"
    by (simp add: source_on_publish_def st prog_simps)
  have upd: "gives own E M F T (so_upd (\<lambda>s. s\<lparr>so_is_monotonically_increase := True, so_last_packet_time := 0\<rparr>) st)"
    if "so_ok own st M" "sees M F T st" for T st
  proof (cases st)
    case (Pair p h)
    obtain s w where p: "p = (s, w)" by (cases p)
    have "stream_of ((s\<lparr>so_is_monotonically_increase := True, so_last_packet_time := 0\<rparr>, w), h) = stream_of ((s, w), h)"
      by (rule stream_eqI) simp_all
    with that show ?thesis unfolding Pair p by (intro gives_upd) (simp_all add: so_ok_fields sees_def)
  qed
  have last: "gives own E M F T (bindP (so_get so_source_id) (\<lambda>id. void (on_ext (ev_call env (Stat_on_stream_publish id)))) st)"
    if "so_ok own st M" "sees M F T st" for T st
    using gives_call(2) [OF law that] by (cases st) (auto simp: prog_simps)
  have "gives own E M F (S\<lparr>ss_live := True\<rparr>\<lparr>ss_mix := []\<rparr>) (source_on_publish env st)"
    unfolding run
    by (rule gives_bind, rule gives_mix_clear [OF ok1 S1], rule gives_bind, erule (1) upd,
        rule gives_bind [where m = "on_ext (ev_call env Hub_on_publish)"], erule (1) gives_call(1) [OF law], simp,
        rule gives_bind [where m = "on_ext (ev_call env Handler_on_publish)"], erule (1) gives_call(1) [OF law], simp,
        erule (1) last)
  then show ?thesis by simp
qed

lemma gives_die_at:
  assumes "so_ok own st M" and "sees M F S st"
  shows "gives own E M F S (set_die_at env st)"
proof -
  obtain s w h where st: "st = ((s, w), h)" by (cases st) auto
  have "stream_of ((s\<lparr>so_die_at := t\<rparr>, w), h) = stream_of ((s, w), h)" for t by (rule stream_eqI) simp_all
  with assms show ?thesis by (simp add: st set_die_at_def prog_simps gives_def so_ok_fields sees_def)
qed

lemma gives_unpublish:
  assumes law: "server_law (ev_call env) own E" and ok: "so_ok own st M" and S: "sees M F S st"
  shows "gives own E M F (if ss_live S then S\<lparr>ss_live := False, ss_group := []\<rparr> else S) (source_on_unpublish env st)"
proof -
  obtain s w h where st: "st = ((s, w), h)" by (cases st) auto
  have live: "ss_live S = (\<not> so_can_publish s)" using S by (auto simp: sees_def st)
  have upd: "gives own E M F (T\<lparr>ss_live := False\<rparr>) (so_upd (\<lambda>s. s\<lparr>so_can_publish := True, so_source_id := - 1\<rparr>) st)"
    if "so_ok own st M" "sees M F T st" for T st
  proof (cases st)
    case (Pair p h)
    obtain s w where p: "p = (s, w)" by (cases p)
    have "stream_of ((s\<lparr>so_can_publish := True, so_source_id := - 1\<rparr>, w), h) = (stream_of ((s, w), h))\<lparr>ss_live := False\<rparr>"
      by (rule stream_eqI) simp_all
    with that show ?thesis unfolding Pair p by (intro gives_upd) (simp_all add: so_ok_fields sees_def)
  qed
  have tail: "gives own E M F T (bindP (so_get (\<lambda>s. so_consumers s = [])) (\<lambda>b. if b then set_die_at env else returnP ()) st)"
    if "so_ok own st M" "sees M F T st" for T st
    using gives_die_at [OF that] gives_return [OF that] by (cases st) (auto simp: prog_simps)
  have "gives own E M F (S\<lparr>ss_group := []\<rparr>\<lparr>ss_live := False\<rparr>) (bindP (void (on_ext (ev_call env Hub_on_unpublish)))
     (\<lambda>_. bindP (on_gop gop_cache_clear)
     (\<lambda>_. bindP (so_upd (\<lambda>s. s\<lparr>so_can_publish := True, so_source_id := - 1\<rparr>))
     (\<lambda>_. bindP (void (on_ext (ev_call env Stat_on_stream_close)))
     (\<lambda>_. bindP (void (on_ext (ev_call env Handler_on_unpublish)))
     (\<lambda>_. bindP (so_get (\<lambda>s. so_consumers s = []))
     (\<lambda>no_consumer. if no_consumer then set_die_at env else returnP ())))))) st)"
    by (rule gives_bind [where m = "void (on_ext (ev_call env Hub_on_unpublish))"], rule gives_call(2) [OF law ok S], simp,
        rule gives_bind, erule (1) gives_gop_clear, rule gives_bind, erule (1) upd,
        rule gives_bind [where m = "void (on_ext (ev_call env Stat_on_stream_close))"], erule (1) gives_call(2) [OF law], simp,
        rule gives_bind [where m = "void (on_ext (ev_call env Handler_on_unpublish))"], erule (1) gives_call(2) [OF law], simp,
        erule (1) tail)
  moreover have "S\<lparr>ss_group := []\<rparr>\<lparr>ss_live := False\<rparr> = S\<lparr>ss_live := False, ss_group := []\<rparr>" by simp
  ultimately show ?thesis
    by (simp only: source_on_unpublish_def st prog_simps live)
      (simp add: gives_return [OF ok S, unfolded st])
qed

lemma gives_upd_any:
  fixes st :: "(source \<times> 'w) \<times> sp_heap"
  assumes "so_ok own st M" and "sees M F S st" and "\<And>s w h. so_ok own ((s, w), h) M \<Longrightarrow> so_ok own ((u s, w), h) M"
    and "\<And>s (w :: 'w) h. stream_of ((u s, w), h) = g (stream_of ((s, w), h))"
  shows "gives own E M F (g S) (so_upd u st)"
  using assms by (cases st) (auto simp: sees_def intro!: gives_upd)

lemma gives_if:
  assumes "so_ok own st M" and "sees M F S st" and "b \<Longrightarrow> gives own E M F T (m st)" and "\<not> b \<Longrightarrow> T = S"
  shows "gives own E M F T ((if b then m else returnP ()) st)"
  using assms gives_return [OF assms(1,2)] by auto

lemma gives_reload:
  assumes ok: "so_ok own st M" and S: "sees M F S st" and "0 \<le> cf_queue_length_ms cf"
  shows "gives own E M F (if ss_vhost S = vhost then stream_reload cf S else S) (source_on_reload_vhost_play cf vhost st)"
proof -
  obtain s w h where st: "st = ((s, w), h)" by (cases st) auto
  have parts: "ss_vhost S = so_vhost s" "ss_mixing S = so_mix_correct s" "ss_atc S = so_atc s"
    "ss_caching S = gop_cache_enabled (so_gop_cache s)"
    using S by (auto simp: sees_def st gop_cache_enabled_def)
  let ?f = "consumer_set_queue_size (cf_queue_length_ms cf)"
  have queue: "so_ok own ((s\<lparr>so_consumers := map (apsnd ?f) (so_consumers s)\<rparr>, w), h) M"
    if ok: "so_ok own ((s, w), h) M" for s w h
  proof (rule so_ok_upd [OF ok])
    show "cs_held (so_consumers (s\<lparr>so_consumers := map (apsnd ?f) (so_consumers s)\<rparr>)) = cs_held (so_consumers s)"
      by (simp, rule cs_held_map) (simp add: consumer_set_queue_size_def mq_set_queue_size_def)
    show "players_ok (s\<lparr>so_consumers := map (apsnd ?f) (so_consumers s)\<rparr>)"
      by (rule players_ok_map [OF so_okD(2) [OF ok]])
        (use assms(3) in \<open>simp add: co_good_def consumer_set_queue_size_def mq_set_queue_size_def\<close>)
  qed simp_all
  have seen: "players_of h (map (apsnd ?f) cs) = map (apsnd (player_resize (cf_queue_length_ms cf))) (players_of h cs)" for cs h
    by (induction cs) (auto simp: player_of_def player_resize_def consumer_set_queue_size_def mq_set_queue_size_def)
  define S1 where "S1 = S\<lparr>ss_jitter := cf_time_jitter cf\<rparr>"
  define S2 where "S2 = (if cf_mix_correct cf \<noteq> so_mix_correct s then S1\<lparr>ss_mix := []\<rparr> else S1)"
  define S3 where "S3 = S2\<lparr>ss_mixing := cf_mix_correct cf\<rparr>"
  define S4 where "S4 = (if cf_atc cf \<noteq> so_atc s then S3\<lparr>ss_group := []\<rparr> else S3)"
  define S5 where "S5 = S4\<lparr>ss_atc := cf_atc cf\<rparr>"
  define S6 where "S6 = (if cf_gop_cache cf \<noteq> gop_cache_enabled (so_gop_cache s)
    then S5\<lparr>ss_caching := cf_gop_cache cf, ss_group := (if cf_gop_cache cf then ss_group S5 else [])\<rparr> else S5)"
  define S7 where "S7 = S6\<lparr>ss_players := map (apsnd (player_resize (cf_queue_length_ms cf))) (ss_players S6)\<rparr>"
  note defs = S1_def S2_def S3_def S4_def S5_def S6_def S7_def
  have 1: "gives own E M F S1 (so_upd (\<lambda>s. s\<lparr>so_jitter_algorithm := cf_time_jitter cf\<rparr>) st)"
    unfolding S1_def by (rule gives_upd_any [OF ok S]) (simp_all add: so_ok_fields stream_of_def)
  have 2: "gives own E M F S2 ((if cf_mix_correct cf \<noteq> so_mix_correct s then on_mix mix_queue_clear else returnP ()) st)"
    if "so_ok own st M" "sees M F S1 st" for st
    by (rule gives_if [OF that]) (simp_all add: S2_def gives_mix_clear [OF that])
  have 3: "gives own E M F S3 (so_upd (\<lambda>s. s\<lparr>so_mix_correct := cf_mix_correct cf\<rparr>) st)"
    if "so_ok own st M" "sees M F S2 st" for st
    unfolding S3_def by (rule gives_upd_any [OF that]) (simp_all add: so_ok_fields stream_of_def)
  have 4: "gives own E M F S4 ((if cf_atc cf \<noteq> so_atc s then on_gop gop_cache_clear else returnP ()) st)"
    if "so_ok own st M" "sees M F S3 st" for st
    by (rule gives_if [OF that]) (simp_all add: S4_def gives_gop_clear [OF that])
  have 5: "gives own E M F S5 (so_upd (\<lambda>s. s\<lparr>so_atc := cf_atc cf\<rparr>) st)"
    if "so_ok own st M" "sees M F S4 st" for st
    unfolding S5_def by (rule gives_upd_any [OF that]) (simp_all add: so_ok_fields stream_of_def)
  have 6: "gives own E M F S6 ((if cf_gop_cache cf \<noteq> gop_cache_enabled (so_gop_cache s)
      then on_gop (gop_cache_set (cf_gop_cache cf)) else returnP ()) st)"
    if "so_ok own st M" "sees M F S5 st" for st
    by (rule gives_if [OF that]) (simp_all only: S6_def if_P if_not_P not_False_eq_True gives_gop_set [OF that])
  have 7: "gives own E M F S7 (so_upd (\<lambda>s. s\<lparr>so_consumers := map (apsnd ?f) (so_consumers s)\<rparr>) st)"
    if "so_ok own st M" "sees M F S6 st" for st
    unfolding S7_def by (rule gives_upd_any [OF that queue]) (simp_all add: stream_of_def seen)
  have "gives own E M F S7 (bindP (so_upd (\<lambda>s. s\<lparr>so_jitter_algorithm := cf_time_jitter cf\<rparr>))
          (\<lambda>_. bindP (if cf_mix_correct cf \<noteq> so_mix_correct s then on_mix mix_queue_clear else returnP ())
          (\<lambda>_. bindP (so_upd (\<lambda>s. s\<lparr>so_mix_correct := cf_mix_correct cf\<rparr>))
          (\<lambda>_. bindP (if cf_atc cf \<noteq> so_atc s then on_gop gop_cache_clear else returnP ())
          (\<lambda>_. bindP (so_upd (\<lambda>s. s\<lparr>so_atc := cf_atc cf\<rparr>))
          (\<lambda>_. bindP (if cf_gop_cache cf \<noteq> gop_cache_enabled (so_gop_cache s)
              then on_gop (gop_cache_set (cf_gop_cache cf)) else returnP ())
          (\<lambda>_. so_upd (\<lambda>s. s\<lparr>so_consumers := map (apsnd ?f) (so_consumers s)\<rparr>))))))) st)"
    by (rule gives_bind, rule 1, rule gives_bind, erule (1) 2, rule gives_bind, erule (1) 3,
        rule gives_bind, erule (1) 4, rule gives_bind, erule (1) 5, rule gives_bind, erule (1) 6, erule (1) 7)
  moreover have "S7 = stream_reload cf S"
    by (rule stream_eqI) (simp_all add: defs stream_reload_def parts)
  ultimately show ?thesis
    by (simp add: source_on_reload_vhost_play_def st so_prog_simps(1) parts(1) gives_return [OF ok S, unfolded st])
qed

lemma gives_initialize:
  assumes law: "server_law (ev_call env) own E" and "owned h (own w + M)"
  shows "gives own E M (frame_in h) (stream_new cf vhost) (source_initialize env cf ((source_new vhost, w), h))"
proof -
  let ?S = "stream_of ((source_new vhost, w), h)"
  have ok: "so_ok own ((source_new vhost, w), h) M" by (rule so_ok_new) (rule assms(2))
  have S: "sees M (frame_in h) ?S ((source_new vhost, w), h)" by (simp add: sees_def)
  have first: "gives own E M (frame_in h) (?S\<lparr>ss_atc := cf_atc cf\<rparr>) (so_upd (\<lambda>s. s\<lparr>so_atc := cf_atc cf\<rparr>) ((source_new vhost, w), h))"
    by (rule gives_upd_any [OF ok S]) (simp_all add: so_ok_fields stream_of_def)
  have last: "gives own E M F (T\<lparr>ss_jitter := cf_time_jitter cf, ss_mixing := cf_mix_correct cf\<rparr>)
      (so_upd (\<lambda>s. s\<lparr>so_jitter_algorithm := cf_time_jitter cf, so_mix_correct := cf_mix_correct cf\<rparr>) st)"
    if "so_ok own st M" "sees M F T st" for F T st
    by (rule gives_upd_any [OF that]) (simp_all add: so_ok_fields stream_of_def)
  have "gives own E M (frame_in h) (?S\<lparr>ss_atc := cf_atc cf\<rparr>\<lparr>ss_jitter := cf_time_jitter cf, ss_mixing := cf_mix_correct cf\<rparr>)
      (source_initialize env cf ((source_new vhost, w), h))"
    unfolding source_initialize_def
    by (rule gives_bind, rule first,
        rule gives_bind [where m = "on_ext (ev_call env Hub_initialize)"], erule (1) gives_call(1) [OF law], simp,
        rule gives_bind [where m = "on_ext (ev_call env PlayEdge_initialize)"], erule (1) gives_call(1) [OF law], simp,
        rule gives_bind [where m = "on_ext (ev_call env PublishEdge_initialize)"], erule (1) gives_call(1) [OF law], simp,
        rule gives_bind [where m = "void (on_ext (ev_call env (PublishEdge_set_queue_size (cf_queue_length_ms cf))))"],
        erule (1) gives_call(2) [OF law], simp, erule (1) last)
  moreover have "?S\<lparr>ss_atc := cf_atc cf\<rparr>\<lparr>ss_jitter := cf_time_jitter cf, ss_mixing := cf_mix_correct cf\<rparr> = stream_new cf vhost"
    by (rule stream_eqI) (simp_all add: stream_new_def source_new_def mx_frames_def mix_queue_new_def gc_frames_def
        gop_cache_new_def meta_cache_new_def)
  ultimately show ?thesis by (simp only:)
qed

section \<open>Players\<close>

lemma players_replace:
  assumes "distinct (map fst cs)" and "map_of cs i = Some c" and st: "same_types N h h'"
    and N: "cs_held (filter (\<lambda>(j, _). j \<noteq> i) cs) \<subseteq># N" and "player_of h' c' = g (player_of h c)"
  shows "players_of h' (map (\<lambda>(j, d). (j, if j = i then c' else d)) cs)
    = map (\<lambda>(j, p). (j, if j = i then g p else p)) (players_of h cs)"
proof -
  from map_of_SomeD [OF assms(2)] obtain xs ys where cs: "cs = xs @ (i, c) # ys" by (auto simp: in_set_conv_decomp)
  note d = assms(1) [unfolded cs]
  have i: "i \<notin> fst ` set xs" "i \<notin> fst ` set ys" using d by auto
  have "cs_held xs + cs_held ys \<subseteq># N"
    using N unfolding cs replace_consumer(2) [OF d] by simp
  then have "cs_held xs \<subseteq># N" "cs_held ys \<subseteq># N"
    by (rule subset_mset.order_trans [rotated], simp)+
  then have o: "players_of h' xs = players_of h xs" "players_of h' ys = players_of h ys"
    by (simp_all add: players_of_same [OF st])
  have "map (\<lambda>(j, p). (j, if j = i then g p else p)) (players_of h zs) = players_of h zs" if "i \<notin> fst ` set zs" for zs
    using that by (induction zs) auto
  with o i assms(5) show ?thesis unfolding cs replace_consumer(1) [OF d] by simp
qed

text \<open>What becomes of a player when its consumer is changed.\<close>

lemma gives_player:
  assumes ok: "so_ok own ((s, w), h) M" and S: "sees M F S ((s, w), h)" and i: "map_of (so_consumers s) i = Some c"
    and c': "co_ok (c', h') (others i own s w + M)" and t: "same_types (others i own s w + M) h h'"
    and g: "player_of h' c' = g (player_of h c)"
  shows "gives own E M F (with_player i g S)
    (Inr x, ((s\<lparr>so_consumers := map (\<lambda>(j, d). (j, if j = i then c' else d)) (so_consumers s)\<rparr>, w), h'))"
proof -
  let ?cs = "map (\<lambda>(j, d). (j, if j = i then c' else d)) (so_consumers s)"
  have t': "same_types (others i own s w) h h'" by (rule same_types_mono [OF t]) simp
  have ok': "so_ok own ((s\<lparr>so_consumers := ?cs\<rparr>, w), h') M" by (rule one_consumer(2) [OF ok i c' t'])
  have "distinct (map fst (so_consumers s))" using so_okD(2) [OF ok] by (simp add: players_ok_def)
  from players_replace [where g = g, OF this i t' _ g]
  have pl: "players_of h' ?cs = map (\<lambda>(j, p). (j, if j = i then g p else p)) (players_of h (so_consumers s))"
    by (simp add: others_def subset_mset.add_increasing subset_mset.add_increasing2)
  have "same_types (gop_held s) h h'" "same_types (mix_held s) h h'" "same_types (mc_held (so_meta s)) h h'" "same_types M h h'"
    by (rule same_types_mono [OF t], simp add: others_def subset_mset.add_increasing subset_mset.add_increasing2)+
  note t = this
  have "stream_of ((s\<lparr>so_consumers := ?cs\<rparr>, w), h') = with_player i g (stream_of ((s, w), h))"
    by (rule stream_eqI) (simp_all add: with_player_def pl parts_same(2) [OF t(1)] parts_same(3) [OF t(2)]
      parts_same(4) [OF t(3)] held_parts [unfolded mset_map])
  with ok' S sees_frames [OF S t(4)] show ?thesis by (simp add: gives_def sees_def)
qed

text \<open>The frames that a player takes.\<close>

definition player_out :: "int \<Rightarrow> int \<Rightarrow> player \<Rightarrow> frame list" where
  "player_out mx n p = (if pl_paused p then [] else take (nat (if n \<noteq> 0 then min n mx else mx)) (pl_frames p))"

lemma consumer_dump_player:
  assumes "co_ok (c, h) M" and "0 \<le> n0" and "0 < mx0"
  obtains ms c' where "consumer_dump_packets mx0 n0 (c, h) = (Inr (int (length ms), ms), (c', h))" "co_ok (c', h) (mset ms + M)"
    "map (frame_in h) ms = player_out mx0 n0 (player_of h c)" "player_of h c' = player_take mx0 n0 (player_of h c)"
proof (cases "co_paused c")
  case True
  with assms show thesis
    by (intro that [of "[]" "c\<lparr>co_should_update_source_id := False\<rparr>"])
      (simp_all add: consumer_dump_packets_def prog_simps Let_def co_ok_def player_of_def player_out_def player_take_def)
next
  case False
  let ?L = "mq_list (co_queue c)"
  define n where "n = (if n0 \<noteq> 0 then min n0 mx0 else mx0)"
  have n: "0 < n" using assms(2,3) by (auto simp: n_def)
  from assms(1) have ok: "mq_ok (co_queue c, h) M" by (simp add: co_ok_def)
  obtain q' where d: "mq_dump_packets n 0 (co_queue c, h)
      = (Inr (if ?L = [] then 0 else min n (int (length ?L)), take (nat n) ?L), (q', h))"
    "mq_ok (q', h) (mset (take (nat n) ?L) + M)" "mq_list q' = drop (nat n) ?L"
    "mq_queue_size_ms q' = mq_queue_size_ms (co_queue c)" "mq_av_end_time q' = mq_av_end_time (co_queue c)"
    "mq_av_start_time q' = (if ?L = [] then mq_av_start_time (co_queue c) else sm_timestamp (last (take (nat n) ?L)))"
    by (rule mq_dump_spec [OF ok n])
  have k: "(if ?L = [] then 0 else min n (int (length ?L))) = int (length (take (nat n) ?L))"
    using n by (cases "?L = []") (auto simp: min_def)
  have ne: "take (nat n) ?L \<noteq> []" if "?L \<noteq> []" using that n by auto
  have last: "fr_time (last (take (nat n) (map (frame_in h) ?L))) = sm_timestamp (last (take (nat n) ?L))" if "?L \<noteq> []"
    unfolding take_map last_map [OF ne [OF that]] by (simp add: frame_in_def)
  have drp: "drop (min (length ?L) (nat n)) xs = drop (nat n) xs" if "length xs = length ?L" for xs :: "'b list"
    using that by (simp add: min_def)
  let ?c = "c\<lparr>co_should_update_source_id := False, co_queue := q'\<rparr>"
  have "player_of h ?c = player_take mx0 n0 (player_of h c)"
    using d(3-6) False last
    by (cases "?L = []") (simp_all add: player_of_def player_take_def n_def [symmetric] Let_def drop_map drp)
  moreover have "map (frame_in h) (take (nat n) ?L) = player_out mx0 n0 (player_of h c)"
    using False by (simp add: player_of_def player_out_def n_def [symmetric] take_map)
  ultimately show thesis using False assms d(1,2,4) k
    by (intro that [of "take (nat n) ?L" ?c])
      (simp_all add: consumer_dump_packets_def prog_simps Let_def co_ok_def n_def [symmetric])
qed

lemma gives_takes:
  assumes ok: "so_ok own ((s, w), h) M" and S: "sees M F S ((s, w), h)" and i: "map_of (so_consumers s) i = Some c"
    and "0 \<le> n0" and "0 < max0"
  shows "gives own E M F (with_player i (player_take max0 n0) S) (player_takes i max0 n0 ((s, w), h))"
proof -
  obtain ms c' where d: "consumer_dump_packets max0 n0 (c, h) = (Inr (int (length ms), ms), (c', h))"
    "co_ok (c', h) (mset ms + (others i own s w + M))"
    "player_of h c' = player_take max0 n0 (player_of h c)"
    by (rule consumer_dump_player [OF one_consumer(1) [OF ok i] assms(4,5)])
  have ow: "owned h (mset ms + (mset (mq_list (co_queue c')) + (others i own s w + M)))" and good: "co_good c'"
    using d(2) by (simp_all add: co_ok_iff ac_simps)
  obtain h' where h': "destroy_all ms h = (Inr (), h')" "owned h' (mset (mq_list (co_queue c')) + (others i own s w + M))"
    "same_types (mset (mq_list (co_queue c')) + (others i own s w + M)) h h'"
    by (rule owned_destroy_all [OF ow])
  have c'': "co_ok (c', h') (others i own s w + M)" using h'(2) good by (simp add: co_ok_iff)
  have t: "same_types (others i own s w + M) h h'" by (rule same_types_mono [OF h'(3)]) simp
  have "player_of h' c' = player_of h c'" by (rule player_of_same [OF h'(3)]) simp
  moreover have run: "source_consumer_dump i max0 n0 ((s, w), h) = (Inr (int (length ms), ms),
      ((s\<lparr>so_consumers := map (\<lambda>(j, d). (j, if j = i then c' else d)) (so_consumers s)\<rparr>, w), h))"
    by (simp add: source_consumer_dump_def on_consumer_eq prog_simps i d(1))
  ultimately show ?thesis using gives_player [OF ok S i c'' t, of "player_take max0 n0" E "()"] d(3) h'(1)
    by (simp add: player_takes_def bindP_Inr [where m = "source_consumer_dump i max0 n0", OF run] prog_simps)
qed

lemma gives_pause:
  assumes ok: "so_ok own ((s, w), h) M" and S: "sees M F S ((s, w), h)" and i: "map_of (so_consumers s) i = Some c"
  shows "gives own E M F (with_player i (\<lambda>p. p\<lparr>pl_paused := b\<rparr>) S) (source_consumer_pause i b ((s, w), h))"
proof -
  let ?c = "consumer_on_play_client_pause b c"
  have c': "co_ok (?c, h) (others i own s w + M)"
    using one_consumer(1) [OF ok i] by (simp add: co_ok_iff co_good_def consumer_on_play_client_pause_def)
  have "player_of h ?c = (player_of h c)\<lparr>pl_paused := b\<rparr>" by (simp add: player_of_def consumer_on_play_client_pause_def)
  from gives_player [where g = "\<lambda>p. p\<lparr>pl_paused := b\<rparr>", OF ok S i c' _ this, of E "()"] show ?thesis
    by (simp add: source_consumer_pause_def prog_simps i on_consumer_eq)
qed

lemma players_fst [simp]: "fst ` set (players_of h cs) = fst ` set cs"
  by (simp add: players_of_def image_image)

lemma with_new_player:
  assumes "players_ok s"
  shows "map (\<lambda>(j, p). (j, if j = so_next s then g p else p)) (players_of h (so_consumers s)) = players_of h (so_consumers s)"
proof -
  have "so_next s \<notin> fst ` set (so_consumers s)" using assms by (auto simp: players_ok_def)
  moreover have "map (\<lambda>(j, p). (j, if j = i then g p else p)) ps = ps" if "i \<notin> fst ` set ps" for i and ps :: "(nat \<times> player) list"
    using that by (induction ps) auto
  ultimately show ?thesis by simp
qed

lemma join_meta:
  fixes t :: "64 word"
  assumes t: "t = (case gc_frames (so_gop_cache s, h) of [] \<Rightarrow> 0 | f # fs \<Rightarrow> fr_time f)"
    and c: "c = so_meta (join_state cf s)"
  shows "map_option (frame_in h) (mc_meta c) = (if so_atc s \<and> gc_frames (so_gop_cache s, h) \<noteq> []
      then retimed t (map_option (frame_in h) (mc_meta (so_meta s))) else map_option (frame_in h) (mc_meta (so_meta s)))"
    and "map_option (frame_in h) (mc_audio c) = (if so_atc s \<and> gc_frames (so_gop_cache s, h) \<noteq> []
      then retimed t (map_option (frame_in h) (mc_audio (so_meta s))) else map_option (frame_in h) (mc_audio (so_meta s)))"
    and "map_option (frame_in h) (mc_video c) = (if so_atc s \<and> gc_frames (so_gop_cache s, h) \<noteq> []
      then retimed t (map_option (frame_in h) (mc_video (so_meta s))) else map_option (frame_in h) (mc_video (so_meta s)))"
proof -
  have e: "gop_cache_empty (so_gop_cache s) = (gc_frames (so_gop_cache s, h) = [])"
    by (simp add: gop_cache_empty_def gc_frames_def)
  have st: "gop_cache_start_time (so_gop_cache s) = t"
    by (cases "gc_msgs (so_gop_cache s)") (simp_all add: t gop_cache_start_time_def gop_cache_empty_def gc_frames_def frame_in_def)
  have r: "map_option (frame_in h) (retime t mo) = retimed t (map_option (frame_in h) mo)" for mo
    by (cases mo) (simp_all add: retime_def)
  show "map_option (frame_in h) (mc_meta c) = (if so_atc s \<and> gc_frames (so_gop_cache s, h) \<noteq> []
      then retimed t (map_option (frame_in h) (mc_meta (so_meta s))) else map_option (frame_in h) (mc_meta (so_meta s)))"
    "map_option (frame_in h) (mc_audio c) = (if so_atc s \<and> gc_frames (so_gop_cache s, h) \<noteq> []
      then retimed t (map_option (frame_in h) (mc_audio (so_meta s))) else map_option (frame_in h) (mc_audio (so_meta s)))"
    "map_option (frame_in h) (mc_video c) = (if so_atc s \<and> gc_frames (so_gop_cache s, h) \<noteq> []
      then retimed t (map_option (frame_in h) (mc_video (so_meta s))) else map_option (frame_in h) (mc_video (so_meta s)))"
    by (auto simp: c join_state_def Let_def e st r)
qed

lemma gives_join:
  assumes law: "server_law (ev_call env) own E" and ok: "so_ok own ((s, w), h) M" and S: "sees M F S ((s, w), h)"
    and "0 \<le> cf_queue_length_ms cf"
  shows "gives own E M F (stream_join cf ds dm dg S) (source_create_consumer env cf ds dm dg ((s, w), h))"
proof -
  note pl = so_okD(2) [OF ok]
  let ?s = "join_state cf s" and ?c = "consumer_set_queue_size (cf_queue_length_ms cf) consumer_new"
  let ?ms = "join_list ?s ds dm dg" and ?i = "so_next s"
  define t where "t = (case gc_frames (so_gop_cache s, h) of [] \<Rightarrow> 0 | f # fs \<Rightarrow> fr_time f)"
  note jm = join_meta [OF t_def refl, of cf]
  have ok1: "so_ok own ((?s, w), h) M" by (rule join_state_ok [OF ok assms(4)])
  have S1: "sees M F (stream_of ((?s, w), h)) ((?s, w), h)" using S by (simp add: sees_def)
  have i: "map_of (so_consumers ?s) ?i = Some ?c" by (rule joined [OF pl])
  have "set ?ms \<subseteq> set_mset (others ?i own ?s w + M)"
    using join_list_held [of ?s ds dm dg M] by (auto simp: others_def)
  from enqueue_all_player [OF one_consumer(1) [OF ok1 i] this, of "so_atc s" "so_jitter_algorithm s"] obtain c' h' where
    e: "enqueue_all ?ms (so_atc s) (so_jitter_algorithm s) (?c, h) = (Inr (), (c', h'))" "co_ok (c', h') (others ?i own ?s w + M)"
      "same_types (others ?i own ?s w + M) h h'"
      "player_of h' c' = fold (player_receive (so_atc s) (so_jitter_algorithm s)) (map (frame_in h) ?ms) (player_of h ?c)" by blast
  let ?g = "fold (player_receive (so_atc s) (so_jitter_algorithm s)) (map (frame_in h) ?ms)"
  define st' where "st' = ((?s\<lparr>so_consumers := map (\<lambda>(j, d). (j, if j = ?i then c' else d)) (so_consumers ?s)\<rparr>, w), h')"
  have run: "on_consumer ?i (enqueue_all ?ms (so_atc s) (so_jitter_algorithm s)) ((?s, w), h) = (Inr (), st')"
    unfolding on_consumer_eq i st'_def option.sel e(1) by simp
  have "gives own E M F (with_player ?i ?g (stream_of ((?s, w), h))) (Inr (), st')"
    unfolding st'_def by (rule gives_player [OF ok1 S1 i e(2,3)]) (rule e(4))
  then have ok2: "so_ok own st' M" and S2: "sees M F (with_player ?i ?g (stream_of ((?s, w), h))) st'"
    by (simp_all add: gives_def)
  have opt: "map (frame_in h) (case mo of None \<Rightarrow> [] | Some m \<Rightarrow> [m]) = (case map_option (frame_in h) mo of None \<Rightarrow> [] | Some f \<Rightarrow> [f])" for mo
    by (cases mo) simp_all
  have opt': "(case (if b then x else y) of None \<Rightarrow> [] | Some f \<Rightarrow> [f])
    = (if b then (case x of None \<Rightarrow> [] | Some f \<Rightarrow> [f]) else (case y of None \<Rightarrow> [] | Some f \<Rightarrow> [f]))" for b and x y :: "frame option"
    by simp
  have frames: "map (frame_in h) ?ms
      = (if dm then (case map_option (frame_in h) (mc_meta (so_meta ?s)) of None \<Rightarrow> [] | Some f \<Rightarrow> [f]) else [])
      @ (if ds then (case map_option (frame_in h) (mc_audio (so_meta ?s)) of None \<Rightarrow> [] | Some f \<Rightarrow> [f])
           @ (case map_option (frame_in h) (mc_video (so_meta ?s)) of None \<Rightarrow> [] | Some f \<Rightarrow> [f]) else [])
      @ (if dg then gc_frames (so_gop_cache s, h) else [])"
    by (simp add: join_list_def mc_dump_list_def opt gc_frames_def)
  have Seq: "stream_of ((s, w), h) = S" using S by (simp add: sees_def)
  have vh: "so_vhost ?s = so_vhost s" "so_can_publish ?s = so_can_publish s" "so_mix_correct ?s = so_mix_correct s"
    "so_mix_queue ?s = so_mix_queue s" by (simp_all add: join_state_def Let_def)
  have "with_player ?i ?g (stream_of ((?s, w), h)) = stream_join cf ds dm dg S"
    unfolding Seq [symmetric] frames
    by (rule stream_eqI)
      (simp_all add: with_player_def stream_join_def Let_def jm t_def [symmetric] with_new_player [OF pl] player_new_of vh)
  with S2 have S2: "sees M F (stream_join cf ds dm dg S) st'" by (simp only:)
  have edge: "gives own E M F (stream_join cf ds dm dg S)
      ((if cf_is_edge cf then on_ext (ev_call env PlayEdge_on_client_play) else returnP ()) st')"
    using gives_call(1) [OF law ok2 S2, of PlayEdge_on_client_play] by (simp add: gives_return [OF ok2 S2])
  show ?thesis unfolding source_create_consumer_eq [OF pl]
      bindP_Inr [where m = "on_consumer ?i (enqueue_all ?ms (so_atc s) (so_jitter_algorithm s))", OF run]
    by (rule gives_bind, rule edge, erule (1) gives_return)
qed

lemma gives_leave:
  assumes law: "server_law (ev_call env) own E" and ok: "so_ok own ((s, w), h) M" and S: "sees M F S ((s, w), h)"
    and i: "map_of (so_consumers s) i = Some c"
  shows "gives own E M F (S\<lparr>ss_players := filter (\<lambda>(j, p). j \<noteq> i) (ss_players S)\<rparr>) (source_free_consumer env i ((s, w), h))"
proof -
  let ?s = "s\<lparr>so_consumers := filter (\<lambda>(j, _). j \<noteq> i) (so_consumers s)\<rparr>" and ?q = "mset (mq_list (co_queue c))"
  let ?S = "S\<lparr>ss_players := filter (\<lambda>(j, p). j \<noteq> i) (ss_players S)\<rparr>"
  have ok1: "so_ok own ((?s, w), h) (?q + M)" by (rule one_consumer(3) [OF ok i])
  have good: "co_good c" using one_consumer(1) [OF ok i] by (simp add: co_ok_iff)
  have "players_of h (filter (\<lambda>(j, _). j \<noteq> i) cs) = filter (\<lambda>(j, p). j \<noteq> i) (players_of h cs)" for cs
    by (induction cs) auto
  then have "stream_of ((?s, w), h) = (stream_of ((s, w), h))\<lparr>ss_players := filter (\<lambda>(j, p). j \<noteq> i) (ss_players (stream_of ((s, w), h)))\<rparr>"
    by (intro stream_eqI) simp_all
  with S have S1: "sees (?q + M) (frame_in h) ?S ((?s, w), h)" by (simp add: sees_def)
  have fm: "\<forall>m \<in># M. frame_in h m = F m" using S by (simp add: sees_def)
  have eq: "source_on_consumer_destroy env i ((s, w), h) = (if so_consumers ?s = []
      then bindP (void (on_ext (ev_call env PlayEdge_on_all_client_stop))) (\<lambda>_. set_die_at env) else returnP ()) ((?s, w), h)"
    by (simp add: source_on_consumer_destroy_def prog_simps)
  have stop: "gives own E (?q + M) (frame_in h) ?S (bindP (void (on_ext (ev_call env PlayEdge_on_all_client_stop))) (\<lambda>_. set_die_at env) ((?s, w), h))"
    by (rule gives_bind [where m = "void (on_ext (ev_call env PlayEdge_on_all_client_stop))"], rule gives_call(2) [OF law ok1 S1], simp,
        erule (1) gives_die_at)
  have d: "gives own E (?q + M) (frame_in h) ?S (source_on_consumer_destroy env i ((s, w), h))"
    unfolding eq by (cases "so_consumers ?s = []") (simp_all only: stop gives_return [OF ok1 S1] if_True if_False simp_thms)
  obtain r s1 w1 h1 where r: "source_on_consumer_destroy env i ((s, w), h) = (r, ((s1, w1), h1))"
    by (cases "source_on_consumer_destroy env i ((s, w), h)") auto
  have void_ok: "r = Inr ()"
    using r unfolding eq by (auto simp: void_def set_die_at_def updP_def prog_eqs bindP_def split: if_splits prod.splits)
  from d r void_ok have ok2: "so_ok own ((s1, w1), h1) (?q + M)" and S2: "sees (?q + M) (frame_in h) ?S ((s1, w1), h1)"
    by (simp_all add: gives_def)
  have "sees M F ?S ((s1, w1), h1)" using S2 fm by (simp add: sees_def)
  from ok2 have "owned h1 (?q + (own w1 + (so_held s1 + M)))" using so_okD(1) [OF ok2] by (simp add: ac_simps)
  then have "mq_ok (co_queue c, h1) (own w1 + (so_held s1 + M))" using good by (simp add: mq_ok_def co_good_def)
  then obtain q h2 where 2: "mq_clear (co_queue c, h1) = (Inr (), (q, h2))" "owned h2 (own w1 + (so_held s1 + M))"
    "same_types (own w1 + (so_held s1 + M)) h1 h2"
    by (rule mq_clear_spec) (simp add: mq_ok_def)
  have t: "same_types (so_held s1 + M) h1 h2" "same_types (so_held s1) h1 h2"
    by (rule same_types_mono [OF 2(3)], simp add: subset_mset.add_increasing)+
  from so_ok_heap [OF ok2 2(2) t(2)] sees_same [OF \<open>sees M F ?S ((s1, w1), h1)\<close> t(1), of w1] show ?thesis
    by (simp add: source_free_consumer_def prog_simps i bindP_Inr [where m = "source_on_consumer_destroy env i", OF r [unfolded void_ok]]
        consumer_destroy_def on_queue_def 2(1) gives_Inr)
qed

section \<open>The life of a source\<close>

text \<open>The connection gives audio to \<^verbatim>\<open>on_audio\<close> and video to \<^verbatim>\<open>on_video\<close>.\<close>

fun typed_event :: "source_event \<Rightarrow> bool" where
  "typed_event (GotAudio cm) = mh_is_audio (cm_header cm)"
| "typed_event (GotVideo cm) = mh_is_video (cm_header cm)"
| "typed_event _ = True"

lemma no_player:
  assumes "map_of ps i = None"
  shows "map (\<lambda>(j, p). (j, if j = i then g p else p)) ps = ps" and "filter (\<lambda>(j, p). j \<noteq> i) ps = ps"
  using assms by (induction ps) (auto split: if_splits)

lemma map_of_players: "map_of (players_of h cs) i = map_option (player_of h) (map_of cs i)"
  by (induction cs) auto

lemma gives_if_player:
  assumes ok: "so_ok own st M" and S: "sees M F S st"
    and m: "\<And>s w h c. st = ((s, w), h) \<Longrightarrow> map_of (so_consumers s) i = Some c \<Longrightarrow> gives own E M F T (m st)"
    and none: "map_of (ss_players S) i = None \<Longrightarrow> T = S"
  shows "gives own E M F T (if_player i m st)"
proof -
  obtain s w h where st: "st = ((s, w), h)" by (cases st) auto
  have pl: "ss_players S = players_of h (so_consumers s)" using S by (auto simp: sees_def st)
  show ?thesis
  proof (cases "map_of (so_consumers s) i")
    case None
    with none pl have "T = S" by (simp add: map_of_players)
    with None gives_return [OF ok S, where x = "()"] show ?thesis by (simp add: if_player_def st so_prog_simps(1))
  next
    case (Some c)
    with m [OF st Some] show ?thesis by (simp add: if_player_def st so_prog_simps(1))
  qed
qed

lemma gives_do:
  assumes law: "server_law (ev_call env) own E" and E: "\<And>cm. ev = GotAggregate cm \<Longrightarrow> E ERROR_RTMP_AGGREGATE \<and> E ERROR_KERNEL_STREAM_INIT"
    and ok: "so_ok own st M" and S: "sees M F S st" and cf: "0 \<le> cf_queue_length_ms cf" and ev: "event_ok ev" "typed_event ev"
  shows "gives own E M F (stream_do cf ev S) (source_do env cf junk ev st)"
proof -
  obtain s w h where st: "st = ((s, w), h)" by (cases st) auto
  show ?thesis
  proof (cases ev)
    case (PlayerJoins ds dm dg)
    have "gives own E M F (stream_join cf ds dm dg S) (bindP (source_create_consumer env cf ds dm dg) (\<lambda>_. returnP ()) st)"
      unfolding st by (rule gives_bind, rule gives_join [OF law ok [unfolded st] S [unfolded st] cf], erule (1) gives_return)
    with PlayerJoins show ?thesis by simp
  next
    case (PlayerLeaves i)
    show ?thesis unfolding PlayerLeaves source_do.simps stream_do.simps
      by (rule gives_if_player [OF ok S]) (use gives_leave [OF law] ok S in \<open>simp_all add: no_player\<close>)
  next
    case (PlayerTakes i mx n)
    have "0 \<le> n" "0 < mx" using ev(1) PlayerTakes by simp_all
    with gives_takes ok S show ?thesis unfolding PlayerTakes source_do.simps stream_do.simps
      by (intro gives_if_player [OF ok S]) (simp_all add: with_player_def no_player)
  next
    case (PlayerPauses i b)
    show ?thesis unfolding PlayerPauses source_do.simps stream_do.simps
      by (rule gives_if_player [OF ok S]) (use gives_pause ok S in \<open>simp_all add: with_player_def no_player\<close>)
  next
    case (GotAggregate cm)
    with E have "E ERROR_RTMP_AGGREGATE" "E ERROR_KERNEL_STREAM_INIT" by blast+
    from gives_aggregate [OF law this ok S] ev GotAggregate show ?thesis by simp
  qed (use ev in \<open>simp_all add: gives_publish [OF law ok S] gives_unpublish [OF law ok S, simplified] gives_meta_data [OF law ok S]
      gives_msg [OF law ok S] gives_reload [OF ok S, simplified]
      source_set_cache_def gives_gop_set [OF ok S, simplified] source_on_edge_start_publish_def source_on_edge_proxy_publish_def
      source_on_edge_proxy_unpublish_def source_cycle_def gives_call [OF law ok S] gives_dispose [OF law ok S]\<close>)
qed

lemma source_run_stream:
  assumes law: "server_law (ev_call env) own E" and E: "E ERROR_RTMP_AGGREGATE" "E ERROR_KERNEL_STREAM_INIT"
    and cf: "0 \<le> cf_queue_length_ms cf" and "so_ok own st {#}" and "\<forall>ev \<in> set evs. event_ok ev \<and> typed_event ev"
    and "source_run env cf junk evs st = (rs, st')" and "\<forall>r \<in> set rs. r = Inr ()"
  shows "stream_of st' = stream_run cf evs (stream_of st)"
  using assms(4-8)
proof (induction evs arbitrary: st rs cf)
  case Nil
  then show ?case by simp
next
  case (Cons ev evs)
  obtain r st1 where r: "source_do env cf junk ev st = (r, st1)" by (cases "source_do env cf junk ev st")
  obtain rs' where rs: "source_run env (config_after ev cf) junk evs st1 = (rs', st')" "rs = r # rs'"
    using Cons.prems(4) r by (auto split: prod.splits)
  have "sees {#} (frame_in (snd st)) (stream_of st) st" by (simp add: sees_def)
  from gives_do [OF law _ Cons.prems(2) this Cons.prems(1), of ev junk] E Cons.prems(3,5) rs r
  have "so_ok own st1 {#}" "stream_of st1 = stream_do cf ev (stream_of st)"
    by (simp_all add: gives_def sees_def)
  with Cons.IH [OF config_after_ok this(1) _ rs(1)] Cons.prems(1,3,5) rs(2) show ?case by simp
qed

text \<open>Without a failing server only an aggregate can fail.\<close>

definition never_fails :: "srs_error \<Rightarrow> bool" where "never_fails e \<longleftrightarrow> False"
definition cut_off :: "srs_error \<Rightarrow> bool" where "cut_off e \<longleftrightarrow> e = ERROR_RTMP_AGGREGATE \<or> e = ERROR_KERNEL_STREAM_INIT"

lemma never_fails_law: "server_law ext own never_fails \<Longrightarrow> server_law ext own cut_off"
  by (fastforce simp: server_law_def never_fails_def split: prod.splits sum.splits)

lemma source_run_succeeds:
  assumes law: "server_law (ev_call env) own never_fails"
    and cf: "0 \<le> cf_queue_length_ms cf" and "so_ok own st {#}" and "\<forall>ev \<in> set evs. event_ok ev \<and> typed_event ev"
    and "source_run env cf junk evs st = (rs, st')"
  shows "length rs = length evs \<and> (\<forall>i < length evs. rs ! i = Inr () \<or> (\<exists>cm. evs ! i = GotAggregate cm))"
  using assms(2-5)
proof (induction evs arbitrary: st rs cf)
  case Nil
  then show ?case by simp
next
  case (Cons ev evs)
  obtain r st1 where r: "source_do env cf junk ev st = (r, st1)" by (cases "source_do env cf junk ev st")
  obtain rs' where rs: "source_run env (config_after ev cf) junk evs st1 = (rs', st')" "rs = r # rs'"
    using Cons.prems(4) r by (auto split: prod.splits)
  have S: "sees {#} (frame_in (snd st)) (stream_of st) st" by (simp add: sees_def)
  have "so_ok own st1 {#}"
    using gives_do [OF never_fails_law [OF law] _ Cons.prems(2) S Cons.prems(1), of ev junk] Cons.prems(3) r
    by (simp add: gives_def cut_off_def)
  with Cons.IH [OF config_after_ok this _ rs(1)] Cons.prems(1,3)
  have IH: "length rs' = length evs \<and> (\<forall>i < length evs. rs' ! i = Inr () \<or> (\<exists>cm. evs ! i = GotAggregate cm))" by simp
  have "r = Inr () \<or> (\<exists>cm. ev = GotAggregate cm)"
  proof (rule disjCI)
    assume "\<nexists>cm. ev = GotAggregate cm"
    then have "gives own never_fails {#} (frame_in (snd st)) (stream_do cf ev (stream_of st)) (source_do env cf junk ev st)"
      by (intro gives_do [OF law _ Cons.prems(2) S Cons.prems(1)]) (use Cons.prems(3) in auto)
    with r show "r = Inr ()" by (cases r) (simp_all add: gives_def never_fails_def)
  qed
  with IH rs(2) show ?case by (auto simp: nth_Cons split: nat.split)
qed

text \<open>C2: A source is a live stream: over its whole life, whatever its publisher, its players and its
  configuration do, what the players see is what the abstract stream shows them. Every frame that is
  published is copied to every player (with its time corrected, unless the times are absolute),
  repeated headers are dropped if they are to be reduced, the last group and the last headers and
  metadata are kept and given to a player that joins, mixed streams are put in order, a player
  that leaves, pauses, or takes frames changes nothing for the others. If the rest of the server
  does not fail, no operation fails, except for an aggregate message that is cut off.\<close>

theorem source_implements_stream:
  assumes "server_law (ev_call env) own E" and "own w = {#}" and "0 \<le> cf_queue_length_ms cf"
    and "\<And>e. cut_off e \<Longrightarrow> E e" and "\<forall>ev \<in> set evs. event_ok ev \<and> typed_event ev"
  shows "case source_life env cf junk vhost evs w of (rs, st) \<Rightarrow>
      ((\<forall>r \<in> set rs. r = Inr ()) \<longrightarrow> stream_of st = stream_run cf evs (stream_new cf vhost))
    \<and> (server_law (ev_call env) own never_fails \<longrightarrow> length rs = length evs
        \<and> (\<forall>i < length evs. rs ! i = Inr () \<or> (\<exists>cm. evs ! i = GotAggregate cm)))"
proof -
  obtain r st where i: "source_initialize env cf ((source_new vhost, w), empty_heap) = (r, st)"
    by (cases "source_initialize env cf ((source_new vhost, w), empty_heap)")
  have ow: "owned empty_heap (own w + {#})" by (simp add: assms(2) owned_empty)
  have g: "server_law (ev_call env) own E' \<Longrightarrow> gives own E' {#} (frame_in empty_heap) (stream_new cf vhost) (r, st)" for E'
    using gives_initialize [of env own E' empty_heap w "{#}" cf vhost] ow i by simp
  have AE: "E ERROR_RTMP_AGGREGATE" "E ERROR_KERNEL_STREAM_INIT" by (simp_all add: assms(4) cut_off_def)
  show ?thesis
  proof (cases r)
    case (Inl e)
    with g [of never_fails] show ?thesis by (auto simp: source_life_def i gives_def never_fails_def)
  next
    case (Inr u)
    then have life: "source_life env cf junk vhost evs w = source_run env cf junk evs st" by (simp add: source_life_def i)
    obtain rs st' where rs: "source_run env cf junk evs st = (rs, st')" by (cases "source_run env cf junk evs st")
    from g [OF assms(1)] Inr have ok: "so_ok own st {#}" and S: "stream_of st = stream_new cf vhost"
      by (simp_all add: gives_def sees_def)
    from source_run_stream [OF assms(1) AE assms(3) ok assms(5) rs] S
      source_run_succeeds [OF _ assms(3) ok assms(5) rs]
    show ?thesis by (simp add: life rs)
  qed
qed

theorem source_implements_stream_witness:
  "let env = \<lparr>ev_call = audio_keeper, ev_now = \<lambda>_. 0, ev_edge_can_publish = \<lambda>_. True, ev_get_id = \<lambda>_. 7\<rparr>;
       cf = \<lparr>cf_atc = False, cf_atc_auto = False, cf_reduce_sequence_header = False, cf_queue_length_ms = 30000,
         cf_time_jitter = JitterFULL, cf_mix_correct = False, cf_gop_cache = True, cf_is_edge = False\<rparr>;
       evs = [PublishStart, GotAudio (frame_msg (8, 10, [0xAF, 0])), GotVideo (frame_msg (9, 15, [0x17, 1])),
         PlayerJoins True True True, GotVideo (frame_msg (9, 20, [0x27, 1])), PlayerTakes 0 128 2]
   in case source_life env cf (\<lambda>_. 0) ''v'' evs [] of (rs, st) \<Rightarrow>
      rs = replicate 6 (Inr ()) \<and> stream_of st = stream_run cf evs (stream_new cf ''v'')"
proof -
  let ?env = "\<lparr>ev_call = audio_keeper, ev_now = \<lambda>_. 0, ev_edge_can_publish = \<lambda>_. True, ev_get_id = \<lambda>_. 7\<rparr>"
  let ?cf = "\<lparr>cf_atc = False, cf_atc_auto = False, cf_reduce_sequence_header = False, cf_queue_length_ms = 30000,
         cf_time_jitter = JitterFULL, cf_mix_correct = False, cf_gop_cache = True, cf_is_edge = False\<rparr>"
  let ?evs = "[PublishStart, GotAudio (frame_msg (8, 10, [0xAF, 0])), GotVideo (frame_msg (9, 15, [0x17, 1])),
         PlayerJoins True True True, GotVideo (frame_msg (9, 20, [0x27, 1])), PlayerTakes 0 128 2]"
  obtain rs st where life: "source_life ?env ?cf (\<lambda>_. 0) ''v'' ?evs [] = (rs, st)"
    by (cases "source_life ?env ?cf (\<lambda>_. 0) ''v'' ?evs []")
  have "case source_life ?env ?cf (\<lambda>_. 0) ''v'' ?evs [] of (rs, st) \<Rightarrow>
      ((\<forall>r \<in> set rs. r = Inr ()) \<longrightarrow> stream_of st = stream_run ?cf ?evs (stream_new ?cf ''v''))
    \<and> (server_law (ev_call ?env) mset never_fails \<longrightarrow> length rs = length ?evs
        \<and> (\<forall>i < length ?evs. rs ! i = Inr () \<or> (\<exists>cm. ?evs ! i = GotAggregate cm)))"
    by (rule source_implements_stream [where E = cut_off])
      (simp_all add: audio_keeper_law frame_msg_def cm_whole_def whole_payload_def mh_is_audio_def mh_is_video_def)
  note r = this [unfolded life prod.case env.select_convs]
  have six: "length ?evs = 6" by simp
  note succeeds = mp [OF conjunct2 [OF r] audio_keeper_law, unfolded six]
  have "\<forall>ev \<in> set ?evs. \<nexists>cm. ev = GotAggregate cm" by simp
  then have "rs ! i = Inr ()" if "i < 6" for i
    using conjunct2 [OF succeeds] that nth_mem [of i ?evs] unfolding six by blast
  then have rs: "rs = replicate 6 (Inr ())" using conjunct1 [OF succeeds] by (auto intro: nth_equalityI)
  then have "\<forall>r \<in> set rs. r = Inr ()" by simp
  from rs mp [OF conjunct1 [OF r] this] show ?thesis unfolding Let_def life prod.case by (rule conjI)
qed

end
