(* ===== verification/Srs_Source_Aggregate.thy ===== *)
theory Srs_Source_Aggregate
  imports Srs_Source_Refines
begin

unbundle bit_operations_syntax

text \<open>
  Aggregate messages: what \<^verbatim>\<open>on_aggregate\<close> makes of the messages that a publisher has packed
  into one, with the times moved to the time of the aggregate.
\<close>

section \<open>The messages of an aggregate\<close>

text \<open>A packed message: its type, time, stream and data, and the size of the previous tag.\<close>

record agg_part =
  ap_type :: byte
  ap_time :: "32 word"
  ap_stream :: "32 word"
  ap_data :: "byte list"
  ap_previous :: "32 word"

definition part_bytes :: "agg_part \<Rightarrow> byte list" where
  "part_bytes p = be 1 (ap_type p) @ be 3 (word_of_nat (length (ap_data p)) :: 32 word) @ be 3 (ap_time p)
     @ be 1 (ucast (drop_bit 24 (ap_time p)) :: byte) @ be 3 (ap_stream p) @ ap_data p @ be 4 (ap_previous p)"

definition part_ok :: "agg_part \<Rightarrow> bool" where
  "part_ok p \<longleftrightarrow> length (ap_data p) < 2 ^ 24"

definition part_time :: "agg_part \<Rightarrow> 32 word" where
  "part_time p = ap_time p AND 0x7FFFFFFF"

text \<open>The message that the players get.\<close>

definition part_msg :: "msg_header \<Rightarrow> 32 word \<Rightarrow> agg_part \<Rightarrow> common_msg" where
  "part_msg header delta p = (let t = part_time p + delta; n = length (ap_data p) in
     \<lparr>cm_header = mh_new\<lparr>mh_message_type := ap_type p, mh_payload_length := word_of_nat n,
        mh_timestamp_delta := t, mh_timestamp := scast t, mh_stream_id := take_bit 24 (ap_stream p),
        mh_perfer_cid := mh_perfer_cid header\<rparr>,
      cm_size = int n, cm_payload = (if n = 0 then None else Some (map Some (ap_data p)))\<rparr>)"

fun part_msgs :: "msg_header \<Rightarrow> 32 word \<Rightarrow> agg_part list \<Rightarrow> common_msg list" where
  "part_msgs header delta [] = []"
| "part_msgs header delta (p # ps) = (let d = aggregate_delta (mh_timestamp header) (part_time p) delta
     in part_msg header d p # part_msgs header d ps)"

lemma part_msgs_known: "delta \<noteq> - 1 \<Longrightarrow> part_msgs header delta ps = map (part_msg header delta) ps"
  by (induction ps) (simp_all add: aggregate_delta_def Let_def)

lemma aggregate_time_of: "aggregate_time (take_bit 24 t) (ucast (drop_bit 24 t)) = t AND 0x7FFFFFFF"
proof -
  have "(0x7FFFFFFF :: 32 word) = mask 31" by (simp add: mask_numeral)
  then show ?thesis
    by (auto intro!: bit_word_eqI simp: aggregate_time_def bit_simps)
qed

lemma length_part: "length (part_bytes p) = 15 + length (ap_data p)"
  by (simp add: part_bytes_def)

lemma sint_length:
  assumes "part_ok p"
  shows "sint (take_bit 24 (word_of_nat (length (ap_data p)) :: 32 word)) = int (length (ap_data p))"
    and "take_bit 24 (word_of_nat (length (ap_data p)) :: 32 word) = word_of_nat (length (ap_data p))"
proof -
  have n: "length (ap_data p) < 2 ^ 24" using assms by (simp add: part_ok_def)
  have u: "unat (word_of_nat (length (ap_data p)) :: 32 word) = length (ap_data p)"
    using n by (simp add: unsigned_of_nat take_bit_nat_eq_self)
  show t: "take_bit 24 (word_of_nat (length (ap_data p)) :: 32 word) = word_of_nat (length (ap_data p))"
    by (rule word_unat_eq_iff [THEN iffD2]) (use n u in \<open>simp add: unsigned_take_bit_eq take_bit_nat_eq_self\<close>)
  show "sint (take_bit 24 (word_of_nat (length (ap_data p)) :: 32 word)) = int (length (ap_data p))"
    unfolding t using n by (simp add: signed_of_nat signed_take_bit_int_eq_self)
qed

lemma aggregate_next_part:
  assumes ok: "part_ok p" and up: "upcoming s = part_bytes p @ rest"
  shows "aggregate_next header s delta = Inr (let d = aggregate_delta (mh_timestamp header) (part_time p) delta in
    (part_msg header d p, d, adv (length (part_bytes p)) s))"
proof -
  let ?n = "length (ap_data p)"
  have room: "room (15 + ?n) s"
    using upcoming_room [OF up] by (simp add: length_part) (simp add: part_bytes_def)
  then have r: "room k s" if "k \<le> 15 + ?n" for k using that by (rule room_mono)
  have u: "upcoming (adv 1 s) = be 3 (word_of_nat ?n :: 32 word) @ be 3 (ap_time p) @ be 1 (ucast (drop_bit 24 (ap_time p)) :: byte)
      @ be 3 (ap_stream p) @ ap_data p @ be 4 (ap_previous p) @ rest"
    "upcoming (adv 4 s) = be 3 (ap_time p) @ be 1 (ucast (drop_bit 24 (ap_time p)) :: byte)
      @ be 3 (ap_stream p) @ ap_data p @ be 4 (ap_previous p) @ rest"
    "upcoming (adv 7 s) = be 1 (ucast (drop_bit 24 (ap_time p)) :: byte) @ be 3 (ap_stream p) @ ap_data p @ be 4 (ap_previous p) @ rest"
    "upcoming (adv 8 s) = be 3 (ap_stream p) @ ap_data p @ be 4 (ap_previous p) @ rest"
    "upcoming (adv 11 s) = ap_data p @ be 4 (ap_previous p) @ rest"
    by (simp_all add: upcoming_adv up part_bytes_def)
  have adv: "adv 3 (adv 1 s) = adv 4 s" "adv 3 (adv 4 s) = adv 7 s" "adv 1 (adv 7 s) = adv 8 s" "adv 3 (adv 8 s) = adv 11 s"
    "adv ?n (adv 11 s) = adv (11 + ?n) s" "adv 4 (adv (11 + ?n) s) = adv (15 + ?n) s"
    by (simp_all add: adv_def)
  have u6: "upcoming (adv (11 + ?n) s) = be 4 (ap_previous p) @ rest"
    using upcoming_adv [of ?n "adv 11 s"] by (simp add: adv u(5))
  have "upcoming s = be 1 (ap_type p) @ be 3 (word_of_nat ?n :: 32 word) @ be 3 (ap_time p)
      @ be 1 (ucast (drop_bit 24 (ap_time p)) :: byte) @ be 3 (ap_stream p) @ ap_data p @ be 4 (ap_previous p) @ rest"
    by (simp add: up part_bytes_def)
  note rd = read_be(1) [OF this] read_be(3) [OF u(1)] read_be(3) [OF u(2)] read_be(1) [OF u(3)] read_be(3) [OF u(4)] read_be(4) [OF u6]
  have rooms: "room 3 (adv 1 s)" "room 3 (adv 4 s)" "room 1 (adv 7 s)" "room 3 (adv 8 s)" "room ?n (adv 11 s)" "room 4 (adv (11 + ?n) s)" "room 1 s"
    using r by (simp_all add: room_adv)
  have sz: "sint (word_of_nat ?n :: 32 word) = int ?n" using sint_length [OF ok] by simp
  have head: "aggregate_head s = Inr ((ap_type p, word_of_nat ?n, part_time p), adv 8 s)"
    by (simp add: aggregate_head_def need_numeral rooms rd adv sint_length(2) [OF ok] sz aggregate_time_of part_time_def del: One_nat_def)
  have body: "aggregate_body (word_of_nat ?n) (adv 8 s)
      = Inr ((take_bit 24 (ap_stream p), if ?n = 0 then None else Some (map Some (ap_data p))), adv (15 + ?n) s)"
  proof (cases "?n = 0")
    case True
    with sz rd(6) rooms adv(6) show ?thesis
      by (simp add: aggregate_body_def need_numeral rd(5) adv)
  next
    case False
    then have ne: "ap_data p \<noteq> []" by simp
    have "read_bytes (int ?n) (adv 11 s) = Inr (ap_data p, adv (11 + ?n) s)"
      unfolding read_bytes_def by (subst fetch_upcoming [OF u(5) ne]) (simp add: adv)
    with False rd(6) show ?thesis
      by (simp add: aggregate_body_def need_numeral rooms rd(5) adv sz)
  qed
  show ?thesis
    by (simp add: aggregate_next_def head body Let_def part_msg_def sz length_part)
qed

section \<open>Splitting\<close>

text \<open>Messages one after the other.\<close>

fun source_on_each :: "'w env \<Rightarrow> vhost_config \<Rightarrow> common_msg list \<Rightarrow> ('w, unit) so_prog" where
  "source_on_each env cf [] = returnP ()"
| "source_on_each env cf (m # ms) = bindP (source_on_aggregated env cf m) (\<lambda>_. source_on_each env cf ms)"

lemma aggregate_loop_each:
  assumes "\<forall>p \<in> set ps. part_ok p" and "upcoming s = concat (map part_bytes ps)" and "\<not> sb_null s" and "length ps < n"
  shows "aggregate_loop env cf header n s delta = source_on_each env cf (part_msgs header delta ps)"
  using assms
proof (induction ps arbitrary: n s delta)
  case Nil
  then obtain k where "n = Suc k" by (cases n) auto
  with Nil show ?case by (simp add: buf_empty_upcoming)
next
  case (Cons p ps)
  then obtain k where k: "n = Suc k" "length ps < k" by (cases n) auto
  have up: "upcoming s = part_bytes p @ concat (map part_bytes ps)" using Cons.prems(2) by simp
  have ne: "\<not> buf_empty s" using Cons.prems(3) length_part [of p] by (auto simp: buf_empty_upcoming up)
  have "upcoming (adv (length (part_bytes p)) s) = concat (map part_bytes ps)" by (simp add: upcoming_adv up)
  moreover have "\<not> sb_null (adv (length (part_bytes p)) s)" using Cons.prems(3) by (simp add: adv_def)
  ultimately have IH: "aggregate_loop env cf header k (adv (length (part_bytes p)) s) d = source_on_each env cf (part_msgs header d ps)" for d
    using Cons.prems(1) k(2) by (intro Cons.IH) simp_all
  let ?d = "aggregate_delta (mh_timestamp header) (part_time p) delta"
  have "aggregate_loop env cf header (Suc k) s delta
      = bindP (source_on_aggregated env cf (part_msg header ?d p)) (\<lambda>_. aggregate_loop env cf header k (adv (length (part_bytes p)) s) ?d)"
    using ne aggregate_next_part [OF _ up, of header delta] Cons.prems(1)
    by (simp add: Let_def liftR_def bindP_def fun_eq_iff)
  moreover have "source_on_each env cf (part_msgs header delta (p # ps))
      = bindP (source_on_aggregated env cf (part_msg header ?d p)) (\<lambda>_. source_on_each env cf (part_msgs header ?d ps))"
    by (simp add: Let_def)
  ultimately show ?case unfolding k(1) by (simp only: IH)
qed

lemma source_on_aggregate_parts:
  assumes "\<forall>p \<in> set ps. part_ok p" and "ps \<noteq> []" and "cm_payload cm = Some (map Some (concat (map part_bytes ps)))"
  shows "source_on_aggregate env cf cm = source_on_each env cf (part_msgs (cm_header cm) (- 1) ps)"
proof -
  let ?bs = "concat (map part_bytes ps)"
  obtain p ps' where ps: "ps = p # ps'" using assms(2) by (cases ps) auto
  have ne: "?bs \<noteq> []" using length_part [of p] by (auto simp: ps)
  obtain s where s: "buf_initialize (Some ?bs) = Inr s" "upcoming s = ?bs" "sb_bytes s = ?bs" "\<not> sb_null s"
    using ne by (auto simp: buf_initialize_def upcoming_def)
  have view: "payload_view (cm_payload cm) = Inr (Some ?bs)"
    by (simp add: payload_view_def assms(3) o_def)
  have "length ps \<le> length ?bs"
  proof -
    have "length qs \<le> length (concat (map part_bytes qs))" for qs
      by (induction qs) (simp_all add: length_part)
    then show ?thesis .
  qed
  then have "length ps < Suc (length (sb_bytes s))" by (simp add: s(3))
  from aggregate_loop_each [OF assms(1) s(2,4) this] show ?thesis
    by (simp add: source_on_aggregate_def view s(1) liftR_def bindP_def fun_eq_iff del: aggregate_loop.simps)
qed

section \<open>Properties\<close>

definition demo_part :: "byte \<Rightarrow> 32 word \<Rightarrow> byte list \<Rightarrow> agg_part" where
  "demo_part ty t bs = \<lparr>ap_type = ty, ap_time = t, ap_stream = 1, ap_data = bs, ap_previous = 0\<rparr>"

definition demo_aggregate :: "64 word \<Rightarrow> agg_part list \<Rightarrow> common_msg" where
  "demo_aggregate t ps = (let bs = concat (map part_bytes ps) in
     \<lparr>cm_header = mh_new\<lparr>mh_message_type := 22, mh_timestamp := t\<rparr>, cm_size = int (length bs), cm_payload = Some (map Some bs)\<rparr>)"

definition demo_env :: "shared_msg list env" where
  "demo_env = \<lparr>ev_call = audio_keeper, ev_now = \<lambda>_. 0, ev_edge_can_publish = \<lambda>_. True, ev_get_id = \<lambda>_. 7\<rparr>"

definition demo_cf :: vhost_config where
  "demo_cf = \<lparr>cf_atc = False, cf_atc_auto = False, cf_reduce_sequence_header = False, cf_queue_length_ms = 30000,
     cf_time_jitter = JitterFULL, cf_mix_correct = False, cf_gop_cache = True, cf_is_edge = False\<rparr>"

text \<open>C15: An aggregate message is the sequence of the messages packed in it: for every list of
  packed messages whose first is not exactly one millisecond later than the aggregate, \<^verbatim>\<open>on_aggregate\<close> does exactly what \<^verbatim>\<open>on_audio\<close> and \<^verbatim>\<open>on_video\<close> do with
  them one after the other, with their types, streams and data, and with their times moved by one
  common distance such that the first has the time of the aggregate. (A distance of -1 is what the code takes for not yet known; there it fails to move
  the times by one distance, which lemma \<open>aggregate_distance_lost\<close> shows.)\<close>

theorem aggregate_splits:
  assumes "\<forall>p \<in> set ps. part_ok p" and "ps \<noteq> []" and "cm_payload cm = Some (map Some (concat (map part_bytes ps)))"
    and "ucast (mh_timestamp (cm_header cm)) - part_time (hd ps) \<noteq> - 1"
  shows "let d = ucast (mh_timestamp (cm_header cm)) - part_time (hd ps) in
    source_on_aggregate env cf cm = source_on_each env cf (map (part_msg (cm_header cm) d) ps)
    \<and> mh_timestamp (cm_header (part_msg (cm_header cm) d (hd ps))) = scast (ucast (mh_timestamp (cm_header cm)) :: 32 word)"
proof -
  obtain p ps' where ps: "ps = p # ps'" using assms(2) by (cases ps) auto
  with assms(4) have "part_msgs (cm_header cm) (- 1) ps = map (part_msg (cm_header cm) (ucast (mh_timestamp (cm_header cm)) - part_time p)) ps"
    by (simp add: aggregate_delta_def Let_def part_msgs_known)
  then have "source_on_aggregate env cf cm
      = source_on_each env cf (map (part_msg (cm_header cm) (ucast (mh_timestamp (cm_header cm)) - part_time (hd ps))) ps)"
    unfolding source_on_aggregate_parts [OF assms(1-3)] by (simp only: ps list.sel)
  moreover have "mh_timestamp (cm_header (part_msg (cm_header cm) (ucast (mh_timestamp (cm_header cm)) - part_time (hd ps)) (hd ps)))
      = scast (ucast (mh_timestamp (cm_header cm)) :: 32 word)"
    by (simp add: part_msg_def Let_def)
  ultimately show ?thesis unfolding Let_def by (rule conjI)
qed

theorem aggregate_splits_witness:
  "let ps = [demo_part 8 1000 [0xAF, 1], demo_part 9 1040 [0x27, 1]]; cm = demo_aggregate 5000 ps in
    source_on_aggregate demo_env demo_cf cm = source_on_each demo_env demo_cf (map (part_msg (cm_header cm) 4000) ps)"
proof -
  let ?ps = "[demo_part 8 1000 [0xAF, 1], demo_part 9 1040 [0x27, 1]]"
  have "part_time (hd ?ps) = 1000" by (simp add: part_time_def demo_part_def)
  with aggregate_splits [of ?ps "demo_aggregate 5000 ?ps" demo_env demo_cf] show ?thesis
    by (simp add: Let_def part_ok_def demo_aggregate_def demo_part_def)
qed

text \<open>The distance -1 is taken for "not yet known": when the first packed message is one
  millisecond later than the aggregate, the distance is computed again for the next message, which
  so gets the time of the aggregate, as the first has, however much later it is.\<close>

theorem aggregate_distance_lost:
  assumes "part_ok p" and "part_ok q" and "cm_payload cm = Some (map Some (part_bytes p @ part_bytes q))"
    and "part_time p = ucast (mh_timestamp (cm_header cm)) + 1"
  shows "\<exists>m1 m2. source_on_aggregate env cf cm = source_on_each env cf [m1, m2]
    \<and> cm_payload m1 = (if ap_data p = [] then None else Some (map Some (ap_data p)))
    \<and> cm_payload m2 = (if ap_data q = [] then None else Some (map Some (ap_data q)))
    \<and> mh_timestamp (cm_header m1) = mh_timestamp (cm_header m2)"
proof -
  let ?t = "ucast (mh_timestamp (cm_header cm)) :: 32 word"
  have d: "?t - part_time p = - 1" using assms(4) by simp
  have "part_msgs (cm_header cm) (- 1) [p, q] = [part_msg (cm_header cm) (- 1) p, part_msg (cm_header cm) (?t - part_time q) q]"
    by (simp add: aggregate_delta_def Let_def d)
  then have "source_on_aggregate env cf cm
      = source_on_each env cf [part_msg (cm_header cm) (- 1) p, part_msg (cm_header cm) (?t - part_time q) q]"
    using source_on_aggregate_parts [of "[p, q]" cm env cf] assms(1-3) by simp
  moreover have "mh_timestamp (cm_header (part_msg (cm_header cm) (- 1) p))
      = mh_timestamp (cm_header (part_msg (cm_header cm) (?t - part_time q) q))"
    by (simp add: part_msg_def Let_def assms(4))
  moreover have "cm_payload (part_msg (cm_header cm) e r) = (if ap_data r = [] then None else Some (map Some (ap_data r)))" for e r
    by (simp add: part_msg_def Let_def)
  ultimately show ?thesis by (intro exI conjI)
qed

theorem aggregate_distance_lost_witness:
  "let p = demo_part 8 5001 [0xAF, 1]; q = demo_part 9 5041 [0x27, 1]; cm = demo_aggregate 5000 [p, q] in
    \<exists>m1 m2. source_on_aggregate demo_env demo_cf cm = source_on_each demo_env demo_cf [m1, m2]
    \<and> cm_payload m1 = Some (map Some (ap_data p)) \<and> cm_payload m2 = Some (map Some (ap_data q))
    \<and> mh_timestamp (cm_header m1) = mh_timestamp (cm_header m2)"
  using aggregate_distance_lost [of "demo_part 8 5001 [0xAF, 1]" "demo_part 9 5041 [0x27, 1]"
      "demo_aggregate 5000 [demo_part 8 5001 [0xAF, 1], demo_part 9 5041 [0x27, 1]]" demo_env demo_cf]
  by (simp add: Let_def part_ok_def demo_aggregate_def demo_part_def part_time_def)

end
