(* ===== verification/Srs_Source_Expiry.thy ===== *)
theory Srs_Source_Expiry
  imports Srs_Source_Safety
begin

text \<open>
  When a source dies: whether it is published, who plays it, and since when nobody does. Whatever
  the rest of the server does, only publishing and players change that.
\<close>

section \<open>What decides\<close>

definition core :: "(source \<times> 'w) \<times> sp_heap \<Rightarrow> bool \<times> 64 word \<times> nat list" where
  "core st = (case st of ((s, w), h) \<Rightarrow> (so_can_publish s, so_die_at s, map fst (so_consumers s)))"

definition world_of :: "(source \<times> 'w) \<times> sp_heap \<Rightarrow> 'w" where
  "world_of st = (case st of ((s, w), h) \<Rightarrow> w)"

definition same_core :: "('w, 'a) so_prog \<Rightarrow> bool" where
  "same_core m \<longleftrightarrow> (\<forall>st. core (snd (m st)) = core st)"

named_theorems core_intros

lemma same_coreI: "(\<And>s w h. core (snd (m ((s, w), h))) = core ((s, w), h)) \<Longrightarrow> same_core m"
  by (simp add: same_core_def)

lemma same_coreD: "same_core m \<Longrightarrow> m st = (r, st') \<Longrightarrow> core st' = core st"
  unfolding same_core_def by (metis snd_conv)

lemma core_bind [core_intros]: "same_core m \<Longrightarrow> (\<And>x. same_core (f x)) \<Longrightarrow> same_core (bindP m f)"
  by (auto simp: same_core_def bindP_def split: prod.splits sum.splits) (metis snd_conv)+

lemma core_simple [core_intros]:
  "same_core (returnP x)" "same_core (raiseP e)" "same_core (liftR r)" "same_core (so_get g)" "same_core (getS f)"
  "same_core (on_shared p)" "same_core (on_ext n)" "same_core (on_gop g1)" "same_core (on_mix q)" "same_core (on_meta c)"
  "same_core (on_meta_w d)"
  by (auto simp: same_core_def core_def prog_eqs prog_simps liftR_def on_shared_def on_part_def on_ext_def on_gop_def on_mix_def
      on_meta_def on_meta_w_def so_get_def getS_def split: prod.splits sum.splits)

lemma core_void [core_intros]: "same_core m \<Longrightarrow> same_core (void m)"
  by (simp add: same_core_def void_def)

lemma core_finally [core_intros]: "same_core m \<Longrightarrow> same_core n \<Longrightarrow> same_core (finallyP m n)"
  by (auto simp: same_core_def finallyP_def split: prod.splits sum.splits) (metis snd_conv)+

lemma core_cases [core_intros]:
  "same_core m \<Longrightarrow> same_core n \<Longrightarrow> same_core (if b then m else n)"
  "same_core m1 \<Longrightarrow> (\<And>x. same_core (f x)) \<Longrightarrow> same_core (case mo of None \<Rightarrow> m1 | Some x \<Rightarrow> f x)"
  "(\<And>x y. same_core (g x y)) \<Longrightarrow> same_core (case p of (x, y) \<Rightarrow> g x y)"
  by (auto split: option.split prod.split)

lemma core_upd [core_intros]:
  "(\<And>s. so_can_publish (u s) = so_can_publish s \<and> so_die_at (u s) = so_die_at s \<and> map fst (so_consumers (u s)) = map fst (so_consumers s))
   \<Longrightarrow> same_core (so_upd u)"
  by (rule same_coreI) (simp add: core_def prog_simps)

lemma enqueue_each_ids: "map fst (fst (snd (enqueue_each m atc ag cs h))) = map fst cs"
  by (induction cs arbitrary: h) (auto split: prod.splits sum.splits, metis fst_conv snd_conv)

lemma core_copy [core_intros]: "same_core (copy_to_consumers m)"
proof (rule same_coreI)
  fix s and w :: 'a and h
  show "core (snd (copy_to_consumers m ((s, w), h))) = core ((s, w), h)"
    using enqueue_each_ids [of m "so_atc s" "so_jitter_algorithm s" "so_consumers s" h]
    by (auto simp: copy_to_consumers_def prog_simps core_def split: prod.splits)
qed

lemma core_consumer [core_intros]: "same_core (on_consumer i m)"
  by (rule same_coreI) (auto simp: on_consumer_eq core_def split: prod.splits)

section \<open>Most operations leave it\<close>

lemma core_audio_imp: "same_core (source_on_audio_imp env cf m)"
  unfolding source_on_audio_imp_def by (intro core_intros)

lemma core_video_imp: "same_core (source_on_video_imp env cf m)"
  unfolding source_on_video_imp_def by (intro core_intros)

lemma core_mixed: "same_core (push_mixed env cf m)"
  unfolding push_mixed_def consume_mixed_def by (intro core_intros core_audio_imp core_video_imp)

lemma core_note: "same_core (so_upd (note_packet t))"
  by (intro core_intros) (simp add: note_packet_def Let_def)

lemma core_audio: "same_core (source_on_audio env cf cm)"
  unfolding source_on_audio_def
  by (intro core_intros core_note core_audio_imp core_mixed)

lemma core_video: "same_core (source_on_video env cf cm)"
  unfolding source_on_video_def
  by (intro core_intros core_note core_video_imp core_mixed)

lemma core_aggregate: "same_core (source_on_aggregate env cf cm)"
proof -
  have one: "same_core (source_on_aggregated env cf m)" for m
    by (auto simp: source_on_aggregated_def core_audio core_video core_intros)
  have "same_core (aggregate_loop env cf header n s delta)" for header n s delta
    by (induction n arbitrary: s delta) (auto intro!: core_intros one)
  then show ?thesis unfolding source_on_aggregate_def by (intro core_intros)
qed

lemma core_meta_data: "same_core (source_on_meta_data env cf junk header p)"
  unfolding source_on_meta_data_def by (intro core_intros) simp_all

lemma core_dump: "same_core (player_takes i mx n)" "same_core (source_consumer_pause i b)"
  unfolding player_takes_def source_consumer_dump_def source_consumer_pause_def
  by (intro core_intros)+

lemma core_if_player [core_intros]: "same_core m \<Longrightarrow> same_core (if_player i m)"
  unfolding if_player_def by (intro core_intros)

lemma core_reload: "same_core (source_on_reload_vhost_play cf vhost)"
  unfolding source_on_reload_vhost_play_def by (intro core_intros) simp_all

lemma core_dispose: "same_core (source_dispose env)"
  unfolding source_dispose_def by (intro core_intros)

lemma core_initialize: "same_core (source_initialize env cf)"
  unfolding source_initialize_def by (intro core_intros) simp_all

lemma core_others: "same_core (source_set_cache b)" "same_core (source_cycle env)" "same_core (source_on_edge_start_publish env)"
  "same_core (source_on_edge_proxy_publish env cm)" "same_core (source_on_edge_proxy_unpublish env)"
  unfolding source_set_cache_def source_cycle_def source_on_edge_start_publish_def source_on_edge_proxy_publish_def
    source_on_edge_proxy_unpublish_def
  by (intro core_intros)+

section \<open>Publishers and players\<close>

abbreviation ids :: "source \<Rightarrow> nat list" where "ids s \<equiv> map fst (so_consumers s)"

lemma core_eq: "core ((s, w), h) = (so_can_publish s, so_die_at s, ids s)"
  by (simp add: core_def)

lemma core_publish: "core (snd (source_on_publish env ((s, w), h))) = (False, so_die_at s, ids s)"
proof -
  have "same_core (bindP (getS (\<lambda>(s, w). ev_get_id env w))
     (\<lambda>id. bindP (so_upd (source_on_source_id_changed id))
     (\<lambda>_. bindP (on_mix mix_queue_clear)
     (\<lambda>_. bindP (so_upd (\<lambda>s. s\<lparr>so_is_monotonically_increase := True, so_last_packet_time := 0\<rparr>))
     (\<lambda>_. bindP (on_ext (ev_call env Hub_on_publish))
     (\<lambda>_. bindP (on_ext (ev_call env Handler_on_publish))
     (\<lambda>_. bindP (so_get so_source_id)
     (\<lambda>id. void (on_ext (ev_call env (Stat_on_stream_publish id)))))))))))"
    by (intro core_intros) (simp_all add: source_on_source_id_changed_def Let_def)
  then show ?thesis unfolding source_on_publish_def so_prog_simps(2) by (simp add: same_core_def core_eq)
qed

lemma void_core:
  assumes "same_core m"
  obtains s' w' h' where "void m ((s, w), h) = (Inr (), ((s', w'), h'))" "core ((s', w'), h') = core ((s, w), h)"
proof -
  obtain r s' w' h' where m: "m ((s, w), h) = (r, ((s', w'), h'))" by (cases "m ((s, w), h)") auto
  from that [of s' w' h'] same_coreD [OF assms m] show thesis by (simp add: void_def m)
qed

lemma core_unpublish:
  assumes law: "server_law (ev_call env) own E" and ok: "so_ok own ((s, w), h) M"
  shows "core (snd (source_on_unpublish env ((s, w), h))) = (if so_can_publish s then core ((s, w), h)
     else (True, if so_consumers s = [] then ev_now env (world_of (snd (source_on_unpublish env ((s, w), h)))) else so_die_at s, ids s))"
proof (cases "so_can_publish s")
  case True
  then show ?thesis by (simp add: source_on_unpublish_def prog_simps prog_eqs)
next
  case False
  let ?v = "\<lambda>c. void (on_ext (ev_call env c))"
  have v: "same_core (on_ext (ev_call env c))" for c by (intro core_intros)
  obtain s1 w1 h1 where 1: "?v Hub_on_unpublish ((s, w), h) = (Inr (), ((s1, w1), h1))" "core ((s1, w1), h1) = core ((s, w), h)"
    using void_core [OF v] .
  have "safe own E M (?v Hub_on_unpublish ((s, w), h))" by (rule safe_void, rule safe_call [OF law ok]) simp
  then have ok1: "so_ok own ((s1, w1), h1) M" by (simp add: 1(1) keeps_def)
  obtain g h2 where 2: "on_gop gop_cache_clear ((s1, w1), h1) = (Inr (), ((s1\<lparr>so_gop_cache := g\<rparr>, w1), h2))"
    using source_gop_clear_spec [OF ok1] by metis
  let ?s2 = "s1\<lparr>so_gop_cache := g, so_can_publish := True, so_source_id := - 1\<rparr>"
  obtain s3 w3 h3 where 3: "?v Stat_on_stream_close ((?s2, w1), h2) = (Inr (), ((s3, w3), h3))" "core ((s3, w3), h3) = core ((?s2, w1), h2)"
    using void_core [OF v] .
  obtain s4 w4 h4 where 4: "?v Handler_on_unpublish ((s3, w3), h3) = (Inr (), ((s4, w4), h4))" "core ((s4, w4), h4) = core ((s3, w3), h3)"
    using void_core [OF v] .
  have eq: "so_consumers s4 = [] \<longleftrightarrow> so_consumers s = []" "so_can_publish s4" "so_die_at s4 = so_die_at s" "ids s4 = ids s"
    using 1(2) 3(2) 4(2) by (auto simp: core_eq)
  have "source_on_unpublish env ((s, w), h) = (if so_consumers s = [] then set_die_at env else returnP ()) ((s4, w4), h4)"
    using False by (simp add: source_on_unpublish_def prog_simps bindP_Inr [where m = "?v Hub_on_unpublish", OF 1(1)]
        bindP_Inr [where m = "on_gop gop_cache_clear", OF 2] bindP_Inr [where m = "?v Stat_on_stream_close", OF 3(1)]
        bindP_Inr [where m = "?v Handler_on_unpublish", OF 4(1)] eq(1))
  with False eq show ?thesis by (auto simp: core_eq world_of_def set_die_at_def prog_simps prog_eqs)
qed

lemma core_join: "core (snd (source_create_consumer env cf ds dm dg ((s, w), h))) = (so_can_publish s, so_die_at s, ids s @ [so_next s])"
proof -
  let ?u = "\<lambda>i. so_upd (\<lambda>s. s\<lparr>so_next := Suc i,
          so_consumers := so_consumers s @ [(i, consumer_set_queue_size (cf_queue_length_ms cf) consumer_new)]\<rparr>)"
  define k where "k = (\<lambda>i. bindP (so_get (\<lambda>s. (so_atc s, so_gop_cache s)))
     (\<lambda>(atc, gop). bindP (if atc \<and> \<not> gop_cache_empty gop
         then on_meta (updP (\<lambda>c. let t = gop_cache_start_time gop in
           \<lparr>mc_meta = retime t (mc_meta c), mc_video = retime t (mc_video c), mc_audio = retime t (mc_audio c)\<rparr>))
         else returnP ())
     (\<lambda>_. bindP (so_get (\<lambda>s. (so_meta s, so_jitter_algorithm s)))
     (\<lambda>(meta, ag). bindP (on_consumer i (meta_cache_dumps meta atc ag dm ds))
     (\<lambda>_. bindP (if dg then on_consumer i (gop_cache_dump gop atc ag) else returnP ())
     (\<lambda>_. bindP (if cf_is_edge cf then on_ext (ev_call env PlayEdge_on_client_play) else returnP ())
     (\<lambda>_. returnP i)))))) :: ('a, nat) so_prog)"
  have "same_core (k i)" for i unfolding k_def by (intro core_intros)
  moreover have "source_create_consumer env cf ds dm dg ((s, w), h) = k (so_next s) (snd (?u (so_next s) ((s, w), h)))"
    by (simp add: source_create_consumer_def k_def so_prog_simps(1-3))
  ultimately show ?thesis by (simp add: same_core_def core_eq prog_simps)
qed

lemma fst_filter: "map fst (filter (\<lambda>(j, _). j \<noteq> i) cs) = filter (\<lambda>j. j \<noteq> i) (map fst cs)"
  by (induction cs) auto

lemma core_leave:
  assumes "map_of (so_consumers s) i = Some c"
  shows "core (snd (source_free_consumer env i ((s, w), h)))
    = (so_can_publish s, if filter (\<lambda>j. j \<noteq> i) (ids s) = [] then ev_now env (world_of (snd (source_free_consumer env i ((s, w), h))))
       else so_die_at s, filter (\<lambda>j. j \<noteq> i) (ids s))"
proof -
  let ?s = "s\<lparr>so_consumers := filter (\<lambda>(j, _). j \<noteq> i) (so_consumers s)\<rparr>"
  have ids: "ids ?s = filter (\<lambda>j. j \<noteq> i) (ids s)" by (simp add: fst_filter)
  then have none: "filter (\<lambda>j. j \<noteq> i) (ids s) = [] \<longleftrightarrow> so_consumers ?s = []" by (metis map_is_Nil_conv)
  have v: "same_core (on_ext (ev_call env PlayEdge_on_all_client_stop))" by (intro core_intros)
  obtain s1 w1 h1 where 1: "void (on_ext (ev_call env PlayEdge_on_all_client_stop)) ((?s, w), h) = (Inr (), ((s1, w1), h1))"
      "core ((s1, w1), h1) = core ((?s, w), h)"
    using void_core [OF v] .
  have eq: "source_on_consumer_destroy env i ((s, w), h) = (if so_consumers ?s = []
      then set_die_at env ((s1, w1), h1) else (Inr (), ((?s, w), h)))"
    using 1(1) by (auto simp: source_on_consumer_destroy_def prog_simps bindP_Inr [where m = "void (on_ext (ev_call env PlayEdge_on_all_client_stop))"])
  have fin: "same_core (on_part (\<lambda>_. c) (\<lambda>_ x. x) consumer_destroy :: ('a, unit) so_prog)"
    by (rule same_coreI) (auto simp: on_part_def core_def split: prod.splits)
  have "source_free_consumer env i ((s, w), h)
    = bindP (source_on_consumer_destroy env i) (\<lambda>_. on_part (\<lambda>_. c) (\<lambda>_ x. x) consumer_destroy) ((s, w), h)"
    by (simp add: source_free_consumer_def so_prog_simps(1) assms)
  then have fin: "core (snd (source_free_consumer env i ((s, w), h))) = core (snd (source_on_consumer_destroy env i ((s, w), h)))"
      "world_of (snd (source_free_consumer env i ((s, w), h))) = world_of (snd (source_on_consumer_destroy env i ((s, w), h)))"
    using fin by (simp_all add: eq bindP_def same_core_def set_die_at_def prog_simps world_of_def on_part_def split: prod.split)
  show ?thesis
  proof (cases "so_consumers ?s = []")
    case True
    with none have "filter (\<lambda>j. j \<noteq> i) (ids s) = []" by blast
    with fin True 1(2) show ?thesis by (auto simp: eq core_eq world_of_def set_die_at_def prog_simps)
  next
    case False
    with none have "filter (\<lambda>j. j \<noteq> i) (ids s) \<noteq> []" by blast
    with fin False show ?thesis by (simp add: eq core_eq fst_filter del: filter_empty_conv)
  qed
qed

section \<open>The life of a source\<close>

definition uses :: "source_event \<Rightarrow> bool" where
  "uses ev = (case ev of PublishStart \<Rightarrow> True | PlayerJoins _ _ _ \<Rightarrow> True | _ \<Rightarrow> False)"

definition leaves :: "source_event \<Rightarrow> bool" where
  "leaves ev = (case ev of PublishStop \<Rightarrow> True | PlayerLeaves _ \<Rightarrow> True | _ \<Rightarrow> False)"

lemma core_do: "\<not> uses ev \<Longrightarrow> \<not> leaves ev \<Longrightarrow> same_core (source_do env cf junk ev)"
  by (cases ev) (simp_all add: uses_def leaves_def core_meta_data core_audio core_video core_aggregate core_if_player core_dump
      core_reload core_others core_dispose)

text \<open>Nobody publishes the source and nobody plays it.\<close>

definition unused :: "(source \<times> 'w) \<times> sp_heap \<Rightarrow> bool" where
  "unused st = (case st of ((s, w), h) \<Rightarrow> so_can_publish s \<and> so_consumers s = [])"

definition die_at_of :: "(source \<times> 'w) \<times> sp_heap \<Rightarrow> 64 word" where
  "die_at_of st = (case st of ((s, w), h) \<Rightarrow> so_die_at s)"

lemma core_parts: "core st = (free, die, js) \<Longrightarrow> unused st \<longleftrightarrow> free \<and> js = []"
  "core st = (free, die, js) \<Longrightarrow> die_at_of st = die"
  by (auto simp: core_def unused_def die_at_of_def split: prod.splits)

lemma same_core_parts:
  assumes "core st' = core st"
  shows "unused st' = unused st" and "die_at_of st' = die_at_of st"
  using assms by (cases "core st"; simp add: core_parts)+

text \<open>The clock is read by the operation that ends the last use, after all that it calls.\<close>

lemma die_at_step:
  fixes st :: "(source \<times> 'w) \<times> sp_heap"
  assumes law: "server_law (ev_call env) own E" and ok: "so_ok own st M" and st': "st' = snd (source_do env cf junk ev st)"
    and after: "unused st'"
  shows "\<not> uses ev \<and> (if unused st then die_at_of st' = die_at_of st else leaves ev \<and> die_at_of st' = ev_now env (world_of st'))"
proof -
  obtain s w h where st: "st = ((s, w), h)" by (cases st) auto
  consider "\<not> uses ev" "\<not> leaves ev" | "ev = PublishStart" | "ev = PublishStop"
    | ds dm dg where "ev = PlayerJoins ds dm dg" | i where "ev = PlayerLeaves i"
    by (cases ev) (auto simp: uses_def leaves_def)
  then show ?thesis
  proof cases
    case 1
    from core_do [OF this, of env cf junk] have "core st' = core st" unfolding same_core_def st' by blast
    from same_core_parts [OF this] 1 after show ?thesis by simp
  next
    case 2
    then have "core st' = (False, so_die_at s, ids s)" by (simp add: st st' core_publish)
    from core_parts(1) [OF this] after show ?thesis by simp
  next
    case 3
    then have u: "st' = snd (source_on_unpublish env ((s, w), h))" by (simp add: st st')
    show ?thesis
    proof (cases "so_can_publish s")
      case True
      with core_unpublish [OF law ok [unfolded st]] have "core st' = core st" by (simp add: u st)
      from same_core_parts [OF this] 3 after show ?thesis by (simp add: uses_def)
    next
      case False
      with core_unpublish [OF law ok [unfolded st]]
      have "core st' = (True, if so_consumers s = [] then ev_now env (world_of st') else so_die_at s, ids s)" by (simp add: u)
      with 3 after False show ?thesis by (auto simp: core_parts uses_def leaves_def) (simp_all add: st unused_def)
    qed
  next
    case (4 ds dm dg)
    have "core st' = core (snd (source_create_consumer env cf ds dm dg ((s, w), h)))"
      by (simp add: 4 st st' bindP_def prog_simps split: prod.splits sum.splits)
    with after show ?thesis by (simp add: core_join core_parts)
  next
    case (5 i)
    show ?thesis
    proof (cases "map_of (so_consumers s) i")
      case None
      with 5 have "st' = st" by (simp add: st st' if_player_def so_prog_simps(1) prog_simps)
      with 5 after show ?thesis by (simp add: uses_def)
    next
      case (Some c)
      then have some: "\<not> unused st" by (auto simp: st unused_def)
      have u: "st' = snd (source_free_consumer env i ((s, w), h))"
        by (simp add: 5 st st' if_player_def so_prog_simps(1) Some)
      from core_leave [OF Some, where env = env and w = w and h = h]
      have "core st' = (so_can_publish s, if filter (\<lambda>j. j \<noteq> i) (ids s) = [] then ev_now env (world_of st') else so_die_at s,
          filter (\<lambda>j. j \<noteq> i) (ids s))" by (simp add: u)
      with 5 after some show ?thesis by (auto simp: core_parts uses_def leaves_def simp del: filter_empty_conv)
    qed
  qed
qed

lemma still_unused:
  fixes st :: "(source \<times> 'w) \<times> sp_heap"
  assumes "unused st" and "\<not> uses ev"
  shows "unused (snd (source_do env cf junk ev st))"
proof -
  obtain s w h where st: "st = ((s, w), h)" by (cases st) auto
  have none: "so_can_publish s" "so_consumers s = []" using assms(1) by (simp_all add: st unused_def)
  show ?thesis
  proof (cases "leaves ev")
    case True
    then have "snd (source_do env cf junk ev st) = st"
      by (cases ev) (simp_all add: leaves_def st none source_on_unpublish_def if_player_def so_prog_simps(1) prog_simps prog_eqs)
    with assms(1) show ?thesis by simp
  next
    case False
    from core_do [OF assms(2) False, of env cf junk] have "core (snd (source_do env cf junk ev st)) = core st"
      unfolding same_core_def by blast
    from same_core_parts(1) [OF this] assms(1) show ?thesis by simp
  qed
qed

section \<open>Histories\<close>

abbreviation source_after :: "'w env \<Rightarrow> vhost_config \<Rightarrow> (nat \<Rightarrow> byte) \<Rightarrow> source_event list \<Rightarrow> (source \<times> 'w) \<times> sp_heap \<Rightarrow>
    (source \<times> 'w) \<times> sp_heap" where
  "source_after env cf junk evs st \<equiv> snd (source_run env cf junk evs st)"

lemma source_after_snoc:
  "source_after env cf junk (evs @ [ev]) st = snd (source_do env (fold config_after evs cf) junk ev (source_after env cf junk evs st))"
  by (induction evs arbitrary: st cf) (simp_all add: split_beta)

lemma never_used: "unused st \<Longrightarrow> \<forall>ev \<in> set evs. \<not> uses ev \<Longrightarrow> unused (source_after env cf junk evs st)"
  by (induction evs rule: rev_induct) (simp_all add: source_after_snoc still_unused)

text \<open>The last use ends with \<open>ev\<close>: in use before it, never after it.\<close>

definition last_use_ends :: "'w env \<Rightarrow> vhost_config \<Rightarrow> (nat \<Rightarrow> byte) \<Rightarrow> (source \<times> 'w) \<times> sp_heap \<Rightarrow>
    source_event list \<Rightarrow> source_event \<Rightarrow> source_event list \<Rightarrow> bool" where
  "last_use_ends env cf junk st pre ev post \<longleftrightarrow> \<not> unused (source_after env cf junk pre st)
     \<and> (\<forall>n \<le> length post. unused (source_after env cf junk (pre @ ev # take n post) st))"

lemma last_use_extend:
  assumes "last_use_ends env cf junk st pre ev post" and "unused (source_after env cf junk (pre @ ev # post @ [x]) st)"
  shows "last_use_ends env cf junk st pre ev (post @ [x])"
  using assms by (auto simp: last_use_ends_def le_Suc_eq)

lemma die_at_run:
  fixes st :: "(source \<times> 'w) \<times> sp_heap"
  assumes law: "server_law (ev_call env) own E" and E: "E ERROR_RTMP_AGGREGATE" "E ERROR_KERNEL_STREAM_INIT"
    and cf: "0 \<le> cf_queue_length_ms cf" and ok: "so_ok own st M" and new: "unused st" "die_at_of st = - 1"
    and "\<forall>ev \<in> set evs. event_ok ev" and "unused (source_after env cf junk evs st)"
  shows "if \<exists>ev \<in> set evs. uses ev
    then \<exists>pre ev post. evs = pre @ ev # post \<and> leaves ev \<and> last_use_ends env cf junk st pre ev post
      \<and> die_at_of (source_after env cf junk evs st) = ev_now env (world_of (source_after env cf junk (pre @ [ev]) st))
    else die_at_of (source_after env cf junk evs st) = - 1"
  using assms(8,9)
proof (induction evs rule: rev_induct)
  case Nil
  then show ?case by (simp add: new)
next
  case (snoc x evs)
  let ?at = "\<lambda>evs. source_after env cf junk evs st"
  have evs_ok: "\<forall>ev \<in> set evs. event_ok ev" using snoc.prems(1) by simp
  have "so_ok own (?at evs) M" using source_run_safe [OF law E cf ok evs_ok, where junk = junk] by (simp add: split_beta)
  from die_at_step [OF law this source_after_snoc snoc.prems(2)]
  have step: "\<not> uses x" "if unused (?at evs) then die_at_of (?at (evs @ [x])) = die_at_of (?at evs)
    else leaves x \<and> die_at_of (?at (evs @ [x])) = ev_now env (world_of (?at (evs @ [x])))" by blast+
  show ?case
  proof (cases "unused (?at evs)")
    case True
    with step have keep: "die_at_of (?at (evs @ [x])) = die_at_of (?at evs)" by simp
    show ?thesis
    proof (cases "\<exists>ev \<in> set evs. uses ev")
      case used: True
      with snoc.IH [OF evs_ok True] obtain pre ev post where h: "evs = pre @ ev # post" "leaves ev"
        "last_use_ends env cf junk st pre ev post" "die_at_of (?at evs) = ev_now env (world_of (?at (pre @ [ev])))"
        by (simp split: if_splits) blast
      have "last_use_ends env cf junk st pre ev (post @ [x])"
        by (rule last_use_extend [OF h(3)]) (use snoc.prems(2) h(1) in simp)
      moreover have "evs @ [x] = pre @ ev # (post @ [x])" by (simp add: h(1))
      ultimately have "\<exists>pre ev post. evs @ [x] = pre @ ev # post \<and> leaves ev \<and> last_use_ends env cf junk st pre ev post
          \<and> die_at_of (?at (evs @ [x])) = ev_now env (world_of (?at (pre @ [ev])))"
        using h(2,4) keep by (intro exI [of _ pre] exI [of _ ev] exI [of _ "post @ [x]"]) simp
      with used show ?thesis by auto
    next
      case False
      with snoc.IH [OF evs_ok True] keep step(1) show ?thesis by auto
    qed
  next
    case False
    have used: "\<exists>ev \<in> set evs. uses ev"
    proof (rule ccontr)
      assume none: "\<not> ?thesis"
      with never_used [OF new(1)] False show False by blast
    qed
    have "last_use_ends env cf junk st evs x []" using False snoc.prems(2) by (simp add: last_use_ends_def)
    with used False step(2) show ?thesis by auto
  qed
qed

text \<open>C16: The clock of a source that nobody publishes and nobody plays: if nobody ever did, \<^verbatim>\<open>die_at\<close> is -1 and
  \<^verbatim>\<open>expired()\<close> answers no. Otherwise \<^verbatim>\<open>die_at\<close> is exactly the time at the end of the operation that
  ended the last use, a stop of the publisher or the leave of a player, whatever operations, failing
  or not, came after it; and \<^verbatim>\<open>expired()\<close> answers yes if and only if the edge does not publish and
  more than 30 seconds have passed since then. (\<^verbatim>\<open>do_cycle_all\<close> asks \<^verbatim>\<open>expired()\<close> only in code that
  \<^verbatim>\<open>#if 0\<close> disables, so that no source is removed.)\<close>

theorem source_expires:
  assumes "server_law (ev_call env) own E" and "own w = {#}"
    and "0 \<le> cf_queue_length_ms cf" and "\<forall>ev \<in> set evs. event_ok ev" and "\<And>w. ev_now env w \<noteq> - 1"
    and "source_initialize env cf ((source_new vhost, w), empty_heap) = (Inr (), st)"
    and "source_run env cf junk evs st = (rs, ((s, w'), h))"
    and "so_can_publish s" and "so_consumers s = []"
  shows "if \<exists>ev \<in> set evs. uses ev
    then \<exists>pre ev post w1. evs = pre @ ev # post \<and> leaves ev \<and> last_use_ends env cf junk st pre ev post
      \<and> w1 = world_of (source_after env cf junk (pre @ [ev]) st) \<and> so_die_at s = ev_now env w1
      \<and> (source_expired env (s, w') \<longleftrightarrow> ev_edge_can_publish env w'
          \<and> sint (ev_now env w1 + SRS_SOURCE_CLEANUP) < sint (ev_now env w'))
    else so_die_at s = - 1 \<and> \<not> source_expired env (s, w')"
proof -
  let ?E = "\<lambda>e. E e \<or> e \<in> source_errors"
  have law: "server_law (ev_call env) own ?E" by (rule server_law_mono [OF assms(1)]) simp
  have "so_ok own ((source_new vhost, w), empty_heap) {#}"
    by (rule so_ok_new) (simp add: assms(2) owned_empty)
  then have "safe own ?E {#} (source_initialize env cf ((source_new vhost, w), empty_heap))"
    by (rule safe_initialize [OF law])
  then have ok: "so_ok own st {#}" by (simp add: assms(6) keeps_def)
  have "core st = (True, - 1, [])"
    using same_coreD [OF core_initialize assms(6)] by (simp add: core_eq source_new_def)
  then have new: "unused st" "die_at_of st = - 1" by (simp_all add: core_parts)
  have rep: "?E ERROR_RTMP_AGGREGATE" "?E ERROR_KERNEL_STREAM_INIT" by (simp_all add: source_errors_def)
  have now: "unused (source_after env cf junk evs st)" "die_at_of (source_after env cf junk evs st) = so_die_at s"
    using assms(7-9) by (simp_all add: unused_def die_at_of_def)
  note run = die_at_run [OF law rep assms(3) ok new assms(4) now(1), unfolded now(2)]
  show ?thesis
  proof (cases "\<exists>ev \<in> set evs. uses ev")
    case True
    then obtain pre ev post where h: "evs = pre @ ev # post" "leaves ev" "last_use_ends env cf junk st pre ev post"
      "so_die_at s = ev_now env (world_of (source_after env cf junk (pre @ [ev]) st))"
      using run unfolding if_P [OF True] by blast
    have "source_expired env (s, w') \<longleftrightarrow> ev_edge_can_publish env w' \<and> sint (so_die_at s + SRS_SOURCE_CLEANUP) < sint (ev_now env w')"
      using assms(5,8,9) h(4) by (simp add: source_expired_def)
    with h have "evs = pre @ ev # post \<and> leaves ev \<and> last_use_ends env cf junk st pre ev post
      \<and> world_of (source_after env cf junk (pre @ [ev]) st) = world_of (source_after env cf junk (pre @ [ev]) st)
      \<and> so_die_at s = ev_now env (world_of (source_after env cf junk (pre @ [ev]) st))
      \<and> (source_expired env (s, w') \<longleftrightarrow> ev_edge_can_publish env w'
          \<and> sint (ev_now env (world_of (source_after env cf junk (pre @ [ev]) st)) + SRS_SOURCE_CLEANUP) < sint (ev_now env w'))"
      by simp
    then show ?thesis unfolding if_P [OF True] by blast
  next
    case False
    with run show ?thesis by (simp add: source_expired_def)
  qed
qed

text \<open>A server that does nothing but take its time.\<close>

definition slow_server :: "nat server" where
  "slow_server c = (\<lambda>(n, h). (Inr (), (Suc n, h)))"

definition slow_env :: "nat env" where
  "slow_env = \<lparr>ev_call = slow_server, ev_now = \<lambda>n. if n < 12 then 1000 else 40000, ev_edge_can_publish = \<lambda>_. True,
     ev_get_id = \<lambda>_. 7\<rparr>"

definition slow_cf :: vhost_config where
  "slow_cf = \<lparr>cf_atc = False, cf_atc_auto = False, cf_reduce_sequence_header = False, cf_queue_length_ms = 30000,
     cf_time_jitter = JitterFULL, cf_mix_correct = False, cf_gop_cache = True, cf_is_edge = False\<rparr>"

lemma slow_server_law: "server_law slow_server (\<lambda>_. {#}) E"
  by (simp add: server_law_def slow_server_def)

theorem source_expires_witness:
  "let evs = [PublishStart, PublishStop, Cycle, Cycle, Cycle, Cycle, Cycle]
   in case source_life slow_env slow_cf (\<lambda>_. 0) ''v'' evs 0 of
     (rs, ((s, n), h)) \<Rightarrow> (\<exists>w. so_die_at s = ev_now slow_env w) \<and> source_expired slow_env (s, n)"
proof -
  let ?evs = "[PublishStart, PublishStop, Cycle, Cycle, Cycle, Cycle, Cycle]"
  define st where "st = snd (source_initialize slow_env slow_cf ((source_new ''v'', 0), empty_heap))"
  have i: "source_initialize slow_env slow_cf ((source_new ''v'', 0), empty_heap) = (Inr (), st)"
    by (simp add: st_def prod_eq_iff) code_simp
  have run: "case source_run slow_env slow_cf (\<lambda>_. 0) ?evs st of (rs, ((s, n), h)) \<Rightarrow>
      so_can_publish s \<and> so_consumers s = [] \<and> so_die_at s = 1000 \<and> n = 15"
    unfolding st_def by code_simp
  obtain rs s h where r: "source_run slow_env slow_cf (\<lambda>_. 0) ?evs st = (rs, ((s, 15), h))"
      and s: "so_can_publish s" "so_consumers s = []" "so_die_at s = 1000"
    using run by (cases "source_run slow_env slow_cf (\<lambda>_. 0) ?evs st") auto
  have used: "\<exists>ev \<in> set ?evs. uses ev" by (simp add: uses_def)
  have slow_law: "server_law (ev_call slow_env) (\<lambda>_. {#}) (\<lambda>_. False)" by (simp add: slow_env_def slow_server_law)
  have edge: "ev_edge_can_publish slow_env n" for n by (simp add: slow_env_def)
  have slow_now: "ev_now slow_env n \<noteq> - 1" for n by (simp add: slow_env_def)
  have "\<exists>w1. so_die_at s = ev_now slow_env w1
      \<and> (source_expired slow_env (s, 15) \<longleftrightarrow> sint (ev_now slow_env w1 + SRS_SOURCE_CLEANUP) < sint (ev_now slow_env 15))"
    using source_expires [where env = slow_env and own = "\<lambda>_. {#}", OF slow_law _ _ _ slow_now i r s(1,2)]
    unfolding if_P [OF used] by (simp add: slow_cf_def edge del: split_paired_Ex) blast
  then obtain w1 where w1: "so_die_at s = ev_now slow_env w1"
    "source_expired slow_env (s, 15) \<longleftrightarrow> sint (ev_now slow_env w1 + SRS_SOURCE_CLEANUP) < sint (ev_now slow_env 15)" by blast
  have "source_expired slow_env (s, 15)"
    unfolding w1(2) w1(1) [symmetric] s(3) by (simp add: SRS_SOURCE_CLEANUP_def slow_env_def)
  with i r w1(1) show ?thesis by (auto simp: source_life_def Let_def)
qed

end
