(* ===== verification/Srs_Avc.thy ===== *)
theory Srs_Avc
  imports Srs_Buffer
begin

text \<open>
  The helpers of the H.264 parsers (\<^verbatim>\<open>src/src/kernel/srs_kernel_utility.cpp\<close>): Exp-Golomb codes
  and flags over \<^verbatim>\<open>SrsBitBuffer\<close>, and the start codes of the Annex B format.
\<close>

section \<open>Exp-Golomb codes\<close>

text \<open>How many bits a reader still has; every \<^verbatim>\<open>read_bit\<close> takes one.\<close>

definition bits_left :: "bitbuf \<Rightarrow> nat" where
  "bits_left b = bb_left b + 8 * (length (sb_bytes (bb_stream b)) - sb_pos (bb_stream b))"

lemma read_bit_left: "\<not> bit_empty b \<Longrightarrow> read_bit b = Inr (v, b') \<Longrightarrow> bits_left b' < bits_left b"
  by (auto simp: read_bit_def bit_refill_def bits_left_def bit_empty_def read_1bytes_def fetch_numeral room_def
      bindR_eq_Inr split: if_splits)

text \<open>The loop that counts the leading zeros; it ends at a one or at the end of the bits.\<close>

function uev_zeros :: "bitbuf \<Rightarrow> int \<Rightarrow> (int \<times> bitbuf) res" where
  "uev_zeros b n =
     (if bit_empty b then Inr (n, b)
      else case read_bit b of
        Inl e \<Rightarrow> Inl e
      | Inr (v, b') \<Rightarrow> if v \<noteq> 0 then Inr (n + 1, b') else uev_zeros b' (n + 1))"
  by pat_completeness auto
termination by (relation "measure (\<lambda>(b, n). bits_left b)") (auto dest: read_bit_left)

declare uev_zeros.simps [simp del]

text \<open>The loop that adds the bits behind the one: \<open>k\<close> of them are left.\<close>

fun uev_bits :: "nat \<Rightarrow> 32 word \<Rightarrow> bitbuf \<Rightarrow> (32 word \<times> bitbuf) res" where
  "uev_bits 0 v b = Inr (v, b)"
| "uev_bits (Suc k) v b = bindR (read_bit b) (\<lambda>(x, b). uev_bits k (v + push_bit k (scast x)) b)"

definition srs_avc_nalu_read_uev :: "bitbuf \<Rightarrow> (32 word \<times> bitbuf) res" where
  "srs_avc_nalu_read_uev b =
     (if bit_empty b then Inl ERROR_AVC_NALU_UEV
      else bindR (uev_zeros b (- 1))
        (\<lambda>(n, b). if n \<ge> 31 then Inl ERROR_AVC_NALU_UEV
           else uev_bits (nat n) (push_bit (nat n) 1 - 1) b))"

definition srs_avc_nalu_read_bit :: "bitbuf \<Rightarrow> (8 word \<times> bitbuf) res" where
  "srs_avc_nalu_read_bit b = (if bit_empty b then Inl ERROR_AVC_NALU_UEV else read_bit b)"

section \<open>Start codes\<close>

text \<open>
  The scan for \<open>N[00] 00 00 01\<close> from the position of a buffer, on the bytes that are left; the
  result is the length of the start code.
\<close>

fun annexb_code :: "nat \<Rightarrow> byte list \<Rightarrow> nat option" where
  "annexb_code k (a # b # c # xs) =
     (if a \<noteq> 0 \<or> b \<noteq> 0 then None else if c = 1 then Some (k + 3) else annexb_code (Suc k) (b # c # xs))"
| "annexb_code k _ = None"

definition srs_avc_startswith_annexb :: "sbuf \<Rightarrow> nat option" where
  "srs_avc_startswith_annexb s = annexb_code 0 (upcoming s)"

section \<open>What the codes are\<close>

text \<open>An Exp-Golomb code on a list of bits; \<open>None\<close> is a violated assertion.\<close>

definition leading :: "bool list \<Rightarrow> nat" where
  "leading xs = length (takeWhile Not xs)"

definition bits_value :: "bool list \<Rightarrow> nat" where
  "bits_value xs = foldl (\<lambda>v x. 2 * v + of_bool x) 0 xs"

definition uev_spec :: "bool list \<Rightarrow> (nat \<times> bool list) res" where
  "uev_spec xs =
     (let z = leading xs; n = (if z < length xs then z else z - 1); rest = drop (Suc z) xs in
      if xs = [] \<or> 31 \<le> n then Inl ERROR_AVC_NALU_UEV
      else if length rest < n then Inl ASSERT_FAILED
      else Inr (2 ^ n - 1 + bits_value (take n rest), drop n rest))"

lemma foldl_bits: "foldl (\<lambda>v x. 2 * v + of_bool x) a xs = a * 2 ^ length xs + bits_value xs"
proof (induction xs arbitrary: a)
  case Nil
  then show ?case by (simp add: bits_value_def)
next
  case (Cons x xs)
  show ?case
    using Cons.IH [of "2 * a + of_bool x"] Cons.IH [of "of_bool x"] by (simp add: bits_value_def algebra_simps)
qed

lemma bits_value_Cons: "bits_value (x # xs) = of_bool x * 2 ^ length xs + bits_value xs"
  using foldl_bits [of "of_bool x" xs] by (simp add: bits_value_def)

lemma bits_value_bound: "bits_value xs < 2 ^ length xs"
  by (induction xs) (auto simp: bits_value_Cons, simp add: bits_value_def)

lemma msb_first_ne [simp]: "msb_first c \<noteq> []"
  by (metis length_msb_first list.size(3) zero_neq_numeral)

lemma bit_empty_pending: "bitbuf_ok b \<Longrightarrow> bit_empty b \<longleftrightarrow> pending_bits b = []"
  by (cases "upcoming (bb_stream b)") (auto simp: bit_empty_def bitbuf_ok_def pending_bits_def buf_empty_upcoming)

lemma read_bit_none: "bitbuf_ok b \<Longrightarrow> pending_bits b = [] \<Longrightarrow> read_bit b = Inl ASSERT_FAILED"
  using bit_empty_pending [of b] by (simp add: bit_empty_def read_bit_def bit_refill_def)

lemma uev_zeros_spec:
  "bitbuf_ok b \<Longrightarrow> \<exists>b'. bitbuf_ok b' \<and> uev_zeros b n = Inr (n + int (leading (pending_bits b))
      + (if leading (pending_bits b) < length (pending_bits b) then 1 else 0), b')
    \<and> pending_bits b' = drop (Suc (leading (pending_bits b))) (pending_bits b)"
proof (induction "pending_bits b" arbitrary: b n)
  case Nil
  then show ?case using bit_empty_pending [of b] by (simp add: uev_zeros.simps leading_def)
next
  case (Cons x xs)
  then obtain b1 where b1: "read_bit b = Inr (of_bool x, b1)" "bitbuf_ok b1" "pending_bits b1 = xs"
    using read_bit_pending [of b x xs] by auto
  have ne: "\<not> bit_empty b" using bit_empty_pending [of b] Cons.prems Cons.hyps(2) [symmetric] by simp
  show ?case
  proof (cases x)
    case True
    with Cons.hyps(2) [symmetric] b1 ne show ?thesis by (simp add: uev_zeros.simps [of b] leading_def)
  next
    case False
    from Cons.hyps(1) [of b1 "n + 1"] b1 obtain b2 where "bitbuf_ok b2"
      "uev_zeros b1 (n + 1) = Inr (n + 1 + int (leading xs) + (if leading xs < length xs then 1 else 0), b2)"
      "pending_bits b2 = drop (Suc (leading xs)) xs" by auto
    with False Cons.hyps(2) [symmetric] b1 ne show ?thesis
      by (simp add: uev_zeros.simps [of b] leading_def)
  qed
qed

lemma uev_bits_spec:
  assumes "bitbuf_ok b"
  shows "if length (pending_bits b) < k then uev_bits k v b = Inl ASSERT_FAILED
    else \<exists>b'. bitbuf_ok b' \<and> pending_bits b' = drop k (pending_bits b)
      \<and> uev_bits k v b = Inr (v + word_of_nat (bits_value (take k (pending_bits b))), b')"
  using assms
proof (induction k arbitrary: v b)
  case 0
  then show ?case by (auto simp: bits_value_def)
next
  case (Suc k)
  show ?case
  proof (cases "pending_bits b")
    case Nil
    with read_bit_none [OF Suc.prems] show ?thesis by simp
  next
    case (Cons x xs)
    from read_bit_pending [OF Suc.prems Cons] obtain b1 where
      b1: "read_bit b = Inr (of_bool x, b1)" "bitbuf_ok b1" "pending_bits b1 = xs" by blast
    have v: "bits_value (take (Suc k) (x # xs)) = of_bool x * 2 ^ length (take k xs) + bits_value (take k xs)"
      by (simp add: bits_value_Cons)
    have s: "scast (of_bool x :: 8 word) = (of_bool x :: 32 word)" by (cases x) simp_all
    let ?v = "v + push_bit k (of_bool x)"
    have step: "uev_bits (Suc k) v b = uev_bits k ?v b1" by (simp add: b1(1) s)
    show ?thesis
    proof (cases "length xs < k")
      case True
      with Suc.IH [OF b1(2), of ?v] show ?thesis by (simp only: step b1(3)) (simp add: Cons)
    next
      case False
      with Suc.IH [OF b1(2), of ?v] obtain b2 where "bitbuf_ok b2" "pending_bits b2 = drop k xs"
        "uev_bits k ?v b1 = Inr (?v + word_of_nat (bits_value (take k xs)), b2)"
        by (auto simp: b1(3))
      moreover have "?v + word_of_nat (bits_value (take k xs)) = v + word_of_nat (bits_value (take (Suc k) (x # xs)))"
        using False by (simp only: v) (simp add: push_bit_eq_mult min_def)
      ultimately show ?thesis using False by (simp only: step) (auto simp: Cons)
    qed
  qed
qed

text \<open>The reader is \<^const>\<open>uev_spec\<close>; its numbers are below \<open>2\<^sup>31\<close>, so nothing wraps around.\<close>

lemma read_uev_spec:
  assumes "bitbuf_ok b"
  shows "case uev_spec (pending_bits b) of
      Inl e \<Rightarrow> srs_avc_nalu_read_uev b = Inl e
    | Inr (n, rest) \<Rightarrow> n < 2 ^ 31 - 1 \<and> (\<exists>b'. bitbuf_ok b' \<and> pending_bits b' = rest
        \<and> srs_avc_nalu_read_uev b = Inr (word_of_nat n, b'))"
proof (cases "pending_bits b = []")
  case True
  then show ?thesis using bit_empty_pending [OF assms] by (simp add: uev_spec_def srs_avc_nalu_read_uev_def Let_def)
next
  case False
  define xs where "xs = pending_bits b"
  define z where "z = leading xs"
  define n where "n = (if z < length xs then z else z - 1)"
  have z: "z \<le> length xs" by (simp add: z_def leading_def length_takeWhile_le)
  with False have nz: "int n = - 1 + int z + (if z < length xs then 1 else 0)"
    by (cases xs) (auto simp: n_def xs_def)
  from uev_zeros_spec [OF assms, of "- 1"] obtain b1 where b1: "bitbuf_ok b1"
      "uev_zeros b (- 1) = Inr (int n, b1)" "pending_bits b1 = drop (Suc z) xs"
    unfolding nz z_def xs_def by blast
  have read: "srs_avc_nalu_read_uev b = (if 31 \<le> n then Inl ERROR_AVC_NALU_UEV else uev_bits n (push_bit n 1 - 1) b1)"
    using False bit_empty_pending [OF assms] by (simp add: srs_avc_nalu_read_uev_def b1(2))
  have spec: "uev_spec xs = (if 31 \<le> n then Inl ERROR_AVC_NALU_UEV
      else if length (drop (Suc z) xs) < n then Inl ASSERT_FAILED
      else Inr (2 ^ n - 1 + bits_value (take n (drop (Suc z) xs)), drop n (drop (Suc z) xs)))"
    using False by (simp add: uev_spec_def n_def z_def xs_def Let_def)
  show ?thesis
  proof (cases "31 \<le> n \<or> length (drop (Suc z) xs) < n")
    case True
    with uev_bits_spec [OF b1(1), of n "push_bit n 1 - 1"] show ?thesis
      by (auto simp: read spec b1(3) xs_def [symmetric])
  next
    case False
    then have n: "n \<le> 30" by simp
    have "bits_value (take n (drop (Suc z) xs)) < 2 ^ n"
      using bits_value_bound [of "take n (drop (Suc z) xs)"] False by (simp add: min_def split: if_splits)
    moreover have "(2::nat) ^ n \<le> 2 ^ 30" using n by (intro power_increasing) simp_all
    ultimately have lt: "2 ^ n - 1 + bits_value (take n (drop (Suc z) xs)) < 2 ^ 31 - 1" by simp
    have w: "(push_bit n 1 - 1 :: 32 word) = word_of_nat (2 ^ n - 1)"
      by (simp add: push_bit_eq_mult of_nat_diff)
    from uev_bits_spec [OF b1(1), of n "push_bit n 1 - 1"] False obtain b2 where
      "bitbuf_ok b2" "pending_bits b2 = drop n (drop (Suc z) xs)"
      "uev_bits n (push_bit n 1 - 1) b1 = Inr (push_bit n 1 - 1 + word_of_nat (bits_value (take n (drop (Suc z) xs))), b2)"
      by (auto simp: b1(3))
    moreover have "(push_bit n 1 - 1 :: 32 word) + word_of_nat (bits_value (take n (drop (Suc z) xs)))
        = word_of_nat (2 ^ n - 1 + bits_value (take n (drop (Suc z) xs)))"
      by (simp only: w of_nat_add)
    ultimately show ?thesis using False lt unfolding read xs_def [symmetric] spec by auto
  qed
qed

lemma read_flag_spec:
  assumes "bitbuf_ok b"
  shows "case pending_bits b of
      [] \<Rightarrow> srs_avc_nalu_read_bit b = Inl ERROR_AVC_NALU_UEV
    | x # xs \<Rightarrow> (\<exists>b'. bitbuf_ok b' \<and> pending_bits b' = xs \<and> srs_avc_nalu_read_bit b = Inr (of_bool x, b'))"
proof (cases "pending_bits b")
  case Nil
  then show ?thesis using bit_empty_pending [OF assms] by (simp add: srs_avc_nalu_read_bit_def)
next
  case (Cons x xs)
  with read_bit_pending [OF assms Cons] bit_empty_pending [OF assms] show ?thesis
    by (auto simp: srs_avc_nalu_read_bit_def)
qed

end
