(* ===== verification/Srs_Format.thy ===== *)
theory Srs_Format
  imports Srs_Avc Srs_Flv_Codec
begin

text \<open>
  \<^verbatim>\<open>SrsFormat\<close> (\<^verbatim>\<open>src/src/kernel/srs_kernel_codec.cpp\<close>): the demuxer of FLV audio and video. It parses
  the sequence headers of AAC and H.264 and finds the raw samples (NAL units) in a message. An
  enumeration is the integer of its value; the code casts any number to it.
\<close>

section \<open>Codecs and frames\<close>

abbreviation SrsAacSampleRateUnset :: "8 word" where "SrsAacSampleRateUnset \<equiv> 15"
abbreviation SrsMaxNbSamples :: nat where "SrsMaxNbSamples \<equiv> 256"

datatype avc_payload_format = SrsAvcPayloadFormatGuess | SrsAvcPayloadFormatAnnexb | SrsAvcPayloadFormatIbmf

record audio_config =
  ac_id :: int
  ac_sound_rate :: int
  ac_sound_size :: int
  ac_sound_type :: int
  ac_object :: int
  ac_sample_rate :: "8 word"
  ac_channels :: "8 word"
  ac_extra_data :: "byte list"

definition audio_config_new :: audio_config where
  "audio_config_new = \<lparr>ac_id = 16, ac_sound_rate = 4, ac_sound_size = 2, ac_sound_type = 2, ac_object = 0,
     ac_sample_rate = SrsAacSampleRateUnset, ac_channels = 0, ac_extra_data = []\<rparr>"

definition is_aac_codec_ok :: "audio_config \<Rightarrow> bool" where
  "is_aac_codec_ok c \<longleftrightarrow> ac_extra_data c \<noteq> []"

record video_config =
  vc_id :: int
  vc_width :: "32 word"
  vc_height :: "32 word"
  vc_extra_data :: "byte list"
  vc_profile :: int
  vc_level :: int
  vc_nal_unit_length :: "8 word"
  vc_sps :: "byte list"
  vc_pps :: "byte list"
  vc_payload_format :: avc_payload_format

definition video_config_new :: video_config where
  "video_config_new = \<lparr>vc_id = 0, vc_width = 0, vc_height = 0, vc_extra_data = [], vc_profile = 0, vc_level = 0,
     vc_nal_unit_length = 0, vc_sps = [], vc_pps = [], vc_payload_format = SrsAvcPayloadFormatGuess\<rparr>"

definition is_avc_codec_ok :: "video_config \<Rightarrow> bool" where
  "is_avc_codec_ok c \<longleftrightarrow> vc_extra_data c \<noteq> []"

text \<open>A sample points into the payload: its offset and size. The codec of a frame is a pointer.\<close>

record sample =
  sa_bytes :: nat
  sa_size :: int

datatype codec_ref = AudioCodec | VideoCodec

record frame_base =
  sf_dts :: "64 word"
  sf_cts :: "32 word"
  sf_codec :: "codec_ref option"
  sf_samples :: "sample list"

record audio_frame = frame_base +
  af_aac_packet_type :: int

record video_frame = frame_base +
  vf_frame_type :: int
  vf_avc_packet_type :: int
  vf_has_idr :: bool
  vf_has_aud :: bool
  vf_has_sps_pps :: bool
  vf_first_nalu_type :: int

definition audio_frame_new :: audio_frame where
  "audio_frame_new = \<lparr>sf_dts = 0, sf_cts = 0, sf_codec = None, sf_samples = [], af_aac_packet_type = 2\<rparr>"

definition video_frame_new :: video_frame where
  "video_frame_new = \<lparr>sf_dts = 0, sf_cts = 0, sf_codec = None, sf_samples = [], vf_frame_type = 0,
     vf_avc_packet_type = 3, vf_has_idr = False, vf_has_aud = False, vf_has_sps_pps = False, vf_first_nalu_type = 0\<rparr>"

text \<open>\<^verbatim>\<open>SrsFrame::initialize\<close>; neither kind of frame overrides it.\<close>

definition frame_initialize :: "codec_ref \<Rightarrow> 'a frame_base_scheme \<Rightarrow> 'a frame_base_scheme" where
  "frame_initialize c f = f\<lparr>sf_codec := Some c, sf_samples := [], sf_dts := 0, sf_cts := 0\<rparr>"

definition frame_add_sample :: "nat \<Rightarrow> int \<Rightarrow> 'a frame_base_scheme \<Rightarrow> 'a frame_base_scheme res" where
  "frame_add_sample p n f =
     (if length (sf_samples f) \<ge> SrsMaxNbSamples then Inl ERROR_HLS_DECODE_ERROR
      else Inr (f\<lparr>sf_samples := sf_samples f @ [\<lparr>sa_bytes = p, sa_size = n\<rparr>]\<rparr>))"

text \<open>What the first byte of a NAL unit says.\<close>

definition note_nalu :: "byte \<Rightarrow> video_frame \<Rightarrow> video_frame" where
  "note_nalu b f =
     (let nal_unit_type = uint (and b 0x1F);
          f = (if nal_unit_type = 5 then f\<lparr>vf_has_idr := True\<rparr>
               else if nal_unit_type = 7 \<or> nal_unit_type = 8 then f\<lparr>vf_has_sps_pps := True\<rparr>
               else if nal_unit_type = 9 then f\<lparr>vf_has_aud := True\<rparr>
               else f)
      in if vf_first_nalu_type f = 0 then f\<lparr>vf_first_nalu_type := nal_unit_type\<rparr> else f)"

text \<open>
  \<open>mem\<close> is the payload; a sample at its end has no first byte. The sample is added before the
  byte is read.
\<close>

definition video_add_sample :: "byte list \<Rightarrow> nat \<Rightarrow> int \<Rightarrow> (video_frame, unit) prog" where
  "video_add_sample mem p n = (\<lambda>f. case frame_add_sample p n f of
     Inl e \<Rightarrow> (Inl e, f)
   | Inr f \<Rightarrow> if p < length mem then (Inr (), note_nalu (mem ! p) f) else (Inl UNDEFINED_BEHAVIOUR, f))"

section \<open>The format\<close>

record format =
  fm_acodec :: "audio_config option"
  fm_vcodec :: "video_config option"
  fm_audio :: "audio_frame option"
  fm_video :: "video_frame option"
  fm_raw :: "nat option"
  fm_nb_raw :: int
  fm_buffer :: sbuf
  fm_avc_parse_sps :: bool

definition format_new :: format where
  "format_new = \<lparr>fm_acodec = None, fm_vcodec = None, fm_audio = None, fm_video = None, fm_raw = None, fm_nb_raw = 0,
     fm_buffer = set_value None, fm_avc_parse_sps = True\<rparr>"

type_synonym 'a fm_prog = "(format, 'a) prog"

text \<open>A step of the buffer, a guard, a pure computation.\<close>

definition on_buf :: "(sbuf \<Rightarrow> ('a \<times> sbuf) res) \<Rightarrow> 'a fm_prog" where
  "on_buf r = (\<lambda>f. case r (fm_buffer f) of Inl e \<Rightarrow> (Inl e, f) | Inr (x, s) \<Rightarrow> (Inr x, f\<lparr>fm_buffer := s\<rparr>))"

definition want :: "int \<Rightarrow> srs_error \<Rightarrow> unit fm_prog" where
  "want n e = on_buf (\<lambda>s. bindR (need n e s) (\<lambda>_. Inr ((), s)))"

definition skips :: "int \<Rightarrow> unit fm_prog" where
  "skips n = on_buf (\<lambda>s. bindR (buf_skip n s) (\<lambda>s. Inr ((), s)))"

definition opens :: "byte list option \<Rightarrow> unit fm_prog" where
  "opens b = on_buf (\<lambda>_. bindR (buf_initialize b) (\<lambda>s. Inr ((), s)))"

definition pure_fm :: "'a res \<Rightarrow> 'a fm_prog" where
  "pure_fm r = (\<lambda>f. (r, f))"

text \<open>The objects behind the pointers; a \<^verbatim>\<open>NULL\<close> pointer must not be used.\<close>

definition deref :: "(format \<Rightarrow> 'c option) \<Rightarrow> 'c fm_prog" where
  "deref g = (\<lambda>f. case g f of None \<Rightarrow> (Inl UNDEFINED_BEHAVIOUR, f) | Some c \<Rightarrow> (Inr c, f))"

definition acodec_upd :: "(audio_config \<Rightarrow> audio_config) \<Rightarrow> unit fm_prog" where
  "acodec_upd u = bindP (deref fm_acodec) (\<lambda>c. modifyP (\<lambda>f. f\<lparr>fm_acodec := Some (u c)\<rparr>))"

definition vcodec_upd :: "(video_config \<Rightarrow> video_config) \<Rightarrow> unit fm_prog" where
  "vcodec_upd u = bindP (deref fm_vcodec) (\<lambda>c. modifyP (\<lambda>f. f\<lparr>fm_vcodec := Some (u c)\<rparr>))"

definition audio_upd :: "(audio_frame \<Rightarrow> audio_frame) \<Rightarrow> unit fm_prog" where
  "audio_upd u = bindP (deref fm_audio) (\<lambda>c. modifyP (\<lambda>f. f\<lparr>fm_audio := Some (u c)\<rparr>))"

definition video_upd :: "(video_frame \<Rightarrow> video_frame) \<Rightarrow> unit fm_prog" where
  "video_upd u = bindP (deref fm_video) (\<lambda>c. modifyP (\<lambda>f. f\<lparr>fm_video := Some (u c)\<rparr>))"

text \<open>\<^verbatim>\<open>stream->data() + stream->pos()\<close> and the number of bytes behind it.\<close>

definition here :: "(nat \<times> int) fm_prog" where
  "here = getP (\<lambda>f. (sb_pos (fm_buffer f), buf_size (fm_buffer f) - buf_tell (fm_buffer f)))"

definition rest_bytes :: "byte list fm_prog" where
  "rest_bytes = getP (\<lambda>f. upcoming (fm_buffer f))"

definition note_raw :: "unit fm_prog" where
  "note_raw = bindP here (\<lambda>(p, n). modifyP (\<lambda>f. f\<lparr>fm_raw := Some p, fm_nb_raw := n\<rparr>))"

definition audio_sample :: "nat \<Rightarrow> int \<Rightarrow> unit fm_prog" where
  "audio_sample p n = bindP (deref fm_audio)
     (\<lambda>a. bindP (pure_fm (frame_add_sample p n a)) (\<lambda>a. modifyP (\<lambda>f. f\<lparr>fm_audio := Some a\<rparr>)))"

definition video_sample :: "nat \<Rightarrow> int \<Rightarrow> unit fm_prog" where
  "video_sample p n = bindP (deref fm_video)
     (\<lambda>v f. case video_add_sample (sb_bytes (fm_buffer f)) p n v of (r, v) \<Rightarrow> (r, f\<lparr>fm_video := Some v\<rparr>))"

section \<open>The sequence parameter set\<close>

text \<open>Loops that only skip: flags and Exp-Golomb codes.\<close>

fun skip_flags :: "nat \<Rightarrow> bitbuf \<Rightarrow> bitbuf res" where
  "skip_flags 0 b = Inr b"
| "skip_flags (Suc n) b = bindR (srs_avc_nalu_read_bit b) (\<lambda>(_, b). skip_flags n b)"

fun skip_uevs :: "nat \<Rightarrow> bitbuf \<Rightarrow> bitbuf res" where
  "skip_uevs 0 b = Inr b"
| "skip_uevs (Suc n) b = bindR (srs_avc_nalu_read_uev b) (\<lambda>(_, b). skip_uevs n b)"

text \<open>The fields that only the high profiles have.\<close>

definition sps_has_chroma :: "8 word \<Rightarrow> bool" where
  "sps_has_chroma profile_idc \<longleftrightarrow> profile_idc \<in> {100, 110, 122, 244, 44, 83, 86, 118, 128}"

definition sps_chroma :: "bitbuf \<Rightarrow> bitbuf res" where
  "sps_chroma b = bindR (srs_avc_nalu_read_uev b)
     (\<lambda>(chroma_format_idc, b). bindR (if chroma_format_idc = 3 then skip_flags 1 b else Inr b)
     (\<lambda>b. bindR (skip_uevs 2 b)
     (\<lambda>b. bindR (skip_flags 1 b)
     (\<lambda>b. bindR (srs_avc_nalu_read_bit b)
     (\<lambda>(seq_scaling_matrix_present_flag, b). if seq_scaling_matrix_present_flag \<noteq> 0
        then skip_flags (if chroma_format_idc \<noteq> 3 then 8 else 12) b
        else Inr b)))))"

definition sps_pic_order :: "bitbuf \<Rightarrow> bitbuf res" where
  "sps_pic_order b = bindR (srs_avc_nalu_read_uev b)
     (\<lambda>(pic_order_cnt_type, b).
        if pic_order_cnt_type = 0 then skip_uevs 1 b
        else if pic_order_cnt_type = 1 then
          bindR (skip_flags 1 b)
          (\<lambda>b. bindR (skip_uevs 2 b)
          (\<lambda>b. bindR (srs_avc_nalu_read_uev b)
          (\<lambda>(num_ref_frames, b). bindR (check (\<not> sint num_ref_frames < 0) ERROR_HLS_DECODE_ERROR)
          (\<lambda>_. skip_uevs (nat (sint num_ref_frames)) b))))
        else Inr b)"

text \<open>
  The head of \<^verbatim>\<open>avc_demux_sps_rbsp\<close> and its bits; the result is the width and the height. The code computes them
  with signed numbers, whose overflow C++ leaves undefined, for pictures of \<open>2^27\<close> macroblocks in a row or column; here they wrap
  around, as they do on the machines that the code runs on.
\<close>

definition sps_head :: "sbuf \<Rightarrow> (8 word \<times> sbuf) res" where
  "sps_head s = bindR (need 3 ERROR_HLS_DECODE_ERROR s) (\<lambda>_. bindR (read_1bytes s)
     (\<lambda>(profile_idc, s). bindR (check (profile_idc \<noteq> 0) ERROR_HLS_DECODE_ERROR) (\<lambda>_. bindR (read_1bytes s)
     (\<lambda>(flags, s). bindR (check (\<not> and flags 0x03 \<noteq> 0) ERROR_HLS_DECODE_ERROR) (\<lambda>_. bindR (read_1bytes s)
     (\<lambda>(level_idc, s). bindR (check (level_idc \<noteq> 0) ERROR_HLS_DECODE_ERROR)
     (\<lambda>_. Inr (profile_idc, s))))))))"

definition sps_size :: "8 word \<Rightarrow> bitbuf \<Rightarrow> (32 word \<times> 32 word) res" where
  "sps_size profile_idc b = bindR (srs_avc_nalu_read_uev b)
     (\<lambda>(seq_parameter_set_id, b). bindR (check (\<not> sint seq_parameter_set_id < 0) ERROR_HLS_DECODE_ERROR)
     (\<lambda>_. bindR (if sps_has_chroma profile_idc then sps_chroma b else Inr b)
     (\<lambda>b. bindR (skip_uevs 1 b)
     (\<lambda>b. bindR (sps_pic_order b)
     (\<lambda>b. bindR (skip_uevs 1 b)
     (\<lambda>b. bindR (skip_flags 1 b)
     (\<lambda>b. bindR (srs_avc_nalu_read_uev b)
     (\<lambda>(pic_width_in_mbs_minus1, b). bindR (srs_avc_nalu_read_uev b)
     (\<lambda>(pic_height_in_map_units_minus1, b). Inr ((pic_width_in_mbs_minus1 + 1) * 16,
        (pic_height_in_map_units_minus1 + 1) * 16))))))))))"

definition avc_demux_sps_rbsp :: "byte list \<Rightarrow> unit fm_prog" where
  "avc_demux_sps_rbsp rbsp = bindP (getP fm_avc_parse_sps)
     (\<lambda>parse. if \<not> parse then returnP ()
        else bindP (pure_fm (bindR (buf_initialize (Some rbsp))
            (\<lambda>s. bindR (sps_head s) (\<lambda>(profile_idc, s). sps_size profile_idc (bit_initialize s)))))
          (\<lambda>(w, h). vcodec_upd (\<lambda>c. c\<lparr>vc_width := w, vc_height := h\<rparr>)))"

text \<open>
  The loop that drops the emulation prevention bytes: \<open>out\<close> is \<^verbatim>\<open>rbsp[0 .. nb_rbsp]\<close>, which has
  fewer elements than the bytes read, so that the array of the code is never exceeded.
\<close>

fun rbsp_of :: "byte list \<Rightarrow> byte list \<Rightarrow> byte list" where
  "rbsp_of out [] = out"
| "rbsp_of out (x # xs) =
     (if length out > 2 \<and> out ! (length out - 2) = 0 \<and> out ! (length out - 1) = 0 \<and> x = 3
      then (case xs of [] \<Rightarrow> out | y # ys \<Rightarrow> rbsp_of (out @ [y]) ys)
      else rbsp_of (out @ [x]) xs)"

definition nalu_head :: "sbuf \<Rightarrow> (unit \<times> sbuf) res" where
  "nalu_head s = bindR (need 1 ERROR_HLS_DECODE_ERROR s) (\<lambda>_. bindR (read_1bytes s)
     (\<lambda>(nutv, s). bindR (check (and (signed_drop_bit 7 nutv) 0x01 = 0) ERROR_HLS_DECODE_ERROR)
     (\<lambda>_. bindR (check (and (signed_drop_bit 5 nutv) 0x03 \<noteq> 0) ERROR_HLS_DECODE_ERROR)
     (\<lambda>_. bindR (check (and nutv 0x1F = 7) ERROR_HLS_DECODE_ERROR) (\<lambda>_. Inr ((), s))))))"

definition avc_demux_sps :: "unit fm_prog" where
  "avc_demux_sps = bindP (deref fm_vcodec)
     (\<lambda>c. if vc_sps c = [] then returnP ()
        else bindP (pure_fm (bindR (buf_initialize (Some (vc_sps c))) nalu_head))
          (\<lambda>(_, s). avc_demux_sps_rbsp (rbsp_of [] (upcoming s))))"

section \<open>The sequence header of H.264\<close>

text \<open>The list of one parameter set: number, length, bytes. An empty set leaves the old one.\<close>

definition one_parameter_set :: "(byte list option) fm_prog" where
  "one_parameter_set =
     bindP (want 1 ERROR_HLS_DECODE_ERROR) (\<lambda>_. bindP (on_buf read_1bytes)
     (\<lambda>n. bindP (checkP (and n 0x1F = 1) ERROR_HLS_DECODE_ERROR)
     (\<lambda>_. bindP (want 2 ERROR_HLS_DECODE_ERROR) (\<lambda>_. bindP (on_buf read_2bytes)
     (\<lambda>len. bindP (want (uint len) ERROR_HLS_DECODE_ERROR)
     (\<lambda>_. if uint len > 0 then bindP (on_buf (read_bytes (uint len))) (\<lambda>bs. returnP (Some bs)) else returnP None))))))"

definition avc_demux_sps_pps :: "unit fm_prog" where
  "avc_demux_sps_pps = bindP rest_bytes
     (\<lambda>extra. bindP (if extra \<noteq> [] then vcodec_upd (\<lambda>c. c\<lparr>vc_extra_data := extra\<rparr>) else returnP ())
     (\<lambda>_. bindP (want 6 ERROR_HLS_DECODE_ERROR) (\<lambda>_. bindP (on_buf read_1bytes)
     (\<lambda>_. bindP (on_buf read_1bytes) (\<lambda>profile. bindP (vcodec_upd (\<lambda>c. c\<lparr>vc_profile := sint profile\<rparr>))
     (\<lambda>_. bindP (on_buf read_1bytes)
     (\<lambda>_. bindP (on_buf read_1bytes) (\<lambda>level. bindP (vcodec_upd (\<lambda>c. c\<lparr>vc_level := sint level\<rparr>))
     (\<lambda>_. bindP (on_buf read_1bytes) (\<lambda>l. bindP (vcodec_upd (\<lambda>c. c\<lparr>vc_nal_unit_length := and l 0x03\<rparr>))
     (\<lambda>_. bindP (checkP (and l 0x03 \<noteq> 2) ERROR_HLS_DECODE_ERROR)
     (\<lambda>_. bindP one_parameter_set
     (\<lambda>sps. bindP (case sps of Some bs \<Rightarrow> vcodec_upd (\<lambda>c. c\<lparr>vc_sps := bs\<rparr>) | None \<Rightarrow> returnP ())
     (\<lambda>_. bindP one_parameter_set
     (\<lambda>pps. bindP (case pps of Some bs \<Rightarrow> vcodec_upd (\<lambda>c. c\<lparr>vc_pps := bs\<rparr>) | None \<Rightarrow> returnP ())
     (\<lambda>_. avc_demux_sps))))))))))))))))"

section \<open>NAL units\<close>

text \<open>The loop that looks for the end of a NAL unit: how many bytes it skips.\<close>

fun nalu_length :: "byte list \<Rightarrow> nat" where
  "nalu_length [] = 0"
| "nalu_length (x # xs) = (if annexb_code 0 (x # xs) \<noteq> None then 0 else Suc (nalu_length xs))"

text \<open>The loops have the bytes of the buffer as fuel; each round takes at least one.\<close>

primrec annexb_loop :: "nat \<Rightarrow> unit fm_prog" where
  "annexb_loop 0 = raiseP OUT_OF_FUEL"
| "annexb_loop (Suc n) = bindP (getP fm_buffer)
     (\<lambda>s. if buf_empty s then returnP ()
        else case srs_avc_startswith_annexb s of
          None \<Rightarrow> returnP ()
        | Some nb_start_code \<Rightarrow> bindP (skips (int nb_start_code))
            (\<lambda>_. bindP here
            (\<lambda>(p, _). bindP rest_bytes
            (\<lambda>bs. bindP (skips (int (nalu_length bs)))
            (\<lambda>_. bindP here
            (\<lambda>(pp, _). if int pp - int p \<le> 0 then annexb_loop n
               else bindP (video_sample p (int pp - int p)) (\<lambda>_. annexb_loop n)))))))"

definition avc_demux_annexb_format :: "unit fm_prog" where
  "avc_demux_annexb_format = bindP (getP fm_buffer)
     (\<lambda>s. if srs_avc_startswith_annexb s = None then raiseP ERROR_HLS_AVC_TRY_OTHERS
        else annexb_loop (Suc (length (sb_bytes s))))"

text \<open>The length of a NAL unit has 4, 2 or 1 bytes and is read as a signed number.\<close>

definition read_nalu_length :: "8 word \<Rightarrow> int fm_prog" where
  "read_nalu_length l =
     (if l = 3 then bindP (on_buf read_4bytes) (\<lambda>n. returnP (sint n))
      else if l = 1 then bindP (on_buf read_2bytes) (\<lambda>n. returnP (sint n))
      else bindP (on_buf read_1bytes) (\<lambda>n. returnP (sint n)))"

primrec ibmf_loop :: "nat \<Rightarrow> int \<Rightarrow> int \<Rightarrow> unit fm_prog" where
  "ibmf_loop 0 picture_length i = raiseP OUT_OF_FUEL"
| "ibmf_loop (Suc n) picture_length i =
     (if \<not> i < picture_length then returnP ()
      else bindP (deref fm_vcodec)
        (\<lambda>c. let l = vc_nal_unit_length c in
          bindP (want (sint l + 1) ERROR_HLS_DECODE_ERROR)
          (\<lambda>_. bindP (read_nalu_length l)
          (\<lambda>len. bindP (checkP (\<not> len < 0) ERROR_HLS_DECODE_ERROR)
          (\<lambda>_. bindP (want len ERROR_HLS_DECODE_ERROR)
          (\<lambda>_. bindP here
          (\<lambda>(p, _). bindP (video_sample p len)
          (\<lambda>_. bindP (skips len)
          (\<lambda>_. ibmf_loop n picture_length (i + sint l + 1 + len))))))))))"

definition avc_demux_ibmf_format :: "unit fm_prog" where
  "avc_demux_ibmf_format = bindP here
     (\<lambda>(_, picture_length). bindP (deref fm_vcodec)
     (\<lambda>c. bindP (checkP (vc_nal_unit_length c \<noteq> 2) ASSERT_FAILED)
     (\<lambda>_. ibmf_loop (Suc (nat picture_length)) picture_length 0)))"

text \<open>Annex B first, then what is left to do; the ISO format if it is not that.\<close>

definition annexb_or_ibmf :: "unit fm_prog \<Rightarrow> unit fm_prog" where
  "annexb_or_ibmf ok = (\<lambda>f. case avc_demux_annexb_format f of
     (Inr _, f) \<Rightarrow> ok f
   | (Inl e, f) \<Rightarrow> if e \<noteq> ERROR_HLS_AVC_TRY_OTHERS then (Inl e, f)
       else bindP avc_demux_ibmf_format (\<lambda>_. vcodec_upd (\<lambda>c. c\<lparr>vc_payload_format := SrsAvcPayloadFormatIbmf\<rparr>)) f)"

definition video_nalu_demux :: "unit fm_prog" where
  "video_nalu_demux = bindP (deref fm_vcodec)
     (\<lambda>c. if \<not> is_avc_codec_ok c then returnP ()
        else case vc_payload_format c of
          SrsAvcPayloadFormatGuess \<Rightarrow>
            annexb_or_ibmf (vcodec_upd (\<lambda>c. c\<lparr>vc_payload_format := SrsAvcPayloadFormatAnnexb\<rparr>))
        | SrsAvcPayloadFormatIbmf \<Rightarrow> avc_demux_ibmf_format
        | SrsAvcPayloadFormatAnnexb \<Rightarrow> annexb_or_ibmf (returnP ()))"

section \<open>Video\<close>

definition video_avc_demux :: "64 word \<Rightarrow> unit fm_prog" where
  "video_avc_demux timestamp = bindP (on_buf read_1bytes)
     (\<lambda>b. let codec_id = uint (low_nibble b); frame_type = uint (high_nibble b) in
       bindP (video_upd (\<lambda>v. v\<lparr>vf_frame_type := frame_type\<rparr>))
       (\<lambda>_. if frame_type = 5 then returnP ()
          else bindP (checkP (codec_id = 7) ERROR_HLS_DECODE_ERROR)
            (\<lambda>_. bindP (vcodec_upd (\<lambda>c. c\<lparr>vc_id := codec_id\<rparr>))
            (\<lambda>_. bindP (want 4 ERROR_HLS_DECODE_ERROR)
            (\<lambda>_. bindP (on_buf read_1bytes)
            (\<lambda>avc_packet_type. bindP (on_buf read_3bytes)
            (\<lambda>composition_time. bindP (video_upd (\<lambda>v. v\<lparr>sf_dts := timestamp, sf_cts := composition_time,
                vf_avc_packet_type := sint avc_packet_type\<rparr>))
            (\<lambda>_. bindP note_raw
            (\<lambda>_. if avc_packet_type = 0 then avc_demux_sps_pps
               else if avc_packet_type = 1 then video_nalu_demux
               else returnP ())))))))))"

text \<open>\<^verbatim>\<open>buffer->skip(-1 * buffer->pos())\<close>.\<close>

definition rewind :: "unit fm_prog" where
  "rewind = bindP (getP (\<lambda>f. buf_tell (fm_buffer f))) (\<lambda>p. skips (- 1 * p))"

definition new_video :: "unit fm_prog" where
  "new_video = modifyP (\<lambda>f. f\<lparr>
     fm_vcodec := (case fm_vcodec f of None \<Rightarrow> Some video_config_new | Some c \<Rightarrow> Some c),
     fm_video := (case fm_video f of None \<Rightarrow> Some video_frame_new | Some v \<Rightarrow> Some v)\<rparr>)"

definition format_on_video :: "64 word \<Rightarrow> byte list option \<Rightarrow> unit fm_prog" where
  "format_on_video timestamp data =
     (if data = None \<or> length (the data) \<le> 0 then returnP ()
      else bindP (opens data) (\<lambda>_. bindP (want 1 ERROR_HLS_DECODE_ERROR) (\<lambda>_. bindP (on_buf read_1bytes)
        (\<lambda>b. if low_nibble b \<noteq> SrsVideoCodecIdAVC then returnP ()
           else bindP new_video (\<lambda>_. bindP (video_upd (frame_initialize VideoCodec))
             (\<lambda>_. bindP rewind (\<lambda>_. video_avc_demux timestamp)))))))"

section \<open>Audio\<close>

definition audio_aac_sequence_header_demux :: "byte list \<Rightarrow> unit fm_prog" where
  "audio_aac_sequence_header_demux data = bindP (opens (Some data))
     (\<lambda>_. bindP (want 2 ERROR_HLS_DECODE_ERROR) (\<lambda>_. bindP (on_buf read_1bytes)
     (\<lambda>a. bindP (on_buf read_1bytes)
     (\<lambda>b. bindP (acodec_upd (\<lambda>c. c\<lparr>ac_channels := and (drop_bit 3 b) 0x0F,
          ac_sample_rate := or (and (push_bit 1 a) 0x0E) (and (drop_bit 7 b) 0x01),
          ac_object := uint (and (drop_bit 3 a) 0x1F)\<rparr>))
     (\<lambda>_. checkP (uint (and (drop_bit 3 a) 0x1F) \<noteq> 0) ERROR_HLS_DECODE_ERROR)))))"

definition srs_aac_srates :: "int list" where
  "srs_aac_srates = [96000, 88200, 64000, 48000, 44100, 32000, 24000, 22050, 16000, 12000, 11025, 8000, 7350, 0, 0, 0]"

definition sound_rate_of :: "int \<Rightarrow> int \<Rightarrow> int" where
  "sound_rate_of srate old = (if srate = 11025 then 1 else if srate = 22050 then 2 else if srate = 44100 then 3 else old)"

text \<open>The sample rate of the sequence header replaces that of the tag.\<close>

definition reset_sound_rate :: "unit fm_prog" where
  "reset_sound_rate = bindP (deref fm_acodec)
     (\<lambda>c. if ac_sample_rate c = SrsAacSampleRateUnset then returnP ()
        else bindP (checkP (unat (ac_sample_rate c) < length srs_aac_srates) UNDEFINED_BEHAVIOUR)
          (\<lambda>_. acodec_upd (\<lambda>c. c\<lparr>ac_sound_rate :=
              sound_rate_of (srs_aac_srates ! unat (ac_sample_rate c)) (ac_sound_rate c)\<rparr>)))"

text \<open>The first byte of an audio tag; the result is the codec.\<close>

definition audio_tag :: "64 word \<Rightarrow> int fm_prog" where
  "audio_tag timestamp = bindP (audio_upd (\<lambda>a. a\<lparr>sf_cts := 0, sf_dts := timestamp\<rparr>))
     (\<lambda>_. bindP (on_buf read_1bytes)
     (\<lambda>b. bindP (acodec_upd (\<lambda>c. c\<lparr>ac_id := uint (high_nibble b), ac_sound_type := uint (and b 0x01),
          ac_sound_rate := uint (and (signed_drop_bit 2 b) 0x03), ac_sound_size := uint (and (signed_drop_bit 1 b) 0x01)\<rparr>))
     (\<lambda>_. returnP (uint (high_nibble b)))))"

definition audio_aac_demux :: "64 word \<Rightarrow> unit fm_prog" where
  "audio_aac_demux timestamp = bindP (audio_tag timestamp)
     (\<lambda>codec_id. if codec_id = 2 then raiseP ERROR_HLS_TRY_MP3
        else bindP (checkP (codec_id = 10) ERROR_HLS_DECODE_ERROR)
          (\<lambda>_. bindP (want 1 ERROR_HLS_DECODE_ERROR)
          (\<lambda>_. bindP (on_buf read_1bytes)
          (\<lambda>aac_packet_type. bindP (audio_upd (\<lambda>a. a\<lparr>af_aac_packet_type := sint aac_packet_type\<rparr>))
          (\<lambda>_. bindP note_raw
          (\<lambda>_. if aac_packet_type = 0
             then bindP rest_bytes
               (\<lambda>extra. bindP (if extra \<noteq> []
                   then bindP (acodec_upd (\<lambda>c. c\<lparr>ac_extra_data := extra\<rparr>)) (\<lambda>_. audio_aac_sequence_header_demux extra)
                   else returnP ()) (\<lambda>_. reset_sound_rate))
             else if aac_packet_type = 1
             then bindP (deref fm_acodec)
               (\<lambda>c. if \<not> is_aac_codec_ok c then returnP ()
                  else bindP here (\<lambda>(p, n). bindP (audio_sample p n) (\<lambda>_. reset_sound_rate)))
             else reset_sound_rate))))))"

definition audio_mp3_demux :: "64 word \<Rightarrow> unit fm_prog" where
  "audio_mp3_demux timestamp = bindP (audio_tag timestamp)
     (\<lambda>codec_id. bindP (checkP (codec_id = 2) ASSERT_FAILED)
     (\<lambda>_. bindP note_raw
     (\<lambda>_. bindP (skips 1)
     (\<lambda>_. bindP (getP (\<lambda>f. buf_empty (fm_buffer f)))
     (\<lambda>empty. if empty then returnP () else bindP here (\<lambda>(p, n). audio_sample p n))))))"

definition new_audio :: "unit fm_prog" where
  "new_audio = modifyP (\<lambda>f. f\<lparr>
     fm_acodec := (case fm_acodec f of None \<Rightarrow> Some audio_config_new | Some c \<Rightarrow> Some c),
     fm_audio := (case fm_audio f of None \<Rightarrow> Some audio_frame_new | Some v \<Rightarrow> Some v)\<rparr>)"

definition format_on_audio :: "64 word \<Rightarrow> byte list option \<Rightarrow> unit fm_prog" where
  "format_on_audio timestamp data =
     (if data = None \<or> length (the data) \<le> 0 then returnP ()
      else bindP (opens data) (\<lambda>_. bindP (want 1 ERROR_HLS_DECODE_ERROR) (\<lambda>_. bindP (on_buf read_1bytes)
        (\<lambda>v. let codec = uint (and (drop_bit 4 v) 0x0F) in
           if codec \<noteq> 2 \<and> codec \<noteq> 10 then returnP ()
           else bindP new_audio (\<lambda>_. bindP (audio_upd (frame_initialize AudioCodec))
             (\<lambda>_. bindP rewind
             (\<lambda>_. if codec = 2 then audio_mp3_demux timestamp else audio_aac_demux timestamp)))))))"

definition format_on_aac_sequence_header :: "byte list \<Rightarrow> unit fm_prog" where
  "format_on_aac_sequence_header data = bindP new_audio (\<lambda>_. bindP (audio_upd (frame_initialize AudioCodec))
     (\<lambda>_. audio_aac_sequence_header_demux data))"

definition is_aac_sequence_header :: "format \<Rightarrow> bool" where
  "is_aac_sequence_header f = (case (fm_acodec f, fm_audio f) of
     (Some c, Some a) \<Rightarrow> ac_id c = 10 \<and> af_aac_packet_type a = 0 | _ \<Rightarrow> False)"

definition is_avc_sequence_header :: "format \<Rightarrow> bool" where
  "is_avc_sequence_header f = (case (fm_vcodec f, fm_video f) of
     (Some c, Some v) \<Rightarrow> vc_id c = 7 \<and> vf_avc_packet_type v = 0 | _ \<Rightarrow> False)"

section \<open>The destructor\<close>

text \<open>\<^verbatim>\<open>delete\<close> of a codec: \<open>live\<close> holds the codec objects that exist.\<close>

definition free_codec :: "codec_ref option \<Rightarrow> codec_ref list \<Rightarrow> codec_ref list res" where
  "free_codec c live = (case c of
     None \<Rightarrow> Inr live
   | Some c \<Rightarrow> if c \<in> set live then Inr (removeAll c live) else Inl UNDEFINED_BEHAVIOUR)"

text \<open>A frame frees its codec, then the format frees the codecs.\<close>

definition format_destroy :: "format \<Rightarrow> codec_ref list res" where
  "format_destroy f =
     (let acodec = map_option (\<lambda>_. AudioCodec) (fm_acodec f); vcodec = map_option (\<lambda>_. VideoCodec) (fm_vcodec f);
          live = (case acodec of None \<Rightarrow> [] | Some c \<Rightarrow> [c]) @ (case vcodec of None \<Rightarrow> [] | Some c \<Rightarrow> [c])
      in bindR (free_codec (Option.bind (fm_audio f) sf_codec) live)
         (\<lambda>live. bindR (free_codec (Option.bind (fm_video f) sf_codec) live)
         (\<lambda>live. bindR (free_codec acodec live) (\<lambda>live. free_codec vcodec live))))"

end
