(* ===== verification/Srs_Format_Safety.thy ===== *)
theory Srs_Format_Safety
  imports Srs_Format
begin

text \<open>
  Safety of \<^verbatim>\<open>SrsFormat\<close> on arbitrary messages: which errors it ends with, and that the samples
  it finds lie within the message.
\<close>

section \<open>Triples\<close>

text \<open>From a state with \<open>A\<close>, the program ends with a result and \<open>Q\<close>, or with an error and \<open>P\<close>.\<close>

definition fm_triple :: "(format \<Rightarrow> bool) \<Rightarrow> 'a fm_prog \<Rightarrow> ('a \<Rightarrow> format \<Rightarrow> bool) \<Rightarrow> (srs_error \<Rightarrow> format \<Rightarrow> bool) \<Rightarrow> bool" where
  "fm_triple A m Q P \<longleftrightarrow> (\<forall>f. A f \<longrightarrow> (case m f of (Inr x, f') \<Rightarrow> Q x f' | (Inl e, f') \<Rightarrow> P e f'))"

named_theorems fm_rules

lemma fm_tripleI: "(\<And>f. A f \<Longrightarrow> case m f of (Inr x, f') \<Rightarrow> Q x f' | (Inl e, f') \<Rightarrow> P e f') \<Longrightarrow> fm_triple A m Q P"
  by (simp add: fm_triple_def)

lemma fm_tripleD: "fm_triple A m Q P \<Longrightarrow> A f \<Longrightarrow> case m f of (Inr x, f') \<Rightarrow> Q x f' | (Inl e, f') \<Rightarrow> P e f'"
  by (simp add: fm_triple_def)

lemma fm_bind:
  assumes "fm_triple A m B P" and "\<And>x. fm_triple (B x) (k x) C P"
  shows "fm_triple A (bindP m k) C P"
proof (rule fm_tripleI)
  fix f assume "A f"
  from fm_tripleD [OF assms(1) this]
  show "case bindP m k f of (Inr x, f') \<Rightarrow> C x f' | (Inl e, f') \<Rightarrow> P e f'"
    using fm_tripleD [OF assms(2)] by (cases "m f"; cases "fst (m f)") (simp_all add: bindP_def)
qed

lemma fm_mono: "fm_triple A m Q P \<Longrightarrow> (\<And>f. A' f \<Longrightarrow> A f) \<Longrightarrow> (\<And>x f. Q x f \<Longrightarrow> Q' x f) \<Longrightarrow> (\<And>e f. P e f \<Longrightarrow> P' e f)
    \<Longrightarrow> fm_triple A' m Q' P'"
  by (fastforce simp: fm_triple_def split: prod.splits sum.splits)

lemma fm_pre: "(\<And>f. A' f \<Longrightarrow> A f) \<Longrightarrow> fm_triple A m Q P \<Longrightarrow> fm_triple A' m Q P"
  by (rule fm_mono)

lemma fm_post: "fm_triple A m Q P \<Longrightarrow> (\<And>x f. Q x f \<Longrightarrow> Q' x f) \<Longrightarrow> fm_triple A m Q' P"
  by (rule fm_mono)

lemma fm_basic:
  "(\<And>f. A f \<Longrightarrow> Q1 x f) \<Longrightarrow> fm_triple A (returnP x) Q1 P"
  "(\<And>f. A f \<Longrightarrow> P e f) \<Longrightarrow> fm_triple A (raiseP e) Q2 P"
  "(\<And>f. A f \<Longrightarrow> Q3 (g f) f) \<Longrightarrow> fm_triple A (getP g) Q3 P"
  "(\<And>f. A f \<Longrightarrow> Q4 () (u f)) \<Longrightarrow> fm_triple A (modifyP u) Q4 P"
  "(\<And>f. A f \<Longrightarrow> c \<Longrightarrow> Q4 () f) \<Longrightarrow> (\<And>f. A f \<Longrightarrow> \<not> c \<Longrightarrow> P e f) \<Longrightarrow> fm_triple A (checkP c e) Q4 P"
  by (auto simp: fm_triple_def prog_eqs)

lemma fm_if: "(b \<Longrightarrow> fm_triple A m Q P) \<Longrightarrow> (\<not> b \<Longrightarrow> fm_triple A n Q P) \<Longrightarrow> fm_triple A (if b then m else n) Q P"
  by simp

lemma fm_pair: "(\<And>x y. fm_triple (A (x, y)) (k x y) Q P) \<Longrightarrow> fm_triple (A p) (case p of (x, y) \<Rightarrow> k x y) Q P"
  by (cases p) simp

section \<open>Video\<close>

text \<open>
  The invariant while a message \<open>bs\<close> is demuxed: the buffer is on the message, with at least \<open>k\<close>
  bytes left, there are a codec and a frame, and the samples are within the message.
\<close>

definition sample_in :: "byte list \<Rightarrow> sample \<Rightarrow> bool" where
  "sample_in bs s \<longleftrightarrow> 0 \<le> sa_size s \<and> int (sa_bytes s) + sa_size s \<le> int (length bs)"

definition frame_ok :: "byte list \<Rightarrow> 'a frame_base_scheme \<Rightarrow> bool" where
  "frame_ok bs f \<longleftrightarrow> length (sf_samples f) \<le> SrsMaxNbSamples \<and> (\<forall>s \<in> set (sf_samples f). sample_in bs s)"

definition buf_on :: "byte list \<Rightarrow> nat \<Rightarrow> format \<Rightarrow> bool" where
  "buf_on bs k f \<longleftrightarrow> \<not> sb_null (fm_buffer f) \<and> sb_bytes (fm_buffer f) = bs \<and> sb_pos (fm_buffer f) + k \<le> length bs"

definition video_ok :: "byte list \<Rightarrow> nat \<Rightarrow> format \<Rightarrow> bool" where
  "video_ok bs k f \<longleftrightarrow> buf_on bs k f
    \<and> (\<exists>c. fm_vcodec f = Some c \<and> uint (vc_nal_unit_length c) \<le> 3) \<and> (\<exists>v. fm_video f = Some v \<and> frame_ok bs v)"

lemma video_ok_mono: "video_ok bs k f \<Longrightarrow> j \<le> k \<Longrightarrow> video_ok bs j f"
  by (simp add: video_ok_def buf_on_def)

text \<open>A read of bytes that are there.\<close>

lemma fetch_on:
  assumes "\<not> sb_null s" and "sb_pos s + n \<le> length (sb_bytes s)" and "0 < n"
  shows "fetch (int n) s = Inr (take n (upcoming s), adv n s)"
  using assms by (simp add: fetch_eq room_def)

lemma fm_read:
  assumes "\<And>s. \<not> sb_null s \<Longrightarrow> sb_pos s + n \<le> length (sb_bytes s) \<Longrightarrow> \<exists>x. r s = Inr (x, adv n s)"
  shows "fm_triple (video_ok bs (n + k)) (on_buf r) (\<lambda>_. video_ok bs k) P"
proof (rule fm_tripleI)
  fix f assume v: "video_ok bs (n + k) f"
  with assms [of "fm_buffer f"] obtain x where "r (fm_buffer f) = Inr (x, adv n (fm_buffer f))"
    by (auto simp: video_ok_def buf_on_def)
  with v show "case on_buf r f of (Inr x, f') \<Rightarrow> video_ok bs k f' | (Inl e, f') \<Rightarrow> P e f'"
    by (simp add: on_buf_def video_ok_def buf_on_def)
qed

lemma reads_there:
  "\<not> sb_null s \<Longrightarrow> sb_pos s + 1 \<le> length (sb_bytes s) \<Longrightarrow> \<exists>x. read_1bytes s = Inr (x, adv 1 s)"
  "\<not> sb_null s \<Longrightarrow> sb_pos s + 2 \<le> length (sb_bytes s) \<Longrightarrow> \<exists>x. read_2bytes s = Inr (x, adv 2 s)"
  "\<not> sb_null s \<Longrightarrow> sb_pos s + 3 \<le> length (sb_bytes s) \<Longrightarrow> \<exists>x. read_3bytes s = Inr (x, adv 3 s)"
  "\<not> sb_null s \<Longrightarrow> sb_pos s + 4 \<le> length (sb_bytes s) \<Longrightarrow> \<exists>x. read_4bytes s = Inr (x, adv 4 s)"
  "\<not> sb_null s \<Longrightarrow> sb_pos s + n \<le> length (sb_bytes s) \<Longrightarrow> \<exists>x. read_bytes (int n) s = Inr (x, adv n s)"
  by (simp_all add: read_1bytes_def read_2bytes_def read_3bytes_def read_4bytes_def read_bytes_def fetch_numeral fetch_eq room_def)

lemma fm_reads:
  "fm_triple (video_ok bs (1 + k)) (on_buf read_1bytes) (\<lambda>_. video_ok bs k) P1"
  "fm_triple (video_ok bs (2 + k)) (on_buf read_2bytes) (\<lambda>_. video_ok bs k) P2"
  "fm_triple (video_ok bs (3 + k)) (on_buf read_3bytes) (\<lambda>_. video_ok bs k) P3"
  "fm_triple (video_ok bs (4 + k)) (on_buf read_4bytes) (\<lambda>_. video_ok bs k) P4"
  "fm_triple (video_ok bs (n + k)) (on_buf (read_bytes (int n))) (\<lambda>_. video_ok bs k) P5"
  by (rule fm_read, erule reads_there, assumption)+

lemma fm_read_at:
  "Suc k \<le> j \<Longrightarrow> fm_triple (video_ok bs j) (on_buf read_1bytes) (\<lambda>_. video_ok bs k) P1"
  "k + 2 \<le> j \<Longrightarrow> fm_triple (video_ok bs j) (on_buf read_2bytes) (\<lambda>_. video_ok bs k) P2"
  "k + 3 \<le> j \<Longrightarrow> fm_triple (video_ok bs j) (on_buf read_3bytes) (\<lambda>_. video_ok bs k) P3"
  "k + 4 \<le> j \<Longrightarrow> fm_triple (video_ok bs j) (on_buf read_4bytes) (\<lambda>_. video_ok bs k) P4"
  by (rule fm_pre [OF _ fm_reads(1)], erule video_ok_mono, simp, rule fm_pre [OF _ fm_reads(2)], erule video_ok_mono, simp,
      rule fm_pre [OF _ fm_reads(3)], erule video_ok_mono, simp, rule fm_pre [OF _ fm_reads(4)], erule video_ok_mono, simp)

lemma fm_want:
  assumes "0 \<le> n" and "\<And>f. video_ok bs 0 f \<Longrightarrow> P e f"
  shows "fm_triple (video_ok bs 0) (want n e) (\<lambda>_. video_ok bs (nat n)) P"
  using assms by (auto simp: fm_triple_def want_def on_buf_def need_eq video_ok_def buf_on_def room_def)

lemma fm_vcodec_upd:
  assumes "\<And>c. uint (vc_nal_unit_length c) \<le> 3 \<Longrightarrow> uint (vc_nal_unit_length (u c)) \<le> 3"
  shows "fm_triple (video_ok bs k) (vcodec_upd u) (\<lambda>_. video_ok bs k) P"
  using assms by (auto simp: fm_triple_def vcodec_upd_def deref_def bindP_def prog_eqs video_ok_def buf_on_def)

lemma fm_video_upd:
  assumes "\<And>v. frame_ok bs v \<Longrightarrow> frame_ok bs (u v)"
  shows "fm_triple (video_ok bs k) (video_upd u) (\<lambda>_. video_ok bs k) P"
  using assms by (auto simp: fm_triple_def video_upd_def deref_def bindP_def prog_eqs video_ok_def buf_on_def)

lemma fm_here: "fm_triple (video_ok bs k) here (\<lambda>(p, n) f. video_ok bs k f \<and> p = sb_pos (fm_buffer f)
    \<and> n = int (length bs) - int p) P"
  by (auto simp: here_def fm_triple_def prog_eqs video_ok_def buf_on_def buf_size_def buf_tell_def)

lemma fm_note_raw: "fm_triple (video_ok bs k) note_raw (\<lambda>_. video_ok bs k) P"
  by (auto simp: note_raw_def here_def fm_triple_def bindP_def prog_eqs video_ok_def buf_on_def)

lemma fm_rest: "fm_triple (video_ok bs k) rest_bytes (\<lambda>_. video_ok bs k) P"
  by (simp add: rest_bytes_def fm_triple_def prog_eqs)

section \<open>The sequence parameter set\<close>

text \<open>A parser of bits ends with one of three errors or with a reader in order.\<close>

definition sps_error :: "srs_error \<Rightarrow> bool" where
  "sps_error e \<longleftrightarrow> e \<in> {ERROR_HLS_DECODE_ERROR, ERROR_AVC_NALU_UEV, ERROR_KERNEL_STREAM_INIT, ASSERT_FAILED}"

definition bits_safe :: "('a \<Rightarrow> bool) \<Rightarrow> 'a res \<Rightarrow> bool" where
  "bits_safe Q r \<longleftrightarrow> (case r of Inl e \<Rightarrow> sps_error e | Inr x \<Rightarrow> Q x)"

lemma bits_bind: "bits_safe Q r \<Longrightarrow> (\<And>x. Q x \<Longrightarrow> bits_safe R (k x)) \<Longrightarrow> bits_safe R (bindR r k)"
  by (cases r) (simp_all add: bits_safe_def)

lemma bits_uev: "bitbuf_ok b \<Longrightarrow> bits_safe (\<lambda>(n, b). bitbuf_ok b \<and> 0 \<le> sint n) (srs_avc_nalu_read_uev b)"
proof -
  assume b: "bitbuf_ok b"
  have le: "0 \<le> sint (word_of_nat n :: 32 word)" if "n < 2 ^ 31 - 1" for n
    using that by (simp add: signed_of_nat signed_take_bit_int_eq_self)
  show ?thesis
    using read_uev_spec [OF b]
    by (cases "uev_spec (pending_bits b)")
      (auto simp: bits_safe_def uev_spec_def Let_def sps_error_def le split: if_splits prod.splits)
qed

lemma bits_flag: "bitbuf_ok b \<Longrightarrow> bits_safe (\<lambda>(n, b). bitbuf_ok b) (srs_avc_nalu_read_bit b)"
  using read_flag_spec [of b] by (cases "pending_bits b") (auto simp: bits_safe_def sps_error_def)

lemma bits_flags: "bitbuf_ok b \<Longrightarrow> bits_safe bitbuf_ok (skip_flags n b)"
proof (induction n arbitrary: b)
  case 0
  then show ?case by (simp add: bits_safe_def)
next
  case (Suc n)
  show ?case unfolding skip_flags.simps
    by (rule bits_bind [OF bits_flag [OF Suc.prems]]) (use Suc.IH in auto)
qed

lemma bits_uevs: "bitbuf_ok b \<Longrightarrow> bits_safe bitbuf_ok (skip_uevs n b)"
proof (induction n arbitrary: b)
  case 0
  then show ?case by (simp add: bits_safe_def)
next
  case (Suc n)
  show ?case unfolding skip_uevs.simps
    by (rule bits_bind [OF bits_uev [OF Suc.prems]]) (use Suc.IH in auto)
qed

named_theorems bits_rules

lemma bits_uev_then [bits_rules]:
  assumes "bitbuf_ok b" and "\<And>n b. bitbuf_ok b \<Longrightarrow> bits_safe R (k n b)"
  shows "bits_safe R (bindR (srs_avc_nalu_read_uev b) (case_prod k))"
  using assms(2) by (intro bits_bind [OF bits_uev [OF assms(1)]]) auto

lemma bits_flag_then [bits_rules]:
  assumes "bitbuf_ok b" and "\<And>n b. bitbuf_ok b \<Longrightarrow> bits_safe R (k n b)"
  shows "bits_safe R (bindR (srs_avc_nalu_read_bit b) (case_prod k))"
  using assms(2) by (intro bits_bind [OF bits_flag [OF assms(1)]]) auto

lemma bits_uevs_then [bits_rules]:
  assumes "bitbuf_ok b" and "\<And>b. bitbuf_ok b \<Longrightarrow> bits_safe R (k b)"
  shows "bits_safe R (bindR (skip_uevs m b) k)"
  using assms(2) by (intro bits_bind [OF bits_uevs [OF assms(1)]]) auto

lemma bits_flags_then [bits_rules]:
  assumes "bitbuf_ok b" and "\<And>b. bitbuf_ok b \<Longrightarrow> bits_safe R (k b)"
  shows "bits_safe R (bindR (skip_flags m b) k)"
  using assms(2) by (intro bits_bind [OF bits_flags [OF assms(1)]]) auto

lemma bits_choice [bits_rules]:
  "(c \<Longrightarrow> bits_safe bitbuf_ok r) \<Longrightarrow> (\<not> c \<Longrightarrow> bits_safe bitbuf_ok r') \<Longrightarrow> (\<And>b. bitbuf_ok b \<Longrightarrow> bits_safe R (k b))
    \<Longrightarrow> bits_safe R (bindR (if c then r else r') k)"
  "(c \<Longrightarrow> bits_safe R (l ())) \<Longrightarrow> bits_safe R (bindR (check c ERROR_HLS_DECODE_ERROR) l)"
  "(c \<Longrightarrow> bits_safe R r1) \<Longrightarrow> (\<not> c \<Longrightarrow> bits_safe R r2) \<Longrightarrow> bits_safe R (if c then r1 else r2)"
  "R x \<Longrightarrow> bits_safe R (Inr x)"
  by (rule bits_bind [where Q = bitbuf_ok], simp_all) (simp_all add: bits_safe_def check_def sps_error_def)

lemma bits_chroma: "bitbuf_ok b \<Longrightarrow> bits_safe bitbuf_ok (sps_chroma b)"
  unfolding sps_chroma_def by (intro bits_rules bits_flags) assumption+

lemma bits_pic_order: "bitbuf_ok b \<Longrightarrow> bits_safe bitbuf_ok (sps_pic_order b)"
  unfolding sps_pic_order_def by (intro bits_rules bits_flags bits_uevs) assumption+

lemma bits_size: "bitbuf_ok b \<Longrightarrow> bits_safe (\<lambda>_. True) (sps_size p b)"
  unfolding sps_size_def by (intro bits_rules bits_chroma bits_bind [OF bits_pic_order]) (assumption | simp)+

lemma bits_init: "\<not> sb_null s \<Longrightarrow> bitbuf_ok (bit_initialize s)"
  by (simp add: bitbuf_ok_def bit_initialize_def)

lemma head_safe: "\<not> sb_null s \<Longrightarrow> bits_safe (\<lambda>(p, s). \<not> sb_null s) (sps_head s)"
  by (auto simp: sps_head_def bits_safe_def sps_error_def codec_simps check_def read_1bytes_def fetch_numeral room_def
      bindR_def split: sum.splits)

lemma rbsp_safe: "bits_safe (\<lambda>_. True) (bindR (buf_initialize (Some rbsp))
    (\<lambda>s. bindR (sps_head s) (\<lambda>(p, s). sps_size p (bit_initialize s))))"
proof (rule bits_bind [where Q = "\<lambda>s. \<not> sb_null s"])
  show "bits_safe (\<lambda>s. \<not> sb_null s) (buf_initialize (Some rbsp))"
    by (simp add: buf_initialize_def bits_safe_def sps_error_def)
  show "bits_safe (\<lambda>_. True) (bindR (sps_head s) (\<lambda>(p, s). sps_size p (bit_initialize s)))" if "\<not> sb_null s" for s
    by (rule bits_bind [OF head_safe [OF that]]) (auto intro: bits_size bits_init)
qed

lemma nalu_head_safe: "bs \<noteq> [] \<Longrightarrow> bits_safe (\<lambda>_. True) (bindR (buf_initialize (Some bs)) nalu_head)"
  by (auto simp: buf_initialize_def nalu_head_def bits_safe_def sps_error_def codec_simps check_def read_1bytes_def
      fetch_numeral room_def bindR_def split: sum.splits)

section \<open>The sequence header of H.264\<close>

text \<open>The error is one of \<open>E\<close>, and the samples are in order.\<close>

definition video_err :: "(srs_error \<Rightarrow> bool) \<Rightarrow> byte list \<Rightarrow> srs_error \<Rightarrow> format \<Rightarrow> bool" where
  "video_err E bs e f \<longleftrightarrow> video_ok bs 0 f \<and> E e"

lemma fm_pure:
  assumes "bits_safe (\<lambda>_. True) r"
  shows "fm_triple (video_ok bs k) (pure_fm r) (\<lambda>_. video_ok bs k) (video_err sps_error bs)"
  using assms by (auto simp: pure_fm_def fm_triple_def bits_safe_def video_err_def intro: video_ok_mono split: sum.splits)

lemma fm_sps_rbsp: "fm_triple (video_ok bs k) (avc_demux_sps_rbsp rbsp) (\<lambda>_. video_ok bs k) (video_err sps_error bs)"
  unfolding avc_demux_sps_rbsp_def
  apply (rule fm_bind [where B = "\<lambda>_. video_ok bs k"])
  apply (rule fm_basic) apply assumption
  apply (rule fm_if, rule fm_basic, assumption)
  apply (rule fm_bind, rule fm_pure [OF rbsp_safe], rule fm_pair)
  apply (rule fm_vcodec_upd, simp)
  done

lemma fm_deref_vcodec: "fm_triple (video_ok bs k) (deref fm_vcodec)
    (\<lambda>c f. video_ok bs k f \<and> fm_vcodec f = Some c \<and> uint (vc_nal_unit_length c) \<le> 3) P"
  by (auto simp: fm_triple_def deref_def video_ok_def)

lemma fm_sps: "fm_triple (video_ok bs k) avc_demux_sps (\<lambda>_. video_ok bs k) (video_err sps_error bs)"
  unfolding avc_demux_sps_def
  apply (rule fm_bind [OF fm_deref_vcodec])
  apply (rule fm_pre [where A = "video_ok bs k"], simp)
  apply (rule fm_if, rule fm_basic, assumption)
  apply (rule fm_bind, rule fm_pure [OF nalu_head_safe], simp, rule fm_pair)
  apply (rule fm_sps_rbsp)
  done

lemma fm_check: "E e \<Longrightarrow> fm_triple (video_ok bs k) (checkP c e) (\<lambda>_. video_ok bs k) (video_err E bs)"
  by (auto simp: fm_triple_def prog_eqs video_err_def intro: video_ok_mono)

lemma fm_wants: "0 \<le> n \<Longrightarrow> E e \<Longrightarrow> fm_triple (video_ok bs 0) (want n e) (\<lambda>_. video_ok bs (nat n)) (video_err E bs)"
  by (rule fm_want) (simp_all add: video_err_def)

lemma sps_errors [simp]: "sps_error ERROR_HLS_DECODE_ERROR"
  by (simp add: sps_error_def)

lemma fm_one_set: "fm_triple (video_ok bs 0) one_parameter_set (\<lambda>_. video_ok bs 0) (video_err sps_error bs)"
proof -
  have r: "fm_triple (video_ok bs (nat (uint n))) (on_buf (read_bytes (uint n))) (\<lambda>_. video_ok bs 0) P" for n :: "16 word" and P
    using fm_reads(5) [of bs "nat (uint n)" 0] by simp
  show ?thesis
    unfolding one_parameter_set_def
    apply (rule fm_bind, rule fm_wants, simp, simp)
    apply (rule fm_bind, rule fm_read_at(1) [where k = 0], simp)
    apply (rule fm_bind, rule fm_check, simp)
    apply (rule fm_bind, rule fm_wants, simp, simp)
    apply (rule fm_bind, rule fm_read_at(2) [where k = 0], simp)
    apply (rule fm_bind, rule fm_wants, simp, simp)
    apply (rule fm_if)
     apply (rule fm_bind, rule r, rule fm_basic, assumption)
    apply (rule fm_basic, erule video_ok_mono, simp)
    done
qed

lemma fm_optional: "(\<And>x. mo = Some x \<Longrightarrow> fm_triple A (g x) (\<lambda>_. A) P) \<Longrightarrow>
    fm_triple A (case mo of Some x \<Rightarrow> g x | None \<Rightarrow> returnP ()) (\<lambda>_. A) P"
  by (cases mo) (auto intro: fm_basic)

lemma fm_sps_pps: "fm_triple (video_ok bs 0) avc_demux_sps_pps (\<lambda>_. video_ok bs 0) (video_err sps_error bs)"
proof -
  have l: "uint (and l 0x03 :: 8 word) \<le> 3" for l
    using word_and_le1 [of l 3] by (simp add: word_le_def)
  show ?thesis
    unfolding avc_demux_sps_pps_def
    apply (rule fm_bind, rule fm_rest)
    apply (rule fm_bind [where B = "\<lambda>_. video_ok bs 0"], rule fm_if, rule fm_vcodec_upd, simp, rule fm_basic, assumption)
    apply (rule fm_bind, rule fm_wants, simp, simp)
    apply (rule fm_bind, rule fm_read_at(1) [where k = 5], simp)
    apply (rule fm_bind, rule fm_read_at(1) [where k = 4], simp)
    apply (rule fm_bind, rule fm_vcodec_upd, simp)
    apply (rule fm_bind, rule fm_read_at(1) [where k = 3], simp)
    apply (rule fm_bind, rule fm_read_at(1) [where k = 2], simp)
    apply (rule fm_bind, rule fm_vcodec_upd, simp)
    apply (rule fm_bind, rule fm_read_at(1) [where k = 0], simp)
    apply (rule fm_bind, rule fm_vcodec_upd, simp add: l)
    apply (rule fm_bind, rule fm_check, simp)
    apply (rule fm_bind, rule fm_one_set)
    apply (rule fm_bind [where B = "\<lambda>_. video_ok bs 0"], rule fm_optional, rule fm_vcodec_upd, simp)
    apply (rule fm_bind, rule fm_one_set)
    apply (rule fm_bind [where B = "\<lambda>_. video_ok bs 0"], rule fm_optional, rule fm_vcodec_upd, simp)
    apply (rule fm_sps)
    done
qed

section \<open>NAL units\<close>

text \<open>An empty sample at the end of the message has no first byte.\<close>

definition ends_empty :: "byte list \<Rightarrow> format \<Rightarrow> bool" where
  "ends_empty bs f \<longleftrightarrow> (\<exists>v. fm_video f = Some v \<and> sf_samples v \<noteq> []
     \<and> last (sf_samples v) = \<lparr>sa_bytes = length bs, sa_size = 0\<rparr>)"

definition nal_err :: "(srs_error \<Rightarrow> bool) \<Rightarrow> byte list \<Rightarrow> srs_error \<Rightarrow> format \<Rightarrow> bool" where
  "nal_err E bs e f \<longleftrightarrow> video_ok bs 0 f \<and> (e = ERROR_HLS_DECODE_ERROR \<or> E e \<or> e = UNDEFINED_BEHAVIOUR \<and> ends_empty bs f)"

lemma frame_ok_note [simp]: "frame_ok bs (note_nalu b v) = frame_ok bs v"
  by (simp add: note_nalu_def frame_ok_def Let_def)

lemma fm_video_sample:
  assumes "0 \<le> n" and "int p + n \<le> int (length bs)"
  shows "fm_triple (video_ok bs k) (video_sample p n) (\<lambda>_. video_ok bs k) (nal_err E bs)"
proof (rule fm_tripleI)
  fix f assume ok: "video_ok bs k f"
  then obtain v where v: "fm_video f = Some v" "frame_ok bs v" and bs: "sb_bytes (fm_buffer f) = bs"
    by (auto simp: video_ok_def buf_on_def)
  let ?v = "v\<lparr>sf_samples := sf_samples v @ [\<lparr>sa_bytes = p, sa_size = n\<rparr>]\<rparr>"
  have v': "frame_ok bs ?v" if "length (sf_samples v) < SrsMaxNbSamples"
    using that v(2) assms by (auto simp: frame_ok_def sample_in_def)
  show "case video_sample p n f of (Inr x, f') \<Rightarrow> video_ok bs k f' | (Inl e, f') \<Rightarrow> nal_err E bs e f'"
  proof (cases "length (sf_samples v) \<ge> SrsMaxNbSamples")
    case True
    then show ?thesis using ok v(1)
      by (auto simp: video_sample_def deref_def bindP_def video_add_sample_def frame_add_sample_def bs nal_err_def
          video_ok_def buf_on_def)
  next
    case False
    with v' have fr: "frame_ok bs ?v" by simp
    show ?thesis
    proof (cases "p < length bs")
      case True
      then show ?thesis using ok False fr
        by (auto simp: video_sample_def deref_def v(1) bindP_def video_add_sample_def frame_add_sample_def bs
            video_ok_def buf_on_def)
    next
      case out: False
      with assms have "p = length bs" "n = 0" by simp_all
      then show ?thesis using ok False fr
        by (auto simp: video_sample_def deref_def v(1) bindP_def video_add_sample_def frame_add_sample_def bs
            video_ok_def buf_on_def nal_err_def ends_empty_def)
    qed
  qed
qed

text \<open>Skipping \<open>n\<close> bytes of those that are left; where the buffer then stands.\<close>

definition video_at :: "byte list \<Rightarrow> nat \<Rightarrow> format \<Rightarrow> bool" where
  "video_at bs p f \<longleftrightarrow> video_ok bs 0 f \<and> sb_pos (fm_buffer f) = p"

lemma video_atD: "video_at bs p f \<Longrightarrow> video_ok bs 0 f" "video_at bs p f \<Longrightarrow> p \<le> length bs"
  by (auto simp: video_at_def video_ok_def buf_on_def)

lemma fm_skips:
  assumes "0 \<le> n" and "int p + n \<le> int (length bs)"
  shows "fm_triple (video_at bs p) (skips n) (\<lambda>_. video_at bs (p + nat n)) P"
  using assms
  by (auto simp: fm_triple_def skips_def on_buf_def buf_skip_def video_at_def video_ok_def buf_on_def nat_add_distrib)

lemma video_at_state: "video_at bs p f \<Longrightarrow> \<not> sb_null (fm_buffer f) \<and> sb_bytes (fm_buffer f) = bs
    \<and> sb_pos (fm_buffer f) = p \<and> p \<le> length bs"
  by (auto simp: video_at_def video_ok_def buf_on_def)

lemma fm_at_then:
  assumes "fm_triple (video_at bs p) (k (p, int (length bs) - int p)) C P"
  shows "fm_triple (video_at bs p) (bindP here k) C P"
  using assms by (auto simp: fm_triple_def here_def bindP_eqs video_at_state buf_size_def buf_tell_def)

lemma fm_rest_then:
  assumes "fm_triple (video_at bs p) (k (drop p bs)) C P"
  shows "fm_triple (video_at bs p) (bindP rest_bytes k) C P"
  using assms by (auto simp: fm_triple_def rest_bytes_def bindP_eqs video_at_state upcoming_def)

lemma fm_skip_then:
  assumes "p + n \<le> length bs" and "fm_triple (video_at bs (p + n)) (k ()) C P"
  shows "fm_triple (video_at bs p) (bindP (skips (int n)) k) C P"
  using fm_bind [OF fm_skips [of "int n" p bs], of k C P] assms by simp

lemma fm_at_sample:
  assumes "0 \<le> n" and "int q + n \<le> int (length bs)"
  shows "fm_triple (video_at bs p) (video_sample q n) (\<lambda>_. video_at bs p) (nal_err E bs)"
proof (rule fm_tripleI)
  fix f assume at: "video_at bs p f"
  have "sb_pos (fm_buffer (snd (video_sample q n f))) = sb_pos (fm_buffer f)"
    by (auto simp: video_sample_def deref_def bindP_def split: option.splits prod.splits)
  with at fm_tripleD [OF fm_video_sample [OF assms] video_atD(1) [OF at], of E]
  show "case video_sample q n f of (Inr x, f') \<Rightarrow> video_at bs p f' | (Inl e, f') \<Rightarrow> nal_err E bs e f'"
    by (cases "video_sample q n f") (auto simp: video_at_def split: sum.splits)
qed

lemma annexb_code_bounds: "annexb_code k xs = Some m \<Longrightarrow> k + 3 \<le> m \<and> m \<le> k + length xs"
  by (induction k xs rule: annexb_code.induct) (auto split: if_splits)

lemma nalu_length_le: "nalu_length xs \<le> length xs"
  by (induction xs) auto

lemma fm_annexb_loop:
  "length bs - p < n \<Longrightarrow> fm_triple (video_at bs p) (annexb_loop n) (\<lambda>_. video_ok bs 0) (nal_err E bs)"
proof (induction n arbitrary: p)
  case 0
  then show ?case by simp
next
  case (Suc n)
  show ?case
  proof (rule fm_tripleI)
    fix f assume f: "video_at bs p f"
    then have s: "buf_empty (fm_buffer f) = (length bs \<le> p)" "upcoming (fm_buffer f) = drop p bs"
      by (auto simp: video_at_state buf_empty_def upcoming_def)
    show "case annexb_loop (Suc n) f of (Inr x, f') \<Rightarrow> video_ok bs 0 f' | (Inl e, f') \<Rightarrow> nal_err E bs e f'"
    proof (cases "length bs \<le> p \<or> srs_avc_startswith_annexb (fm_buffer f) = None")
      case True
      with f s show ?thesis by (auto simp: prog_simps video_atD(1))
    next
      case False
      then obtain m where m: "srs_avc_startswith_annexb (fm_buffer f) = Some m" and p: "p < length bs" by auto
      with annexb_code_bounds have b: "3 \<le> m" "p + m \<le> length bs"
        by (fastforce simp: srs_avc_startswith_annexb_def s(2))+
      let ?q = "p + m"
      let ?r = "?q + nalu_length (drop ?q bs)"
      have r: "?r \<le> length bs" using nalu_length_le [of "drop ?q bs"] b by simp
      have loop: "fm_triple (video_at bs ?r) (annexb_loop n) (\<lambda>_. video_ok bs 0) (nal_err E bs)"
        by (rule Suc.IH) (use b Suc.prems r in simp)
      have "fm_triple (video_at bs p) (bindP (skips (int m)) (\<lambda>_. bindP here (\<lambda>(p, _). bindP rest_bytes
            (\<lambda>bs. bindP (skips (int (nalu_length bs))) (\<lambda>_. bindP here (\<lambda>(pp, _). if int pp - int p \<le> 0 then annexb_loop n
               else bindP (video_sample p (int pp - int p)) (\<lambda>_. annexb_loop n)))))))
          (\<lambda>_. video_ok bs 0) (nal_err E bs)"
        using b r loop by (auto intro!: fm_skip_then fm_at_then fm_rest_then fm_if fm_bind [OF fm_at_sample])
      from fm_tripleD [OF this f] m p show ?thesis by (simp add: prog_simps s(1))
    qed
  qed
qed

lemma fm_annexb: "fm_triple (\<lambda>f. video_at bs p f \<and> B f) avc_demux_annexb_format (\<lambda>_. video_ok bs 0)
    (\<lambda>e f. if e = ERROR_HLS_AVC_TRY_OTHERS then video_at bs p f \<and> B f else nal_err E bs e f)"
proof (rule fm_tripleI)
  fix f assume f: "video_at bs p f \<and> B f"
  have "fm_triple (video_at bs p) (annexb_loop (Suc (length bs))) (\<lambda>_. video_ok bs 0) (nal_err (\<lambda>e. E e \<and> e \<noteq> ERROR_HLS_AVC_TRY_OTHERS) bs)"
    by (rule fm_annexb_loop) simp
  from fm_tripleD [OF this, of f] f
  show "case avc_demux_annexb_format f of (Inr x, f') \<Rightarrow> video_ok bs 0 f'
      | (Inl e, f') \<Rightarrow> if e = ERROR_HLS_AVC_TRY_OTHERS then video_at bs p f' \<and> B f' else nal_err E bs e f'"
    by (auto simp: avc_demux_annexb_format_def bindP_eqs prog_eqs video_at_state nal_err_def split: sum.splits
        simp del: annexb_loop.simps)
qed

lemma fm_wants_nal: "0 \<le> n \<Longrightarrow> fm_triple (video_ok bs 0) (want n ERROR_HLS_DECODE_ERROR) (\<lambda>_. video_ok bs (nat n)) (nal_err E bs)"
  by (rule fm_want) (simp_all add: nal_err_def)

lemma fm_nalu_length:
  assumes "uint l \<le> 3" and "l \<noteq> 2"
  shows "fm_triple (video_ok bs (nat (sint l + 1))) (read_nalu_length l) (\<lambda>_. video_ok bs 0) P"
proof -
  have l: "l = 3 \<or> l = 1 \<or> l = 0"
  proof -
    have "uint l = 0 \<or> uint l = 1 \<or> uint l = 2 \<or> uint l = 3" using assms(1) uint_ge_0 [of l] by linarith
    then have "l = 0 \<or> l = 1 \<or> l = 2 \<or> l = 3" by (auto simp: word_uint_eq_iff)
    with assms(2) show ?thesis by blast
  qed
  then show ?thesis unfolding read_nalu_length_def
    by (auto intro!: fm_bind [OF fm_read_at(1) [where k = 0]] fm_bind [OF fm_read_at(2) [where k = 0]]
        fm_bind [OF fm_read_at(4) [where k = 0]] fm_basic)
qed

lemma sint_nal_size: "uint (l :: 8 word) \<le> 3 \<Longrightarrow> sint l = uint l"
  using signed_take_bit_int_eq_self [of 7 "uint l"] uint_ge_0 [of l] by (simp add: sint_uint)

text \<open>What leaves the codec alone.\<close>

definition codec_kept :: "'a fm_prog \<Rightarrow> bool" where
  "codec_kept m \<longleftrightarrow> (\<forall>f. fm_vcodec (snd (m f)) = fm_vcodec f)"

lemma fm_kept:
  assumes "codec_kept m" and "fm_triple A m Q P"
  shows "fm_triple (\<lambda>f. A f \<and> fm_vcodec f = c) m (\<lambda>x f. Q x f \<and> fm_vcodec f = c) P"
proof (rule fm_tripleI)
  fix f assume "A f \<and> fm_vcodec f = c"
  with assms(1) fm_tripleD [OF assms(2), of f] show "case m f of (Inr x, f') \<Rightarrow> Q x f' \<and> fm_vcodec f' = c | (Inl e, f') \<Rightarrow> P e f'"
    by (cases "m f") (auto simp: codec_kept_def split: sum.splits, metis snd_conv)
qed

lemma codec_kept_bind: "codec_kept m \<Longrightarrow> (\<And>x. codec_kept (k x)) \<Longrightarrow> codec_kept (bindP m k)"
  by (simp add: codec_kept_def bindP_def split: prod.split sum.split) (metis snd_conv)

lemma codec_kept_basic:
  "codec_kept (on_buf r)" "codec_kept (returnP x)" "codec_kept (checkP b e)" "codec_kept here" "codec_kept (deref g)"
  by (auto simp: codec_kept_def on_buf_def prog_eqs here_def deref_def split: sum.split option.split)

lemma codec_kept_ops: "codec_kept (want n e)" "codec_kept (skips n)" "codec_kept (read_nalu_length l)" "codec_kept (video_sample p n)"
  by (simp_all add: want_def skips_def codec_kept_basic read_nalu_length_def codec_kept_bind)
    (auto simp: codec_kept_def video_sample_def bindP_def deref_def split: option.splits prod.splits)

lemmas codec_kept_all = codec_kept_basic codec_kept_ops

text \<open>While the codec is \<open>c\<close>.\<close>

abbreviation video_with :: "video_config \<Rightarrow> byte list \<Rightarrow> nat \<Rightarrow> format \<Rightarrow> bool" where
  "video_with c bs k f \<equiv> video_ok bs k f \<and> fm_vcodec f = Some c"

lemma fm_codec_then:
  "fm_triple (video_with c bs k) (g c) C P \<Longrightarrow> fm_triple (video_with c bs k) (bindP (deref fm_vcodec) g) C P"
  by (auto simp: fm_triple_def deref_def bindP_def)

lemma fm_with_here: "fm_triple (video_with c bs (nat k)) here (\<lambda>(p, n) f. (video_at bs p f \<and> fm_vcodec f = Some c) \<and> int p + k \<le> int (length bs)) P"
  by (auto simp: here_def fm_triple_def prog_eqs video_at_def video_ok_def buf_on_def)

lemma fm_conj: "(b \<Longrightarrow> fm_triple A m Q P) \<Longrightarrow> fm_triple (\<lambda>f. A f \<and> b) m Q P"
  by (auto simp: fm_triple_def)

lemma fm_ibmf_loop:
  assumes l: "uint (vc_nal_unit_length c) \<le> 3" "vc_nal_unit_length c \<noteq> 2" and "len - i < int n" and "0 < n"
  shows "fm_triple (video_with c bs 0) (ibmf_loop n len i) (\<lambda>_. video_ok bs 0) (nal_err E bs)"
  using assms(3,4)
proof (induction n arbitrary: i)
  case 0
  then show ?case by simp
next
  case (Suc n)
  let ?l = "vc_nal_unit_length c"
  have l0: "0 \<le> sint ?l" using sint_nal_size [OF l(1)] by simp
  show ?case unfolding ibmf_loop.simps
  proof (rule fm_if)
    show "fm_triple (video_with c bs 0) (returnP ()) (\<lambda>_. video_ok bs 0) (nal_err E bs)" by (rule fm_basic) simp
    assume i: "\<not> \<not> i < len"
    have next_step: "fm_triple (video_with c bs 0) (ibmf_loop n len (i + sint ?l + 1 + x)) (\<lambda>_. video_ok bs 0) (nal_err E bs)"
      if "0 \<le> x" for x
      by (rule Suc.IH) (use i Suc.prems l0 that in linarith)+
    show "fm_triple (video_with c bs 0) (bindP (deref fm_vcodec) (\<lambda>c. let l = vc_nal_unit_length c in
          bindP (want (sint l + 1) ERROR_HLS_DECODE_ERROR) (\<lambda>_. bindP (read_nalu_length l)
          (\<lambda>x. bindP (checkP (\<not> x < 0) ERROR_HLS_DECODE_ERROR) (\<lambda>_. bindP (want x ERROR_HLS_DECODE_ERROR)
          (\<lambda>_. bindP here (\<lambda>(p, _). bindP (video_sample p x) (\<lambda>_. bindP (skips x)
          (\<lambda>_. ibmf_loop n len (i + sint l + 1 + x)))))))))) (\<lambda>_. video_ok bs 0) (nal_err E bs)"
      apply (rule fm_codec_then, unfold Let_def)
      apply (rule fm_bind [OF fm_kept [OF codec_kept_all(6) fm_wants_nal]])
      subgoal using l0 by simp
      apply (rule fm_bind [OF fm_kept [OF codec_kept_all(8) fm_nalu_length [OF l]]])
      subgoal for u x
        apply (rule fm_bind [where B = "\<lambda>_ f. video_with c bs 0 f \<and> \<not> x < 0"])
        subgoal by (rule fm_basic) (simp_all add: nal_err_def)
        apply (rule fm_conj)
        apply (rule fm_bind [OF fm_kept [OF codec_kept_all(6) fm_wants_nal]])
        subgoal by simp
        apply (rule fm_bind [OF fm_with_here], rule fm_pair)
        subgoal for u1 u2 p r
          apply (simp only: prod.case)
          apply (rule fm_conj)
          apply (rule fm_bind [OF fm_kept [OF codec_kept_all(9) fm_at_sample]])
          subgoal by simp
          subgoal by simp
          apply (rule fm_bind [OF fm_kept [OF codec_kept_all(7) fm_skips]])
          subgoal by simp
          subgoal by simp
          subgoal by (rule fm_pre [OF _ next_step]) (auto dest: video_atD(1))
          done
        done
      done
  qed
qed

lemma fm_ibmf:
  assumes "uint (vc_nal_unit_length c) \<le> 3"
  shows "fm_triple (video_with c bs 0) avc_demux_ibmf_format (\<lambda>_. video_ok bs 0)
    (nal_err (\<lambda>e. e = ASSERT_FAILED \<and> vc_nal_unit_length c = 2) bs)"
  unfolding avc_demux_ibmf_format_def
proof (rule fm_bind [where B = "\<lambda>_. video_with c bs 0"])
  show "fm_triple (video_with c bs 0) here (\<lambda>_. video_with c bs 0) P" for P
    by (auto simp: here_def fm_triple_def prog_eqs)
  show "fm_triple (video_with c bs 0) (case x of (_, len) \<Rightarrow> bindP (deref fm_vcodec)
      (\<lambda>c. bindP (checkP (vc_nal_unit_length c \<noteq> 2) ASSERT_FAILED) (\<lambda>_. ibmf_loop (Suc (nat len)) len 0)))
      (\<lambda>_. video_ok bs 0) (nal_err (\<lambda>e. e = ASSERT_FAILED \<and> vc_nal_unit_length c = 2) bs)" for x
  proof (cases x)
    case (Pair a len)
    show ?thesis unfolding Pair prod.case
      apply (rule fm_codec_then)
      apply (rule fm_bind [where B = "\<lambda>_ f. video_with c bs 0 f \<and> vc_nal_unit_length c \<noteq> 2"])
      subgoal by (rule fm_basic) (simp_all add: nal_err_def)
      apply (rule fm_conj)
      apply (rule fm_ibmf_loop [OF assms])
      by simp_all
  qed
qed

lemma fm_annexb_or_ibmf:
  assumes "uint (vc_nal_unit_length c) \<le> 3"
    and "fm_triple (video_ok bs 0) ok (\<lambda>_. video_ok bs 0) (nal_err (\<lambda>e. e = ASSERT_FAILED \<and> vc_nal_unit_length c = 2) bs)"
  shows "fm_triple (\<lambda>f. video_at bs p f \<and> fm_vcodec f = Some c) (annexb_or_ibmf ok) (\<lambda>_. video_ok bs 0)
    (nal_err (\<lambda>e. e = ASSERT_FAILED \<and> vc_nal_unit_length c = 2) bs)"
proof (rule fm_tripleI)
  let ?E = "\<lambda>e. e = ASSERT_FAILED \<and> vc_nal_unit_length c = 2"
  let ?ibmf = "bindP avc_demux_ibmf_format (\<lambda>_. vcodec_upd (\<lambda>c. c\<lparr>vc_payload_format := SrsAvcPayloadFormatIbmf\<rparr>))"
  fix f assume f: "video_at bs p f \<and> fm_vcodec f = Some c"
  have ibmf: "fm_triple (video_with c bs 0) ?ibmf (\<lambda>_. video_ok bs 0) (nal_err ?E bs)"
    by (rule fm_bind [OF fm_ibmf [OF assms(1)] fm_vcodec_upd]) simp
  obtain r f1 where r: "avc_demux_annexb_format f = (r, f1)" by (cases "avc_demux_annexb_format f")
  from fm_tripleD [OF fm_annexb [where B = "\<lambda>f. fm_vcodec f = Some c" and E = ?E] f]
  have a: "case r of Inr x \<Rightarrow> video_ok bs 0 f1
      | Inl e \<Rightarrow> if e = ERROR_HLS_AVC_TRY_OTHERS then video_at bs p f1 \<and> fm_vcodec f1 = Some c else nal_err ?E bs e f1"
    by (simp add: r)
  show "case annexb_or_ibmf ok f of (Inr x, f') \<Rightarrow> video_ok bs 0 f' | (Inl e, f') \<Rightarrow> nal_err ?E bs e f'"
  proof (cases r)
    case (Inr x)
    with a fm_tripleD [OF assms(2), of f1] show ?thesis by (simp add: annexb_or_ibmf_def r)
  next
    case (Inl e)
    with a fm_tripleD [OF ibmf, of f1] show ?thesis by (auto simp: annexb_or_ibmf_def r video_atD(1))
  qed
qed

lemma fm_nalu_demux:
  assumes "uint (vc_nal_unit_length c) \<le> 3"
  shows "fm_triple (\<lambda>f. video_at bs p f \<and> fm_vcodec f = Some c) video_nalu_demux (\<lambda>_. video_ok bs 0)
    (nal_err (\<lambda>e. e = ASSERT_FAILED \<and> vc_nal_unit_length c = 2) bs)"
proof (rule fm_tripleI)
  fix f assume f: "video_at bs p f \<and> fm_vcodec f = Some c"
  have e: "video_nalu_demux f = (if \<not> is_avc_codec_ok c then returnP ()
        else case vc_payload_format c of
          SrsAvcPayloadFormatGuess \<Rightarrow> annexb_or_ibmf (vcodec_upd (\<lambda>c. c\<lparr>vc_payload_format := SrsAvcPayloadFormatAnnexb\<rparr>))
        | SrsAvcPayloadFormatIbmf \<Rightarrow> avc_demux_ibmf_format
        | SrsAvcPayloadFormatAnnexb \<Rightarrow> annexb_or_ibmf (returnP ())) f"
    using f by (simp add: video_nalu_demux_def deref_def bindP_def)
  note ibmf = fm_tripleD [OF fm_ibmf [OF assms], of bs f]
  note guess = fm_tripleD [OF fm_annexb_or_ibmf [OF assms fm_vcodec_upd] f]
  note annexb = fm_tripleD [OF fm_annexb_or_ibmf [OF assms fm_basic(1)] f]
  show "case video_nalu_demux f of (Inr x, f') \<Rightarrow> video_ok bs 0 f'
      | (Inl e, f') \<Rightarrow> nal_err (\<lambda>e. e = ASSERT_FAILED \<and> vc_nal_unit_length c = 2) bs e f'"
    using f ibmf guess annexb unfolding e
    by (cases "vc_payload_format c") (auto simp: video_atD(1) prog_eqs)
qed

section \<open>A message of video\<close>

definition video_nal :: "8 word \<Rightarrow> byte list \<Rightarrow> nat \<Rightarrow> format \<Rightarrow> bool" where
  "video_nal l bs p f \<longleftrightarrow> video_at bs p f \<and> (\<exists>c. fm_vcodec f = Some c \<and> vc_nal_unit_length c = l)"

text \<open>The errors of a message of video; \<open>l\<close> is the size of the lengths of its NAL units before.\<close>

definition video_error :: "8 word \<Rightarrow> byte list \<Rightarrow> srs_error \<Rightarrow> format \<Rightarrow> bool" where
  "video_error l bs e f \<longleftrightarrow> e \<in> {ERROR_HLS_DECODE_ERROR, ERROR_AVC_NALU_UEV, ERROR_KERNEL_STREAM_INIT}
     \<or> e = ASSERT_FAILED \<and> (bs ! 1 = 0 \<or> bs ! 1 = 1 \<and> l = 2)
     \<or> e = UNDEFINED_BEHAVIOUR \<and> bs ! 1 = 1 \<and> ends_empty bs f"

abbreviation avc_err :: "8 word \<Rightarrow> byte list \<Rightarrow> srs_error \<Rightarrow> format \<Rightarrow> bool" where
  "avc_err l bs e f \<equiv> video_ok bs 0 f \<and> video_error l bs e f"

lemma video_nalD: "video_nal l bs p f \<Longrightarrow> video_at bs p f" "video_nal l bs p f \<Longrightarrow> video_ok bs 0 f"
  "video_nal l bs p f \<Longrightarrow> uint l \<le> 3"
  by (auto simp: video_nal_def video_at_def video_ok_def)

lemma fm_nal_read:
  assumes "p < length bs" and "fm_triple (video_nal l bs (Suc p)) (k (bs ! p)) C P"
  shows "fm_triple (video_nal l bs p) (bindP (on_buf read_1bytes) k) C P"
proof (rule fm_tripleI)
  fix f assume f: "video_nal l bs p f"
  then have "upcoming (fm_buffer f) = bs ! p # drop (Suc p) bs"
    using assms(1) by (auto simp: video_nal_def video_at_state upcoming_def Cons_nth_drop_Suc)
  from upcoming_Cons [OF this] have "on_buf read_1bytes f = (Inr (bs ! p), f\<lparr>fm_buffer := adv 1 (fm_buffer f)\<rparr>)"
    by (simp add: on_buf_def)
  moreover have "video_nal l bs (Suc p) (f\<lparr>fm_buffer := adv 1 (fm_buffer f)\<rparr>)"
    using f assms(1) by (auto simp: video_nal_def video_at_def video_ok_def buf_on_def)
  ultimately show "case bindP (on_buf read_1bytes) k f of (Inr x, f') \<Rightarrow> C x f' | (Inl e, f') \<Rightarrow> P e f'"
    using fm_tripleD [OF assms(2)] by (simp add: bindP_def)
qed

lemma fm_nal_read3:
  assumes "p + 3 \<le> length bs" and "\<And>x. fm_triple (video_nal l bs (p + 3)) (k x) C P"
  shows "fm_triple (video_nal l bs p) (bindP (on_buf read_3bytes) k) C P"
proof (rule fm_tripleI)
  fix f assume f: "video_nal l bs p f"
  then obtain x where "read_3bytes (fm_buffer f) = Inr (x, adv 3 (fm_buffer f))"
    using assms(1) reads_there(3) [of "fm_buffer f"] by (auto simp: video_nal_def video_at_state)
  then have "on_buf read_3bytes f = (Inr x, f\<lparr>fm_buffer := adv 3 (fm_buffer f)\<rparr>)" by (simp add: on_buf_def)
  moreover have "video_nal l bs (p + 3) (f\<lparr>fm_buffer := adv 3 (fm_buffer f)\<rparr>)"
    using f assms(1) by (auto simp: video_nal_def video_at_def video_ok_def buf_on_def)
  ultimately show "case bindP (on_buf read_3bytes) k f of (Inr x, f') \<Rightarrow> C x f' | (Inl e, f') \<Rightarrow> P e f'"
    using fm_tripleD [OF assms(2)] by (simp add: bindP_def)
qed

lemma fm_nal_updates:
  "(\<And>v. frame_ok bs v \<Longrightarrow> frame_ok bs (u v)) \<Longrightarrow> fm_triple (video_nal l bs p) (video_upd u) (\<lambda>_. video_nal l bs p) P"
  "(\<And>c. vc_nal_unit_length (w c) = vc_nal_unit_length c) \<Longrightarrow> fm_triple (video_nal l bs p) (vcodec_upd w) (\<lambda>_. video_nal l bs p) P"
  "fm_triple (video_nal l bs p) note_raw (\<lambda>_. video_nal l bs p) P"
  by (auto simp: fm_triple_def video_upd_def vcodec_upd_def deref_def bindP_def prog_eqs video_nal_def video_at_def video_ok_def
      buf_on_def note_raw_def here_def)

lemma fm_nal_want: "0 \<le> n \<Longrightarrow> fm_triple (video_nal l bs p) (want n ERROR_HLS_DECODE_ERROR)
    (\<lambda>_ f. video_nal l bs p f \<and> int p + n \<le> int (length bs)) (avc_err l bs)"
  by (auto simp: fm_triple_def video_nal_def video_at_def video_ok_def buf_on_def want_def on_buf_def need_eq room_def video_error_def)

lemma fm_nal_nalu:
  assumes "bs ! 1 = 1"
  shows "fm_triple (video_nal l bs q) video_nalu_demux (\<lambda>_. video_ok bs 0) (avc_err l bs)"
proof (rule fm_tripleI)
  fix f assume f: "video_nal l bs q f"
  then obtain c where c: "fm_vcodec f = Some c" "vc_nal_unit_length c = l" and at: "video_at bs q f" by (auto simp: video_nal_def)
  from fm_tripleD [OF fm_nalu_demux, of c bs q f] c at video_nalD(3) [OF f] assms
  show "case video_nalu_demux f of (Inr x, f') \<Rightarrow> video_ok bs 0 f' | (Inl e, f') \<Rightarrow> avc_err l bs e f'"
    by (auto simp: nal_err_def video_error_def split: prod.splits sum.splits)
qed

lemma fm_avc_demux:
  assumes "0 < length bs"
  shows "fm_triple (video_nal l bs 0) (video_avc_demux t) (\<lambda>_. video_ok bs 0) (avc_err l bs)"
  unfolding video_avc_demux_def Let_def
proof (rule fm_nal_read [OF assms], rule fm_bind [OF fm_nal_updates(1)])
  let ?c = "uint (low_nibble (bs ! 0))"
  show "fm_triple (video_nal l bs (Suc 0)) (if uint (high_nibble (bs ! 0)) = 5 then returnP ()
     else bindP (checkP (?c = 7) ERROR_HLS_DECODE_ERROR) (\<lambda>_. bindP (vcodec_upd (\<lambda>c. c\<lparr>vc_id := ?c\<rparr>))
      (\<lambda>_. bindP (want 4 ERROR_HLS_DECODE_ERROR) (\<lambda>_. bindP (on_buf read_1bytes) (\<lambda>avc_packet_type.
        bindP (on_buf read_3bytes) (\<lambda>composition_time. bindP (video_upd (\<lambda>v. v\<lparr>sf_dts := t, sf_cts := composition_time,
            vf_avc_packet_type := sint avc_packet_type\<rparr>))
        (\<lambda>_. bindP note_raw (\<lambda>_. if avc_packet_type = 0 then avc_demux_sps_pps
           else if avc_packet_type = 1 then video_nalu_demux else returnP ())))))))) (\<lambda>_. video_ok bs 0) (avc_err l bs)"
    apply (rule fm_if, rule fm_basic, erule video_nalD)
    apply (rule fm_bind [where B = "\<lambda>_. video_nal l bs 1"])
    subgoal by (rule fm_basic) (auto simp: video_error_def dest: video_nalD)
    apply (rule fm_bind [OF fm_nal_updates(2)], simp)
    apply (rule fm_bind [OF fm_nal_want], simp)
    apply (rule fm_conj)
    apply (rule fm_nal_read, simp)
    apply (rule fm_nal_read3, simp)
    apply (rule fm_bind [OF fm_nal_updates(1)], simp add: frame_ok_def)
    apply (rule fm_bind [OF fm_nal_updates(3)])
    apply (rule fm_if)
    subgoal by (rule fm_mono [OF fm_sps_pps]) (auto simp: video_err_def sps_error_def video_error_def dest: video_nalD)
    apply (rule fm_if)
    subgoal by (rule fm_nal_nalu) simp
    apply (rule fm_basic, erule video_nalD)
    done
qed (simp_all add: frame_ok_def)

section \<open>A message of audio\<close>

text \<open>Here the buffer \<open>mem\<close> is the message or a sequence header that was copied from it.\<close>

definition audio_fine :: "byte list \<Rightarrow> format \<Rightarrow> bool" where
  "audio_fine bs f \<longleftrightarrow> (\<exists>c. fm_acodec f = Some c \<and> uint (ac_sample_rate c) \<le> 15) \<and> (\<exists>a. fm_audio f = Some a \<and> frame_ok bs a)"

definition audio_ok :: "byte list \<Rightarrow> byte list \<Rightarrow> nat \<Rightarrow> format \<Rightarrow> bool" where
  "audio_ok bs mem k f \<longleftrightarrow> buf_on mem k f \<and> audio_fine bs f"

definition audio_err :: "byte list \<Rightarrow> srs_error \<Rightarrow> format \<Rightarrow> bool" where
  "audio_err bs e f \<longleftrightarrow> audio_fine bs f \<and> e = ERROR_HLS_DECODE_ERROR"

lemma audio_ok_mono: "audio_ok bs mem k f \<Longrightarrow> j \<le> k \<Longrightarrow> audio_ok bs mem j f"
  by (simp add: audio_ok_def buf_on_def)

lemma fa_read: "Suc k \<le> j \<Longrightarrow> fm_triple (audio_ok bs mem j) (on_buf read_1bytes) (\<lambda>_. audio_ok bs mem k) P"
proof (rule fm_tripleI)
  fix f assume k: "Suc k \<le> j" and a: "audio_ok bs mem j f"
  then obtain x where "read_1bytes (fm_buffer f) = Inr (x, adv 1 (fm_buffer f))"
    using reads_there(1) [of "fm_buffer f"] by (auto simp: audio_ok_def audio_fine_def buf_on_def)
  with k a show "case on_buf read_1bytes f of (Inr x, f') \<Rightarrow> audio_ok bs mem k f' | (Inl e, f') \<Rightarrow> P e f'"
    by (auto simp: on_buf_def audio_ok_def audio_fine_def buf_on_def)
qed

lemma fa_updates:
  "(\<And>c. uint (ac_sample_rate c) \<le> 15 \<Longrightarrow> uint (ac_sample_rate (w c)) \<le> 15) \<Longrightarrow>
    fm_triple (audio_ok bs mem k) (acodec_upd w) (\<lambda>_. audio_ok bs mem k) P"
  "(\<And>a. frame_ok bs a \<Longrightarrow> frame_ok bs (u a)) \<Longrightarrow> fm_triple (audio_ok bs mem k) (audio_upd u) (\<lambda>_. audio_ok bs mem k) P"
  "fm_triple (audio_ok bs mem k) note_raw (\<lambda>_. audio_ok bs mem k) P"
  "fm_triple (audio_ok bs mem k) rest_bytes (\<lambda>_. audio_ok bs mem k) P"
  "fm_triple (audio_ok bs mem k) (deref fm_acodec) (\<lambda>c f. audio_ok bs mem k f \<and> uint (ac_sample_rate c) \<le> 15) P"
  by (auto simp: fm_triple_def acodec_upd_def audio_upd_def deref_def bindP_def prog_eqs audio_ok_def audio_fine_def buf_on_def note_raw_def
      here_def rest_bytes_def)

lemma fa_want: "0 \<le> n \<Longrightarrow> fm_triple (audio_ok bs mem 0) (want n ERROR_HLS_DECODE_ERROR) (\<lambda>_. audio_ok bs mem (nat n)) (audio_err bs)"
  by (auto simp: fm_triple_def want_def on_buf_def need_eq audio_ok_def audio_fine_def audio_err_def buf_on_def room_def)

lemma fa_open: "data \<noteq> [] \<Longrightarrow> fm_triple (audio_ok bs mem k) (opens (Some data)) (\<lambda>_. audio_ok bs data 0) P"
  by (auto simp: fm_triple_def opens_def on_buf_def buf_initialize_def audio_ok_def audio_fine_def buf_on_def)

lemma fa_check: "fm_triple (audio_ok bs mem k) (checkP b ERROR_HLS_DECODE_ERROR) (\<lambda>_. audio_ok bs mem k) (audio_err bs)"
  by (auto simp: fm_triple_def prog_eqs audio_err_def audio_ok_def buf_on_def)

lemma nibble_bound: "uint (or (and (push_bit 1 a) 0x0E) (and (drop_bit 7 b) 0x01) :: 8 word) \<le> 15"
proof -
  let ?x = "or (and (push_bit 1 a) 0x0E) (and (drop_bit 7 b) 0x01) :: 8 word"
  have "?x = and ?x (or 0x0E 0x01)"
    by (rule bit_word_eqI) (simp only: bit_and_iff bit_or_iff, blast)
  then show ?thesis using word_and_le1 [of ?x "or 0x0E 0x01"] by (simp add: word_le_def)
qed

lemma fa_sequence_header:
  assumes "data \<noteq> []"
  shows "fm_triple (audio_ok bs mem k) (audio_aac_sequence_header_demux data) (\<lambda>_. audio_ok bs data 0) (audio_err bs)"
  unfolding audio_aac_sequence_header_demux_def
  apply (rule fm_bind [OF fa_open [OF assms]])
  apply (rule fm_bind [OF fa_want], simp)
  apply (rule fm_bind [OF fa_read [where k = 1]], simp)
  apply (rule fm_bind [OF fa_read [where k = 0]], simp)
  apply (rule fm_bind [OF fa_updates(1)])
  subgoal for u1 u2 a b c using nibble_bound [of a b] by simp
  apply (rule fa_check)
  done

lemma fa_reset: "fm_triple (audio_ok bs mem k) reset_sound_rate (\<lambda>_. audio_ok bs mem k) (audio_err bs)"
  unfolding reset_sound_rate_def
  apply (rule fm_bind [OF fa_updates(5)])
  apply (rule fm_conj)
  apply (rule fm_if, rule fm_basic, assumption)
  apply (rule fm_bind [where B = "\<lambda>_. audio_ok bs mem k"])
  subgoal for c by (rule fm_basic) (simp_all add: srs_aac_srates_def nat_less_iff flip: nat_uint_eq)
  apply (rule fa_updates(1), simp)
  done

lemma fa_sample:
  "fm_triple (audio_ok bs bs 0) (bindP here (\<lambda>(p, n). audio_sample p n)) (\<lambda>_. audio_ok bs bs 0) (audio_err bs)"
proof (rule fm_tripleI)
  fix f assume f: "audio_ok bs bs 0 f"
  then obtain a where a: "fm_audio f = Some a" "frame_ok bs a" by (auto simp: audio_ok_def audio_fine_def)
  let ?s = "\<lparr>sa_bytes = sb_pos (fm_buffer f), sa_size = int (length bs) - int (sb_pos (fm_buffer f))\<rparr>"
  have run: "bindP here (\<lambda>(p, n). audio_sample p n) f = (if length (sf_samples a) \<ge> SrsMaxNbSamples
      then (Inl ERROR_HLS_DECODE_ERROR, f) else (Inr (), f\<lparr>fm_audio := Some (a\<lparr>sf_samples := sf_samples a @ [?s]\<rparr>)\<rparr>))"
    using f by (simp add: here_def bindP_def prog_eqs audio_sample_def deref_def pure_fm_def frame_add_sample_def a(1)
        audio_ok_def audio_fine_def buf_on_def buf_size_def buf_tell_def)
  have s: "sample_in bs ?s" using f by (auto simp: sample_in_def audio_ok_def audio_fine_def buf_on_def)
  show "case bindP here (\<lambda>(p, n). audio_sample p n) f of (Inr x, f') \<Rightarrow> audio_ok bs bs 0 f' | (Inl e, f') \<Rightarrow> audio_err bs e f'"
    using f a(2) s unfolding run by (auto simp: audio_ok_def audio_fine_def audio_err_def frame_ok_def buf_on_def)
qed

lemma high_nibble_unsigned: "and (drop_bit 4 b) 0x0F = high_nibble b"
proof -
  have m: "(0x0F :: 8 word) = mask 4" by (simp add: mask_eq_exp_minus_1)
  show ?thesis unfolding high_nibble_def m
    by (rule bit_word_eqI) (auto simp: bit_and_iff bit_drop_bit_eq bit_signed_drop_bit_iff bit_mask_iff)
qed

lemma fa_tag:
  assumes "bs \<noteq> []"
  shows "fm_triple (\<lambda>f. audio_ok bs bs 0 f \<and> sb_pos (fm_buffer f) = 0) (audio_tag t)
    (\<lambda>codec f. (audio_ok bs bs 0 f \<and> sb_pos (fm_buffer f) = 1) \<and> codec = uint (high_nibble (bs ! 0))) P"
proof (rule fm_tripleI)
  fix f assume f: "audio_ok bs bs 0 f \<and> sb_pos (fm_buffer f) = 0"
  then obtain a c where ac: "fm_audio f = Some a" "frame_ok bs a" "fm_acodec f = Some c" "uint (ac_sample_rate c) \<le> 15"
    by (auto simp: audio_ok_def audio_fine_def)
  have "upcoming (fm_buffer f) = bs ! 0 # drop 1 bs"
    using f assms by (cases bs) (auto simp: audio_ok_def buf_on_def upcoming_def)
  from upcoming_Cons [OF this] f ac assms
  show "case audio_tag t f of (Inr x, f') \<Rightarrow> (audio_ok bs bs 0 f' \<and> sb_pos (fm_buffer f') = 1) \<and> x = uint (high_nibble (bs ! 0))
      | (Inl e, f') \<Rightarrow> P e f'"
    by (auto simp: audio_tag_def audio_upd_def acodec_upd_def deref_def bindP_def prog_eqs on_buf_def audio_ok_def audio_fine_def buf_on_def
        frame_ok_def Suc_le_eq)
qed

lemma fa_done: "fm_triple A m (\<lambda>_. audio_ok bs mem k) (audio_err bs) \<Longrightarrow> fm_triple A m (\<lambda>_. audio_fine bs) (audio_err bs)"
  by (erule fm_mono) (simp_all add: audio_ok_def)

lemma fa_aac:
  assumes "bs \<noteq> []" and "uint (high_nibble (bs ! 0)) \<noteq> 2"
  shows "fm_triple (\<lambda>f. audio_ok bs bs 0 f \<and> sb_pos (fm_buffer f) = 0) (audio_aac_demux t) (\<lambda>_. audio_fine bs) (audio_err bs)"
  unfolding audio_aac_demux_def
  apply (rule fm_bind [OF fa_tag [OF assms(1)]])
  apply (rule fm_conj)
  apply (rule fm_if, use assms(2) in simp)
  apply (rule fm_pre [where A = "audio_ok bs bs 0"], simp)
  apply (rule fm_bind [OF fa_check])
  apply (rule fm_bind [OF fa_want], simp)
  apply (rule fm_bind [OF fa_read [where k = 0]], simp)
  apply (rule fm_bind [OF fa_updates(2)], simp add: frame_ok_def)
  apply (rule fm_bind [OF fa_updates(3)])
  apply (rule fm_if)
  subgoal
    apply (rule fm_bind [OF fa_updates(4)])
    subgoal for extra
      apply (cases "extra = []")
      subgoal by (rule fm_bind [where B = "\<lambda>_. audio_ok bs bs 0"]) (auto intro: fm_basic fa_done [OF fa_reset])
      apply (simp only: not_False_eq_True if_True)
      apply (rule fm_bind [OF fm_bind [OF fa_updates(1) fa_sequence_header]], simp, assumption)
      by (rule fa_done [OF fa_reset])
    done
  apply (rule fm_if)
  subgoal
    apply (rule fm_bind [OF fa_updates(5)], rule fm_conj)
    apply (rule fm_if)
    subgoal by (rule fm_basic) (simp add: audio_ok_def)
    using fm_bind [OF fa_sample fa_done [OF fa_reset]] by (simp only: bindP_assoc case_prod_unfold)
  by (rule fa_done [OF fa_reset])

lemma fa_mp3_rest:
  "fm_triple (\<lambda>f. audio_ok bs bs 0 f \<and> sb_pos (fm_buffer f) = 1) (bindP note_raw (\<lambda>_. bindP (skips 1)
     (\<lambda>_. bindP (getP (\<lambda>f. buf_empty (fm_buffer f)))
     (\<lambda>empty. if empty then returnP () else bindP here (\<lambda>(p, n). audio_sample p n)))))
    (\<lambda>_. audio_fine bs) (audio_err bs)"
    (is "fm_triple ?A ?m _ ?P")
proof (rule fm_tripleI)
  fix f assume f: "?A f"
  then have pos: "sb_pos (fm_buffer f) = 1" "sb_bytes (fm_buffer f) = bs" "\<not> sb_null (fm_buffer f)" "1 \<le> length bs"
    by (auto simp: audio_ok_def buf_on_def)
  let ?g = "f\<lparr>fm_raw := Some 1, fm_nb_raw := int (length bs) - 1\<rparr>"
  let ?f = "?g\<lparr>fm_buffer := (fm_buffer f)\<lparr>sb_pos := 2\<rparr>\<rparr>"
  have run: "?m f = (if length bs \<le> 2 then (Inr (), ?f) else bindP here (\<lambda>(p, n). audio_sample p n) ?f)"
    using pos by (simp add: bindP_def prog_eqs note_raw_def here_def skips_def on_buf_def buf_skip_def buf_empty_def
        buf_size_def buf_tell_def numeral_2_eq_2)
  have "length bs > 2 \<Longrightarrow> audio_ok bs bs 0 ?f" using f by (simp add: audio_ok_def audio_fine_def buf_on_def)
  moreover have "audio_fine bs ?f" using f by (simp_all add: audio_ok_def audio_fine_def)
  ultimately show "case ?m f of (Inr x, f') \<Rightarrow> audio_fine bs f' | (Inl e, f') \<Rightarrow> ?P e f'"
    using fm_tripleD [OF fa_done [OF fa_sample], of bs ?f] unfolding run
    by (auto split: sum.splits prod.splits)
qed

lemma fa_mp3:
  assumes "bs \<noteq> []" and "uint (high_nibble (bs ! 0)) = 2"
  shows "fm_triple (\<lambda>f. audio_ok bs bs 0 f \<and> sb_pos (fm_buffer f) = 0) (audio_mp3_demux t) (\<lambda>_. audio_fine bs) (audio_err bs)"
  unfolding audio_mp3_demux_def
  apply (rule fm_bind [OF fa_tag [OF assms(1)]])
  apply (rule fm_conj)
  apply (rule fm_bind [where B = "\<lambda>_ f. audio_ok bs bs 0 f \<and> sb_pos (fm_buffer f) = 1"])
  subgoal by (rule fm_basic) (simp_all add: assms(2))
  by (rule fa_mp3_rest)

section \<open>The entry points\<close>

lemma fm_open_read:
  assumes "bs \<noteq> []" and "fm_triple (\<lambda>f. A f \<and> \<not> sb_null (fm_buffer f) \<and> sb_bytes (fm_buffer f) = bs
    \<and> sb_pos (fm_buffer f) = 1) (k (bs ! 0)) Q P"
    and "\<And>f c. A f \<Longrightarrow> A (f\<lparr>fm_buffer := c\<rparr>)"
  shows "fm_triple A (bindP (opens (Some bs)) (\<lambda>_. bindP (want 1 e) (\<lambda>_. bindP (on_buf read_1bytes) k))) Q P"
proof (rule fm_tripleI)
  fix f assume f: "A f"
  let ?s = "\<lparr>sb_null = False, sb_bytes = bs, sb_pos = 0\<rparr>"
  have i: "buf_initialize (Some bs) = Inr ?s" using assms(1) by (simp add: buf_initialize_def)
  have "upcoming ?s = bs ! 0 # drop 1 bs" using assms(1) by (cases bs) (simp_all add: upcoming_def)
  from upcoming_Cons [OF this]
  have run: "bindP (opens (Some bs)) (\<lambda>_. bindP (want 1 e) (\<lambda>_. bindP (on_buf read_1bytes) k)) f
    = k (bs ! 0) (f\<lparr>fm_buffer := adv 1 ?s\<rparr>)"
    using assms(1) by (simp add: bindP_def opens_def want_def on_buf_def need_eq room_def i Suc_le_eq)
  show "case bindP (opens (Some bs)) (\<lambda>_. bindP (want 1 e) (\<lambda>_. bindP (on_buf read_1bytes) k)) f of
      (Inr x, f') \<Rightarrow> Q x f' | (Inl e, f') \<Rightarrow> P e f'"
    unfolding run by (rule fm_tripleD [OF assms(2)]) (simp add: assms(3) f)
qed

text \<open>The formats that messages lead to.\<close>

definition format_ok :: "format \<Rightarrow> bool" where
  "format_ok f \<longleftrightarrow> (\<forall>c. fm_vcodec f = Some c \<longrightarrow> uint (vc_nal_unit_length c) \<le> 3)
     \<and> (\<forall>c. fm_acodec f = Some c \<longrightarrow> uint (ac_sample_rate c) \<le> 15)"

section \<open>What video leaves of audio, and audio of video\<close>

definition kept :: "(format \<Rightarrow> 'c) \<Rightarrow> 'a fm_prog \<Rightarrow> bool" where
  "kept g m \<longleftrightarrow> (\<forall>f. g (snd (m f)) = g f)"

abbreviation audio_part :: "format \<Rightarrow> audio_config option \<times> audio_frame option" where
  "audio_part f \<equiv> (fm_acodec f, fm_audio f)"

abbreviation video_part :: "format \<Rightarrow> video_config option \<times> video_frame option" where
  "video_part f \<equiv> (fm_vcodec f, fm_video f)"

named_theorems kept_rules

lemma kept_bind [kept_rules]: "kept g m \<Longrightarrow> (\<And>x. kept g (k x)) \<Longrightarrow> kept g (bindP m k)"
  by (simp add: kept_def bindP_def split: prod.split sum.split) (metis snd_conv)

lemma kept_basic [kept_rules]:
  "kept g (returnP x)" "kept g (raiseP e)" "kept g (checkP b e)" "kept g (getP h)" "kept g (deref d)" "kept g (pure_fm r)" "kept g here"
  "kept g rest_bytes"
  by (auto simp: kept_def prog_eqs here_def deref_def pure_fm_def rest_bytes_def split: sum.split option.split)

lemma kept_steps [kept_rules]:
  "kept audio_part (on_buf r)" "kept audio_part (want n e)" "kept audio_part (skips n)" "kept audio_part (opens b)"
  "kept audio_part note_raw" "kept audio_part (vcodec_upd u)" "kept audio_part (video_upd v)" "kept audio_part new_video"
  "kept audio_part (video_sample p n)"
  "kept video_part (on_buf r)" "kept video_part (want n e)" "kept video_part (skips n)" "kept video_part (opens b)"
  "kept video_part note_raw" "kept video_part (acodec_upd u')" "kept video_part (audio_upd v')" "kept video_part new_audio"
  "kept video_part (audio_sample p n)"
  by (auto simp: kept_def want_def skips_def opens_def on_buf_def note_raw_def here_def vcodec_upd_def video_upd_def acodec_upd_def
      audio_upd_def new_video_def new_audio_def deref_def bindP_def prog_eqs video_sample_def audio_sample_def pure_fm_def
      split: option.splits prod.splits sum.splits)

lemma kept_cases [kept_rules]:
  "kept g m \<Longrightarrow> kept g n \<Longrightarrow> kept g (if b then m else n)"
  "kept g m \<Longrightarrow> (\<And>x. kept g (k x)) \<Longrightarrow> kept g (case mo of None \<Rightarrow> m | Some x \<Rightarrow> k x)"
  "(\<And>x y. kept g (q x y)) \<Longrightarrow> kept g (case p of (x, y) \<Rightarrow> q x y)"
  by (auto split: option.split prod.split)

lemma kept_annexb_loop: "kept audio_part (annexb_loop n)"
  by (induction n) (simp_all only: annexb_loop.simps, auto intro!: kept_rules)

lemma kept_nalu_length [kept_rules]: "kept audio_part (read_nalu_length l)"
  unfolding read_nalu_length_def by (intro kept_rules)

lemma kept_ibmf_loop: "kept audio_part (ibmf_loop n len i)"
  by (induction n arbitrary: i) (simp_all only: ibmf_loop.simps Let_def, auto intro!: kept_rules)

lemma kept_formats [kept_rules]: "kept audio_part avc_demux_annexb_format" "kept audio_part avc_demux_ibmf_format"
  unfolding avc_demux_annexb_format_def avc_demux_ibmf_format_def
  by (intro kept_rules kept_annexb_loop kept_ibmf_loop)+

lemma kept_annexb_or_ibmf [kept_rules]:
  assumes "kept audio_part ok" shows "kept audio_part (annexb_or_ibmf ok)"
proof -
  have "kept audio_part (bindP avc_demux_ibmf_format (\<lambda>_. vcodec_upd (\<lambda>c. c\<lparr>vc_payload_format := SrsAvcPayloadFormatIbmf\<rparr>)))"
    by (intro kept_rules)
  with assms kept_formats(1) show ?thesis
    unfolding kept_def annexb_or_ibmf_def by (auto split: prod.split sum.split) (metis prod.inject snd_conv)+
qed

lemma kept_nalu_demux [kept_rules]: "kept audio_part video_nalu_demux"
  unfolding video_nalu_demux_def by (intro kept_rules) (auto split: avc_payload_format.split intro!: kept_rules)

lemma kept_sps_pps [kept_rules]: "kept audio_part avc_demux_sps_pps"
  unfolding avc_demux_sps_pps_def one_parameter_set_def avc_demux_sps_def avc_demux_sps_rbsp_def
  by (intro kept_rules)

lemma kept_on_video: "kept audio_part (format_on_video t data)"
  unfolding format_on_video_def video_avc_demux_def rewind_def Let_def by (intro kept_rules)

lemma kept_on_audio: "kept video_part (format_on_audio t data)"
  unfolding format_on_audio_def audio_aac_demux_def audio_mp3_demux_def audio_tag_def audio_aac_sequence_header_demux_def
    reset_sound_rate_def rewind_def Let_def case_prod_unfold
  by (intro kept_rules)

section \<open>The entry points on any message\<close>

definition nal_length_size :: "format \<Rightarrow> 8 word" where
  "nal_length_size f = (case fm_vcodec f of None \<Rightarrow> 0 | Some c \<Rightarrow> vc_nal_unit_length c)"

lemma fm_rewind:
  assumes "\<And>f. A f \<Longrightarrow> \<not> sb_null (fm_buffer f)" and "\<And>f. A f \<Longrightarrow> B (f\<lparr>fm_buffer := (fm_buffer f)\<lparr>sb_pos := 0\<rparr>\<rparr>)"
  shows "fm_triple A rewind (\<lambda>_. B) P"
  using assms by (auto simp: fm_triple_def rewind_def skips_def on_buf_def buf_skip_def buf_tell_def bindP_def prog_eqs check_def)

lemma frame_ok_initialize [simp]: "frame_ok bs (frame_initialize c v)"
  by (simp add: frame_ok_def frame_initialize_def)

lemma fm_new_video: "fm_triple (\<lambda>f. format_ok f \<and> nal_length_size f = l \<and> B (fm_buffer f))
    (bindP new_video (\<lambda>_. video_upd (frame_initialize VideoCodec)))
    (\<lambda>_ f. (\<exists>c. fm_vcodec f = Some c \<and> vc_nal_unit_length c = l \<and> uint l \<le> 3) \<and> (\<exists>v. fm_video f = Some v \<and> frame_ok bs v) \<and> B (fm_buffer f)) P"
  by (auto simp: fm_triple_def new_video_def video_upd_def deref_def bindP_def prog_eqs format_ok_def nal_length_size_def
      video_config_new_def split: option.splits)

lemma fm_on_video:
  assumes "bs \<noteq> []"
  shows "fm_triple (\<lambda>f. format_ok f \<and> nal_length_size f = l) (format_on_video t (Some bs))
    (\<lambda>_ f. (low_nibble (bs ! 0) = SrsVideoCodecIdAVC \<and> video_ok bs 0 f) \<or> (low_nibble (bs ! 0) \<noteq> SrsVideoCodecIdAVC \<and> format_ok f))
    (\<lambda>e f. avc_err l bs e f)"
proof -
  let ?on = "\<lambda>s. \<not> sb_null s \<and> sb_bytes s = bs \<and> sb_pos s = 1"
  have go: "fm_triple (\<lambda>f. format_ok f \<and> nal_length_size f = l \<and> ?on (fm_buffer f))
      (bindP (bindP new_video (\<lambda>_. video_upd (frame_initialize VideoCodec))) (\<lambda>_. bindP rewind (\<lambda>_. video_avc_demux t)))
      (\<lambda>_. video_ok bs 0) (avc_err l bs)"
    apply (rule fm_bind [OF fm_new_video [where bs = bs]])
    apply (rule fm_bind [OF fm_rewind [where B = "video_nal l bs 0"]])
    subgoal by simp
    subgoal by (auto simp: video_nal_def video_at_def video_ok_def buf_on_def)
    by (rule fm_avc_demux) (use assms in simp)
  have "fm_triple (\<lambda>f. format_ok f \<and> nal_length_size f = l) (bindP (opens (Some bs)) (\<lambda>_. bindP (want 1 ERROR_HLS_DECODE_ERROR)
        (\<lambda>_. bindP (on_buf read_1bytes) (\<lambda>b. if low_nibble b \<noteq> SrsVideoCodecIdAVC then returnP ()
           else bindP new_video (\<lambda>_. bindP (video_upd (frame_initialize VideoCodec))
             (\<lambda>_. bindP rewind (\<lambda>_. video_avc_demux t)))))))
    (\<lambda>_ f. (low_nibble (bs ! 0) = SrsVideoCodecIdAVC \<and> video_ok bs 0 f) \<or> (low_nibble (bs ! 0) \<noteq> SrsVideoCodecIdAVC \<and> format_ok f))
    (\<lambda>e f. avc_err l bs e f)"
    apply (rule fm_open_read [OF assms])
    subgoal
      apply (rule fm_if)
      subgoal by (rule fm_basic) simp
      by (rule fm_mono [OF go [unfolded bindP_assoc]]) auto
    by (simp add: format_ok_def nal_length_size_def)
  then show ?thesis using assms by (simp add: format_on_video_def)
qed

lemma fm_new_audio: "fm_triple (\<lambda>f. format_ok f \<and> B (fm_buffer f))
    (bindP new_audio (\<lambda>_. audio_upd (frame_initialize AudioCodec))) (\<lambda>_ f. audio_fine bs f \<and> B (fm_buffer f)) P"
  by (auto simp: fm_triple_def new_audio_def audio_upd_def deref_def bindP_def prog_eqs format_ok_def audio_fine_def
      audio_config_new_def split: option.splits)

definition audio_codec_id :: "byte list \<Rightarrow> int" where
  "audio_codec_id bs = uint (high_nibble (bs ! 0))"

lemma fm_on_audio:
  assumes "bs \<noteq> []"
  shows "fm_triple format_ok (format_on_audio t (Some bs))
    (\<lambda>_ f. if audio_codec_id bs \<in> {2, 10} then audio_fine bs f else format_ok f) (audio_err bs)"
proof -
  let ?on = "\<lambda>s. \<not> sb_null s \<and> sb_bytes s = bs \<and> sb_pos s = 1"
  let ?demux = "if audio_codec_id bs = 2 then audio_mp3_demux t else audio_aac_demux t"
  have go: "fm_triple (\<lambda>f. format_ok f \<and> ?on (fm_buffer f))
      (bindP (bindP new_audio (\<lambda>_. audio_upd (frame_initialize AudioCodec))) (\<lambda>_. bindP rewind (\<lambda>_. ?demux)))
      (\<lambda>_. audio_fine bs) (audio_err bs)"
    apply (rule fm_bind [OF fm_new_audio [where bs = bs]])
    apply (rule fm_bind [OF fm_rewind [where B = "\<lambda>f. audio_ok bs bs 0 f \<and> sb_pos (fm_buffer f) = 0"]])
    subgoal by simp
    subgoal by (auto simp: audio_ok_def audio_fine_def buf_on_def)
    apply (rule fm_if)
    subgoal by (rule fa_mp3 [OF assms]) (simp add: audio_codec_id_def)
    subgoal by (rule fa_aac [OF assms]) (simp add: audio_codec_id_def)
    done
  have "fm_triple format_ok (bindP (opens (Some bs)) (\<lambda>_. bindP (want 1 ERROR_HLS_DECODE_ERROR)
        (\<lambda>_. bindP (on_buf read_1bytes)
        (\<lambda>v. let codec = uint (and (drop_bit 4 v) 0x0F) in
           if codec \<noteq> 2 \<and> codec \<noteq> 10 then returnP ()
           else bindP new_audio (\<lambda>_. bindP (audio_upd (frame_initialize AudioCodec))
             (\<lambda>_. bindP rewind
             (\<lambda>_. if codec = 2 then audio_mp3_demux t else audio_aac_demux t)))))))
    (\<lambda>_ f. if audio_codec_id bs \<in> {2, 10} then audio_fine bs f else format_ok f) (audio_err bs)"
    apply (rule fm_open_read [OF assms])
    subgoal
      unfolding Let_def high_nibble_unsigned audio_codec_id_def [symmetric]
      apply (rule fm_if)
      subgoal by (rule fm_basic) simp
      by (rule fm_mono [OF go [unfolded bindP_assoc]]) auto
    by (simp add: format_ok_def)
  then show ?thesis using assms by (simp add: format_on_audio_def)
qed

text \<open>The formats that messages of audio and video, with any bytes and outcomes, lead to.\<close>

inductive format_reach :: "format \<Rightarrow> bool" where
  reach_new: "format_reach format_new"
| reach_video: "format_reach f \<Longrightarrow> format_reach (snd (format_on_video t data f))"
| reach_audio: "format_reach f \<Longrightarrow> format_reach (snd (format_on_audio t data f))"

lemma format_ok_parts: "format_ok f \<longleftrightarrow> (\<forall>c. fst (video_part f) = Some c \<longrightarrow> uint (vc_nal_unit_length c) \<le> 3)
     \<and> (\<forall>c. fst (audio_part f) = Some c \<longrightarrow> uint (ac_sample_rate c) \<le> 15)"
  by (simp add: format_ok_def)

lemma no_message: "bs = None \<or> bs = Some [] \<Longrightarrow> format_on_video t bs f = (Inr (), f)"
  "bs = None \<or> bs = Some [] \<Longrightarrow> format_on_audio t bs f = (Inr (), f)"
  by (auto simp: format_on_video_def format_on_audio_def prog_eqs)

lemma format_ok_video: assumes "format_ok f" shows "format_ok (snd (format_on_video t data f))"
proof (cases "data = None \<or> data = Some []")
  case True then show ?thesis using assms by (simp add: no_message)
next
  case False
  then obtain bs where d: "data = Some bs" "bs \<noteq> []" by auto
  obtain r f' where r: "format_on_video t data f = (r, f')" by (cases "format_on_video t data f")
  from kept_on_video [of t data] r have k: "audio_part f' = audio_part f" unfolding kept_def by (metis snd_conv)
  from fm_tripleD [OF fm_on_video [OF d(2), of "nal_length_size f" t], of f] assms
  have "video_ok bs 0 f' \<or> format_ok f'" unfolding d(1) [symmetric] r by (auto split: sum.splits)
  then show ?thesis using assms k by (auto simp: r format_ok_def video_ok_def)
qed

lemma format_ok_audio: assumes "format_ok f" shows "format_ok (snd (format_on_audio t data f))"
proof (cases "data = None \<or> data = Some []")
  case True then show ?thesis using assms by (simp add: no_message)
next
  case False
  then obtain bs where d: "data = Some bs" "bs \<noteq> []" by auto
  obtain r f' where r: "format_on_audio t data f = (r, f')" by (cases "format_on_audio t data f")
  from kept_on_audio [of t data] r have k: "video_part f' = video_part f" unfolding kept_def by (metis snd_conv)
  from fm_tripleD [OF fm_on_audio [OF d(2), of t] assms]
  have "audio_fine bs f' \<or> format_ok f'" unfolding d(1) [symmetric] r by (auto simp: audio_err_def split: sum.splits if_splits)
  then show ?thesis using assms k by (auto simp: r format_ok_def audio_fine_def)
qed

lemma reach_format_ok: "format_reach f \<Longrightarrow> format_ok f"
  by (induction rule: format_reach.induct) (simp_all add: format_ok_video format_ok_audio, simp add: format_ok_def format_new_def)

text \<open>C17: Of any message, in any state that messages lead to, the demuxer keeps its samples within the message
  and at most 256 of them; audio fails only with a decode error, video also with the errors of the
  Exp-Golomb reader. An assertion of video fails only for a sequence header or for lengths of three
  bytes, which the check of the header rejects too late; undefined is only the first byte of an empty NAL unit at the end.\<close>

theorem format_safe:
  assumes "format_reach f" and "bs \<noteq> []"
  shows "(case format_on_video t (Some bs) f of (r, f') \<Rightarrow> (\<forall>e. r = Inl e \<longrightarrow> video_error (nal_length_size f) bs e f')
       \<and> (low_nibble (bs ! 0) = SrsVideoCodecIdAVC \<longrightarrow> (\<exists>v. fm_video f' = Some v \<and> frame_ok bs v)))
    \<and> (case format_on_audio t (Some bs) f of (r, f') \<Rightarrow> (\<forall>e. r = Inl e \<longrightarrow> e = ERROR_HLS_DECODE_ERROR)
       \<and> (audio_codec_id bs \<in> {2, 10} \<longrightarrow> (\<exists>a. fm_audio f' = Some a \<and> frame_ok bs a)))"
proof
  have ok: "format_ok f" by (rule reach_format_ok [OF assms(1)])
  from fm_tripleD [OF fm_on_video [OF assms(2)], of f "nal_length_size f" t] ok
  show "case format_on_video t (Some bs) f of (r, f') \<Rightarrow> (\<forall>e. r = Inl e \<longrightarrow> video_error (nal_length_size f) bs e f')
       \<and> (low_nibble (bs ! 0) = SrsVideoCodecIdAVC \<longrightarrow> (\<exists>v. fm_video f' = Some v \<and> frame_ok bs v))"
    by (auto simp: video_ok_def split: prod.splits sum.splits)
  from fm_tripleD [OF fm_on_audio [OF assms(2)] ok, of t]
  show "case format_on_audio t (Some bs) f of (r, f') \<Rightarrow> (\<forall>e. r = Inl e \<longrightarrow> e = ERROR_HLS_DECODE_ERROR)
       \<and> (audio_codec_id bs \<in> {2, 10} \<longrightarrow> (\<exists>a. fm_audio f' = Some a \<and> frame_ok bs a))"
    by (auto simp: audio_fine_def audio_err_def split: prod.splits sum.splits)
qed

text \<open>The message of AAC before its sequence header, and a frame of H.264 cut off after its first byte.\<close>

lemma format_safe_witness:
  "\<exists>f' a. format_reach (snd (format_on_video 0 (Some [0x17]) format_new))
    \<and> format_on_audio 40 (Some [0xAF, 0, 0x12, 0x10]) (snd (format_on_video 0 (Some [0x17]) format_new)) = (Inr (), f')
    \<and> fm_audio f' = Some a \<and> frame_ok [0xAF, 0, 0x12, 0x10] a"
proof -
  let ?f = "snd (format_on_video 0 (Some [0x17]) format_new)"
  let ?bs = "[0xAF, 0, 0x12, 0x10]"
  have r: "format_reach ?f" by (intro format_reach.intros)
  have run: "fst (format_on_audio 40 (Some ?bs) ?f) = Inr ()" by code_simp
  obtain f' where f': "format_on_audio 40 (Some ?bs) ?f = (Inr (), f')" using run by (cases "format_on_audio 40 (Some ?bs) ?f") simp
  have "audio_codec_id ?bs \<in> {2, 10}" by code_simp
  with format_safe [OF r, of ?bs 40] f' r show ?thesis by auto
qed

end
