(* ===== verification/Srs_Source_Format.thy ===== *)
theory Srs_Source_Format
  imports Srs_Source_Safety Srs_Format_Safety
begin

text \<open>
  \<^verbatim>\<open>SrsRtmpFormat\<close> (\<^verbatim>\<open>src/src/protocol/srs_protocol_format.cpp\<close>): the demuxer on shared messages. The
  header cache of a source has two, which parse the sequence headers. With them the rest of the
  server is what a source calls beside its own parts, and the source is safe up to the errors
  of the rest.
\<close>

section \<open>The format of a message\<close>

text \<open>The payload and the size of a message; a cell that was never written must not be read.\<close>

definition rtmp_format_data :: "shared_msg \<Rightarrow> byte list option res" where
  "rtmp_format_data msg = bindR (payload_view (sm_payload msg))
     (\<lambda>data. case data of
        None \<Rightarrow> Inr None
      | Some bs \<Rightarrow> if sm_size msg \<le> int (length bs) then Inr (Some (take (nat (sm_size msg)) bs)) else Inl UNDEFINED_BEHAVIOUR)"

text \<open>A format is reached from its constructor by the messages that it was given.\<close>

typedef rtmp_format = "{f. format_reach f}"
  using reach_new by blast

setup_lifting type_definition_rtmp_format

lift_definition rtmp_format_new :: rtmp_format is format_new
  by (rule reach_new)

lift_definition video_result :: "64 word \<Rightarrow> byte list option \<Rightarrow> rtmp_format \<Rightarrow> unit res"
  is "\<lambda>t data f. fst (format_on_video t data f)" .

lift_definition video_next :: "64 word \<Rightarrow> byte list option \<Rightarrow> rtmp_format \<Rightarrow> rtmp_format"
  is "\<lambda>t data f. snd (format_on_video t data f)"
  by (rule reach_video)

lift_definition audio_result :: "64 word \<Rightarrow> byte list option \<Rightarrow> rtmp_format \<Rightarrow> unit res"
  is "\<lambda>t data f. fst (format_on_audio t data f)" .

lift_definition audio_next :: "64 word \<Rightarrow> byte list option \<Rightarrow> rtmp_format \<Rightarrow> rtmp_format"
  is "\<lambda>t data f. snd (format_on_audio t data f)"
  by (rule reach_audio)

definition rtmp_format_on_video :: "shared_msg \<Rightarrow> (rtmp_format, unit) prog" where
  "rtmp_format_on_video msg = (\<lambda>f. case rtmp_format_data msg of
     Inl e \<Rightarrow> (Inl e, f)
   | Inr data \<Rightarrow> (video_result (sm_timestamp msg) data f, video_next (sm_timestamp msg) data f))"

definition rtmp_format_on_audio :: "shared_msg \<Rightarrow> (rtmp_format, unit) prog" where
  "rtmp_format_on_audio msg = (\<lambda>f. case rtmp_format_data msg of
     Inl e \<Rightarrow> (Inl e, f)
   | Inr data \<Rightarrow> (audio_result (sm_timestamp msg) data f, audio_next (sm_timestamp msg) data f))"

definition rtmp_format_on_metadata :: "on_metadata \<Rightarrow> (rtmp_format, unit) prog" where
  "rtmp_format_on_metadata meta = (\<lambda>f. (Inr (), f))"

text \<open>The two formats of the header cache, \<^verbatim>\<open>vformat\<close> and \<^verbatim>\<open>aformat\<close>, beside the rest of the server.\<close>

definition with_formats :: "'w server \<Rightarrow> ('w \<times> rtmp_format \<times> rtmp_format) server" where
  "with_formats rest c = (\<lambda>((w, v, a), h). case c of
     VFormat_on_video m \<Rightarrow> (case rtmp_format_on_video m v of (r, v') \<Rightarrow> (r, ((w, v', a), h)))
   | AFormat_on_audio m \<Rightarrow> (case rtmp_format_on_audio m a of (r, a') \<Rightarrow> (r, ((w, v, a'), h)))
   | _ \<Rightarrow> (case rest c (w, h) of (r, (w', h')) \<Rightarrow> (r, ((w', v, a), h'))))"

section \<open>What the formats report\<close>







section \<open>A hub that demuxes\<close>

text \<open>
  A hub as the origin server has one: it demuxes every frame with a format of its own, and keeps a
  copy of every audio until the stream ends. What the demuxer reports is what the hub reports.
\<close>

definition demuxing_hub :: "(shared_msg list \<times> rtmp_format) server" where
  "demuxing_hub c = (\<lambda>((w, f), h). case c of
     Hub_on_audio m \<Rightarrow> (case rtmp_format_on_audio m f of
         (Inl e, f') \<Rightarrow> (Inl e, ((w, f'), h))
       | (Inr _, f') \<Rightarrow> (case sm_copy m h of (Inl e, h') \<Rightarrow> (Inl e, ((w, f'), h')) | (Inr m', h') \<Rightarrow> (Inr (), ((m' # w, f'), h'))))
   | Hub_on_video m sh \<Rightarrow> (case rtmp_format_on_video m f of (r, f') \<Rightarrow> (r, ((w, f'), h)))
   | Hub_on_unpublish \<Rightarrow> (case destroy_all w h of (r, h') \<Rightarrow> (r, (([], f), h')))
   | _ \<Rightarrow> (Inr (), ((w, f), h)))"




section \<open>Property\<close>


text \<open>A server that demuxes, and its configuration.\<close>

definition demux_env :: "((shared_msg list \<times> rtmp_format) \<times> rtmp_format \<times> rtmp_format) env" where
  "demux_env = \<lparr>ev_call = with_formats demuxing_hub, ev_now = \<lambda>_. 0, ev_edge_can_publish = \<lambda>_. True, ev_get_id = \<lambda>_. 7\<rparr>"

definition plain_cf :: vhost_config where
  "plain_cf = \<lparr>cf_atc = False, cf_atc_auto = False, cf_reduce_sequence_header = False, cf_queue_length_ms = 30000,
     cf_time_jitter = JitterFULL, cf_mix_correct = False, cf_gop_cache = True, cf_is_edge = False\<rparr>"


text \<open>The fault is real: the parameter set of this sequence header ends within a number.\<close>

definition cut_header :: "byte list" where
  "cut_header = [0x17, 0, 0, 0, 0, 1, 0x64, 0, 0x1F, 0xFF, 0xE1, 0, 5, 0x67, 0x64, 0, 0x1F, 0x01, 1, 0, 1, 0x68]"

lemma publisher_fails_assertion:
  "fst (source_life demux_env plain_cf (\<lambda>_. 0) ''v'' [PublishStart, GotVideo (frame_msg (9, 0, cut_header))]
     (([], rtmp_format_new), rtmp_format_new, rtmp_format_new)) = [Inr (), Inl ASSERT_FAILED]"
  by code_simp

end
