(* ===== verification/Srs_Format_Samples.thy ===== *)
theory Srs_Format_Samples
  imports Srs_Format_Safety
begin

text \<open>
  What the demuxer makes of well-formed video: the NAL units of a message are exactly the samples of
  its frame, in both payload formats, and the size of the picture is that of the sequence parameter
  set. The encodings that it inverts are written here as specifications.
\<close>

section \<open>Messages of NAL units\<close>

text \<open>The length in front of a NAL unit, in \<open>l + 1\<close> bytes; the code reads it as a signed number.\<close>

definition nal_prefix :: "8 word \<Rightarrow> nat \<Rightarrow> byte list" where
  "nal_prefix l n = (if l = 3 then be 4 (word_of_nat n :: 32 word) else if l = 1 then be 2 (word_of_nat n :: 16 word)
     else be 1 (word_of_nat n :: 8 word))"

definition nal_limit :: "8 word \<Rightarrow> nat" where
  "nal_limit l = 2 ^ (8 * (unat l + 1) - 1)"

definition nal_body :: "(byte list \<times> byte list) list \<Rightarrow> byte list" where
  "nal_body us = concat (map (\<lambda>(c, n). c @ n) us)"

definition ibmf_units :: "8 word \<Rightarrow> byte list list \<Rightarrow> (byte list \<times> byte list) list" where
  "ibmf_units l nalus = map (\<lambda>n. (nal_prefix l (length n), n)) nalus"

definition ibmf_body :: "8 word \<Rightarrow> byte list list \<Rightarrow> byte list" where
  "ibmf_body l nalus = nal_body (ibmf_units l nalus)"

definition avc_message :: "byte \<Rightarrow> byte \<Rightarrow> 32 word \<Rightarrow> byte list \<Rightarrow> byte list" where
  "avc_message tag type cts body = [tag, type] @ be 3 cts @ body"

definition sample_bytes :: "byte list \<Rightarrow> 'a frame_base_scheme \<Rightarrow> byte list list" where
  "sample_bytes mem f = map (\<lambda>s. take (nat (sa_size s)) (drop (sa_bytes s) mem)) (sf_samples f)"

text \<open>The frame and the codec that a message of video starts with.\<close>

definition start_video :: "format \<Rightarrow> video_frame" where
  "start_video f = frame_initialize VideoCodec (case fm_video f of None \<Rightarrow> video_frame_new | Some v \<Rightarrow> v)"

definition start_codec :: "format \<Rightarrow> video_config" where
  "start_codec f = (case fm_vcodec f of None \<Rightarrow> video_config_new | Some c \<Rightarrow> c)"

definition at_body :: "64 word \<Rightarrow> byte \<Rightarrow> byte \<Rightarrow> 32 word \<Rightarrow> byte list \<Rightarrow> format \<Rightarrow> format" where
  "at_body t tag type cts body f = f\<lparr>fm_vcodec := Some ((start_codec f)\<lparr>vc_id := 7\<rparr>),
     fm_video := Some ((start_video f)\<lparr>vf_frame_type := uint (high_nibble tag), sf_dts := t, sf_cts := take_bit 24 cts,
       vf_avc_packet_type := sint type\<rparr>),
     fm_raw := Some 5, fm_nb_raw := int (length body),
     fm_buffer := \<lparr>sb_null = False, sb_bytes = avc_message tag type cts body, sb_pos = 5\<rparr>\<rparr>"

lemma uint_5: "uint (5 :: byte) = 5"
  by simp

lemma on_video_body:
  assumes "low_nibble tag = SrsVideoCodecIdAVC" and "high_nibble tag \<noteq> 5"
  shows "format_on_video t (Some (avc_message tag type cts body)) f =
    (if type = 0 then avc_demux_sps_pps else if type = 1 then video_nalu_demux else returnP ()) (at_body t tag type cts body f)"
proof -
  let ?m = "avc_message tag type cts body"
  let ?b = "\<lambda>p. \<lparr>sb_null = False, sb_bytes = ?m, sb_pos = p\<rparr>"
  have len: "length ?m = 5 + length body" by (simp add: avc_message_def)
  have up: "upcoming (?b 0) = tag # drop 1 ?m" "upcoming (?b 1) = type # be 3 cts @ body" "upcoming (?b 2) = be 3 cts @ body"
    by (simp_all add: upcoming_def avc_message_def)
  have r: "read_1bytes (?b 0) = Inr (tag, ?b (Suc 0))" "read_1bytes (?b (Suc 0)) = Inr (type, ?b 2)"
    "read_3bytes (?b 2) = Inr (take_bit 24 cts, ?b 5)"
    using upcoming_Cons [OF up(1)] upcoming_Cons [OF up(2)] read_be(3) [OF up(3)]
    by (simp_all add: adv_def numeral_2_eq_2 eval_nat_numeral)
  have i: "buf_initialize (Some ?m) = Inr (?b 0)" by (simp add: buf_initialize_def len)
  have h: "uint (high_nibble tag) \<noteq> 5" using assms(2) by (metis uint_5 word_uint_eqI)
  define f1 where "f1 = f\<lparr>fm_vcodec := Some (start_codec f), fm_video := Some (start_video f), fm_buffer := ?b 0\<rparr>"
  have "format_on_video t (Some ?m) f = video_avc_demux t f1"
    using assms(1)
    by (cases "fm_video f"; cases "fm_vcodec f") (simp_all add: format_on_video_def bindP_def prog_eqs opens_def want_def on_buf_def i need_eq room_def len r
        new_video_def video_upd_def deref_def rewind_def skips_def buf_skip_def buf_tell_def start_video_def start_codec_def f1_def)
  also have "\<dots> = (if type = 0 then avc_demux_sps_pps else if type = 1 then video_nalu_demux else returnP ()) (at_body t tag type cts body f)"
  proof -
    have e: "f1\<lparr>fm_vcodec := Some ((start_codec f)\<lparr>vc_id := 7\<rparr>),
       fm_buffer := ?b 5, fm_video := Some ((start_video f)\<lparr>vf_frame_type := uint (high_nibble tag), sf_dts := t, sf_cts := take_bit 24 cts,
       vf_avc_packet_type := sint type\<rparr>),
       fm_raw := Some 5, fm_nb_raw := int (length body)\<rparr> = at_body t tag type cts body f"
      by (cases f) (simp add: f1_def at_body_def)
    show ?thesis
      using assms(1) h unfolding e [symmetric]
      by (simp add: f1_def video_avc_demux_def bindP_def prog_eqs want_def on_buf_def need_eq room_def len r
        video_upd_def vcodec_upd_def deref_def note_raw_def here_def buf_size_def buf_tell_def)
  qed
  finally show ?thesis .
qed

abbreviation at_nalus :: "64 word \<Rightarrow> byte \<Rightarrow> 32 word \<Rightarrow> byte list \<Rightarrow> format \<Rightarrow> format" where
  "at_nalus t tag cts body f \<equiv> at_body t tag 1 cts body f"

lemma on_video_nalus:
  assumes "low_nibble tag = SrsVideoCodecIdAVC" and "high_nibble tag \<noteq> 5"
  shows "format_on_video t (Some (avc_message tag 1 cts body)) f = video_nalu_demux (at_nalus t tag cts body f)"
  using on_video_body [OF assms, of t 1] by simp

section \<open>The ISO format\<close>

text \<open>A NAL unit of the frame: a sample, and what its first byte says.\<close>

definition add_nalu :: "nat \<Rightarrow> byte list \<Rightarrow> video_frame \<Rightarrow> video_frame" where
  "add_nalu p n v = note_nalu (hd n) (v\<lparr>sf_samples := sf_samples v @ [\<lparr>sa_bytes = p, sa_size = int (length n)\<rparr>]\<rparr>)"

text \<open>Units of a message: what comes in front of a NAL unit, and the NAL unit.\<close>

fun add_nalus :: "nat \<Rightarrow> (byte list \<times> byte list) list \<Rightarrow> video_frame \<Rightarrow> video_frame" where
  "add_nalus p [] v = v"
| "add_nalus p ((c, n) # us) v = add_nalus (p + length c + length n) us (add_nalu (p + length c) n v)"

definition nalu_ok :: "8 word \<Rightarrow> byte list \<Rightarrow> bool" where
  "nalu_ok l n \<longleftrightarrow> n \<noteq> [] \<and> length n < nal_limit l"

lemma nal_prefix_read:
  assumes "l \<in> {0, 1, 3}" and "n < nal_limit l" and "fm_buffer f = s" and "upcoming s = nal_prefix l n @ rest"
  shows "read_nalu_length l f = (Inr (int n), f\<lparr>fm_buffer := adv (unat l + 1) s\<rparr>)"
proof -
  have s: "sint (word_of_nat n :: 32 word) = int n" if "n < 2 ^ 31"
    using that by (simp add: signed_of_nat signed_take_bit_int_eq_self)
  have s2: "sint (word_of_nat n :: 16 word) = int n" if "n < 2 ^ 15"
    using that by (simp add: signed_of_nat signed_take_bit_int_eq_self)
  have s1: "sint (word_of_nat n :: 8 word) = int n" if "n < 2 ^ 7"
    using that by (simp add: signed_of_nat signed_take_bit_int_eq_self)
  consider "l = 0" | "l = 1" | "l = 3" using assms(1) by auto
  then show ?thesis
  proof cases
    case 1
    with assms s1 read_be(1) [of s "word_of_nat n" rest] show ?thesis
      by (simp add: read_nalu_length_def nal_prefix_def nal_limit_def bindP_def on_buf_def prog_eqs)
  next
    case 2
    moreover have "Suc (unat (1 :: 8 word)) = 2" by simp
    ultimately show ?thesis using assms s2 read_be(2) [of s "word_of_nat n" rest]
      by (simp add: read_nalu_length_def nal_prefix_def nal_limit_def bindP_def on_buf_def prog_eqs del: unsigned_1)
  next
    case 3
    moreover have "unat (3 :: 8 word) = 3" by simp
    ultimately show ?thesis using assms s read_be(4) [of s "word_of_nat n" rest]
      by (simp add: read_nalu_length_def nal_prefix_def nal_limit_def bindP_def on_buf_def prog_eqs del: unsigned_numeral)
  qed
qed

lemma length_nal_prefix [simp]: "l \<in> {0, 1, 3} \<Longrightarrow> length (nal_prefix l n) = unat l + 1"
  by (auto simp: nal_prefix_def)

lemma video_sample_here:
  assumes "fm_video f = Some v" and "length (sf_samples v) < SrsMaxNbSamples" and "n \<noteq> []"
    and "drop p (sb_bytes (fm_buffer f)) = n @ rest"
  shows "video_sample p (int (length n)) f = (Inr (), f\<lparr>fm_video := Some (add_nalu p n v)\<rparr>)"
proof -
  have "p < length (sb_bytes (fm_buffer f))" using assms(3,4) by (metis Nil_is_append_conv drop_eq_Nil not_less)
  moreover from this have "sb_bytes (fm_buffer f) ! p = hd n" using assms(3,4)
    by (metis hd_append2 hd_drop_conv_nth)
  ultimately show ?thesis using assms(1,2)
    by (simp add: video_sample_def deref_def bindP_def video_add_sample_def frame_add_sample_def add_nalu_def)
qed

lemma ibmf_loop_nalus:
  assumes "l \<in> {0, 1, 3}" and "fm_vcodec f = Some c" and "vc_nal_unit_length c = l"
    and "fm_video f = Some v" and "length (sf_samples v) + length ns \<le> SrsMaxNbSamples"
    and "\<forall>n \<in> set ns. nalu_ok l n" and "fm_buffer f = \<lparr>sb_null = False, sb_bytes = bs, sb_pos = p\<rparr>"
    and "drop p bs = ibmf_body l ns" and "i + int (length (ibmf_body l ns)) = len" and "length (ibmf_body l ns) < k"
  shows "ibmf_loop k len i f = (Inr (), f\<lparr>fm_video := Some (add_nalus p (ibmf_units l ns) v),
     fm_buffer := \<lparr>sb_null = False, sb_bytes = bs, sb_pos = p + length (ibmf_body l ns)\<rparr>\<rparr>)"
  using assms(2-)
proof (induction ns arbitrary: k i f v p)
  case Nil
  then obtain j where "k = Suc j" by (cases k) simp_all
  with Nil show ?case by (simp add: ibmf_body_def ibmf_units_def nal_body_def prog_eqs)
next
  case (Cons n ns)
  then obtain j where k: "k = Suc j" by (cases k) simp_all
  define m where "m = unat l + 1"
  have m: "length (nal_prefix l k) = m" for k using assms(1) by (simp only: length_nal_prefix m_def)
  let ?rest = "ibmf_body l ns"
  have body: "ibmf_body l (n # ns) = nal_prefix l (length n) @ n @ ?rest" by (simp add: ibmf_body_def ibmf_units_def nal_body_def)
  have ok: "n \<noteq> []" "length n < nal_limit l" using Cons.prems(5) by (auto simp: nalu_ok_def)
  have dp: "drop (p + m) bs = n @ ?rest" "drop (p + m + length n) bs = ?rest"
  proof -
    have "drop (p + m) bs = drop m (drop p bs)" by (simp add: add.commute)
    then show 1: "drop (p + m) bs = n @ ?rest" by (simp add: Cons.prems(7) body m)
    have "drop (length n) (drop (p + m) bs) = ?rest" unfolding 1 by simp
    then show "drop (p + m + length n) bs = ?rest" by (simp only: drop_drop ac_simps)
  qed
  have len: "p + m + length n + length ?rest = length bs"
  proof -
    have "0 < length (drop p bs)" using ok(1) by (simp add: Cons.prems(7) body)
    then have "length bs = p + length (drop p bs)" by simp
    then show ?thesis by (simp add: Cons.prems(7) body m)
  qed
  let ?b = "\<lambda>q. \<lparr>sb_null = False, sb_bytes = bs, sb_pos = q\<rparr>"
  have sl: "sint l = int m - 1" using assms(1) by (auto simp: m_def)
  have up: "upcoming (?b p) = nal_prefix l (length n) @ n @ ?rest" by (simp add: upcoming_def Cons.prems(7) body)
  have rd: "read_nalu_length l f = (Inr (int (length n)), f\<lparr>fm_buffer := ?b (p + m)\<rparr>)"
    using nal_prefix_read [OF assms(1) ok(2) Cons.prems(6) up] by (simp add: adv_def m_def)
  have ff: "f\<lparr>fm_buffer := ?b p\<rparr> = f" using Cons.prems(6) by (cases f) simp
  let ?f1 = "f\<lparr>fm_buffer := ?b (p + m)\<rparr>"
  let ?v = "add_nalu (p + m) n v"
  have vs: "video_sample (p + m) (int (length n)) ?f1 = (Inr (), ?f1\<lparr>fm_video := Some ?v\<rparr>)"
    by (rule video_sample_here [where rest = ?rest]) (use Cons.prems ok dp(1) in simp_all)
  let ?f2 = "?f1\<lparr>fm_video := Some ?v, fm_buffer := ?b (p + m + length n)\<rparr>"
  have "length (ibmf_body l (n # ns)) = m + length n + length ?rest" by (simp add: body m)
  moreover have "0 < m" by (simp add: m_def)
  ultimately have i: "i < len" using Cons.prems(8) by linarith
  have step: "ibmf_loop k len i f = ibmf_loop j len (i + int m + int (length n)) ?f2"
    using Cons.prems(1,2,6) i len
    by (simp add: k bindP_def prog_eqs deref_def Let_def want_def on_buf_def need_eq room_def sl ff rd nat_add_distrib here_def vs skips_def buf_skip_def)
  have "ibmf_loop j len (i + int m + int (length n)) ?f2
     = (Inr (), ?f2\<lparr>fm_video := Some (add_nalus (p + m + length n) (ibmf_units l ns) ?v), fm_buffer := ?b (p + m + length n + length ?rest)\<rparr>)"
  proof (rule Cons.IH)
    show "length (sf_samples ?v) + length ns \<le> SrsMaxNbSamples"
      using Cons.prems(4) by (simp add: add_nalu_def note_nalu_def Let_def)
    show "i + int m + int (length n) + int (length ?rest) = len"
      using Cons.prems(8) by (simp add: body m)
    show "length ?rest < j" using Cons.prems(9) by (simp add: k body m) (simp add: m_def)
  qed (use Cons.prems dp in simp_all)
  with step show ?case by (simp add: body m add.assoc ibmf_units_def) 
qed

section \<open>What a frame of NAL units says\<close>

definition nal_type :: "byte list \<Rightarrow> byte" where
  "nal_type n = and (hd n) 0x1F"

lemma sample_bytes_add_nalus:
  "drop p mem = nal_body us @ rest \<Longrightarrow> sample_bytes mem (add_nalus p us v) = sample_bytes mem v @ map snd us"
proof (induction us arbitrary: p v)
  case Nil
  then show ?case by simp
next
  case (Cons u us)
  obtain c n where u: "u = (c, n)" by (cases u)
  have d: "drop (p + length c) mem = n @ nal_body us @ rest"
  proof -
    have "drop (length c) (drop p mem) = n @ nal_body us @ rest" by (simp add: Cons.prems u nal_body_def)
    then show ?thesis by (simp only: drop_drop ac_simps)
  qed
  have "drop (p + length c + length n) mem = nal_body us @ rest"
  proof -
    have "drop (length n) (drop (p + length c) mem) = nal_body us @ rest" by (simp add: d)
    then show ?thesis by (simp only: drop_drop ac_simps)
  qed
  from Cons.IH [OF this] show ?case
    by (simp add: u sample_bytes_def add_nalu_def note_nalu_def Let_def d)
qed

lemma nal_type_uint:
  "uint (and b 0x1F :: byte) = 5 \<longleftrightarrow> and b 0x1F = 5" "uint (and b 0x1F :: byte) = 7 \<longleftrightarrow> and b 0x1F = 7"
  "uint (and b 0x1F :: byte) = 8 \<longleftrightarrow> and b 0x1F = 8" "uint (and b 0x1F :: byte) = 9 \<longleftrightarrow> and b 0x1F = 9"
  by (simp_all add: word_uint_eq_iff)

text \<open>The flags of the frame, which a frame keeps from the messages before.\<close>

lemma flags_add_nalus:
  "vf_has_idr (add_nalus p us v) \<longleftrightarrow> vf_has_idr v \<or> (\<exists>u \<in> set us. nal_type (snd u) = 5)"
  "vf_has_sps_pps (add_nalus p us v) \<longleftrightarrow> vf_has_sps_pps v \<or> (\<exists>u \<in> set us. nal_type (snd u) = 7 \<or> nal_type (snd u) = 8)"
  "vf_has_aud (add_nalus p us v) \<longleftrightarrow> vf_has_aud v \<or> (\<exists>u \<in> set us. nal_type (snd u) = 9)"
  by (induction p us v rule: add_nalus.induct)
    (auto simp: add_nalu_def note_nalu_def Let_def nal_type_def nal_type_uint)

lemma kept_add_nalus:
  "sf_dts (add_nalus p us v) = sf_dts v" "sf_cts (add_nalus p us v) = sf_cts v"
  "vf_frame_type (add_nalus p us v) = vf_frame_type v" "vf_avc_packet_type (add_nalus p us v) = vf_avc_packet_type v"
  by (induction p us v rule: add_nalus.induct) (simp_all add: add_nalu_def note_nalu_def Let_def)

definition video_holds :: "64 word \<Rightarrow> byte \<Rightarrow> 32 word \<Rightarrow> byte list \<Rightarrow> byte list list \<Rightarrow> video_frame \<Rightarrow> video_frame \<Rightarrow> bool" where
  "video_holds t tag cts mem nalus v0 v \<longleftrightarrow> sample_bytes mem v = nalus
     \<and> sf_dts v = t \<and> sf_cts v = take_bit 24 cts \<and> vf_frame_type v = uint (high_nibble tag) \<and> vf_avc_packet_type v = 1
     \<and> (vf_has_idr v \<longleftrightarrow> vf_has_idr v0 \<or> 5 \<in> nal_type ` set nalus)
     \<and> (vf_has_sps_pps v \<longleftrightarrow> vf_has_sps_pps v0 \<or> {7, 8} \<inter> nal_type ` set nalus \<noteq> {})
     \<and> (vf_has_aud v \<longleftrightarrow> vf_has_aud v0 \<or> 9 \<in> nal_type ` set nalus)"

lemma holds_add_nalus:
  assumes "fm_video (at_nalus t tag cts (nal_body us) f) = Some v"
  shows "video_holds t tag cts (avc_message tag 1 cts (nal_body us)) (map snd us) (start_video f) (add_nalus 5 us v)"
proof -
  have v: "v = (start_video f)\<lparr>vf_frame_type := uint (high_nibble tag), sf_dts := t, sf_cts := take_bit 24 cts,
      vf_avc_packet_type := 1\<rparr>"
    using assms by (simp add: at_body_def)
  have "drop 5 (avc_message tag 1 cts (nal_body us)) = nal_body us @ []" by (simp add: avc_message_def)
  from sample_bytes_add_nalus [OF this, of v]
  show ?thesis
    by (auto simp: video_holds_def kept_add_nalus flags_add_nalus v sample_bytes_def start_video_def frame_initialize_def
        image_iff split: option.splits)
qed

lemma ibmf_at_nalus:
  assumes c: "start_codec f = c" and l: "vc_nal_unit_length c \<in> {0, 1, 3}" and "length ns \<le> SrsMaxNbSamples" and "\<forall>n \<in> set ns. nalu_ok (vc_nal_unit_length c) n"
  shows "\<exists>v f'. avc_demux_ibmf_format (at_nalus t tag cts (ibmf_body (vc_nal_unit_length c) ns) f) = (Inr (), f')
    \<and> fm_vcodec f' = Some (c\<lparr>vc_id := 7\<rparr>) \<and> fm_video f' = Some v
    \<and> video_holds t tag cts (avc_message tag 1 cts (ibmf_body (vc_nal_unit_length c) ns)) ns (start_video f) v"
proof -
  let ?l = "vc_nal_unit_length c"
  let ?body = "ibmf_body ?l ns"
  let ?f = "at_nalus t tag cts ?body f"
  obtain v where v: "fm_video ?f = Some v" and v0: "sf_samples v = []"
    by (simp add: at_body_def start_video_def frame_initialize_def)
  have len: "length (avc_message tag 1 cts ?body) = 5 + length ?body" by (simp add: avc_message_def)
  have loop: "ibmf_loop (Suc (length ?body)) (int (length ?body)) 0 ?f = (Inr (), ?f\<lparr>fm_video := Some (add_nalus 5 (ibmf_units ?l ns) v),
     fm_buffer := \<lparr>sb_null = False, sb_bytes = avc_message tag 1 cts ?body, sb_pos = 5 + length ?body\<rparr>\<rparr>)"
    by (rule ibmf_loop_nalus [where c = "c\<lparr>vc_id := 7\<rparr>", OF l]) (use assms(3-) c v v0 in \<open>simp_all add: at_body_def avc_message_def\<close>)
  have "avc_demux_ibmf_format ?f = ibmf_loop (Suc (length ?body)) (int (length ?body)) 0 ?f"
    using l len by (auto simp: avc_demux_ibmf_format_def bindP_def here_def prog_eqs deref_def at_body_def c buf_size_def buf_tell_def
        simp del: ibmf_loop.simps)
  moreover have "map snd (ibmf_units ?l ns) = ns" by (simp add: ibmf_units_def comp_def)
  ultimately show ?thesis
    using loop holds_add_nalus [of t tag cts "ibmf_units ?l ns" f v] v
    by (simp add: ibmf_body_def [symmetric], simp add: at_body_def c)
qed

lemma start_at_nalus: "srs_avc_startswith_annexb (fm_buffer (at_nalus t tag cts body f)) = annexb_code 0 body"
  by (simp add: srs_avc_startswith_annexb_def at_body_def upcoming_def avc_message_def)

text \<open>C18: Where the format is ISO, or the message does not start as Annex B, the samples of the frame are
  exactly the NAL units that the lengths in the message delimit, in order, and the frame has the times
  and flags of the message; the flags of the messages before stay.\<close>

theorem ibmf_samples_exact:
  assumes "low_nibble tag = SrsVideoCodecIdAVC" and "high_nibble tag \<noteq> 5" and "fm_vcodec f = Some c" and "is_avc_codec_ok c"
    and "vc_nal_unit_length c \<in> {0, 1, 3}"
    and "length nalus \<le> SrsMaxNbSamples" and "\<forall>n \<in> set nalus. nalu_ok (vc_nal_unit_length c) n"
    and "vc_payload_format c = SrsAvcPayloadFormatIbmf \<or> annexb_code 0 (ibmf_body (vc_nal_unit_length c) nalus) = None"
  shows "\<exists>v f'. format_on_video t (Some (avc_message tag 1 cts (ibmf_body (vc_nal_unit_length c) nalus))) f = (Inr (), f')
    \<and> fm_video f' = Some v
    \<and> video_holds t tag cts (avc_message tag 1 cts (ibmf_body (vc_nal_unit_length c) nalus)) nalus (start_video f) v
    \<and> fm_vcodec f' = Some (c\<lparr>vc_id := 7, vc_payload_format := SrsAvcPayloadFormatIbmf\<rparr>)"
proof -
  let ?f = "at_nalus t tag cts (ibmf_body (vc_nal_unit_length c) nalus) f"
  obtain v f' where ib: "avc_demux_ibmf_format ?f = (Inr (), f')" "fm_vcodec f' = Some (c\<lparr>vc_id := 7\<rparr>)" "fm_video f' = Some v"
      "video_holds t tag cts (avc_message tag 1 cts (ibmf_body (vc_nal_unit_length c) nalus)) nalus (start_video f) v"
    using ibmf_at_nalus [OF _ assms(5,6,7), of f t tag cts] assms(3) by (auto simp: start_codec_def)
  have c: "fm_vcodec ?f = Some (c\<lparr>vc_id := 7\<rparr>)" by (simp add: at_body_def start_codec_def assms(3))
  have ok: "is_avc_codec_ok (c\<lparr>vc_id := 7\<rparr>)" using assms(4) by (simp add: is_avc_codec_ok_def)
  note run = on_video_nalus [OF assms(1,2), of t cts "ibmf_body (vc_nal_unit_length c) nalus"]
  show ?thesis
  proof (cases "vc_payload_format c = SrsAvcPayloadFormatIbmf")
    case True
    then have "c\<lparr>vc_id := 7, vc_payload_format := SrsAvcPayloadFormatIbmf\<rparr> = c\<lparr>vc_id := 7\<rparr>" by (cases c) simp
    with True run ib c ok show ?thesis by (simp add: video_nalu_demux_def bindP_def deref_def)
  next
    case False
    with assms(8) have a: "avc_demux_annexb_format ?f = (Inl ERROR_HLS_AVC_TRY_OTHERS, ?f)"
      by (simp add: avc_demux_annexb_format_def prog_simps start_at_nalus)
    have "annexb_or_ibmf ok ?f = (Inr (), f'\<lparr>fm_vcodec := Some (c\<lparr>vc_id := 7, vc_payload_format := SrsAvcPayloadFormatIbmf\<rparr>)\<rparr>)" for ok
      by (simp add: annexb_or_ibmf_def a bindP_def ib vcodec_upd_def deref_def prog_eqs)
    with False run ib c ok show ?thesis
      by (cases "vc_payload_format c") (simp_all add: video_nalu_demux_def bindP_def deref_def)
  qed
qed

lemma ibmf_samples_exact_witness:
  "\<exists>v f'. format_on_video 40 (Some (avc_message 0x17 1 80 (ibmf_body 3 [[0x65, 0x88], [6]])))
      (format_new\<lparr>fm_vcodec := Some (video_config_new\<lparr>vc_extra_data := [1], vc_nal_unit_length := 3\<rparr>)\<rparr>) = (Inr (), f')
    \<and> fm_video f' = Some v \<and> sf_dts v = 40 \<and> sf_cts v = 80 \<and> vf_has_idr v
    \<and> sample_bytes (avc_message 0x17 1 80 (ibmf_body 3 [[0x65, 0x88], [6]])) v = [[0x65, 0x88], [6]]"
proof -
  let ?f = "format_new\<lparr>fm_vcodec := Some (video_config_new\<lparr>vc_extra_data := [1], vc_nal_unit_length := 3\<rparr>)\<rparr>"
  have h: "low_nibble 0x17 = SrsVideoCodecIdAVC" "high_nibble 0x17 \<noteq> 5" "annexb_code 0 (ibmf_body 3 [[0x65, 0x88], [6]]) = None"
    "nal_type [0x65, 0x88] = 5" by code_simp+
  have n: "nalu_ok 3 [0x65, 0x88]" "nalu_ok 3 [6]" "take_bit 24 (80 :: 32 word) = 80" by (simp_all add: nalu_ok_def nal_limit_def)
  from ibmf_samples_exact [OF h(1,2), of ?f _ "[[0x65, 0x88], [6]]" 40 80] h(3-) n show ?thesis
    by (simp add: is_avc_codec_ok_def video_config_new_def video_holds_def) blast
qed

section \<open>Annex B\<close>

text \<open>A start code with \<open>z\<close> extra zeros, and what a NAL unit must not contain.\<close>

definition start_code :: "nat \<Rightarrow> byte list" where
  "start_code z = replicate z 0 @ [0, 0, 1]"

fun code_free :: "byte list \<Rightarrow> bool" where
  "code_free (a # b # c # xs) \<longleftrightarrow> \<not> (a = 0 \<and> b = 0 \<and> c \<le> 1) \<and> code_free (b # c # xs)"
| "code_free xs \<longleftrightarrow> True"

definition annexb_ok :: "byte list \<Rightarrow> bool" where
  "annexb_ok n \<longleftrightarrow> n \<noteq> [] \<and> last n \<noteq> 0 \<and> code_free n"

definition annexb_units :: "(nat \<times> byte list) list \<Rightarrow> (byte list \<times> byte list) list" where
  "annexb_units us = map (\<lambda>(z, n). (start_code z, n)) us"

definition annexb_body :: "(nat \<times> byte list) list \<Rightarrow> byte list" where
  "annexb_body us = nal_body (annexb_units us)"

lemma annexb_code_start: "annexb_code k (start_code z @ xs) = Some (k + z + 3)"
proof (induction z arbitrary: k)
  case 0
  then show ?case by (simp add: start_code_def)
next
  case (Suc z)
  have "start_code z @ xs = hd (start_code z) # hd (tl (start_code z)) # tl (tl (start_code z)) @ xs
    \<and> hd (start_code z) = 0 \<and> hd (tl (start_code z)) = 0"
    by (cases z; cases "z - 1") (simp_all add: start_code_def)
  moreover have "start_code (Suc z) = 0 # start_code z" by (simp add: start_code_def)
  ultimately show ?case using Suc.IH [of "Suc k"] by (metis annexb_code.simps(1) append_Cons add_Suc_right add_Suc zero_neq_one)
qed

lemma code_free_tl: "code_free (x # xs) \<Longrightarrow> code_free xs"
  by (cases "x # xs" rule: code_free.cases) simp_all

lemma annexb_code_free: "s \<noteq> [] \<Longrightarrow> last s \<noteq> 0 \<Longrightarrow> code_free s \<Longrightarrow> annexb_code k (s @ rest) = None"
proof (induction s arbitrary: k)
  case Nil
  then show ?case by simp
next
  case (Cons a s)
  show ?case
  proof (cases "(k, (a # s) @ rest)" rule: annexb_code.cases)
    case (1 k' a' b c xs)
    have t: "s = [] \<Longrightarrow> a \<noteq> 0" using Cons.prems(2) by simp
    show ?thesis
    proof (cases "a = 0 \<and> b = 0")
      case False
      with 1 show ?thesis by auto
    next
      case True
      with t have "s \<noteq> []" by auto
      with 1 True obtain s1 where s: "s = 0 # s1" by (cases s) auto
      with Cons.prems(2) have "s1 \<noteq> []" by auto
      with 1 s obtain s2 where s1: "s1 = c # s2" by (cases s1) auto
      with Cons.prems(3) True s have "1 < c" by (simp add: not_le)
      moreover have "annexb_code (Suc k) (s @ rest) = None"
        by (rule Cons.IH) (use Cons.prems s s1 code_free_tl in auto)
      ultimately show ?thesis by (simp add: s s1 True)
    qed
  qed simp_all
qed

lemma nalu_length_unit:
  assumes "last n \<noteq> 0" and "code_free n" and "rest = [] \<or> annexb_code 0 rest \<noteq> None"
  shows "nalu_length (n @ rest) = length n"
  using assms(1,2)
proof (induction n)
  case Nil
  show ?case using assms(3) by (cases rest) auto
next
  case (Cons x xs)
  have x: "annexb_code 0 ((x # xs) @ rest) = None" using annexb_code_free [OF _ Cons.prems] by simp
  show ?case
  proof (cases "xs = []")
    case True
    have "nalu_length rest = 0" using assms(3) by (cases rest) auto
    with x show ?thesis by (simp add: True)
  next
    case False
    with Cons x show ?thesis by (simp add: code_free_tl)
  qed
qed

lemma annexb_body_rest: "annexb_body us = [] \<or> annexb_code 0 (annexb_body us) \<noteq> None"
  by (cases us) (auto simp: annexb_body_def annexb_units_def nal_body_def annexb_code_start)

lemma annexb_loop_units:
  assumes "fm_video f = Some v" and "length (sf_samples v) + length us \<le> SrsMaxNbSamples"
    and "\<forall>u \<in> set us. annexb_ok (snd u)" and "fm_buffer f = \<lparr>sb_null = False, sb_bytes = bs, sb_pos = p\<rparr>"
    and "drop p bs = annexb_body us" and "length us < k" and "p \<le> length bs"
  shows "annexb_loop k f = (Inr (), f\<lparr>fm_video := Some (add_nalus p (annexb_units us) v),
     fm_buffer := \<lparr>sb_null = False, sb_bytes = bs, sb_pos = length bs\<rparr>\<rparr>)"
  using assms
proof (induction us arbitrary: k f v p)
  case Nil
  then obtain j where "k = Suc j" by (cases k) simp_all
  moreover from Nil have "p = length bs" by (simp add: annexb_body_def annexb_units_def nal_body_def)
  moreover from this Nil(4) have "f\<lparr>fm_video := Some v, fm_buffer := \<lparr>sb_null = False, sb_bytes = bs, sb_pos = length bs\<rparr>\<rparr> = f"
    using Nil(1) by (cases f) simp
  ultimately show ?case using Nil by (simp add: annexb_units_def prog_simps buf_empty_def)
next
  case (Cons u us)
  then obtain j where k: "k = Suc j" by (cases k) simp_all
  obtain z n where u: "u = (z, n)" by (cases u)
  let ?c = "start_code z"
  let ?rest = "annexb_body us"
  have n: "n \<noteq> []" "last n \<noteq> 0" "code_free n" using Cons.prems(3) by (simp_all add: u annexb_ok_def)
  have body: "drop p bs = ?c @ n @ ?rest"
    using Cons.prems(5) by (simp add: annexb_body_def annexb_units_def nal_body_def u)
  define q where "q = p + length ?c"
  define r where "r = q + length n"
  have dp: "drop q bs = n @ ?rest" "drop r bs = ?rest"
  proof -
    have "drop (length ?c) (drop p bs) = n @ ?rest" by (simp add: body)
    then show 1: "drop q bs = n @ ?rest" by (simp only: q_def drop_drop ac_simps)
    have "drop (length n) (drop q bs) = ?rest" by (simp add: 1)
    then show "drop r bs = ?rest" by (simp only: r_def drop_drop ac_simps)
  qed
  have len: "p < length bs" "r \<le> length bs"
  proof -
    show "p < length bs" using body n(1) by (metis Nil_is_append_conv drop_eq_Nil not_less)
    have "length (drop q bs) = length n + length ?rest" by (simp add: dp(1))
    then have e: "length bs - q = length n + length ?rest" by simp
    moreover have "0 < length n" using n(1) by simp
    ultimately show "r \<le> length bs" unfolding r_def by linarith
  qed
  let ?b = "\<lambda>q. \<lparr>sb_null = False, sb_bytes = bs, sb_pos = q\<rparr>"
  have start: "srs_avc_startswith_annexb (?b p) = Some (length ?c)"
    by (simp add: srs_avc_startswith_annexb_def upcoming_def body annexb_code_start) (simp add: start_code_def)
  have nl: "nalu_length (n @ ?rest) = length n" by (rule nalu_length_unit [OF n(2,3) annexb_body_rest])
  let ?v = "add_nalu q n v"
  let ?f1 = "f\<lparr>fm_buffer := ?b r\<rparr>"
  have vs: "video_sample q (int (length n)) ?f1 = (Inr (), ?f1\<lparr>fm_video := Some ?v\<rparr>)"
    by (rule video_sample_here [where rest = ?rest]) (use Cons.prems n dp(1) in simp_all)
  have rq: "\<not> r \<le> q" "int r - int q = int (length n)" using n(1) by (simp_all add: r_def)
  have step: "annexb_loop k f = annexb_loop j (?f1\<lparr>fm_video := Some ?v\<rparr>)"
    using Cons.prems(1,4) len(1) start vs rq
    by (simp add: k bindP_def prog_eqs buf_empty_def skips_def on_buf_def buf_skip_def here_def buf_tell_def rest_bytes_def
        upcoming_def nat_add_distrib q_def [symmetric] dp nl r_def [symmetric] buf_size_def)
  have "annexb_loop j (?f1\<lparr>fm_video := Some ?v\<rparr>) = (Inr (), ?f1\<lparr>fm_video := Some ?v\<rparr>\<lparr>fm_video := Some (add_nalus r (annexb_units us) ?v),
     fm_buffer := ?b (length bs)\<rparr>)"
  proof (rule Cons.IH)
    show "length (sf_samples ?v) + length us \<le> SrsMaxNbSamples"
      using Cons.prems(2) by (simp add: add_nalu_def note_nalu_def Let_def)
  qed (use Cons.prems dp len k in simp_all)
  with step show ?case by (simp add: u annexb_units_def q_def r_def)
qed

lemma on_video_annexb:
  assumes "low_nibble tag = SrsVideoCodecIdAVC" and "high_nibble tag \<noteq> 5" and "fm_vcodec f = Some c" and "is_avc_codec_ok c"
    and "vc_payload_format c \<noteq> SrsAvcPayloadFormatIbmf" and "us \<noteq> []" and "length us \<le> SrsMaxNbSamples"
    and "\<forall>u \<in> set us. annexb_ok (snd u)"
  shows "\<exists>v f'. format_on_video t (Some (avc_message tag 1 cts (annexb_body us))) f = (Inr (), f') \<and> fm_video f' = Some v
    \<and> video_holds t tag cts (avc_message tag 1 cts (annexb_body us)) (map snd us) (start_video f) v
    \<and> fm_vcodec f' = Some (c\<lparr>vc_id := 7, vc_payload_format := SrsAvcPayloadFormatAnnexb\<rparr>)"
proof -
  let ?m = "avc_message tag 1 cts (annexb_body us)"
  let ?f = "at_nalus t tag cts (annexb_body us) f"
  obtain v where v: "fm_video ?f = Some v" and v0: "sf_samples v = []"
    by (simp add: at_body_def start_video_def frame_initialize_def)
  have len: "length ?m = 5 + length (annexb_body us)" by (simp add: avc_message_def)
  have "length us \<le> length (annexb_body us)"
    by (induction us) (auto simp: annexb_body_def annexb_units_def nal_body_def start_code_def)
  with len have fuel: "length us < Suc (length ?m)" by simp
  have loop: "annexb_loop (Suc (length ?m)) ?f = (Inr (), ?f\<lparr>fm_video := Some (add_nalus 5 (annexb_units us) v),
     fm_buffer := \<lparr>sb_null = False, sb_bytes = ?m, sb_pos = length ?m\<rparr>\<rparr>)"
    by (rule annexb_loop_units [OF v]) (use assms v0 fuel len in \<open>simp_all add: at_body_def, simp add: avc_message_def\<close>)
  have starts: "annexb_code 0 (annexb_body us) \<noteq> None"
    using annexb_body_rest [of us] assms(6) by (cases us) (auto simp: annexb_body_def annexb_units_def nal_body_def start_code_def)
  have "sb_bytes (fm_buffer ?f) = ?m" by (simp add: at_body_def)
  with starts have demux: "avc_demux_annexb_format ?f = annexb_loop (Suc (length ?m)) ?f"
    by (auto simp: avc_demux_annexb_format_def prog_simps start_at_nalus simp del: annexb_loop.simps)
  have snds: "map snd (annexb_units us) = map snd us" by (simp add: annexb_units_def comp_def case_prod_unfold)
  have h: "video_holds t tag cts ?m (map snd us) (start_video f) (add_nalus 5 (annexb_units us) v)"
    using holds_add_nalus [of t tag cts "annexb_units us" f v] v by (simp only: snds annexb_body_def)
  let ?f1 = "?f\<lparr>fm_video := Some (add_nalus 5 (annexb_units us) v), fm_buffer := \<lparr>sb_null = False, sb_bytes = ?m, sb_pos = length ?m\<rparr>\<rparr>"
  have c: "fm_vcodec ?f = Some (c\<lparr>vc_id := 7\<rparr>)" by (simp add: at_body_def start_codec_def assms(3))
  have either: "annexb_or_ibmf ok ?f = ok ?f1" for ok by (simp add: annexb_or_ibmf_def demux loop del: annexb_loop.simps)
  have same: "c\<lparr>vc_id := 7, vc_payload_format := SrsAvcPayloadFormatAnnexb\<rparr> = c\<lparr>vc_id := 7\<rparr>"
    if "vc_payload_format c = SrsAvcPayloadFormatAnnexb" using that by (cases c) simp
  have ok: "is_avc_codec_ok (c\<lparr>vc_id := 7\<rparr>)" using assms(4) by (simp add: is_avc_codec_ok_def)
  show ?thesis
    unfolding on_video_nalus [OF assms(1,2)]
    using assms(5) c h same ok
    by (cases "vc_payload_format c")
      (simp_all add: video_nalu_demux_def bindP_def deref_def either vcodec_upd_def prog_eqs)
qed

text \<open>C19: The samples of a message in the Annex B format are exactly the NAL units between its start
  codes, in order, and the format is taken for Annex B from then on.\<close>

theorem annexb_samples_exact:
  assumes "low_nibble tag = SrsVideoCodecIdAVC" and "high_nibble tag \<noteq> 5" and "fm_vcodec f = Some c" and "is_avc_codec_ok c"
    and "vc_payload_format c \<noteq> SrsAvcPayloadFormatIbmf" and "us \<noteq> []" and "length us \<le> SrsMaxNbSamples"
    and "\<forall>u \<in> set us. annexb_ok (snd u)"
  shows "\<exists>v f'. format_on_video t (Some (avc_message tag 1 cts (annexb_body us))) f = (Inr (), f') \<and> fm_video f' = Some v
    \<and> video_holds t tag cts (avc_message tag 1 cts (annexb_body us)) (map snd us) (start_video f) v
    \<and> fm_vcodec f' = Some (c\<lparr>vc_id := 7, vc_payload_format := SrsAvcPayloadFormatAnnexb\<rparr>)"
  using on_video_annexb [OF assms] .

lemma annexb_samples_exact_witness:
  "\<exists>v f'. format_on_video 40 (Some (avc_message 0x27 1 0 (annexb_body [(1, [9, 0xF0]), (0, [0x41, 0, 0, 3, 1])])))
      (format_new\<lparr>fm_vcodec := Some (video_config_new\<lparr>vc_extra_data := [1]\<rparr>)\<rparr>) = (Inr (), f')
    \<and> fm_video f' = Some v \<and> vf_has_aud v
    \<and> sample_bytes (avc_message 0x27 1 0 (annexb_body [(1, [9, 0xF0]), (0, [0x41, 0, 0, 3, 1])])) v = [[9, 0xF0], [0x41, 0, 0, 3, 1]]"
proof -
  let ?f = "format_new\<lparr>fm_vcodec := Some (video_config_new\<lparr>vc_extra_data := [1]\<rparr>)\<rparr>"
  have h: "low_nibble 0x27 = SrsVideoCodecIdAVC" "high_nibble 0x27 \<noteq> 5" "annexb_ok [9, 0xF0] \<and> annexb_ok [0x41, 0, 0, 3, 1]"
    "nal_type [9, 0xF0] = 9" by code_simp+
  from annexb_samples_exact [OF h(1,2), of ?f _ "[(1, [9, 0xF0]), (0, [0x41, 0, 0, 3, 1])]" 40 0] h(3-) show ?thesis
    by (simp add: is_avc_codec_ok_def video_config_new_def video_holds_def) blast
qed

lemma byte_at_nat: "n < 2 ^ 32 \<Longrightarrow> byte_at i (word_of_nat n :: 32 word) = word_of_nat (n div 2 ^ (8 * i))"
  by (simp add: byte_at_def word_unat_eq_iff unsigned_ucast_eq unat_drop_bit_eq unat_of_nat take_bit_nat_eq_self flip: drop_bit_eq_div)
    (simp add: take_bit_eq_mod)

text \<open>C38: While the format is a guess, a message of one NAL unit with four bytes of length between 257 and
  511 is taken for Annex B: the sample is the NAL unit with a byte of the length in front.\<close>

theorem ibmf_taken_for_annexb:
  assumes "low_nibble tag = SrsVideoCodecIdAVC" and "high_nibble tag \<noteq> 5" and "fm_vcodec f = Some c" and "is_avc_codec_ok c"
    and "vc_payload_format c = SrsAvcPayloadFormatGuess" and "vc_nal_unit_length c = 3"
    and "256 < length n" and "length n < 512" and "annexb_ok n"
  shows "\<exists>v f'. format_on_video t (Some (avc_message tag 1 cts (ibmf_body 3 [n]))) f = (Inr (), f') \<and> fm_video f' = Some v
    \<and> sample_bytes (avc_message tag 1 cts (ibmf_body 3 [n])) v = [word_of_nat (length n) # n]
    \<and> fm_vcodec f' = Some (c\<lparr>vc_id := 7, vc_payload_format := SrsAvcPayloadFormatAnnexb\<rparr>)"
proof -
  let ?b = "word_of_nat (length n) :: byte"
  have "nal_prefix 3 (length n) = [0, 0, 1, ?b]"
  proof -
    have "length n div 256 = 1" using assms(7,8) by linarith
    then show ?thesis using assms(8) by (simp add: nal_prefix_def be_def mem_of_word_def upt_conv_Cons byte_at_nat)
  qed
  then have body: "ibmf_body 3 [n] = annexb_body [(0, ?b # n)]"
    by (simp add: ibmf_body_def ibmf_units_def annexb_body_def annexb_units_def nal_body_def start_code_def)
  have b: "?b \<noteq> 0"
    using assms(7,8) by (simp add: word_of_nat_eq_0_iff dvd_def) presburger
  have "annexb_ok (?b # n)" using assms(9) b by (cases n rule: code_free.cases) (auto simp: annexb_ok_def)
  with on_video_annexb [of tag f c "[(0, ?b # n)]" t cts] assms show ?thesis unfolding body
    by (auto simp: video_holds_def)
qed

lemma code_free_nonzero: "0 \<notin> set xs \<Longrightarrow> code_free xs"
  by (induction xs rule: code_free.induct) auto

lemma ibmf_taken_for_annexb_witness:
  "\<exists>v f'. format_on_video 0 (Some (avc_message 0x17 1 0 (ibmf_body 3 [replicate 300 0x65])))
      (format_new\<lparr>fm_vcodec := Some (video_config_new\<lparr>vc_extra_data := [1], vc_nal_unit_length := 3\<rparr>)\<rparr>) = (Inr (), f')
    \<and> fm_video f' = Some v
    \<and> sample_bytes (avc_message 0x17 1 0 (ibmf_body 3 [replicate 300 0x65])) v = [44 # replicate 300 0x65]"
proof -
  let ?n = "replicate 300 (0x65 :: byte)"
  let ?f = "format_new\<lparr>fm_vcodec := Some (video_config_new\<lparr>vc_extra_data := [1], vc_nal_unit_length := 3\<rparr>)\<rparr>"
  have h: "low_nibble 0x17 = SrsVideoCodecIdAVC" "high_nibble 0x17 \<noteq> 5" by code_simp+
  have n: "256 < length ?n" "length ?n < 512" "annexb_ok ?n" "word_of_nat (length ?n) = (44 :: byte)"
    by (simp_all add: annexb_ok_def code_free_nonzero)
  have c: "fm_vcodec ?f = Some (video_config_new\<lparr>vc_extra_data := [1], vc_nal_unit_length := 3\<rparr>)" by simp
  show ?thesis using ibmf_taken_for_annexb [OF h c _ _ _ n(1-3), of 0 0] unfolding n(4)
    by (auto simp: is_avc_codec_ok_def video_config_new_def)
qed

end
