(* ===== verification/Srs_Sps.thy ===== *)
theory Srs_Sps
  imports Srs_Format_Safety
begin

text \<open>
  The sequence parameter set: an encoder of all its fields, after the syntax of H.264 7.3.2.1.1, with
  the emulation prevention of 7.4.1, and the proof that the demuxer, which reads the fields up to the
  height, finds the size of the picture in macroblocks in what it encodes.
\<close>

section \<open>Exp-Golomb codes\<close>

fun num_bits :: "nat \<Rightarrow> nat \<Rightarrow> bool list" where
  "num_bits 0 n = []"
| "num_bits (Suc k) n = odd (n div 2 ^ k) # num_bits k n"

fun log2 :: "nat \<Rightarrow> nat" where
  "log2 n = (if n \<le> 1 then 0 else Suc (log2 (n div 2)))"

declare log2.simps [simp del]

definition ue :: "nat \<Rightarrow> bool list" where
  "ue n = (let k = log2 (n + 1) in replicate k False @ True # num_bits k (n + 1))"

lemma length_num_bits [simp]: "length (num_bits k n) = k"
  by (induction k) simp_all

lemma bits_value_num: "bits_value (num_bits k n) = n mod 2 ^ k"
proof (induction k)
  case 0
  show ?case by (simp add: bits_value_def)
next
  case (Suc k)
  have "n mod 2 ^ Suc k = 2 ^ k * (n div 2 ^ k mod 2) + n mod 2 ^ k"
    using mod_mult2_eq [of n "2 ^ k" 2] by (simp add: mult.commute)
  with Suc show ?case by (cases "odd (n div 2 ^ k)") (simp_all add: bits_value_Cons odd_iff_mod_2_eq_one even_iff_mod_2_eq_zero)
qed

lemma log2_bounds: "0 < n \<Longrightarrow> 2 ^ log2 n \<le> n \<and> n < 2 ^ Suc (log2 n)"
proof (induction n rule: log2.induct)
  case (1 n)
  show ?case
  proof (cases "n \<le> 1")
    case True
    with 1 show ?thesis by (simp add: log2.simps)
  next
    case False
    with 1 have "2 ^ log2 (n div 2) \<le> n div 2 \<and> n div 2 < 2 ^ Suc (log2 (n div 2))" by simp
    with False show ?thesis by (subst (1 2) log2.simps) auto
  qed
qed

lemma uev_ue:
  assumes "n < 2 ^ 31 - 1"
  shows "uev_spec (ue n @ rest) = Inr (n, rest)"
proof -
  define k where "k = log2 (n + 1)"
  have b: "2 ^ k \<le> n + 1" "n + 1 < 2 ^ Suc k" using log2_bounds [of "n + 1"] by (simp_all add: k_def)
  have "k < 31"
  proof (rule ccontr)
    assume "\<not> k < 31"
    then have "(2::nat) ^ 31 \<le> 2 ^ k" by (intro power_increasing) simp_all
    with b(1) assms show False by simp
  qed
  have lead: "leading (replicate k False @ True # xs) = k" for xs
    by (induction k) (simp_all add: leading_def)
  have "(n + 1) mod 2 ^ k = n + 1 - 2 ^ k"
  proof -
    have "n + 1 - 2 ^ k < 2 ^ k" using b by simp
    then show ?thesis using b(1) by (metis le_mod_geq mod_less)
  qed
  with b(1) have v: "2 ^ k - 1 + bits_value (num_bits k (n + 1)) = n" by (simp add: bits_value_num)
  show ?thesis
    unfolding uev_spec_def ue_def Let_def k_def [symmetric]
    using \<open>k < 31\<close> v by (simp add: lead)
qed

section \<open>Parsers of bits\<close>

definition parses :: "(bitbuf \<Rightarrow> ('a \<times> bitbuf) res) \<Rightarrow> bool list \<Rightarrow> 'a \<Rightarrow> bool" where
  "parses r xs v \<longleftrightarrow> (\<forall>b rest. bitbuf_ok b \<longrightarrow> pending_bits b = xs @ rest \<longrightarrow>
     (\<exists>b'. r b = Inr (v, b') \<and> bitbuf_ok b' \<and> pending_bits b' = rest))"

definition skips_bits :: "(bitbuf \<Rightarrow> bitbuf res) \<Rightarrow> bool list \<Rightarrow> bool" where
  "skips_bits r xs \<longleftrightarrow> (\<forall>b rest. bitbuf_ok b \<longrightarrow> pending_bits b = xs @ rest \<longrightarrow>
     (\<exists>b'. r b = Inr b' \<and> bitbuf_ok b' \<and> pending_bits b' = rest))"

lemma parses_uev: "n < 2 ^ 31 - 1 \<Longrightarrow> parses srs_avc_nalu_read_uev (ue n) (word_of_nat n)"
  unfolding parses_def by (clarify, drule read_uev_spec) (auto simp: uev_ue)

lemma parses_flag: "parses srs_avc_nalu_read_bit [x] (of_bool x)"
  unfolding parses_def by (clarify, drule read_flag_spec) auto

lemma skips_Inr: "skips_bits Inr []"
  by (simp add: skips_bits_def)

lemma skips_bind: "skips_bits r xs \<Longrightarrow> skips_bits s ys \<Longrightarrow> skips_bits (\<lambda>b. bindR (r b) s) (xs @ ys)"
  unfolding skips_bits_def by fastforce

lemma parses_then: "parses r xs v \<Longrightarrow> skips_bits (s v) ys \<Longrightarrow> skips_bits (\<lambda>b. bindR (r b) (\<lambda>(v, b). s v b)) (xs @ ys)"
  unfolding parses_def skips_bits_def by fastforce

lemma skip_flags_bits: "length xs = n \<Longrightarrow> skips_bits (skip_flags n) xs"
proof (induction n arbitrary: xs)
  case 0
  then show ?case using skips_Inr by (simp add: skips_bits_def)
next
  case (Suc n)
  then obtain y ys where xs: "xs = [y] @ ys" "length ys = n" by (cases xs) auto
  have "skips_bits (\<lambda>b. bindR (srs_avc_nalu_read_bit b) (\<lambda>(_, b). skip_flags n b)) ([y] @ ys)"
    by (rule parses_then [OF parses_flag Suc.IH [OF xs(2)]])
  then show ?case by (simp add: skips_bits_def xs(1))
qed

lemma skip_uevs_bits: "\<forall>n \<in> set ns. n < 2 ^ 31 - 1 \<Longrightarrow> skips_bits (skip_uevs (length ns)) (concat (map ue ns))"
proof (induction ns)
  case Nil
  then show ?case using skips_Inr by (simp add: skips_bits_def)
next
  case (Cons n ns)
  have "skips_bits (\<lambda>b. bindR (srs_avc_nalu_read_uev b) (\<lambda>(_, b). skip_uevs (length ns) b)) (ue n @ concat (map ue ns))"
    by (rule parses_then [OF parses_uev Cons.IH]) (use Cons.prems in simp_all)
  then show ?case by (simp add: skips_bits_def)
qed

section \<open>The fields of a sequence parameter set\<close>

datatype pic_order = PicOrder0 nat | PicOrder1 bool nat nat "nat list" | PicOrder2

record sps_fields =
  sps_id :: nat
  sps_chroma_format :: nat
  sps_separate_planes :: bool
  sps_bit_depths :: "nat \<times> nat"
  sps_bypass :: bool
  sps_scaling_matrix :: bool
  sps_log2_max_frame_num :: nat
  sps_order :: pic_order
  sps_ref_frames :: nat
  sps_gaps :: bool
  sps_width_in_mbs :: nat
  sps_height_in_map_units :: nat
  sps_frame_mbs_only :: bool
  sps_adaptive :: bool
  sps_direct_8x8 :: bool
  sps_cropping :: "(nat \<times> nat \<times> nat \<times> nat) option"
  sps_vui :: "bool list option"

text \<open>A number of the order is its code number, which the code does not map to a signed one. A scaling matrix is encoded with none of its lists: the code does not skip their contents.\<close>

definition chroma_bits :: "sps_fields \<Rightarrow> bool list" where
  "chroma_bits s = ue (sps_chroma_format s)
     @ (if sps_chroma_format s = 3 then [sps_separate_planes s] else [])
     @ concat (map ue [fst (sps_bit_depths s), snd (sps_bit_depths s)]) @ [sps_bypass s] @ [sps_scaling_matrix s]
     @ (if sps_scaling_matrix s then replicate (if sps_chroma_format s \<noteq> 3 then 8 else 12) False else [])"

fun order_bits :: "pic_order \<Rightarrow> bool list" where
  "order_bits (PicOrder0 n) = ue 0 @ concat (map ue [n])"
| "order_bits (PicOrder1 z a b ns) = ue 1 @ [z] @ concat (map ue [a, b]) @ ue (length ns) @ concat (map ue ns)"
| "order_bits PicOrder2 = ue 2"

definition size_bits :: "8 word \<Rightarrow> sps_fields \<Rightarrow> bool list" where
  "size_bits profile s = ue (sps_id s) @ (if sps_has_chroma profile then chroma_bits s else [])
     @ concat (map ue [sps_log2_max_frame_num s]) @ order_bits (sps_order s) @ concat (map ue [sps_ref_frames s])
     @ [sps_gaps s] @ ue (sps_width_in_mbs s - 1) @ ue (sps_height_in_map_units s - 1)"

text \<open>The fields behind the height, which the demuxer does not read; the usability information is any bits.\<close>

definition more_bits :: "sps_fields \<Rightarrow> bool list" where
  "more_bits s = [sps_frame_mbs_only s] @ (if \<not> sps_frame_mbs_only s then [sps_adaptive s] else []) @ [sps_direct_8x8 s]
     @ (case sps_cropping s of None \<Rightarrow> [False] | Some (l, r, t, b) \<Rightarrow> True # concat (map ue [l, r, t, b]))
     @ (case sps_vui s of None \<Rightarrow> [False] | Some vui \<Rightarrow> True # vui)"

definition sps_bits :: "8 word \<Rightarrow> sps_fields \<Rightarrow> bool list" where
  "sps_bits profile s = size_bits profile s @ more_bits s"

definition ue_ok :: "nat \<Rightarrow> bool" where
  "ue_ok n \<longleftrightarrow> n < 2 ^ 31 - 1"

fun order_ok :: "pic_order \<Rightarrow> bool" where
  "order_ok (PicOrder0 n) = ue_ok n"
| "order_ok (PicOrder1 z a b ns) = (ue_ok a \<and> ue_ok b \<and> ue_ok (length ns) \<and> list_all ue_ok ns)"
| "order_ok PicOrder2 = True"

definition sps_ok :: "sps_fields \<Rightarrow> bool" where
  "sps_ok s \<longleftrightarrow> list_all ue_ok [sps_id s, sps_chroma_format s, fst (sps_bit_depths s), snd (sps_bit_depths s),
       sps_log2_max_frame_num s, sps_ref_frames s, sps_width_in_mbs s - 1, sps_height_in_map_units s - 1]
     \<and> 0 < sps_width_in_mbs s \<and> 0 < sps_height_in_map_units s \<and> order_ok (sps_order s)"

lemma parses_ue: "ue_ok n \<Longrightarrow> parses srs_avc_nalu_read_uev (ue n) (word_of_nat n)"
  by (simp add: ue_ok_def parses_uev)

lemma skip_ues: "list_all ue_ok ns \<Longrightarrow> length ns = k \<Longrightarrow> skips_bits (skip_uevs k) (concat (map ue ns))"
  using skip_uevs_bits [of ns] by (auto simp: ue_ok_def list_all_iff)

lemma skips_if: "(c \<Longrightarrow> skips_bits r xs) \<Longrightarrow> (\<not> c \<Longrightarrow> skips_bits s ys) \<Longrightarrow>
    skips_bits (\<lambda>b. if c then r b else s b) (if c then xs else ys)"
  by simp

lemma word_of_nat_small: "n < 2 ^ 32 \<Longrightarrow> m < 2 ^ 32 \<Longrightarrow> (word_of_nat n :: 32 word) = word_of_nat m \<longleftrightarrow> n = m"
  by (simp add: word_unat_eq_iff unat_of_nat)

lemma ue_ok_eq: "ue_ok n \<Longrightarrow> (word_of_nat n :: 32 word) = 3 \<longleftrightarrow> n = 3"
  using word_of_nat_small [of n 3] by (simp add: ue_ok_def)

lemma skips_chroma:
  assumes "sps_ok s"
  shows "skips_bits sps_chroma (chroma_bits s)"
proof -
  have ok: "ue_ok (sps_chroma_format s)" "list_all ue_ok [fst (sps_bit_depths s), snd (sps_bit_depths s)]"
    using assms by (simp_all add: sps_ok_def)
  have "skips_bits (\<lambda>b. bindR (srs_avc_nalu_read_uev b)
     (\<lambda>(c, b). bindR (if c = 3 then skip_flags 1 b else Inr b) (\<lambda>b. bindR (skip_uevs 2 b)
     (\<lambda>b. bindR (skip_flags 1 b) (\<lambda>b. bindR (srs_avc_nalu_read_bit b)
     (\<lambda>(m, b). if m \<noteq> 0 then skip_flags (if c \<noteq> 3 then 8 else 12) b else Inr b)))))) (chroma_bits s)"
    unfolding chroma_bits_def
    apply (rule parses_then [OF parses_ue [OF ok(1)]])
    unfolding ue_ok_eq [OF ok(1)]
    apply (rule skips_bind)
    subgoal by (rule skips_if) (simp_all add: skip_flags_bits skips_Inr del: skip_flags.simps)
    apply (rule skips_bind)
    subgoal by (rule skip_ues [OF ok(2)]) simp
    apply (rule skips_bind)
    subgoal by (rule skip_flags_bits) simp
    apply (rule parses_then [OF parses_flag])
    by (simp add: skips_Inr skip_flags_bits)
  then show ?thesis by (simp add: skips_bits_def sps_chroma_def)
qed

lemma sint_ue: "ue_ok n \<Longrightarrow> sint (word_of_nat n :: 32 word) = int n"
  by (simp add: ue_ok_def signed_of_nat signed_take_bit_int_eq_self)

lemma skips_order:
  assumes "order_ok p"
  shows "skips_bits sps_pic_order (order_bits p)"
proof -
  let ?k = "\<lambda>t b. if t = 0 then skip_uevs 1 b
        else if t = 1 then
          bindR (skip_flags 1 b)
          (\<lambda>b. bindR (skip_uevs 2 b)
          (\<lambda>b. bindR (srs_avc_nalu_read_uev b)
          (\<lambda>(num_ref_frames, b). bindR (check (\<not> sint num_ref_frames < 0) ERROR_HLS_DECODE_ERROR)
          (\<lambda>_. skip_uevs (nat (sint num_ref_frames)) b))))
        else Inr b"
  have run: "skips_bits (\<lambda>b. bindR (srs_avc_nalu_read_uev b) (\<lambda>(t, b). ?k t b)) (order_bits p)"
  proof (cases p)
    case (PicOrder0 n)
    show ?thesis unfolding PicOrder0 order_bits.simps
      by (rule parses_then [OF parses_ue]) (use assms PicOrder0 skip_ues [of "[n]" 1] in \<open>simp_all add: ue_ok_def del: skip_uevs.simps\<close>)
  next
    case (PicOrder1 z a b ns)
    with assms have ok: "list_all ue_ok [a, b]" "ue_ok (length ns)" "list_all ue_ok ns" by simp_all
    show ?thesis unfolding PicOrder1 order_bits.simps
      apply (rule parses_then [OF parses_ue])
       apply (simp add: ue_ok_def)
      apply (simp only: of_nat_1 one_neq_zero simp_thms if_False if_True)
      apply (rule skips_bind)
      subgoal by (rule skip_flags_bits) simp
      apply (rule skips_bind)
      subgoal by (rule skip_ues [OF ok(1)]) simp
      apply (rule parses_then [OF parses_ue [OF ok(2)]])
      by (use skip_ues [OF ok(3) refl] in \<open>simp add: sint_ue ok(2)\<close>)
  next
    case PicOrder2
    have "skips_bits (\<lambda>b. bindR (srs_avc_nalu_read_uev b) (\<lambda>(t, b). ?k t b)) (ue 2 @ [])"
      by (rule parses_then [OF parses_ue]) (simp_all add: ue_ok_def skips_Inr)
    then show ?thesis by (simp add: PicOrder2)
  qed
  then show ?thesis by (simp add: skips_bits_def sps_pic_order_def)
qed

lemma parses_bind:
  assumes "skips_bits r xs" and "parses s ys v"
  shows "parses (\<lambda>b. bindR (r b) s) (xs @ ys) v"
  using assms unfolding parses_def skips_bits_def by fastforce

lemma parses_parses:
  assumes "parses r xs v" and "parses (s v) ys w"
  shows "parses (\<lambda>b. bindR (r b) (\<lambda>(v, b). s v b)) (xs @ ys) w"
  using assms unfolding parses_def by fastforce

text \<open>The size that the demuxer computes; it knows nothing of fields and cropping.\<close>

definition sps_picture :: "sps_fields \<Rightarrow> 32 word \<times> 32 word" where
  "sps_picture s = (word_of_nat (16 * sps_width_in_mbs s), word_of_nat (16 * sps_height_in_map_units s))"

lemma sps_size_bits:
  assumes "sps_ok s" and "bitbuf_ok b" and "pending_bits b = size_bits profile s @ rest"
  shows "sps_size profile b = Inr (sps_picture s)"
proof -
  have ok: "ue_ok (sps_id s)" "list_all ue_ok [sps_log2_max_frame_num s]" "list_all ue_ok [sps_ref_frames s]"
    "ue_ok (sps_width_in_mbs s - 1)" "ue_ok (sps_height_in_map_units s - 1)" "order_ok (sps_order s)"
    using assms(1) by (simp_all add: sps_ok_def)
  let ?w = "sps_width_in_mbs s" and ?h = "sps_height_in_map_units s"
  let ?tail = "\<lambda>b. bindR (srs_avc_nalu_read_uev b) (\<lambda>(w, b). bindR (srs_avc_nalu_read_uev b)
     (\<lambda>(h, b). Inr (((w + 1) * 16, (h + 1) * 16), b)))"
  let ?v = "((word_of_nat (?w - 1) + 1) * 16, (word_of_nat (?h - 1) + 1) * 16)"
  have tail: "parses ?tail (ue (?w - 1) @ ue (?h - 1)) ?v"
  proof -
    have ret: "parses (\<lambda>b. Inr (x, b)) [] x" for x by (simp add: parses_def)
    have "parses ?tail (ue (?w - 1) @ (ue (?h - 1) @ [])) ?v"
      by (rule parses_parses [OF parses_ue [OF ok(4)]], rule parses_parses [OF parses_ue [OF ok(5)]], rule ret)
    then show ?thesis by simp
  qed
  have whole: "parses (\<lambda>b. bindR (srs_avc_nalu_read_uev b) (\<lambda>(i, b). bindR (check (\<not> sint i < 0) ERROR_HLS_DECODE_ERROR)
     (\<lambda>_. bindR (if sps_has_chroma profile then sps_chroma b else Inr b) (\<lambda>b. bindR (skip_uevs 1 b)
     (\<lambda>b. bindR (sps_pic_order b) (\<lambda>b. bindR (skip_uevs 1 b) (\<lambda>b. bindR (skip_flags 1 b) ?tail))))))) (size_bits profile s) ?v"
    unfolding size_bits_def
    apply (rule parses_parses [OF parses_ue [OF ok(1)]])
    apply (simp only: sint_ue [OF ok(1)] of_nat_less_0_iff not_False_eq_True check_True bindR_Inr)
    apply (rule parses_bind)
    subgoal by (rule skips_if) (simp_all add: skips_chroma assms(1) skips_Inr)
    apply (rule parses_bind)
    subgoal by (rule skip_ues [OF ok(2)]) simp
    apply (rule parses_bind [OF skips_order [OF ok(6)]])
    apply (rule parses_bind)
    subgoal by (rule skip_ues [OF ok(3)]) simp
    apply (rule parses_bind)
    subgoal by (rule skip_flags_bits) simp
    by (rule tail)
  have fst_bind: "bindR (bindR m k) (\<lambda>(x, _). Inr x) = bindR m (\<lambda>y. bindR (k y) (\<lambda>(x, _). Inr x))" for m k by (rule bindR_assoc)
  from whole assms(2,3) obtain b' where run: "bindR (srs_avc_nalu_read_uev b) (\<lambda>(i, b). bindR (check (\<not> sint i < 0) ERROR_HLS_DECODE_ERROR)
     (\<lambda>_. bindR (if sps_has_chroma profile then sps_chroma b else Inr b) (\<lambda>b. bindR (skip_uevs 1 b)
     (\<lambda>b. bindR (sps_pic_order b) (\<lambda>b. bindR (skip_uevs 1 b) (\<lambda>b. bindR (skip_flags 1 b) ?tail)))))) = Inr (?v, b')"
    unfolding parses_def by blast
  from arg_cong [OF run, of "\<lambda>r. bindR r (\<lambda>(x, _). Inr x)"]
  have "sps_size profile b = Inr ?v"
    unfolding sps_size_def bindR_assoc by (simp only: bindR_assoc case_prod_unfold bindR_Inr fst_conv snd_conv)
  moreover have "word_of_nat (n - 1) + 1 = (word_of_nat n :: 32 word)" if "0 < n" for n
    using that by (metis Suc_diff_1 add.commute of_nat_Suc)
  ultimately show ?thesis using assms(1) by (simp add: sps_picture_def sps_ok_def)
qed

section \<open>Emulation prevention\<close>

text \<open>The encoder inserts a 3 after two zeros when the next byte is at most 3; \<open>z\<close> counts the zeros.\<close>

fun emulate :: "nat \<Rightarrow> byte list \<Rightarrow> byte list" where
  "emulate z [] = []"
| "emulate z (x # xs) =
     (if 2 \<le> z \<and> x \<le> 3 then 3 # x # emulate (if x = 0 then 1 else 0) xs
      else x # emulate (if x = 0 then Suc z else 0) xs)"

text \<open>What the loop of the code needs: no 3 after three zeros.\<close>

fun no_0003 :: "nat \<Rightarrow> byte list \<Rightarrow> bool" where
  "no_0003 z [] = True"
| "no_0003 z (x # xs) = (\<not> (3 \<le> z \<and> x = 3) \<and> no_0003 (if x = 0 then Suc z else 0) xs)"

lemma nth_tail:
  "2 \<le> z \<Longrightarrow> (o1 @ replicate z (0 :: byte)) ! (length o1 + z - 2) = 0"
  "1 \<le> z \<Longrightarrow> (o1 @ replicate z (0 :: byte)) ! (length o1 + z - 1) = 0"
  by (auto simp: nth_append)

lemma tail_nth:
  assumes "o1 \<noteq> []" and "last o1 \<noteq> 0" and "(o1 @ replicate z (0 :: byte)) ! (length o1 + z - 1) = 0"
    and "(o1 @ replicate z (0 :: byte)) ! (length o1 + z - 2) = 0" and "2 < length o1 + z"
  shows "2 \<le> z"
proof (rule ccontr)
  assume "\<not> 2 \<le> z"
  then consider "z = 0" | "z = 1" by linarith
  then show False
    using assms by cases (auto simp: nth_append last_conv_nth split: if_splits)
qed

text \<open>What the encoder counts after some bytes.\<close>

fun zeros_after :: "nat \<Rightarrow> byte list \<Rightarrow> nat" where
  "zeros_after z [] = z"
| "zeros_after z (x # xs) = zeros_after (if 2 \<le> z \<and> x \<le> 3 then (if x = 0 then 1 else 0) else if x = 0 then Suc z else 0) xs"

lemma rbsp_emulate_append:
  assumes "o1 \<noteq> []" and "last o1 \<noteq> 0" and "no_0003 z xs" and "z \<le> 2 \<Longrightarrow> y = z" and "3 \<le> z \<Longrightarrow> 1 \<le> y"
  shows "rbsp_of (o1 @ replicate z 0) (emulate y (xs @ ys)) = rbsp_of (o1 @ replicate z 0 @ xs) (emulate (zeros_after y xs) ys)"
  using assms
proof (induction xs arbitrary: o1 z y)
  case Nil
  then show ?case by simp
next
  case (Cons x xs)
  let ?out = "o1 @ replicate z 0"
  have grow: "rbsp_of (?out @ [x]) (emulate y' (xs @ ys)) = rbsp_of (o1 @ replicate z 0 @ x # xs) (emulate (zeros_after y' xs) ys)"
    if "x = 0 \<Longrightarrow> z \<le> 1 \<Longrightarrow> y' = Suc z" and "x = 0 \<Longrightarrow> 2 \<le> z \<Longrightarrow> 1 \<le> y'" and "x \<noteq> 0 \<Longrightarrow> y' = 0" for y'
  proof (cases "x = 0")
    case True
    have "?out @ [0] = o1 @ replicate (Suc z) 0" by (simp add: replicate_append_same)
    with Cons.IH [of o1 "Suc z" y'] Cons.prems that True show ?thesis
      by (simp add: replicate_append_same [symmetric])
  next
    case False
    with Cons.IH [of "?out @ [x]" 0 y'] Cons.prems that show ?thesis by simp
  qed
  show ?case
  proof (cases "2 \<le> y \<and> x \<le> 3")
    case True
    then have z: "2 \<le> z" using Cons.prems(4) by (cases "z \<le> 2") auto
    have "0 < length o1" using Cons.prems(1) by simp
    then have "2 < length ?out" using z unfolding length_append length_replicate by linarith
    moreover have "?out ! (length ?out - 2) = 0" "?out ! (length ?out - 1) = 0" using nth_tail [of z o1] z by simp_all
    ultimately have "rbsp_of ?out (3 # x # emulate (if x = 0 then 1 else 0) (xs @ ys))
      = rbsp_of (?out @ [x]) (emulate (if x = 0 then 1 else 0) (xs @ ys))"
      by simp
    also have "\<dots> = rbsp_of (o1 @ replicate z 0 @ x # xs) (emulate (zeros_after (if x = 0 then 1 else 0) xs) ys)"
      by (rule grow) (use z in auto)
    finally show ?thesis using True by simp
  next
    case False
    have keep: "\<not> (2 < length ?out \<and> ?out ! (length ?out - 2) = 0 \<and> ?out ! (length ?out - 1) = 0 \<and> x = 3)"
    proof
      assume a: "2 < length ?out \<and> ?out ! (length ?out - 2) = 0 \<and> ?out ! (length ?out - 1) = 0 \<and> x = 3"
      with tail_nth [of o1 z] Cons.prems(1,2) have "2 \<le> z" by simp
      with a False Cons.prems(3,4) show False by (cases "z = 2") auto
    qed
    have "emulate y (x # xs @ ys) = x # emulate (if x = 0 then Suc y else 0) (xs @ ys)" using False by auto
    moreover have "rbsp_of ?out (x # emulate (if x = 0 then Suc y else 0) (xs @ ys))
      = rbsp_of (?out @ [x]) (emulate (if x = 0 then Suc y else 0) (xs @ ys))"
      using keep by auto
    moreover have "\<dots> = rbsp_of (o1 @ replicate z 0 @ x # xs) (emulate (zeros_after (if x = 0 then Suc y else 0) xs) ys)"
      by (rule grow) (use Cons.prems(4) in auto)
    moreover have "zeros_after y (x # xs) = zeros_after (if x = 0 then Suc y else 0) xs" using False by auto
    ultimately show ?thesis by simp
  qed
qed

lemma rbsp_emulate:
  assumes "o1 \<noteq> []" and "last o1 \<noteq> 0" and "no_0003 0 xs"
  shows "rbsp_of o1 (emulate 0 xs) = o1 @ xs"
  using rbsp_emulate_append [OF assms(1,2), of 0 xs 0 "[]"] assms(3) by simp

lemma rbsp_of_emulate:
  assumes "x \<noteq> 0" and "no_0003 0 xs"
  shows "rbsp_of [] (emulate 0 (x # xs)) = x # xs"
  using rbsp_emulate [of "[x]" xs] assms by simp

text \<open>
  The encoder escapes the bytes after every second zero. The loop of the code looks at the last two bytes
  of its output, also when the first of them came before a byte that it dropped.
\<close>

lemma zeros_after_append: "zeros_after z (xs @ ys) = zeros_after (zeros_after z xs) ys"
  by (induction xs arbitrary: z) auto

lemma zeros_after_last: "xs \<noteq> [] \<Longrightarrow> last xs \<noteq> 0 \<Longrightarrow> zeros_after z xs = 0"
  by (cases xs rule: rev_cases) (simp_all add: zeros_after_append)

lemma zeros_after_odd: "odd k \<Longrightarrow> zeros_after 0 (replicate k 0) = 1"
proof -
  have "zeros_after 1 (replicate (2 * n) 0) = 1" for n
    by (induction n) (simp_all add: numeral_2_eq_2)
  then show "odd k \<Longrightarrow> zeros_after 0 (replicate k 0) = 1" by (auto elim!: oddE)
qed

lemma no_0003_zeros: "no_0003 z (replicate k 0)"
  by (induction k arbitrary: z) simp_all

lemma no_0003_append: "no_0003 z xs \<Longrightarrow> xs \<noteq> [] \<Longrightarrow> last xs \<noteq> 0 \<Longrightarrow> no_0003 0 ys \<Longrightarrow> no_0003 z (xs @ ys)"
  by (induction xs arbitrary: z) (auto split: if_splits)

end
