(* ===== verification/Srs_Format_Config.thy ===== *)
theory Srs_Format_Config
  imports Srs_Format_Samples Srs_Sps
begin

text \<open>
  The sequence header of H.264: the demuxer reads back the decoder configuration record that is
  encoded here, with the picture size of its sequence parameter set.
\<close>

section \<open>A sequence parameter set as bytes\<close>

definition byte_of_bits :: "bool list \<Rightarrow> byte" where
  "byte_of_bits bs = horner_sum of_bool 2 (rev bs)"

fun bits_bytes :: "bool list \<Rightarrow> byte list" where
  "bits_bytes [] = []"
| "bits_bytes (x # xs) = byte_of_bits (take 8 (x # xs @ replicate 7 False)) # bits_bytes (drop 7 xs)"

lemma msb_first_byte: "length bs = 8 \<Longrightarrow> msb_first (byte_of_bits bs) = bs"
  by (rule nth_equalityI) (auto simp: msb_first_def byte_of_bits_def bit_horner_sum_bit_word_iff rev_nth simp del: upt_rec_numeral)

lemma take_8_Cons: "take 8 (x # xs) = x # take 7 xs"
  by (simp add: numeral_eq_Suc)

lemma bits_bytes_bits: "\<exists>pad. concat (map msb_first (bits_bytes xs)) = xs @ pad"
proof (induction xs rule: bits_bytes.induct)
  case (2 x xs)
  then obtain pad where pad: "concat (map msb_first (bits_bytes (drop 7 xs))) = drop 7 xs @ pad" by blast
  have "msb_first (byte_of_bits (take 8 (x # xs @ replicate 7 False))) = take 8 (x # xs @ replicate 7 False)"
    by (rule msb_first_byte) simp
  also have "\<dots> = x # take 7 (xs @ replicate 7 False)" by (rule take_8_Cons)
  also have "\<dots> = x # take 7 xs @ replicate (7 - length xs) False" by (simp only: take_append take_replicate min_def diff_le_self if_True)
  finally have "concat (map msb_first (bits_bytes (x # xs))) = (x # xs) @ replicate (7 - length xs) False @ pad"
    using pad append_take_drop_id [of 7 xs] by (cases "7 \<le> length xs") (simp_all flip: append_assoc)
  then show ?case by blast
qed simp

text \<open>The bytes of the set: the NAL header, the profile, the flags and the level, the fields, the stop bit.\<close>

definition sps_rest :: "byte \<Rightarrow> byte \<Rightarrow> byte \<Rightarrow> sps_fields \<Rightarrow> byte list" where
  "sps_rest profile flags level s = flags # level # bits_bytes (sps_bits profile s @ [True])"

definition sps_nalu :: "byte \<Rightarrow> byte \<Rightarrow> byte \<Rightarrow> byte \<Rightarrow> sps_fields \<Rightarrow> byte list" where
  "sps_nalu nal profile flags level s = nal # emulate 0 (profile # sps_rest profile flags level s)"

definition sps_header_ok :: "byte \<Rightarrow> byte \<Rightarrow> byte \<Rightarrow> byte \<Rightarrow> bool" where
  "sps_header_ok nal profile flags level \<longleftrightarrow> and (signed_drop_bit 7 nal) 1 = 0 \<and> and (signed_drop_bit 5 nal) 3 \<noteq> 0
     \<and> and nal 0x1F = 7 \<and> profile \<noteq> 0 \<and> and flags 3 = 0 \<and> level \<noteq> 0"

lemma demux_sps:
  assumes "fm_vcodec f = Some c" and "fm_avc_parse_sps f" and "vc_sps c = sps_nalu nal profile flags level s"
    and "sps_header_ok nal profile flags level" and "no_0003 0 (sps_rest profile flags level s)" and "sps_ok s"
  shows "avc_demux_sps f = (Inr (), f\<lparr>fm_vcodec := Some (c\<lparr>vc_width := fst (sps_picture s), vc_height := snd (sps_picture s)\<rparr>)\<rparr>)"
proof -
  let ?e = "emulate 0 (profile # sps_rest profile flags level s)"
  let ?b = "\<lambda>bs p. \<lparr>sb_null = False, sb_bytes = bs, sb_pos = p\<rparr>"
  have rbsp: "rbsp_of [] ?e = profile # sps_rest profile flags level s"
    by (rule rbsp_of_emulate) (use assms(4,5) in \<open>simp_all add: sps_header_ok_def\<close>)
  have nal: "bindR (buf_initialize (Some (vc_sps c))) nalu_head = Inr ((), ?b (nal # ?e) 1)"
  proof -
    have "upcoming (?b (nal # ?e) 0) = nal # ?e" by (simp add: upcoming_def)
    from upcoming_Cons [OF this] assms(4) show ?thesis
      by (simp add: assms(3) sps_nalu_def buf_initialize_def nalu_head_def need_eq room_def sps_header_ok_def adv_def)
  qed
  let ?r = "profile # sps_rest profile flags level s"
  have head: "sps_head (?b ?r 0) = Inr (profile, ?b ?r 3)"
  proof -
    have "upcoming (?b ?r 0) = profile # drop 1 ?r" "upcoming (?b ?r 1) = flags # drop 2 ?r" "upcoming (?b ?r 2) = level # drop 3 ?r"
      by (simp_all add: upcoming_def sps_rest_def numeral_eq_Suc)
    note r = this [THEN upcoming_Cons]
    have r2: "read_1bytes (?b ?r (Suc 0)) = Inr (flags, ?b ?r 2)" "read_1bytes (?b ?r 2) = Inr (level, ?b ?r 3)"
      using r(2,3) by (simp_all add: adv_def numeral_2_eq_2 numeral_3_eq_3)
    show ?thesis using r(1) r2 assms(4)
      by (simp add: sps_head_def need_eq room_def sps_header_ok_def adv_def sps_rest_def)
  qed
  have size: "sps_size profile (bit_initialize (?b ?r 3)) = Inr (sps_picture s)"
  proof -
    obtain pad where "concat (map msb_first (bits_bytes (sps_bits profile s @ [True]))) = (sps_bits profile s @ [True]) @ pad"
      using bits_bytes_bits by blast
    then have "pending_bits (bit_initialize (?b ?r 3)) = size_bits profile s @ more_bits s @ True # pad"
      by (simp add: sps_bits_def pending_bits_def bit_initialize_def upcoming_def sps_rest_def numeral_3_eq_3)
    from sps_size_bits [OF assms(6) bits_init this] show ?thesis by simp
  qed
  have "avc_demux_sps_rbsp ?r f = (Inr (), f\<lparr>fm_vcodec := Some (c\<lparr>vc_width := fst (sps_picture s), vc_height := snd (sps_picture s)\<rparr>)\<rparr>)"
    using assms(1,2) head size
    by (simp add: avc_demux_sps_rbsp_def bindP_def prog_eqs pure_fm_def buf_initialize_def vcodec_upd_def deref_def case_prod_unfold)
  moreover have "avc_demux_sps f = avc_demux_sps_rbsp ?r f"
    using assms(1) nal rbsp
    by (simp add: avc_demux_sps_def bindP_def deref_def pure_fm_def upcoming_def) (simp add: assms(3) sps_nalu_def)
  ultimately show ?thesis by simp
qed

section \<open>The decoder configuration record\<close>

definition parameter_set :: "byte \<Rightarrow> byte list \<Rightarrow> byte list" where
  "parameter_set k xs = k # be 2 (word_of_nat (length xs) :: 16 word) @ xs"

lemma length_parameter_set [simp]: "length (parameter_set k xs) = 3 + length xs"
  by (simp add: parameter_set_def)

definition avc_record :: "byte \<Rightarrow> byte \<Rightarrow> byte \<Rightarrow> byte \<Rightarrow> byte list \<Rightarrow> byte list \<Rightarrow> byte list" where
  "avc_record profile compatibility level l sps pps = [1, profile, compatibility, level, l] @ parameter_set 0xE1 sps @ parameter_set 1 pps"

lemma one_set_run:
  assumes "fm_buffer f = \<lparr>sb_null = False, sb_bytes = bs, sb_pos = p\<rparr>" and "drop p bs = parameter_set k xs @ rest"
    and "and k 0x1F = 1" and "xs \<noteq> []" and "length xs < 2 ^ 16"
  shows "one_parameter_set f = (Inr (Some xs), f\<lparr>fm_buffer := \<lparr>sb_null = False, sb_bytes = bs, sb_pos = p + 3 + length xs\<rparr>\<rparr>)"
proof -
  let ?b = "\<lambda>q. \<lparr>sb_null = False, sb_bytes = bs, sb_pos = q\<rparr>"
  let ?n = "word_of_nat (length xs) :: 16 word"
  have n: "uint ?n = int (length xs)" using assms(5) by (simp add: unsigned_of_nat take_bit_nat_eq_self)
  then have n2: "unat ?n = length xs" by (simp flip: nat_uint_eq)
  have p: "drop (p + 1) bs = be 2 ?n @ xs @ rest" "drop (p + 3) bs = xs @ rest"
  proof -
    have "drop 1 (drop p bs) = be 2 ?n @ xs @ rest" by (simp add: assms(2) parameter_set_def)
    then show "drop (p + 1) bs = be 2 ?n @ xs @ rest" by (simp add: add.commute)
    have "drop 3 (drop p bs) = xs @ rest" by (simp add: assms(2) parameter_set_def numeral_3_eq_3)
    then show "drop (p + 3) bs = xs @ rest" by (simp add: add.commute)
  qed
  have len: "p + 3 + length xs \<le> length bs"
  proof -
    have "length bs - p = 3 + length xs + length rest" using arg_cong [OF assms(2), of length] by (simp add: parameter_set_def)
    then show ?thesis by linarith
  qed
  have up: "upcoming (?b p) = k # be 2 ?n @ xs @ rest" "upcoming (?b (p + 1)) = be 2 ?n @ xs @ rest" "upcoming (?b (p + 3)) = xs @ rest"
    using assms(2) p by (simp_all add: upcoming_def parameter_set_def)
  have r: "read_1bytes (?b p) = Inr (k, ?b (Suc p))" "read_2bytes (?b (Suc p)) = Inr (?n, ?b (p + 3))"
    "read_bytes (int (length xs)) (?b (p + 3)) = Inr (xs, ?b (p + 3 + length xs))"
    using upcoming_Cons [OF up(1)] read_be(2) [OF up(2)] fetch_upcoming [OF up(3) assms(4)]
    by (simp_all add: adv_def read_bytes_def numeral_3_eq_3)
  show ?thesis
    using assms(1,3,4) len
    by (simp add: one_parameter_set_def bindP_def want_def on_buf_def need_eq room_def r n n2 prog_eqs)
qed

definition at_config :: "byte \<Rightarrow> byte \<Rightarrow> byte \<Rightarrow> byte \<Rightarrow> byte list \<Rightarrow> byte list \<Rightarrow> sps_fields \<Rightarrow> video_config \<Rightarrow> video_config" where
  "at_config profile compatibility level l sps pps s c = c\<lparr>vc_id := 7, vc_extra_data := avc_record profile compatibility level l sps pps,
     vc_profile := sint profile, vc_level := sint level, vc_nal_unit_length := and l 3, vc_sps := sps, vc_pps := pps,
     vc_width := fst (sps_picture s), vc_height := snd (sps_picture s)\<rparr>"

lemma config_run:
  assumes sps_def: "sps = sps_nalu nal profile' flags level' s"
    and "and l 3 \<noteq> 2" and "fm_avc_parse_sps f" and "sps_header_ok nal profile' flags level'"
    and "no_0003 0 (sps_rest profile' flags level' s)" and "sps_ok s" and "length sps < 2 ^ 16" and "0 < length pps" and "length pps < 2 ^ 16"
  shows "\<exists>f'. avc_demux_sps_pps (at_body t tag 0 cts (avc_record profile compatibility level l sps pps) f) = (Inr (), f')
    \<and> fm_vcodec f' = Some (at_config profile compatibility level l sps pps s (start_codec f))
    \<and> fm_video f' = fm_video (at_body t tag 0 cts (avc_record profile compatibility level l sps pps) f)"
proof -
  let ?rec = "avc_record profile compatibility level l sps pps"
  let ?m = "avc_message tag 0 cts ?rec"
  let ?f = "at_body t tag 0 cts ?rec f"
  let ?b = "\<lambda>q. \<lparr>sb_null = False, sb_bytes = ?m, sb_pos = q\<rparr>"
  let ?sets = "parameter_set 0xE1 sps @ parameter_set 1 pps"
  have d: "drop 5 ?m = [1, profile, compatibility, level, l] @ ?sets" "drop 10 ?m = parameter_set 0xE1 sps @ parameter_set 1 pps @ []"
    by (simp_all add: avc_message_def avc_record_def)
  have ne: "sps \<noteq> []" by (simp add: sps_def sps_nalu_def)
  let ?p = "10 + 3 + length sps"
  have d2: "drop ?p ?m = parameter_set 1 pps @ []"
  proof -
    have "drop (3 + length sps) (drop 10 ?m) = parameter_set 1 pps" unfolding d(2) by (simp add: drop_append)
    then show ?thesis by (simp add: add.commute add.left_commute)
  qed
  have up: "upcoming (?b 5) = 1 # drop 6 ?m" "upcoming (?b 6) = profile # drop 7 ?m" "upcoming (?b 7) = compatibility # drop 8 ?m"
    "upcoming (?b 8) = level # drop 9 ?m" "upcoming (?b 9) = l # drop 10 ?m"
    by (simp_all add: upcoming_def avc_message_def avc_record_def)
  have r: "read_1bytes (?b 5) = Inr (1, ?b 6)" "read_1bytes (?b 6) = Inr (profile, ?b 7)" "read_1bytes (?b 7) = Inr (compatibility, ?b 8)"
    "read_1bytes (?b 8) = Inr (level, ?b 9)" "read_1bytes (?b 9) = Inr (l, ?b 10)"
    using up [THEN upcoming_Cons] by (simp_all add: adv_def)
  let ?c = "(start_codec f)\<lparr>vc_id := 7, vc_extra_data := ?rec, vc_profile := sint profile, vc_level := sint level, vc_nal_unit_length := and l 3\<rparr>"
  let ?f1 = "?f\<lparr>fm_vcodec := Some ?c, fm_buffer := ?b 10\<rparr>"
  have len: "11 \<le> length ?m" by (simp add: avc_message_def avc_record_def parameter_set_def)
  define rest where "rest = bindP one_parameter_set
     (\<lambda>sps. bindP (case sps of Some bs \<Rightarrow> vcodec_upd (\<lambda>c. c\<lparr>vc_sps := bs\<rparr>) | None \<Rightarrow> returnP ())
     (\<lambda>_. bindP one_parameter_set
     (\<lambda>pps. bindP (case pps of Some bs \<Rightarrow> vcodec_upd (\<lambda>c. c\<lparr>vc_pps := bs\<rparr>) | None \<Rightarrow> returnP ())
     (\<lambda>_. avc_demux_sps))))"
  have u5: "upcoming (?b 5) = ?rec" by (simp add: upcoming_def avc_message_def)
  have "?rec \<noteq> []" by (simp add: avc_record_def)
  have head: "avc_demux_sps_pps ?f = rest ?f1"
  proof -
    show ?thesis using assms(2) \<open>?rec \<noteq> []\<close> len u5
      by (simp add: avc_demux_sps_pps_def rest_def [symmetric] bindP_def rest_bytes_def prog_eqs vcodec_upd_def deref_def
          want_def on_buf_def need_eq room_def r at_body_def)
        (cases f, simp)
  qed
  let ?c1 = "?c\<lparr>vc_sps := sps\<rparr>"
  let ?f2 = "?f1\<lparr>fm_buffer := ?b ?p, fm_vcodec := Some ?c1\<rparr>"
  have s1: "one_parameter_set ?f1 = (Inr (Some sps), ?f1\<lparr>fm_buffer := ?b ?p\<rparr>)"
    by (rule one_set_run [OF _ d(2)]) (use ne assms(7) in simp_all)
  have s2: "one_parameter_set ?f2 = (Inr (Some pps), ?f2\<lparr>fm_buffer := ?b (?p + 3 + length pps)\<rparr>)"
    by (rule one_set_run [OF _ d2]) (use assms(8,9) in simp_all)
  let ?f3 = "?f2\<lparr>fm_buffer := ?b (?p + 3 + length pps), fm_vcodec := Some (?c1\<lparr>vc_pps := pps\<rparr>)\<rparr>"
  have "rest ?f1 = avc_demux_sps ?f3"
    using s1 s2 by (simp add: rest_def bindP_def vcodec_upd_def deref_def prog_eqs)
  also have "\<dots> = (Inr (), ?f3\<lparr>fm_vcodec := Some ((?c1\<lparr>vc_pps := pps\<rparr>)\<lparr>vc_width := fst (sps_picture s), vc_height := snd (sps_picture s)\<rparr>)\<rparr>)"
    by (rule demux_sps) (use assms(3-6) in \<open>simp_all add: sps_def at_body_def\<close>)
  finally show ?thesis by (simp add: head at_config_def)
qed

text \<open>C20: A sequence header of H.264 that encodes a decoder configuration record is read back: the codec
  has the record, its profile and level, the size of the lengths, the parameter sets, and as picture size
  the macroblocks of the sequence parameter set times 16, whatever its profile, its order type and the fields behind the
  height are. The side conditions: lengths do not have three bytes; the parameter set has a valid NAL header, profile, flags and
  level, numbers below \<open>2^31 - 1\<close>, no lists in its scaling matrix (the code does not skip them) and nowhere a byte 3 after
  three zeros (the code drops it); the two sets are not empty and shorter than \<open>2^16\<close> bytes; and
  the configuration lets sequence parameter sets be parsed.\<close>

theorem avc_config_roundtrip:
  assumes "sps = sps_nalu nal profile' flags level' s"
    and "low_nibble tag = SrsVideoCodecIdAVC" and "high_nibble tag \<noteq> 5" and "and l 3 \<noteq> 2" and "fm_avc_parse_sps f"
    and "sps_header_ok nal profile' flags level'" and "no_0003 0 (sps_rest profile' flags level' s)" and "sps_ok s"
    and "length sps < 2 ^ 16" and "0 < length pps" and "length pps < 2 ^ 16"
  shows "\<exists>f'. format_on_video t (Some (avc_message tag 0 cts (avc_record profile compatibility level l sps pps))) f = (Inr (), f')
    \<and> fm_vcodec f' = Some (at_config profile compatibility level l sps pps s (start_codec f))
    \<and> is_avc_sequence_header f'"
proof -
  obtain f' where "avc_demux_sps_pps (at_body t tag 0 cts (avc_record profile compatibility level l sps pps) f) = (Inr (), f')"
    "fm_vcodec f' = Some (at_config profile compatibility level l sps pps s (start_codec f))"
    "fm_video f' = fm_video (at_body t tag 0 cts (avc_record profile compatibility level l sps pps) f)"
    using config_run [OF assms(1,4,5,6,7,8,9,10,11)] by blast
  then show ?thesis
    using on_video_body [OF assms(2,3), of t 0]
    by (simp add: is_avc_sequence_header_def at_config_def at_body_def)
qed

text \<open>
  A parameter set that the encoder x264 writes for 640 by 360 pictures: High profile, 23 rows of macroblocks with the
  last 8 lines cropped, and usability information with emulation prevention.
\<close>

definition x264_vui :: "bool list" where
  "x264_vui = [True, False, False, False, False]
     @ concat (map msb_first [0x11, 0, 0, 0, 1, 0, 0, 0, 0x32, 0x0F, 0x16, 0x2D]) @ [True, False, False, True, False, True]"

definition x264_sps :: sps_fields where
  "x264_sps = \<lparr>sps_id = 0, sps_chroma_format = 1, sps_separate_planes = False, sps_bit_depths = (0, 0), sps_bypass = False,
     sps_scaling_matrix = False, sps_log2_max_frame_num = 0, sps_order = PicOrder0 2, sps_ref_frames = 4, sps_gaps = False,
     sps_width_in_mbs = 40, sps_height_in_map_units = 23, sps_frame_mbs_only = True, sps_adaptive = False,
     sps_direct_8x8 = True, sps_cropping = Some (0, 0, 0, 4), sps_vui = Some x264_vui\<rparr>"

lemma x264_bytes: "sps_nalu 0x67 0x64 0 0x1E x264_sps = [0x67, 0x64, 0x00, 0x1E, 0xAC, 0xD9, 0x40, 0xA0, 0x2F, 0xF9, 0x70,
    0x11, 0x00, 0x00, 0x03, 0x00, 0x01, 0x00, 0x00, 0x03, 0x00, 0x32, 0x0F, 0x16, 0x2D, 0x96]"
  by code_simp

lemma avc_config_roundtrip_witness:
  "let sps = [0x67, 0x64, 0x00, 0x1E, 0xAC, 0xD9, 0x40, 0xA0, 0x2F, 0xF9, 0x70,
      0x11, 0x00, 0x00, 0x03, 0x00, 0x01, 0x00, 0x00, 0x03, 0x00, 0x32, 0x0F, 0x16, 0x2D, 0x96];
      pps = [0x68, 0xEB, 0xEC, 0xB2, 0x2C]
   in \<exists>f' c. format_on_video 0 (Some (avc_message 0x17 0 0 (avc_record 0x64 0 0x1E 0xFF sps pps))) format_new = (Inr (), f')
      \<and> fm_vcodec f' = Some c \<and> vc_width c = 640 \<and> vc_height c = 368 \<and> vc_nal_unit_length c = 3
      \<and> vc_sps c = sps \<and> vc_pps c = pps \<and> is_avc_sequence_header f'"
proof -
  let ?sps = "sps_nalu 0x67 0x64 0 0x1E x264_sps" and ?pps = "[0x68, 0xEB, 0xEC, 0xB2, 0x2C]"
  have h: "low_nibble 0x17 = SrsVideoCodecIdAVC" "high_nibble 0x17 \<noteq> 5" "and (0xFF :: byte) 3 \<noteq> 2" "fm_avc_parse_sps format_new"
    "sps_header_ok 0x67 0x64 0 0x1E" "no_0003 0 (sps_rest 0x64 0 0x1E x264_sps)" by code_simp+
  have ok: "sps_ok x264_sps" by (simp add: sps_ok_def x264_sps_def ue_ok_def)
  have len: "length ?sps < 2 ^ 16" unfolding x264_bytes by simp
  have c: "vc_width (at_config p a l i s t x264_sps c) = 640" "vc_height (at_config p a l i s t x264_sps c) = 368"
    "vc_nal_unit_length (at_config p a l i s t x264_sps c) = and i 3" "vc_pps (at_config p a l i s t x264_sps c) = t"
    "vc_sps (at_config p a l i s t x264_sps c) = s" for p a l i s t c
    by (simp_all add: at_config_def sps_picture_def x264_sps_def)
  from avc_config_roundtrip [where pps = ?pps and t = 0 and cts = 0 and profile = "0x64" and compatibility = 0 and level = "0x1E",
      OF refl h ok len] obtain f' where
    "format_on_video 0 (Some (avc_message 0x17 0 0 (avc_record 0x64 0 0x1E 0xFF ?sps ?pps))) format_new = (Inr (), f')"
    "fm_vcodec f' = Some (at_config 0x64 0 0x1E 0xFF ?sps ?pps x264_sps (start_codec format_new))"
    "is_avc_sequence_header f'" by auto
  moreover have "and (0xFF :: byte) 3 = 3" by simp
  ultimately show ?thesis unfolding Let_def x264_bytes by (auto simp: c)
qed



end
