(* ===== verification/Srs_File.thy ===== *)
theory Srs_File
  imports Srs_Prelude
begin

text \<open>
  The files of the muxers: \<^verbatim>\<open>SrsFileWriter\<close> and \<^verbatim>\<open>SrsFileReader\<close>
  (\<^verbatim>\<open>src/src/kernel/srs_kernel_file.cpp\<close>), over the system calls on a regular file as POSIX
  describes them.
\<close>

section \<open>The system calls\<close>

text \<open>
  An open file has its bytes and an offset. \<open>of_plan\<close> says how the next transfers go: \<open>None\<close> fails,
  \<open>Some n\<close> transfers at most \<open>n\<close> bytes; behind the plan all bytes are transferred.
\<close>

record os_file =
  of_bytes :: "byte list"
  of_pos :: nat
  of_append :: bool
  of_plan :: "nat option list"

definition os_count :: "nat \<Rightarrow> os_file \<Rightarrow> nat option \<times> os_file" where
  "os_count n f = (case of_plan f of
     [] \<Rightarrow> (Some n, f)
   | x # xs \<Rightarrow> (map_option (min n) x, f\<lparr>of_plan := xs\<rparr>))"

text \<open>A write behind the end fills the gap with zeros.\<close>

definition os_put :: "byte list \<Rightarrow> os_file \<Rightarrow> os_file" where
  "os_put bs f =
     (let p = (if of_append f then length (of_bytes f) else of_pos f)
      in if bs = [] then f
         else f\<lparr>of_bytes := take p (of_bytes f) @ replicate (p - length (of_bytes f)) 0 @ bs
                  @ drop (p + length bs) (of_bytes f), of_pos := p + length bs\<rparr>)"

definition os_write :: "byte list \<Rightarrow> os_file \<Rightarrow> nat option \<times> os_file" where
  "os_write bs f = (case os_count (length bs) f of
     (None, f) \<Rightarrow> (None, f)
   | (Some n, f) \<Rightarrow> (Some n, os_put (take n bs) f))"

definition os_read :: "nat \<Rightarrow> os_file \<Rightarrow> byte list option \<times> os_file" where
  "os_read n f = (case os_count n f of
     (None, f) \<Rightarrow> (None, f)
   | (Some k, f) \<Rightarrow> let bs = take k (drop (of_pos f) (of_bytes f))
                      in (Some bs, f\<lparr>of_pos := of_pos f + length bs\<rparr>))"

datatype seek_base = SEEK_SET | SEEK_CUR | SEEK_END

definition os_lseek :: "int \<Rightarrow> seek_base \<Rightarrow> os_file \<Rightarrow> int \<times> os_file" where
  "os_lseek offset base f =
     (let p = (case base of SEEK_SET \<Rightarrow> 0 | SEEK_CUR \<Rightarrow> int (of_pos f) | SEEK_END \<Rightarrow> int (length (of_bytes f))) + offset
      in if p < 0 then (- 1, f) else (p, f\<lparr>of_pos := nat p\<rparr>))"

section \<open>The writer and the reader\<close>

text \<open>Both classes hold the path and the descriptor; \<open>fi_file\<close> is what the descriptor refers to.\<close>

record file_io =
  fi_path :: string
  fi_fd :: int
  fi_file :: os_file

definition file_new :: "os_file \<Rightarrow> file_io" where
  "file_new junk = \<lparr>fi_path = [], fi_fd = - 1, fi_file = junk\<rparr>"

text \<open>A call on a descriptor that is not open fails.\<close>

definition on_fd :: "'a \<Rightarrow> (os_file \<Rightarrow> 'a \<times> os_file) \<Rightarrow> (file_io, 'a) prog" where
  "on_fd bad call = (\<lambda>s. if fi_fd s < 0 then (Inr bad, s)
     else case call (fi_file s) of (x, f) \<Rightarrow> (Inr x, s\<lparr>fi_file := f\<rparr>))"

text \<open>\<open>fd\<close> is the result of \<^verbatim>\<open>::open\<close> and \<open>disk\<close> the file of that path.\<close>

definition file_open_as :: "(os_file \<Rightarrow> os_file) \<Rightarrow> int \<Rightarrow> os_file \<Rightarrow> string \<Rightarrow> (file_io, unit) prog" where
  "file_open_as mode fd disk p =
     bindP (getP fi_fd) (\<lambda>old. bindP (checkP (\<not> old > 0) ERROR_SYSTEM_FILE_ALREADY_OPENED)
     (\<lambda>_. bindP (modifyP (\<lambda>s. s\<lparr>fi_fd := fd\<rparr>))
     (\<lambda>_. bindP (checkP (\<not> fd < 0) ERROR_SYSTEM_FILE_OPENE)
     (\<lambda>_. modifyP (\<lambda>s. s\<lparr>fi_path := p, fi_file := mode disk\<rparr>)))))"

definition writer_open :: "int \<Rightarrow> os_file \<Rightarrow> string \<Rightarrow> (file_io, unit) prog" where
  "writer_open = file_open_as (\<lambda>d. d\<lparr>of_bytes := [], of_pos := 0, of_append := False\<rparr>)"

definition writer_open_append :: "int \<Rightarrow> os_file \<Rightarrow> string \<Rightarrow> (file_io, unit) prog" where
  "writer_open_append = file_open_as (\<lambda>d. d\<lparr>of_pos := 0, of_append := True\<rparr>)"

definition reader_open :: "int \<Rightarrow> os_file \<Rightarrow> string \<Rightarrow> (file_io, unit) prog" where
  "reader_open = file_open_as (\<lambda>d. d\<lparr>of_pos := 0, of_append := False\<rparr>)"

text \<open>\<open>r\<close> is the result of \<^verbatim>\<open>::close\<close>; the method returns nothing.\<close>

definition file_close :: "int \<Rightarrow> (file_io, unit) prog" where
  "file_close r = modifyP (\<lambda>s. if fi_fd s < 0 \<or> r < 0 then s else s\<lparr>fi_fd := - 1\<rparr>)"

definition file_is_open :: "file_io \<Rightarrow> bool" where
  "file_is_open s \<longleftrightarrow> fi_fd s > 0"

definition writer_seek2 :: "int \<Rightarrow> (file_io, unit) prog" where
  "writer_seek2 offset = bindP (on_fd (- 1) (os_lseek offset SEEK_SET)) (\<lambda>r0. checkP (r0 \<noteq> - 1) ASSERT_FAILED)"

definition file_tellg :: "(file_io, int) prog" where
  "file_tellg = on_fd (- 1) (os_lseek 0 SEEK_CUR)"

definition writer_write :: "byte list \<Rightarrow> (file_io, nat) prog" where
  "writer_write bs = bindP (on_fd None (os_write bs))
     (\<lambda>n. case n of None \<Rightarrow> raiseP ERROR_SYSTEM_FILE_WRITE | Some n \<Rightarrow> returnP n)"

fun writer_writev :: "byte list list \<Rightarrow> (file_io, nat) prog" where
  "writer_writev [] = returnP 0"
| "writer_writev (v # vs) = bindP (writer_write v) (\<lambda>n. bindP (writer_writev vs) (\<lambda>m. returnP (n + m)))"

definition file_lseek :: "int \<Rightarrow> seek_base \<Rightarrow> (file_io, int) prog" where
  "file_lseek offset base = bindP (on_fd (- 1) (os_lseek offset base))
     (\<lambda>sk. bindP (checkP (\<not> sk < 0) ERROR_SYSTEM_FILE_SEEK) (\<lambda>_. returnP sk))"

definition reader_skip :: "int \<Rightarrow> (file_io, unit) prog" where
  "reader_skip n = bindP (on_fd (- 1) (os_lseek n SEEK_CUR)) (\<lambda>r0. checkP (r0 \<noteq> - 1) ASSERT_FAILED)"

definition reader_seek2 :: "int \<Rightarrow> (file_io, int) prog" where
  "reader_seek2 offset = on_fd (- 1) (os_lseek offset SEEK_SET)"

definition reader_filesize :: "(file_io, int) prog" where
  "reader_filesize = bindP file_tellg
     (\<lambda>cur. bindP (on_fd (- 1) (os_lseek 0 SEEK_END))
     (\<lambda>sz. bindP (on_fd (- 1) (os_lseek cur SEEK_SET))
     (\<lambda>r0. bindP (checkP (r0 \<noteq> - 1) ASSERT_FAILED) (\<lambda>_. returnP sz))))"

text \<open>
  \<^verbatim>\<open>read(buf, count, NULL)\<close>: the bytes go to the front of the array, whose other cells stay; the
  caller does not learn how many there were.
\<close>

definition reader_read :: "nat \<Rightarrow> (file_io, byte list) prog" where
  "reader_read n = bindP (on_fd None (os_read n))
     (\<lambda>r. case r of
        None \<Rightarrow> raiseP ERROR_SYSTEM_FILE_READ
      | Some bs \<Rightarrow> bindP (checkP (length bs \<noteq> 0) ERROR_SYSTEM_FILE_EOF) (\<lambda>_. returnP bs))"

definition overlay :: "'a list \<Rightarrow> 'a list \<Rightarrow> 'a list" where
  "overlay bs arr = bs @ drop (length bs) arr"

end
