(* ===== verification/Srs_Flv_File.thy ===== *)
theory Srs_Flv_File
  imports Srs_File Srs_Buffer Srs_Flv_Message Srs_Send
begin

text \<open>
  FLV files (\<^verbatim>\<open>src/src/kernel/srs_kernel_flv.cpp\<close> from \<^verbatim>\<open>SrsFlvTransmuxer\<close> on): the muxer, for the
  build with \<^verbatim>\<open>SRS_PERF_FAST_FLV_ENCODER\<close>, the decoder of tags, and the decoder that finds the
  sequence headers for playing from an offset.
\<close>

abbreviation SRS_FLV_TAG_HEADER_SIZE :: nat where "SRS_FLV_TAG_HEADER_SIZE \<equiv> 11"
abbreviation SRS_FLV_PREVIOUS_TAG_SIZE :: nat where "SRS_FLV_PREVIOUS_TAG_SIZE \<equiv> 4"

abbreviation SrsFrameTypeAudio :: byte where "SrsFrameTypeAudio \<equiv> 8"
abbreviation SrsFrameTypeVideo :: byte where "SrsFrameTypeVideo \<equiv> 9"
abbreviation SrsFrameTypeScript :: byte where "SrsFrameTypeScript \<equiv> 18"

section \<open>The muxer\<close>

text \<open>
  \<open>fx_tag_header\<close> is the array in the object; the three caches of \<^verbatim>\<open>write_tags\<close> grow and are never
  shrunk. \<open>fx_io\<close> is the writer, a file.
\<close>

record flv_muxer =
  fx_io :: file_io
  fx_tag_header :: "byte list"
  fx_nb_tag_headers :: nat
  fx_tag_headers :: "byte list"
  fx_nb_iovss_cache :: nat
  fx_nb_ppts :: nat
  fx_ppts :: "byte list"

definition flv_muxer_new :: "byte list \<Rightarrow> file_io \<Rightarrow> flv_muxer" where
  "flv_muxer_new junk io = \<lparr>fx_io = io, fx_tag_header = junk, fx_nb_tag_headers = 0, fx_tag_headers = [],
     fx_nb_iovss_cache = 0, fx_nb_ppts = 0, fx_ppts = []\<rparr>"

definition on_io :: "(file_io, 'a) prog \<Rightarrow> (flv_muxer, 'a) prog" where
  "on_io m = (\<lambda>s. case m (fx_io s) of (r, io) \<Rightarrow> (r, s\<lparr>fx_io := io\<rparr>))"

text \<open>A header of a tag, written into the 11 bytes of a cache; the cache is the buffer.\<close>

definition write_metadata_to_cache :: "byte \<Rightarrow> byte list option \<Rightarrow> byte list \<Rightarrow> byte list res" where
  "write_metadata_to_cache type data cache =
     bindR (check (data \<noteq> None) ASSERT_FAILED)
     (\<lambda>_. bindR (buf_initialize (Some cache))
     (\<lambda>s. bindR (write_1bytes type s)
     (\<lambda>s. bindR (write_3bytes (word_of_nat (length (the data))) s)
     (\<lambda>s. bindR (write_3bytes 0 s)
     (\<lambda>s. bindR (write_1bytes 0 s)
     (\<lambda>s. bindR (write_3bytes 0 s) (\<lambda>s. Inr (sb_bytes s))))))))"

definition write_audio_to_cache :: "64 word \<Rightarrow> byte list option \<Rightarrow> byte list \<Rightarrow> byte list res" where
  "write_audio_to_cache timestamp data cache =
     bindR (check (data \<noteq> None) ASSERT_FAILED)
     (\<lambda>_. let timestamp = and timestamp 0x7FFFFFFF in bindR (buf_initialize (Some cache))
     (\<lambda>s. bindR (write_1bytes SrsFrameTypeAudio s)
     (\<lambda>s. bindR (write_3bytes (word_of_nat (length (the data))) s)
     (\<lambda>s. bindR (write_3bytes (ucast timestamp) s)
     (\<lambda>s. bindR (write_1bytes (ucast (and (signed_drop_bit 24 timestamp) 0xFF)) s)
     (\<lambda>s. bindR (write_3bytes 0 s) (\<lambda>s. Inr (sb_bytes s))))))))"

definition write_video_to_cache :: "64 word \<Rightarrow> byte list option \<Rightarrow> byte list \<Rightarrow> byte list res" where
  "write_video_to_cache timestamp data cache =
     bindR (check (data \<noteq> None) ASSERT_FAILED)
     (\<lambda>_. let timestamp = and timestamp 0x7FFFFFFF in bindR (buf_initialize (Some cache))
     (\<lambda>s. bindR (write_1bytes SrsFrameTypeVideo s)
     (\<lambda>s. bindR (write_3bytes (word_of_nat (length (the data))) s)
     (\<lambda>s. bindR (write_3bytes (ucast timestamp) s)
     (\<lambda>s. bindR (write_1bytes (ucast (and (signed_drop_bit 24 timestamp) 0xFF)) s)
     (\<lambda>s. bindR (write_3bytes 0 s) (\<lambda>s. Inr (sb_bytes s))))))))"

definition write_pts_to_cache :: "int \<Rightarrow> byte list \<Rightarrow> byte list res" where
  "write_pts_to_cache sz cache = bindR (buf_initialize (Some cache))
     (\<lambda>s. bindR (write_4bytes (word_of_int sz) s) (\<lambda>s. Inr (sb_bytes s)))"

definition size_tag :: "int \<Rightarrow> int res" where
  "size_tag data_size = bindR (check (data_size \<ge> 0) ASSERT_FAILED)
     (\<lambda>_. Inr (int SRS_FLV_TAG_HEADER_SIZE + data_size + int SRS_FLV_PREVIOUS_TAG_SIZE))"

definition flv_header :: "byte list" where
  "flv_header = [0x46, 0x4C, 0x56, 0x01, 0x05, 0x00, 0x00, 0x00, 0x09]"

definition write_header_bytes :: "byte list \<Rightarrow> (flv_muxer, unit) prog" where
  "write_header_bytes h = bindP (on_io (writer_write h))
     (\<lambda>_. bindP (on_io (writer_write [0x00, 0x00, 0x00, 0x00])) (\<lambda>_. returnP ()))"

definition flv_write_header :: "(flv_muxer, unit) prog" where
  "flv_write_header = write_header_bytes flv_header"

text \<open>\<open>pre\<close> is the uninitialized array of the size behind the tag.\<close>

definition write_tag :: "byte list \<Rightarrow> byte list \<Rightarrow> byte list \<Rightarrow> (flv_muxer, unit) prog" where
  "write_tag pre header tag =
     bindP (liftR (write_pts_to_cache (int (length tag) + int (length header)) pre))
     (\<lambda>pre_size. bindP (on_io (writer_writev [header, tag, pre_size])) (\<lambda>_. returnP ()))"

text \<open>The header is written into the array of the object, then the tag.\<close>

definition write_one :: "byte list \<Rightarrow> (byte list \<Rightarrow> byte list res) \<Rightarrow> byte list option \<Rightarrow> (flv_muxer, unit) prog" where
  "write_one pre to_cache data =
     bindP (liftR (check (data \<noteq> None) ASSERT_FAILED))
     (\<lambda>_. bindP (getP fx_tag_header)
     (\<lambda>cache. bindP (liftR (to_cache cache))
     (\<lambda>header. bindP (modifyP (\<lambda>s. s\<lparr>fx_tag_header := header\<rparr>)) (\<lambda>_. write_tag pre header (the data)))))"

definition flv_write_metadata :: "byte list \<Rightarrow> byte \<Rightarrow> byte list option \<Rightarrow> (flv_muxer, unit) prog" where
  "flv_write_metadata pre type data = write_one pre (write_metadata_to_cache type data) data"

definition flv_write_audio :: "byte list \<Rightarrow> 64 word \<Rightarrow> byte list option \<Rightarrow> (flv_muxer, unit) prog" where
  "flv_write_audio pre timestamp data = write_one pre (write_audio_to_cache timestamp data) data"

definition flv_write_video :: "byte list \<Rightarrow> 64 word \<Rightarrow> byte list option \<Rightarrow> (flv_muxer, unit) prog" where
  "flv_write_video pre timestamp data = write_one pre (write_video_to_cache timestamp data) data"

subsection \<open>Many tags at once\<close>

text \<open>
  The vectors point into the caches until they are written: header \<open>i\<close>, payload, size \<open>i\<close>. A new
  cache has arbitrary content \<open>junk\<close>.
\<close>

definition grow_caches :: "(nat \<Rightarrow> byte list) \<Rightarrow> nat \<Rightarrow> flv_muxer \<Rightarrow> flv_muxer" where
  "grow_caches junk n s =
     (let s = (if fx_nb_iovss_cache s < 3 * n then s\<lparr>fx_nb_iovss_cache := 3 * n\<rparr> else s);
          s = (if fx_nb_tag_headers s < n
               then s\<lparr>fx_nb_tag_headers := n, fx_tag_headers := junk (SRS_FLV_TAG_HEADER_SIZE * n)\<rparr> else s)
      in if fx_nb_ppts s < n
         then s\<lparr>fx_nb_ppts := n, fx_ppts := junk (SRS_FLV_PREVIOUS_TAG_SIZE * n)\<rparr> else s)"

definition cell :: "nat \<Rightarrow> nat \<Rightarrow> byte list \<Rightarrow> byte list" where
  "cell n i arr = take n (drop (n * i) arr)"

definition put_cell :: "nat \<Rightarrow> nat \<Rightarrow> byte list \<Rightarrow> byte list \<Rightarrow> byte list" where
  "put_cell n i bs arr = take (n * i) arr @ bs @ drop (n * i + n) arr"

text \<open>One message: which header it gets depends on its type, which is in the heap.\<close>

definition tag_to_cache :: "shared_msg \<Rightarrow> byte list option \<Rightarrow> byte list \<Rightarrow> (sp_heap, byte list) prog" where
  "tag_to_cache m data cache = bindP (sm_is_audio m)
     (\<lambda>audio. if audio then liftR (write_audio_to_cache (sm_timestamp m) data cache)
        else bindP (sm_is_video m)
          (\<lambda>video. if video then liftR (write_video_to_cache (sm_timestamp m) data cache)
             else liftR (write_metadata_to_cache SrsFrameTypeScript data cache)))"

text \<open>The payload of a message: \<^verbatim>\<open>payload\<close> and \<^verbatim>\<open>size\<close>.\<close>

definition msg_data :: "shared_msg \<Rightarrow> byte list option res" where
  "msg_data m = (case sm_payload m of
     None \<Rightarrow> Inr None
   | Some arr \<Rightarrow> bindR (payload_bytes (sm_size m) arr) (\<lambda>bs. Inr (Some bs)))"

fun cache_tags :: "nat \<Rightarrow> shared_msg list \<Rightarrow> (sp_heap \<times> flv_muxer, byte list list) prog" where
  "cache_tags i [] = returnP []"
| "cache_tags i (m # ms) = bindP (liftR (msg_data m))
     (\<lambda>data. bindP (getP (\<lambda>(h, s). cell SRS_FLV_TAG_HEADER_SIZE i (fx_tag_headers s)))
     (\<lambda>cache. bindP (\<lambda>(h, s). case tag_to_cache m data cache h of (r, h) \<Rightarrow> (r, (h, s)))
     (\<lambda>header. bindP (modifyP (\<lambda>(h, s). (h, s\<lparr>fx_tag_headers := put_cell SRS_FLV_TAG_HEADER_SIZE i header (fx_tag_headers s)\<rparr>)))
     (\<lambda>_. bindP (getP (\<lambda>(h, s). cell SRS_FLV_PREVIOUS_TAG_SIZE i (fx_ppts s)))
     (\<lambda>pts. bindP (liftR (write_pts_to_cache (int SRS_FLV_TAG_HEADER_SIZE + sm_size m) pts))
     (\<lambda>sz. bindP (modifyP (\<lambda>(h, s). (h, s\<lparr>fx_ppts := put_cell SRS_FLV_PREVIOUS_TAG_SIZE i sz (fx_ppts s)\<rparr>)))
     (\<lambda>_. bindP (cache_tags (Suc i) ms)
     (\<lambda>datas. returnP (the data # datas)))))))))"

definition write_tags :: "(nat \<Rightarrow> byte list) \<Rightarrow> shared_msg list \<Rightarrow> (sp_heap \<times> flv_muxer, unit) prog" where
  "write_tags junk msgs =
     bindP (modifyP (\<lambda>(h, s). (h, grow_caches junk (length msgs) s)))
     (\<lambda>_. bindP (cache_tags 0 msgs)
     (\<lambda>datas. bindP (getP (\<lambda>(h, s). concat (map (\<lambda>(i, d). [cell SRS_FLV_TAG_HEADER_SIZE i (fx_tag_headers s), d,
          cell SRS_FLV_PREVIOUS_TAG_SIZE i (fx_ppts s)]) (zip [0..<length datas] datas))))
     (\<lambda>iovss. \<lambda>(h, s). case on_io (writer_writev iovss) s of
        (Inl e, s) \<Rightarrow> (Inl e, (h, s)) | (Inr _, s) \<Rightarrow> (Inr (), (h, s)))))"

section \<open>The decoder\<close>

text \<open>Cells of an array on the stack are unwritten until a read fills them.\<close>

type_synonym cells = "byte option list"

definition char_at :: "cells \<Rightarrow> nat \<Rightarrow> ('s, byte) prog" where
  "char_at a i = liftR (if i < length a then (case a ! i of None \<Rightarrow> Inl UNDEFINED_BEHAVIOUR | Some b \<Rightarrow> Inr b)
     else Inl UNDEFINED_BEHAVIOUR)"

definition read_into :: "nat \<Rightarrow> cells \<Rightarrow> (file_io, cells) prog" where
  "read_into n a = bindP (checkP (n \<le> length a) UNDEFINED_BEHAVIOUR)
     (\<lambda>_. bindP (reader_read n) (\<lambda>bs. returnP (overlay (map Some bs) a)))"

definition flv_read_header :: "cells \<Rightarrow> (file_io, cells) prog" where
  "flv_read_header header = bindP (read_into 9 header)
     (\<lambda>h. bindP (char_at h 0)
     (\<lambda>c. if c \<noteq> 0x46 then raiseP ERROR_KERNEL_FLV_HEADER
        else bindP (char_at h 1)
     (\<lambda>c. if c \<noteq> 0x4C then raiseP ERROR_KERNEL_FLV_HEADER
        else bindP (char_at h 2)
     (\<lambda>c. if c \<noteq> 0x56 then raiseP ERROR_KERNEL_FLV_HEADER else returnP h))))"

definition flv_read_tag_header :: "(file_io, byte \<times> 32 word \<times> 32 word) prog" where
  "flv_read_tag_header = bindP (read_into 11 (replicate 11 None))
     (\<lambda>th. bindP (char_at th 0) (\<lambda>t. bindP (char_at th 1) (\<lambda>s1. bindP (char_at th 2) (\<lambda>s2. bindP (char_at th 3)
     (\<lambda>s3. bindP (char_at th 4) (\<lambda>t4. bindP (char_at th 5) (\<lambda>t5. bindP (char_at th 6) (\<lambda>t6. bindP (char_at th 7)
     (\<lambda>t7. returnP (and t 0x1F, word_of_mem [s3, s2, s1, 0], word_of_mem [t6, t5, t4, t7]))))))))))"

text \<open>The array of the caller; that there is one, which the code asserts, is part of the type.\<close>

definition flv_read_tag_data :: "cells \<Rightarrow> 32 word \<Rightarrow> (file_io, cells) prog" where
  "flv_read_tag_data data sz = read_into (unat sz) data"

definition flv_read_previous_tag_size :: "cells \<Rightarrow> (file_io, cells) prog" where
  "flv_read_previous_tag_size a = read_into 4 a"

section \<open>The decoder for playing from an offset\<close>

definition vod_initialize :: "(file_io, unit) prog" where
  "vod_initialize = bindP (getP file_is_open) (\<lambda>b. checkP b ERROR_KERNEL_FLV_STREAM_CLOSED)"

definition vod_read_header_ext :: "cells \<Rightarrow> (file_io, cells) prog" where
  "vod_read_header_ext header = read_into 13 header"

record vod_scan =
  vs_got_video :: bool
  vs_got_audio :: bool
  vs_start :: int
  vs_end :: int

text \<open>A tag of audio or video: where the tags start and end.\<close>

definition vod_note :: "bool \<Rightarrow> int \<Rightarrow> vod_scan \<Rightarrow> (file_io, vod_scan) prog" where
  "vod_note video data_size v =
     (let v = (if video then v\<lparr>vs_got_video := True\<rparr> else v\<lparr>vs_got_audio := True\<rparr>) in
      bindP (if vs_start v < 0
             then bindP file_tellg (\<lambda>p. returnP (v\<lparr>vs_start := p - int SRS_FLV_TAG_HEADER_SIZE\<rparr>)) else returnP v)
      (\<lambda>v. bindP file_tellg
      (\<lambda>p. bindP (reader_skip (data_size + int SRS_FLV_PREVIOUS_TAG_SIZE))
      (\<lambda>_. returnP (v\<lparr>vs_end := p + data_size + int SRS_FLV_PREVIOUS_TAG_SIZE\<rparr>)))))"

text \<open>The loop; each round reads at least a byte, so that the bytes of the file are enough fuel.\<close>

fun vod_loop :: "nat \<Rightarrow> byte list \<Rightarrow> vod_scan \<Rightarrow> (file_io, vod_scan) prog" where
  "vod_loop 0 tag_header v = raiseP OUT_OF_FUEL"
| "vod_loop (Suc n) tag_header v = bindP (reader_read SRS_FLV_TAG_HEADER_SIZE)
     (\<lambda>bs. let tag_header = overlay bs tag_header in
      bindP (liftR (bindR (buf_initialize (Some tag_header)) read_1bytes))
      (\<lambda>(tag_type, s). bindP (liftR (read_3bytes s))
      (\<lambda>(data_size, s). let is_video = (tag_type = 0x09); is_audio = (tag_type = 0x08); data_size = uint data_size in
         if \<not> is_video \<and> \<not> is_audio
         then bindP (reader_skip (data_size + int SRS_FLV_PREVIOUS_TAG_SIZE)) (\<lambda>_. vod_loop n tag_header v)
         else if is_video \<and> vs_got_video v then returnP v
         else if is_audio \<and> vs_got_audio v then returnP v
         else bindP (vod_note is_video data_size v) (vod_loop n tag_header))))"

text \<open>The result is what is assigned to \<^verbatim>\<open>*pstart\<close> and \<^verbatim>\<open>*psize\<close>, if anything is.\<close>

definition read_sequence_header_summary :: "(file_io, (int \<times> 32 word) option) prog" where
  "read_sequence_header_summary = bindP (getP (\<lambda>s. length (of_bytes (fi_file s))))
     (\<lambda>n. bindP (vod_loop (Suc n) (replicate 11 0) \<lparr>vs_got_video = False, vs_got_audio = False, vs_start = - 1, vs_end = - 1\<rparr>)
     (\<lambda>v. if vs_start v > 0
        then bindP (reader_seek2 (vs_start v)) (\<lambda>_. returnP (Some (vs_start v, word_of_int (vs_end v - vs_start v))))
        else returnP None))"

definition vod_seek2 :: "int \<Rightarrow> (file_io, unit) prog" where
  "vod_seek2 offset = bindP reader_filesize
     (\<lambda>n. bindP (checkP (\<not> offset \<ge> n) ERROR_SYSTEM_FILE_EOF)
     (\<lambda>_. bindP (reader_seek2 offset) (\<lambda>r. checkP (\<not> r < 0) ERROR_SYSTEM_FILE_SEEK)))"

end
