(* ===== verification/Srs_Flv_File_Laws.thy ===== *)
theory Srs_Flv_File_Laws
  imports Srs_Flv_File
begin

text \<open>
  What the muxer puts into a file and what the decoder gets out of it.
\<close>

section \<open>A writer that stands at the end\<close>

text \<open>No call of the system fails or is cut short, and what is written is appended.\<close>

definition at_end :: "file_io \<Rightarrow> bool" where
  "at_end io \<longleftrightarrow> 0 \<le> fi_fd io \<and> of_plan (fi_file io) = []
     \<and> (of_append (fi_file io) \<or> of_pos (fi_file io) = length (of_bytes (fi_file io)))"

definition grown :: "byte list \<Rightarrow> file_io \<Rightarrow> file_io" where
  "grown bs io = io\<lparr>fi_file := os_put bs (fi_file io)\<rparr>"

lemma file_write_at_end: "at_end io \<Longrightarrow> writer_write bs io = (Inr (length bs), grown bs io)"
  by (cases io, cases "fi_file io")
    (simp add: at_end_def writer_write_def bindP_def on_fd_def os_write_def os_count_def prog_simps grown_def)

lemma at_end_grown [simp]: "at_end io \<Longrightarrow> at_end (grown bs io)"
  by (cases io, cases "fi_file io") (auto simp: at_end_def grown_def os_put_def Let_def)

lemma bytes_grown [simp]:
  "at_end io \<Longrightarrow> of_bytes (fi_file (grown bs io)) = of_bytes (fi_file io) @ bs"
  by (cases io, cases "fi_file io") (auto simp: at_end_def grown_def os_put_def Let_def)

lemma grown_grown: "at_end io \<Longrightarrow> grown ys (grown xs io) = grown (xs @ ys) io"
  by (cases io, cases "fi_file io") (auto simp: at_end_def grown_def os_put_def Let_def)

lemma grown_Nil [simp]: "grown [] io = io"
  by (cases io) (simp add: grown_def os_put_def)

lemma file_writev_at_end:
  "at_end io \<Longrightarrow> writer_writev vs io = (Inr (length (concat vs)), grown (concat vs) io)"
  by (induction vs arbitrary: io) (simp_all add: bindP_def file_write_at_end prog_simps grown_grown)

lemma on_io_writev:
  "at_end (fx_io s) \<Longrightarrow> on_io (writer_writev vs) s
     = (Inr (length (concat vs)), s\<lparr>fx_io := grown (concat vs) (fx_io s)\<rparr>)"
  "at_end (fx_io s) \<Longrightarrow> on_io (writer_write v) s = (Inr (length v), s\<lparr>fx_io := grown v (fx_io s)\<rparr>)"
  by (simp_all add: on_io_def file_writev_at_end file_write_at_end)

section \<open>The bytes of a tag\<close>

definition tag_head :: "byte \<Rightarrow> 32 word \<Rightarrow> nat \<Rightarrow> byte list" where
  "tag_head ty time n = ty # be 3 (word_of_nat n :: 32 word) @ be 3 time @ byte_at 3 time # [0, 0, 0]"

definition tag_bytes :: "byte \<Rightarrow> 32 word \<Rightarrow> byte list \<Rightarrow> byte list" where
  "tag_bytes ty time data = tag_head ty time (length data) @ data @ be 4 (word_of_nat (length data + 11) :: 32 word)"

text \<open>The time of a tag: the low 31 bits.\<close>

definition tag_time :: "64 word \<Rightarrow> 32 word" where
  "tag_time timestamp = ucast (take_bit 31 timestamp)"

lemma length_tag_head [simp]: "length (tag_head ty t n) = 11"
  by (simp add: tag_head_def)

lemma tag_head_ne [simp]: "tag_head ty t n \<noteq> []"
  by (simp add: tag_head_def)

lemma be_1_byte: "be (Suc 0) (w :: byte) = [w]"
  by (simp add: be_def mem_of_word_def byte_at_def)

lemma be_3_zero: "be 3 (0 :: 32 word) = [0, 0, 0]"
  by (simp add: be_def mem_of_word_def byte_at_def numeral_3_eq_3)

lemma and_31: "and timestamp (0x7FFFFFFF :: 64 word) = take_bit 31 timestamp"
  by (simp add: take_bit_eq_mask mask_eq_exp_minus_1)

lemma time_top_byte:
  "ucast (and (signed_drop_bit 24 (take_bit 31 timestamp)) (0xFF :: 64 word)) = byte_at 3 (tag_time timestamp)"
proof (rule bit_word_eqI)
  fix i assume "i < LENGTH(8)"
  have m: "(0xFF :: 64 word) = mask 8" by (simp add: mask_eq_exp_minus_1)
  show "bit (ucast (and (signed_drop_bit 24 (take_bit 31 timestamp)) (0xFF :: 64 word)) :: byte) i
      = bit (byte_at 3 (tag_time timestamp)) i"
    unfolding m using \<open>i < LENGTH(8)\<close>
    by (auto simp: bit_byte_at tag_time_def bit_ucast_iff bit_and_iff bit_signed_drop_bit_iff bit_take_bit_iff
        bit_mask_iff)
qed

lemma buffer_11:
  assumes "length cache = 11"
  shows "bindR (buf_initialize (Some cache)) (\<lambda>s. bindR (write_1bytes a s) (\<lambda>s. bindR (write_3bytes b s)
    (\<lambda>s. bindR (write_3bytes c s) (\<lambda>s. bindR (write_1bytes d s) (\<lambda>s. bindR (write_3bytes e s)
    (\<lambda>s. Inr (sb_bytes s))))))) = Inr (a # be 3 b @ be 3 c @ d # be 3 e)"
proof -
  have i: "buf_initialize (Some cache) = Inr \<lparr>sb_null = False, sb_bytes = cache, sb_pos = 0\<rparr>"
    using assms by (auto simp: buf_initialize_def)
  show ?thesis unfolding i
    by (simp add: codec_simps put_put room_put put_def room_def assms be_1_byte)
qed

lemmas to_cache_defs = write_metadata_to_cache_def write_audio_to_cache_def write_video_to_cache_def

lemma to_cache_eqs:
  assumes "length cache = 11"
  shows "write_metadata_to_cache ty (Some data) cache = Inr (tag_head ty 0 (length data))"
    and "write_audio_to_cache t (Some data) cache = Inr (tag_head 8 (tag_time t) (length data))"
    and "write_video_to_cache t (Some data) cache = Inr (tag_head 9 (tag_time t) (length data))"
  using buffer_11 [OF assms]
  by (simp_all add: to_cache_defs Let_def and_31 time_top_byte tag_head_def be_3_zero)
    (simp_all add: byte_at_def tag_time_def)

lemma pts_to_cache_eq:
  assumes "length cache = 4"
  shows "write_pts_to_cache (int n) cache = Inr (be 4 (word_of_nat n :: 32 word))"
proof -
  have i: "buf_initialize (Some cache) = Inr \<lparr>sb_null = False, sb_bytes = cache, sb_pos = 0\<rparr>"
    using assms by (auto simp: buf_initialize_def)
  show ?thesis unfolding write_pts_to_cache_def i
    by (simp add: codec_simps put_def room_def assms)
qed

section \<open>Writing tags one at a time\<close>

datatype mux_op = Write_metadata byte "byte list" | Write_audio "64 word" "byte list" | Write_video "64 word" "byte list"

fun op_data :: "mux_op \<Rightarrow> byte list" where
  "op_data (Write_metadata ty data) = data"
| "op_data (Write_audio t data) = data"
| "op_data (Write_video t data) = data"

fun op_type :: "mux_op \<Rightarrow> byte" where
  "op_type (Write_metadata ty data) = ty"
| "op_type (Write_audio t data) = 8"
| "op_type (Write_video t data) = 9"

fun op_time :: "mux_op \<Rightarrow> 32 word" where
  "op_time (Write_metadata ty data) = 0"
| "op_time (Write_audio t data) = tag_time t"
| "op_time (Write_video t data) = tag_time t"

definition op_head :: "mux_op \<Rightarrow> byte list" where
  "op_head op = tag_head (op_type op) (op_time op) (length (op_data op))"

definition op_bytes :: "mux_op \<Rightarrow> byte list" where
  "op_bytes op = tag_bytes (op_type op) (op_time op) (op_data op)"

text \<open>The method that an operation stands for, with the array of the size on its stack.\<close>

fun run_op :: "byte list \<Rightarrow> mux_op \<Rightarrow> (flv_muxer, unit) prog" where
  "run_op pre (Write_metadata ty data) = flv_write_metadata pre ty (Some data)"
| "run_op pre (Write_audio t data) = flv_write_audio pre t (Some data)"
| "run_op pre (Write_video t data) = flv_write_video pre t (Some data)"

fun run_ops :: "byte list \<Rightarrow> mux_op list \<Rightarrow> (flv_muxer, unit) prog" where
  "run_ops pre [] = returnP ()"
| "run_ops pre (op # ops) = bindP (run_op pre op) (\<lambda>_. run_ops pre ops)"

definition mux_ready :: "flv_muxer \<Rightarrow> bool" where
  "mux_ready s \<longleftrightarrow> at_end (fx_io s) \<and> length (fx_tag_header s) = 11"

lemma write_one_eq:
  assumes "mux_ready s" and "length pre = 4" and "to_cache (fx_tag_header s) = Inr hd'" and "length hd' = 11"
  shows "write_one pre to_cache (Some data) s
    = (Inr (), s\<lparr>fx_tag_header := hd', fx_io := grown (hd' @ data @ be 4 (word_of_nat (length data + 11) :: 32 word)) (fx_io s)\<rparr>)"
proof -
  have p: "write_pts_to_cache (int (length data) + int (length hd')) pre
      = Inr (be 4 (word_of_nat (length data + 11) :: 32 word))"
    using pts_to_cache_eq [OF assms(2), of "length data + 11"] assms(4) by simp
  from assms(1) have e: "at_end (fx_io (s\<lparr>fx_tag_header := hd'\<rparr>))" by (simp add: mux_ready_def)
  show ?thesis
    by (simp add: write_one_def write_tag_def bindP_def prog_simps liftR_def assms(3) p on_io_writev [OF e]
        del: of_nat_add writer_writev.simps)
qed

lemma run_op_eq:
  assumes "mux_ready s" and "length pre = 4"
  shows "run_op pre op s = (Inr (), s\<lparr>fx_tag_header := op_head op, fx_io := grown (op_bytes op) (fx_io s)\<rparr>)"
proof -
  from assms(1) have l: "length (fx_tag_header s) = 11" by (simp add: mux_ready_def)
  show ?thesis
  proof (cases op)
    case (Write_metadata ty data)
    then show ?thesis
      using write_one_eq [where to_cache = "write_metadata_to_cache ty (Some data)" and data = data, OF assms to_cache_eqs(1) [OF l]]
      by (simp add: flv_write_metadata_def op_head_def op_bytes_def tag_bytes_def)
  next
    case (Write_audio t data)
    then show ?thesis
      using write_one_eq [where to_cache = "write_audio_to_cache t (Some data)" and data = data, OF assms to_cache_eqs(2) [OF l]]
      by (simp add: flv_write_audio_def op_head_def op_bytes_def tag_bytes_def)
  next
    case (Write_video t data)
    then show ?thesis
      using write_one_eq [where to_cache = "write_video_to_cache t (Some data)" and data = data, OF assms to_cache_eqs(3) [OF l]]
      by (simp add: flv_write_video_def op_head_def op_bytes_def tag_bytes_def)
  qed
qed

lemma run_ops_eq:
  assumes "mux_ready s" and "length pre = 4"
  shows "\<exists>th. run_ops pre ops s = (Inr (), s\<lparr>fx_tag_header := th,
      fx_io := grown (concat (map op_bytes ops)) (fx_io s)\<rparr>) \<and> length th = 11"
  using assms(1)
proof (induction ops arbitrary: s)
  case Nil
  then show ?case by (intro exI [of _ "fx_tag_header s"]) (cases s, simp add: prog_simps mux_ready_def)
next
  case (Cons op ops)
  let ?s = "s\<lparr>fx_tag_header := op_head op, fx_io := grown (op_bytes op) (fx_io s)\<rparr>"
  from Cons.prems have "mux_ready ?s" by (simp add: mux_ready_def op_head_def)
  from Cons.IH [OF this] obtain th where "run_ops pre ops ?s = (Inr (), ?s\<lparr>fx_tag_header := th,
      fx_io := grown (concat (map op_bytes ops)) (fx_io ?s)\<rparr>)" and "length th = 11" by blast
  with Cons.prems run_op_eq [OF Cons.prems assms(2)] show ?case
    by (intro exI [of _ th]) (cases s, simp add: bindP_def grown_grown mux_ready_def)
qed

lemma write_header_eq:
  "mux_ready s \<Longrightarrow> flv_write_header s = (Inr (), s\<lparr>fx_io := grown (flv_header @ [0, 0, 0, 0]) (fx_io s)\<rparr>)"
  by (cases s) (simp add: flv_write_header_def write_header_bytes_def bindP_def on_io_writev prog_simps
      mux_ready_def grown_grown)

section \<open>Reading tags\<close>

text \<open>\<open>xs\<close> are the bytes from the offset on; no call of the system fails or is cut short.\<close>

definition reading :: "byte list \<Rightarrow> file_io \<Rightarrow> bool" where
  "reading xs io \<longleftrightarrow> 0 \<le> fi_fd io \<and> of_plan (fi_file io) = [] \<and> drop (of_pos (fi_file io)) (of_bytes (fi_file io)) = xs"

definition moved :: "nat \<Rightarrow> file_io \<Rightarrow> file_io" where
  "moved n io = io\<lparr>fi_file := (fi_file io)\<lparr>of_pos := of_pos (fi_file io) + n\<rparr>\<rparr>"

lemma reading_moved: "reading (xs @ ys) io \<Longrightarrow> reading ys (moved (length xs) io)"
  by (simp add: reading_def moved_def) (metis add.commute append_eq_conv_conj drop_drop)

lemma reader_read_eq:
  assumes "reading xs io"
  shows "reader_read n io = (if take n xs = [] then (Inl ERROR_SYSTEM_FILE_EOF, io)
    else (Inr (take n xs), moved (length (take n xs)) io))"
  using assms by (cases io, cases "fi_file io")
    (auto simp: reader_read_def bindP_def on_fd_def os_read_def os_count_def prog_simps reading_def moved_def Let_def)

lemma read_into_eq:
  assumes "reading (bs @ rest) io" and "bs \<noteq> []" and "length bs \<le> length a"
  shows "read_into (length bs) a io = (Inr (map Some bs @ drop (length bs) a), moved (length bs) io)"
  using assms by (simp add: read_into_def prog_simps bindP_def reader_read_eq overlay_def)

lemma read_into_end: "reading [] io \<Longrightarrow> read_into n a io
    = (Inl (if n \<le> length a then ERROR_SYSTEM_FILE_EOF else UNDEFINED_BEHAVIOUR), io)"
  by (simp add: read_into_def prog_simps bindP_def reader_read_eq)

lemma char_at_Some: "i < length xs \<Longrightarrow> bindP (char_at (map Some xs) i) f s = f (xs ! i) s"
  by (simp add: char_at_def liftR_def bindP_def)

lemma flv_read_header_eq:
  assumes "reading (flv_header @ rest) io" and "length a = 9"
  shows "flv_read_header a io = (Inr (map Some flv_header), moved 9 io)"
proof -
  have l: "length flv_header = 9" by (simp add: flv_header_def)
  have r: "read_into 9 a io = (Inr (map Some flv_header), moved 9 io)"
    using read_into_eq [OF assms(1), of a] assms(2) l by fastforce
  have "flv_header ! 0 = 0x46" "flv_header ! 1 = 0x4C" "flv_header ! 2 = 0x56"
    by (simp_all add: flv_header_def)
  then show ?thesis
    unfolding flv_read_header_def bindP_Inr [where m = "read_into 9 a", OF r]
    by (simp add: char_at_Some l prog_simps del: One_nat_def)
qed

lemma flv_read_size_eq:
  "reading (bs @ rest) io \<Longrightarrow> length bs = 4 \<Longrightarrow> length a = 4 \<Longrightarrow>
    flv_read_previous_tag_size a io = (Inr (map Some bs), moved 4 io)"
  using read_into_eq [of bs rest io a] by (cases bs) (simp_all add: flv_read_previous_tag_size_def)

lemma flv_read_data_eq:
  "reading (bs @ rest) io \<Longrightarrow> bs \<noteq> [] \<Longrightarrow> length a = length bs \<Longrightarrow> unat n = length bs \<Longrightarrow>
    flv_read_tag_data a n io = (Inr (map Some bs), moved (length bs) io)"
  using read_into_eq [of bs rest io a] by (simp add: flv_read_tag_data_def)

lemma be_bytes: "be 3 (w :: 32 word) = [byte_at 2 w, byte_at 1 w, byte_at 0 w]"
  by (simp add: be_def mem_of_word_def numeral_3_eq_3 numeral_2_eq_2)

lemma word_of_tag_bytes:
  fixes w :: "32 word"
  shows "word_of_mem [byte_at 0 w, byte_at 1 w, byte_at 2 w, byte_at 3 w] = w"
    and "word_of_mem [byte_at 0 w, byte_at 1 w, byte_at 2 w, 0] = take_bit 24 w"
proof -
  have m: "mem_of_word 4 w = [byte_at 0 w, byte_at 1 w, byte_at 2 w, byte_at 3 w]"
    by (simp add: mem_of_word_def upt_conv_Cons numeral_2_eq_2 numeral_3_eq_3)
  show "word_of_mem [byte_at 0 w, byte_at 1 w, byte_at 2 w, byte_at 3 w] = w"
    using word_of_mem_of_word [of 4 w] by (simp add: m del: word_of_mem.simps)
  have "mem_of_word 4 (take_bit 24 w) = [byte_at 0 w, byte_at 1 w, byte_at 2 w, 0]"
    by (simp add: mem_of_word_def upt_conv_Cons numeral_2_eq_2 numeral_3_eq_3)
      (auto simp: bit_eq_iff bit_byte_at bit_take_bit_iff)
  then show "word_of_mem [byte_at 0 w, byte_at 1 w, byte_at 2 w, 0] = take_bit 24 w"
    using word_of_mem_of_word [of 4 "take_bit 24 w"] by (simp del: word_of_mem.simps)
qed

lemma flv_read_tag_header_eq:
  assumes "reading (tag_head ty t n @ rest) io" and "n < 2 ^ 24" and "and ty 0x1F = ty"
  shows "flv_read_tag_header io = (Inr (ty, word_of_nat n, t), moved 11 io)"
proof -
  let ?n = "word_of_nat n :: 32 word"
  have n: "take_bit 24 ?n = ?n"
    using assms(2) by (simp add: unsigned_of_nat take_bit_nat_eq_self word_unat_eq_iff unsigned_take_bit_eq)
  have h: "tag_head ty t n = [ty, byte_at 2 ?n, byte_at 1 ?n, byte_at 0 ?n,
      byte_at 2 t, byte_at 1 t, byte_at 0 t, byte_at 3 t, 0, 0, 0]"
    by (simp add: tag_head_def be_bytes)
  have r: "read_into 11 (replicate 11 None) io = (Inr (map Some (tag_head ty t n)), moved 11 io)"
    using read_into_eq [OF assms(1), of "replicate 11 None"] by simp
  have c: "tag_head ty t n ! 0 = ty" "tag_head ty t n ! 1 = byte_at 2 ?n" "tag_head ty t n ! 2 = byte_at 1 ?n"
      "tag_head ty t n ! 3 = byte_at 0 ?n" "tag_head ty t n ! 4 = byte_at 2 t" "tag_head ty t n ! 5 = byte_at 1 t"
      "tag_head ty t n ! 6 = byte_at 0 t" "tag_head ty t n ! 7 = byte_at 3 t"
    by (simp_all add: h)
  show ?thesis
    unfolding flv_read_tag_header_def bindP_Inr [where m = "read_into 11 (replicate 11 None)", OF r]
    by (simp add: char_at_Some c prog_simps assms(3) word_of_tag_bytes n del: word_of_mem.simps One_nat_def)
qed

section \<open>Round trip\<close>

text \<open>A client of the decoder: tag by tag, each into an array of the announced size.\<close>

definition flv_next_tag :: "(file_io, byte \<times> 32 word \<times> cells) prog" where
  "flv_next_tag = bindP flv_read_tag_header
     (\<lambda>(ty, n, t). bindP (flv_read_tag_data (replicate (unat n) None) n)
     (\<lambda>data. bindP (flv_read_previous_tag_size (replicate 4 None)) (\<lambda>_. returnP (ty, t, data))))"

fun flv_next_tags :: "nat \<Rightarrow> (file_io, (byte \<times> 32 word \<times> cells) list) prog" where
  "flv_next_tags 0 = returnP []"
| "flv_next_tags (Suc n) = bindP flv_next_tag (\<lambda>t. bindP (flv_next_tags n) (\<lambda>ts. returnP (t # ts)))"

definition flv_open_tags :: "nat \<Rightarrow> (file_io, (byte \<times> 32 word \<times> cells) list) prog" where
  "flv_open_tags n = bindP (flv_read_header (replicate 9 None))
     (\<lambda>_. bindP (flv_read_previous_tag_size (replicate 4 None)) (\<lambda>_. flv_next_tags n))"

text \<open>A tag that the format carries: a type of five bits, and from 1 to 2^24 - 1 bytes.\<close>

definition op_ok :: "mux_op \<Rightarrow> bool" where
  "op_ok op \<longleftrightarrow> and (op_type op) 0x1F = op_type op \<and> op_data op \<noteq> [] \<and> length (op_data op) < 2 ^ 24"

definition op_tag :: "mux_op \<Rightarrow> byte \<times> 32 word \<times> cells" where
  "op_tag op = (op_type op, op_time op, map Some (op_data op))"

lemma moved_moved [simp]: "moved m (moved n io) = moved (n + m) io"
  by (cases io, cases "fi_file io") (simp add: moved_def add.assoc)

lemma reading_after:
  "reading (xs @ ys) io \<Longrightarrow> length xs = n \<Longrightarrow> reading ys (moved n io)"
  using reading_moved by blast

lemma flv_next_tag_eq:
  assumes "reading (op_bytes op @ rest) io" and "op_ok op"
  shows "\<exists>io'. flv_next_tag io = (Inr (op_tag op), io') \<and> reading rest io'"
proof -
  let ?n = "length (op_data op)" and ?pts = "be 4 (word_of_nat (length (op_data op) + 11) :: 32 word)"
  from assms(2) have n: "?n < 2 ^ 24" and ne: "op_data op \<noteq> []" and ty: "and (op_type op) 0x1F = op_type op"
    by (simp_all add: op_ok_def)
  from n have u: "unat (word_of_nat ?n :: 32 word) = ?n"
    by (simp add: unsigned_of_nat take_bit_nat_eq_self)
  from assms(1) have r1: "reading (tag_head (op_type op) (op_time op) ?n @ op_data op @ ?pts @ rest) io"
    by (simp add: op_bytes_def tag_bytes_def)
  note h = flv_read_tag_header_eq [OF r1 n ty]
  have r2: "reading (op_data op @ ?pts @ rest) (moved 11 io)"
    by (rule reading_after [OF r1]) simp
  have d: "flv_read_tag_data (replicate ?n None) (word_of_nat ?n) (moved 11 io)
      = (Inr (map Some (op_data op)), moved ?n (moved 11 io))"
    by (rule flv_read_data_eq [OF r2 ne _ u]) simp
  have r3: "reading (?pts @ rest) (moved ?n (moved 11 io))"
    by (rule reading_after [OF r2]) simp
  have p: "flv_read_previous_tag_size (replicate 4 None) (moved ?n (moved 11 io))
      = (Inr (map Some ?pts), moved 4 (moved ?n (moved 11 io)))"
    by (rule flv_read_size_eq [OF r3]) simp_all
  have "reading rest (moved 4 (moved ?n (moved 11 io)))"
    by (rule reading_after [OF r3]) simp
  moreover have "flv_next_tag io = (Inr (op_tag op), moved 4 (moved ?n (moved 11 io)))"
    unfolding flv_next_tag_def
    by (simp add: bindP_def h u d p prog_simps op_tag_def del: moved_moved)
  ultimately show ?thesis by blast
qed

lemma flv_next_tags_eq:
  assumes "reading (concat (map op_bytes ops) @ rest) io" and "\<And>op. op \<in> set ops \<Longrightarrow> op_ok op"
  shows "\<exists>io'. flv_next_tags (length ops) io = (Inr (map op_tag ops), io') \<and> reading rest io'"
  using assms
proof (induction ops arbitrary: io)
  case Nil
  then show ?case by (simp add: prog_simps)
next
  case (Cons op ops)
  from Cons.prems(1) have "reading (op_bytes op @ concat (map op_bytes ops) @ rest) io" by simp
  from flv_next_tag_eq [OF this] Cons.prems(2) obtain io1 where
    1: "flv_next_tag io = (Inr (op_tag op), io1)" and r: "reading (concat (map op_bytes ops) @ rest) io1" by auto
  from Cons.IH [OF r] Cons.prems(2) obtain io2 where
    "flv_next_tags (length ops) io1 = (Inr (map op_tag ops), io2)" and "reading rest io2" by auto
  with 1 show ?case by (simp add: bindP_def prog_simps)
qed

lemma flv_open_tags_eq:
  assumes "reading (flv_header @ [0, 0, 0, 0] @ concat (map op_bytes ops)) io"
    and "\<And>op. op \<in> set ops \<Longrightarrow> op_ok op"
  shows "\<exists>io'. flv_open_tags (length ops) io = (Inr (map op_tag ops), io') \<and> reading [] io'"
proof -
  have h: "flv_read_header (replicate 9 None) io = (Inr (map Some flv_header), moved 9 io)"
    by (rule flv_read_header_eq [OF assms(1)]) simp
  have r1: "reading ([0, 0, 0, 0] @ concat (map op_bytes ops)) (moved 9 io)"
    by (rule reading_after [OF assms(1)]) (simp add: flv_header_def)
  have p: "flv_read_previous_tag_size (replicate 4 None) (moved 9 io)
      = (Inr (map Some [0, 0, 0, 0]), moved 4 (moved 9 io))"
    by (rule flv_read_size_eq [OF r1]) simp_all
  have "reading (concat (map op_bytes ops) @ []) (moved 4 (moved 9 io))"
    using reading_after [OF r1, of 4] by simp
  from flv_next_tags_eq [OF this assms(2)] obtain io' where
    "flv_next_tags (length ops) (moved 4 (moved 9 io)) = (Inr (map op_tag ops), io')" and "reading [] io'" by blast
  then show ?thesis
    by (simp add: flv_open_tags_def bindP_def h p del: moved_moved)
qed

lemma read_tag_header_end: "reading [] io \<Longrightarrow> flv_read_tag_header io = (Inl ERROR_SYSTEM_FILE_EOF, io)"
  by (simp add: flv_read_tag_header_def bindP_def read_into_end)

text \<open>C22: a file written by the muxer is read back by the decoder. A muxer on an empty file, whose
  writes all succeed in full, writes the header and any sequence of tags (metadata, audio, video)
  whose types have five bits and which carry between 1 and 2^24 - 1 bytes. Every operation
  succeeds, and a decoder that opens the file gets the same tags in the same order: the type, the
  low 31 bits of the time (0 for metadata) and all bytes of the data, and then the end of the file.
\<close>

theorem flv_roundtrip:
  assumes "at_end io" and "of_bytes (fi_file io) = []" and "length junk = 11" and "length pre = 4"
    and "\<And>op. op \<in> set ops \<Longrightarrow> op_ok op"
    and "bindP flv_write_header (\<lambda>_. run_ops pre ops) (flv_muxer_new junk io) = (r, s)"
    and "reading (of_bytes (fi_file (fx_io s))) rd"
  shows "r = Inr () \<and> (\<exists>rd'. flv_open_tags (length ops) rd = (Inr (map op_tag ops), rd')
    \<and> flv_read_tag_header rd' = (Inl ERROR_SYSTEM_FILE_EOF, rd'))"
proof -
  let ?s0 = "flv_muxer_new junk io" and ?s1 = "(flv_muxer_new junk io)\<lparr>fx_io := grown (flv_header @ [0, 0, 0, 0]) io\<rparr>"
  have 0: "mux_ready ?s0" and 1: "mux_ready ?s1"
    using assms(1,3) by (simp_all add: mux_ready_def flv_muxer_new_def)
  have h: "flv_write_header ?s0 = (Inr (), ?s1)"
    using write_header_eq [OF 0] by (simp add: flv_muxer_new_def)
  from run_ops_eq [OF 1 assms(4), of ops] obtain th where
    "run_ops pre ops ?s1 = (Inr (), ?s1\<lparr>fx_tag_header := th, fx_io := grown (concat (map op_bytes ops)) (fx_io ?s1)\<rparr>)"
    by blast
  with assms(6) h have r: "r = Inr ()"
    and b: "of_bytes (fi_file (fx_io s)) = flv_header @ [0, 0, 0, 0] @ concat (map op_bytes ops)"
    using assms(1,2) by (auto simp: bindP_def)
  from assms(7) b flv_open_tags_eq [of ops rd] assms(5) obtain rd' where
    "flv_open_tags (length ops) rd = (Inr (map op_tag ops), rd')" and "reading [] rd'" by auto
  with r read_tag_header_end show ?thesis by auto
qed

definition flv_w_file :: "byte list \<Rightarrow> file_io" where
  "flv_w_file bs = \<lparr>fi_path = ''a.flv'', fi_fd = 3,
     fi_file = \<lparr>of_bytes = bs, of_pos = 0, of_append = False, of_plan = []\<rparr>\<rparr>"

definition flv_w_ops :: "mux_op list" where
  "flv_w_ops = [Write_metadata 18 [2, 0], Write_audio 23 [0xAF, 0, 0x12], Write_video 0x80000028 [0x17]]"

lemma flv_w_ok: "op \<in> set flv_w_ops \<Longrightarrow> op_ok op"
  by (auto simp: flv_w_ops_def op_ok_def)

theorem flv_roundtrip_witness:
  "\<exists>s rd'. bindP flv_write_header (\<lambda>_. run_ops (replicate 4 0) flv_w_ops) (flv_muxer_new (replicate 11 0) (flv_w_file []))
      = (Inr (), s)
    \<and> flv_open_tags 3 (flv_w_file (of_bytes (fi_file (fx_io s))))
      = (Inr [(18, 0, [Some 2, Some 0]), (8, 23, [Some 0xAF, Some 0, Some 0x12]), (9, 0x28, [Some 0x17])], rd')
    \<and> flv_read_tag_header rd' = (Inl ERROR_SYSTEM_FILE_EOF, rd')"
proof -
  obtain r s where m: "bindP flv_write_header (\<lambda>_. run_ops (replicate 4 0) flv_w_ops)
      (flv_muxer_new (replicate 11 0) (flv_w_file [])) = (r, s)" by fastforce
  have "tag_time 23 = 23" "tag_time 0x80000028 = 0x28" by (simp_all add: tag_time_def)
  then have t: "map op_tag flv_w_ops
      = [(18, 0, [Some 2, Some 0]), (8, 23, [Some 0xAF, Some 0, Some 0x12]), (9, 0x28, [Some 0x17])]"
    by (simp add: flv_w_ops_def op_tag_def)
  have "length flv_w_ops = 3" by (simp add: flv_w_ops_def)
  moreover have "reading (of_bytes (fi_file (fx_io s))) (flv_w_file (of_bytes (fi_file (fx_io s))))"
    by (simp add: reading_def flv_w_file_def)
  ultimately show ?thesis
    using flv_roundtrip [OF _ _ _ _ flv_w_ok m, of "flv_w_file (of_bytes (fi_file (fx_io s)))"] m t
    by (auto simp: at_end_def flv_w_file_def)
qed

section \<open>Many tags at once\<close>

text \<open>The operation that a message stands for; none for a message that the muxer cannot read.\<close>

definition msg_op :: "sp_heap \<Rightarrow> shared_msg \<Rightarrow> mux_op option" where
  "msg_op h m = (case sm_ptr m of None \<Rightarrow> None | Some a \<Rightarrow> (case h_mem h a of None \<Rightarrow> None
     | Some p \<Rightarrow> (case msg_data m of
         Inr (Some bs) \<Rightarrow> if sm_size m < 0 then None
           else Some (if sp_message_type p = RTMP_MSG_AudioMessage then Write_audio (sm_timestamp m) bs
             else if sp_message_type p = RTMP_MSG_VideoMessage then Write_video (sm_timestamp m) bs
             else Write_metadata SrsFrameTypeScript bs)
       | _ \<Rightarrow> None)))"

lemma msg_opD:
  assumes "msg_op h m = Some op"
  shows "msg_data m = Inr (Some (op_data op))" and "sm_size m = int (length (op_data op))"
    and "length cache = 11 \<Longrightarrow> tag_to_cache m (Some (op_data op)) cache h = (Inr (op_head op), h)"
proof -
  from assms obtain a p bs where p: "sm_ptr m = Some a" "h_mem h a = Some p" and d: "msg_data m = Inr (Some bs)"
    and n: "0 \<le> sm_size m"
    and o: "op = (if sp_message_type p = RTMP_MSG_AudioMessage then Write_audio (sm_timestamp m) bs
             else if sp_message_type p = RTMP_MSG_VideoMessage then Write_video (sm_timestamp m) bs
             else Write_metadata SrsFrameTypeScript bs)"
    by (auto simp: msg_op_def split: option.splits sum.splits if_splits)
  from o have b: "op_data op = bs" by simp
  with d show "msg_data m = Inr (Some (op_data op))" by simp
  from d n have "sm_size m = int (length bs)"
    by (auto simp: msg_data_def payload_bytes_def bindR_eq_Inr split: option.splits if_splits)
  with b show "sm_size m = int (length (op_data op))" by simp
  show "tag_to_cache m (Some (op_data op)) cache h = (Inr (op_head op), h)" if "length cache = 11"
    using to_cache_eqs [OF that] p
    by (simp add: tag_to_cache_def sm_is_audio_def sm_is_video_def sm_deref_def bindP_def prog_simps liftR_def
        o op_head_def)
qed

lemma length_cell: "n * i + n \<le> length arr \<Longrightarrow> length (cell n i arr) = n"
  by (simp add: cell_def)

lemma length_put_cell: "length bs = n \<Longrightarrow> n * i + n \<le> length arr \<Longrightarrow> length (put_cell n i bs arr) = length arr"
  by (simp add: put_cell_def)

lemma cell_put_same: "length bs = n \<Longrightarrow> n * i + n \<le> length arr \<Longrightarrow> cell n i (put_cell n i bs arr) = bs"
  by (simp add: cell_def put_cell_def)

lemma cell_put_other:
  assumes "j < i" and "n * i + n \<le> length arr"
  shows "cell n j (put_cell n i bs arr) = cell n j arr"
proof -
  have "n * Suc j \<le> n * i" using assms(1) by (intro mult_le_mono2) simp
  then have le: "n * j + n \<le> n * i" by simp
  with assms(2) show ?thesis
    by (simp add: cell_def put_cell_def take_drop add.commute)
qed

text \<open>What the rounds from \<open>i\<close> on leave in the caches.\<close>

lemma cache_tags_eq:
  assumes "map (msg_op h) ms = map Some ops" and "11 * (i + length ms) \<le> length (fx_tag_headers s)"
    and "4 * (i + length ms) \<le> length (fx_ppts s)"
  shows "\<exists>hs ps. cache_tags i ms (h, s) = (Inr (map op_data ops), (h, s\<lparr>fx_tag_headers := hs, fx_ppts := ps\<rparr>))
    \<and> length hs = length (fx_tag_headers s) \<and> length ps = length (fx_ppts s)
    \<and> (\<forall>j < i. cell 11 j hs = cell 11 j (fx_tag_headers s) \<and> cell 4 j ps = cell 4 j (fx_ppts s))
    \<and> (\<forall>j < length ops. cell 11 (i + j) hs = op_head (ops ! j)
         \<and> cell 4 (i + j) ps = be 4 (word_of_nat (length (op_data (ops ! j)) + 11) :: 32 word))"
  using assms
proof (induction ms arbitrary: i s ops)
  case Nil
  then show ?case
    by (intro exI [of _ "fx_tag_headers s"] exI [of _ "fx_ppts s"]) (cases s, simp add: prog_simps)
next
  case (Cons m ms)
  then obtain op ops' where ops: "ops = op # ops'" and m: "msg_op h m = Some op"
    and ms: "map (msg_op h) ms = map Some ops'" by (cases ops) auto
  let ?p = "be 4 (word_of_nat (length (op_data op) + 11) :: 32 word)"
  have r1: "11 * i + 11 \<le> length (fx_tag_headers s)" and r2: "4 * i + 4 \<le> length (fx_ppts s)"
    using Cons.prems(2,3) by simp_all
  let ?hs = "put_cell 11 i (op_head op) (fx_tag_headers s)" and ?ps = "put_cell 4 i ?p (fx_ppts s)"
  have lo: "length (op_head op) = 11" by (simp add: op_head_def)
  let ?s = "s\<lparr>fx_tag_headers := ?hs, fx_ppts := ?ps\<rparr>"
  have lh: "length ?hs = length (fx_tag_headers s)" by (rule length_put_cell [OF lo r1])
  have lp: "length ?ps = length (fx_ppts s)" by (rule length_put_cell [OF _ r2]) simp
  have "11 * (Suc i + length ms) \<le> length (fx_tag_headers ?s)" "4 * (Suc i + length ms) \<le> length (fx_ppts ?s)"
    using Cons.prems(2,3) lh lp by simp_all
  from Cons.IH [OF ms this] obtain hs ps where
    c: "cache_tags (Suc i) ms (h, ?s) = (Inr (map op_data ops'), (h, ?s\<lparr>fx_tag_headers := hs, fx_ppts := ps\<rparr>))"
    and l: "length hs = length (fx_tag_headers s)" "length ps = length (fx_ppts s)"
    and b: "\<And>j. j < Suc i \<Longrightarrow> cell 11 j hs = cell 11 j ?hs \<and> cell 4 j ps = cell 4 j ?ps"
    and a: "\<And>j. j < length ops' \<Longrightarrow> cell 11 (Suc i + j) hs = op_head (ops' ! j)
         \<and> cell 4 (Suc i + j) ps = be 4 (word_of_nat (length (op_data (ops' ! j)) + 11) :: 32 word)"
    using lh lp by auto
  have t: "tag_to_cache m (Some (op_data op)) (cell 11 i (fx_tag_headers s)) h = (Inr (op_head op), h)"
    by (rule msg_opD(3) [OF m]) (simp add: length_cell r1)
  have w: "write_pts_to_cache (int 11 + sm_size m) (cell 4 i (fx_ppts s)) = Inr ?p"
    using pts_to_cache_eq [of "cell 4 i (fx_ppts s)" "length (op_data op) + 11"] length_cell [OF r2] msg_opD(2) [OF m]
    by (simp add: add.commute)
  have e: "cache_tags i (m # ms) (h, s)
      = (Inr (map op_data ops), (h, s\<lparr>fx_tag_headers := hs, fx_ppts := ps\<rparr>))"
    using c by (simp add: bindP_def prog_simps liftR_def msg_opD(1) [OF m] t w ops del: of_nat_numeral)
  have b': "cell 11 j hs = cell 11 j (fx_tag_headers s) \<and> cell 4 j ps = cell 4 j (fx_ppts s)" if "j < i" for j
    using b [of j] that by (simp add: cell_put_other r1 r2)
  have i: "cell 11 i hs = op_head op" "cell 4 i ps = ?p"
    using b [of i] cell_put_same [OF lo r1] cell_put_same [OF _ r2, of ?p] by simp_all
  have a': "cell 11 (i + j) hs = op_head (ops ! j)
         \<and> cell 4 (i + j) ps = be 4 (word_of_nat (length (op_data (ops ! j)) + 11) :: 32 word)" if "j < length ops" for j
    using a [of "j - 1"] i that by (cases j) (simp_all add: ops)
  from e l b' a' show ?case by blast
qed

definition caches_ok :: "flv_muxer \<Rightarrow> bool" where
  "caches_ok s \<longleftrightarrow> length (fx_tag_headers s) = 11 * fx_nb_tag_headers s \<and> length (fx_ppts s) = 4 * fx_nb_ppts s"

lemma grow_caches_ok:
  assumes "caches_ok s" and "\<And>n. length (junk n) = n"
  shows "caches_ok (grow_caches junk n s)" and "fx_io (grow_caches junk n s) = fx_io s"
    and "11 * n \<le> length (fx_tag_headers (grow_caches junk n s))"
    and "4 * n \<le> length (fx_ppts (grow_caches junk n s))"
  using assms by (auto simp: caches_ok_def grow_caches_def Let_def)

lemma concat_iovss:
  assumes "\<And>j. j < length ops \<Longrightarrow> cell 11 (i + j) hs = op_head (ops ! j)
      \<and> cell 4 (i + j) ps = be 4 (word_of_nat (length (op_data (ops ! j)) + 11) :: 32 word)"
  shows "concat (concat (map (\<lambda>(j, d). [cell 11 j hs, d, cell 4 j ps]) (zip [i..<i + length ops] (map op_data ops))))
    = concat (map op_bytes ops)"
  using assms
proof (induction ops arbitrary: i)
  case Nil
  then show ?case by simp
next
  case (Cons op ops)
  have i: "cell 11 i hs = op_head op" "cell 4 i ps = be 4 (word_of_nat (length (op_data op) + 11) :: 32 word)"
    using Cons.prems [of 0] by simp_all
  have "cell 11 (Suc i + j) hs = op_head (ops ! j)
      \<and> cell 4 (Suc i + j) ps = be 4 (word_of_nat (length (op_data (ops ! j)) + 11) :: 32 word)" if "j < length ops" for j
    using Cons.prems [of "Suc j"] that by simp
  from Cons.IH [OF this] i show ?case
    by (simp add: upt_conv_Cons op_bytes_def tag_bytes_def op_head_def del: upt_Suc)
qed

lemma write_tags_eq:
  assumes "mux_ready s" and "caches_ok s" and "\<And>n. length (junk n) = n" and "map (msg_op h) msgs = map Some ops"
  shows "\<exists>s'. write_tags junk msgs (h, s) = (Inr (), (h, s')) \<and> caches_ok s'
    \<and> fx_io s' = grown (concat (map op_bytes ops)) (fx_io s)"
proof -
  let ?g = "grow_caches junk (length msgs) s"
  note g = grow_caches_ok [where n = "length msgs", OF assms(2,3)]
  have "11 * (0 + length msgs) \<le> length (fx_tag_headers ?g)" "4 * (0 + length msgs) \<le> length (fx_ppts ?g)"
    using g(3,4) by simp_all
  from cache_tags_eq [OF assms(4) this] obtain hs ps where
    c: "cache_tags 0 msgs (h, ?g) = (Inr (map op_data ops), (h, ?g\<lparr>fx_tag_headers := hs, fx_ppts := ps\<rparr>))"
    and l: "length hs = length (fx_tag_headers ?g)" "length ps = length (fx_ppts ?g)"
    and a: "\<And>j. j < length ops \<Longrightarrow> cell 11 (0 + j) hs = op_head (ops ! j)
         \<and> cell 4 (0 + j) ps = be 4 (word_of_nat (length (op_data (ops ! j)) + 11) :: 32 word)"
    by auto
  let ?s = "?g\<lparr>fx_tag_headers := hs, fx_ppts := ps\<rparr>"
  define iovss where "iovss = concat (map (\<lambda>(j, d). [cell 11 j hs, d, cell 4 j ps]) (zip [0..<length ops] (map op_data ops)))"
  have v: "concat iovss = concat (map op_bytes ops)"
    using concat_iovss [OF a] by (simp add: iovss_def)
  have e: "at_end (fx_io ?s)" using assms(1) g(2) by (simp add: mux_ready_def)
  have "write_tags junk msgs (h, s) = (Inr (), (h, ?s\<lparr>fx_io := grown (concat iovss) (fx_io ?s)\<rparr>))"
    using on_io_writev(1) [OF e, of iovss]
    by (simp add: write_tags_def bindP_def prog_simps c iovss_def [symmetric])
  moreover have "caches_ok (?s\<lparr>fx_io := grown (concat iovss) (fx_io ?s)\<rparr>)"
    using g(1) l by (simp add: caches_ok_def)
  moreover have "fx_io (?s\<lparr>fx_io := grown (concat iovss) (fx_io ?s)\<rparr>) = grown (concat iovss) (fx_io ?g)"
    by (cases ?g) simp
  ultimately show ?thesis unfolding v g(2) by blast
qed

text \<open>C23: writing many tags in one call gives the same file as writing them one at a time. For messages
  with a live payload object and a payload of the announced size, and for caches as earlier calls
  left them (whatever their old contents), \<^verbatim>\<open>write_tags\<close> succeeds and the file gets exactly the
  bytes that \<^verbatim>\<open>write_audio\<close>, \<^verbatim>\<open>write_video\<close> or \<^verbatim>\<open>write_metadata\<close> write for each
  message in turn; the caches stay as large as their counters say.
\<close>

theorem write_tags_like_single_tags:
  assumes "mux_ready s" and "caches_ok s" and "\<And>n. length (junk n) = n"
    and "map (msg_op h) msgs = map Some ops" and "length pre = 4"
  shows "\<exists>s1 s2. write_tags junk msgs (h, s) = (Inr (), (h, s1)) \<and> run_ops pre ops s = (Inr (), s2)
    \<and> fx_io s1 = fx_io s2 \<and> caches_ok s1"
  using write_tags_eq [OF assms(1-4)] run_ops_eq [OF assms(1,5), of ops] by auto

definition tags_w_heap :: sp_heap where
  "tags_w_heap = \<lparr>h_next = 2, h_mem = [0 \<mapsto> sp_new\<lparr>sp_message_type := RTMP_MSG_AudioMessage\<rparr>,
     1 \<mapsto> sp_new\<lparr>sp_message_type := RTMP_MSG_VideoMessage\<rparr>]\<rparr>"

definition tags_w_msgs :: "shared_msg list" where
  "tags_w_msgs = [sm_new\<lparr>sm_timestamp := 40, sm_size := 2, sm_payload := Some [Some 0xAF, Some 1], sm_ptr := Some 0\<rparr>,
     sm_new\<lparr>sm_timestamp := 40, sm_size := 1, sm_payload := Some [Some 0x27], sm_ptr := Some 1\<rparr>]"

definition tags_w_mux :: flv_muxer where
  "tags_w_mux = flv_muxer_new (replicate 11 0) (flv_w_file [])"

theorem write_tags_like_single_tags_witness:
  "\<exists>s1 s2. write_tags (\<lambda>n. replicate n 0xCC) tags_w_msgs (tags_w_heap, tags_w_mux) = (Inr (), (tags_w_heap, s1))
    \<and> run_ops (replicate 4 0) [Write_audio 40 [0xAF, 1], Write_video 40 [0x27]] tags_w_mux = (Inr (), s2)
    \<and> fx_io s1 = fx_io s2 \<and> caches_ok s1"
proof -
  have "map (msg_op tags_w_heap) tags_w_msgs = map Some [Write_audio 40 [0xAF, 1], Write_video 40 [0x27]]"
    by (simp add: tags_w_msgs_def tags_w_heap_def msg_op_def msg_data_def payload_bytes_def sm_new_def sp_new_def)
  moreover have "mux_ready tags_w_mux" "caches_ok tags_w_mux"
    by (simp_all add: tags_w_mux_def mux_ready_def caches_ok_def flv_muxer_new_def flv_w_file_def at_end_def)
  ultimately show ?thesis
    by (intro write_tags_like_single_tags) simp_all
qed

section \<open>What the decoder does not notice\<close>

text \<open>C34: a file that ends inside a tag is taken for complete. Where fewer bytes of the data are left
  than the header announces, but at least one, \<^verbatim>\<open>read_tag_data\<close> succeeds, and the cells behind
  the bytes that were there keep what the caller's array held, unwritten memory included. The end
  of the file is reported only where no byte is left; so it is also for a tag without data in the
  middle of a file.
\<close>

theorem flv_short_read_unnoticed:
  assumes "reading bs io" and "unat n = length a"
  shows "flv_read_tag_data a n io =
    (if bs = [] \<or> n = 0 then (Inl ERROR_SYSTEM_FILE_EOF, io)
     else if length bs < length a then (Inr (map Some bs @ drop (length bs) a), moved (length bs) io)
     else (Inr (map Some (take (length a) bs)), moved (length a) io))"
proof -
  have "n = 0 \<longleftrightarrow> a = []" using assms(2) by (simp add: unat_eq_0 [symmetric])
  with assms show ?thesis
    by (auto simp: flv_read_tag_data_def read_into_def prog_simps bindP_def reader_read_eq overlay_def)
qed

theorem flv_short_read_unnoticed_witness:
  "flv_read_tag_data [None, None, None] 3 (flv_w_file [1]) = (Inr [Some 1, None, None], moved 1 (flv_w_file [1]))
   \<and> flv_read_tag_data [] 0 (flv_w_file [0, 0, 0, 11]) = (Inl ERROR_SYSTEM_FILE_EOF, flv_w_file [0, 0, 0, 11])"
proof -
  have r: "reading bs (flv_w_file bs)" for bs
    by (simp add: reading_def flv_w_file_def)
  show ?thesis
    using flv_short_read_unnoticed [OF r, of 3 "[None, None, None]" "[1]"]
      flv_short_read_unnoticed [OF r, of 0 "[]" "[0, 0, 0, 11]"] by simp
qed

end
