(* ===== verification/Srs_Flv_Vod_Laws.thy ===== *)
theory Srs_Flv_Vod_Laws
  imports Srs_Flv_File_Laws
begin

text \<open>
  The decoder for playing from an offset: the scan for the sequence headers ends on every file,
  and what it finds in a file of the muxer.
\<close>

section \<open>The calls on an open file\<close>

definition pos_of :: "file_io \<Rightarrow> nat" where
  "pos_of io = of_pos (fi_file io)"

lemma pos_moved [simp]: "pos_of (moved n io) = pos_of io + n"
  by (simp add: pos_of_def moved_def)

lemma seek_eqs:
  assumes "0 \<le> fi_fd io"
  shows "file_tellg io = (Inr (int (pos_of io)), io)"
    and "reader_skip (int n) io = (Inr (), moved n io)"
    and "reader_seek2 (int n) io = (Inr (int n), io\<lparr>fi_file := (fi_file io)\<lparr>of_pos := n\<rparr>\<rparr>)"
  using assms by (cases io, cases "fi_file io", simp add: file_tellg_def reader_skip_def reader_seek2_def on_fd_def
      os_lseek_def bindP_def prog_simps pos_of_def moved_def nat_add_distrib)+

lemma reading_fd: "reading xs io \<Longrightarrow> 0 \<le> fi_fd io"
  by (simp add: reading_def)

lemma fd_moved [simp]: "fi_fd (moved n io) = fi_fd io"
  by (simp add: moved_def)

lemma vod_note_eq:
  assumes "0 \<le> fi_fd io"
  shows "vod_note video (int d) v io
    = (Inr (v\<lparr>vs_got_video := video \<or> vs_got_video v, vs_got_audio := \<not> video \<or> vs_got_audio v,
         vs_start := if vs_start v < 0 then int (pos_of io) - 11 else vs_start v,
         vs_end := int (pos_of io) + int d + 4\<rparr>), moved (d + 4) io)"
proof -
  have s: "reader_skip (int d + 4) io = (Inr (), moved (d + 4) io)"
    using seek_eqs(2) [OF assms, of "d + 4"] by simp
  show ?thesis
    by (cases v) (auto simp: vod_note_def Let_def bindP_def seek_eqs(1) [OF assms] s prog_simps)
qed

section \<open>One round\<close>

lemma tag_head_fields:
  "upcoming s = tag_head ty t n @ rest \<Longrightarrow> n < 2 ^ 24 \<Longrightarrow> read_1bytes s = Inr (ty, adv 1 s)
    \<and> read_3bytes (adv 1 s) = Inr (word_of_nat n, adv 4 s)"
proof -
  assume u: "upcoming s = tag_head ty t n @ rest" and n: "n < 2 ^ 24"
  have n': "take_bit 24 (word_of_nat n :: 32 word) = word_of_nat n"
    using n by (simp add: unsigned_of_nat take_bit_nat_eq_self word_unat_eq_iff unsigned_take_bit_eq)
  have 1: "upcoming s = be 1 ty @ (be 3 (word_of_nat n :: 32 word) @ be 3 t @ byte_at 3 t # [0, 0, 0] @ rest)"
    using u by (simp add: tag_head_def be_1_byte)
  have 3: "upcoming (adv 1 s) = be 3 (word_of_nat n :: 32 word) @ (be 3 t @ byte_at 3 t # [0, 0, 0] @ rest)"
    using 1 by (simp add: upcoming_adv)
  show ?thesis using read_be(1) [OF 1] read_be(3) [OF 3] n' by simp
qed

lemma vod_round:
  assumes "reading (tag_head ty t d @ rest) io" and "d < 2 ^ 24" and "length th = 11"
  shows "vod_loop (Suc n) th v io =
    (if ty \<noteq> 9 \<and> ty \<noteq> 8 then vod_loop n (tag_head ty t d) v (moved (d + 15) io)
     else if ty = 9 \<and> vs_got_video v \<or> ty = 8 \<and> vs_got_audio v then (Inr v, moved 11 io)
     else vod_loop n (tag_head ty t d)
       (v\<lparr>vs_got_video := ty = 9 \<or> vs_got_video v, vs_got_audio := ty \<noteq> 9 \<or> vs_got_audio v,
          vs_start := if vs_start v < 0 then int (pos_of io) else vs_start v,
          vs_end := int (pos_of io) + int d + 15\<rparr>) (moved (d + 15) io))"
proof -
  have r: "reader_read 11 io = (Inr (tag_head ty t d), moved 11 io)"
    using reader_read_eq [OF assms(1), of 11] by simp
  have o: "overlay (tag_head ty t d) th = tag_head ty t d" using assms(3) by (simp add: overlay_def)
  let ?s = "\<lparr>sb_null = False, sb_bytes = tag_head ty t d, sb_pos = 0\<rparr>"
  have i: "buf_initialize (Some (tag_head ty t d)) = Inr ?s" by (simp add: buf_initialize_def)
  have "upcoming ?s = tag_head ty t d @ []" by (simp add: upcoming_def)
  note f = tag_head_fields [OF this assms(2), unfolded One_nat_def]
  have u: "uint (word_of_nat d :: 32 word) = int d"
    using assms(2) by (simp add: uint_nat unsigned_of_nat take_bit_nat_eq_self)
  have fd: "0 \<le> fi_fd (moved 11 io)" using assms(1) by (simp add: reading_def)
  have k: "reader_skip (int d + 4) (moved 11 io) = (Inr (), moved (d + 15) io)"
    using seek_eqs(2) [OF fd, of "d + 4"] by (simp add: ac_simps)
  define hb where "hb = tag_head ty t d"
  note h = r [folded hb_def] o [folded hb_def] i [folded hb_def] f [folded hb_def]
  have e: "vod_loop (Suc n) th v io = (if ty \<noteq> 9 \<and> ty \<noteq> 8
      then vod_loop n hb v (moved (d + 15) io)
      else if ty = 9 \<and> vs_got_video v then (Inr v, moved 11 io)
      else if ty = 8 \<and> vs_got_audio v then (Inr v, moved 11 io)
      else bindP (vod_note (ty = 9) (int d) v) (vod_loop n hb) (moved 11 io))"
    by (simp add: bindP_def h u liftR_def Let_def k prog_simps)
  have n: "vod_note (ty = 9) (int d) v (moved 11 io)
      = (Inr (v\<lparr>vs_got_video := ty = 9 \<or> vs_got_video v, vs_got_audio := ty \<noteq> 9 \<or> vs_got_audio v,
          vs_start := if vs_start v < 0 then int (pos_of io) else vs_start v,
          vs_end := int (pos_of io) + int d + 15\<rparr>), moved (d + 15) io)"
    using vod_note_eq [OF fd, of "ty = 9" d v] by (simp add: algebra_simps)
  have c: "(if a then x else if b then y else if c then y else z) = (if a then x else if b \<or> c then y else z)"
    for a b c :: bool and x y z :: "vod_scan res \<times> file_io" by simp
  show ?thesis unfolding e c bindP_Inr [where m = "vod_note (ty = 9) (int d) v", OF n] hb_def by (rule refl)
qed

section \<open>The scan\<close>

definition tags_size :: "mux_op list \<Rightarrow> nat" where
  "tags_size ops = length (concat (map op_bytes ops))"

lemma tags_size_simps [simp]:
  "tags_size [] = 0" "tags_size (op # ops) = length (op_data op) + 15 + tags_size ops"
  "tags_size (xs @ ys) = tags_size xs + tags_size ys"
  by (simp_all add: tags_size_def op_bytes_def tag_bytes_def)

lemma length_tags_size: "15 * length ops \<le> tags_size ops"
  by (induction ops) simp_all

lemma length_op_bytes: "length (op_bytes op) = length (op_data op) + 15"
  by (simp add: op_bytes_def tag_bytes_def)

definition is_av :: "mux_op \<Rightarrow> bool" where
  "is_av op \<longleftrightarrow> op_type op = 9 \<or> op_type op = 8"

definition fits_24 :: "mux_op \<Rightarrow> bool" where
  "fits_24 op \<longleftrightarrow> length (op_data op) < 2 ^ 24"

lemma vod_op:
  assumes "reading (op_bytes op @ rest) io" and "fits_24 op" and "length th = 11"
  shows "\<not> is_av op \<Longrightarrow> vod_loop (Suc n) th v io = vod_loop n (op_head op) v (moved (length (op_bytes op)) io)"
    and "is_av op \<Longrightarrow> op_type op = 9 \<and> vs_got_video v \<or> op_type op = 8 \<and> vs_got_audio v \<Longrightarrow>
      vod_loop (Suc n) th v io = (Inr v, moved 11 io)"
    and "is_av op \<Longrightarrow> \<not> (op_type op = 9 \<and> vs_got_video v \<or> op_type op = 8 \<and> vs_got_audio v) \<Longrightarrow>
      vod_loop (Suc n) th v io = vod_loop n (op_head op)
       (v\<lparr>vs_got_video := op_type op = 9 \<or> vs_got_video v, vs_got_audio := op_type op \<noteq> 9 \<or> vs_got_audio v,
          vs_start := if vs_start v < 0 then int (pos_of io) else vs_start v,
          vs_end := int (pos_of io) + int (length (op_bytes op))\<rparr>) (moved (length (op_bytes op)) io)"
proof -
  have "reading (tag_head (op_type op) (op_time op) (length (op_data op)) @
      (op_data op @ be 4 (word_of_nat (length (op_data op) + 11) :: 32 word) @ rest)) io"
    using assms(1) by (simp add: op_bytes_def tag_bytes_def)
  note r = vod_round [OF this assms(2)[unfolded fits_24_def] assms(3), of n v, folded op_head_def]
  show "\<not> is_av op \<Longrightarrow> vod_loop (Suc n) th v io = vod_loop n (op_head op) v (moved (length (op_bytes op)) io)"
    unfolding r by (auto simp: is_av_def length_op_bytes)
  show "is_av op \<Longrightarrow> op_type op = 9 \<and> vs_got_video v \<or> op_type op = 8 \<and> vs_got_audio v \<Longrightarrow>
      vod_loop (Suc n) th v io = (Inr v, moved 11 io)"
    unfolding r by (auto simp: is_av_def)
  assume "is_av op" and "\<not> (op_type op = 9 \<and> vs_got_video v \<or> op_type op = 8 \<and> vs_got_audio v)"
  then have 1: "(op_type op \<noteq> 9 \<and> op_type op \<noteq> 8) = False"
    and 2: "(op_type op = 9 \<and> vs_got_video v \<or> op_type op = 8 \<and> vs_got_audio v) = False"
    by (auto simp: is_av_def)
  have 3: "int (pos_of io) + int (length (op_bytes op)) = int (pos_of io) + int (length (op_data op)) + 15"
    by (simp add: length_op_bytes)
  show "vod_loop (Suc n) th v io = vod_loop n (op_head op)
       (v\<lparr>vs_got_video := op_type op = 9 \<or> vs_got_video v, vs_got_audio := op_type op \<noteq> 9 \<or> vs_got_audio v,
          vs_start := if vs_start v < 0 then int (pos_of io) else vs_start v,
          vs_end := int (pos_of io) + int (length (op_bytes op))\<rparr>) (moved (length (op_bytes op)) io)"
    unfolding r 1 2 3 unfolding length_op_bytes if_False by (rule refl)
qed

lemma vod_skip_tags:
  assumes "reading (concat (map op_bytes ops) @ rest) io" and "length th = 11"
    and "\<And>op. op \<in> set ops \<Longrightarrow> \<not> is_av op \<and> fits_24 op"
  shows "\<exists>th'. length th' = 11 \<and> vod_loop (length ops + n) th v io = vod_loop n th' v (moved (tags_size ops) io)"
  using assms
proof (induction ops arbitrary: io th)
  case Nil
  then show ?case by (intro exI [of _ th]) (cases io, simp add: moved_def)
next
  case (Cons op ops)
  from Cons.prems(1) have r: "reading (op_bytes op @ concat (map op_bytes ops) @ rest) io" by simp
  from Cons.prems(3) have o: "\<not> is_av op" "fits_24 op" by auto
  have "reading (concat (map op_bytes ops) @ rest) (moved (length (op_bytes op)) io)"
    by (rule reading_after [OF r refl])
  from Cons.IH [OF this, of "op_head op"] Cons.prems(3) obtain th' where "length th' = 11"
    and "vod_loop (length ops + n) (op_head op) v (moved (length (op_bytes op)) io)
      = vod_loop n th' v (moved (tags_size ops) (moved (length (op_bytes op)) io))" by (auto simp: op_head_def)
  then show ?case
    using vod_op(1) [OF r o(2) Cons.prems(2) o(1), of "length ops + n"]
    by (intro exI [of _ th']) (simp add: length_op_bytes)
qed

text \<open>C24: the scan finds the two sequence headers. In a file where the tags from the offset on are any
  tags that are neither audio nor video, a first tag of audio or video, again others, a first tag of
  the other kind, again others, and then some tag of audio or video, the summary is the offset of
  the first header and the number of bytes up to the end of the second (the tags between them
  included), and the reader then stands at the first header, so that a client can send the range.
\<close>

theorem vod_summary_finds_headers:
  assumes "reading (concat (map op_bytes (pre @ a # mid @ b # mid2 @ [dup])) @ rest) io" and "0 < pos_of io"
    and "\<And>op. op \<in> set (pre @ mid @ mid2) \<Longrightarrow> \<not> is_av op \<and> fits_24 op"
    and "is_av a" and "is_av b" and "is_av dup" and "op_type a \<noteq> op_type b"
    and "fits_24 a" and "fits_24 b" and "fits_24 dup"
  shows "\<exists>io'. read_sequence_header_summary io
      = (Inr (Some (int (pos_of io + tags_size pre), word_of_nat (tags_size (a # mid @ [b])))), io')
    \<and> reading (concat (map op_bytes (a # mid @ b # mid2 @ [dup])) @ rest) io'"
proof -
  let ?v0 = "\<lparr>vs_got_video = False, vs_got_audio = False, vs_start = - 1, vs_end = - 1\<rparr>"
  let ?B = "of_bytes (fi_file io)"
  have fd: "0 \<le> fi_fd io" using assms(1) by (simp add: reading_def)
  have "tags_size (pre @ a # mid @ b # mid2 @ [dup]) \<le> length (drop (of_pos (fi_file io)) ?B)"
    using assms(1) unfolding reading_def tags_size_def by simp
  also have "\<dots> \<le> length ?B" by simp
  finally have "15 * length (pre @ a # mid @ b # mid2 @ [dup]) \<le> length ?B"
    using length_tags_size le_trans by blast
  then have "\<exists>k. Suc (length ?B) = length pre + Suc (length mid + Suc (length mid2 + Suc k))"
    by (intro exI [of _ "length ?B - length pre - length mid - length mid2 - 2"]) simp
  then obtain k where k: "Suc (length ?B) = length pre + Suc (length mid + Suc (length mid2 + Suc k))" ..
  let ?p0 = "moved (tags_size pre) io"
  let ?p1 = "moved (length (op_bytes a)) ?p0"
  let ?p2 = "moved (tags_size mid) ?p1"
  let ?p3 = "moved (length (op_bytes b)) ?p2"
  let ?p4 = "moved (tags_size mid2) ?p3"
  have r: "reading (concat (map op_bytes pre) @ op_bytes a @ concat (map op_bytes mid) @ op_bytes b
      @ concat (map op_bytes mid2) @ op_bytes dup @ rest) io" using assms(1) by simp
  note r0 = reading_after [OF r tags_size_def [symmetric]]
  note r1 = reading_after [OF r0 refl]
  note r2 = reading_after [OF r1 tags_size_def [symmetric]]
  note r3 = reading_after [OF r2 refl]
  note r4 = reading_after [OF r3 tags_size_def [symmetric]]
  have l: "length (op_head op) = 11" for op by (simp add: op_head_def)
  define v1 where "v1 = ?v0\<lparr>vs_got_video := op_type a = 9 \<or> vs_got_video ?v0,
      vs_got_audio := op_type a \<noteq> 9 \<or> vs_got_audio ?v0,
      vs_start := if vs_start ?v0 < 0 then int (pos_of ?p0) else vs_start ?v0,
      vs_end := int (pos_of ?p0) + int (length (op_bytes a))\<rparr>"
  define v2 where "v2 = v1\<lparr>vs_got_video := op_type b = 9 \<or> vs_got_video v1,
      vs_got_audio := op_type b \<noteq> 9 \<or> vs_got_audio v1,
      vs_start := if vs_start v1 < 0 then int (pos_of ?p2) else vs_start v1,
      vs_end := int (pos_of ?p2) + int (length (op_bytes b))\<rparr>"
  have g: "vs_got_video v1 = (op_type a = 9)" "vs_got_audio v1 = (op_type a \<noteq> 9)" "vs_got_video v2" "vs_got_audio v2"
    "vs_start v2 = int (pos_of ?p0)" "vs_end v2 = int (pos_of ?p2) + int (length (op_bytes b))"
    using assms(4,5,7) by (auto simp: v1_def v2_def is_av_def)
  obtain t0 where t0: "length t0 = 11" and e0: "vod_loop (Suc (length ?B)) (replicate 11 0) ?v0 io
      = vod_loop (Suc (length mid + Suc (length mid2 + Suc k))) t0 ?v0 ?p0"
    using vod_skip_tags [OF r, of "replicate 11 0"] assms(3) k by (metis UnCI length_replicate set_append)
  have "\<not> (op_type a = 9 \<and> vs_got_video ?v0 \<or> op_type a = 8 \<and> vs_got_audio ?v0)" by simp
  note e1 = vod_op(3) [OF r0 assms(8) t0 assms(4) this, folded v1_def]
  obtain t1 where t1: "length t1 = 11" and e2: "vod_loop (length mid + Suc (length mid2 + Suc k)) (op_head a) v1 ?p1
      = vod_loop (Suc (length mid2 + Suc k)) t1 v1 ?p2"
    using vod_skip_tags [OF r1 l] assms(3) by (metis UnCI set_append)
  have "\<not> (op_type b = 9 \<and> vs_got_video v1 \<or> op_type b = 8 \<and> vs_got_audio v1)"
    using assms(4,7) by (auto simp: g is_av_def)
  note e3 = vod_op(3) [OF r2 assms(9) t1 assms(5) this, folded v2_def]
  obtain t2 where t2: "length t2 = 11" and e4: "vod_loop (length mid2 + Suc k) (op_head b) v2 ?p3
      = vod_loop (Suc k) t2 v2 ?p4"
    using vod_skip_tags [OF r3 l] assms(3) by (metis UnCI set_append)
  have "op_type dup = 9 \<and> vs_got_video v2 \<or> op_type dup = 8 \<and> vs_got_audio v2"
    using assms(6) by (auto simp: g is_av_def)
  note e5 = vod_op(2) [OF r4 assms(10) t2 assms(6) this]
  have loop: "vod_loop (Suc (length ?B)) (replicate 11 0) ?v0 io = (Inr v2, moved 11 ?p4)"
    by (simp only: e0 e1 e2 e3 e4 e5)
  have fd': "0 \<le> fi_fd (moved 11 ?p4)" using fd by simp
  have st: "vs_start v2 = int (pos_of io + tags_size pre)"
    and sz: "vs_end v2 - vs_start v2 = int (tags_size (a # mid @ [b]))"
    by (simp_all add: g length_op_bytes)
  have "(moved 11 ?p4)\<lparr>fi_file := (fi_file (moved 11 ?p4))\<lparr>of_pos := pos_of io + tags_size pre\<rparr>\<rparr> = ?p0"
    by (cases io, cases "fi_file io") (simp add: moved_def pos_of_def)
  then have sk: "reader_seek2 (vs_start v2) (moved 11 ?p4) = (Inr (vs_start v2), ?p0)"
    using seek_eqs(3) [OF fd', of "pos_of io + tags_size pre"] st by simp
  have pos: "0 < vs_start v2" using assms(2) st by simp
  have "read_sequence_header_summary io
      = (Inr (Some (int (pos_of io + tags_size pre), word_of_nat (tags_size (a # mid @ [b])))), ?p0)"
    unfolding read_sequence_header_summary_def bindP_eqs(4)
      bindP_Inr [where m = "vod_loop (Suc (length ?B)) (replicate 11 0) ?v0", OF loop]
    unfolding if_P [OF pos] bindP_Inr [where m = "reader_seek2 (vs_start v2)", OF sk]
    unfolding returnP_def sz unfolding st of_int_of_nat_eq
    by (rule refl)
  moreover have "reading (concat (map op_bytes (a # mid @ b # mid2 @ [dup])) @ rest) ?p0" using r0 by simp
  ultimately show ?thesis by blast
qed

definition vod_w_file :: file_io where
  "vod_w_file = flv_w_file (flv_header @ [0, 0, 0, 0] @ concat (map op_bytes
     [Write_metadata 18 [2], Write_video 0 [0x17, 0], Write_audio 0 [0xAF, 0], Write_video 40 [0x27, 1]]))"

theorem vod_summary_finds_headers_witness:
  "\<exists>io'. read_sequence_header_summary (moved 13 vod_w_file) = (Inr (Some (29, 34)), io')
    \<and> reading (concat (map op_bytes [Write_video 0 [0x17, 0], Write_audio 0 [0xAF, 0], Write_video 40 [0x27, 1]])) io'"
proof -
  let ?a = "Write_video 0 [0x17, 0]" and ?b = "Write_audio 0 [0xAF, 0]" and ?d = "Write_video 40 [0x27, 1]"
  have l: "length (flv_header @ [0, 0, 0, 0]) = 13" by (simp add: flv_header_def)
  have "reading ((flv_header @ [0, 0, 0, 0]) @ concat (map op_bytes ([Write_metadata 18 [2]] @ ?a # [] @ ?b # [] @ [?d])) @ [])
      vod_w_file" by (simp add: reading_def vod_w_file_def flv_w_file_def)
  moreover have p: "pos_of vod_w_file = 0" by (simp add: vod_w_file_def flv_w_file_def pos_of_def)
  ultimately have "reading (concat (map op_bytes ([Write_metadata 18 [2]] @ ?a # [] @ ?b # [] @ [?d])) @ []) (moved 13 vod_w_file)"
    using reading_after l by blast
  from vod_summary_finds_headers [OF this] show ?thesis
    by (simp add: is_av_def fits_24_def p)
qed

section \<open>The scan ends\<close>

definition behind :: "byte list \<Rightarrow> nat \<Rightarrow> file_io \<Rightarrow> bool" where
  "behind B p io \<longleftrightarrow> of_bytes (fi_file io) = B \<and> p \<le> pos_of io"

definition ends :: "byte list \<Rightarrow> nat \<Rightarrow> ('a res \<times> file_io) \<Rightarrow> bool" where
  "ends B p r = keeps (\<lambda>_. True) (\<lambda>e. e \<noteq> OUT_OF_FUEL) (\<lambda>_. behind B p) r"

lemma ends_bind:
  "ends B p (m s) \<Longrightarrow> (\<And>x s'. behind B p s' \<Longrightarrow> ends B p (f x s')) \<Longrightarrow> ends B p (bindP m f s)"
  unfolding ends_def by (erule keeps_bind) auto

lemma ends_simple:
  "behind B p s \<Longrightarrow> ends B p (returnP x s)" "e \<noteq> OUT_OF_FUEL \<Longrightarrow> ends B p (raiseP e s)"
  "behind B p s \<Longrightarrow> e \<noteq> OUT_OF_FUEL \<Longrightarrow> ends B p (checkP c e s)"
  by (auto simp: ends_def keeps_def prog_simps)

lemma ends_tellg: "behind B p s \<Longrightarrow> ends B p (file_tellg s)"
  by (cases s, cases "fi_file s")
    (auto simp: file_tellg_def on_fd_def os_lseek_def ends_def keeps_def behind_def pos_of_def Let_def)

lemma ends_skip: "behind B p s \<Longrightarrow> 0 \<le> k \<Longrightarrow> ends B p (reader_skip k s)"
  by (cases s, cases "fi_file s")
    (auto simp: reader_skip_def on_fd_def os_lseek_def ends_def keeps_def behind_def pos_of_def Let_def bindP_def prog_simps)

lemma ends_note: "behind B p s \<Longrightarrow> 0 \<le> d \<Longrightarrow> ends B p (vod_note video d v s)"
  unfolding vod_note_def Let_def
  by (auto intro!: ends_bind ends_tellg ends_skip ends_simple)

text \<open>A read that succeeds moves on, and only before the end.\<close>

lemma reader_read_moves:
  assumes "reader_read n io = (Inr bs, io')"
  shows "of_bytes (fi_file io') = of_bytes (fi_file io)" and "pos_of io < pos_of io'"
    and "pos_of io < length (of_bytes (fi_file io))"
  using assms by (auto simp: reader_read_def bindP_def on_fd_def os_read_def os_count_def prog_simps pos_of_def Let_def
      split: if_splits option.splits list.splits)

lemma reader_read_error: "reader_read n io = (Inl e, io') \<Longrightarrow> e \<noteq> OUT_OF_FUEL"
  by (auto simp: reader_read_def bindP_def on_fd_def os_read_def os_count_def prog_simps Let_def
      split: if_splits option.splits list.splits)

lemma buf_errors:
  "buf_initialize b = Inl e \<Longrightarrow> e \<noteq> OUT_OF_FUEL" "read_1bytes s = Inl e \<Longrightarrow> e \<noteq> OUT_OF_FUEL"
  "read_3bytes s = Inl e \<Longrightarrow> e \<noteq> OUT_OF_FUEL"
  by (auto simp: buf_initialize_def read_1bytes_def read_3bytes_def fetch_numeral bindR_eq_Inl
      split: option.splits if_splits)

lemma vod_loop_ends:
  "length (of_bytes (fi_file io)) - pos_of io < n \<Longrightarrow> fst (vod_loop n th v io) \<noteq> Inl OUT_OF_FUEL"
proof (induction n arbitrary: th v io)
  case 0
  then show ?case by simp
next
  case (Suc n)
  let ?B = "of_bytes (fi_file io)"
  show ?case
  proof (cases "reader_read 11 io")
    case (Pair r io')
    show ?thesis
    proof (cases r)
      case (Inl e)
      with Pair reader_read_error show ?thesis by (auto simp: bindP_def)
    next
      case (Inr bs)
      note m = reader_read_moves [OF Pair [unfolded Inr]]
      let ?p = "pos_of io'"
      have b: "behind ?B ?p io'" using m by (simp add: behind_def)
      have rec: "fst (vod_loop n th' v' s) \<noteq> Inl OUT_OF_FUEL" if "behind ?B ?p s" for th' v' s
      proof (rule Suc.IH)
        show "length (of_bytes (fi_file s)) - pos_of s < n"
          using that m Suc.prems by (simp add: behind_def) linarith
      qed
      have e: "fst (bindP k (vod_loop n th') s) \<noteq> Inl OUT_OF_FUEL" if "ends ?B ?p (k s)" for k th' s
        using that rec by (auto simp: bindP_def ends_def keeps_def split: prod.splits sum.splits)
      have e': "fst (bindP k (\<lambda>_. vod_loop n th' v') s) \<noteq> Inl OUT_OF_FUEL" if "ends ?B ?p (k s)" for k th' v' s
        using that rec by (auto simp: bindP_def ends_def keeps_def split: prod.splits sum.splits)
      show ?thesis
        unfolding vod_loop.simps bindP_Inr [where m = "reader_read 11", OF Pair [unfolded Inr]] Let_def bind_liftR
        by (auto simp: bind_liftR bindR_eq_Inl prog_simps split: sum.splits dest: buf_errors
            intro!: e e' ends_skip ends_note b)
    qed
  qed
qed

text \<open>C25: the scan for the sequence headers ends on every file. Whatever the bytes of the file are,
  wherever the offset stands, and however the system cuts the reads short or fails them, the loop
  of \<^verbatim>\<open>read_sequence_header_summary\<close> does not need more rounds than the file has bytes: each
  reads at least one byte, and the sizes that it skips are not negative.
\<close>

theorem vod_summary_ends: "fst (read_sequence_header_summary io) \<noteq> Inl OUT_OF_FUEL"
proof -
  let ?v = "\<lparr>vs_got_video = False, vs_got_audio = False, vs_start = - 1, vs_end = - 1\<rparr>"
  obtain r s where l: "vod_loop (Suc (length (of_bytes (fi_file io)))) (replicate 11 0) ?v io = (r, s)" by fastforce
  have "fst (vod_loop (Suc (length (of_bytes (fi_file io)))) (replicate 11 0) ?v io) \<noteq> Inl OUT_OF_FUEL"
    by (rule vod_loop_ends) simp
  with l have "r \<noteq> Inl OUT_OF_FUEL" by simp
  then show ?thesis unfolding read_sequence_header_summary_def bindP_eqs(4) bindP_def [where m = "vod_loop _ _ _"] l
    by (auto simp: bindP_def prog_simps reader_seek2_def on_fd_def split: sum.splits prod.splits)
qed

end
