(* ===== verification/Srs_Url.thy ===== *)
theory Srs_Url
  imports Srs_Amf0_Codec
begin

text \<open>
  Strings and addresses: the helpers on strings of \<^verbatim>\<open>src/src/kernel/srs_kernel_utility.cpp\<close>, the
  URLs of \<^verbatim>\<open>src/src/protocol/srs_protocol_utility.cpp\<close>, and \<^verbatim>\<open>SrsRequest\<close>, what a client asks for.
\<close>

section \<open>Finding\<close>

text \<open>\<^verbatim>\<open>s.find(pat, pos)\<close> and \<^verbatim>\<open>s.rfind(pat)\<close>; \<open>None\<close> is \<^verbatim>\<open>npos\<close>.\<close>

fun find_at :: "nat \<Rightarrow> string \<Rightarrow> string \<Rightarrow> nat option" where
  "find_at i pat [] = (if pat = [] then Some i else None)"
| "find_at i pat (c # cs) = (if take (length pat) (c # cs) = pat then Some i else find_at (Suc i) pat cs)"

definition str_find :: "string \<Rightarrow> nat \<Rightarrow> string \<Rightarrow> nat option" where
  "str_find pat pos s = (if pos \<le> length s then find_at pos pat (drop pos s) else None)"

definition str_rfind :: "string \<Rightarrow> string \<Rightarrow> nat option" where
  "str_rfind pat s = (case filter (\<lambda>i. take (length pat) (drop i s) = pat) (rev [0..<Suc (length s - length pat)]) of
     [] \<Rightarrow> None | i # _ \<Rightarrow> Some i)"

definition srs_string_starts_with :: "string \<Rightarrow> string \<Rightarrow> bool" where
  "srs_string_starts_with str flag \<longleftrightarrow> str_find flag 0 str = Some 0"

definition srs_string_ends_with :: "string \<Rightarrow> string \<Rightarrow> bool" where
  "srs_string_ends_with str flag \<longleftrightarrow>
     (case str_rfind flag str of None \<Rightarrow> False | Some pos \<Rightarrow> pos + length flag = length str)"

definition srs_string_contains :: "string \<Rightarrow> string \<Rightarrow> bool" where
  "srs_string_contains str flag \<longleftrightarrow> str_find flag 0 str \<noteq> None"

section \<open>Replacing, trimming, removing\<close>

text \<open>
  The search goes on at the start of the replacement, not behind it. Every round uses up a
  character of the rest, unless the replacement contains what is replaced.
\<close>

fun replace_from :: "nat \<Rightarrow> string \<Rightarrow> string \<Rightarrow> nat \<Rightarrow> string \<Rightarrow> string res" where
  "replace_from 0 old_str new_str pos ret = Inl OUT_OF_FUEL"
| "replace_from (Suc n) old_str new_str pos ret = (case str_find old_str pos ret of
     None \<Rightarrow> Inr ret
   | Some p \<Rightarrow> replace_from n old_str new_str p (take p ret @ new_str @ drop (p + length old_str) ret))"

definition srs_string_replace :: "string \<Rightarrow> string \<Rightarrow> string \<Rightarrow> string res" where
  "srs_string_replace str old_str new_str =
     (if old_str = new_str then Inr str else replace_from (Suc (length str)) old_str new_str 0 str)"

text \<open>
  After a match the index is reset to 0, and the loop then increments it: the first of the
  characters is not tried again.
\<close>

definition strip_last :: "char \<Rightarrow> string \<Rightarrow> string" where
  "strip_last ch ret = rev (dropWhile (\<lambda>c. c = ch) (rev ret))"

lemma length_dropWhile_less: "dropWhile P xs \<noteq> xs \<Longrightarrow> length (dropWhile P xs) < length xs"
  by (induction xs) (auto simp: le_imp_less_Suc length_dropWhile_le split: if_splits)

lemma length_strip_last: "strip_last ch ret \<noteq> ret \<Longrightarrow> length (strip_last ch ret) < length ret"
  using length_dropWhile_less [of "\<lambda>c. c = ch" "rev ret"] by (fastforce simp: strip_last_def)

function trim_end_from :: "nat \<Rightarrow> string \<Rightarrow> string \<Rightarrow> string" where
  "trim_end_from i trim_chars ret =
     (if i \<ge> length trim_chars then ret
      else let r = strip_last (trim_chars ! i) ret
        in if r = ret then trim_end_from (Suc i) trim_chars ret else trim_end_from 1 trim_chars r)"
  by pat_completeness auto
termination
  by (relation "measures [\<lambda>(i, cs, ret). length ret, \<lambda>(i, cs, ret). length cs - i]")
    (auto simp: length_strip_last)

definition srs_string_trim_end :: "string \<Rightarrow> string \<Rightarrow> string" where
  "srs_string_trim_end str trim_chars = trim_end_from 0 trim_chars str"

definition strip_first :: "char \<Rightarrow> string \<Rightarrow> string" where
  "strip_first ch ret = dropWhile (\<lambda>c. c = ch) ret"

lemma length_strip_first: "strip_first ch ret \<noteq> ret \<Longrightarrow> length (strip_first ch ret) < length ret"
  unfolding strip_first_def by (rule length_dropWhile_less)

function trim_start_from :: "nat \<Rightarrow> string \<Rightarrow> string \<Rightarrow> string" where
  "trim_start_from i trim_chars ret =
     (if i \<ge> length trim_chars then ret
      else let r = strip_first (trim_chars ! i) ret
        in if r = ret then trim_start_from (Suc i) trim_chars ret else trim_start_from 1 trim_chars r)"
  by pat_completeness auto
termination
  by (relation "measures [\<lambda>(i, cs, ret). length ret, \<lambda>(i, cs, ret). length cs - i]")
    (auto simp: length_strip_first)

definition srs_string_trim_start :: "string \<Rightarrow> string \<Rightarrow> string" where
  "srs_string_trim_start str trim_chars = trim_start_from 0 trim_chars str"

function remove_from :: "nat \<Rightarrow> string \<Rightarrow> string \<Rightarrow> string" where
  "remove_from i remove_chars ret =
     (if i \<ge> length remove_chars then ret
      else let r = filter (\<lambda>c. remove_chars ! i \<noteq> c) ret
        in if r = ret then remove_from (Suc i) remove_chars ret else remove_from 1 remove_chars r)"
  by pat_completeness auto
termination
  by (relation "measures [\<lambda>(i, cs, ret). length ret, \<lambda>(i, cs, ret). length cs - i]")
    (auto simp: length_filter_less filter_id_conv intro!: length_filter_less)

definition srs_string_remove :: "string \<Rightarrow> string \<Rightarrow> string" where
  "srs_string_remove str remove_chars = remove_from 0 remove_chars str"

declare trim_end_from.simps [simp del] trim_start_from.simps [simp del] remove_from.simps [simp del]

section \<open>Splitting\<close>

lemma find_at_bound: "find_at i pat s = Some p \<Longrightarrow> i \<le> p \<and> p + length pat \<le> i + length s"
  by (induction i pat s rule: find_at.induct) (auto split: if_splits dest: arg_cong [where f = length])

text \<open>An empty flag would be found for ever; the code has none.\<close>

function srs_string_split :: "string \<Rightarrow> string \<Rightarrow> string list res" where
  "srs_string_split s flag = (case str_find flag 0 s of
     None \<Rightarrow> Inr (if s \<noteq> [] then [s] else [])
   | Some pos \<Rightarrow> if flag = [] then Inl OUT_OF_FUEL
       else bindR (srs_string_split (drop (pos + length flag) s) flag)
         (\<lambda>arr. Inr (if pos \<noteq> 0 then take pos s # arr else arr)))"
  by pat_completeness auto
termination
  by (relation "measure (\<lambda>(s, flag). length s)")
    (auto simp: str_find_def length_greater_0_conv [symmetric] simp del: length_greater_0_conv dest!: find_at_bound)

declare srs_string_split.simps [simp del]

fun min_match :: "string \<Rightarrow> nat option \<Rightarrow> string \<Rightarrow> string list \<Rightarrow> string" where
  "min_match str min_pos match [] = match"
| "min_match str min_pos match (flag # flags) = (case str_find flag 0 str of
     None \<Rightarrow> min_match str min_pos match flags
   | Some pos \<Rightarrow> if (case min_pos of None \<Rightarrow> True | Some m \<Rightarrow> pos < m)
       then min_match str (Some pos) flag flags else min_match str min_pos match flags)"

definition srs_string_min_match :: "string \<Rightarrow> string list \<Rightarrow> string" where
  "srs_string_min_match str flags = min_match str None [] flags"

function split_flags :: "string \<Rightarrow> string list \<Rightarrow> string list" where
  "split_flags s flags = (let flag = srs_string_min_match s flags in
     if flag = [] then (if s \<noteq> [] then [s] else [])
     else case str_find flag 0 s of
       None \<Rightarrow> (if s \<noteq> [] then [s] else [])
     | Some pos \<Rightarrow> let arr = split_flags (drop (pos + length flag) s) flags
         in if pos \<noteq> 0 then take pos s # arr else arr)"
  by pat_completeness auto
termination
  by (relation "measure (\<lambda>(s, flags). length s)")
    (auto simp: str_find_def length_greater_0_conv [symmetric] simp del: length_greater_0_conv dest!: find_at_bound)

declare split_flags.simps [simp del]

section \<open>Numbers\<close>

fun nat_to_str :: "nat \<Rightarrow> string" where
  "nat_to_str n = (if n < 10 then [char_of (48 + n)] else nat_to_str (n div 10) @ [char_of (48 + n mod 10)])"

declare nat_to_str.simps [simp del]

definition srs_int2str :: "int \<Rightarrow> string" where
  "srs_int2str value = (if value < 0 then ''-'' @ nat_to_str (nat (- value)) else nat_to_str (nat value))"

text \<open>\<^verbatim>\<open>atoi\<close> of the standard library: a value that an \<^verbatim>\<open>int\<close> does not hold is undefined.\<close>

definition is_digit :: "char \<Rightarrow> bool" where
  "is_digit c \<longleftrightarrow> 48 \<le> (of_char c :: nat) \<and> (of_char c :: nat) \<le> 57"

definition digits_value :: "string \<Rightarrow> nat" where
  "digits_value ds = foldl (\<lambda>v c. v * 10 + (of_char c - 48)) 0 ds"

definition c_atoi :: "string \<Rightarrow> int res" where
  "c_atoi s =
     (let s = dropWhile (\<lambda>c. c = CHR '' '' \<or> 9 \<le> (of_char c :: nat) \<and> (of_char c :: nat) \<le> 13) s;
          neg = (s \<noteq> [] \<and> hd s = CHR ''-'');
          s = (if s \<noteq> [] \<and> (hd s = CHR ''-'' \<or> hd s = CHR ''+'') then tl s else s);
          n = int (digits_value (takeWhile is_digit s));
          v = (if neg then - n else n)
      in if v < - (2 ^ 31) \<or> 2 ^ 31 \<le> v then Inl UNDEFINED_BEHAVIOUR else Inr v)"

section \<open>Addresses\<close>

abbreviation SRS_CONSTS_RTMP_DEFAULT_PORT :: int where "SRS_CONSTS_RTMP_DEFAULT_PORT \<equiv> 1935"
abbreviation SRS_CONSTS_RTMP_DEFAULT_APP :: string where "SRS_CONSTS_RTMP_DEFAULT_APP \<equiv> ''__defaultApp__''"
abbreviation SRS_CONSTS_RTMP_DEFAULT_VHOST :: string where "SRS_CONSTS_RTMP_DEFAULT_VHOST \<equiv> ''__defaultVhost__''"

text \<open>Without a colon the port is left alone.\<close>

definition srs_parse_hostport :: "string \<Rightarrow> int \<Rightarrow> (string \<times> int) res" where
  "srs_parse_hostport hostport port = (case str_find '':'' 0 hostport of
     None \<Rightarrow> Inr (hostport, port)
   | Some pos \<Rightarrow> bindR (c_atoi (drop (pos + 1) hostport)) (\<lambda>port. Inr (take pos hostport, port)))"

definition srs_parse_endpoint :: "string \<Rightarrow> (string \<times> int) res" where
  "srs_parse_endpoint hostport = (case str_find '':'' 0 hostport of
     Some pos \<Rightarrow> bindR (c_atoi (drop (pos + 1) hostport)) (\<lambda>port. Inr (take pos hostport, port))
   | None \<Rightarrow> bindR (c_atoi hostport) (\<lambda>port. Inr (''0.0.0.0'', port)))"

text \<open>The vhost in the query of the app.\<close>

definition vhost_of_query :: "string \<Rightarrow> string \<Rightarrow> string" where
  "vhost_of_query vhost query = (case str_find ''vhost?'' 0 query of
     None \<Rightarrow> vhost
   | Some pos \<Rightarrow>
       let query = drop (pos + 6) query;
           vhost = (if query \<noteq> [] then query else vhost)
       in case str_find ''?'' 0 vhost of None \<Rightarrow> vhost | Some pos \<Rightarrow> take pos vhost)"

definition srs_vhost_resolve :: "string \<Rightarrow> string \<Rightarrow> string \<Rightarrow> (string \<times> string \<times> string) res" where
  "srs_vhost_resolve vhost app param =
     (let param = (case str_find ''?'' 0 app of None \<Rightarrow> param | Some pos \<Rightarrow> drop pos app) in
      bindR (srs_string_replace app '','' ''?'')
      (\<lambda>app. bindR (srs_string_replace app ''...'' ''?'')
      (\<lambda>app. bindR (srs_string_replace app ''&&'' ''?'')
      (\<lambda>app. bindR (srs_string_replace app ''='' ''?'')
      (\<lambda>app. case str_find ''?'' 0 app of
         None \<Rightarrow> Inr (vhost, app, param)
       | Some pos \<Rightarrow> Inr (vhost_of_query vhost (drop (pos + 1) app), take pos app, param))))))"

record tc_url =
  tc_schema :: string
  tc_host :: string
  tc_vhost :: string
  tc_app :: string
  tc_port :: int
  tc_param :: string

text \<open>What is not in the address keeps the value it had.\<close>

definition srs_discovery_tc_url :: "string \<Rightarrow> tc_url \<Rightarrow> tc_url res" where
  "srs_discovery_tc_url tcUrl t =
     (let (t, url) = (case str_find ''://'' 0 tcUrl of
            None \<Rightarrow> (t, tcUrl) | Some pos \<Rightarrow> (t\<lparr>tc_schema := take pos tcUrl\<rparr>, drop (pos + 3) tcUrl));
          (t, url) = (case str_find ''/'' 0 url of
            None \<Rightarrow> (t, url) | Some pos \<Rightarrow> (t\<lparr>tc_host := take pos url\<rparr>, drop (pos + 1) url))
      in bindR (if str_find '':'' 0 (tc_host t) \<noteq> None
            then srs_parse_hostport (tc_host t) SRS_CONSTS_RTMP_DEFAULT_PORT
            else Inr (tc_host t, SRS_CONSTS_RTMP_DEFAULT_PORT))
         (\<lambda>(host, port).
            let app = (if url = [] then SRS_CONSTS_RTMP_DEFAULT_APP else url)
            in bindR (srs_vhost_resolve host app (tc_param t))
               (\<lambda>(vhost, app, param). Inr (t\<lparr>tc_host := host, tc_vhost := vhost, tc_app := app,
                  tc_port := port, tc_param := param\<rparr>))))"

definition srs_parse_query_string :: "string \<Rightarrow> (string \<rightharpoonup> string) \<Rightarrow> (string \<rightharpoonup> string)" where
  "srs_parse_query_string q query =
     (let kvs = split_flags q [''='', '','', ''&&'', ''&'', '';'']
      in fold (\<lambda>i query. query(kvs ! (2 * i) \<mapsto> (if 2 * i + 1 < length kvs then kvs ! (2 * i + 1) else [])))
           [0..<(length kvs + 1) div 2] query)"

definition srs_generate_tc_url :: "string \<Rightarrow> string \<Rightarrow> string \<Rightarrow> int \<Rightarrow> string \<Rightarrow> string" where
  "srs_generate_tc_url ip vhost app port param =
     ''rtmp://'' @ (if vhost = SRS_CONSTS_RTMP_DEFAULT_VHOST then ip else vhost)
     @ (if port \<noteq> SRS_CONSTS_RTMP_DEFAULT_PORT then '':'' @ srs_int2str port else [])
     @ ''/'' @ app @ (if param \<noteq> [] then ''?'' @ param else [])"

definition srs_generate_normal_tc_url :: "string \<Rightarrow> string \<Rightarrow> string \<Rightarrow> int \<Rightarrow> string \<Rightarrow> string" where
  "srs_generate_normal_tc_url ip vhost app port param =
     ''rtmp://'' @ vhost @ '':'' @ srs_int2str port @ ''/'' @ app @ (if param = [] then [] else ''?'' @ param)"

definition srs_generate_via_tc_url :: "string \<Rightarrow> string \<Rightarrow> string \<Rightarrow> int \<Rightarrow> string \<Rightarrow> string" where
  "srs_generate_via_tc_url ip vhost app port param =
     ''rtmp://'' @ ip @ '':'' @ srs_int2str port @ ''/'' @ vhost @ ''/'' @ app @ (if param = [] then [] else ''?'' @ param)"

definition srs_generate_vis_tc_url :: "string \<Rightarrow> string \<Rightarrow> string \<Rightarrow> int \<Rightarrow> string \<Rightarrow> string" where
  "srs_generate_vis_tc_url ip vhost app port param =
     ''rtmp://'' @ ip @ '':'' @ srs_int2str port @ ''/'' @ app @ (if param = [] then [] else ''?'' @ param)"

definition srs_generate_stream_url :: "string \<Rightarrow> string \<Rightarrow> string \<Rightarrow> string" where
  "srs_generate_stream_url vhost app stream =
     (if SRS_CONSTS_RTMP_DEFAULT_VHOST \<noteq> vhost then vhost else []) @ ''/'' @ app @ ''/'' @ stream"

text \<open>Without a slash the stream keeps its value.\<close>

definition srs_parse_rtmp_url :: "string \<Rightarrow> string \<Rightarrow> string \<times> string" where
  "srs_parse_rtmp_url url stream = (case str_rfind ''/'' url of
     None \<Rightarrow> (url, stream) | Some pos \<Rightarrow> (take pos url, drop (pos + 1) url))"

definition srs_generate_rtmp_url :: "string \<Rightarrow> int \<Rightarrow> string \<Rightarrow> string \<Rightarrow> string \<Rightarrow> string" where
  "srs_generate_rtmp_url server port vhost app stream =
     ''rtmp://'' @ server @ '':'' @ srs_int2str port @ ''/'' @ app
     @ (if SRS_CONSTS_RTMP_DEFAULT_VHOST \<noteq> vhost \<and> server \<noteq> vhost then ''...vhost...'' @ vhost else [])
     @ (if stream \<noteq> [] then ''/'' @ stream else [])"

section \<open>The request of a client\<close>

record request =
  rq_ip :: string
  rq_tcUrl :: string
  rq_pageUrl :: string
  rq_swfUrl :: string
  rq_objectEncoding :: double
  rq_url :: tc_url
  rq_stream :: string
  rq_duration :: double
  rq_args :: "props option"

definition request_new :: request where
  "request_new = \<lparr>rq_ip = [], rq_tcUrl = [], rq_pageUrl = [], rq_swfUrl = [], rq_objectEncoding = 0,
     rq_url = \<lparr>tc_schema = [], tc_host = [], tc_vhost = [], tc_app = [], tc_port = SRS_CONSTS_RTMP_DEFAULT_PORT,
       tc_param = []\<rparr>, rq_stream = [], rq_duration = 0xBFF0000000000000, rq_args = None\<rparr>"

definition copy_args :: "props option \<Rightarrow> props option res" where
  "copy_args args = (case args of None \<Rightarrow> Inr None
     | Some ps \<Rightarrow> bindR (to_object (amf0_copy (Amf0Object ps))) (\<lambda>ps. Inr (Some ps)))"

definition request_copy :: "request \<Rightarrow> request res" where
  "request_copy r = bindR (copy_args (rq_args r)) (\<lambda>args. Inr (r\<lparr>rq_args := args\<rparr>))"

text \<open>Everything but the name of the stream is taken over.\<close>

definition request_update_auth :: "request \<Rightarrow> request \<Rightarrow> request res" where
  "request_update_auth req r = bindR (copy_args (rq_args req))
     (\<lambda>args. Inr (r\<lparr>rq_ip := rq_ip req, rq_tcUrl := rq_tcUrl req, rq_pageUrl := rq_pageUrl req,
        rq_swfUrl := rq_swfUrl req, rq_objectEncoding := rq_objectEncoding req, rq_url := rq_url req,
        rq_duration := rq_duration req, rq_args := args\<rparr>))"

definition request_get_stream_url :: "request \<Rightarrow> string" where
  "request_get_stream_url r = srs_generate_stream_url (tc_vhost (rq_url r)) (tc_app (rq_url r)) (rq_stream r)"

definition white_chars :: string where
  "white_chars = [CHR '' '', char_of (10::nat), char_of (13::nat), char_of (9::nat)]"

definition request_strip :: "request \<Rightarrow> request" where
  "request_strip r =
     (let u = rq_url r;
          host = srs_string_remove (tc_host u) (CHR ''/'' # white_chars);
          vhost = srs_string_remove (tc_vhost u) (CHR ''/'' # white_chars);
          app = srs_string_remove (tc_app u) white_chars;
          stream = srs_string_remove (rq_stream r) white_chars;
          app = srs_string_trim_end app ''/'';
          stream = srs_string_trim_end stream ''/'';
          app = srs_string_trim_start app ''/'';
          stream = srs_string_trim_start stream ''/''
      in r\<lparr>rq_url := u\<lparr>tc_host := host, tc_vhost := vhost, tc_app := app\<rparr>, rq_stream := stream\<rparr>)"

end
