(* ===== verification/Srs_Dialogue.thy ===== *)
theory Srs_Dialogue
  imports Srs_Protocol Srs_Url
begin

text \<open>
  What the two ends of a connection share: numbers of the AMF0 values, property tables that are
  filled one by one, and waiting for a packet (\<^verbatim>\<open>SrsProtocol::expect_message\<close> in
  \<^verbatim>\<open>src/include/protocol/srs_rtmp_stack.hpp\<close>).
\<close>

section \<open>Integers as doubles\<close>

text \<open>
  The conversion of an \<^verbatim>\<open>int\<close> to a \<^verbatim>\<open>double\<close>, which is exact, and back, where what is behind the
  point is dropped and a value that does not fit (or is not a number) is undefined.
\<close>

fun floor_log :: "nat \<Rightarrow> nat" where
  "floor_log n = (if n < 2 then 0 else Suc (floor_log (n div 2)))"

declare floor_log.simps [simp del]

definition dbl_of_int :: "int \<Rightarrow> double" where
  "dbl_of_int n = (if n = 0 then 0
     else let m = \<bar>n\<bar>; e = floor_log (nat m)
       in word_of_int ((if n < 0 then 2 ^ 63 else 0) + int (1023 + e) * 2 ^ 52 + (m * 2 ^ (52 - e) - 2 ^ 52)))"

definition dbl_to_int :: "double \<Rightarrow> int res" where
  "dbl_to_int d =
     (let b = uint d; ex = (b div 2 ^ 52) mod 2048; f = b mod 2 ^ 52
      in if ex < 1023 then Inr 0
         else if ex > 1054 then Inl UNDEFINED_BEHAVIOUR
         else let m = (2 ^ 52 + f) div 2 ^ nat (1075 - ex); v = (if b \<ge> 2 ^ 63 then - m else m)
           in if v < - (2 ^ 31) \<or> 2 ^ 31 \<le> v then Inl UNDEFINED_BEHAVIOUR else Inr v)"

section \<open>Filling a table\<close>

fun ht_sets :: "(string \<times> amf0) list \<Rightarrow> props \<Rightarrow> props" where
  "ht_sets [] ps = ps"
| "ht_sets ((key, v) # kvs) ps = ht_sets kvs (ht_set key (Some v) ps)"

text \<open>\<^verbatim>\<open>SrsAmf0Any::str\<close> takes the characters up to the first zero.\<close>

definition amf0_str :: "string \<Rightarrow> amf0" where
  "amf0_str v = Amf0String (c_str v)"

definition amf0_int :: "int \<Rightarrow> amf0" where
  "amf0_int n = Amf0Number (dbl_of_int n)"

section \<open>Waiting for a packet\<close>

text \<open>
  \<open>sel\<close> is the cast to the wanted class. Messages of another class are dropped. Each message that
  is received takes bytes of the input, which therefore bound the rounds.
\<close>

fun expect_loop :: "nat \<Rightarrow> (packet \<Rightarrow> 'a option) \<Rightarrow> (protocol, common_msg \<times> 'a) prog" where
  "expect_loop 0 sel = raiseP OUT_OF_FUEL"
| "expect_loop (Suc n) sel = bindP recv_message
     (\<lambda>msg. bindP (getP pr_requests)
     (\<lambda>requests. case decode_message requests msg of
        Inl e \<Rightarrow> raiseP e
      | Inr packet \<Rightarrow> (case Option.bind packet sel of
          None \<Rightarrow> expect_loop n sel
        | Some pkt \<Rightarrow> returnP (msg, pkt))))"

definition expect_message :: "(packet \<Rightarrow> 'a option) \<Rightarrow> (protocol, common_msg \<times> 'a) prog" where
  "expect_message sel s = expect_loop (Suc (todo (cr_in s))) sel s"

fun as_connect_app :: "packet \<Rightarrow> connect_app option" where
  "as_connect_app (ConnectApp p) = Some p" | "as_connect_app _ = None"

fun as_connect_app_res :: "packet \<Rightarrow> connect_app_res option" where
  "as_connect_app_res (ConnectAppRes p) = Some p" | "as_connect_app_res _ = None"

fun as_call :: "packet \<Rightarrow> call_packet option" where
  "as_call (Call p) = Some p" | "as_call _ = None"

fun as_create_stream :: "packet \<Rightarrow> create_stream option" where
  "as_create_stream (CreateStream p) = Some p" | "as_create_stream _ = None"

fun as_create_stream_res :: "packet \<Rightarrow> create_stream_res option" where
  "as_create_stream_res (CreateStreamRes p) = Some p" | "as_create_stream_res _ = None"

fun as_fmle_start :: "packet \<Rightarrow> fmle_start option" where
  "as_fmle_start (FMLEStart p) = Some p" | "as_fmle_start _ = None"

fun as_publish :: "packet \<Rightarrow> publish option" where
  "as_publish (Publish p) = Some p" | "as_publish _ = None"

text \<open>A method that has a second object beside the session.\<close>

definition on_session :: "(protocol, 'a) prog \<Rightarrow> (protocol \<times> 'x, 'a) prog" where
  "on_session m = (\<lambda>(s, x). case m s of (r, s) \<Rightarrow> (r, (s, x)))"

end
