(* ===== verification/Srs_Rtmp_Server.thy ===== *)
theory Srs_Rtmp_Server
  imports Srs_Dialogue
begin

text \<open>
  \<^verbatim>\<open>SrsRtmpServer\<close> (\<^verbatim>\<open>src/src/protocol/srs_rtmp_stack.cpp\<close>): the commands of a client on the side of
  the server, from connecting to publishing or playing, over a session of \<^verbatim>\<open>SrsProtocol\<close>.
\<close>

abbreviation RTMP_AMF0_COMMAND_ON_FC_PUBLISH :: string where "RTMP_AMF0_COMMAND_ON_FC_PUBLISH \<equiv> ''onFCPublish''"
abbreviation RTMP_AMF0_COMMAND_ON_FC_UNPUBLISH :: string where "RTMP_AMF0_COMMAND_ON_FC_UNPUBLISH \<equiv> ''onFCUnpublish''"
abbreviation SrcPCUCStreamBegin :: "16 word" where "SrcPCUCStreamBegin \<equiv> 0x00"
abbreviation SrcPCUCStreamEOF :: "16 word" where "SrcPCUCStreamEOF \<equiv> 0x01"

section \<open>Connecting\<close>

text \<open>
  The state is the session and the request, which keeps what it has where the client does not say.
  \<open>get_str\<close> and \<open>get_num\<close> read a property of the wanted type.
\<close>

definition get_str :: "string \<Rightarrow> props \<Rightarrow> string option res" where
  "get_str name ps = (case ht_ensure_property_string name ps of
     None \<Rightarrow> Inr None | Some prop \<Rightarrow> bindR (to_str prop) (\<lambda>v. Inr (Some v)))"

definition get_num :: "string \<Rightarrow> props \<Rightarrow> double option res" where
  "get_num name ps = (case ht_ensure_property_number name ps of
     None \<Rightarrow> Inr None | Some prop \<Rightarrow> bindR (to_number prop) (\<lambda>v. Inr (Some v)))"

definition set_opt :: "('a \<Rightarrow> 'r \<Rightarrow> 'r) \<Rightarrow> 'a option \<Rightarrow> (protocol \<times> 'r, unit) prog" where
  "set_opt f v = modifyP (\<lambda>(s, r). (s, case v of None \<Rightarrow> r | Some x \<Rightarrow> f x r))"

definition server_connect_app :: "(protocol \<times> request, unit) prog" where
  "server_connect_app =
     bindP (on_session (expect_message as_connect_app))
     (\<lambda>(msg, pkt). bindP (liftR (get_str ''tcUrl'' (ca_command_object pkt)))
     (\<lambda>tcUrl. bindP (checkP (tcUrl \<noteq> None) ERROR_RTMP_REQ_CONNECT)
     (\<lambda>_. bindP (set_opt (\<lambda>v r. r\<lparr>rq_tcUrl := v\<rparr>) tcUrl)
     (\<lambda>_. bindP (liftR (get_str ''pageUrl'' (ca_command_object pkt)))
     (\<lambda>v. bindP (set_opt (\<lambda>v r. r\<lparr>rq_pageUrl := v\<rparr>) v)
     (\<lambda>_. bindP (liftR (get_str ''swfUrl'' (ca_command_object pkt)))
     (\<lambda>v. bindP (set_opt (\<lambda>v r. r\<lparr>rq_swfUrl := v\<rparr>) v)
     (\<lambda>_. bindP (liftR (get_num ''objectEncoding'' (ca_command_object pkt)))
     (\<lambda>v. bindP (set_opt (\<lambda>v r. r\<lparr>rq_objectEncoding := v\<rparr>) v)
     (\<lambda>_. bindP (liftR (copy_args (ca_args pkt)))
     (\<lambda>args. bindP (set_opt (\<lambda>ps r. r\<lparr>rq_args := Some ps\<rparr>) args)
     (\<lambda>_. bindP (getP snd)
     (\<lambda>r. bindP (liftR (srs_discovery_tc_url (rq_tcUrl r) (rq_url r)))
     (\<lambda>u. modifyP (\<lambda>(s, r). (s, request_strip (r\<lparr>rq_url := u\<rparr>)))))))))))))))))"

definition server_set_window_ack_size :: "32 word \<Rightarrow> (protocol, unit) prog" where
  "server_set_window_ack_size ack_size =
     send_and_free_packet (SetWindowAckSize \<lparr>sw_ackowledgement_window_size = ack_size\<rparr>) 0"

definition server_set_peer_bandwidth :: "32 word \<Rightarrow> 8 word \<Rightarrow> (protocol, unit) prog" where
  "server_set_peer_bandwidth bandwidth type =
     send_and_free_packet (SetPeerBandwidth (set_peer_bandwidth_new\<lparr>spb_bandwidth := bandwidth, spb_type := type\<rparr>)) 0"

definition server_set_chunk_size :: "32 word \<Rightarrow> (protocol, unit) prog" where
  "server_set_chunk_size chunk_size = send_and_free_packet (SetChunkSize \<lparr>scs_chunk_size = chunk_size\<rparr>) 0"

text \<open>What the server tells of itself; \<open>pid\<close> and \<open>cid\<close> are the ids of the process and the connection.\<close>

definition server_identity :: "string option \<Rightarrow> int \<Rightarrow> int \<Rightarrow> props" where
  "server_identity server_ip pid cid =
     (let data = ht_sets [
        (''version'', amf0_str ''3,5,3,888''),
        (''srs_sig'', amf0_str ''SRS''),
        (''srs_server'', amf0_str ''SRS/3.0.25(OuXuli)''),
        (''srs_license'', amf0_str ''The MIT License (MIT)''),
        (''srs_role'', amf0_str ''cluster''),
        (''srs_url'', amf0_str ''https://github.com/ossrs/srs''),
        (''srs_version'', amf0_str ''3.0.25''),
        (''srs_site'', amf0_str ''http://ossrs.net''),
        (''srs_email'', amf0_str ''winlin@vip.126.com''),
        (''srs_copyright'', amf0_str ''Copyright (c) 2013-2017 SRS(winlin,wenjie.zhao)''),
        (''srs_primary'', amf0_str ''SRS/2.0release''),
        (''srs_authors'', amf0_str ''winlin,wenjie.zhao'')] [];
        data = (case server_ip of None \<Rightarrow> data | Some ip \<Rightarrow> ht_set ''srs_server_ip'' (Some (amf0_str ip)) data)
      in ht_sets [(''srs_pid'', amf0_int pid), (''srs_id'', amf0_int cid)] data)"

definition server_response_connect_app :: "request \<Rightarrow> string option \<Rightarrow> int \<Rightarrow> int \<Rightarrow> (protocol, unit) prog" where
  "server_response_connect_app req server_ip pid cid =
     send_and_free_packet (ConnectAppRes (connect_app_res_new
       \<lparr>car_props := ht_sets [(''fmsVer'', amf0_str ''FMS/3,5,3,888''), (''capabilities'', amf0_int 127),
            (''mode'', amf0_int 1)] (car_props connect_app_res_new),
        car_info := ht_sets [(''level'', amf0_str ''status''), (''code'', amf0_str ''NetConnection.Connect.Success''),
            (''description'', amf0_str ''Connection succeeded''),
            (''objectEncoding'', Amf0Number (rq_objectEncoding req)),
            (''data'', Amf0EcmaArray 0 (server_identity server_ip pid cid))] (car_info connect_app_res_new)\<rparr>)) 0"

text \<open>A status with its properties, under the command \<open>onStatus\<close> or another one.\<close>

definition status_packet :: "string \<Rightarrow> (string \<times> amf0) list \<Rightarrow> packet" where
  "status_packet command kvs = OnStatusCall (on_status_call_new\<lparr>osc_command_name := command,
     osc_data := ht_sets kvs (osc_data on_status_call_new)\<rparr>)"

text \<open>
  After the redirection the client has to answer; an error on the way to the answer is no error,
  but a violated assertion stays one. The timeout of the socket is not part of the session.
\<close>

definition server_redirect :: "request \<Rightarrow> string \<Rightarrow> int \<Rightarrow> bool \<Rightarrow> (protocol, bool) prog" where
  "server_redirect r host port accepted =
     bindP (send_and_free_packet (status_packet RTMP_AMF0_COMMAND_ON_STATUS
       [(''level'', amf0_str ''error''), (''code'', amf0_str ''NetConnection.Connect.Rejected''),
        (''description'', amf0_str ''RTMP 302 Redirect''),
        (''ex'', Amf0Object (ht_sets [(''code'', amf0_int 302),
           (''redirect'', amf0_str (srs_generate_rtmp_url host port (tc_vhost (rq_url r)) (tc_app (rq_url r)) []))] []))]) 0)
     (\<lambda>_ s. case expect_message as_call s of
        (Inl e, s) \<Rightarrow> (if e \<in> {ASSERT_FAILED, UNDEFINED_BEHAVIOUR, OUT_OF_FUEL} then Inl e else Inr accepted, s)
      | (Inr (msg, pkt), s) \<Rightarrow> (case cp_arguments pkt of
          Some v \<Rightarrow> (if is_string v then bindR (to_str v) (\<lambda>_. Inr True) else Inr accepted, s)
        | None \<Rightarrow> (Inr accepted, s)))"

text \<open>The rejection reports no error to its caller.\<close>

definition server_response_connect_reject :: "string \<Rightarrow> (protocol, unit) prog" where
  "server_response_connect_reject desc s =
     (case send_and_free_packet (status_packet RTMP_AMF0_COMMAND_ON_STATUS
        [(''level'', amf0_str ''error''), (''code'', amf0_str ''NetConnection.Connect.Rejected''),
         (''description'', amf0_str desc)]) 0 s of
        (Inl e, s) \<Rightarrow> (if e \<in> {ASSERT_FAILED, UNDEFINED_BEHAVIOUR, OUT_OF_FUEL} then Inl e else Inr (), s)
      | (Inr _, s) \<Rightarrow> (Inr (), s))"

definition server_on_bw_done :: "(protocol, unit) prog" where
  "server_on_bw_done = send_and_free_packet (OnBWDone on_bw_done_new) 0"

section \<open>Who the client is\<close>

datatype conn_type = SrsRtmpConnUnknown | SrsRtmpConnPlay | SrsRtmpConnFMLEPublish | SrsRtmpConnFlashPublish
  | SrsRtmpConnHaivisionPublish

definition srs_client_type_string :: "conn_type \<Rightarrow> string" where
  "srs_client_type_string type = (case type of
     SrsRtmpConnPlay \<Rightarrow> ''Play''
   | SrsRtmpConnFlashPublish \<Rightarrow> ''flash-publish''
   | SrsRtmpConnFMLEPublish \<Rightarrow> ''fmle-publish''
   | SrsRtmpConnHaivisionPublish \<Rightarrow> ''haivision-publish''
   | _ \<Rightarrow> ''Unknown'')"

definition srs_client_type_is_publish :: "conn_type \<Rightarrow> bool" where
  "srs_client_type_is_publish type \<longleftrightarrow> type \<noteq> SrsRtmpConnPlay"

text \<open>The references that the methods fill, also before an error.\<close>

record identity =
  id_type :: conn_type
  id_stream_name :: string
  id_duration :: double

type_synonym identify_prog = "(protocol \<times> identity, unit) prog"

definition set_identity :: "(identity \<Rightarrow> identity) \<Rightarrow> identify_prog" where
  "set_identity f = modifyP (\<lambda>(s, i). (s, f i))"

definition identify_fmle_publish_client :: "fmle_start \<Rightarrow> identify_prog" where
  "identify_fmle_publish_client req =
     bindP (set_identity (\<lambda>i. i\<lparr>id_type := SrsRtmpConnFMLEPublish, id_stream_name := fml_stream_name req\<rparr>))
     (\<lambda>_. on_session (send_and_free_packet (FMLEStartRes (fmle_start_res_new (fml_transaction_id req))) 0))"

definition identify_haivision_publish_client :: "fmle_start \<Rightarrow> identify_prog" where
  "identify_haivision_publish_client req =
     bindP (set_identity (\<lambda>i. i\<lparr>id_type := SrsRtmpConnHaivisionPublish, id_stream_name := fml_stream_name req\<rparr>))
     (\<lambda>_. on_session (send_and_free_packet (FMLEStartRes (fmle_start_res_new (fml_transaction_id req))) 0))"

definition identify_flash_publish_client :: "publish \<Rightarrow> identify_prog" where
  "identify_flash_publish_client req =
     set_identity (\<lambda>i. i\<lparr>id_type := SrsRtmpConnFlashPublish, id_stream_name := pub_stream_name req\<rparr>)"

definition identify_play_client :: "play \<Rightarrow> identify_prog" where
  "identify_play_client req =
     set_identity (\<lambda>i. i\<lparr>id_type := SrsRtmpConnPlay, id_stream_name := play_stream_name req,
       id_duration := play_duration req\<rparr>)"

definition respond_create_stream :: "create_stream \<Rightarrow> int \<Rightarrow> (protocol, unit) prog" where
  "respond_create_stream req stream_id =
     send_and_free_packet (CreateStreamRes (create_stream_res_new (crs_transaction_id req) (dbl_of_int stream_id))) 0"

text \<open>The messages that both loops pass over without decoding them.\<close>

definition identify_ignores :: "msg_header \<Rightarrow> bool" where
  "identify_ignores h \<longleftrightarrow> mh_is_ackledgement h \<or> mh_is_set_chunk_size h \<or> mh_is_window_ackledgement_size h
     \<or> mh_is_user_control_message h \<or> (\<not> mh_is_amf0_command h \<and> \<not> mh_is_amf3_command h)"

text \<open>A decoded command, \<open>None\<close> for a message that is passed over.\<close>

definition recv_command :: "(protocol, packet option) prog" where
  "recv_command = bindP recv_message
     (\<lambda>msg. if identify_ignores (cm_header msg) then returnP None
        else bindP (getP pr_requests) (\<lambda>requests. liftR (decode_message requests msg)))"

text \<open>
  Behind \<^verbatim>\<open>createStream\<close>. Another \<^verbatim>\<open>createStream\<close> is answered by a call of the method itself, whose result is the
  result; here it is one more round, so that the stack that the calls of the code take is not part of the model.
  Every round receives a message and so takes bytes of the input.
\<close>

fun identify_create_stream_loop :: "nat \<Rightarrow> int \<Rightarrow> identify_prog" where
  "identify_create_stream_loop 0 stream_id = raiseP OUT_OF_FUEL"
| "identify_create_stream_loop (Suc n) stream_id = bindP (on_session recv_command)
     (\<lambda>pkt. case pkt of
        Some (Play req) \<Rightarrow> identify_play_client req
      | Some (Publish req) \<Rightarrow> identify_flash_publish_client req
      | Some (CreateStream req) \<Rightarrow> bindP (on_session (respond_create_stream req stream_id))
          (\<lambda>_. identify_create_stream_loop n stream_id)
      | Some (FMLEStart req) \<Rightarrow> identify_haivision_publish_client req
      | _ \<Rightarrow> identify_create_stream_loop n stream_id)"

definition identify_create_stream_client :: "nat \<Rightarrow> create_stream \<Rightarrow> int \<Rightarrow> identify_prog" where
  "identify_create_stream_client n req stream_id =
     bindP (on_session (respond_create_stream req stream_id)) (\<lambda>_. identify_create_stream_loop n stream_id)"

text \<open>A call that is not understood is answered with two null values.\<close>

definition respond_call :: "call_packet \<Rightarrow> (protocol, unit) prog" where
  "respond_call call = send_and_free_packet (CallRes ((call_res_new (cp_transaction_id call))
     \<lparr>cpr_command_object := Some Amf0Null, cpr_response := Some Amf0Null\<rparr>)) 0"

fun identify_loop :: "nat \<Rightarrow> int \<Rightarrow> identify_prog" where
  "identify_loop 0 stream_id = raiseP OUT_OF_FUEL"
| "identify_loop (Suc n) stream_id = bindP (on_session recv_command)
     (\<lambda>pkt. case pkt of
        Some (CreateStream req) \<Rightarrow> identify_create_stream_client n req stream_id
      | Some (FMLEStart req) \<Rightarrow> identify_fmle_publish_client req
      | Some (Play req) \<Rightarrow> identify_play_client req
      | Some (Call call) \<Rightarrow> bindP (on_session (respond_call call)) (\<lambda>_. identify_loop n stream_id)
      | _ \<Rightarrow> identify_loop n stream_id)"

definition identify_client :: "int \<Rightarrow> identify_prog" where
  "identify_client stream_id = bindP (set_identity (\<lambda>i. i\<lparr>id_type := SrsRtmpConnUnknown\<rparr>))
     (\<lambda>_. bindP (getP (\<lambda>(s, i). todo (cr_in s))) (\<lambda>n. identify_loop (Suc n) stream_id))"

section \<open>Playing\<close>

definition stream_event :: "16 word \<Rightarrow> 32 word \<Rightarrow> packet" where
  "stream_event event stream_id =
     UserControl (user_control_new\<lparr>uc_event_type := event, uc_event_data := stream_id\<rparr>)"

definition server_start_play :: "32 word \<Rightarrow> (protocol, unit) prog" where
  "server_start_play stream_id =
     bindP (send_and_free_packet (stream_event SrcPCUCStreamBegin stream_id) 0)
     (\<lambda>_. bindP (send_and_free_packet (status_packet RTMP_AMF0_COMMAND_ON_STATUS
          [(''level'', amf0_str ''status''), (''code'', amf0_str ''NetStream.Play.Reset''),
           (''description'', amf0_str ''Playing and resetting stream.''), (''details'', amf0_str ''stream''),
           (''clientid'', amf0_str ''ASAICiss'')]) stream_id)
     (\<lambda>_. bindP (send_and_free_packet (status_packet RTMP_AMF0_COMMAND_ON_STATUS
          [(''level'', amf0_str ''status''), (''code'', amf0_str ''NetStream.Play.Start''),
           (''description'', amf0_str ''Started playing stream.''), (''details'', amf0_str ''stream''),
           (''clientid'', amf0_str ''ASAICiss'')]) stream_id)
     (\<lambda>_. bindP (send_and_free_packet (SampleAccess (sample_access_new
          \<lparr>sa_audio_sample_access := True, sa_video_sample_access := True\<rparr>)) stream_id)
     (\<lambda>_. send_and_free_packet (OnStatusData (on_status_data_new
          \<lparr>osd_data := ht_sets [(''code'', amf0_str ''NetStream.Data.Start'')] (osd_data on_status_data_new)\<rparr>)) stream_id))))"

definition server_on_play_client_pause :: "32 word \<Rightarrow> bool \<Rightarrow> (protocol, unit) prog" where
  "server_on_play_client_pause stream_id is_pause =
     (if is_pause
      then bindP (send_and_free_packet (status_packet RTMP_AMF0_COMMAND_ON_STATUS
             [(''level'', amf0_str ''status''), (''code'', amf0_str ''NetStream.Pause.Notify''),
              (''description'', amf0_str ''Paused stream.'')]) stream_id)
           (\<lambda>_. send_and_free_packet (stream_event SrcPCUCStreamEOF stream_id) 0)
      else bindP (send_and_free_packet (status_packet RTMP_AMF0_COMMAND_ON_STATUS
             [(''level'', amf0_str ''status''), (''code'', amf0_str ''NetStream.Unpause.Notify''),
              (''description'', amf0_str ''Unpaused stream.'')]) stream_id)
           (\<lambda>_. send_and_free_packet (stream_event SrcPCUCStreamBegin stream_id) 0))"

section \<open>Publishing\<close>

definition publish_started :: "packet list" where
  "publish_started =
     [status_packet RTMP_AMF0_COMMAND_ON_FC_PUBLISH
        [(''code'', amf0_str ''NetStream.Publish.Start''), (''description'', amf0_str ''Started publishing stream.'')],
      status_packet RTMP_AMF0_COMMAND_ON_STATUS
        [(''level'', amf0_str ''status''), (''code'', amf0_str ''NetStream.Publish.Start''),
         (''description'', amf0_str ''Started publishing stream.''), (''clientid'', amf0_str ''ASAICiss'')]]"

definition server_start_haivision_publish :: "32 word \<Rightarrow> (protocol, unit) prog" where
  "server_start_haivision_publish stream_id =
     bindP (expect_message as_publish)
     (\<lambda>_. bindP (send_and_free_packet (publish_started ! 0) stream_id)
     (\<lambda>_. send_and_free_packet (publish_started ! 1) stream_id))"

text \<open>\<^verbatim>\<open>FCPublish\<close>, \<^verbatim>\<open>createStream\<close> and \<^verbatim>\<open>publish\<close>, each with its answer.\<close>

definition server_start_fmle_publish :: "int \<Rightarrow> (protocol, unit) prog" where
  "server_start_fmle_publish stream_id =
     bindP (expect_message as_fmle_start)
     (\<lambda>(_, fc_publish). bindP (send_and_free_packet (FMLEStartRes (fmle_start_res_new (fml_transaction_id fc_publish))) 0)
     (\<lambda>_. bindP (expect_message as_create_stream)
     (\<lambda>(_, create_stream). bindP (respond_create_stream create_stream stream_id)
     (\<lambda>_. bindP (expect_message as_publish)
     (\<lambda>_. bindP (send_and_free_packet (publish_started ! 0) (word_of_int stream_id))
     (\<lambda>_. send_and_free_packet (publish_started ! 1) (word_of_int stream_id)))))))"

definition server_fmle_unpublish :: "32 word \<Rightarrow> double \<Rightarrow> (protocol, unit) prog" where
  "server_fmle_unpublish stream_id unpublish_tid =
     bindP (send_and_free_packet (status_packet RTMP_AMF0_COMMAND_ON_FC_UNPUBLISH
        [(''code'', amf0_str ''NetStream.Unpublish.Success''), (''description'', amf0_str ''Stop publishing stream.'')]) stream_id)
     (\<lambda>_. bindP (send_and_free_packet (FMLEStartRes (fmle_start_res_new unpublish_tid)) stream_id)
     (\<lambda>_. send_and_free_packet (status_packet RTMP_AMF0_COMMAND_ON_STATUS
        [(''level'', amf0_str ''status''), (''code'', amf0_str ''NetStream.Unpublish.Success''),
         (''description'', amf0_str ''Stream is now unpublished''), (''clientid'', amf0_str ''ASAICiss'')]) stream_id))"

definition server_start_flash_publish :: "32 word \<Rightarrow> (protocol, unit) prog" where
  "server_start_flash_publish stream_id = send_and_free_packet (publish_started ! 1) stream_id"

end
