(* ===== verification/Srs_Rtmp_Client.thy ===== *)
theory Srs_Rtmp_Client
  imports Srs_Dialogue
begin

text \<open>
  \<^verbatim>\<open>SrsRtmpClient\<close> (\<^verbatim>\<open>src/src/protocol/srs_rtmp_stack.cpp\<close>): the commands on the side of a client,
  which the server is itself when it forwards a stream or pulls it from an origin.
\<close>

section \<open>Connecting\<close>

record server_info =
  si_ip :: string
  si_sig :: string
  si_pid :: int
  si_cid :: int
  si_major :: int
  si_minor :: int
  si_revision :: int
  si_build :: int

definition server_info_new :: server_info where
  "server_info_new = \<lparr>si_ip = [], si_sig = [], si_pid = 0, si_cid = 0, si_major = 0, si_minor = 0,
     si_revision = 0, si_build = 0\<rparr>"

text \<open>The version: up to four numbers, each read if the ones before it are there.\<close>

definition set_version :: "string list \<Rightarrow> server_info \<Rightarrow> server_info res" where
  "set_version versions si =
     (if length versions > 0 then bindR (c_atoi (versions ! 0))
      (\<lambda>n. let si = si\<lparr>si_major := n\<rparr> in if length versions > 1 then bindR (c_atoi (versions ! 1))
      (\<lambda>n. let si = si\<lparr>si_minor := n\<rparr> in if length versions > 2 then bindR (c_atoi (versions ! 2))
      (\<lambda>n. let si = si\<lparr>si_revision := n\<rparr> in if length versions > 3 then bindR (c_atoi (versions ! 3))
      (\<lambda>n. Inr (si\<lparr>si_build := n\<rparr>)) else Inr si) else Inr si) else Inr si) else Inr si)"

definition read_str :: "string \<Rightarrow> props \<Rightarrow> (string \<Rightarrow> server_info \<Rightarrow> server_info res) \<Rightarrow> server_info \<Rightarrow> server_info res" where
  "read_str name ps f si = (case ht_ensure_property_string name ps of
     None \<Rightarrow> Inr si | Some prop \<Rightarrow> bindR (to_str prop) (\<lambda>v. f v si))"

definition read_num :: "string \<Rightarrow> props \<Rightarrow> (int \<Rightarrow> server_info \<Rightarrow> server_info) \<Rightarrow> server_info \<Rightarrow> server_info res" where
  "read_num name ps f si = (case ht_ensure_property_number name ps of
     None \<Rightarrow> Inr si | Some prop \<Rightarrow> bindR (to_number prop) (\<lambda>d. bindR (dbl_to_int d) (\<lambda>v. Inr (f v si))))"

definition read_server_info :: "props \<Rightarrow> server_info \<Rightarrow> server_info res" where
  "read_server_info info si = (case ht_get_property ''data'' info of
     None \<Rightarrow> Inr si
   | Some data \<Rightarrow> if is_ecma_array data
       then bindR (to_ecma_array data)
         (\<lambda>(n, arr). bindR (read_str ''srs_server_ip'' arr (\<lambda>v si. Inr (si\<lparr>si_ip := v\<rparr>)) si)
         (\<lambda>si. bindR (read_str ''srs_server'' arr (\<lambda>v si. Inr (si\<lparr>si_sig := v\<rparr>)) si)
         (\<lambda>si. bindR (read_num ''srs_id'' arr (\<lambda>v si. si\<lparr>si_cid := v\<rparr>) si)
         (\<lambda>si. bindR (read_num ''srs_pid'' arr (\<lambda>v si. si\<lparr>si_pid := v\<rparr>) si)
         (\<lambda>si. read_str ''srs_version'' arr
            (\<lambda>v si. bindR (srs_string_split v ''.'') (\<lambda>versions. set_version versions si)) si)))))
       else Inr si)"

text \<open>\<open>r\<close> is the request that a client of this server made, \<open>dsu\<close> whether its arguments are passed on.\<close>

definition connect_packet :: "string \<Rightarrow> string \<Rightarrow> request option \<Rightarrow> bool \<Rightarrow> packet res" where
  "connect_packet app tcUrl r dsu =
     bindR (if dsu then copy_args (Option.bind r rq_args) else Inr None)
     (\<lambda>args. Inr (ConnectApp (connect_app_new\<lparr>
        ca_command_object := ht_sets [
          (''app'', amf0_str app),
          (''flashVer'', amf0_str ''WIN 15,0,0,239''),
          (''swfUrl'', case r of None \<Rightarrow> Amf0String [] | Some r \<Rightarrow> amf0_str (rq_swfUrl r)),
          (''tcUrl'', case r of None \<Rightarrow> amf0_str tcUrl
             | Some r \<Rightarrow> if rq_tcUrl r \<noteq> [] then amf0_str (rq_tcUrl r) else amf0_str tcUrl),
          (''fpad'', Amf0Boolean False),
          (''capabilities'', amf0_int 239),
          (''audioCodecs'', amf0_int 3575),
          (''videoCodecs'', amf0_int 252),
          (''videoFunction'', amf0_int 1),
          (''pageUrl'', case r of None \<Rightarrow> Amf0String [] | Some r \<Rightarrow> amf0_str (rq_pageUrl r)),
          (''objectEncoding'', amf0_int 0)] (ca_command_object connect_app_new),
        ca_args := args\<rparr>)))"

definition client_connect_app :: "string \<Rightarrow> string \<Rightarrow> request option \<Rightarrow> bool \<Rightarrow> server_info option \<Rightarrow>
    (protocol, server_info option) prog" where
  "client_connect_app app tcUrl r dsu si =
     bindP (liftR (connect_packet app tcUrl r dsu))
     (\<lambda>pkt. bindP (send_and_free_packet pkt 0)
     (\<lambda>_. bindP (send_and_free_packet (SetWindowAckSize \<lparr>sw_ackowledgement_window_size = 2500000\<rparr>) 0)
     (\<lambda>_. bindP (expect_message as_connect_app_res)
     (\<lambda>(msg, pkt). case si of
        None \<Rightarrow> returnP None
      | Some si \<Rightarrow> bindP (liftR (read_server_info (car_info pkt) si)) (\<lambda>si. returnP (Some si))))))"

section \<open>Streams\<close>

text \<open>The id of the new stream is the result.\<close>

definition expect_stream_id :: "(protocol, int) prog" where
  "expect_stream_id = bindP (expect_message as_create_stream_res)
     (\<lambda>(msg, pkt). liftR (dbl_to_int (csr_stream_id pkt)))"

definition client_create_stream :: "(protocol, int) prog" where
  "client_create_stream =
     bindP (send_and_free_packet (CreateStream create_stream_new) 0) (\<lambda>_. expect_stream_id)"

abbreviation SRS_CONSTS_RTMP_SRS_CHUNK_SIZE :: "32 word" where "SRS_CONSTS_RTMP_SRS_CHUNK_SIZE \<equiv> 60000"

definition client_play :: "string \<Rightarrow> 32 word \<Rightarrow> (protocol, unit) prog" where
  "client_play stream stream_id =
     bindP (send_and_free_packet (Play (play_new\<lparr>play_stream_name := stream\<rparr>)) stream_id)
     (\<lambda>_. bindP (send_and_free_packet (UserControl (user_control_new\<lparr>uc_event_type := SrcPCUCSetBufferLength,
          uc_event_data := stream_id, uc_extra_data := 1000\<rparr>)) 0)
     (\<lambda>_. send_and_free_packet (SetChunkSize \<lparr>scs_chunk_size = SRS_CONSTS_RTMP_SRS_CHUNK_SIZE\<rparr>) 0))"

definition client_publish :: "string \<Rightarrow> 32 word \<Rightarrow> (protocol, unit) prog" where
  "client_publish stream stream_id =
     bindP (send_and_free_packet (SetChunkSize \<lparr>scs_chunk_size = SRS_CONSTS_RTMP_SRS_CHUNK_SIZE\<rparr>) 0)
     (\<lambda>_. send_and_free_packet (Publish (publish_new\<lparr>pub_stream_name := stream\<rparr>)) stream_id)"

text \<open>\<^verbatim>\<open>releaseStream\<close>, \<^verbatim>\<open>FCPublish\<close> and \<^verbatim>\<open>createStream\<close> with the ids 2, 3 and 4, then \<^verbatim>\<open>publish\<close>.\<close>

definition client_fmle_publish :: "string \<Rightarrow> (protocol, int) prog" where
  "client_fmle_publish stream =
     bindP (send_and_free_packet (FMLEStart (create_release_stream stream)) 0)
     (\<lambda>_. bindP (send_and_free_packet (FMLEStart (create_FC_publish stream)) 0)
     (\<lambda>_. bindP (send_and_free_packet (CreateStream (create_stream_new\<lparr>crs_transaction_id := dbl_of_int 4\<rparr>)) 0)
     (\<lambda>_. bindP expect_stream_id
     (\<lambda>stream_id. bindP (send_and_free_packet (Publish (publish_new\<lparr>pub_stream_name := stream\<rparr>)) (word_of_int stream_id))
     (\<lambda>_. returnP stream_id)))))"

end
