(* ===== verification/Srs_Url_Laws.thy ===== *)
theory Srs_Url_Laws
  imports Srs_Url "HOL-Library.Sublist"
begin

text \<open>
  Which replacements end, what trimming and removing leave, and that the addresses which the
  server gives out are understood by the code that takes them apart.
\<close>

section \<open>Finding\<close>

lemma take_eq_prefix: "take (length pat) s = pat \<longleftrightarrow> prefix pat s"
  by (metis append_eq_conv_conj prefix_def take_is_prefix)

lemma find_at_Some:
  "find_at i pat s = Some p \<Longrightarrow> i \<le> p \<and> prefix pat (drop (p - i) s) \<and> (\<forall>j. i \<le> j \<and> j < p \<longrightarrow> \<not> prefix pat (drop (j - i) s))"
proof (induction i pat s rule: find_at.induct)
  case (1 i pat)
  then show ?case by (auto split: if_splits)
next
  case (2 i pat c cs)
  show ?case
  proof (cases "prefix pat (c # cs)")
    case True
    with 2(2) show ?thesis by (simp add: take_eq_prefix del: take_Suc_Cons)
  next
    case False
    with 2 have h: "Suc i \<le> p" "prefix pat (drop (p - Suc i) cs)"
      "\<And>j. Suc i \<le> j \<Longrightarrow> j < p \<Longrightarrow> \<not> prefix pat (drop (j - Suc i) cs)"
      by (auto simp: take_eq_prefix simp del: take_Suc_Cons)
    have d: "drop (j - i) (c # cs) = drop (j - Suc i) cs" if "Suc i \<le> j" for j
      using that by (simp add: Suc_diff_le [symmetric] drop_Cons' Suc_diff_Suc)
    have "\<not> prefix pat (drop (j - i) (c # cs))" if "i \<le> j" "j < p" for j
      using that h(3) [of j] d [of j] False by (cases "j = i") auto
    with h d [of p] show ?thesis by auto
  qed
qed

lemma find_at_None: "find_at i pat s = None \<longleftrightarrow> \<not> sublist pat s"
  by (induction i pat s rule: find_at.induct)
    (auto simp: take_eq_prefix sublist_Cons_right simp del: take_Suc_Cons split: if_splits)

lemma str_find_None: "pos \<le> length s \<Longrightarrow> str_find pat pos s = None \<longleftrightarrow> \<not> sublist pat (drop pos s)"
  by (simp add: str_find_def find_at_None)

lemma str_find_Some:
  assumes "str_find pat pos s = Some p"
  shows "pos \<le> p" and "prefix pat (drop p s)" and "\<And>j. pos \<le> j \<Longrightarrow> j < p \<Longrightarrow> \<not> prefix pat (drop j s)"
    and "p + length pat \<le> length s"
proof -
  from assms have f: "find_at pos pat (drop pos s) = Some p" and l: "pos \<le> length s"
    by (auto simp: str_find_def split: if_splits)
  note h = find_at_Some [OF f]
  show "pos \<le> p" using h by simp
  show "prefix pat (drop p s)" using h by auto
  show "\<not> prefix pat (drop j s)" if "pos \<le> j" "j < p" for j
    using h that by auto
  show "p + length pat \<le> length s" using find_at_bound [OF f] l by simp
qed

lemma find_at_eq:
  "prefix pat (drop p s) \<Longrightarrow> (\<And>j. j < p \<Longrightarrow> \<not> prefix pat (drop j s)) \<Longrightarrow> p \<le> length s \<Longrightarrow> find_at i pat s = Some (i + p)"
proof (induction i pat s arbitrary: p rule: find_at.induct)
  case (1 i pat)
  then show ?case by simp
next
  case (2 i pat c cs)
  show ?case
  proof (cases p)
    case 0
    with 2(2) show ?thesis by (simp add: take_eq_prefix del: take_Suc_Cons)
  next
    case (Suc q)
    from 2(3) [of 0] Suc have n: "\<not> prefix pat (c # cs)" by simp
    have "\<not> prefix pat (drop j cs)" if "j < q" for j using 2(3) [of "Suc j"] that Suc by simp
    then have "find_at (Suc i) pat cs = Some (Suc i + q)"
      using 2(1) [of q] 2(2,4) n Suc by (simp add: take_eq_prefix del: take_Suc_Cons)
    with n Suc show ?thesis by (simp add: take_eq_prefix del: take_Suc_Cons)
  qed
qed

text \<open>The first occurrence: nothing in \<open>xs\<close> and the start of the pattern is one.\<close>

lemma str_find_first:
  assumes "\<not> sublist pat (xs @ butlast pat)" and "pat \<noteq> []"
  shows "str_find pat 0 (xs @ pat @ ys) = Some (length xs)"
proof -
  have "\<not> prefix pat (drop j (xs @ pat @ ys))" if j: "j < length xs" for j
  proof
    assume "prefix pat (drop j (xs @ pat @ ys))"
    then have "pat = take (length pat) (drop j (xs @ pat @ ys))" by (metis take_eq_prefix)
    also have "\<dots> = take (length pat) (drop j (xs @ butlast pat @ last pat # ys))"
      using assms(2) by (metis append.assoc append_Cons append_Nil append_butlast_last_id)
    also have "\<dots> = take (length pat) (drop j (xs @ butlast pat))"
      using j assms(2) by simp
    finally have "sublist pat (xs @ butlast pat)"
      by (metis sublist_drop sublist_order.order.trans sublist_take)
    with assms(1) show False ..
  qed
  then have "find_at 0 pat (xs @ pat @ ys) = Some (0 + length xs)"
    by (intro find_at_eq) simp_all
  then show ?thesis by (simp add: str_find_def)
qed

lemma sublist_set: "sublist xs ys \<Longrightarrow> set xs \<subseteq> set ys"
  by (auto simp: sublist_def)

lemma str_find_char: "c \<notin> set xs \<Longrightarrow> str_find [c] 0 (xs @ c # ys) = Some (length xs)"
  using str_find_first [of "[c]" xs ys] sublist_set [of "[c]" xs] by auto

lemma str_find_no_char: "c \<notin> set s \<Longrightarrow> c \<in> set pat \<Longrightarrow> str_find pat 0 s = None"
  using sublist_set [of pat s] by (auto simp: str_find_None)

section \<open>Replacing\<close>

text \<open>A match that starts in the new text and is not inside of it uses a character of the rest.\<close>

lemma replace_from_ends:
  assumes "\<not> sublist old new" and "length rest < n"
  shows "\<exists>r. replace_from n old new (length xs) (xs @ rest) = Inr r"
    and "\<exists>r. replace_from n old new (length xs) (xs @ new @ rest) = Inr r"
proof -
  have "(\<forall>xs. \<exists>r. replace_from n old new (length xs) (xs @ rest) = Inr r)
      \<and> (\<forall>xs. \<exists>r. replace_from n old new (length xs) (xs @ new @ rest) = Inr r)"
    using assms(2)
  proof (induction n arbitrary: rest)
    case 0
    then show ?case by simp
  next
    case (Suc n)
    have ne: "old \<noteq> []" using assms(1) by auto
    have step: "\<exists>r. replace_from (Suc n) old new (length xs) (xs @ ys) = Inr r"
      if cut: "\<And>p. str_find old (length xs) (xs @ ys) = Some p \<Longrightarrow>
          length (drop (p + length old) (xs @ ys)) < n" for xs ys
    proof (cases "str_find old (length xs) (xs @ ys)")
      case None
      then show ?thesis by simp
    next
      case (Some p)
      note f = str_find_Some [OF Some]
      let ?x = "take p (xs @ ys)" and ?r = "drop (p + length old) (xs @ ys)"
      have "length ?x = p" using f(4) by simp
      moreover obtain r where "replace_from n old new (length ?x) (?x @ new @ ?r) = Inr r"
        using Suc.IH [OF cut [OF Some]] by blast
      ultimately have "replace_from n old new p (?x @ new @ ?r) = Inr r" by (simp only:)
      with Some show ?thesis by (simp del: drop_append take_append)
    qed
    have 1: "\<exists>r. replace_from (Suc n) old new (length xs) (xs @ rest) = Inr r" for xs
    proof (rule step)
      fix p assume p: "str_find old (length xs) (xs @ rest) = Some p"
      show "length (drop (p + length old) (xs @ rest)) < n"
        using str_find_Some(1,4) [OF p] ne Suc.prems by (cases old) auto
    qed
    have 2: "\<exists>r. replace_from (Suc n) old new (length xs) (xs @ new @ rest) = Inr r" for xs
    proof (rule step)
      fix p assume p: "str_find old (length xs) (xs @ new @ rest) = Some p"
      note f = str_find_Some [OF p]
      have "length new < (p - length xs) + length old"
      proof (rule ccontr)
        assume "\<not> ?thesis"
        then have l: "(p - length xs) + length old \<le> length new" by simp
        have "take (length old) (drop p (xs @ new @ rest)) = old" using f(2) by (simp only: take_eq_prefix)
        with l f(1) have "take (length old) (drop (p - length xs) new) = old" by simp
        then have "sublist old new" by (metis sublist_drop sublist_order.order.trans sublist_take)
        with assms(1) show False ..
      qed
      with f(1,4) Suc.prems show "length (drop (p + length old) (xs @ new @ rest)) < n" by simp
    qed
    from 1 2 show ?case by blast
  qed
  then show "\<exists>r. replace_from n old new (length xs) (xs @ rest) = Inr r"
    and "\<exists>r. replace_from n old new (length xs) (xs @ new @ rest) = Inr r" by blast+
qed

lemma replace_from_loops:
  "sublist old new \<Longrightarrow> pos \<le> length s \<Longrightarrow> sublist old (drop pos s) \<Longrightarrow> replace_from n old new pos s = Inl OUT_OF_FUEL"
proof (induction n arbitrary: pos s)
  case 0
  then show ?case by simp
next
  case (Suc n)
  from Suc.prems(2,3) obtain p where p: "str_find old pos s = Some p"
    by (cases "str_find old pos s") (auto simp: str_find_None)
  note f = str_find_Some [OF p]
  let ?s = "take p s @ new @ drop (p + length old) s"
  have "drop p ?s = new @ drop (p + length old) s" using f(4) by simp
  then have "sublist old (drop p ?s)" using Suc.prems(1) by (metis sublist_append_leftI sublist_append_rightI sublist_order.order.trans)
  moreover have "p \<le> length ?s" using f(4) by simp
  ultimately show ?case using Suc.IH [OF Suc.prems(1), of p ?s] p by simp
qed

lemma replace_ends: "\<not> sublist old new \<Longrightarrow> \<exists>r. srs_string_replace str old new = Inr r"
  using replace_from_ends(1) [of old new str "Suc (length str)" "[]"] by (simp add: srs_string_replace_def)

text \<open>C35: Exactly which replacements end. \<^verbatim>\<open>srs_string_replace\<close> ends if the two strings are
  equal, if the old one does not occur, or if the new one does not contain the old one, with at most
  one round for every character and one more; otherwise the loop finds what it has just put in, for
  ever.
\<close>

theorem string_replace_ends:
  "if old = new \<or> \<not> sublist old str \<or> \<not> sublist old new
   then \<exists>r. srs_string_replace str old new = Inr r
   else \<forall>n. replace_from n old new 0 str = Inl OUT_OF_FUEL"
proof (cases "old = new \<or> \<not> sublist old str \<or> \<not> sublist old new")
  case True
  then consider "old = new" | "\<not> sublist old str" | "\<not> sublist old new" by blast
  then have "\<exists>r. srs_string_replace str old new = Inr r"
  proof cases
    case 1
    then show ?thesis by (simp add: srs_string_replace_def)
  next
    case 2
    then have "str_find old 0 str = None" by (simp add: str_find_None)
    then show ?thesis by (simp add: srs_string_replace_def)
  next
    case 3
    then show ?thesis by (rule replace_ends)
  qed
  with True show ?thesis by simp
next
  case False
  then show ?thesis using replace_from_loops [of old new 0 str] by simp
qed

theorem string_replace_ends_witness:
  "(\<exists>r. srs_string_replace ''a,b'' '','' ''?'' = Inr r) \<and> replace_from 7 ''a'' ''aa'' 0 ''bab'' = Inl OUT_OF_FUEL"
  using string_replace_ends [of "'',''" "''?''" "''a,b''"] string_replace_ends [of "''a''" "''aa''" "''bab''"]
  by (simp add: sublist_code)

section \<open>Trimming and removing\<close>

lemma remove_from_eq:
  "\<forall>j < i. j < length cs \<longrightarrow> cs ! j \<notin> set ret \<Longrightarrow> remove_from i cs ret = filter (\<lambda>c. c \<notin> set cs) ret"
proof (induction i cs ret rule: remove_from.induct)
  case (1 i cs ret)
  show ?case
  proof (cases "i \<ge> length cs")
    case True
    with 1(3) have "filter (\<lambda>c. c \<notin> set cs) ret = ret"
      by (auto simp: filter_id_conv in_set_conv_nth)
    with True show ?thesis by (subst remove_from.simps) simp
  next
    case False
    let ?r = "filter (\<lambda>c. cs ! i \<noteq> c) ret"
    show ?thesis
    proof (cases "?r = ret")
      case True
      then have "cs ! i \<notin> set ret" by (auto simp: filter_id_conv)
      with 1(3) have "\<forall>j < Suc i. j < length cs \<longrightarrow> cs ! j \<notin> set ret" by (auto simp: less_Suc_eq)
      from 1(1) [OF False refl True this] True False show ?thesis by (subst remove_from.simps) simp
    next
      case ne: False
      have "\<forall>j < 1. j < length cs \<longrightarrow> cs ! j \<notin> set ?r" using 1(3) by (cases "i = 0") auto
      from 1(2) [OF False refl ne this] ne False
      have "remove_from i cs ret = filter (\<lambda>c. c \<notin> set cs) ?r" by (subst remove_from.simps) simp
      also have "\<dots> = filter (\<lambda>c. c \<notin> set cs) ret"
        using False by (auto intro!: filter_cong simp: filter_filter)
      finally show ?thesis .
    qed
  qed
qed

lemma string_remove_filter: "srs_string_remove str cs = filter (\<lambda>c. c \<notin> set cs) str"
  unfolding srs_string_remove_def by (rule remove_from_eq) simp

lemma trim_char: "srs_string_trim_end str [c] = rev (dropWhile (\<lambda>x. x = c) (rev str))"
  "srs_string_trim_start str [c] = dropWhile (\<lambda>x. x = c) str"
  by (simp_all add: srs_string_trim_end_def srs_string_trim_start_def trim_end_from.simps trim_start_from.simps
      strip_last_def strip_first_def Let_def)

lemma trim_not_complete: "srs_string_trim_end ''a/ '' ''/ '' = ''a/''" "srs_string_trim_start '' /a'' ''/ '' = ''/a''"
  by (simp_all add: srs_string_trim_end_def srs_string_trim_start_def trim_end_from.simps trim_start_from.simps
      strip_last_def strip_first_def Let_def)

section \<open>Numbers\<close>

lemma of_char_digit [simp]: "n < 10 \<Longrightarrow> of_char (char_of (48 + n) :: char) = (48 + n :: nat)"
  by simp

lemma nat_to_str_digits: "c \<in> set (nat_to_str n) \<Longrightarrow> is_digit c"
  by (induction n rule: nat_to_str.induct) (subst (asm) (2) nat_to_str.simps, auto simp: is_digit_def split: if_splits)

lemma nat_to_str_ne [simp]: "nat_to_str n \<noteq> []"
  by (subst nat_to_str.simps) simp

lemma digits_value_append: "digits_value (xs @ [c]) = digits_value xs * 10 + (of_char c - 48)"
  by (simp add: digits_value_def)

lemma digits_value_nat: "digits_value (nat_to_str n) = n"
proof (induction n rule: nat_to_str.induct)
  case (1 n)
  show ?case
  proof (cases "n < 10")
    case True
    then show ?thesis by (subst nat_to_str.simps) (simp add: digits_value_def)
  next
    case False
    with 1 show ?thesis by (subst nat_to_str.simps) (simp add: digits_value_append)
  qed
qed

lemma takeWhile_digits: "takeWhile is_digit (nat_to_str n) = nat_to_str n"
  by (simp add: nat_to_str_digits)

lemma digit_bounds: "is_digit c \<Longrightarrow> 48 \<le> (of_char c :: nat) \<and> (of_char c :: nat) \<le> 57"
  by (simp add: is_digit_def)

lemma atoi_int2str:
  assumes "- (2 ^ 31) \<le> n" and "n < 2 ^ 31"
  shows "c_atoi (srs_int2str n) = Inr n"
proof -
  obtain d ds where k: "nat_to_str (nat \<bar>n\<bar>) = d # ds" by (cases "nat_to_str (nat \<bar>n\<bar>)") auto
  have d: "is_digit d" using nat_to_str_digits [of d "nat \<bar>n\<bar>"] k by simp
  have ne: "d \<noteq> CHR '' ''" "d \<noteq> CHR ''-''" "d \<noteq> CHR ''+''" "\<not> (of_char d :: nat) \<le> 13"
    using digit_bounds [OF d] by auto
  have v: "takeWhile is_digit (d # ds) = d # ds" "digits_value (d # ds) = nat \<bar>n\<bar>"
    using takeWhile_digits [of "nat \<bar>n\<bar>"] digits_value_nat [of "nat \<bar>n\<bar>"] k by simp_all
  show ?thesis
  proof (cases "n < 0")
    case True
    then have "srs_int2str n = CHR ''-'' # d # ds" using k by (simp add: srs_int2str_def)
    with assms True v show ?thesis by (simp add: c_atoi_def Let_def)
  next
    case False
    then have "srs_int2str n = d # ds" using k by (simp add: srs_int2str_def)
    with assms False v ne show ?thesis by (simp add: c_atoi_def Let_def)
  qed
qed

lemma int2str_chars: "c \<in> set (srs_int2str n) \<Longrightarrow> is_digit c \<or> c = CHR ''-''"
  using nat_to_str_digits by (auto simp: srs_int2str_def split: if_splits)

section \<open>Addresses\<close>

lemma replace_absent: "\<not> sublist old_str str \<Longrightarrow> srs_string_replace str old_str new_str = Inr str"
  using str_find_None [of 0 str old_str] by (simp add: srs_string_replace_def)

lemma no_question: "CHR ''?'' \<notin> set s \<Longrightarrow> str_find ''?'' 0 s = None"
  by (rule str_find_no_char) simp_all

lemma str_find_shift: "str_find pat (length xs) (xs @ ys) = map_option ((+) (length xs)) (str_find pat 0 ys)"
proof -
  have "find_at (i + k) pat s = map_option ((+) i) (find_at k pat s)" for i k s
    by (induction k pat s rule: find_at.induct) simp_all
  from this [of "length xs" 0 ys] show ?thesis by (simp add: str_find_def)
qed

text \<open>No character with a meaning in the query of an app.\<close>

definition plain :: "string \<Rightarrow> bool" where
  "plain s \<longleftrightarrow> CHR '','' \<notin> set s \<and> CHR ''?'' \<notin> set s \<and> CHR ''='' \<notin> set s \<and> CHR ''&'' \<notin> set s"

lemma vhost_resolve_plain:
  assumes "plain app" and "\<not> sublist ''...'' app"
  shows "srs_vhost_resolve vhost app param = Inr (vhost, app, param)"
proof -
  have n: "\<not> sublist '','' app" "\<not> sublist ''&&'' app" "\<not> sublist ''='' app" "str_find ''?'' 0 app = None"
    using assms(1) sublist_set [of "'',''" app] sublist_set [of "''&&''" app] sublist_set [of "''=''" app]
    by (auto simp: plain_def no_question)
  show ?thesis
    by (simp add: srs_vhost_resolve_def replace_absent n assms(2))
qed

lemma replace_dots:
  assumes "\<not> sublist ''...'' (app @ ''..'')" and "\<not> sublist ''...'' v"
  shows "srs_string_replace (app @ ''...vhost...'' @ v) ''...'' ''?'' = Inr (app @ ''?vhost?'' @ v)"
proof -
  have 1: "str_find ''...'' 0 (app @ ''...'' @ ''vhost...'' @ v) = Some (length app)"
    by (rule str_find_first) (use assms(1) in simp_all)
  have "str_find ''...'' 0 (''?vhost'' @ ''...'' @ v) = Some (length ''?vhost'')"
    by (rule str_find_first) (simp_all add: sublist_code)
  then have 2: "str_find ''...'' (length app) (app @ ''?vhost...'' @ v) = Some (length app + 6)"
    unfolding str_find_shift by simp
  have l6: "length (app @ ''?vhost'') = length app + 6" by simp
  have "\<not> sublist ''...'' (''?'' @ v)"
    using assms(2) by (simp add: sublist_Cons_right)
  then have "str_find ''...'' 0 (''?'' @ v) = None" by (simp add: str_find_None)
  then have 3: "str_find ''...'' (length app + 6) (app @ ''?vhost?'' @ v) = None"
    using str_find_shift [of "''...''" "app @ ''?vhost''" "''?'' @ v"] unfolding l6 by simp
  obtain k where k: "length (app @ ''...vhost...'' @ v) = Suc (Suc k)" by simp
  have c: "app @ ''...vhost...'' @ v = app @ ''...'' @ ''vhost...'' @ v" by simp
  show ?thesis
    unfolding srs_string_replace_def k
    using 1 2 3 by (simp add: Let_def)
qed

lemma vhost_resolve_dots:
  assumes "plain app" and "\<not> sublist ''...'' (app @ ''..'')" and "plain v" and "\<not> sublist ''...'' v" and "v \<noteq> []"
  shows "srs_vhost_resolve vhost (app @ ''...vhost...'' @ v) param = Inr (v, app, param)"
proof -
  let ?a = "app @ ''...vhost...'' @ v" and ?b = "app @ ''?vhost?'' @ v"
  have n: "\<not> sublist '','' ?a" "\<not> sublist ''&&'' ?b" "\<not> sublist ''='' ?b" "str_find ''?'' 0 ?a = None"
    "str_find ''?'' 0 v = None"
    using assms(1,3) sublist_set [of "'',''" ?a] sublist_set [of "''&&''" ?b] sublist_set [of "''=''" ?b]
    by (auto simp: plain_def no_question)
  have q: "str_find ''?'' 0 ?b = Some (length app)"
    using str_find_char [of "CHR ''?''" app "''vhost?'' @ v"] assms(1) by (simp add: plain_def)
  have h: "str_find ''vhost?'' 0 (''vhost?'' @ v) = Some 0"
    using str_find_first [of "''vhost?''" "[]" v] by (simp add: sublist_code)
  have "vhost_of_query vhost (''vhost?'' @ v) = v"
    unfolding vhost_of_query_def h using assms(5) n(5) by simp
  then show ?thesis
    unfolding srs_vhost_resolve_def Let_def n(4)
    by (simp add: replace_absent [OF n(1), simplified] replace_dots [OF assms(2,4), simplified] replace_absent [OF n(2), simplified]
      replace_absent [OF n(3), simplified] q [simplified])
qed

lemma discovery_eq:
  assumes "CHR ''/'' \<notin> set h"
  shows "srs_discovery_tc_url (''rtmp://'' @ h @ ''/'' @ rest) t =
    bindR (if str_find '':'' 0 h \<noteq> None then srs_parse_hostport h SRS_CONSTS_RTMP_DEFAULT_PORT
           else Inr (h, SRS_CONSTS_RTMP_DEFAULT_PORT))
      (\<lambda>(host, port). let app = (if rest = [] then SRS_CONSTS_RTMP_DEFAULT_APP else rest) in
        bindR (srs_vhost_resolve host app (tc_param (t\<lparr>tc_schema := ''rtmp'', tc_host := h\<rparr>)))
        (\<lambda>(vhost, app, param). Inr (t\<lparr>tc_schema := ''rtmp'', tc_host := h\<rparr>\<lparr>tc_host := host, tc_vhost := vhost,
           tc_app := app, tc_port := port, tc_param := param\<rparr>)))"
proof -
  have "str_find ''://'' 0 (''rtmp'' @ ''://'' @ h @ ''/'' @ rest) = Some (length ''rtmp'')"
    by (rule str_find_first) (simp_all add: sublist_code)
  then have 1: "str_find ''://'' 0 (''rtmp://'' @ h @ ''/'' @ rest) = Some 4" by simp
  have 2: "str_find ''/'' 0 (h @ ''/'' @ rest) = Some (length h)"
    using str_find_char [OF assms] by simp
  show ?thesis
    unfolding srs_discovery_tc_url_def 1 by (simp add: 2 [simplified])
qed

lemma parse_hostport_eq:
  assumes "CHR '':'' \<notin> set server" and "- (2 ^ 31) \<le> port" and "port < 2 ^ 31"
  shows "srs_parse_hostport (server @ '':'' @ srs_int2str port) p0 = Inr (server, port)"
  using str_find_char [OF assms(1), of "srs_int2str port"] atoi_int2str [OF assms(2,3)]
  by (simp add: srs_parse_hostport_def)

lemma hostport_colon:
  "CHR '':'' \<notin> set server \<Longrightarrow> str_find '':'' 0 (server @ '':'' @ srs_int2str port) \<noteq> None"
  using str_find_char [of "CHR '':''" server "srs_int2str port"] by simp

lemma int2str_no_slash: "CHR ''/'' \<notin> set (srs_int2str n)"
  using int2str_chars [of "CHR ''/''" n] by (auto simp: is_digit_def)

text \<open>C26: The address that the server sends a client to is understood as it was meant. For a host
  without colon or slash, any port, an app that is not empty and has no character with a meaning in
  the query (and no three dots, also not at its end), and a vhost of that kind, taking apart what
  \<^verbatim>\<open>srs_generate_rtmp_url\<close> builds gives back the schema, the host, the port, the app and the
  vhost, which is the host itself where the address does not name one; the parameters stay.
\<close>

theorem rtmp_url_roundtrip:
  assumes "CHR '':'' \<notin> set server" and "CHR ''/'' \<notin> set server" and "- (2 ^ 31) \<le> port" and "port < 2 ^ 31"
    and "app \<noteq> []" and "plain app" and "\<not> sublist ''...'' (app @ ''..'')"
    and "vhost \<noteq> []" and "plain vhost" and "\<not> sublist ''...'' vhost"
  shows "srs_discovery_tc_url (srs_generate_rtmp_url server port vhost app []) t
    = Inr (t\<lparr>tc_schema := ''rtmp'', tc_host := server,
        tc_vhost := if vhost = SRS_CONSTS_RTMP_DEFAULT_VHOST then server else vhost, tc_app := app, tc_port := port\<rparr>)"
proof -
  let ?h = "server @ '':'' @ srs_int2str port"
  let ?q = "if SRS_CONSTS_RTMP_DEFAULT_VHOST \<noteq> vhost \<and> server \<noteq> vhost then ''...vhost...'' @ vhost else []"
  have u: "srs_generate_rtmp_url server port vhost app [] = ''rtmp://'' @ ?h @ ''/'' @ (app @ ?q)"
    by (simp add: srs_generate_rtmp_url_def)
  have h: "CHR ''/'' \<notin> set ?h" using assms(2) int2str_no_slash by simp
  have r: "(if app @ ?q = [] then SRS_CONSTS_RTMP_DEFAULT_APP else app @ ?q) = app @ ?q"
    using assms(5) by simp
  have "\<not> sublist ''...'' app" using assms(7) sublist_order.order.trans sublist_append_rightI by blast
  then have v: "srs_vhost_resolve server (app @ ?q) (tc_param (t\<lparr>tc_schema := ''rtmp'', tc_host := ?h\<rparr>))
      = Inr (if vhost = SRS_CONSTS_RTMP_DEFAULT_VHOST then server else vhost, app, tc_param t)"
    using vhost_resolve_plain [OF assms(6)] vhost_resolve_dots [OF assms(6,7,9,10,8)] by auto
  show ?thesis
    unfolding u discovery_eq [OF h] if_P [OF hostport_colon [OF assms(1)]] parse_hostport_eq [OF assms(1,3,4)]
      bindR_Inr prod.case Let_def r v
    by (cases t) simp
qed

theorem rtmp_url_roundtrip_witness:
  "srs_discovery_tc_url (srs_generate_rtmp_url ''10.0.0.2'' 1935 ''demo.srs.com'' ''live'' []) (rq_url request_new)
    = Inr ((rq_url request_new)\<lparr>tc_schema := ''rtmp'', tc_host := ''10.0.0.2'',
        tc_vhost := if ''demo.srs.com'' = SRS_CONSTS_RTMP_DEFAULT_VHOST then ''10.0.0.2'' else ''demo.srs.com'',
        tc_app := ''live'', tc_port := 1935\<rparr>)"
  by (rule rtmp_url_roundtrip) (simp_all add: plain_def sublist_code)

section \<open>Query strings\<close>

abbreviation query_flags :: "string list" where
  "query_flags \<equiv> [''='', '','', ''&&'', ''&'', '';'']"

definition no_separator :: "string \<Rightarrow> bool" where
  "no_separator s \<longleftrightarrow> set s \<inter> {CHR ''='', CHR '','', CHR ''&'', CHR '';''} = {}"

text \<open>The flag that occurs first is matched.\<close>

lemma min_match_keep:
  "\<forall>g \<in> set flags. \<forall>q. str_find g 0 s = Some q \<longrightarrow> p \<le> q \<Longrightarrow> min_match s (Some p) m flags = m"
  by (induction flags) (auto split: option.split)

lemma min_match_first:
  assumes "f \<in> set flags" and "str_find f 0 s = Some p"
    and "\<forall>g \<in> set flags. \<forall>q. g \<noteq> f \<longrightarrow> str_find g 0 s = Some q \<longrightarrow> p < q"
    and "\<forall>m. mp = Some m \<longrightarrow> p < m"
  shows "min_match s mp m flags = f"
  using assms(1,3,4)
proof (induction flags arbitrary: mp m)
  case (Cons g flags)
  show ?case
  proof (cases "g = f")
    case True
    have "min_match s (Some p) f flags = f"
      by (rule min_match_keep) (use Cons.prems(2) assms(2) in \<open>fastforce intro: less_imp_le\<close>)
    then show ?thesis using True Cons.prems(3) assms(2) by (simp split: option.split)
  next
    case False
    with Cons show ?thesis by (auto split: option.split)
  qed
qed simp

lemma min_match_none: "\<forall>g \<in> set flags. str_find g 0 s = None \<Longrightarrow> min_match s mp m flags = m"
  by (induction flags) simp_all

lemma split_plain:
  assumes "no_separator s"
  shows "split_flags s query_flags = (if s \<noteq> [] then [s] else [])"
proof -
  have "str_find g 0 s = None" if "g \<in> set query_flags" for g
    using that assms str_find_no_char [of _ s g] by (auto simp: no_separator_def)
  then have "srs_string_min_match s query_flags = []" unfolding srs_string_min_match_def by (intro min_match_none) blast
  then show ?thesis by (subst split_flags.simps) (simp add: Let_def)
qed

lemma split_separator:
  assumes "no_separator xs" and "c \<in> {CHR ''='', CHR ''&''}" and "c = CHR ''&'' \<Longrightarrow> ys = [] \<or> hd ys \<noteq> CHR ''&''"
  shows "split_flags (xs @ c # ys) query_flags = (if xs \<noteq> [] then [xs] else []) @ split_flags ys query_flags"
proof -
  have at: "str_find [c] 0 (xs @ c # ys) = Some (length xs)"
    using assms(1,2) by (intro str_find_char) (auto simp: no_separator_def)
  have later: "length xs < q" if g: "g \<in> set query_flags" "g \<noteq> [c]" and q: "str_find g 0 (xs @ c # ys) = Some q" for g q
  proof (rule ccontr)
    assume "\<not> length xs < q"
    then have d: "drop q (xs @ c # ys) = drop q xs @ c # ys" by simp
    from str_find_Some(2) [OF q] have p: "prefix g (drop q xs @ c # ys)" unfolding d .
    show False
    proof (cases "drop q xs")
      case Nil
      with p g assms(2,3) show False by (cases ys) auto
    next
      case (Cons a as)
      then have "a \<in> set xs" using in_set_dropD [of a q xs] by simp
      with p g assms(1) Cons show False by (auto simp: no_separator_def)
    qed
  qed
  have "srs_string_min_match (xs @ c # ys) query_flags = [c]"
    unfolding srs_string_min_match_def
    by (rule min_match_first [OF _ at]) (use assms(2) later in \<open>auto\<close>)
  then show ?thesis by (subst split_flags.simps) (simp add: at Let_def)
qed

fun query_string :: "(string \<times> string) list \<Rightarrow> string" where
  "query_string [] = []"
| "query_string [(k, v)] = k @ ''='' @ v"
| "query_string ((k, v) # ps) = k @ ''='' @ v @ ''&'' @ query_string ps"

definition query_ok :: "(string \<times> string) list \<Rightarrow> bool" where
  "query_ok ps \<longleftrightarrow> (\<forall>(k, v) \<in> set ps. no_separator k \<and> k \<noteq> [] \<and> no_separator v)"

text \<open>The names and the values that are not empty, one after the other.\<close>

definition query_pieces :: "(string \<times> string) list \<Rightarrow> string list" where
  "query_pieces ps = filter (\<lambda>x. x \<noteq> []) (concat (map (\<lambda>(k, v). [k, v]) ps))"

lemma query_string_start: "query_ok ps \<Longrightarrow> query_string ps = [] \<or> hd (query_string ps) \<noteq> CHR ''&''"
proof (cases ps rule: query_string.cases)
  case (2 k v)
  then show "query_ok ps \<Longrightarrow> ?thesis" by (cases k) (auto simp: query_ok_def no_separator_def)
next
  case (3 k v p ps')
  then show "query_ok ps \<Longrightarrow> ?thesis" by (cases k) (auto simp: query_ok_def no_separator_def)
qed simp

lemma split_query: "query_ok ps \<Longrightarrow> split_flags (query_string ps) query_flags = query_pieces ps"
proof (induction ps rule: query_string.induct)
  case 1
  show ?case using split_plain [of "[]"] by (simp add: query_pieces_def no_separator_def)
next
  case (2 k v)
  then have kv: "no_separator k" "k \<noteq> []" "no_separator v" by (simp_all add: query_ok_def)
  from split_separator [OF kv(1), of "CHR ''=''" v] split_plain [OF kv(3)] kv(2) show ?case
    by (simp add: query_pieces_def)
next
  case (3 k v p ps)
  then have kv: "no_separator k" "k \<noteq> []" "no_separator v" and ok: "query_ok (p # ps)" by (auto simp: query_ok_def)
  let ?r = "query_string (p # ps)"
  have "split_flags (v @ ''&'' @ ?r) query_flags = (if v \<noteq> [] then [v] else []) @ query_pieces (p # ps)"
    using split_separator [OF kv(3), of "CHR ''&''" ?r] query_string_start [OF ok] "3.IH" [OF ok] by simp
  with split_separator [OF kv(1), of "CHR ''=''" "v @ ''&'' @ ?r"] kv(2) show ?case by (simp add: query_pieces_def)
qed

text \<open>The pieces are taken in pairs.\<close>

fun pair_up :: "string list \<Rightarrow> (string \<rightharpoonup> string) \<Rightarrow> (string \<rightharpoonup> string)" where
  "pair_up [] m = m"
| "pair_up [k] m = m(k \<mapsto> [])"
| "pair_up (k # v # kvs) m = pair_up kvs (m(k \<mapsto> v))"

lemma upt_Suc_map: "[0..<Suc n] = 0 # map Suc [0..<n]"
  by (simp add: upt_conv_Cons map_Suc_upt)

lemma fold_pairs:
  "fold (\<lambda>i m. m(kvs ! (2 * i) \<mapsto> (if 2 * i + 1 < length kvs then kvs ! (2 * i + 1) else [])))
     [0..<(length kvs + 1) div 2] m = pair_up kvs m"
proof (induction kvs m rule: pair_up.induct)
  case (3 k v kvs m)
  have n: "(length (k # v # kvs) + 1) div 2 = Suc ((length kvs + 1) div 2)" by simp
  let ?f = "\<lambda>kvs i m. m(kvs ! (2 * i) \<mapsto> (if 2 * i + 1 < length kvs then kvs ! (2 * i + 1) else []))"
  have "?f (k # v # kvs) \<circ> Suc = ?f kvs" by (simp add: fun_eq_iff mult_Suc_right)
  moreover have "?f (k # v # kvs) 0 m = m(k \<mapsto> v)" by simp
  ultimately show ?case unfolding n upt_Suc_map using "3.IH" by (simp only: fold_simps fold_map o_apply pair_up.simps)
qed simp_all

lemma pair_up_append: "even (length xs) \<Longrightarrow> pair_up (xs @ ys) m = pair_up ys (pair_up xs m)"
  by (induction xs m rule: pair_up.induct) simp_all

lemma query_pieces_simps [simp]:
  "query_pieces [] = []"
  "query_pieces ((k, v) # ps) = (if k \<noteq> [] then [k] else []) @ (if v \<noteq> [] then [v] else []) @ query_pieces ps"
  "query_pieces (ps @ qs) = query_pieces ps @ query_pieces qs"
  by (simp_all add: query_pieces_def)

lemma pieces_full:
  assumes "\<forall>(k, v) \<in> set ps. k \<noteq> [] \<and> v \<noteq> []"
  shows "even (length (query_pieces ps))" and "pair_up (query_pieces ps) m = m ++ map_of (rev ps)"
  using assms by (induction ps arbitrary: m) auto

lemma parse_pieces: "query_ok ps \<Longrightarrow> srs_parse_query_string (query_string ps) query = pair_up (query_pieces ps) query"
  by (simp only: srs_parse_query_string_def split_query Let_def fold_pairs)

text \<open>C36: How a query string of named values, none of them with a separator, is understood. If every value has characters,
  each name gets its value, the last one if a name comes twice. The first empty value makes
  its name take the name of the next parameter for its value, and the value of that becomes a name, because empty pieces
  are left out and the rest is counted off in pairs.\<close>

theorem query_string_parsed:
  assumes "query_ok ps"
  shows "((\<forall>(k, v) \<in> set ps. v \<noteq> []) \<longrightarrow> srs_parse_query_string (query_string ps) query = query ++ map_of (rev ps))
    \<and> (\<forall>before a b v rest. ps = before @ (a, []) # (b, v) # rest \<and> (\<forall>(k, v) \<in> set before. v \<noteq> [])
        \<longrightarrow> srs_parse_query_string (query_string ps) query
          = pair_up ((if v = [] then [] else [v]) @ query_pieces rest) ((query ++ map_of (rev before))(a \<mapsto> b)))"
proof (intro conjI impI allI)
  assume "\<forall>(k, v) \<in> set ps. v \<noteq> []"
  with assms have "\<forall>(k, v) \<in> set ps. k \<noteq> [] \<and> v \<noteq> []" by (auto simp: query_ok_def)
  from pieces_full(2) [OF this] show "srs_parse_query_string (query_string ps) query = query ++ map_of (rev ps)"
    by (simp add: parse_pieces [OF assms])
next
  fix before a b v rest
  assume ps: "ps = before @ (a, []) # (b, v) # rest \<and> (\<forall>(k, v) \<in> set before. v \<noteq> [])"
  with assms have "\<forall>(k, v) \<in> set before. k \<noteq> [] \<and> v \<noteq> []" and ab: "a \<noteq> []" "b \<noteq> []" by (auto simp: query_ok_def)
  note full = pieces_full [OF this(1)]
  show "srs_parse_query_string (query_string ps) query
      = pair_up ((if v = [] then [] else [v]) @ query_pieces rest) ((query ++ map_of (rev before))(a \<mapsto> b))"
    unfolding parse_pieces [OF assms] using ps ab by (simp add: pair_up_append [OF full(1)] full(2))
qed

theorem query_string_parsed_witness:
  "srs_parse_query_string ''vhost=demo&token=xyz'' Map.empty = [''vhost'' \<mapsto> ''demo'', ''token'' \<mapsto> ''xyz'']
    \<and> srs_parse_query_string ''a=&b=1'' Map.empty = [''a'' \<mapsto> ''b'', ''1'' \<mapsto> '''']"
proof -
  have ok: "query_ok [(''vhost'', ''demo''), (''token'', ''xyz'')]" "query_ok [(''a'', ''''), (''b'', ''1'')]"
    by (simp_all add: query_ok_def no_separator_def)
  have "query_string [(''vhost'', ''demo''), (''token'', ''xyz'')] = ''vhost=demo&token=xyz''"
    "query_string [(''a'', ''''), (''b'', ''1'')] = ''a=&b=1''" by simp_all
  moreover have "srs_parse_query_string (query_string [(''vhost'', ''demo''), (''token'', ''xyz'')]) Map.empty
      = Map.empty ++ map_of (rev [(''vhost'', ''demo''), (''token'', ''xyz'')])"
    using conjunct1 [OF query_string_parsed [OF ok(1), of Map.empty]] by fastforce
  moreover have "srs_parse_query_string (query_string [(''a'', ''''), (''b'', ''1'')]) Map.empty
      = pair_up ((if ''1'' = '''' then [] else [''1'']) @ query_pieces []) ((Map.empty ++ map_of (rev []))(''a'' \<mapsto> ''b''))"
    by (rule mp [OF spec [OF spec [OF spec [OF spec [OF spec
          [OF conjunct2 [OF query_string_parsed [OF ok(2), of Map.empty]], of "[]"], of "''a''"], of "''b''"], of "''1''"], of "[]"]]) simp
  moreover have "Map.empty ++ map_of (rev [(''vhost'', ''demo''), (''token'', ''xyz'')]) = [''vhost'' \<mapsto> ''demo'', ''token'' \<mapsto> ''xyz'']"
    by (simp add: fun_eq_iff)
  ultimately show ?thesis by simp
qed

end
