(* ===== verification/Srs_Dialogue_Safety.thy ===== *)
theory Srs_Dialogue_Safety
  imports Srs_Rtmp_Server Srs_Rtmp_Client Srs_Protocol_Session Srs_Url_Laws
begin

text \<open>
  The dialogues of server and client end, without a violated assertion or an access outside of an
  array, whatever the other side sends.
\<close>

section \<open>The session during a dialogue\<close>

text \<open>
  The invariant of the session; the queue of answers holds none that changes the session; and the
  network does not report the three values that stand for faults of the code.
\<close>

definition faults :: "srs_error set" where
  "faults = {ASSERT_FAILED, UNDEFINED_BEHAVIOUR, OUT_OF_FUEL}"

definition honest :: "protocol \<Rightarrow> bool" where
  "honest s \<longleftrightarrow> net_errors (cr_in s) \<inter> faults = {} \<and> (\<forall>e \<in> faults. Some e \<notin> set (os_plan (pr_skt s)))"

definition dialogue_inv :: "protocol \<Rightarrow> bool" where
  "dialogue_inv s \<longleftrightarrow> session_inv s \<and> honest s \<and> (\<forall>p \<in> set (pr_manual_response_queue s). quiet p)"

abbreviation talks :: "('a \<Rightarrow> protocol \<Rightarrow> bool) \<Rightarrow> 'a res \<times> protocol \<Rightarrow> bool" where
  "talks \<equiv> keeps dialogue_inv (\<lambda>e. e \<notin> faults)"

lemma dialogue_out: "dialogue_inv s \<Longrightarrow> 1 \<le> sint (pr_out_chunk_size s)"
  by (simp add: dialogue_inv_def session_inv_def)

lemma dialogue_simps [simp]:
  "dialogue_inv (s\<lparr>pr_in_ack_size := a\<rparr>) = dialogue_inv s"
  "dialogue_inv (s\<lparr>pr_out_ack_size := a\<rparr>) = dialogue_inv s"
  "dialogue_inv (s\<lparr>pr_in_buffer_length := b\<rparr>) = dialogue_inv s"
  "dialogue_inv (s\<lparr>pr_show_debug_info := c\<rparr>) = dialogue_inv s"
  "dialogue_inv (s\<lparr>pr_requests := d\<rparr>) = dialogue_inv s"
  by (simp_all add: dialogue_inv_def session_inv_def reader_inv_def honest_def)

lemma dialogue_skt:
  "dialogue_inv s \<Longrightarrow> set (os_plan o') \<subseteq> set (os_plan (pr_skt s)) \<Longrightarrow> dialogue_inv (s\<lparr>pr_skt := o'\<rparr>)"
  by (auto simp: dialogue_inv_def session_inv_def reader_inv_def honest_def)

lemma dialogue_queue:
  "dialogue_inv s \<Longrightarrow> \<forall>p \<in> set ps. quiet p \<Longrightarrow> dialogue_inv (s\<lparr>pr_manual_response_queue := ps\<rparr>)"
  by (simp add: dialogue_inv_def session_inv_def reader_inv_def honest_def)

lemma talks_return: "dialogue_inv s \<Longrightarrow> Q x s \<Longrightarrow> talks Q (returnP x s)"
  by (simp add: keeps_def prog_eqs)

lemma talks_modify: "dialogue_inv (f s) \<Longrightarrow> Q () (f s) \<Longrightarrow> talks Q (modifyP f s)"
  by (simp add: keeps_def prog_eqs)

lemma talks_mono: "talks Q r \<Longrightarrow> (\<And>x s. Q x s \<Longrightarrow> Q' x s) \<Longrightarrow> talks Q' r"
  by (erule keeps_mono) auto

subsection \<open>Sending\<close>

definition chunk_fine :: "packet \<Rightarrow> bool" where
  "chunk_fine p \<longleftrightarrow> (case p of SetChunkSize pkt \<Rightarrow> 1 \<le> sint (scs_chunk_size pkt) | _ \<Rightarrow> True)"

text \<open>Sending leaves the input and the queue alone.\<close>

definition sent_to :: "protocol \<Rightarrow> protocol \<Rightarrow> bool" where
  "sent_to s s' \<longleftrightarrow> cr_in s' = cr_in s \<and> pr_manual_response_queue s' = pr_manual_response_queue s"

lemma dialogue_sent_effect:
  "dialogue_inv s \<Longrightarrow> chunk_fine p \<Longrightarrow> dialogue_inv (sent_effect p s)"
  by (cases p) (simp_all add: chunk_fine_def dialogue_inv_def session_inv_def reader_inv_def honest_def)

lemma sent_effect_input: "sent_to s (sent_effect p (s\<lparr>pr_skt := o'\<rparr>))"
  by (cases p) (simp_all add: sent_to_def)

lemma talks_do_send:
  assumes "dialogue_inv s" and "chunk_fine p"
  shows "talks (\<lambda>_. sent_to s) (do_send_and_free_packet p sid s)"
proof (cases "encodable p")
  case False
  then show ?thesis
    using assms(1) by (simp add: do_send_and_free_packet_def prog_simps packet_encode_eq keeps_def faults_def)
next
  case True
  show ?thesis
  proof (cases rule: send_packet_cases [OF True dialogue_out [OF assms(1)], of sid])
    case (1 o')
    with assms dialogue_sent_effect [OF dialogue_skt] sent_effect_input show ?thesis by (simp add: keeps_def)
  next
    case (2 e o')
    with assms(1) dialogue_skt show ?thesis
      by (auto simp: keeps_def dialogue_inv_def honest_def)
  qed
qed

lemma quiet_chunk: "quiet p \<Longrightarrow> chunk_fine p"
proof (cases p)
  case (SetChunkSize pkt)
  assume "quiet p"
  then have "\<forall>s. sent_effect p s = s" by (simp add: quiet_def)
  then have "s\<lparr>pr_out_chunk_size := scs_chunk_size pkt\<rparr> = s" for s :: protocol using SetChunkSize by simp
  from arg_cong [OF this [of "(protocol_new [] [] (\<lambda>_. 0))\<lparr>pr_out_chunk_size := scs_chunk_size pkt + 1\<rparr>"], of pr_out_chunk_size]
  show ?thesis by simp
qed (simp_all add: chunk_fine_def)

lemma talks_flush:
  "dialogue_inv s \<Longrightarrow> \<forall>p \<in> set ps. quiet p \<Longrightarrow> talks (\<lambda>_ s'. cr_in s' = cr_in s) (flush_from ps s)"
proof (induction ps arbitrary: s)
  case Nil
  then show ?case by (simp add: keeps_def prog_eqs)
next
  case (Cons p ps)
  let ?s = "s\<lparr>pr_manual_response_queue := ps\<rparr>"
  have i: "dialogue_inv ?s" using Cons.prems by (intro dialogue_queue) simp_all
  show ?case
    unfolding flush_from.simps bindP_eqs
  proof (rule keeps_bind [where Q = "\<lambda>_. sent_to ?s"])
    show "talks (\<lambda>_. sent_to ?s) (do_send_and_free_packet p 0 ?s)"
      using Cons.prems(2) by (intro talks_do_send i quiet_chunk) simp
    fix u s' assume s': "dialogue_inv s'" "sent_to ?s s'"
    from Cons.IH [OF s'(1)] Cons.prems(2) have "talks (\<lambda>_ t. cr_in t = cr_in s') (flush_from ps s')" by simp
    then show "talks (\<lambda>_ s'. cr_in s' = cr_in s) (flush_from ps s')"
      by (rule talks_mono) (use s'(2) in \<open>simp add: sent_to_def\<close>)
  qed
qed

lemma talks_send:
  assumes "dialogue_inv s" and "chunk_fine p"
  shows "talks (\<lambda>_ s'. cr_in s' = cr_in s) (send_and_free_packet p sid s)"
  unfolding send_and_free_packet_def
proof (rule keeps_bind, rule talks_do_send [OF assms])
  fix u s' assume s': "dialogue_inv s'" "sent_to s s'"
  have "\<forall>p \<in> set (pr_manual_response_queue s'). quiet p" using s'(1) by (simp add: dialogue_inv_def)
  from talks_flush [OF s'(1) this] show "talks (\<lambda>_ s'. cr_in s' = cr_in s) (manual_response_flush s')"
    using s'(2) by (simp add: manual_response_flush_def prog_simps sent_to_def)
qed

subsection \<open>Receiving\<close>

abbreviation same_input :: "protocol \<Rightarrow> 'a \<Rightarrow> protocol \<Rightarrow> bool" where
  "same_input s \<equiv> \<lambda>_ s'. cr_in s' = cr_in s"

lemma talks_raise: "dialogue_inv s \<Longrightarrow> e \<notin> faults \<Longrightarrow> talks Q (raiseP e s)"
  by (simp add: keeps_def prog_eqs)

lemma talks_respond:
  assumes "dialogue_inv s" and "quiet p"
  shows "talks (same_input s) (respond p s)"
  using assms(2) dialogue_out [OF assms(1)]
proof (cases rule: respond_cases)
  case 1
  have "\<forall>q \<in> set (pr_manual_response_queue s @ [p]). quiet q"
    using assms by (auto simp: dialogue_inv_def)
  from dialogue_queue [OF assms(1) this] show ?thesis by (simp add: 1(2) keeps_def)
next
  case (2 o')
  with dialogue_skt [OF assms(1) 2(3)] show ?thesis by (simp add: keeps_def)
next
  case (3 e o')
  with dialogue_skt [OF assms(1) 3(3)] assms(1) show ?thesis
    by (auto simp: keeps_def dialogue_inv_def honest_def)
qed

lemma talks_ack:
  assumes "dialogue_inv s"
  shows "talks (same_input s) (response_acknowledgement_message s)"
proof (cases "ack_due s")
  case False
  with assms show ?thesis by (simp add: response_acknowledgement_message_def prog_simps keeps_def)
next
  case True
  have "talks (same_input s) (respond (Acknowledgement a) (s\<lparr>pr_in_ack_size := w\<rparr>))" for a w
    using talks_respond [of "s\<lparr>pr_in_ack_size := w\<rparr>" "Acknowledgement a"] assms by simp
  with True show ?thesis by (simp add: response_acknowledgement_message_def prog_simps Let_def)
qed

lemma dialogue_in_chunk:
  "dialogue_inv s \<Longrightarrow> 0 < n \<Longrightarrow> dialogue_inv (s\<lparr>cr_in_chunk_size := n\<rparr>)"
  by (simp add: dialogue_inv_def session_inv_def reader_inv_def honest_def)

lemma talks_control:
  assumes "dialogue_inv s"
  shows "talks (same_input s) (on_window_ack_size (Some (SetWindowAckSize p1)) s)"
    and "talks (same_input s) (on_set_chunk_size (Some (SetChunkSize p2)) s)"
    and "talks (same_input s) (on_user_control (Some (UserControl p3)) s)"
proof -
  show "talks (same_input s) (on_window_ack_size (Some (SetWindowAckSize p1)) s)"
    using assms by (simp add: on_window_ack_size_def prog_simps keeps_def)
  show "talks (same_input s) (on_set_chunk_size (Some (SetChunkSize p2)) s)"
    using assms
    by (auto simp: on_set_chunk_size_def prog_simps keeps_def faults_def SRS_CONSTS_RTMP_MIN_CHUNK_SIZE_def
        intro!: dialogue_in_chunk)
  have "talks (same_input s) (respond (UserControl u) s)"
    "talks (same_input s) (respond (UserControl u) (s\<lparr>pr_in_buffer_length := b\<rparr>))" for u b
    using talks_respond [of s "UserControl u"] talks_respond [of "s\<lparr>pr_in_buffer_length := b\<rparr>" "UserControl u"]
      assms by simp_all
  then show "talks (same_input s) (on_user_control (Some (UserControl p3)) s)"
    using assms by (simp add: on_user_control_def prog_simps response_ping_message_def)
      (simp add: keeps_def)
qed

lemma decode_errors_faults: "e \<in> decode_errors \<Longrightarrow> e \<notin> faults"
  by (auto simp: decode_errors_def faults_def)

lemma talks_on_recv_message:
  assumes s: "dialogue_inv s" and msg: "msg_complete msg" "0 < cm_size msg"
  shows "talks (same_input s) (on_recv_message msg s)"
  unfolding on_recv_message_def
proof (rule keeps_bind, rule talks_ack [OF s])
  fix u s1 assume s1: "dialogue_inv s1" "cr_in s1 = cr_in s"
  let ?ty = "mh_message_type (cm_header msg)"
  have d: "talks (same_input s) (print_debug_info s1)"
    unfolding print_debug_info_def by (rule talks_modify) (simp_all add: s1)
  have r: "talks (same_input s) (returnP () s1)" by (rule talks_return) (simp_all add: s1)
  note safe = decode_message_safe [OF msg, of "pr_requests s1"]
  show "talks (same_input s) (bindP (getP pr_requests)
     (\<lambda>requests. let ty = ?ty
        in if ty = RTMP_MSG_SetChunkSize \<or> ty = RTMP_MSG_UserControlMessage
             \<or> ty = RTMP_MSG_WindowAcknowledgementSize
           then (case decode_message requests msg of
               Inl e \<Rightarrow> raiseP e
             | Inr packet \<Rightarrow>
                 if ty = RTMP_MSG_WindowAcknowledgementSize then on_window_ack_size packet
                 else if ty = RTMP_MSG_SetChunkSize then on_set_chunk_size packet
                 else on_user_control packet)
           else if ty = RTMP_MSG_VideoMessage \<or> ty = RTMP_MSG_AudioMessage
           then print_debug_info
           else returnP ()) s1)"
  proof (cases "decode_message (pr_requests s1) msg")
    case (Inl e)
    with safe have "talks (same_input s) (raiseP e s1)"
      using s1 by (intro talks_raise decode_errors_faults) simp_all
    with Inl d r show ?thesis by (auto simp: prog_simps Let_def)
  next
    case (Inr po)
    with safe d r talks_control [OF s1(1), unfolded s1(2)] show ?thesis
      by (auto simp: prog_simps Let_def mh_control_types)
  qed
qed

text \<open>One message, for which bytes of the input were taken.\<close>

definition took :: "protocol \<Rightarrow> common_msg \<Rightarrow> protocol \<Rightarrow> bool" where
  "took s m s' \<longleftrightarrow> msg_complete m \<and> 0 < cm_size m \<and> todo (cr_in s') < todo (cr_in s)"

lemma dialogue_after_chunk:
  assumes "dialogue_inv s" and "session_inv s'" and "inp_le (cr_in s') (cr_in s)"
    and "chunk_reader.more s' = chunk_reader.more s"
  shows "dialogue_inv s'"
  using assms protocol_more [OF assms(4)] by (auto simp: dialogue_inv_def honest_def inp_le_def)

lemma talks_recv_interlaced:
  assumes "dialogue_inv s"
  shows "talks (\<lambda>mo s'. todo (cr_in s') < todo (cr_in s) \<and> (\<forall>m. mo = Some m \<longrightarrow> msg_complete m))
    (recv_interlaced_message s)"
proof -
  from assms have inv: "reader_inv s" by (simp add: dialogue_inv_def session_inv_def)
  obtain r s' where r: "recv_interlaced_message s = (r, s')" "reader_inv s'" "inp_le (cr_in s') (cr_in s)"
      "case r of Inl e \<Rightarrow> reader_errors s e
       | Inr mo \<Rightarrow> todo (cr_in s') < todo (cr_in s) \<and> (\<forall>m. mo = Some m \<longrightarrow> msg_complete m)"
    using recv_interlaced_message_safe [OF inv] by blast
  note m = recv_interlaced_more [OF r(1)]
  have "session_inv s'"
    using r(2) assms protocol_more(2) [OF m] by (simp add: session_inv_def dialogue_inv_def)
  note inv' = dialogue_after_chunk [OF assms this r(3) m]
  have "e \<notin> faults" if "reader_errors s e" for e
    using that assms by (auto simp: reader_errors_def chunk_errors_def dialogue_inv_def honest_def) (simp_all add: faults_def)
  with inv' r show ?thesis by (cases r) (simp_all add: keeps_def)
qed

lemma talks_recv_loop:
  "dialogue_inv s \<Longrightarrow> todo (cr_in s) < n \<Longrightarrow> talks (took s) (recv_loop n s)"
proof (induction n arbitrary: s)
  case 0
  then show ?case by simp
next
  case (Suc n)
  show ?case unfolding recv_loop.simps
  proof (rule keeps_bind, rule talks_recv_interlaced [OF Suc.prems(1)])
    fix mo s1
    assume s1: "dialogue_inv s1" "todo (cr_in s1) < todo (cr_in s) \<and> (\<forall>m. mo = Some m \<longrightarrow> msg_complete m)"
    have "talks (took s1) (recv_loop n s1)"
      by (rule Suc.IH [OF s1(1)]) (use s1(2) Suc.prems(2) in simp)
    then have skip: "talks (took s) (recv_loop n s1)"
      by (rule talks_mono) (use s1(2) in \<open>simp add: took_def\<close>)
    have got: "talks (took s) (bindP (on_recv_message m) (\<lambda>_. returnP m) s1)"
      if "mo = Some m" "0 < cm_size m" for m
    proof (rule keeps_bind)
      show "talks (same_input s1) (on_recv_message m s1)"
        using s1 that by (intro talks_on_recv_message) simp_all
      fix u s2 assume "dialogue_inv s2" "cr_in s2 = cr_in s1"
      with s1(2) that show "talks (took s) (returnP m s2)" by (simp add: keeps_def prog_eqs took_def)
    qed
    show "talks (took s) ((case mo of None \<Rightarrow> recv_loop n
       | Some msg \<Rightarrow> if cm_size msg \<le> 0 \<or> sint (mh_payload_length (cm_header msg)) \<le> 0 then recv_loop n
          else bindP (on_recv_message msg) (\<lambda>_. returnP msg)) s1)"
      using skip got by (cases mo) simp_all
  qed
qed

lemma talks_recv_message: "dialogue_inv s \<Longrightarrow> talks (took s) (recv_message s)"
  unfolding recv_message_def by (rule talks_recv_loop) simp_all

subsection \<open>Waiting\<close>

lemma talks_lift:
  "dialogue_inv s \<Longrightarrow> (case r of Inl e \<Rightarrow> e \<notin> faults | Inr x \<Rightarrow> Q x s) \<Longrightarrow> talks Q (liftR r s)"
  by (cases r) (simp_all add: keeps_def liftR_def)

lemma decode_received:
  assumes "took s m s'" and "decode_message reqs m = Inl e"
  shows "e \<notin> faults"
  using decode_message_safe [of m reqs] assms by (auto simp: took_def dest: decode_errors_faults)

text \<open>What is taken from the input; the next step has less to read.\<close>

abbreviation shorter :: "protocol \<Rightarrow> 'a \<Rightarrow> protocol \<Rightarrow> bool" where
  "shorter s \<equiv> \<lambda>_ s'. todo (cr_in s') < todo (cr_in s)"

lemma talks_expect_loop:
  "dialogue_inv s \<Longrightarrow> todo (cr_in s) < n \<Longrightarrow> talks (shorter s) (expect_loop n sel s)"
proof (induction n arbitrary: s)
  case 0
  then show ?case by simp
next
  case (Suc n)
  show ?case unfolding expect_loop.simps
  proof (rule keeps_bind, rule talks_recv_message [OF Suc.prems(1)])
    fix m s1 assume s1: "dialogue_inv s1" "took s m s1"
    have "talks (shorter s1) (expect_loop n sel s1)"
      by (rule Suc.IH [OF s1(1)]) (use s1(2) Suc.prems(2) in \<open>simp add: took_def\<close>)
    then have "talks (shorter s) (expect_loop n sel s1)"
      by (rule talks_mono) (use s1(2) in \<open>simp add: took_def\<close>)
    moreover have "talks (shorter s) (returnP (m, x) s1)" for x :: 'a
      using s1 by (intro talks_return) (simp_all add: took_def)
    moreover have "talks (shorter s) (raiseP e s1)" if "decode_message (pr_requests s1) m = Inl e" for e
      by (rule talks_raise [OF s1(1) decode_received [OF s1(2) that]])
    ultimately show "talks (shorter s) (bindP (getP pr_requests)
       (\<lambda>requests. case decode_message requests m of
          Inl e \<Rightarrow> raiseP e
        | Inr packet \<Rightarrow> (case Option.bind packet sel of
            None \<Rightarrow> expect_loop n sel
          | Some pkt \<Rightarrow> returnP (m, pkt))) s1)"
      unfolding bindP_eqs by (auto split: sum.split option.split)
  qed
qed

lemma talks_expect: "dialogue_inv s \<Longrightarrow> talks (shorter s) (expect_message sel s)"
  unfolding expect_message_def by (rule talks_expect_loop) simp_all

lemma talks_recv_command:
  assumes "dialogue_inv s"
  shows "talks (shorter s) (recv_command s)"
  unfolding recv_command_def
proof (rule keeps_bind, rule talks_recv_message [OF assms])
  fix m s1 assume s1: "dialogue_inv s1" "took s m s1"
  have "talks (shorter s) (returnP (None :: packet option) s1)" "talks (shorter s) (liftR (decode_message (pr_requests s1) m) s1)"
    using s1 decode_received [OF s1(2)]
    by (auto intro!: talks_return talks_lift split: sum.split) (simp_all add: took_def)
  then show "talks (shorter s) ((if identify_ignores (cm_header m) then returnP None
      else bindP (getP pr_requests) (\<lambda>requests. liftR (decode_message requests m))) s1)"
    by (simp add: bindP_eqs)
qed

section \<open>The server\<close>

abbreviation chats :: "('a \<Rightarrow> protocol \<times> 'x \<Rightarrow> bool) \<Rightarrow> 'a res \<times> (protocol \<times> 'x) \<Rightarrow> bool" where
  "chats \<equiv> keeps (\<lambda>(s, x). dialogue_inv s) (\<lambda>e. e \<notin> faults)"

lemma chats_session:
  "talks Q (m s) \<Longrightarrow> chats (\<lambda>a (s', x'). Q a s' \<and> x' = x) (on_session m (s, x))"
  by (cases "m s") (auto simp: keeps_def on_session_def split: sum.splits)

lemma chats_identity:
  "dialogue_inv s \<Longrightarrow> Q () (s, f i) \<Longrightarrow> chats Q (set_identity f (s, i))"
  by (simp add: keeps_def set_identity_def prog_eqs)

definition identified :: "'a \<Rightarrow> protocol \<times> identity \<Rightarrow> bool" where
  "identified = (\<lambda>_ (s, i). id_type i \<noteq> SrsRtmpConnUnknown)"

lemma identified_iff [simp]: "identified u (s, i) \<longleftrightarrow> id_type i \<noteq> SrsRtmpConnUnknown"
  by (simp add: identified_def)

lemma chats_identify_publish:
  assumes "dialogue_inv s"
  shows "chats identified (identify_fmle_publish_client req (s, i))"
    and "chats identified (identify_haivision_publish_client req (s, i))"
proof -
  have "chats identified (on_session (send_and_free_packet (FMLEStartRes p) 0) (s, i))"
    if "id_type i \<noteq> SrsRtmpConnUnknown" for p and i :: identity
  proof (rule keeps_mono)
    show "chats (\<lambda>a (s', i'). same_input s a s' \<and> i' = i) (on_session (send_and_free_packet (FMLEStartRes p) 0) (s, i))"
      by (rule chats_session [where Q = "same_input s"], rule talks_send [OF assms]) (simp add: chunk_fine_def)
  qed (use that in auto)
  then show "chats identified (identify_fmle_publish_client req (s, i))"
    "chats identified (identify_haivision_publish_client req (s, i))"
    by (simp_all add: identify_fmle_publish_client_def identify_haivision_publish_client_def set_identity_def
      prog_simps)
qed

lemma chats_identify_simple:
  assumes "dialogue_inv s"
  shows "chats identified (identify_flash_publish_client req1 (s, i))"
    and "chats identified (identify_play_client req2 (s, i))"
  using assms by (simp_all add: identify_flash_publish_client_def identify_play_client_def chats_identity)

lemma talks_respond_create:
  "dialogue_inv s \<Longrightarrow> talks (same_input s) (respond_create_stream req sid s)"
  unfolding respond_create_stream_def by (rule talks_send) (simp_all add: chunk_fine_def)

lemma talks_respond_call: "dialogue_inv s \<Longrightarrow> talks (same_input s) (respond_call call s)"
  unfolding respond_call_def by (rule talks_send) (simp_all add: chunk_fine_def)

text \<open>An answer, after which a loop goes on with the same input.\<close>

lemma chats_then:
  assumes "talks (same_input s) (m s)"
    and "\<And>s'. dialogue_inv s' \<Longrightarrow> cr_in s' = cr_in s \<Longrightarrow> chats R (k (s', x))"
  shows "chats R (bindP (on_session m) (\<lambda>_. k) (s, x))"
  by (rule keeps_bind, rule chats_session [where Q = "same_input s"], rule assms(1)) (use assms(2) in auto)

lemma chats_create_stream_loop:
  "dialogue_inv s \<Longrightarrow> todo (cr_in s) < n \<Longrightarrow> chats identified (identify_create_stream_loop n sid (s, i))"
proof (induction n arbitrary: s)
  case 0
  then show ?case by simp
next
  case (Suc n)
  show ?case unfolding identify_create_stream_loop.simps
  proof (rule keeps_bind, rule chats_session [where Q = "shorter s"], rule talks_recv_command [OF Suc.prems(1)], clarify)
    fix pkt s1 i1
    assume s1: "dialogue_inv s1" "todo (cr_in s1) < todo (cr_in s)"
    have go: "chats identified (identify_create_stream_loop n sid (s2, i))"
      if "dialogue_inv s2" "cr_in s2 = cr_in s1" for s2
      using that s1(2) Suc.prems(2) by (intro Suc.IH) simp_all
    have "chats identified (bindP (on_session (respond_create_stream req sid))
        (\<lambda>_. identify_create_stream_loop n sid) (s1, i))" for req
      by (rule chats_then, rule talks_respond_create [OF s1(1)], rule go)
    with go [OF s1(1) refl] chats_identify_publish [OF s1(1)] chats_identify_simple [OF s1(1)]
    show "chats identified ((case pkt of
        Some (Play req) \<Rightarrow> identify_play_client req
      | Some (Publish req) \<Rightarrow> identify_flash_publish_client req
      | Some (CreateStream req) \<Rightarrow> bindP (on_session (respond_create_stream req sid))
          (\<lambda>_. identify_create_stream_loop n sid)
      | Some (FMLEStart req) \<Rightarrow> identify_haivision_publish_client req
      | _ \<Rightarrow> identify_create_stream_loop n sid) (s1, i))"
      by (auto split: option.split packet.split)
  qed
qed

lemma chats_identify_loop:
  "dialogue_inv s \<Longrightarrow> todo (cr_in s) < n \<Longrightarrow> chats identified (identify_loop n sid (s, i))"
proof (induction n arbitrary: s)
  case 0
  then show ?case by simp
next
  case (Suc n)
  show ?case unfolding identify_loop.simps
  proof (rule keeps_bind, rule chats_session [where Q = "shorter s"], rule talks_recv_command [OF Suc.prems(1)], clarify)
    fix pkt s1 i1
    assume s1: "dialogue_inv s1" "todo (cr_in s1) < todo (cr_in s)"
    have go: "chats identified (identify_loop n sid (s2, i))"
      "chats identified (identify_create_stream_loop n sid (s2, i))"
      if "dialogue_inv s2" "cr_in s2 = cr_in s1" for s2
      using that s1(2) Suc.prems(2) by (auto intro!: Suc.IH chats_create_stream_loop)
    have "chats identified (identify_create_stream_client n req sid (s1, i))" for req
      unfolding identify_create_stream_client_def
      by (rule chats_then, rule talks_respond_create [OF s1(1)], rule go(2))
    moreover have "chats identified (bindP (on_session (respond_call call)) (\<lambda>_. identify_loop n sid) (s1, i))" for call
      by (rule chats_then, rule talks_respond_call [OF s1(1)], rule go(1))
    moreover note go(1) [OF s1(1) refl]
      chats_identify_publish [OF s1(1)] chats_identify_simple [OF s1(1)]
    ultimately show "chats identified ((case pkt of
        Some (CreateStream req) \<Rightarrow> identify_create_stream_client n req sid
      | Some (FMLEStart req) \<Rightarrow> identify_fmle_publish_client req
      | Some (Play req) \<Rightarrow> identify_play_client req
      | Some (Call call) \<Rightarrow> bindP (on_session (respond_call call)) (\<lambda>_. identify_loop n sid)
      | _ \<Rightarrow> identify_loop n sid) (s1, i))"
      by (auto split: option.split packet.split)
  qed
qed

lemma chats_identify_client:
  "dialogue_inv s \<Longrightarrow> chats identified (identify_client sid (s, i))"
  unfolding identify_client_def set_identity_def bindP_eqs prod.case by (rule chats_identify_loop) simp_all

subsection \<open>Connecting\<close>

lemma bind_post:
  assumes "\<And>e s'. m s = (Inl e, s') \<Longrightarrow> P (Inl e, s')" and "\<And>x s'. m s = (Inr x, s') \<Longrightarrow> P (f x s')"
  shows "P (bindP m f s)"
proof (cases "m s")
  case (Pair r s')
  with assms show ?thesis by (cases r) (simp_all add: bindP_def)
qed

lemma get_str_ok: "\<exists>v. get_str name ps = Inr v"
proof (cases "ht_ensure_property_string name ps")
  case (Some a)
  then have "is_string a" by (auto simp: ht_ensure_property_string_def split: option.splits if_splits)
  with Some show ?thesis by (cases a) (simp_all add: get_str_def is_string_def)
qed (simp add: get_str_def)

lemma get_num_ok: "\<exists>v. get_num name ps = Inr v"
proof (cases "ht_ensure_property_number name ps")
  case (Some a)
  then have "is_number a" by (auto simp: ht_ensure_property_number_def split: option.splits if_splits)
  with Some show ?thesis by (cases a) (simp_all add: get_num_def is_number_def)
qed (simp add: get_num_def)

lemma copy_args_ok: "\<exists>v. copy_args args = Inr v"
  by (cases args) (simp_all add: copy_args_def)

lemma replace_question: "CHR ''?'' \<notin> set old \<Longrightarrow> old \<noteq> [] \<Longrightarrow> \<exists>v. srs_string_replace str old ''?'' = Inr v"
  by (rule replace_ends) (auto simp: sublist_Cons_right prefix_Cons)

lemma vhost_resolve_ok: "\<exists>v. srs_vhost_resolve vhost app param = Inr v"
proof -
  obtain a1 where [simp]: "srs_string_replace app '','' ''?'' = Inr a1" using replace_question [of "'',''"] by auto
  obtain a2 where [simp]: "srs_string_replace a1 ''...'' ''?'' = Inr a2" using replace_question [of "''...''"] by auto
  obtain a3 where [simp]: "srs_string_replace a2 ''&&'' ''?'' = Inr a3" using replace_question [of "''&&''"] by auto
  obtain a4 where [simp]: "srs_string_replace a3 ''='' ''?'' = Inr a4" using replace_question [of "''=''"] by auto
  show ?thesis by (simp add: srs_vhost_resolve_def Let_def split: option.split)
qed

lemma atoi_errors: "c_atoi s = Inl e \<Longrightarrow> e = UNDEFINED_BEHAVIOUR"
  by (auto simp: c_atoi_def Let_def split: if_splits)

lemma discovery_errors: "srs_discovery_tc_url url t = Inl e \<Longrightarrow> e = UNDEFINED_BEHAVIOUR"
proof -
  have h: "srs_parse_hostport h p = Inl e \<Longrightarrow> e = UNDEFINED_BEHAVIOUR" for h p
    by (auto simp: srs_parse_hostport_def bindR_def split: option.splits sum.splits dest: atoi_errors)
  have v: "srs_vhost_resolve vhost app param \<noteq> Inl e" for vhost app param
    using vhost_resolve_ok [of vhost app param] by auto
  show "srs_discovery_tc_url url t = Inl e \<Longrightarrow> e = UNDEFINED_BEHAVIOUR"
    using h v by (auto simp: srs_discovery_tc_url_def bindR_def Let_def split: option.splits sum.splits prod.splits if_splits)
qed

text \<open>C27: Whatever the client sends, reading its \<^verbatim>\<open>connect\<close> ends, with a session that can go on. No
  assertion fails and nothing is read outside of an array. What remains is the number behind the
  colon of the address, which is undefined exactly when it is no \<^verbatim>\<open>int\<close>.
\<close>

theorem connect_app_safe:
  assumes "dialogue_inv s"
  shows "case server_connect_app (s, r) of
      (Inr _, (s', r')) \<Rightarrow> dialogue_inv s'
    | (Inl e, (s', r')) \<Rightarrow> dialogue_inv s' \<and> (e \<notin> faults \<or>
        (e = UNDEFINED_BEHAVIOUR \<and> srs_discovery_tc_url (rq_tcUrl r') (rq_url r') = Inl e))"
    (is "?P (server_connect_app (s, r))")
  unfolding server_connect_app_def
proof (rule bind_post)
  have c: "chats (\<lambda>a (s', x'). shorter s a s' \<and> x' = r) (on_session (expect_message as_connect_app) (s, r))"
    by (rule chats_session [where Q = "shorter s"], rule talks_expect [OF assms])
  show "?P (Inl e, x)" if "on_session (expect_message as_connect_app) (s, r) = (Inl e, x)" for e x
    using c that by (auto simp: keeps_def)
  fix msg_pkt x assume x: "on_session (expect_message as_connect_app) (s, r) = (Inr msg_pkt, x)"
  obtain msg pkt where [simp]: "msg_pkt = (msg, pkt)" by fastforce
  obtain s1 where [simp]: "x = (s1, r)" and s1: "dialogue_inv s1" using c x by (auto simp: keeps_def)
  obtain v1 v2 v3 v4 v5 where [simp]: "get_str ''tcUrl'' (ca_command_object pkt) = Inr v1"
    "get_str ''pageUrl'' (ca_command_object pkt) = Inr v2" "get_str ''swfUrl'' (ca_command_object pkt) = Inr v3"
    "get_num ''objectEncoding'' (ca_command_object pkt) = Inr v4" "copy_args (ca_args pkt) = Inr v5"
    using get_str_ok get_num_ok copy_args_ok by meson
  have "ERROR_RTMP_REQ_CONNECT \<notin> faults" by (simp add: faults_def)
  then show "?P ((case msg_pkt of (msg, pkt) \<Rightarrow> bindP (liftR (get_str ''tcUrl'' (ca_command_object pkt)))
     (\<lambda>tcUrl. bindP (checkP (tcUrl \<noteq> None) ERROR_RTMP_REQ_CONNECT)
     (\<lambda>_. bindP (set_opt (\<lambda>v r. r\<lparr>rq_tcUrl := v\<rparr>) tcUrl)
     (\<lambda>_. bindP (liftR (get_str ''pageUrl'' (ca_command_object pkt)))
     (\<lambda>v. bindP (set_opt (\<lambda>v r. r\<lparr>rq_pageUrl := v\<rparr>) v)
     (\<lambda>_. bindP (liftR (get_str ''swfUrl'' (ca_command_object pkt)))
     (\<lambda>v. bindP (set_opt (\<lambda>v r. r\<lparr>rq_swfUrl := v\<rparr>) v)
     (\<lambda>_. bindP (liftR (get_num ''objectEncoding'' (ca_command_object pkt)))
     (\<lambda>v. bindP (set_opt (\<lambda>v r. r\<lparr>rq_objectEncoding := v\<rparr>) v)
     (\<lambda>_. bindP (liftR (copy_args (ca_args pkt)))
     (\<lambda>args. bindP (set_opt (\<lambda>ps r. r\<lparr>rq_args := Some ps\<rparr>) args)
     (\<lambda>_. bindP (getP snd)
     (\<lambda>r. bindP (liftR (srs_discovery_tc_url (rq_tcUrl r) (rq_url r)))
     (\<lambda>u. modifyP (\<lambda>(s, r). (s, request_strip (r\<lparr>rq_url := u\<rparr>))))))))))))))))) x)"
    using s1 discovery_errors
    by (simp add: bind_liftR set_opt_def bindP_eqs prog_eqs split: sum.split)
qed

theorem connect_app_safe_witness:
  "let s = protocol_new [Arrives [2, 0, 0], Fails ERROR_SOCKET_TIMEOUT] [] (\<lambda>_. 0) in
   case server_connect_app (s, request_new) of
      (Inr _, (s', r')) \<Rightarrow> dialogue_inv s'
    | (Inl e, (s', r')) \<Rightarrow> dialogue_inv s' \<and> (e \<notin> faults \<or>
        (e = UNDEFINED_BEHAVIOUR \<and> srs_discovery_tc_url (rq_tcUrl r') (rq_url r') = Inl e))"
  unfolding Let_def
  by (rule connect_app_safe)
    (simp add: dialogue_inv_def session_inv_new honest_def faults_def, simp add: protocol_new_def net_errors_def)

subsection \<open>Who the client is\<close>

text \<open>C5: Whatever the client sends, finding out what it wants ends: either with a client that
  plays or publishes, or with an error that is no fault of the code (a failed assertion, an access out of
  bounds, an endless loop). Each round takes bytes of the input, so the number of bytes that can
  still come bounds the rounds of both loops, also when the client creates stream after stream.
  The session can go on afterwards. (The code calls itself for each stream that the client creates; how deep
  its stack may get is outside of the model.)\<close>

theorem identify_client_total:
  assumes "dialogue_inv s"
  shows "case identify_client stream_id (s, i) of
      (Inr _, (s', i')) \<Rightarrow> dialogue_inv s' \<and> id_type i' \<noteq> SrsRtmpConnUnknown
    | (Inl e, (s', i')) \<Rightarrow> dialogue_inv s' \<and> e \<notin> {ASSERT_FAILED, UNDEFINED_BEHAVIOUR, OUT_OF_FUEL}"
  using chats_identify_client [OF assms, of stream_id i]
  by (auto simp: keeps_def faults_def split: sum.splits)

lemma dialogue_inv_new:
  assumes "\<forall>bs. Arrives bs \<in> set es \<longrightarrow> bs \<noteq> []" and "\<forall>e \<in> faults. Fails e \<notin> set es \<and> Some e \<notin> set plan"
  shows "dialogue_inv (protocol_new es plan junk)"
  using assms session_inv_new [OF assms(1)]
  by (auto simp: dialogue_inv_def honest_def protocol_new_def net_errors_def faults_def)

theorem identify_client_total_witness:
  "let s = protocol_new [Arrives [2, 0, 0], Fails ERROR_SOCKET_TIMEOUT] [] (\<lambda>_. 0);
       i = \<lparr>id_type = SrsRtmpConnUnknown, id_stream_name = [], id_duration = 0\<rparr> in
   case identify_client 1 (s, i) of
      (Inr _, (s', i')) \<Rightarrow> dialogue_inv s' \<and> id_type i' \<noteq> SrsRtmpConnUnknown
    | (Inl e, (s', i')) \<Rightarrow> dialogue_inv s' \<and> e \<notin> {ASSERT_FAILED, UNDEFINED_BEHAVIOUR, OUT_OF_FUEL}"
  unfolding Let_def by (rule identify_client_total, rule dialogue_inv_new) (simp_all add: faults_def)

subsection \<open>Playing and publishing\<close>

abbreviation anything :: "'a \<Rightarrow> protocol \<Rightarrow> bool" where
  "anything \<equiv> \<lambda>_ _. True"

lemma talks_send_any: "dialogue_inv s \<Longrightarrow> chunk_fine p \<Longrightarrow> talks anything (send_and_free_packet p sid s)"
  by (rule talks_mono, rule talks_send) simp_all

lemma talks_expect_any: "dialogue_inv s \<Longrightarrow> talks anything (expect_message sel s)"
  by (rule talks_mono, rule talks_expect) simp_all

lemma talks_step: "talks anything (m s) \<Longrightarrow> (\<And>x s'. dialogue_inv s' \<Longrightarrow> talks R (f x s')) \<Longrightarrow> talks R (bindP m f s)"
  by (rule keeps_bind)

lemmas talks_intros = talks_step talks_send_any talks_expect_any

lemma chunk_fine_status [simp]: "chunk_fine (status_packet c kvs)" "chunk_fine (stream_event e sid)"
  "chunk_fine (publish_started ! 0)" "chunk_fine (publish_started ! 1)" "chunk_fine (publish_started ! Suc 0)"
  by (simp_all add: chunk_fine_def status_packet_def stream_event_def publish_started_def)

lemma chunk_fine_others [simp]:
  "chunk_fine (ConnectApp p1)" "chunk_fine (ConnectAppRes p2)" "chunk_fine (FMLEStart p3)" "chunk_fine (FMLEStartRes p4)"
  "chunk_fine (CreateStream p5)" "chunk_fine (CreateStreamRes p6)" "chunk_fine (Play p7)" "chunk_fine (Publish p8)"
  "chunk_fine (SetWindowAckSize p9)" "chunk_fine (SetPeerBandwidth p10)" "chunk_fine (UserControl p11)"
  "chunk_fine (OnBWDone p12)" "chunk_fine (SampleAccess p13)" "chunk_fine (OnStatusData p14)"
  by (simp_all add: chunk_fine_def)

lemma talks_server:
  assumes "dialogue_inv s"
  shows "talks anything (server_set_window_ack_size a s)" "talks anything (server_set_peer_bandwidth b t s)"
    "1 \<le> sint c \<Longrightarrow> talks anything (server_set_chunk_size c s)"
    "talks anything (server_response_connect_app req ip pid cid s)"
    "talks anything (server_on_bw_done s)" "talks anything (server_start_play sid s)"
    "talks anything (server_on_play_client_pause sid pause s)" "talks anything (server_start_haivision_publish sid s)"
    "talks anything (server_start_fmle_publish stream_id s)" "talks anything (server_fmle_unpublish sid tid s)"
    "talks anything (server_start_flash_publish sid s)"
  using assms
  by (auto simp: server_set_window_ack_size_def server_set_peer_bandwidth_def server_set_chunk_size_def
      server_response_connect_app_def server_on_bw_done_def server_start_play_def server_on_play_client_pause_def
      server_start_haivision_publish_def server_start_fmle_publish_def server_fmle_unpublish_def
      server_start_flash_publish_def respond_create_stream_def chunk_fine_def [of "SetChunkSize p" for p] intro!: talks_intros)

text \<open>An error that is dropped, if it is no fault.\<close>

lemma talks_cases:
  assumes "talks anything r"
  obtains (error) e s' where "r = (Inl e, s')" "e \<notin> faults" "dialogue_inv s'"
  | (result) x s' where "r = (Inr x, s')" "dialogue_inv s'"
  using assms by (cases r; cases "fst r") (auto simp: keeps_def)

lemma talks_reject:
  assumes "dialogue_inv s"
  shows "talks anything (server_response_connect_reject desc s)"
proof -
  have "talks anything (send_and_free_packet (status_packet RTMP_AMF0_COMMAND_ON_STATUS
        [(''level'', amf0_str ''error''), (''code'', amf0_str ''NetConnection.Connect.Rejected''),
         (''description'', amf0_str desc)]) 0 s)"
    using assms by (intro talks_send_any) simp_all
  then show ?thesis
    unfolding server_response_connect_reject_def by (rule talks_cases) (simp_all add: keeps_def faults_def)
qed

lemma talks_redirect:
  assumes "dialogue_inv s"
  shows "talks anything (server_redirect r host port accepted s)"
  unfolding server_redirect_def
proof (rule talks_step, rule talks_send_any [OF assms])
  fix u s1 assume s1: "dialogue_inv s1"
  have v: "is_string v \<Longrightarrow> \<exists>x. to_str v = Inr x" for v by (cases v) (simp_all add: is_string_def)
  from talks_expect_any [OF s1, of as_call]
  show "talks anything (case expect_message as_call s1 of
        (Inl e, s) \<Rightarrow> (if e \<in> {ASSERT_FAILED, UNDEFINED_BEHAVIOUR, OUT_OF_FUEL} then Inl e else Inr accepted, s)
      | (Inr (msg, pkt), s) \<Rightarrow> (case cp_arguments pkt of
          Some v \<Rightarrow> (if is_string v then bindR (to_str v) (\<lambda>_. Inr True) else Inr accepted, s)
        | None \<Rightarrow> (Inr accepted, s)))"
  proof (cases rule: talks_cases)
    case (error e s')
    then show ?thesis by (simp add: keeps_def faults_def)
  next
    case (result x s')
    obtain msg pkt where x: "x = (msg, pkt)" by fastforce
    show ?thesis
    proof (cases "cp_arguments pkt")
      case None
      with result x show ?thesis by (simp add: keeps_def)
    next
      case (Some v)
      with result x v [of v] show ?thesis by (auto simp: keeps_def)
    qed
  qed
qed simp

section \<open>The client\<close>

text \<open>What the server says is converted without a check: ids, and the numbers of the version.\<close>

definition conversion_fault :: "srs_error \<Rightarrow> bool" where
  "conversion_fault e \<longleftrightarrow> e \<in> faults \<longrightarrow> e = UNDEFINED_BEHAVIOUR"

abbreviation asks :: "'a res \<times> protocol \<Rightarrow> bool" where
  "asks \<equiv> keeps dialogue_inv conversion_fault (\<lambda>_ _. True)"

lemma asks_talks: "talks anything r \<Longrightarrow> asks r"
  by (erule keeps_mono) (simp_all add: conversion_fault_def)

lemma asks_step: "talks anything (m s) \<Longrightarrow> (\<And>x s'. dialogue_inv s' \<Longrightarrow> asks (f x s')) \<Longrightarrow> asks (bindP m f s)"
  by (rule keeps_bind, rule asks_talks)

lemma asks_bind: "asks (m s) \<Longrightarrow> (\<And>x s'. dialogue_inv s' \<Longrightarrow> asks (f x s')) \<Longrightarrow> asks (bindP m f s)"
  by (rule keeps_bind)

lemma asks_lift: "dialogue_inv s \<Longrightarrow> (\<And>e. r = Inl e \<Longrightarrow> e = UNDEFINED_BEHAVIOUR) \<Longrightarrow> asks (liftR r s)"
  by (cases r) (auto simp: keeps_def liftR_def conversion_fault_def)

lemma asks_return: "dialogue_inv s \<Longrightarrow> asks (returnP x s)"
  by (simp add: keeps_def prog_eqs)

lemma dbl_to_int_errors: "dbl_to_int d = Inl e \<Longrightarrow> e = UNDEFINED_BEHAVIOUR"
  by (auto simp: dbl_to_int_def Let_def split: if_splits)

lemma set_version_errors: "set_version vs si = Inl e \<Longrightarrow> e = UNDEFINED_BEHAVIOUR"
  by (auto simp: set_version_def bindR_def Let_def split: if_splits sum.splits dest: atoi_errors)

lemma split_ok: "flag \<noteq> [] \<Longrightarrow> \<exists>r. srs_string_split s flag = Inr r"
proof (induction s flag rule: srs_string_split.induct)
  case (1 s flag)
  show ?case
  proof (cases "str_find flag 0 s")
    case None
    then show ?thesis by (simp add: srs_string_split.simps [of s])
  next
    case (Some pos)
    from 1(1) [OF this 1(2) 1(2)] Some 1(2) show ?thesis by (auto simp: srs_string_split.simps [of s])
  qed
qed

lemma read_str_errors:
  assumes "\<And>v si e. f v si = Inl e \<Longrightarrow> e = UNDEFINED_BEHAVIOUR" and "read_str name ps f si = Inl e"
  shows "e = UNDEFINED_BEHAVIOUR"
proof (cases "ht_ensure_property_string name ps")
  case (Some a)
  then have "is_string a" by (auto simp: ht_ensure_property_string_def split: option.splits if_splits)
  with Some assms show ?thesis by (cases a) (auto simp: read_str_def is_string_def)
qed (use assms in \<open>simp add: read_str_def\<close>)

lemma read_num_errors:
  assumes "read_num name ps f si = Inl e"
  shows "e = UNDEFINED_BEHAVIOUR"
proof (cases "ht_ensure_property_number name ps")
  case (Some a)
  then have "is_number a" by (auto simp: ht_ensure_property_number_def split: option.splits if_splits)
  with Some assms show ?thesis
    by (cases a) (auto simp: read_num_def is_number_def bindR_def split: sum.splits dest: dbl_to_int_errors)
qed (use assms in \<open>simp add: read_num_def\<close>)

lemma bindR_errors:
  assumes "bindR m f = Inl e" and "\<And>e. m = Inl e \<Longrightarrow> P e" and "\<And>x e. f x = Inl e \<Longrightarrow> P e"
  shows "P e"
  using assms by (cases m) auto

lemma read_version_errors:
  "bindR (srs_string_split v ''.'') (\<lambda>versions. set_version versions si) = Inl e \<Longrightarrow> e = UNDEFINED_BEHAVIOUR"
  using split_ok [of "''.''" v] by (auto dest: set_version_errors)

lemma read_server_info_errors:
  assumes "read_server_info info si = Inl e"
  shows "e = UNDEFINED_BEHAVIOUR"
proof (cases "ht_get_property ''data'' info")
  case None
  with assms show ?thesis by (simp add: read_server_info_def)
next
  case (Some data)
  show ?thesis
  proof (cases "is_ecma_array data")
    case False
    with Some assms show ?thesis by (simp add: read_server_info_def)
  next
    case True
    then obtain n arr where d: "to_ecma_array data = Inr (n, arr)" by (cases data) (simp_all add: is_ecma_array_def)
    from assms have "bindR (read_str ''srs_server_ip'' arr (\<lambda>v si. Inr (si\<lparr>si_ip := v\<rparr>)) si)
         (\<lambda>si. bindR (read_str ''srs_server'' arr (\<lambda>v si. Inr (si\<lparr>si_sig := v\<rparr>)) si)
         (\<lambda>si. bindR (read_num ''srs_id'' arr (\<lambda>v si. si\<lparr>si_cid := v\<rparr>) si)
         (\<lambda>si. bindR (read_num ''srs_pid'' arr (\<lambda>v si. si\<lparr>si_pid := v\<rparr>) si)
         (\<lambda>si. read_str ''srs_version'' arr
            (\<lambda>v si. bindR (srs_string_split v ''.'') (\<lambda>versions. set_version versions si)) si)))) = Inl e"
      by (simp add: read_server_info_def Some True d)
    then show ?thesis
      by (elim bindR_errors read_num_errors) (erule read_str_errors [rotated], erule read_version_errors | erule read_str_errors [rotated], simp)+
  qed
qed

lemma asks_expect_stream_id: "dialogue_inv s \<Longrightarrow> asks (expect_stream_id s)"
  unfolding expect_stream_id_def
  by (rule asks_step, rule talks_expect_any, assumption) (auto intro: asks_lift dest: dbl_to_int_errors)

lemma asks_send: "dialogue_inv s \<Longrightarrow> chunk_fine p \<Longrightarrow> asks (send_and_free_packet p sid s)"
  by (rule asks_talks, rule talks_send_any)

lemmas asks_intros = asks_bind asks_send asks_talks [OF talks_expect_any] asks_expect_stream_id asks_return

lemma asks_create_stream: "dialogue_inv s \<Longrightarrow> asks (client_create_stream s)"
  unfolding client_create_stream_def by (intro asks_intros) simp_all

lemma connect_packet_ok: "\<exists>p. connect_packet app tcUrl r dsu = Inr (ConnectApp p)"
  using copy_args_ok [of "Option.bind r rq_args"] by (auto simp: connect_packet_def)

lemma asks_connect_app:
  assumes "dialogue_inv s"
  shows "asks (client_connect_app app tcUrl r dsu si s)"
proof -
  obtain p where p: "connect_packet app tcUrl r dsu = Inr (ConnectApp p)" using connect_packet_ok by blast
  show ?thesis
    unfolding client_connect_app_def p bind_liftR sum.case
  proof (rule asks_bind, rule asks_send [OF assms], simp, rule asks_bind, rule asks_send, assumption, simp,
      rule asks_bind, rule asks_talks, rule talks_expect_any, assumption)
    fix s1 y assume s1: "dialogue_inv s1"
    have "asks (bindP (liftR (read_server_info i x)) (\<lambda>si. returnP (Some si)) s1)" for i x
      by (intro asks_intros asks_lift s1) (rule read_server_info_errors)
    from s1 this [unfolded bind_liftR] show "asks ((case y of (msg, pkt) \<Rightarrow> case si of
        None \<Rightarrow> returnP None
      | Some si \<Rightarrow> (\<lambda>s. case read_server_info (car_info pkt) si of
          Inl e \<Rightarrow> (Inl e, s) | Inr si \<Rightarrow> returnP (Some si) s)) s1)"
      by (auto split: option.split prod.split intro: asks_return)
  qed
qed

lemma chunk_fine_client [simp]: "chunk_fine (SetChunkSize \<lparr>scs_chunk_size = SRS_CONSTS_RTMP_SRS_CHUNK_SIZE\<rparr>)"
  by (simp add: chunk_fine_def)

lemma asks_client:
  assumes "dialogue_inv s"
  shows "asks (client_play stream sid s)" and "asks (client_publish stream sid s)"
    and "asks (client_fmle_publish stream s)"
proof -
  show "asks (client_play stream sid s)"
    unfolding client_play_def by (intro asks_intros assms) simp_all
  show "asks (client_publish stream sid s)"
    unfolding client_publish_def by (intro asks_intros assms) simp_all
  show "asks (client_fmle_publish stream s)"
    unfolding client_fmle_publish_def by (intro asks_intros assms) simp_all
qed

text \<open>Whatever the server answers, every dialogue of the client ends, with a session that can
  go on. The only fault that is left is a number of the server that is no \<^verbatim>\<open>int\<close>: the id of a
  stream, or the ids and the version that it gives of itself.\<close>

lemma client_dialogues_end:
  assumes "dialogue_inv s"
  shows "asks (client_connect_app app tcUrl r dsu si s) \<and> asks (client_create_stream s)
    \<and> asks (client_play stream sid s) \<and> asks (client_publish stream sid s) \<and> asks (client_fmle_publish stream s)"
  using assms by (simp add: asks_connect_app asks_create_stream asks_client)

end
