(* ===== verification/Srs_Rtmp_Dialogue.thy ===== *)
theory Srs_Rtmp_Dialogue
  imports Srs_Dialogue_Safety
begin

text \<open>
  The two ends together: the client and the server of this program understand each other.
\<close>

section \<open>Numbers\<close>

lemma floor_log_bounds: "0 < n \<Longrightarrow> 2 ^ floor_log n \<le> n \<and> n < 2 ^ Suc (floor_log n)"
proof (induction n rule: floor_log.induct)
  case (1 n)
  show ?case
  proof (cases "n < 2")
    case True
    with 1(2) show ?thesis by (simp add: floor_log.simps [of n])
  next
    case False
    then have "0 < n div 2" by simp
    define x :: nat where "x = 2 ^ floor_log (n div 2)"
    from 1(1) [OF False \<open>0 < n div 2\<close>] have "x \<le> n div 2" "n div 2 < 2 * x" by (simp_all add: x_def)
    then have "2 * x \<le> n" "n < 2 * (2 * x)" by presburger+
    then have "2 * 2 ^ floor_log (n div 2) \<le> n" "n < 2 * (2 * 2 ^ floor_log (n div 2))"
      by (simp_all add: x_def)
    with False show ?thesis by (simp add: floor_log.simps [of n])
  qed
qed

lemma floor_log_less:
  assumes "0 < n" and "n < 2 ^ k"
  shows "floor_log n < k"
proof (rule power_less_imp_less_exp)
  show "(2::nat) ^ floor_log n < 2 ^ k" using floor_log_bounds [OF assms(1)] assms(2) by linarith
qed simp

text \<open>Every \<^verbatim>\<open>int\<close> comes back from a \<^verbatim>\<open>double\<close> as it was.\<close>

lemma dbl_int_roundtrip:
  assumes "- (2 ^ 31) \<le> n" and "n < 2 ^ 31"
  shows "dbl_to_int (dbl_of_int n) = Inr n"
proof (cases "n = 0")
  case True
  then show ?thesis by (simp add: dbl_of_int_def dbl_to_int_def)
next
  case False
  define m where "m = \<bar>n\<bar>"
  define e where "e = floor_log (nat m)"
  define b :: int where "b = (if n < 0 then 2 ^ 63 else 0) + int (1023 + e) * 2 ^ 52 + (m * 2 ^ (52 - e) - 2 ^ 52)"
  have m: "0 < m" "m \<le> 2 ^ 31" using assms False by (auto simp: m_def)
  have e: "e < 32"
    unfolding e_def by (rule floor_log_less) (use m in \<open>simp_all add: nat_less_iff\<close>)
  have lo: "2 ^ e \<le> m" and hi: "m < 2 ^ Suc e"
  proof -
    have "2 ^ e \<le> nat m \<and> nat m < 2 ^ Suc e" using floor_log_bounds [of "nat m"] m(1) by (simp add: e_def)
    then have "int (2 ^ e) \<le> m" "m < int (2 ^ Suc e)" using m(1) by linarith+
    then show "2 ^ e \<le> m" and "m < 2 ^ Suc e" by simp_all
  qed
  define p where "p = (2::int) ^ (52 - e)"
  have p: "2 ^ e * p = 2 ^ 52" "0 < p" using e by (simp_all add: p_def flip: power_add)
  have f: "2 ^ 52 \<le> m * p" "m * p < 2 ^ 53"
    using mult_right_mono [OF lo, of p] mult_strict_right_mono [OF hi, of p] p by (simp_all add: mult.assoc)
  define f where "f = m * p - 2 ^ 52"
  define sx where "sx = (if n < 0 then 2048 else 0) + (1023 + int e)"
  have f': "0 \<le> f" "f < 2 ^ 52" using f by (simp_all add: f_def)
  have bs: "b = sx * 2 ^ 52 + f" by (simp add: b_def sx_def f_def p_def algebra_simps)
  have bd: "b div 2 ^ 52 = sx" "b mod 2 ^ 52 = f" unfolding bs using f' by simp_all
  have br: "0 \<le> b" "b < 2 ^ 64" "b \<ge> 2 ^ 63 \<longleftrightarrow> n < 0"
    using f' e unfolding bs sx_def by auto
  have "dbl_of_int n = word_of_int b"
    using False by (simp only: dbl_of_int_def Let_def m_def [symmetric] e_def [symmetric] b_def if_False)
  then have u: "uint (dbl_of_int n) = b"
    using br by (simp only: uint_word_of_int) simp
  have "(2048 + (1023 + int e)) mod 2048 = (1023 + int e) mod 2048" by (rule mod_add_self1)
  then have ex: "sx mod 2048 = 1023 + int e" using e by (simp add: sx_def)
  have q: "nat (1075 - (1023 + int e)) = 52 - e" using e by simp
  have v: "(2 ^ 52 + f) div 2 ^ (52 - e) = m" using p by (simp add: f_def p_def)
  show ?thesis
    unfolding dbl_to_int_def Let_def u bd ex q v br(3)
    using e assms by (auto simp: m_def)
qed

section \<open>Speaking and listening\<close>

text \<open>
  A session that reads chunks of \<open>n\<close> bytes and writes chunks of \<open>k\<close>, has nothing to catch up on
  and agreed on no window.
\<close>

definition talking :: "nat \<Rightarrow> nat \<Rightarrow> protocol \<Rightarrow> bool" where
  "talking n k s \<longleftrightarrow> in_sync n s \<and> pr_manual_response_queue s = [] \<and> sint (pr_out_chunk_size s) = int k
     \<and> 0 < k \<and> aw_window (pr_in_ack_size s) = 0 \<and> requests_ok (pr_requests s)"

fun requests_after :: "packet \<Rightarrow> (double \<times> string) list \<Rightarrow> (double \<times> string) list" where
  "requests_after (ConnectApp pkt) reqs = requests_set (ca_transaction_id pkt) (ca_command_name pkt) reqs"
| "requests_after (CreateStream pkt) reqs = requests_set (crs_transaction_id pkt) (crs_command_name pkt) reqs"
| "requests_after (FMLEStart pkt) reqs = requests_set (fml_transaction_id pkt) (fml_command_name pkt) reqs"
| "requests_after _ reqs = reqs"

text \<open>The packets of the dialogues: commands and their answers.\<close>

fun says :: "packet \<Rightarrow> bool" where
  "says (CreateStream pkt) \<longleftrightarrow> \<not> dbl_nan (crs_transaction_id pkt)"
| "says (FMLEStart pkt) \<longleftrightarrow> \<not> dbl_nan (fml_transaction_id pkt)"
| "says (CreateStreamRes pkt) \<longleftrightarrow> True"
| "says (FMLEStartRes pkt) \<longleftrightarrow> True"
| "says (Publish pkt) \<longleftrightarrow> True"
| "says (Play pkt) \<longleftrightarrow> True"
| "says (OnStatusCall pkt) \<longleftrightarrow> True"
| "says _ \<longleftrightarrow> False"

lemma says_facts:
  assumes "says p"
  shows "encodable p" and "get_message_type p = RTMP_MSG_AMF0CommandMessage" and "received p = (\<lambda>s. (Inr (), s))"
    and "next_chunk n p = n"
  using assms by (cases p; simp add: next_chunk_def)+

lemma tell:
  assumes "talking n k s" and "says p"
  obtains s' where "send_and_free_packet p sid s = (Inr (), s')" "talking n k s'" "cr_in s' = cr_in s"
    "os_sent (pr_skt s') = os_sent (pr_skt s) @ wire p sid k"
    "pr_requests s' = requests_after p (pr_requests s)"
proof -
  from assms(1) have s: "in_sync n s" "pr_manual_response_queue s = []" "sint (pr_out_chunk_size s) = int k" "0 < k"
      "aw_window (pr_in_ack_size s) = 0" "requests_ok (pr_requests s)"
    by (simp_all add: talking_def)
  have out: "1 \<le> sint (pr_out_chunk_size s)" using s(3,4) by simp
  have plan: "os_plan (pr_skt s) = []" using s(1) by (simp add: in_sync_def)
  show thesis
  proof (cases rule: send_packet_cases [OF says_facts(1) [OF assms(2)] out, of sid])
    case (1 o')
    let ?s = "sent_effect p (s\<lparr>pr_skt := o'\<rparr>)"
    have f: "pr_skt ?s = o'" "pr_manual_response_queue ?s = []" "cr_in ?s = cr_in s"
      "pr_out_chunk_size ?s = pr_out_chunk_size s" "aw_window (pr_in_ack_size ?s) = 0"
      "pr_requests ?s = requests_after p (pr_requests s)"
      "cr_chunk_streams ?s = cr_chunk_streams s" "cr_cs_cache ?s = cr_cs_cache s"
      "cr_in_chunk_size ?s = cr_in_chunk_size s"
      using assms(2) s by (cases p; simp)+
    have "send_and_free_packet p sid s = (Inr (), ?s)"
      using 1(1) f(2) by (simp add: send_and_free_packet_def bindP_def manual_response_flush_def prog_eqs)
    moreover have "in_sync n ?s"
      using s(1) 1(2) plan f
      by (simp add: in_sync_def reader_ok_def session_inv_def reader_inv_def chunk_find_def cong: if_cong)
    moreover have "requests_ok (requests_after p (pr_requests s))"
      using assms(2) s(6) by (cases p) (simp_all add: requests_ok_set)
    ultimately show thesis
      using that [of ?s] 1(3) f s by (simp add: talking_def)
  next
    case (2 e o')
    with plan show thesis by simp
  qed
qed

lemma hear:
  assumes "talking n k s" and "says p" and "speakable (pr_requests s) p" and "avail (cr_in s) = wire p sid n @ rest"
  obtains msg s' where "recv_message s = (Inr msg, s')" "decode_message (pr_requests s') msg = Inr (Some p)"
    "carries p msg" "talking n k s'" "avail (cr_in s') = rest" "pr_skt s' = pr_skt s" "pr_requests s' = pr_requests s"
    "todo (cr_in s') < todo (cr_in s)"
proof -
  from assms(1) have s: "in_sync n s" "aw_window (pr_in_ack_size s) = 0" by (simp_all add: talking_def)
  have u: "understood (pr_requests s) p" and l: "length (packet_enc p) < 16777216"
    using assms(3) by (simp_all add: speakable_def)
  have n: "0 < n" "int n \<le> SRS_DEFAULT_RECV_BUFFER_SIZE" "reader_ok n idle s" "session_inv s"
    using s by (simp_all add: in_sync_def)
  obtain msg s1 where run: "recv_message s = bindP (on_recv_message msg) (\<lambda>_. returnP msg) s1"
      and c: "carries p msg" and s1: "reader_ok n idle s1" "avail (cr_in s1) = rest" "session_inv s1"
        "chunk_reader.more s1 = chunk_reader.more s"
    using recv_message_wire [OF n(3,4,1,2) says_facts(1) [OF assms(2)] l assms(4)] by blast
  note same = protocol_more [OF s1(4)]
  have out: "1 \<le> sint (pr_out_chunk_size s1)" using s1(3) by (simp add: session_inv_def)
  have u1: "understood (pr_requests s1) p" using u same by simp
  have "response_acknowledgement_message s1 = (Inr (), s1)"
    using s(2) same by (simp add: response_acknowledgement_message_def prog_simps ack_due_def)
  then have r: "recv_message s = (Inr msg, s1)"
    by (simp add: run on_recv_carried [OF c u1 out] bindP_def returnP_def says_facts(3) [OF assms(2)])
  have "todo (cr_in s1) < todo (cr_in s)"
    using recv_loop_safe [OF n(4), of "Suc (todo (cr_in s))"] r by (simp add: recv_message_def)
  moreover have "talking n k s1"
    using assms(1) same s1 by (simp add: talking_def in_sync_def)
  ultimately show thesis
    using that [OF r decode_carried [OF u1 c] c] same s1(2) by simp
qed

lemma expect_loop_hear:
  "talking n k s \<Longrightarrow> \<forall>q \<in> set qs. says q \<and> speakable (pr_requests s) q \<and> sel q = None \<Longrightarrow>
   says p \<Longrightarrow> speakable (pr_requests s) p \<Longrightarrow> sel p = Some x \<Longrightarrow>
   avail (cr_in s) = wire_all n sid (qs @ [p]) @ rest \<Longrightarrow> todo (cr_in s) < fuel \<Longrightarrow>
   \<exists>msg s'. expect_loop fuel sel s = (Inr (msg, x), s') \<and> talking n k s' \<and> avail (cr_in s') = rest
     \<and> pr_skt s' = pr_skt s \<and> pr_requests s' = pr_requests s"
proof (induction qs arbitrary: s fuel)
  case Nil
  have av: "avail (cr_in s) = wire p sid n @ rest" using Nil.prems(6) by simp
  obtain msg s' where h: "recv_message s = (Inr msg, s')" "decode_message (pr_requests s') msg = Inr (Some p)"
    "talking n k s'" "avail (cr_in s') = rest" "pr_skt s' = pr_skt s" "pr_requests s' = pr_requests s"
    using hear [OF Nil.prems(1,3,4) av] by metis
  from Nil.prems(7) obtain j where "fuel = Suc j" by (cases fuel) simp_all
  with h Nil.prems(5) show ?case by (simp add: bindP_def prog_eqs)
next
  case (Cons q qs)
  have q: "says q" "speakable (pr_requests s) q" "sel q = None" using Cons.prems(2) by simp_all
  have av: "avail (cr_in s) = wire q sid n @ wire_all n sid (qs @ [p]) @ rest"
    using Cons.prems(6) says_facts(4) [OF q(1)] by simp
  obtain msg s1 where h: "recv_message s = (Inr msg, s1)" "decode_message (pr_requests s1) msg = Inr (Some q)"
    "talking n k s1" "avail (cr_in s1) = wire_all n sid (qs @ [p]) @ rest" "pr_skt s1 = pr_skt s"
    "pr_requests s1 = pr_requests s" "todo (cr_in s1) < todo (cr_in s)"
    using hear [OF Cons.prems(1) q(1,2) av] by metis
  from Cons.prems(7) obtain j where j: "fuel = Suc j" by (cases fuel) simp_all
  have "todo (cr_in s1) < j" using h(7) Cons.prems(7) j by simp
  from Cons.IH [OF h(3) _ Cons.prems(3) _ Cons.prems(5) h(4) this] Cons.prems(2,4) h(5,6)
  obtain msg' s' where "expect_loop j sel s1 = (Inr (msg', x), s')" "talking n k s'" "avail (cr_in s') = rest"
    "pr_skt s' = pr_skt s" "pr_requests s' = pr_requests s"
    by auto
  with h(1,2) q(3) j show ?case by (simp add: bindP_def prog_eqs)
qed

lemma expect_hear:
  assumes "talking n k s" and "\<forall>q \<in> set qs. says q \<and> speakable (pr_requests s) q \<and> sel q = None"
    and "says p" and "speakable (pr_requests s) p" and "sel p = Some x"
    and "avail (cr_in s) = wire_all n sid (qs @ [p]) @ rest"
  obtains msg s' where "expect_message sel s = (Inr (msg, x), s')" "talking n k s'" "avail (cr_in s') = rest"
    "pr_skt s' = pr_skt s" "pr_requests s' = pr_requests s"
  using expect_loop_hear [OF assms, of "Suc (todo (cr_in s))"] that by (auto simp: expect_message_def)

lemma command_hear:
  assumes "talking n k s" and "says p" and "speakable (pr_requests s) p" and "avail (cr_in s) = wire p sid n @ rest"
  obtains s' where "recv_command s = (Inr (Some p), s')" "talking n k s'" "avail (cr_in s') = rest"
    "pr_skt s' = pr_skt s" "pr_requests s' = pr_requests s"
proof -
  obtain msg s' where h: "recv_message s = (Inr msg, s')" "decode_message (pr_requests s') msg = Inr (Some p)"
    "carries p msg" "talking n k s'" "avail (cr_in s') = rest" "pr_skt s' = pr_skt s" "pr_requests s' = pr_requests s"
    using hear [OF assms] by metis
  have "mh_message_type (cm_header msg) = RTMP_MSG_AMF0CommandMessage"
    using h(3) says_facts(2) [OF assms(2)] by (simp add: carries_def)
  then have "\<not> identify_ignores (cm_header msg)"
    by (simp add: identify_ignores_def mh_is_ackledgement_def mh_is_set_chunk_size_def
      mh_is_window_ackledgement_size_def mh_is_user_control_message_def mh_is_amf0_command_def)
  with h(1,2) have "recv_command s = (Inr (Some p), s')"
    by (simp add: recv_command_def bindP_def prog_eqs liftR_def)
  with h(4-7) that show thesis by blast
qed

section \<open>Publishing\<close>

text \<open>What the client says in \<^verbatim>\<open>fmle_publish\<close>, and what the server answers.\<close>

definition dbl_4 :: double where "dbl_4 = dbl_of_int 4"

definition publish_asks :: "string \<Rightarrow> packet list" where
  "publish_asks stream = [FMLEStart (create_release_stream stream), FMLEStart (create_FC_publish stream),
     CreateStream (create_stream_new\<lparr>crs_transaction_id := dbl_4\<rparr>)]"

definition publish_last :: "string \<Rightarrow> packet" where
  "publish_last stream = Publish (publish_new\<lparr>pub_stream_name := stream\<rparr>)"

definition publish_answers :: "int \<Rightarrow> packet list" where
  "publish_answers stream_id = [FMLEStartRes (fmle_start_res_new dbl_2), FMLEStartRes (fmle_start_res_new dbl_3),
     CreateStreamRes (create_stream_res_new dbl_4 (dbl_of_int stream_id))]"

lemma dbl_4_eq: "dbl_4 = 0x4010000000000000"
  by (simp add: dbl_4_def dbl_of_int_def floor_log.simps [of 4] floor_log.simps [of 2] floor_log.simps [of "Suc 0"])

lemma dbl_names: "\<not> dbl_nan dbl_2" "\<not> dbl_nan dbl_3" "\<not> dbl_nan dbl_4"
  "dbl_eq dbl_2 dbl_2" "dbl_eq dbl_3 dbl_3" "dbl_eq dbl_4 dbl_4" "\<not> dbl_eq dbl_2 dbl_3" "\<not> dbl_eq dbl_2 dbl_4"
  "\<not> dbl_eq dbl_3 dbl_4"
  by (simp_all add: dbl_2_def dbl_3_def dbl_4_eq dbl_nan_def dbl_eq_def dbl_key_def dbl_magnitude_def)

lemma says_publish [simp]: "\<forall>p \<in> set (publish_asks stream). says p" "\<forall>p \<in> set (publish_answers stream_id). says p"
  "says (publish_last stream)" "says (publish_started ! 0)" "says (publish_started ! 1)"
  by (simp_all add: publish_asks_def publish_answers_def publish_last_def publish_started_def status_packet_def
    create_release_stream_def create_FC_publish_def dbl_names)

lemma speakable_command:
  assumes "packet_ok p" and "says p" and "answers p = None" and "get_size p < 16777216"
    and "first_name p \<noteq> RTMP_AMF0_COMMAND_RESULT" and "first_name p \<noteq> RTMP_AMF0_COMMAND_ERROR"
    and "\<And>h. command_class h (first_name p) = Some (packet_blank p)"
  shows "speakable reqs p"
  using assms says_facts(2) [OF assms(2)]
  by (auto simp: speakable_def understood_def length_packet_enc split: packet.split)

lemma speakable_fmle:
  assumes "length (fml_stream_name p) < 32768" and "\<not> dbl_nan (fml_transaction_id p)"
    and "fml_command_name p = RTMP_AMF0_COMMAND_RELEASE_STREAM \<or> fml_command_name p = RTMP_AMF0_COMMAND_FC_PUBLISH"
  shows "speakable reqs (FMLEStart p)"
  by (rule speakable_command)
    (use assms in \<open>auto simp: fmle_start_ok_def fmle_start_size_def size_str_def size_utf8_def size_number_def size_null_def command_class_def\<close>)

lemma speakable_create:
  assumes "crs_command_name p = RTMP_AMF0_COMMAND_CREATE_STREAM" and "\<not> dbl_nan (crs_transaction_id p)"
  shows "speakable reqs (CreateStream p)"
  by (rule speakable_command)
    (use assms in \<open>auto simp: create_stream_ok_def create_stream_size_def size_str_def size_utf8_def size_number_def size_null_def command_class_def\<close>)

lemma speakable_publish:
  assumes "pub_command_name p = RTMP_AMF0_COMMAND_PUBLISH" and "length (pub_stream_name p) < 32768"
    and "pub_type p = ''live''"
  shows "speakable reqs (Publish p)"
  by (rule speakable_command)
    (use assms in \<open>auto simp: publish_ok_def publish_size_def size_str_def size_utf8_def size_number_def size_null_def command_class_def\<close>)

lemma speakable_asks:
  assumes "length stream < 32768"
  shows "\<forall>p \<in> set (publish_asks stream). speakable reqs p" and "speakable reqs (publish_last stream)"
  using assms
  by (auto simp: publish_asks_def publish_last_def create_release_stream_def create_FC_publish_def fmle_start_new_def
      create_stream_new_def publish_new_def dbl_names intro!: speakable_fmle speakable_create speakable_publish)

text \<open>The answers are understood by the client that has asked.\<close>

definition asked :: "(double \<times> string) list \<Rightarrow> bool" where
  "asked reqs \<longleftrightarrow> requests_find dbl_2 reqs = Some RTMP_AMF0_COMMAND_RELEASE_STREAM
     \<and> requests_find dbl_3 reqs = Some RTMP_AMF0_COMMAND_FC_PUBLISH
     \<and> requests_find dbl_4 reqs = Some RTMP_AMF0_COMMAND_CREATE_STREAM"

lemma asked_after:
  assumes "requests_ok reqs"
  shows "asked (fold requests_after (publish_asks stream) reqs)"
  using assms
  by (simp add: asked_def publish_asks_def create_release_stream_def create_FC_publish_def fmle_start_new_def
    create_stream_new_def requests_find_set requests_ok_set dbl_names)

lemma speakable_answers:
  assumes "asked reqs"
  shows "\<forall>p \<in> set (publish_answers stream_id). speakable reqs p"
  using assms
  by (auto simp: publish_answers_def asked_def speakable_def understood_def length_packet_enc response_class_def
    fmle_start_res_new_def create_stream_res_new_def fmle_start_res_ok_def create_stream_res_ok_def
    fmle_start_res_size_def create_stream_res_size_def size_str_def size_utf8_def size_number_def size_null_def
    size_undefined_def)

lemma publish_asks_eq: "publish_asks stream = [publish_asks stream ! 0, publish_asks stream ! 1, publish_asks stream ! 2]"
  and publish_answers_eq: "publish_answers sid = [publish_answers sid ! 0, publish_answers sid ! 1, publish_answers sid ! 2]"
  by (simp_all add: publish_asks_def publish_answers_def)

lemma in_publish_asks: "publish_asks stream ! 0 \<in> set (publish_asks stream)"
  "publish_asks stream ! 1 \<in> set (publish_asks stream)" "publish_asks stream ! 2 \<in> set (publish_asks stream)"
  and in_publish_answers: "publish_answers sid ! 0 \<in> set (publish_answers sid)"
  "publish_answers sid ! 1 \<in> set (publish_answers sid)" "publish_answers sid ! 2 \<in> set (publish_answers sid)"
  by (simp_all add: publish_asks_def publish_answers_def)

lemmas says_asks = bspec [OF says_publish(1) in_publish_asks(1)] bspec [OF says_publish(1) in_publish_asks(2)]
  bspec [OF says_publish(1) in_publish_asks(3)]

lemmas says_answers = bspec [OF says_publish(2) in_publish_answers(1)] bspec [OF says_publish(2) in_publish_answers(2)]
  bspec [OF says_publish(2) in_publish_answers(3)]

lemma wire_all_says: "\<forall>p \<in> set ps. says p \<Longrightarrow> wire_all n sid ps = concat (map (\<lambda>p. wire p sid n) ps)"
  by (induction ps) (simp_all add: says_facts(4))

lemma client_publishes:
  assumes "talking n k c" and "length stream < 32768" and "- (2 ^ 31) \<le> sid" and "sid < 2 ^ 31"
    and "avail (cr_in c) = wire_all n 0 (publish_answers sid) @ rest"
  obtains c' where "client_fmle_publish stream c = (Inr sid, c')" "talking n k c'" "avail (cr_in c') = rest"
    "os_sent (pr_skt c') = os_sent (pr_skt c) @ wire_all k 0 (publish_asks stream) @ wire (publish_last stream) (word_of_int sid) k"
proof -
  let ?a = "publish_asks stream"
  obtain c1 where c1: "send_and_free_packet (?a ! 0) 0 c = (Inr (), c1)" "talking n k c1" "cr_in c1 = cr_in c"
    "os_sent (pr_skt c1) = os_sent (pr_skt c) @ wire (?a ! 0) 0 k" "pr_requests c1 = requests_after (?a ! 0) (pr_requests c)"
    using tell [OF assms(1) says_asks(1)] by metis
  obtain c2 where c2: "send_and_free_packet (?a ! 1) 0 c1 = (Inr (), c2)" "talking n k c2" "cr_in c2 = cr_in c1"
    "os_sent (pr_skt c2) = os_sent (pr_skt c1) @ wire (?a ! 1) 0 k" "pr_requests c2 = requests_after (?a ! 1) (pr_requests c1)"
    using tell [OF c1(2) says_asks(2)] by metis
  obtain c3 where c3: "send_and_free_packet (?a ! 2) 0 c2 = (Inr (), c3)" "talking n k c3" "cr_in c3 = cr_in c2"
    "os_sent (pr_skt c3) = os_sent (pr_skt c2) @ wire (?a ! 2) 0 k" "pr_requests c3 = requests_after (?a ! 2) (pr_requests c2)"
    using tell [OF c2(2) says_asks(3)] by metis
  have "requests_ok (pr_requests c)" using assms(1) by (simp add: talking_def)
  moreover have "pr_requests c3 = fold requests_after ?a (pr_requests c)"
    by (subst publish_asks_eq) (simp add: c1(5) c2(5) c3(5) del: One_nat_def)
  ultimately have "asked (pr_requests c3)" using asked_after by simp
  note sp = speakable_answers [OF this, of sid]
  have av: "avail (cr_in c3) = wire_all n 0 ([publish_answers sid ! 0, publish_answers sid ! 1] @ [publish_answers sid ! 2]) @ rest"
    unfolding c1(3) c2(3) c3(3) assms(5)
    using arg_cong [where f = "wire_all n 0", OF publish_answers_eq [of sid]] by simp
  have sel: "as_create_stream_res (publish_answers sid ! 0) = None" "as_create_stream_res (publish_answers sid ! 1) = None"
    "as_create_stream_res (publish_answers sid ! 2) = Some (create_stream_res_new dbl_4 (dbl_of_int sid))"
    by (simp_all add: publish_answers_def)
  have skip: "\<forall>q \<in> set [publish_answers sid ! 0, publish_answers sid ! 1].
      says q \<and> speakable (pr_requests c3) q \<and> as_create_stream_res q = None"
    using says_answers(1,2) bspec [OF sp in_publish_answers(1)] bspec [OF sp in_publish_answers(2)] sel(1,2) by simp
  obtain msg c4 where c4: "expect_message as_create_stream_res c3
      = (Inr (msg, create_stream_res_new dbl_4 (dbl_of_int sid)), c4)" "talking n k c4" "avail (cr_in c4) = rest"
      "pr_skt c4 = pr_skt c3" "pr_requests c4 = pr_requests c3"
    using expect_hear [OF c3(2) skip says_answers(3) bspec [OF sp in_publish_answers(3)] sel(3) av] by metis
  have id: "expect_stream_id c3 = (Inr sid, c4)"
    using c4(1) dbl_int_roundtrip [OF assms(3,4)]
    by (simp add: expect_stream_id_def bindP_def liftR_def create_stream_res_new_def)
  obtain c5 where c5: "send_and_free_packet (publish_last stream) (word_of_int sid) c4 = (Inr (), c5)" "talking n k c5"
    "cr_in c5 = cr_in c4" "os_sent (pr_skt c5) = os_sent (pr_skt c4) @ wire (publish_last stream) (word_of_int sid) k"
    using tell [OF c4(2) says_publish(3)] by metis
  have asks: "FMLEStart (create_release_stream stream) = ?a ! 0" "FMLEStart (create_FC_publish stream) = ?a ! 1"
    "CreateStream (create_stream_new\<lparr>crs_transaction_id := dbl_of_int 4\<rparr>) = ?a ! 2"
    by (simp_all add: publish_asks_def dbl_4_def)
  have "client_fmle_publish stream c = (Inr sid, c5)"
    unfolding client_fmle_publish_def asks publish_last_def [symmetric]
      bindP_Inr [where m = "send_and_free_packet (?a ! 0) 0", OF c1(1)]
      bindP_Inr [where m = "send_and_free_packet (?a ! 1) 0", OF c2(1)]
      bindP_Inr [where m = "send_and_free_packet (?a ! 2) 0", OF c3(1)] bindP_Inr [where m = expect_stream_id, OF id]
      bindP_Inr [where m = "send_and_free_packet (publish_last stream) (word_of_int sid)", OF c5(1)]
    by (simp add: prog_eqs)
  moreover have "os_sent (pr_skt c5) = os_sent (pr_skt c) @ wire_all k 0 ?a @ wire (publish_last stream) (word_of_int sid) k"
    unfolding wire_all_says [OF says_publish(1)]
    by (subst publish_asks_eq) (simp add: c1(4) c2(4) c3(4) c4(4) c5(4))
  ultimately show thesis using that [of c5] c5(2,3) c4(3) by simp
qed

lemma expect_first:
  assumes "talking n k s" and "says p" and "speakable (pr_requests s) p" and "avail (cr_in s) = wire p sid n @ rest"
    and "sel p = Some x"
  obtains msg s' where "expect_message sel s = (Inr (msg, x), s')" "talking n k s'" "avail (cr_in s') = rest"
    "pr_skt s' = pr_skt s"
proof -
  have "avail (cr_in s) = wire_all n sid ([] @ [p]) @ rest" using assms(4) by simp
  from expect_hear [where sel = sel, OF assms(1) _ assms(2,3,5) this] that show thesis by auto
qed

lemma on_session_Inr: "m s = (Inr x, s') \<Longrightarrow> on_session m (s, i) = (Inr x, (s', i))"
  by (simp add: on_session_def)

lemma server_identifies:
  assumes "talking k n s" and "length stream < 32768"
    and "avail (cr_in s) = wire (publish_asks stream ! 0) 0 k @ rest"
  obtains s' where "identify_client sid (s, i)
      = (Inr (), (s', i\<lparr>id_type := SrsRtmpConnFMLEPublish, id_stream_name := stream\<rparr>))" "talking k n s'"
    "avail (cr_in s') = rest" "os_sent (pr_skt s') = os_sent (pr_skt s) @ wire (publish_answers sid ! 0) 0 n"
proof -
  let ?a = "publish_asks stream" and ?i = "i\<lparr>id_type := SrsRtmpConnUnknown\<rparr>"
  have "speakable (pr_requests s) (?a ! 0)"
    using bspec [OF speakable_asks(1) [OF assms(2)] in_publish_asks(1)] .
  from command_hear [OF assms(1) says_asks(1) this assms(3)] obtain s1 where s1: "recv_command s = (Inr (Some (?a ! 0)), s1)"
      "talking k n s1" "avail (cr_in s1) = rest" "pr_skt s1 = pr_skt s"
    by metis
  obtain s2 where s2: "send_and_free_packet (publish_answers sid ! 0) 0 s1 = (Inr (), s2)" "talking k n s2"
      "cr_in s2 = cr_in s1" "os_sent (pr_skt s2) = os_sent (pr_skt s1) @ wire (publish_answers sid ! 0) 0 n"
    using tell [OF s1(2) says_answers(1)] by metis
  have c: "?a ! 0 = FMLEStart (create_release_stream stream)" "publish_answers sid ! 0 = FMLEStartRes (fmle_start_res_new dbl_2)"
    "fml_transaction_id (create_release_stream stream) = dbl_2" "fml_stream_name (create_release_stream stream) = stream"
    by (simp_all add: publish_asks_def publish_answers_def create_release_stream_def)
  have "identify_fmle_publish_client (create_release_stream stream) (s1, ?i)
      = (Inr (), (s2, i\<lparr>id_type := SrsRtmpConnFMLEPublish, id_stream_name := stream\<rparr>))"
    using on_session_Inr [where m = "send_and_free_packet (publish_answers sid ! 0) 0", OF s2(1)]
    by (simp add: identify_fmle_publish_client_def set_identity_def bindP_eqs c)
  then have "identify_client sid (s, i) = (Inr (), (s2, i\<lparr>id_type := SrsRtmpConnFMLEPublish, id_stream_name := stream\<rparr>))"
    unfolding identify_client_def set_identity_def bindP_eqs prod.case identify_loop.simps
      bindP_Inr [where m = "on_session recv_command", OF on_session_Inr [where m = recv_command, OF s1(1)]]
    by (simp add: c(1))
  with that s1(3,4) s2(2-4) show thesis by simp
qed

lemma server_accepts:
  assumes "talking k n s" and "length stream < 32768"
    and "avail (cr_in s) = wire (publish_asks stream ! 1) 0 k @ wire (publish_asks stream ! 2) 0 k
      @ wire (publish_last stream) w k @ rest"
  obtains s' where "server_start_fmle_publish sid s = (Inr (), s')" "talking k n s'" "avail (cr_in s') = rest"
    "os_sent (pr_skt s') = os_sent (pr_skt s) @ wire (publish_answers sid ! 1) 0 n @ wire (publish_answers sid ! 2) 0 n
      @ wire_all n (word_of_int sid) publish_started"
proof -
  let ?a = "publish_asks stream" and ?b = "publish_answers sid"
  have a: "?a ! 1 = FMLEStart (create_FC_publish stream)"
    "?a ! 2 = CreateStream (create_stream_new\<lparr>crs_transaction_id := dbl_4\<rparr>)"
    "publish_last stream = Publish (publish_new\<lparr>pub_stream_name := stream\<rparr>)"
    by (simp_all add: publish_asks_def publish_last_def)
  have b: "?b ! 1 = FMLEStartRes (fmle_start_res_new (fml_transaction_id (create_FC_publish stream)))"
    "send_and_free_packet (?b ! 2) 0 = respond_create_stream (create_stream_new\<lparr>crs_transaction_id := dbl_4\<rparr>) sid"
    by (simp_all add: publish_answers_def respond_create_stream_def create_FC_publish_def)
  have sel: "as_fmle_start (?a ! 1) = Some (create_FC_publish stream)"
    "as_create_stream (?a ! 2) = Some (create_stream_new\<lparr>crs_transaction_id := dbl_4\<rparr>)"
    "as_publish (publish_last stream) = Some (publish_new\<lparr>pub_stream_name := stream\<rparr>)"
    by (simp_all only: a as_fmle_start.simps as_create_stream.simps as_publish.simps)
  note sp = bspec [OF speakable_asks(1) [OF assms(2)] in_publish_asks(2)]
    bspec [OF speakable_asks(1) [OF assms(2)] in_publish_asks(3)] speakable_asks(2) [OF assms(2)]
  obtain m1 s1 where s1: "expect_message as_fmle_start s = (Inr (m1, create_FC_publish stream), s1)" "talking k n s1"
      "avail (cr_in s1) = wire (?a ! 2) 0 k @ wire (publish_last stream) w k @ rest" "pr_skt s1 = pr_skt s"
    using expect_first [where sel = as_fmle_start, OF assms(1) says_asks(2) sp(1) assms(3) sel(1)] by metis
  obtain s2 where s2: "send_and_free_packet (?b ! 1) 0 s1 = (Inr (), s2)" "talking k n s2" "cr_in s2 = cr_in s1"
      "os_sent (pr_skt s2) = os_sent (pr_skt s1) @ wire (?b ! 1) 0 n"
    using tell [OF s1(2) says_answers(2)] by metis
  obtain m3 s3 where s3: "expect_message as_create_stream s2
        = (Inr (m3, create_stream_new\<lparr>crs_transaction_id := dbl_4\<rparr>), s3)" "talking k n s3"
      "avail (cr_in s3) = wire (publish_last stream) w k @ rest" "pr_skt s3 = pr_skt s2"
    using expect_first [where sel = as_create_stream, OF s2(2) says_asks(3) sp(2) s1(3) [folded s2(3)] sel(2)] by metis
  obtain s4 where s4: "send_and_free_packet (?b ! 2) 0 s3 = (Inr (), s4)" "talking k n s4" "cr_in s4 = cr_in s3"
      "os_sent (pr_skt s4) = os_sent (pr_skt s3) @ wire (?b ! 2) 0 n"
    using tell [OF s3(2) says_answers(3)] by metis
  obtain m5 s5 where s5: "expect_message as_publish s4 = (Inr (m5, publish_new\<lparr>pub_stream_name := stream\<rparr>), s5)"
      "talking k n s5" "avail (cr_in s5) = rest" "pr_skt s5 = pr_skt s4"
    using expect_first [where sel = as_publish, OF s4(2) says_publish(3) sp(3) s3(3) [folded s4(3)] sel(3)] by metis
  obtain s6 where s6: "send_and_free_packet (publish_started ! 0) (word_of_int sid) s5 = (Inr (), s6)" "talking k n s6"
      "cr_in s6 = cr_in s5" "os_sent (pr_skt s6) = os_sent (pr_skt s5) @ wire (publish_started ! 0) (word_of_int sid) n"
    using tell [OF s5(2) says_publish(4)] by metis
  obtain s7 where s7: "send_and_free_packet (publish_started ! 1) (word_of_int sid) s6 = (Inr (), s7)" "talking k n s7"
      "cr_in s7 = cr_in s6" "os_sent (pr_skt s7) = os_sent (pr_skt s6) @ wire (publish_started ! 1) (word_of_int sid) n"
    using tell [OF s6(2) says_publish(5)] by metis
  have "server_start_fmle_publish sid s = (Inr (), s7)"
    unfolding server_start_fmle_publish_def bindP_Inr [where m = "expect_message as_fmle_start", OF s1(1)] prod.case
      b(1) [symmetric] bindP_Inr [where m = "send_and_free_packet (?b ! 1) 0", OF s2(1)]
      bindP_Inr [where m = "expect_message as_create_stream", OF s3(1)] b(2) [symmetric]
      bindP_Inr [where m = "send_and_free_packet (?b ! 2) 0", OF s4(1)]
      bindP_Inr [where m = "expect_message as_publish", OF s5(1)]
      bindP_Inr [where m = "send_and_free_packet (publish_started ! 0) (word_of_int sid)", OF s6(1)]
    by (rule s7(1))
  moreover have "wire_all n t publish_started = wire (publish_started ! 0) t n @ wire (publish_started ! 1) t n" for t
    using says_facts(4) [OF says_publish(4)] by (simp add: publish_started_def)
  ultimately show thesis
    using that [of s7] s7(2) by (simp add: s1(4) s2(4) s3(4) s4(4) s5(3,4) s6(3,4) s7(3,4))
qed

text \<open>C4: The client and the server of this program agree on publishing. Give each the bytes that
  the other is to say (in any pieces, over fresh sessions or sessions that have talked before, as long as neither side
  was asked for acknowledgements, and with a name of less than 32768 characters): the client asks to release the name, to
  publish it and for a stream, gets the id that the server chose and publishes on it; the server finds out
  that the client publishes, under exactly this name, and follows to the end. Each has then said
  exactly what the other was given, and nothing is left over but the two status messages that the server ends with.\<close>

theorem fmle_publish_dialogue:
  assumes "talking n k c" and "talking k n s" and "length stream < 32768" and "- (2 ^ 31) \<le> sid" and "sid < 2 ^ 31"
    and "avail (cr_in c) = wire_all n 0 (publish_answers sid) @ rest"
    and "avail (cr_in s) = wire_all k 0 (publish_asks stream) @ wire (publish_last stream) (word_of_int sid) k"
  shows "\<exists>c' s' i'. client_fmle_publish stream c = (Inr sid, c') \<and> avail (cr_in c') = rest
    \<and> os_sent (pr_skt c') = os_sent (pr_skt c) @ wire_all k 0 (publish_asks stream)
        @ wire (publish_last stream) (word_of_int sid) k
    \<and> bindP (identify_client sid) (\<lambda>_. on_session (server_start_fmle_publish sid)) (s, i) = (Inr (), (s', i'))
    \<and> id_type i' = SrsRtmpConnFMLEPublish \<and> id_stream_name i' = stream \<and> avail (cr_in s') = []
    \<and> os_sent (pr_skt s') = os_sent (pr_skt s) @ wire_all n 0 (publish_answers sid)
        @ wire_all n (word_of_int sid) publish_started"
proof -
  let ?a = "publish_asks stream" and ?b = "publish_answers sid"
  obtain c' where c: "client_fmle_publish stream c = (Inr sid, c')" "avail (cr_in c') = rest"
    "os_sent (pr_skt c') = os_sent (pr_skt c) @ wire_all k 0 ?a @ wire (publish_last stream) (word_of_int sid) k"
    using client_publishes [OF assms(1,3-6)] by metis
  have asked: "wire_all k 0 ?a = wire (?a ! 0) 0 k @ wire (?a ! 1) 0 k @ wire (?a ! 2) 0 k"
    unfolding wire_all_says [OF says_publish(1)] by (subst publish_asks_eq) simp
  have answered: "wire_all n 0 ?b = wire (?b ! 0) 0 n @ wire (?b ! 1) 0 n @ wire (?b ! 2) 0 n"
    unfolding wire_all_says [OF says_publish(2)] by (subst publish_answers_eq) simp
  have "avail (cr_in s) = wire (?a ! 0) 0 k @ wire (?a ! 1) 0 k @ wire (?a ! 2) 0 k
      @ wire (publish_last stream) (word_of_int sid) k"
    using assms(7) asked by simp
  from server_identifies [OF assms(2,3) this, of sid i] obtain s1 where s1: "identify_client sid (s, i)
      = (Inr (), (s1, i\<lparr>id_type := SrsRtmpConnFMLEPublish, id_stream_name := stream\<rparr>))" "talking k n s1"
      "avail (cr_in s1) = wire (?a ! 1) 0 k @ wire (?a ! 2) 0 k @ wire (publish_last stream) (word_of_int sid) k @ []"
      "os_sent (pr_skt s1) = os_sent (pr_skt s) @ wire (?b ! 0) 0 n"
    by auto
  obtain s2 where s2: "server_start_fmle_publish sid s1 = (Inr (), s2)" "avail (cr_in s2) = []"
      "os_sent (pr_skt s2) = os_sent (pr_skt s1) @ wire (?b ! 1) 0 n @ wire (?b ! 2) 0 n
        @ wire_all n (word_of_int sid) publish_started"
    using server_accepts [OF s1(2) assms(3) s1(3), of sid] by metis
  have "bindP (identify_client sid) (\<lambda>_. on_session (server_start_fmle_publish sid)) (s, i)
      = (Inr (), (s2, i\<lparr>id_type := SrsRtmpConnFMLEPublish, id_stream_name := stream\<rparr>))"
    using on_session_Inr [where m = "server_start_fmle_publish sid", OF s2(1)]
    by (simp add: bindP_Inr [where m = "identify_client sid", OF s1(1)])
  with c s2(2,3) s1(4) show ?thesis by (auto simp: answered)
qed

lemma talking_new:
  assumes "\<forall>bs. Arrives bs \<in> set es \<longrightarrow> bs \<noteq> []"
  shows "talking 128 128 (protocol_new es [] junk)"
proof -
  have "(protocol_new es [] junk)\<lparr>pr_requests := []\<rparr> = protocol_new es [] junk"
    by (simp add: protocol_new_def)
  with in_sync_new [OF assms, where junk = junk and reqs = "[]"] have "in_sync 128 (protocol_new es [] junk)" by simp
  then show ?thesis
    by (simp add: talking_def) (simp add: protocol_new_def ack_window_new_def requests.inv_empty
      SRS_CONSTS_RTMP_PROTOCOL_CHUNK_SIZE_def)
qed

lemma avail_protocol_new: "avail (cr_in (protocol_new [Arrives bs] [] junk)) = bs"
  by (simp add: protocol_new_def avail_def fs_new_def fs_bytes_def)

lemma wire_ne:
  assumes "says p" and "0 < n"
  shows "wire p sid n \<noteq> []"
proof -
  have "packet_enc p \<noteq> []" using get_size_pos [OF says_facts(1) [OF assms(1)]] length_packet_enc [of p] by auto
  with assms(2) show ?thesis by (simp add: wire_def message_bytes_def)
qed

theorem fmle_publish_dialogue_witness:
  "let c = protocol_new [Arrives (wire_all 128 0 (publish_answers 1))] [] (\<lambda>_. 0);
       s = protocol_new [Arrives (wire_all 128 0 (publish_asks ''livestream'') @ wire (publish_last ''livestream'') 1 128)] [] (\<lambda>_. 0);
       i = \<lparr>id_type = SrsRtmpConnUnknown, id_stream_name = [], id_duration = 0\<rparr> in
   \<exists>c' s' i'. client_fmle_publish ''livestream'' c = (Inr 1, c') \<and> avail (cr_in c') = []
    \<and> bindP (identify_client 1) (\<lambda>_. on_session (server_start_fmle_publish 1)) (s, i) = (Inr (), (s', i'))
    \<and> id_type i' = SrsRtmpConnFMLEPublish \<and> id_stream_name i' = ''livestream''"
proof -
  let ?b = "wire_all 128 0 (publish_answers 1)"
    and ?a = "wire_all 128 0 (publish_asks ''livestream'') @ wire (publish_last ''livestream'') (word_of_int 1) 128"
  have ne: "?b \<noteq> []" "?a \<noteq> []" using wire_ne by (simp_all add: publish_answers_def)
  have t: "talking 128 128 (protocol_new [Arrives ?b] [] (\<lambda>_. 0))" "talking 128 128 (protocol_new [Arrives ?a] [] (\<lambda>_. 0))"
    using ne by (simp_all add: talking_new)
  have "avail (cr_in (protocol_new [Arrives ?b] [] (\<lambda>_. 0))) = ?b @ []" by (simp add: avail_protocol_new)
  from fmle_publish_dialogue [OF t _ _ _ this avail_protocol_new,
      where i = "\<lparr>id_type = SrsRtmpConnUnknown, id_stream_name = [], id_duration = 0\<rparr>"]
  show ?thesis by (auto simp: Let_def)
qed

end
