(* ===== verification/Spec2Isabelle.thy ===== *)
theory Spec2Isabelle
  imports Srs_Protocol_Session Srs_Source_Aggregate Srs_Source_Expiry Srs_Source_Format Srs_Format_Config
    Srs_Flv_Vod_Laws Srs_Rtmp_Dialogue
begin

text \<open>
  A verification development for the core of the SRS RTMP server: from the bytes of a connection
  to the messages of the protocol, and from the messages of a publisher to those of its players.

  The program. A publisher connects over RTMP. \<^verbatim>\<open>SrsFastStream\<close> buffers the bytes of the socket;
  \<^verbatim>\<open>SrsProtocol\<close> reads chunks from it, assembles them to messages (\<^verbatim>\<open>SrsCommonMessage\<close>), reacts to
  the control messages among them (acknowledgements, chunk size, ping) and decodes messages to
  packets, whose fields are AMF0 values in an \<^verbatim>\<open>SrsBuffer\<close>. Audio, video, metadata and aggregate
  messages go to the \<^verbatim>\<open>SrsSource\<close> of the stream. It makes shared messages of them
  (\<^verbatim>\<open>SrsSharedPtrMessage\<close>, whose payload is counted), keeps the last metadata and headers
  (\<^verbatim>\<open>SrsMetaCache\<close>) and the last group of pictures (\<^verbatim>\<open>SrsGopCache\<close>), puts mixed streams in order
  (\<^verbatim>\<open>SrsMixQueue\<close>) and copies every message to the \<^verbatim>\<open>SrsConsumer\<close> of each player, which corrects
  the times (\<^verbatim>\<open>SrsRtmpJitter\<close>) and queues the message (\<^verbatim>\<open>SrsMessageQueue\<close> over \<^verbatim>\<open>SrsFastVector\<close>).
  The connection of a player dumps this queue and sends the messages, again by \<^verbatim>\<open>SrsProtocol\<close>.

  Conventions (\<^verbatim>\<open>Srs_Prelude\<close>). A fallible function returns \<^typ>\<open>'a res\<close>: an error code of
  \<^verbatim>\<open>srs_kernel_error.hpp\<close>, or one of three values for what the code must never do:
  \<^const>\<open>ASSERT_FAILED\<close> (a violated \<^verbatim>\<open>srs_assert\<close>), \<^const>\<open>UNDEFINED_BEHAVIOUR\<close> (an access outside of an
  array, of an unwritten cell, of freed memory or of \<^verbatim>\<open>NULL\<close>) and \<^const>\<open>OUT_OF_FUEL\<close> (a loop that did
  not end). A stateful function maps a state to a result and a state, and keeps the changes it
  made before an error. Integers have the width of the code; a 32-bit or 64-bit addition wraps, also where C++ leaves the overflow of a signed one undefined.
  Memory that the code does not initialize is an arbitrary function \<open>junk\<close> or a cell without a
  value. Locations in the texts are files and functions below \<^verbatim>\<open>src/src\<close>.

  The theories, from the bottom.

  \<^item> \<^verbatim>\<open>Srs_Buffer\<close>: \<^verbatim>\<open>kernel/srs_kernel_buffer.cpp\<close>, the cursor over bytes and the bit reader. The
    locale \<open>field_codec\<close> is what a writer and a reader of one field promise each other.
  \<^item> \<^verbatim>\<open>Srs_Amf0\<close>, \<^verbatim>\<open>Srs_Amf0_Codec\<close>, \<^verbatim>\<open>Srs_Amf0_Safety\<close>: \<^verbatim>\<open>protocol/srs_protocol_amf0.cpp\<close>. Values
    as one datatype, the property table (locale \<open>property_table\<close>), readers, writers, sizes,
    copies. Round trip of every value, exact size of what is written, safety of the reader on any
    bytes. The reader has its nesting depth as fuel; the number of bytes left is enough.
  \<^item> \<^verbatim>\<open>Srs_Flv_Message\<close>: \<^verbatim>\<open>kernel/srs_kernel_flv.cpp\<close> up to the chunk headers of shared messages, and
    the chunk headers of \<^verbatim>\<open>kernel/srs_kernel_utility.cpp\<close>. Shared payloads live in a heap with
    explicit reference counts; a payload lives exactly as long as a message uses it.
  \<^item> \<^verbatim>\<open>Srs_Fast_Stream\<close>: \<^verbatim>\<open>protocol/srs_protocol_stream.cpp\<close>. The socket is the list of what its
    reads will give, so that every statement is for every fragmentation of the input.
  \<^item> \<^verbatim>\<open>Srs_Chunk\<close>, \<^verbatim>\<open>Srs_Chunk_Safety\<close>: the chunk reader of \<^verbatim>\<open>protocol/srs_rtmp_stack.cpp\<close>, its
    safety on any input and the reassembly of interleaved messages.
  \<^item> \<^verbatim>\<open>Srs_Send\<close>: the two senders and \<^verbatim>\<open>srs_write_large_iovs\<close>; what is on the wire is exactly the
    chunks of the messages, or a prefix of them and the error of the socket.
  \<^item> \<^verbatim>\<open>Srs_Packet\<close>, \<^verbatim>\<open>Srs_Packet_Codec\<close>: every packet class with its constructor, size, decoder and
    encoder. The locales \<open>packet_writer\<close> and \<open>packet_codec\<close> are the contract of a class; each class
    is an interpretation.
  \<^item> \<^verbatim>\<open>Srs_Protocol\<close>, \<^verbatim>\<open>Srs_Protocol_Safety\<close>, \<^verbatim>\<open>Srs_Protocol_Recv\<close>, \<^verbatim>\<open>Srs_Protocol_Session\<close>:
    \<^verbatim>\<open>SrsProtocol\<close>. The loop of \<^verbatim>\<open>recv_message\<close> has as fuel the bytes that the socket will give, of
    which each round uses some. Messages decode without a violated assertion, control messages
    have the effect of their packet, acknowledgements are exact, the table of requests (locale
    \<open>request_table\<close>) finds the last request of an id, and a conversation of two sessions arrives as
    it was sent.
  \<^item> \<^verbatim>\<open>Srs_Live\<close>: ownership. The queues and caches of a source own a multiset of messages; the
    operations on shared messages are described by what they do to it.
  \<^item> \<^verbatim>\<open>Srs_Flv_Codec\<close>: the predicates on the first bytes of a payload (\<^verbatim>\<open>kernel/srs_kernel_codec.cpp\<close>).
    This theory and the following ones model \<^verbatim>\<open>app/srs_app_source.cpp\<close>.
  \<^item> \<^verbatim>\<open>Srs_Fast_Vector\<close> (locale \<open>vector\<close>), \<^verbatim>\<open>Srs_Message_Queue\<close>, \<^verbatim>\<open>Srs_Consumer\<close>, \<^verbatim>\<open>Srs_Player\<close>: the
    queue of a player, first in first out and bounded in time; the correction of times; and the
    consumer as a list of frames. The loop of \<^verbatim>\<open>enqueue\<close> has two rounds of fuel: the first makes
    the queue short enough, if its size is not negative.
  \<^item> \<^verbatim>\<open>Srs_Gop_Cache\<close>, \<^verbatim>\<open>Srs_Mix_Queue\<close>, \<^verbatim>\<open>Srs_Meta_Cache\<close>: the caches of the source, each shown to do
    what a function on lists of frames does. \<^verbatim>\<open>Srs_Meta_Cache\<close> also has the interface of a source
    to the rest of the server: the calls \<open>ext_call\<close> and the law \<open>server_law\<close> (it owns the copies that
    it keeps and leaves the other messages alone; its errors, faults included, are any set \<open>E\<close>).
  \<^item> \<^verbatim>\<open>Srs_Source\<close>: every operation of \<^verbatim>\<open>SrsSource\<close> on one stream. A message in an aggregate takes at
    least 15 bytes, so one round for each byte is enough for the loop of \<^verbatim>\<open>on_aggregate\<close>.
  \<^item> \<^verbatim>\<open>Srs_Source_Safety\<close>: the life of a source as a list of events (what publisher, players,
    configuration and edge do, in any order) and its invariant: each message has exactly one
    owner and the counters are exact, so nothing is used after it was freed, or leaked. A reload changes the
    configuration that the operations after it read.
  \<^item> \<^verbatim>\<open>Srs_Source_Format\<close>: \<^verbatim>\<open>SrsRtmpFormat\<close> of \<^verbatim>\<open>protocol/srs_protocol_format.cpp\<close>, the demuxer on shared
    messages (a type of its own: the formats that messages lead to), and the source together with the two
    formats of its header cache: it is safe up to what the rest of the server reports, but for an
    assertion of the demuxer that a cut sequence header violates.
  \<^item> \<^verbatim>\<open>Srs_Stream\<close>, \<^verbatim>\<open>Srs_Source_Delivery\<close>, \<^verbatim>\<open>Srs_Source_Refines\<close>: the abstract stream (frames, caches
    and players without payloads, counters, callbacks) and the simulation: over its whole life a
    source shows its players what the abstract stream shows them.
  \<^item> \<^verbatim>\<open>Srs_Source_Aggregate\<close>: an aggregate is the sequence of the messages packed in it.
  \<^item> \<^verbatim>\<open>Srs_Source_Expiry\<close>: since when a source is unused, and when \<^verbatim>\<open>expired()\<close> says so (the code that
    would then remove it is disabled).
  \<^item> \<^verbatim>\<open>Srs_Avc\<close>, \<^verbatim>\<open>Srs_Format\<close>: the demuxer \<^verbatim>\<open>SrsFormat\<close> of \<^verbatim>\<open>kernel/srs_kernel_codec.cpp\<close> with the
    Exp-Golomb codes and start codes of \<^verbatim>\<open>kernel/srs_kernel_utility.cpp\<close>. The two loops over NAL units
    have the bytes of the message as fuel, of which each round takes at least one.
  \<^item> \<^verbatim>\<open>Srs_Format_Safety\<close>: triples of a precondition, a program and what holds after a result and
    after an error; with them the safety of the demuxer on any message, and the cases where it is not.
  \<^item> \<^verbatim>\<open>Srs_Format_Samples\<close>, \<^verbatim>\<open>Srs_Sps\<close>, \<^verbatim>\<open>Srs_Format_Config\<close>: the samples are the NAL units of the
    message; encoders of the sequence parameter set, of the emulation prevention and of the decoder
    configuration record, and that the demuxer inverts them.
  \<^item> \<^verbatim>\<open>Srs_File\<close>: \<^verbatim>\<open>kernel/srs_kernel_file.cpp\<close> over the system calls on a regular file, each of
    which may fail or be cut short as a plan says.
  \<^item> \<^verbatim>\<open>Srs_Flv_File\<close>: the FLV muxer and the two decoders of \<^verbatim>\<open>kernel/srs_kernel_flv.cpp\<close>.
    \<^verbatim>\<open>Srs_Flv_File_Laws\<close>: what the muxer writes is read back, many tags at once as one at a time.
    \<^verbatim>\<open>Srs_Flv_Vod_Laws\<close>: the scan for the sequence headers, whose fuel is the bytes of the file, of
    which each round reads at least one.
  \<^item> \<^verbatim>\<open>Srs_Url\<close>, \<^verbatim>\<open>Srs_Url_Laws\<close>: the helpers on strings of \<^verbatim>\<open>kernel/srs_kernel_utility.cpp\<close>, the URLs
    of \<^verbatim>\<open>protocol/srs_protocol_utility.cpp\<close> and \<^verbatim>\<open>SrsRequest\<close>; which replacements end, that the
    address of a redirection is understood, and how a query string is. A replacement has a round for each character as fuel.
  \<^item> \<^verbatim>\<open>Srs_Dialogue\<close>, \<^verbatim>\<open>Srs_Rtmp_Server\<close>, \<^verbatim>\<open>Srs_Rtmp_Client\<close>: waiting for a packet, and the commands of
    \<^verbatim>\<open>SrsRtmpServer\<close> and \<^verbatim>\<open>SrsRtmpClient\<close>, from connecting to publishing and playing. Each round of a
    loop receives a message, so the bytes that can still come are its fuel.
  \<^item> \<^verbatim>\<open>Srs_Dialogue_Safety\<close>: every dialogue of both ends, on any input, ends with a session that can go
    on. \<^verbatim>\<open>Srs_Rtmp_Dialogue\<close>: a client and a server that read what the other one writes agree on
    publishing a stream.

  What the development assumes. Code outside of the repository or outside of the model is a
  parameter: the socket (what its reads give, which writes succeed), and for a source the rest of
  the server with the named law \<open>server_law\<close>, the clock and the state of the edge. The code runs
  on coroutines that switch only at blocking calls; an operation of a source is atomic here, which
  it is in the code as far as the calls it makes do not block.

  Not modelled. The RTMP handshake, which needs the cryptography of OpenSSL; the containers TS, MP4, AAC and MP3; HLS, DVR, DASH, forwarding and the hub that
  drives them; the edge, whose files are not in the repository; the pool of sources; HTTP, JSON, RTSP
  and Kafka; configuration, statistics, logging and the wrappers of coroutines. JSON
  conversion and printing of AMF0 values only serve logs and are left out. \<^verbatim>\<open>src/simple-server\<close> holds
  reduced copies of the application.
\<close>

end
